(* ===== verification/Go_Prelude.thy ===== *)
theory Go_Prelude
  imports Complex_Main "HOL-Library.List_Lexorder" "HOL-Library.Char_ord"
    "HOL-Library.Product_Lexorder" "HOL-Library.Sublist" "HOL-Library.Multiset"
    "HOL-Library.AList"
begin

text \<open>
  The fragment of Go and of its standard library that the modelled components share:
  \<^item> strings (\<open>strings.HasPrefix\<close>, \<open>CutPrefix\<close>, \<open>TrimPrefix\<close>, \<open>Split\<close>, \<open>Join\<close>, \<open>Cut\<close>,
    \<open>TrimSpace\<close>, \<open>ToUpper\<close>, \<open>ToLower\<close>, \<open>EqualFold\<close>) on byte strings; the case operations act
    on the ASCII letters;
  \<^item> \<open>strconv.Itoa\<close> and \<open>strconv.Atoi\<close> with the range of a 64-bit \<open>int\<close>;
  \<^item> binary64 arithmetic, as exact rational arithmetic followed by a rounding \<open>rnd\<close> that is an
    argument of every definition that divides;
  \<^item> maps: a map that is only looked up is a HOL map \<open>'k \<rightharpoonup> 'v\<close>, a map that is ranged over is an
    association list with distinct keys (\<open>AList.update\<close>, \<open>AList.delete\<close>, \<open>map_of\<close>), and the
    unspecified order of \<open>range\<close> is an argument \<open>ord\<close> with the hypothesis \<open>range_order ord\<close>;
  \<^item> errors as \<open>Inl\<close> of a sum, with the bind \<open>try_bind\<close>.
  Strings are ordered bytewise, as Go orders them (theories Char\_ord and List\_Lexorder).
\<close>

named_theorems go_defs \<open>unfolding the string and map operations of the model\<close>
named_theorems inv_intros \<open>operations keep the invariant of their component\<close>

subsection \<open>Errors as values\<close>

definition try_bind :: "'e + 'a \<Rightarrow> ('a \<Rightarrow> 'e + 'b) \<Rightarrow> 'e + 'b" where
  "try_bind m f = (case m of Inl e \<Rightarrow> Inl e | Inr a \<Rightarrow> f a)"

lemma try_bind_simps [simp]:
  "try_bind (Inl e) f = Inl e" "try_bind (Inr a) f = f a"
  by (simp_all add: try_bind_def)

lemma try_bind_eq_Inr:
  "try_bind m f = Inr b \<longleftrightarrow> (\<exists>a. m = Inr a \<and> f a = Inr b)"
  by (cases m) auto

text \<open>What a read of one object of the cluster gives.\<close>

datatype 'a fetched = Found 'a | Missing | FetchError string

subsection \<open>Strings\<close>

definition cutPrefix :: "string \<Rightarrow> string \<Rightarrow> string option" where
  "cutPrefix s p = (if prefix p s then Some (drop (length p) s) else None)"

definition trimPrefix :: "string \<Rightarrow> string \<Rightarrow> string" where
  "trimPrefix s p = (if prefix p s then drop (length p) s else s)"

lemma cutPrefix_append [simp]: "cutPrefix (p @ s) p = Some s"
  by (simp add: cutPrefix_def)

lemma cutPrefix_eq_Some [simp]: "cutPrefix s p = Some r \<longleftrightarrow> s = p @ r"
  by (auto simp: cutPrefix_def prefix_def)

lemma trimPrefix_append [simp]: "trimPrefix (p @ s) p = s"
  by (simp add: trimPrefix_def)

text \<open>\<open>strings.Split(s, c)\<close> for a separator of one byte, and \<open>strings.Join\<close>.\<close>

fun splitOn :: "char \<Rightarrow> string \<Rightarrow> string list" where
  "splitOn c [] = [[]]"
| "splitOn c (x # xs) =
     (if x = c then [] # splitOn c xs
      else (case splitOn c xs of [] \<Rightarrow> [[x]] | w # ws \<Rightarrow> (x # w) # ws))"

fun joinWith :: "char \<Rightarrow> string list \<Rightarrow> string" where
  "joinWith c [] = []"
| "joinWith c [w] = w"
| "joinWith c (w # ws) = w @ c # joinWith c ws"

definition joinStr :: "string \<Rightarrow> string list \<Rightarrow> string" where
  "joinStr sep ss = (case ss of [] \<Rightarrow> [] | s # rest \<Rightarrow> s @ concat (map (\<lambda>t. sep @ t) rest))"

lemma splitOn_not_Nil [simp]: "splitOn c s \<noteq> []"
  by (induction s) (auto split: list.splits)

lemma joinWith_splitOn [simp]: "joinWith c (splitOn c s) = s"
proof (induction s)
  case (Cons x xs)
  obtain w ws where "splitOn c xs = w # ws" by (cases "splitOn c xs") auto
  with Cons show ?case by (cases ws) auto
qed simp

lemma splitOn_no_sep: "w \<in> set (splitOn c s) \<Longrightarrow> c \<notin> set w"
proof (induction s arbitrary: w)
  case (Cons x xs)
  obtain v vs where "splitOn c xs = v # vs" by (cases "splitOn c xs") auto
  with Cons show ?case by (auto split: if_splits)
qed simp

lemma splitOn_append_sep:
  "c \<notin> set w \<Longrightarrow> splitOn c (w @ c # s) = w # splitOn c s"
  by (induction w) auto

lemma splitOn_single: "c \<notin> set w \<Longrightarrow> splitOn c w = [w]"
  by (induction w) auto

lemma splitOn_append:
  "splitOn c (s @ c # t) = splitOn c s @ splitOn c t"
proof (induction s)
  case (Cons x xs)
  obtain w ws where "splitOn c xs = w # ws" by (cases "splitOn c xs") auto
  with Cons show ?case by auto
qed simp

lemma joinWith_append:
  "xs \<noteq> [] \<Longrightarrow> ys \<noteq> [] \<Longrightarrow> joinWith c (xs @ ys) = joinWith c xs @ c # joinWith c ys"
proof (induction xs)
  case (Cons x xs)
  obtain y ys' where "ys = y # ys'" using Cons.prems by (cases ys) auto
  with Cons show ?case by (cases xs) auto
qed simp

definition isUpperAscii :: "char \<Rightarrow> bool" where
  "isUpperAscii c \<longleftrightarrow> CHR ''A'' \<le> c \<and> c \<le> CHR ''Z''"

definition isLowerAscii :: "char \<Rightarrow> bool" where
  "isLowerAscii c \<longleftrightarrow> CHR ''a'' \<le> c \<and> c \<le> CHR ''z''"

definition toUpper :: "string \<Rightarrow> string" where
  "toUpper = map (\<lambda>c. if isLowerAscii c then char_of (of_char c - 32 :: nat) else c)"

definition toLower :: "string \<Rightarrow> string" where
  "toLower = map (\<lambda>c. if isUpperAscii c then char_of (of_char c + 32 :: nat) else c)"

definition equalFold :: "string \<Rightarrow> string \<Rightarrow> bool" where
  "equalFold s t \<longleftrightarrow> toLower s = toLower t"

definition isSpace :: "char \<Rightarrow> bool" where
  "isSpace c \<longleftrightarrow> c \<in> {CHR '' '', CHR 0x09, CHR 0x0A, CHR 0x0B, CHR 0x0C, CHR 0x0D}"

definition trimSpace :: "string \<Rightarrow> string" where
  "trimSpace s = rev (dropWhile isSpace (rev (dropWhile isSpace s)))"

definition containsChar :: "char \<Rightarrow> string \<Rightarrow> bool" where
  "containsChar c s \<longleftrightarrow> c \<in> set s"

text \<open>\<open>strings.Cut(s, c)\<close>: before and after the first separator, or not found.\<close>

fun cutAt :: "char \<Rightarrow> string \<Rightarrow> (string \<times> string) option" where
  "cutAt c [] = None"
| "cutAt c (x # xs) = (if x = c then Some ([], xs) else map_option (\<lambda>(a, b). (x # a, b)) (cutAt c xs))"

lemma cutAt_Some: "cutAt c s = Some (a, b) \<Longrightarrow> s = a @ c # b \<and> c \<notin> set a"
  by (induction s arbitrary: a) (auto split: if_splits)

lemma cutAt_append: "c \<notin> set a \<Longrightarrow> cutAt c (a @ c # b) = Some (a, b)"
  by (induction a) auto

lemma cutAt_None: "cutAt c s = None \<longleftrightarrow> c \<notin> set s"
  by (induction s) auto

subsection \<open>strconv\<close>

definition digitChar :: "nat \<Rightarrow> char" where
  "digitChar d = char_of (48 + d)"

definition digitVal :: "char \<Rightarrow> nat option" where
  "digitVal c = (let v = (of_char c :: nat) in if 48 \<le> v \<and> v \<le> 57 then Some (v - 48) else None)"

lemma digitVal_digitChar [simp]: "d < 10 \<Longrightarrow> digitVal (digitChar d) = Some d"
  by (simp add: digitVal_def digitChar_def Let_def)

fun natDigits :: "nat \<Rightarrow> string" where
  "natDigits n = (if n < 10 then [digitChar n] else natDigits (n div 10) @ [digitChar (n mod 10)])"

declare natDigits.simps [simp del]

fun parseDigits :: "nat \<Rightarrow> string \<Rightarrow> nat option" where
  "parseDigits acc [] = Some acc"
| "parseDigits acc (c # cs) =
     (case digitVal c of None \<Rightarrow> None | Some d \<Rightarrow> parseDigits (10 * acc + d) cs)"

lemma natDigits_not_Nil [simp]: "natDigits n \<noteq> []"
  by (subst natDigits.simps) simp

lemma parseDigits_append:
  "parseDigits acc (xs @ ys) =
     (case parseDigits acc xs of None \<Rightarrow> None | Some v \<Rightarrow> parseDigits v ys)"
  by (induction xs arbitrary: acc) (auto split: option.splits)

lemma parseDigits_natDigits: "parseDigits 0 (natDigits n) = Some n"
proof (induction n rule: natDigits.induct)
  case (1 n)
  show ?case
  proof (cases "n < 10")
    case True
    then show ?thesis by (simp add: natDigits.simps [of n])
  next
    case False
    with 1 show ?thesis by (simp add: natDigits.simps [of n] parseDigits_append)
  qed
qed

lemma natDigits_hd: "hd (natDigits n) \<in> digitChar ` {0..<10}"
proof (induction n rule: natDigits.induct)
  case (1 n)
  show ?case
  proof (cases "n < 10")
    case True
    then show ?thesis by (subst natDigits.simps) auto
  next
    case False
    with 1 show ?thesis by (subst natDigits.simps) auto
  qed
qed

lemma natDigits_not_sign: "natDigits n = c # cs \<Longrightarrow> c \<noteq> CHR ''-'' \<and> c \<noteq> CHR ''+''"
proof -
  assume "natDigits n = c # cs"
  then have "c \<in> digitChar ` {0..<10}" using natDigits_hd [of n] by simp
  then obtain d where "d < 10" "c = digitChar d" by auto
  then have v: "digitVal c = Some d" by simp
  show ?thesis
  proof (rule ccontr)
    assume "\<not> ?thesis"
    with v show False by (auto simp: digitVal_def)
  qed
qed

definition maxInt :: int where "maxInt = 2 ^ 63 - 1"
definition minInt :: int where "minInt = - (2 ^ 63)"

definition itoa :: "int \<Rightarrow> string" where
  "itoa i = (if i < 0 then CHR ''-'' # natDigits (nat (- i)) else natDigits (nat i))"

definition inIntRange :: "int \<Rightarrow> int option" where
  "inIntRange v = (if minInt \<le> v \<and> v \<le> maxInt then Some v else None)"

fun atoi :: "string \<Rightarrow> int option" where
  "atoi [] = None"
| "atoi (c # cs) =
     (if c = CHR ''-'' \<or> c = CHR ''+'' then
        (if cs = [] then None
         else case parseDigits 0 cs of None \<Rightarrow> None
              | Some n \<Rightarrow> inIntRange (if c = CHR ''-'' then - int n else int n))
      else case parseDigits 0 (c # cs) of None \<Rightarrow> None | Some n \<Rightarrow> inIntRange (int n))"

lemma atoi_itoa_nonneg: "0 \<le> i \<Longrightarrow> i \<le> maxInt \<Longrightarrow> atoi (itoa i) = Some i"
proof -
  assume i: "0 \<le> i" "i \<le> maxInt"
  obtain c cs where c: "natDigits (nat i) = c # cs" by (cases "natDigits (nat i)") auto
  have "parseDigits 0 (c # cs) = Some (nat i)" using parseDigits_natDigits [of "nat i"] c by simp
  moreover have "c \<noteq> CHR ''-''" "c \<noteq> CHR ''+''" using natDigits_not_sign [OF c] by auto
  ultimately show ?thesis using i by (simp add: itoa_def c inIntRange_def minInt_def)
qed

lemma itoa_inj_nonneg: "0 \<le> i \<Longrightarrow> 0 \<le> j \<Longrightarrow> itoa i = itoa j \<Longrightarrow> i = j"
proof -
  assume a: "0 \<le> i" "0 \<le> j" "itoa i = itoa j"
  then have "natDigits (nat i) = natDigits (nat j)" by (simp add: itoa_def)
  then have "Some (nat i) = Some (nat j)" by (metis parseDigits_natDigits)
  with a show ?thesis by simp
qed

subsection \<open>Binary64 arithmetic up to rounding\<close>

definition f64 :: "(rat \<Rightarrow> rat) \<Rightarrow> int \<Rightarrow> rat" where
  "f64 rnd n = rnd (of_int n)"

definition fdiv :: "(rat \<Rightarrow> rat) \<Rightarrow> rat \<Rightarrow> rat \<Rightarrow> rat" where
  "fdiv rnd x y = rnd (x / y)"

text \<open>What the code relies on of the rounding: it is monotone and exact on small integers.\<close>

definition rounding :: "(rat \<Rightarrow> rat) \<Rightarrow> bool" where
  "rounding rnd \<longleftrightarrow> mono rnd \<and> (\<forall>n. \<bar>n\<bar> \<le> 2 ^ 53 \<longrightarrow> rnd (of_int n) = of_int n)"

lemma rounding_id: "rounding (\<lambda>x. x)"
  by (simp add: rounding_def mono_def)

subsection \<open>Maps\<close>

definition range_order :: "('a list \<Rightarrow> 'a list) \<Rightarrow> bool" where
  "range_order ord \<longleftrightarrow> (\<forall>xs. mset (ord xs) = mset xs)"

lemma range_order_set: "range_order ord \<Longrightarrow> set (ord xs) = set xs"
  unfolding range_order_def by (metis set_mset_mset)

lemma range_order_distinct: "range_order ord \<Longrightarrow> distinct (ord xs) = distinct xs"
  unfolding range_order_def by (metis mset_eq_imp_distinct_iff)

lemma range_order_keys: "range_order ord \<Longrightarrow> distinct (map f (ord xs)) = distinct (map f xs)"
  by (rule mset_eq_imp_distinct_iff) (simp add: range_order_def)

lemma range_order_length: "range_order ord \<Longrightarrow> length (ord xs) = length xs"
  unfolding range_order_def by (metis mset_eq_length)

lemma range_order_id: "range_order (\<lambda>xs. xs)"
  by (simp add: range_order_def)

lemma range_order_rev: "range_order rev"
  by (simp add: range_order_def)

text \<open>A map lookup that yields the zero value \<open>''''\<close> for a missing key.\<close>

definition strOf :: "(string \<rightharpoonup> string) \<Rightarrow> string \<Rightarrow> string" where
  "strOf m k = (case m k of None \<Rightarrow> [] | Some v \<Rightarrow> v)"

lemma strOf_upd [simp]: "strOf (m(k \<mapsto> v)) k' = (if k' = k then v else strOf m k')"
  by (simp add: strOf_def)

lemma set_update_subset: "set (AList.update k v al) \<subseteq> insert (k, v) (set al)"
  by (induction al) auto

lemma map_of_map_keyed:
  "map_of (map (\<lambda>(k, v). (k, f k v)) xs) k = map_option (f k) (map_of xs k)"
  by (induction xs) auto

lemma map_fst_map_keyed: "map fst (map (\<lambda>(k, v). (k, f k v)) xs) = map fst xs"
  by (induction xs) auto

subsection \<open>Lists and numbers\<close>

lemma ex_nat_split: "(\<exists>k. P k) \<longleftrightarrow> P 0 \<or> (\<exists>k. P (Suc k))"
  by (metis not0_implies_Suc)

lemma sum_list_update_int:
  fixes xs :: "int list"
  shows "i < length xs \<Longrightarrow> sum_list (xs[i := v]) = sum_list xs - xs ! i + v"
  by (induction xs arbitrary: i) (auto split: nat.splits)

lemma fold_invariant_list:
  "I s \<Longrightarrow> (\<And>x s. x \<in> set xs \<Longrightarrow> I s \<Longrightarrow> I (f x s)) \<Longrightarrow> I (fold f xs s)"
  by (induction xs arbitrary: s) auto

subsection \<open>Durations\<close>

text \<open>Instants and durations are nanoseconds.\<close>

definition second :: int where "second = 1000000000"

end
