(* ===== verification/Shard_Config.thy ===== *)
theory Shard_Config
  imports Go_Prelude
begin

text \<open>
  The configuration of the flux shard operator (\<open>internal/fluxshardoperator/config.go\<close>): the
  canonical shard names and their parsers, the parsers of the \<open>--shard-count\<close> and
  \<open>--pinned-tenants\<close> flags, and the automatic sizing of the shard count with hysteresis
  (\<open>placement.go\<close>, \<open>RecommendedShardCount\<close> and \<open>EffectiveShardCount\<close>). The interface the
  placement relies on, names that parse back to their index and only canonical names that parse,
  is the locale \<open>index_codec\<close>, interpreted on the shard keys and on the Deployment names.
  The resource overrides of \<open>Config\<close> are opaque here: only the provisioner reads them.
\<close>

subsection \<open>Constants and the configuration record\<close>

definition ShardKeyLabel :: string where "ShardKeyLabel = ''sharding.fluxcd.io/key''"
definition LegacyShardKey :: string where "LegacyShardKey = ''tenants''"
definition TenantShardLabel :: string where "TenantShardLabel = ''internal.cozystack.io/flux-shard''"
definition ApplicationKindLabel :: string where
  "ApplicationKindLabel = ''apps.cozystack.io/application.kind''"
definition TenantKind :: string where "TenantKind = ''Tenant''"
definition ManagedByLabel :: string where "ManagedByLabel = ''app.kubernetes.io/managed-by''"
definition ManagedByValue :: string where "ManagedByValue = ''flux-shard-operator''"
definition FluxDeploymentName :: string where "FluxDeploymentName = ''flux''"
definition LegacyTenantsDeploymentName :: string where
  "LegacyTenantsDeploymentName = ''flux-tenants''"
definition HelmControllerContainerName :: string where
  "HelmControllerContainerName = ''helm-controller''"
definition shardPrefix :: string where "shardPrefix = ''shard''"
definition shardDeploymentPrefix :: string where "shardDeploymentPrefix = ''helm-controller-''"
definition ShardCountAuto :: string where "ShardCountAuto = ''auto''"

record ShardConfig =
  FluxNamespace :: string
  cfgShardCount :: int
  AutoShardCount :: bool
  ShardConcurrent :: int
  cfgRebalanceThreshold :: rat
  PinnedTenants :: "string \<rightharpoonup> string"
  ShardRequests :: "(string \<times> string) list"
  ShardLimits :: "(string \<times> string) list"

subsection \<open>Shard names\<close>

definition ShardName :: "int \<Rightarrow> string" where
  "ShardName i = shardPrefix @ itoa i"

definition ShardDeploymentName :: "int \<Rightarrow> string" where
  "ShardDeploymentName i = shardDeploymentPrefix @ ShardName i"

definition ParseShardIndex :: "string \<Rightarrow> int option" where
  "ParseShardIndex s =
     (case cutPrefix s shardPrefix of
        None \<Rightarrow> None
      | Some rest \<Rightarrow>
          if rest = [] then None
          else case atoi rest of
                 None \<Rightarrow> None
               | Some i \<Rightarrow> if i < 0 \<or> ShardName i \<noteq> s then None else Some i)"

definition ParseShardDeploymentIndex :: "string \<Rightarrow> int option" where
  "ParseShardDeploymentIndex name =
     (case cutPrefix name shardDeploymentPrefix of
        None \<Rightarrow> None
      | Some rest \<Rightarrow> ParseShardIndex rest)"

datatype flag_error =
  InvalidShardCount string
| InvalidPinnedEntry string
| InvalidPinnedShard string string

definition ParseShardCount :: "string \<Rightarrow> flag_error + (int \<times> bool)" where
  "ParseShardCount s =
     (if equalFold (trimSpace s) ShardCountAuto then Inr (0, True)
      else case atoi (trimSpace s) of
             None \<Rightarrow> Inl (InvalidShardCount s)
           | Some n \<Rightarrow> if n < 1 then Inl (InvalidShardCount s) else Inr (n, False))"

fun parsePins :: "string list \<Rightarrow> (string \<rightharpoonup> string) \<Rightarrow> flag_error + (string \<rightharpoonup> string)" where
  "parsePins [] pinned = Inr pinned"
| "parsePins (pair # ps) pinned =
     (case cutAt CHR ''='' (trimSpace pair) of
        None \<Rightarrow> Inl (InvalidPinnedEntry pair)
      | Some (k, v) \<Rightarrow>
          if k = [] then Inl (InvalidPinnedEntry pair)
          else if ParseShardIndex v = None then Inl (InvalidPinnedShard v k)
          else parsePins ps (pinned(k \<mapsto> v)))"

definition ParsePinnedTenants :: "string \<Rightarrow> flag_error + (string \<rightharpoonup> string)" where
  "ParsePinnedTenants s =
     (if s = [] then Inr Map.empty else parsePins (splitOn CHR '','' s) Map.empty)"

subsection \<open>Automatic sizing\<close>

definition hrTargetPerShard :: int where "hrTargetPerShard = 100"
definition maxAutoShards :: int where "maxAutoShards = 16"
definition scaleUpPerShard :: rat where "scaleUpPerShard = of_int hrTargetPerShard * (12 / 10)"
definition scaleDownPerShard :: rat where "scaleDownPerShard = of_int hrTargetPerShard * (6 / 10)"

text \<open>Go's integer division truncates towards zero.\<close>

definition truncDiv :: "int \<Rightarrow> int \<Rightarrow> int" where
  "truncDiv a b = sgn a * sgn b * (\<bar>a\<bar> div \<bar>b\<bar>)"

definition RecommendedShardCount :: "int \<Rightarrow> int \<Rightarrow> int" where
  "RecommendedShardCount helmReleases tenants =
     (let k = max (truncDiv (helmReleases + hrTargetPerShard - 1) hrTargetPerShard) 1;
          limit = (if tenants > 0 \<and> tenants < maxAutoShards then tenants else maxAutoShards)
      in if k > limit then limit else k)"

definition EffectiveShardCount ::
    "(rat \<Rightarrow> rat) \<Rightarrow> ShardConfig \<Rightarrow> int \<Rightarrow> int \<Rightarrow> int \<Rightarrow> int" where
  "EffectiveShardCount rnd c helmReleases tenants currentShards =
     (if \<not> AutoShardCount c then (if cfgShardCount c < 1 then 1 else cfgShardCount c)
      else
        let desired = RecommendedShardCount helmReleases tenants in
        if currentShards < 1 \<or> desired = currentShards then max desired currentShards
        else
          let perShard = fdiv rnd (f64 rnd helmReleases) (f64 rnd currentShards) in
          if desired > currentShards \<and> perShard > scaleUpPerShard then desired
          else if desired < currentShards \<and> perShard < scaleDownPerShard then desired
          else currentShards)"

subsection \<open>The naming interface\<close>

locale index_codec =
  fixes name :: "int \<Rightarrow> string" and parse :: "string \<Rightarrow> int option"
  assumes parse_name: "0 \<le> i \<Longrightarrow> i \<le> maxInt \<Longrightarrow> parse (name i) = Some i"
    and parse_canonical: "parse s = Some i \<Longrightarrow> 0 \<le> i \<and> i \<le> maxInt \<and> s = name i"
begin

lemma parse_iff: "parse s = Some i \<longleftrightarrow> 0 \<le> i \<and> i \<le> maxInt \<and> s = name i"
  using parse_name parse_canonical by blast

lemma name_inj:
  assumes "0 \<le> i" "i \<le> maxInt" "0 \<le> j" "j \<le> maxInt" "name i = name j"
  shows "i = j"
  using assms parse_name by (metis option.inject)

lemma parse_inj: "parse s = Some i \<Longrightarrow> parse t = Some i \<Longrightarrow> s = t"
  by (simp add: parse_iff)

end

lemma atoi_range: "atoi s = Some i \<Longrightarrow> minInt \<le> i \<and> i \<le> maxInt"
  by (cases s) (auto simp: inIntRange_def split: if_splits option.splits)

lemma itoa_not_Nil [simp]: "itoa i \<noteq> []"
  by (simp add: itoa_def)

interpretation shard_codec: index_codec ShardName ParseShardIndex
proof unfold_locales
  fix i assume "0 \<le> i" "i \<le> maxInt"
  then show "ParseShardIndex (ShardName i) = Some i"
    by (simp add: ParseShardIndex_def ShardName_def atoi_itoa_nonneg)
next
  fix s i assume "ParseShardIndex s = Some i"
  then show "0 \<le> i \<and> i \<le> maxInt \<and> s = ShardName i"
    by (auto simp: ParseShardIndex_def dest: atoi_range split: option.splits if_splits)
qed

interpretation deployment_codec: index_codec ShardDeploymentName ParseShardDeploymentIndex
proof unfold_locales
  fix i assume "0 \<le> i" "i \<le> maxInt"
  then show "ParseShardDeploymentIndex (ShardDeploymentName i) = Some i"
    by (simp add: ParseShardDeploymentIndex_def ShardDeploymentName_def shard_codec.parse_name)
next
  fix s i assume "ParseShardDeploymentIndex s = Some i"
  then show "0 \<le> i \<and> i \<le> maxInt \<and> s = ShardDeploymentName i"
    by (auto simp: ParseShardDeploymentIndex_def ShardDeploymentName_def shard_codec.parse_iff
        split: option.splits)
qed

lemma ShardName_not_Nil [simp]: "ShardName i \<noteq> []"
  by (simp add: ShardName_def)

lemma legacy_key_not_shard: "ParseShardIndex LegacyShardKey = None"
  by (simp add: ParseShardIndex_def LegacyShardKey_def shardPrefix_def cutPrefix_def)

lemma empty_not_shard [simp]: "ParseShardIndex [] = None"
  by (simp add: ParseShardIndex_def shardPrefix_def cutPrefix_def)

lemma parsePins_canonical:
  "parsePins ps m = Inr m' \<Longrightarrow> (\<forall>t v. m t = Some v \<longrightarrow> t \<noteq> [] \<and> ParseShardIndex v \<noteq> None) \<Longrightarrow>
   m' t = Some v \<Longrightarrow> t \<noteq> [] \<and> ParseShardIndex v \<noteq> None"
proof (induction ps arbitrary: m)
  case (Cons p ps)
  from Cons.prems(1) obtain k w where kw: "k \<noteq> []" "ParseShardIndex w \<noteq> None"
    "parsePins ps (m(k \<mapsto> w)) = Inr m'"
    by (auto split: option.splits if_splits)
  show ?case
    using Cons.prems kw by (intro Cons.IH [OF kw(3)]) auto
qed auto

subsection \<open>Bounds of the sizing formula\<close>

lemma RecommendedShardCount_bounds:
  "1 \<le> RecommendedShardCount h t \<and> RecommendedShardCount h t \<le> maxAutoShards"
  by (auto simp: RecommendedShardCount_def maxAutoShards_def Let_def max_def)

lemma RecommendedShardCount_tenants: "0 < t \<Longrightarrow> RecommendedShardCount h t \<le> t"
  by (auto simp: RecommendedShardCount_def maxAutoShards_def Let_def max_def)

text \<open>the shard key of every index parses back to it, and a value that parses is the
  canonical key of its index, so a HelmRelease label names at most one shard.\<close>

theorem shard_key_roundtrip:
  "(0 \<le> i \<and> i \<le> maxInt \<longrightarrow> ParseShardIndex (ShardName i) = Some i) \<and>
   (ParseShardIndex s = Some j \<longrightarrow> 0 \<le> j \<and> s = ShardName j)"
  using shard_codec.parse_name shard_codec.parse_canonical by blast

theorem shard_key_roundtrip_witness:
  "ParseShardIndex (ShardName 12) = Some 12 \<and> ''shard7'' = ShardName 7"
proof -
  have a: "0 \<le> (12::int) \<and> 12 \<le> maxInt" by (simp add: maxInt_def)
  have b: "ParseShardIndex ''shard7'' = Some 7" by code_simp
  show ?thesis
    using shard_key_roundtrip [of 12 "''shard7''" 7] a b by blast
qed

text \<open>Sizing again from the shard count just chosen chooses it again.\<close>

lemma EffectiveShardCount_idem:
  "EffectiveShardCount rnd c h t (EffectiveShardCount rnd c h t cur) =
   EffectiveShardCount rnd c h t cur"
  using RecommendedShardCount_bounds [of h t]
  by (auto simp: EffectiveShardCount_def Let_def max_def)

text \<open>hysteresis of automatic sizing. A provisioned count changes only to the recommendation,
  it grows only when the shards hold more than 120 HelmReleases each on average, and it shrinks
  only when they hold fewer than 60, also after the rounding of the division. And sizing settles:
  with the counts unchanged, sizing again from the new shard count keeps it.\<close>

theorem EffectiveShardCount_hysteresis:
  assumes "rounding rnd" "AutoShardCount c" "1 \<le> cur" "cur \<le> 2 ^ 53" "\<bar>h\<bar> \<le> 2 ^ 53"
    and "EffectiveShardCount rnd c h t cur = k" "k \<noteq> cur"
  shows "k = RecommendedShardCount h t \<and> (cur < k \<longrightarrow> 120 * cur < h) \<and> (k < cur \<longrightarrow> h < 60 * cur) \<and>
    EffectiveShardCount rnd c h t k = k"
proof -
  let ?q = "of_int h / of_int cur :: rat"
  have exact: "\<bar>n\<bar> \<le> 2 ^ 53 \<Longrightarrow> rnd (of_int n) = of_int n" for n
    using assms(1) by (simp add: rounding_def)
  have ex: "rnd (of_int h) = of_int h" "rnd (of_int cur) = of_int cur"
    "rnd (of_int 120) = of_int 120" "rnd (of_int 60) = of_int 60"
    using assms(3,4,5) exact [of h] exact [of cur] exact [of 120] exact [of 60] by simp_all
  have mono: "x \<le> y \<Longrightarrow> rnd x \<le> rnd y" for x y
    using assms(1) by (auto simp: rounding_def mono_def)
  have up: "120 < rnd ?q \<Longrightarrow> 120 * cur < h"
  proof (rule ccontr)
    assume "120 < rnd ?q" "\<not> 120 * cur < h"
    then have "of_int h \<le> (of_int (120 * cur) :: rat)" by (simp only: of_int_le_iff)
    then have "?q \<le> of_int 120" using assms(3) by (simp add: divide_le_eq)
    then have "rnd ?q \<le> rnd (of_int 120)" by (rule mono)
    with ex(3) \<open>120 < rnd ?q\<close> show False by simp
  qed
  have down: "rnd ?q < 60 \<Longrightarrow> h < 60 * cur"
  proof (rule ccontr)
    assume "rnd ?q < 60" "\<not> h < 60 * cur"
    then have "of_int (60 * cur) \<le> (of_int h :: rat)" by (simp only: of_int_le_iff)
    then have "of_int 60 \<le> ?q" using assms(3) by (simp add: le_divide_eq)
    then have "rnd (of_int 60) \<le> rnd ?q" by (rule mono)
    with ex(4) \<open>rnd ?q < 60\<close> show False by simp
  qed
  have "k = RecommendedShardCount h t \<and> (cur < k \<longrightarrow> 120 * cur < h) \<and> (k < cur \<longrightarrow> h < 60 * cur)"
    using assms(2,3,6,7) up down ex(1,2)
    by (auto simp: EffectiveShardCount_def Let_def fdiv_def f64_def scaleUpPerShard_def
        scaleDownPerShard_def hrTargetPerShard_def split: if_splits)
  then show ?thesis using EffectiveShardCount_idem [of rnd c h t cur] assms(6) by simp
qed

definition autoConfig :: ShardConfig where
  "autoConfig = \<lparr>FluxNamespace = ''cozy-fluxcd'', cfgShardCount = 0, AutoShardCount = True,
     ShardConcurrent = 5, cfgRebalanceThreshold = 1 / 2, PinnedTenants = Map.empty,
     ShardRequests = [], ShardLimits = []\<rparr>"

theorem EffectiveShardCount_hysteresis_witness:
  "EffectiveShardCount (\<lambda>x. x) autoConfig 260 10 2 = 3 \<and> 120 * 2 < (260::int)"
proof -
  have e: "EffectiveShardCount (\<lambda>x. x) autoConfig 260 10 2 = 3" by code_simp
  have a: "AutoShardCount autoConfig" by (simp add: autoConfig_def)
  show ?thesis
    using EffectiveShardCount_hysteresis [OF rounding_id a _ _ _ e] e by simp
qed

text \<open>The shard count shrinks at 55 HelmReleases per shard, above half of the target of 100.\<close>

lemma scale_down_above_half_target:
  "EffectiveShardCount (\<lambda>x. x) autoConfig 220 10 4 = 3 \<and> 4 * (hrTargetPerShard div 2) < 220"
  by code_simp

end
