(* ===== verification/Shard_Placement.thy ===== *)
theory Shard_Placement
  imports Shard_Config
begin

text \<open>
  The placement of tenants on helm-controller shards (\<open>internal/fluxshardoperator/placement.go\<close>):
  \<open>ComputePlacement\<close> with its local function \<open>place\<close>, the bounded \<open>rebalance\<close> pass and the
  two arg-extremum scans. The local variables \<open>assign\<close>, \<open>load\<close> and \<open>members\<close> of
  \<open>ComputePlacement\<close> are the record \<open>pstate\<close>; a tenant is a \<open>TenantInfo\<close>. Weights are Go ints
  that count HelmReleases, far below overflow, and are modelled as \<open>int\<close>.
\<close>

subsection \<open>Data\<close>

record TenantInfo =
  tiNamespace :: string
  tiWeight :: int
  tiCurrent :: string
  tiDeleting :: bool

record PlacementInput =
  piTenants :: "TenantInfo list"
  piShardCount :: int
  piPinned :: "string \<rightharpoonup> string"
  piRebalanceThreshold :: rat
  piCanRebalance :: "(string \<Rightarrow> bool) option"

record pstate =
  assign :: "string \<rightharpoonup> string"
  load :: "int list"
  members :: "TenantInfo list list"

subsection \<open>Operations\<close>

fun argminFrom :: "int list \<Rightarrow> nat \<Rightarrow> nat \<Rightarrow> int list \<Rightarrow> nat" where
  "argminFrom ld idx i [] = idx"
| "argminFrom ld idx i (l # ls) = argminFrom ld (if l < ld ! idx then i else idx) (Suc i) ls"

definition argminLoad :: "int list \<Rightarrow> nat" where
  "argminLoad ld = argminFrom ld 0 0 ld"

fun argmaxFrom :: "int list \<Rightarrow> nat \<Rightarrow> nat \<Rightarrow> int list \<Rightarrow> nat" where
  "argmaxFrom ld idx i [] = idx"
| "argmaxFrom ld idx i (l # ls) = argmaxFrom ld (if l > ld ! idx then i else idx) (Suc i) ls"

definition argmaxLoad :: "int list \<Rightarrow> nat" where
  "argmaxLoad ld = argmaxFrom ld 0 0 ld"

definition absInt :: "int \<Rightarrow> int" where
  "absInt v = (if v < 0 then - v else v)"

definition place :: "TenantInfo \<Rightarrow> nat \<Rightarrow> pstate \<Rightarrow> pstate" where
  "place t idx s = s
     \<lparr>assign := (assign s)(tiNamespace t \<mapsto> ShardName (int idx)),
      load := (load s)[idx := load s ! idx + tiWeight t],
      members := (members s)[idx := members s ! idx @ [t]]\<rparr>"

text \<open>The pin that both passes honour: one to an existing shard.\<close>

definition pinIndex :: "PlacementInput \<Rightarrow> int \<Rightarrow> string \<Rightarrow> nat option" where
  "pinIndex inp k ns =
     (case piPinned inp ns of
        None \<Rightarrow> None
      | Some pin \<Rightarrow>
          (case ParseShardIndex pin of
             None \<Rightarrow> None
           | Some idx \<Rightarrow> if idx < k then Some (nat idx) else None))"

definition placeTenant ::
    "PlacementInput \<Rightarrow> int \<Rightarrow> TenantInfo \<Rightarrow> pstate \<times> TenantInfo list \<Rightarrow> pstate \<times> TenantInfo list" where
  "placeTenant inp k t su =
     (let (s, unassigned) = su in
      case (if tiDeleting t then None else pinIndex inp k (tiNamespace t)) of
        Some idx \<Rightarrow> (place t idx s, unassigned)
      | None \<Rightarrow>
          (case ParseShardIndex (tiCurrent t) of
             Some idx \<Rightarrow>
               if idx < k then (place t (nat idx) s, unassigned)
               else if tiDeleting t
                 then (s\<lparr>assign := (assign s)(tiNamespace t \<mapsto> tiCurrent t)\<rparr>, unassigned)
               else (s, unassigned @ [t])
           | None \<Rightarrow> (s, unassigned @ [t])))"

definition placeLeastLoaded :: "TenantInfo \<Rightarrow> pstate \<Rightarrow> pstate" where
  "placeLeastLoaded t s = place t (argminLoad (load s)) s"

text \<open>The scan for the best move off the most loaded shard: \<open>best\<close> is \<open>None\<close> for -1.\<close>

definition movable :: "PlacementInput \<Rightarrow> int \<Rightarrow> TenantInfo \<Rightarrow> bool" where
  "movable inp k t \<longleftrightarrow>
     \<not> (tiDeleting t \<or> tiWeight t = 0) \<and> pinIndex inp k (tiNamespace t) = None \<and>
     (case piCanRebalance inp of None \<Rightarrow> True | Some f \<Rightarrow> f (tiNamespace t))"

fun bestMove ::
    "PlacementInput \<Rightarrow> int \<Rightarrow> int \<Rightarrow> int \<Rightarrow> nat \<Rightarrow> TenantInfo list \<Rightarrow> nat option \<times> int \<times> int \<Rightarrow>
     nat option \<times> int \<times> int" where
  "bestMove inp k maxL minL i [] b = b"
| "bestMove inp k maxL minL i (t # ts) (best, bestSpread, bestWeight) =
     (if \<not> movable inp k t then bestMove inp k maxL minL (Suc i) ts (best, bestSpread, bestWeight)
      else
        let newSpread = absInt ((maxL - tiWeight t) - (minL + tiWeight t)) in
        bestMove inp k maxL minL (Suc i) ts
          (if newSpread < bestSpread \<or>
              (newSpread = bestSpread \<and> best \<noteq> None \<and> tiWeight t < bestWeight)
           then (Some i, newSpread, tiWeight t) else (best, bestSpread, bestWeight)))"

definition moveMember :: "nat \<Rightarrow> nat \<Rightarrow> nat \<Rightarrow> pstate \<Rightarrow> pstate" where
  "moveMember maxIdx minIdx best s =
     (let t = members s ! maxIdx ! best;
          ms = (members s)[maxIdx := take best (members s ! maxIdx) @ drop (Suc best) (members s ! maxIdx)];
          ms' = ms[minIdx := ms ! minIdx @ [t]];
          ld = (load s)[maxIdx := load s ! maxIdx - tiWeight t];
          ld' = ld[minIdx := ld ! minIdx + tiWeight t]
      in s\<lparr>assign := (assign s)(tiNamespace t \<mapsto> ShardName (int minIdx)),
           load := ld', members := ms'\<rparr>)"

fun rebalanceLoop ::
    "(rat \<Rightarrow> rat) \<Rightarrow> PlacementInput \<Rightarrow> int \<Rightarrow> rat \<Rightarrow> nat \<Rightarrow> pstate \<Rightarrow> pstate" where
  "rebalanceLoop rnd inp k avg 0 s = s"
| "rebalanceLoop rnd inp k avg (Suc iter) s =
     (let maxIdx = argmaxLoad (load s); minIdx = argminLoad (load s);
          spread = load s ! maxIdx - load s ! minIdx in
      if fdiv rnd (f64 rnd spread) avg \<le> piRebalanceThreshold inp then s
      else case bestMove inp k (load s ! maxIdx) (load s ! minIdx) 0 (members s ! maxIdx)
                  (None, spread, 0) of
             (None, _, _) \<Rightarrow> s
           | (Some best, bestSpread, _) \<Rightarrow>
               if bestSpread \<ge> spread then s
               else rebalanceLoop rnd inp k avg iter (moveMember maxIdx minIdx best s))"

definition rebalance :: "(rat \<Rightarrow> rat) \<Rightarrow> PlacementInput \<Rightarrow> int \<Rightarrow> pstate \<Rightarrow> pstate" where
  "rebalance rnd inp k s =
     (if k < 2 \<or> piRebalanceThreshold inp \<le> 0 then s
      else
        let total = sum_list (load s) in
        if total = 0 then s
        else rebalanceLoop rnd inp k (fdiv rnd (f64 rnd total) (f64 rnd k))
               (length (piTenants inp)) s)"

definition shardK :: "PlacementInput \<Rightarrow> int" where
  "shardK inp = max (piShardCount inp) 1"

definition initialPlacement :: "PlacementInput \<Rightarrow> pstate" where
  "initialPlacement inp =
     (let k = shardK inp;
          s0 = \<lparr>assign = Map.empty, load = replicate (nat k) 0, members = replicate (nat k) []\<rparr>;
          (s1, unassigned) = fold (placeTenant inp k) (sort_key tiNamespace (piTenants inp)) (s0, [])
      in fold placeLeastLoaded
           (sort_key (\<lambda>t. (- tiWeight t, tiNamespace t)) unassigned) s1)"

definition ComputePlacementState :: "(rat \<Rightarrow> rat) \<Rightarrow> PlacementInput \<Rightarrow> pstate" where
  "ComputePlacementState rnd inp = rebalance rnd inp (shardK inp) (initialPlacement inp)"

definition ComputePlacement :: "(rat \<Rightarrow> rat) \<Rightarrow> PlacementInput \<Rightarrow> (string \<rightharpoonup> string)" where
  "ComputePlacement rnd inp = assign (ComputePlacementState rnd inp)"

subsection \<open>The arg-extremum interface\<close>

text \<open>What the passes need of the two scans: an index in range at which the load is extremal in
  the order \<open>le\<close>.\<close>

locale extremum_scan =
  fixes le :: "int \<Rightarrow> int \<Rightarrow> bool" and scan :: "int list \<Rightarrow> nat"
  assumes scan_less: "ld \<noteq> [] \<Longrightarrow> scan ld < length ld"
    and scan_extremal: "i < length ld \<Longrightarrow> le (ld ! scan ld) (ld ! i)"
begin

lemma scan_in_set: "ld \<noteq> [] \<Longrightarrow> ld ! scan ld \<in> set ld"
  by (simp add: scan_less)

lemma scan_set: "x \<in> set ld \<Longrightarrow> le (ld ! scan ld) x"
  by (auto simp: in_set_conv_nth intro: scan_extremal)

end

lemma argminFrom_spec:
  "ls = drop i ld \<Longrightarrow> idx < length ld \<Longrightarrow> \<forall>j < min i (length ld). ld ! idx \<le> ld ! j \<Longrightarrow>
   argminFrom ld idx i ls < length ld \<and> (\<forall>j < length ld. ld ! argminFrom ld idx i ls \<le> ld ! j)"
proof (induction ls arbitrary: idx i)
  case (Cons l ls)
  then have i: "i < length ld" by (metis drop_eq_Nil list.distinct(1) not_le)
  with Cons.prems(1) have l: "l = ld ! i" "ls = drop (Suc i) ld"
    by (metis Cons_nth_drop_Suc list.inject)+
  let ?x = "if l < ld ! idx then i else idx"
  have "\<forall>j < min (Suc i) (length ld). ld ! ?x \<le> ld ! j"
    using Cons.prems(3) l(1) i by (auto simp: less_Suc_eq)
  then show ?case using Cons.IH [of "Suc i" ?x] l(2) i Cons.prems(2) by simp
qed auto

lemma argmaxFrom_spec:
  "ls = drop i ld \<Longrightarrow> idx < length ld \<Longrightarrow> \<forall>j < min i (length ld). ld ! j \<le> ld ! idx \<Longrightarrow>
   argmaxFrom ld idx i ls < length ld \<and> (\<forall>j < length ld. ld ! j \<le> ld ! argmaxFrom ld idx i ls)"
proof (induction ls arbitrary: idx i)
  case (Cons l ls)
  then have i: "i < length ld" by (metis drop_eq_Nil list.distinct(1) not_le)
  with Cons.prems(1) have l: "l = ld ! i" "ls = drop (Suc i) ld"
    by (metis Cons_nth_drop_Suc list.inject)+
  let ?x = "if l > ld ! idx then i else idx"
  have "\<forall>j < min (Suc i) (length ld). ld ! j \<le> ld ! ?x"
    using Cons.prems(3) l(1) i by (auto simp: less_Suc_eq)
  then show ?case using Cons.IH [of "Suc i" ?x] l(2) i Cons.prems(2) by simp
qed auto

interpretation least: extremum_scan "(\<le>)" argminLoad
proof unfold_locales
  fix ld :: "int list" assume "ld \<noteq> []"
  then show "argminLoad ld < length ld"
    using argminFrom_spec [of ld 0 ld 0] by (simp add: argminLoad_def)
next
  fix i and ld :: "int list" assume "i < length ld"
  then show "ld ! argminLoad ld \<le> ld ! i"
    using argminFrom_spec [of ld 0 ld 0] by (cases ld) (auto simp: argminLoad_def)
qed

interpretation greatest: extremum_scan "(\<ge>)" argmaxLoad
proof unfold_locales
  fix ld :: "int list" assume "ld \<noteq> []"
  then show "argmaxLoad ld < length ld"
    using argmaxFrom_spec [of ld 0 ld 0] by (simp add: argmaxLoad_def)
next
  fix i and ld :: "int list" assume "i < length ld"
  then show "ld ! argmaxLoad ld \<ge> ld ! i"
    using argmaxFrom_spec [of ld 0 ld 0] by (cases ld) (auto simp: argmaxLoad_def)
qed

subsection \<open>The accounting invariant\<close>

text \<open>Loads are the sums of the members' weights, no tenant is a member twice, and the assignment
  of a member names the shard that holds it.\<close>

definition placement_inv :: "nat \<Rightarrow> pstate \<Rightarrow> bool" where
  "placement_inv n s \<longleftrightarrow>
     length (members s) = n \<and>
     load s = map (\<lambda>ts. sum_list (map tiWeight ts)) (members s) \<and>
     distinct (map tiNamespace (concat (members s))) \<and>
     (\<forall>i < n. \<forall>t \<in> set (members s ! i). assign s (tiNamespace t) = Some (ShardName (int i)))"

lemma placement_inv_lengths:
  "placement_inv n s \<Longrightarrow> length (members s) = n \<and> length (load s) = n"
  by (auto simp: placement_inv_def)

lemma placement_inv_load:
  "placement_inv n s \<Longrightarrow> i < n \<Longrightarrow> load s ! i = sum_list (map tiWeight (members s ! i))"
  by (auto simp: placement_inv_def)

lemma mset_concat_update:
  "i < length xss \<Longrightarrow> mset (concat (xss[i := ys])) + mset (xss ! i) = mset (concat xss) + mset ys"
  by (induction xss arbitrary: i) (auto split: nat.splits)

lemma mset_concat_snoc:
  "i < length xss \<Longrightarrow> mset (concat (xss[i := xss ! i @ [t]])) = add_mset t (mset (concat xss))"
  using mset_concat_update [of i xss "xss ! i @ [t]"] by simp

lemma mset_concat_remove:
  "i < length xss \<Longrightarrow> b < length (xss ! i) \<Longrightarrow>
   add_mset (xss ! i ! b) (mset (concat (xss[i := take b (xss ! i) @ drop (Suc b) (xss ! i)]))) =
   mset (concat xss)"
proof -
  assume a: "i < length xss" "b < length (xss ! i)"
  let ?ys = "take b (xss ! i) @ drop (Suc b) (xss ! i)"
  have "mset (xss ! i) = add_mset (xss ! i ! b) (mset ?ys)"
    using a(2) by (metis id_take_nth_drop mset.simps(2) mset_append union_mset_add_mset_right)
  with mset_concat_update [OF a(1), of ?ys] show ?thesis by simp
qed

lemma member_concat: "i < length xss \<Longrightarrow> t \<in> set (xss ! i) \<Longrightarrow> t \<in> set (concat xss)"
  by (auto intro!: bexI [of _ "xss ! i"])

lemma place_inv:
  assumes "placement_inv n s" "idx < n" "tiNamespace t \<notin> tiNamespace ` set (concat (members s))"
  shows "placement_inv n (place t idx s)"
proof -
  let ?m = "(members s)[idx := members s ! idx @ [t]]"
  have len: "length (members s) = n" "length (load s) = n"
    using placement_inv_lengths [OF assms(1)] by auto
  have ms: "mset (concat ?m) = add_mset t (mset (concat (members s)))"
    using mset_concat_snoc [of idx "members s" t] assms(2) len by simp
  then have st: "set (concat ?m) = insert t (set (concat (members s)))"
    by (metis set_mset_mset set_mset_add_mset_insert)
  have "mset (map tiNamespace (concat ?m)) = add_mset (tiNamespace t) (mset (map tiNamespace (concat (members s))))"
    using ms by (metis image_mset_add_mset mset_map)
  then have d: "distinct (map tiNamespace (concat ?m))"
    using assms(1,3) mset_eq_imp_distinct_iff [of "map tiNamespace (concat ?m)"
        "tiNamespace t # map tiNamespace (concat (members s))"]
    by (auto simp: placement_inv_def)
  have ld: "(load s)[idx := load s ! idx + tiWeight t] = map (\<lambda>ts. sum_list (map tiWeight ts)) ?m"
    using assms(1,2) len by (auto simp: placement_inv_def map_update)
  have asg: "((assign s)(tiNamespace t \<mapsto> ShardName (int idx))) (tiNamespace u) = Some (ShardName (int i))"
    if "i < n" "u \<in> set (?m ! i)" for i u
  proof (cases "u = t \<and> i = idx")
    case False
    have u: "u \<in> set (members s ! i)"
      using that False len assms(2) by (cases "i = idx") auto
    have "u \<in> set (concat (members s))"
      by (rule member_concat [OF _ u]) (simp add: len that(1))
    then have "tiNamespace u \<noteq> tiNamespace t" using assms(3) by (metis imageI)
    with u assms(1) that(1) show ?thesis by (auto simp: placement_inv_def)
  qed simp
  show ?thesis
    unfolding placement_inv_def place_def
  proof (intro conjI allI impI ballI)
  qed (use d ld asg len in \<open>simp_all del: fun_upd_apply\<close>)
qed

text \<open>A rebalance move takes the member out of one shard and places it on another.\<close>

definition dropMember :: "nat \<Rightarrow> nat \<Rightarrow> pstate \<Rightarrow> pstate" where
  "dropMember i b s = s
     \<lparr>load := (load s)[i := load s ! i - tiWeight (members s ! i ! b)],
      members := (members s)[i := take b (members s ! i) @ drop (Suc b) (members s ! i)]\<rparr>"

lemma moveMember_eq:
  "moveMember maxIdx minIdx best s =
   place (members s ! maxIdx ! best) minIdx (dropMember maxIdx best s)"
  by (simp add: moveMember_def place_def dropMember_def Let_def)

lemma sum_weights_remove:
  "b < length ts \<Longrightarrow>
   sum_list (map tiWeight (take b ts @ drop (Suc b) ts)) =
   sum_list (map tiWeight ts) - tiWeight (ts ! b)"
  by (induction ts arbitrary: b) (auto split: nat.splits simp: nth_Cons' less_Suc_eq_0_disj)

lemma dropMember_inv:
  assumes "placement_inv n s" "i < n" "b < length (members s ! i)"
  shows "placement_inv n (dropMember i b s)"
    and "tiNamespace (members s ! i ! b) \<notin> tiNamespace ` set (concat (members (dropMember i b s)))"
proof -
  let ?t = "members s ! i ! b"
  let ?m = "(members s)[i := take b (members s ! i) @ drop (Suc b) (members s ! i)]"
  have len: "length (members s) = n" "length (load s) = n"
    using placement_inv_lengths [OF assms(1)] by auto
  have ms: "add_mset ?t (mset (concat ?m)) = mset (concat (members s))"
    using mset_concat_remove [of i "members s" b] assms(2,3) len by simp
  then have "mset (tiNamespace ?t # map tiNamespace (concat ?m)) =
      mset (map tiNamespace (concat (members s)))"
    by (metis image_mset_add_mset mset_map mset.simps(2))
  then have d: "distinct (tiNamespace ?t # map tiNamespace (concat ?m))"
    using assms(1) mset_eq_imp_distinct_iff unfolding placement_inv_def by blast
  have ld: "(load s)[i := load s ! i - tiWeight ?t] = map (\<lambda>ts. sum_list (map tiWeight ts)) ?m"
    using assms len sum_weights_remove [of b "members s ! i"]
    by (simp add: placement_inv_def map_update del: map_append sum_list_append)
  have sub: "set (?m ! j) \<subseteq> set (members s ! j)" if "j < n" for j
    using that len by (cases "j = i") (auto dest: in_set_takeD in_set_dropD)
  have asg: "\<forall>j < n. \<forall>u \<in> set (?m ! j). assign s (tiNamespace u) = Some (ShardName (int j))"
    using assms(1) sub unfolding placement_inv_def by blast
  show "placement_inv n (dropMember i b s)"
    unfolding placement_inv_def dropMember_def
    using d ld asg len by simp
  show "tiNamespace ?t \<notin> tiNamespace ` set (concat (members (dropMember i b s)))"
    using d by (simp add: dropMember_def)
qed

lemma dropMember_members:
  assumes "i < length (members s)" "b < length (members s ! i)"
  shows "insert (members s ! i ! b) (set (concat (members (dropMember i b s)))) =
    set (concat (members s))"
  using arg_cong [OF mset_concat_remove [OF assms], of set_mset]
  by (simp add: dropMember_def del: set_concat)

lemma moveMember_inv:
  assumes "placement_inv n s" "i < n" "b < length (members s ! i)" "j < n"
  shows "placement_inv n (moveMember i j b s)"
  unfolding moveMember_eq
  using place_inv dropMember_inv [OF assms(1-3)] assms(4) by blast

subsection \<open>One rule for the rebalance pass\<close>

lemma bestMove_Some:
  "bestMove inp k maxL minL i ts (best, sp, w) = (Some b, sp', w') \<Longrightarrow>
   best = Some b \<and> sp' = sp \<or>
   (i \<le> b \<and> b < i + length ts \<and> movable inp k (ts ! (b - i)) \<and>
    sp' = absInt ((maxL - tiWeight (ts ! (b - i))) - (minL + tiWeight (ts ! (b - i)))))"
proof (induction ts arbitrary: i best sp w)
  case (Cons t ts)
  show ?case
  proof (cases "bestMove inp k maxL minL (Suc i) ts (best, sp, w) = (Some b, sp', w')")
    case True
    then show ?thesis using Cons.IH [OF True] by (auto simp: nth_Cons' Suc_le_eq)
  next
    case False
    let ?ns = "absInt ((maxL - tiWeight t) - (minL + tiWeight t))"
    from False Cons.prems have m: "movable inp k t"
      and r: "bestMove inp k maxL minL (Suc i) ts (Some i, ?ns, tiWeight t) = (Some b, sp', w')"
      by (auto simp: Let_def split: if_splits)
    from Cons.IH [OF r] m show ?thesis by (auto simp: nth_Cons' Suc_le_eq)
  qed
qed simp

lemma absInt_less: "absInt ((a - w) - (b + w)) < a - b \<Longrightarrow> 0 < w \<and> w < a - b"
  by (auto simp: absInt_def split: if_splits)

definition improving_move :: "PlacementInput \<Rightarrow> int \<Rightarrow> pstate \<Rightarrow> nat \<Rightarrow> bool" where
  "improving_move inp k s b \<longleftrightarrow>
     (let i = argmaxLoad (load s); j = argminLoad (load s); t = members s ! i ! b in
      b < length (members s ! i) \<and> movable inp k t \<and>
      0 < tiWeight t \<and> tiWeight t < load s ! i - load s ! j)"

lemma rebalanceLoop_rule:
  assumes "P s"
    and step: "\<And>s b. P s \<Longrightarrow> improving_move inp k s b \<Longrightarrow>
      P (moveMember (argmaxLoad (load s)) (argminLoad (load s)) b s)"
  shows "P (rebalanceLoop rnd inp k avg n s)"
  using assms(1)
proof (induction n arbitrary: s)
  case (Suc n)
  let ?i = "argmaxLoad (load s)" and ?j = "argminLoad (load s)"
  let ?sp = "load s ! ?i - load s ! ?j"
  let ?bm = "bestMove inp k (load s ! ?i) (load s ! ?j) 0 (members s ! ?i) (None, ?sp, 0)"
  obtain b sp w where bm: "?bm = (b, sp, w)" by (cases ?bm) auto
  show ?case
  proof (cases "fdiv rnd (f64 rnd ?sp) avg \<le> piRebalanceThreshold inp \<or> b = None \<or> sp \<ge> ?sp")
    case True
    then show ?thesis using Suc.prems bm by (auto simp: Let_def split: option.splits)
  next
    case False
    then obtain b' where b': "b = Some b'" by auto
    have mv: "b' < length (members s ! ?i)" "movable inp k (members s ! ?i ! b')"
      "sp = absInt ((load s ! ?i - tiWeight (members s ! ?i ! b')) -
        (load s ! ?j + tiWeight (members s ! ?i ! b')))"
      using bestMove_Some [OF bm [unfolded b']] by simp_all
    have "sp < ?sp" using False by simp
    then have "improving_move inp k s b'"
      unfolding improving_move_def Let_def mv(3) using mv(1,2) absInt_less by blast
    then have "P (moveMember ?i ?j b' s)" by (rule step [OF Suc.prems])
    from Suc.IH [OF this] show ?thesis using False bm b' by (simp add: Let_def)
  qed
qed simp

lemma rebalance_rule:
  assumes "P s"
    and "\<And>s b. P s \<Longrightarrow> improving_move inp k s b \<Longrightarrow>
      P (moveMember (argmaxLoad (load s)) (argminLoad (load s)) b s)"
  shows "P (rebalance rnd inp k s)"
  unfolding rebalance_def Let_def
  using rebalanceLoop_rule [of P s inp k, OF assms] assms(1) by simp

subsection \<open>What the first pass settles\<close>

text \<open>The shard a tenant is settled on before any balancing: its pin, or its current shard where
  that shard still exists or the tenant is being deleted.\<close>

definition settled :: "PlacementInput \<Rightarrow> int \<Rightarrow> TenantInfo \<Rightarrow> string option" where
  "settled inp k t =
     (case (if tiDeleting t then None else pinIndex inp k (tiNamespace t)) of
        Some idx \<Rightarrow> Some (ShardName (int idx))
      | None \<Rightarrow>
          (case ParseShardIndex (tiCurrent t) of
             Some idx \<Rightarrow> if idx < k \<or> tiDeleting t then Some (tiCurrent t) else None
           | None \<Rightarrow> None))"

lemma pinIndex_less: "pinIndex inp k ns = Some i \<Longrightarrow> i < nat k"
  by (auto simp: pinIndex_def shard_codec.parse_iff split: option.splits if_splits)

lemma current_name: "ParseShardIndex c = Some i \<Longrightarrow> ShardName (int (nat i)) = c \<and> 0 \<le> i"
  by (simp add: shard_codec.parse_iff)

definition pass1_inv ::
    "PlacementInput \<Rightarrow> int \<Rightarrow> TenantInfo list \<Rightarrow> pstate \<times> TenantInfo list \<Rightarrow> bool" where
  "pass1_inv inp k ds su \<longleftrightarrow>
     placement_inv (nat k) (fst su) \<and>
     snd su = filter (\<lambda>t. settled inp k t = None) ds \<and>
     (\<forall>t \<in> set ds. assign (fst su) (tiNamespace t) = settled inp k t) \<and>
     dom (assign (fst su)) \<subseteq> tiNamespace ` set ds \<and>
     set (concat (members (fst su))) \<subseteq> set ds"

lemma place_assign [simp]: "assign (place t i s) = (assign s)(tiNamespace t \<mapsto> ShardName (int i))"
  by (simp add: place_def)

lemma place_load [simp]: "load (place t i s) = (load s)[i := load s ! i + tiWeight t]"
  by (simp add: place_def)

lemma place_members:
  assumes "i < length (members s)"
  shows "set (concat (members (place t i s))) = insert t (set (concat (members s)))"
proof -
  have "mset (concat (members (place t i s))) = add_mset t (mset (concat (members s)))"
    using mset_concat_snoc [OF assms] by (simp add: place_def)
  then show ?thesis by (metis set_mset_add_mset_insert set_mset_mset)
qed

lemma pass1_place:
  assumes inv: "pass1_inv inp k ds (s, un)" and new: "tiNamespace t \<notin> tiNamespace ` set ds"
    and i: "i < nat k" and st: "settled inp k t = Some (ShardName (int i))"
  shows "pass1_inv inp k (ds @ [t]) (place t i s, un)"
proof -
  have len: "length (members s) = nat k"
    using inv placement_inv_lengths unfolding pass1_inv_def by auto
  have sub: "set (concat (members s)) \<subseteq> set ds" using inv unfolding pass1_inv_def by simp
  have "placement_inv (nat k) (place t i s)"
    using inv new i sub unfolding pass1_inv_def by (intro place_inv) auto
  moreover have "set (concat (members (place t i s))) \<subseteq> set (ds @ [t])"
    using place_members [of i s t] len i sub by auto
  moreover have "\<forall>u \<in> set (ds @ [t]). assign (place t i s) (tiNamespace u) = settled inp k u"
    using inv new st unfolding pass1_inv_def by (auto simp: image_iff)
  ultimately show ?thesis
    using inv st unfolding pass1_inv_def by auto
qed

lemma pass1_keep:
  assumes inv: "pass1_inv inp k ds (s, un)" and new: "tiNamespace t \<notin> tiNamespace ` set ds"
    and st: "settled inp k t = None"
  shows "pass1_inv inp k (ds @ [t]) (s, un @ [t])"
proof -
  have "assign s (tiNamespace t) = None" using inv new unfolding pass1_inv_def by auto
  with st inv show ?thesis unfolding pass1_inv_def by auto
qed

lemma pass1_hold:
  assumes inv: "pass1_inv inp k ds (s, un)" and new: "tiNamespace t \<notin> tiNamespace ` set ds"
    and st: "settled inp k t = Some c"
  shows "pass1_inv inp k (ds @ [t]) (s\<lparr>assign := (assign s)(tiNamespace t \<mapsto> c)\<rparr>, un)"
proof -
  have "tiNamespace u \<noteq> tiNamespace t" if "u \<in> set ds" for u
    using new that by (metis imageI)
  moreover have "u \<in> set ds" if "i < nat k" "u \<in> set (members s ! i)" for i u
    using inv that member_concat [of i "members s" u]
    unfolding pass1_inv_def placement_inv_def by auto
  ultimately show ?thesis
    using st inv unfolding pass1_inv_def placement_inv_def by auto
qed

lemma pass1_step:
  assumes inv: "pass1_inv inp k ds su" and new: "tiNamespace t \<notin> tiNamespace ` set ds"
  shows "pass1_inv inp k (ds @ [t]) (placeTenant inp k t su)"
proof -
  obtain s un where su: "su = (s, un)" by (cases su)
  note keep = pass1_keep [OF inv [unfolded su] new] and hold = pass1_hold [OF inv [unfolded su] new]
  show ?thesis
  proof (cases "if tiDeleting t then None else pinIndex inp k (tiNamespace t)")
    case (Some i)
    then have "settled inp k t = Some (ShardName (int i))" "i < nat k"
      by (auto simp: settled_def dest: pinIndex_less split: if_splits)
    then have "pass1_inv inp k (ds @ [t]) (place t i s, un)"
      using pass1_place inv new su by blast
    with Some su show ?thesis by (simp add: placeTenant_def)
  next
    case pin: None
    show ?thesis
    proof (cases "ParseShardIndex (tiCurrent t)")
      case None
      with pin have "settled inp k t = None" by (simp add: settled_def)
      from keep [OF this] pin None su show ?thesis by (simp add: placeTenant_def)
    next
      case (Some idx)
      note cn = current_name [OF Some]
      consider "idx < k" | "\<not> idx < k" "tiDeleting t" | "\<not> idx < k" "\<not> tiDeleting t" by blast
      then show ?thesis
      proof cases
        case 1
        then have "settled inp k t = Some (ShardName (int (nat idx)))" "nat idx < nat k"
          using pin Some cn by (auto simp: settled_def)
        then have "pass1_inv inp k (ds @ [t]) (place t (nat idx) s, un)"
          using pass1_place inv new su by blast
        with 1 pin Some su show ?thesis by (simp add: placeTenant_def)
      next
        case 2
        then have "settled inp k t = Some (tiCurrent t)" using pin Some by (simp add: settled_def)
        from hold [OF this] 2 pin Some su show ?thesis by (simp add: placeTenant_def)
      next
        case 3
        then have "settled inp k t = None" using pin Some by (simp add: settled_def)
        from keep [OF this] 3 pin Some su show ?thesis by (simp add: placeTenant_def)
      qed
    qed
  qed
qed

lemma pass1_fold:
  "pass1_inv inp k ds su \<Longrightarrow> distinct (map tiNamespace (ds @ ts)) \<Longrightarrow>
   pass1_inv inp k (ds @ ts) (fold (placeTenant inp k) ts su)"
proof (induction ts arbitrary: ds su)
  case (Cons t ts)
  have "pass1_inv inp k (ds @ [t]) (placeTenant inp k t su)"
    using Cons.prems by (intro pass1_step) auto
  from Cons.IH [OF this] Cons.prems(2) show ?case by simp
qed simp

subsection \<open>What the second pass adds\<close>

definition pass2_inv :: "nat \<Rightarrow> pstate \<Rightarrow> TenantInfo list \<Rightarrow> pstate \<Rightarrow> bool" where
  "pass2_inv n s1 ds s \<longleftrightarrow>
     placement_inv n s \<and>
     (\<forall>ns. ns \<notin> tiNamespace ` set ds \<longrightarrow> assign s ns = assign s1 ns) \<and>
     (\<forall>t \<in> set ds. \<exists>i < n. assign s (tiNamespace t) = Some (ShardName (int i))) \<and>
     set (concat (members s)) \<subseteq> set (concat (members s1)) \<union> set ds"

lemma pass2_step:
  assumes inv: "pass2_inv n s1 ds s" and n: "0 < n"
    and new: "tiNamespace t \<notin> tiNamespace ` (set (concat (members s1)) \<union> set ds)"
  shows "pass2_inv n s1 (ds @ [t]) (placeLeastLoaded t s)"
proof -
  let ?i = "argminLoad (load s)"
  have pi: "placement_inv n s" and sub: "set (concat (members s)) \<subseteq> set (concat (members s1)) \<union> set ds"
    using inv unfolding pass2_inv_def by auto
  have len: "length (members s) = n" "length (load s) = n" using placement_inv_lengths [OF pi] by auto
  have i: "?i < n" using least.scan_less [of "load s"] len n by (cases "load s") auto
  have "placement_inv n (placeLeastLoaded t s)"
    unfolding placeLeastLoaded_def using new sub i by (intro place_inv [OF pi]) blast+
  moreover have "set (concat (members (placeLeastLoaded t s))) \<subseteq>
      set (concat (members s1)) \<union> set (ds @ [t])"
    unfolding placeLeastLoaded_def using place_members [of ?i s t] i len sub by auto
  moreover have "\<forall>u \<in> set (ds @ [t]). \<exists>i < n. assign (placeLeastLoaded t s) (tiNamespace u) =
      Some (ShardName (int i))"
    using inv i unfolding pass2_inv_def placeLeastLoaded_def by auto
  ultimately show ?thesis
    using inv unfolding pass2_inv_def placeLeastLoaded_def by auto
qed

lemma pass2_fold:
  "pass2_inv n s1 ds s \<Longrightarrow> 0 < n \<Longrightarrow> distinct (map tiNamespace (ds @ ts)) \<Longrightarrow>
   tiNamespace ` set (concat (members s1)) \<inter> tiNamespace ` set (ds @ ts) = {} \<Longrightarrow>
   pass2_inv n s1 (ds @ ts) (fold placeLeastLoaded ts s)"
proof (induction ts arbitrary: ds s)
  case (Cons t ts)
  have "pass2_inv n s1 (ds @ [t]) (placeLeastLoaded t s)"
    using Cons.prems by (intro pass2_step) auto
  from Cons.IH [OF this] Cons.prems show ?case by simp
qed simp

definition placed_inv :: "PlacementInput \<Rightarrow> pstate \<Rightarrow> bool" where
  "placed_inv inp s \<longleftrightarrow>
     placement_inv (nat (shardK inp)) s \<and>
     dom (assign s) = tiNamespace ` set (piTenants inp) \<and>
     set (concat (members s)) \<subseteq> set (piTenants inp) \<and>
     (\<forall>t \<in> set (piTenants inp).
        (\<exists>i < nat (shardK inp). assign s (tiNamespace t) = Some (ShardName (int i))) \<or>
        (tiDeleting t \<and> ParseShardIndex (tiCurrent t) \<noteq> None \<and>
         assign s (tiNamespace t) = Some (tiCurrent t))) \<and>
     (\<forall>t \<in> set (piTenants inp).
        \<not> movable inp (shardK inp) t \<longrightarrow> settled inp (shardK inp) t \<noteq> None \<longrightarrow>
        assign s (tiNamespace t) = settled inp (shardK inp) t)"

lemma shardK_pos [simp]: "0 < shardK inp" "\<not> shardK inp \<le> 0"
  by (simp_all add: shardK_def)

lemma settled_cases:
  "settled inp k t = Some v \<Longrightarrow>
   (\<exists>i < nat k. v = ShardName (int i)) \<or>
   (tiDeleting t \<and> ParseShardIndex (tiCurrent t) \<noteq> None \<and> v = tiCurrent t)"
  unfolding settled_def
  by (auto dest: pinIndex_less simp: shard_codec.parse_iff split: option.splits if_splits
      intro!: exI [of _ "nat _"])

lemma pass1_empty:
  "pass1_inv inp k [] (\<lparr>assign = Map.empty, load = replicate (nat k) 0,
     members = replicate (nat k) []\<rparr>, [])"
  by (auto simp: pass1_inv_def placement_inv_def)

lemma distinct_map_sort_key:
  "distinct (map f (sort_key g xs)) \<longleftrightarrow> distinct (map f xs)"
  by (rule mset_eq_imp_distinct_iff) simp

text \<open>The two passes, with the state between them.\<close>

lemma initialPlacement_passes:
  assumes "distinct (map tiNamespace (piTenants inp))"
  obtains s1 un where "pass1_inv inp (shardK inp) (sort_key tiNamespace (piTenants inp)) (s1, un)"
    and "initialPlacement inp =
      fold placeLeastLoaded (sort_key (\<lambda>t. (- tiWeight t, tiNamespace t)) un) s1"
    and "pass2_inv (nat (shardK inp)) s1 un (initialPlacement inp)"
proof -
  let ?k = "shardK inp" and ?ts = "sort_key tiNamespace (piTenants inp)"
  let ?z = "\<lparr>assign = Map.empty, load = replicate (nat ?k) 0, members = replicate (nat ?k) []\<rparr>"
  obtain s1 un where f: "fold (placeTenant inp ?k) ?ts (?z, []) = (s1, un)" by fastforce
  have ds: "distinct (map tiNamespace ?ts)" using assms by (simp add: distinct_map_sort_key)
  have p1: "pass1_inv inp ?k ?ts (s1, un)"
    using pass1_fold [OF pass1_empty, of ?ts inp ?k] ds f by simp
  let ?us = "sort_key (\<lambda>t. (- tiWeight t, tiNamespace t)) un"
  have un: "un = filter (\<lambda>t. settled inp ?k t = None) ?ts"
    using p1 by (simp add: pass1_inv_def)
  have eq: "initialPlacement inp = fold placeLeastLoaded ?us s1"
    using f by (simp add: initialPlacement_def Let_def)
  have "distinct (map tiNamespace ?us)"
    using ds un by (simp add: distinct_map_sort_key distinct_map_filter)
  moreover have "tiNamespace ` set (concat (members s1)) \<inter> tiNamespace ` set ?us = {}"
  proof (rule equals0I)
    fix ns assume "ns \<in> tiNamespace ` set (concat (members s1)) \<inter> tiNamespace ` set ?us"
    then have m: "ns \<in> tiNamespace ` set (concat (members s1))" and n: "ns \<in> tiNamespace ` set un"
      by (simp_all only: Int_iff set_sort)
    from m obtain t where t: "t \<in> set (concat (members s1))" "tiNamespace t = ns" by (rule imageE) simp
    from n obtain u where u: "u \<in> set un" "tiNamespace u = ns" by (rule imageE) simp
    note tu = t(1) u(1) t(2) u(2)
    from tu(1) obtain i where "i < length (members s1)" "t \<in> set (members s1 ! i)"
      by (metis UN_E in_set_conv_nth set_concat)
    then have "assign s1 ns \<noteq> None"
      using p1 tu(3) by (auto simp: pass1_inv_def placement_inv_def)
    moreover have "assign s1 ns = None" using p1 un tu(2,4) by (auto simp: pass1_inv_def)
    ultimately show False by simp
  qed
  moreover have "pass2_inv (nat ?k) s1 [] s1" using p1 by (simp add: pass2_inv_def pass1_inv_def)
  ultimately have "pass2_inv (nat ?k) s1 ?us (initialPlacement inp)"
    using pass2_fold [of "nat ?k" s1 "[]" s1 ?us] unfolding eq by simp
  then have "pass2_inv (nat ?k) s1 un (initialPlacement inp)" by (simp add: pass2_inv_def)
  with p1 eq show thesis by (rule that)
qed

lemma initialPlacement_placed:
  assumes "distinct (map tiNamespace (piTenants inp))"
  shows "placed_inv inp (initialPlacement inp)"
    and "\<forall>t \<in> set (piTenants inp). settled inp (shardK inp) t \<noteq> None \<longrightarrow>
      assign (initialPlacement inp) (tiNamespace t) = settled inp (shardK inp) t"
proof -
  let ?k = "shardK inp" and ?s = "initialPlacement inp"
  obtain s1 un where p1: "pass1_inv inp ?k (sort_key tiNamespace (piTenants inp)) (s1, un)"
    and p2: "pass2_inv (nat ?k) s1 un ?s"
    by (rule initialPlacement_passes [OF assms])
  have un: "set un = {t \<in> set (piTenants inp). settled inp ?k t = None}"
    using p1 by (auto simp: pass1_inv_def)
  have inj: "t = u" if "t \<in> set (piTenants inp)" "u \<in> set (piTenants inp)"
    "tiNamespace t = tiNamespace u" for t u
    using assms that by (auto simp: distinct_map inj_on_def)
  show st: "\<forall>t \<in> set (piTenants inp). settled inp ?k t \<noteq> None \<longrightarrow>
      assign ?s (tiNamespace t) = settled inp ?k t"
  proof (intro ballI impI)
    fix t assume t: "t \<in> set (piTenants inp)" "settled inp ?k t \<noteq> None"
    have "tiNamespace t \<notin> tiNamespace ` set un" using t un inj by (auto simp: image_iff)
    then show "assign ?s (tiNamespace t) = settled inp ?k t"
      using p1 p2 t by (auto simp: pass1_inv_def pass2_inv_def)
  qed
  have free: "\<exists>i < nat ?k. assign ?s (tiNamespace t) = Some (ShardName (int i))"
    if "t \<in> set (piTenants inp)" "settled inp ?k t = None" for t
    using p2 un that by (auto simp: pass2_inv_def)
  have "dom (assign ?s) \<subseteq> tiNamespace ` set (piTenants inp)"
  proof
    fix ns assume a: "ns \<in> dom (assign ?s)"
    show "ns \<in> tiNamespace ` set (piTenants inp)"
    proof (cases "ns \<in> tiNamespace ` set un")
      case False
      with a p2 have "ns \<in> dom (assign s1)" by (auto simp: pass2_inv_def)
      with p1 show ?thesis by (auto simp: pass1_inv_def)
    qed (use un in auto)
  qed
  moreover have "tiNamespace ` set (piTenants inp) \<subseteq> dom (assign ?s)"
    using st free by fastforce
  moreover have "set (concat (members ?s)) \<subseteq> set (piTenants inp)"
  proof -
    have "set (concat (members s1)) \<subseteq> set (piTenants inp)" using p1 by (simp add: pass1_inv_def)
    moreover have "set (concat (members ?s)) \<subseteq> set (concat (members s1)) \<union> set un"
      using p2 unfolding pass2_inv_def by blast
    ultimately show ?thesis using un by blast
  qed
  moreover have "\<forall>t \<in> set (piTenants inp).
      (\<exists>i < nat ?k. assign ?s (tiNamespace t) = Some (ShardName (int i))) \<or>
      (tiDeleting t \<and> ParseShardIndex (tiCurrent t) \<noteq> None \<and>
       assign ?s (tiNamespace t) = Some (tiCurrent t))"
    using st free settled_cases by (metis option.exhaust)
  moreover have "placement_inv (nat ?k) ?s" using p2 by (simp add: pass2_inv_def)
  ultimately show "placed_inv inp ?s" using st unfolding placed_inv_def by blast
qed

subsection \<open>The rebalance pass keeps it\<close>

lemma extremum_lengths:
  assumes "placement_inv n s" "0 < n"
  shows "argmaxLoad (load s) < n" "argminLoad (load s) < n"
proof -
  have "length (load s) = n" using placement_inv_lengths [OF assms(1)] by simp
  moreover from this assms(2) have "load s \<noteq> []" by auto
  ultimately show "argmaxLoad (load s) < n" "argminLoad (load s) < n"
    using greatest.scan_less least.scan_less by auto
qed

lemma placed_inv_move:
  assumes d: "distinct (map tiNamespace (piTenants inp))" and inv: "placed_inv inp s"
    and mv: "improving_move inp (shardK inp) s b"
  shows "placed_inv inp (moveMember (argmaxLoad (load s)) (argminLoad (load s)) b s)"
proof -
  let ?n = "nat (shardK inp)" and ?i = "argmaxLoad (load s)" and ?j = "argminLoad (load s)"
  let ?u = "members s ! ?i ! b" and ?s' = "moveMember (argmaxLoad (load s)) (argminLoad (load s)) b s"
  have pi: "placement_inv ?n s" using inv by (simp add: placed_inv_def)
  have ij: "?i < ?n" "?j < ?n" using extremum_lengths [OF pi] by simp_all
  have b: "b < length (members s ! ?i)" "movable inp (shardK inp) ?u"
    using mv by (simp_all add: improving_move_def Let_def)
  have len: "length (members s) = ?n" using placement_inv_lengths [OF pi] by simp
  have "?u \<in> set (concat (members s))"
    by (rule member_concat [of ?i]) (use ij len b in simp_all)
  then have u: "?u \<in> set (piTenants inp)" using inv by (auto simp: placed_inv_def)
  have asg: "assign ?s' = (assign s)(tiNamespace ?u \<mapsto> ShardName (int ?j))"
    by (simp add: moveMember_def Let_def)
  have same: "t = ?u" if "t \<in> set (piTenants inp)" "tiNamespace t = tiNamespace ?u" for t
    using d that u by (auto simp: distinct_map inj_on_def)
  have dropped: "set (concat (members (dropMember ?i b s))) \<subseteq> set (concat (members s))"
    using dropMember_members [of ?i s b] ij len b(1) by (metis subset_insertI)
  have "length (members (dropMember ?i b s)) = ?n" by (simp add: dropMember_def len)
  then have "set (concat (members ?s')) = insert ?u (set (concat (members (dropMember ?i b s))))"
    unfolding moveMember_eq using ij by (intro place_members) simp
  then have mem: "set (concat (members ?s')) \<subseteq> set (piTenants inp)"
    using order_trans [OF dropped] u inv unfolding placed_inv_def by (metis insert_subset)
  show ?thesis
    unfolding placed_inv_def asg
    using moveMember_inv [OF pi ij(1) b(1) ij(2)] mem inv u ij b(2) same
    unfolding placed_inv_def by auto
qed

lemma ComputePlacement_placed:
  assumes "distinct (map tiNamespace (piTenants inp))"
  shows "placed_inv inp (ComputePlacementState rnd inp)"
  unfolding ComputePlacementState_def
  by (rule rebalance_rule) (use initialPlacement_placed(1) placed_inv_move assms in blast)+

subsection \<open>Balance\<close>

lemma improving_move_loads:
  assumes pi: "placement_inv n s" "0 < n" and mv: "improving_move inp k s b"
    and bd: "\<forall>x \<in> set (load s). lo \<le> x \<and> x \<le> hi"
  shows "\<forall>x \<in> set (load (moveMember (argmaxLoad (load s)) (argminLoad (load s)) b s)). lo \<le> x \<and> x \<le> hi"
    and "sum_list (load (moveMember (argmaxLoad (load s)) (argminLoad (load s)) b s)) = sum_list (load s)"
proof -
  let ?i = "argmaxLoad (load s)" and ?j = "argminLoad (load s)"
  let ?w = "tiWeight (members s ! ?i ! b)"
  have len: "length (load s) = n" using placement_inv_lengths [OF pi(1)] by simp
  have ij: "?i < n" "?j < n" using extremum_lengths [OF pi] by simp_all
  have w: "0 < ?w" "?w < load s ! ?i - load s ! ?j"
    using mv by (simp_all add: improving_move_def Let_def)
  then have ne: "?i \<noteq> ?j" by auto
  have ld: "load (moveMember ?i ?j b s) = (load s)[?i := load s ! ?i - ?w, ?j := load s ! ?j + ?w]"
    using ne by (simp add: moveMember_def Let_def)
  have "load s ! ?i \<le> hi" "lo \<le> load s ! ?j" using bd ij len by simp_all
  with w have v: "lo \<le> load s ! ?i - ?w" "load s ! ?i - ?w \<le> hi" "lo \<le> load s ! ?j + ?w"
    "load s ! ?j + ?w \<le> hi" by linarith+
  have "set (load (moveMember ?i ?j b s)) \<subseteq>
      insert (load s ! ?j + ?w) (insert (load s ! ?i - ?w) (set (load s)))"
    unfolding ld by (meson insert_mono order_trans set_update_subset_insert)
  with v bd show "\<forall>x \<in> set (load (moveMember ?i ?j b s)). lo \<le> x \<and> x \<le> hi" by blast
  show "sum_list (load (moveMember ?i ?j b s)) = sum_list (load s)"
    unfolding ld using ij len ne by (simp add: sum_list_update_int)
qed

lemma rebalance_loads:
  assumes pi: "placement_inv n s" "0 < n" and bd: "\<forall>x \<in> set (load s). lo \<le> x \<and> x \<le> hi"
  shows "(\<forall>x \<in> set (load (rebalance rnd inp k s)). lo \<le> x \<and> x \<le> hi) \<and>
    sum_list (load (rebalance rnd inp k s)) = sum_list (load s)"
proof -
  let ?P = "\<lambda>s'. placement_inv n s' \<and> (\<forall>x \<in> set (load s'). lo \<le> x \<and> x \<le> hi) \<and>
    sum_list (load s') = sum_list (load s)"
  have "?P (rebalance rnd inp k s)"
  proof (rule rebalance_rule)
    show "?P s" using pi bd by simp
  next
    fix s' b assume P: "?P s'" and mv: "improving_move inp k s' b"
    have "b < length (members s' ! argmaxLoad (load s'))"
      using mv by (simp add: improving_move_def Let_def)
    then have "placement_inv n (moveMember (argmaxLoad (load s')) (argminLoad (load s')) b s')"
      using moveMember_inv extremum_lengths P pi(2) by blast
    moreover note improving_move_loads [OF conjunct1 [OF P] pi(2) mv, of lo hi]
    ultimately show "?P (moveMember (argmaxLoad (load s')) (argminLoad (load s')) b s')"
      using P by metis
  qed
  then show ?thesis by simp
qed

text \<open>Least-loaded placement keeps every two loads within the largest weight placed so far.\<close>

lemma leastLoaded_spread:
  assumes "\<forall>t \<in> set ts. 0 \<le> tiWeight t \<and> tiWeight t \<le> w" "load s \<noteq> []"
    and "\<forall>x \<in> set (load s). \<forall>y \<in> set (load s). x \<le> y + w"
  shows "\<forall>x \<in> set (load (fold placeLeastLoaded ts s)). \<forall>y \<in> set (load (fold placeLeastLoaded ts s)).
    x \<le> y + w"
  using assms
proof (induction ts arbitrary: s)
  case (Cons t ts)
  let ?i = "argminLoad (load s)"
  let ?v = "load s ! ?i + tiWeight t"
  let ?l = "(load s)[?i := ?v]"
  have i: "?i < length (load s)" using Cons.prems(2) by (rule least.scan_less)
  have sub: "set ?l \<subseteq> insert ?v (set (load s))" by (rule set_update_subset_insert)
  have mn: "load s ! ?i \<le> y" if "y \<in> set (load s)" for y using that by (rule least.scan_set)
  have w: "0 \<le> tiWeight t" "tiWeight t \<le> w" using Cons.prems(1) by auto
  have "load s ! ?i \<in> set (load s)" using i by simp
  then have up: "x \<le> load s ! ?i + w" if "x \<in> set (load s)" for x using Cons.prems(3) that by blast
  have "x \<le> y + w" if "x \<in> set ?l" "y \<in> set ?l" for x y
  proof -
    have x: "x \<le> load s ! ?i + w" using sub that(1) up w by auto
    have y: "load s ! ?i \<le> y" using sub that(2) mn w by auto
    from x y show ?thesis by linarith
  qed
  then show ?case
    using Cons.IH [of "placeLeastLoaded t s"] Cons.prems(1,2) by (simp add: placeLeastLoaded_def)
qed simp

lemma ComputePlacement_balance_bounds:
  assumes "distinct (map tiNamespace (piTenants inp))"
    and "l \<in> set (load (ComputePlacementState rnd inp))"
  shows "Min (set (load (initialPlacement inp))) \<le> l \<and> l \<le> Max (set (load (initialPlacement inp))) \<and>
    sum_list (load (ComputePlacementState rnd inp)) = sum_list (load (initialPlacement inp))"
proof -
  let ?s = "initialPlacement inp"
  have "placement_inv (nat (shardK inp)) ?s"
    using initialPlacement_placed(1) [OF assms(1)] by (simp add: placed_inv_def)
  moreover have "0 < nat (shardK inp)" by simp
  moreover have "\<forall>x \<in> set (load ?s). Min (set (load ?s)) \<le> x \<and> x \<le> Max (set (load ?s))" by simp
  ultimately show ?thesis
    using rebalance_loads [of "nat (shardK inp)" ?s "Min (set (load ?s))" "Max (set (load ?s))"]
      assms(2) unfolding ComputePlacementState_def by blast
qed

lemma fresh_initialPlacement:
  assumes "\<forall>t \<in> set (piTenants inp). ParseShardIndex (tiCurrent t) = None \<and>
      pinIndex inp (shardK inp) (tiNamespace t) = None"
  shows "initialPlacement inp =
    fold placeLeastLoaded
      (sort_key (\<lambda>t. (- tiWeight t, tiNamespace t)) (sort_key tiNamespace (piTenants inp)))
      \<lparr>assign = Map.empty, load = replicate (nat (shardK inp)) 0, members = replicate (nat (shardK inp)) []\<rparr>"
proof -
  have "fold (placeTenant inp (shardK inp)) us (s, vs) = (s, vs @ us)"
    if "set us \<subseteq> set (piTenants inp)" for us s vs
    using that assms by (induction us arbitrary: vs) (auto simp: placeTenant_def)
  from this [of "sort_key tiNamespace (piTenants inp)"] show ?thesis
    by (simp add: initialPlacement_def Let_def)
qed

subsection \<open>Properties\<close>

text \<open>C1: placement is total and names existing shards. Every tenant of the input, and no other
  namespace, is assigned, and its assignment is one of the canonical keys of the shards that
  exist, except that a tenant being deleted may keep the key of a removed shard.\<close>

theorem ComputePlacement_total:
  assumes "distinct (map tiNamespace (piTenants inp))"
  shows "dom (ComputePlacement rnd inp) = tiNamespace ` set (piTenants inp) \<and>
    (\<forall>t \<in> set (piTenants inp).
       (\<exists>i < nat (shardK inp). ComputePlacement rnd inp (tiNamespace t) = Some (ShardName (int i))) \<or>
       (tiDeleting t \<and> ParseShardIndex (tiCurrent t) \<noteq> None \<and>
        ComputePlacement rnd inp (tiNamespace t) = Some (tiCurrent t)))"
  using ComputePlacement_placed [OF assms, of rnd]
  unfolding placed_inv_def ComputePlacement_def by blast

definition demoTenants :: "TenantInfo list" where
  "demoTenants =
     [\<lparr>tiNamespace = ''tenant-a'', tiWeight = 9, tiCurrent = ''shard0'', tiDeleting = False\<rparr>,
      \<lparr>tiNamespace = ''tenant-b'', tiWeight = 3, tiCurrent = ''shard0'', tiDeleting = False\<rparr>,
      \<lparr>tiNamespace = ''tenant-c'', tiWeight = 1, tiCurrent = [], tiDeleting = False\<rparr>,
      \<lparr>tiNamespace = ''tenant-d'', tiWeight = 2, tiCurrent = ''shard5'', tiDeleting = True\<rparr>,
      \<lparr>tiNamespace = ''tenant-e'', tiWeight = 4, tiCurrent = ''shard0'', tiDeleting = False\<rparr>]"

definition demoInput :: PlacementInput where
  "demoInput = \<lparr>piTenants = demoTenants, piShardCount = 2,
     piPinned = [''tenant-e'' \<mapsto> ''shard1''], piRebalanceThreshold = 1 / 10,
     piCanRebalance = Some (\<lambda>ns. ns \<noteq> ''tenant-a'')\<rparr>"

lemma demoInput_distinct: "distinct (map tiNamespace (piTenants demoInput))"
  by (simp add: demoInput_def demoTenants_def)

theorem ComputePlacement_total_witness:
  "dom (ComputePlacement (\<lambda>x. x) demoInput) =
     {''tenant-a'', ''tenant-b'', ''tenant-c'', ''tenant-d'', ''tenant-e''} \<and>
   ComputePlacement (\<lambda>x. x) demoInput ''tenant-b'' = Some ''shard1''"
proof -
  have "ComputePlacement (\<lambda>x. x) demoInput ''tenant-b'' = Some ''shard1''" by code_simp
  with ComputePlacement_total [OF demoInput_distinct, of "\<lambda>x. x"] show ?thesis
    by (simp add: demoInput_def demoTenants_def)
qed

text \<open>what no balancing moves. A pinned tenant that is not being deleted is on its pin; a
  tenant being deleted stays on its current shard, even a removed one; a tenant in its move
  cooldown, or any tenant when rebalancing is disabled, stays on its current shard as long as that
  shard exists and no pin names another.\<close>

theorem ComputePlacement_sticky:
  assumes "distinct (map tiNamespace (piTenants inp))" "t \<in> set (piTenants inp)"
  shows "(\<not> tiDeleting t \<and> pinIndex inp (shardK inp) (tiNamespace t) = Some p \<longrightarrow>
      ComputePlacement rnd inp (tiNamespace t) = Some (ShardName (int p))) \<and>
    (tiDeleting t \<and> ParseShardIndex (tiCurrent t) \<noteq> None \<longrightarrow>
      ComputePlacement rnd inp (tiNamespace t) = Some (tiCurrent t)) \<and>
    (ParseShardIndex (tiCurrent t) = Some i \<and> i < shardK inp \<and>
      pinIndex inp (shardK inp) (tiNamespace t) = None \<and>
      (piRebalanceThreshold inp \<le> 0 \<or> (\<exists>f. piCanRebalance inp = Some f \<and> \<not> f (tiNamespace t))) \<longrightarrow>
      ComputePlacement rnd inp (tiNamespace t) = Some (tiCurrent t))"
proof -
  let ?k = "shardK inp"
  have held: "ComputePlacement rnd inp (tiNamespace t) = settled inp ?k t"
    if "\<not> movable inp ?k t \<or> piRebalanceThreshold inp \<le> 0" "settled inp ?k t \<noteq> None"
    using that(1)
  proof
    assume "\<not> movable inp ?k t"
    then show ?thesis
      using ComputePlacement_placed [OF assms(1), of rnd] assms(2) that(2)
      unfolding placed_inv_def ComputePlacement_def by blast
  next
    assume "piRebalanceThreshold inp \<le> 0"
    then have "ComputePlacement rnd inp = assign (initialPlacement inp)"
      by (simp add: ComputePlacement_def ComputePlacementState_def rebalance_def)
    then show ?thesis using initialPlacement_placed(2) [OF assms(1)] assms(2) that(2) by simp
  qed
  show ?thesis
    using held by (auto simp: settled_def movable_def split: if_splits option.splits)
qed

theorem ComputePlacement_sticky_witness:
  "ComputePlacement (\<lambda>x. x) demoInput ''tenant-e'' = Some (ShardName 1) \<and>
   ComputePlacement (\<lambda>x. x) demoInput ''tenant-d'' = Some ''shard5'' \<and>
   ComputePlacement (\<lambda>x. x) demoInput ''tenant-a'' = Some ''shard0''"
proof -
  have in_a: "demoTenants ! 0 \<in> set (piTenants demoInput)"
    and in_d: "demoTenants ! 3 \<in> set (piTenants demoInput)"
    and in_e: "demoTenants ! 4 \<in> set (piTenants demoInput)"
    by (simp_all add: demoInput_def demoTenants_def)
  have pe: "\<not> tiDeleting (demoTenants ! 4) \<and>
      pinIndex demoInput (shardK demoInput) (tiNamespace (demoTenants ! 4)) = Some 1" by code_simp
  have pd: "tiDeleting (demoTenants ! 3) \<and> ParseShardIndex (tiCurrent (demoTenants ! 3)) \<noteq> None"
    by code_simp
  have pa: "ParseShardIndex (tiCurrent (demoTenants ! 0)) = Some 0 \<and> 0 < shardK demoInput \<and>
      pinIndex demoInput (shardK demoInput) (tiNamespace (demoTenants ! 0)) = None" by code_simp
  have ca: "\<exists>f. piCanRebalance demoInput = Some f \<and> \<not> f (tiNamespace (demoTenants ! 0))"
    by (simp add: demoInput_def demoTenants_def)
  have e: "ComputePlacement (\<lambda>x. x) demoInput (tiNamespace (demoTenants ! 4)) = Some (ShardName 1)"
    using ComputePlacement_sticky [OF demoInput_distinct in_e, of 1 "\<lambda>x. x"] pe by simp
  have d: "ComputePlacement (\<lambda>x. x) demoInput (tiNamespace (demoTenants ! 3)) = Some (tiCurrent (demoTenants ! 3))"
    using ComputePlacement_sticky [OF demoInput_distinct in_d, of _ "\<lambda>x. x"] pd by blast
  have a: "ComputePlacement (\<lambda>x. x) demoInput (tiNamespace (demoTenants ! 0)) = Some (tiCurrent (demoTenants ! 0))"
    using ComputePlacement_sticky [OF demoInput_distinct in_a, of _ "\<lambda>x. x" 0] pa ca by blast
  show ?thesis using a d e by (simp add: demoTenants_def)
qed

text \<open>C2: rebalancing never makes the balance worse. Every load after the whole placement lies
  between the least and the greatest load of the placement before rebalancing, and the total load
  is conserved.\<close>

theorem ComputePlacement_balance:
  assumes "distinct (map tiNamespace (piTenants inp))"
    and "l \<in> set (load (ComputePlacementState rnd inp))"
  shows "Min (set (load (initialPlacement inp))) \<le> l \<and> l \<le> Max (set (load (initialPlacement inp))) \<and>
    sum_list (load (ComputePlacementState rnd inp)) = sum_list (load (initialPlacement inp))"
  using assms by (rule ComputePlacement_balance_bounds)

theorem ComputePlacement_balance_witness:
  "load (initialPlacement demoInput) = [12, 5] \<and> load (ComputePlacementState (\<lambda>x. x) demoInput) = [9, 8] \<and>
   Min (set (load (initialPlacement demoInput))) \<le> 8 \<and> (8::int) \<le> Max (set (load (initialPlacement demoInput)))"
proof -
  have i: "load (initialPlacement demoInput) = [12, 5]" by code_simp
  have c: "load (ComputePlacementState (\<lambda>x. x) demoInput) = [9, 8]" by code_simp
  have "(8::int) \<in> set (load (ComputePlacementState (\<lambda>x. x) demoInput))" unfolding c by simp
  from ComputePlacement_balance [OF demoInput_distinct this] i c show ?thesis by simp
qed

text \<open>a fresh placement is balanced. When no tenant is settled yet (no assignment and no pin to
  an existing shard), any two shards differ in load by at most the weight of one tenant, before and
  after rebalancing; with equal weights this is one tenant.\<close>

theorem ComputePlacement_fresh_spread:
  assumes "distinct (map tiNamespace (piTenants inp))" "0 \<le> w"
    and "\<forall>t \<in> set (piTenants inp). 0 \<le> tiWeight t \<and> tiWeight t \<le> w \<and>
      ParseShardIndex (tiCurrent t) = None \<and> pinIndex inp (shardK inp) (tiNamespace t) = None"
    and "x \<in> set (load (ComputePlacementState rnd inp))" "y \<in> set (load (ComputePlacementState rnd inp))"
  shows "x \<le> y + w"
proof -
  let ?k = "shardK inp" and ?s = "initialPlacement inp"
  let ?z = "\<lparr>assign = Map.empty, load = replicate (nat ?k) 0, members = replicate (nat ?k) []\<rparr> :: pstate"
  have "load ?z \<noteq> []" by simp
  with leastLoaded_spread [of "sort_key (\<lambda>t. (- tiWeight t, tiNamespace t))
      (sort_key tiNamespace (piTenants inp))" w ?z] assms(2,3)
  have sp: "\<forall>x \<in> set (load ?s). \<forall>y \<in> set (load ?s). x \<le> y + w"
    by (simp add: fresh_initialPlacement)
  have "placement_inv (nat ?k) ?s"
    using initialPlacement_placed(1) [OF assms(1)] by (simp add: placed_inv_def)
  then have "load ?s \<noteq> []" using placement_inv_lengths [of "nat ?k" ?s] by auto
  then have "Max (set (load ?s)) \<le> Min (set (load ?s)) + w" using sp by simp
  then show ?thesis
    using ComputePlacement_balance_bounds [OF assms(1,4)] ComputePlacement_balance_bounds [OF assms(1,5)]
    by linarith
qed

definition freshInput :: PlacementInput where
  "freshInput = \<lparr>piTenants = map (\<lambda>ns. \<lparr>tiNamespace = ns, tiWeight = 2, tiCurrent = LegacyShardKey,
       tiDeleting = False\<rparr>) [''tenant-a'', ''tenant-b'', ''tenant-c''], piShardCount = 3,
     piPinned = Map.empty, piRebalanceThreshold = 1 / 2, piCanRebalance = None\<rparr>"

theorem ComputePlacement_fresh_spread_witness:
  "load (ComputePlacementState (\<lambda>x. x) freshInput) = [2, 2, 2] \<and> (2::int) \<le> 2 + 2"
proof -
  have l: "load (ComputePlacementState (\<lambda>x. x) freshInput) = [2, 2, 2]" by code_simp
  have d: "distinct (map tiNamespace (piTenants freshInput))" by code_simp
  have h: "\<forall>t \<in> set (piTenants freshInput). 0 \<le> tiWeight t \<and> tiWeight t \<le> 2 \<and>
      ParseShardIndex (tiCurrent t) = None \<and> pinIndex freshInput (shardK freshInput) (tiNamespace t) = None"
    by code_simp
  have m: "(2::int) \<in> set (load (ComputePlacementState (\<lambda>x. x) freshInput))" unfolding l by simp
  show ?thesis using ComputePlacement_fresh_spread [OF d _ h m m] l by simp
qed

end
