(* ===== verification/Shard_Controller.thy ===== *)
theory Shard_Controller
  imports Shard_Placement
begin

text \<open>
  The placement controller and the admission webhook of the flux shard operator
  (\<open>internal/fluxshardoperator/controller.go\<close>, \<open>tenant.go\<close>, \<open>webhook.go\<close>). The Kubernetes client
  is code outside the repository: a reconcile takes the results of its \<open>List\<close> and \<open>Get\<close> calls as
  arguments, an error or the listed objects, and the outcome of each \<open>Patch\<close> as a function of the
  patch; what it writes is the list of the label patches it issues, in order. The clock is read
  once per sync (\<open>now\<close>, in nanoseconds). The unspecified order in which \<open>range\<close> visits the counts
  of \<open>majorityShard\<close> is the argument \<open>ord\<close>.
\<close>

subsection \<open>Objects\<close>

record ObjMeta =
  omName :: string
  omNamespace :: string
  omLabels :: "string \<rightharpoonup> string"
  omDeleting :: bool

record tenantView =
  tvInfo :: TenantInfo
  tvHrs :: "ObjMeta list"
  tvNsExists :: bool
  tvNsLabel :: string

datatype gvk = NamespaceGVK | HelmReleaseGVK

datatype labelPatch = LabelPatch gvk string string string string

datatype patch_outcome = PatchOk | PatchNotFound | PatchFailed string

datatype sync_error = ListingFailed string | PatchError labelPatch string

subsection \<open>Attribution of HelmReleases to tenants (tenant.go)\<close>

definition TenantNamespaceForHR :: "ObjMeta \<Rightarrow> string option" where
  "TenantNamespaceForHR obj =
     (let nm = omName obj; namespace = omNamespace obj in
      if \<not> prefix ''tenant-'' namespace then None
      else if strOf (omLabels obj) ApplicationKindLabel = TenantKind then
        (case cutPrefix nm ''tenant-'' of
           Some sfx \<Rightarrow>
             if sfx \<noteq> [] then
               (if namespace = ''tenant-root'' then Some nm else Some (namespace @ ''-'' @ sfx))
             else Some namespace
         | None \<Rightarrow> Some namespace)
      else Some namespace)"

subsection \<open>Gathering the views\<close>

definition shardLabelOf :: "ObjMeta \<Rightarrow> string" where
  "shardLabelOf hr = strOf (omLabels hr) ShardKeyLabel"

fun countShards :: "ObjMeta list \<Rightarrow> (int \<times> int) list \<Rightarrow> (int \<times> int) list" where
  "countShards [] counts = counts"
| "countShards (hr # hrs) counts =
     countShards hrs
       (case ParseShardIndex (shardLabelOf hr) of
          None \<Rightarrow> counts
        | Some idx \<Rightarrow>
            AList.update idx ((case map_of counts idx of None \<Rightarrow> 0 | Some c \<Rightarrow> c) + 1) counts)"

fun bestCount :: "(int \<times> int) list \<Rightarrow> int \<times> int \<Rightarrow> int \<times> int" where
  "bestCount [] b = b"
| "bestCount ((idx, c) # cs) (best, bestC) =
     bestCount cs
       (if c > bestC \<or> (c = bestC \<and> best \<ge> 0 \<and> idx < best) then (idx, c) else (best, bestC))"

definition majorityShard :: "((int \<times> int) list \<Rightarrow> (int \<times> int) list) \<Rightarrow> ObjMeta list \<Rightarrow> string" where
  "majorityShard ord hrs =
     (let (best, _) = bestCount (ord (countShards hrs [])) (-1, 0) in
      if best < 0 then [] else ShardName best)"

definition addHR :: "ObjMeta \<Rightarrow> (string \<times> tenantView) list \<Rightarrow> (string \<times> tenantView) list" where
  "addHR hr views =
     (case TenantNamespaceForHR hr of
        None \<Rightarrow> views
      | Some tenantNS \<Rightarrow>
          (let v = (case map_of views tenantNS of
                      Some v \<Rightarrow> v
                    | None \<Rightarrow> \<lparr>tvInfo = \<lparr>tiNamespace = tenantNS, tiWeight = 0, tiCurrent = [],
                                         tiDeleting = False\<rparr>,
                               tvHrs = [], tvNsExists = False, tvNsLabel = []\<rparr>)
           in AList.update tenantNS
                (v\<lparr>tvHrs := tvHrs v @ [hr],
                   tvInfo := (tvInfo v)\<lparr>tiWeight := tiWeight (tvInfo v) + 1\<rparr>\<rparr>) views))"

definition completeView ::
    "((int \<times> int) list \<Rightarrow> (int \<times> int) list) \<Rightarrow> (string \<rightharpoonup> ObjMeta) \<Rightarrow> string \<Rightarrow> tenantView \<Rightarrow> tenantView" where
  "completeView ord nsByName tenantNS v =
     (let v1 = (case nsByName tenantNS of
                  None \<Rightarrow> v
                | Some ns \<Rightarrow> v\<lparr>tvNsExists := True,
                    tvInfo := (tvInfo v)\<lparr>tiDeleting := omDeleting ns\<rparr>,
                    tvNsLabel := strOf (omLabels ns) TenantShardLabel\<rparr>)
      in v1\<lparr>tvInfo := (tvInfo v1)\<lparr>tiCurrent :=
             (if ParseShardIndex (tvNsLabel v1) \<noteq> None then tvNsLabel v1
              else majorityShard ord (tvHrs v1))\<rparr>\<rparr>)"

definition gather ::
    "((int \<times> int) list \<Rightarrow> (int \<times> int) list) \<Rightarrow> string + ObjMeta list \<Rightarrow> string + ObjMeta list \<Rightarrow>
     sync_error + (string \<times> tenantView) list" where
  "gather ord listHRs listNSs =
     (case listHRs of
        Inl e \<Rightarrow> Inl (ListingFailed e)
      | Inr hrs \<Rightarrow>
          (case listNSs of
             Inl e \<Rightarrow> Inl (ListingFailed e)
           | Inr nss \<Rightarrow>
               (let nsByName = fold (\<lambda>ns m. m(omName ns \<mapsto> ns)) nss Map.empty;
                    views = fold addHR hrs []
                in Inr (map (\<lambda>(tenantNS, v). (tenantNS, completeView ord nsByName tenantNS v)) views))))"

subsection \<open>Observing the shards\<close>

record ShardDeploy =
  sdName :: string
  sdReadyReplicas :: int

definition observeShard ::
    "ShardDeploy \<Rightarrow> (string \<rightharpoonup> bool) \<times> int \<Rightarrow> (string \<rightharpoonup> bool) \<times> int" where
  "observeShard d rc =
     (case ParseShardDeploymentIndex (sdName d) of
        None \<Rightarrow> rc
      | Some idx \<Rightarrow>
          ((fst rc)(ShardName idx \<mapsto> sdReadyReplicas d > 0),
           if idx + 1 > snd rc then idx + 1 else snd rc))"

definition observeShards ::
    "string + ShardDeploy list \<Rightarrow> sync_error + ((string \<rightharpoonup> bool) \<times> int)" where
  "observeShards listDeps =
     (case listDeps of
        Inl e \<Rightarrow> Inl (ListingFailed e)
      | Inr deps \<Rightarrow> Inr (fold observeShard deps (Map.empty, 0)))"

subsection \<open>Watch predicates\<close>

record updateEvent =
  evOld :: "ObjMeta option"
  evNew :: "ObjMeta option"

text \<open>Label maps are compared on the keys of either object (\<open>maps.Equal\<close> on finite maps).\<close>

definition metadataChanged :: "updateEvent \<Rightarrow> bool" where
  "metadataChanged e =
     (case (evOld e, evNew e) of
        (Some old, Some new) \<Rightarrow> omLabels old \<noteq> omLabels new \<or> omDeleting old \<noteq> omDeleting new
      | _ \<Rightarrow> True)"

definition tenantNamespacePred :: "ObjMeta \<Rightarrow> bool" where
  "tenantNamespacePred obj \<longleftrightarrow> prefix ''tenant-'' (omName obj)"

definition shardDeploymentPred :: "ShardConfig \<Rightarrow> ObjMeta \<Rightarrow> bool" where
  "shardDeploymentPred cfg obj \<longleftrightarrow>
     omNamespace obj = FluxNamespace cfg \<and> strOf (omLabels obj) ManagedByLabel = ManagedByValue"

subsection \<open>Applying the assignment\<close>

definition movesPerSync :: int where "movesPerSync = 5"

definition rebalanceCooldown :: int where "rebalanceCooldown = 10 * 60 * 1000000000"

definition patchLabel :: "(labelPatch \<Rightarrow> patch_outcome) \<Rightarrow> labelPatch \<Rightarrow> sync_error list" where
  "patchLabel patch p =
     (case patch p of PatchOk \<Rightarrow> [] | PatchNotFound \<Rightarrow> [] | PatchFailed e \<Rightarrow> [PatchError p e])"

text \<open>The patches \<open>stamp\<close> issues for one tenant, in order; all are issued even when one fails.\<close>

definition stampPatches :: "tenantView \<Rightarrow> string \<Rightarrow> labelPatch list" where
  "stampPatches v target =
     (if tvNsExists v \<and> tvNsLabel v \<noteq> target
      then [LabelPatch NamespaceGVK [] (tiNamespace (tvInfo v)) TenantShardLabel target] else []) @
     map (\<lambda>hr. LabelPatch HelmReleaseGVK (omNamespace hr) (omName hr) ShardKeyLabel target)
       (filter (\<lambda>hr. shardLabelOf hr \<noteq> target) (tvHrs v))"

definition stamp ::
    "(labelPatch \<Rightarrow> patch_outcome) \<Rightarrow> tenantView \<Rightarrow> string \<Rightarrow> labelPatch list \<times> sync_error list" where
  "stamp patch v target =
     (let ps = stampPatches v target in (ps, concat (map (patchLabel patch) ps)))"

record applyState =
  apBudget :: int
  apPending :: int
  apErrs :: "sync_error list"
  apPatches :: "labelPatch list"
  apLastMoved :: "string \<rightharpoonup> int"
  apMoves :: "(string \<times> string) list"

definition applyTenant ::
    "(labelPatch \<Rightarrow> patch_outcome) \<Rightarrow> int \<Rightarrow> (string \<times> tenantView) list \<Rightarrow> (string \<rightharpoonup> string) \<Rightarrow>
     (string \<rightharpoonup> bool) \<Rightarrow> string \<Rightarrow> applyState \<Rightarrow> applyState" where
  "applyTenant patch now views desired ready tenantNS a =
     (case map_of views tenantNS of
        None \<Rightarrow> a
      | Some v \<Rightarrow>
          (let target = strOf desired tenantNS; moved = (tiCurrent (tvInfo v) \<noteq> target) in
           if target = [] then a
           else if moved \<and> (apBudget a = 0 \<or> ready target \<noteq> Some True)
             then a\<lparr>apPending := apPending a + 1\<rparr>
           else
             (let a1 = (if moved then a\<lparr>apBudget := apBudget a - 1\<rparr> else a);
                  (ps, errs) = stamp patch v target;
                  a2 = a1\<lparr>apPatches := apPatches a1 @ ps, apErrs := apErrs a1 @ errs\<rparr>
              in if errs \<noteq> [] then a2
                 else if moved then a2\<lparr>apLastMoved := (apLastMoved a2)(tenantNS \<mapsto> now),
                                       apMoves := apMoves a2 @ [(tenantNS, target)]\<rparr>
                 else a2)))"

definition applyAssignment ::
    "(labelPatch \<Rightarrow> patch_outcome) \<Rightarrow> int \<Rightarrow> (string \<times> tenantView) list \<Rightarrow> (string \<rightharpoonup> string) \<Rightarrow>
     (string \<rightharpoonup> bool) \<Rightarrow> (string \<rightharpoonup> int) \<Rightarrow> applyState" where
  "applyAssignment patch now views desired ready lastMoved =
     fold (applyTenant patch now views desired ready) (sort (map fst views))
       \<lparr>apBudget = movesPerSync, apPending = 0, apErrs = [], apPatches = [],
        apLastMoved = lastMoved, apMoves = []\<rparr>"

definition pruneCooldowns :: "(string \<times> tenantView) list \<Rightarrow> (string \<rightharpoonup> int) \<Rightarrow> (string \<rightharpoonup> int)" where
  "pruneCooldowns views lastMoved = lastMoved |` set (map fst views)"

subsection \<open>The sync\<close>

datatype requeue = RequeueShort | ResyncPeriod

record syncResult =
  syPatches :: "labelPatch list"
  syMoves :: "(string \<times> string) list"
  syPending :: int
  syLastMoved :: "string \<rightharpoonup> int"
  syOutcome :: "sync_error list + requeue"

definition canRebalance :: "int \<Rightarrow> (string \<rightharpoonup> int) \<Rightarrow> string \<Rightarrow> bool" where
  "canRebalance now lastMoved tenant =
     (case lastMoved tenant of None \<Rightarrow> True | Some t \<Rightarrow> now - t \<ge> rebalanceCooldown)"

definition placementInput ::
    "(rat \<Rightarrow> rat) \<Rightarrow> ShardConfig \<Rightarrow> int \<Rightarrow> (string \<rightharpoonup> int) \<Rightarrow> (string \<times> tenantView) list \<Rightarrow> int \<Rightarrow>
     PlacementInput" where
  "placementInput rnd cfg now lastMoved views currentShards =
     (let tenants = map (\<lambda>(_, v). tvInfo v) views;
          totalHRs = sum_list (map tiWeight tenants)
      in \<lparr>piTenants = tenants,
          piShardCount = EffectiveShardCount rnd cfg totalHRs (int (length views)) currentShards,
          piPinned = PinnedTenants cfg,
          piRebalanceThreshold = cfgRebalanceThreshold cfg,
          piCanRebalance = Some (canRebalance now lastMoved)\<rparr>)"

definition PlacementReconcile ::
    "((int \<times> int) list \<Rightarrow> (int \<times> int) list) \<Rightarrow> (rat \<Rightarrow> rat) \<Rightarrow> ShardConfig \<Rightarrow> int \<Rightarrow>
     (labelPatch \<Rightarrow> patch_outcome) \<Rightarrow> string + ObjMeta list \<Rightarrow> string + ObjMeta list \<Rightarrow>
     string + ShardDeploy list \<Rightarrow> (string \<rightharpoonup> int) \<Rightarrow> syncResult" where
  "PlacementReconcile ord rnd cfg now patch listHRs listNSs listDeps lastMoved =
     (let failed = (\<lambda>e. \<lparr>syPatches = [], syMoves = [], syPending = 0, syLastMoved = lastMoved,
                         syOutcome = Inl [e]\<rparr>)
      in case gather ord listHRs listNSs of
           Inl e \<Rightarrow> failed e
         | Inr views \<Rightarrow>
             (case observeShards listDeps of
                Inl e \<Rightarrow> failed e
              | Inr (ready, currentShards) \<Rightarrow>
                  (let desired = ComputePlacement rnd
                         (placementInput rnd cfg now lastMoved views currentShards);
                       a = applyAssignment patch now views desired ready lastMoved
                   in \<lparr>syPatches = apPatches a, syMoves = apMoves a, syPending = apPending a,
                       syLastMoved = pruneCooldowns views (apLastMoved a),
                       syOutcome = (if apErrs a \<noteq> [] then Inl (apErrs a)
                                    else Inr (if apPending a > 0 then RequeueShort
                                              else ResyncPeriod))\<rparr>)))"

subsection \<open>The webhook (webhook.go)\<close>

datatype get_result = GetOk ObjMeta | GetNotFound | GetError string

datatype admission_response =
  Allowed string
| Errored string
| PatchedLabels "string \<rightharpoonup> string" \<comment> \<open>add /metadata/labels\<close>
| PatchedLabel string string \<comment> \<open>add /metadata/labels/\<open>escaped key\<close> value\<close>

fun escapeJSONPointer :: "string \<Rightarrow> string" where
  "escapeJSONPointer [] = []"
| "escapeJSONPointer (c # cs) =
     (if c = CHR ''~'' then ''~0'' else if c = CHR ''/'' then ''~1'' else [c]) @ escapeJSONPointer cs"

record admissionObject =
  aoName :: string
  aoNamespace :: string
  aoLabels :: "(string \<rightharpoonup> string) option" \<comment> \<open>\<open>None\<close> for a nil map\<close>

definition aoMeta :: "string \<Rightarrow> admissionObject \<Rightarrow> ObjMeta" where
  "aoMeta reqNamespace o1 =
     \<lparr>omName = aoName o1,
      omNamespace = (if aoNamespace o1 = [] then reqNamespace else aoNamespace o1),
      omLabels = (case aoLabels o1 of None \<Rightarrow> Map.empty | Some l \<Rightarrow> l), omDeleting = False\<rparr>"

definition ShardWebhookHandle ::
    "bool \<Rightarrow> string \<Rightarrow> string + admissionObject \<Rightarrow> (string \<Rightarrow> get_result) \<Rightarrow> admission_response" where
  "ShardWebhookHandle isCreate reqNamespace decoded getNS =
     (if \<not> isCreate then Allowed ''only CREATE is mutated''
      else case decoded of
        Inl e \<Rightarrow> Errored e
      | Inr o1 \<Rightarrow>
          (let obj = aoMeta reqNamespace o1 in
           case TenantNamespaceForHR obj of
             None \<Rightarrow> Allowed ''not a tenant HelmRelease''
           | Some tenantNS \<Rightarrow>
               (case getNS tenantNS of
                  GetNotFound \<Rightarrow> Allowed ''tenant namespace not found, deferring to the placement controller''
                | GetError e \<Rightarrow> Allowed ''tenant namespace lookup failed, deferring to the placement controller''
                | GetOk ns \<Rightarrow>
                    (let shard = strOf (omLabels ns) TenantShardLabel in
                     if ParseShardIndex shard = None
                       then Allowed ''tenant has no recorded shard assignment yet''
                     else if shardLabelOf obj = shard then Allowed ''already on the assigned shard''
                     else if aoLabels o1 = None then PatchedLabels [ShardKeyLabel \<mapsto> shard]
                     else PatchedLabel (escapeJSONPointer ShardKeyLabel) shard))))"

subsection \<open>The majority vote\<close>

definition shardVotes :: "ObjMeta list \<Rightarrow> int \<Rightarrow> nat" where
  "shardVotes hrs i = length (filter (\<lambda>hr. ParseShardIndex (shardLabelOf hr) = Some i) hrs)"

lemma distinct_countShards:
  "distinct (map fst counts) \<Longrightarrow> distinct (map fst (countShards hrs counts))"
  by (induction hrs counts rule: countShards.induct) (auto simp: distinct_update split: option.splits)

lemma map_of_countShards:
  "map_of (countShards hrs counts) i =
     (case map_of counts i of
        None \<Rightarrow> if shardVotes hrs i = 0 then None else Some (int (shardVotes hrs i))
      | Some c \<Rightarrow> Some (c + int (shardVotes hrs i)))"
  by (induction hrs counts rule: countShards.induct)
    (auto simp: shardVotes_def update_conv' split: option.splits if_splits)

lemma countShards_entry:
  "(i, c) \<in> set (countShards hrs []) \<longleftrightarrow> 0 < shardVotes hrs i \<and> c = int (shardVotes hrs i)"
  using distinct_countShards [of "[]" hrs] map_of_eq_Some_iff [of "countShards hrs []" i c]
  by (auto simp: map_of_countShards split: if_splits)

lemma shardVotes_pos_index: "0 < shardVotes hrs i \<Longrightarrow> 0 \<le> i"
  by (auto simp: shardVotes_def shard_codec.parse_iff filter_empty_conv)

lemma bestCount_spec:
  assumes "\<forall>(i, c) \<in> set cs. 0 \<le> i \<and> 1 \<le> c" "bestCount cs (best, bestC) = (b, bc)"
    and "best = -1 \<and> bestC = 0 \<and> D = {} \<or>
      0 \<le> best \<and> (best, bestC) \<in> D \<and> (\<forall>(i, c) \<in> D. c < bestC \<or> (c = bestC \<and> best \<le> i))"
  shows "b = -1 \<and> bc = 0 \<and> D \<union> set cs = {} \<or>
      0 \<le> b \<and> (b, bc) \<in> D \<union> set cs \<and> (\<forall>(i, c) \<in> D \<union> set cs. c < bc \<or> (c = bc \<and> b \<le> i))"
  using assms
proof (induction cs arbitrary: best bestC D)
  case (Cons x cs)
  obtain i c where x: "x = (i, c)" by (cases x)
  let ?take = "c > bestC \<or> (c = bestC \<and> best \<ge> 0 \<and> i < best)"
  have ic: "0 \<le> i" "1 \<le> c" and rest: "\<forall>(i, c) \<in> set cs. 0 \<le> i \<and> 1 \<le> c" using Cons.prems(1) x by auto
  have un: "insert x D \<union> set cs = D \<union> set (x # cs)" by auto
  show ?case
  proof (cases ?take)
    case True
    have "0 \<le> i \<and> (i, c) \<in> insert x D \<and> (\<forall>(i', c') \<in> insert x D. c' < c \<or> (c' = c \<and> i \<le> i'))"
      using Cons.prems(3) True x ic by force
    with Cons.IH [OF rest, of i c "insert x D"] Cons.prems(2) True x show ?thesis
      unfolding un [symmetric] by simp
  next
    case False
    have "0 \<le> best \<and> (best, bestC) \<in> insert x D \<and>
        (\<forall>(i', c') \<in> insert x D. c' < bestC \<or> (c' = bestC \<and> best \<le> i'))"
      using Cons.prems(3) False x ic by force
    moreover have "bestCount cs (best, bestC) = (b, bc)" using Cons.prems(2) False x by auto
    ultimately show ?thesis
      unfolding un [symmetric] using Cons.IH [OF rest, of best bestC "insert x D"] by blast
  qed
qed auto

lemma majorityShard_cases:
  assumes "range_order ord"
  shows "majorityShard ord hrs = [] \<and> (\<forall>i. shardVotes hrs i = 0) \<or>
    (\<exists>b. majorityShard ord hrs = ShardName b \<and> 0 < shardVotes hrs b \<and>
      (\<forall>i. shardVotes hrs i < shardVotes hrs b \<or> (shardVotes hrs i = shardVotes hrs b \<and> b \<le> i)))"
proof -
  let ?cs = "ord (countShards hrs [])"
  obtain b bc where r: "bestCount ?cs (-1, 0) = (b, bc)" by fastforce
  have st: "set ?cs = set (countShards hrs [])" using range_order_set [OF assms] by blast
  have ok: "\<forall>(i, c) \<in> set ?cs. 0 \<le> i \<and> 1 \<le> c"
    unfolding st using shardVotes_pos_index by (auto simp: countShards_entry)
  from bestCount_spec [OF ok r, of "{}"] consider
    "b = -1" "set ?cs = {}" |
    "0 \<le> b" "(b, bc) \<in> set ?cs" "\<forall>(i, c) \<in> set ?cs. c < bc \<or> (c = bc \<and> b \<le> i)"
    by auto
  then show ?thesis
  proof cases
    case 1
    have "shardVotes hrs i = 0" for i
      using 1(2) countShards_entry [of i "int (shardVotes hrs i)" hrs] unfolding st by auto
    with 1(1) r show ?thesis by (simp add: majorityShard_def)
  next
    case 2
    have v: "0 < shardVotes hrs b" "bc = int (shardVotes hrs b)"
      using 2(2) unfolding st by (simp_all add: countShards_entry)
    have "shardVotes hrs i < shardVotes hrs b \<or> (shardVotes hrs i = shardVotes hrs b \<and> b \<le> i)" for i
    proof (cases "shardVotes hrs i = 0")
      case False
      then have "(i, int (shardVotes hrs i)) \<in> set ?cs" unfolding st by (simp add: countShards_entry)
      with 2(3) v(2) show ?thesis by fastforce
    qed (use v in simp)
    with v 2(1) r show ?thesis by (auto simp: majorityShard_def)
  qed
qed

subsection \<open>The gathered views\<close>

definition ofTenant :: "string \<Rightarrow> ObjMeta list \<Rightarrow> ObjMeta list" where
  "ofTenant t hrs = filter (\<lambda>h. TenantNamespaceForHR h = Some t) hrs"

definition views_inv :: "ObjMeta list \<Rightarrow> (string \<times> tenantView) list \<Rightarrow> bool" where
  "views_inv ds views \<longleftrightarrow>
     distinct (map fst views) \<and>
     (\<forall>t. map_of views t = None \<longleftrightarrow> ofTenant t ds = []) \<and>
     (\<forall>t v. map_of views t = Some v \<longrightarrow>
        tiNamespace (tvInfo v) = t \<and> tvHrs v = ofTenant t ds \<and>
        tiWeight (tvInfo v) = int (length (ofTenant t ds)))"

lemma addHR_inv:
  assumes "views_inv ds views"
  shows "views_inv (ds @ [hr]) (addHR hr views)"
proof (cases "TenantNamespaceForHR hr")
  case None
  with assms show ?thesis by (simp add: views_inv_def addHR_def ofTenant_def)
next
  case (Some t)
  obtain v where add: "addHR hr views = AList.update t v views"
    and v: "tiNamespace (tvInfo v) = t" "tvHrs v = ofTenant t (ds @ [hr])"
      "tiWeight (tvInfo v) = int (length (ofTenant t (ds @ [hr])))"
    using assms Some unfolding views_inv_def addHR_def ofTenant_def
    by (cases "map_of views t") (auto simp: Let_def simp del: map_of_eq_Some_iff)
  have other: "ofTenant u (ds @ [hr]) = (if u = t then ofTenant t ds @ [hr] else ofTenant u ds)" for u
    using Some by (auto simp: ofTenant_def)
  show ?thesis
    using assms v unfolding views_inv_def add
    by (auto simp: other update_conv' distinct_update simp del: map_of_eq_Some_iff split: if_splits)
qed

lemma fold_addHR: "views_inv ds views \<Longrightarrow> views_inv (ds @ hrs) (fold addHR hrs views)"
proof (induction hrs arbitrary: ds views)
  case (Cons h hrs)
  from Cons.IH [OF addHR_inv [OF Cons.prems]] show ?case by simp
qed simp

lemma completeView_frame [simp]:
  "tvHrs (completeView ord nsBy t v) = tvHrs v"
  "tiNamespace (tvInfo (completeView ord nsBy t v)) = tiNamespace (tvInfo v)"
  "tiWeight (tvInfo (completeView ord nsBy t v)) = tiWeight (tvInfo v)"
  by (simp_all add: completeView_def Let_def split: option.splits)

lemma gather_views:
  assumes "gather ord (Inr hrs) (Inr nss) = Inr views"
  shows "views_inv hrs views"
proof -
  let ?nsBy = "fold (\<lambda>ns m. m(omName ns \<mapsto> ns)) nss Map.empty"
  let ?vs = "fold addHR hrs []"
  have "views_inv [] []" by (simp add: views_inv_def ofTenant_def)
  from fold_addHR [OF this, of hrs] have inv: "views_inv hrs ?vs" by simp
  have views: "views = map (\<lambda>(t, v). (t, completeView ord ?nsBy t v)) ?vs"
    using assms by (simp add: gather_def Let_def)
  have m: "map_of views t = map_option (completeView ord ?nsBy t) (map_of ?vs t)" for t
    unfolding views by (rule map_of_map_keyed)
  have k: "map fst views = map fst ?vs" unfolding views by (rule map_fst_map_keyed)
  show ?thesis using inv unfolding views_inv_def k by (auto simp: m)
qed

subsection \<open>Pacing and completeness of the stamping\<close>

definition apply_inv ::
    "(string \<times> tenantView) list \<Rightarrow> (string \<rightharpoonup> string) \<Rightarrow> (string \<rightharpoonup> bool) \<Rightarrow> string list \<Rightarrow>
     applyState \<Rightarrow> bool" where
  "apply_inv views desired ready ds a \<longleftrightarrow>
     0 \<le> apBudget a \<and> int (length (apMoves a)) + apBudget a \<le> movesPerSync \<and> 0 \<le> apPending a \<and>
     (\<forall>(t, s) \<in> set (apMoves a). ready s = Some True \<and> desired t = Some s \<and>
        (\<exists>v. map_of views t = Some v \<and> tiCurrent (tvInfo v) \<noteq> s)) \<and>
     (\<forall>p \<in> set (apPatches a). \<exists>t v s. map_of views t = Some v \<and> desired t = Some s \<and>
        p \<in> set (stampPatches v s) \<and> (tiCurrent (tvInfo v) = s \<or> ready s = Some True)) \<and>
     (apPending a = 0 \<longrightarrow>
        (\<forall>t \<in> set ds. \<forall>v s. map_of views t = Some v \<and> desired t = Some s \<and> s \<noteq> [] \<longrightarrow>
           set (stampPatches v s) \<subseteq> set (apPatches a)))"

lemma strOf_eq_Some: "strOf m k = s \<Longrightarrow> s \<noteq> [] \<Longrightarrow> m k = Some s"
  by (auto simp: strOf_def split: option.splits)

lemma apply_inv_skip:
  assumes "apply_inv views desired ready ds a" "map_of views t = None \<or> strOf desired t = []"
  shows "apply_inv views desired ready (ds @ [t]) a"
  using assms unfolding apply_inv_def by (auto simp: strOf_def split: option.splits)

lemma apply_inv_defer:
  assumes "apply_inv views desired ready ds a"
  shows "apply_inv views desired ready (ds @ [t]) (a\<lparr>apPending := apPending a + 1\<rparr>)"
  using assms unfolding apply_inv_def by simp

lemma apply_inv_stamp:
  assumes inv: "apply_inv views desired ready ds a" and v: "map_of views t = Some v"
    and s: "desired t = Some s" "s \<noteq> []"
    and ok: "tiCurrent (tvInfo v) = s \<and> n = 0 \<or>
      ready s = Some True \<and> tiCurrent (tvInfo v) \<noteq> s \<and> n = 1 \<and> apBudget a \<noteq> 0"
    and a': "apBudget a' = apBudget a - n" "apPending a' = apPending a"
      "apPatches a' = apPatches a @ stampPatches v s"
      "apMoves a' = apMoves a \<or> n = 1 \<and> apMoves a' = apMoves a @ [(t, s)]"
  shows "apply_inv views desired ready (ds @ [t]) a'"
proof -
  have bud: "0 \<le> apBudget a'" "int (length (apMoves a')) + apBudget a' \<le> movesPerSync"
    using inv ok a'(1,4) unfolding apply_inv_def by auto
  have mv: "\<forall>(t, s) \<in> set (apMoves a'). ready s = Some True \<and> desired t = Some s \<and>
        (\<exists>v. map_of views t = Some v \<and> tiCurrent (tvInfo v) \<noteq> s)"
    using inv ok a'(4) v s(1) unfolding apply_inv_def by auto
  have "\<forall>p \<in> set (stampPatches v s). \<exists>t v s. map_of views t = Some v \<and> desired t = Some s \<and>
        p \<in> set (stampPatches v s) \<and> (tiCurrent (tvInfo v) = s \<or> ready s = Some True)"
    using v s(1) ok by blast
  with inv have pt: "\<forall>p \<in> set (apPatches a'). \<exists>t v s. map_of views t = Some v \<and> desired t = Some s \<and>
        p \<in> set (stampPatches v s) \<and> (tiCurrent (tvInfo v) = s \<or> ready s = Some True)"
    unfolding apply_inv_def a'(3) by auto
  have all: "apPending a' = 0 \<longrightarrow> (\<forall>u \<in> set (ds @ [t]). \<forall>v s. map_of views u = Some v \<and>
        desired u = Some s \<and> s \<noteq> [] \<longrightarrow> set (stampPatches v s) \<subseteq> set (apPatches a'))"
  proof
    assume z: "apPending a' = 0"
    have "\<forall>u \<in> set ds. \<forall>v s. map_of views u = Some v \<and> desired u = Some s \<and> s \<noteq> [] \<longrightarrow>
        set (stampPatches v s) \<subseteq> set (apPatches a)"
      using inv z a'(2) unfolding apply_inv_def by simp
    then show "\<forall>u \<in> set (ds @ [t]). \<forall>v s. map_of views u = Some v \<and>
        desired u = Some s \<and> s \<noteq> [] \<longrightarrow> set (stampPatches v s) \<subseteq> set (apPatches a')"
      using v s(1) unfolding a'(3) set_append by fastforce
  qed
  have "0 \<le> apPending a'" using inv a'(2) unfolding apply_inv_def by simp
  with bud mv pt all show ?thesis unfolding apply_inv_def by (intro conjI)
qed

lemma applyTenant_inv:
  assumes inv: "apply_inv views desired ready ds a"
  shows "apply_inv views desired ready (ds @ [t]) (applyTenant patch now views desired ready t a)"
proof (cases "map_of views t")
  case None
  then show ?thesis using apply_inv_skip [OF inv] by (simp add: applyTenant_def)
next
  case (Some v)
  let ?s = "strOf desired t"
  let ?moved = "tiCurrent (tvInfo v) \<noteq> ?s"
  consider "?s = []" | "?s \<noteq> []" "?moved \<and> (apBudget a = 0 \<or> ready ?s \<noteq> Some True)"
    | "?s \<noteq> []" "\<not> (?moved \<and> (apBudget a = 0 \<or> ready ?s \<noteq> Some True))" by blast
  then show ?thesis
  proof cases
    case 1
    then show ?thesis using apply_inv_skip [OF inv] Some by (simp add: applyTenant_def)
  next
    case 2
    then show ?thesis using apply_inv_defer [OF inv] Some by (simp add: applyTenant_def Let_def)
  next
    case 3
    let ?n = "if ?moved then 1 else 0 :: int"
    have d: "desired t = Some ?s" using strOf_eq_Some [of desired t ?s] 3(1) by simp
    show ?thesis
      by (rule apply_inv_stamp [OF inv Some d 3(1), where n = ?n])
        (use 3 Some in \<open>auto simp: applyTenant_def Let_def stamp_def\<close>)
  qed
qed

lemma fold_applyTenant:
  "apply_inv views desired ready ds a \<Longrightarrow>
   apply_inv views desired ready (ds @ ts) (fold (applyTenant patch now views desired ready) ts a)"
proof (induction ts arbitrary: ds a)
  case (Cons t ts)
  from Cons.IH [OF applyTenant_inv [OF Cons.prems]] show ?case by simp
qed simp

lemma applyAssignment_inv:
  "apply_inv views desired ready (sort (map fst views))
     (applyAssignment patch now views desired ready lastMoved)"
proof -
  have "apply_inv views desired ready []
     \<lparr>apBudget = movesPerSync, apPending = 0, apErrs = [], apPatches = [],
      apLastMoved = lastMoved, apMoves = []\<rparr>"
    by (simp add: apply_inv_def movesPerSync_def)
  from fold_applyTenant [OF this, of "sort (map fst views)"] show ?thesis
    by (simp add: applyAssignment_def)
qed

lemma applyAssignment_errs:
  "apErrs (applyAssignment patch now views desired ready lm) =
   concat (map (patchLabel patch) (apPatches (applyAssignment patch now views desired ready lm)))"
  unfolding applyAssignment_def
  by (rule fold_invariant_list)
    (auto simp: applyTenant_def stamp_def Let_def split: option.splits)

lemma views_tenants:
  assumes "views_inv hrs views"
  shows "map tiNamespace (map (\<lambda>(_, v). tvInfo v) views) = map fst views"
proof -
  have "tiNamespace (tvInfo v) = t" if "(t, v) \<in> set views" for t v
    using assms that unfolding views_inv_def by simp
  then show ?thesis by auto
qed

lemma placementInput_tenants [simp]:
  "piTenants (placementInput rnd cfg now lm views n) = map (\<lambda>(_, v). tvInfo v) views"
  by (simp add: placementInput_def Let_def)

lemma desired_canonical:
  assumes "views_inv hrs views" "map_of views t = Some v"
  shows "\<exists>i \<ge> 0. ComputePlacement rnd (placementInput rnd cfg now lm views n) t = Some (ShardName i)"
proof -
  let ?inp = "placementInput rnd cfg now lm views n"
  have "distinct (map tiNamespace (piTenants ?inp))"
    unfolding placementInput_tenants views_tenants [OF assms(1)]
    using assms(1) unfolding views_inv_def by blast
  note pl = ComputePlacement_placed [OF this, of rnd]
  have mem: "tvInfo v \<in> set (piTenants ?inp)" using map_of_SomeD [OF assms(2)] by force
  have ns: "tiNamespace (tvInfo v) = t" using assms unfolding views_inv_def by blast
  from pl mem have "(\<exists>i < nat (shardK ?inp). ComputePlacement rnd ?inp t = Some (ShardName (int i))) \<or>
      (ParseShardIndex (tiCurrent (tvInfo v)) \<noteq> None \<and> ComputePlacement rnd ?inp t = Some (tiCurrent (tvInfo v)))"
    unfolding placed_inv_def ComputePlacement_def ns [symmetric] by blast
  then show ?thesis
    by (metis of_nat_0_le_iff option.exhaust shard_codec.parse_canonical)
qed

lemma stampPatches_covers:
  "h \<in> set (tvHrs v) \<Longrightarrow> shardLabelOf h = s \<or>
     LabelPatch HelmReleaseGVK (omNamespace h) (omName h) ShardKeyLabel s \<in> set (stampPatches v s)"
  by (auto simp: stampPatches_def)

text \<open>the shard recovered from HelmRelease labels. The majority vote depends only on the
  labels, never on the order in which the counts are visited; it is empty exactly when no
  HelmRelease carries a canonical shard key, and otherwise it is the key of a shard with the most
  HelmReleases, the lowest index among those.\<close>

theorem majorityShard_vote:
  assumes "range_order ord"
  shows "majorityShard ord hrs = majorityShard (\<lambda>xs. xs) hrs \<and>
    (majorityShard ord hrs = [] \<longleftrightarrow> (\<forall>i. shardVotes hrs i = 0)) \<and>
    (\<forall>i. majorityShard ord hrs = ShardName i \<and> 0 \<le> i \<longrightarrow>
       (\<forall>j. shardVotes hrs j < shardVotes hrs i \<or> (shardVotes hrs j = shardVotes hrs i \<and> i \<le> j)))"
proof -
  note a = majorityShard_cases [OF assms, of hrs] and b = majorityShard_cases [OF range_order_id, of hrs]
  have inj: "i = j" if "ShardName i = ShardName j" "0 < shardVotes hrs i" "0 \<le> j" for i j
    using that shardVotes_pos_index [of hrs i] itoa_inj_nonneg [of i j] by (simp add: ShardName_def)
  have "majorityShard ord hrs = majorityShard (\<lambda>xs. xs) hrs"
    using a b by (metis less_irrefl less_asym order_antisym)
  moreover have "majorityShard ord hrs = [] \<longleftrightarrow> (\<forall>i. shardVotes hrs i = 0)"
    using a ShardName_not_Nil by (metis less_irrefl)
  moreover have "\<forall>j. shardVotes hrs j < shardVotes hrs i \<or> (shardVotes hrs j = shardVotes hrs i \<and> i \<le> j)"
    if "majorityShard ord hrs = ShardName i" "0 \<le> i" for i
    using a that inj ShardName_not_Nil by metis
  ultimately show ?thesis by blast
qed

definition voteHR :: "string \<Rightarrow> ObjMeta" where
  "voteHR s = \<lparr>omName = ''app'', omNamespace = ''tenant-a'', omLabels = [ShardKeyLabel \<mapsto> s],
     omDeleting = False\<rparr>"

theorem majorityShard_vote_witness:
  "majorityShard rev [voteHR ''shard2'', voteHR ''shard1'', voteHR ''tenants''] = ShardName 1 \<and>
   shardVotes [voteHR ''shard2'', voteHR ''shard1'', voteHR ''tenants''] 7
     \<le> shardVotes [voteHR ''shard2'', voteHR ''shard1'', voteHR ''tenants''] 1"
proof -
  let ?hrs = "[voteHR ''shard2'', voteHR ''shard1'', voteHR ''tenants'']"
  have e: "majorityShard rev ?hrs = ShardName 1" by code_simp
  have "shardVotes ?hrs 7 < shardVotes ?hrs 1 \<or> (shardVotes ?hrs 7 = shardVotes ?hrs 1 \<and> 1 \<le> (7::int))"
    using majorityShard_vote [OF range_order_rev, of ?hrs] e by fastforce
  with e show ?thesis by linarith
qed


definition demoHR :: "string \<Rightarrow> string \<Rightarrow> string \<Rightarrow> ObjMeta" where
  "demoHR ns nm s = \<lparr>omName = nm, omNamespace = ns, omLabels = [ShardKeyLabel \<mapsto> s], omDeleting = False\<rparr>"

definition demoHRs :: "ObjMeta list" where
  "demoHRs = [demoHR ''tenant-a'' ''db'' ''tenants'', demoHR ''tenant-a'' ''web'' ''shard0'',
     demoHR ''tenant-b'' ''db'' ''tenants'']"

definition demoViews :: "(string \<times> tenantView) list" where
  "demoViews = (case gather (\<lambda>xs. xs) (Inr demoHRs) (Inr []) of Inl _ \<Rightarrow> [] | Inr vs \<Rightarrow> vs)"


text \<open>C3: a quiet sync is a converged one. When a sync ends without an error and without deferred
  moves, every tenant has one canonical shard key that each of its HelmReleases already carries
  or was patched to in this sync with a patch that did not fail.\<close>

theorem PlacementReconcile_converges:
  assumes "PlacementReconcile ord rnd cfg now patch (Inr hrs) (Inr nss) (Inr deps) lm = r"
    and "syOutcome r = Inr ResyncPeriod" "hr \<in> set hrs" "TenantNamespaceForHR hr = Some t"
  shows "\<exists>i \<ge> 0. \<forall>h \<in> set hrs. TenantNamespaceForHR h = Some t \<longrightarrow>
    shardLabelOf h = ShardName i \<or>
    (let p = LabelPatch HelmReleaseGVK (omNamespace h) (omName h) ShardKeyLabel (ShardName i)
     in p \<in> set (syPatches r) \<and> (\<forall>e. patch p \<noteq> PatchFailed e))"
proof -
  obtain views where g: "gather ord (Inr hrs) (Inr nss) = Inr views" by (simp add: gather_def Let_def)
  obtain ready n where o: "observeShards (Inr deps) = Inr (ready, n)"
    by (cases "fold observeShard deps (Map.empty, 0)") (simp add: observeShards_def)
  let ?des = "ComputePlacement rnd (placementInput rnd cfg now lm views n)"
  let ?a = "applyAssignment patch now views ?des ready lm"
  have r: "syPatches r = apPatches ?a" "apErrs ?a = []" "apPending ?a \<le> 0"
    using assms(1,2) g o by (auto simp: PlacementReconcile_def Let_def split: if_splits)
  have vi: "views_inv hrs views" by (rule gather_views [OF g])
  have "ofTenant t hrs \<noteq> []" using assms(3,4) by (auto simp: ofTenant_def filter_empty_conv)
  with vi obtain v where v: "map_of views t = Some v" "tvHrs v = ofTenant t hrs"
    unfolding views_inv_def by (metis option.exhaust)
  obtain i where i: "0 \<le> i" "?des t = Some (ShardName i)" using desired_canonical [OF vi v(1)] by blast
  note ai = applyAssignment_inv [of views ?des ready patch now lm, unfolded apply_inv_def]
  have "t \<in> set (sort (map fst views))" using map_of_SomeD [OF v(1)] by force
  moreover have "apPending ?a = 0" using ai r(3) by linarith
  ultimately have sub: "set (stampPatches v (ShardName i)) \<subseteq> set (apPatches ?a)"
    using ai v(1) i(2) ShardName_not_Nil by blast
  have ok: "\<forall>e. patch p \<noteq> PatchFailed e" if "p \<in> set (apPatches ?a)" for p
    using applyAssignment_errs [of patch now views ?des ready lm] r(2) that
    by (auto simp: patchLabel_def concat_eq_Nil_conv split: patch_outcome.splits)
  show ?thesis
  proof (intro exI conjI ballI impI)
    fix h assume "h \<in> set hrs" "TenantNamespaceForHR h = Some t"
    then have "h \<in> set (tvHrs v)" using v(2) by (simp add: ofTenant_def)
    from stampPatches_covers [OF this, of "ShardName i"] show "shardLabelOf h = ShardName i \<or>
      (let p = LabelPatch HelmReleaseGVK (omNamespace h) (omName h) ShardKeyLabel (ShardName i)
       in p \<in> set (syPatches r) \<and> (\<forall>e. patch p \<noteq> PatchFailed e))"
      using sub ok r(1) by (auto simp: Let_def)
  qed (rule i(1))
qed

definition demoNS :: ObjMeta where
  "demoNS = \<lparr>omName = ''tenant-a'', omNamespace = [], omLabels = [TenantShardLabel \<mapsto> ''shard0''],
     omDeleting = False\<rparr>"

theorem PlacementReconcile_converges_witness:
  "\<exists>i \<ge> 0. \<forall>h \<in> set demoHRs. TenantNamespaceForHR h = Some ''tenant-b'' \<longrightarrow>
    shardLabelOf h = ShardName i \<or>
    (let p = LabelPatch HelmReleaseGVK (omNamespace h) (omName h) ShardKeyLabel (ShardName i)
     in p \<in> set (syPatches (PlacementReconcile (\<lambda>xs. xs) (\<lambda>x. x) autoConfig 0 (\<lambda>_. PatchOk) (Inr demoHRs)
          (Inr [demoNS]) (Inr [\<lparr>sdName = ShardDeploymentName 0, sdReadyReplicas = 1\<rparr>]) Map.empty)) \<and>
        (\<forall>e. (\<lambda>_. PatchOk) p \<noteq> PatchFailed e))"
proof (rule PlacementReconcile_converges [OF refl])
  let ?b = "demoHR ''tenant-b'' ''db'' ''tenants''"
  show "?b \<in> set demoHRs" by (simp add: demoHRs_def)
  show "TenantNamespaceForHR ?b = Some ''tenant-b''" by code_simp
  show "syOutcome (PlacementReconcile (\<lambda>xs. xs) (\<lambda>x. x) autoConfig 0 (\<lambda>_. PatchOk) (Inr demoHRs)
      (Inr [demoNS]) (Inr [\<lparr>sdName = ShardDeploymentName 0, sdReadyReplicas = 1\<rparr>]) Map.empty) =
      Inr ResyncPeriod" by code_simp
qed

fun unescapeJSONPointer :: "string \<Rightarrow> string" where
  "unescapeJSONPointer (a # b # cs) =
     (if a = CHR ''~'' \<and> b = CHR ''0'' then CHR ''~'' # unescapeJSONPointer cs
      else if a = CHR ''~'' \<and> b = CHR ''1'' then CHR ''/'' # unescapeJSONPointer cs
      else a # unescapeJSONPointer (b # cs))"
| "unescapeJSONPointer cs = cs"

lemma unescape_cons: "c \<noteq> CHR ''~'' \<Longrightarrow> unescapeJSONPointer (c # cs) = c # unescapeJSONPointer cs"
  by (cases cs) auto

lemma unescape_escape: "unescapeJSONPointer (escapeJSONPointer s) = s"
  by (induction s) (auto simp: unescape_cons)

lemma escape_no_slash: "CHR ''/'' \<notin> set (escapeJSONPointer s)"
  by (induction s) auto

text \<open>The label map of an object after the patch of an admission response (RFC 6901 pointers).\<close>

definition admittedLabels :: "admissionObject \<Rightarrow> admission_response \<Rightarrow> string \<rightharpoonup> string" where
  "admittedLabels o1 resp =
     (let old = (case aoLabels o1 of None \<Rightarrow> Map.empty | Some l \<Rightarrow> l) in
      case resp of
        PatchedLabels l \<Rightarrow> l
      | PatchedLabel k v \<Rightarrow> old(unescapeJSONPointer k \<mapsto> v)
      | _ \<Rightarrow> old)"

text \<open>admission agrees with the recorded placement. A HelmRelease created for a tenant whose
  namespace records a canonical shard is admitted with exactly that shard key, its other labels
  unchanged; in every other case that decodes the labels are admitted as they are. A failing
  namespace lookup never rejects the object.\<close>

theorem ShardWebhookHandle_stamps:
  assumes "TenantNamespaceForHR (aoMeta rns o1) = Some t"
  shows "(\<forall>ns i. getNS t = GetOk ns \<and> ParseShardIndex (strOf (omLabels ns) TenantShardLabel) = Some i \<longrightarrow>
      admittedLabels o1 (ShardWebhookHandle True rns (Inr o1) getNS) =
        (case aoLabels o1 of None \<Rightarrow> Map.empty | Some l \<Rightarrow> l)(ShardKeyLabel \<mapsto> ShardName i)) \<and>
    ((\<forall>ns. getNS t \<noteq> GetOk ns \<or> ParseShardIndex (strOf (omLabels ns) TenantShardLabel) = None) \<longrightarrow>
      (\<exists>msg. ShardWebhookHandle True rns (Inr o1) getNS = Allowed msg))"
proof -
  let ?l = "case aoLabels o1 of None \<Rightarrow> Map.empty | Some l \<Rightarrow> l"
  have sh: "shardLabelOf (aoMeta rns o1) = strOf ?l ShardKeyLabel"
    by (simp add: shardLabelOf_def aoMeta_def)
  have same: "?l(ShardKeyLabel \<mapsto> s) = ?l" if "strOf ?l ShardKeyLabel = s" "s \<noteq> []" for s
    using strOf_eq_Some [OF that] by (rule map_upd_triv)
  have "admittedLabels o1 (ShardWebhookHandle True rns (Inr o1) getNS) = ?l(ShardKeyLabel \<mapsto> ShardName i)"
    if "getNS t = GetOk ns" "ParseShardIndex (strOf (omLabels ns) TenantShardLabel) = Some i" for ns i
  proof -
    have nm: "strOf (omLabels ns) TenantShardLabel = ShardName i"
      using that(2) shard_codec.parse_canonical by blast
    show ?thesis
      using assms that nm same [of "ShardName i"]
      by (auto simp: ShardWebhookHandle_def Let_def sh admittedLabels_def unescape_escape
          split: option.splits)
  qed
  moreover have "\<exists>msg. ShardWebhookHandle True rns (Inr o1) getNS = Allowed msg"
    if "\<forall>ns. getNS t \<noteq> GetOk ns \<or> ParseShardIndex (strOf (omLabels ns) TenantShardLabel) = None"
    using assms that by (cases "getNS t") (auto simp: ShardWebhookHandle_def Let_def)
  ultimately show ?thesis by blast
qed

theorem ShardWebhookHandle_stamps_witness:
  "admittedLabels \<lparr>aoName = ''db'', aoNamespace = [], aoLabels = Some [''app'' \<mapsto> ''pg'']\<rparr>
     (ShardWebhookHandle True ''tenant-a''
        (Inr \<lparr>aoName = ''db'', aoNamespace = [], aoLabels = Some [''app'' \<mapsto> ''pg'']\<rparr>) (\<lambda>_. GetOk demoNS))
   = [''app'' \<mapsto> ''pg'', ShardKeyLabel \<mapsto> ''shard0'']"
proof -
  let ?o = "\<lparr>aoName = ''db'', aoNamespace = [], aoLabels = Some [''app'' \<mapsto> ''pg'']\<rparr>"
  have t: "TenantNamespaceForHR (aoMeta ''tenant-a'' ?o) = Some ''tenant-a''" by code_simp
  have i: "ParseShardIndex (strOf (omLabels demoNS) TenantShardLabel) = Some 0" by code_simp
  have n: "ShardName 0 = ''shard0''" by code_simp
  show ?thesis using ShardWebhookHandle_stamps [OF t, of "\<lambda>_. GetOk demoNS"] i n by auto
qed

end
