(* ===== verification/Shard_Provisioner.thy ===== *)
theory Shard_Provisioner
  imports Shard_Controller
begin

text \<open>
  The shard provisioner (\<open>internal/fluxshardoperator/provisioner.go\<close>). The Kubernetes client is
  a parameter: a record of the results of the calls one reconcile makes, \<open>provisionClient\<close>; a
  reconcile returns the writes it issues in order (server-side applies and deletions) with its
  outcome. The parts of a \<open>Deployment\<close> the code only copies are opaque strings. A
  \<open>corev1.ResourceList\<close> that may be nil is an optional map.
\<close>

subsection \<open>Deployments\<close>

record EnvVar =
  evName :: string
  evValue :: string

record Probe =
  InitialDelaySeconds :: int
  PeriodSeconds :: int
  SuccessThreshold :: int
  FailureThreshold :: int
  TimeoutSeconds :: int
  probeHandler :: string

record Container =
  cnName :: string
  cnArgs :: "string list"
  cnEnv :: "EnvVar list"
  cnRequests :: "(string \<rightharpoonup> string) option"
  cnLimits :: "(string \<rightharpoonup> string) option"
  LivenessProbe :: "Probe option"
  StartupProbe :: "Probe option"
  VolumeMounts :: "string list"
  cnRest :: string

record Affinity =
  NodeAffinity :: "string option"
  PodAffinity :: "string option"
  PodAntiAffinity :: "string option"

record PodSpec =
  psContainers :: "Container list"
  psInitContainers :: "Container list"
  psHostNetwork :: bool
  psDNSPolicy :: string
  psTolerations :: "string list"
  psAffinity :: "Affinity option"
  psVolumes :: "(string \<times> string) list" \<comment> \<open>name and source\<close>
  psRest :: string

record Deployment =
  dpName :: string
  dpNamespace :: string
  dpLabels :: "string \<rightharpoonup> string"
  dpReplicas :: int
  dpStrategy :: string
  dpSelector :: "string \<rightharpoonup> string"
  dpPodLabels :: "string \<rightharpoonup> string"
  dpPodAnnotations :: "string \<rightharpoonup> string"
  dpPodSpec :: PodSpec

subsection \<open>Building the Deployment of a shard\<close>

definition mergeResourceList ::
    "(string \<rightharpoonup> string) option \<Rightarrow> (string \<times> string) list \<Rightarrow> (string \<rightharpoonup> string) option" where
  "mergeResourceList dst overrides =
     (if overrides = [] then dst
      else Some ((case dst of None \<Rightarrow> Map.empty | Some d \<Rightarrow> d) ++ map_of overrides))"

definition eventsFlag :: string where "eventsFlag = ''--events-addr''"
definition selectorFlag :: string where "selectorFlag = ''--watch-label-selector''"
definition concurrentFlag :: string where "concurrentFlag = ''--concurrent''"

definition selectorArgOf :: "int \<Rightarrow> string" where
  "selectorArgOf idx = selectorFlag @ ''='' @ ShardKeyLabel @ ''='' @ ShardName idx"

definition concurrentArgOf :: "ShardConfig \<Rightarrow> string" where
  "concurrentArgOf cfg = concurrentFlag @ ''='' @ itoa (ShardConcurrent cfg)"

fun rewriteArgs ::
    "string \<Rightarrow> string \<Rightarrow> string list \<Rightarrow> string list \<times> bool \<times> bool \<Rightarrow> string list \<times> bool \<times> bool" where
  "rewriteArgs selectorArg concurrentArg [] st = st"
| "rewriteArgs selectorArg concurrentArg (arg # rest) (args, haveSelector, haveConcurrent) =
     rewriteArgs selectorArg concurrentArg rest
       (if prefix eventsFlag arg then (args, haveSelector, haveConcurrent)
        else if prefix selectorFlag arg then (args @ [selectorArg], True, haveConcurrent)
        else if prefix concurrentFlag arg then (args @ [concurrentArg], haveSelector, True)
        else (args @ [arg], haveSelector, haveConcurrent))"

definition shardArgs :: "int \<Rightarrow> ShardConfig \<Rightarrow> string list \<Rightarrow> string list" where
  "shardArgs idx cfg argv =
     (let (args, haveSelector, haveConcurrent) =
            rewriteArgs (selectorArgOf idx) (concurrentArgOf cfg) argv ([], False, False);
          args1 = (if haveSelector then args else args @ [selectorArgOf idx])
      in if haveConcurrent then args1 else args1 @ [concurrentArgOf cfg])"

definition droppedEnv :: "string list" where
  "droppedEnv = [''SOURCE_CONTROLLER_LOCALHOST'', ''SOURCE_WATCHER_LOCALHOST'',
     ''KUBERNETES_SERVICE_HOST'', ''KUBERNETES_SERVICE_PORT'',
     ''HTTP_PROXY'', ''HTTPS_PROXY'', ''NO_PROXY'', ''http_proxy'', ''https_proxy'', ''no_proxy'']"

definition shardEnv :: "EnvVar list \<Rightarrow> EnvVar list" where
  "shardEnv = filter (\<lambda>e. evName e \<notin> set droppedEnv)"

definition shardStartupProbe :: "Container \<Rightarrow> Probe option" where
  "shardStartupProbe hc =
     (case (LivenessProbe hc, StartupProbe hc) of
        (Some lp, None) \<Rightarrow> Some (lp\<lparr>InitialDelaySeconds := 0, PeriodSeconds := 10,
                                   SuccessThreshold := 1, FailureThreshold := 30\<rparr>)
      | _ \<Rightarrow> StartupProbe hc)"

definition shardContainer :: "int \<Rightarrow> ShardConfig \<Rightarrow> Container \<Rightarrow> Container" where
  "shardContainer idx cfg src =
     src\<lparr>cnArgs := shardArgs idx cfg (cnArgs src), cnEnv := shardEnv (cnEnv src),
         cnRequests := mergeResourceList (cnRequests src) (ShardRequests cfg),
         cnLimits := mergeResourceList (cnLimits src) (ShardLimits cfg),
         StartupProbe := shardStartupProbe src\<rparr>"

definition shardPodSpec :: "PodSpec \<Rightarrow> Container \<Rightarrow> PodSpec" where
  "shardPodSpec ps hc =
     ps\<lparr>psVolumes := filter (\<lambda>(v, _). v \<in> set (VolumeMounts hc)) (psVolumes ps),
        psContainers := [hc], psInitContainers := [], psHostNetwork := False,
        psDNSPolicy := ''ClusterFirst'', psTolerations := [],
        psAffinity := map_option (\<lambda>a. a\<lparr>PodAntiAffinity := None\<rparr>) (psAffinity ps)\<rparr>"

datatype provision_error =
  ContainerNotFound string string
| GetFluxFailed string
| ListFailed string
| ApplyFailed string string
| DeleteFailed string string
| GetLegacyFailed string

definition nameLabel :: string where "nameLabel = ''app.kubernetes.io/name''"
definition versionLabel :: string where "versionLabel = ''app.kubernetes.io/version''"

definition shardLabels :: "Deployment \<Rightarrow> string \<Rightarrow> string \<rightharpoonup> string" where
  "shardLabels flux name =
     (let labels = [nameLabel \<mapsto> name, ''app.kubernetes.io/part-of'' \<mapsto> ''flux'',
            ''sharding.fluxcd.io/role'' \<mapsto> ''shard'', ManagedByLabel \<mapsto> ManagedByValue];
          version = strOf (dpLabels flux) versionLabel
      in if version \<noteq> [] then labels(versionLabel \<mapsto> version) else labels)"

definition BuildShardDeployment ::
    "Deployment \<Rightarrow> int \<Rightarrow> ShardConfig \<Rightarrow> provision_error + Deployment" where
  "BuildShardDeployment flux idx cfg =
     (case find (\<lambda>c. cnName c = HelmControllerContainerName) (psContainers (dpPodSpec flux)) of
        None \<Rightarrow> Inl (ContainerNotFound (dpNamespace flux) (dpName flux))
      | Some src \<Rightarrow>
          (let hc = shardContainer idx cfg src; name = ShardDeploymentName idx in
           Inr \<lparr>dpName = name, dpNamespace = FluxNamespace cfg, dpLabels = shardLabels flux name,
                dpReplicas = 1, dpStrategy = ''Recreate'', dpSelector = [nameLabel \<mapsto> name],
                dpPodLabels = [nameLabel \<mapsto> name],
                dpPodAnnotations = [''cluster-autoscaler.kubernetes.io/safe-to-evict'' \<mapsto> ''true'',
                  ''prometheus.io/scrape'' \<mapsto> ''true''],
                dpPodSpec = shardPodSpec (dpPodSpec flux) hc\<rparr>))"

subsection \<open>The client and the reconcile\<close>

datatype get_deployment = DepFound Deployment | DepNotFound | DepError string

datatype write_op = ApplyOp Deployment | DeleteOp string

datatype write_result = WriteOk | WriteNotFound | WriteError string

record provisionClient =
  pcGet :: "string \<Rightarrow> get_deployment"
  pcListHRs :: "string + ObjMeta list" \<comment> \<open>\<open>HasLabels{ShardKeyLabel}\<close>\<close>
  pcListShards :: "string + string list" \<comment> \<open>managed Deployments, listed for the sizing\<close>
  pcListExtra :: "string + string list" \<comment> \<open>the same list, read again by the prune\<close>
  pcListKey :: "string \<Rightarrow> string + ObjMeta list" \<comment> \<open>\<open>MatchingLabels{ShardKeyLabel: key}\<close>\<close>
  pcWrite :: "write_op \<Rightarrow> write_result"

definition relevantDeployment :: "ShardConfig \<Rightarrow> ObjMeta \<Rightarrow> bool" where
  "relevantDeployment cfg obj =
     (if omNamespace obj \<noteq> FluxNamespace cfg then False
      else if omName obj = FluxDeploymentName \<or> omName obj = LegacyTenantsDeploymentName then True
      else strOf (omLabels obj) ManagedByLabel = ManagedByValue)"

definition currentShardCount :: "string list \<Rightarrow> int" where
  "currentShardCount deps =
     fold (\<lambda>d current. case ParseShardDeploymentIndex d of
             None \<Rightarrow> current
           | Some idx \<Rightarrow> if idx + 1 > current then idx + 1 else current) deps 0"

definition hrTenants :: "ObjMeta list \<Rightarrow> string set" where
  "hrTenants hrs = fold (\<lambda>hr ts. case TenantNamespaceForHR hr of None \<Rightarrow> ts | Some t \<Rightarrow> insert t ts) hrs {}"

definition effectiveShardCount ::
    "(rat \<Rightarrow> rat) \<Rightarrow> ShardConfig \<Rightarrow> provisionClient \<Rightarrow> provision_error + int" where
  "effectiveShardCount rnd cfg c =
     (if \<not> AutoShardCount cfg then Inr (EffectiveShardCount rnd cfg 0 0 0)
      else case pcListHRs c of
        Inl e \<Rightarrow> Inl (ListFailed e)
      | Inr hrs \<Rightarrow>
          (case pcListShards c of
             Inl e \<Rightarrow> Inl (ListFailed e)
           | Inr deps \<Rightarrow>
               Inr (EffectiveShardCount rnd cfg (int (length hrs)) (int (card (hrTenants hrs)))
                      (currentShardCount deps))))"

definition drained :: "provisionClient \<Rightarrow> string \<Rightarrow> provision_error + bool" where
  "drained c shardKey =
     (case pcListKey c shardKey of Inl e \<Rightarrow> Inl (ListFailed e) | Inr hrs \<Rightarrow> Inr (hrs = []))"

definition deleteDeployment :: "provisionClient \<Rightarrow> string \<Rightarrow> provision_error option" where
  "deleteDeployment c name =
     (case pcWrite c (DeleteOp name) of
        WriteOk \<Rightarrow> None | WriteNotFound \<Rightarrow> None | WriteError e \<Rightarrow> Some (DeleteFailed name e))"

fun pruneLoop ::
    "provisionClient \<Rightarrow> int \<Rightarrow> string list \<Rightarrow> write_op list \<times> bool \<Rightarrow>
     write_op list \<times> (provision_error + bool)" where
  "pruneLoop c shardCount [] (ops, blocked) = (ops, Inr blocked)"
| "pruneLoop c shardCount (dep # deps) (ops, blocked) =
     (case ParseShardDeploymentIndex dep of
        None \<Rightarrow> pruneLoop c shardCount deps (ops, blocked)
      | Some idx \<Rightarrow>
          if idx < shardCount then pruneLoop c shardCount deps (ops, blocked)
          else case drained c (ShardName idx) of
                 Inl e \<Rightarrow> (ops, Inl e)
               | Inr d \<Rightarrow>
                   if \<not> d then pruneLoop c shardCount deps (ops, True)
                   else case deleteDeployment c dep of
                          Some e \<Rightarrow> (ops @ [DeleteOp dep], Inl e)
                        | None \<Rightarrow> pruneLoop c shardCount deps (ops @ [DeleteOp dep], blocked))"

definition pruneExtraShards ::
    "provisionClient \<Rightarrow> int \<Rightarrow> write_op list \<times> (provision_error + bool)" where
  "pruneExtraShards c shardCount =
     (case pcListExtra c of
        Inl e \<Rightarrow> ([], Inl (ListFailed e))
      | Inr deps \<Rightarrow> pruneLoop c shardCount deps ([], False))"

definition retireLegacy :: "provisionClient \<Rightarrow> write_op list \<times> (provision_error + bool)" where
  "retireLegacy c =
     (case pcGet c LegacyTenantsDeploymentName of
        DepNotFound \<Rightarrow> ([], Inr False)
      | DepError e \<Rightarrow> ([], Inl (GetLegacyFailed e))
      | DepFound legacy \<Rightarrow>
          (case drained c LegacyShardKey of
             Inl e \<Rightarrow> ([], Inl e)
           | Inr d \<Rightarrow>
               if \<not> d then ([], Inr True)
               else ([DeleteOp LegacyTenantsDeploymentName],
                     case deleteDeployment c LegacyTenantsDeploymentName of
                       Some e \<Rightarrow> Inl e | None \<Rightarrow> Inr False)))"

text \<open>\<open>for i := range shardCount\<close>: the applies in order, up to the first error.\<close>

fun applyShards ::
    "provisionClient \<Rightarrow> Deployment \<Rightarrow> ShardConfig \<Rightarrow> int list \<Rightarrow> write_op list \<Rightarrow>
     write_op list \<times> provision_error option" where
  "applyShards c flux cfg [] ops = (ops, None)"
| "applyShards c flux cfg (i # is) ops =
     (case BuildShardDeployment flux i cfg of
        Inl e \<Rightarrow> (ops, Some e)
      | Inr desired \<Rightarrow>
          (case pcWrite c (ApplyOp desired) of
             WriteOk \<Rightarrow> applyShards c flux cfg is (ops @ [ApplyOp desired])
           | WriteNotFound \<Rightarrow> (ops @ [ApplyOp desired], Some (ApplyFailed (dpName desired) ''not found''))
           | WriteError e \<Rightarrow> (ops @ [ApplyOp desired], Some (ApplyFailed (dpName desired) e))))"

datatype provision_result = ProvisionRetry | ProvisionDone

definition ShardSetReconcile ::
    "(rat \<Rightarrow> rat) \<Rightarrow> ShardConfig \<Rightarrow> provisionClient \<Rightarrow>
     write_op list \<times> (provision_error + provision_result)" where
  "ShardSetReconcile rnd cfg c =
     (case pcGet c FluxDeploymentName of
        DepNotFound \<Rightarrow> ([], Inr ProvisionRetry)
      | DepError e \<Rightarrow> ([], Inl (GetFluxFailed e))
      | DepFound flux \<Rightarrow>
          (case effectiveShardCount rnd cfg c of
             Inl e \<Rightarrow> ([], Inl e)
           | Inr shardCount \<Rightarrow>
               (case applyShards c flux cfg [0..shardCount - 1] [] of
                  (ops1, Some e) \<Rightarrow> (ops1, Inl e)
                | (ops1, None) \<Rightarrow>
                    (case pruneExtraShards c shardCount of
                       (ops2, Inl e) \<Rightarrow> (ops1 @ ops2, Inl e)
                     | (ops2, Inr pruneBlocked) \<Rightarrow>
                         (case retireLegacy c of
                            (ops3, Inl e) \<Rightarrow> (ops1 @ ops2 @ ops3, Inl e)
                          | (ops3, Inr legacyBlocked) \<Rightarrow>
                              (ops1 @ ops2 @ ops3,
                               Inr (if pruneBlocked \<or> legacyBlocked then ProvisionRetry
                                    else ProvisionDone)))))))"

subsection \<open>The arguments of a shard\<close>

definition shardArg :: "int \<Rightarrow> ShardConfig \<Rightarrow> string \<Rightarrow> string" where
  "shardArg idx cfg arg =
     (if prefix selectorFlag arg then selectorArgOf idx
      else if prefix concurrentFlag arg then concurrentArgOf cfg else arg)"

lemma rewriteArgs_eq:
  "rewriteArgs (selectorArgOf idx) (concurrentArgOf cfg) argv (args, hs, hc) =
     (let kept = filter (\<lambda>a. \<not> prefix eventsFlag a) argv in
      (args @ map (shardArg idx cfg) kept,
       hs \<or> (\<exists>a \<in> set kept. prefix selectorFlag a),
       hc \<or> (\<exists>a \<in> set kept. \<not> prefix selectorFlag a \<and> prefix concurrentFlag a)))"
  by (induction argv arbitrary: args hs hc) (auto simp: shardArg_def Let_def)

lemmas flag_defs = eventsFlag_def selectorFlag_def concurrentFlag_def

lemma flag_args [simp]:
  "prefix selectorFlag (selectorArgOf i)" "\<not> prefix eventsFlag (selectorArgOf i)"
  "\<not> prefix concurrentFlag (selectorArgOf i)" "prefix concurrentFlag (concurrentArgOf cfg)"
  "\<not> prefix eventsFlag (concurrentArgOf cfg)" "\<not> prefix selectorFlag (concurrentArgOf cfg)"
  by (simp_all add: selectorArgOf_def concurrentArgOf_def flag_defs)

definition plainArg :: "string \<Rightarrow> bool" where
  "plainArg a \<longleftrightarrow> \<not> prefix eventsFlag a \<and> \<not> prefix selectorFlag a \<and> \<not> prefix concurrentFlag a"

lemma plain_shardArg:
  "filter plainArg (map (shardArg idx cfg) (filter (\<lambda>a. \<not> prefix eventsFlag a) argv)) = filter plainArg argv"
  by (induction argv) (auto simp: plainArg_def shardArg_def)

lemma shardArgs_eq:
  "\<exists>ss cs. set ss \<subseteq> {selectorArgOf idx} \<and> set cs \<subseteq> {concurrentArgOf cfg} \<and>
     shardArgs idx cfg argv = map (shardArg idx cfg) (filter (\<lambda>a. \<not> prefix eventsFlag a) argv) @ ss @ cs \<and>
     (ss = [] \<longrightarrow> (\<exists>a \<in> set argv. \<not> prefix eventsFlag a \<and> prefix selectorFlag a)) \<and>
     (cs = [] \<longrightarrow> (\<exists>a \<in> set argv. \<not> prefix eventsFlag a \<and> \<not> prefix selectorFlag a \<and> prefix concurrentFlag a))"
  (is "\<exists>ss cs. ?P ss cs")
proof -
  let ?kept = "filter (\<lambda>a. \<not> prefix eventsFlag a) argv"
  let ?ss = "if \<exists>a \<in> set ?kept. prefix selectorFlag a then [] else [selectorArgOf idx]"
  let ?cs = "if \<exists>a \<in> set ?kept. \<not> prefix selectorFlag a \<and> prefix concurrentFlag a
    then [] else [concurrentArgOf cfg]"
  have "?P ?ss ?cs" unfolding shardArgs_def rewriteArgs_eq Let_def by auto
  then show ?thesis by blast
qed

lemma shardArgs_flags:
  "set (filter (prefix selectorFlag) (shardArgs idx cfg argv)) = {selectorArgOf idx}"
  "set (filter (prefix concurrentFlag) (shardArgs idx cfg argv)) = {concurrentArgOf cfg}"
  "filter (prefix eventsFlag) (shardArgs idx cfg argv) = []"
  "filter plainArg (shardArgs idx cfg argv) = filter plainArg argv"
proof -
  from shardArgs_eq [of idx cfg argv] obtain ss cs where
    e: "set ss \<subseteq> {selectorArgOf idx}" "set cs \<subseteq> {concurrentArgOf cfg}"
      "shardArgs idx cfg argv = map (shardArg idx cfg) (filter (\<lambda>a. \<not> prefix eventsFlag a) argv) @ ss @ cs"
    and s: "ss = [] \<longrightarrow> (\<exists>a \<in> set argv. \<not> prefix eventsFlag a \<and> prefix selectorFlag a)"
    and c: "cs = [] \<longrightarrow> (\<exists>a \<in> set argv. \<not> prefix eventsFlag a \<and> \<not> prefix selectorFlag a \<and> prefix concurrentFlag a)"
    by blast
  have mapped: "shardArg idx cfg a \<in> set (shardArgs idx cfg argv)"
    if "a \<in> set argv" "\<not> prefix eventsFlag a" for a
    unfolding e(3) using that by auto
  have "selectorArgOf idx \<in> set (shardArgs idx cfg argv)"
  proof (cases "ss = []")
    case True
    with s mapped show ?thesis unfolding shardArg_def by metis
  next
    case False
    with e(1) have "selectorArgOf idx \<in> set ss" by (cases ss) auto
    with e(3) show ?thesis by simp
  qed
  moreover have "concurrentArgOf cfg \<in> set (shardArgs idx cfg argv)"
  proof (cases "cs = []")
    case True
    with c mapped show ?thesis unfolding shardArg_def by metis
  next
    case False
    with e(2) have "concurrentArgOf cfg \<in> set cs" by (cases cs) auto
    with e(3) show ?thesis by simp
  qed
  moreover have kinds: "x = selectorArgOf idx \<or> x = concurrentArgOf cfg \<or> plainArg x"
    if "x \<in> set (shardArgs idx cfg argv)" for x
  proof -
    have "x \<in> set ss \<or> x \<in> set cs \<or> (\<exists>a. x = shardArg idx cfg a \<and> \<not> prefix eventsFlag a)"
      using that unfolding e(3) by auto
    then show ?thesis using e(1,2) unfolding shardArg_def plainArg_def by (elim disjE exE) (auto split: if_splits)
  qed
  ultimately show "set (filter (prefix selectorFlag) (shardArgs idx cfg argv)) = {selectorArgOf idx}"
    "set (filter (prefix concurrentFlag) (shardArgs idx cfg argv)) = {concurrentArgOf cfg}"
    unfolding set_filter plainArg_def using flag_args by blast+
  show "filter (prefix eventsFlag) (shardArgs idx cfg argv) = []"
    unfolding filter_empty_conv using kinds flag_args plainArg_def by metis
  have "filter plainArg ss = []" "filter plainArg cs = []"
    using e(1,2) by (auto simp: filter_empty_conv plainArg_def)
  with e(3) show "filter plainArg (shardArgs idx cfg argv) = filter plainArg argv"
    by (simp add: plain_shardArg)
qed

text \<open>a shard Deployment watches its own shard and nothing else. It keeps the single
  helm-controller container; its only watch selector selects the key of the shard, its only
  concurrency is the configured one, the events address is dropped and every other argument is
  kept in order; the proxy, service and localhost variables are dropped and every other variable
  kept; the pod leaves the host network, has no anti-affinity, and no volume that is not mounted;
  the Deployment's name parses back to the shard's index.\<close>

theorem BuildShardDeployment_shard:
  assumes "BuildShardDeployment flux idx cfg = Inr d" "0 \<le> idx" "idx \<le> maxInt"
  shows "ParseShardDeploymentIndex (dpName d) = Some idx \<and>
    (\<exists>src hc. src \<in> set (psContainers (dpPodSpec flux)) \<and> psContainers (dpPodSpec d) = [hc] \<and>
      cnName hc = HelmControllerContainerName \<and>
      set (filter (prefix selectorFlag) (cnArgs hc)) = {selectorArgOf idx} \<and>
      set (filter (prefix concurrentFlag) (cnArgs hc)) = {concurrentArgOf cfg} \<and>
      filter (prefix eventsFlag) (cnArgs hc) = [] \<and>
      filter plainArg (cnArgs hc) = filter plainArg (cnArgs src) \<and>
      cnEnv hc = filter (\<lambda>e. evName e \<notin> set droppedEnv) (cnEnv src) \<and>
      fst ` set (psVolumes (dpPodSpec d)) \<subseteq> set (VolumeMounts hc)) \<and>
    \<not> psHostNetwork (dpPodSpec d) \<and>
    (\<forall>a. psAffinity (dpPodSpec d) = Some a \<longrightarrow> PodAntiAffinity a = None)"
proof -
  from assms(1) obtain src where
    f: "find (\<lambda>c. cnName c = HelmControllerContainerName) (psContainers (dpPodSpec flux)) = Some src"
    and n: "dpName d = ShardDeploymentName idx"
    and p: "dpPodSpec d = shardPodSpec (dpPodSpec flux) (shardContainer idx cfg src)"
    by (auto simp: BuildShardDeployment_def Let_def split: option.splits)
  from f have src: "src \<in> set (psContainers (dpPodSpec flux))" "cnName src = HelmControllerContainerName"
    by (auto simp: find_Some_iff)
  have "ParseShardDeploymentIndex (dpName d) = Some idx"
    using n deployment_codec.parse_name assms(2,3) by simp
  moreover have "cnArgs (shardContainer idx cfg src) = shardArgs idx cfg (cnArgs src)"
    "cnName (shardContainer idx cfg src) = HelmControllerContainerName"
    "cnEnv (shardContainer idx cfg src) = filter (\<lambda>e. evName e \<notin> set droppedEnv) (cnEnv src)"
    using src(2) by (simp_all add: shardContainer_def shardEnv_def)
  moreover have "psContainers (dpPodSpec d) = [shardContainer idx cfg src]" "\<not> psHostNetwork (dpPodSpec d)"
    "fst ` set (psVolumes (dpPodSpec d)) \<subseteq> set (VolumeMounts (shardContainer idx cfg src))"
    "\<forall>a. psAffinity (dpPodSpec d) = Some a \<longrightarrow> PodAntiAffinity a = None"
    by (auto simp: p shardPodSpec_def)
  ultimately show ?thesis using src(1) shardArgs_flags [of idx cfg "cnArgs src"] by metis
qed

definition demoFlux :: Deployment where
  "demoFlux = \<lparr>dpName = FluxDeploymentName, dpNamespace = ''cozy-fluxcd'', dpLabels = Map.empty,
     dpReplicas = 1, dpStrategy = ''Recreate'', dpSelector = Map.empty, dpPodLabels = Map.empty,
     dpPodAnnotations = Map.empty,
     dpPodSpec = \<lparr>psContainers = [\<lparr>cnName = HelmControllerContainerName,
         cnArgs = [''--events-addr=http://localhost'', ''--log-level=info'', ''--concurrent=20''],
         cnEnv = [\<lparr>evName = ''NO_PROXY'', evValue = ''.svc''\<rparr>], cnRequests = None, cnLimits = None,
         LivenessProbe = None, StartupProbe = None, VolumeMounts = [''tmp''], cnRest = []\<rparr>],
       psInitContainers = [], psHostNetwork = True, psDNSPolicy = ''ClusterFirstWithHostNet'',
       psTolerations = [''any''], psAffinity = None, psVolumes = [(''tmp'', ''emptyDir''), (''data'', ''pvc'')],
       psRest = []\<rparr>\<rparr>"

theorem BuildShardDeployment_shard_witness:
  "\<exists>d. BuildShardDeployment demoFlux 3 autoConfig = Inr d \<and>
     ParseShardDeploymentIndex (dpName d) = Some 3 \<and> \<not> psHostNetwork (dpPodSpec d) \<and>
     map cnArgs (psContainers (dpPodSpec d)) =
       [[''--log-level=info'', ''--concurrent=5'', ''--watch-label-selector=sharding.fluxcd.io/key=shard3'']]"
proof -
  obtain d where d: "BuildShardDeployment demoFlux 3 autoConfig = Inr d"
    by (simp add: BuildShardDeployment_def demoFlux_def Let_def)
  have "case BuildShardDeployment demoFlux 3 autoConfig of Inl _ \<Rightarrow> False
    | Inr d \<Rightarrow> map cnArgs (psContainers (dpPodSpec d)) =
       [[''--log-level=info'', ''--concurrent=5'', ''--watch-label-selector=sharding.fluxcd.io/key=shard3'']]"
    by code_simp
  with BuildShardDeployment_shard [OF d] d show ?thesis by (simp add: maxInt_def)
qed

subsection \<open>What a reconcile writes\<close>

lemma pruneLoop_ops:
  assumes "pruneLoop c n deps (ops, blocked) = (ops', r)"
  shows "\<exists>new. ops' = ops @ new \<and>
    (\<forall>op \<in> set new. \<exists>dep idx. op = DeleteOp dep \<and> dep \<in> set deps \<and>
       ParseShardDeploymentIndex dep = Some idx \<and> n \<le> idx \<and> pcListKey c (ShardName idx) = Inr []) \<and>
    (r = Inr False \<longrightarrow> \<not> blocked \<and>
      (\<forall>dep \<in> set deps. \<forall>idx. ParseShardDeploymentIndex dep = Some idx \<and> n \<le> idx \<longrightarrow> DeleteOp dep \<in> set new))"
  using assms
proof (induction deps arbitrary: ops blocked)
  case (Cons d deps)
  show ?case
  proof (cases "\<exists>idx. ParseShardDeploymentIndex d = Some idx \<and> n \<le> idx")
    case False
    then have "pruneLoop c n deps (ops, blocked) = (ops', r)"
      using Cons.prems by (auto split: option.splits)
    from Cons.IH [OF this] False show ?thesis by fastforce
  next
    case True
    then obtain idx where idx: "ParseShardDeploymentIndex d = Some idx" "n \<le> idx" by blast
    consider e where "drained c (ShardName idx) = Inl e" | "drained c (ShardName idx) = Inr False"
      | "drained c (ShardName idx) = Inr True" by (metis (full_types) sum.exhaust)
    then show ?thesis
    proof cases
      case 1
      then show ?thesis using Cons.prems idx by auto
    next
      case 2
      then have "pruneLoop c n deps (ops, True) = (ops', r)" using Cons.prems idx by simp
      from Cons.IH [OF this] show ?thesis by fastforce
    next
      case 3
      then have key: "pcListKey c (ShardName idx) = Inr []"
        by (auto simp: drained_def split: sum.splits)
      show ?thesis
      proof (cases "deleteDeployment c d")
        case None
        then have "pruneLoop c n deps (ops @ [DeleteOp d], blocked) = (ops', r)"
          using Cons.prems idx 3 by simp
        from Cons.IH [OF this] idx key show ?thesis by fastforce
      next
        case (Some e)
        then show ?thesis using Cons.prems idx 3 key by auto
      qed
    qed
  qed
qed auto

lemma applyShards_ops:
  assumes "applyShards c flux cfg is ops = (ops', r)"
  shows "\<exists>new. ops' = ops @ new \<and>
    (\<forall>op \<in> set new. \<exists>i \<in> set is. \<exists>d. op = ApplyOp d \<and> BuildShardDeployment flux i cfg = Inr d) \<and>
    (r = None \<longrightarrow> map Inr new = map (\<lambda>i. map_sum id ApplyOp (BuildShardDeployment flux i cfg)) is)"
  using assms
proof (induction "is" arbitrary: ops)
  case (Cons i "is")
  show ?case
  proof (cases "BuildShardDeployment flux i cfg")
    case (Inl e)
    then show ?thesis using Cons.prems by auto
  next
    case (Inr d)
    show ?thesis
    proof (cases "pcWrite c (ApplyOp d)")
      case WriteOk
      then have "applyShards c flux cfg is (ops @ [ApplyOp d]) = (ops', r)" using Cons.prems Inr by simp
      from Cons.IH [OF this] Inr show ?thesis by fastforce
    qed (use Cons.prems Inr in auto)
  qed
qed simp

lemma pruneExtraShards_ops:
  assumes "pruneExtraShards c n = (ops, r)"
  shows "(\<forall>op \<in> set ops. \<exists>dep idx. op = DeleteOp dep \<and> ParseShardDeploymentIndex dep = Some idx \<and>
       n \<le> idx \<and> pcListKey c (ShardName idx) = Inr []) \<and>
    (r = Inr False \<longrightarrow> (\<exists>deps. pcListExtra c = Inr deps \<and> (\<forall>dep \<in> set deps. \<forall>idx.
       ParseShardDeploymentIndex dep = Some idx \<and> n \<le> idx \<longrightarrow> DeleteOp dep \<in> set ops)))"
proof (cases "pcListExtra c")
  case (Inl e)
  with assms show ?thesis by (auto simp: pruneExtraShards_def)
next
  case (Inr deps)
  with assms have "pruneLoop c n deps ([], False) = (ops, r)" by (simp add: pruneExtraShards_def)
  from pruneLoop_ops [OF this] Inr show ?thesis by fastforce
qed

lemma retireLegacy_ops:
  assumes "retireLegacy c = (ops, r)"
  shows "\<forall>op \<in> set ops. op = DeleteOp LegacyTenantsDeploymentName \<and> pcListKey c LegacyShardKey = Inr []"
  using assms
  by (auto simp: retireLegacy_def drained_def split: get_deployment.splits sum.splits if_splits)

lemma ShardSetReconcile_phases:
  assumes "ShardSetReconcile rnd cfg c = (ops, r)"
  obtains (early) "ops = []" "r \<noteq> Inr ProvisionDone"
  | (phases) flux n ops1 r1 ops2 ops3 where "pcGet c FluxDeploymentName = DepFound flux"
      "effectiveShardCount rnd cfg c = Inr n" "applyShards c flux cfg [0..n - 1] [] = (ops1, r1)"
      "ops = ops1 @ ops2 @ ops3"
      "ops2 = [] \<or> (\<exists>r2. pruneExtraShards c n = (ops2, r2))"
      "ops3 = [] \<or> (\<exists>r3. retireLegacy c = (ops3, r3))"
      "r = Inr ProvisionDone \<longrightarrow> r1 = None \<and> pruneExtraShards c n = (ops2, Inr False)"
proof (cases "\<exists>flux n. pcGet c FluxDeploymentName = DepFound flux \<and> effectiveShardCount rnd cfg c = Inr n")
  case False
  then have "ops = []" "r \<noteq> Inr ProvisionDone"
    using assms by (auto simp: ShardSetReconcile_def split: get_deployment.splits sum.splits)
  then show ?thesis by (rule early)
next
  case True
  then obtain flux n where fn: "pcGet c FluxDeploymentName = DepFound flux"
    "effectiveShardCount rnd cfg c = Inr n" by blast
  obtain ops1 r1 where a: "applyShards c flux cfg [0..n - 1] [] = (ops1, r1)" by fastforce
  obtain ops2 r2 where p: "pruneExtraShards c n = (ops2, r2)" by fastforce
  obtain ops3 r3 where l: "retireLegacy c = (ops3, r3)" by fastforce
  have res: "(ops, r) = (case r1 of Some e \<Rightarrow> (ops1, Inl e) | None \<Rightarrow>
      (case r2 of Inl e \<Rightarrow> (ops1 @ ops2, Inl e) | Inr b2 \<Rightarrow>
        (case r3 of Inl e \<Rightarrow> (ops1 @ ops2 @ ops3, Inl e)
         | Inr b3 \<Rightarrow> (ops1 @ ops2 @ ops3, Inr (if b2 \<or> b3 then ProvisionRetry else ProvisionDone)))))"
    using assms by (cases r1; cases r2; cases r3) (simp_all add: ShardSetReconcile_def fn a p l)
  note ph = phases [OF fn a]
  show ?thesis
  proof (cases r1)
    case (Some e)
    then show ?thesis using res by (intro ph [of "[]" "[]"]) auto
  next
    case None
    show ?thesis
    proof (cases r2)
      case (Inl e)
      then show ?thesis using res None p by (intro ph [of ops2 "[]"]) auto
    next
      case (Inr b2)
      then show ?thesis using res None p l
        by (intro ph [of ops2 ops3]) (auto split: sum.splits if_splits)
    qed
  qed
qed

text \<open>C5: the provisioner never removes a shard in use. Every Deployment a reconcile deletes is
  either the legacy tenants Deployment or a shard with an index beyond the shard count, and in
  both cases the listing of the HelmReleases on its key came back empty; every Deployment it
  applies is the one built for a shard below the count; and a reconcile that ends without a retry
  has applied all of them and deleted every listed shard beyond the count.\<close>

theorem ShardSetReconcile_writes:
  assumes "ShardSetReconcile rnd cfg c = (ops, r)"
  shows "(\<forall>name. DeleteOp name \<in> set ops \<longrightarrow>
      name = LegacyTenantsDeploymentName \<and> pcListKey c LegacyShardKey = Inr [] \<or>
      (\<exists>n idx. effectiveShardCount rnd cfg c = Inr n \<and> n \<le> idx \<and>
         ParseShardDeploymentIndex name = Some idx \<and> pcListKey c (ShardName idx) = Inr [])) \<and>
    (\<forall>d. ApplyOp d \<in> set ops \<longrightarrow>
      (\<exists>flux n i. pcGet c FluxDeploymentName = DepFound flux \<and> effectiveShardCount rnd cfg c = Inr n \<and>
         0 \<le> i \<and> i < n \<and> BuildShardDeployment flux i cfg = Inr d)) \<and>
    (r = Inr ProvisionDone \<longrightarrow>
      (\<exists>flux n deps. effectiveShardCount rnd cfg c = Inr n \<and> pcListExtra c = Inr deps \<and>
         (\<forall>i. 0 \<le> i \<and> i < n \<longrightarrow> (\<exists>d. BuildShardDeployment flux i cfg = Inr d \<and> ApplyOp d \<in> set ops)) \<and>
         (\<forall>dep \<in> set deps. \<forall>idx. ParseShardDeploymentIndex dep = Some idx \<and> n \<le> idx \<longrightarrow>
            DeleteOp dep \<in> set ops)))"
  using assms
proof (cases rule: ShardSetReconcile_phases)
  case early
  then show ?thesis by simp
next
  case (phases flux n ops1 r1 ops2 ops3)
  from applyShards_ops [OF phases(3)] have
    a: "\<forall>op \<in> set ops1. \<exists>i. 0 \<le> i \<and> i < n \<and> (\<exists>d. op = ApplyOp d \<and> BuildShardDeployment flux i cfg = Inr d)"
    and al: "r1 = None \<Longrightarrow> map Inr ops1 = map (\<lambda>i. map_sum id ApplyOp (BuildShardDeployment flux i cfg)) [0..n - 1]"
    by fastforce+
  have p: "\<forall>op \<in> set ops2. \<exists>dep idx. op = DeleteOp dep \<and> ParseShardDeploymentIndex dep = Some idx \<and>
       n \<le> idx \<and> pcListKey c (ShardName idx) = Inr []"
    using phases(5) pruneExtraShards_ops by fastforce
  have l: "\<forall>op \<in> set ops3. op = DeleteOp LegacyTenantsDeploymentName \<and> pcListKey c LegacyShardKey = Inr []"
    using phases(6) retireLegacy_ops by fastforce
  have d: "\<exists>d. BuildShardDeployment flux i cfg = Inr d \<and> ApplyOp d \<in> set ops1"
    if "r1 = None" "0 \<le> i" "i < n" for i
  proof -
    have "map_sum id ApplyOp (BuildShardDeployment flux i cfg) \<in> set (map Inr ops1)"
      unfolding al [OF that(1)] using that(2,3) by auto
    then show ?thesis by (cases "BuildShardDeployment flux i cfg") auto
  qed
  have fin: "\<exists>deps. pcListExtra c = Inr deps \<and> (\<forall>dep \<in> set deps. \<forall>idx.
       ParseShardDeploymentIndex dep = Some idx \<and> n \<le> idx \<longrightarrow> DeleteOp dep \<in> set ops2)" if "r = Inr ProvisionDone"
    using pruneExtraShards_ops phases(7) that by blast
  have "\<exists>n idx. effectiveShardCount rnd cfg c = Inr n \<and> n \<le> idx \<and>
         ParseShardDeploymentIndex name = Some idx \<and> pcListKey c (ShardName idx) = Inr []"
    if "DeleteOp name \<in> set ops" "name \<noteq> LegacyTenantsDeploymentName \<or> pcListKey c LegacyShardKey \<noteq> Inr []" for name
    using that a p l phases(2,4) by fastforce
  moreover have "\<exists>flux n i. pcGet c FluxDeploymentName = DepFound flux \<and> effectiveShardCount rnd cfg c = Inr n \<and>
         0 \<le> i \<and> i < n \<and> BuildShardDeployment flux i cfg = Inr d" if "ApplyOp d \<in> set ops" for d
    using that a p l phases(1,2,4) by fastforce
  moreover have "\<exists>flux n deps. effectiveShardCount rnd cfg c = Inr n \<and> pcListExtra c = Inr deps \<and>
         (\<forall>i. 0 \<le> i \<and> i < n \<longrightarrow> (\<exists>d. BuildShardDeployment flux i cfg = Inr d \<and> ApplyOp d \<in> set ops)) \<and>
         (\<forall>dep \<in> set deps. \<forall>idx. ParseShardDeploymentIndex dep = Some idx \<and> n \<le> idx \<longrightarrow>
            DeleteOp dep \<in> set ops)" if z: "r = Inr ProvisionDone"
  proof -
    have "r1 = None" using phases(7) z by simp
    then have "\<forall>i. 0 \<le> i \<and> i < n \<longrightarrow> (\<exists>d. BuildShardDeployment flux i cfg = Inr d \<and> ApplyOp d \<in> set ops)"
      using d phases(4) by fastforce
    moreover obtain deps where "pcListExtra c = Inr deps" "\<forall>dep \<in> set deps. \<forall>idx.
        ParseShardDeploymentIndex dep = Some idx \<and> n \<le> idx \<longrightarrow> DeleteOp dep \<in> set ops"
      using fin [OF z] phases(4) by auto
    ultimately show ?thesis using phases(2) by blast
  qed
  ultimately show ?thesis by blast
qed

definition demoClient :: provisionClient where
  "demoClient = \<lparr>pcGet = (\<lambda>n. if n = FluxDeploymentName then DepFound demoFlux else DepNotFound),
     pcListHRs = Inr [], pcListShards = Inr [''helm-controller-shard0'', ''helm-controller-shard1''],
     pcListExtra = Inr [''helm-controller-shard0'', ''helm-controller-shard1''],
     pcListKey = (\<lambda>_. Inr []), pcWrite = (\<lambda>_. WriteOk)\<rparr>"

theorem ShardSetReconcile_writes_witness:
  "snd (ShardSetReconcile (\<lambda>x. x) autoConfig demoClient) = Inr ProvisionDone \<and>
   DeleteOp ''helm-controller-shard1'' \<in> set (fst (ShardSetReconcile (\<lambda>x. x) autoConfig demoClient))"
proof -
  let ?r = "ShardSetReconcile (\<lambda>x. x) autoConfig demoClient"
  have fin: "snd ?r = Inr ProvisionDone" by code_simp
  have n: "effectiveShardCount (\<lambda>x. x) autoConfig demoClient = Inr 1" by code_simp
  have i: "ParseShardDeploymentIndex ''helm-controller-shard1'' = Some 1" by code_simp
  have l: "pcListExtra demoClient = Inr [''helm-controller-shard0'', ''helm-controller-shard1'']"
    by (simp add: demoClient_def)
  have eq: "?r = (fst ?r, snd ?r)" by simp
  from ShardSetReconcile_writes [OF eq] fin have "\<exists>flux n deps.
      effectiveShardCount (\<lambda>x. x) autoConfig demoClient = Inr n \<and> pcListExtra demoClient = Inr deps \<and>
      (\<forall>dep \<in> set deps. \<forall>idx. ParseShardDeploymentIndex dep = Some idx \<and> n \<le> idx \<longrightarrow> DeleteOp dep \<in> set (fst ?r))"
    by blast
  with n i l fin show ?thesis by auto
qed

subsection \<open>Placement and provisioning agree\<close>

lemma RecommendedShardCount_mono:
  "0 \<le> h \<Longrightarrow> h \<le> h' \<Longrightarrow> RecommendedShardCount h t \<le> RecommendedShardCount h' t"
proof -
  assume h: "0 \<le> h" "h \<le> h'"
  have "truncDiv (h + hrTargetPerShard - 1) hrTargetPerShard \<le> truncDiv (h' + hrTargetPerShard - 1) hrTargetPerShard"
    using h by (auto simp: truncDiv_def hrTargetPerShard_def sgn_if zdiv_mono1)
  then show ?thesis by (auto simp: RecommendedShardCount_def Let_def)
qed

lemma EffectiveShardCount_mono:
  assumes "rounding rnd" "0 \<le> h" "h \<le> h'"
  shows "EffectiveShardCount rnd c h t cur \<le> EffectiveShardCount rnd c h' t cur"
proof (cases "cur < 1")
  case True
  then show ?thesis using RecommendedShardCount_mono [OF assms(2,3), of t]
    by (auto simp: EffectiveShardCount_def Let_def)
next
  case False
  have mono: "rnd x \<le> rnd y" if "x \<le> y" for x y using assms(1) that by (auto simp: rounding_def mono_def)
  have "rnd (of_int 1) = of_int 1" using assms(1) unfolding rounding_def by (metis abs_one one_le_power one_le_numeral)
  with mono [of "of_int 1" "of_int cur"] False have pos: "0 < rnd (of_int cur)" by simp
  have "rnd (of_int h) \<le> rnd (of_int h')" using mono assms(3) by simp
  then have "fdiv rnd (f64 rnd h) (f64 rnd cur) \<le> fdiv rnd (f64 rnd h') (f64 rnd cur)"
    unfolding fdiv_def f64_def using pos mono by (simp add: divide_right_mono)
  with RecommendedShardCount_mono [OF assms(2,3), of t] show ?thesis
    by (auto simp: EffectiveShardCount_def Let_def)
qed

lemma hrTenants_eq: "hrTenants hrs = {t. ofTenant t hrs \<noteq> []}"
proof -
  have "fold (\<lambda>hr ts. case TenantNamespaceForHR hr of None \<Rightarrow> ts | Some t \<Rightarrow> insert t ts) hrs A =
      A \<union> {t. ofTenant t hrs \<noteq> []}" for A
    by (induction hrs arbitrary: A) (auto simp: ofTenant_def split: option.splits)
  from this [of "{}"] show ?thesis by (simp add: hrTenants_def)
qed

lemma views_count:
  assumes "views_inv hrs views"
  shows "card (hrTenants hrs) = length views"
proof -
  have "fst ` set views = hrTenants hrs"
  proof (rule set_eqI)
    fix t
    have "map_of views t = None \<longleftrightarrow> ofTenant t hrs = []" using assms unfolding views_inv_def by blast
    then show "t \<in> fst ` set views \<longleftrightarrow> t \<in> hrTenants hrs" by (auto simp: map_of_eq_None_iff hrTenants_eq)
  qed
  moreover have "distinct (map fst views)" using assms by (simp add: views_inv_def)
  ultimately show ?thesis using distinct_card [of "map fst views"] by simp
qed

lemma sum_ofTenant_le: "finite S \<Longrightarrow> (\<Sum>t \<in> S. length (ofTenant t hrs)) \<le> length hrs"
proof (induction hrs)
  case (Cons h hrs)
  have "(\<Sum>t \<in> S. length (ofTenant t (h # hrs))) =
      (\<Sum>t \<in> S. if TenantNamespaceForHR h = Some t then 1 else 0) + (\<Sum>t \<in> S. length (ofTenant t hrs))"
    unfolding sum.distrib [symmetric] by (rule sum.cong) (auto simp: ofTenant_def)
  moreover have "(\<Sum>t \<in> S. if TenantNamespaceForHR h = Some t then 1 else 0) \<le> (1::nat)"
    using Cons.prems by (cases "TenantNamespaceForHR h") simp_all
  ultimately show ?case using Cons by simp
qed (simp add: ofTenant_def)

lemma views_weight:
  assumes "views_inv hrs views"
  shows "0 \<le> sum_list (map tiWeight (map (\<lambda>(_, v). tvInfo v) views))"
    "sum_list (map tiWeight (map (\<lambda>(_, v). tvInfo v) views)) \<le> int (length hrs)"
proof -
  have "tiWeight (tvInfo v) = int (length (ofTenant t hrs))" if "(t, v) \<in> set views" for t v
    using assms that unfolding views_inv_def by simp
  then have "map tiWeight (map (\<lambda>(_, v). tvInfo v) views) =
      map (\<lambda>t. int (length (ofTenant t hrs))) (map fst views)" by auto
  moreover have "distinct (map fst views)" using assms by (simp add: views_inv_def)
  ultimately have e: "sum_list (map tiWeight (map (\<lambda>(_, v). tvInfo v) views)) =
      (\<Sum>t \<in> set (map fst views). int (length (ofTenant t hrs)))"
    by (simp only: sum_list_distinct_conv_sum_set)
  show "0 \<le> sum_list (map tiWeight (map (\<lambda>(_, v). tvInfo v) views))" unfolding e by (rule sum_nonneg) simp
  show "sum_list (map tiWeight (map (\<lambda>(_, v). tvInfo v) views)) \<le> int (length hrs)"
    unfolding e of_nat_sum [symmetric] of_nat_le_iff by (rule sum_ofTenant_le) simp
qed

lemma observeShards_count:
  "observeShards (Inr deps) = Inr (ready, n) \<Longrightarrow> currentShardCount (map sdName deps) = n"
proof -
  have "snd (fold observeShard deps rc) = fold (\<lambda>d current. case ParseShardDeploymentIndex d of
             None \<Rightarrow> current | Some idx \<Rightarrow> if idx + 1 > current then idx + 1 else current)
           (map sdName deps) (snd rc)" for rc
    by (induction deps arbitrary: rc) (auto simp: observeShard_def split: option.splits)
  from this [of "(Map.empty, 0)"] show "observeShards (Inr deps) = Inr (ready, n) \<Longrightarrow> ?thesis"
    by (simp add: currentShardCount_def observeShards_def)
qed

text \<open>C6: the two controllers agree on the size of the fleet in the safe direction. When placement
  and provisioning read the same HelmReleases and shard Deployments, placement never uses a shard
  count above the one the provisioner provisions: provisioning also counts the HelmReleases that
  belong to no tenant, and the sizing is monotone in that count, hysteresis included.\<close>

theorem placement_within_provisioned:
  assumes "rounding rnd" "gather ord (Inr hrs) (Inr nss) = Inr views"
    and "observeShards (Inr deps) = Inr (ready, cur)"
    and "pcListHRs c = Inr hrs" "pcListShards c = Inr (map sdName deps)"
  shows "\<exists>n. effectiveShardCount rnd cfg c = Inr n \<and>
    piShardCount (placementInput rnd cfg now lm views cur) \<le> n"
proof -
  have vi: "views_inv hrs views" by (rule gather_views [OF assms(2)])
  note w = views_weight [OF vi]
  show ?thesis
  proof (cases "AutoShardCount cfg")
    case True
    then show ?thesis
      using assms(4,5) EffectiveShardCount_mono [OF assms(1) w, of cfg "int (length views)" cur]
        views_count [OF vi] observeShards_count [OF assms(3)]
      by (simp add: effectiveShardCount_def placementInput_def Let_def)
  next
    case False
    then show ?thesis by (simp add: effectiveShardCount_def placementInput_def Let_def EffectiveShardCount_def)
  qed
qed

theorem placement_within_provisioned_witness:
  "\<exists>n. effectiveShardCount (\<lambda>x. x) autoConfig (demoClient\<lparr>pcListHRs := Inr demoHRs, pcListShards := Inr []\<rparr>) = Inr n \<and>
    piShardCount (placementInput (\<lambda>x. x) autoConfig 0 Map.empty demoViews 0) \<le> n"
proof (rule placement_within_provisioned [OF rounding_id])
  show "gather (\<lambda>xs. xs) (Inr demoHRs) (Inr []) = Inr demoViews" by (simp add: demoViews_def gather_def Let_def)
  show "observeShards (Inr []) = Inr (Map.empty, 0)" by (simp add: observeShards_def)
qed simp_all

end
