(* ===== verification/Tenant_Tree.thy ===== *)
theory Tenant_Tree
  imports Go_Prelude
begin

text \<open>
  The tenant hierarchy. A tenant \<open>x\<close> created in the namespace \<open>P\<close> owns the namespace \<open>P-x\<close>, or
  \<open>tenant-x\<close> directly under the root tenant, so the hierarchy is encoded in the names. The code
  has this encoding three times: in the quota controller
  (\<open>internal/controller/tenantquota\<close>: \<open>ownedNamespace\<close>, \<open>parentNamespace\<close>, \<open>poolRootOf\<close>), in the
  aggregated API server (\<open>pkg/registry/apps/application\<close>: \<open>computeTenantNamespace\<close>,
  \<open>parentNamespaceOf\<close>, \<open>poolRootOf\<close>), and as its inverse \<open>parentTenantHelmReleaseRef\<close>. The locale
  \<open>tenant_tree\<close> states what the quota arithmetic relies on: a parent function that reaches the
  top, and the walk to the nearest bounded ancestor; both copies interpret it.
\<close>

definition rootTenantNamespace :: string where "rootTenantNamespace = ''tenant-root''"
definition tenantNamespacePrefix :: string where "tenantNamespacePrefix = ''tenant-''"

subsection \<open>The quota controller's copy\<close>

definition parentNamespace :: "string \<Rightarrow> string" where
  "parentNamespace ns =
     (if ns = rootTenantNamespace \<or> \<not> prefix tenantNamespacePrefix ns then []
      else
        let segments = splitOn CHR ''-'' ns in
        if length segments = 2 then rootTenantNamespace
        else joinWith CHR ''-'' (butlast segments))"

definition ownedNamespace :: "string \<Rightarrow> string \<Rightarrow> string" where
  "ownedNamespace hrNamespace appName =
     (if hrNamespace = rootTenantNamespace \<and> appName = ''root'' then rootTenantNamespace
      else if hrNamespace = rootTenantNamespace then tenantNamespacePrefix @ appName
      else hrNamespace @ ''-'' @ appName)"

subsection \<open>The API server's copy\<close>

definition computeTenantNamespace :: "string \<Rightarrow> string \<Rightarrow> string \<Rightarrow> string" where
  "computeTenantNamespace pfx currentNamespace tenantName =
     (let hrName = pfx @ tenantName in
      if currentNamespace = ''tenant-root'' \<and> hrName = ''tenant-root'' then ''tenant-root''
      else if currentNamespace = ''tenant-root'' then ''tenant-'' @ tenantName
      else currentNamespace @ ''-'' @ tenantName)"

definition parentNamespaceOf :: "string \<Rightarrow> string \<Rightarrow> string" where
  "parentNamespaceOf pfx ns =
     (if ns = rootTenantNamespace \<or> \<not> prefix pfx ns then []
      else
        let segments = splitOn CHR ''-'' ns in
        if length segments = 2 then rootTenantNamespace
        else joinWith CHR ''-'' (butlast segments))"

definition parentTenantHelmReleaseRef :: "string \<Rightarrow> string \<Rightarrow> (string \<times> string) option" where
  "parentTenantHelmReleaseRef ns pfx =
     (if ns = rootTenantNamespace then Some (pfx @ ''root'', rootTenantNamespace)
      else if \<not> prefix pfx ns then None
      else
        let segments = splitOn CHR ''-'' ns; lastSeg = last segments in
        if length segments = 2 then Some (pfx @ lastSeg, rootTenantNamespace)
        else Some (pfx @ lastSeg, joinWith CHR ''-'' (butlast segments)))"

subsection \<open>Depth\<close>

text \<open>The number of steps left to the top: the walk towards the root decreases it.\<close>

definition depth :: "string \<Rightarrow> nat" where
  "depth ns = (if ns = rootTenantNamespace then 1 else Suc (length (splitOn CHR ''-'' ns)))"

lemma length_splitOn_pos [simp]: "0 < length (splitOn c s)"
  by (cases "splitOn c s") auto

lemma splitOn_joinWith:
  "ws \<noteq> [] \<Longrightarrow> \<forall>w \<in> set ws. c \<notin> set w \<Longrightarrow> splitOn c (joinWith c ws) = ws"
proof (induction ws rule: joinWith.induct)
  case (3 c w v vs)
  then show ?case by (simp add: splitOn_append_sep)
qed (simp_all add: splitOn_single)

lemma splitOn_butlast_join:
  assumes "1 < length (splitOn c s)"
  shows "splitOn c (joinWith c (butlast (splitOn c s))) = butlast (splitOn c s)"
proof (rule splitOn_joinWith)
  have "length (butlast (splitOn c s)) \<noteq> 0" using assms by simp
  then show "butlast (splitOn c s) \<noteq> []" by fastforce
  show "\<forall>w \<in> set (butlast (splitOn c s)). c \<notin> set w"
    by (meson in_set_butlastD splitOn_no_sep)
qed

lemma parentNamespaceOf_depth:
  assumes "parentNamespaceOf pfx ns \<noteq> []"
  shows "depth (parentNamespaceOf pfx ns) < depth ns"
proof -
  let ?p = "joinWith CHR ''-'' (butlast (splitOn CHR ''-'' ns))"
  from assms have r: "ns \<noteq> rootTenantNamespace" and
    cs: "parentNamespaceOf pfx ns = rootTenantNamespace \<or> parentNamespaceOf pfx ns = ?p"
    by (auto simp: parentNamespaceOf_def Let_def split: if_splits)
  show ?thesis
  proof (cases "parentNamespaceOf pfx ns = rootTenantNamespace")
    case True
    with r show ?thesis by (simp add: depth_def)
  next
    case False
    with cs have p: "parentNamespaceOf pfx ns = ?p" by simp
    with assms have "butlast (splitOn CHR ''-'' ns) \<noteq> []" by auto
    then have "1 < length (splitOn CHR ''-'' ns)" by (cases "splitOn CHR ''-'' ns") (auto split: if_splits)
    from splitOn_butlast_join [OF this] this r False p show ?thesis by (simp add: depth_def)
  qed
qed

lemma parentNamespace_eq: "parentNamespace = parentNamespaceOf ''tenant-''"
  by (rule ext) (simp add: parentNamespace_def parentNamespaceOf_def tenantNamespacePrefix_def)

subsection \<open>The walk to the pool root\<close>

function restPoolRootOf :: "string \<Rightarrow> (string \<Rightarrow> bool) \<Rightarrow> string \<Rightarrow> string" where
  "restPoolRootOf pfx bounded cur =
     (if cur = [] then []
      else if bounded cur then cur
      else restPoolRootOf pfx bounded (parentNamespaceOf pfx cur))"
  by auto
termination
proof (relation "measure (\<lambda>(_, _, cur). if cur = [] then 0 else depth cur)", simp)
  fix pfx bounded and cur :: string assume "cur \<noteq> []"
  then show "((pfx, bounded, parentNamespaceOf pfx cur), pfx, bounded, cur) \<in>
      measure (\<lambda>(_, _, cur). if cur = [] then 0 else depth cur)"
    using parentNamespaceOf_depth [of pfx cur] by (auto simp: depth_def)
qed

function poolRootOf :: "(string \<Rightarrow> bool) \<Rightarrow> string \<Rightarrow> string" where
  "poolRootOf bounded cur =
     (if cur = [] then []
      else if bounded cur then cur
      else poolRootOf bounded (parentNamespace cur))"
  by auto
termination
proof (relation "measure (\<lambda>(_, cur). if cur = [] then 0 else depth cur)", simp)
  fix bounded and cur :: string assume "cur \<noteq> []"
  then show "((bounded, parentNamespace cur), bounded, cur) \<in>
      measure (\<lambda>(_, cur). if cur = [] then 0 else depth cur)"
    using parentNamespaceOf_depth [of "''tenant-''" cur] by (auto simp: depth_def parentNamespace_eq)
qed

declare poolRootOf.simps [simp del] restPoolRootOf.simps [simp del]

subsection \<open>The interface\<close>

locale tenant_tree =
  fixes parent :: "string \<Rightarrow> string" and root_of :: "(string \<Rightarrow> bool) \<Rightarrow> string \<Rightarrow> string"
    and rank :: "string \<Rightarrow> nat"
  assumes root_step:
      "root_of b ns = (if ns = [] then [] else if b ns then ns else root_of b (parent ns))"
    and rank_parent: "ns \<noteq> [] \<Longrightarrow> parent ns \<noteq> [] \<Longrightarrow> rank (parent ns) < rank ns"
begin

lemma root_of_Nil [simp]: "root_of b [] = []"
  by (simp add: root_step [of b "[]"])

lemma root_of_self: "b ns \<Longrightarrow> ns \<noteq> [] \<Longrightarrow> root_of b ns = ns"
  by (simp add: root_step [of b ns])

text \<open>Induction towards the root.\<close>

lemma tree_induct:
  assumes "P []" and "\<And>ns. ns \<noteq> [] \<Longrightarrow> P (parent ns) \<Longrightarrow> P ns"
  shows "P ns"
proof (induction "rank ns" arbitrary: ns rule: less_induct)
  case less
  show ?case
  proof (cases "ns = []")
    case False
    moreover have "P (parent ns)"
      using less rank_parent [OF False] assms(1) by (cases "parent ns = []") auto
    ultimately show ?thesis by (rule assms(2))
  qed (simp add: assms(1))
qed

lemma root_of_bounded: "root_of b ns \<noteq> [] \<Longrightarrow> b (root_of b ns)"
proof (induction ns rule: tree_induct)
  case (2 ns)
  then show ?case by (subst root_step) (auto simp: root_step [of b ns])
qed simp

lemma root_of_idem [simp]: "root_of b (root_of b ns) = root_of b ns"
  using root_of_bounded [of b ns] by (cases "root_of b ns = []") (auto simp: root_of_self)

lemma root_of_rank: "root_of b ns \<noteq> [] \<Longrightarrow> rank (root_of b ns) \<le> rank ns"
proof (induction ns rule: tree_induct)
  case (2 ns)
  then show ?case using rank_parent [of ns] by (cases "parent ns = []") (auto simp: root_step [of b ns])
qed simp

lemma root_of_parent_rank:
  "ns \<noteq> [] \<Longrightarrow> root_of b (parent ns) \<noteq> [] \<Longrightarrow> rank (root_of b (parent ns)) < rank ns"
  using root_of_rank [of b "parent ns"] rank_parent [of ns] by (cases "parent ns = []") auto

definition ancestor :: "nat \<Rightarrow> string \<Rightarrow> string" where
  "ancestor k ns = (parent ^^ k) ns"

text \<open>The walk finds exactly the nearest bounded ancestor, counting the namespace itself.\<close>

lemma root_of_nearest:
  "root_of b ns = r \<and> r \<noteq> [] \<longleftrightarrow>
     (\<exists>k. ancestor k ns = r \<and> r \<noteq> [] \<and> b r \<and> (\<forall>j < k. ancestor j ns \<noteq> [] \<and> \<not> b (ancestor j ns)))"
proof (induction ns rule: tree_induct)
  case 1
  have z: "ancestor 0 [] = []" by (simp add: ancestor_def)
  have "\<not> (ancestor k [] = r \<and> r \<noteq> [] \<and> (\<forall>j < k. ancestor j [] \<noteq> [] \<and> \<not> b (ancestor j [])))" for k
    using z by (cases k) auto
  then show ?case by auto
next
  case (2 ns)
  have step: "ancestor (Suc k) ns = ancestor k (parent ns)" for k
    by (simp add: ancestor_def funpow_Suc_right del: funpow.simps)
  have z: "ancestor 0 ns = ns" by (simp add: ancestor_def)
  show ?case (is "?L \<longleftrightarrow> (\<exists>k. ?Q k)")
  proof (cases "b ns")
    case True
    then have "?Q k \<Longrightarrow> k = 0" for k using z by (metis gr0I)
    then have "(\<exists>k. ?Q k) \<longleftrightarrow> ?Q 0" by (metis (no_types, lifting))
    with True 2(1) z show ?thesis by (auto simp: root_of_self)
  next
    case False
    have q: "?Q (Suc k) \<longleftrightarrow> ancestor k (parent ns) = r \<and> r \<noteq> [] \<and> b r \<and>
        (\<forall>j < k. ancestor j (parent ns) \<noteq> [] \<and> \<not> b (ancestor j (parent ns)))" for k
      using False 2(1) by (auto simp: step less_Suc_eq_0_disj z)
    have "\<not> ?Q 0" using False z by auto
    then have "(\<exists>k. ?Q k) \<longleftrightarrow> (\<exists>k. ?Q (Suc k))" by (subst ex_nat_split) (rule iffI, blast+)
    also have "\<dots> \<longleftrightarrow> root_of b (parent ns) = r \<and> r \<noteq> []" unfolding q by (rule 2(2) [symmetric])
    finally have "(\<exists>k. ?Q k) \<longleftrightarrow> root_of b (parent ns) = r \<and> r \<noteq> []" .
    then show ?thesis using False 2(1) by (simp add: root_step [of b ns])
  qed
qed

end

interpretation rest_tree: tenant_tree "parentNamespaceOf pfx" "restPoolRootOf pfx" depth
proof unfold_locales
  show "restPoolRootOf pfx b ns = (if ns = [] then [] else if b ns then ns
      else restPoolRootOf pfx b (parentNamespaceOf pfx ns))" for b ns
    by (rule restPoolRootOf.simps)
qed (rule parentNamespaceOf_depth)

interpretation controller_tree: tenant_tree parentNamespace poolRootOf depth
proof unfold_locales
  show "poolRootOf b ns = (if ns = [] then [] else if b ns then ns else poolRootOf b (parentNamespace ns))"
    for b ns by (rule poolRootOf.simps)
qed (simp add: parentNamespace_eq parentNamespaceOf_depth)

subsection \<open>The encodings are inverse\<close>

text \<open>A well-formed application name of a tenant has no dash (the tenant chart restricts it to
  letters and digits); a tenant namespace is the root's, or a dashed sequence under the prefix that
  does not begin with the root's segment.\<close>

definition tenantName :: "string \<Rightarrow> bool" where
  "tenantName n \<longleftrightarrow> n \<noteq> [] \<and> CHR ''-'' \<notin> set n"

definition tenantNS :: "string \<Rightarrow> bool" where
  "tenantNS ns \<longleftrightarrow> ns = rootTenantNamespace \<or>
     (\<exists>w ws. ns = joinWith CHR ''-'' (''tenant'' # w # ws) \<and> w \<noteq> ''root'' \<and>
        (\<forall>v \<in> set (w # ws). tenantName v))"

lemma ownedNamespace_eq: "ownedNamespace ns n = computeTenantNamespace ''tenant-'' ns n"
  by (simp add: ownedNamespace_def computeTenantNamespace_def rootTenantNamespace_def
      tenantNamespacePrefix_def)

lemma tenantNS_split:
  assumes "tenantNS ns" "ns \<noteq> rootTenantNamespace"
  obtains w ws where "splitOn CHR ''-'' ns = ''tenant'' # w # ws" "w \<noteq> ''root''"
    "\<forall>v \<in> set (w # ws). tenantName v"
proof -
  from assms obtain w ws where
    w: "ns = joinWith CHR ''-'' (''tenant'' # w # ws)" "w \<noteq> ''root''" "\<forall>v \<in> set (w # ws). tenantName v"
    unfolding tenantNS_def by blast
  then have "splitOn CHR ''-'' ns = ''tenant'' # w # ws"
    by (simp only:) (rule splitOn_joinWith, auto simp: tenantName_def)
  with w that show ?thesis by blast
qed

lemma owned_split:
  assumes "tenantNS ns" "tenantName n" "ns = rootTenantNamespace \<longrightarrow> n \<noteq> ''root''"
  defines "c \<equiv> ownedNamespace ns n"
  shows "prefix ''tenant-'' c" "last (splitOn CHR ''-'' c) = n" "c \<noteq> rootTenantNamespace"
    "if ns = rootTenantNamespace then length (splitOn CHR ''-'' c) = 2
     else 2 < length (splitOn CHR ''-'' c) \<and> joinWith CHR ''-'' (butlast (splitOn CHR ''-'' c)) = ns"
proof -
  have n: "splitOn CHR ''-'' n = [n]" using assms(2) by (simp add: splitOn_single tenantName_def)
  have "prefix ''tenant-'' c \<and> last (splitOn CHR ''-'' c) = n \<and> c \<noteq> rootTenantNamespace \<and>
    (if ns = rootTenantNamespace then length (splitOn CHR ''-'' c) = 2
     else 2 < length (splitOn CHR ''-'' c) \<and> joinWith CHR ''-'' (butlast (splitOn CHR ''-'' c)) = ns)"
  proof (cases "ns = rootTenantNamespace")
    case True
    then have c: "c = ''tenant-'' @ n"
      using assms(3) by (simp add: c_def ownedNamespace_def tenantNamespacePrefix_def)
    have "splitOn CHR ''-'' c = [''tenant'', n]"
      unfolding c using splitOn_append_sep [of "CHR ''-''" "''tenant''" n] n by simp
    with True c assms(3) show ?thesis by (simp add: rootTenantNamespace_def)
  next
    case False
    then have c: "c = ns @ CHR ''-'' # n" by (simp add: c_def ownedNamespace_def)
    then have s: "splitOn CHR ''-'' c = splitOn CHR ''-'' ns @ [n]" by (simp add: splitOn_append n)
    from tenantNS_split [OF assms(1) False] obtain w ws where
      w: "splitOn CHR ''-'' ns = ''tenant'' # w # ws" "w \<noteq> ''root''" by blast
    have "ns = joinWith CHR ''-'' (''tenant'' # w # ws)" using w(1) by (metis joinWith_splitOn)
    then have p: "prefix ''tenant-'' ns" by simp
    have "c \<noteq> rootTenantNamespace"
    proof
      assume "c = rootTenantNamespace"
      then have "splitOn CHR ''-'' c = [''tenant'', ''root'']" by (simp add: rootTenantNamespace_def)
      with s w show False by simp
    qed
    moreover have "prefix ''tenant-'' c" using p c by (simp add: prefix_prefix)
    moreover have "butlast (splitOn CHR ''-'' c) = splitOn CHR ''-'' ns" by (simp add: s)
    moreover have "2 < length (splitOn CHR ''-'' c)" "last (splitOn CHR ''-'' c) = n"
      using s w(1) by simp_all
    ultimately show ?thesis using False by (metis joinWith_splitOn)
  qed
  then show "prefix ''tenant-'' c" "last (splitOn CHR ''-'' c) = n" "c \<noteq> rootTenantNamespace"
    "if ns = rootTenantNamespace then length (splitOn CHR ''-'' c) = 2
     else 2 < length (splitOn CHR ''-'' c) \<and> joinWith CHR ''-'' (butlast (splitOn CHR ''-'' c)) = ns"
    by auto
qed

text \<open>C10: the three copies of the hierarchy agree. For every tenant namespace and tenant name (the
  root tenant apart), the controller and the API server compute the same owned namespace, its
  parent is the namespace the tenant was created in, and the HelmRelease recovered from it is the
  tenant's own; and the two walks to the pool root are the same function.\<close>

theorem tenant_namespace_inverse:
  assumes "tenantNS ns" "tenantName n" "ns = rootTenantNamespace \<longrightarrow> n \<noteq> ''root''"
  shows "ownedNamespace ns n = computeTenantNamespace ''tenant-'' ns n \<and>
    parentNamespace (ownedNamespace ns n) = ns \<and>
    parentTenantHelmReleaseRef (ownedNamespace ns n) ''tenant-'' = Some (''tenant-'' @ n, ns) \<and>
    poolRootOf b m = restPoolRootOf ''tenant-'' b m"
proof -
  note o = owned_split [OF assms]
  have "poolRootOf b m = restPoolRootOf ''tenant-'' b m"
    by (induction m rule: controller_tree.tree_induct)
      (simp_all add: poolRootOf.simps [of b] restPoolRootOf.simps [of _ b] parentNamespace_eq)
  moreover have "parentNamespace (ownedNamespace ns n) = ns"
    using o by (auto simp: parentNamespace_def tenantNamespacePrefix_def Let_def split: if_splits)
  moreover have "parentTenantHelmReleaseRef (ownedNamespace ns n) ''tenant-'' = Some (''tenant-'' @ n, ns)"
    using o by (auto simp: parentTenantHelmReleaseRef_def Let_def split: if_splits)
  ultimately show ?thesis by (simp add: ownedNamespace_eq)
qed

theorem tenant_namespace_inverse_witness:
  "ownedNamespace ''tenant-foo'' ''bar'' = ''tenant-foo-bar'' \<and> parentNamespace ''tenant-foo-bar'' = ''tenant-foo''"
proof -
  have "''tenant-foo'' = joinWith CHR ''-'' [''tenant'', ''foo'']" by simp
  moreover have "''foo'' \<noteq> ''root'' \<and> (\<forall>v \<in> set [''foo'']. tenantName v)" by (simp add: tenantName_def)
  ultimately have a: "tenantNS ''tenant-foo''" unfolding tenantNS_def by blast
  have b: "tenantName ''bar''" by (simp add: tenantName_def)
  have c: "ownedNamespace ''tenant-foo'' ''bar'' = ''tenant-foo-bar''"
    by (simp add: ownedNamespace_def rootTenantNamespace_def)
  have r: "''tenant-foo'' = rootTenantNamespace \<longrightarrow> ''bar'' \<noteq> ''root''" by simp
  have "parentNamespace (ownedNamespace ''tenant-foo'' ''bar'') = ''tenant-foo''"
    using tenant_namespace_inverse [OF a b r, of "\<lambda>_. True" "[]"] by blast
  then show ?thesis unfolding c by simp
qed

end
