(* ===== verification/Tenant_Pools.thy ===== *)
theory Tenant_Pools
  imports Tenant_Tree
begin

text \<open>
  Hierarchical tenant quotas at runtime: the pool computation
  (\<open>internal/controller/tenantquota/pool.go\<close>) and the sweep of the quota controller
  (\<open>reconciler.go\<close>). A \<open>corev1.ResourceList\<close> is a map from resource names to quantities, and a
  quantity is an integer number of milli-units. The Kubernetes quota helpers
  (\<open>k8s.io/apiserver/pkg/quota/v1\<close>) and \<open>Quantity.MilliValue\<close> are code outside the repository: a
  record \<open>quotaLib\<close> of functions that every definition using them takes, with their documented
  behaviour as the predicate \<open>quota_lib\<close>. The maps the code ranges over are association lists, and
  \<open>ord\<close> is the order of a \<open>range\<close>. The API calls of the sweep are arguments.
\<close>

subsection \<open>The quota helpers\<close>

type_synonym ResourceList = "string \<rightharpoonup> int"

record quotaLib =
  qAdd :: "ResourceList \<Rightarrow> ResourceList \<Rightarrow> ResourceList"
  qSubtract :: "ResourceList \<Rightarrow> ResourceList \<Rightarrow> ResourceList"
  qSubtractNonNeg :: "ResourceList \<Rightarrow> ResourceList \<Rightarrow> ResourceList"
  qMask :: "ResourceList \<Rightarrow> string set \<Rightarrow> ResourceList"
  qResourceNames :: "ResourceList \<Rightarrow> string set"
  qMilliValue :: "int \<Rightarrow> int"

definition amount :: "ResourceList \<Rightarrow> string \<Rightarrow> int" where
  "amount rl r = (case rl r of None \<Rightarrow> 0 | Some v \<Rightarrow> v)"

text \<open>A per-resource combination over the union of the resource names.\<close>

definition pointwise :: "(int \<Rightarrow> int \<Rightarrow> int) \<Rightarrow> ResourceList \<Rightarrow> ResourceList \<Rightarrow> ResourceList" where
  "pointwise f a b r =
     (if a r = None \<and> b r = None then None else Some (f (amount a r) (amount b r)))"

text \<open>The documented behaviour: \<open>Add\<close> and \<open>Subtract\<close> work per named resource of either list,
  \<open>SubtractWithNonNegativeResult\<close> also replaces negative results by zero (a resource only the
  second list names yields zero), \<open>Mask\<close> restricts to the given names, and \<open>MilliValue\<close> is exact
  for every quantity whose milli-value fits an int64.\<close>

definition quota_lib :: "quotaLib \<Rightarrow> bool" where
  "quota_lib q \<longleftrightarrow>
     qAdd q = pointwise (+) \<and> qSubtract q = pointwise (-) \<and>
     qSubtractNonNeg q = pointwise (\<lambda>x y. max (x - y) 0) \<and>
     (\<forall>rl names. qMask q rl names = rl |` names) \<and> (\<forall>rl. qResourceNames q rl = dom rl) \<and>
     (\<forall>v. minInt \<le> v \<and> v \<le> maxInt \<longrightarrow> qMilliValue q v = v)"

definition k8sQuota :: quotaLib where
  "k8sQuota = \<lparr>qAdd = pointwise (+), qSubtract = pointwise (-),
     qSubtractNonNeg = pointwise (\<lambda>x y. max (x - y) 0), qMask = (\<lambda>rl names. rl |` names),
     qResourceNames = dom, qMilliValue = (\<lambda>v. v)\<rparr>"

lemma quota_lib_k8s: "quota_lib k8sQuota"
  by (simp add: quota_lib_def k8sQuota_def)

subsection \<open>Pools\<close>

record Tenant =
  tnNamespace :: string
  tnDeclared :: ResourceList

record Pool =
  poRoot :: string
  poBudget :: ResourceList
  poCarvedOut :: ResourceList
  poAvailable :: ResourceList
  poMembers :: "string list"

definition addDeclared :: "Tenant \<Rightarrow> (string \<times> ResourceList) list \<Rightarrow> (string \<times> ResourceList) list" where
  "addDeclared t m =
     (if tnDeclared t \<noteq> Map.empty then AList.update (tnNamespace t) (tnDeclared t) m else m)"

definition declaredByNS :: "Tenant list \<Rightarrow> (string \<times> ResourceList) list" where
  "declaredByNS tenants = fold addDeclared tenants []"

definition boundedIn :: "(string \<times> ResourceList) list \<Rightarrow> string \<Rightarrow> bool" where
  "boundedIn declared ns \<longleftrightarrow> (case map_of declared ns of None \<Rightarrow> False | Some d \<Rightarrow> d \<noteq> Map.empty)"

definition addMember ::
    "(string \<times> ResourceList) list \<Rightarrow> string \<Rightarrow> (string \<times> Pool) list \<Rightarrow> (string \<times> Pool) list" where
  "addMember declared ns pools =
     (let root = poolRootOf (boundedIn declared) ns in
      if root \<noteq> [] then AList.map_entry root (\<lambda>p. p\<lparr>poMembers := poMembers p @ [ns]\<rparr>) pools else pools)"

definition carveOut ::
    "quotaLib \<Rightarrow> (string \<times> ResourceList) list \<Rightarrow> string \<times> ResourceList \<Rightarrow>
     (string \<times> Pool) list \<Rightarrow> (string \<times> Pool) list" where
  "carveOut q declared nd pools =
     (let parentPool = poolRootOf (boundedIn declared) (parentNamespace (fst nd)) in
      if parentPool \<noteq> []
      then AList.map_entry parentPool (\<lambda>p. p\<lparr>poCarvedOut := qAdd q (poCarvedOut p) (snd nd)\<rparr>) pools
      else pools)"

definition finishPool :: "quotaLib \<Rightarrow> Pool \<Rightarrow> Pool" where
  "finishPool q p =
     p\<lparr>poAvailable := qMask q (qSubtractNonNeg q (poBudget p) (poCarvedOut p)) (qResourceNames q (poBudget p)),
       poMembers := sort (poMembers p)\<rparr>"

definition ComputePools ::
    "quotaLib \<Rightarrow> ((string \<times> ResourceList) list \<Rightarrow> (string \<times> ResourceList) list) \<Rightarrow> Tenant list \<Rightarrow>
     (string \<times> Pool) list" where
  "ComputePools q ord tenants =
     (let declared = declaredByNS tenants;
          allNS = sort (map tnNamespace tenants);
          pools0 = map (\<lambda>(ns, d). (ns, \<lparr>poRoot = ns, poBudget = d, poCarvedOut = Map.empty,
                                       poAvailable = Map.empty, poMembers = []\<rparr>)) declared;
          pools1 = fold (addMember declared) allNS pools0;
          pools2 = fold (carveOut q declared) (ord declared) pools1
      in map (\<lambda>(ns, p). (ns, finishPool q p)) pools2)"

definition Overcommitted :: "quotaLib \<Rightarrow> Pool \<Rightarrow> ResourceList" where
  "Overcommitted q p =
     (let over = qSubtract q (poCarvedOut p) (poBudget p) in
      (\<lambda>name. case over name of
                None \<Rightarrow> None
              | Some qty \<Rightarrow> if poBudget p name = None then None
                            else if qty > 0 then Some qty else None))"

definition EnforcedHard :: "quotaLib \<Rightarrow> Pool \<Rightarrow> string \<Rightarrow> (string \<rightharpoonup> ResourceList) \<Rightarrow> ResourceList" where
  "EnforcedHard q p ns usedByNS =
     (let othersUsed = fold (\<lambda>member acc. if member = ns then acc
            else qAdd q acc (case usedByNS member of None \<Rightarrow> Map.empty | Some u \<Rightarrow> u))
            (poMembers p) Map.empty;
          hard = qSubtractNonNeg q (poAvailable p) othersUsed
      in qMask q hard (qResourceNames q (poAvailable p)))"

text \<open>int64 arithmetic: the product wraps around before the truncating division.\<close>

definition wrap64 :: "int \<Rightarrow> int" where
  "wrap64 v = (v + 2 ^ 63) mod 2 ^ 64 - 2 ^ 63"

definition truncDiv100 :: "int \<Rightarrow> int" where
  "truncDiv100 a = sgn a * (\<bar>a\<bar> div 100)"

definition ScaleResourceList :: "quotaLib \<Rightarrow> ResourceList \<Rightarrow> int \<Rightarrow> ResourceList" where
  "ScaleResourceList q rl percent =
     (if percent = 100 \<or> rl = Map.empty then rl
      else (\<lambda>name. map_option (\<lambda>qty. truncDiv100 (wrap64 (qMilliValue q qty * percent))) (rl name)))"

subsection \<open>The sweep\<close>

definition chartQuotaName :: string where "chartQuotaName = ''tenant-quota''"
definition allocatedQuotaName :: string where "allocatedQuotaName = ''tenant-quota-allocated''"

record ResourceQuota =
  rqName :: string
  rqNamespace :: string
  rqHard :: ResourceList
  rqUsed :: ResourceList

definition bufferPercent :: "int \<Rightarrow> int" where
  "bufferPercent configured = (if configured \<le> 0 then 100 else configured)"

text \<open>The copy of \<open>a\<close> followed by the loop over \<open>b\<close> is a per-resource choice.\<close>

definition maxResourceList :: "ResourceList \<Rightarrow> ResourceList \<Rightarrow> ResourceList" where
  "maxResourceList a b k =
     (case b k of
        None \<Rightarrow> a k
      | Some v \<Rightarrow> (case a k of
                     None \<Rightarrow> Some v
                   | Some cur \<Rightarrow> if v > cur then Some v else Some cur))"

record sweepClient =
  swReleases :: "string + (string \<times> string) list" \<comment> \<open>namespace and name of the tenant HelmReleases\<close>
  swQuotas :: "string + ResourceQuota list"
  swNamespaces :: "string + string list"
  swManaged :: "string + string list" \<comment> \<open>namespaces of the controller-owned quotas, read by the collection\<close>
  swDeleteErr :: "string \<Rightarrow> bool" \<comment> \<open>deletion fails with an error other than NotFound\<close>

definition usedAndDeclared ::
    "ResourceQuota list \<Rightarrow> (string \<rightharpoonup> ResourceList) \<times> (string \<rightharpoonup> ResourceList)" where
  "usedAndDeclared quotas =
     fold (\<lambda>rq (used, declared).
        (used(rqNamespace rq \<mapsto> maxResourceList
           (case used (rqNamespace rq) of None \<Rightarrow> Map.empty | Some u \<Rightarrow> u) (rqUsed rq)),
         if rqName rq = chartQuotaName then declared(rqNamespace rq \<mapsto> rqHard rq) else declared))
       quotas (Map.empty, Map.empty)"

definition snapshot ::
    "sweepClient \<Rightarrow> string + (Tenant list \<times> (string \<rightharpoonup> ResourceList) \<times> string list)" where
  "snapshot c =
     (case swReleases c of
        Inl e \<Rightarrow> Inl e
      | Inr releases \<Rightarrow>
          (case swQuotas c of
             Inl e \<Rightarrow> Inl e
           | Inr quotas \<Rightarrow>
               (let (used, declared) = usedAndDeclared quotas in
                case swNamespaces c of
                  Inl e \<Rightarrow> Inl e
                | Inr existing \<Rightarrow>
                    Inr (map (\<lambda>(hrNS, hrName).
                           let ns = ownedNamespace hrNS (trimPrefix hrName tenantNamespacePrefix) in
                           \<lparr>tnNamespace = ns,
                            tnDeclared = (case declared ns of None \<Rightarrow> Map.empty | Some d \<Rightarrow> d)\<rparr>) releases,
                         used, existing))))"

definition poolNeedsClamp :: "Pool \<Rightarrow> bool" where
  "poolNeedsClamp p \<longleftrightarrow> \<not> (poCarvedOut p = Map.empty \<and> length (poMembers p) \<le> 1)"

definition desiredOfPool ::
    "quotaLib \<Rightarrow> int \<Rightarrow> (string \<rightharpoonup> ResourceList) \<Rightarrow> string list \<Rightarrow> Pool \<Rightarrow>
     (string \<times> ResourceList) list \<Rightarrow> (string \<times> ResourceList) list" where
  "desiredOfPool q buffer usedByNS existing p desired =
     (if \<not> poolNeedsClamp p then desired
      else
        let buffered = p\<lparr>poBudget := Map.empty, poCarvedOut := Map.empty,
                         poAvailable := ScaleResourceList q (poAvailable p) (bufferPercent buffer)\<rparr>
        in fold (\<lambda>ns d. if ns \<in> set existing
                        then AList.update ns (EnforcedHard q buffered ns usedByNS) d else d)
             (poMembers p) desired)"

fun gcAllocatedQuotas :: "sweepClient \<Rightarrow> (string \<times> ResourceList) list \<Rightarrow> string list \<Rightarrow> string list" where
  "gcAllocatedQuotas c desired [] = []"
| "gcAllocatedQuotas c desired (m # ms) =
     (if map_of desired m \<noteq> None then gcAllocatedQuotas c desired ms
      else if swDeleteErr c m then [m]
      else m # gcAllocatedQuotas c desired ms)"

record sweepResult =
  srUpserts :: "(string \<times> ResourceList) list"
  srDeletes :: "string list"
  srOvercommitted :: "string list"

definition TenantQuotaReconcile ::
    "quotaLib \<Rightarrow> ((string \<times> ResourceList) list \<Rightarrow> (string \<times> ResourceList) list) \<Rightarrow>
     ((string \<times> Pool) list \<Rightarrow> (string \<times> Pool) list) \<Rightarrow> int \<Rightarrow> sweepClient \<Rightarrow> string + sweepResult" where
  "TenantQuotaReconcile q ord ordP buffer c =
     (case snapshot c of
        Inl e \<Rightarrow> Inl e
      | Inr (tenants, usedByNS, existing) \<Rightarrow>
          (let pools = ordP (ComputePools q ord tenants);
               desired = fold (\<lambda>(_, p). desiredOfPool q buffer usedByNS existing p) pools []
           in Inr \<lparr>srUpserts = ord desired,
                   srDeletes = (case swManaged c of Inl e \<Rightarrow> [] | Inr ms \<Rightarrow> gcAllocatedQuotas c desired ms),
                   srOvercommitted = map fst (filter (\<lambda>(_, p). Overcommitted q p \<noteq> Map.empty) pools)\<rparr>))"

subsection \<open>The quota arithmetic\<close>

lemma amount_pointwise [simp]: "f 0 0 = 0 \<Longrightarrow> amount (pointwise f a b) r = f (amount a r) (amount b r)"
  by (auto simp: amount_def pointwise_def)

lemma amount_empty [simp]: "amount Map.empty r = 0"
  by (simp add: amount_def)

lemma amount_fold_add:
  "amount (fold (\<lambda>d acc. pointwise (+) acc d) ds a) r = amount a r + sum_list (map (\<lambda>d. amount d r) ds)"
  by (induction ds arbitrary: a) simp_all

lemma map_of_map_entry:
  "map_of (AList.map_entry k f al) k' = (if k' = k then map_option f (map_of al k) else map_of al k')"
  by (induction al) auto

lemma keys_map_entry: "map fst (AList.map_entry k f al) = map fst al"
  by (induction al) auto

text \<open>A loop that updates the entry its element selects acts on each entry by the elements that
  select it, in order.\<close>

lemma map_of_fold_entry:
  assumes "\<And>x al. step x al = (if key x \<noteq> [] then AList.map_entry (key x) (f x) al else al)" "k \<noteq> []"
  shows "map_of (fold step xs al) k = map_option (fold f (filter (\<lambda>x. key x = k) xs)) (map_of al k)"
  using assms(2)
proof (induction xs arbitrary: al)
  case Nil
  then show ?case by (simp add: option.map_ident id_def)
next
  case (Cons x xs)
  then show ?case
    by (simp add: assms(1) map_of_map_entry option.map_comp comp_def)
qed

lemma keys_fold_entry:
  assumes "\<And>x al. step x al = (if key x \<noteq> [] then AList.map_entry (key x) (f x) al else al)"
  shows "map fst (fold step xs al) = map fst al"
  by (induction xs arbitrary: al) (simp_all add: assms keys_map_entry)

subsection \<open>The declared budgets\<close>

lemma declaredByNS_inv:
  "distinct (map fst (declaredByNS ts))" "\<forall>(ns, d) \<in> set (declaredByNS ts). d \<noteq> Map.empty"
proof -
  let ?I = "\<lambda>al. distinct (map fst al) \<and> (\<forall>(ns, d) \<in> set al. d \<noteq> Map.empty)"
  have "?I (addDeclared t al)" if I: "?I al" for t al
  proof (cases "tnDeclared t = Map.empty")
    case False
    have "d \<noteq> Map.empty" if "(ns, d) \<in> set (AList.update (tnNamespace t) (tnDeclared t) al)" for ns d
      using subsetD [OF set_update_subset that] I False by auto
    with I False show ?thesis by (simp add: addDeclared_def distinct_update) blast
  qed (use I in \<open>simp add: addDeclared_def\<close>)
  then have "?I (declaredByNS ts)"
    unfolding declaredByNS_def by (intro fold_invariant_list [where I = ?I]) simp_all
  then show "distinct (map fst (declaredByNS ts))" "\<forall>(ns, d) \<in> set (declaredByNS ts). d \<noteq> Map.empty"
    by blast+
qed

lemma map_of_declaredByNS:
  assumes "distinct (map tnNamespace ts)"
  shows "map_of (declaredByNS ts) ns = Some d \<longleftrightarrow>
    (\<exists>t \<in> set ts. tnNamespace t = ns \<and> tnDeclared t = d \<and> d \<noteq> Map.empty)"
proof -
  have "map_of (fold addDeclared ts al) ns = Some d \<longleftrightarrow>
      (\<exists>t \<in> set ts. tnNamespace t = ns \<and> tnDeclared t = d \<and> d \<noteq> Map.empty) \<or>
      (map_of al ns = Some d \<and> (\<forall>t \<in> set ts. tnNamespace t = ns \<longrightarrow> tnDeclared t = Map.empty))" for al
    using assms by (induction ts arbitrary: al) (auto simp: addDeclared_def update_conv' image_iff)
  from this [of "[]"] show ?thesis by (simp add: declaredByNS_def)
qed

lemma boundedIn_declared: "boundedIn (declaredByNS ts) ns \<longleftrightarrow> map_of (declaredByNS ts) ns \<noteq> None"
  using declaredByNS_inv(2) [of ts] by (auto simp: boundedIn_def split: option.splits dest: map_of_SomeD)

subsection \<open>The pools of a snapshot\<close>

definition poolOf :: "Tenant list \<Rightarrow> string \<Rightarrow> string" where
  "poolOf ts ns = poolRootOf (boundedIn (declaredByNS ts)) ns"

definition carved :: "Tenant list \<Rightarrow> string \<Rightarrow> (string \<times> ResourceList) list" where
  "carved ts rt = filter (\<lambda>nd. poolOf ts (parentNamespace (fst nd)) = rt) (declaredByNS ts)"

lemma fold_members:
  "fold (\<lambda>ns p. p\<lparr>poMembers := poMembers p @ [ns]\<rparr>) xs p = p\<lparr>poMembers := poMembers p @ xs\<rparr>"
  by (induction xs arbitrary: p) simp_all

lemma fold_carve:
  "fold (\<lambda>nd p. p\<lparr>poCarvedOut := qAdd q (poCarvedOut p) (snd nd)\<rparr>) xs p =
   p\<lparr>poCarvedOut := fold (\<lambda>d acc. qAdd q acc d) (map snd xs) (poCarvedOut p)\<rparr>"
  by (induction xs arbitrary: p) simp_all

lemma ComputePools_lookup:
  assumes "rt \<noteq> []"
  shows "map_of (ComputePools q ord ts) rt = map_option (\<lambda>d. finishPool q
     \<lparr>poRoot = rt, poBudget = d,
      poCarvedOut = fold (\<lambda>d acc. qAdd q acc d)
        (map snd (filter (\<lambda>nd. poolOf ts (parentNamespace (fst nd)) = rt) (ord (declaredByNS ts)))) Map.empty,
      poAvailable = Map.empty, poMembers = filter (\<lambda>ns. poolOf ts ns = rt) (sort (map tnNamespace ts))\<rparr>)
    (map_of (declaredByNS ts) rt)"
proof -
  let ?D = "declaredByNS ts"
  have m: "map_of (fold (addMember ?D) xs al) rt = map_option (fold
      (\<lambda>ns p. p\<lparr>poMembers := poMembers p @ [ns]\<rparr>) (filter (\<lambda>ns. poolOf ts ns = rt) xs)) (map_of al rt)" for xs al
    by (rule map_of_fold_entry [where key = "poolOf ts"]) (simp_all add: assms addMember_def poolOf_def)
  have c: "map_of (fold (carveOut q ?D) xs al) rt = map_option (fold
      (\<lambda>nd p. p\<lparr>poCarvedOut := qAdd q (poCarvedOut p) (snd nd)\<rparr>)
      (filter (\<lambda>nd. poolOf ts (parentNamespace (fst nd)) = rt) xs)) (map_of al rt)" for xs al
    by (rule map_of_fold_entry [where key = "\<lambda>nd. poolOf ts (parentNamespace (fst nd))"])
      (simp_all add: assms carveOut_def poolOf_def)
  show ?thesis
    unfolding ComputePools_def Let_def map_of_map_keyed c m fold_members fold_carve
    by (cases "map_of ?D rt") simp_all
qed

lemma pool_Some:
  assumes "quota_lib q" "range_order ord" "rt \<noteq> []" "map_of (ComputePools q ord ts) rt = Some p"
  shows "map_of (declaredByNS ts) rt = Some (poBudget p)"
    "poMembers p = filter (\<lambda>ns. poolOf ts ns = rt) (sort (map tnNamespace ts))"
    "amount (poCarvedOut p) r = sum_list (map (\<lambda>nd. amount (snd nd) r) (carved ts rt))"
    "poAvailable p r = (case poBudget p r of None \<Rightarrow> None
        | Some v \<Rightarrow> Some (max (v - amount (poCarvedOut p) r) 0))"
proof -
  let ?f = "filter (\<lambda>nd. poolOf ts (parentNamespace (fst nd)) = rt)"
  have q: "qAdd q = pointwise (+)" "qSubtractNonNeg q = pointwise (\<lambda>x y. max (x - y) 0)"
    "qMask q rl names = rl |` names" "qResourceNames q rl = dom rl" for rl names
    using assms(1) by (simp_all add: quota_lib_def)
  from assms(4) obtain d where d: "map_of (declaredByNS ts) rt = Some d" and
    p: "p = finishPool q \<lparr>poRoot = rt, poBudget = d,
      poCarvedOut = fold (\<lambda>d acc. pointwise (+) acc d) (map snd (?f (ord (declaredByNS ts)))) Map.empty,
      poAvailable = Map.empty, poMembers = filter (\<lambda>ns. poolOf ts ns = rt) (sort (map tnNamespace ts))\<rparr>"
    unfolding ComputePools_lookup [OF assms(3)] q(1) by auto
  show "map_of (declaredByNS ts) rt = Some (poBudget p)" using d p by (simp add: finishPool_def)
  show "poMembers p = filter (\<lambda>ns. poolOf ts ns = rt) (sort (map tnNamespace ts))"
    using p by (simp add: finishPool_def filter_sort sorted_sort_id)
  have "mset (?f (ord (declaredByNS ts))) = mset (carved ts rt)"
    using assms(2) by (simp add: range_order_def carved_def)
  then have "sum_mset (image_mset (\<lambda>nd. amount (snd nd) r) (mset (?f (ord (declaredByNS ts))))) =
      sum_mset (image_mset (\<lambda>nd. amount (snd nd) r) (mset (carved ts rt)))" by simp
  then show "amount (poCarvedOut p) r = sum_list (map (\<lambda>nd. amount (snd nd) r) (carved ts rt))"
    by (simp add: p finishPool_def amount_fold_add comp_def sum_mset_sum_list [symmetric])
  show "poAvailable p r = (case poBudget p r of None \<Rightarrow> None
        | Some v \<Rightarrow> Some (max (v - amount (poCarvedOut p) r) 0))"
    by (auto simp: p finishPool_def q pointwise_def restrict_map_def amount_def split: option.splits)
qed

subsection \<open>Budgets are conserved down the tree\<close>

definition budgetOf :: "Tenant list \<Rightarrow> string \<Rightarrow> ResourceList" where
  "budgetOf ts c = (case map_of (declaredByNS ts) c of None \<Rightarrow> Map.empty | Some d \<Rightarrow> d)"

text \<open>The pools in the sub-tree of a bounded tenant.\<close>

inductive_set subpools :: "Tenant list \<Rightarrow> string \<Rightarrow> string set" for ts rt where
  subpools_root: "boundedIn (declaredByNS ts) rt \<Longrightarrow> rt \<in> subpools ts rt"
| subpools_sub: "boundedIn (declaredByNS ts) c \<Longrightarrow> poolOf ts (parentNamespace c) \<in> subpools ts rt \<Longrightarrow>
    c \<in> subpools ts rt"

lemma subpools_bounded: "c \<in> subpools ts rt \<Longrightarrow> boundedIn (declaredByNS ts) c"
  by (erule subpools.cases) simp_all

lemma finite_subpools: "finite (subpools ts rt)"
proof (rule finite_subset)
  show "subpools ts rt \<subseteq> dom (map_of (declaredByNS ts))"
    using subpools_bounded by (auto simp: boundedIn_declared)
qed (rule finite_dom_map_of)

lemma bounded_not_Nil:
  "[] \<notin> tnNamespace ` set ts \<Longrightarrow> distinct (map tnNamespace ts) \<Longrightarrow> boundedIn (declaredByNS ts) c \<Longrightarrow> c \<noteq> []"
  by (auto simp: boundedIn_declared map_of_declaredByNS image_iff)

lemma subpools_depth:
  assumes "[] \<notin> tnNamespace ` set ts" "distinct (map tnNamespace ts)" "c \<in> subpools ts rt"
  shows "depth rt \<le> depth c"
  using assms(3)
proof induction
  case (subpools_sub c)
  have "c \<noteq> []" "poolOf ts (parentNamespace c) \<noteq> []"
    using bounded_not_Nil [OF assms(1,2)] subpools_sub(1) subpools_bounded [OF subpools_sub(2)] by auto
  with controller_tree.root_of_parent_rank [of c "boundedIn (declaredByNS ts)"] subpools_sub(3)
  show ?case by (simp add: poolOf_def)
qed simp

lemma subpools_children:
  assumes "[] \<notin> tnNamespace ` set ts" "distinct (map tnNamespace ts)"
  shows "{c. boundedIn (declaredByNS ts) c \<and> poolOf ts (parentNamespace c) \<in> subpools ts rt} =
    subpools ts rt - {rt}"
proof (intro subset_antisym subsetI)
  fix c assume "c \<in> {c. boundedIn (declaredByNS ts) c \<and> poolOf ts (parentNamespace c) \<in> subpools ts rt}"
  then have c: "boundedIn (declaredByNS ts) c" "poolOf ts (parentNamespace c) \<in> subpools ts rt" by auto
  have "c \<noteq> []" "poolOf ts (parentNamespace c) \<noteq> []"
    using bounded_not_Nil [OF assms] c(1) subpools_bounded [OF c(2)] by auto
  then have "depth (poolOf ts (parentNamespace c)) < depth c"
    using controller_tree.root_of_parent_rank [of c] by (simp add: poolOf_def)
  with subpools_depth [OF assms c(2)] have "c \<noteq> rt" by auto
  with subpools_sub [OF c] show "c \<in> subpools ts rt - {rt}" by simp
next
  fix c assume "c \<in> subpools ts rt - {rt}"
  then show "c \<in> {c. boundedIn (declaredByNS ts) c \<and> poolOf ts (parentNamespace c) \<in> subpools ts rt}"
    by (auto elim: subpools.cases)
qed

lemma sum_carved:
  "sum_list (map (\<lambda>nd. amount (snd nd) r) (carved ts rt)) =
   (\<Sum>c | boundedIn (declaredByNS ts) c \<and> poolOf ts (parentNamespace c) = rt. amount (budgetOf ts c) r)"
proof -
  let ?D = "declaredByNS ts" and ?P = "\<lambda>c. poolOf ts (parentNamespace c) = rt"
  have dk: "distinct (map fst (carved ts rt))" using declaredByNS_inv(1) [of ts]
    by (simp add: carved_def distinct_map_filter)
  then have "sum_list (map (\<lambda>nd. amount (snd nd) r) (carved ts rt)) =
      (\<Sum>nd \<in> set (carved ts rt). amount (snd nd) r)"
    by (simp add: distinct_map sum_list_distinct_conv_sum_set)
  also have "\<dots> = (\<Sum>c | boundedIn ?D c \<and> ?P c. amount (budgetOf ts c) r)"
  proof (rule sum.reindex_cong [of fst, symmetric])
    show "inj_on fst (set (carved ts rt))" using dk by (simp add: distinct_map)
    show "{c. boundedIn ?D c \<and> ?P c} = fst ` set (carved ts rt)"
      by (force simp: carved_def boundedIn_declared map_of_eq_None_iff)
    show "amount (budgetOf ts (fst nd)) r = amount (snd nd) r" if "nd \<in> set (carved ts rt)" for nd
      using that map_of_is_SomeI [OF declaredByNS_inv(1), of "fst nd" "snd nd" ts]
      by (simp add: carved_def budgetOf_def)
  qed
  finally show ?thesis .
qed

lemma telescope:
  fixes bud :: "'a \<Rightarrow> int"
  assumes "finite S" "rt \<in> S" "finite B" "{c \<in> B. up c \<in> S} = S - {rt}"
  shows "(\<Sum>c \<in> S. bud c - (\<Sum>x | x \<in> B \<and> up x = c. bud x)) = bud rt"
proof -
  have "(\<Sum>c \<in> S. \<Sum>x | x \<in> B \<and> up x = c. bud x) = (\<Sum>c \<in> S. \<Sum>x | x \<in> {c \<in> B. up c \<in> S} \<and> up x = c. bud x)"
    by (rule sum.cong) (auto intro: sum.cong)
  also have "\<dots> = (\<Sum>x \<in> {c \<in> B. up c \<in> S}. bud x)"
    using assms(1,3) by (intro sum.group) auto
  finally have "(\<Sum>c \<in> S. \<Sum>x | x \<in> B \<and> up x = c. bud x) = sum bud (S - {rt})" unfolding assms(4) .
  then show ?thesis using assms(1,2) by (simp add: sum_subtractf sum_diff1)
qed

definition poolAt :: "(string \<times> Pool) list \<Rightarrow> string \<Rightarrow> Pool" where
  "poolAt pools c = (case map_of pools c of Some p \<Rightarrow> p
     | None \<Rightarrow> \<lparr>poRoot = c, poBudget = Map.empty, poCarvedOut = Map.empty, poAvailable = Map.empty, poMembers = []\<rparr>)"

lemma poolAt_facts:
  assumes "quota_lib q" "range_order ord" "c \<noteq> []" "boundedIn (declaredByNS ts) c"
  defines "p \<equiv> poolAt (ComputePools q ord ts) c"
  shows "map_of (ComputePools q ord ts) c = Some p" "poBudget p = budgetOf ts c"
    "amount (poCarvedOut p) r = (\<Sum>x | boundedIn (declaredByNS ts) x \<and> poolOf ts (parentNamespace x) = c.
       amount (budgetOf ts x) r)"
    "poAvailable p r = (case budgetOf ts c r of None \<Rightarrow> None
        | Some v \<Rightarrow> Some (max (v - amount (poCarvedOut p) r) 0))"
proof -
  have "map_of (declaredByNS ts) c \<noteq> None" using assms(4) boundedIn_declared by blast
  then show m: "map_of (ComputePools q ord ts) c = Some p"
    by (auto simp: p_def poolAt_def ComputePools_lookup [OF assms(3)])
  note ps = pool_Some [OF assms(1-3) m]
  show b: "poBudget p = budgetOf ts c" using ps(1) by (simp add: budgetOf_def)
  show "amount (poCarvedOut p) r = (\<Sum>x | boundedIn (declaredByNS ts) x \<and> poolOf ts (parentNamespace x) = c.
       amount (budgetOf ts x) r)" using ps(3) [of r] sum_carved by simp
  show "poAvailable p r = (case budgetOf ts c r of None \<Rightarrow> None
        | Some v \<Rightarrow> Some (max (v - amount (poCarvedOut p) r) 0))" using ps(4) [of r] b by simp
qed

lemma Overcommitted_iff:
  "quota_lib q \<Longrightarrow> Overcommitted q p r = None \<longleftrightarrow>
     poBudget p r = None \<or> amount (poCarvedOut p) r \<le> amount (poBudget p) r"
  by (auto simp: Overcommitted_def Let_def quota_lib_def pointwise_def amount_def split: option.splits)

lemma Overcommitted_amount:
  assumes "quota_lib q" "poBudget p r \<noteq> None"
  shows "amount (Overcommitted q p) r = max (amount (poCarvedOut p) r - amount (poBudget p) r) 0"
  using assms by (auto simp: Overcommitted_def Let_def quota_lib_def pointwise_def amount_def split: option.splits)

text \<open>C7: what becomes of a declared quota in the sub-tree of a bounded tenant. What the pools of the sub-tree make
  available to their members adds up to the tenant's quota, plus what is overcommitted on pools of the sub-tree, plus what is
  carved out of pools that do not bound the resource, in whatever order the maps are visited. So it is exactly the quota
  when no pool there is overcommitted and every bounded tenant there bounds the resource.\<close>

theorem ComputePools_conserves:
  assumes "quota_lib q" "range_order ord" "distinct (map tnNamespace ts)" "[] \<notin> tnNamespace ` set ts"
    and "rt \<in> subpools ts rt"
  shows "(\<Sum>c \<in> subpools ts rt. amount (poAvailable (poolAt (ComputePools q ord ts) c)) r) =
    amount (budgetOf ts rt) r + (\<Sum>c \<in> subpools ts rt. amount (Overcommitted q (poolAt (ComputePools q ord ts) c)) r) +
    (\<Sum>c \<in> subpools ts rt. if budgetOf ts c r = None then amount (poCarvedOut (poolAt (ComputePools q ord ts) c)) r else 0)"
proof -
  let ?S = "subpools ts rt" and ?B = "{c. boundedIn (declaredByNS ts) c}"
  let ?up = "\<lambda>c. poolOf ts (parentNamespace c)" and ?bud = "\<lambda>c. amount (budgetOf ts c) r"
  let ?over = "\<lambda>c. amount (Overcommitted q (poolAt (ComputePools q ord ts) c)) r"
  let ?loose = "\<lambda>c. if budgetOf ts c r = None then amount (poCarvedOut (poolAt (ComputePools q ord ts) c)) r else 0"
  have "amount (poAvailable (poolAt (ComputePools q ord ts) c)) r = (?bud c - (\<Sum>x | x \<in> ?B \<and> ?up x = c. ?bud x)) + (?over c + ?loose c)"
    if c: "c \<in> ?S" for c
  proof -
    have ne: "c \<noteq> []" "boundedIn (declaredByNS ts) c"
      using bounded_not_Nil [OF assms(4,3)] subpools_bounded [OF c] by auto
    note f = poolAt_facts [OF assms(1,2) ne]
    show ?thesis
    proof (cases "budgetOf ts c r")
      case None
      then have "?over c = 0" using f(2) by (simp add: Overcommitted_def Let_def amount_def split: option.split)
      then show ?thesis using f(3) [of r] f(4) [of r] None by (simp add: amount_def)
    next
      case (Some v)
      then show ?thesis using f(2,3) f(4) [of r] Overcommitted_amount [OF assms(1), of "poolAt (ComputePools q ord ts) c" r]
        by (simp add: amount_def)
    qed
  qed
  then have "(\<Sum>c \<in> ?S. amount (poAvailable (poolAt (ComputePools q ord ts) c)) r) =
      (\<Sum>c \<in> ?S. ?bud c - (\<Sum>x | x \<in> ?B \<and> ?up x = c. ?bud x)) + (sum ?over ?S + sum ?loose ?S)"
    by (simp add: sum.distrib)
  moreover have "(\<Sum>c \<in> ?S. ?bud c - (\<Sum>x | x \<in> ?B \<and> ?up x = c. ?bud x)) = ?bud rt"
  proof (rule telescope [OF finite_subpools assms(5)])
    show "finite ?B" by (rule finite_subset [OF _ finite_dom_map_of]) (auto simp: boundedIn_declared)
    show "{c \<in> ?B. ?up c \<in> ?S} = ?S - {rt}" using subpools_children [OF assms(4,3), of rt] by simp
  qed
  ultimately show ?thesis by simp
qed

definition demoTree :: "Tenant list" where
  "demoTree = [\<lparr>tnNamespace = ''tenant-root'', tnDeclared = [''cpu'' \<mapsto> 10000]\<rparr>,
     \<lparr>tnNamespace = ''tenant-a'', tnDeclared = [''cpu'' \<mapsto> 4000]\<rparr>,
     \<lparr>tnNamespace = ''tenant-b'', tnDeclared = Map.empty\<rparr>]"

lemma demoTree_declared: "declaredByNS demoTree = [(''tenant-root'', [''cpu'' \<mapsto> 10000]), (''tenant-a'', [''cpu'' \<mapsto> 4000])]"
  by (simp add: declaredByNS_def demoTree_def addDeclared_def)

lemma demoTree_bounded: "boundedIn (declaredByNS demoTree) c \<longleftrightarrow> c = ''tenant-root'' \<or> c = ''tenant-a''"
  by (simp add: demoTree_declared boundedIn_def)

lemma demoTree_parent: "parentNamespace ''tenant-root'' = []" "parentNamespace ''tenant-a'' = ''tenant-root''"
 "parentNamespace ''tenant-b'' = ''tenant-root''"
  by code_simp+
lemma demoTree_poolOf: "poolOf demoTree ''tenant-root'' = ''tenant-root''"  "poolOf demoTree ''tenant-a'' = ''tenant-a''" "poolOf demoTree ''tenant-b'' = ''tenant-root''"
  "poolOf demoTree [] = []"
  by (simp_all add: poolOf_def poolRootOf.simps [of _ "''tenant-b''"] poolRootOf.simps [of _ "''tenant-root''"]
   poolRootOf.simps [of _ "''tenant-a''"] poolRootOf.simps [of _ "[]"] demoTree_bounded demoTree_parent)

lemma demoTree_ok: "distinct (map tnNamespace demoTree)" "[] \<notin> tnNamespace ` set demoTree"
  by (simp_all add: demoTree_def)

lemma demoTree_sub: "subpools demoTree ''tenant-root'' = {''tenant-root'', ''tenant-a''}"
proof -
  have r: "''tenant-root'' \<in> subpools demoTree ''tenant-root''"
    by (rule subpools_root) (simp add: demoTree_bounded)
  have "''tenant-a'' \<in> subpools demoTree ''tenant-root''"
    by (rule subpools_sub) (simp_all add: demoTree_bounded demoTree_parent demoTree_poolOf r)
  with r show ?thesis using subpools_bounded [of _ demoTree] demoTree_bounded by blast
qed

lemma demoTree_carved:
  "{x. boundedIn (declaredByNS demoTree) x \<and> poolOf demoTree (parentNamespace x) = ''tenant-root''} = {''tenant-a''}"
  "{x. boundedIn (declaredByNS demoTree) x \<and> poolOf demoTree (parentNamespace x) = ''tenant-a''} = {}"
  by (auto simp: demoTree_bounded demoTree_parent demoTree_poolOf)

lemma demoTree_budget: "budgetOf demoTree ''tenant-root'' = [''cpu'' \<mapsto> 10000]"
  "budgetOf demoTree ''tenant-a'' = [''cpu'' \<mapsto> 4000]"
  by (simp_all add: budgetOf_def demoTree_declared)

theorem ComputePools_conserves_witness:
  "(\<Sum>c \<in> {''tenant-root'', ''tenant-a''}.
      amount (poAvailable (poolAt (ComputePools k8sQuota rev demoTree) c)) ''cpu'') = 10000"
proof -
  have b: "boundedIn (declaredByNS demoTree) ''tenant-root''" "boundedIn (declaredByNS demoTree) ''tenant-a''"
    by (simp_all add: demoTree_bounded)
  note f = poolAt_facts [OF quota_lib_k8s range_order_rev, of _ demoTree]
  have over: "\<forall>c \<in> subpools demoTree ''tenant-root''. ''cpu'' \<in> dom (budgetOf demoTree c) \<and>
      Overcommitted k8sQuota (poolAt (ComputePools k8sQuota rev demoTree) c) ''cpu'' = None"
    unfolding demoTree_sub Overcommitted_iff [OF quota_lib_k8s]
    using f(2,3) [OF _ b(1)] f(2,3) [OF _ b(2)]
    by (simp add: demoTree_budget demoTree_carved amount_def)
  from ComputePools_conserves [OF quota_lib_k8s range_order_rev demoTree_ok, of "''tenant-root''" "''cpu''"] over show ?thesis
    by (auto simp: demoTree_sub demoTree_budget amount_def)
qed

text \<open>the structure of the pools. The pools are exactly the bounded tenants; every tenant
  namespace is a member, once, of the pool of its nearest bounded ancestor and of no other; a
  pool's carve-out is the sum of the budgets of the bounded tenants whose parent lies in the pool,
  and it makes available, for the resources it bounds and no others, its budget less the
  carve-out, never below zero.\<close>

theorem ComputePools_structure:
  assumes "quota_lib q" "range_order ord" "distinct (map tnNamespace ts)" "[] \<notin> tnNamespace ` set ts" "c \<noteq> []"
  shows "(map_of (ComputePools q ord ts) c \<noteq> None \<longleftrightarrow>
      (\<exists>t \<in> set ts. tnNamespace t = c \<and> tnDeclared t \<noteq> Map.empty)) \<and>
    (\<forall>p. map_of (ComputePools q ord ts) c = Some p \<longrightarrow>
      distinct (poMembers p) \<and> set (poMembers p) = {m \<in> tnNamespace ` set ts. poolOf ts m = c} \<and>
      poBudget p = budgetOf ts c \<and>
      (\<forall>r. amount (poCarvedOut p) r = (\<Sum>x | boundedIn (declaredByNS ts) x \<and>
          poolOf ts (parentNamespace x) = c. amount (budgetOf ts x) r) \<and>
        poAvailable p r = (case budgetOf ts c r of None \<Rightarrow> None
          | Some v \<Rightarrow> Some (max (v - amount (poCarvedOut p) r) 0))))"
proof (intro conjI allI impI)
  show "map_of (ComputePools q ord ts) c \<noteq> None \<longleftrightarrow> (\<exists>t \<in> set ts. tnNamespace t = c \<and> tnDeclared t \<noteq> Map.empty)"
    using map_of_declaredByNS [OF assms(3), of c] by (auto simp: ComputePools_lookup [OF assms(5)])
next
  fix p r assume p: "map_of (ComputePools q ord ts) c = Some p"
  note s = pool_Some [OF assms(1,2,5) p]
  show "distinct (poMembers p)" "set (poMembers p) = {m \<in> tnNamespace ` set ts. poolOf ts m = c}"
    using s(2) assms(3) by (auto simp: distinct_filter)
  show b: "poBudget p = budgetOf ts c" using s(1) by (simp add: budgetOf_def)
  show "amount (poCarvedOut p) r = (\<Sum>x | boundedIn (declaredByNS ts) x \<and>
          poolOf ts (parentNamespace x) = c. amount (budgetOf ts x) r)" using s(3) sum_carved by simp
  show "poAvailable p r = (case budgetOf ts c r of None \<Rightarrow> None
          | Some v \<Rightarrow> Some (max (v - amount (poCarvedOut p) r) 0))" using s(4) b by simp
qed

theorem ComputePools_structure_witness:
  "set (poMembers (poolAt (ComputePools k8sQuota rev demoTree) ''tenant-root'')) = {''tenant-root'', ''tenant-b''}"
proof -
  have b: "boundedIn (declaredByNS demoTree) ''tenant-root''" by (simp add: demoTree_bounded)
  have "map_of (ComputePools k8sQuota rev demoTree) ''tenant-root'' =
      Some (poolAt (ComputePools k8sQuota rev demoTree) ''tenant-root'')"
    using poolAt_facts(1) [OF quota_lib_k8s range_order_rev _ b] by simp
  with ComputePools_structure [OF quota_lib_k8s range_order_rev demoTree_ok, of "''tenant-root''"]
  have "set (poMembers (poolAt (ComputePools k8sQuota rev demoTree) ''tenant-root'')) =
      {m \<in> tnNamespace ` set demoTree. poolOf demoTree m = ''tenant-root''}" by blast
  also have "\<dots> = {''tenant-root'', ''tenant-b''}"
    by (auto simp: demoTree_def [THEN arg_cong, of set] demoTree_poolOf)
  finally show ?thesis .
qed

subsection \<open>What a member may use\<close>

definition usageOf :: "(string \<rightharpoonup> ResourceList) \<Rightarrow> string \<Rightarrow> string \<Rightarrow> int" where
  "usageOf usedByNS ns r = amount (case usedByNS ns of None \<Rightarrow> Map.empty | Some u \<Rightarrow> u) r"

lemma EnforcedHard_eq:
  assumes "quota_lib q"
  shows "EnforcedHard q p ns used r = (case poAvailable p r of None \<Rightarrow> None
    | Some a \<Rightarrow> Some (max (a - (\<Sum>m \<leftarrow> filter (\<lambda>m. m \<noteq> ns) (poMembers p). usageOf used m r)) 0))"
proof -
  have q: "qAdd q = pointwise (+)" "qSubtractNonNeg q = pointwise (\<lambda>x y. max (x - y) 0)"
    "qMask q rl names = rl |` names" "qResourceNames q rl = dom rl" for rl names
    using assms by (simp_all add: quota_lib_def)
  have "amount (fold (\<lambda>m acc. if m = ns then acc else pointwise (+) acc
      (case used m of None \<Rightarrow> Map.empty | Some u \<Rightarrow> u)) ms acc) r =
      amount acc r + (\<Sum>m \<leftarrow> filter (\<lambda>m. m \<noteq> ns) ms. usageOf used m r)" for ms acc
    by (induction ms arbitrary: acc) (simp_all add: usageOf_def)
  from this [of "poMembers p" Map.empty] show ?thesis
    unfolding EnforcedHard_def q Let_def
    by (cases "poAvailable p r") (simp_all add: pointwise_def restrict_map_def domIff amount_def [of "poAvailable p"])
qed

text \<open>C8: the clamp keeps a pool within its budget. A member's hard limit covers exactly the
  resources its pool makes available; a member that stays within its limit keeps the usage of
  the whole pool within what the pool makes available, whenever the others do; and when the others
  already exceed it, the limit is zero.\<close>

theorem EnforcedHard_pool_safe:
  assumes "quota_lib q" "distinct (poMembers p)" "ns \<in> set (poMembers p)"
  shows "dom (EnforcedHard q p ns used) = dom (poAvailable p) \<and>
    (\<forall>r a. poAvailable p r = Some a \<longrightarrow>
      (let others = (\<Sum>m \<in> set (poMembers p) - {ns}. usageOf used m r) in
       (others \<le> a \<and> usageOf used ns r \<le> amount (EnforcedHard q p ns used) r \<longrightarrow>
          (\<Sum>m \<in> set (poMembers p). usageOf used m r) \<le> a) \<and>
       (a \<le> others \<longrightarrow> EnforcedHard q p ns used r = Some 0)))"
proof -
  have s: "(\<Sum>m \<leftarrow> filter (\<lambda>m. m \<noteq> ns) (poMembers p). usageOf used m r) =
      (\<Sum>m \<in> set (poMembers p) - {ns}. usageOf used m r)" for r
    using assms(2) by (subst sum_list_distinct_conv_sum_set) (auto intro: sum.cong)
  have t: "(\<Sum>m \<in> set (poMembers p). usageOf used m r) =
      usageOf used ns r + (\<Sum>m \<in> set (poMembers p) - {ns}. usageOf used m r)" for r
    using assms(3) by (simp add: sum.remove)
  show ?thesis
    by (auto simp: EnforcedHard_eq [OF assms(1)] s t Let_def amount_def dom_def split: option.splits)
qed

definition demoPool :: Pool where
  "demoPool = \<lparr>poRoot = ''tenant-root'', poBudget = [''cpu'' \<mapsto> 10000], poCarvedOut = [''cpu'' \<mapsto> 4000],
     poAvailable = [''cpu'' \<mapsto> 6000], poMembers = [''tenant-b'', ''tenant-root'']\<rparr>"

theorem EnforcedHard_pool_safe_witness:
  "EnforcedHard k8sQuota demoPool ''tenant-b'' [''tenant-root'' \<mapsto> [''cpu'' \<mapsto> 7000]] ''cpu'' = Some 0"
proof -
  have "set (poMembers demoPool) - {''tenant-b''} = {''tenant-root''}" by (auto simp: demoPool_def)
  then show ?thesis
    using EnforcedHard_pool_safe [OF quota_lib_k8s, of demoPool "''tenant-b''" "[''tenant-root'' \<mapsto> [''cpu'' \<mapsto> 7000]]"]
    by (simp add: demoPool_def usageOf_def amount_def)
qed

text \<open>A tenant that declares a quota for one resource only leaves every other resource of its
  sub-tree without a limit, whatever its ancestors declare: its pool enforces no such resource.\<close>

lemma undeclared_resource_unenforced:
  assumes "quota_lib q" "range_order ord" "c \<noteq> []" "boundedIn (declaredByNS ts) c" "budgetOf ts c r = None"
  shows "EnforcedHard q (poolAt (ComputePools q ord ts) c) ns used r = None"
  using poolAt_facts(4) [OF assms(1-4), of r] assms(5) by (simp add: EnforcedHard_eq [OF assms(1)])

subsection \<open>The upgrade buffer\<close>

lemma wrap64_id: "minInt \<le> v \<Longrightarrow> v \<le> maxInt \<Longrightarrow> wrap64 v = v"
  by (simp add: wrap64_def minInt_def maxInt_def)

lemma wrap64_over:
  assumes "maxInt < x" "x \<le> 2 * maxInt"
  shows "wrap64 x = x - 2 ^ 64"
proof -
  have "(x + 2 ^ 63) mod 2 ^ 64 = (x + 2 ^ 63 - 2 ^ 64) mod 2 ^ 64" by (rule minus_mod_self2 [symmetric])
  also have "\<dots> = x + 2 ^ 63 - 2 ^ 64" using assms by (intro mod_pos_pos_trivial) (simp_all add: maxInt_def)
  finally show ?thesis by (simp add: wrap64_def)
qed

lemma truncDiv100_neg: "x \<le> - 100 \<Longrightarrow> truncDiv100 x < 0"
  by (simp add: truncDiv100_def sgn_if)

text \<open>the upgrade buffer scales exactly as long as the product of quantity and percentage fits
  an int64: the buffered list has the same resources, each scaled by the percentage and truncated to
  a milli-unit, so a percentage of at least 100 never lowers an amount. A larger product, up to
  almost the double, wraps around to a negative limit when there is a buffer to add.\<close>

theorem ScaleResourceList_scales:
  assumes "quota_lib q" "rl r = Some v" "0 \<le> v" "v \<le> maxInt" "100 \<le> percent"
  shows "dom (ScaleResourceList q rl percent) = dom rl \<and>
    (v * percent \<le> maxInt \<longrightarrow>
      ScaleResourceList q rl percent r = Some (v * percent div 100) \<and> v \<le> v * percent div 100) \<and>
    (100 < percent \<and> maxInt < v * percent \<and> v * percent \<le> 2 * maxInt - 100 \<longrightarrow>
      (\<exists>l. ScaleResourceList q rl percent r = Some l \<and> l < 0))"
proof (intro conjI impI)
  have "v * 100 \<le> v * percent" using assms(3,5) by (rule mult_left_mono [rotated])
  then show "v \<le> v * percent div 100" by linarith
  have m: "qMilliValue q v = v" using assms(1,3,4) by (simp add: quota_lib_def minInt_def)
  have nn: "0 \<le> v * percent" using assms(3,5) by simp
  show "dom (ScaleResourceList q rl percent) = dom rl" by (auto simp: ScaleResourceList_def)
  show "ScaleResourceList q rl percent r = Some (v * percent div 100)" if "v * percent \<le> maxInt"
  proof -
    have "wrap64 (v * percent) = v * percent" using that nn by (intro wrap64_id) (simp_all add: minInt_def)
    then show ?thesis using assms(2) m nn by (auto simp: ScaleResourceList_def truncDiv100_def sgn_if)
  qed
  show "\<exists>l. ScaleResourceList q rl percent r = Some l \<and> l < 0" if "100 < percent \<and> maxInt < v * percent \<and> v * percent \<le> 2 * maxInt - 100"
  proof -
    have w: "wrap64 (v * percent) = v * percent - 2 ^ 64" using wrap64_over [of "v * percent"] that by simp
    have "v * percent - 2 ^ 64 \<le> - 100" using that by (simp add: maxInt_def)
    then have "truncDiv100 (v * percent - 2 ^ 64) < 0" by (rule truncDiv100_neg)
    then show ?thesis using assms(2) m w that by (auto simp: ScaleResourceList_def)
  qed
qed

theorem ScaleResourceList_scales_witness:
  "ScaleResourceList k8sQuota [''cpu'' \<mapsto> 1500] 120 ''cpu'' = Some 1800 \<and>
   (\<exists>l. ScaleResourceList k8sQuota [''requests.storage'' \<mapsto> 100 * 2 ^ 40 * 1000] 120 ''requests.storage'' = Some l \<and> l < 0)"
  using ScaleResourceList_scales [OF quota_lib_k8s, of "[''cpu'' \<mapsto> 1500]" "''cpu''" 1500 120]
    ScaleResourceList_scales [OF quota_lib_k8s, of "[''requests.storage'' \<mapsto> 100 * 2 ^ 40 * 1000]" "''requests.storage''"
      "100 * 2 ^ 40 * 1000" 120]
  by (simp add: maxInt_def)

subsection \<open>The sweep\<close>

definition memberHard :: "quotaLib \<Rightarrow> int \<Rightarrow> (string \<rightharpoonup> ResourceList) \<Rightarrow> Pool \<Rightarrow> string \<Rightarrow> ResourceList" where
  "memberHard q buffer used p ns =
     EnforcedHard q (p\<lparr>poBudget := Map.empty, poCarvedOut := Map.empty,
       poAvailable := ScaleResourceList q (poAvailable p) (bufferPercent buffer)\<rparr>) ns used"

lemma map_of_desiredOfPool:
  "map_of (desiredOfPool q buffer used existing p d) ns =
     (if poolNeedsClamp p \<and> ns \<in> set (poMembers p) \<and> ns \<in> set existing
      then Some (memberHard q buffer used p ns) else map_of d ns)"
proof -
  have "map_of (fold (\<lambda>ns d. if ns \<in> set existing then AList.update ns (h ns) d else d) ms d) ns =
      (if ns \<in> set ms \<and> ns \<in> set existing then Some (h ns) else map_of d ns)" for ms and h :: "string \<Rightarrow> ResourceList"
    by (induction ms arbitrary: d) (auto simp: update_conv')
  then show ?thesis by (simp add: desiredOfPool_def memberHard_def Let_def)
qed

lemma map_of_desired:
  assumes "\<forall>(k, p) \<in> set ps. poolNeedsClamp p \<and> ns \<in> set (poMembers p) \<longrightarrow> memberHard q buffer used p ns = h"
  shows "map_of (fold (\<lambda>(_, p). desiredOfPool q buffer used existing p) ps d) ns =
    (if ns \<in> set existing \<and> (\<exists>(k, p) \<in> set ps. poolNeedsClamp p \<and> ns \<in> set (poMembers p))
     then Some h else map_of d ns)"
  using assms by (induction ps arbitrary: d) (auto simp: map_of_desiredOfPool split: if_splits)

lemma distinct_desired:
  "distinct (map fst d) \<Longrightarrow>
   distinct (map fst (fold (\<lambda>(_, p). desiredOfPool q buffer used existing p) ps d))"
proof (induction ps arbitrary: d)
  case (Cons kp ps)
  have "distinct (map fst (fold (\<lambda>ns d. if ns \<in> set existing then AList.update ns (h ns) d else d) ms d))"
    if "distinct (map fst d)" for ms d and h :: "string \<Rightarrow> ResourceList"
    using that by (induction ms arbitrary: d) (auto simp: distinct_update)
  with Cons show ?case by (auto simp: desiredOfPool_def Let_def split: prod.splits)
qed simp

lemma ComputePools_keys: "map fst (ComputePools q ord ts) = map fst (declaredByNS ts)"
proof -
  let ?D = "declaredByNS ts"
  have "map fst (fold (addMember ?D) xs al) = map fst al" for xs al
    by (rule keys_fold_entry [where key = "poolOf ts" and f = "\<lambda>ns p. p\<lparr>poMembers := poMembers p @ [ns]\<rparr>"])
      (simp add: addMember_def poolOf_def)
  moreover have "map fst (fold (carveOut q ?D) xs al) = map fst al" for xs al
    by (rule keys_fold_entry [where key = "\<lambda>nd. poolOf ts (parentNamespace (fst nd))"
          and f = "\<lambda>nd p. p\<lparr>poCarvedOut := qAdd q (poCarvedOut p) (snd nd)\<rparr>"])
      (simp add: carveOut_def poolOf_def)
  ultimately show ?thesis
    by (simp add: ComputePools_def Let_def map_fst_map_keyed del: map_map)
qed

lemma pool_key_not_Nil:
  assumes "distinct (map tnNamespace ts)" "[] \<notin> tnNamespace ` set ts" "(c, p) \<in> set (ComputePools q ord ts)"
  shows "c \<noteq> []"
proof -
  have "c \<in> set (map fst (declaredByNS ts))"
    using assms(3) unfolding ComputePools_keys [of q ord, symmetric] by force
  then obtain d where "map_of (declaredByNS ts) c = Some d" by (metis map_of_eq_None_iff not_None_eq set_map)
  then obtain t where "t \<in> set ts" "tnNamespace t = c" using map_of_declaredByNS [OF assms(1)] by blast
  with assms(2) show ?thesis by (metis image_eqI)
qed

lemma pool_entry:
  assumes "quota_lib q" "range_order ord" "distinct (map tnNamespace ts)" "[] \<notin> tnNamespace ` set ts"
    and "(c, p) \<in> set (ComputePools q ord ts)"
  shows "p = poolAt (ComputePools q ord ts) c" "ns \<in> set (poMembers p) \<longleftrightarrow> ns \<in> tnNamespace ` set ts \<and> poolOf ts ns = c"
proof -
  have "distinct (map fst (ComputePools q ord ts))"
    unfolding ComputePools_keys by (rule declaredByNS_inv)
  then have m: "map_of (ComputePools q ord ts) c = Some p" using assms(5) by (rule map_of_is_SomeI)
  then show "p = poolAt (ComputePools q ord ts) c" by (simp add: poolAt_def)
  from pool_Some(2) [OF assms(1,2) pool_key_not_Nil [OF assms(3-5)] m] show
    "ns \<in> set (poMembers p) \<longleftrightarrow> ns \<in> tnNamespace ` set ts \<and> poolOf ts ns = c" by auto
qed

lemma gc_exact:
  "\<forall>m \<in> set ms. \<not> swDeleteErr c m \<Longrightarrow>
   gcAllocatedQuotas c desired ms = filter (\<lambda>m. map_of desired m = None) ms"
  by (induction ms) auto

lemma desired_lookup:
  assumes "quota_lib q" "range_order ord" "distinct (map tnNamespace ts)" "[] \<notin> tnNamespace ` set ts"
    and st: "set ps = set (ComputePools q ord ts)"
  defines "pool \<equiv> \<lambda>ns. poolAt (ComputePools q ord ts) (poolOf ts ns)"
  shows "map_of (fold (\<lambda>(_, p). desiredOfPool q buffer used existing p) ps []) ns =
    (if ns \<in> set existing \<and> ns \<in> tnNamespace ` set ts \<and> poolOf ts ns \<noteq> [] \<and> poolNeedsClamp (pool ns)
     then Some (memberHard q buffer used (pool ns) ns) else None)"
proof -
  have one: "\<forall>(k, p) \<in> set ps. poolNeedsClamp p \<and> ns \<in> set (poMembers p) \<longrightarrow>
      memberHard q buffer used p ns = memberHard q buffer used (pool ns) ns" 
  proof (intro ballI case_prodI2 impI)
    fix kp k p assume "kp \<in> set ps" "kp = (k, p)" and n: "poolNeedsClamp p \<and> ns \<in> set (poMembers p)"
    then have kp: "(k, p) \<in> set (ComputePools q ord ts)" using st by simp
    from pool_entry(2) [OF assms(1-4) kp, of ns] n have "poolOf ts ns = k" by simp
    then show "memberHard q buffer used p ns = memberHard q buffer used (pool ns) ns"
      using pool_entry(1) [OF assms(1-4) kp] by (simp add: pool_def)
  qed
  have ex: "(\<exists>(k, p) \<in> set ps. poolNeedsClamp p \<and> ns \<in> set (poMembers p)) \<longleftrightarrow>
      ns \<in> tnNamespace ` set ts \<and> poolOf ts ns \<noteq> [] \<and> poolNeedsClamp (pool ns)" (is "?L \<longleftrightarrow> ?R") for ns
  proof
    assume ?L
    then obtain k p where kp: "(k, p) \<in> set (ComputePools q ord ts)" "poolNeedsClamp p" "ns \<in> set (poMembers p)"
      unfolding st by blast
    note e = pool_entry [OF assms(1-4) kp(1)]
    with kp(2,3) pool_key_not_Nil [OF assms(3,4) kp(1)] show ?R by (simp add: pool_def)
  next
    assume R: ?R
    have "boundedIn (declaredByNS ts) (poolOf ts ns)"
      using R controller_tree.root_of_bounded unfolding poolOf_def by blast
    from map_of_SomeD [OF poolAt_facts(1) [OF assms(1,2) _ this]] R
    have m: "(poolOf ts ns, pool ns) \<in> set (ComputePools q ord ts)" by (simp add: pool_def)
    with R pool_entry(2) [OF assms(1-4) m, of ns] show ?L unfolding st by blast
  qed
  show ?thesis unfolding map_of_desired [OF one] ex by simp
qed

text \<open>C9: one sweep writes exactly the clamps that are needed. It upserts an allocated quota for a
  namespace if and only if the namespace exists, is a tenant's, and its pool has a carve-out or
  other members, and the quota is the namespace's share of the buffered pool, whatever the order
  in which pools are visited; and it deletes exactly the controller-owned quotas of the other
  namespaces when no deletion fails.\<close>

theorem TenantQuotaReconcile_exact:
  assumes "quota_lib q" "range_order ord" "range_order ordP" "snapshot c = Inr (ts, used, existing)"
    and "distinct (map tnNamespace ts)" "[] \<notin> tnNamespace ` set ts"
    and "TenantQuotaReconcile q ord ordP buffer c = Inr res"
  defines "pool \<equiv> \<lambda>ns. poolAt (ComputePools q ord ts) (poolOf ts ns)"
  shows "(\<forall>ns hard. (ns, hard) \<in> set (srUpserts res) \<longleftrightarrow>
      ns \<in> set existing \<and> ns \<in> tnNamespace ` set ts \<and> poolOf ts ns \<noteq> [] \<and> poolNeedsClamp (pool ns) \<and>
      hard = memberHard q buffer used (pool ns) ns) \<and>
    (\<forall>ms. swManaged c = Inr ms \<and> (\<forall>m \<in> set ms. \<not> swDeleteErr c m) \<longrightarrow>
      srDeletes res = filter (\<lambda>m. m \<notin> fst ` set (srUpserts res)) ms)"
proof -
  let ?ps = "ordP (ComputePools q ord ts)"
  let ?d = "fold (\<lambda>(_, p). desiredOfPool q buffer used existing p) ?ps []"
  have st: "set ?ps = set (ComputePools q ord ts)" using range_order_set [OF assms(3)] by blast
  have r: "srUpserts res = ord ?d"
    "\<And>ms. swManaged c = Inr ms \<Longrightarrow> srDeletes res = gcAllocatedQuotas c ?d ms"
    using assms(4,7) by (auto simp: TenantQuotaReconcile_def Let_def)
  have dd: "distinct (map fst ?d)" by (rule distinct_desired) simp
  have su: "set (srUpserts res) = set ?d" using r(1) range_order_set [OF assms(2)] by simp
  note lk = desired_lookup [OF assms(1,2,5,6) st, of buffer used existing]
  show ?thesis
  proof (intro conjI allI impI)
    fix ns hard
    show "(ns, hard) \<in> set (srUpserts res) \<longleftrightarrow>
      ns \<in> set existing \<and> ns \<in> tnNamespace ` set ts \<and> poolOf ts ns \<noteq> [] \<and> poolNeedsClamp (pool ns) \<and>
      hard = memberHard q buffer used (pool ns) ns"
      unfolding su map_of_eq_Some_iff [OF dd, symmetric] lk pool_def by auto
  next
    fix ms assume "swManaged c = Inr ms \<and> (\<forall>m \<in> set ms. \<not> swDeleteErr c m)"
    then show "srDeletes res = filter (\<lambda>m. m \<notin> fst ` set (srUpserts res)) ms"
      using r(2) gc_exact [of ms c ?d] unfolding su by (simp add: map_of_eq_None_iff)
  qed
qed

definition demoSweep :: sweepClient where
  "demoSweep = \<lparr>swReleases = Inr [(''tenant-root'', ''tenant-root''), (''tenant-root'', ''tenant-a''), (''tenant-root'', ''tenant-b'')],
     swQuotas = Inr [\<lparr>rqName = chartQuotaName, rqNamespace = ''tenant-root'', rqHard = [''cpu'' \<mapsto> 10000], rqUsed = Map.empty\<rparr>,
       \<lparr>rqName = chartQuotaName, rqNamespace = ''tenant-a'', rqHard = [''cpu'' \<mapsto> 4000], rqUsed = Map.empty\<rparr>],
     swNamespaces = Inr [''tenant-root'', ''tenant-a'', ''tenant-b''], swManaged = Inr [''tenant-a''],
     swDeleteErr = (\<lambda>_. False)\<rparr>"

theorem TenantQuotaReconcile_exact_witness:
  "\<exists>res. TenantQuotaReconcile k8sQuota rev rev 0 demoSweep = Inr res \<and>
     ''tenant-b'' \<in> fst ` set (srUpserts res) \<and> srDeletes res = filter (\<lambda>m. m \<notin> fst ` set (srUpserts res)) [''tenant-a'']"
proof -
  obtain used where s: "snapshot demoSweep = Inr (demoTree, used, [''tenant-root'', ''tenant-a'', ''tenant-b''])"
    by (simp add: snapshot_def demoSweep_def usedAndDeclared_def demoTree_def ownedNamespace_def Let_def
        rootTenantNamespace_def tenantNamespacePrefix_def trimPrefix_def)
  obtain res where r: "TenantQuotaReconcile k8sQuota rev rev 0 demoSweep = Inr res"
    by (simp add: TenantQuotaReconcile_def s Let_def)
  let ?p = "poolAt (ComputePools k8sQuota rev demoTree) ''tenant-root''"
  have b: "boundedIn (declaredByNS demoTree) ''tenant-root''" by (simp add: demoTree_bounded)
  have "poMembers ?p = filter (\<lambda>ns. poolOf demoTree ns = ''tenant-root'') (sort (map tnNamespace demoTree))"
    using pool_Some(2) [OF quota_lib_k8s range_order_rev _ poolAt_facts(1) [OF quota_lib_k8s range_order_rev _ b]] by simp
  also have "\<dots> = [''tenant-b'', ''tenant-root'']"
    by (simp add: demoTree_def [THEN arg_cong, of "map tnNamespace"] demoTree_poolOf)
  finally have n: "poolNeedsClamp ?p" by (simp add: poolNeedsClamp_def)
  have t: "''tenant-b'' \<in> tnNamespace ` set demoTree" by (simp add: demoTree_def)
  note x = TenantQuotaReconcile_exact [OF quota_lib_k8s range_order_rev range_order_rev s demoTree_ok r]
  have "(''tenant-b'', memberHard k8sQuota 0 used ?p ''tenant-b'') \<in> set (srUpserts res)"
    using x [THEN conjunct1, rule_format, of "''tenant-b''"] n t by (simp add: demoTree_poolOf)
  then have "''tenant-b'' \<in> fst ` set (srUpserts res)" by force
  moreover have "srDeletes res = filter (\<lambda>m. m \<notin> fst ` set (srUpserts res)) [''tenant-a'']"
    by (rule x [THEN conjunct2, rule_format]) (simp add: demoSweep_def)
  ultimately show ?thesis using r by blast
qed

end
