(* ===== verification/Quota_Admission.thy ===== *)
theory Quota_Admission
  imports Tenant_Pools
begin

text \<open>
  The declaration-time quota gate of the aggregated API server
  (\<open>pkg/registry/apps/application/quota.go\<close>) and the rule for tenant names
  (\<open>pkg/apis/apps/validation/validation.go\<close>). The decoding of a values blob into quantities
  (JSON and \<open>resource.Quantity\<close>) is the argument \<open>dec\<close>, the DNS-1035 check of the Kubernetes
  library the argument \<open>isDNS1035\<close>, and the client a record of results. Declared quotas are
  association lists in milli-units, sums of them are maps.
\<close>

subsection \<open>Tenant names\<close>

definition TenantKindName :: string where "TenantKindName = ''Tenant''"

datatype name_error = NameRequired | TenantNameInvalid string | DNSInvalid string string

definition isLowerLetter :: "char \<Rightarrow> bool" where
  "isLowerLetter c \<longleftrightarrow> isLowerAscii c"

definition isDigitChar :: "char \<Rightarrow> bool" where
  "isDigitChar c \<longleftrightarrow> CHR ''0'' \<le> c \<and> c \<le> CHR ''9''"

text \<open>The regular expression \<open>^[a-z][a-z0-9]*$\<close>.\<close>

fun tenantNameRegex :: "string \<Rightarrow> bool" where
  "tenantNameRegex [] = False"
| "tenantNameRegex (c # cs) \<longleftrightarrow> isLowerLetter c \<and> list_all (\<lambda>d. isLowerLetter d \<or> isDigitChar d) cs"

definition ValidateApplicationName ::
    "(string \<Rightarrow> string list) \<Rightarrow> string \<Rightarrow> string \<Rightarrow> name_error list" where
  "ValidateApplicationName isDNS1035 name kindName =
     (if name = [] then [NameRequired]
      else if kindName = TenantKindName \<and> \<not> tenantNameRegex name then [TenantNameInvalid name]
      else map (DNSInvalid name) (isDNS1035 name))"

lemma ValidateApplicationName_tenant:
  "ValidateApplicationName dns n TenantKindName = [] \<Longrightarrow> tenantName n"
proof -
  assume "ValidateApplicationName dns n TenantKindName = []"
  then have "n \<noteq> []" "tenantNameRegex n" by (auto simp: ValidateApplicationName_def split: if_splits)
  moreover have "\<not> isLowerLetter CHR ''-''" "\<not> isDigitChar CHR ''-''" by code_simp+
  ultimately show ?thesis by (cases n) (auto simp: tenantName_def list_all_iff)
qed

subsection \<open>Reading declared quotas\<close>

type_synonym quotas = "(string \<times> int) list"

record TenantRelease =
  hrName :: string
  hrNamespace :: string
  hrValues :: "string option"

datatype lookup_result = HRFound TenantRelease | HRNotFound | HRError string

record admissionClient =
  acGet :: "string \<Rightarrow> string \<Rightarrow> lookup_result" \<comment> \<open>namespace, name\<close>
  acListIn :: "string \<Rightarrow> string + TenantRelease list" \<comment> \<open>tenant releases of a namespace\<close>
  acListAll :: "string + TenantRelease list" \<comment> \<open>tenant releases of the cluster\<close>
  acQuotas :: "string \<Rightarrow> string + ResourceQuota list" \<comment> \<open>ResourceQuotas of a namespace\<close>

definition parseDeclaredQuotas :: "(string \<Rightarrow> string + quotas) \<Rightarrow> string \<Rightarrow> string + quotas" where
  "parseDeclaredQuotas dec raw = (if raw = [] then Inr [] else dec raw)"

definition declaredQuotasFromHelmRelease ::
    "(string \<Rightarrow> string + quotas) \<Rightarrow> TenantRelease \<Rightarrow> string + quotas" where
  "declaredQuotasFromHelmRelease dec hr =
     (case hrValues hr of None \<Rightarrow> Inr [] | Some raw \<Rightarrow> parseDeclaredQuotas dec raw)"

definition parentTenantDeclaredQuotas ::
    "admissionClient \<Rightarrow> (string \<Rightarrow> string + quotas) \<Rightarrow> string \<Rightarrow> string \<Rightarrow> string + quotas" where
  "parentTenantDeclaredQuotas c dec pfx childNamespace =
     (case parentTenantHelmReleaseRef childNamespace pfx of
        None \<Rightarrow> Inr []
      | Some (nm, ns) \<Rightarrow>
          (case acGet c ns nm of
             HRNotFound \<Rightarrow> Inr []
           | HRError e \<Rightarrow> Inl e
           | HRFound hr \<Rightarrow> declaredQuotasFromHelmRelease dec hr))"

definition addQuotas :: "ResourceList \<Rightarrow> quotas \<Rightarrow> ResourceList" where
  "addQuotas dst src =
     fold (\<lambda>(k, v) d. d(k \<mapsto> (case d k of Some cur \<Rightarrow> cur + v | None \<Rightarrow> v))) src dst"

definition siblingDeclaredQuotas ::
    "admissionClient \<Rightarrow> (string \<Rightarrow> string + quotas) \<Rightarrow> string \<Rightarrow> string \<Rightarrow> string \<Rightarrow> string + ResourceList" where
  "siblingDeclaredQuotas c dec pfx namespace excludeName =
     (case acListIn c namespace of
        Inl e \<Rightarrow> Inl e
      | Inr items \<Rightarrow>
          Inr (fold (\<lambda>hr sum. if trimPrefix (hrName hr) pfx = excludeName then sum
                else case declaredQuotasFromHelmRelease dec hr of
                       Inl e \<Rightarrow> sum
                     | Inr q \<Rightarrow> addQuotas sum q) items Map.empty))"

subsection \<open>The usage of the parent's pool\<close>

definition rawQuotaKeys :: "string list" where
  "rawQuotaKeys = [''pods'', ''services'', ''services.loadbalancers'', ''services.nodeports'',
     ''services.clusterip'', ''configmaps'', ''secrets'', ''persistentvolumeclaims'',
     ''replicationcontrollers'', ''resourcequotas'']"

definition renderedLimitKey :: "string \<Rightarrow> string" where
  "renderedLimitKey raw =
     (if raw = ''storage'' then ''requests.storage''
      else if raw \<in> set rawQuotaKeys then raw
      else ''limits.'' @ raw)"

definition maxQuotas :: "ResourceList \<Rightarrow> ResourceList \<Rightarrow> ResourceList" where
  "maxQuotas dst src k =
     (case src k of
        None \<Rightarrow> dst k
      | Some v \<Rightarrow> (case dst k of
                     None \<Rightarrow> Some v
                   | Some cur \<Rightarrow> if v > cur then Some v else Some cur))"

definition releaseNamespace :: "string \<Rightarrow> TenantRelease \<Rightarrow> string" where
  "releaseNamespace pfx hr = computeTenantNamespace pfx (hrNamespace hr) (trimPrefix (hrName hr) pfx)"

definition boundedReleases :: "(string \<Rightarrow> string + quotas) \<Rightarrow> string \<Rightarrow> TenantRelease list \<Rightarrow> string \<Rightarrow> bool" where
  "boundedReleases dec pfx releases ns \<longleftrightarrow>
     (\<exists>hr \<in> set releases. releaseNamespace pfx hr = ns \<and>
        (case declaredQuotasFromHelmRelease dec hr of Inl e \<Rightarrow> False | Inr q \<Rightarrow> q \<noteq> []))"

definition poolMembers ::
    "(string \<Rightarrow> string + quotas) \<Rightarrow> string \<Rightarrow> TenantRelease list \<Rightarrow> string \<Rightarrow> string \<Rightarrow> string list" where
  "poolMembers dec pfx releases parentNS excludeNS =
     (let owned = map (releaseNamespace pfx) releases;
          members = parentNS # filter (\<lambda>ns. ns \<noteq> excludeNS \<and>
            restPoolRootOf pfx (boundedReleases dec pfx releases) ns = parentNS) owned
      in filter (\<lambda>ns. ns \<noteq> excludeNS) (remdups members))"

text \<open>The reads of the member namespaces, in the order of the \<open>range\<close>; adding a namespace's usage
  is \<open>addQuotas\<close> on maps.\<close>

fun sumUsage ::
    "admissionClient \<Rightarrow> string list \<Rightarrow> ResourceList \<Rightarrow> string + ResourceList" where
  "sumUsage c [] acc = Inr acc"
| "sumUsage c (ns # nss) acc =
     (case acQuotas c ns of
        Inl e \<Rightarrow> Inl e
      | Inr qs \<Rightarrow>
          sumUsage c nss (pointwise (+) acc (fold (\<lambda>rq used. maxQuotas used (rqUsed rq)) qs Map.empty)))"

definition parentPoolUsage ::
    "(string list \<Rightarrow> string list) \<Rightarrow> admissionClient \<Rightarrow> (string \<Rightarrow> string + quotas) \<Rightarrow> string \<Rightarrow>
     string \<Rightarrow> string \<Rightarrow> string + ResourceList" where
  "parentPoolUsage ord c dec pfx parentNS excludeNS =
     (case acListAll c of
        Inl e \<Rightarrow> Inl e
      | Inr releases \<Rightarrow> sumUsage c (ord (poolMembers dec pfx releases parentNS excludeNS)) Map.empty)"

subsection \<open>The gate\<close>

datatype quota_error =
  InvalidQuotas string
| InternalQuotaError string
| ForbiddenQuota string int int \<comment> \<open>resource, requested, remaining\<close>

record tenantApp =
  taName :: string
  taNamespace :: string
  taSpec :: "string option"

definition sortedQuotaKeys :: "quotas \<Rightarrow> string list" where
  "sortedQuotaKeys q = sort (map fst q)"

definition checkResource ::
    "quotas \<Rightarrow> quotas \<Rightarrow> ResourceList \<Rightarrow> ResourceList \<Rightarrow> string \<Rightarrow> quota_error list" where
  "checkResource childQuota parentQuota siblings poolUsed res =
     (case map_of childQuota res of
        None \<Rightarrow> []
      | Some want \<Rightarrow>
          (let remaining = amount (map_of parentQuota) res - amount siblings res
                 - amount poolUsed (renderedLimitKey res)
           in if want > remaining then [ForbiddenQuota res want remaining] else []))"

definition validateTenantResourceQuotas ::
    "(string list \<Rightarrow> string list) \<Rightarrow> admissionClient \<Rightarrow> (string \<Rightarrow> string + quotas) \<Rightarrow> string \<Rightarrow> string \<Rightarrow>
     tenantApp \<Rightarrow> quota_error list" where
  "validateTenantResourceQuotas ord c dec pfx kindName app =
     (if kindName \<noteq> TenantKindName then []
      else
        case parseDeclaredQuotas dec (case taSpec app of None \<Rightarrow> [] | Some raw \<Rightarrow> raw) of
          Inl e \<Rightarrow> [InvalidQuotas e]
        | Inr childQuota \<Rightarrow>
            if childQuota = [] then []
            else
              (case parentTenantDeclaredQuotas c dec pfx (taNamespace app) of
                 Inl e \<Rightarrow> [InternalQuotaError e]
               | Inr parentQuota \<Rightarrow>
                   if parentQuota = [] then []
                   else
                     (case siblingDeclaredQuotas c dec pfx (taNamespace app) (taName app) of
                        Inl e \<Rightarrow> [InternalQuotaError e]
                      | Inr siblings \<Rightarrow>
                          (case parentPoolUsage ord c dec pfx (taNamespace app)
                                  (computeTenantNamespace pfx (taNamespace app) (taName app)) of
                             Inl e \<Rightarrow> [InternalQuotaError e]
                           | Inr poolUsed \<Rightarrow>
                               concat (map (checkResource childQuota parentQuota siblings poolUsed)
                                 (sortedQuotaKeys parentQuota))))))"

subsection \<open>Sums\<close>

lemma amount_addQuotas: "amount (addQuotas dst src) r = amount dst r + (\<Sum>(k, v) \<leftarrow> src. if k = r then v else 0)"
  unfolding addQuotas_def
  by (induction src arbitrary: dst) (auto simp: amount_def split: option.splits)

lemma distinct_quota_sum:
  "distinct (map fst q) \<Longrightarrow> (\<Sum>(k, v) \<leftarrow> q. if k = r then v else 0) = amount (map_of q) r"
proof (induction q)
  case (Cons kv q)
  have "fst kv = r \<Longrightarrow> map_of q r = None" using Cons.prems by (auto simp: map_of_eq_None_iff)
  with Cons show ?case by (auto simp: amount_def split: prod.splits)
qed simp

text \<open>What one release charges against its parent; an unreadable release charges nothing.\<close>

definition charge :: "(string \<Rightarrow> string + quotas) \<Rightarrow> string \<Rightarrow> TenantRelease \<Rightarrow> int" where
  "charge dec r hr = (case declaredQuotasFromHelmRelease dec hr of
     Inl e \<Rightarrow> 0 | Inr q \<Rightarrow> (\<Sum>(k, v) \<leftarrow> q. if k = r then v else 0))"

lemma siblingDeclaredQuotas_sum:
  assumes "acListIn c ns = Inr items" "siblingDeclaredQuotas c dec pfx ns ex = Inr sib"
  shows "amount sib r = (\<Sum>hr \<leftarrow> filter (\<lambda>hr. trimPrefix (hrName hr) pfx \<noteq> ex) items. charge dec r hr)"
proof -
  have "amount (fold (\<lambda>hr sum. if trimPrefix (hrName hr) pfx = ex then sum
      else case declaredQuotasFromHelmRelease dec hr of Inl e \<Rightarrow> sum | Inr q \<Rightarrow> addQuotas sum q) items s) r =
    amount s r + (\<Sum>hr \<leftarrow> filter (\<lambda>hr. trimPrefix (hrName hr) pfx \<noteq> ex) items. charge dec r hr)" for s
    by (induction items arbitrary: s) (auto simp: charge_def amount_addQuotas split: sum.splits)
  from this [of Map.empty] show ?thesis using assms by (simp add: siblingDeclaredQuotas_def)
qed

lemma maxQuotas_eq: "maxQuotas = maxResourceList"
  by (intro ext) (simp add: maxQuotas_def maxResourceList_def)

definition namespaceUsage :: "ResourceQuota list \<Rightarrow> ResourceList" where
  "namespaceUsage qs = fold (\<lambda>rq used. maxQuotas used (rqUsed rq)) qs Map.empty"

lemma sumUsage_amount:
  "sumUsage c nss t = Inr u \<Longrightarrow>
   (\<forall>ns \<in> set nss. \<exists>qs. acQuotas c ns = Inr qs) \<and>
   amount u r = amount t r + (\<Sum>ns \<leftarrow> nss. case acQuotas c ns of Inl _ \<Rightarrow> 0 | Inr qs \<Rightarrow> amount (namespaceUsage qs) r)"
  by (induction nss arbitrary: t) (auto simp: namespaceUsage_def split: sum.splits)

lemma parentPoolUsage_amount:
  assumes "range_order ord" "acListAll c = Inr rels" "parentPoolUsage ord c dec pfx ns ex = Inr u"
  shows "amount u r = (\<Sum>m \<in> set (poolMembers dec pfx rels ns ex).
    case acQuotas c m of Inl _ \<Rightarrow> 0 | Inr qs \<Rightarrow> amount (namespaceUsage qs) r)"
proof -
  let ?ms = "poolMembers dec pfx rels ns ex"
  have "sumUsage c (ord ?ms) Map.empty = Inr u" using assms(2,3) by (simp add: parentPoolUsage_def)
  from sumUsage_amount [OF this, of r] have "amount u r = (\<Sum>m \<leftarrow> ord ?ms.
      case acQuotas c m of Inl _ \<Rightarrow> 0 | Inr qs \<Rightarrow> amount (namespaceUsage qs) r)" by simp
  moreover have "distinct (ord ?ms)" "set (ord ?ms) = set ?ms"
    using range_order_distinct [OF assms(1)] range_order_set [OF assms(1)] by (simp_all add: poolMembers_def Let_def)
  ultimately show ?thesis by (simp add: sum_list_distinct_conv_sum_set)
qed

lemma sumUsage_total:
  "\<forall>ns \<in> set nss. \<exists>qs. acQuotas c ns = Inr qs \<Longrightarrow> \<exists>u. sumUsage c nss t = Inr u"
  by (induction nss arbitrary: t) auto

lemma checkResource_empty:
  "checkResource child par sib used r = [] \<longleftrightarrow>
   (\<forall>want. map_of child r = Some want \<longrightarrow> want + amount sib r + amount used (renderedLimitKey r) \<le> amount (map_of par) r)"
  by (auto simp: checkResource_def Let_def split: option.splits)

text \<open>The reads of one admission, all successful: the child's and the parent's declared quotas, the
  releases beside the child, all tenant releases, and the quotas of the pool's members.\<close>

definition admission_reads ::
    "admissionClient \<Rightarrow> (string \<Rightarrow> string + quotas) \<Rightarrow> string \<Rightarrow> tenantApp \<Rightarrow> quotas \<Rightarrow> quotas \<Rightarrow>
     TenantRelease list \<Rightarrow> TenantRelease list \<Rightarrow> bool" where
  "admission_reads c dec pfx app child par items rels \<longleftrightarrow>
     parseDeclaredQuotas dec (case taSpec app of None \<Rightarrow> [] | Some raw \<Rightarrow> raw) = Inr child \<and> child \<noteq> [] \<and>
     parentTenantDeclaredQuotas c dec pfx (taNamespace app) = Inr par \<and> par \<noteq> [] \<and>
     acListIn c (taNamespace app) = Inr items \<and> acListAll c = Inr rels \<and>
     (\<forall>m \<in> set (poolMembers dec pfx rels (taNamespace app)
        (computeTenantNamespace pfx (taNamespace app) (taName app))). \<exists>qs. acQuotas c m = Inr qs)"

definition siblingCharge :: "(string \<Rightarrow> string + quotas) \<Rightarrow> string \<Rightarrow> tenantApp \<Rightarrow> TenantRelease list \<Rightarrow> string \<Rightarrow> int" where
  "siblingCharge dec pfx app items r =
     (\<Sum>hr \<leftarrow> filter (\<lambda>hr. trimPrefix (hrName hr) pfx \<noteq> taName app) items. charge dec r hr)"

definition poolUsage :: "admissionClient \<Rightarrow> (string \<Rightarrow> string + quotas) \<Rightarrow> string \<Rightarrow> tenantApp \<Rightarrow> TenantRelease list \<Rightarrow> string \<Rightarrow> int" where
  "poolUsage c dec pfx app rels r =
     (\<Sum>m \<in> set (poolMembers dec pfx rels (taNamespace app) (computeTenantNamespace pfx (taNamespace app) (taName app))).
        case acQuotas c m of Inl _ \<Rightarrow> 0 | Inr qs \<Rightarrow> amount (namespaceUsage qs) (renderedLimitKey r))"

lemma gate_iff:
  assumes "range_order ord" "admission_reads c dec pfx app child par items rels"
  shows "validateTenantResourceQuotas ord c dec pfx TenantKindName app = [] \<longleftrightarrow>
    (\<forall>r \<in> dom (map_of par). \<forall>want. map_of child r = Some want \<longrightarrow>
       want + siblingCharge dec pfx app items r + poolUsage c dec pfx app rels r \<le> amount (map_of par) r)"
proof -
  let ?ex = "computeTenantNamespace pfx (taNamespace app) (taName app)"
  note rd = assms(2) [unfolded admission_reads_def]
  obtain sib where sib: "siblingDeclaredQuotas c dec pfx (taNamespace app) (taName app) = Inr sib"
    using rd by (simp add: siblingDeclaredQuotas_def)
  have "\<forall>m \<in> set (ord (poolMembers dec pfx rels (taNamespace app) ?ex)). \<exists>qs. acQuotas c m = Inr qs"
    unfolding range_order_set [OF assms(1)] using rd by blast
  from sumUsage_total [OF this] obtain u where
    u: "parentPoolUsage ord c dec pfx (taNamespace app) ?ex = Inr u"
    using rd by (auto simp: parentPoolUsage_def)
  have s: "amount sib r = siblingCharge dec pfx app items r" for r
    using siblingDeclaredQuotas_sum [OF _ sib] rd by (simp add: siblingCharge_def)
  have p: "amount u (renderedLimitKey r) = poolUsage c dec pfx app rels r" for r
    using parentPoolUsage_amount [OF assms(1) _ u] rd by (simp add: poolUsage_def)
  have "validateTenantResourceQuotas ord c dec pfx TenantKindName app =
      concat (map (checkResource child par sib u) (sortedQuotaKeys par))"
    using rd sib u by (simp add: validateTenantResourceQuotas_def)
  then show ?thesis
    by (simp add: concat_eq_Nil_conv checkResource_empty s p sortedQuotaKeys_def dom_map_of_conv_image_fst)
qed

text \<open>C11: the declaration-time gate. When every read succeeds, a tenant that declares a quota under
  a parent that declares one is admitted if and only if, for every resource both of them bound,
  its quota, the quotas of its siblings and the current usage of the parent's pool together stay
  within the parent's quota; the visiting order of the pool's members does not matter.\<close>

theorem validateTenantResourceQuotas_gate:
  assumes "range_order ord" "admission_reads c dec pfx app child par items rels"
  shows "validateTenantResourceQuotas ord c dec pfx TenantKindName app = [] \<longleftrightarrow>
    (\<forall>r \<in> dom (map_of par). \<forall>want. map_of child r = Some want \<longrightarrow>
       want + siblingCharge dec pfx app items r + poolUsage c dec pfx app rels r \<le> amount (map_of par) r)"
  by (rule gate_iff [OF assms])

definition demoDec :: "string \<Rightarrow> string + quotas" where
  "demoDec raw = (if raw = ''p'' then Inr [(''cpu'', 10000)] else if raw = ''s'' then Inr [(''cpu'', 4000)]
     else if raw = ''c'' then Inr [(''cpu'', 7000)] else Inl ''bad values'')"

definition demoHelmReleases :: "TenantRelease list" where
  "demoHelmReleases = [\<lparr>hrName = ''tenant-sib'', hrNamespace = ''tenant-foo'', hrValues = Some ''s''\<rparr>]"

definition demoAdmission :: admissionClient where
  "demoAdmission = \<lparr>acGet = (\<lambda>ns nm. if nm = ''tenant-foo'' then
        HRFound \<lparr>hrName = ''tenant-foo'', hrNamespace = ''tenant-root'', hrValues = Some ''p''\<rparr> else HRNotFound),
     acListIn = (\<lambda>_. Inr demoHelmReleases), acListAll = Inr demoHelmReleases, acQuotas = (\<lambda>_. Inr [])\<rparr>"

definition demoApp :: tenantApp where
  "demoApp = \<lparr>taName = ''bar'', taNamespace = ''tenant-foo'', taSpec = Some ''c''\<rparr>"

theorem validateTenantResourceQuotas_gate_witness:
  "validateTenantResourceQuotas rev demoAdmission demoDec ''tenant-'' TenantKindName demoApp \<noteq> []"
proof -
  have "parentTenantDeclaredQuotas demoAdmission demoDec ''tenant-'' ''tenant-foo'' = Inr [(''cpu'', 10000)]" by code_simp
  then have rd: "admission_reads demoAdmission demoDec ''tenant-'' demoApp [(''cpu'', 7000)] [(''cpu'', 10000)]
      demoHelmReleases demoHelmReleases"
    by (simp add: admission_reads_def demoApp_def demoAdmission_def parseDeclaredQuotas_def demoDec_def)
  have s: "siblingCharge demoDec ''tenant-'' demoApp demoHelmReleases ''cpu'' = 4000" by code_simp
  have u: "poolUsage demoAdmission demoDec ''tenant-'' demoApp demoHelmReleases ''cpu'' = 0"
    by (simp add: poolUsage_def demoAdmission_def namespaceUsage_def)
  show ?thesis
    using validateTenantResourceQuotas_gate [OF range_order_rev rd] s u by (simp add: amount_def)
qed

text \<open>C12: a bounded root tenant blocks its children on the resources it bounds. The root tenant's own release lives in its own
  namespace, beside its children, so the gate counts the root's whole quota as a sibling's: once the root tenant
  declares a quota for a resource, no direct child of it can declare a positive amount of that
  resource, provided every read of the gate succeeds and no amount is negative. Resources that the
  root leaves unbounded are not concerned: a child that declares only those is admitted.\<close>

theorem root_quota_blocks_children:
  assumes "range_order ord" "admission_reads c dec ''tenant-'' app child par items rels"
    and "taNamespace app = rootTenantNamespace" "taName app \<noteq> ''root''"
    and "hr \<in> set items" "hrName hr = ''tenant-root''" "declaredQuotasFromHelmRelease dec hr = Inr par"
    and "distinct (map fst par)" "map_of par r = Some v" "map_of child r = Some want" "0 < want"
    and nonneg: "\<forall>h \<in> set items. 0 \<le> charge dec r h" "0 \<le> poolUsage c dec ''tenant-'' app rels r"
  shows "validateTenantResourceQuotas ord c dec ''tenant-'' TenantKindName app \<noteq> []"
proof -
  let ?f = "filter (\<lambda>h. trimPrefix (hrName h) ''tenant-'' \<noteq> taName app) items"
  have "hr \<in> set ?f" using assms(4-6) by (simp add: trimPrefix_def)
  moreover have "\<forall>x \<in> set (map (charge dec r) ?f). 0 \<le> x" using nonneg(1) by auto
  ultimately have "charge dec r hr \<le> sum_list (map (charge dec r) ?f)"
    by (intro member_le_sum_list) auto
  moreover have "charge dec r hr = v"
    using assms(7,9) distinct_quota_sum [OF assms(8), of r] by (simp add: charge_def amount_def)
  ultimately have "v \<le> siblingCharge dec ''tenant-'' app items r" by (simp add: siblingCharge_def)
  then have "\<not> want + siblingCharge dec ''tenant-'' app items r + poolUsage c dec ''tenant-'' app rels r
      \<le> amount (map_of par) r"
    using assms(9,11) nonneg(2) by (simp add: amount_def)
  then show ?thesis using gate_iff [OF assms(1,2)] assms(9,10) by (auto intro: domI)
qed

definition rootRelease :: TenantRelease where
  "rootRelease = \<lparr>hrName = ''tenant-root'', hrNamespace = ''tenant-root'', hrValues = Some ''p''\<rparr>"

definition rootAdmission :: admissionClient where
  "rootAdmission = \<lparr>acGet = (\<lambda>_ _. HRFound rootRelease), acListIn = (\<lambda>_. Inr [rootRelease]),
     acListAll = Inr [rootRelease], acQuotas = (\<lambda>_. Inr [])\<rparr>"

definition rootChild :: tenantApp where
  "rootChild = \<lparr>taName = ''bar'', taNamespace = ''tenant-root'', taSpec = Some ''c''\<rparr>"

theorem root_quota_blocks_children_witness:
  "validateTenantResourceQuotas (\<lambda>xs. xs) rootAdmission demoDec ''tenant-'' TenantKindName rootChild \<noteq> []"
proof -
  have d: "declaredQuotasFromHelmRelease demoDec rootRelease = Inr [(''cpu'', 10000)]" by code_simp
  have "parentTenantDeclaredQuotas rootAdmission demoDec ''tenant-'' ''tenant-root'' = Inr [(''cpu'', 10000)]" by code_simp
  then have rd: "admission_reads rootAdmission demoDec ''tenant-'' rootChild [(''cpu'', 7000)] [(''cpu'', 10000)] [rootRelease] [rootRelease]"
    by (simp add: admission_reads_def rootChild_def rootAdmission_def parseDeclaredQuotas_def demoDec_def)
  have u: "0 \<le> poolUsage rootAdmission demoDec ''tenant-'' rootChild [rootRelease] ''cpu''"
    by (simp add: poolUsage_def rootAdmission_def namespaceUsage_def)
  show ?thesis
    using root_quota_blocks_children [OF range_order_id rd, of rootRelease "''cpu''" 10000 7000] d u
    by (auto simp: rootTenantNamespace_def charge_def rootChild_def [THEN arg_cong, of taNamespace]
        rootChild_def [THEN arg_cong, of taName] rootRelease_def [THEN arg_cong, of hrName])
qed

text \<open>tenant names are safe to nest. A name the API accepts for a tenant has no dash and is not
  empty, so the namespace it computes for the tenant determines the tenant's release again.\<close>

theorem accepted_tenant_roundtrip:
  assumes "ValidateApplicationName dns n TenantKindName = []" "tenantNS ns" "ns = rootTenantNamespace \<longrightarrow> n \<noteq> ''root''"
  shows "parentTenantHelmReleaseRef (computeTenantNamespace ''tenant-'' ns n) ''tenant-'' = Some (''tenant-'' @ n, ns) \<and>
    parentNamespaceOf ''tenant-'' (computeTenantNamespace ''tenant-'' ns n) = ns"
proof -
  note o = owned_split [OF assms(2) ValidateApplicationName_tenant [OF assms(1)] assms(3), unfolded ownedNamespace_eq]
  show ?thesis
    using o by (auto simp: parentTenantHelmReleaseRef_def parentNamespaceOf_def Let_def split: if_splits)
qed

theorem accepted_tenant_roundtrip_witness:
  "parentNamespaceOf ''tenant-'' (computeTenantNamespace ''tenant-'' ''tenant-root'' ''foo'') = ''tenant-root''"
proof -
  have a: "ValidateApplicationName (\<lambda>_. []) ''foo'' TenantKindName = []" by code_simp
  have b: "tenantNS ''tenant-root''" by (simp add: tenantNS_def rootTenantNamespace_def)
  show ?thesis using accepted_tenant_roundtrip [OF a b] by simp
qed

end
