(* ===== verification/Registry_Common.thy ===== *)
theory Registry_Common
  imports Go_Prelude
begin

text \<open>
  What the storages of the API server share: field selectors (\<open>pkg/registry/fields/filter.go\<close>),
  resource versions and the marker that ends the initial events of a watch
  (\<open>pkg/registry/utils.go\<close>), and the contract the marker gives every watch that is built on it.
\<close>

subsection \<open>Field selectors\<close>

text \<open>A field selector by its terms: field, whether equality is asked, and value.\<close>

type_synonym fieldTerms = "(string \<times> bool \<times> string) list"

record Filter =
  fiName :: string
  fiNamespace :: string

definition exactMatch :: "fieldTerms \<Rightarrow> string \<Rightarrow> string" where
  "exactMatch terms f = (case find (\<lambda>(g, eq, v). g = f \<and> eq) terms of None \<Rightarrow> [] | Some (g, eq, v) \<Rightarrow> v)"

definition ParseFieldSelector :: "fieldTerms option \<Rightarrow> Filter" where
  "ParseFieldSelector sel =
     (case sel of
        None \<Rightarrow> \<lparr>fiName = [], fiNamespace = []\<rparr>
      | Some terms \<Rightarrow> \<lparr>fiName = exactMatch terms ''metadata.name'', fiNamespace = exactMatch terms ''metadata.namespace''\<rparr>)"

definition MatchesName :: "Filter \<Rightarrow> string \<Rightarrow> bool" where
  "MatchesName f name \<longleftrightarrow> fiName f = [] \<or> fiName f = name"

definition MatchesNamespace :: "Filter \<Rightarrow> string \<Rightarrow> bool" where
  "MatchesNamespace f namespace \<longleftrightarrow> fiNamespace f = [] \<or> fiNamespace f = namespace"

subsection \<open>Selectors\<close>

text \<open>A label requirement by its key and what it demands of the value.\<close>

record requirement =
  rqKey :: string
  rqHolds :: "string option \<Rightarrow> bool"

definition fieldsMatch :: "fieldTerms \<Rightarrow> (string \<rightharpoonup> string) \<Rightarrow> bool" where
  "fieldsMatch terms fs \<longleftrightarrow> list_all (\<lambda>(g, eq, v). strOf fs g = v \<longleftrightarrow> eq) terms"

definition labelsMatch :: "requirement list \<Rightarrow> (string \<rightharpoonup> string) \<Rightarrow> bool" where
  "labelsMatch reqs labels \<longleftrightarrow> list_all (\<lambda>q. rqHolds q (labels (rqKey q))) reqs"

definition equalsRequirement :: "string \<Rightarrow> string \<Rightarrow> requirement" where
  "equalsRequirement key v = \<lparr>rqKey = key, rqHolds = (\<lambda>x. x = Some v)\<rparr>"

text \<open>A label selector that matches nothing, or one that asks for requirements.\<close>

datatype labelSelector = NothingSelector | Requirements "requirement list"

text \<open>The requirement of a marker label with those of the user, or none when the user's selector matches
  nothing.\<close>

definition markedSelector :: "string \<Rightarrow> string \<Rightarrow> labelSelector option \<Rightarrow> requirement list option" where
  "markedSelector key v sel =
     (case sel of
        None \<Rightarrow> Some [equalsRequirement key v]
      | Some NothingSelector \<Rightarrow> None
      | Some (Requirements reqs) \<Rightarrow> Some (equalsRequirement key v # reqs))"

subsection \<open>Resource versions\<close>

definition parseUint :: "string \<Rightarrow> nat option" where
  "parseUint s = (if s = [] then None else case parseDigits 0 s of None \<Rightarrow> None | Some n \<Rightarrow> if n < 2 ^ 64 then Some n else None)"

definition MaxResourceVersion :: "string list \<Rightarrow> string" where
  "MaxResourceVersion versions =
     (case those (map parseUint (filter (\<lambda>v. v \<noteq> []) versions)) of
        None \<Rightarrow> []
      | Some ns \<Rightarrow> natDigits (fold max ns 0))"

subsection \<open>The marker that ends the initial events\<close>

text \<open>The kinds of events that carry an object of the watched type. A client of the API server receives
  translated objects, bookmarks, of which one may be the marker that ends the initial events, and errors.\<close>

datatype eventType = Added | Modified | Deleted

datatype 'o clientEvent =
    ClientEvent eventType 'o
  | ClientBookmark string bool \<comment> \<open>the resource version, and whether it is the marker\<close>
  | ClientError string

record InitialEventsBookmarker =
  bmSent :: bool
  bmLastRV :: string

record watchOptions =
  woVersion :: string \<comment> \<open>\<open>resourceVersion\<close>, empty when unset\<close>
  woSendInitial :: "bool option"
  woAllowBookmarks :: bool

definition InitialEventsEndBookmarkRequested :: "watchOptions \<Rightarrow> bool" where
  "InitialEventsEndBookmarkRequested opts \<longleftrightarrow> woSendInitial opts = Some True \<and> woAllowBookmarks opts"

definition NewInitialEventsBookmarker :: "bool \<Rightarrow> string \<Rightarrow> InitialEventsBookmarker" where
  "NewInitialEventsBookmarker initialEventsEnd startingRV = \<lparr>bmSent = (\<not> initialEventsEnd), bmLastRV = startingRV\<rparr>"

definition Observe :: "InitialEventsBookmarker \<Rightarrow> string \<Rightarrow> InitialEventsBookmarker" where
  "Observe b rv = (if rv \<noteq> [] then b\<lparr>bmLastRV := rv\<rparr> else b)"

definition bookmarkEvent :: "InitialEventsBookmarker \<Rightarrow> bool \<Rightarrow> 'o clientEvent" where
  "bookmarkEvent b atEnd = ClientBookmark (bmLastRV b) atEnd"

definition OnBackingBookmark :: "InitialEventsBookmarker \<Rightarrow> string \<Rightarrow> 'o clientEvent \<times> bool \<times> InitialEventsBookmarker" where
  "OnBackingBookmark b rv =
     (let b' = Observe b rv in
      if bmSent b' then (bookmarkEvent b' False, False, b')
      else (bookmarkEvent b' True, True, b'\<lparr>bmSent := True\<rparr>))"

definition BeforeLiveEvent :: "InitialEventsBookmarker \<Rightarrow> eventType \<Rightarrow> 'o clientEvent option \<times> InitialEventsBookmarker" where
  "BeforeLiveEvent b t =
     (if bmSent b \<or> t = Added then (None, b) else (Some (bookmarkEvent b True), b\<lparr>bmSent := True\<rparr>))"

definition OnClose :: "InitialEventsBookmarker \<Rightarrow> 'o clientEvent option \<times> InitialEventsBookmarker" where
  "OnClose b = (if bmSent b then (None, b) else (Some (bookmarkEvent b True), b\<lparr>bmSent := True\<rparr>))"

definition optEvent :: "'o clientEvent option \<Rightarrow> 'o clientEvent list" where
  "optEvent e = (case e of None \<Rightarrow> [] | Some ev \<Rightarrow> [ev])"

text \<open>The last event of the watches that forward one stream.\<close>

definition closeWatch :: "InitialEventsBookmarker \<Rightarrow> 'o clientEvent list" where
  "closeWatch b = optEvent (fst (OnClose b))"

text \<open>The version a watch starts from: 0 when none is given or when it is no number.\<close>

definition startingVersion :: "string \<Rightarrow> nat" where
  "startingVersion rv = (if rv = [] then 0 else case parseUint rv of None \<Rightarrow> 0 | Some n \<Rightarrow> n)"

definition alreadySeen :: "nat \<Rightarrow> eventType \<Rightarrow> string \<Rightarrow> bool" where
  "alreadySeen startingRV t rv \<longleftrightarrow>
     t = Added \<and> 0 < startingRV \<and> (case parseUint rv of None \<Rightarrow> False | Some objRV \<Rightarrow> objRV \<le> startingRV)"

text \<open>A watch is a loop over what arrives: \<open>Some\<close> input, or \<open>None\<close> when the backing watch closes, after
  which nothing is read. A \<open>send\<close> that fails ends the loop, so a client that stops early has received
  a prefix of the stream below.\<close>

fun watchLoop :: "('s \<Rightarrow> 'i \<Rightarrow> 'o clientEvent list \<times> 's) \<Rightarrow> ('s \<Rightarrow> 'o clientEvent list) \<Rightarrow> 's \<Rightarrow> 'i option list \<Rightarrow> 'o clientEvent list" where
  "watchLoop step close s [] = []"
| "watchLoop step close s (None # ins) = close s"
| "watchLoop step close s (Some i # ins) = (case step s i of (out, s') \<Rightarrow> out @ watchLoop step close s' ins)"

subsection \<open>The contract of a watch\<close>

text \<open>Before the marker only objects that were added (and errors) may be sent, after it no other marker.\<close>

fun initialEvent :: "'o clientEvent \<Rightarrow> bool" where
  "initialEvent (ClientEvent t obj) \<longleftrightarrow> t = Added"
| "initialEvent (ClientBookmark v e) \<longleftrightarrow> False"
| "initialEvent (ClientError msg) \<longleftrightarrow> True"

fun unmarked :: "'o clientEvent \<Rightarrow> bool" where
  "unmarked (ClientBookmark v e) \<longleftrightarrow> \<not> e"
| "unmarked (ClientEvent t obj) \<longleftrightarrow> True"
| "unmarked (ClientError msg) \<longleftrightarrow> True"

fun objectEvent :: "'o clientEvent \<Rightarrow> bool" where
  "objectEvent (ClientBookmark v e) \<longleftrightarrow> False"
| "objectEvent (ClientEvent t obj) \<longleftrightarrow> True"
| "objectEvent (ClientError msg) \<longleftrightarrow> True"

definition markedOnce :: "'o clientEvent list \<Rightarrow> bool" where
  "markedOnce out \<longleftrightarrow> (\<exists>a v rest. out = a @ ClientBookmark v True # rest \<and> list_all initialEvent a \<and> list_all unmarked rest)"

lemma markedOnceI: "list_all initialEvent a \<Longrightarrow> list_all unmarked rest \<Longrightarrow> markedOnce (a @ ClientBookmark v True # rest)"
  by (auto simp: markedOnce_def)

lemma markedOnce_now: "list_all unmarked rest \<Longrightarrow> markedOnce (ClientBookmark v True # rest)"
  using markedOnceI [of "[]"] by simp

lemma markedOnce_before: "list_all initialEvent a \<Longrightarrow> markedOnce out \<Longrightarrow> markedOnce (a @ out)"
  by (auto simp: markedOnce_def) (metis append.assoc list_all_append)

lemma markedOnce_after: "markedOnce out \<Longrightarrow> list_all unmarked rest \<Longrightarrow> markedOnce (out @ rest)"
  by (auto simp: markedOnce_def) (metis list_all_append)

text \<open>The inputs that are read, up to the closing of the backing watch.\<close>

fun readInputs :: "'i option list \<Rightarrow> 'i list" where
  "readInputs [] = []"
| "readInputs (None # ins) = []"
| "readInputs (Some i # ins) = i # readInputs ins"

text \<open>The three shapes of a step of the watches that forward one stream: nothing is sent, a bookmark is
  forwarded, or an object is, after the marker when it is due.\<close>

lemma Observe_sent [simp]: "bmSent (Observe b rv) = bmSent b"
  by (simp add: Observe_def)

lemma closeWatch_cases: "closeWatch b = (if bmSent b then [] else [ClientBookmark (bmLastRV b) True])"
  by (simp add: closeWatch_def optEvent_def OnClose_def bookmarkEvent_def)

lemma OnBackingBookmark_cases:
  "OnBackingBookmark b rv = (ClientBookmark (bmLastRV (Observe b rv)) (\<not> bmSent b), \<not> bmSent b, (Observe b rv)\<lparr>bmSent := True\<rparr>)"
  by (simp add: OnBackingBookmark_def Let_def bookmarkEvent_def)

lemma BeforeLiveEvent_cases:
  "BeforeLiveEvent b t =
     (if bmSent b \<or> t = Added then (None, b) else (Some (ClientBookmark (bmLastRV b) True), b\<lparr>bmSent := True\<rparr>))"
  by (simp add: BeforeLiveEvent_def bookmarkEvent_def)

lemmas bookmarking = closeWatch_cases OnBackingBookmark_cases BeforeLiveEvent_cases optEvent_def

locale initial_events =
  fixes step :: "'s \<Rightarrow> 'i \<Rightarrow> 'o clientEvent list \<times> 's"
    and close :: "'s \<Rightarrow> 'o clientEvent list"
    and pending :: "'s \<Rightarrow> bool"
  assumes step_pending: "pending s \<Longrightarrow> step s i = (out, s') \<Longrightarrow> pending s' \<Longrightarrow> list_all initialEvent out"
    and step_ends: "pending s \<Longrightarrow> step s i = (out, s') \<Longrightarrow> \<not> pending s' \<Longrightarrow> markedOnce out"
    and step_after: "\<not> pending s \<Longrightarrow> step s i = (out, s') \<Longrightarrow> \<not> pending s' \<and> list_all unmarked out"
    and close_pending: "pending s \<Longrightarrow> markedOnce (close s)"
    and close_after: "\<not> pending s \<Longrightarrow> list_all unmarked (close s)"
begin

lemma stream_after: "\<not> pending s \<Longrightarrow> list_all unmarked (watchLoop step close s ins)"
  by (induction ins arbitrary: s rule: readInputs.induct) (auto simp: close_after dest: step_after split: prod.splits)

lemma stream_marked:
  "pending s \<Longrightarrow> markedOnce (watchLoop step close s ins) \<or> None \<notin> set ins \<and> list_all initialEvent (watchLoop step close s ins)"
proof (induction ins arbitrary: s rule: readInputs.induct)
  case (3 i ins)
  obtain out s' where one: "step s i = (out, s')" by fastforce
  show ?case
  proof (cases "pending s'")
    case True
    have "list_all initialEvent out" using step_pending [OF 3(2) one True] .
    then show ?thesis using 3(1) [OF True] by (auto simp: one intro: markedOnce_before)
  next
    case False
    show ?thesis using markedOnce_after [OF step_ends [OF 3(2) one False] stream_after [OF False]] by (simp add: one)
  qed
qed (simp_all add: close_pending)

end

text \<open>A watch that translates every input on its own loses and reorders nothing.\<close>

locale translating_watch = initial_events step close pending
  for step :: "'s \<Rightarrow> 'i \<Rightarrow> 'o clientEvent list \<times> 's" and close pending +
  fixes translate :: "'i \<Rightarrow> 'o clientEvent list"
  assumes step_objects: "step s i = (out, s') \<Longrightarrow> filter objectEvent out = translate i"
    and close_objects: "filter objectEvent (close s) = []"
begin

lemma stream_objects: "filter objectEvent (watchLoop step close s ins) = concat (map translate (readInputs ins))"
  by (induction ins arbitrary: s rule: readInputs.induct) (auto simp: close_objects dest: step_objects split: prod.splits)

end

subsection \<open>Watches that forward one stream\<close>

text \<open>What a backing watch delivers: events of stored objects, bookmarks, errors, and objects of other
  types, which are dropped. The storages that forward one backing watch have the same loop; they differ
  in which objects are theirs at all, in what an event shows as, and in whether errors are passed on.\<close>

datatype 'b backingInput =
    Backing eventType 'b
  | BackingBookmark string
  | BackingError string
  | BackingOther

record ('b, 'o) watchSpec =
  wsOwn :: "'b \<Rightarrow> bool"
  wsVersion :: "'b \<Rightarrow> string"
  wsShow :: "eventType \<Rightarrow> 'b \<Rightarrow> 'o option"
  wsErrors :: bool

definition forwardStep :: "('b, 'o) watchSpec \<Rightarrow> InitialEventsBookmarker \<Rightarrow> 'b backingInput \<Rightarrow> 'o clientEvent list \<times> InitialEventsBookmarker" where
  "forwardStep w b i =
     (case i of
        BackingBookmark rv \<Rightarrow> (case OnBackingBookmark b rv of (ev, initialEnd, b') \<Rightarrow> ([ev], b'))
      | BackingError msg \<Rightarrow> (if wsErrors w then [ClientError msg] else [], b)
      | BackingOther \<Rightarrow> ([], b)
      | Backing t x \<Rightarrow>
          (if \<not> wsOwn w x then ([], b)
           else let b' = Observe b (wsVersion w x) in
             (case wsShow w t x of
                None \<Rightarrow> ([], b')
              | Some obj \<Rightarrow> (case BeforeLiveEvent b' t of (marker, b'') \<Rightarrow> (optEvent marker @ [ClientEvent t obj], b'')))))"

definition forwardWatch :: "('b, 'o) watchSpec \<Rightarrow> watchOptions \<Rightarrow> 'b backingInput option list \<Rightarrow> 'o clientEvent list" where
  "forwardWatch w opts ins =
     watchLoop (forwardStep w) closeWatch (NewInitialEventsBookmarker (InitialEventsEndBookmarkRequested opts) (woVersion opts)) ins"

text \<open>What is sent for an input, apart from bookmarks.\<close>

definition forwarded :: "('b, 'o) watchSpec \<Rightarrow> 'b backingInput \<Rightarrow> 'o clientEvent list" where
  "forwarded w i =
     (case i of
        BackingError msg \<Rightarrow> if wsErrors w then [ClientError msg] else []
      | Backing t x \<Rightarrow> (if wsOwn w x then case wsShow w t x of None \<Rightarrow> [] | Some obj \<Rightarrow> [ClientEvent t obj] else [])
      | _ \<Rightarrow> [])"

lemma forwardStep_shape:
  "forwardStep w b i =
     (case i of
        BackingBookmark rv \<Rightarrow> ([ClientBookmark (bmLastRV (Observe b rv)) (\<not> bmSent b)], (Observe b rv)\<lparr>bmSent := True\<rparr>)
      | Backing t x \<Rightarrow>
          (let b' = (if wsOwn w x then Observe b (wsVersion w x) else b) in
           if forwarded w i = [] then ([], b')
           else if bmSent b \<or> t = Added then (forwarded w i, b')
           else (ClientBookmark (bmLastRV b') True # forwarded w i, b'\<lparr>bmSent := True\<rparr>))
      | _ \<Rightarrow> (forwarded w i, b))"
  by (cases i) (auto simp: forwardStep_def forwarded_def bookmarking Let_def split: option.split)

lemma forwarded_kinds: "forwarded w (Backing t x) = [] \<or> (\<exists>obj. forwarded w (Backing t x) = [ClientEvent t obj])"
  by (simp add: forwarded_def split: option.split)

interpretation forwarding: translating_watch "forwardStep w" closeWatch "\<lambda>b. \<not> bmSent b" "forwarded w" for w
proof
  fix b i out b'
  assume step: "forwardStep w b i = (out, b')"
  show "\<not> bmSent b' \<Longrightarrow> \<not> bmSent b \<Longrightarrow> list_all initialEvent out"
    "\<not> bmSent b \<Longrightarrow> \<not> \<not> bmSent b' \<Longrightarrow> markedOnce out"
    "\<not> \<not> bmSent b \<Longrightarrow> \<not> \<not> bmSent b' \<and> list_all unmarked out"
    "filter objectEvent out = forwarded w i"
    using step forwarded_kinds [of w]
    by (cases i; fastforce simp: forwardStep_shape forwarded_def Let_def split: if_splits intro!: markedOnce_now)+
qed (auto simp: bookmarking intro!: markedOnce_now)

lemma forwardWatch_marked:
  "InitialEventsEndBookmarkRequested opts \<Longrightarrow>
     markedOnce (forwardWatch w opts ins) \<or> None \<notin> set ins \<and> list_all initialEvent (forwardWatch w opts ins)"
  using forwarding.stream_marked [of "NewInitialEventsBookmarker True (woVersion opts)" w ins]
  by (simp add: forwardWatch_def NewInitialEventsBookmarker_def)

lemma forwardWatch_unasked:
  "\<not> InitialEventsEndBookmarkRequested opts \<Longrightarrow> list_all unmarked (forwardWatch w opts ins)"
  using forwarding.stream_after [of "NewInitialEventsBookmarker False (woVersion opts)" w ins]
  by (simp add: forwardWatch_def NewInitialEventsBookmarker_def)

lemma forwardWatch_objects: "filter objectEvent (forwardWatch w opts ins) = concat (map (forwarded w) (readInputs ins))"
  by (simp add: forwardWatch_def forwarding.stream_objects)

subsection \<open>Caches\<close>

text \<open>A client keeps a cache of the objects it was sent.\<close>

fun applyClient :: "('o \<Rightarrow> 'k) \<Rightarrow> 'o clientEvent \<Rightarrow> ('k \<rightharpoonup> 'o) \<Rightarrow> ('k \<rightharpoonup> 'o)" where
  "applyClient key (ClientEvent t obj) cache =
     (if t = Deleted then cache(key obj := None) else cache(key obj \<mapsto> obj))"
| "applyClient key (ClientBookmark v e) cache = cache"
| "applyClient key (ClientError msg) cache = cache"

definition applyChange :: "('k \<times> 'b option) option \<Rightarrow> ('k \<rightharpoonup> 'b) \<Rightarrow> ('k \<rightharpoonup> 'b)" where
  "applyChange c store = (case c of None \<Rightarrow> store | Some (k, b) \<Rightarrow> store(k := b))"

definition viewOf :: "('k \<Rightarrow> bool) \<Rightarrow> ('b \<Rightarrow> 'o) \<Rightarrow> ('k \<rightharpoonup> 'b) \<Rightarrow> ('k \<rightharpoonup> 'o)" where
  "viewOf keep view store = (\<lambda>k. if keep k then map_option view (store k) else None)"

lemma viewOf_update: "viewOf keep view (store(k := b)) = (if keep k then (viewOf keep view store)(k := map_option view b) else viewOf keep view store)"
  by (auto simp: viewOf_def)

lemma applyClient_objects: "fold (applyClient key) (filter objectEvent out) cache = fold (applyClient key) out cache"
proof (induction out arbitrary: cache)
  case (Cons e out)
  then show ?case by (cases e) simp_all
qed simp

text \<open>When what is sent for an input changes the cache as the input changes the stored objects, the cache
  of a client that started from the list is the list.\<close>

locale tracking_watch = translating_watch step close pending translate
  for step :: "'s \<Rightarrow> 'i \<Rightarrow> 'o clientEvent list \<times> 's" and close pending and translate :: "'i \<Rightarrow> 'o clientEvent list" +
  fixes change :: "'i \<Rightarrow> ('k \<times> 'b option) option"
    and key :: "'o \<Rightarrow> 'k"
    and keep :: "'k \<Rightarrow> bool"
    and view :: "'b \<Rightarrow> 'o"
    and regular :: "'i \<Rightarrow> bool"
  assumes tracked: "regular i \<Longrightarrow> fold (applyClient key) (translate i) (viewOf keep view store) = viewOf keep view (applyChange (change i) store)"
begin

lemma stream_tracks:
  assumes "list_all regular (readInputs ins)"
  shows "fold (applyClient key) (watchLoop step close s ins) (viewOf keep view store)
    = viewOf keep view (fold (applyChange \<circ> change) (readInputs ins) store)"
proof -
  have "fold (applyClient key) (concat (map translate is)) (viewOf keep view store)
      = viewOf keep view (fold (applyChange \<circ> change) is store)" if "list_all regular is" for "is"
    using that
  proof (induction "is" arbitrary: store)
    case (Cons i "is")
    then show ?case using tracked [of i store] by simp
  qed simp
  from this [OF assms] show ?thesis using applyClient_objects stream_objects by metis
qed

end

end
