(* ===== verification/Security_Group.thy ===== *)
theory Security_Group
  imports Registry_Common
begin

text \<open>
  The SecurityGroup API: a storage that serves SecurityGroups as a projection over marked
  CiliumNetworkPolicies (\<open>pkg/registry/sdn/securitygroup/rest.go\<close>, \<open>validate.go\<close>, the types of
  \<open>cilium.go\<close> and of \<open>pkg/apis/sdn/v1alpha1/securitygroup_types.go\<close>, and the list helpers
  \<open>pkg/registry/fields\<close> and \<open>pkg/registry/sorting\<close>). Label and annotation maps are association
  lists with distinct keys; a nil map is the empty list. Arguments that stand for code outside the
  repository: \<open>enc\<close> and \<open>dec\<close>, the JSON encoder and decoder of an attachment list; \<open>lib\<close>, the
  Kubernetes label and port-name checks and the address parsers; the client of the backing API,
  a record of the results of its calls; and the admission callbacks.
\<close>

subsection \<open>Types\<close>

record ApplicationReference =
  arAPIGroup :: string
  arKind :: string
  arName :: string

record PortProtocol =
  ppPort :: string
  ppProtocol :: string

record PortRule =
  prPorts :: "PortProtocol list"

record FQDNSelector =
  MatchName :: string
  MatchPattern :: string

record IngressRule =
  FromApp :: "ApplicationReference list"
  FromSG :: "string list"
  FromCIDR :: "string list"
  inToPorts :: "PortRule list"

record EgressRule =
  ToApp :: "ApplicationReference list"
  ToSG :: "string list"
  ToCIDR :: "string list"
  ToFQDNs :: "FQDNSelector list"
  egToPorts :: "PortRule list"

record SecurityGroupSpec =
  Attachments :: "ApplicationReference list"
  sgIngress :: "IngressRule list"
  sgEgress :: "EgressRule list option" \<comment> \<open>\<open>None\<close> for a nil slice\<close>

type_synonym strmap = "(string \<times> string) list"

record sdnMeta =
  smName :: string
  smNamespace :: string
  smUID :: string
  smResourceVersion :: string
  smCreation :: int
  smDeletion :: "int option"
  smLabels :: strmap
  smAnnotations :: strmap
  smOwners :: "string list"
  smFinalizers :: "string list"

record SecurityGroup = sgMeta :: sdnMeta
  sgSpec :: SecurityGroupSpec

text \<open>A label selector, by its \<open>matchLabels\<close>.\<close>

type_synonym LabelSelector = strmap

record CiliumIngressRule =
  FromEndpoints :: "LabelSelector list"
  ciFromCIDR :: "string list"
  ciToPorts :: "PortRule list"

record CiliumEgressRule =
  ToEndpoints :: "LabelSelector list"
  ceToCIDR :: "string list"
  ceToFQDNs :: "FQDNSelector list"
  ceToPorts :: "PortRule list"

record CiliumNetworkPolicySpec =
  EndpointSelector :: LabelSelector
  cnIngress :: "CiliumIngressRule list"
  cnEgress :: "CiliumEgressRule list option"

record CiliumNetworkPolicy =
  npMeta :: sdnMeta
  npGrace :: "int option"
  npSystem :: string \<comment> \<open>managed fields and the like\<close>
  npSpec :: "CiliumNetworkPolicySpec option"

definition sgLabelKey :: string where "sgLabelKey = ''sdn.cozystack.io/securitygroup''"
definition sgLabelValue :: string where "sgLabelValue = ''true''"
definition attachmentsAnnotation :: string where "attachmentsAnnotation = ''sdn.cozystack.io/attachments''"
definition appGroupLabelKey :: string where "appGroupLabelKey = ''apps.cozystack.io/application.group''"
definition appKindLabelKey :: string where "appKindLabelKey = ''apps.cozystack.io/application.kind''"
definition appNameLabelKey :: string where "appNameLabelKey = ''apps.cozystack.io/application.name''"
definition defaultAppGroup :: string where "defaultAppGroup = ''apps.cozystack.io''"
definition MembershipLabelPrefix :: string where "MembershipLabelPrefix = ''securitygroup.sdn.cozystack.io/''"
definition MembershipFinalizer :: string where "MembershipFinalizer = ''sdn.cozystack.io/securitygroup-membership''"

lemmas sg_keys = sgLabelKey_def sgLabelValue_def attachmentsAnnotation_def appGroupLabelKey_def
  appKindLabelKey_def appNameLabelKey_def defaultAppGroup_def MembershipLabelPrefix_def MembershipFinalizer_def

subsection \<open>Selectors\<close>

definition membershipLabelKey :: "string \<Rightarrow> string" where
  "membershipLabelKey name = MembershipLabelPrefix @ name"

definition buildEndpointSelector :: "string \<Rightarrow> LabelSelector" where
  "buildEndpointSelector name = [(membershipLabelKey name, [])]"

definition appLabels :: "ApplicationReference \<Rightarrow> LabelSelector" where
  "appLabels ref =
     [(appGroupLabelKey, if arAPIGroup ref = [] then defaultAppGroup else arAPIGroup ref),
      (appKindLabelKey, arKind ref), (appNameLabelKey, arName ref)]"

definition appFromSelector :: "LabelSelector \<Rightarrow> ApplicationReference option" where
  "appFromSelector sel =
     (if length sel \<noteq> 3 then None
      else case (map_of sel appGroupLabelKey, map_of sel appKindLabelKey, map_of sel appNameLabelKey) of
             (Some g, Some k, Some n) \<Rightarrow> Some \<lparr>arAPIGroup = g, arKind = k, arName = n\<rparr>
           | _ \<Rightarrow> None)"

definition sgFromSelector :: "LabelSelector \<Rightarrow> string option" where
  "sgFromSelector sel =
     (case sel of [(k, _)] \<Rightarrow> cutPrefix k MembershipLabelPrefix | _ \<Rightarrow> None)"

subsection \<open>Projection and reconstruction\<close>

definition peerSelectors :: "ApplicationReference list \<Rightarrow> string list \<Rightarrow> LabelSelector list" where
  "peerSelectors apps sgs = map appLabels apps @ map (\<lambda>name. [(membershipLabelKey name, [])]) sgs"

definition projectIngress :: "IngressRule list \<Rightarrow> CiliumIngressRule list" where
  "projectIngress rules =
     map (\<lambda>r. \<lparr>FromEndpoints = peerSelectors (FromApp r) (FromSG r), ciFromCIDR = FromCIDR r,
               ciToPorts = inToPorts r\<rparr>) rules"

definition projectEgress :: "EgressRule list option \<Rightarrow> CiliumEgressRule list option" where
  "projectEgress = map_option (map (\<lambda>r.
     \<lparr>ToEndpoints = peerSelectors (ToApp r) (ToSG r), ceToCIDR = ToCIDR r, ceToFQDNs = ToFQDNs r,
      ceToPorts = egToPorts r\<rparr>))"

fun splitPeers :: "LabelSelector list \<Rightarrow> ApplicationReference list \<times> string list \<Rightarrow>
    ApplicationReference list \<times> string list" where
  "splitPeers [] (apps, sgs) = (apps, sgs)"
| "splitPeers (ep # eps) (apps, sgs) =
     (case appFromSelector ep of
        Some app \<Rightarrow> splitPeers eps (apps @ [app], sgs)
      | None \<Rightarrow>
          (case sgFromSelector ep of
             Some name \<Rightarrow> splitPeers eps (apps, sgs @ [name])
           | None \<Rightarrow> splitPeers eps (apps, sgs)))"

definition reconstructIngress :: "CiliumIngressRule list \<Rightarrow> IngressRule list" where
  "reconstructIngress rules =
     map (\<lambda>r. let (apps, sgs) = splitPeers (FromEndpoints r) ([], []) in
            \<lparr>FromApp = apps, FromSG = sgs, FromCIDR = ciFromCIDR r, inToPorts = ciToPorts r\<rparr>) rules"

definition reconstructEgress :: "CiliumEgressRule list option \<Rightarrow> EgressRule list option" where
  "reconstructEgress rules =
     (case rules of
        None \<Rightarrow> None
      | Some rs \<Rightarrow>
          if rs = [] then None
          else Some (map (\<lambda>r. let (apps, sgs) = splitPeers (ToEndpoints r) ([], []) in
            \<lparr>ToApp = apps, ToSG = sgs, ToCIDR = ceToCIDR r, ToFQDNs = ceToFQDNs r,
             egToPorts = ceToPorts r\<rparr>) rs))"

definition canonRef :: "ApplicationReference \<Rightarrow> ApplicationReference" where
  "canonRef r = (if arAPIGroup r = [] then r\<lparr>arAPIGroup := defaultAppGroup\<rparr> else r)"

definition encodeAttachments ::
    "(ApplicationReference list \<Rightarrow> string) \<Rightarrow> ApplicationReference list \<Rightarrow> string" where
  "encodeAttachments enc refs = (if refs = [] then [] else enc (map canonRef refs))"

definition decodeAttachments ::
    "(string \<Rightarrow> ApplicationReference list option) \<Rightarrow> string \<Rightarrow> ApplicationReference list" where
  "decodeAttachments dec s =
     (if s = [] then [] else case dec s of None \<Rightarrow> [] | Some refs \<Rightarrow> refs)"

definition stripMarkerLabel :: "strmap \<Rightarrow> strmap" where
  "stripMarkerLabel m = filter (\<lambda>(k, _). k \<noteq> sgLabelKey) m"

definition stripInternalAnnotations :: "strmap \<Rightarrow> strmap" where
  "stripInternalAnnotations m = filter (\<lambda>(k, _). k \<noteq> attachmentsAnnotation) m"

definition hasFinalizer :: "string list \<Rightarrow> string \<Rightarrow> bool" where
  "hasFinalizer fs name \<longleftrightarrow> name \<in> set fs"

definition strAt :: "strmap \<Rightarrow> string \<Rightarrow> string" where
  "strAt m k = strOf (map_of m) k"

definition policyToSecurityGroup ::
    "(string \<Rightarrow> ApplicationReference list option) \<Rightarrow> CiliumNetworkPolicy \<Rightarrow> SecurityGroup" where
  "policyToSecurityGroup dec np =
     \<lparr>sgMeta = (npMeta np)\<lparr>smLabels := stripMarkerLabel (smLabels (npMeta np)),
                           smAnnotations := stripInternalAnnotations (smAnnotations (npMeta np))\<rparr>,
      sgSpec = (case npSpec np of
                  None \<Rightarrow> \<lparr>Attachments = [], sgIngress = [], sgEgress = None\<rparr>
                | Some spec \<Rightarrow>
                    \<lparr>Attachments = decodeAttachments dec (strAt (smAnnotations (npMeta np)) attachmentsAnnotation),
                     sgIngress = reconstructIngress (cnIngress spec),
                     sgEgress = reconstructEgress (cnEgress spec)\<rparr>)\<rparr>"

definition normPorts :: "PortRule list \<Rightarrow> PortRule list" where
  "normPorts = map (\<lambda>r. r\<lparr>prPorts := map (\<lambda>p.
     if ppProtocol p \<noteq> [] then p\<lparr>ppProtocol := toUpper (ppProtocol p)\<rparr> else p) (prPorts r)\<rparr>)"

definition normalizePortProtocols :: "CiliumNetworkPolicySpec \<Rightarrow> CiliumNetworkPolicySpec" where
  "normalizePortProtocols spec =
     spec\<lparr>cnIngress := map (\<lambda>r. r\<lparr>ciToPorts := normPorts (ciToPorts r)\<rparr>) (cnIngress spec),
          cnEgress := map_option (map (\<lambda>r. r\<lparr>ceToPorts := normPorts (ceToPorts r)\<rparr>)) (cnEgress spec)\<rparr>"

definition emptyPolicy :: CiliumNetworkPolicy where
  "emptyPolicy = \<lparr>npMeta = \<lparr>smName = [], smNamespace = [], smUID = [], smResourceVersion = [],
      smCreation = 0, smDeletion = None, smLabels = [], smAnnotations = [], smOwners = [],
      smFinalizers = []\<rparr>, npGrace = None, npSystem = [], npSpec = None\<rparr>"

definition securityGroupToPolicy ::
    "(ApplicationReference list \<Rightarrow> string) \<Rightarrow> SecurityGroup \<Rightarrow> CiliumNetworkPolicy option \<Rightarrow>
     CiliumNetworkPolicy" where
  "securityGroupToPolicy enc sg cur =
     (let base = (case cur of None \<Rightarrow> emptyPolicy | Some c \<Rightarrow> c);
          sm = sgMeta sg;
          e = encodeAttachments enc (Attachments (sgSpec sg));
          annotations = (if e \<noteq> [] then AList.update attachmentsAnnotation e (smAnnotations sm)
                         else AList.delete attachmentsAnnotation (smAnnotations sm));
          finalizers = (case cur of
              None \<Rightarrow> smFinalizers sm
            | Some c \<Rightarrow> if hasFinalizer (smFinalizers (npMeta c)) MembershipFinalizer \<and>
                          \<not> hasFinalizer (smFinalizers sm) MembershipFinalizer
                       then smFinalizers sm @ [MembershipFinalizer] else smFinalizers sm)
      in base\<lparr>npMeta := (npMeta base)\<lparr>smName := smName sm, smNamespace := smNamespace sm,
                 smResourceVersion := smResourceVersion sm,
                 smLabels := AList.update sgLabelKey sgLabelValue (smLabels sm),
                 smAnnotations := annotations, smOwners := smOwners sm, smFinalizers := finalizers\<rparr>,
              npSpec := Some (normalizePortProtocols
                 \<lparr>EndpointSelector = buildEndpointSelector (smName sm),
                  cnIngress = projectIngress (sgIngress (sgSpec sg)),
                  cnEgress = projectEgress (sgEgress (sgSpec sg))\<rparr>)\<rparr>)"

definition isSecurityGroup :: "CiliumNetworkPolicy \<Rightarrow> bool" where
  "isSecurityGroup np \<longleftrightarrow> strAt (smLabels (npMeta np)) sgLabelKey = sgLabelValue"

subsection \<open>Validation\<close>

record validationLib =
  vlQualifiedName :: "string \<Rightarrow> string list" \<comment> \<open>\<open>IsQualifiedName\<close>: the complaints\<close>
  vlLabelValue :: "string \<Rightarrow> string list" \<comment> \<open>\<open>IsValidLabelValue\<close>\<close>
  vlPortName :: "string \<Rightarrow> string list" \<comment> \<open>\<open>IsValidPortName\<close>\<close>
  vlPrefix :: "string \<Rightarrow> bool" \<comment> \<open>\<open>netip.ParsePrefix\<close> succeeds\<close>
  vlAddr :: "string \<Rightarrow> bool" \<comment> \<open>\<open>netip.ParseAddr\<close> succeeds\<close>

datatype field_error =
  FieldRequired string
| FieldInvalid string string string
| FieldNotSupported string string

definition validProtocols :: "string list" where
  "validProtocols = [''TCP'', ''UDP'', ''SCTP'', ''ANY'']"

definition reservedEntities :: "string list" where
  "reservedEntities = [''world'', ''cluster'', ''kube-apiserver'', ''host'', ''remote-node'', ''health'',
     ''init'', ''unmanaged'', ''all'']"

definition validateLabelField :: "validationLib \<Rightarrow> string \<Rightarrow> string \<Rightarrow> field_error list" where
  "validateLabelField lib name value =
     (if value = [] then [] else map (FieldInvalid name value) (vlLabelValue lib value))"

definition validateAppRef :: "validationLib \<Rightarrow> ApplicationReference \<Rightarrow> field_error list" where
  "validateAppRef lib ref =
     (if arKind ref = [] then [FieldRequired ''kind''] else []) @
     (if arName ref = [] then [FieldRequired ''name''] else []) @
     validateLabelField lib ''apiGroup'' (arAPIGroup ref) @
     validateLabelField lib ''kind'' (arKind ref) @
     validateLabelField lib ''name'' (arName ref) @
     (if toLower (arName ref) \<in> set reservedEntities
      then [FieldInvalid ''name'' (arName ref) ''must not name a reserved Cilium entity''] else [])"

definition validateSGName :: "validationLib \<Rightarrow> string \<Rightarrow> field_error list" where
  "validateSGName lib n =
     (if n = [] then [FieldRequired ''must name a SecurityGroup'']
      else if toLower n \<in> set reservedEntities
        then [FieldInvalid ''sg'' n ''must not name a reserved Cilium entity'']
      else map (FieldInvalid ''sg'' n) (vlQualifiedName lib (MembershipLabelPrefix @ n)))"

definition validateCIDR :: "validationLib \<Rightarrow> string \<Rightarrow> field_error list" where
  "validateCIDR lib c =
     (if vlPrefix lib c then []
      else if vlAddr lib c then []
      else [FieldInvalid ''cidr'' c ''must be a valid CIDR or IP address''])"

definition validateFQDN :: "FQDNSelector \<Rightarrow> field_error list" where
  "validateFQDN f =
     (if MatchName f = [] \<and> MatchPattern f = [] then [FieldRequired ''must set matchName or matchPattern''] else [])"

definition validatePort :: "validationLib \<Rightarrow> PortProtocol \<Rightarrow> field_error list" where
  "validatePort lib pp =
     (if ppPort pp = [] then []
      else case atoi (ppPort pp) of
             Some n \<Rightarrow> if n < 1 \<or> n > 65535
                       then [FieldInvalid ''port'' (ppPort pp) ''port number must be between 1 and 65535''] else []
           | None \<Rightarrow> map (FieldInvalid ''port'' (ppPort pp)) (vlPortName lib (ppPort pp))) @
     (if ppProtocol pp \<noteq> [] \<and> toUpper (ppProtocol pp) \<notin> set validProtocols
      then [FieldNotSupported ''protocol'' (ppProtocol pp)] else [])"

definition validatePortRules :: "validationLib \<Rightarrow> PortRule list \<Rightarrow> field_error list" where
  "validatePortRules lib rules = concat (map (\<lambda>r. concat (map (validatePort lib) (prPorts r))) rules)"

definition validateIngress :: "validationLib \<Rightarrow> IngressRule \<Rightarrow> field_error list" where
  "validateIngress lib r =
     concat (map (validateAppRef lib) (FromApp r)) @ concat (map (validateSGName lib) (FromSG r)) @
     concat (map (validateCIDR lib) (FromCIDR r)) @ validatePortRules lib (inToPorts r)"

definition validateEgress :: "validationLib \<Rightarrow> EgressRule \<Rightarrow> field_error list" where
  "validateEgress lib r =
     concat (map (validateAppRef lib) (ToApp r)) @ concat (map (validateSGName lib) (ToSG r)) @
     concat (map (validateCIDR lib) (ToCIDR r)) @ validatePortRules lib (egToPorts r) @
     concat (map validateFQDN (ToFQDNs r))"

definition egressOf :: "SecurityGroupSpec \<Rightarrow> EgressRule list" where
  "egressOf s = (case sgEgress s of None \<Rightarrow> [] | Some rs \<Rightarrow> rs)"

definition validateSecurityGroup :: "validationLib \<Rightarrow> SecurityGroup \<Rightarrow> field_error list" where
  "validateSecurityGroup lib sg =
     map (FieldInvalid ''metadata.name'' (smName (sgMeta sg)))
       (vlQualifiedName lib (membershipLabelKey (smName (sgMeta sg)))) @
     concat (map (validateAppRef lib) (Attachments (sgSpec sg))) @
     concat (map (validateIngress lib) (sgIngress (sgSpec sg))) @
     concat (map (validateEgress lib) (egressOf (sgSpec sg)))"

subsection \<open>Deletion\<close>

definition FinalizerOrphan :: string where "FinalizerOrphan = ''orphan''"
definition FinalizerForeground :: string where "FinalizerForeground = ''foregroundDeletion''"

datatype propagation = PropOrphan | PropForeground | PropBackground

record deleteOptions =
  doDryRun :: bool
  doOrphan :: "bool option"
  doPolicy :: "propagation option"

definition dryRunDeleteResult ::
    "int \<Rightarrow> CiliumNetworkPolicy \<Rightarrow> deleteOptions option \<Rightarrow> CiliumNetworkPolicy \<times> bool" where
  "dryRunDeleteResult now current opts =
     (let cf = smFinalizers (npMeta current);
          kept = filter (\<lambda>f. f \<noteq> FinalizerOrphan \<and> f \<noteq> FinalizerForeground) cf;
          orphan = (case opts of None \<Rightarrow> None | Some o1 \<Rightarrow> doOrphan o1);
          policy = (case opts of None \<Rightarrow> None | Some o1 \<Rightarrow> doPolicy o1);
          finalizers =
            (case orphan of
               Some b \<Rightarrow> if b then kept @ [FinalizerOrphan] else kept
             | None \<Rightarrow>
                 (case policy of
                    Some PropOrphan \<Rightarrow> kept @ [FinalizerOrphan]
                  | Some PropForeground \<Rightarrow> kept @ [FinalizerForeground]
                  | Some PropBackground \<Rightarrow> kept
                  | None \<Rightarrow>
                      if hasFinalizer cf FinalizerOrphan then kept @ [FinalizerOrphan]
                      else if hasFinalizer cf FinalizerForeground then kept @ [FinalizerForeground]
                      else kept));
          out = current\<lparr>npMeta := (npMeta current)\<lparr>smFinalizers := finalizers\<rparr>\<rparr>
      in if finalizers = [] \<and> smDeletion (npMeta out) = None then (out, True)
         else (out\<lparr>npMeta := (npMeta out)\<lparr>smDeletion :=
                     (case smDeletion (npMeta out) of None \<Rightarrow> Some now | Some t \<Rightarrow> Some t)\<rparr>,
                   npGrace := Some 0\<rparr>, False))"

subsection \<open>The storage\<close>

datatype sg_error =
  SgBadRequest string
| SgInvalid "field_error list"
| SgNotFound
| SgClient string
| SgAdmission string

datatype backing_write =
  BackingCreate CiliumNetworkPolicy
| BackingUpdate CiliumNetworkPolicy
| BackingDelete string string

datatype backing_get = BackingFound CiliumNetworkPolicy | BackingNotFound | BackingError string

text \<open>The results of the calls one request makes to the backing API; a successful write returns
  the object as the server stored it.\<close>

record backingClient =
  bcGet :: "string \<Rightarrow> string \<Rightarrow> backing_get"
  bcGetAfter :: "string \<Rightarrow> string \<Rightarrow> backing_get" \<comment> \<open>the read after a deletion\<close>
  bcWrite :: "backing_write \<Rightarrow> string + CiliumNetworkPolicy"
  bcList :: "string \<Rightarrow> requirement list \<Rightarrow> string + CiliumNetworkPolicy list" \<comment> \<open>by namespace and label selector\<close>

type_synonym admission_fn = "(SecurityGroup \<Rightarrow> string option) option"

definition runAdmission :: "admission_fn \<Rightarrow> SecurityGroup \<Rightarrow> string option" where
  "runAdmission f sg = (case f of None \<Rightarrow> None | Some g \<Rightarrow> g sg)"

definition setSgNamespace :: "string \<Rightarrow> SecurityGroup \<Rightarrow> SecurityGroup" where
  "setSgNamespace ns sg = sg\<lparr>sgMeta := (sgMeta sg)\<lparr>smNamespace := ns\<rparr>\<rparr>"

definition setSgName :: "string \<Rightarrow> SecurityGroup \<Rightarrow> SecurityGroup" where
  "setSgName name sg = sg\<lparr>sgMeta := (sgMeta sg)\<lparr>smName := name\<rparr>\<rparr>"

record sgCodec =
  cdEnc :: "ApplicationReference list \<Rightarrow> string"
  cdDec :: "string \<Rightarrow> ApplicationReference list option"

text \<open>A request returns its writes in order with its result.\<close>

definition sgCreate ::
    "sgCodec \<Rightarrow> validationLib \<Rightarrow> backingClient \<Rightarrow> string option \<Rightarrow> admission_fn \<Rightarrow> SecurityGroup \<Rightarrow>
     backing_write list \<times> (sg_error + SecurityGroup)" where
  "sgCreate cd lib c ctxNS createValidation input =
     (case ctxNS of
        None \<Rightarrow> ([], Inl (SgBadRequest ''namespace required''))
      | Some ns \<Rightarrow>
          if smNamespace (sgMeta input) \<noteq> [] \<and> smNamespace (sgMeta input) \<noteq> ns
            then ([], Inl (SgBadRequest ''metadata.namespace must match request namespace''))
          else
            (let sg = setSgNamespace ns input; errs = validateSecurityGroup lib sg in
             if errs \<noteq> [] then ([], Inl (SgInvalid errs))
             else case runAdmission createValidation sg of
                    Some e \<Rightarrow> ([], Inl (SgAdmission e))
                  | None \<Rightarrow>
                      (let w = BackingCreate (securityGroupToPolicy (cdEnc cd) sg None) in
                       ([w], case bcWrite c w of
                               Inl e \<Rightarrow> Inl (SgClient e)
                             | Inr stored \<Rightarrow> Inr (policyToSecurityGroup (cdDec cd) stored)))))"

definition sgGet ::
    "sgCodec \<Rightarrow> backingClient \<Rightarrow> string option \<Rightarrow> string \<Rightarrow> sg_error + SecurityGroup" where
  "sgGet cd c ctxNS name =
     (case ctxNS of
        None \<Rightarrow> Inl (SgBadRequest ''namespace required'')
      | Some ns \<Rightarrow>
          (case bcGet c ns name of
             BackingNotFound \<Rightarrow> Inl SgNotFound
           | BackingError e \<Rightarrow> Inl (SgClient e)
           | BackingFound np \<Rightarrow>
               if \<not> isSecurityGroup np then Inl SgNotFound
               else Inr (policyToSecurityGroup (cdDec cd) np)))"

definition ByNamespacedName :: "SecurityGroup list \<Rightarrow> SecurityGroup list" where
  "ByNamespacedName = sort_key (\<lambda>sg. (smNamespace (sgMeta sg), smName (sgMeta sg)))"

definition buildSelector :: "labelSelector option \<Rightarrow> requirement list option" where
  "buildSelector sel = markedSelector sgLabelKey sgLabelValue sel"

text \<open>\<open>sel\<close> is the user's label selector, \<open>parsed\<close> the parsed field selector or its error.\<close>

definition sgList ::
    "sgCodec \<Rightarrow> backingClient \<Rightarrow> string \<Rightarrow> labelSelector option \<Rightarrow> string + Filter \<Rightarrow> sg_error + SecurityGroup list" where
  "sgList cd c ns sel parsed =
     (case buildSelector sel of
        None \<Rightarrow> Inr []
      | Some ls \<Rightarrow>
          (case parsed of
             Inl e \<Rightarrow> Inl (SgClient e)
           | Inr f \<Rightarrow>
               if fiNamespace f \<noteq> [] \<and> ns \<noteq> [] \<and> ns \<noteq> fiNamespace f then Inr []
               else case bcList c ns ls of
                      Inl e \<Rightarrow> Inl (SgClient e)
                    | Inr items \<Rightarrow>
                        Inr (ByNamespacedName (map (policyToSecurityGroup (cdDec cd))
                          (filter (\<lambda>np. MatchesName f (smName (npMeta np)) \<and>
                             MatchesNamespace f (smNamespace (npMeta np))) items)))))"

definition sgUpdate ::
    "sgCodec \<Rightarrow> validationLib \<Rightarrow> backingClient \<Rightarrow> string option \<Rightarrow> string \<Rightarrow>
     (SecurityGroup option \<Rightarrow> string + SecurityGroup) \<Rightarrow> admission_fn \<Rightarrow> admission_fn \<Rightarrow> bool \<Rightarrow>
     backing_write list \<times> (sg_error + SecurityGroup \<times> bool)" where
  "sgUpdate cd lib c ctxNS name updated createValidation updateValidation forceCreate =
     (case ctxNS of
        None \<Rightarrow> ([], Inl (SgBadRequest ''namespace required''))
      | Some ns \<Rightarrow>
          (case bcGet c ns name of
             BackingError e \<Rightarrow> ([], Inl (SgClient e))
           | got \<Rightarrow>
               (let cur = (case got of BackingFound np \<Rightarrow> Some np | _ \<Rightarrow> None) in
                if (\<exists>np. cur = Some np \<and> \<not> isSecurityGroup np) then ([], Inl SgNotFound)
                else case updated (map_option (policyToSecurityGroup (cdDec cd)) cur) of
                  Inl e \<Rightarrow> ([], Inl (SgClient e))
                | Inr input \<Rightarrow>
                    if smName (sgMeta input) \<noteq> [] \<and> smName (sgMeta input) \<noteq> name
                      then ([], Inl (SgBadRequest ''metadata.name must match request name''))
                    else
                      (let sg = setSgNamespace ns (setSgName name input);
                           errs = validateSecurityGroup lib sg;
                           new = securityGroupToPolicy (cdEnc cd) sg cur
                       in if errs \<noteq> [] then ([], Inl (SgInvalid errs))
                          else case cur of
                            None \<Rightarrow>
                              if \<not> forceCreate then ([], Inl SgNotFound)
                              else (case runAdmission createValidation sg of
                                      Some e \<Rightarrow> ([], Inl (SgAdmission e))
                                    | None \<Rightarrow>
                                        ([BackingCreate new], case bcWrite c (BackingCreate new) of
                                           Inl e \<Rightarrow> Inl (SgClient e)
                                         | Inr stored \<Rightarrow> Inr (policyToSecurityGroup (cdDec cd) stored, True)))
                          | Some old \<Rightarrow>
                              (case runAdmission updateValidation sg of
                                 Some e \<Rightarrow> ([], Inl (SgAdmission e))
                               | None \<Rightarrow>
                                   (let rv = smResourceVersion (npMeta new);
                                        new2 = new\<lparr>npMeta := (npMeta new)\<lparr>smResourceVersion :=
                                          (if rv = [] then smResourceVersion (npMeta old) else rv)\<rparr>\<rparr>
                                    in ([BackingUpdate new2], case bcWrite c (BackingUpdate new2) of
                                          Inl e \<Rightarrow> Inl (SgClient e)
                                        | Inr stored \<Rightarrow> Inr (policyToSecurityGroup (cdDec cd) stored, False))))))))"

definition sgDelete ::
    "sgCodec \<Rightarrow> backingClient \<Rightarrow> int \<Rightarrow> string option \<Rightarrow> string \<Rightarrow> admission_fn \<Rightarrow> deleteOptions option \<Rightarrow>
     backing_write list \<times> (sg_error + SecurityGroup \<times> bool)" where
  "sgDelete cd c now ctxNS name deleteValidation opts =
     (case ctxNS of
        None \<Rightarrow> ([], Inl (SgBadRequest ''namespace required''))
      | Some ns \<Rightarrow>
          (case bcGet c ns name of
             BackingNotFound \<Rightarrow> ([], Inl SgNotFound)
           | BackingError e \<Rightarrow> ([], Inl (SgClient e))
           | BackingFound current \<Rightarrow>
               if \<not> isSecurityGroup current then ([], Inl SgNotFound)
               else case runAdmission deleteValidation (policyToSecurityGroup (cdDec cd) current) of
                 Some e \<Rightarrow> ([], Inl (SgAdmission e))
               | None \<Rightarrow>
                   (let w = BackingDelete ns name in
                    ([w], case bcWrite c w of
                       Inl e \<Rightarrow> Inl (SgClient e)
                     | Inr _ \<Rightarrow>
                         if (case opts of None \<Rightarrow> False | Some o1 \<Rightarrow> doDryRun o1)
                         then (let (p, deleted) = dryRunDeleteResult now current opts
                               in Inr (policyToSecurityGroup (cdDec cd) p, deleted))
                         else (case bcGetAfter c ns name of
                                 BackingNotFound \<Rightarrow> Inr (policyToSecurityGroup (cdDec cd) current, True)
                               | BackingError e \<Rightarrow> Inl (SgClient e)
                               | BackingFound after \<Rightarrow> Inr (policyToSecurityGroup (cdDec cd) after, False))))))"

subsection \<open>Peers and selectors\<close>

locale peer_codec =
  fixes project :: "'p \<Rightarrow> LabelSelector" and read :: "LabelSelector \<Rightarrow> 'p option" and canon :: "'p \<Rightarrow> 'p"
  assumes read_project: "read (project p) = Some (canon p)"
    and project_canon: "project (canon p) = project p"
begin

lemma canon_idem: "canon (canon p) = canon p"
  using read_project project_canon by (metis option.inject)

lemma project_eq_iff: "project p = project p' \<longleftrightarrow> canon p = canon p'"
  using read_project project_canon by (metis option.inject)

lemma project_map_canon: "map project (map canon ps) = map project ps"
  by (simp add: project_canon)

end

interpretation app_peer: peer_codec appLabels appFromSelector canonRef
proof unfold_locales
  fix p
  show "appFromSelector (appLabels p) = Some (canonRef p)"
    by (cases p) (simp add: appFromSelector_def appLabels_def canonRef_def sg_keys)
  show "appLabels (canonRef p) = appLabels p"
    by (simp add: appLabels_def canonRef_def sg_keys)
qed

interpretation sg_peer: peer_codec buildEndpointSelector sgFromSelector "\<lambda>n. n"
  by unfold_locales (simp_all add: sgFromSelector_def buildEndpointSelector_def membershipLabelKey_def)

lemma appFromSelector_sg [simp]: "appFromSelector (buildEndpointSelector n) = None"
  by (simp add: appFromSelector_def buildEndpointSelector_def)

lemma peerSelectors_eq: "peerSelectors apps sgs = map appLabels apps @ map buildEndpointSelector sgs"
  by (simp add: peerSelectors_def buildEndpointSelector_def)

lemma splitPeers_project:
  "splitPeers (peerSelectors apps sgs) (a, s) = (a @ map canonRef apps, s @ sgs)"
proof -
  have "splitPeers (map buildEndpointSelector sgs) (a, s) = (a, s @ sgs)" for a s
    by (induction sgs arbitrary: s) (simp_all add: sg_peer.read_project)
  then show ?thesis unfolding peerSelectors_eq
    by (induction apps arbitrary: a) (simp_all add: app_peer.read_project)
qed

lemma peerSelectors_canon: "peerSelectors (map canonRef apps) sgs = peerSelectors apps sgs"
  unfolding peerSelectors_eq app_peer.project_map_canon ..

subsection \<open>Normalised ports\<close>

lemma upper_not_lower:
  "\<forall>c. (if isLowerAscii (if isLowerAscii c then char_of (of_char c - 32 :: nat) else c) then False else True)"
  by code_simp

lemma toUpper_idem [simp]: "toUpper (toUpper s) = toUpper s"
proof -
  have "\<not> isLowerAscii (if isLowerAscii c then char_of (of_char c - 32 :: nat) else c)" for c
    using upper_not_lower by metis
  then show ?thesis by (auto simp: toUpper_def)
qed

lemma toUpper_Nil [simp]: "toUpper s = [] \<longleftrightarrow> s = []"
  by (simp add: toUpper_def)

lemma normPorts_idem [simp]: "normPorts (normPorts rs) = normPorts rs"
  by (simp add: normPorts_def)

subsection \<open>What a write stores and a read returns\<close>

definition canonIngress :: "IngressRule \<Rightarrow> IngressRule" where
  "canonIngress r = r\<lparr>FromApp := map canonRef (FromApp r), inToPorts := normPorts (inToPorts r)\<rparr>"

definition canonEgress :: "EgressRule \<Rightarrow> EgressRule" where
  "canonEgress r = r\<lparr>ToApp := map canonRef (ToApp r), egToPorts := normPorts (egToPorts r)\<rparr>"

definition canonSpec :: "SecurityGroupSpec \<Rightarrow> SecurityGroupSpec" where
  "canonSpec s = \<lparr>Attachments = map canonRef (Attachments s), sgIngress = map canonIngress (sgIngress s),
     sgEgress = (if egressOf s = [] then None else Some (map canonEgress (egressOf s)))\<rparr>"

text \<open>What the code relies on of the JSON codec: a non-empty attachment list is encoded as a
  non-empty text that decodes to it.\<close>

definition codec_ok :: "sgCodec \<Rightarrow> bool" where
  "codec_ok cd \<longleftrightarrow> (\<forall>refs. refs \<noteq> [] \<longrightarrow> cdEnc cd refs \<noteq> [] \<and> cdDec cd (cdEnc cd refs) = Some refs)"

lemma reconstruct_project_ingress:
  "reconstructIngress (map (\<lambda>r. r\<lparr>ciToPorts := normPorts (ciToPorts r)\<rparr>) (projectIngress rs)) = map canonIngress rs"
  by (simp add: reconstructIngress_def projectIngress_def canonIngress_def splitPeers_project)

lemma reconstruct_project_egress:
  "reconstructEgress (map_option (map (\<lambda>r. r\<lparr>ceToPorts := normPorts (ceToPorts r)\<rparr>)) (projectEgress eg)) =
   (case eg of None \<Rightarrow> None | Some rs \<Rightarrow> if rs = [] then None else Some (map canonEgress rs))"
  by (cases eg) (simp_all add: reconstructEgress_def projectEgress_def canonEgress_def splitPeers_project)

lemma attachments_roundtrip:
  assumes "codec_ok cd"
  shows "decodeAttachments (cdDec cd) (strAt
     (if encodeAttachments (cdEnc cd) refs \<noteq> []
      then AList.update attachmentsAnnotation (encodeAttachments (cdEnc cd) refs) ann
      else AList.delete attachmentsAnnotation ann) attachmentsAnnotation) = map canonRef refs"
proof (cases "refs = []")
  case True
  then show ?thesis
    by (simp add: encodeAttachments_def decodeAttachments_def strAt_def strOf_def AList.delete_conv')
next
  case False
  then have "cdEnc cd (map canonRef refs) \<noteq> []" "cdDec cd (cdEnc cd (map canonRef refs)) = Some (map canonRef refs)"
    using assms by (simp_all add: codec_ok_def)
  with False show ?thesis
    by (simp add: encodeAttachments_def decodeAttachments_def strAt_def strOf_def update_conv')
qed

lemma view_spec:
  assumes "codec_ok cd"
  shows "sgSpec (policyToSecurityGroup (cdDec cd) (securityGroupToPolicy (cdEnc cd) sg cur)) = canonSpec (sgSpec sg)"
  using attachments_roundtrip [OF assms] reconstruct_project_ingress reconstruct_project_egress
  by (auto simp: policyToSecurityGroup_def securityGroupToPolicy_def Let_def normalizePortProtocols_def
      canonSpec_def egressOf_def split: option.splits)

text \<open>The policy as the API server stores it: the JSON form of an empty egress list is no egress list
  (\<open>omitempty\<close>), and the server assigns the identity, the resource version \<open>rv\<close>, the creation time
  and the managed fields.\<close>

definition omitEmptyEgress :: "CiliumNetworkPolicySpec \<Rightarrow> CiliumNetworkPolicySpec" where
  "omitEmptyEgress spec = (if cnEgress spec = Some [] then spec\<lparr>cnEgress := None\<rparr> else spec)"

definition storedPolicy :: "string \<Rightarrow> string \<Rightarrow> int \<Rightarrow> string \<Rightarrow> CiliumNetworkPolicy \<Rightarrow> CiliumNetworkPolicy" where
  "storedPolicy uid rv t sys np =
     np\<lparr>npMeta := (npMeta np)\<lparr>smUID := uid, smResourceVersion := rv, smCreation := t\<rparr>,
        npSystem := sys, npSpec := map_option omitEmptyEgress (npSpec np)\<rparr>"

text \<open>Two policies are the same object when they differ at most in how their label and annotation maps
  are listed.\<close>

definition samePolicy :: "CiliumNetworkPolicy \<Rightarrow> CiliumNetworkPolicy \<Rightarrow> bool" where
  "samePolicy a b \<longleftrightarrow>
     map_of (smLabels (npMeta a)) = map_of (smLabels (npMeta b)) \<and>
     map_of (smAnnotations (npMeta a)) = map_of (smAnnotations (npMeta b)) \<and>
     a\<lparr>npMeta := (npMeta a)\<lparr>smLabels := [], smAnnotations := []\<rparr>\<rparr> =
     b\<lparr>npMeta := (npMeta b)\<lparr>smLabels := [], smAnnotations := []\<rparr>\<rparr>"

lemma map_of_without: "map_of (filter (\<lambda>(k, _). k \<noteq> x) m) = (map_of m)(x := None)" for m :: strmap
  by (induction m) (auto simp: fun_eq_iff)

lemma canonRef_idem: "canonRef (canonRef r) = canonRef r"
  by (rule app_peer.canon_idem)

lemma encodeAttachments_canon: "encodeAttachments enc (map canonRef refs) = encodeAttachments enc refs"
  by (simp add: encodeAttachments_def canonRef_idem comp_def)

lemma stored_fields [simp]:
  "npMeta (storedPolicy uid rv t sys np) = (npMeta np)\<lparr>smUID := uid, smResourceVersion := rv, smCreation := t\<rparr>"
  "npSpec (storedPolicy uid rv t sys np) = map_option omitEmptyEgress (npSpec np)"
  "npGrace (storedPolicy uid rv t sys np) = npGrace np" "npSystem (storedPolicy uid rv t sys np) = sys"
  by (simp_all add: storedPolicy_def)

lemma view_meta:
  "sgMeta (policyToSecurityGroup dec np) = (npMeta np)\<lparr>smLabels := stripMarkerLabel (smLabels (npMeta np)),
     smAnnotations := stripInternalAnnotations (smAnnotations (npMeta np))\<rparr>"
  by (simp add: policyToSecurityGroup_def)

text \<open>The metadata of the projection, field by field.\<close>

lemma toPolicy_fields:
  defines "p \<equiv> \<lambda>enc sg cur. securityGroupToPolicy enc sg cur"
  shows "smName (npMeta (p enc sg cur)) = smName (sgMeta sg)"
    and "smNamespace (npMeta (p enc sg cur)) = smNamespace (sgMeta sg)"
    and "smOwners (npMeta (p enc sg cur)) = smOwners (sgMeta sg)"
    and "smDeletion (npMeta (p enc sg cur)) = (case cur of None \<Rightarrow> None | Some c \<Rightarrow> smDeletion (npMeta c))"
    and "npGrace (p enc sg cur) = (case cur of None \<Rightarrow> None | Some c \<Rightarrow> npGrace c)"
    and "map_of (smLabels (npMeta (p enc sg cur))) = (map_of (smLabels (sgMeta sg)))(sgLabelKey \<mapsto> sgLabelValue)"
    and "map_of (smAnnotations (npMeta (p enc sg cur))) = (map_of (smAnnotations (sgMeta sg)))(attachmentsAnnotation :=
          (let e = encodeAttachments enc (Attachments (sgSpec sg)) in if e \<noteq> [] then Some e else None))"
    and "smFinalizers (npMeta (p enc sg cur)) = (case cur of
              None \<Rightarrow> smFinalizers (sgMeta sg)
            | Some c \<Rightarrow> if hasFinalizer (smFinalizers (npMeta c)) MembershipFinalizer \<and>
                          \<not> hasFinalizer (smFinalizers (sgMeta sg)) MembershipFinalizer
                       then smFinalizers (sgMeta sg) @ [MembershipFinalizer] else smFinalizers (sgMeta sg))"
    and "npSpec (p enc sg cur) = Some (normalizePortProtocols
                 \<lparr>EndpointSelector = buildEndpointSelector (smName (sgMeta sg)),
                  cnIngress = projectIngress (sgIngress (sgSpec sg)),
                  cnEgress = projectEgress (sgEgress (sgSpec sg))\<rparr>)"
  by (auto simp: p_def securityGroupToPolicy_def Let_def emptyPolicy_def update_conv' AList.delete_conv' fun_eq_iff
      split: option.split)

lemma reconstruct_stored:
  "reconstructEgress (cnEgress (omitEmptyEgress spec)) = reconstructEgress (cnEgress spec)"
  by (simp add: omitEmptyEgress_def reconstructEgress_def)

lemma view_stored:
  "policyToSecurityGroup dec (storedPolicy uid rv t sys np) =
   (policyToSecurityGroup dec np)\<lparr>sgMeta := (sgMeta (policyToSecurityGroup dec np))
      \<lparr>smUID := uid, smResourceVersion := rv, smCreation := t\<rparr>\<rparr>"
  by (cases "npSpec np")
    (simp_all add: policyToSecurityGroup_def storedPolicy_def reconstruct_stored,
     simp_all add: omitEmptyEgress_def)

lemma policy_spec_canon:
  "omitEmptyEgress (normalizePortProtocols \<lparr>EndpointSelector = sel, cnIngress = projectIngress (sgIngress (canonSpec s)),
      cnEgress = projectEgress (sgEgress (canonSpec s))\<rparr>) =
    omitEmptyEgress (normalizePortProtocols \<lparr>EndpointSelector = sel, cnIngress = projectIngress (sgIngress s),
      cnEgress = projectEgress (sgEgress s)\<rparr>)"
  by (cases "sgEgress s") (simp_all add: normalizePortProtocols_def projectIngress_def projectEgress_def
      canonSpec_def canonIngress_def canonEgress_def peerSelectors_canon egressOf_def omitEmptyEgress_def)

text \<open>Writing back the view of a stored policy.\<close>

lemma write_back:
  assumes "codec_ok cd" and np: "np = storedPolicy uid rv t sys (securityGroupToPolicy (cdEnc cd) sg cur)"
  shows "samePolicy (storedPolicy uid rv t sys
    (securityGroupToPolicy (cdEnc cd) (policyToSecurityGroup (cdDec cd) np) (Some np))) np"
proof -
  let ?p = "securityGroupToPolicy (cdEnc cd) sg cur"
  let ?v = "policyToSecurityGroup (cdDec cd) np" let ?w = "securityGroupToPolicy (cdEnc cd) ?v (Some np)"
  have sp: "sgSpec ?v = canonSpec (sgSpec sg)" using view_spec [OF assms(1)] by (simp add: np view_stored)
  have e: "encodeAttachments (cdEnc cd) (Attachments (sgSpec ?v)) = encodeAttachments (cdEnc cd) (Attachments (sgSpec sg))"
    by (simp add: sp canonSpec_def encodeAttachments_canon)
  note f = toPolicy_fields view_meta
  have "map_of (smLabels (npMeta ?w)) = map_of (smLabels (npMeta ?p))"
    by (simp add: f np stripMarkerLabel_def map_of_without)
  moreover have "map_of (smAnnotations (npMeta ?w)) = map_of (smAnnotations (npMeta ?p))"
    unfolding f(7) [of _ ?v] e by (simp add: f np stripInternalAnnotations_def map_of_without)
  moreover have "map_option omitEmptyEgress (npSpec ?w) = map_option omitEmptyEgress (npSpec ?p)"
    unfolding f(9) sp using policy_spec_canon by (simp add: f np)
  moreover have "smFinalizers (npMeta ?w) = smFinalizers (npMeta ?p)"
    unfolding f(8) [of _ ?v] by (simp add: view_meta np)
  moreover have "smOwners (npMeta ?w) = smOwners (npMeta ?p)" "smName (npMeta ?w) = smName (npMeta ?p)"
    "smNamespace (npMeta ?w) = smNamespace (npMeta ?p)" "smDeletion (npMeta ?w) = smDeletion (npMeta ?p)"
    "npGrace ?w = npGrace ?p"
    unfolding f(1-5) [of _ ?v] by (simp_all add: view_meta np f)
  ultimately show ?thesis unfolding samePolicy_def np storedPolicy_def by simp
qed

text \<open>C14: reading back what was written. The SecurityGroup served from a stored policy has the
  written spec in its canonical form (application groups defaulted, protocols in upper case, an
  empty egress list, which JSON leaves out of the policy, unset), the written labels and
  annotations without the storage-owned ones, its owners, and its finalizers with the membership
  finalizer of the replaced policy; and writing that view back, as a patch without changes does,
  leaves the whole stored policy as it is: metadata, labels, annotations, finalizers and spec. For
  every value the server assigns, and also for a SecurityGroup with an empty egress list.\<close>

theorem SecurityGroup_roundtrip:
  assumes "codec_ok cd"
    and np_def: "np = storedPolicy uid rv t sys (securityGroupToPolicy (cdEnc cd) sg cur)"
    and view_def: "view = policyToSecurityGroup (cdDec cd) np"
  shows "sgSpec view = canonSpec (sgSpec sg) \<and>
    smName (sgMeta view) = smName (sgMeta sg) \<and> smNamespace (sgMeta view) = smNamespace (sgMeta sg) \<and>
    map_of (smLabels (sgMeta view)) = (map_of (smLabels (sgMeta sg)))(sgLabelKey := None) \<and>
    map_of (smAnnotations (sgMeta view)) = (map_of (smAnnotations (sgMeta sg)))(attachmentsAnnotation := None) \<and>
    smOwners (sgMeta view) = smOwners (sgMeta sg) \<and>
    set (smFinalizers (sgMeta view)) = set (smFinalizers (sgMeta sg)) \<union>
      (case cur of None \<Rightarrow> {} | Some c \<Rightarrow> {MembershipFinalizer} \<inter> set (smFinalizers (npMeta c))) \<and>
    samePolicy (storedPolicy uid rv t sys (securityGroupToPolicy (cdEnc cd) view (Some np))) np"
proof -
  note f = toPolicy_fields view_meta
  have "sgSpec view = canonSpec (sgSpec sg)" using view_spec [OF assms(1)] by (simp add: view_def np_def view_stored)
  moreover have "smName (sgMeta view) = smName (sgMeta sg)" "smNamespace (sgMeta view) = smNamespace (sgMeta sg)"
    "smOwners (sgMeta view) = smOwners (sgMeta sg)" by (simp_all add: view_def np_def f)
  moreover have "map_of (smLabels (sgMeta view)) = (map_of (smLabels (sgMeta sg)))(sgLabelKey := None)"
    "map_of (smAnnotations (sgMeta view)) = (map_of (smAnnotations (sgMeta sg)))(attachmentsAnnotation := None)"
    by (simp_all add: view_def np_def f stripMarkerLabel_def stripInternalAnnotations_def map_of_without)
  moreover have "set (smFinalizers (sgMeta view)) = set (smFinalizers (sgMeta sg)) \<union>
      (case cur of None \<Rightarrow> {} | Some c \<Rightarrow> {MembershipFinalizer} \<inter> set (smFinalizers (npMeta c)))"
    by (cases cur) (auto simp: view_def np_def f hasFinalizer_def)
  moreover note write_back [OF assms(1) np_def]
  ultimately show ?thesis unfolding view_def by blast
qed

text \<open>A concrete codec: every character is preceded by a dot, every string ends with a semicolon.\<close>

definition dotStr :: "string \<Rightarrow> string" where
  "dotStr s = concat (map (\<lambda>c. [CHR ''.'', c]) s) @ '';''"

fun undotStr :: "string \<Rightarrow> (string \<times> string) option" where
  "undotStr (a # c # r) =
     (if a = CHR '';'' then Some ([], c # r)
      else map_option (\<lambda>(s, t). (c # s, t)) (undotStr r))"
| "undotStr [a] = (if a = CHR '';'' then Some ([], []) else None)"
| "undotStr [] = None"

lemma undot_dot: "undotStr (dotStr s @ t) = Some (s, t)"
proof (induction s)
  case Nil
  then show ?case by (cases t) (simp_all add: dotStr_def)
qed (simp add: dotStr_def)

definition dotRef :: "ApplicationReference \<Rightarrow> string" where
  "dotRef r = dotStr (arAPIGroup r) @ dotStr (arKind r) @ dotStr (arName r)"

fun undotRefs :: "nat \<Rightarrow> string \<Rightarrow> ApplicationReference list option" where
  "undotRefs 0 s = None"
| "undotRefs (Suc n) s =
     (if s = [] then Some []
      else case undotStr s of None \<Rightarrow> None | Some (g, s1) \<Rightarrow>
        (case undotStr s1 of None \<Rightarrow> None | Some (k, s2) \<Rightarrow>
          (case undotStr s2 of None \<Rightarrow> None | Some (m, s3) \<Rightarrow>
            map_option (\<lambda>rs. \<lparr>arAPIGroup = g, arKind = k, arName = m\<rparr> # rs) (undotRefs n s3))))"

definition dotCodec :: sgCodec where
  "dotCodec = \<lparr>cdEnc = (\<lambda>rs. concat (map dotRef rs)), cdDec = (\<lambda>s. undotRefs (Suc (length s)) s)\<rparr>"

lemma dotRef_not_Nil [simp]: "dotRef r \<noteq> []"
  by (simp add: dotRef_def dotStr_def)

lemma undotRefs_dot: "length (concat (map dotRef rs)) < n \<Longrightarrow> undotRefs n (concat (map dotRef rs)) = Some rs"
proof (induction rs arbitrary: n)
  case Nil
  then show ?case by (cases n) simp_all
next
  case (Cons r rs)
  obtain m where n: "n = Suc m" using Cons.prems by (cases n) auto
  have "0 < length (dotRef r)" by simp
  with Cons n have ih: "undotRefs m (concat (map dotRef rs)) = Some rs" by (intro Cons.IH) (simp del: length_greater_0_conv)
  have e: "concat (map dotRef (r # rs)) =
      dotStr (arAPIGroup r) @ dotStr (arKind r) @ dotStr (arName r) @ concat (map dotRef rs)"
    by (simp add: dotRef_def)
  have ne: "dotStr s \<noteq> []" for s by (simp add: dotStr_def)
  show ?case unfolding n e by (simp add: undot_dot ih ne)
qed

lemma codec_ok_dot: "codec_ok dotCodec"
  by (simp add: codec_ok_def dotCodec_def undotRefs_dot del: undotRefs.simps)

definition demoSG :: SecurityGroup where
  "demoSG = \<lparr>sgMeta = \<lparr>smName = ''web'', smNamespace = ''tenant-a'', smUID = [], smResourceVersion = [],
       smCreation = 0, smDeletion = None, smLabels = [(''sdn.cozystack.io/securitygroup'', ''false'')],
       smAnnotations = [], smOwners = [], smFinalizers = []\<rparr>,
     sgSpec = \<lparr>Attachments = [\<lparr>arAPIGroup = [], arKind = ''Postgres'', arName = ''db''\<rparr>],
       sgIngress = [\<lparr>FromApp = [], FromSG = [''front''], FromCIDR = [''10.0.0.0/8''],
         inToPorts = [\<lparr>prPorts = [\<lparr>ppPort = ''5432'', ppProtocol = ''tcp''\<rparr>]\<rparr>]\<rparr>], sgEgress = None\<rparr>\<rparr>"

theorem SecurityGroup_roundtrip_witness:
  "sgSpec (policyToSecurityGroup (cdDec dotCodec) (storedPolicy ''u1'' ''7'' 5 [] (securityGroupToPolicy (cdEnc dotCodec) demoSG None))) =
     \<lparr>Attachments = [\<lparr>arAPIGroup = ''apps.cozystack.io'', arKind = ''Postgres'', arName = ''db''\<rparr>],
      sgIngress = [\<lparr>FromApp = [], FromSG = [''front''], FromCIDR = [''10.0.0.0/8''],
        inToPorts = [\<lparr>prPorts = [\<lparr>ppPort = ''5432'', ppProtocol = ''TCP''\<rparr>]\<rparr>]\<rparr>], sgEgress = None\<rparr>"
proof -
  from SecurityGroup_roundtrip [OF codec_ok_dot refl refl]
  have "sgSpec (policyToSecurityGroup (cdDec dotCodec) (storedPolicy ''u1'' ''7'' 5 [] (securityGroupToPolicy (cdEnc dotCodec) demoSG None))) =
      canonSpec (sgSpec demoSG)" by blast
  also have "\<dots> = \<lparr>Attachments = [\<lparr>arAPIGroup = ''apps.cozystack.io'', arKind = ''Postgres'', arName = ''db''\<rparr>],
      sgIngress = [\<lparr>FromApp = [], FromSG = [''front''], FromCIDR = [''10.0.0.0/8''],
        inToPorts = [\<lparr>prPorts = [\<lparr>ppPort = ''5432'', ppProtocol = ''TCP''\<rparr>]\<rparr>]\<rparr>], sgEgress = None\<rparr>"
    by code_simp
  finally show ?thesis .
qed

text \<open>the storage owns its policies. Whatever the request carries, the policy it writes is marked
  as a SecurityGroup's, selects exactly the group's own members, keeps the identity and system
  metadata of the policy it replaces, and keeps the membership finalizer whenever that policy has
  it, also while it is terminating.\<close>

theorem securityGroupToPolicy_owned:
  "isSecurityGroup (securityGroupToPolicy enc sg cur) \<and>
   map_option EndpointSelector (npSpec (securityGroupToPolicy enc sg cur)) =
     Some [(MembershipLabelPrefix @ smName (sgMeta sg), [])] \<and>
   (\<forall>c. cur = Some c \<longrightarrow>
      smUID (npMeta (securityGroupToPolicy enc sg cur)) = smUID (npMeta c) \<and>
      smDeletion (npMeta (securityGroupToPolicy enc sg cur)) = smDeletion (npMeta c) \<and>
      npSystem (securityGroupToPolicy enc sg cur) = npSystem c \<and>
      (MembershipFinalizer \<in> set (smFinalizers (npMeta c)) \<longrightarrow>
        MembershipFinalizer \<in> set (smFinalizers (npMeta (securityGroupToPolicy enc sg cur)))))"
  by (auto simp: securityGroupToPolicy_def Let_def isSecurityGroup_def strAt_def strOf_def update_conv'
      normalizePortProtocols_def buildEndpointSelector_def membershipLabelKey_def hasFinalizer_def)

definition terminatingPolicy :: CiliumNetworkPolicy where
  "terminatingPolicy = emptyPolicy\<lparr>npMeta := (npMeta emptyPolicy)\<lparr>smUID := ''u1'', smDeletion := Some 7,
     smFinalizers := [MembershipFinalizer]\<rparr>\<rparr>"

theorem securityGroupToPolicy_owned_witness:
  "isSecurityGroup (securityGroupToPolicy (\<lambda>_. ''x'') demoSG (Some terminatingPolicy)) \<and>
   MembershipFinalizer \<in> set (smFinalizers (npMeta (securityGroupToPolicy (\<lambda>_. ''x'') demoSG (Some terminatingPolicy))))"
  using securityGroupToPolicy_owned [of "\<lambda>_. ''x''" demoSG "Some terminatingPolicy"]
  by (simp add: terminatingPolicy_def emptyPolicy_def)

subsection \<open>Requests\<close>

definition write_target :: "backing_write \<Rightarrow> string \<times> string" where
  "write_target w = (case w of
     BackingCreate np \<Rightarrow> (smNamespace (npMeta np), smName (npMeta np))
   | BackingUpdate np \<Rightarrow> (smNamespace (npMeta np), smName (npMeta np))
   | BackingDelete ns name \<Rightarrow> (ns, name))"

definition write_marked :: "backing_write \<Rightarrow> bool" where
  "write_marked w = (case w of
     BackingCreate np \<Rightarrow> isSecurityGroup np | BackingUpdate np \<Rightarrow> isSecurityGroup np | BackingDelete _ _ \<Rightarrow> True)"

lemma toPolicy_target [simp]:
  "smNamespace (npMeta (securityGroupToPolicy enc sg cur)) = smNamespace (sgMeta sg)"
  "smName (npMeta (securityGroupToPolicy enc sg cur)) = smName (sgMeta sg)"
  by (simp_all add: securityGroupToPolicy_def Let_def)

lemma toPolicy_marked [simp]: "isSecurityGroup (securityGroupToPolicy enc sg cur)"
  by (simp add: securityGroupToPolicy_def Let_def isSecurityGroup_def strAt_def strOf_def update_conv')

lemma isSecurityGroup_rv [simp]:
  "isSecurityGroup (np\<lparr>npMeta := (npMeta np)\<lparr>smResourceVersion := v\<rparr>\<rparr>) = isSecurityGroup np"
  by (simp add: isSecurityGroup_def)

lemmas set_sg_simps [simp] = setSgNamespace_def setSgName_def

lemma sgUpdate_writes:
  assumes "w \<in> set (fst (sgUpdate cd lib c (Some ns) name upd cv uv force))"
  shows "write_target w = (ns, name) \<and> write_marked w \<and>
    (\<forall>np. bcGet c ns name = BackingFound np \<longrightarrow> isSecurityGroup np)"
proof (cases "bcGet c ns name")
  case (BackingFound np)
  then show ?thesis using assms
    by (auto simp: sgUpdate_def Let_def write_target_def write_marked_def
        split: sum.splits option.splits if_splits)
next
  case BackingNotFound
  then show ?thesis using assms
    by (auto simp: sgUpdate_def Let_def write_target_def write_marked_def
        split: sum.splits option.splits if_splits)
next
  case (BackingError e)
  then show ?thesis using assms by (simp add: sgUpdate_def)
qed

text \<open>requests stay within their target. Every write of a create, an update or a deletion goes
  to the namespace of the request and, for an update or a deletion, to the name it addresses;
  whatever is created or updated is marked; and a policy that is not a SecurityGroup's is never
  returned, changed or deleted through this storage: a request for it answers NotFound.\<close>

theorem SecurityGroup_requests_confined:
  "(\<forall>w \<in> set (fst (sgCreate cd lib c (Some ns) cv sg)). fst (write_target w) = ns \<and> write_marked w) \<and>
   (\<forall>w \<in> set (fst (sgUpdate cd lib c (Some ns) name upd cv uv force)). write_target w = (ns, name) \<and> write_marked w) \<and>
   (\<forall>w \<in> set (fst (sgDelete cd c now (Some ns) name dv opts)). write_target w = (ns, name)) \<and>
   (\<forall>np. bcGet c ns name = BackingFound np \<and> \<not> isSecurityGroup np \<longrightarrow>
      sgGet cd c (Some ns) name = Inl SgNotFound \<and>
      sgUpdate cd lib c (Some ns) name upd cv uv force = ([], Inl SgNotFound) \<and>
      sgDelete cd c now (Some ns) name dv opts = ([], Inl SgNotFound))"
proof (intro conjI ballI allI impI)
  fix w assume "w \<in> set (fst (sgCreate cd lib c (Some ns) cv sg))"
  then show "fst (write_target w) = ns" "write_marked w"
    by (auto simp: sgCreate_def Let_def write_target_def write_marked_def split: option.splits if_splits)
next
  fix w assume w: "w \<in> set (fst (sgUpdate cd lib c (Some ns) name upd cv uv force))"
  show "write_target w = (ns, name)" "write_marked w" using sgUpdate_writes [OF w] by blast+
next
  fix w assume "w \<in> set (fst (sgDelete cd c now (Some ns) name dv opts))"
  then show "write_target w = (ns, name)"
    by (auto simp: sgDelete_def Let_def write_target_def split: backing_get.splits option.splits if_splits)
qed (simp_all add: sgGet_def sgUpdate_def sgDelete_def Let_def)

definition foreignClient :: backingClient where
  "foreignClient = \<lparr>bcGet = (\<lambda>_ _. BackingFound emptyPolicy), bcGetAfter = (\<lambda>_ _. BackingNotFound),
     bcWrite = (\<lambda>_. Inl ''unused''), bcList = (\<lambda>_ _. Inr [])\<rparr>"

theorem SecurityGroup_requests_confined_witness:
  "sgDelete dotCodec foreignClient 0 (Some ''tenant-a'') ''isolation'' None None = ([], Inl SgNotFound)"
proof -
  have f: "bcGet foreignClient ''tenant-a'' ''isolation'' = BackingFound emptyPolicy \<and> \<not> isSecurityGroup emptyPolicy"
    by (simp add: foreignClient_def emptyPolicy_def isSecurityGroup_def strAt_def strOf_def sg_keys)
  show ?thesis
    using SecurityGroup_requests_confined [of dotCodec undefined foreignClient "''tenant-a''" None demoSG "''isolation''"
      "\<lambda>_. Inr demoSG" None False 0 None None] f by blast
qed

subsection \<open>Dry-run deletion\<close>

text \<open>a dry-run deletion predicts the real one. It reports an immediate deletion exactly when
  no finalizer is left and the policy is not terminating already; otherwise the policy is returned
  as terminating, since its former deletion time or now. At most one garbage-collection finalizer
  remains, the one the options ask for, or the one already present when they ask for none, and all
  other finalizers are kept in order.\<close>

theorem dryRunDeleteResult_predicts:
  assumes "dryRunDeleteResult now cur opts = (out, deleted)"
  defines "other \<equiv> \<lambda>fs. filter (\<lambda>f. f \<noteq> FinalizerOrphan \<and> f \<noteq> FinalizerForeground) fs"
  shows "(deleted \<longleftrightarrow> smFinalizers (npMeta out) = [] \<and> smDeletion (npMeta cur) = None) \<and>
    (\<not> deleted \<longrightarrow> smDeletion (npMeta out) = Some (case smDeletion (npMeta cur) of None \<Rightarrow> now | Some t \<Rightarrow> t) \<and>
       npGrace out = Some 0) \<and>
    other (smFinalizers (npMeta out)) = other (smFinalizers (npMeta cur)) \<and>
    (let gc = filter (\<lambda>f. f = FinalizerOrphan \<or> f = FinalizerForeground) (smFinalizers (npMeta out)) in
     length gc \<le> 1 \<and>
     (\<forall>o1. opts = Some o1 \<and> doOrphan o1 = Some True \<longrightarrow> gc = [FinalizerOrphan]) \<and>
     (\<forall>o1. opts = Some o1 \<and> doOrphan o1 = None \<and> doPolicy o1 = Some PropForeground \<longrightarrow> gc = [FinalizerForeground]) \<and>
     (\<forall>o1. opts = Some o1 \<and> doOrphan o1 = None \<and> doPolicy o1 = Some PropBackground \<longrightarrow> gc = []) \<and>
     (opts = None \<longrightarrow> set gc \<subseteq> set (smFinalizers (npMeta cur))))"
proof -
  have ne: "FinalizerOrphan \<noteq> FinalizerForeground" by (simp add: FinalizerOrphan_def FinalizerForeground_def)
  let ?cf = "smFinalizers (npMeta cur)"
  obtain g where g: "smFinalizers (npMeta out) = other ?cf @ g" "g = [] \<or> g = [FinalizerOrphan] \<or> g = [FinalizerForeground]"
    "\<forall>o1. opts = Some o1 \<and> doOrphan o1 = Some True \<longrightarrow> g = [FinalizerOrphan]"
    "\<forall>o1. opts = Some o1 \<and> doOrphan o1 = None \<and> doPolicy o1 = Some PropForeground \<longrightarrow> g = [FinalizerForeground]"
    "\<forall>o1. opts = Some o1 \<and> doOrphan o1 = None \<and> doPolicy o1 = Some PropBackground \<longrightarrow> g = []"
    "opts = None \<longrightarrow> set g \<subseteq> set ?cf"
    using assms(1) unfolding other_def
    by (auto simp: dryRunDeleteResult_def Let_def hasFinalizer_def split: option.splits propagation.splits if_splits)
  have "filter (\<lambda>f. f = FinalizerOrphan \<or> f = FinalizerForeground) (smFinalizers (npMeta out)) = g"
    using g(1,2) by (auto simp: other_def filter_empty_conv)
  moreover have "other (smFinalizers (npMeta out)) = other ?cf"
    using g(1,2) by (auto simp: other_def)
  moreover have "deleted \<longleftrightarrow> smFinalizers (npMeta out) = [] \<and> smDeletion (npMeta cur) = None"
    "\<not> deleted \<longrightarrow> smDeletion (npMeta out) = Some (case smDeletion (npMeta cur) of None \<Rightarrow> now | Some t \<Rightarrow> t) \<and>
       npGrace out = Some 0"
    using assms(1) by (auto simp: dryRunDeleteResult_def Let_def split: option.splits if_splits)
  ultimately show ?thesis using g(2-6) by (auto simp: Let_def)
qed

theorem dryRunDeleteResult_predicts_witness:
  "\<not> snd (dryRunDeleteResult 9 terminatingPolicy None) \<and>
   smDeletion (npMeta (fst (dryRunDeleteResult 9 terminatingPolicy None))) = Some 7"
proof -
  have d: "smDeletion (npMeta terminatingPolicy) = Some 7" by (simp add: terminatingPolicy_def)
  have e: "dryRunDeleteResult 9 terminatingPolicy None =
      (fst (dryRunDeleteResult 9 terminatingPolicy None), snd (dryRunDeleteResult 9 terminatingPolicy None))" by simp
  show ?thesis using dryRunDeleteResult_predicts [OF e] d by auto
qed

end
