(* ===== verification/SG_Membership.thy ===== *)
theory SG_Membership
  imports Security_Group
begin

text \<open>
  The SecurityGroup membership controller (\<open>internal/securitygroupcontroller/reconciler.go\<close>). Its
  state is the pods of the group's namespace with their labels, and the finalizers of the backing
  policy. The controller lists pods from the informer cache of its manager and patches them at the
  API server, so a list need not show the store as it is: \<open>view i\<close> is what the cache holds at the
  \<open>i\<close>-th list of a run, an arbitrary store. The API is the argument \<open>api\<close>, with its documented
  behaviour as the predicate \<open>pod_api\<close>: a list returns the cached pods that match its label selector,
  a merge patch of one label changes that label of the stored pod and nothing else, and either may
  fail instead. A run keeps the store it reached when it stops at an error.
\<close>

type_synonym podLabels = "string \<rightharpoonup> string"
type_synonym podStore = "string \<rightharpoonup> podLabels"

record podAPI =
  paList :: "nat \<Rightarrow> LabelSelector \<Rightarrow> string + (string \<times> podLabels) list" \<comment> \<open>the lists of a run, in order\<close>
  paPatch :: "podStore \<Rightarrow> string \<Rightarrow> string \<Rightarrow> string option \<Rightarrow> string + podStore"
  paFinalizers :: "string list \<Rightarrow> string + string list" \<comment> \<open>patch of the policy's finalizers\<close>

definition selects :: "LabelSelector \<Rightarrow> podLabels \<Rightarrow> bool" where
  "selects sel l \<longleftrightarrow> (\<forall>(k, v) \<in> set sel. l k = Some v)"

definition pod_api :: "(nat \<Rightarrow> podStore) \<Rightarrow> podAPI \<Rightarrow> bool" where
  "pod_api view api \<longleftrightarrow>
     (\<forall>i sel pods. paList api i sel = Inr pods \<longrightarrow>
        (\<forall>n l. (n, l) \<in> set pods \<longleftrightarrow> view i n = Some l \<and> selects sel l)) \<and>
     (\<forall>st n k v st'. paPatch api st n k v = Inr st' \<longrightarrow>
        (\<exists>l. st n = Some l \<and> st' = st(n \<mapsto> l(k := v)))) \<and>
     (\<forall>fs fs'. paFinalizers api fs = Inr fs' \<longrightarrow> fs' = fs)"

subsection \<open>Operations\<close>

definition addMembership :: "podAPI \<Rightarrow> string \<Rightarrow> string \<times> podLabels \<Rightarrow> podStore \<Rightarrow> string + podStore" where
  "addMembership api key pod st =
     (if snd pod key \<noteq> None then Inr st else paPatch api st (fst pod) key (Some []))"

definition removeMembership :: "podAPI \<Rightarrow> string \<Rightarrow> string \<times> podLabels \<Rightarrow> podStore \<Rightarrow> string + podStore" where
  "removeMembership api key pod st =
     (if snd pod key = None then Inr st else paPatch api st (fst pod) key None)"

fun eachPod ::
    "(string \<times> podLabels \<Rightarrow> podStore \<Rightarrow> string + podStore) \<Rightarrow> (string \<times> podLabels) list \<Rightarrow> podStore \<Rightarrow>
     podStore \<times> string option" where
  "eachPod f [] st = (st, None)"
| "eachPod f (p # ps) st = (case f p st of Inl e \<Rightarrow> (st, Some e) | Inr st' \<Rightarrow> eachPod f ps st')"

definition stripMembership :: "podAPI \<Rightarrow> string \<Rightarrow> podStore \<Rightarrow> podStore \<times> string option" where
  "stripMembership api key st =
     (case paList api 0 [(key, [])] of
        Inl e \<Rightarrow> (st, Some e)
      | Inr pods \<Rightarrow> eachPod (removeMembership api key) pods st)"

text \<open>The loop over the attachments: lists and labels the pods of each application, and collects
  the names of the desired members.\<close>

fun addAttachments ::
    "podAPI \<Rightarrow> string \<Rightarrow> nat \<Rightarrow> ApplicationReference list \<Rightarrow> string set \<Rightarrow> podStore \<Rightarrow>
     podStore \<times> (string + string set)" where
  "addAttachments api key i [] desired st = (st, Inr desired)"
| "addAttachments api key i (app # apps) desired st =
     (case paList api i (appLabels app) of
        Inl e \<Rightarrow> (st, Inl e)
      | Inr pods \<Rightarrow>
          (case eachPod (addMembership api key) pods st of
             (st', Some e) \<Rightarrow> (st', Inl e)
           | (st', None) \<Rightarrow> addAttachments api key (Suc i) apps (desired \<union> fst ` set pods) st'))"

record membershipState =
  msStore :: podStore
  msFinalizers :: "string list"
  msOutcome :: "string + bool" \<comment> \<open>an error, or whether a resync is queued\<close>

definition ensureFinalizer :: "podAPI \<Rightarrow> string list \<Rightarrow> string + string list" where
  "ensureFinalizer api fs =
     (if hasFinalizer fs MembershipFinalizer then Inr fs else paFinalizers api (fs @ [MembershipFinalizer]))"

definition removeFinalizer :: "podAPI \<Rightarrow> string list \<Rightarrow> string + string list" where
  "removeFinalizer api fs = paFinalizers api (filter (\<lambda>f. f \<noteq> MembershipFinalizer) fs)"

definition reconcileDeleted :: "podAPI \<Rightarrow> string \<Rightarrow> string list \<Rightarrow> podStore \<Rightarrow> membershipState" where
  "reconcileDeleted api key fs st =
     (if \<not> hasFinalizer fs MembershipFinalizer
      then \<lparr>msStore = st, msFinalizers = fs, msOutcome = Inr False\<rparr>
      else case stripMembership api key st of
             (st', Some e) \<Rightarrow> \<lparr>msStore = st', msFinalizers = fs, msOutcome = Inl e\<rparr>
           | (st', None) \<Rightarrow>
               (case removeFinalizer api fs of
                  Inl e \<Rightarrow> \<lparr>msStore = st', msFinalizers = fs, msOutcome = Inl e\<rparr>
                | Inr fs' \<Rightarrow> \<lparr>msStore = st', msFinalizers = fs', msOutcome = Inr False\<rparr>))"

definition dropDetached :: "podAPI \<Rightarrow> string \<Rightarrow> nat \<Rightarrow> string set \<Rightarrow> podStore \<Rightarrow> podStore \<times> string option" where
  "dropDetached api key i desired st =
     (case paList api i [(key, [])] of
        Inl e \<Rightarrow> (st, Some e)
      | Inr pods \<Rightarrow> eachPod (removeMembership api key) (filter (\<lambda>p. fst p \<notin> desired) pods) st)"

definition reconcileLive ::
    "podAPI \<Rightarrow> string \<Rightarrow> ApplicationReference list \<Rightarrow> string list \<Rightarrow> podStore \<Rightarrow> membershipState" where
  "reconcileLive api key apps fs st =
     (case ensureFinalizer api fs of
        Inl e \<Rightarrow> \<lparr>msStore = st, msFinalizers = fs, msOutcome = Inl e\<rparr>
      | Inr fs1 \<Rightarrow>
          (case addAttachments api key 0 apps {} st of
             (st1, Inl e) \<Rightarrow> \<lparr>msStore = st1, msFinalizers = fs1, msOutcome = Inl e\<rparr>
           | (st1, Inr desired) \<Rightarrow>
               (case dropDetached api key (length apps) desired st1 of
                  (st2, Some e) \<Rightarrow> \<lparr>msStore = st2, msFinalizers = fs1, msOutcome = Inl e\<rparr>
                | (st2, None) \<Rightarrow> \<lparr>msStore = st2, msFinalizers = fs1, msOutcome = Inr True\<rparr>)))"

definition SecurityGroupReconcile ::
    "(string \<Rightarrow> ApplicationReference list option) \<Rightarrow> podAPI \<Rightarrow> backing_get \<Rightarrow> podStore \<Rightarrow> membershipState" where
  "SecurityGroupReconcile dec api got st =
     (case got of
        BackingNotFound \<Rightarrow> \<lparr>msStore = st, msFinalizers = [], msOutcome = Inr False\<rparr>
      | BackingError e \<Rightarrow> \<lparr>msStore = st, msFinalizers = [], msOutcome = Inl e\<rparr>
      | BackingFound cnp \<Rightarrow>
          (let m = npMeta cnp; key = membershipLabelKey (smName m) in
           if strAt (smLabels m) sgLabelKey \<noteq> sgLabelValue
             then \<lparr>msStore = st, msFinalizers = smFinalizers m, msOutcome = Inr False\<rparr>
           else if smDeletion m \<noteq> None then reconcileDeleted api key (smFinalizers m) st
           else reconcileLive api key
                  (decodeAttachments dec (strAt (smAnnotations m) attachmentsAnnotation)) (smFinalizers m) st))"

definition appMatchesPod :: "ApplicationReference \<Rightarrow> podLabels \<Rightarrow> bool" where
  "appMatchesPod ref l \<longleftrightarrow> (\<forall>(k, v) \<in> set (appLabels ref). strOf l k = v)"

definition mapPodToSGs ::
    "(string \<Rightarrow> ApplicationReference list option) \<Rightarrow> string + CiliumNetworkPolicy list \<Rightarrow> podLabels \<Rightarrow>
     (string \<times> string) list" where
  "mapPodToSGs dec listed l =
     (if strOf l appNameLabelKey = [] then []
      else case listed of
             Inl e \<Rightarrow> []
           | Inr cnps \<Rightarrow>
               map (\<lambda>c. (smNamespace (npMeta c), smName (npMeta c)))
                 (filter (\<lambda>c. \<exists>app \<in> set (decodeAttachments dec (strAt (smAnnotations (npMeta c)) attachmentsAnnotation)).
                    appMatchesPod app l) cnps))"

subsection \<open>Stores that differ from a base in one label\<close>

definition relabel :: "string \<Rightarrow> podStore \<Rightarrow> (string \<Rightarrow> string option) \<Rightarrow> podStore" where
  "relabel key base f n = map_option (\<lambda>l. l(key := f n)) (base n)"

lemma relabel_self: "relabel key st (\<lambda>n. case st n of None \<Rightarrow> None | Some l \<Rightarrow> l key) = st"
  by (auto simp: relabel_def fun_eq_iff split: option.splits)

lemma patch_relabel:
  assumes "pod_api view api" "paPatch api (relabel key base f) n key v = Inr st'"
  shows "base n \<noteq> None \<and> st' = relabel key base (f(n := v))"
proof -
  from assms obtain l where l: "relabel key base f n = Some l" "st' = (relabel key base f)(n \<mapsto> l(key := v))"
    unfolding pod_api_def by blast
  then obtain l0 where "base n = Some l0" "l = l0(key := f n)" by (auto simp: relabel_def)
  with l(2) show ?thesis by (auto simp: relabel_def)
qed

lemma membership_key_fresh: "membershipLabelKey n \<notin> fst ` set (appLabels ref)"
  by (simp add: appLabels_def membershipLabelKey_def sg_keys)

lemma selects_relabel: "key \<notin> fst ` set sel \<Longrightarrow> selects sel (l(key := v)) = selects sel l"
  unfolding selects_def by (rule ball_cong) (auto simp: image_iff)

lemma listed:
  "pod_api view api \<Longrightarrow> paList api i sel = Inr pods \<Longrightarrow> (n, l) \<in> set pods \<longleftrightarrow> view i n = Some l \<and> selects sel l"
  by (simp add: pod_api_def)

lemma listed_names:
  "pod_api view api \<Longrightarrow> paList api i sel = Inr pods \<Longrightarrow>
     n \<in> fst ` set pods \<longleftrightarrow> (\<exists>l. view i n = Some l \<and> selects sel l)"
  using listed [of view api i sel pods n] by (auto simp: image_iff) (metis fst_conv)

subsection \<open>The loops\<close>

lemma eachPod_add:
  assumes "pod_api view api" "eachPod (addMembership api key) pods (relabel key base f) = (st', r)"
  shows "\<exists>f'. st' = relabel key base f' \<and> (\<forall>n. f' n = f n \<or> n \<in> fst ` set pods \<and> f' n = Some []) \<and>
    (r = None \<longrightarrow> (\<forall>n. f' n = (if \<exists>l. (n, l) \<in> set pods \<and> l key = None then Some [] else f n)))"
  using assms(2)
proof (induction pods arbitrary: f)
  case (Cons p pods)
  obtain n l where p: "p = (n, l)" by (cases p)
  show ?case
  proof (cases "addMembership api key p (relabel key base f)")
    case (Inl e)
    then show ?thesis using Cons.prems by auto
  next
    case (Inr st1)
    let ?f = "if l key = None then f(n := Some []) else f"
    have st1: "st1 = relabel key base ?f"
      using Inr p patch_relabel [OF assms(1)] by (auto simp: addMembership_def split: if_splits)
    have "eachPod (addMembership api key) pods (relabel key base ?f) = (st', r)"
      using Cons.prems Inr st1 by simp
    from Cons.IH [OF this] obtain f' where f': "st' = relabel key base f'"
      "\<forall>m. f' m = ?f m \<or> m \<in> fst ` set pods \<and> f' m = Some []"
      "r = None \<longrightarrow> (\<forall>m. f' m = (if \<exists>l. (m, l) \<in> set pods \<and> l key = None then Some [] else ?f m))" by blast
    have "f' m = f m \<or> m \<in> fst ` set (p # pods) \<and> f' m = Some []" for m
      using f'(2) [rule_format, of m] p by (auto split: if_splits)
    moreover have "f' m = (if \<exists>l. (m, l) \<in> set (p # pods) \<and> l key = None then Some [] else f m)" if "r = None" for m
      using f'(3) [rule_format, OF that, of m] p by (auto split: if_splits)
    ultimately show ?thesis using f'(1) by blast
  qed
qed auto

lemma eachPod_remove:
  assumes "pod_api view api" "eachPod (removeMembership api key) pods (relabel key base f) = (st', r)"
  shows "\<exists>f'. st' = relabel key base f' \<and> (\<forall>n. f' n = f n \<or> n \<in> fst ` set pods \<and> f' n = None) \<and>
    (r = None \<longrightarrow> (\<forall>n. f' n = (if \<exists>l. (n, l) \<in> set pods \<and> l key \<noteq> None then None else f n)))"
  using assms(2)
proof (induction pods arbitrary: f)
  case (Cons p pods)
  obtain n l where p: "p = (n, l)" by (cases p)
  show ?case
  proof (cases "removeMembership api key p (relabel key base f)")
    case (Inl e)
    then show ?thesis using Cons.prems by auto
  next
    case (Inr st1)
    let ?f = "if l key \<noteq> None then f(n := None) else f"
    have st1: "st1 = relabel key base ?f"
      using Inr p patch_relabel [OF assms(1)] by (auto simp: removeMembership_def split: if_splits)
    have "eachPod (removeMembership api key) pods (relabel key base ?f) = (st', r)"
      using Cons.prems Inr st1 by simp
    from Cons.IH [OF this] obtain f' where f': "st' = relabel key base f'"
      "\<forall>m. f' m = ?f m \<or> m \<in> fst ` set pods \<and> f' m = None"
      "r = None \<longrightarrow> (\<forall>m. f' m = (if \<exists>l. (m, l) \<in> set pods \<and> l key \<noteq> None then None else ?f m))" by blast
    have "f' m = f m \<or> m \<in> fst ` set (p # pods) \<and> f' m = None" for m
      using f'(2) [rule_format, of m] p by (auto split: if_splits)
    moreover have "f' m = (if \<exists>l. (m, l) \<in> set (p # pods) \<and> l key \<noteq> None then None else f m)" if "r = None" for m
      using f'(3) [rule_format, OF that, of m] p by (auto split: if_splits)
    ultimately show ?thesis using f'(1) by blast
  qed
qed auto

text \<open>What the cache shows during a run: a pod in the list of the \<open>j\<close>-th attachment, with labels that
  satisfy \<open>P\<close>.\<close>

definition shownIn ::
    "(podLabels \<Rightarrow> bool) \<Rightarrow> (nat \<Rightarrow> podStore) \<Rightarrow> nat \<Rightarrow> ApplicationReference list \<Rightarrow> string \<Rightarrow> bool" where
  "shownIn P view i apps n \<longleftrightarrow>
     (\<exists>j < length apps. \<exists>l. view (i + j) n = Some l \<and> selects (appLabels (apps ! j)) l \<and> P l)"

lemma shownIn_Nil: "\<not> shownIn P view i [] n"
  by (simp add: shownIn_def)

lemma shownIn_Cons:
  "shownIn P view i (app # apps) n \<longleftrightarrow>
     (\<exists>l. view i n = Some l \<and> selects (appLabels app) l \<and> P l) \<or> shownIn P view (Suc i) apps n"
proof -
  have "(\<exists>j < Suc k. Q j) \<longleftrightarrow> Q 0 \<or> (\<exists>j < k. Q (Suc j))" for Q :: "nat \<Rightarrow> bool" and k
    by (metis Suc_less_eq gr0_implies_Suc not_gr_zero zero_less_Suc)
  then show ?thesis unfolding shownIn_def by simp
qed

abbreviation shownAttached :: "(nat \<Rightarrow> podStore) \<Rightarrow> ApplicationReference list \<Rightarrow> string \<Rightarrow> bool" where
  "shownAttached view apps n \<equiv> shownIn (\<lambda>_. True) view 0 apps n"

lemma addAttachments_spec:
  assumes "pod_api view api" "addAttachments api key i apps D (relabel key base f) = (st', r)"
  shows "\<exists>f'. st' = relabel key base f' \<and>
    (\<forall>n. f' n = f n \<or> shownIn (\<lambda>_. True) view i apps n \<and> f' n = Some []) \<and>
    (\<forall>D'. r = Inr D' \<longrightarrow> D' = D \<union> {n. shownIn (\<lambda>_. True) view i apps n} \<and>
       (\<forall>n. f' n = (if shownIn (\<lambda>l. l key = None) view i apps n then Some [] else f n)))"
  using assms(2)
proof (induction apps arbitrary: D f i)
  case Nil
  then show ?case by (auto simp: shownIn_Nil)
next
  case (Cons app apps)
  show ?case
  proof (cases "paList api i (appLabels app)")
    case (Inl e)
    then show ?thesis using Cons.prems by auto
  next
    case (Inr pods)
    note ls = listed [OF assms(1) Inr] and nm = listed_names [OF assms(1) Inr]
    obtain st1 r1 where e: "eachPod (addMembership api key) pods (relabel key base f) = (st1, r1)" by fastforce
    from eachPod_add [OF assms(1) e] obtain f1 where f1: "st1 = relabel key base f1"
      "\<forall>n. f1 n = f n \<or> n \<in> fst ` set pods \<and> f1 n = Some []"
      "r1 = None \<longrightarrow> (\<forall>n. f1 n = (if \<exists>l. (n, l) \<in> set pods \<and> l key = None then Some [] else f n))" by blast
    show ?thesis
    proof (cases r1)
      case (Some err)
      then have "st' = st1" "r = Inl err" using Cons.prems Inr e by simp_all
      with f1(1,2) show ?thesis unfolding shownIn_Cons nm by (intro exI [of _ f1]) auto
    next
      case None
      then have "addAttachments api key (Suc i) apps (D \<union> fst ` set pods) (relabel key base f1) = (st', r)"
        using Cons.prems Inr e f1(1) by simp
      from Cons.IH [OF this] obtain f' where f': "st' = relabel key base f'"
        "\<forall>n. f' n = f1 n \<or> shownIn (\<lambda>_. True) view (Suc i) apps n \<and> f' n = Some []"
        "\<forall>D'. r = Inr D' \<longrightarrow> D' = D \<union> fst ` set pods \<union> {n. shownIn (\<lambda>_. True) view (Suc i) apps n} \<and>
          (\<forall>n. f' n = (if shownIn (\<lambda>l. l key = None) view (Suc i) apps n then Some [] else f1 n))" by blast
      have "f' n = f n \<or> shownIn (\<lambda>_. True) view i (app # apps) n \<and> f' n = Some []" for n
        using f'(2) [rule_format, of n] f1(2) [rule_format, of n] nm unfolding shownIn_Cons by metis
      moreover have "D' = D \<union> {n. shownIn (\<lambda>_. True) view i (app # apps) n}" if "r = Inr D'" for D'
        using f'(3) that nm unfolding shownIn_Cons by auto
      moreover have "f' n = (if shownIn (\<lambda>l. l key = None) view i (app # apps) n then Some [] else f n)" if "r = Inr D'" for n D'
        using f'(3) [rule_format, OF that] f1(3) [rule_format, OF None, of n] ls unfolding shownIn_Cons by auto
      ultimately show ?thesis using f'(1) by (intro exI [of _ f']) blast
    qed
  qed
qed

text \<open>A pod the list of the current members shows.\<close>

abbreviation shownMember :: "(nat \<Rightarrow> podStore) \<Rightarrow> string \<Rightarrow> nat \<Rightarrow> string \<Rightarrow> bool" where
  "shownMember view key i n \<equiv> (\<exists>l. view i n = Some l \<and> l key = Some [])"

lemma dropDetached_spec:
  assumes "pod_api view api" "dropDetached api key i D (relabel key base f) = (st', r)"
  shows "\<exists>f'. st' = relabel key base f' \<and>
    (\<forall>n. f' n = f n \<or> n \<notin> D \<and> shownMember view key i n \<and> f' n = None) \<and>
    (r = None \<longrightarrow> (\<forall>n. f' n = (if n \<notin> D \<and> shownMember view key i n then None else f n)))"
proof (cases "paList api i [(key, [])]")
  case (Inl e)
  then show ?thesis using assms(2) by (auto simp: dropDetached_def)
next
  case (Inr pods)
  have ls: "(n, l) \<in> set (filter (\<lambda>p. fst p \<notin> D) pods) \<longleftrightarrow> n \<notin> D \<and> view i n = Some l \<and> l key = Some []" for n l
    using listed [OF assms(1) Inr] by (auto simp: selects_def)
  have "eachPod (removeMembership api key) (filter (\<lambda>p. fst p \<notin> D) pods) (relabel key base f) = (st', r)"
    using assms(2) Inr by (simp add: dropDetached_def)
  from eachPod_remove [OF assms(1) this] obtain f' where f': "st' = relabel key base f'"
    "\<forall>n. f' n = f n \<or> (\<exists>l. (n, l) \<in> set (filter (\<lambda>p. fst p \<notin> D) pods)) \<and> f' n = None"
    "r = None \<longrightarrow> (\<forall>n. f' n = (if \<exists>l. (n, l) \<in> set (filter (\<lambda>p. fst p \<notin> D) pods) \<and> l key \<noteq> None then None else f n))"
    by force
  have "f' n = (if n \<notin> D \<and> shownMember view key i n then None else f n)" if "r = None" for n
    using f'(3) [rule_format, OF that, of n] unfolding ls by auto
  with f'(1,2) show ?thesis unfolding ls by (intro exI [of _ f']) auto
qed

subsection \<open>The reconcile\<close>

definition attached :: "ApplicationReference list \<Rightarrow> podLabels \<Rightarrow> bool" where
  "attached apps l \<longleftrightarrow> (\<exists>app \<in> set apps. selects (appLabels app) l)"

definition podKeyOf :: "string \<Rightarrow> podStore \<Rightarrow> string \<Rightarrow> string option" where
  "podKeyOf key st n = (case st n of None \<Rightarrow> None | Some l \<Rightarrow> l key)"

lemma relabel_keyOf: "relabel key st (podKeyOf key st) = st"
  unfolding podKeyOf_def by (rule relabel_self)

lemma reconcileLive_spec:
  assumes "pod_api view api" "reconcileLive api key apps fs st = m"
  shows "\<exists>f'. msStore m = relabel key st f' \<and>
    (\<forall>n. f' n = podKeyOf key st n \<or> shownAttached view apps n \<and> f' n = Some [] \<or>
       \<not> shownAttached view apps n \<and> shownMember view key (length apps) n \<and> f' n = None) \<and>
    (msOutcome m = Inr True \<longrightarrow> (\<forall>n. f' n =
       (if shownAttached view apps n
        then if shownIn (\<lambda>l. l key = None) view 0 apps n then Some [] else podKeyOf key st n
        else if shownMember view key (length apps) n then None else podKeyOf key st n)))"
proof -
  let ?f = "podKeyOf key st"
  have self: "msStore m = st \<Longrightarrow> msOutcome m \<noteq> Inr True \<Longrightarrow> ?thesis"
    by (intro exI [of _ ?f]) (simp add: relabel_keyOf)
  show ?thesis
  proof (cases "ensureFinalizer api fs")
    case (Inl e)
    then show ?thesis using assms(2) by (intro self) (auto simp: reconcileLive_def)
  next
    case (Inr fs1)
    obtain st1 r1 where a: "addAttachments api key 0 apps {} (relabel key st ?f) = (st1, r1)" by fastforce
    from addAttachments_spec [OF assms(1) a] obtain f1 where f1: "st1 = relabel key st f1"
      "\<forall>n. f1 n = ?f n \<or> shownAttached view apps n \<and> f1 n = Some []"
      "\<forall>D. r1 = Inr D \<longrightarrow> D = {n. shownAttached view apps n} \<and>
         (\<forall>n. f1 n = (if shownIn (\<lambda>l. l key = None) view 0 apps n then Some [] else ?f n))" by auto
    show ?thesis
    proof (cases r1)
      case (Inl e)
      then have "msStore m = st1" "msOutcome m = Inl e"
        using assms(2) Inr a by (auto simp: reconcileLive_def relabel_keyOf)
      with f1(1,2) show ?thesis by (intro exI [of _ f1]) auto
    next
      case r1: (Inr D)
      obtain st2 r2 where d: "dropDetached api key (length apps) D (relabel key st f1) = (st2, r2)" by fastforce
      from dropDetached_spec [OF assms(1) d] obtain f2 where f2: "st2 = relabel key st f2"
        "\<forall>n. f2 n = f1 n \<or> n \<notin> D \<and> shownMember view key (length apps) n \<and> f2 n = None"
        "r2 = None \<longrightarrow> (\<forall>n. f2 n = (if n \<notin> D \<and> shownMember view key (length apps) n then None else f1 n))" by blast
      have m: "msStore m = st2" "msOutcome m = Inr True \<longleftrightarrow> r2 = None"
        using assms(2) Inr a r1 d f1(1) by (auto simp: reconcileLive_def relabel_keyOf split: option.splits)
      have D: "D = {n. shownAttached view apps n}"
        "\<forall>n. f1 n = (if shownIn (\<lambda>l. l key = None) view 0 apps n then Some [] else ?f n)" using f1(3) r1 by blast+
      have weaker: "shownAttached view apps n" if "shownIn P view 0 apps n" for P n
        using that by (auto simp: shownIn_def)
      have "f2 n = ?f n \<or> shownAttached view apps n \<and> f2 n = Some [] \<or>
          \<not> shownAttached view apps n \<and> shownMember view key (length apps) n \<and> f2 n = None" for n
        using f2(2) [rule_format, of n] f1(2) [rule_format, of n] D(1) by (metis mem_Collect_eq)
      moreover have "f2 n = (if shownAttached view apps n
          then if shownIn (\<lambda>l. l key = None) view 0 apps n then Some [] else ?f n
          else if shownMember view key (length apps) n then None else ?f n)" if "r2 = None" for n
        using f2(3) [rule_format, OF that, of n] D(1) D(2) [rule_format, of n] weaker [of _ n] by auto
      ultimately show ?thesis using f2(1) m by (intro exI [of _ f2]) auto
    qed
  qed
qed

text \<open>The cache is up to date for a pod during a run of \<open>apps\<close>: every list sees its labels as they are in
  the store \<open>st\<close> the run started from; whether it already sees the membership label that the run
  itself has written for an earlier attachment is left open.\<close>

definition upToDate :: "(nat \<Rightarrow> podStore) \<Rightarrow> string \<Rightarrow> ApplicationReference list \<Rightarrow> string \<Rightarrow> podLabels \<Rightarrow> bool" where
  "upToDate view key apps n l \<longleftrightarrow> (\<forall>i \<le> length apps. \<exists>w. view i n = Some (l(key := w)) \<and>
     (w = l key \<or> w = Some [] \<and> (\<exists>j < i. selects (appLabels (apps ! j)) l)))"

lemma upToDate_shown:
  assumes "upToDate view (membershipLabelKey g) apps n l"
  shows "shownAttached view apps n \<longleftrightarrow> attached apps l"
    and "attached apps l \<Longrightarrow> l (membershipLabelKey g) = None \<Longrightarrow>
      shownIn (\<lambda>l. l (membershipLabelKey g) = None) view 0 apps n"
    and "\<not> attached apps l \<Longrightarrow> view (length apps) n = Some l"
proof -
  let ?key = "membershipLabelKey g"
  have sel: "\<exists>w. view j n = Some (l(?key := w)) \<and>
      (w = l ?key \<or> w = Some [] \<and> (\<exists>k < j. selects (appLabels (apps ! k)) l))" if "j \<le> length apps" for j
    using assms that by (simp add: upToDate_def)
  have fresh: "selects (appLabels ref) (l(?key := w)) = selects (appLabels ref) l" for ref w
    by (rule selects_relabel [OF membership_key_fresh])
  have at: "(\<exists>l'. view j n = Some l' \<and> selects (appLabels ref) l') \<longleftrightarrow> selects (appLabels ref) l"
    if "j < length apps" for j ref using sel [OF less_imp_le [OF that]] fresh by auto
  have "shownAttached view apps n \<longleftrightarrow> (\<exists>j < length apps. selects (appLabels (apps ! j)) l)"
    unfolding shownIn_def by (rule ex_cong1) (use at in auto)
  then show "shownAttached view apps n \<longleftrightarrow> attached apps l"
    by (metis attached_def in_set_conv_nth)
  have first: "view j n = Some l"
    if j: "j \<le> length apps" "\<forall>k < j. \<not> selects (appLabels (apps ! k)) l" for j
  proof -
    obtain w where "view j n = Some (l(?key := w))" "w = l ?key" using sel [OF j(1)] j(2) by blast
    then show ?thesis by simp
  qed
  show "view (length apps) n = Some l" if "\<not> attached apps l"
    using that first [of "length apps"] by (metis attached_def nth_mem order_refl)
  show "shownIn (\<lambda>l. l ?key = None) view 0 apps n" if "attached apps l" "l ?key = None"
  proof -
    let ?Q = "\<lambda>j. j < length apps \<and> selects (appLabels (apps ! j)) l"
    have "\<exists>j. ?Q j" using that(1) by (metis attached_def in_set_conv_nth)
    then obtain j where j: "?Q j" "\<forall>k < j. \<not> ?Q k" using exists_least_iff [of ?Q] by blast
    then have "view j n = Some l" by (intro first) auto
    with j(1) that(2) show ?thesis unfolding shownIn_def by (intro exI [of _ j]) simp
  qed
qed

text \<open>C13: membership follows attachment, as far as the cache shows it. Whatever a reconcile of a live
  SecurityGroup does, errors and stale lists included, no pod appears or vanishes and no label but
  the group's own membership label changes; that label is only added to a pod that the list of an
  attached application showed, and only removed from a pod that the list of members showed and no
  attachment did. After a successful reconcile, a pod that the lists showed with its current
  labels carries the membership label if and only if it carries the lineage labels of an attached
  application. Nothing is claimed for a pod the cache is behind on: its label is left to a later
  event or the next periodic resync.\<close>

theorem SecurityGroupReconcile_exact:
  assumes "pod_api view api" "isSecurityGroup cnp" "smDeletion (npMeta cnp) = None"
    and "key = membershipLabelKey (smName (npMeta cnp))"
    and "apps = decodeAttachments dec (strAt (smAnnotations (npMeta cnp)) attachmentsAnnotation)"
    and "SecurityGroupReconcile dec api (BackingFound cnp) st = m"
  shows "(st n = None \<longrightarrow> msStore m n = None) \<and>
    (\<forall>l. st n = Some l \<longrightarrow> (\<exists>v. msStore m n = Some (l(key := v)) \<and>
       (v = l key \<or> shownAttached view apps n \<and> v = Some [] \<or>
        \<not> shownAttached view apps n \<and> shownMember view key (length apps) n \<and> v = None) \<and>
       (msOutcome m = Inr True \<and> upToDate view key apps n l \<and> l key \<in> {None, Some []} \<longrightarrow>
          v = (if attached apps l then Some [] else None))))"
proof -
  have "reconcileLive api key apps (smFinalizers (npMeta cnp)) st = m"
    using assms(2-6) by (simp add: SecurityGroupReconcile_def Let_def isSecurityGroup_def)
  from reconcileLive_spec [OF assms(1) this] obtain f' where f': "msStore m = relabel key st f'"
    "f' n = podKeyOf key st n \<or> shownAttached view apps n \<and> f' n = Some [] \<or>
       \<not> shownAttached view apps n \<and> shownMember view key (length apps) n \<and> f' n = None"
    "msOutcome m = Inr True \<longrightarrow> f' n = (if shownAttached view apps n
        then if shownIn (\<lambda>l. l key = None) view 0 apps n then Some [] else podKeyOf key st n
        else if shownMember view key (length apps) n then None else podKeyOf key st n)" by blast
  have "f' n = (if attached apps l then Some [] else None)"
    if "st n = Some l" "msOutcome m = Inr True" "upToDate view key apps n l" "l key \<in> {None, Some []}" for l
    using f'(3) that upToDate_shown [of view "smName (npMeta cnp)" apps n l] unfolding assms(4)
    by (auto simp: podKeyOf_def split: if_splits)
  then show ?thesis using f'(1,2) by (auto simp: relabel_def podKeyOf_def)
qed

definition memAPI :: "podStore \<Rightarrow> podAPI" where
  "memAPI cache = \<lparr>paList = (\<lambda>i sel. if dom cache \<subseteq> {''p1'', ''p2''}
       then Inr (map (\<lambda>n. (n, the (cache n))) (filter (\<lambda>n. \<exists>l. cache n = Some l \<and> selects sel l) [''p1'', ''p2'']))
       else Inl ''too many pods''),
     paPatch = (\<lambda>st n k v. case st n of None \<Rightarrow> Inl ''not found'' | Some l \<Rightarrow> Inr (st(n \<mapsto> l(k := v)))),
     paFinalizers = Inr\<rparr>"

lemma memAPI_ok: "pod_api (\<lambda>_. cache) (memAPI cache)"
  by (auto simp: pod_api_def memAPI_def split: option.splits if_splits)

definition demoCNP :: CiliumNetworkPolicy where
  "demoCNP = securityGroupToPolicy (\<lambda>_. ''x'') demoSG None"

definition demoRef :: ApplicationReference where
  "demoRef = \<lparr>arAPIGroup = [], arKind = ''Postgres'', arName = ''db''\<rparr>"

definition demoDecoder :: "string \<Rightarrow> ApplicationReference list option" where
  "demoDecoder s = Some [demoRef]"

definition demoLabels :: podLabels where
  "demoLabels = map_of (appLabels demoRef)"

definition demoStore :: podStore where
  "demoStore = [''p1'' \<mapsto> demoLabels, ''p2'' \<mapsto> [membershipLabelKey ''web'' \<mapsto> []]]"

lemma demoCNP_facts: "isSecurityGroup demoCNP" "smDeletion (npMeta demoCNP) = None"
  "smName (npMeta demoCNP) = ''web''"
  "decodeAttachments demoDecoder (strAt (smAnnotations (npMeta demoCNP)) attachmentsAnnotation) = [demoRef]"
  by code_simp+

lemma demo_selects:
  "selects (appLabels demoRef) demoLabels"
  "\<not> selects (appLabels demoRef) [membershipLabelKey ''web'' \<mapsto> []]"
  "demoLabels (membershipLabelKey ''web'') = None"
  by (simp_all add: selects_def demoLabels_def demoRef_def appLabels_def membershipLabelKey_def sg_keys)

lemma demo_lists:
  "paList (memAPI demoStore) i (appLabels demoRef) = Inr [(''p1'', demoLabels)]"
  "paList (memAPI demoStore) i [(membershipLabelKey ''web'', [])] = Inr [(''p2'', [membershipLabelKey ''web'' \<mapsto> []])]"
  using demo_selects by (simp_all add: memAPI_def demoStore_def selects_def)

lemma memAPI_patch: "st n = Some l \<Longrightarrow> paPatch (memAPI cache) st n k v = Inr (st(n \<mapsto> l(k := v)))"
  by (simp add: memAPI_def)

lemma demo_outcome:
  "msOutcome (SecurityGroupReconcile demoDecoder (memAPI demoStore) (BackingFound demoCNP) demoStore) = Inr True"
proof -
  let ?api = "memAPI demoStore" and ?key = "membershipLabelKey ''web''"
  let ?st = "demoStore(''p1'' \<mapsto> demoLabels(?key \<mapsto> []))"
  have s: "demoStore ''p1'' = Some demoLabels" "?st ''p2'' = Some [?key \<mapsto> []]" by (simp_all add: demoStore_def)
  have "addAttachments ?api ?key 0 [demoRef] {} demoStore = (?st, Inr {''p1''})"
    using demo_selects(3) by (simp add: demo_lists addMembership_def memAPI_patch [of demoStore, OF s(1)])
  moreover have "snd (dropDetached ?api ?key (Suc 0) {''p1''} ?st) = None"
    by (simp add: dropDetached_def demo_lists removeMembership_def memAPI_patch [of ?st, OF s(2)])
  then obtain st2 where "dropDetached ?api ?key (Suc 0) {''p1''} ?st = (st2, None)" by (metis prod.collapse)
  moreover have "\<exists>fs. ensureFinalizer ?api (smFinalizers (npMeta demoCNP)) = Inr fs"
    by (simp add: ensureFinalizer_def memAPI_def)
  ultimately show ?thesis using demoCNP_facts
    by (auto simp: SecurityGroupReconcile_def Let_def isSecurityGroup_def reconcileLive_def)
qed

theorem SecurityGroupReconcile_exact_witness:
  "msStore (SecurityGroupReconcile demoDecoder (memAPI demoStore) (BackingFound demoCNP) demoStore) ''p1'' =
     Some (demoLabels(membershipLabelKey ''web'' \<mapsto> []))"
proof -
  let ?key = "membershipLabelKey ''web''"
  have p: "demoStore ''p1'' = Some demoLabels" by (simp add: demoStore_def)
  have u: "upToDate (\<lambda>_. demoStore) ?key [demoRef] ''p1'' demoLabels" "demoLabels ?key \<in> {None, Some []}"
    using demo_selects(3) p by (auto simp: upToDate_def fun_upd_idem intro!: exI [of _ None])
  have a: "attached [demoRef] demoLabels" using demo_selects(1) by (simp add: attached_def)
  show ?thesis
    using SecurityGroupReconcile_exact [OF memAPI_ok demoCNP_facts(1,2) refl refl refl,
        of demoStore "''p1''" demoDecoder demoStore] p u a demo_outcome
    unfolding demoCNP_facts(3,4) by auto
qed

text \<open>The finalizer outlives the membership the cache shows: when a reconcile of a terminating
  SecurityGroup ends with the membership finalizer gone, the pods the list showed as members carry
  the membership label no more, and nothing else has changed.\<close>

lemma SecurityGroupReconcile_releases:
  assumes "pod_api view api" "isSecurityGroup cnp" "smDeletion (npMeta cnp) \<noteq> None"
    and "MembershipFinalizer \<in> set (smFinalizers (npMeta cnp))"
    and "key = membershipLabelKey (smName (npMeta cnp))"
    and "SecurityGroupReconcile dec api (BackingFound cnp) st = m"
    and "MembershipFinalizer \<notin> set (msFinalizers m)" "st n = Some l"
  shows "msStore m n = Some (if shownMember view key 0 n then l(key := None) else l)"
proof -
  have r: "reconcileDeleted api key (smFinalizers (npMeta cnp)) st = m"
    using assms(2-6) by (auto simp: SecurityGroupReconcile_def Let_def isSecurityGroup_def)
  obtain st' e where s: "stripMembership api key st = (st', e)" by fastforce
  have e: "e = None" "msStore m = st'"
    using r assms(4,7) s by (auto simp: reconcileDeleted_def hasFinalizer_def split: option.splits sum.splits)
  have "dropDetached api key 0 {} (relabel key st (podKeyOf key st)) = (st', None)"
    using s e by (auto simp: stripMembership_def dropDetached_def relabel_keyOf split: sum.splits)
  from dropDetached_spec [OF assms(1) this] obtain f' where f': "st' = relabel key st f'"
    "f' n = (if shownMember view key 0 n then None else podKeyOf key st n)" by auto
  then show ?thesis using e(2) assms(8) by (auto simp: relabel_def podKeyOf_def fun_upd_idem)
qed

text \<open>A member that the cache does not show yet keeps its label for good: the finalizer goes and no
  later pass of this group looks for it.\<close>

definition endingCNP :: CiliumNetworkPolicy where
  "endingCNP = demoCNP\<lparr>npMeta := (npMeta demoCNP)\<lparr>smDeletion := Some 5, smFinalizers := [MembershipFinalizer]\<rparr>\<rparr>"

lemma released_member_keeps_label:
  "let m = SecurityGroupReconcile demoDecoder (memAPI Map.empty) (BackingFound endingCNP) demoStore
   in msFinalizers m = [] \<and> msStore m = demoStore"
proof -
  have f: "isSecurityGroup endingCNP" "smDeletion (npMeta endingCNP) \<noteq> None"
    "smFinalizers (npMeta endingCNP) = [MembershipFinalizer]"
    using demoCNP_facts by (simp_all add: endingCNP_def isSecurityGroup_def)
  have "stripMembership (memAPI Map.empty) key demoStore = (demoStore, None)" for key
    by (simp add: stripMembership_def memAPI_def)
  then show ?thesis
    using f by (auto simp: SecurityGroupReconcile_def Let_def isSecurityGroup_def reconcileDeleted_def hasFinalizer_def
        removeFinalizer_def memAPI_def [THEN arg_cong, of paFinalizers])
qed

text \<open>A pod of an attached application is mapped to the group it belongs to.\<close>

lemma mapPodToSGs_complete:
  assumes "c \<in> set cnps" "app \<in> set (decodeAttachments dec (strAt (smAnnotations (npMeta c)) attachmentsAnnotation))"
    and "selects (appLabels app) l" "arName app \<noteq> []"
  shows "(smNamespace (npMeta c), smName (npMeta c)) \<in> set (mapPodToSGs dec (Inr cnps) l)"
proof -
  have "\<forall>(k, v) \<in> set (appLabels app). strOf l k = v" using assms(3) by (auto simp: selects_def strOf_def)
  then have "appMatchesPod app l" "strOf l appNameLabelKey = arName app"
    by (simp_all add: appMatchesPod_def appLabels_def)
  with assms show ?thesis unfolding mapPodToSGs_def by auto
qed

end
