(* ===== verification/Package_Order.thy ===== *)
theory Package_Order
  imports Go_Prelude
begin

text \<open>
  The ordering of packages by their dependencies: \<open>topologicalSort\<close> of
  cmd/cozypkg/cmd/add.go and the second half of \<open>getDeleteOrder\<close> of cmd/cozypkg/cmd/del.go.
  Both run Kahn's algorithm on a graph that maps a package to its dependencies. A graph is an
  association list, since it is ranged over; the order of every \<open>range\<close> over a map is a field of
  \<open>rangeOrders\<close>. The locale \<open>kahn_graph\<close> states what the loop relies on of the node set, the
  reverse graph, the in-degrees and the first queue; it is interpreted on both graphs.
\<close>

subsection \<open>Graphs\<close>

type_synonym depGraph = "(string \<times> string list) list"
type_synonym degrees = "(string \<times> int) list"

record rangeOrders =
  roGraph :: "depGraph \<Rightarrow> depGraph"
  roNames :: "string list \<Rightarrow> string list"
  roDegrees :: "degrees \<Rightarrow> degrees"

definition orders_ok :: "rangeOrders \<Rightarrow> bool" where
  "orders_ok ro \<longleftrightarrow> range_order (roGraph ro) \<and> range_order (roNames ro) \<and> range_order (roDegrees ro)"

definition depsOf :: "depGraph \<Rightarrow> string \<Rightarrow> string list" where
  "depsOf g n = (case map_of g n of None \<Rightarrow> [] | Some ds \<Rightarrow> ds)"

definition appendTo :: "string \<Rightarrow> string \<Rightarrow> depGraph \<Rightarrow> depGraph" where
  "appendTo k v g = AList.update k (depsOf g k @ [v]) g"

definition reverseEdges :: "string \<times> string list \<Rightarrow> depGraph \<Rightarrow> depGraph" where
  "reverseEdges nd rg = fold (\<lambda>dep rg. appendTo dep (fst nd) rg) (snd nd) rg"

definition reverseGraph :: "rangeOrders \<Rightarrow> depGraph \<Rightarrow> depGraph" where
  "reverseGraph ro tree = fold reverseEdges (roGraph ro tree) []"

definition allNodes :: "rangeOrders \<Rightarrow> depGraph \<Rightarrow> string list" where
  "allNodes ro tree =
     fold (\<lambda>nd s. fold List.insert (snd nd) (List.insert (fst nd) s)) (roGraph ro tree) []"

definition inDegree :: "rangeOrders \<Rightarrow> depGraph \<Rightarrow> string list \<Rightarrow> degrees" where
  "inDegree ro tree nodes =
     fold (\<lambda>nd m. AList.update (fst nd) (int (length (snd nd))) m) (roGraph ro tree)
       (fold (\<lambda>node m. AList.update node 0 m) (roNames ro nodes) [])"

definition startQueue :: "rangeOrders \<Rightarrow> degrees \<Rightarrow> string list" where
  "startQueue ro deg = map fst (filter (\<lambda>nd. snd nd = 0) (roDegrees ro deg))"

subsection \<open>The loop\<close>

definition degreeOf :: "degrees \<Rightarrow> string \<Rightarrow> int" where
  "degreeOf deg n = (case map_of deg n of None \<Rightarrow> 0 | Some d \<Rightarrow> d)"

fun releaseDependents :: "string list \<Rightarrow> degrees \<Rightarrow> string list \<Rightarrow> degrees \<times> string list" where
  "releaseDependents [] deg queue = (deg, queue)"
| "releaseDependents (node # rest) deg queue =
     (let d = degreeOf deg node - 1 in
      releaseDependents rest (AList.update node d deg)
        (if d = 0 then queue @ [node] else queue))"

definition pending :: "degrees \<Rightarrow> nat" where
  "pending deg = length (filter (\<lambda>nd. snd nd > 0) deg)"

lemma pending_update:
  "pending (AList.update n (degreeOf deg n - 1) deg) + (if degreeOf deg n = 1 then 1 else 0) \<le> pending deg"
proof (induction deg)
  case (Cons p deg)
  then show ?case by (cases p) (auto simp: pending_def degreeOf_def)
qed (simp add: pending_def degreeOf_def)

lemma releaseDependents_pending:
  "releaseDependents ds deg queue = (deg', queue') \<Longrightarrow>
   length queue' + pending deg' \<le> length queue + pending deg"
proof (induction ds arbitrary: deg queue)
  case (Cons d ds)
  have "length queue' + pending deg' \<le>
      length (if degreeOf deg d - 1 = 0 then queue @ [d] else queue)
        + pending (AList.update d (degreeOf deg d - 1) deg)"
    by (rule Cons.IH) (use Cons.prems in \<open>simp add: Let_def\<close>)
  with pending_update [of d deg] show ?case by (auto split: if_splits)
qed simp

function kahnLoop :: "depGraph \<Rightarrow> degrees \<Rightarrow> string list \<Rightarrow> string list \<Rightarrow> string list" where
  "kahnLoop rg deg [] result = result"
| "kahnLoop rg deg (node # queue) result =
     (let (deg', queue') = releaseDependents (depsOf rg node) deg queue in
      kahnLoop rg deg' queue' (result @ [node]))"
  by pat_completeness auto

termination
proof (relation "measure (\<lambda>(rg, deg, queue, result). length queue + pending deg)")
  fix rg :: depGraph and deg :: degrees and node :: string and queue result x deg' queue'
  assume "x = releaseDependents (depsOf rg node) deg queue" "(deg', queue') = x"
  then have "length queue' + pending deg' \<le> length queue + pending deg"
    by (intro releaseDependents_pending) simp
  then show "((rg, deg', queue', result @ [node]), rg, deg, node # queue, result)
      \<in> measure (\<lambda>(rg, deg, queue, result). length queue + pending deg)" by simp
qed simp

subsection \<open>Orders that list dependencies first\<close>

definition deps_first :: "(string \<Rightarrow> string list) \<Rightarrow> string list \<Rightarrow> bool" where
  "deps_first deps xs \<longleftrightarrow> (\<forall>i < length xs. set (deps (xs ! i)) \<subseteq> set (take i xs))"

definition depRel :: "(string \<Rightarrow> string list) \<Rightarrow> (string \<times> string) set" where
  "depRel deps = {(d, n). d \<in> set (deps n)}"

lemma deps_first_Nil [simp]: "deps_first deps []"
  by (simp add: deps_first_def)

lemma deps_first_snoc:
  "deps_first deps (xs @ [x]) \<longleftrightarrow> deps_first deps xs \<and> set (deps x) \<subseteq> set xs"
  by (auto simp: deps_first_def nth_append less_Suc_eq)

lemma deps_first_closed: "deps_first deps xs \<Longrightarrow> n \<in> set xs \<Longrightarrow> set (deps n) \<subseteq> set xs"
  by (induction xs rule: rev_induct) (auto simp: deps_first_snoc)

text \<open>An order that lists the dependencies of every node first rules out cycles.\<close>

lemma deps_first_acyclic:
  assumes "deps_first deps xs" "distinct xs" "\<And>n. n \<notin> set xs \<Longrightarrow> deps n = []"
  shows "acyclic (depRel deps)"
proof -
  define rank where "rank n = (THE i. i < length xs \<and> xs ! i = n)" for n
  have rank: "rank (xs ! i) = i" if "i < length xs" for i
    unfolding rank_def using that assms(2) by (auto simp: nth_eq_iff_index_eq)
  have "rank d < rank n" if "(d, n) \<in> depRel deps" for d n
  proof -
    from that have d: "d \<in> set (deps n)" by (simp add: depRel_def)
    then have "n \<in> set xs" using assms(3) [of n] by fastforce
    then obtain i where i: "i < length xs" "n = xs ! i" by (metis in_set_conv_nth)
    with d assms(1) have "d \<in> set (take i xs)" by (auto simp: deps_first_def)
    then obtain j where "j < i" "d = xs ! j" using i by (auto simp: in_set_conv_nth)
    with rank i show ?thesis by simp
  qed
  then have "depRel deps \<subseteq> measure rank" by auto
  then show ?thesis by (rule acyclic_subset [OF wf_acyclic [OF wf_measure]])
qed

subsection \<open>The invariant of the loop\<close>

text \<open>
  While the dependents \<open>rest\<close> of the last result are still to be released, the in-degree of a
  node counts its dependencies that are not in the result, and a node is in the result or in the
  queue exactly when its in-degree is zero.
\<close>

definition kahn_inv ::
    "(string \<Rightarrow> string list) \<Rightarrow> string set \<Rightarrow> string list \<Rightarrow> degrees \<Rightarrow> string list \<Rightarrow> string list \<Rightarrow> bool" where
  "kahn_inv deps N rest deg queue result \<longleftrightarrow>
     distinct (result @ queue) \<and> set (result @ queue) \<subseteq> N \<and>
     (\<forall>n. degreeOf deg n = int (card (set (deps n) - set result)) + (if n \<in> set rest then 1 else 0)) \<and>
     (\<forall>n \<in> N. n \<in> set (result @ queue) \<longleftrightarrow> degreeOf deg n = 0) \<and> deps_first deps result"

lemma degreeOf_update: "degreeOf (AList.update n d deg) m = (if m = n then d else degreeOf deg m)"
  by (simp add: degreeOf_def update_conv')

lemma kahn_inv_release:
  assumes "kahn_inv deps N rest deg queue result" "distinct rest" "set rest \<subseteq> N"
    "releaseDependents rest deg queue = (deg', queue')"
  shows "kahn_inv deps N [] deg' queue' result"
  using assms
proof (induction rest arbitrary: deg queue)
  case (Cons x rest)
  let ?d = "degreeOf deg x - 1" and ?deg = "AList.update x (degreeOf deg x - 1) deg"
  let ?q = "if degreeOf deg x - 1 = 0 then queue @ [x] else queue"
  from Cons.prems have inv: "kahn_inv deps N (x # rest) deg queue result"
    and x: "x \<notin> set rest" "x \<in> N" by auto
  have dx: "?d = int (card (set (deps x) - set result))" using inv by (simp add: kahn_inv_def)
  then have new: "x \<notin> set (result @ queue)" using inv x(2) unfolding kahn_inv_def by fastforce
  have "kahn_inv deps N rest ?deg ?q result"
    unfolding kahn_inv_def
  proof (intro conjI)
    show "\<forall>n. degreeOf ?deg n =
        int (card (set (deps n) - set result)) + (if n \<in> set rest then 1 else 0)"
      using inv dx x(1) by (auto simp: kahn_inv_def degreeOf_update)
    show "\<forall>n \<in> N. n \<in> set (result @ ?q) \<longleftrightarrow> degreeOf ?deg n = 0"
      using inv new unfolding kahn_inv_def degreeOf_update by auto
  qed (use inv new x(2) in \<open>auto simp: kahn_inv_def\<close>)
  moreover have "releaseDependents rest ?deg ?q = (deg', queue')"
    using Cons.prems(4) by (simp add: Let_def)
  ultimately show ?case using Cons.IH Cons.prems by simp
qed simp

lemma kahn_inv_pop:
  assumes inv: "kahn_inv deps N [] deg (node # queue) result"
    and rest: "\<And>n. n \<in> set rest \<longleftrightarrow> node \<in> set (deps n)"
  shows "kahn_inv deps N rest deg queue (result @ [node])"
proof -
  have new: "node \<notin> set result" and "node \<in> N" using inv by (auto simp: kahn_inv_def)
  then have deg0: "degreeOf deg node = 0" using inv unfolding kahn_inv_def by (metis in_set_conv_decomp)
  have "card (set (deps n) - set result) =
      card (set (deps n) - set (result @ [node])) + (if n \<in> set rest then 1 else 0)" for n
  proof (cases "node \<in> set (deps n)")
    case True
    let ?M = "set (deps n) - set (result @ [node])"
    have "set (deps n) - set result = insert node ?M" using True new by auto
    moreover have "card (insert node ?M) = Suc (card ?M)" by (rule card_insert_disjoint) simp_all
    ultimately have "card (set (deps n) - set result) = Suc (card ?M)" by (rule arg_cong [THEN trans])
    with True rest show ?thesis by simp
  next
    case False
    then have "set (deps n) - set (result @ [node]) = set (deps n) - set result" by auto
    with False rest show ?thesis by simp
  qed
  then have deg: "degreeOf deg n = int (card (set (deps n) - set (result @ [node])))
      + (if n \<in> set rest then 1 else 0)" for n
    using inv by (auto simp: kahn_inv_def)
  have "card (set (deps node) - set result) = 0" using inv deg0 by (simp add: kahn_inv_def)
  then have "set (deps node) \<subseteq> set result" by simp
  then show ?thesis using inv deg unfolding kahn_inv_def by (simp add: deps_first_snoc)
qed

lemma kahn_inv_loop:
  assumes "kahn_inv deps N [] deg queue result"
    and "\<And>d. distinct (depsOf rg d)" "\<And>d n. n \<in> set (depsOf rg d) \<longleftrightarrow> d \<in> set (deps n)"
    and "\<And>n. n \<notin> N \<Longrightarrow> deps n = []"
  shows "\<exists>deg'. kahn_inv deps N [] deg' [] (kahnLoop rg deg queue result)"
  using assms
proof (induction rg deg queue result rule: kahnLoop.induct)
  case (2 rg deg node queue result)
  obtain deg' queue' where r: "releaseDependents (depsOf rg node) deg queue = (deg', queue')"
    by fastforce
  have "set (depsOf rg node) \<subseteq> N" using "2.prems"(3,4) by fastforce
  then have "kahn_inv deps N [] deg' queue' (result @ [node])"
    using kahn_inv_release [OF kahn_inv_pop [OF "2.prems"(1)] _ _ r] "2.prems"(2,3) by blast
  then show ?case using "2.IH" [OF r [symmetric] refl] "2.prems"(2-4) r by simp
qed auto

subsection \<open>The contract of the graph and the result of the loop\<close>

locale kahn_graph =
  fixes ok :: "rangeOrders \<Rightarrow> 'g \<Rightarrow> bool"
    and nodes :: "rangeOrders \<Rightarrow> 'g \<Rightarrow> string list"
    and deps :: "'g \<Rightarrow> string \<Rightarrow> string list"
    and rg :: "rangeOrders \<Rightarrow> 'g \<Rightarrow> depGraph"
    and deg :: "rangeOrders \<Rightarrow> 'g \<Rightarrow> degrees"
  assumes ok_orders: "ok ro g \<Longrightarrow> orders_ok ro"
    and nodes_distinct: "ok ro g \<Longrightarrow> distinct (nodes ro g)"
    and deps_distinct: "ok ro g \<Longrightarrow> distinct (deps g n)"
    and deps_nodes: "ok ro g \<Longrightarrow> set (deps g n) \<subseteq> set (nodes ro g)"
    and deps_outside: "ok ro g \<Longrightarrow> n \<notin> set (nodes ro g) \<Longrightarrow> deps g n = []"
    and rg_distinct: "ok ro g \<Longrightarrow> distinct (depsOf (rg ro g) d)"
    and rg_set: "ok ro g \<Longrightarrow> n \<in> set (depsOf (rg ro g) d) \<longleftrightarrow> d \<in> set (deps g n)"
    and deg_distinct: "ok ro g \<Longrightarrow> distinct (map fst (deg ro g))"
    and deg_of: "ok ro g \<Longrightarrow> map_of (deg ro g) n =
      (if n \<in> set (nodes ro g) then Some (int (length (deps g n))) else None)"
begin

lemma start_queue:
  assumes "ok ro g"
  shows "distinct (startQueue ro (deg ro g))"
    and "set (startQueue ro (deg ro g)) = {n \<in> set (nodes ro g). deps g n = []}"
proof -
  have rd: "range_order (roDegrees ro)" using ok_orders [OF assms] by (simp add: orders_ok_def)
  have m: "map_of (deg ro g) n = Some d \<longleftrightarrow> (n, d) \<in> set (deg ro g)" for n d
    using deg_distinct [OF assms] by simp
  have "distinct (map fst (roDegrees ro (deg ro g)))"
    by (simp only: range_order_keys [OF rd] deg_distinct [OF assms])
  then show "distinct (startQueue ro (deg ro g))"
    by (simp add: startQueue_def distinct_map_filter)
  have q: "n \<in> set (startQueue ro (deg ro g)) \<longleftrightarrow> map_of (deg ro g) n = Some 0" for n
    unfolding m startQueue_def using range_order_set [OF rd] by force
  show "set (startQueue ro (deg ro g)) = {n \<in> set (nodes ro g). deps g n = []}"
    unfolding set_eq_iff q deg_of [OF assms] by simp
qed

lemma start_inv:
  assumes "ok ro g"
  shows "kahn_inv (deps g) (set (nodes ro g)) [] (deg ro g) (startQueue ro (deg ro g)) []"
proof -
  have "degreeOf (deg ro g) n = int (card (set (deps g n)))" for n
    using deg_of [OF assms, of n] deps_outside [OF assms, of n]
      distinct_card [OF deps_distinct [OF assms, of n]] by (simp add: degreeOf_def)
  then show ?thesis using start_queue [OF assms] by (auto simp: kahn_inv_def)
qed

definition result :: "rangeOrders \<Rightarrow> 'g \<Rightarrow> string list" where
  "result ro g = kahnLoop (rg ro g) (deg ro g) (startQueue ro (deg ro g)) []"

lemma result_inv:
  assumes "ok ro g"
  obtains d where "kahn_inv (deps g) (set (nodes ro g)) [] d [] (result ro g)"
  using kahn_inv_loop [OF start_inv [OF assms]] rg_distinct [OF assms] rg_set [OF assms]
    deps_outside [OF assms] unfolding result_def by blast

lemma result_order:
  assumes "ok ro g"
  shows "distinct (result ro g)" "set (result ro g) \<subseteq> set (nodes ro g)"
    and "deps_first (deps g) (result ro g)"
  using result_inv [OF assms] by (auto simp: kahn_inv_def)

lemma result_closed:
  assumes "ok ro g" "n \<in> set (nodes ro g)" "set (deps g n) \<subseteq> set (result ro g)"
  shows "n \<in> set (result ro g)"
proof -
  obtain d where "kahn_inv (deps g) (set (nodes ro g)) [] d [] (result ro g)"
    using result_inv [OF assms(1)] .
  moreover have "set (deps g n) - set (result ro g) = {}" using assms(3) by auto
  ultimately show ?thesis using assms(2) unfolding kahn_inv_def by auto
qed

lemma result_complete:
  assumes "ok ro g"
  shows "length (result ro g) = length (nodes ro g) \<longleftrightarrow> acyclic (depRel (deps g))"
proof
  assume "length (result ro g) = length (nodes ro g)"
  then have "set (result ro g) = set (nodes ro g)"
    using result_order [OF assms] nodes_distinct [OF assms]
    by (metis List.finite_set card_subset_eq distinct_card)
  then show "acyclic (depRel (deps g))"
    using deps_first_acyclic [OF result_order(3,1) [OF assms]] deps_outside [OF assms] by simp
next
  assume ac: "acyclic (depRel (deps g))"
  have "depRel (deps g) \<subseteq> set (nodes ro g) \<times> set (nodes ro g)"
    using deps_nodes [OF assms] deps_outside [OF assms] by (fastforce simp: depRel_def)
  then have "finite (depRel (deps g))" by (rule finite_subset) simp
  then have wf: "wf (depRel (deps g))" using ac by (simp add: finite_acyclic_wf)
  have "n \<in> set (nodes ro g) \<longrightarrow> n \<in> set (result ro g)" for n
  proof (induction n rule: wf_induct_rule [OF wf])
    case (1 n)
    then show ?case using result_closed [OF assms, of n] deps_nodes [OF assms, of n]
      by (auto simp: depRel_def)
  qed
  then have "set (result ro g) = set (nodes ro g)" using result_order(2) [OF assms] by auto
  then show "length (result ro g) = length (nodes ro g)"
    using result_order(1) [OF assms] nodes_distinct [OF assms] by (metis distinct_card)
qed

lemma result_all:
  assumes "ok ro g" "length (result ro g) = length (nodes ro g)"
  shows "set (result ro g) = set (nodes ro g)"
  using result_order [OF assms(1)] nodes_distinct [OF assms(1)] assms(2)
  by (metis List.finite_set card_subset_eq distinct_card)

end

subsection \<open>The graph of an installation\<close>

definition wf_graph :: "rangeOrders \<Rightarrow> depGraph \<Rightarrow> bool" where
  "wf_graph ro g \<longleftrightarrow> orders_ok ro \<and> distinct (map fst g) \<and> (\<forall>nd \<in> set g. distinct (snd nd))"

lemma depsOf_entry: "distinct (map fst g) \<Longrightarrow> nd \<in> set g \<Longrightarrow> depsOf g (fst nd) = snd nd"
  by (cases nd) (simp add: depsOf_def)

lemma depsOf_mem: "d \<in> set (depsOf g n) \<Longrightarrow> \<exists>ds. (n, ds) \<in> set g \<and> d \<in> set ds"
  by (cases "map_of g n") (auto simp: depsOf_def dest: map_of_SomeD)

lemma depsOf_key: "n \<notin> fst ` set g \<Longrightarrow> depsOf g n = []"
  unfolding map_of_eq_None_iff [symmetric] by (simp add: depsOf_def)

lemma depsOf_appendTo: "depsOf (appendTo k v g) n = depsOf g n @ (if n = k then [v] else [])"
  by (simp add: depsOf_def appendTo_def update_conv')

lemma depsOf_reverseEdges:
  "distinct (snd nd) \<Longrightarrow>
   depsOf (reverseEdges nd rg) d = depsOf rg d @ (if d \<in> set (snd nd) then [fst nd] else [])"
proof -
  have "distinct ds \<Longrightarrow> depsOf (fold (\<lambda>dep rg. appendTo dep n rg) ds rg) d =
      depsOf rg d @ (if d \<in> set ds then [n] else [])" for n ds
    by (induction ds arbitrary: rg) (auto simp: depsOf_appendTo)
  then show "distinct (snd nd) \<Longrightarrow> ?thesis" by (simp add: reverseEdges_def)
qed

lemma depsOf_fold_reverseEdges:
  "(\<And>nd. nd \<in> set xs \<Longrightarrow> distinct (snd nd)) \<Longrightarrow>
   depsOf (fold reverseEdges xs rg) d = depsOf rg d @ map fst (filter (\<lambda>nd. d \<in> set (snd nd)) xs)"
  by (induction xs arbitrary: rg) (auto simp: depsOf_reverseEdges)

lemma allNodes_fold:
  fixes xs :: depGraph
  shows "set (fold (\<lambda>nd s. fold List.insert (snd nd) (List.insert (fst nd) s)) xs s) =
     set s \<union> fst ` set xs \<union> (\<Union>nd \<in> set xs. set (snd nd))"
  "distinct s \<Longrightarrow> distinct (fold (\<lambda>nd s. fold List.insert (snd nd) (List.insert (fst nd) s)) xs s)"
proof -
  have i: "set (fold List.insert ds s) = set s \<union> set ds" for ds and s :: "string list"
    by (induction ds arbitrary: s) auto
  have d: "distinct s \<Longrightarrow> distinct (fold List.insert ds s)" for ds and s :: "string list"
    by (induction ds arbitrary: s) auto
  show "distinct s \<Longrightarrow>
      distinct (fold (\<lambda>nd s. fold List.insert (snd nd) (List.insert (fst nd) s)) xs s)"
    by (induction xs arbitrary: s) (simp_all add: d)
  show "set (fold (\<lambda>nd s. fold List.insert (snd nd) (List.insert (fst nd) s)) xs s) =
      set s \<union> fst ` set xs \<union> (\<Union>nd \<in> set xs. set (snd nd))"
    by (induction xs arbitrary: s) (auto simp: i)
qed

lemma set_allNodes:
  assumes "orders_ok ro"
  shows "set (allNodes ro g) = fst ` set g \<union> (\<Union>nd \<in> set g. set (snd nd))"
  using assms range_order_set [of "roGraph ro"]
  by (simp add: allNodes_def allNodes_fold(1) orders_ok_def)

lemma reverseGraph_deps:
  assumes "wf_graph ro g"
  shows "distinct (depsOf (reverseGraph ro g) d)"
    and "n \<in> set (depsOf (reverseGraph ro g) d) \<longleftrightarrow> d \<in> set (depsOf g n)"
proof -
  have ro: "range_order (roGraph ro)" and dg: "distinct (map fst g)"
    using assms by (simp_all add: wf_graph_def orders_ok_def)
  have eq: "depsOf (reverseGraph ro g) d = map fst (filter (\<lambda>nd. d \<in> set (snd nd)) (roGraph ro g))"
    using assms range_order_set [OF ro, of g] unfolding reverseGraph_def
    by (subst depsOf_fold_reverseEdges) (auto simp: wf_graph_def depsOf_def)
  show "distinct (depsOf (reverseGraph ro g) d)"
    unfolding eq by (rule distinct_map_filter) (simp only: range_order_keys [OF ro] dg)
  have "n \<in> set (depsOf (reverseGraph ro g) d) \<longleftrightarrow> (\<exists>nd \<in> set g. fst nd = n \<and> d \<in> set (snd nd))"
    unfolding eq using range_order_set [OF ro, of g] by auto
  also have "\<dots> \<longleftrightarrow> d \<in> set (depsOf g n)"
    using depsOf_entry [OF dg] depsOf_mem [of d g n] by (metis fst_conv snd_conv)
  finally show "n \<in> set (depsOf (reverseGraph ro g) d) \<longleftrightarrow> d \<in> set (depsOf g n)" .
qed

lemma map_of_fold_update:
  "distinct (map fst xs) \<Longrightarrow>
   map_of (fold (\<lambda>nd m. AList.update (fst nd) (f nd) m) xs m) k =
     (case map_of (map (\<lambda>nd. (fst nd, f nd)) xs) k of None \<Rightarrow> map_of m k | Some v \<Rightarrow> Some v)"
proof (induction xs arbitrary: m)
  case (Cons x xs)
  then have "map_of (map (\<lambda>nd. (fst nd, f nd)) xs) (fst x) = None"
    by (auto simp: map_of_eq_None_iff image_image)
  with Cons show ?case by (auto simp: update_conv' split: option.splits)
qed simp

lemma distinct_fold_update:
  "distinct (map fst m) \<Longrightarrow> distinct (map fst (fold (\<lambda>nd m. AList.update (g nd) (f nd) m) xs m))"
  by (induction xs arbitrary: m) (auto simp: distinct_update)

lemma map_of_inDegree:
  assumes "wf_graph ro g" "\<And>n. n \<in> fst ` set g \<Longrightarrow> n \<in> set nodes"
  shows "distinct (map fst (inDegree ro g nodes))"
    and "map_of (inDegree ro g nodes) n =
      (if n \<in> set nodes then Some (int (length (depsOf g n))) else None)"
proof -
  let ?zero = "fold (\<lambda>node m. AList.update node (0 :: int) m) (roNames ro nodes) []"
  have ro: "range_order (roGraph ro)" "range_order (roNames ro)" and dg: "distinct (map fst g)"
    using assms(1) by (simp_all add: wf_graph_def orders_ok_def)
  have dz: "distinct (map fst ?zero)" by (rule distinct_fold_update) simp
  then show "distinct (map fst (inDegree ro g nodes))"
    unfolding inDegree_def by (rule distinct_fold_update)
  have z: "map_of (fold (\<lambda>node m. AList.update node (0 :: int) m) xs m) n =
      (if n \<in> set xs then Some 0 else map_of m n)" for xs m
    by (induction xs arbitrary: m) (auto simp: update_conv')
  let ?deg = "map (\<lambda>nd. (fst nd, int (length (snd nd))))"
  have dd: "distinct (map fst (roGraph ro g))" by (simp only: range_order_keys [OF ro(1)] dg)
  have "distinct (map fst (?deg (roGraph ro g)))" "distinct (map fst (?deg g))"
    using dd dg by (simp_all add: comp_def)
  then have "map_of (?deg (roGraph ro g)) = map_of (?deg g)"
    by (subst map_of_inject_set) (simp_all add: range_order_set [OF ro(1)])
  then have "map_of (?deg (roGraph ro g)) n = map_of (?deg g) n" by simp
  also have "\<dots> = map_option (\<lambda>ds. int (length ds)) (map_of g n)" by (induction g) auto
  finally have m: "map_of (?deg (roGraph ro g)) n = map_option (\<lambda>ds. int (length ds)) (map_of g n)" .
  have "map_of (inDegree ro g nodes) n =
      (case map_option (\<lambda>ds. int (length ds)) (map_of g n) of
         None \<Rightarrow> (if n \<in> set nodes then Some 0 else None) | Some v \<Rightarrow> Some v)"
    unfolding inDegree_def map_of_fold_update [OF dd] m z range_order_set [OF ro(2)]
    by (simp split: option.split)
  moreover have "map_of g n = None \<or> n \<in> set nodes"
    using assms(2) [of n] by (metis map_of_eq_None_iff)
  ultimately show "map_of (inDegree ro g nodes) n =
      (if n \<in> set nodes then Some (int (length (depsOf g n))) else None)"
    by (auto simp: depsOf_def split: option.splits)
qed

lemma depsOf_distinct: "wf_graph ro g \<Longrightarrow> distinct (depsOf g n)"
  by (cases "map_of g n") (auto simp: depsOf_def wf_graph_def dest: map_of_SomeD)

interpretation install_graph: kahn_graph wf_graph allNodes depsOf reverseGraph
  "\<lambda>ro g. inDegree ro g (allNodes ro g)"
proof
  fix ro g n d
  assume ok: "wf_graph ro g"
  then show oo: "orders_ok ro" by (simp add: wf_graph_def)
  note nodes = set_allNodes [OF oo, of g]
  show "distinct (allNodes ro g)" unfolding allNodes_def by (rule allNodes_fold(2)) simp
  show "distinct (depsOf g n)" using ok by (rule depsOf_distinct)
  show "set (depsOf g n) \<subseteq> set (allNodes ro g)"
    unfolding nodes using depsOf_mem [of _ g n] by fastforce
  show "n \<notin> set (allNodes ro g) \<Longrightarrow> depsOf g n = []"
    unfolding nodes by (intro depsOf_key) blast
  show "distinct (depsOf (reverseGraph ro g) d)"
    "n \<in> set (depsOf (reverseGraph ro g) d) \<longleftrightarrow> d \<in> set (depsOf g n)"
    using reverseGraph_deps [OF ok] by blast+
  have keys: "m \<in> fst ` set g \<Longrightarrow> m \<in> set (allNodes ro g)" for m unfolding nodes by simp
  show "distinct (map fst (inDegree ro g (allNodes ro g)))"
    "map_of (inDegree ro g (allNodes ro g)) n =
       (if n \<in> set (allNodes ro g) then Some (int (length (depsOf g n))) else None)"
    using map_of_inDegree [OF ok keys] by blast+
qed

datatype order_error = DependencyCycle "string list"

definition topologicalSort :: "rangeOrders \<Rightarrow> depGraph \<Rightarrow> order_error + string list" where
  "topologicalSort ro tree =
     (let nodes = allNodes ro tree;
          deg = inDegree ro tree nodes;
          result = kahnLoop (reverseGraph ro tree) deg (startQueue ro deg) []
      in if length result \<noteq> length nodes then Inl (DependencyCycle []) else Inr result)"

lemma topologicalSort_result:
  "topologicalSort ro tree =
     (if length (install_graph.result ro tree) \<noteq> length (allNodes ro tree)
      then Inl (DependencyCycle []) else Inr (install_graph.result ro tree))"
  by (simp add: topologicalSort_def Let_def install_graph.result_def)

lemma topologicalSort_order:
  assumes "wf_graph ro tree" "topologicalSort ro tree = Inr order"
  shows "distinct order" "set order = set (allNodes ro tree)" "deps_first (depsOf tree) order"
  using assms install_graph.result_order [OF assms(1)] install_graph.result_all [OF assms(1)]
  by (auto simp: topologicalSort_result split: if_splits)

subsection \<open>The graph of a deletion\<close>

definition addIsolated ::
    "string \<Rightarrow> string list \<times> depGraph \<Rightarrow> string list \<times> depGraph" where
  "addIsolated pkg ng =
     (if pkg \<in> set (fst ng) then ng
      else (List.insert pkg (fst ng), AList.update pkg [] (snd ng)))"

definition deleteGraph :: "rangeOrders \<Rightarrow> depGraph \<times> string list \<Rightarrow> string list \<times> depGraph" where
  "deleteGraph ro gd =
     fold addIsolated (roNames ro (snd gd)) (allNodes ro (fst gd), fst gd)"

definition deleteDegrees :: "rangeOrders \<Rightarrow> depGraph \<times> string list \<Rightarrow> degrees" where
  "deleteDegrees ro gd = inDegree ro (snd (deleteGraph ro gd)) (fst (deleteGraph ro gd))"

text \<open>Adding isolated packages changes no dependency and keeps the graph well-formed.\<close>

definition isolated_inv :: "rangeOrders \<Rightarrow> depGraph \<Rightarrow> string list \<times> depGraph \<Rightarrow> bool" where
  "isolated_inv ro g ng \<longleftrightarrow>
     wf_graph ro (snd ng) \<and> distinct (fst ng) \<and> set (allNodes ro g) \<subseteq> set (fst ng) \<and>
     fst ` set (snd ng) \<subseteq> set (fst ng) \<and> depsOf (snd ng) = depsOf g"

lemma addIsolated_inv: "isolated_inv ro g ng \<Longrightarrow> isolated_inv ro g (addIsolated pkg ng)"
proof (cases "pkg \<in> set (fst ng)")
  case False
  assume inv: "isolated_inv ro g ng"
  have wf: "wf_graph ro (snd ng)" using inv by (simp add: isolated_inv_def)
  then have "wf_graph ro (AList.update pkg [] (snd ng))"
    using set_update_subset [of pkg "[]" "snd ng"] by (auto simp: wf_graph_def distinct_update)
  moreover have "depsOf (snd ng) pkg = []" using inv False by (intro depsOf_key) (auto simp: isolated_inv_def)
  then have "depsOf (AList.update pkg [] (snd ng)) = depsOf (snd ng)"
    by (auto simp: depsOf_def fun_eq_iff update_conv')
  moreover have "fst ` set (AList.update pkg [] (snd ng)) \<subseteq> insert pkg (set (fst ng))"
    using inv set_update_subset [of pkg "[]" "snd ng"] by (fastforce simp: isolated_inv_def)
  ultimately show ?thesis using inv False by (auto simp: isolated_inv_def addIsolated_def)
qed (simp add: addIsolated_def)

lemma deleteGraph_inv: "wf_graph ro (fst gd) \<Longrightarrow> isolated_inv ro (fst gd) (deleteGraph ro gd)"
proof -
  assume wf: "wf_graph ro (fst gd)"
  have "isolated_inv ro (fst gd) (allNodes ro (fst gd), fst gd)"
    using wf set_allNodes [OF install_graph.ok_orders [OF wf], of "fst gd"]
    by (simp add: isolated_inv_def install_graph.nodes_distinct)
  then show ?thesis unfolding deleteGraph_def by (rule fold_invariant_list) (rule addIsolated_inv)
qed

lemma set_addIsolated: "set (fst (fold addIsolated xs ng)) = set (fst ng) \<union> set xs"
  by (induction xs arbitrary: ng) (auto simp: addIsolated_def)

lemma set_deleteGraph:
  "orders_ok ro \<Longrightarrow> set (fst (deleteGraph ro gd)) = set (allNodes ro (fst gd)) \<union> set (snd gd)"
  by (simp add: deleteGraph_def set_addIsolated range_order_set orders_ok_def)

interpretation delete_graph: kahn_graph "\<lambda>ro gd. wf_graph ro (fst gd)" "\<lambda>ro gd. fst (deleteGraph ro gd)"
  "\<lambda>gd. depsOf (fst gd)" "\<lambda>ro gd. reverseGraph ro (fst gd)" deleteDegrees
proof
  fix ro n d and gd :: "depGraph \<times> string list"
  assume ok: "wf_graph ro (fst gd)"
  then show "orders_ok ro" by (rule install_graph.ok_orders)
  note inv = deleteGraph_inv [OF ok]
  then have wf: "wf_graph ro (snd (deleteGraph ro gd))"
    and sub: "set (allNodes ro (fst gd)) \<subseteq> set (fst (deleteGraph ro gd))"
    and eq: "depsOf (snd (deleteGraph ro gd)) = depsOf (fst gd)"
    and keys: "\<And>m. m \<in> fst ` set (snd (deleteGraph ro gd)) \<Longrightarrow> m \<in> set (fst (deleteGraph ro gd))"
    by (auto simp: isolated_inv_def)
  show "distinct (fst (deleteGraph ro gd))" using inv by (simp add: isolated_inv_def)
  show "distinct (depsOf (fst gd) n)" using ok by (rule depsOf_distinct)
  show "set (depsOf (fst gd) n) \<subseteq> set (fst (deleteGraph ro gd))"
    using install_graph.deps_nodes [OF ok] sub by blast
  show "n \<notin> set (fst (deleteGraph ro gd)) \<Longrightarrow> depsOf (fst gd) n = []"
    using install_graph.deps_outside [OF ok] sub by blast
  show "distinct (depsOf (reverseGraph ro (fst gd)) d)"
    "n \<in> set (depsOf (reverseGraph ro (fst gd)) d) \<longleftrightarrow> d \<in> set (depsOf (fst gd) n)"
    using reverseGraph_deps [OF ok] by blast+
  show "distinct (map fst (deleteDegrees ro gd))"
    "map_of (deleteDegrees ro gd) n = (if n \<in> set (fst (deleteGraph ro gd))
       then Some (int (length (depsOf (fst gd) n))) else None)"
    using map_of_inDegree [OF wf keys] unfolding deleteDegrees_def eq by blast+
qed

definition unprocessed :: "rangeOrders \<Rightarrow> string list \<Rightarrow> string list \<Rightarrow> string list" where
  "unprocessed ro nodes result = filter (\<lambda>node. node \<notin> set result) (roNames ro nodes)"

definition deleteOrder :: "rangeOrders \<Rightarrow> depGraph \<times> string list \<Rightarrow> order_error + string list" where
  "deleteOrder ro gd =
     (let nodes = fst (deleteGraph ro gd);
          deg = deleteDegrees ro gd;
          result = kahnLoop (reverseGraph ro (fst gd)) deg (startQueue ro deg) []
      in if length result \<noteq> length nodes then Inl (DependencyCycle (unprocessed ro nodes result))
         else Inr (rev result))"

lemma deleteOrder_result:
  "deleteOrder ro gd =
     (if length (delete_graph.result ro gd) \<noteq> length (fst (deleteGraph ro gd))
      then Inl (DependencyCycle (unprocessed ro (fst (deleteGraph ro gd)) (delete_graph.result ro gd)))
      else Inr (rev (delete_graph.result ro gd)))"
  by (simp add: deleteOrder_def Let_def delete_graph.result_def)

lemma deleteOrder_order:
  assumes "wf_graph ro (fst gd)" "deleteOrder ro gd = Inr order"
  shows "distinct order" "set order = set (fst (deleteGraph ro gd))"
    and "deps_first (depsOf (fst gd)) (rev order)"
proof -
  have len: "length (delete_graph.result ro gd) = length (fst (deleteGraph ro gd))"
    and ord: "order = rev (delete_graph.result ro gd)"
    using assms(2) by (simp_all add: deleteOrder_result split: if_splits)
  show "distinct order" "set order = set (fst (deleteGraph ro gd))"
    "deps_first (depsOf (fst gd)) (rev order)"
    using delete_graph.result_order(1,3) [OF assms(1)] delete_graph.result_all [OF assms(1) len]
    unfolding ord by simp_all
qed

lemma deleteOrder_cycle:
  assumes "wf_graph ro (fst gd)"
  shows "(\<exists>order. deleteOrder ro gd = Inr order) \<longleftrightarrow> acyclic (depRel (depsOf (fst gd)))"
  using delete_graph.result_complete [OF assms] by (auto simp: deleteOrder_result)

text \<open>Orders that list the dependencies of a package first, except those of a set \<open>E\<close>.\<close>

definition deps_first_except :: "string set \<Rightarrow> (string \<Rightarrow> string list) \<Rightarrow> string list \<Rightarrow> bool" where
  "deps_first_except E deps xs \<longleftrightarrow> (\<forall>i < length xs. set (deps (xs ! i)) \<subseteq> E \<union> set (take i xs))"

lemma deps_first_except_snoc:
  "deps_first_except E deps (xs @ [x]) \<longleftrightarrow> deps_first_except E deps xs \<and> set (deps x) \<subseteq> E \<union> set xs"
  by (auto simp: deps_first_except_def nth_append less_Suc_eq)

lemma deps_first_filter:
  "deps_first deps xs \<Longrightarrow> (\<And>x. x \<in> set xs \<Longrightarrow> \<not> P x \<Longrightarrow> x \<in> E) \<Longrightarrow> deps_first_except E deps (filter P xs)"
proof (induction xs rule: rev_induct)
  case Nil
  then show ?case by (simp add: deps_first_except_def)
next
  case (snoc x xs)
  have "set (deps x) \<subseteq> E \<union> set (filter P xs)" using snoc.prems by (auto simp: deps_first_snoc)
  then show ?case using snoc by (simp add: deps_first_snoc deps_first_except_snoc)
qed

lemma deps_first_take: "deps_first deps xs \<Longrightarrow> deps_first deps (take k xs)"
  by (auto simp: deps_first_def min_def)

lemma deps_first_cong:
  "(\<And>n. n \<in> set xs \<Longrightarrow> set (f n) = set (g n)) \<Longrightarrow> deps_first f xs = deps_first g xs"
  unfolding deps_first_def by (metis nth_mem)

lemma deps_first_except_cong:
  "(\<And>n. n \<in> set xs \<Longrightarrow> set (f n) = set (g n)) \<Longrightarrow> deps_first_except E f xs = deps_first_except E g xs"
  unfolding deps_first_except_def by (metis nth_mem)

subsection \<open>Properties\<close>

text \<open>C15: On a dependency tree with distinct keys and distinct dependencies, and for every
  iteration order of the maps, the sort ends and either returns every package of the tree
  exactly once with all dependencies of a package before it, or reports a cycle; it reports a
  cycle exactly when the dependency relation is cyclic.\<close>

theorem topologicalSort_correct:
  assumes "wf_graph ro tree"
  shows "case topologicalSort ro tree of
      Inr order \<Rightarrow> distinct order \<and> set order = fst ` set tree \<union> (\<Union>nd \<in> set tree. set (snd nd)) \<and>
        deps_first (depsOf tree) order \<and> acyclic (depRel (depsOf tree))
    | Inl e \<Rightarrow> \<not> acyclic (depRel (depsOf tree))"
proof (cases "topologicalSort ro tree")
  case (Inl e)
  then show ?thesis using install_graph.result_complete [OF assms]
    by (auto simp: topologicalSort_result split: if_splits)
next
  case (Inr order)
  then have "acyclic (depRel (depsOf tree))" using install_graph.result_complete [OF assms]
    by (auto simp: topologicalSort_result split: if_splits)
  then show ?thesis using Inr topologicalSort_order [OF assms Inr]
      set_allNodes [OF install_graph.ok_orders [OF assms]] by simp
qed

definition plainOrders :: rangeOrders where
  "plainOrders = \<lparr>roGraph = (\<lambda>g. g), roNames = (\<lambda>ns. ns), roDegrees = (\<lambda>d. d)\<rparr>"

lemma plainOrders_ok: "orders_ok plainOrders"
  by (simp add: orders_ok_def plainOrders_def range_order_id)

theorem topologicalSort_correct_witness:
  "topologicalSort plainOrders [(''app'', [''db'', ''net'']), (''db'', [''net''])]
     = Inr [''net'', ''db'', ''app''] \<and>
   acyclic (depRel (depsOf [(''app'', [''db'', ''net'']), (''db'', [''net''])])) \<and>
   topologicalSort plainOrders [(''app'', [''db'']), (''db'', [''app''])] = Inl (DependencyCycle []) \<and>
   \<not> acyclic (depRel (depsOf [(''app'', [''db'']), (''db'', [''app''])]))"
proof -
  have wf: "wf_graph plainOrders [(''app'', [''db'', ''net'']), (''db'', [''net''])]"
    "wf_graph plainOrders [(''app'', [''db'']), (''db'', [''app''])]"
    by (simp_all add: wf_graph_def plainOrders_ok)
  have r: "topologicalSort plainOrders [(''app'', [''db'', ''net'']), (''db'', [''net''])]
     = Inr [''net'', ''db'', ''app'']"
    "topologicalSort plainOrders [(''app'', [''db'']), (''db'', [''app''])] = Inl (DependencyCycle [])"
    by code_simp+
  show ?thesis using topologicalSort_correct [OF wf(1)] topologicalSort_correct [OF wf(2)] r by simp
qed

end
