(* ===== verification/Package_Install.thy ===== *)
theory Package_Install
  imports Package_Order
begin

text \<open>
  The command \<open>cozypkg add\<close> (cmd/cozypkg/cmd/add.go) with the predicates it shares with the
  operator (internal/marketplace/collision): the dependency tree of a package, the choice of a
  variant for every package of the tree, and the requests that create the Packages. The cluster
  is a record \<open>pkgClient\<close> of what the API answers; standard input is the list of the lines that
  the prompts read; the requests sent are returned in order.
\<close>

subsection \<open>Packages and their sources\<close>

record Component =
  coName :: string
  coInstall :: "bool option" \<comment> \<open>\<open>Install\<close>, with its field \<open>Privileged\<close>\<close>

record Variant =
  vaName :: string
  vaDependsOn :: "string list"
  vaComponents :: "Component list"

record PackageSource =
  psName :: string
  psSourceRef :: "string option" \<comment> \<open>\<open>SourceRef\<close>, with its field \<open>Name\<close>\<close>
  psVariants :: "Variant list"

record Package =
  pkName :: string
  pkLabels :: "string \<rightharpoonup> string"
  pkAnnotations :: "string \<rightharpoonup> string"
  pkOwners :: "string list" \<comment> \<open>the kinds of the owner references\<close>
  pkVariant :: string

definition tapLabel :: string where
  "tapLabel = ''apps.cozystack.io/marketplace-tap''"

definition tapSourceAnnotation :: string where
  "tapSourceAnnotation = ''apps.cozystack.io/tap-source''"

definition Owns :: "(string \<rightharpoonup> string) \<Rightarrow> (string \<rightharpoonup> string) \<Rightarrow> string \<Rightarrow> bool" where
  "Owns labels annotations sourceName \<longleftrightarrow>
     sourceName \<noteq> [] \<and> strOf labels tapLabel = ''true'' \<and>
     strOf annotations tapSourceAnnotation = sourceName"

definition ManagedRegistration :: "Package \<Rightarrow> string \<Rightarrow> string \<Rightarrow> bool" where
  "ManagedRegistration pkg sourceName variant \<longleftrightarrow>
     Owns (pkLabels pkg) (pkAnnotations pkg) sourceName \<and> variant = []"

definition PrivilegedConfirmed :: "Package \<Rightarrow> bool" where
  "PrivilegedConfirmed pkg \<longleftrightarrow> strOf (pkLabels pkg) tapLabel \<noteq> ''true''"

definition PrivilegedInstallComponents :: "PackageSource \<Rightarrow> string \<Rightarrow> string list" where
  "PrivilegedInstallComponents ps variant =
     concat (map (\<lambda>v. map coName (filter (\<lambda>c. coInstall c = Some True) (vaComponents v)))
       (filter (\<lambda>v. vaName v = variant) (psVariants ps)))"

definition tapSourceName :: "PackageSource option \<Rightarrow> string" where
  "tapSourceName ps = (case ps of None \<Rightarrow> [] | Some p \<Rightarrow> (case psSourceRef p of None \<Rightarrow> [] | Some n \<Rightarrow> n))"

definition pinRegistrationToUser :: "Package \<Rightarrow> string \<Rightarrow> Package" where
  "pinRegistrationToUser pkg variant =
     pkg\<lparr>pkVariant := variant, pkLabels := (pkLabels pkg)(tapLabel := None),
         pkAnnotations := (pkAnnotations pkg)(tapSourceAnnotation := None),
         pkOwners := filter (\<lambda>k. k \<noteq> ''PackageSource'') (pkOwners pkg)\<rparr>"

subsection \<open>The cluster\<close>

datatype create_outcome = Created | AlreadyExists | CreateError string

record pkgClient =
  kcSources :: "PackageSource list" \<comment> \<open>the stored PackageSources\<close>
  kcGetErr :: "string \<Rightarrow> bool" \<comment> \<open>reading this PackageSource fails\<close>
  kcListSourcesErr :: "string option"
  kcListPackages :: "string + Package list"
  kcUpdateErr :: "string \<Rightarrow> string option"
  kcCreate :: "string \<Rightarrow> create_outcome"

definition getSource :: "pkgClient \<Rightarrow> string \<Rightarrow> PackageSource option" where
  "getSource c n = (if kcGetErr c n then None else find (\<lambda>ps. psName ps = n) (kcSources c))"

definition byName :: "('a \<Rightarrow> string) \<Rightarrow> 'a list \<Rightarrow> (string \<rightharpoonup> 'a)" where
  "byName nm items = fold (\<lambda>x m. m(nm x \<mapsto> x)) items Map.empty"

subsection \<open>The dependency tree\<close>

definition dependencySet :: "PackageSource \<Rightarrow> string list" where
  "dependencySet ps = remdups (concat (map vaDependsOn (psVariants ps)))"

record btState =
  btTree :: depGraph
  btRequesters :: "string \<rightharpoonup> string"
  btVisited :: "string set"

definition addDependency :: "string \<Rightarrow> string \<Rightarrow> btState \<Rightarrow> btState" where
  "addDependency pkgName dep st =
     st\<lparr>btTree := appendTo pkgName dep (btTree st),
        btRequesters := (btRequesters st)(dep \<mapsto> pkgName)\<rparr>"

primrec foldSome :: "('a \<Rightarrow> 's \<Rightarrow> 's option) \<Rightarrow> 'a list \<Rightarrow> 's \<Rightarrow> 's option" where
  "foldSome f [] s = Some s"
| "foldSome f (x # xs) s = (case f x s of None \<Rightarrow> None | Some s' \<Rightarrow> foldSome f xs s')"

text \<open>The recursion goes one level deeper only from a stored PackageSource that was not visited
  before; the first argument bounds its depth, and \<open>None\<close> is the end of that bound.\<close>

primrec buildTree ::
    "nat \<Rightarrow> rangeOrders \<Rightarrow> pkgClient \<Rightarrow> string \<Rightarrow> btState \<Rightarrow> btState option" where
  "buildTree 0 ro c pkgName st = None"
| "buildTree (Suc depth) ro c pkgName st =
     (if pkgName \<in> btVisited st then Some st
      else
        let st1 = st\<lparr>btVisited := insert pkgName (btVisited st)\<rparr> in
        case getSource c pkgName of
          None \<Rightarrow> Some st1
        | Some ps \<Rightarrow>
            foldSome (\<lambda>dep st. buildTree depth ro c dep (addDependency pkgName dep st))
              (roNames ro (dependencySet ps)) st1)"

definition startTree :: "string \<Rightarrow> btState" where
  "startTree rootName = \<lparr>btTree = [(rootName, [])], btRequesters = Map.empty, btVisited = {}\<rparr>"

definition buildDependencyTree ::
    "rangeOrders \<Rightarrow> pkgClient \<Rightarrow> string \<Rightarrow> (depGraph \<times> (string \<rightharpoonup> string)) option" where
  "buildDependencyTree ro c rootName =
     map_option (\<lambda>st. (btTree st, btRequesters st))
       (buildTree (Suc (length (kcSources c))) ro c rootName (startTree rootName))"

subsection \<open>The prompts\<close>

datatype install_error =
    GetFailed string | OutOfDepth | SortFailed order_error
  | ListSourcesFailed string | ListPackagesFailed string
  | SourceNotFound string string | NoVariants string | ReadFailed string
  | Aborted string string "string list" | NilPackage string
  | UpdateFailed string string | CreateFailed string string

fun selectLoop :: "Variant list \<Rightarrow> string list \<Rightarrow> (string \<times> string list) option" where
  "selectLoop variants [] = None"
| "selectLoop variants (line # rest) =
     (let input = trimSpace line in
      if input = [] \<and> length variants = 1 then Some (vaName (variants ! 0), rest)
      else case atoi input of
             None \<Rightarrow> selectLoop variants rest
           | Some choice \<Rightarrow>
               if choice < 1 \<or> choice > int (length variants) then selectLoop variants rest
               else Some (vaName (variants ! (nat choice - 1)), rest))"

definition selectVariantInteractive ::
    "PackageSource \<Rightarrow> string list \<Rightarrow> install_error + string \<times> string list" where
  "selectVariantInteractive ps stdin =
     (if psVariants ps = [] then Inl (NoVariants (psName ps))
      else case selectLoop (psVariants ps) stdin of
             None \<Rightarrow> Inl (ReadFailed (psName ps))
           | Some r \<Rightarrow> Inr r)"

definition isYes :: "string \<Rightarrow> bool" where
  "isYes line \<longleftrightarrow> toLower (trimSpace line) \<in> {''y'', ''yes''}"

definition confirmPrivileged :: "string \<Rightarrow> string list \<Rightarrow> install_error + bool \<times> string list" where
  "confirmPrivileged pkgName stdin =
     (case stdin of [] \<Rightarrow> Inl (ReadFailed pkgName) | line # rest \<Rightarrow> Inr (isYes line, rest))"

subsection \<open>The first pass: a variant for every package\<close>

record choices =
  chVariants :: "string \<rightharpoonup> string"
  chReopen :: "string set"
  chStdin :: "string list"

definition keepInstalled :: "(string \<rightharpoonup> Package) \<Rightarrow> (string \<rightharpoonup> PackageSource) \<Rightarrow> string \<Rightarrow> bool" where
  "keepInstalled installed sources pkgName =
     (case installed pkgName of
        None \<Rightarrow> False
      | Some p \<Rightarrow> \<not> ManagedRegistration p (tapSourceName (sources pkgName)) (pkVariant p))"

definition confirmVariant ::
    "bool \<Rightarrow> string \<Rightarrow> PackageSource \<Rightarrow> string \<times> string list \<Rightarrow> install_error + string list" where
  "confirmVariant allowPrivileged pkgName ps sel =
     (let privileged = PrivilegedInstallComponents ps (fst sel) in
      if privileged \<noteq> [] \<and> \<not> allowPrivileged then
        try_bind (confirmPrivileged pkgName (snd sel))
          (\<lambda>(ok, stdin). if ok then Inr stdin else Inl (Aborted pkgName (fst sel) privileged))
      else Inr (snd sel))"

definition chooseVariant ::
    "bool \<Rightarrow> (string \<rightharpoonup> string) \<Rightarrow> (string \<rightharpoonup> PackageSource) \<Rightarrow> (string \<rightharpoonup> Package) \<Rightarrow>
     string \<Rightarrow> choices \<Rightarrow> install_error + choices" where
  "chooseVariant allowPrivileged requesters sources installed pkgName ch =
     (if keepInstalled installed sources pkgName then
        (let variant = pkVariant (the (installed pkgName)) in
         Inr (ch\<lparr>chVariants := (chVariants ch)(pkgName \<mapsto> (if variant = [] then ''default'' else variant))\<rparr>))
      else case sources pkgName of
        None \<Rightarrow> Inl (SourceNotFound pkgName (strOf requesters pkgName))
      | Some ps \<Rightarrow>
          try_bind (selectVariantInteractive ps (chStdin ch)) (\<lambda>sel.
          try_bind (confirmVariant allowPrivileged pkgName ps sel) (\<lambda>stdin.
            Inr \<lparr>chVariants = (chVariants ch)(pkgName \<mapsto> fst sel),
                 chReopen = (if installed pkgName \<noteq> None then insert pkgName (chReopen ch) else chReopen ch),
                 chStdin = stdin\<rparr>)))"

primrec chooseAll ::
    "(string \<Rightarrow> choices \<Rightarrow> install_error + choices) \<Rightarrow> string list \<Rightarrow> choices \<Rightarrow> install_error + choices" where
  "chooseAll pick [] ch = Inr ch"
| "chooseAll pick (p # ps) ch = try_bind (pick p ch) (chooseAll pick ps)"

subsection \<open>The second pass: the requests\<close>

datatype pkg_request = CreatePackage Package | UpdatePackage Package

definition requested :: "pkg_request \<Rightarrow> Package" where
  "requested r = (case r of CreatePackage p \<Rightarrow> p | UpdatePackage p \<Rightarrow> p)"

definition newPackage :: "string \<Rightarrow> string \<Rightarrow> Package" where
  "newPackage n variant = \<lparr>pkName = n, pkLabels = Map.empty, pkAnnotations = Map.empty, pkOwners = [],
     pkVariant = variant\<rparr>"

definition applyPackage ::
    "pkgClient \<Rightarrow> (string \<rightharpoonup> Package) \<Rightarrow> choices \<Rightarrow> string \<Rightarrow> pkg_request list \<times> install_error option" where
  "applyPackage c installed ch pkgName =
     (let variant = strOf (chVariants ch) pkgName in
      if pkgName \<in> chReopen ch then
        (case installed pkgName of
           None \<Rightarrow> ([], Some (NilPackage pkgName))
         | Some p \<Rightarrow> ([UpdatePackage (pinRegistrationToUser p variant)],
             map_option (UpdateFailed pkgName) (kcUpdateErr c pkgName)))
      else if installed pkgName \<noteq> None then ([], None)
      else ([CreatePackage (newPackage pkgName variant)],
        (case kcCreate c pkgName of CreateError e \<Rightarrow> Some (CreateFailed pkgName e) | _ \<Rightarrow> None)))"

fun applyAll ::
    "(string \<Rightarrow> pkg_request list \<times> install_error option) \<Rightarrow> string list \<Rightarrow> pkg_request list \<times> (install_error + unit)" where
  "applyAll f [] = ([], Inr ())"
| "applyAll f (p # ps) =
     (case f p of
        (rs, Some e) \<Rightarrow> (rs, Inl e)
      | (rs, None) \<Rightarrow> (let (rs', out) = applyAll f ps in (rs @ rs', out)))"

definition startChoices :: "string list \<Rightarrow> choices" where
  "startChoices stdin = \<lparr>chVariants = Map.empty, chReopen = {}, chStdin = stdin\<rparr>"

text \<open>The preparation ends with the order of installation, the Packages found and the choices.\<close>

definition planInstall ::
    "rangeOrders \<Rightarrow> pkgClient \<Rightarrow> bool \<Rightarrow> string list \<Rightarrow> string \<Rightarrow>
     install_error + string list \<times> (string \<rightharpoonup> Package) \<times> choices" where
  "planInstall ro c allowPrivileged stdin packageSourceName =
     (case getSource c packageSourceName of
        None \<Rightarrow> Inl (GetFailed packageSourceName)
      | Some ps \<Rightarrow>
     (case buildDependencyTree ro c packageSourceName of
        None \<Rightarrow> Inl OutOfDepth
      | Some (tree, requesters) \<Rightarrow>
     (case topologicalSort ro tree of
        Inl e \<Rightarrow> Inl (SortFailed e)
      | Inr installOrder \<Rightarrow>
     (case kcListSourcesErr c of
        Some e \<Rightarrow> Inl (ListSourcesFailed e)
      | None \<Rightarrow>
     (case kcListPackages c of
        Inl e \<Rightarrow> Inl (ListPackagesFailed e)
      | Inr packages \<Rightarrow>
          (let installed = byName pkName packages in
           try_bind (chooseAll (chooseVariant allowPrivileged requesters (byName psName (kcSources c)) installed)
               installOrder (startChoices stdin))
             (\<lambda>ch. Inr (installOrder, installed, ch))))))))"

definition installPackage ::
    "rangeOrders \<Rightarrow> pkgClient \<Rightarrow> bool \<Rightarrow> string list \<Rightarrow> string \<Rightarrow> pkg_request list \<times> (install_error + unit)" where
  "installPackage ro c allowPrivileged stdin packageSourceName =
     (case planInstall ro c allowPrivileged stdin packageSourceName of
        Inl e \<Rightarrow> ([], Inl e)
      | Inr (installOrder, installed, ch) \<Rightarrow> applyAll (applyPackage c installed ch) installOrder)"

subsection \<open>The dependency tree covers what the root reaches\<close>

definition sourceDeps :: "pkgClient \<Rightarrow> string \<Rightarrow> string list" where
  "sourceDeps c n = (case getSource c n of None \<Rightarrow> [] | Some ps \<Rightarrow> dependencySet ps)"

definition reaches :: "pkgClient \<Rightarrow> string \<Rightarrow> string set" where
  "reaches c r = {n. (r, n) \<in> {(a, b). b \<in> set (sourceDeps c a)}\<^sup>*}"

lemma reaches_closed: "n \<in> reaches c r \<Longrightarrow> set (sourceDeps c n) \<subseteq> reaches c r"
  by (auto simp: reaches_def intro: rtrancl_into_rtrancl)

lemma reaches_root: "r \<in> reaches c r"
  by (simp add: reaches_def)

lemma reaches_least:
  assumes "r \<in> X" "\<And>n. n \<in> X \<Longrightarrow> set (sourceDeps c n) \<subseteq> X"
  shows "reaches c r \<subseteq> X"
proof
  fix n assume "n \<in> reaches c r"
  then have "(r, n) \<in> {(a, b). b \<in> set (sourceDeps c a)}\<^sup>*" by (simp add: reaches_def)
  then show "n \<in> X" using assms by (induction rule: rtrancl_induct) auto
qed

text \<open>Between two states, the packages of \<open>X\<close> being in progress: earlier entries are kept, and
  every package visited since has its full entry.\<close>

definition grown :: "pkgClient \<Rightarrow> string set \<Rightarrow> btState \<Rightarrow> btState \<Rightarrow> bool" where
  "grown c X st st' \<longleftrightarrow>
     btVisited st \<subseteq> btVisited st' \<and> fst ` set (btTree st) \<subseteq> fst ` set (btTree st') \<and>
     (\<forall>n \<in> btVisited st - X. depsOf (btTree st') n = depsOf (btTree st) n) \<and>
     (\<forall>n \<in> btVisited st' - btVisited st.
        distinct (depsOf (btTree st') n) \<and> set (depsOf (btTree st') n) = set (sourceDeps c n) \<and>
        set (sourceDeps c n) \<subseteq> btVisited st') \<and>
     fst ` set (btTree st') \<subseteq> fst ` set (btTree st) \<union> btVisited st'"

definition tree_ok :: "btState \<Rightarrow> bool" where
  "tree_ok st \<longleftrightarrow> distinct (map fst (btTree st)) \<and> (\<forall>n. n \<notin> btVisited st \<longrightarrow> depsOf (btTree st) n = [])"

lemma grown_trans:
  assumes "grown c X st st1" "grown c X st1 st2" "X \<subseteq> btVisited st"
  shows "grown c X st st2"
  unfolding grown_def
proof (intro conjI ballI)
  show "btVisited st \<subseteq> btVisited st2" using assms(1,2) by (auto simp: grown_def)
  show "fst ` set (btTree st) \<subseteq> fst ` set (btTree st2)"
    using assms(1,2) unfolding grown_def by (metis order_trans)
  show "fst ` set (btTree st2) \<subseteq> fst ` set (btTree st) \<union> btVisited st2"
  proof -
    have "fst ` set (btTree st2) \<subseteq> fst ` set (btTree st1) \<union> btVisited st2"
      "fst ` set (btTree st1) \<subseteq> fst ` set (btTree st) \<union> btVisited st1" "btVisited st1 \<subseteq> btVisited st2"
      using assms(1,2) by (simp_all add: grown_def)
    then show ?thesis by (meson Un_least Un_upper1 Un_upper2 order_trans sup_mono subset_refl)
  qed
  fix n
  show "n \<in> btVisited st - X \<Longrightarrow> depsOf (btTree st2) n = depsOf (btTree st) n"
    using assms(1,2) by (auto simp: grown_def)
  assume n: "n \<in> btVisited st2 - btVisited st"
  show "distinct (depsOf (btTree st2) n)" "set (depsOf (btTree st2) n) = set (sourceDeps c n)"
    "set (sourceDeps c n) \<subseteq> btVisited st2"
  proof -
    have old: "n \<in> btVisited st1 - X" "n \<in> btVisited st1 - btVisited st" if "n \<in> btVisited st1"
      using that n assms(3) by auto
    have g: "\<forall>n \<in> btVisited st1 - btVisited st. distinct (depsOf (btTree st1) n) \<and>
          set (depsOf (btTree st1) n) = set (sourceDeps c n) \<and> set (sourceDeps c n) \<subseteq> btVisited st1"
        "\<forall>n \<in> btVisited st1 - X. depsOf (btTree st2) n = depsOf (btTree st1) n"
        "\<forall>n \<in> btVisited st2 - btVisited st1. distinct (depsOf (btTree st2) n) \<and>
          set (depsOf (btTree st2) n) = set (sourceDeps c n) \<and> set (sourceDeps c n) \<subseteq> btVisited st2"
        "btVisited st1 \<subseteq> btVisited st2"
      using assms(1,2) by (simp_all add: grown_def)
    show "distinct (depsOf (btTree st2) n)" "set (depsOf (btTree st2) n) = set (sourceDeps c n)"
      "set (sourceDeps c n) \<subseteq> btVisited st2"
      using g(1) [rule_format, of n] g(2) [rule_format, of n] g(3) [rule_format, of n] g(4) old n
      by (cases "n \<in> btVisited st1"; simp; fail | cases "n \<in> btVisited st1"; auto; fail)+
  qed
qed

lemma addDependency_simps [simp]:
  "btVisited (addDependency p d st) = btVisited st"
  "depsOf (btTree (addDependency p d st)) n = depsOf (btTree st) n @ (if n = p then [d] else [])"
  by (simp_all add: addDependency_def depsOf_appendTo)

lemma addDependency_grown:
  assumes "p \<in> btVisited st" "tree_ok st"
  shows "grown c {p} st (addDependency p d st)" "tree_ok (addDependency p d st)"
proof -
  have "fst ` set (btTree (addDependency p d st)) \<subseteq> insert p (fst ` set (btTree st))"
    using set_update_subset [of p _ "btTree st"] by (fastforce simp: addDependency_def appendTo_def)
  moreover have "fst ` set (btTree st) \<subseteq> fst ` set (btTree (addDependency p d st))"
    using update_keys [of p _ "btTree st"] by (auto simp: addDependency_def appendTo_def dom_update)
  ultimately show "grown c {p} st (addDependency p d st)" using assms(1) by (auto simp: grown_def)
  show "tree_ok (addDependency p d st)" using assms
    by (auto simp: tree_ok_def addDependency_def appendTo_def distinct_update depsOf_def update_conv')
qed

lemma foldSome_grown:
  assumes step: "\<And>d st st'. visit d st = Some st' \<Longrightarrow> tree_ok st \<Longrightarrow>
      grown c {} st st' \<and> tree_ok st' \<and> d \<in> btVisited st'"
    and "foldSome (\<lambda>d st. visit d (addDependency p d st)) ds st = Some st'" "tree_ok st" "p \<in> btVisited st"
  shows "grown c {p} st st' \<and> tree_ok st' \<and> set ds \<subseteq> btVisited st' \<and>
    depsOf (btTree st') p = depsOf (btTree st) p @ ds"
  using assms(2-)
proof (induction ds arbitrary: st)
  case Nil
  then show ?case by (auto simp: grown_def)
next
  case (Cons d ds)
  obtain st1 where v: "visit d (addDependency p d st) = Some st1"
    and f: "foldSome (\<lambda>d st. visit d (addDependency p d st)) ds st1 = Some st'"
    using Cons.prems(1) by (auto split: option.splits)
  note add = addDependency_grown(1) [OF Cons.prems(3,2), of c d]
    addDependency_grown(2) [OF Cons.prems(3,2), of d]
  have s: "grown c {} (addDependency p d st) st1" "tree_ok st1" "d \<in> btVisited st1"
    using step [OF v add(2)] by auto
  then have p1: "p \<in> btVisited st1" "depsOf (btTree st1) p = depsOf (btTree st) p @ [d]"
    using Cons.prems(3) by (auto simp: grown_def)
  have "grown c {p} (addDependency p d st) st1" using s(1) by (auto simp: grown_def)
  then have g1: "grown c {p} st st1" using grown_trans [OF add(1)] Cons.prems(3) by simp
  have IH: "grown c {p} st1 st' \<and> tree_ok st' \<and> set ds \<subseteq> btVisited st' \<and>
      depsOf (btTree st') p = depsOf (btTree st1) p @ ds" by (rule Cons.IH [OF f s(2) p1(1)])
  then have "grown c {p} st st'" using grown_trans [OF g1] Cons.prems(3) by simp
  moreover have "d \<in> btVisited st'" using IH s(3) by (auto simp: grown_def)
  ultimately show ?case using IH p1(2) by simp
qed

lemma buildTree_grown:
  assumes "orders_ok ro" "buildTree depth ro c p st = Some st'" "tree_ok st"
  shows "grown c {} st st' \<and> tree_ok st' \<and> p \<in> btVisited st'"
  using assms(2,3)
proof (induction depth arbitrary: p st st')
  case (Suc depth)
  let ?st1 = "st\<lparr>btVisited := insert p (btVisited st)\<rparr>"
  show ?case
  proof (cases "p \<in> btVisited st")
    case True
    then show ?thesis using Suc.prems by (auto simp: grown_def)
  next
    case new: False
    have ok1: "tree_ok ?st1" and p0: "depsOf (btTree st) p = []"
      using Suc.prems(2) new by (auto simp: tree_ok_def)
    show ?thesis
    proof (cases "getSource c p")
      case None
      then show ?thesis using Suc.prems new ok1 p0 by (auto simp: Let_def grown_def sourceDeps_def)
    next
      case (Some ps)
      have rn: "range_order (roNames ro)" using assms(1) by (simp add: orders_ok_def)
      have "foldSome (\<lambda>d st. buildTree depth ro c d (addDependency p d st))
          (roNames ro (dependencySet ps)) ?st1 = Some st'" using Suc.prems(1) new Some by (simp add: Let_def)
      from foldSome_grown [OF Suc.IH this ok1]
      have g: "grown c {p} ?st1 st'" "tree_ok st'" "set (dependencySet ps) \<subseteq> btVisited st'"
        "depsOf (btTree st') p = roNames ro (dependencySet ps)"
        using p0 range_order_set [OF rn] by auto
      have d: "distinct (roNames ro (dependencySet ps))"
        using range_order_distinct [OF rn] by (simp add: dependencySet_def)
      have e: "set (sourceDeps c p) = set (dependencySet ps)" using Some by (simp add: sourceDeps_def)
      have "grown c {} st st'"
        unfolding grown_def
      proof (intro conjI ballI)
        fix n assume n: "n \<in> btVisited st' - btVisited st"
        show "distinct (depsOf (btTree st') n)" "set (depsOf (btTree st') n) = set (sourceDeps c n)"
          "set (sourceDeps c n) \<subseteq> btVisited st'"
          using g d n e range_order_set [OF rn] by (cases "n = p"; simp add: grown_def)+
      qed (use g(1) new in \<open>auto simp: grown_def\<close>)
      moreover have "p \<in> btVisited st'" using g(1) by (simp add: grown_def)
      ultimately show ?thesis using g(2) by blast
    qed
  qed
qed simp

lemma foldSome_invariant:
  assumes "\<And>x s s'. x \<in> set xs \<Longrightarrow> I s \<Longrightarrow> f x s = Some s' \<Longrightarrow> I s'"
  shows "foldSome f xs s = Some s' \<Longrightarrow> I s \<Longrightarrow> I s'"
  using assms
proof (induction xs arbitrary: s)
  case (Cons x xs)
  then obtain s1 where "f x s = Some s1" "foldSome f xs s1 = Some s'" by (auto split: option.splits)
  moreover from this have "I s1" using Cons.prems by (meson list.set_intros(1))
  ultimately show ?case using Cons.IH [of s1] Cons.prems(3) by (meson list.set_intros(2))
qed simp

lemma foldSome_returns:
  assumes "\<And>x s. x \<in> set xs \<Longrightarrow> I s \<Longrightarrow> \<exists>s'. f x s = Some s' \<and> I s'"
  shows "I s \<Longrightarrow> \<exists>s'. foldSome f xs s = Some s' \<and> I s'"
  using assms
proof (induction xs arbitrary: s)
  case (Cons x xs)
  obtain s1 where "f x s = Some s1" "I s1" using Cons.prems(2) [of x s] Cons.prems(1) by auto
  then show ?case using Cons.IH [of s1] Cons.prems(2) by simp
qed simp

lemma buildTree_within:
  assumes "\<And>n. n \<in> X \<Longrightarrow> set (sourceDeps c n) \<subseteq> X" "orders_ok ro"
  shows "buildTree depth ro c p st = Some st' \<Longrightarrow> p \<in> X \<Longrightarrow> btVisited st \<subseteq> X \<Longrightarrow> btVisited st' \<subseteq> X"
proof (induction depth arbitrary: p st st')
  case (Suc depth)
  show ?case
  proof (cases "p \<in> btVisited st \<or> getSource c p = None")
    case True
    then show ?thesis using Suc.prems by (auto simp: Let_def split: if_splits)
  next
    case False
    then obtain ps where ps: "getSource c p = Some ps" by auto
    have deps: "d \<in> X" if "d \<in> set (roNames ro (dependencySet ps))" for d
      using that assms(1) [OF Suc.prems(2)] ps assms(2)
      by (auto simp: sourceDeps_def orders_ok_def range_order_set)
    show ?thesis
    proof (rule foldSome_invariant [where I = "\<lambda>st. btVisited st \<subseteq> X"])
      show "foldSome (\<lambda>dep st. buildTree depth ro c dep (addDependency p dep st))
          (roNames ro (dependencySet ps)) (st\<lparr>btVisited := insert p (btVisited st)\<rparr>) = Some st'"
        using Suc.prems(1) False ps by (simp add: Let_def)
      show "btVisited (st\<lparr>btVisited := insert p (btVisited st)\<rparr>) \<subseteq> X" using Suc.prems(2,3) by simp
    next
      fix d s s'
      assume "d \<in> set (roNames ro (dependencySet ps))" "btVisited s \<subseteq> X"
        "buildTree depth ro c d (addDependency p d s) = Some s'"
      then show "btVisited s' \<subseteq> X" using Suc.IH [OF _ deps] by simp
    qed
  qed
qed simp

lemma buildTree_returns:
  assumes "finite {n. getSource c n \<noteq> None}" "card ({n. getSource c n \<noteq> None} - btVisited st) < depth"
  shows "\<exists>st'. buildTree depth ro c p st = Some st' \<and> btVisited st \<subseteq> btVisited st'"
  using assms(2)
proof (induction depth arbitrary: p st)
  case (Suc depth)
  let ?F = "{n. getSource c n \<noteq> None}" and ?st1 = "st\<lparr>btVisited := insert p (btVisited st)\<rparr>"
  show ?case
  proof (cases "p \<in> btVisited st \<or> getSource c p = None")
    case True
    then show ?thesis by (auto simp: Let_def)
  next
    case False
    then obtain ps where ps: "getSource c p = Some ps" by auto
    have "?F - btVisited ?st1 = (?F - btVisited st) - {p}" by auto
    then have less: "card (?F - btVisited ?st1) < depth"
      using card_Diff1_less [of "?F - btVisited st" p] assms(1) False Suc.prems by auto
    have "\<exists>st'. foldSome (\<lambda>dep st. buildTree depth ro c dep (addDependency p dep st))
        (roNames ro (dependencySet ps)) ?st1 = Some st' \<and> btVisited ?st1 \<subseteq> btVisited st'"
    proof (rule foldSome_returns)
      fix d and s :: btState assume "btVisited ?st1 \<subseteq> btVisited s"
      then have "?F - btVisited s \<subseteq> ?F - btVisited ?st1" by auto
      then have "card (?F - btVisited s) \<le> card (?F - btVisited ?st1)"
        using assms(1) by (intro card_mono) auto
      then have "card (?F - btVisited (addDependency p d s)) < depth" using less by simp
      then show "\<exists>s'. buildTree depth ro c d (addDependency p d s) = Some s' \<and> btVisited ?st1 \<subseteq> btVisited s'"
        using Suc.IH [of "addDependency p d s" d] \<open>btVisited ?st1 \<subseteq> btVisited s\<close> by auto
    qed simp
    then show ?thesis using False ps by (auto simp: Let_def)
  qed
qed simp

lemma stored_sources: "{n. getSource c n \<noteq> None} \<subseteq> psName ` set (kcSources c)"
  by (auto simp: getSource_def find_Some_iff in_set_conv_nth split: if_splits) (metis imageI nth_mem)

lemma buildDependencyTree_tree:
  assumes "orders_ok ro"
  obtains tree requesters where "buildDependencyTree ro c r = Some (tree, requesters)"
    "wf_graph ro tree" "set (allNodes ro tree) = reaches c r"
    "\<And>n. n \<in> reaches c r \<Longrightarrow> set (depsOf tree n) = set (sourceDeps c n)"
proof -
  let ?F = "{n. getSource c n \<noteq> None}"
  have fin: "finite ?F" and "card ?F \<le> length (kcSources c)"
    using finite_subset [OF stored_sources] card_mono [OF _ stored_sources] card_image_le
      card_length le_trans by (blast, metis List.finite_set finite_imageI)
  then obtain st where b: "buildTree (Suc (length (kcSources c))) ro c r (startTree r) = Some st"
    using buildTree_returns [OF fin, of "startTree r" "Suc (length (kcSources c))" ro r]
    by (auto simp: startTree_def)
  have "tree_ok (startTree r)" by (auto simp: tree_ok_def startTree_def depsOf_def)
  then have g: "grown c {} (startTree r) st" "tree_ok st" "r \<in> btVisited st"
    using buildTree_grown [OF assms b] by auto
  have v: "btVisited st = reaches c r"
  proof
    show "btVisited st \<subseteq> reaches c r"
      by (rule buildTree_within [OF reaches_closed assms b reaches_root]) (simp_all add: startTree_def)
    show "reaches c r \<subseteq> btVisited st"
      by (rule reaches_least) (use g in \<open>auto simp: grown_def startTree_def\<close>)
  qed
  have deps: "distinct (depsOf (btTree st) n)" "set (depsOf (btTree st) n) = set (sourceDeps c n)"
    if "n \<in> reaches c r" for n using g(1) that v by (simp_all add: grown_def startTree_def)
  have keys: "fst ` set (btTree st) \<subseteq> reaches c r" "r \<in> fst ` set (btTree st)"
    using g(1) v reaches_root [of r c] by (auto simp: grown_def startTree_def)
  have dk: "distinct (map fst (btTree st))" using g(2) by (simp add: tree_ok_def)
  note entry = depsOf_entry [OF dk]
  have wf: "wf_graph ro (btTree st)"
    unfolding wf_graph_def using assms dk keys(1) entry deps(1) by (metis image_subset_iff)
  have nodes: "set (allNodes ro (btTree st)) = reaches c r"
  proof
    have "set (snd nd) \<subseteq> reaches c r" if nd: "nd \<in> set (btTree st)" for nd
    proof -
      have "fst nd \<in> reaches c r" using keys(1) nd by auto
      then show ?thesis using entry [OF nd] deps(2) reaches_closed by metis
    qed
    then show sub: "set (allNodes ro (btTree st)) \<subseteq> reaches c r"
      unfolding set_allNodes [OF assms] using keys(1) by auto
    show "reaches c r \<subseteq> set (allNodes ro (btTree st))"
    proof (rule reaches_least)
      show "r \<in> set (allNodes ro (btTree st))" unfolding set_allNodes [OF assms] using keys(2) by simp
      fix n assume "n \<in> set (allNodes ro (btTree st))"
      then show "set (sourceDeps c n) \<subseteq> set (allNodes ro (btTree st))"
        using sub deps(2) [of n] install_graph.deps_nodes [OF wf, of n] by auto
    qed
  qed
  show ?thesis by (rule that [of "btTree st" "btRequesters st"])
    (use b wf nodes deps(2) in \<open>simp_all add: buildDependencyTree_def\<close>)
qed

subsection \<open>The choices\<close>

lemma selectLoop_Some:
  "selectLoop vs stdin = Some (v, rest) \<Longrightarrow> v \<in> vaName ` set vs \<and> suffix rest stdin"
proof (induction stdin)
  case (Cons line more)
  show ?case
  proof (cases "selectLoop vs more = Some (v, rest)")
    case True
    with Cons.IH have "v \<in> vaName ` set vs" "suffix rest more" by auto
    then show ?thesis by (simp add: suffix_Cons)
  next
    case False
    then have "rest = more \<and> (\<exists>i < length vs. v = vaName (vs ! i))" using Cons.prems
      by (auto simp: Let_def split: if_splits option.splits intro!: exI [of _ "nat _ - 1"])
    then show ?thesis by (auto simp: suffix_Cons)
  qed
qed simp

lemma selectVariantInteractive_Inr:
  "selectVariantInteractive ps stdin = Inr sel \<Longrightarrow>
   fst sel \<in> vaName ` set (psVariants ps) \<and> suffix (snd sel) stdin"
  using selectLoop_Some [of "psVariants ps" stdin "fst sel" "snd sel"]
  by (auto simp: selectVariantInteractive_def split: if_splits option.splits)

definition yesCount :: "string list \<Rightarrow> nat" where
  "yesCount stdin = length (filter isYes stdin)"

lemma confirmVariant_Inr:
  assumes "confirmVariant allow n ps sel = Inr stdin"
  shows "(if PrivilegedInstallComponents ps (fst sel) \<noteq> [] \<and> \<not> allow then 1 else 0) + yesCount stdin
    \<le> yesCount (snd sel)"
proof (cases "PrivilegedInstallComponents ps (fst sel) \<noteq> [] \<and> \<not> allow")
  case True
  then obtain line where "snd sel = line # stdin" "isYes line" using assms
    by (auto simp: confirmVariant_def confirmPrivileged_def Let_def try_bind_eq_Inr
        split: list.splits if_splits)
  then show ?thesis using True by (simp add: yesCount_def)
qed (use assms in \<open>auto simp: confirmVariant_def Let_def\<close>)

text \<open>What the first pass settles for a package.\<close>

definition chosen ::
    "(string \<rightharpoonup> PackageSource) \<Rightarrow> (string \<rightharpoonup> Package) \<Rightarrow> choices \<Rightarrow> string \<Rightarrow> bool" where
  "chosen sources installed ch n \<longleftrightarrow>
     (if keepInstalled installed sources n then n \<notin> chReopen ch
      else \<exists>ps. sources n = Some ps \<and> chVariants ch n \<noteq> None \<and>
        strOf (chVariants ch) n \<in> vaName ` set (psVariants ps) \<and> (n \<in> chReopen ch \<longleftrightarrow> installed n \<noteq> None))"

definition needsConfirmation ::
    "(string \<rightharpoonup> PackageSource) \<Rightarrow> (string \<rightharpoonup> Package) \<Rightarrow> choices \<Rightarrow> string \<Rightarrow> bool" where
  "needsConfirmation sources installed ch n \<longleftrightarrow>
     \<not> keepInstalled installed sources n \<and>
     PrivilegedInstallComponents (the (sources n)) (strOf (chVariants ch) n) \<noteq> []"

lemma chooseVariant_step:
  assumes "chooseVariant allow req sources installed p ch = Inr ch'" "p \<notin> chReopen ch"
  shows "chosen sources installed ch' p"
    and "n \<noteq> p \<Longrightarrow> chosen sources installed ch' n = chosen sources installed ch n \<and>
      needsConfirmation sources installed ch' n = needsConfirmation sources installed ch n"
    and "(if needsConfirmation sources installed ch' p \<and> \<not> allow then 1 else 0) + yesCount (chStdin ch')
      \<le> yesCount (chStdin ch)"
    and "chReopen ch' \<subseteq> insert p (chReopen ch)"
proof -
  show "chReopen ch' \<subseteq> insert p (chReopen ch)"
    using assms(1) by (auto simp: chooseVariant_def Let_def try_bind_eq_Inr split: if_splits option.splits)
  show "chosen sources installed ch' p"
    using assms by (auto simp: chooseVariant_def chosen_def Let_def try_bind_eq_Inr
        split: if_splits option.splits dest!: selectVariantInteractive_Inr)
  show "chosen sources installed ch' n = chosen sources installed ch n \<and>
      needsConfirmation sources installed ch' n = needsConfirmation sources installed ch n" if "n \<noteq> p"
    using assms(1) that by (auto simp: chooseVariant_def chosen_def needsConfirmation_def Let_def strOf_def
        try_bind_eq_Inr split: if_splits option.splits)
  show "(if needsConfirmation sources installed ch' p \<and> \<not> allow then 1 else 0) + yesCount (chStdin ch')
      \<le> yesCount (chStdin ch)"
  proof (cases "keepInstalled installed sources p")
    case True
    then show ?thesis using assms(1) by (auto simp: chooseVariant_def needsConfirmation_def Let_def)
  next
    case False
    then obtain ps sel stdin where s: "sources p = Some ps"
      "selectVariantInteractive ps (chStdin ch) = Inr sel" "confirmVariant allow p ps sel = Inr stdin"
      "strOf (chVariants ch') p = fst sel" "chStdin ch' = stdin"
      using assms(1) by (auto simp: chooseVariant_def try_bind_eq_Inr split: option.splits)
    have "suffix (snd sel) (chStdin ch)" using selectVariantInteractive_Inr [OF s(2)] by blast
    then have "yesCount (snd sel) \<le> yesCount (chStdin ch)" by (auto simp: yesCount_def suffix_def)
    then show ?thesis using confirmVariant_Inr [OF s(3)] s False by (auto simp: needsConfirmation_def)
  qed
qed

lemma chooseAll_result:
  assumes "chooseAll (chooseVariant allow req sources installed) ps ch = Inr ch'"
    "distinct ps" "chReopen ch \<inter> set ps = {}"
  shows "(\<forall>n \<in> set ps. chosen sources installed ch' n) \<and>
    (\<forall>n. n \<notin> set ps \<longrightarrow> chosen sources installed ch' n = chosen sources installed ch n \<and>
       needsConfirmation sources installed ch' n = needsConfirmation sources installed ch n) \<and>
    (if allow then 0 else length (filter (needsConfirmation sources installed ch') ps))
      + yesCount (chStdin ch') \<le> yesCount (chStdin ch)"
  using assms
proof (induction ps arbitrary: ch)
  case (Cons p ps)
  obtain ch1 where s: "chooseVariant allow req sources installed p ch = Inr ch1"
    and r: "chooseAll (chooseVariant allow req sources installed) ps ch1 = Inr ch'"
    using Cons.prems(1) by (auto simp: try_bind_eq_Inr)
  have np: "p \<notin> chReopen ch" "p \<notin> set ps" using Cons.prems by auto
  note step = chooseVariant_step [OF s np(1)]
  have "chReopen ch1 \<inter> set ps = {}" using step(4) Cons.prems(2,3) by auto
  note IH = Cons.IH [OF r _ this]
  have IHn: "\<forall>n. n \<notin> set ps \<longrightarrow> chosen sources installed ch' n = chosen sources installed ch1 n \<and>
       needsConfirmation sources installed ch' n = needsConfirmation sources installed ch1 n"
    using IH Cons.prems(2) by simp
  then have p: "chosen sources installed ch' p = chosen sources installed ch1 p"
    "needsConfirmation sources installed ch' p = needsConfirmation sources installed ch1 p"
    using np(2) by auto
  have "(if allow then 0 else length (filter (needsConfirmation sources installed ch') (p # ps)))
      + yesCount (chStdin ch') \<le> yesCount (chStdin ch)"
    using step(3) IH Cons.prems(2) p(2) by (auto split: if_splits)
  then show ?case using IH IHn Cons.prems(2) p(1) step(1) step(2) by simp
qed (simp add: chosen_def)

subsection \<open>The requests\<close>

lemma byName_name: "byName nm xs n = Some x \<Longrightarrow> nm x = n \<and> x \<in> set xs"
proof -
  have "fold (\<lambda>x m. m(nm x \<mapsto> x)) xs m n = Some x \<Longrightarrow> (nm x = n \<and> x \<in> set xs) \<or> m n = Some x" for m
  proof (induction xs arbitrary: m)
    case (Cons a xs)
    from Cons.IH [of "m(nm a \<mapsto> a)"] Cons.prems show ?case by (auto split: if_splits)
  qed simp
  then show "byName nm xs n = Some x \<Longrightarrow> ?thesis" unfolding byName_def by fastforce
qed

lemma byName_None: "byName nm xs n = None \<longleftrightarrow> n \<notin> nm ` set xs"
proof -
  have "fold (\<lambda>x m. m(nm x \<mapsto> x)) xs m n = None \<longleftrightarrow> n \<notin> nm ` set xs \<and> m n = None" for m
    by (induction xs arbitrary: m) auto
  then show ?thesis unfolding byName_def by simp
qed

lemma applyAll_prefix:
  assumes "applyAll f ps = (rs, out)"
  shows "\<exists>k \<le> length ps. rs = concat (map (\<lambda>p. fst (f p)) (take k ps)) \<and>
    (out = Inr () \<longrightarrow> k = length ps) \<and> (\<forall>e. out = Inl e \<longrightarrow> (\<exists>p \<in> set ps. snd (f p) = Some e))"
  using assms
proof (induction ps arbitrary: rs)
  case (Cons p ps)
  show ?case
  proof (cases "snd (f p)")
    case (Some e)
    then show ?thesis using Cons.prems by (cases "f p") (auto intro!: exI [of _ 1])
  next
    case None
    obtain rs' where r: "applyAll f ps = (rs', out)" "rs = fst (f p) @ rs'"
      using Cons.prems None by (cases "f p"; cases "applyAll f ps") auto
    obtain k where k: "k \<le> length ps" "rs' = concat (map (\<lambda>p. fst (f p)) (take k ps))"
      "out = Inr () \<longrightarrow> k = length ps" "\<forall>e. out = Inl e \<longrightarrow> (\<exists>p \<in> set ps. snd (f p) = Some e)"
      using Cons.IH [OF r(1)] by blast
    then show ?thesis using r(2) by (intro exI [of _ "Suc k"]) auto
  qed
qed auto

definition unsettled :: "(string \<rightharpoonup> Package) \<Rightarrow> choices \<Rightarrow> string \<Rightarrow> bool" where
  "unsettled installed ch n \<longleftrightarrow> n \<in> chReopen ch \<or> installed n = None"

definition requestOf :: "(string \<rightharpoonup> Package) \<Rightarrow> choices \<Rightarrow> string \<Rightarrow> pkg_request" where
  "requestOf installed ch n =
     (case installed n of
        None \<Rightarrow> CreatePackage (newPackage n (strOf (chVariants ch) n))
      | Some p \<Rightarrow> UpdatePackage (pinRegistrationToUser p (strOf (chVariants ch) n)))"

lemma applyPackage_request:
  assumes "n \<in> chReopen ch \<Longrightarrow> installed n \<noteq> None"
  shows "fst (applyPackage c installed ch n) = (if unsettled installed ch n then [requestOf installed ch n] else [])"
    and "snd (applyPackage c installed ch n) \<noteq> Some (NilPackage m)"
    and "snd (applyPackage c installed ch n) \<noteq> Some OutOfDepth"
  using assms by (auto simp: applyPackage_def unsettled_def requestOf_def Let_def
      split: option.splits create_outcome.splits)

lemma applyAll_requests:
  assumes "applyAll (applyPackage c installed ch) ps = (rs, out)"
    and "\<And>n. n \<in> set ps \<Longrightarrow> n \<in> chReopen ch \<Longrightarrow> installed n \<noteq> None"
  obtains k where "rs = map (requestOf installed ch) (filter (unsettled installed ch) (take k ps))"
    "out = Inr () \<Longrightarrow> k = length ps" "out \<noteq> Inl OutOfDepth" "\<And>m. out \<noteq> Inl (NilPackage m)"
proof -
  obtain k where k: "k \<le> length ps"
    "rs = concat (map (\<lambda>n. fst (applyPackage c installed ch n)) (take k ps))" "out = Inr () \<longrightarrow> k = length ps"
    and e: "\<forall>e. out = Inl e \<longrightarrow> (\<exists>p \<in> set ps. snd (applyPackage c installed ch p) = Some e)"
    using applyAll_prefix [OF assms(1)] by blast
  have "concat (map (\<lambda>n. fst (applyPackage c installed ch n)) qs) =
      map (requestOf installed ch) (filter (unsettled installed ch) qs)" if "set qs \<subseteq> set ps" for qs
    using that by (induction qs) (auto simp: applyPackage_request(1) assms(2))
  then have "rs = map (requestOf installed ch) (filter (unsettled installed ch) (take k ps))"
    unfolding k(2) by (simp add: set_take_subset)
  moreover have "out \<noteq> Inl OutOfDepth" "out \<noteq> Inl (NilPackage m)" for m
  proof -
    have "snd (applyPackage c installed ch p) \<noteq> Some OutOfDepth"
      "snd (applyPackage c installed ch p) \<noteq> Some (NilPackage m)" if "p \<in> set ps" for p
      using applyPackage_request(2,3) [of p ch installed c] assms(2) [OF that] by simp_all
    then show "out \<noteq> Inl OutOfDepth" "out \<noteq> Inl (NilPackage m)" using e by auto
  qed
  ultimately show ?thesis using that k(3) by blast
qed

definition installedPackages :: "pkgClient \<Rightarrow> (string \<rightharpoonup> Package)" where
  "installedPackages c = (case kcListPackages c of Inl e \<Rightarrow> Map.empty | Inr ps \<Rightarrow> byName pkName ps)"

abbreviation listedSources :: "pkgClient \<Rightarrow> (string \<rightharpoonup> PackageSource)" where
  "listedSources c \<equiv> byName psName (kcSources c)"

lemma chooseAll_error:
  "chooseAll (chooseVariant allow req sources installed) ps ch = Inl e \<Longrightarrow>
   e \<noteq> OutOfDepth \<and> (\<forall>m. e \<noteq> NilPackage m)"
proof (induction ps arbitrary: ch)
  case (Cons p ps)
  show ?case
  proof (cases "chooseVariant allow req sources installed p ch")
    case (Inl e')
    then have "e' \<noteq> OutOfDepth \<and> (\<forall>m. e' \<noteq> NilPackage m)"
      by (auto simp: chooseVariant_def selectVariantInteractive_def confirmVariant_def confirmPrivileged_def
          try_bind_def Let_def split: if_splits option.splits list.splits sum.splits prod.splits)
    then show ?thesis using Inl Cons.prems by simp
  qed (use Cons in simp)
qed simp

text \<open>A run that could be planned: the order, the choices and the requests.\<close>

definition planned ::
    "pkgClient \<Rightarrow> bool \<Rightarrow> string list \<Rightarrow> string \<Rightarrow> string list \<Rightarrow> choices \<Rightarrow> bool" where
  "planned c allow stdin r order ch \<longleftrightarrow>
     distinct order \<and> set order = reaches c r \<and> deps_first (sourceDeps c) order \<and>
     (\<forall>n \<in> set order. chosen (listedSources c) (installedPackages c) ch n) \<and>
     (if allow then 0 else length (filter (needsConfirmation (listedSources c) (installedPackages c) ch) order))
       \<le> yesCount stdin"

lemma planInstall_planned:
  assumes "orders_ok ro" "planInstall ro c allow stdin r = Inr (order, installed, ch)"
  shows "installed = installedPackages c" "planned c allow stdin r order ch"
proof -
  obtain tree req where t: "buildDependencyTree ro c r = Some (tree, req)" "wf_graph ro tree"
    "set (allNodes ro tree) = reaches c r"
    and td: "\<And>n. n \<in> reaches c r \<Longrightarrow> set (depsOf tree n) = set (sourceDeps c n)"
    by (rule buildDependencyTree_tree [OF assms(1), of c r]) (rule that)
  obtain packages where s: "topologicalSort ro tree = Inr order" "kcListPackages c = Inr packages"
    and i: "installed = byName pkName packages"
    and ch: "chooseAll (chooseVariant allow req (listedSources c) installed) order (startChoices stdin) = Inr ch"
    using assms(2) t(1) by (auto simp: planInstall_def Let_def try_bind_eq_Inr
        split: option.splits sum.splits)
  show ii: "installed = installedPackages c" using i s(2) by (simp add: installedPackages_def)
  note ord = topologicalSort_order [OF t(2) s(1)]
  have "deps_first (sourceDeps c) order"
    using ord(3) deps_first_cong [of order "depsOf tree" "sourceDeps c"] td ord(2) t(3) by simp
  then show "planned c allow stdin r order ch"
    using chooseAll_result [OF ch ord(1)] ord t(3) ii
    by (auto simp: planned_def startChoices_def split: if_splits)
qed

lemma planInstall_error:
  assumes "orders_ok ro" "planInstall ro c allow stdin r = Inl e"
  shows "e \<noteq> OutOfDepth \<and> (\<forall>m. e \<noteq> NilPackage m)"
proof -
  obtain tree req where t: "buildDependencyTree ro c r = Some (tree, req)"
    by (rule buildDependencyTree_tree [OF assms(1), of c r])
  show ?thesis
  proof (rule ccontr)
    assume bad: "\<not> ?thesis"
    then obtain order packages where
      "chooseAll (chooseVariant allow req (listedSources c) (byName pkName packages)) order (startChoices stdin) = Inl e"
      using assms(2) t by (auto simp: planInstall_def Let_def try_bind_def
          split: option.splits sum.splits)
    with chooseAll_error bad show False by blast
  qed
qed

lemma installPackage_cases:
  assumes "orders_ok ro" "installPackage ro c allow stdin r = (rs, out)"
  obtains (unplanned) e where "rs = []" "out = Inl e" "e \<noteq> OutOfDepth" "\<And>m. e \<noteq> NilPackage m"
  | (planned) order ch k where "planned c allow stdin r order ch"
      "rs = map (requestOf (installedPackages c) ch) (filter (unsettled (installedPackages c) ch) (take k order))"
      "out = Inr () \<Longrightarrow> k = length order" "out \<noteq> Inl OutOfDepth" "\<And>m. out \<noteq> Inl (NilPackage m)"
proof (cases "planInstall ro c allow stdin r")
  case (Inl e)
  then show ?thesis using planInstall_error [OF assms(1) Inl] assms(2) unplanned
    by (auto simp: installPackage_def)
next
  case (Inr p)
  obtain order installed ch where p: "p = (order, installed, ch)" by (cases p) auto
  note pl = planInstall_planned [OF assms(1) Inr [unfolded p]]
  have a: "applyAll (applyPackage c (installedPackages c) ch) order = (rs, out)"
    using assms(2) Inr p pl(1) by (simp add: installPackage_def)
  have "n \<in> chReopen ch \<Longrightarrow> installedPackages c n \<noteq> None" if "n \<in> set order" for n
    using pl(2) that by (auto simp: planned_def chosen_def split: if_splits)
  from applyAll_requests [OF a this] show ?thesis using pl(2) planned by metis
qed

subsection \<open>Properties\<close>

lemma requestOf_name: "installedPackages c n = Some p \<Longrightarrow> pkName p = n"
  by (auto simp: installedPackages_def dest: byName_name split: sum.splits)

lemma requested_names:
  "map (\<lambda>q. pkName (requested q)) (map (requestOf (installedPackages c) ch) ns) = ns"
  by (induction ns) (auto simp: requestOf_def requested_def newPackage_def pinRegistrationToUser_def
      dest: requestOf_name split: option.splits)

text \<open>C16: For every answer of the cluster and every input, the command cozypkg add sends at most one
  request for a package, only for packages the root depends on, and never before each
  dependency of that package is installed or was requested earlier. It sends nothing unless
  every package of the dependency tree is installed or has a PackageSource, and when it ends
  without an error every package of the tree is installed or was requested. The recursion never
  exceeds its depth bound and no missing Package is dereferenced.\<close>

theorem installPackage_order:
  assumes "orders_ok ro" "installPackage ro c allow stdin r = (rs, out)"
    and "names = map (\<lambda>q. pkName (requested q)) rs"
  shows "distinct names \<and> set names \<subseteq> reaches c r \<and>
    deps_first_except (dom (installedPackages c)) (sourceDeps c) names \<and>
    (rs \<noteq> [] \<longrightarrow> reaches c r \<subseteq> dom (installedPackages c) \<union> psName ` set (kcSources c)) \<and>
    (out = Inr () \<longrightarrow> reaches c r \<subseteq> dom (installedPackages c) \<union> set names) \<and>
    out \<noteq> Inl OutOfDepth \<and> (\<forall>m. out \<noteq> Inl (NilPackage m))"
  using assms(1,2)
proof (cases rule: installPackage_cases)
  case (unplanned e)
  then show ?thesis using assms(3) by (simp add: deps_first_except_def)
next
  case (planned order ch k)
  let ?i = "installedPackages c"
  have names: "names = filter (unsettled ?i ch) (take k order)"
    unfolding assms(3) planned(2) by (rule requested_names)
  have ord: "distinct order" "set order = reaches c r" "deps_first (sourceDeps c) order"
    and ch: "\<And>n. n \<in> reaches c r \<Longrightarrow> chosen (listedSources c) ?i ch n"
    using planned(1) by (auto simp: planned_def)
  have "deps_first_except (dom ?i) (sourceDeps c) names"
    unfolding names by (rule deps_first_filter [OF deps_first_take [OF ord(3)]]) (auto simp: unsettled_def)
  moreover have "n \<in> dom ?i \<union> psName ` set (kcSources c)" if n: "n \<in> reaches c r" for n
  proof (cases "?i n")
    case None
    then obtain ps where "listedSources c n = Some ps"
      using ch [OF n] by (auto simp: chosen_def keepInstalled_def)
    then show ?thesis using byName_name by fastforce
  qed auto
  moreover have "reaches c r \<subseteq> dom ?i \<union> set names" if "out = Inr ()"
    using planned(3) [OF that] ord(2) names by (auto simp: unsettled_def)
  moreover have "set names \<subseteq> reaches c r" unfolding names using set_take_subset ord(2) by fastforce
  ultimately show ?thesis using ord(1) planned(4,5) names by (auto simp: distinct_take)
qed

definition demoVariant :: "string \<Rightarrow> string list \<Rightarrow> bool \<Rightarrow> Variant" where
  "demoVariant n deps privileged = \<lparr>vaName = n, vaDependsOn = deps,
     vaComponents = [\<lparr>coName = ''chart'', coInstall = Some privileged\<rparr>]\<rparr>"

definition demoPkgClient :: pkgClient where
  "demoPkgClient = \<lparr>
     kcSources = [\<lparr>psName = ''app'', psSourceRef = None, psVariants = [demoVariant ''default'' [''db'', ''net''] False]\<rparr>,
       \<lparr>psName = ''db'', psSourceRef = None, psVariants = [demoVariant ''small'' [''net''] False, demoVariant ''big'' [''net''] True]\<rparr>],
     kcGetErr = (\<lambda>n. False), kcListSourcesErr = None,
     kcListPackages = Inr [\<lparr>pkName = ''net'', pkLabels = Map.empty, pkAnnotations = Map.empty, pkOwners = [], pkVariant = ''v''\<rparr>],
     kcUpdateErr = (\<lambda>n. None), kcCreate = (\<lambda>n. Created)\<rparr>"

theorem installPackage_order_witness:
  "\<exists>rs out. installPackage plainOrders demoPkgClient False [''2'', ''yes'', ''''] ''app'' = (rs, out) \<and>
    map (\<lambda>q. pkName (requested q)) rs = [''db'', ''app''] \<and>
    map (\<lambda>q. pkVariant (requested q)) rs = [''big'', ''default''] \<and> out = Inr () \<and>
    deps_first_except (dom (installedPackages demoPkgClient)) (sourceDeps demoPkgClient) [''db'', ''app'']"
proof -
  obtain rs out where r: "installPackage plainOrders demoPkgClient False [''2'', ''yes'', ''''] ''app'' = (rs, out)"
    by fastforce
  have "map (\<lambda>q. pkName (requested q))
        (fst (installPackage plainOrders demoPkgClient False [''2'', ''yes'', ''''] ''app'')) = [''db'', ''app'']"
    "map (\<lambda>q. pkVariant (requested q))
        (fst (installPackage plainOrders demoPkgClient False [''2'', ''yes'', ''''] ''app'')) = [''big'', ''default'']"
    "isl (snd (installPackage plainOrders demoPkgClient False [''2'', ''yes'', ''''] ''app'')) = False"
    by code_simp+
  then show ?thesis
    using installPackage_order [OF plainOrders_ok r refl] r by (cases out) (auto simp: isl_def)
qed

definition privilegedRequest :: "pkgClient \<Rightarrow> pkg_request \<Rightarrow> bool" where
  "privilegedRequest c q \<longleftrightarrow>
     (case listedSources c (pkName (requested q)) of
        None \<Rightarrow> False
      | Some ps \<Rightarrow> PrivilegedInstallComponents ps (pkVariant (requested q)) \<noteq> [])"

definition userOwned :: "pkgClient \<Rightarrow> pkg_request \<Rightarrow> bool" where
  "userOwned c q \<longleftrightarrow>
     (\<exists>ps. listedSources c (pkName (requested q)) = Some ps \<and>
        pkVariant (requested q) \<in> vaName ` set (psVariants ps) \<and>
        (case q of
           CreatePackage p \<Rightarrow> installedPackages c (pkName p) = None
         | UpdatePackage p \<Rightarrow> (\<exists>old. installedPackages c (pkName p) = Some old \<and>
             ManagedRegistration old (tapSourceName (Some ps)) (pkVariant old)))) \<and>
     PrivilegedConfirmed (requested q) \<and>
     (\<forall>s v. \<not> ManagedRegistration (requested q) s v) \<and> ''PackageSource'' \<notin> set (pkOwners (requested q))"

lemma requestOf_fields:
  assumes "unsettled (installedPackages c) ch n"
  shows "pkName (requested (requestOf (installedPackages c) ch n)) = n"
    and "pkVariant (requested (requestOf (installedPackages c) ch n)) = strOf (chVariants ch) n"
  by (auto simp: requestOf_def requested_def newPackage_def pinRegistrationToUser_def
      dest: requestOf_name split: option.splits)

lemma chosen_unsettled:
  assumes "chosen sources installed ch n" "unsettled installed ch n"
  shows "\<not> keepInstalled installed sources n"
  using assms by (cases "installed n") (auto simp: chosen_def unsettled_def keepInstalled_def split: if_splits)

lemma requestOf_userOwned:
  assumes "chosen (listedSources c) (installedPackages c) ch n" "unsettled (installedPackages c) ch n"
  shows "userOwned c (requestOf (installedPackages c) ch n)"
proof -
  let ?q = "requestOf (installedPackages c) ch n"
  obtain ps where ps: "listedSources c n = Some ps" "strOf (chVariants ch) n \<in> vaName ` set (psVariants ps)"
    and keep: "\<And>p. installedPackages c n = Some p \<Longrightarrow> ManagedRegistration p (tapSourceName (Some ps)) (pkVariant p)"
    using assms(1) chosen_unsettled [OF assms] by (auto simp: chosen_def keepInstalled_def)
  have "case ?q of CreatePackage p \<Rightarrow> installedPackages c (pkName p) = None
     | UpdatePackage p \<Rightarrow> (\<exists>old. installedPackages c (pkName p) = Some old \<and>
         ManagedRegistration old (tapSourceName (Some ps)) (pkVariant old))"
    using keep by (auto simp: requestOf_def newPackage_def pinRegistrationToUser_def
        dest: requestOf_name split: option.splits)
  moreover have "PrivilegedConfirmed (requested ?q)" "\<not> ManagedRegistration (requested ?q) s v"
    "''PackageSource'' \<notin> set (pkOwners (requested ?q))" for s v
    by (auto simp: requestOf_def requested_def newPackage_def pinRegistrationToUser_def PrivilegedConfirmed_def
        ManagedRegistration_def Owns_def strOf_def split: option.splits)
  ultimately show ?thesis using ps requestOf_fields [OF assms(2)] unfolding userOwned_def by auto
qed

text \<open>C17: Every request of the command cozypkg add pins a variant its PackageSource offers, touches no
  installed Package other than the managed registration of that source, and leaves a Package
  that no tap owns or manages any more, so that the operator accepts its privileged components.
  Without the flag allow-privileged it requests at most as many privileged variants as the input
  holds confirmations.\<close>

theorem installPackage_consent:
  assumes "orders_ok ro" "installPackage ro c allow stdin r = (rs, out)"
  shows "(\<forall>q \<in> set rs. userOwned c q) \<and>
    (\<not> allow \<longrightarrow> length (filter (privilegedRequest c) rs) \<le> yesCount stdin)"
  using assms
proof (cases rule: installPackage_cases)
  case (planned order ch k)
  let ?i = "installedPackages c" and ?needs = "needsConfirmation (listedSources c) (installedPackages c) ch"
  have ch: "chosen (listedSources c) ?i ch n" if "n \<in> set order" for n
    using planned(1) that by (simp add: planned_def)
  have needs: "privilegedRequest c (requestOf ?i ch n) \<Longrightarrow> ?needs n"
    if "n \<in> set order" "unsettled ?i ch n" for n
    using chosen_unsettled [OF ch [OF that(1)] that(2)] requestOf_fields [OF that(2)]
    by (auto simp: privilegedRequest_def needsConfirmation_def split: option.splits)
  have le: "length (filter (privilegedRequest c) (map (requestOf ?i ch) (filter (unsettled ?i ch) ns)))
      \<le> length (filter ?needs ns)" if "set ns \<subseteq> set order" for ns
    using that by (induction ns) (auto dest: needs)
  have "length (filter (privilegedRequest c) rs) \<le> length (filter ?needs (take k order))"
    unfolding planned(2) by (rule le [OF set_take_subset])
  also have "\<dots> \<le> length (filter ?needs order)"
    by (metis append_take_drop_id filter_append le_add1 length_append)
  finally have "\<not> allow \<longrightarrow> length (filter (privilegedRequest c) rs) \<le> yesCount stdin"
    using planned(1) by (auto simp: planned_def)
  moreover have "\<forall>q \<in> set rs. userOwned c q"
    unfolding planned(2) using requestOf_userOwned ch by (auto dest: in_set_takeD)
  ultimately show ?thesis by blast
qed simp

theorem installPackage_consent_witness:
  "\<exists>rs out. installPackage plainOrders demoPkgClient False [''2'', ''yes'', ''''] ''app'' = (rs, out) \<and>
    length rs = 2 \<and> (\<exists>q \<in> set rs. privilegedRequest demoPkgClient q) \<and>
    length (filter (privilegedRequest demoPkgClient) rs) \<le> yesCount [''2'', ''yes'', '''']"
proof -
  obtain rs out where r: "installPackage plainOrders demoPkgClient False [''2'', ''yes'', ''''] ''app'' = (rs, out)"
    by fastforce
  have "length (fst (installPackage plainOrders demoPkgClient False [''2'', ''yes'', ''''] ''app'')) = 2"
    "list_ex (privilegedRequest demoPkgClient)
      (fst (installPackage plainOrders demoPkgClient False [''2'', ''yes'', ''''] ''app''))"
    by code_simp+
  then show ?thesis using installPackage_consent [OF plainOrders_ok r] r by (auto simp: list_ex_iff)
qed

end
