(* ===== verification/Package_Delete.thy ===== *)
theory Package_Delete
  imports Package_Install
begin

text \<open>
  The command \<open>cozypkg del\<close> (cmd/cozypkg/cmd/del.go): the Packages that depend on the requested
  ones, the confirmation, the order of deletion and the deletions. The command lists the
  PackageSources twice, once for the dependents and once for the order; the two answers are two
  fields of the client. The deletions requested are returned in order.
\<close>

subsection \<open>The packages to delete\<close>

datatype delete_error =
    ListFailedDel string | DeleteDepth | ReadFailedDel | Cancelled
  | CycleFailed order_error | DeleteFailed string string

datatype delete_outcome = Deleted | GoneAlready | DeleteError string

record delClient =
  dcListErr :: "string option" \<comment> \<open>the listing behind the warnings\<close>
  dcPackages :: "string + string list" \<comment> \<open>the names of the installed Packages\<close>
  dcSources :: "string + PackageSource list" \<comment> \<open>the listing behind the dependents\<close>
  dcOrderSources :: "string + PackageSource list" \<comment> \<open>the listing behind the order\<close>
  dcDelete :: "string \<Rightarrow> delete_outcome"

definition addReverseDeps :: "string set \<Rightarrow> PackageSource \<Rightarrow> depGraph \<Rightarrow> depGraph" where
  "addReverseDeps installed ps rd =
     (if psName ps \<in> installed then
        fold (\<lambda>v rd. fold (\<lambda>dep rd. if dep \<in> installed then appendTo dep (psName ps) rd else rd)
          (vaDependsOn v) rd) (psVariants ps) rd
      else rd)"

definition reverseDeps :: "string set \<Rightarrow> PackageSource list \<Rightarrow> depGraph" where
  "reverseDeps installed sources = fold (addReverseDeps installed) sources []"

record fdState =
  fdVisited :: "string set"
  fdDelete :: "string list" \<comment> \<open>the keys of \<open>packagesToDelete\<close>\<close>

primrec findDependents :: "nat \<Rightarrow> string set \<Rightarrow> depGraph \<Rightarrow> string \<Rightarrow> fdState \<Rightarrow> fdState option" where
  "findDependents 0 installed rd pkgName st = None"
| "findDependents (Suc depth) installed rd pkgName st =
     (if pkgName \<in> fdVisited st then Some st
      else
        let st1 = \<lparr>fdVisited = insert pkgName (fdVisited st),
              fdDelete = (if pkgName \<in> installed then List.insert pkgName (fdDelete st) else fdDelete st)\<rparr>
        in foldSome (\<lambda>m st. if m \<in> installed then findDependents depth installed rd m st else Some st)
             (depsOf rd pkgName) st1)"

definition findPackagesToDelete ::
    "rangeOrders \<Rightarrow> string list \<Rightarrow> PackageSource list \<Rightarrow> string list \<Rightarrow> string list option" where
  "findPackagesToDelete ro installedList sources requestedPackages =
     (let installed = set installedList; rd = reverseDeps installed sources in
      map_option fdDelete
        (foldSome (\<lambda>p st. if p \<in> installed then findDependents (Suc (length installedList)) installed rd p st
                          else Some st)
          (roNames ro requestedPackages) \<lparr>fdVisited = {}, fdDelete = []\<rparr>))"

subsection \<open>Confirmation, order and deletion\<close>

definition confirmDeletion :: "string list \<Rightarrow> delete_error option" where
  "confirmDeletion stdin =
     (case stdin of
        [] \<Rightarrow> Some ReadFailedDel
      | line # rest \<Rightarrow> if trimSpace (toLower line) \<in> {''y'', ''yes''} then None else Some Cancelled)"

definition addForwardDeps :: "rangeOrders \<Rightarrow> string set \<Rightarrow> PackageSource \<Rightarrow> depGraph \<Rightarrow> depGraph" where
  "addForwardDeps ro packagesToDelete ps g =
     (if psName ps \<in> packagesToDelete
      then AList.update (psName ps)
        (roNames ro (filter (\<lambda>d. d \<in> packagesToDelete) (dependencySet ps))) g
      else g)"

definition dependencyGraph :: "rangeOrders \<Rightarrow> string set \<Rightarrow> PackageSource list \<Rightarrow> depGraph" where
  "dependencyGraph ro packagesToDelete sources = fold (addForwardDeps ro packagesToDelete) sources []"

definition getDeleteOrder ::
    "rangeOrders \<Rightarrow> PackageSource list \<Rightarrow> string list \<Rightarrow> order_error + string list" where
  "getDeleteOrder ro sources packagesToDelete =
     deleteOrder ro (dependencyGraph ro (set packagesToDelete) sources, packagesToDelete)"

primrec deleteAll :: "(string \<Rightarrow> delete_outcome) \<Rightarrow> string list \<Rightarrow> string list \<times> (delete_error + unit)" where
  "deleteAll del [] = ([], Inr ())"
| "deleteAll del (n # ns) =
     (case del n of
        DeleteError e \<Rightarrow> ([n], Inl (DeleteFailed n e))
      | _ \<Rightarrow> (let (ds, out) = deleteAll del ns in (n # ds, out)))"

definition planDelete ::
    "rangeOrders \<Rightarrow> delClient \<Rightarrow> string list \<Rightarrow> string list \<Rightarrow> delete_error + string list" where
  "planDelete ro c stdin packageNames =
     (case dcListErr c of Some e \<Rightarrow> Inl (ListFailedDel e) | None \<Rightarrow>
     (case dcPackages c of Inl e \<Rightarrow> Inl (ListFailedDel e) | Inr installed \<Rightarrow>
     (case dcSources c of Inl e \<Rightarrow> Inl (ListFailedDel e) | Inr sources \<Rightarrow>
     (case findPackagesToDelete ro installed sources packageNames of None \<Rightarrow> Inl DeleteDepth | Some del \<Rightarrow>
      if del = [] then Inr []
      else case confirmDeletion stdin of Some e \<Rightarrow> Inl e | None \<Rightarrow>
     (case dcOrderSources c of Inl e \<Rightarrow> Inl (ListFailedDel e) | Inr sources' \<Rightarrow>
     (case getDeleteOrder ro sources' del of Inl e \<Rightarrow> Inl (CycleFailed e) | Inr order \<Rightarrow> Inr order))))))"

definition deletePackages ::
    "rangeOrders \<Rightarrow> delClient \<Rightarrow> string list \<Rightarrow> string list \<Rightarrow> string list \<times> (delete_error + unit)" where
  "deletePackages ro c stdin packageNames =
     (case planDelete ro c stdin packageNames of
        Inl e \<Rightarrow> ([], Inl e)
      | Inr order \<Rightarrow> deleteAll (dcDelete c) order)"

subsection \<open>The dependents are the closure of the requested packages\<close>

definition dependsOn :: "PackageSource list \<Rightarrow> string \<Rightarrow> string \<Rightarrow> bool" where
  "dependsOn sources m n \<longleftrightarrow> (\<exists>ps \<in> set sources. psName ps = m \<and> n \<in> set (dependencySet ps))"

inductive_set doomed :: "PackageSource list \<Rightarrow> string set \<Rightarrow> string set \<Rightarrow> string set"
  for sources installed req where
  requested: "n \<in> req \<Longrightarrow> n \<in> installed \<Longrightarrow> n \<in> doomed sources installed req"
| depending: "n \<in> doomed sources installed req \<Longrightarrow> m \<in> installed \<Longrightarrow> dependsOn sources m n \<Longrightarrow>
    m \<in> doomed sources installed req"

lemma doomed_installed: "n \<in> doomed sources installed req \<Longrightarrow> n \<in> installed"
  by (induction rule: doomed.induct) auto

lemma depsOf_fold_guarded:
  "set (depsOf (fold (\<lambda>dep rd. if P dep then appendTo dep m rd else rd) ds rd) n) =
     set (depsOf rd n) \<union> (if n \<in> set ds \<and> P n then {m} else {})"
  by (induction ds arbitrary: rd) (auto simp: depsOf_appendTo)

lemma depsOf_addReverseDeps:
  "set (depsOf (addReverseDeps installed ps rd) n) =
     set (depsOf rd n) \<union> (if psName ps \<in> installed \<and> n \<in> installed \<and> n \<in> set (dependencySet ps) then {psName ps} else {})"
proof -
  have vs: "set (depsOf (fold (\<lambda>v rd. fold (\<lambda>dep rd. if dep \<in> installed then appendTo dep m rd else rd)
        (vaDependsOn v) rd) vs rd) n) =
      set (depsOf rd n) \<union> (if n \<in> installed \<and> n \<in> set (concat (map vaDependsOn vs)) then {m} else {})" for m vs
    by (induction vs arbitrary: rd) (auto simp: depsOf_fold_guarded)
  show ?thesis
    by (cases "psName ps \<in> installed") (simp_all add: addReverseDeps_def dependencySet_def vs)
qed

lemma depsOf_reverseDeps:
  "m \<in> set (depsOf (reverseDeps installed sources) n) \<longleftrightarrow>
   m \<in> installed \<and> n \<in> installed \<and> dependsOn sources m n"
proof -
  have "m \<in> set (depsOf (fold (addReverseDeps installed) sources rd) n) \<longleftrightarrow>
      m \<in> set (depsOf rd n) \<or> (m \<in> installed \<and> n \<in> installed \<and> dependsOn sources m n)" for rd
    by (induction sources arbitrary: rd) (auto simp: depsOf_addReverseDeps dependsOn_def)
  then show ?thesis by (simp add: reverseDeps_def depsOf_def)
qed

text \<open>Between two states every newly visited package has its dependents visited, and the list
  holds exactly the visited packages.\<close>

definition swept :: "depGraph \<Rightarrow> fdState \<Rightarrow> fdState \<Rightarrow> bool" where
  "swept rd st st' \<longleftrightarrow>
     fdVisited st \<subseteq> fdVisited st' \<and>
     (\<forall>n \<in> fdVisited st' - fdVisited st. set (depsOf rd n) \<subseteq> fdVisited st')"

definition fd_ok :: "string set \<Rightarrow> fdState \<Rightarrow> bool" where
  "fd_ok installed st \<longleftrightarrow> distinct (fdDelete st) \<and> set (fdDelete st) = fdVisited st \<and> fdVisited st \<subseteq> installed"

lemma swept_trans: "swept rd st st1 \<Longrightarrow> swept rd st1 st2 \<Longrightarrow> swept rd st st2"
  unfolding swept_def by blast

lemma foldSome_swept:
  assumes "\<And>m st st'. m \<in> set ms \<Longrightarrow> visit m st = Some st' \<Longrightarrow> fd_ok installed st \<Longrightarrow>
      swept rd st st' \<and> fd_ok installed st' \<and> m \<in> fdVisited st'"
    and "foldSome visit ms st = Some st'" "fd_ok installed st"
  shows "swept rd st st' \<and> fd_ok installed st' \<and> set ms \<subseteq> fdVisited st'"
  using assms
proof (induction ms arbitrary: st)
  case Nil
  then show ?case by (simp add: swept_def)
next
  case (Cons m ms)
  obtain st1 where v: "visit m st = Some st1" and f: "foldSome visit ms st1 = Some st'"
    using Cons.prems(2) by (auto split: option.splits)
  have s: "swept rd st st1" "fd_ok installed st1" "m \<in> fdVisited st1"
    using Cons.prems(1) [OF _ v Cons.prems(3)] by auto
  have "swept rd st1 st' \<and> fd_ok installed st' \<and> set ms \<subseteq> fdVisited st'"
    by (rule Cons.IH [OF _ f s(2)]) (use Cons.prems(1) in auto)
  then show ?case using swept_trans [OF s(1)] s(3) by (auto simp: swept_def)
qed

lemma findDependents_swept:
  assumes "\<And>n. set (depsOf rd n) \<subseteq> installed"
  shows "findDependents depth installed rd p st = Some st' \<Longrightarrow> fd_ok installed st \<Longrightarrow> p \<in> installed \<Longrightarrow>
    swept rd st st' \<and> fd_ok installed st' \<and> p \<in> fdVisited st'"
proof (induction depth arbitrary: p st st')
  case (Suc depth)
  let ?st1 = "\<lparr>fdVisited = insert p (fdVisited st), fdDelete = List.insert p (fdDelete st)\<rparr>"
  let ?visit = "\<lambda>m st. if m \<in> installed then findDependents depth installed rd m st else Some st"
  show ?case
  proof (cases "p \<in> fdVisited st")
    case True
    then show ?thesis using Suc.prems by (simp add: swept_def)
  next
    case new: False
    have "foldSome ?visit (depsOf rd p) ?st1 = Some st'" using Suc.prems(1,3) new by (simp add: Let_def)
    moreover have "fd_ok installed ?st1" using Suc.prems(2,3) by (auto simp: fd_ok_def)
    ultimately have "swept rd ?st1 st' \<and> fd_ok installed st' \<and> set (depsOf rd p) \<subseteq> fdVisited st'"
    proof (rule foldSome_swept [rotated])
      fix m s s' assume m: "m \<in> set (depsOf rd p)" and s: "?visit m s = Some s'" "fd_ok installed s"
      have "m \<in> installed" using m assms by blast
      then show "swept rd s s' \<and> fd_ok installed s' \<and> m \<in> fdVisited s'" using Suc.IH s by simp
    qed
    then show ?thesis unfolding swept_def by auto
  qed
qed simp

lemma findDependents_within:
  assumes "\<And>n. n \<in> X \<Longrightarrow> set (depsOf rd n) \<subseteq> X"
  shows "findDependents depth installed rd p st = Some st' \<Longrightarrow> p \<in> X \<Longrightarrow> fdVisited st \<subseteq> X \<Longrightarrow> fdVisited st' \<subseteq> X"
proof (induction depth arbitrary: p st st')
  case (Suc depth)
  let ?visit = "\<lambda>m st. if m \<in> installed then findDependents depth installed rd m st else Some st"
  show ?case
  proof (cases "p \<in> fdVisited st")
    case False
    define st1 where "st1 = \<lparr>fdVisited = insert p (fdVisited st),
      fdDelete = (if p \<in> installed then List.insert p (fdDelete st) else fdDelete st)\<rparr>"
    have f: "foldSome ?visit (depsOf rd p) st1 = Some st'"
      using Suc.prems(1) False by (simp add: Let_def st1_def)
    show ?thesis
    proof (rule foldSome_invariant [where I = "\<lambda>st. fdVisited st \<subseteq> X", OF _ f])
      fix m s s' assume "m \<in> set (depsOf rd p)" "fdVisited s \<subseteq> X" "?visit m s = Some s'"
      then show "fdVisited s' \<subseteq> X" using Suc.IH [of m s s'] assms [OF Suc.prems(2)] by (auto split: if_splits)
    qed (use Suc.prems in \<open>simp add: st1_def\<close>)
  qed (use Suc.prems in simp)
qed simp

lemma findDependents_returns:
  assumes "finite installed"
  shows "card (installed - fdVisited st) < depth \<Longrightarrow> p \<in> installed \<Longrightarrow>
    \<exists>st'. findDependents depth installed rd p st = Some st' \<and> fdVisited st \<subseteq> fdVisited st'"
proof (induction depth arbitrary: p st)
  case (Suc depth)
  let ?st1 = "\<lparr>fdVisited = insert p (fdVisited st), fdDelete = List.insert p (fdDelete st)\<rparr>"
  let ?visit = "\<lambda>m st. if m \<in> installed then findDependents depth installed rd m st else Some st"
  show ?case
  proof (cases "p \<in> fdVisited st")
    case False
    have "installed - insert p (fdVisited st) = (installed - fdVisited st) - {p}" by auto
    then have less: "card (installed - insert p (fdVisited st)) < depth"
      using card_Diff1_less [of "installed - fdVisited st" p] assms False Suc.prems by auto
    have "\<exists>st'. foldSome ?visit (depsOf rd p) ?st1 = Some st' \<and> insert p (fdVisited st) \<subseteq> fdVisited st'"
    proof (rule foldSome_returns)
      fix m and s :: fdState assume v: "insert p (fdVisited st) \<subseteq> fdVisited s"
      then have "installed - fdVisited s \<subseteq> installed - insert p (fdVisited st)" by auto
      then have "card (installed - fdVisited s) \<le> card (installed - insert p (fdVisited st))"
        using assms by (intro card_mono) auto
      then show "\<exists>s'. ?visit m s = Some s' \<and> insert p (fdVisited st) \<subseteq> fdVisited s'"
        using Suc.IH [of s m] less v by fastforce
    qed simp
    then show ?thesis using False Suc.prems(2) by (auto simp: Let_def)
  qed simp
qed simp

lemma foldSome_filter:
  "foldSome (\<lambda>x s. if P x then f x s else Some s) xs s = foldSome f (filter P xs) s"
  by (induction xs arbitrary: s) (auto split: option.splits)

lemma findPackagesToDelete_doomed:
  assumes "orders_ok ro"
  obtains del where "findPackagesToDelete ro installed sources req = Some del" "distinct del"
    "set del = doomed sources (set installed) (set req)"
proof -
  let ?I = "set installed" and ?rd = "reverseDeps (set installed) sources"
  let ?visit = "\<lambda>p st. if p \<in> ?I then findDependents (Suc (length installed)) ?I ?rd p st else Some st"
  let ?st0 = "\<lparr>fdVisited = {}, fdDelete = []\<rparr>" and ?D = "doomed sources (set installed) (set req)"
  have reqs: "set (roNames ro req) = set req" using assms by (simp add: orders_ok_def range_order_set)
  have rd: "set (depsOf ?rd n) \<subseteq> ?I" for n using depsOf_reverseDeps by blast
  have closed: "n \<in> ?D \<Longrightarrow> set (depsOf ?rd n) \<subseteq> ?D" for n
    using depsOf_reverseDeps [of _ ?I sources n] by (auto intro: doomed.depending)
  have "\<exists>st. foldSome ?visit (roNames ro req) ?st0 = Some st \<and> True"
  proof (rule foldSome_returns)
    fix p and s :: fdState
    have "card (?I - fdVisited s) < Suc (length installed)"
      by (metis List.finite_set card_Diff_subset_Int card_length card_mono Diff_subset le_imp_less_Suc le_trans)
    then show "\<exists>s'. ?visit p s = Some s' \<and> True" using findDependents_returns [of ?I s _ p ?rd]
      by (auto simp del: findDependents.simps)
  qed simp
  then obtain st where f: "foldSome ?visit (roNames ro req) ?st0 = Some st" by blast
  have within: "fdVisited st \<subseteq> ?D"
  proof (rule foldSome_invariant [where I = "\<lambda>st. fdVisited st \<subseteq> ?D", OF _ f])
    fix p s s' assume "p \<in> set (roNames ro req)" "fdVisited s \<subseteq> ?D" "?visit p s = Some s'"
    then show "fdVisited s' \<subseteq> ?D" using findDependents_within [OF closed, of _ ?I p s s'] reqs
      by (auto split: if_splits intro: doomed.requested simp del: findDependents.simps)
  qed simp
  have "swept ?rd ?st0 st \<and> fd_ok ?I st \<and> set (filter (\<lambda>p. p \<in> ?I) (roNames ro req)) \<subseteq> fdVisited st"
  proof (rule foldSome_swept [OF _ f [unfolded foldSome_filter]])
    fix m s s' assume "m \<in> set (filter (\<lambda>p. p \<in> ?I) (roNames ro req))" "fd_ok ?I s"
      "findDependents (Suc (length installed)) ?I ?rd m s = Some s'"
    then show "swept ?rd s s' \<and> fd_ok ?I s' \<and> m \<in> fdVisited s'"
      using findDependents_swept [OF rd] by (simp del: findDependents.simps)
  qed (simp add: fd_ok_def)
  then have sw: "\<And>n. n \<in> fdVisited st \<Longrightarrow> set (depsOf ?rd n) \<subseteq> fdVisited st"
    and ok: "distinct (fdDelete st)" "set (fdDelete st) = fdVisited st"
    and start: "\<And>n. n \<in> set req \<Longrightarrow> n \<in> ?I \<Longrightarrow> n \<in> fdVisited st"
    by (auto simp: swept_def fd_ok_def reqs)
  have "n \<in> ?D \<Longrightarrow> n \<in> fdVisited st" for n
  proof (induction rule: doomed.induct)
    case (depending n m)
    then have "m \<in> set (depsOf ?rd n)" using doomed_installed depsOf_reverseDeps by blast
    then show ?case using sw depending.IH by blast
  qed (rule start)
  with within ok have "set (fdDelete st) = ?D" by blast
  then show ?thesis using that [of "fdDelete st"] ok(1) f by (simp add: findPackagesToDelete_def Let_def)
qed

subsection \<open>The graph and the deletions\<close>

lemma dependencyGraph_wf:
  assumes "orders_ok ro"
  shows "wf_graph ro (dependencyGraph ro D sources)"
  unfolding dependencyGraph_def
proof (rule fold_invariant_list)
  fix ps g assume "wf_graph ro g"
  moreover have "distinct (roNames ro (filter (\<lambda>d. d \<in> D) (dependencySet ps)))"
    using assms by (simp add: orders_ok_def range_order_distinct dependencySet_def)
  ultimately show "wf_graph ro (addForwardDeps ro D ps g)"
    using set_update_subset [of "psName ps" _ g]
    by (fastforce simp: addForwardDeps_def wf_graph_def distinct_update)
qed (simp add: wf_graph_def assms)

lemma dependencyGraph_keys:
  "orders_ok ro \<Longrightarrow> nd \<in> set (dependencyGraph ro D sources) \<Longrightarrow> fst nd \<in> D \<and> set (snd nd) \<subseteq> D"
proof -
  assume oo: "orders_ok ro" "nd \<in> set (dependencyGraph ro D sources)"
  have "\<forall>nd \<in> set (fold (addForwardDeps ro D) sources []). fst nd \<in> D \<and> set (snd nd) \<subseteq> D"
  proof (rule fold_invariant_list)
    fix ps g assume g: "\<forall>nd \<in> set g. fst nd \<in> D \<and> set (snd nd) \<subseteq> D"
    let ?ds = "roNames ro (filter (\<lambda>d. d \<in> D) (dependencySet ps))"
    have "set ?ds \<subseteq> D" using oo(1) by (auto simp: orders_ok_def range_order_set)
    moreover have "set (addForwardDeps ro D ps g) \<subseteq> (if psName ps \<in> D then {(psName ps, ?ds)} else {}) \<union> set g"
      using set_update_subset [of "psName ps" ?ds g] by (auto simp: addForwardDeps_def)
    ultimately show "\<forall>nd \<in> set (addForwardDeps ro D ps g). fst nd \<in> D \<and> set (snd nd) \<subseteq> D"
      using g by (fastforce split: if_splits)
  qed simp
  then show ?thesis using oo(2) by (simp add: dependencyGraph_def)
qed

lemma depsOf_dependencyGraph:
  assumes "orders_ok ro" "distinct (map psName sources)"
  shows "n \<in> set (depsOf (dependencyGraph ro D sources) m) \<longleftrightarrow> m \<in> D \<and> n \<in> D \<and> dependsOn sources m n"
proof -
  have step: "depsOf (addForwardDeps ro D ps g) m =
      (if m = psName ps \<and> m \<in> D then roNames ro (filter (\<lambda>d. d \<in> D) (dependencySet ps)) else depsOf g m)" for ps g
    by (auto simp: addForwardDeps_def depsOf_def update_conv')
  have rn: "set (roNames ro xs) = set xs" for xs using assms(1) by (simp add: orders_ok_def range_order_set)
  have "n \<in> set (depsOf (fold (addForwardDeps ro D) sources g) m) \<longleftrightarrow>
      (if m \<in> D \<and> m \<in> psName ` set sources then n \<in> D \<and> dependsOn sources m n else n \<in> set (depsOf g m))" for g
    using assms(2)
  proof (induction sources arbitrary: g)
    case (Cons ps sources)
    have "dependsOn (ps # sources) m n \<longleftrightarrow>
        (if m = psName ps then n \<in> set (dependencySet ps) else dependsOn sources m n)"
      using Cons.prems by (auto simp: dependsOn_def) (metis imageI)
    then show ?case using Cons.IH [of "addForwardDeps ro D ps g"] Cons.prems rn by (auto simp: step)
  qed simp
  then show ?thesis by (auto simp: dependencyGraph_def depsOf_def dependsOn_def)
qed

lemma deleteAll_prefix:
  "deleteAll del ns = (ds, out) \<Longrightarrow> prefix ds ns \<and> (out = Inr () \<longrightarrow> ds = ns) \<and> out \<noteq> Inl DeleteDepth"
  by (induction ns arbitrary: ds) (auto split: delete_outcome.splits prod.splits)

lemma getDeleteOrder_order:
  assumes "orders_ok ro" "distinct (map psName sources)" "distinct del" "getDeleteOrder ro sources del = Inr order"
  shows "distinct order" "set order = set del"
    and "deps_first (depsOf (dependencyGraph ro (set del) sources)) (rev order)"
proof -
  let ?g = "dependencyGraph ro (set del) sources"
  note wf = dependencyGraph_wf [OF assms(1), of "set del" sources]
  have o: "deleteOrder ro (?g, del) = Inr order" using assms(4) by (simp add: getDeleteOrder_def)
  have "set (allNodes ro ?g) \<subseteq> set del"
    unfolding set_allNodes [OF assms(1)] using dependencyGraph_keys [OF assms(1)] by fastforce
  then have "set (fst (deleteGraph ro (?g, del))) = set del"
    using set_deleteGraph [OF assms(1), of "(?g, del)"] by auto
  with deleteOrder_order [of ro "(?g, del)" order] wf o
  show "distinct order" "set order = set del" "deps_first (depsOf ?g) (rev order)" by simp_all
qed

text \<open>In a reversed order, whatever depends on an element stands before it.\<close>

lemma deps_first_rev:
  assumes "deps_first deps (rev xs)" "distinct xs" "i < length xs" "m \<in> set xs" "xs ! i \<in> set (deps m)"
  shows "m \<in> set (take i xs)"
proof -
  obtain j where j: "j < length xs" "m = rev xs ! j" using assms(4) by (metis in_set_conv_nth length_rev set_rev)
  then have "xs ! i \<in> set (take j (rev xs))" using assms(1,5) by (auto simp: deps_first_def)
  then obtain l where l: "l < j" "xs ! i = rev xs ! l" using j(1) by (auto simp: in_set_conv_nth)
  then have "xs ! i = xs ! (length xs - Suc l)" using j(1) by (simp add: rev_nth)
  then have "i = length xs - Suc l" using assms(2,3) j(1) l(1) by (simp add: nth_eq_iff_index_eq)
  moreover have "m = xs ! (length xs - Suc j)" using j by (simp add: rev_nth)
  ultimately have "m = xs ! (length xs - Suc j)" "length xs - Suc j < i" using l(1) j(1) by auto
  then show ?thesis using assms(3) by (auto simp: in_set_conv_nth intro!: exI [of _ "length xs - Suc j"])
qed

subsection \<open>Properties\<close>

text \<open>C18: For every answer of the cluster and every iteration order, the command cozypkg del deletes only
  installed Packages that were requested or depend, directly or through other Packages, on a
  requested one, each at most once, and only after a confirmation. A Package is deleted only
  after every Package to be deleted that depends on it. When the run ends without an error and
  anything was to be deleted, exactly these Packages were deleted, and the recursion never
  exceeds its depth bound.\<close>

theorem deletePackages_order:
  assumes "orders_ok ro" "deletePackages ro c stdin req = (ds, out)"
    and "dcPackages c = Inr installed" "dcSources c = Inr sources" "dcOrderSources c = Inr sources'"
    and "distinct (map psName sources')"
  shows "distinct ds \<and> set ds \<subseteq> doomed sources (set installed) (set req) \<and>
    (ds \<noteq> [] \<longrightarrow> confirmDeletion stdin = None) \<and>
    (\<forall>i < length ds. \<forall>m \<in> doomed sources (set installed) (set req).
       dependsOn sources' m (ds ! i) \<longrightarrow> m \<in> set (take i ds)) \<and>
    (out = Inr () \<longrightarrow> set ds = doomed sources (set installed) (set req)) \<and> out \<noteq> Inl DeleteDepth"
proof -
  let ?D = "doomed sources (set installed) (set req)"
  obtain del where del: "findPackagesToDelete ro installed sources req = Some del" "distinct del" "set del = ?D"
    by (rule findPackagesToDelete_doomed [OF assms(1)])
  show ?thesis
  proof (cases "planDelete ro c stdin req")
    case (Inl e)
    then have "e \<noteq> DeleteDepth" using assms(3-5) del(1)
      by (auto simp: planDelete_def confirmDeletion_def split: option.splits if_splits sum.splits list.splits)
    then show ?thesis using assms(2) Inl by (auto simp: deletePackages_def)
  next
    case (Inr order)
    have a: "deleteAll (dcDelete c) order = (ds, out)" using assms(2) Inr by (simp add: deletePackages_def)
    note pre = deleteAll_prefix [OF a]
    show ?thesis
    proof (cases "del = []")
      case True
      then have "order = []" using Inr assms(3-5) del(1) by (auto simp: planDelete_def split: option.splits)
      then show ?thesis using a del True by auto
    next
      case False
      then have conf: "confirmDeletion stdin = None" and g: "getDeleteOrder ro sources' del = Inr order"
        using Inr assms(3-5) del(1) by (auto simp: planDelete_def split: option.splits sum.splits)
      note ord = getDeleteOrder_order [OF assms(1,6) del(2) g]
      obtain rest where r: "order = ds @ rest" using pre by (auto simp: prefix_def)
      have "m \<in> set (take i ds)" if i: "i < length ds" and m: "m \<in> ?D" "dependsOn sources' m (ds ! i)" for i m
      proof -
        have "order ! i \<in> set (depsOf (dependencyGraph ro (set del) sources') m)"
          unfolding depsOf_dependencyGraph [OF assms(1,6)] using m i r ord(2) del(3) by (auto simp: nth_append)
        moreover have "i < length order" "m \<in> set order" using i r m(1) ord(2) del(3) by auto
        ultimately have "m \<in> set (take i order)" using deps_first_rev [OF ord(3,1)] by blast
        then show ?thesis using i r by simp
      qed
      then show ?thesis using pre ord r conf del(3) by auto
    qed
  qed
qed

definition demoDelClient :: delClient where
  "demoDelClient = \<lparr>dcListErr = None, dcPackages = Inr [''net'', ''db'', ''app'', ''log''],
     dcSources = Inr (kcSources demoPkgClient), dcOrderSources = Inr (kcSources demoPkgClient),
     dcDelete = (\<lambda>n. if n = ''db'' then GoneAlready else Deleted)\<rparr>"

theorem deletePackages_order_witness:
  "deletePackages plainOrders demoDelClient [''Yes ''] [''net'', ''mail''] = ([''app'', ''db'', ''net''], Inr ()) \<and>
   set [''app'', ''db'', ''net''] =
     doomed (kcSources demoPkgClient) (set [''net'', ''db'', ''app'', ''log'']) (set [''net'', ''mail''])"
proof -
  have r: "deletePackages plainOrders demoDelClient [''Yes ''] [''net'', ''mail''] = ([''app'', ''db'', ''net''], Inr ())"
    by code_simp
  have "distinct (map psName (kcSources demoPkgClient))" by code_simp
  from deletePackages_order [OF plainOrders_ok r _ _ _ this, of "[''net'', ''db'', ''app'', ''log'']" "kcSources demoPkgClient"]
  show ?thesis using r by (simp add: demoDelClient_def)
qed

end
