(* ===== verification/Backup_Target.thy ===== *)
theory Backup_Target
  imports Go_Prelude
begin

text \<open>
  What backups and restores exclude each other: the application a RestoreJob writes into
  (\<open>restoreJobTarget\<close>), the restores that hold a BackupJob back (\<open>activeRestoreTargeting\<close>,
  internal/backupcontroller/backupjob\_restore\_lock.go) and the restore that goes before another
  (\<open>restoreAhead\<close>, internal/backupcontroller/restorejob\_target\_lock.go). All jobs are those of
  one namespace, as the code lists them. A read of the API is a value of type \<open>fetched\<close>; the
  options of a RestoreJob are given decoded.
\<close>

subsection \<open>Data\<close>

record AppRef =
  arGroup :: "string option"
  arKind :: string
  arName :: string

datatype jobPhase = PhaseEmpty | PhasePending | PhaseRunning | PhaseSucceeded | PhaseFailed

record Backup =
  bkName :: string
  bkApplicationRef :: AppRef
  bkStrategyRef :: AppRef
  bkDriverMetadata :: "(string \<times> string) list"

text \<open>Raw options: absent or empty, not decodable, or with the decoded field \<open>targetNamespace\<close>.\<close>

datatype restoreOptions = NoOptions | BadOptions | Options string

record RestoreJob =
  rjName :: string
  rjCreated :: int
  rjDeleting :: bool
  rjFinalizers :: "string list"
  rjBackupRef :: string
  rjTargetRef :: "AppRef option"
  rjOptions :: restoreOptions
  rjPhase :: jobPhase
  rjStartedAt :: "int option"
  rjCompletedAt :: "int option"
  rjReady :: "(bool \<times> string) option" \<comment> \<open>status and reason of the condition \<open>Ready\<close>\<close>

definition terminal :: "jobPhase \<Rightarrow> bool" where
  "terminal p \<longleftrightarrow> p = PhaseSucceeded \<or> p = PhaseFailed"

definition DefaultApplicationAPIGroup :: string where
  "DefaultApplicationAPIGroup = ''apps.cozystack.io''"

definition VeleroStrategyKind :: string where
  "VeleroStrategyKind = ''Velero''"

subsection \<open>The application a restore writes into\<close>

definition NormalizeApplicationRef :: "AppRef \<Rightarrow> AppRef" where
  "NormalizeApplicationRef ref =
     (if arGroup ref = None \<or> arGroup ref = Some [] then ref\<lparr>arGroup := Some DefaultApplicationAPIGroup\<rparr>
      else ref)"

definition ptrString :: "string option \<Rightarrow> string" where
  "ptrString s = (case s of None \<Rightarrow> [] | Some v \<Rightarrow> v)"

definition sameApplication :: "AppRef \<Rightarrow> AppRef \<Rightarrow> bool" where
  "sameApplication a b \<longleftrightarrow>
     arKind a = arKind b \<and> arName a = arName b \<and> ptrString (arGroup a) = ptrString (arGroup b)"

definition restoresIntoAnotherNamespace :: "RestoreJob \<Rightarrow> string \<Rightarrow> bool" where
  "restoresIntoAnotherNamespace rj namespace =
     (case rjOptions rj of Options ns \<Rightarrow> ns \<noteq> [] \<and> ns \<noteq> namespace | _ \<Rightarrow> False)"

definition restoreJobTarget ::
    "(string \<Rightarrow> Backup fetched) \<Rightarrow> string \<Rightarrow> RestoreJob \<Rightarrow> string + AppRef option" where
  "restoreJobTarget getBackup namespace rj =
     (case getBackup (rjBackupRef rj) of
        Missing \<Rightarrow> Inr None
      | FetchError e \<Rightarrow> Inl e
      | Found backup \<Rightarrow>
          if arKind (bkStrategyRef backup) = VeleroStrategyKind \<and> restoresIntoAnotherNamespace rj namespace
          then Inr None
          else
            let ref = bkApplicationRef backup in
            Inr (Some (NormalizeApplicationRef
              (case rjTargetRef rj of
                 None \<Rightarrow> ref
               | Some t \<Rightarrow> ref\<lparr>arKind := arKind t, arName := arName t,
                   arGroup := (if arGroup t \<noteq> None \<and> arKind (bkStrategyRef backup) \<noteq> VeleroStrategyKind
                               then arGroup t else arGroup ref)\<rparr>))))"

subsection \<open>Restores that hold a backup back\<close>

fun holdingLoop ::
    "(string \<Rightarrow> Backup fetched) \<Rightarrow> string \<Rightarrow> AppRef \<Rightarrow> RestoreJob list \<Rightarrow> string list \<Rightarrow> string + string list" where
  "holdingLoop getBackup namespace app [] holding = Inr holding"
| "holdingLoop getBackup namespace app (rj # rjs) holding =
     (if terminal (rjPhase rj) then holdingLoop getBackup namespace app rjs holding
      else case restoreJobTarget getBackup namespace rj of
             Inl e \<Rightarrow> Inl e
           | Inr (Some target) \<Rightarrow>
               holdingLoop getBackup namespace app rjs
                 (if sameApplication target app then holding @ [rjName rj] else holding)
           | Inr None \<Rightarrow> holdingLoop getBackup namespace app rjs holding)"

definition activeRestoreTargeting ::
    "(string \<Rightarrow> Backup fetched) \<Rightarrow> string \<Rightarrow> string + RestoreJob list \<Rightarrow> AppRef \<Rightarrow> string + string" where
  "activeRestoreTargeting getBackup namespace listRestores app0 =
     (let app = NormalizeApplicationRef app0 in
      case listRestores of
        Inl e \<Rightarrow> Inl e
      | Inr rjs \<Rightarrow>
          (case holdingLoop getBackup namespace app rjs [] of
             Inl e \<Rightarrow> Inl e
           | Inr holding \<Rightarrow> Inr (if holding = [] then [] else hd (sort holding))))"

subsection \<open>The order of concurrent restores\<close>

definition restoreJobStarted :: "RestoreJob \<Rightarrow> bool" where
  "restoreJobStarted rj \<longleftrightarrow> rjStartedAt rj \<noteq> None \<or> rjPhase rj = PhaseRunning"

definition restoreGoesFirst :: "RestoreJob \<Rightarrow> RestoreJob \<Rightarrow> bool" where
  "restoreGoesFirst a b =
     (if restoreJobStarted a \<noteq> restoreJobStarted b then restoreJobStarted a
      else if rjCreated a \<noteq> rjCreated b then rjCreated a < rjCreated b
      else rjName a < rjName b)"

fun aheadLoop ::
    "(string \<Rightarrow> Backup fetched) \<Rightarrow> string \<Rightarrow> RestoreJob \<Rightarrow> AppRef \<Rightarrow> RestoreJob list \<Rightarrow>
     RestoreJob option \<Rightarrow> string + RestoreJob option" where
  "aheadLoop getBackup namespace rj target [] first = Inr first"
| "aheadLoop getBackup namespace rj target (other # rest) first =
     (if rjName other = rjName rj \<or> terminal (rjPhase other) \<or> rjDeleting other \<or> \<not> restoreGoesFirst other rj
      then aheadLoop getBackup namespace rj target rest first
      else case restoreJobTarget getBackup namespace other of
             Inl e \<Rightarrow> Inl e
           | Inr otherTarget \<Rightarrow>
               aheadLoop getBackup namespace rj target rest
                 (if (case otherTarget of None \<Rightarrow> False | Some t \<Rightarrow> sameApplication t target) \<and>
                     (case first of None \<Rightarrow> True | Some f \<Rightarrow> restoreGoesFirst other f)
                  then Some other else first))"

definition restoreAhead ::
    "(string \<Rightarrow> Backup fetched) \<Rightarrow> string \<Rightarrow> string + RestoreJob list \<Rightarrow> RestoreJob \<Rightarrow> string + string" where
  "restoreAhead getBackup namespace listRestores rj =
     (case restoreJobTarget getBackup namespace rj of
        Inl e \<Rightarrow> Inl e
      | Inr None \<Rightarrow> Inr []
      | Inr (Some target) \<Rightarrow>
          (case listRestores of
             Inl e \<Rightarrow> Inl e
           | Inr rjs \<Rightarrow>
               (case aheadLoop getBackup namespace rj target rjs None of
                  Inl e \<Rightarrow> Inl e
                | Inr None \<Rightarrow> Inr []
                | Inr (Some first) \<Rightarrow> Inr (rjName first))))"

subsection \<open>Normalised references\<close>

lemma NormalizeApplicationRef_group: "\<exists>g. arGroup (NormalizeApplicationRef r) = Some g \<and> g \<noteq> []"
  by (auto simp: NormalizeApplicationRef_def DefaultApplicationAPIGroup_def)

lemma NormalizeApplicationRef_idem [simp]:
  "NormalizeApplicationRef (NormalizeApplicationRef r) = NormalizeApplicationRef r"
  by (simp add: NormalizeApplicationRef_def DefaultApplicationAPIGroup_def)

lemma sameApplication_normal:
  "sameApplication (NormalizeApplicationRef a) (NormalizeApplicationRef b) \<longleftrightarrow>
   NormalizeApplicationRef a = NormalizeApplicationRef b"
proof -
  obtain g h where g: "arGroup (NormalizeApplicationRef a) = Some g" "arGroup (NormalizeApplicationRef b) = Some h"
    using NormalizeApplicationRef_group by blast
  have "x = y \<longleftrightarrow> arGroup x = arGroup y \<and> arKind x = arKind y \<and> arName x = arName y" for x y :: AppRef
    by (cases x; cases y) auto
  with g show ?thesis by (auto simp: sameApplication_def ptrString_def)
qed

lemma restoreJobTarget_normal:
  "restoreJobTarget getBackup ns rj = Inr (Some t) \<Longrightarrow> NormalizeApplicationRef t = t"
  by (auto simp: restoreJobTarget_def Let_def split: fetched.splits if_splits)

lemma sameApplication_targets:
  "restoreJobTarget getBackup ns a = Inr (Some t) \<Longrightarrow> NormalizeApplicationRef u = u \<Longrightarrow>
   sameApplication t u \<longleftrightarrow> t = u"
  by (metis restoreJobTarget_normal sameApplication_normal)

text \<open>The target of a RestoreJob depends only on its reference, target and options.\<close>

definition sameRequest :: "RestoreJob \<Rightarrow> RestoreJob \<Rightarrow> bool" where
  "sameRequest a b \<longleftrightarrow> rjName a = rjName b \<and> rjBackupRef a = rjBackupRef b \<and>
     rjTargetRef a = rjTargetRef b \<and> rjOptions a = rjOptions b"

lemma restoreJobTarget_request:
  "sameRequest a b \<Longrightarrow> restoreJobTarget getBackup ns a = restoreJobTarget getBackup ns b"
  by (simp add: sameRequest_def restoreJobTarget_def restoresIntoAnotherNamespace_def split: fetched.split)

subsection \<open>What the loops find\<close>

definition holds :: "(string \<Rightarrow> Backup fetched) \<Rightarrow> string \<Rightarrow> AppRef \<Rightarrow> RestoreJob \<Rightarrow> bool" where
  "holds getBackup namespace app rj \<longleftrightarrow>
     \<not> terminal (rjPhase rj) \<and>
     (\<exists>t. restoreJobTarget getBackup namespace rj = Inr (Some t) \<and> sameApplication t app)"

lemma holdingLoop_Inr:
  "holdingLoop getBackup ns app rjs holding = Inr out \<Longrightarrow>
   out = holding @ map rjName (filter (holds getBackup ns app) rjs)"
proof (induction rjs arbitrary: holding)
  case (Cons rj rjs)
  have "holdingLoop getBackup ns app rjs (if holds getBackup ns app rj then holding @ [rjName rj] else holding)
      = Inr out"
    using Cons.prems by (auto simp: holds_def split: if_splits sum.splits option.splits)
  from Cons.IH [OF this] show ?case by simp
qed simp

lemma activeRestoreTargeting_Inr:
  assumes "activeRestoreTargeting getBackup ns (Inr rjs) app = Inr n" "\<And>rj. rj \<in> set rjs \<Longrightarrow> rjName rj \<noteq> []"
  shows "n = [] \<longleftrightarrow> (\<forall>rj \<in> set rjs. \<not> holds getBackup ns (NormalizeApplicationRef app) rj)"
    and "n \<noteq> [] \<Longrightarrow> \<exists>rj \<in> set rjs. holds getBackup ns (NormalizeApplicationRef app) rj \<and> rjName rj = n \<and>
      (\<forall>rj' \<in> set rjs. holds getBackup ns (NormalizeApplicationRef app) rj' \<longrightarrow> n \<le> rjName rj')"
proof -
  let ?h = "holds getBackup ns (NormalizeApplicationRef app)"
  let ?names = "map rjName (filter ?h rjs)"
  obtain out where l: "holdingLoop getBackup ns (NormalizeApplicationRef app) rjs [] = Inr out"
    and n: "n = (if out = [] then [] else hd (sort out))"
    using assms(1) by (auto simp: activeRestoreTargeting_def Let_def split: sum.splits)
  have "out = ?names" using holdingLoop_Inr [OF l] by simp
  then have n: "n = (if ?names = [] then [] else hd (sort ?names))" using n by simp
  have mem: "n \<in> set ?names" and least: "\<forall>m \<in> set ?names. n \<le> m" if "?names \<noteq> []"
  proof -
    have ne: "sort ?names \<noteq> []" using that by (metis length_0_conv length_sort)
    then have "hd (sort ?names) \<in> set (sort ?names)" by (rule hd_in_set)
    then show "n \<in> set ?names" using n that by simp
    have "\<forall>m \<in> set (sort ?names). hd (sort ?names) \<le> m"
      using ne sorted_sort [of ?names] by (cases "sort ?names") auto
    then show "\<forall>m \<in> set ?names. n \<le> m" using n that by simp
  qed
  show "n = [] \<longleftrightarrow> (\<forall>rj \<in> set rjs. \<not> ?h rj)"
  proof (cases "?names = []")
    case True
    then show ?thesis using n by (simp add: filter_empty_conv)
  next
    case False
    then show ?thesis using mem assms(2) by (auto simp: filter_empty_conv)
  qed
  show "\<exists>rj \<in> set rjs. ?h rj \<and> rjName rj = n \<and> (\<forall>rj' \<in> set rjs. ?h rj' \<longrightarrow> n \<le> rjName rj')" if "n \<noteq> []"
    using mem least n that by (auto split: if_splits)
qed

lemma restoreGoesFirst_irrefl: "\<not> restoreGoesFirst a a"
  by (simp add: restoreGoesFirst_def)

lemma restoreGoesFirst_trans:
  "restoreGoesFirst a b \<Longrightarrow> restoreGoesFirst b c \<Longrightarrow> restoreGoesFirst a c"
  by (auto simp: restoreGoesFirst_def split: if_splits)

lemma restoreGoesFirst_total:
  "rjName a \<noteq> rjName b \<Longrightarrow> restoreGoesFirst a b \<or> restoreGoesFirst b a"
  by (auto simp: restoreGoesFirst_def)

text \<open>The jobs that go before \<open>rj\<close> into the application \<open>target\<close>.\<close>

definition blocks :: "(string \<Rightarrow> Backup fetched) \<Rightarrow> string \<Rightarrow> RestoreJob \<Rightarrow> AppRef \<Rightarrow> RestoreJob \<Rightarrow> bool" where
  "blocks getBackup namespace rj target other \<longleftrightarrow>
     rjName other \<noteq> rjName rj \<and> \<not> terminal (rjPhase other) \<and> \<not> rjDeleting other \<and>
     restoreGoesFirst other rj \<and>
     (\<exists>t. restoreJobTarget getBackup namespace other = Inr (Some t) \<and> sameApplication t target)"

lemma aheadLoop_cons:
  "aheadLoop getBackup ns rj target (other # rest) first = Inr out \<Longrightarrow>
   aheadLoop getBackup ns rj target rest
     (if blocks getBackup ns rj target other \<and>
         (case first of None \<Rightarrow> True | Some f \<Rightarrow> restoreGoesFirst other f) then Some other else first) = Inr out"
  by (auto simp: blocks_def split: if_splits sum.splits option.splits)

lemma aheadLoop_None:
  "aheadLoop getBackup ns rj target rjs first = Inr out \<Longrightarrow>
   out = None \<longleftrightarrow> first = None \<and> (\<forall>other \<in> set rjs. \<not> blocks getBackup ns rj target other)"
proof (induction rjs arbitrary: first)
  case (Cons other rest)
  from Cons.IH [OF aheadLoop_cons [OF Cons.prems]] show ?case by (auto split: option.splits if_splits)
qed simp

lemma aheadLoop_Some:
  "aheadLoop getBackup ns rj target rjs first = Inr (Some f) \<Longrightarrow>
   (f \<in> set rjs \<and> blocks getBackup ns rj target f) \<or> first = Some f"
proof (induction rjs arbitrary: first)
  case (Cons other rest)
  from Cons.IH [OF aheadLoop_cons [OF Cons.prems]] show ?case by (auto split: option.splits if_splits)
qed simp

lemma aheadLoop_first:
  "aheadLoop getBackup ns rj target rjs first = Inr (Some f) \<Longrightarrow> distinct (map rjName rjs) \<Longrightarrow>
   (\<And>g. first = Some g \<Longrightarrow> rjName g \<notin> rjName ` set rjs) \<Longrightarrow>
   (\<forall>other \<in> set rjs. blocks getBackup ns rj target other \<longrightarrow> other = f \<or> restoreGoesFirst f other) \<and>
   (\<forall>g. first = Some g \<longrightarrow> g = f \<or> restoreGoesFirst f g)"
proof (induction rjs arbitrary: first)
  case (Cons other rest)
  let ?first = "if blocks getBackup ns rj target other \<and>
      (case first of None \<Rightarrow> True | Some f \<Rightarrow> restoreGoesFirst other f) then Some other else first"
  have "rjName g \<notin> rjName ` set rest" if "?first = Some g" for g
    using that Cons.prems(2,3) by (auto split: if_splits)
  note IH = Cons.IH [OF aheadLoop_cons [OF Cons.prems(1)] _ this]
  then have rest: "\<forall>other \<in> set rest. blocks getBackup ns rj target other \<longrightarrow> other = f \<or> restoreGoesFirst f other"
    and fst: "\<forall>g. ?first = Some g \<longrightarrow> g = f \<or> restoreGoesFirst f g"
    using Cons.prems(2) by auto
  show ?case
  proof (cases "blocks getBackup ns rj target other")
    case True
    show ?thesis
    proof (cases "case first of None \<Rightarrow> True | Some g \<Rightarrow> restoreGoesFirst other g")
      case lt: True
      then have "other = f \<or> restoreGoesFirst f other" using fst True by simp
      then show ?thesis using rest lt restoreGoesFirst_trans by (auto split: option.splits)
    next
      case ge: False
      then obtain g where g: "first = Some g" "\<not> restoreGoesFirst other g" by (auto split: option.splits)
      then have "restoreGoesFirst g other"
        using restoreGoesFirst_total [of g other] Cons.prems(3) by auto
      then show ?thesis using rest fst ge g restoreGoesFirst_trans by auto
    qed
  qed (use rest fst in auto)
qed simp

lemma restoreAhead_Inr:
  assumes "restoreAhead getBackup ns (Inr rjs) rj = Inr n" "\<And>r. r \<in> set rjs \<Longrightarrow> rjName r \<noteq> []"
    and "restoreJobTarget getBackup ns rj = Inr (Some t)"
  shows "n = [] \<longleftrightarrow> (\<forall>other \<in> set rjs. \<not> blocks getBackup ns rj t other)"
    and "n \<noteq> [] \<Longrightarrow> distinct (map rjName rjs) \<Longrightarrow>
      \<exists>f \<in> set rjs. rjName f = n \<and> blocks getBackup ns rj t f \<and>
        (\<forall>other \<in> set rjs. blocks getBackup ns rj t other \<longrightarrow> other = f \<or> restoreGoesFirst f other)"
proof -
  obtain out where out: "aheadLoop getBackup ns rj t rjs None = Inr out"
    and n: "n = (case out of None \<Rightarrow> [] | Some f \<Rightarrow> rjName f)"
    using assms(1,3) by (auto simp: restoreAhead_def split: sum.splits option.splits)
  have "n = [] \<longleftrightarrow> out = None"
    using n aheadLoop_Some [of getBackup ns rj t rjs None] out assms(2) by (auto split: option.splits)
  then show "n = [] \<longleftrightarrow> (\<forall>other \<in> set rjs. \<not> blocks getBackup ns rj t other)"
    using aheadLoop_None [OF out] by simp
  show "\<exists>f \<in> set rjs. rjName f = n \<and> blocks getBackup ns rj t f \<and>
      (\<forall>other \<in> set rjs. blocks getBackup ns rj t other \<longrightarrow> other = f \<or> restoreGoesFirst f other)"
    if ne: "n \<noteq> []" and d: "distinct (map rjName rjs)"
  proof -
    obtain f where f: "out = Some f" "n = rjName f" using ne n by (auto split: option.splits)
    then show ?thesis using aheadLoop_Some [of getBackup ns rj t rjs None f]
        aheadLoop_first [of getBackup ns rj t rjs None f] out d by auto
  qed
qed

lemma aheadLoop_reads:
  "aheadLoop getBackup ns rj target rjs first = Inr out \<Longrightarrow> other \<in> set rjs \<Longrightarrow> rjName other \<noteq> rjName rj \<Longrightarrow>
   \<not> terminal (rjPhase other) \<Longrightarrow> \<not> rjDeleting other \<Longrightarrow> restoreGoesFirst other rj \<Longrightarrow>
   \<exists>t. restoreJobTarget getBackup ns other = Inr t"
proof (induction rjs arbitrary: first)
  case (Cons r rest)
  then show ?case
  proof (cases "other \<in> set rest")
    case True
    with Cons.IH [OF aheadLoop_cons [OF Cons.prems(1)]] Cons.prems show ?thesis by blast
  next
    case False
    then have "r = other" using Cons.prems(2) by simp
    then show ?thesis using Cons.prems by (cases "restoreJobTarget getBackup ns other") auto
  qed
qed simp

lemma aheadLoop_total:
  "(\<And>r. \<exists>t. restoreJobTarget getBackup ns r = Inr t) \<Longrightarrow> \<exists>out. aheadLoop getBackup ns rj target rjs first = Inr out"
proof (induction rjs arbitrary: first)
  case (Cons r rest)
  obtain t where "restoreJobTarget getBackup ns r = Inr t" using Cons.prems by blast
  then show ?case using Cons by simp
qed simp

text \<open>Some job of a non-empty set goes before all others of the set.\<close>

lemma restoreGoesFirst_least:
  assumes "finite S" "S \<noteq> {}"
  shows "\<exists>f \<in> S. \<forall>r \<in> S. \<not> restoreGoesFirst r f"
  using assms
proof (induction S rule: finite_ne_induct)
  case (singleton x)
  then show ?case using restoreGoesFirst_irrefl by simp
next
  case (insert x S)
  then obtain f where f: "f \<in> S" "\<forall>r \<in> S. \<not> restoreGoesFirst r f" by blast
  show ?case
  proof (cases "restoreGoesFirst x f")
    case True
    then have "\<not> restoreGoesFirst r x" if "r \<in> S" for r using f(2) that restoreGoesFirst_trans by blast
    then show ?thesis using restoreGoesFirst_irrefl by blast
  next
    case False
    then show ?thesis using f by blast
  qed
qed

end
