(* ===== verification/Backup_Credentials.thy ===== *)
theory Backup_Credentials
  imports Backup_Target
begin

text \<open>
  The projection of the platform's S3 credentials into a tenant namespace
  (internal/backupcontroller/credentials\_projector.go). The decoding of the raw bucket document,
  the parsing of a URL and the encoding of the FoundationDB document are the three fields of
  \<open>codecLib\<close>; \<open>controllerutil.CreateOrUpdate\<close> reads the target, applies the mutation and
  writes only a changed object.
\<close>

subsection \<open>Secrets, configuration and errors\<close>

record Secret =
  seLabels :: "string \<rightharpoonup> string"
  seData :: "string \<rightharpoonup> string"

record BackupCredentialsConfig =
  bcSourceNamespace :: string
  bcSourceSecretName :: string
  bcTargetSecretName :: string
  bcEndpoint :: string
  bcRegion :: string
  bcForcePathStyle :: string

datatype projection_error = SourceMissing | SourceMalformed | TargetNotOwned | ProjectionAPIError

definition IsTransient :: "projection_error \<Rightarrow> bool" where
  "IsTransient e \<longleftrightarrow> e = SourceMissing \<or> e = ProjectionAPIError"

definition managedByLabel :: string where "managedByLabel = ''apps.cozystack.io/managed-by''"
definition managedByValue :: string where "managedByValue = ''cozystack-backups''"

definition IsEnabled :: "BackupCredentialsConfig \<Rightarrow> bool" where
  "IsEnabled c \<longleftrightarrow> bcSourceNamespace c \<noteq> [] \<and> bcSourceSecretName c \<noteq> [] \<and> bcTargetSecretName c \<noteq> []"

record parsedCreds =
  pcAccessKey :: string
  pcSecretKey :: string
  pcEndpoint :: string
  pcBucket :: string
  pcRegion :: string

record codecLib =
  clBucketInfo :: "string \<Rightarrow> parsedCreds option" \<comment> \<open>the fields of a decoded \<open>BucketInfo\<close> document\<close>
  clParseURL :: "string \<Rightarrow> (string \<times> string) option" \<comment> \<open>host and path\<close>
  clBlob :: "string \<Rightarrow> string \<Rightarrow> string \<Rightarrow> string" \<comment> \<open>host, key and secret\<close>

subsection \<open>Reading the source\<close>

definition stripScheme :: "codecLib \<Rightarrow> string \<Rightarrow> string" where
  "stripScheme lib endpoint =
     (if \<not> prefix ''http://'' endpoint \<and> \<not> prefix ''https://'' endpoint then endpoint
      else
        let trimmed = trimPrefix (trimPrefix endpoint ''http://'') ''https://'' in
        case clParseURL lib endpoint of
          None \<Rightarrow> trimmed
        | Some (host, path) \<Rightarrow>
            if host = [] then trimmed
            else if path \<noteq> [] \<and> path \<noteq> ''/'' then host @ path else host)"

definition finaliseParsedCreds :: "codecLib \<Rightarrow> parsedCreds \<Rightarrow> projection_error + parsedCreds" where
  "finaliseParsedCreds lib out =
     (if pcAccessKey out = [] \<or> pcSecretKey out = [] then Inl SourceMalformed
      else Inr (out\<lparr>pcEndpoint := stripScheme lib (pcEndpoint out)\<rparr>))"

definition orElse :: "string \<Rightarrow> string \<Rightarrow> string" where
  "orElse a b = (if a = [] then b else a)"

definition parseSourceSecret :: "codecLib \<Rightarrow> Secret \<Rightarrow> projection_error + parsedCreds" where
  "parseSourceSecret lib src =
     (let d = strOf (seData src);
          out = \<lparr>pcAccessKey = d ''accessKey'', pcSecretKey = d ''secretKey'', pcEndpoint = d ''endpoint'',
                 pcBucket = d ''bucketName'', pcRegion = d ''region''\<rparr>
      in if d ''BucketInfo'' = [] then finaliseParsedCreds lib out
         else case clBucketInfo lib (d ''BucketInfo'') of
                None \<Rightarrow> if pcAccessKey out = [] \<or> pcSecretKey out = [] then Inl SourceMalformed
                        else finaliseParsedCreds lib out
              | Some info \<Rightarrow>
                  finaliseParsedCreds lib
                    \<lparr>pcAccessKey = orElse (pcAccessKey out) (pcAccessKey info),
                     pcSecretKey = orElse (pcSecretKey out) (pcSecretKey info),
                     pcEndpoint = orElse (pcEndpoint out) (pcEndpoint info),
                     pcBucket = orElse (pcBucket out) (pcBucket info),
                     pcRegion = orElse (pcRegion out) (pcRegion info)\<rparr>)"

subsection \<open>Writing the target\<close>

definition buildVeleroCredentialsFile :: "string \<Rightarrow> string \<Rightarrow> string" where
  "buildVeleroCredentialsFile accessKey secretKey =
     ''[default]'' @ [CHR 0x0A] @ ''aws_access_key_id='' @ accessKey @ [CHR 0x0A] @
     ''aws_secret_access_key='' @ secretKey @ [CHR 0x0A]"

definition buildFDBBlobCredentials ::
    "codecLib \<Rightarrow> string \<Rightarrow> string \<Rightarrow> string \<Rightarrow> string option" where
  "buildFDBBlobCredentials lib endpoint accessKey secretKey =
     (let host = stripScheme lib endpoint in
      if host = [] then None else Some (clBlob lib host accessKey secretKey))"

definition setOrDelete :: "string \<Rightarrow> string \<Rightarrow> (string \<rightharpoonup> string) \<Rightarrow> (string \<rightharpoonup> string)" where
  "setOrDelete key v m = (if v = [] then m(key := None) else m(key \<mapsto> v))"

definition mutateTarget ::
    "BackupCredentialsConfig \<Rightarrow> parsedCreds \<Rightarrow> string \<Rightarrow> Secret \<Rightarrow> Secret" where
  "mutateTarget cfg creds blob target =
     \<lparr>seLabels = (seLabels target)(managedByLabel \<mapsto> managedByValue),
      seData =
        setOrDelete ''forcePathStyle'' (bcForcePathStyle cfg)
        (setOrDelete ''region'' (pcRegion creds)
        (setOrDelete ''bucketName'' (pcBucket creds)
        (setOrDelete ''endpoint'' (pcEndpoint creds)
          ((seData target)(''AWS_ACCESS_KEY_ID'' \<mapsto> pcAccessKey creds,
             ''AWS_SECRET_ACCESS_KEY'' \<mapsto> pcSecretKey creds,
             ''accessKey'' \<mapsto> pcAccessKey creds, ''secretKey'' \<mapsto> pcSecretKey creds,
             ''cloud'' \<mapsto> buildVeleroCredentialsFile (pcAccessKey creds) (pcSecretKey creds),
             ''blob_credentials.json'' \<mapsto> blob))))) \<rparr>"

definition emptySecret :: Secret where
  "emptySecret = \<lparr>seLabels = Map.empty, seData = Map.empty\<rparr>"

record credentialsEnv =
  ceSource :: "Secret fetched"
  ceTarget :: "Secret fetched" \<comment> \<open>the stored target\<close>
  ceWriteErr :: bool

text \<open>The prepared credentials: parsed, with the defaults of the configuration.\<close>

definition prepareCredentials ::
    "codecLib \<Rightarrow> BackupCredentialsConfig \<Rightarrow> Secret \<Rightarrow> projection_error + parsedCreds \<times> string" where
  "prepareCredentials lib cfg src =
     (case parseSourceSecret lib src of
        Inl e \<Rightarrow> Inl e
      | Inr creds0 \<Rightarrow>
          (let creds1 = (if pcEndpoint creds0 = [] then creds0\<lparr>pcEndpoint := stripScheme lib (bcEndpoint cfg)\<rparr>
                         else creds0)
           in if pcEndpoint creds1 = [] then Inl SourceMalformed
              else
                let creds = (if pcRegion creds1 = [] then creds1\<lparr>pcRegion := bcRegion cfg\<rparr> else creds1) in
                case buildFDBBlobCredentials lib (pcEndpoint creds) (pcAccessKey creds) (pcSecretKey creds) of
                  None \<Rightarrow> Inl SourceMalformed
                | Some blob \<Rightarrow> Inr (creds, blob)))"

text \<open>The result is the stored target after the call and the error, if any.\<close>

definition ProjectBackupCredentials ::
    "codecLib \<Rightarrow> BackupCredentialsConfig \<Rightarrow> credentialsEnv \<Rightarrow> Secret fetched \<times> projection_error option" where
  "ProjectBackupCredentials lib cfg env =
     (if \<not> IsEnabled cfg then (ceTarget env, None)
      else case ceSource env of
        Missing \<Rightarrow> (ceTarget env, Some SourceMissing)
      | FetchError e \<Rightarrow> (ceTarget env, Some ProjectionAPIError)
      | Found src \<Rightarrow>
          (case prepareCredentials lib cfg src of
             Inl e \<Rightarrow> (ceTarget env, Some e)
           | Inr (creds, blob) \<Rightarrow>
               (case ceTarget env of
                  FetchError e \<Rightarrow> (ceTarget env, Some ProjectionAPIError)
                | Missing \<Rightarrow>
                    if ceWriteErr env then (Missing, Some ProjectionAPIError)
                    else (Found (mutateTarget cfg creds blob emptySecret), None)
                | Found target \<Rightarrow>
                    if strOf (seLabels target) managedByLabel \<noteq> managedByValue
                    then (Found target, Some TargetNotOwned)
                    else
                      let target' = mutateTarget cfg creds blob target in
                      if target' = target then (Found target, None)
                      else if ceWriteErr env then (Found target, Some ProjectionAPIError)
                      else (Found target', None))))"

subsection \<open>Facts\<close>

text \<open>The mutation as a list of overrides: a key is set to a value or removed.\<close>

definition nonEmpty :: "string \<Rightarrow> string option" where
  "nonEmpty v = (if v = [] then None else Some v)"

definition overrides :: "BackupCredentialsConfig \<Rightarrow> parsedCreds \<Rightarrow> string \<Rightarrow> (string \<times> string option) list" where
  "overrides cfg creds blob =
     [(''forcePathStyle'', nonEmpty (bcForcePathStyle cfg)), (''region'', nonEmpty (pcRegion creds)),
      (''bucketName'', nonEmpty (pcBucket creds)), (''endpoint'', nonEmpty (pcEndpoint creds)),
      (''blob_credentials.json'', Some blob),
      (''cloud'', Some (buildVeleroCredentialsFile (pcAccessKey creds) (pcSecretKey creds))),
      (''secretKey'', Some (pcSecretKey creds)), (''accessKey'', Some (pcAccessKey creds)),
      (''AWS_SECRET_ACCESS_KEY'', Some (pcSecretKey creds)), (''AWS_ACCESS_KEY_ID'', Some (pcAccessKey creds))]"

lemma setOrDelete_apply: "setOrDelete key v m k = (if k = key then nonEmpty v else m k)"
  by (simp add: setOrDelete_def nonEmpty_def)

lemma mutateTarget_data:
  "seData (mutateTarget cfg creds blob t) k =
     (case map_of (overrides cfg creds blob) k of None \<Rightarrow> seData t k | Some v \<Rightarrow> v)"
  unfolding mutateTarget_def overrides_def Secret.simps setOrDelete_apply fun_upd_apply map_of.simps fst_conv snd_conv
  by (simp only: if_distrib [of "case_option _ _"] option.case)

lemma mutateTarget_labels:
  "seLabels (mutateTarget cfg creds blob t) = (seLabels t)(managedByLabel \<mapsto> managedByValue)"
  by (simp add: mutateTarget_def)

lemma mutateTarget_idem: "mutateTarget cfg creds blob (mutateTarget cfg creds blob t) = mutateTarget cfg creds blob t"
proof (rule Secret.equality)
  show "seData (mutateTarget cfg creds blob (mutateTarget cfg creds blob t)) = seData (mutateTarget cfg creds blob t)"
    by (rule ext) (simp add: mutateTarget_data split: option.split)
qed (simp_all add: mutateTarget_labels)

text \<open>What a successful projection of \<open>creds\<close> makes of the target \<open>t0\<close>.\<close>

definition projected :: "BackupCredentialsConfig \<Rightarrow> parsedCreds \<Rightarrow> string \<Rightarrow> Secret \<Rightarrow> Secret \<Rightarrow> bool" where
  "projected cfg creds blob t0 t \<longleftrightarrow>
     seLabels t = (seLabels t0)(managedByLabel \<mapsto> managedByValue) \<and>
     (\<forall>k. seData t k = (case map_of (overrides cfg creds blob) k of None \<Rightarrow> seData t0 k | Some v \<Rightarrow> v))"

lemma mutateTarget_owned: "strOf (seLabels (mutateTarget cfg creds blob t)) managedByLabel = managedByValue"
  by (simp add: mutateTarget_def)

lemma prepareCredentials_Inr:
  assumes "prepareCredentials lib cfg src = Inr (creds, blob)"
  shows "pcAccessKey creds \<noteq> []" "pcSecretKey creds \<noteq> []" "pcEndpoint creds \<noteq> []"
proof -
  obtain c0 where c0: "parseSourceSecret lib src = Inr c0"
    and keys: "pcAccessKey creds = pcAccessKey c0" "pcSecretKey creds = pcSecretKey c0"
    and e: "pcEndpoint creds \<noteq> []"
    using assms by (auto simp: prepareCredentials_def Let_def split: sum.splits if_splits option.splits)
  then show "pcEndpoint creds \<noteq> []" by simp
  have "pcAccessKey c0 \<noteq> [] \<and> pcSecretKey c0 \<noteq> []"
    using c0 by (auto simp: parseSourceSecret_def finaliseParsedCreds_def Let_def split: if_splits option.splits)
  with keys show "pcAccessKey creds \<noteq> []" "pcSecretKey creds \<noteq> []" by simp_all
qed

subsection \<open>Properties\<close>

text \<open>C24: A failed projection leaves the target Secret as it was, and a target that exists
  without the ownership label is never changed. After a successful projection of an enabled
  configuration the target is owned and holds the prepared credentials, with a non-empty access
  key, secret key and endpoint; the keys that the source or the configuration leaves empty are
  gone and every other key and label is kept. Projecting again changes nothing and succeeds even
  if writes fail.\<close>

theorem ProjectBackupCredentials_safe:
  assumes "ProjectBackupCredentials lib cfg env = (target, err)" "IsEnabled cfg"
  shows "(err \<noteq> None \<longrightarrow> target = ceTarget env) \<and>
    (\<forall>t. ceTarget env = Found t \<and> strOf (seLabels t) managedByLabel \<noteq> managedByValue \<longrightarrow> target = Found t) \<and>
    (err = None \<longrightarrow> (\<exists>src creds blob t. ceSource env = Found src \<and>
       prepareCredentials lib cfg src = Inr (creds, blob) \<and>
       pcAccessKey creds \<noteq> [] \<and> pcSecretKey creds \<noteq> [] \<and> pcEndpoint creds \<noteq> [] \<and> target = Found t \<and>
       projected cfg creds blob (case ceTarget env of Found t0 \<Rightarrow> t0 | _ \<Rightarrow> emptySecret) t \<and>
       (\<forall>w. ProjectBackupCredentials lib cfg (env\<lparr>ceTarget := target, ceWriteErr := w\<rparr>) = (target, None))))"
proof (cases "err = None")
  case True
  obtain src creds blob where s: "ceSource env = Found src" "prepareCredentials lib cfg src = Inr (creds, blob)"
    using assms True by (auto simp: ProjectBackupCredentials_def split: fetched.splits sum.splits)
  define t where "t = mutateTarget cfg creds blob (case ceTarget env of Found t0 \<Rightarrow> t0 | _ \<Rightarrow> emptySecret)"
  have t: "target = Found t"
    and own: "\<forall>t. ceTarget env = Found t \<longrightarrow> strOf (seLabels t) managedByLabel = managedByValue"
    using assms True s by (auto simp: ProjectBackupCredentials_def t_def Let_def split: fetched.splits if_splits)
  have "projected cfg creds blob (case ceTarget env of Found t0 \<Rightarrow> t0 | _ \<Rightarrow> emptySecret) t"
    by (simp add: projected_def t_def mutateTarget_labels mutateTarget_data)
  moreover have "ProjectBackupCredentials lib cfg (env\<lparr>ceTarget := target, ceWriteErr := w\<rparr>) = (target, None)" for w
    using assms(2) s by (simp add: ProjectBackupCredentials_def t t_def mutateTarget_owned mutateTarget_idem)
  ultimately show ?thesis using True s t own prepareCredentials_Inr [OF s(2)] by auto
next
  case False
  then show ?thesis using assms by (auto simp: ProjectBackupCredentials_def Let_def split: fetched.splits sum.splits if_splits)
qed

definition demoCodec :: codecLib where
  "demoCodec = \<lparr>clBucketInfo = (\<lambda>raw. None), clParseURL = (\<lambda>u. Some (''s3.local'', ''/'')),
     clBlob = (\<lambda>h k s. h @ k @ s)\<rparr>"

definition demoCredentialsConfig :: BackupCredentialsConfig where
  "demoCredentialsConfig = \<lparr>bcSourceNamespace = ''cozy'', bcSourceSecretName = ''bucket'', bcTargetSecretName = ''creds'',
     bcEndpoint = ''https://s3.local/'', bcRegion = ''eu'', bcForcePathStyle = []\<rparr>"

definition demoSource :: Secret where
  "demoSource = \<lparr>seLabels = Map.empty, seData = [''accessKey'' \<mapsto> ''AK'', ''secretKey'' \<mapsto> ''SK'']\<rparr>"

definition demoCredentialsEnv :: credentialsEnv where
  "demoCredentialsEnv = \<lparr>ceSource = Found demoSource, ceTarget = Missing, ceWriteErr = False\<rparr>"

lemma demoCredentials_prepared:
  "prepareCredentials demoCodec demoCredentialsConfig demoSource =
    Inr (\<lparr>pcAccessKey = ''AK'', pcSecretKey = ''SK'', pcEndpoint = ''s3.local'', pcBucket = [], pcRegion = ''eu''\<rparr>,
      ''s3.localAKSK'')"
  by code_simp

theorem ProjectBackupCredentials_safe_witness:
  "\<exists>t creds. ProjectBackupCredentials demoCodec demoCredentialsConfig demoCredentialsEnv = (Found t, None) \<and>
     projected demoCredentialsConfig creds ''s3.localAKSK'' emptySecret t \<and>
     pcEndpoint creds = ''s3.local'' \<and> pcRegion creds = ''eu'' \<and> seData t ''endpoint'' = Some ''s3.local''"
proof -
  have en: "IsEnabled demoCredentialsConfig" by (simp add: IsEnabled_def demoCredentialsConfig_def)
  obtain target err where r: "ProjectBackupCredentials demoCodec demoCredentialsConfig demoCredentialsEnv = (target, err)"
    by fastforce
  have "err = None" using r en demoCredentials_prepared
    by (simp add: ProjectBackupCredentials_def demoCredentialsEnv_def)
  then obtain t where t: "target = Found t"
    "projected demoCredentialsConfig \<lparr>pcAccessKey = ''AK'', pcSecretKey = ''SK'', pcEndpoint = ''s3.local'',
       pcBucket = [], pcRegion = ''eu''\<rparr> ''s3.localAKSK'' emptySecret t"
    using ProjectBackupCredentials_safe [OF r en] demoCredentials_prepared by (auto simp: demoCredentialsEnv_def)
  then have "seData t ''endpoint'' = Some ''s3.local''" by (simp add: projected_def overrides_def nonEmpty_def)
  then show ?thesis using r t \<open>err = None\<close> by (intro exI conjI) auto
qed

end
