(* ===== verification/Restore_Job.thy ===== *)
theory Restore_Job
  imports Backup_Credentials
begin

text \<open>
  The RestoreJob controller (internal/backupcontroller/restorejob\_controller.go) with the driver
  of the Job strategy (jobstrategy\_controller.go). A pass reads a cached copy of the job, then
  the stored job, the Backup through the cache, and ends with a write of the job's status or a
  call of a driver; what the API answers during the pass is a record \<open>restoreEnv\<close>. An update of
  an object succeeds only when the copy it starts from is the stored one. The drivers of the
  other strategies are the argument \<open>drivers\<close>.
\<close>

subsection \<open>The pass\<close>

definition strategyGroup :: string where "strategyGroup = ''strategy.backups.cozystack.io''"
definition JobStrategyKind :: string where "JobStrategyKind = ''Job''"
definition restoreJobFinalizer :: string where "restoreJobFinalizer = ''backups.cozystack.io/cleanup''"

definition supportedBackupStrategyKinds :: "string list" where
  "supportedBackupStrategyKinds =
     [JobStrategyKind, VeleroStrategyKind, ''CNPG'', ''Altinity'', ''MariaDB'', ''MongoDB'', ''FoundationDB'',
      ''Etcd'', ''Rabbitmq'', ''Redis'', ''Kafka'']"

datatype job_outcome = Finished | RequeueAfter int | Failing string

definition CredentialsProjectionRequeue :: int where "CredentialsProjectionRequeue = 30"

datatype restore_effect =
    ReapVelero bool \<comment> \<open>delete the Velero artifacts of the job; report a failure as an event\<close>
  | ReapStrayVelero
  | CreateBatchJob string string string \<comment> \<open>name, mode and rendered pod\<close>

type_synonym restoreDriver = "RestoreJob \<Rightarrow> Backup \<Rightarrow> RestoreJob \<times> restore_effect list \<times> job_outcome"

record restoreEnv =
  reCached :: "RestoreJob fetched"
  reUpdateErr :: bool
  reRereadErr :: "string option"
  reBackupErr :: "string \<Rightarrow> bool" \<comment> \<open>reading this Backup fails\<close>
  reListErr :: "string option"
  reSource :: "Secret fetched"
  reSecretErr :: bool
  reStatusErr :: bool
  reNow :: int

record restoreState =
  rsJobs :: "RestoreJob list" \<comment> \<open>the stored RestoreJobs of the namespace\<close>
  rsBackups :: "string \<rightharpoonup> Backup" \<comment> \<open>the Backups the cache holds\<close>
  rsSecret :: "Secret fetched" \<comment> \<open>the stored credentials of the namespace\<close>

definition cachedBackup :: "(string \<rightharpoonup> Backup) \<Rightarrow> string \<Rightarrow> Backup fetched" where
  "cachedBackup backups n = (case backups n of None \<Rightarrow> Missing | Some b \<Rightarrow> Found b)"

definition readBackup :: "restoreEnv \<Rightarrow> restoreState \<Rightarrow> string \<Rightarrow> Backup fetched" where
  "readBackup env st n = (if reBackupErr env n then FetchError ''read Backup'' else cachedBackup (rsBackups st) n)"

definition storedJob :: "string \<Rightarrow> RestoreJob list \<Rightarrow> RestoreJob option" where
  "storedJob n jobs = find (\<lambda>r. rjName r = n) jobs"

definition putJob :: "RestoreJob \<Rightarrow> RestoreJob list \<Rightarrow> RestoreJob list" where
  "putJob rj jobs = map (\<lambda>r. if rjName r = rjName rj then rj else r) jobs"

definition markRestoreJobFailedReason ::
    "restoreEnv \<Rightarrow> string \<Rightarrow> RestoreJob \<Rightarrow> RestoreJob \<times> restore_effect list \<times> job_outcome" where
  "markRestoreJobFailedReason env reason rj =
     (if reStatusErr env then (rj, [], Failing ''update status'')
      else (rj\<lparr>rjCompletedAt := Some (reNow env), rjPhase := PhaseFailed, rjReady := Some (False, reason)\<rparr>,
            [], Finished))"

abbreviation markRestoreJobFailed ::
    "restoreEnv \<Rightarrow> RestoreJob \<Rightarrow> RestoreJob \<times> restore_effect list \<times> job_outcome" where
  "markRestoreJobFailed env \<equiv> markRestoreJobFailedReason env ''RestoreFailed''"

definition handleRestoreProjectionError ::
    "restoreEnv \<Rightarrow> projection_error \<Rightarrow> RestoreJob \<Rightarrow> RestoreJob \<times> restore_effect list \<times> job_outcome" where
  "handleRestoreProjectionError env e rj =
     (if IsTransient e then
        (if reStatusErr env then rj else rj\<lparr>rjReady := Some (False, ''CredentialsProjectionPending'')\<rparr>,
         [], RequeueAfter CredentialsProjectionRequeue)
      else markRestoreJobFailed env rj)"

definition cleanupOnDelete :: "Backup fetched \<Rightarrow> restore_effect list" where
  "cleanupOnDelete backup =
     (case backup of
        Found b \<Rightarrow>
          if arKind (bkStrategyRef b) = VeleroStrategyKind then [ReapVelero True]
          else if arKind (bkStrategyRef b) \<in> set supportedBackupStrategyKinds then []
          else [ReapStrayVelero]
      | _ \<Rightarrow> [ReapStrayVelero])"

text \<open>The projection and the driver, for a job that may run.\<close>

definition runRestore ::
    "codecLib \<Rightarrow> BackupCredentialsConfig \<Rightarrow> (string \<Rightarrow> restoreDriver) \<Rightarrow> restoreEnv \<Rightarrow> restoreState \<Rightarrow>
     RestoreJob \<Rightarrow> Backup \<Rightarrow> restoreState \<times> restore_effect list \<times> job_outcome" where
  "runRestore lib cfg drivers env st rj backup =
     (let (secret, err) = ProjectBackupCredentials lib cfg
            \<lparr>ceSource = reSource env, ceTarget = rsSecret st, ceWriteErr = reSecretErr env\<rparr>;
          (rj', effs, out) =
            (case err of
               Some e \<Rightarrow> handleRestoreProjectionError env e rj
             | None \<Rightarrow> drivers (arKind (bkStrategyRef backup)) rj backup)
      in (st\<lparr>rsJobs := putJob rj' (rsJobs st), rsSecret := secret\<rparr>, effs, out))"

definition storeJob ::
    "restoreState \<Rightarrow> RestoreJob \<times> restore_effect list \<times> job_outcome \<Rightarrow> restoreState \<times> restore_effect list \<times> job_outcome" where
  "storeJob st r = (st\<lparr>rsJobs := putJob (fst r) (rsJobs st)\<rparr>, snd r)"

definition reconcileRestore ::
    "codecLib \<Rightarrow> BackupCredentialsConfig \<Rightarrow> (string \<Rightarrow> restoreDriver) \<Rightarrow> string \<Rightarrow> restoreEnv \<Rightarrow> restoreState \<Rightarrow>
     RestoreJob \<Rightarrow> restoreState \<times> restore_effect list \<times> job_outcome" where
  "reconcileRestore lib cfg drivers ns env st rj =
     (case readBackup env st (rjBackupRef rj) of
        Found backup \<Rightarrow>
          if arGroup (bkStrategyRef backup) \<noteq> Some strategyGroup then storeJob st (markRestoreJobFailed env rj)
          else if arKind (bkStrategyRef backup) \<notin> set supportedBackupStrategyKinds
            then storeJob st (markRestoreJobFailed env rj)
          else if restoreJobStarted rj then runRestore lib cfg drivers env st rj backup
          else
            (case restoreAhead (readBackup env st) ns
                (case reListErr env of Some e \<Rightarrow> Inl e | None \<Rightarrow> Inr (rsJobs st)) rj of
               Inl e \<Rightarrow> (st, [], Failing e)
             | Inr ahead \<Rightarrow>
                 if ahead \<noteq> [] then storeJob st (markRestoreJobFailedReason env ''ConcurrentRestore'' rj)
                 else runRestore lib cfg drivers env st rj backup)
      | _ \<Rightarrow> storeJob st (markRestoreJobFailed env rj))"

definition finishDeletion ::
    "restoreEnv \<Rightarrow> restoreState \<Rightarrow> RestoreJob \<Rightarrow> restoreState \<times> restore_effect list \<times> job_outcome" where
  "finishDeletion env st rj =
     (if restoreJobFinalizer \<notin> set (rjFinalizers rj) then (st, [], Finished)
      else
        let effs = cleanupOnDelete (readBackup env st (rjBackupRef rj));
            rj' = rj\<lparr>rjFinalizers := filter (\<lambda>f. f \<noteq> restoreJobFinalizer) (rjFinalizers rj)\<rparr> in
        if reUpdateErr env \<or> storedJob (rjName rj) (rsJobs st) \<noteq> Some rj then (st, effs, Failing ''update'')
        else (st\<lparr>rsJobs := (if rjFinalizers rj' = [] then filter (\<lambda>r. rjName r \<noteq> rjName rj) (rsJobs st)
                             else putJob rj' (rsJobs st))\<rparr>, effs, Finished))"

definition ensureRestoreFinalizer ::
    "restoreEnv \<Rightarrow> restoreState \<Rightarrow> RestoreJob \<Rightarrow> (restoreState \<times> RestoreJob) option" where
  "ensureRestoreFinalizer env st rj =
     (if restoreJobFinalizer \<in> set (rjFinalizers rj) then Some (st, rj)
      else if reUpdateErr env \<or> storedJob (rjName rj) (rsJobs st) \<noteq> Some rj then None
      else
        let rj' = rj\<lparr>rjFinalizers := rjFinalizers rj @ [restoreJobFinalizer]\<rparr> in
        Some (st\<lparr>rsJobs := putJob rj' (rsJobs st)\<rparr>, rj'))"

definition RestoreReconcile ::
    "codecLib \<Rightarrow> BackupCredentialsConfig \<Rightarrow> (string \<Rightarrow> restoreDriver) \<Rightarrow> string \<Rightarrow> restoreEnv \<Rightarrow> string \<Rightarrow>
     restoreState \<Rightarrow> restoreState \<times> restore_effect list \<times> job_outcome" where
  "RestoreReconcile lib cfg drivers ns env name st =
     (case reCached env of
        Missing \<Rightarrow> (st, [], Finished)
      | FetchError e \<Rightarrow> (st, [], Failing e)
      | Found cached \<Rightarrow>
          if rjDeleting cached then finishDeletion env st cached
          else
            (case ensureRestoreFinalizer env st cached of
               None \<Rightarrow> (st, [], Failing ''update'')
             | Some (st1, rj) \<Rightarrow>
                 if terminal (rjPhase rj) then (st1, [], Finished)
                 else
                   (case reRereadErr env of
                      Some e \<Rightarrow> (st1, [], Failing e)
                    | None \<Rightarrow>
                        (case storedJob name (rsJobs st1) of
                           None \<Rightarrow> (st1, [], Finished)
                         | Some live \<Rightarrow>
                             if terminal (rjPhase live) then (st1, [], Finished)
                             else reconcileRestore lib cfg drivers ns env st1 live))))"

subsection \<open>The driver of the Job strategy\<close>

record jobCondition =
  jcType :: string
  jcTrue :: bool
  jcMessage :: string

fun jobConditionState :: "jobCondition list \<Rightarrow> string" where
  "jobConditionState [] = []"
| "jobConditionState (c # cs) =
     (if jcTrue c \<and> (jcType c = ''Complete'' \<or> jcType c = ''Failed'') then jcType c else jobConditionState cs)"

fun jobFailureMessage :: "jobCondition list \<Rightarrow> string" where
  "jobFailureMessage [] = []"
| "jobFailureMessage (c # cs) = (if jcType c = ''Failed'' \<and> jcTrue c then jcMessage c else jobFailureMessage cs)"

datatype create_job = JobCreated | JobExists "jobCondition list fetched" | JobCreateError string

record jobEnv =
  jeFresh :: "RestoreJob fetched" \<comment> \<open>the cached copy read before \<open>StartedAt\<close> is written\<close>
  jePatchErr :: "string option"
  jeStrategy :: "string \<Rightarrow> string fetched" \<comment> \<open>the pod template of a Job strategy\<close>
  jeApp :: "AppRef \<Rightarrow> string fetched" \<comment> \<open>the application; \<open>Missing\<close> also for an unknown kind\<close>
  jeRender :: "string \<Rightarrow> string \<Rightarrow> string \<Rightarrow> string \<Rightarrow> (string \<times> string) list \<Rightarrow> Backup option \<Rightarrow> string option"
  jeJob :: "string \<Rightarrow> jobCondition list fetched"
  jeCreate :: create_job

definition jobStrategyPollInterval :: int where "jobStrategyPollInterval = 5"
definition jobStrategyParamPrefix :: string where
  "jobStrategyParamPrefix = ''job.strategy.backups.cozystack.io/parameter/''"

definition jobStrategyParameters :: "Backup \<Rightarrow> (string \<times> string) list" where
  "jobStrategyParameters b =
     map (\<lambda>(k, v). (trimPrefix k jobStrategyParamPrefix, v))
       (filter (\<lambda>(k, v). prefix jobStrategyParamPrefix k \<and> trimPrefix k jobStrategyParamPrefix \<noteq> [])
         (bkDriverMetadata b))"

definition jobNameForRestoreJob :: "RestoreJob \<Rightarrow> string" where
  "jobNameForRestoreJob rj = rjName rj @ ''-restore''"

definition jobRestoreTarget :: "RestoreJob \<Rightarrow> Backup \<Rightarrow> AppRef" where
  "jobRestoreTarget rj backup =
     (let src = bkApplicationRef backup in
      case rjTargetRef rj of
        None \<Rightarrow> \<lparr>arGroup = Some (ptrString (arGroup src)), arKind = arKind src, arName = arName src\<rparr>
      | Some t \<Rightarrow>
          \<lparr>arGroup = Some (case arGroup t of Some g \<Rightarrow> g | None \<Rightarrow> ptrString (arGroup src)),
           arKind = (if arKind t \<noteq> [] then arKind t else arKind src),
           arName = (if arName t \<noteq> [] then arName t else arName src)\<rparr>)"

definition ensureJobStrategyRestoreJob ::
    "jobEnv \<Rightarrow> string \<Rightarrow> string \<Rightarrow> string \<Rightarrow> restore_effect list \<times> (string + jobCondition list)" where
  "ensureJobStrategyRestoreJob je name mode pod =
     (case jeJob je name of
        Found conds \<Rightarrow> ([], Inr conds)
      | FetchError e \<Rightarrow> ([], Inl e)
      | Missing \<Rightarrow>
          (case jeCreate je of
             JobCreated \<Rightarrow> ([CreateBatchJob name mode pod], Inr [])
           | JobExists (Found conds) \<Rightarrow> ([], Inr conds)
           | JobExists Missing \<Rightarrow> ([], Inl ''not found'')
           | JobExists (FetchError e) \<Rightarrow> ([], Inl e)
           | JobCreateError e \<Rightarrow> ([], Inl e)))"

definition finishRestore :: "restoreEnv \<Rightarrow> RestoreJob \<Rightarrow> RestoreJob \<Rightarrow> RestoreJob \<times> job_outcome" where
  "finishRestore env live rj =
     (if reStatusErr env then (live, Failing ''update status'')
      else (rj\<lparr>rjCompletedAt := Some (reNow env), rjPhase := PhaseSucceeded,
              rjReady := Some (True, ''RestoreCompleted'')\<rparr>, Finished))"

text \<open>The second half, for a started job; \<open>live\<close> is the stored job and \<open>rj\<close> the copy in memory.\<close>

definition runJobRestore ::
    "jobEnv \<Rightarrow> restoreEnv \<Rightarrow> RestoreJob \<Rightarrow> RestoreJob \<Rightarrow> Backup \<Rightarrow> RestoreJob \<times> restore_effect list \<times> job_outcome" where
  "runJobRestore je env live rj backup =
     (let target = jobRestoreTarget rj backup;
          failed = (\<lambda>effs. if reStatusErr env then (live, effs, Failing ''update status'')
            else (rj\<lparr>rjCompletedAt := Some (reNow env), rjPhase := PhaseFailed,
                     rjReady := Some (False, ''RestoreFailed'')\<rparr>, effs, Finished))
      in case jeStrategy je (arName (bkStrategyRef backup)) of
        Missing \<Rightarrow> failed []
      | FetchError e \<Rightarrow> (live, [], Failing e)
      | Found tmpl \<Rightarrow>
     (case jeApp je target of
        Missing \<Rightarrow> failed []
      | FetchError e \<Rightarrow> (live, [], Failing e)
      | Found app \<Rightarrow>
     (case jeRender je tmpl app (arName target) ''restore'' (jobStrategyParameters backup) (Some backup) of
        None \<Rightarrow> failed []
      | Some pod \<Rightarrow>
          (let (effs, r) = ensureJobStrategyRestoreJob je (jobNameForRestoreJob rj) ''restore'' pod in
           case r of
             Inl e \<Rightarrow> failed effs
           | Inr conds \<Rightarrow>
               if jobConditionState conds = ''Complete''
                 then (let (rj', out) = finishRestore env live rj in (rj', effs, out))
               else if jobConditionState conds = ''Failed'' then failed effs
               else (live, effs, RequeueAfter jobStrategyPollInterval)))))"

definition reconcileJobRestore ::
    "jobEnv \<Rightarrow> restoreEnv \<Rightarrow> restoreDriver" where
  "reconcileJobRestore je env rj backup =
     (if terminal (rjPhase rj) then (rj, [], Finished)
      else if rjStartedAt rj \<noteq> None then runJobRestore je env rj rj backup
      else case jeFresh je of
        Missing \<Rightarrow> (rj, [], Failing ''not found'')
      | FetchError e \<Rightarrow> (rj, [], Failing e)
      | Found fresh \<Rightarrow>
          if rjStartedAt fresh \<noteq> None
          then runJobRestore je env rj (rj\<lparr>rjStartedAt := rjStartedAt fresh, rjPhase := rjPhase fresh\<rparr>) backup
          else case jePatchErr je of
                 Some e \<Rightarrow> (rj, [], Failing e)
               | None \<Rightarrow>
                   (rj\<lparr>rjStartedAt := Some (reNow env),
                       rjPhase := (if rjPhase fresh = PhaseRunning then rjPhase rj else PhaseRunning)\<rparr>,
                    [], RequeueAfter jobStrategyPollInterval))"

subsection \<open>The contract of a driver\<close>

text \<open>A driver writes only the status of its own job.\<close>

definition sameIdentity :: "RestoreJob \<Rightarrow> RestoreJob \<Rightarrow> bool" where
  "sameIdentity a b \<longleftrightarrow> sameRequest a b \<and> rjCreated a = rjCreated b \<and> rjDeleting a = rjDeleting b \<and>
     rjFinalizers a = rjFinalizers b"

definition drivers_ok :: "(string \<Rightarrow> restoreDriver) \<Rightarrow> bool" where
  "drivers_ok drivers \<longleftrightarrow> (\<forall>kind rj backup. sameIdentity (fst (drivers kind rj backup)) rj)"

lemma sameIdentity_simps [simp]:
  "sameIdentity a a" "sameIdentity (a\<lparr>rjPhase := p\<rparr>) b = sameIdentity a b"
  "sameIdentity (a\<lparr>rjStartedAt := s\<rparr>) b = sameIdentity a b"
  "sameIdentity (a\<lparr>rjCompletedAt := s\<rparr>) b = sameIdentity a b"
  "sameIdentity (a\<lparr>rjReady := y\<rparr>) b = sameIdentity a b"
  by (simp_all add: sameIdentity_def sameRequest_def)

lemma runJobRestore_identity: "sameIdentity rj live \<Longrightarrow> sameIdentity (fst (runJobRestore je env live rj backup)) live"
  by (auto simp: runJobRestore_def finishRestore_def Let_def split: fetched.splits option.splits sum.splits prod.splits)

lemma reconcileJobRestore_identity: "sameIdentity (fst (reconcileJobRestore je env rj backup)) rj"
  by (auto simp: reconcileJobRestore_def intro!: runJobRestore_identity split: fetched.splits option.splits)

definition restoreDrivers ::
    "(string \<Rightarrow> restoreDriver) \<Rightarrow> jobEnv \<Rightarrow> restoreEnv \<Rightarrow> string \<Rightarrow> restoreDriver" where
  "restoreDrivers others je env kind =
     (if kind = JobStrategyKind then reconcileJobRestore je env else others kind)"

lemma restoreDrivers_ok: "drivers_ok others \<Longrightarrow> drivers_ok (restoreDrivers others je env)"
  by (simp add: drivers_ok_def restoreDrivers_def reconcileJobRestore_identity)

text \<open>For a RestoreJob whose target, if it has one, names a kind and a name, the application the lock
  guards is the one the driver of the Job strategy restores into.\<close>

lemma restoreJobTarget_driver:
  assumes "getBackup (rjBackupRef rj) = Found backup" "arKind (bkStrategyRef backup) = JobStrategyKind"
    and "\<And>t. rjTargetRef rj = Some t \<Longrightarrow> arKind t \<noteq> [] \<and> arName t \<noteq> []"
  shows "restoreJobTarget getBackup ns rj = Inr (Some (NormalizeApplicationRef (jobRestoreTarget rj backup)))"
proof (cases "rjTargetRef rj")
  case None
  then show ?thesis using assms(1,2) by (cases "bkApplicationRef backup")
    (auto simp: restoreJobTarget_def jobRestoreTarget_def JobStrategyKind_def VeleroStrategyKind_def
      NormalizeApplicationRef_def ptrString_def split: option.splits)
next
  case (Some t)
  then show ?thesis using assms(1,2) assms(3) [OF Some] by (cases "bkApplicationRef backup")
    (auto simp: restoreJobTarget_def jobRestoreTarget_def JobStrategyKind_def VeleroStrategyKind_def
      NormalizeApplicationRef_def ptrString_def split: option.splits)
qed

subsection \<open>Exclusion of concurrent restores\<close>

definition isRunning :: "RestoreJob \<Rightarrow> bool" where
  "isRunning rj \<longleftrightarrow> \<not> terminal (rjPhase rj) \<and> \<not> rjDeleting rj \<and> restoreJobStarted rj"

definition targetOf :: "string \<Rightarrow> restoreState \<Rightarrow> RestoreJob \<Rightarrow> AppRef option" where
  "targetOf ns st rj =
     (case restoreJobTarget (cachedBackup (rsBackups st)) ns rj of Inr t \<Rightarrow> t | Inl e \<Rightarrow> None)"

definition restore_inv :: "string \<Rightarrow> restoreState \<Rightarrow> bool" where
  "restore_inv ns st \<longleftrightarrow>
     distinct (map rjName (rsJobs st)) \<and> (\<forall>rj \<in> set (rsJobs st). rjName rj \<noteq> []) \<and>
     (\<forall>rj \<in> set (rsJobs st). isRunning rj \<longrightarrow> rsBackups st (rjBackupRef rj) \<noteq> None) \<and>
     (\<forall>a \<in> set (rsJobs st). \<forall>b \<in> set (rsJobs st). isRunning a \<and> isRunning b \<and>
        targetOf ns st a \<noteq> None \<and> targetOf ns st a = targetOf ns st b \<longrightarrow> a = b)"

lemma set_putJob: "distinct (map rjName jobs) \<Longrightarrow> live \<in> set jobs \<Longrightarrow> rjName rj = rjName live \<Longrightarrow>
   set (putJob rj jobs) = insert rj (set jobs - {live})"
proof -
  assume a: "distinct (map rjName jobs)" "live \<in> set jobs" "rjName rj = rjName live"
  have inj: "r = live \<longleftrightarrow> rjName r = rjName live" if "r \<in> set jobs" for r
    using a(1,2) that by (metis distinct_map inj_on_def)
  show ?thesis unfolding putJob_def using a(2,3) inj by (auto simp: image_iff)
qed

lemma putJob_names: "map rjName (putJob rj jobs) = map rjName jobs"
  by (induction jobs) (auto simp: putJob_def)

lemma putJob_self: "distinct (map rjName jobs) \<Longrightarrow> live \<in> set jobs \<Longrightarrow> putJob live jobs = jobs"
proof -
  assume a: "distinct (map rjName jobs)" "live \<in> set jobs"
  then have "(if rjName r = rjName live then live else r) = r" if "r \<in> set jobs" for r
    using that by (metis distinct_map inj_on_def)
  then show ?thesis unfolding putJob_def by (simp add: map_idI)
qed

lemma storedJob_Some: "storedJob n jobs = Some rj \<Longrightarrow> rj \<in> set jobs \<and> rjName rj = n"
  by (auto simp: storedJob_def find_Some_iff in_set_conv_nth)

text \<open>Replacing the status of one job keeps the invariant if that job does not run, or if its
  Backup is known and no other running job has its target.\<close>

lemma put_inv:
  assumes inv: "restore_inv ns st" and live: "live \<in> set (rsJobs st)" and same: "sameRequest rj live"
    and new: "isRunning rj \<Longrightarrow> rsBackups st (rjBackupRef live) \<noteq> None \<and>
      (\<forall>b \<in> set (rsJobs st). isRunning b \<and> b \<noteq> live \<and> targetOf ns st live \<noteq> None \<longrightarrow>
         targetOf ns st b \<noteq> targetOf ns st live)"
  shows "restore_inv ns (st\<lparr>rsJobs := putJob rj (rsJobs st), rsSecret := s\<rparr>)"
proof -
  let ?st = "st\<lparr>rsJobs := putJob rj (rsJobs st), rsSecret := s\<rparr>"
  have nm: "rjName rj = rjName live" and bk: "rjBackupRef rj = rjBackupRef live"
    using same by (auto simp: sameRequest_def)
  have d: "distinct (map rjName (rsJobs st))" using inv by (simp add: restore_inv_def)
  note jobs = set_putJob [OF d live nm]
  have t: "targetOf ns ?st r = targetOf ns st r" for r by (simp add: targetOf_def)
  have tl: "targetOf ns st rj = targetOf ns st live"
    using restoreJobTarget_request [OF same] by (simp add: targetOf_def)
  have "a = b" if "a \<in> insert rj (set (rsJobs st) - {live})" "b \<in> insert rj (set (rsJobs st) - {live})"
    "isRunning a" "isRunning b" "targetOf ns st a \<noteq> None" "targetOf ns st a = targetOf ns st b" for a b
  proof -
    have one: "c = rj" if c: "c \<in> insert rj (set (rsJobs st) - {live})" "isRunning c" "isRunning rj"
      "targetOf ns st c \<noteq> None" "targetOf ns st c = targetOf ns st rj" for c
      using new [OF c(3)] c tl by (metis Diff_iff insert_iff singletonI)
    show ?thesis
    proof (cases "a = rj \<or> b = rj")
      case True
      then show ?thesis using one [of a] one [of b] that by metis
    next
      case False
      then have "a \<in> set (rsJobs st)" "b \<in> set (rsJobs st)" using that(1,2) by auto
      then show ?thesis using inv that(3-6) unfolding restore_inv_def by blast
    qed
  qed
  moreover have "\<forall>r \<in> insert rj (set (rsJobs st) - {live}). rjName r \<noteq> [] \<and>
      (isRunning r \<longrightarrow> rsBackups st (rjBackupRef r) \<noteq> None)"
    using inv live nm bk new unfolding restore_inv_def by auto
  moreover have "set (rsJobs ?st) = insert rj (set (rsJobs st) - {live})" by (simp add: jobs)
  moreover have "distinct (map rjName (rsJobs ?st))" "rsBackups ?st = rsBackups st"
    using d by (simp_all add: putJob_names)
  ultimately show ?thesis unfolding restore_inv_def t by metis
qed

lemma readBackup_target:
  "restoreJobTarget (readBackup env st) ns rj = Inr t \<Longrightarrow> targetOf ns st rj = t"
  by (auto simp: restoreJobTarget_def readBackup_def targetOf_def split: fetched.splits if_splits)

lemma restoreAhead_free:
  assumes ahead: "restoreAhead (readBackup env st) ns (Inr (rsJobs st)) rj = Inr []"
    and names: "\<And>r. r \<in> set (rsJobs st) \<Longrightarrow> rjName r \<noteq> []"
    and b: "b \<in> set (rsJobs st)" "rjName b \<noteq> rjName rj" "isRunning b" "\<not> restoreJobStarted rj"
    and t: "targetOf ns st rj \<noteq> None"
    and found: "readBackup env st (rjBackupRef rj) = Found backup"
  shows "targetOf ns st b \<noteq> targetOf ns st rj"
proof -
  obtain t where tr: "restoreJobTarget (readBackup env st) ns rj = Inr (Some t)"
  proof -
    have "\<exists>x. restoreJobTarget (readBackup env st) ns rj = Inr x"
      using found by (simp add: restoreJobTarget_def Let_def)
    then obtain x where "restoreJobTarget (readBackup env st) ns rj = Inr x" ..
    then show ?thesis using that t readBackup_target by (cases x) fastforce+
  qed
  have goes: "restoreGoesFirst b rj" using b(3,4) by (simp add: isRunning_def restoreGoesFirst_def)
  obtain out where "aheadLoop (readBackup env st) ns rj t (rsJobs st) None = Inr out"
    using ahead tr by (auto simp: restoreAhead_def split: sum.splits option.splits)
  then obtain u where u: "restoreJobTarget (readBackup env st) ns b = Inr u"
    using aheadLoop_reads b goes by (metis isRunning_def)
  have "\<not> blocks (readBackup env st) ns rj t b"
    using restoreAhead_Inr(1) [OF ahead names tr] b(1) by simp
  then have "\<not> (\<exists>v. u = Some v \<and> sameApplication v t)"
    using b goes u by (auto simp: blocks_def isRunning_def)
  then have "u \<noteq> Some t" by (auto simp: sameApplication_def)
  then show ?thesis using readBackup_target [OF u] readBackup_target [OF tr] by simp
qed

lemma running_inv:
  assumes "restore_inv ns st" "live \<in> set (rsJobs st)" "isRunning live"
  shows "rsBackups st (rjBackupRef live) \<noteq> None \<and>
    (\<forall>b \<in> set (rsJobs st). isRunning b \<and> b \<noteq> live \<and> targetOf ns st live \<noteq> None \<longrightarrow>
       targetOf ns st b \<noteq> targetOf ns st live)"
  using assms unfolding restore_inv_def by metis

text \<open>A write that keeps the running state of a job, or stops it, keeps the invariant.\<close>

lemma put_inv_kept:
  assumes "restore_inv ns st" "live \<in> set (rsJobs st)" "sameRequest rj live" "isRunning rj \<Longrightarrow> isRunning live"
  shows "restore_inv ns (st\<lparr>rsJobs := putJob rj (rsJobs st), rsSecret := s\<rparr>)"
  by (rule put_inv [OF assms(1-3)]) (use running_inv [OF assms(1,2)] assms(4) in blast)

lemma put_inv_kept':
  assumes "restore_inv ns st" "live \<in> set (rsJobs st)" "sameRequest rj live" "isRunning rj \<Longrightarrow> isRunning live"
  shows "restore_inv ns (st\<lparr>rsJobs := putJob rj (rsJobs st)\<rparr>)"
  using put_inv_kept [OF assms, of "rsSecret st"] by simp

lemma filter_inv: "restore_inv ns st \<Longrightarrow> restore_inv ns (st\<lparr>rsJobs := filter P (rsJobs st)\<rparr>)"
proof -
  assume inv: "restore_inv ns st"
  have "targetOf ns (st\<lparr>rsJobs := filter P (rsJobs st)\<rparr>) r = targetOf ns st r" for r by (simp add: targetOf_def)
  then show ?thesis using inv unfolding restore_inv_def
    by (simp add: distinct_map_filter) (metis option.distinct(1))
qed

lemma sameRequest_simps [simp]:
  "sameRequest a a" "sameRequest (a\<lparr>rjPhase := p\<rparr>) b = sameRequest a b"
  "sameRequest (a\<lparr>rjFinalizers := fs\<rparr>) b = sameRequest a b" "sameRequest (a\<lparr>rjDeleting := d\<rparr>) b = sameRequest a b"
  "sameRequest (a\<lparr>rjCompletedAt := s\<rparr>) b = sameRequest a b" "sameRequest (a\<lparr>rjReady := y\<rparr>) b = sameRequest a b"
  by (simp_all add: sameRequest_def)

lemma markFailed_kept:
  "sameRequest (fst (markRestoreJobFailedReason env reason rj)) rj"
  "isRunning (fst (markRestoreJobFailedReason env reason rj)) \<Longrightarrow> isRunning rj"
  by (auto simp: markRestoreJobFailedReason_def isRunning_def terminal_def split: if_splits)

lemma handleProjection_kept:
  "sameRequest (fst (handleRestoreProjectionError env e rj)) rj"
  "isRunning (fst (handleRestoreProjectionError env e rj)) \<Longrightarrow> isRunning rj"
  using markFailed_kept [of env _ rj]
  by (auto simp: handleRestoreProjectionError_def isRunning_def restoreJobStarted_def split: if_splits)

lemma finishDeletion_inv: "restore_inv ns st \<Longrightarrow> restore_inv ns (fst (finishDeletion env st rj))"
  by (auto simp: finishDeletion_def Let_def isRunning_def restoreJobStarted_def
      intro!: filter_inv put_inv_kept' [where live = rj] dest: storedJob_Some)

lemma ensureRestoreFinalizer_inv:
  "ensureRestoreFinalizer env st rj = Some (st1, rj1) \<Longrightarrow> restore_inv ns st \<Longrightarrow> restore_inv ns st1"
  by (auto simp: ensureRestoreFinalizer_def Let_def isRunning_def restoreJobStarted_def split: if_splits
      intro!: put_inv_kept' [where live = rj] dest: storedJob_Some)

locale restore_drivers =
  fixes drivers :: "string \<Rightarrow> restoreDriver"
  assumes own_status: "sameIdentity (fst (drivers kind rj backup)) rj"
begin

lemma runRestore_inv:
  assumes inv: "restore_inv ns st" and rj: "rj \<in> set (rsJobs st)" "\<not> terminal (rjPhase rj)"
    and bk: "rsBackups st (rjBackupRef rj) \<noteq> None"
    and free: "\<not> restoreJobStarted rj \<Longrightarrow> \<forall>b \<in> set (rsJobs st). isRunning b \<and> b \<noteq> rj \<and>
      targetOf ns st rj \<noteq> None \<longrightarrow> targetOf ns st b \<noteq> targetOf ns st rj"
  shows "restore_inv ns (fst (runRestore lib cfg drivers env st rj backup))"
proof -
  obtain secret err where p: "ProjectBackupCredentials lib cfg
      \<lparr>ceSource = reSource env, ceTarget = rsSecret st, ceWriteErr = reSecretErr env\<rparr> = (secret, err)" by fastforce
  define res where "res = (case err of Some e \<Rightarrow> handleRestoreProjectionError env e rj
    | None \<Rightarrow> drivers (arKind (bkStrategyRef backup)) rj backup)"
  have eq: "fst (runRestore lib cfg drivers env st rj backup) =
      st\<lparr>rsJobs := putJob (fst res) (rsJobs st), rsSecret := secret\<rparr>"
    by (simp add: runRestore_def p res_def split: prod.split)
  show ?thesis
  proof (cases err)
    case (Some e)
    then show ?thesis unfolding eq using inv rj(1) handleProjection_kept [of env e rj]
      by (intro put_inv_kept) (auto simp: res_def)
  next
    case None
    have id: "sameIdentity (fst res) rj" using own_status None by (simp add: res_def)
    show ?thesis unfolding eq
    proof (rule put_inv [OF inv rj(1)])
      show "sameRequest (fst res) rj" using id by (simp add: sameIdentity_def)
      assume "isRunning (fst res)"
      then have "\<not> rjDeleting rj" using id by (simp add: isRunning_def sameIdentity_def)
      then show "rsBackups st (rjBackupRef rj) \<noteq> None \<and> (\<forall>b \<in> set (rsJobs st). isRunning b \<and> b \<noteq> rj \<and>
          targetOf ns st rj \<noteq> None \<longrightarrow> targetOf ns st b \<noteq> targetOf ns st rj)"
        using running_inv [OF inv rj(1)] free bk rj(2) by (cases "restoreJobStarted rj") (auto simp: isRunning_def)
    qed
  qed
qed

lemma reconcileRestore_inv:
  assumes inv: "restore_inv ns st" and rj: "rj \<in> set (rsJobs st)" "\<not> terminal (rjPhase rj)"
  shows "restore_inv ns (fst (reconcileRestore lib cfg drivers ns env st rj))"
proof -
  have fail: "restore_inv ns (st\<lparr>rsJobs := putJob (fst (markRestoreJobFailedReason env reason rj)) (rsJobs st)\<rparr>)" for reason
    using put_inv_kept' [OF inv rj(1) markFailed_kept] .
  show ?thesis
  proof (cases "readBackup env st (rjBackupRef rj)")
    case (Found backup)
    have bk: "rsBackups st (rjBackupRef rj) \<noteq> None"
      using Found by (auto simp: readBackup_def cachedBackup_def split: if_splits option.splits)
    have names: "\<And>r. r \<in> set (rsJobs st) \<Longrightarrow> rjName r \<noteq> []"
      and uniq: "\<And>b. b \<in> set (rsJobs st) \<Longrightarrow> b \<noteq> rj \<Longrightarrow> rjName b \<noteq> rjName rj"
      using inv rj(1) by (auto simp: restore_inv_def distinct_map inj_on_def)
    have free: "\<forall>b \<in> set (rsJobs st). isRunning b \<and> b \<noteq> rj \<and> targetOf ns st rj \<noteq> None \<longrightarrow>
        targetOf ns st b \<noteq> targetOf ns st rj"
      if ns: "\<not> restoreJobStarted rj" and ahead: "restoreAhead (readBackup env st) ns
        (case reListErr env of Some e \<Rightarrow> Inl e | None \<Rightarrow> Inr (rsJobs st)) rj = Inr []"
    proof (cases "reListErr env")
      case None
      then show ?thesis using restoreAhead_free [OF _ names _ uniq _ ns _ Found] ahead by auto
    next
      case (Some e)
      then have "restoreJobTarget (readBackup env st) ns rj = Inr None"
        using ahead by (auto simp: restoreAhead_def split: sum.splits option.splits)
      then show ?thesis using readBackup_target by fastforce
    qed
    note run = runRestore_inv [OF inv rj bk, of lib cfg env backup]
    show ?thesis
    proof (cases "restoreJobStarted rj")
      case True
      then show ?thesis using Found fail run by (simp add: reconcileRestore_def storeJob_def)
    next
      case False
      then show ?thesis using Found fail inv run free [OF False]
        by (simp add: reconcileRestore_def storeJob_def split: sum.split)
    qed
  qed (simp_all add: reconcileRestore_def storeJob_def fail)
qed

lemma RestoreReconcile_inv:
  assumes "restore_inv ns st"
  shows "restore_inv ns (fst (RestoreReconcile lib cfg drivers ns env name st))"
proof (cases "reCached env")
  case (Found c)
  show ?thesis
  proof (cases "rjDeleting c")
    case True
    then show ?thesis using Found finishDeletion_inv [OF assms] by (simp add: RestoreReconcile_def)
  next
    case False
    then show ?thesis
      using Found assms reconcileRestore_inv ensureRestoreFinalizer_inv [of env st c _ _ ns]
      by (auto simp: RestoreReconcile_def dest: storedJob_Some split: option.splits prod.splits)
  qed
qed (use assms in \<open>simp_all add: RestoreReconcile_def\<close>)

end

interpretation job_restore: restore_drivers "\<lambda>kind. reconcileJobRestore je env" for je env
  by unfold_locales (rule reconcileJobRestore_identity)

subsection \<open>Interleavings\<close>

text \<open>The passes of the controller, which has one worker, interleaved with what others do: create
  and delete RestoreJobs, write the credentials, and let the cache learn of a Backup. The cached
  copy a pass starts from is any job of that name.\<close>

inductive restore_step ::
    "codecLib \<Rightarrow> BackupCredentialsConfig \<Rightarrow> string \<Rightarrow> restoreState \<Rightarrow> restoreState \<Rightarrow> bool"
  for lib cfg ns where
  pass: "drivers_ok others \<Longrightarrow> (\<And>c. reCached env = Found c \<Longrightarrow> rjName c = name) \<Longrightarrow>
    restore_step lib cfg ns st (fst (RestoreReconcile lib cfg (restoreDrivers others je env) ns env name st))"
| created: "rjName rj \<notin> rjName ` set (rsJobs st) \<Longrightarrow> rjName rj \<noteq> [] \<Longrightarrow> rjPhase rj = PhaseEmpty \<Longrightarrow>
    rjStartedAt rj = None \<Longrightarrow> restore_step lib cfg ns st (st\<lparr>rsJobs := rsJobs st @ [rj]\<rparr>)"
| deleted: "rj \<in> set (rsJobs st) \<Longrightarrow> rjFinalizers rj \<noteq> [] \<Longrightarrow>
    restore_step lib cfg ns st (st\<lparr>rsJobs := putJob (rj\<lparr>rjDeleting := True\<rparr>) (rsJobs st)\<rparr>)"
| removed: "rj \<in> set (rsJobs st) \<Longrightarrow> rjFinalizers rj = [] \<Longrightarrow>
    restore_step lib cfg ns st (st\<lparr>rsJobs := filter (\<lambda>r. rjName r \<noteq> rjName rj) (rsJobs st)\<rparr>)"
| learned: "rsBackups st n = None \<Longrightarrow> restore_step lib cfg ns st (st\<lparr>rsBackups := (rsBackups st)(n \<mapsto> b)\<rparr>)"
| secret: "restore_step lib cfg ns st (st\<lparr>rsSecret := s\<rparr>)"

inductive restore_reachable :: "codecLib \<Rightarrow> BackupCredentialsConfig \<Rightarrow> string \<Rightarrow> restoreState \<Rightarrow> bool"
  for lib cfg ns where
  start: "rsJobs st = [] \<Longrightarrow> restore_reachable lib cfg ns st"
| step: "restore_reachable lib cfg ns st \<Longrightarrow> restore_step lib cfg ns st st' \<Longrightarrow> restore_reachable lib cfg ns st'"

lemma learned_inv:
  assumes "restore_inv ns st" "rsBackups st n = None"
  shows "restore_inv ns (st\<lparr>rsBackups := (rsBackups st)(n \<mapsto> b)\<rparr>)"
proof -
  let ?st = "st\<lparr>rsBackups := (rsBackups st)(n \<mapsto> b)\<rparr>"
  have t: "targetOf ns ?st r = targetOf ns st r" if "r \<in> set (rsJobs st)" "isRunning r" for r
  proof -
    have "rjBackupRef r \<noteq> n" using assms that unfolding restore_inv_def by metis
    then show ?thesis by (simp add: targetOf_def restoreJobTarget_def cachedBackup_def)
  qed
  have "rsJobs ?st = rsJobs st" by simp
  moreover have "rsBackups ?st m \<noteq> None" if "rsBackups st m \<noteq> None" for m using that by simp
  ultimately show ?thesis using assms(1) t unfolding restore_inv_def by metis
qed

lemma created_inv:
  assumes "restore_inv ns st" "rjName rj \<notin> rjName ` set (rsJobs st)" "rjName rj \<noteq> []"
    "rjPhase rj = PhaseEmpty" "rjStartedAt rj = None"
  shows "restore_inv ns (st\<lparr>rsJobs := rsJobs st @ [rj]\<rparr>)"
proof -
  let ?st = "st\<lparr>rsJobs := rsJobs st @ [rj]\<rparr>"
  have nr: "\<not> isRunning rj" using assms(4,5) by (simp add: isRunning_def restoreJobStarted_def)
  have t: "targetOf ns ?st r = targetOf ns st r" for r by (simp add: targetOf_def)
  have s: "set (rsJobs ?st) = insert rj (set (rsJobs st))" "rsBackups ?st = rsBackups st"
    "distinct (map rjName (rsJobs ?st)) \<longleftrightarrow> distinct (map rjName (rsJobs st))" using assms(2) by auto
  show ?thesis unfolding restore_inv_def t s using assms(1,3) nr unfolding restore_inv_def by blast
qed

lemma restore_step_inv:
  assumes "restore_step lib cfg ns st st'" "restore_inv ns st"
  shows "restore_inv ns st'"
  using assms
proof (induction rule: restore_step.induct)
  case (pass others env name st je)
  have "restore_drivers (restoreDrivers others je env)"
    using restoreDrivers_ok [OF pass.hyps(1)] by (simp add: restore_drivers_def drivers_ok_def)
  then show ?case using pass.prems by (rule restore_drivers.RestoreReconcile_inv)
next
  case (deleted rj st)
  then show ?case by (intro put_inv_kept' [where live = rj]) (auto simp: isRunning_def)
next
  case (secret st s)
  have "targetOf ns (st\<lparr>rsSecret := s\<rparr>) = targetOf ns st" by (simp add: targetOf_def fun_eq_iff)
  moreover have "rsJobs (st\<lparr>rsSecret := s\<rparr>) = rsJobs st" "rsBackups (st\<lparr>rsSecret := s\<rparr>) = rsBackups st" by simp_all
  ultimately have "restore_inv ns (st\<lparr>rsSecret := s\<rparr>) = restore_inv ns st" by (simp only: restore_inv_def)
  then show ?case using secret by simp
qed (auto intro: created_inv filter_inv learned_inv)

lemma restore_reachable_inv: "restore_reachable lib cfg ns st \<Longrightarrow> restore_inv ns st"
proof (induction rule: restore_reachable.induct)
  case (start st)
  then show ?case by (simp add: restore_inv_def)
qed (rule restore_step_inv)

definition waits :: "string \<Rightarrow> restoreState \<Rightarrow> AppRef \<Rightarrow> RestoreJob \<Rightarrow> bool" where
  "waits ns st t rj \<longleftrightarrow>
     rj \<in> set (rsJobs st) \<and> \<not> terminal (rjPhase rj) \<and> \<not> rjDeleting rj \<and> targetOf ns st rj = Some t"

lemma cachedBackup_target: "restoreJobTarget (cachedBackup bs) ns rj = Inr (targetOf ns (st\<lparr>rsBackups := bs\<rparr>) rj)"
  by (auto simp: targetOf_def restoreJobTarget_def cachedBackup_def Let_def split: option.splits)

lemma some_restore_proceeds:
  assumes inv: "restore_inv ns st" and "waits ns st t rj"
  shows "\<exists>f. waits ns st t f \<and> restoreAhead (cachedBackup (rsBackups st)) ns (Inr (rsJobs st)) f = Inr []"
proof -
  have "finite {r. waits ns st t r}" by (rule finite_subset [of _ "set (rsJobs st)"]) (auto simp: waits_def)
  then obtain f where f: "waits ns st t f" "\<And>r. waits ns st t r \<Longrightarrow> \<not> restoreGoesFirst r f"
    using restoreGoesFirst_least [of "{r. waits ns st t r}"] assms(2) by auto
  have tgt: "restoreJobTarget (cachedBackup (rsBackups st)) ns r = Inr (targetOf ns st r)" for r
    using cachedBackup_target [of "rsBackups st" ns r st] by simp
  then have tf: "restoreJobTarget (cachedBackup (rsBackups st)) ns f = Inr (Some t)" using f(1) by (simp add: waits_def)
  obtain out where out: "aheadLoop (cachedBackup (rsBackups st)) ns f t (rsJobs st) None = Inr out"
    using aheadLoop_total [of "cachedBackup (rsBackups st)"] tgt by blast
  have "\<not> blocks (cachedBackup (rsBackups st)) ns f t other" if "other \<in> set (rsJobs st)" for other
  proof
    assume b: "blocks (cachedBackup (rsBackups st)) ns f t other"
    then obtain u where u: "targetOf ns st other = Some u" "sameApplication u t"
      unfolding blocks_def tgt by auto
    then have "u = t" using sameApplication_targets [of "cachedBackup (rsBackups st)" ns other u t]
        restoreJobTarget_normal [OF tf] tgt by simp
    then have "waits ns st t other" using b u(1) that by (simp add: waits_def blocks_def)
    then show False using f(2) b by (simp add: blocks_def)
  qed
  then have "out = None" using aheadLoop_None [OF out] by simp
  then show ?thesis using f(1) tf out by (auto simp: restoreAhead_def)
qed

subsection \<open>Properties\<close>

text \<open>C19: In every reachable state of the RestoreJobs of a namespace, however the passes of the
  controller interleave with creations and deletions of jobs, stale caches and failing calls, at
  most one RestoreJob that has started, has not ended and is not being deleted writes into an
  application. And as long as jobs wait for an application, one of them is not refused.\<close>

theorem restore_exclusion:
  assumes "restore_reachable lib cfg ns st"
  shows "(\<forall>a \<in> set (rsJobs st). \<forall>b \<in> set (rsJobs st). \<forall>t. isRunning a \<and> isRunning b \<and>
      targetOf ns st a = Some t \<and> targetOf ns st b = Some t \<longrightarrow> a = b) \<and>
    (\<forall>t rj. waits ns st t rj \<longrightarrow>
      (\<exists>f. waits ns st t f \<and> restoreAhead (cachedBackup (rsBackups st)) ns (Inr (rsJobs st)) f = Inr []))"
proof (intro conjI allI ballI impI)
  note inv = restore_reachable_inv [OF assms]
  fix a b t assume "a \<in> set (rsJobs st)" "b \<in> set (rsJobs st)"
    "isRunning a \<and> isRunning b \<and> targetOf ns st a = Some t \<and> targetOf ns st b = Some t"
  then show "a = b" using inv unfolding restore_inv_def by (metis option.distinct(1))
next
  fix t rj assume "waits ns st t rj"
  then show "\<exists>f. waits ns st t f \<and> restoreAhead (cachedBackup (rsBackups st)) ns (Inr (rsJobs st)) f = Inr []"
    by (rule some_restore_proceeds [OF restore_reachable_inv [OF assms]])
qed

definition demoBackup :: Backup where
  "demoBackup = \<lparr>bkName = ''b1'', bkApplicationRef = \<lparr>arGroup = None, arKind = ''Postgres'', arName = ''db''\<rparr>,
     bkStrategyRef = \<lparr>arGroup = Some strategyGroup, arKind = JobStrategyKind, arName = ''s''\<rparr>, bkDriverMetadata = []\<rparr>"

definition demoRestoreJob :: "string \<Rightarrow> int \<Rightarrow> RestoreJob" where
  "demoRestoreJob n created = \<lparr>rjName = n, rjCreated = created, rjDeleting = False, rjFinalizers = [], rjBackupRef = ''b1'',
     rjTargetRef = None, rjOptions = NoOptions, rjPhase = PhaseEmpty, rjStartedAt = None, rjCompletedAt = None, rjReady = None\<rparr>"

definition demoRestoreEnv :: "RestoreJob \<Rightarrow> restoreEnv" where
  "demoRestoreEnv rj = \<lparr>reCached = Found rj, reUpdateErr = False, reRereadErr = None, reBackupErr = (\<lambda>n. False), reListErr = None,
     reSource = Missing, reSecretErr = False, reStatusErr = False, reNow = 100\<rparr>"

definition demoJobEnv :: "RestoreJob \<Rightarrow> jobEnv" where
  "demoJobEnv rj = \<lparr>jeFresh = Found rj, jePatchErr = None, jeStrategy = (\<lambda>n. Missing), jeApp = (\<lambda>r. Missing),
     jeRender = (\<lambda>a b c d e f. None), jeJob = (\<lambda>n. Missing), jeCreate = JobCreated\<rparr>"

definition demoOthers :: "string \<Rightarrow> restoreDriver" where
  "demoOthers kind rj backup = (rj, [], Finished)"

definition demoNoCredentials :: BackupCredentialsConfig where
  "demoNoCredentials = \<lparr>bcSourceNamespace = [], bcSourceSecretName = [], bcTargetSecretName = [], bcEndpoint = [], bcRegion = [],
     bcForcePathStyle = []\<rparr>"

definition demoRestoreState :: restoreState where
  "demoRestoreState = \<lparr>rsJobs = [demoRestoreJob ''r1'' 5, demoRestoreJob ''r2'' 4], rsBackups = [''b1'' \<mapsto> demoBackup], rsSecret = Missing\<rparr>"

definition demoPass :: "RestoreJob \<Rightarrow> restoreState \<Rightarrow> restoreState" where
  "demoPass rj st = fst (RestoreReconcile demoCodec demoNoCredentials
     (restoreDrivers demoOthers (demoJobEnv rj) (demoRestoreEnv rj)) ''ns'' (demoRestoreEnv rj) (rjName rj) st)"

lemmas demo_evals = demoPass_def RestoreReconcile_def demoRestoreEnv_def demoRestoreState_def demoRestoreJob_def
  demoBackup_def demoJobEnv_def demoNoCredentials_def ensureRestoreFinalizer_def storedJob_def putJob_def
  reconcileRestore_def readBackup_def cachedBackup_def strategyGroup_def supportedBackupStrategyKinds_def
  JobStrategyKind_def restoreJobStarted_def restoreAhead_def restoreJobTarget_def NormalizeApplicationRef_def
  runRestore_def ProjectBackupCredentials_def IsEnabled_def restoreDrivers_def reconcileJobRestore_def
  storeJob_def markRestoreJobFailedReason_def restoreGoesFirst_def sameApplication_def ptrString_def VeleroStrategyKind_def terminal_def

lemma demoRestoreState_reachable: "restore_reachable demoCodec demoNoCredentials ''ns'' demoRestoreState"
proof -
  let ?st0 = "\<lparr>rsJobs = [], rsBackups = [''b1'' \<mapsto> demoBackup], rsSecret = Missing\<rparr>"
  let ?st1 = "?st0\<lparr>rsJobs := rsJobs ?st0 @ [demoRestoreJob ''r1'' 5]\<rparr>"
  have "restore_reachable demoCodec demoNoCredentials ''ns'' ?st0" by (rule restore_reachable.start) simp
  then have "restore_reachable demoCodec demoNoCredentials ''ns'' ?st1"
    by (rule restore_reachable.step [OF _ restore_step.created]) (simp_all add: demoRestoreJob_def)
  then have "restore_reachable demoCodec demoNoCredentials ''ns'' (?st1\<lparr>rsJobs := rsJobs ?st1 @ [demoRestoreJob ''r2'' 4]\<rparr>)"
    by (rule restore_reachable.step [OF _ restore_step.created]) (simp_all add: demoRestoreJob_def)
  then show ?thesis by (simp add: demoRestoreState_def)
qed

lemma demoPass_reachable:
  "restore_reachable demoCodec demoNoCredentials ''ns'' st \<Longrightarrow>
   restore_reachable demoCodec demoNoCredentials ''ns'' (demoPass rj st)"
  unfolding demoPass_def
  by (rule restore_reachable.step [OF _ restore_step.pass])
    (auto simp: drivers_ok_def demoOthers_def demoRestoreEnv_def)

theorem restore_exclusion_witness:
  "map rjPhase (rsJobs (demoPass (demoRestoreJob ''r1'' 5) (demoPass (demoRestoreJob ''r2'' 4) demoRestoreState)))
     = [PhaseFailed, PhaseRunning] \<and>
   map rjReady (rsJobs (demoPass (demoRestoreJob ''r1'' 5) (demoPass (demoRestoreJob ''r2'' 4) demoRestoreState)))
     = [Some (False, ''ConcurrentRestore''), None] \<and>
   (\<exists>f. waits ''ns'' demoRestoreState \<lparr>arGroup = Some ''apps.cozystack.io'', arKind = ''Postgres'', arName = ''db''\<rparr> f \<and>
      restoreAhead (cachedBackup (rsBackups demoRestoreState)) ''ns'' (Inr (rsJobs demoRestoreState)) f = Inr [])"
proof -
  have w: "waits ''ns'' demoRestoreState \<lparr>arGroup = Some ''apps.cozystack.io'', arKind = ''Postgres'', arName = ''db''\<rparr>
      (demoRestoreJob ''r2'' 4)"
    by code_simp
  have "map rjPhase (rsJobs (demoPass (demoRestoreJob ''r1'' 5) (demoPass (demoRestoreJob ''r2'' 4) demoRestoreState)))
      = [PhaseFailed, PhaseRunning]"
    "map rjReady (rsJobs (demoPass (demoRestoreJob ''r1'' 5) (demoPass (demoRestoreJob ''r2'' 4) demoRestoreState)))
      = [Some (False, ''ConcurrentRestore''), None]" by (simp_all add: demo_evals Let_def cong: option.case_cong)
  then show ?thesis using restore_exclusion [OF demoRestoreState_reachable] w by blast
qed

end
