(* ===== verification/Backup_Job.thy ===== *)
theory Backup_Job
  imports Restore_Job
begin

text \<open>
  The BackupJob controller (internal/backupcontroller/backupjob\_controller.go): the resolution of
  a BackupClass (backupclass\_resolver.go), the hold while a restore writes into the application
  (backupjob\_restore\_lock.go), the projection of credentials and the driver of the Job strategy
  (jobstrategy\_controller.go). A pass changes the stored job and the credentials of its
  namespace; what the API answers is a record \<open>backupEnv\<close>. The drivers of the other strategies
  are the argument \<open>drivers\<close>. Messages of conditions are left out.
\<close>

subsection \<open>Data\<close>

record BackupJob =
  bjName :: string
  bjApplicationRef :: AppRef
  bjBackupClassName :: string
  bjPlanRef :: "string option"
  bjPhase :: jobPhase
  bjBackupRef :: "string option"
  bjStartedAt :: "int option"
  bjCompletedAt :: "int option"
  bjReady :: "(bool \<times> string) option"

record BackupClassStrategy =
  bsStrategyRef :: AppRef
  bsGroup :: "string option"
  bsKind :: string
  bsParameters :: "(string \<times> string) list"

record ResolvedBackupConfig =
  rcStrategyRef :: AppRef
  rcParameters :: "(string \<times> string) list"

datatype resolve_error = NoMatchingStrategy | ClassNotFound | ClassReadError string

fun matchStrategy :: "string \<Rightarrow> string \<Rightarrow> BackupClassStrategy list \<Rightarrow> ResolvedBackupConfig option" where
  "matchStrategy appGroup appKind [] = None"
| "matchStrategy appGroup appKind (s # ss) =
     (let strategyGroup =
        (case bsGroup s of Some g \<Rightarrow> if g \<noteq> [] then g else DefaultApplicationAPIGroup
         | None \<Rightarrow> DefaultApplicationAPIGroup) in
      if strategyGroup = appGroup \<and> bsKind s = appKind
      then Some \<lparr>rcStrategyRef = bsStrategyRef s, rcParameters = bsParameters s\<rparr>
      else matchStrategy appGroup appKind ss)"

definition ResolveBackupClass ::
    "(string \<Rightarrow> BackupClassStrategy list fetched) \<Rightarrow> string \<Rightarrow> AppRef \<Rightarrow> resolve_error + ResolvedBackupConfig" where
  "ResolveBackupClass getClass className ref0 =
     (let ref = NormalizeApplicationRef ref0 in
      case getClass className of
        Missing \<Rightarrow> Inl ClassNotFound
      | FetchError e \<Rightarrow> Inl (ClassReadError e)
      | Found strategies \<Rightarrow>
          let appGroup = (case arGroup ref of Some g \<Rightarrow> g | None \<Rightarrow> DefaultApplicationAPIGroup) in
          case matchStrategy appGroup (arKind ref) strategies of
            Some resolved \<Rightarrow> Inr resolved
          | None \<Rightarrow> Inl NoMatchingStrategy)"

datatype backup_effect =
    CreateBackupPod string string string \<comment> \<open>name, mode and rendered pod of a batch Job\<close>
  | CreateBackup Backup

type_synonym backupDriver =
  "BackupJob \<Rightarrow> ResolvedBackupConfig \<Rightarrow> BackupJob \<times> backup_effect list \<times> job_outcome"

record backupEnv =
  beCached :: "BackupJob fetched"
  beRereadErr :: "string option"
  beClass :: "string \<Rightarrow> BackupClassStrategy list fetched"
  beRestores :: "string + RestoreJob list" \<comment> \<open>the RestoreJobs of the namespace\<close>
  beBackup :: "string \<Rightarrow> Backup fetched" \<comment> \<open>the Backups those refer to\<close>
  beReleaseErr :: bool \<comment> \<open>the status write that ends a hold fails\<close>
  beStatusErr :: bool \<comment> \<open>any later status write fails\<close>
  beSource :: "Secret fetched"
  beSecretErr :: bool
  beNow :: int

record backupState =
  bsJob :: "BackupJob option" \<comment> \<open>the stored job\<close>
  bsSecret :: "Secret fetched" \<comment> \<open>the stored credentials of the namespace\<close>

subsection \<open>The pass\<close>

definition RestoreInProgressRequeue :: int where "RestoreInProgressRequeue = 30"
definition ConditionReasonRestoreInProgress :: string where
  "ConditionReasonRestoreInProgress = ''RestoreInProgress''"
definition StrategyNotReadyDeadline :: int where "StrategyNotReadyDeadline = 30 * 60"

definition holdForRestore :: "backupEnv \<Rightarrow> BackupJob \<Rightarrow> BackupJob \<times> job_outcome" where
  "holdForRestore env j =
     (if beStatusErr env then (j, Failing ''record RestoreInProgress'')
      else (j\<lparr>bjPhase := (if bjPhase j = PhaseEmpty then PhasePending else bjPhase j),
              bjReady := Some (False, ConditionReasonRestoreInProgress)\<rparr>,
            RequeueAfter RestoreInProgressRequeue))"

definition releaseRestoreHold :: "backupEnv \<Rightarrow> BackupJob \<Rightarrow> string + BackupJob" where
  "releaseRestoreHold env j =
     (case bjReady j of
        None \<Rightarrow> Inr j
      | Some (status, reason) \<Rightarrow>
          if reason \<noteq> ConditionReasonRestoreInProgress then Inr j
          else if beReleaseErr env then Inl ''clear RestoreInProgress''
          else Inr (j\<lparr>bjReady := None\<rparr>))"

definition markBackupJobFailed :: "backupEnv \<Rightarrow> BackupJob \<Rightarrow> BackupJob \<times> job_outcome" where
  "markBackupJobFailed env j =
     (if beStatusErr env then (j, Failing ''update status'')
      else (j\<lparr>bjCompletedAt := Some (beNow env), bjPhase := PhaseFailed, bjReady := Some (False, ''BackupFailed'')\<rparr>,
            Finished))"

definition waitNotReady :: "backupEnv \<Rightarrow> string \<Rightarrow> BackupJob \<Rightarrow> BackupJob \<times> job_outcome" where
  "waitNotReady env reason j =
     (if beStatusErr env then j else j\<lparr>bjReady := Some (False, reason)\<rparr>,
      RequeueAfter CredentialsProjectionRequeue)"

definition handleProjectionError :: "backupEnv \<Rightarrow> projection_error \<Rightarrow> BackupJob \<Rightarrow> BackupJob \<times> job_outcome" where
  "handleProjectionError env e j =
     (if IsTransient e then waitNotReady env ''CredentialsProjectionPending'' j else markBackupJobFailed env j)"

definition strategyNotReadyDeadlineExceeded :: "int \<Rightarrow> int option \<Rightarrow> bool" where
  "strategyNotReadyDeadlineExceeded now startedAt =
     (case startedAt of None \<Rightarrow> False | Some t \<Rightarrow> now - t > StrategyNotReadyDeadline)"

definition requeueStrategyNotReady :: "backupEnv \<Rightarrow> BackupJob \<Rightarrow> BackupJob \<times> job_outcome" where
  "requeueStrategyNotReady env j =
     (if strategyNotReadyDeadlineExceeded (beNow env) (bjStartedAt j) then markBackupJobFailed env j
      else waitNotReady env ''StrategyNotReady'' j)"

text \<open>The gate in front of a run that has not started: either the pass ends here or the job goes on.\<close>

definition restoreGate :: "string \<Rightarrow> backupEnv \<Rightarrow> BackupJob \<Rightarrow> BackupJob \<times> job_outcome + BackupJob" where
  "restoreGate ns env j =
     (if bjStartedAt j \<noteq> None then Inr j
      else case activeRestoreTargeting (beBackup env) ns (beRestores env)
                  (NormalizeApplicationRef (bjApplicationRef j)) of
        Inl e \<Rightarrow> Inl (j, Failing e)
      | Inr restore \<Rightarrow>
          if restore \<noteq> [] then Inl (holdForRestore env j)
          else case releaseRestoreHold env j of
                 Inl e \<Rightarrow> Inl (j, Failing e)
               | Inr j' \<Rightarrow> Inr j')"

definition storeBackupJob ::
    "backupState \<Rightarrow> BackupJob \<times> job_outcome \<Rightarrow> backupState \<times> backup_effect list \<times> job_outcome" where
  "storeBackupJob st r = (st\<lparr>bsJob := Some (fst r)\<rparr>, [], snd r)"

definition runBackup ::
    "codecLib \<Rightarrow> BackupCredentialsConfig \<Rightarrow> (string \<Rightarrow> backupDriver) \<Rightarrow> backupEnv \<Rightarrow> backupState \<Rightarrow>
     BackupJob \<Rightarrow> ResolvedBackupConfig \<Rightarrow> backupState \<times> backup_effect list \<times> job_outcome" where
  "runBackup lib cfg drivers env st j resolved =
     (let (secret, err) = ProjectBackupCredentials lib cfg
            \<lparr>ceSource = beSource env, ceTarget = bsSecret st, ceWriteErr = beSecretErr env\<rparr> in
      case err of
        Some e \<Rightarrow> storeBackupJob (st\<lparr>bsSecret := secret\<rparr>) (handleProjectionError env e j)
      | None \<Rightarrow>
          let (j', effs, out) = drivers (arKind (rcStrategyRef resolved)) j resolved
          in (st\<lparr>bsJob := Some j', bsSecret := secret\<rparr>, effs, out))"

definition reconcileBackup ::
    "codecLib \<Rightarrow> BackupCredentialsConfig \<Rightarrow> (string \<Rightarrow> backupDriver) \<Rightarrow> string \<Rightarrow> backupEnv \<Rightarrow> backupState \<Rightarrow>
     BackupJob \<Rightarrow> backupState \<times> backup_effect list \<times> job_outcome" where
  "reconcileBackup lib cfg drivers ns env st j =
     (case ResolveBackupClass (beClass env) (bjBackupClassName j) (NormalizeApplicationRef (bjApplicationRef j)) of
        Inl NoMatchingStrategy \<Rightarrow> storeBackupJob st (markBackupJobFailed env j)
      | Inl ClassNotFound \<Rightarrow> storeBackupJob st (waitNotReady env ''BackupClassNotFound'' j)
      | Inl (ClassReadError e) \<Rightarrow> (st, [], Failing e)
      | Inr resolved \<Rightarrow>
          (case arGroup (rcStrategyRef resolved) of
             None \<Rightarrow> (st, [], Finished)
           | Some g \<Rightarrow>
               if g \<noteq> strategyGroup then (st, [], Finished)
               else if arKind (rcStrategyRef resolved) \<notin> set supportedBackupStrategyKinds
                 then storeBackupJob st (markBackupJobFailed env j)
               else case restoreGate ns env j of
                 Inl r \<Rightarrow> storeBackupJob st r
               | Inr j' \<Rightarrow> runBackup lib cfg drivers env st j' resolved))"

definition BackupReconcile ::
    "codecLib \<Rightarrow> BackupCredentialsConfig \<Rightarrow> (string \<Rightarrow> backupDriver) \<Rightarrow> string \<Rightarrow> backupEnv \<Rightarrow> backupState \<Rightarrow>
     backupState \<times> backup_effect list \<times> job_outcome" where
  "BackupReconcile lib cfg drivers ns env st =
     (case beCached env of
        Missing \<Rightarrow> (st, [], Finished)
      | FetchError e \<Rightarrow> (st, [], Failing e)
      | Found cached \<Rightarrow>
          if terminal (bjPhase cached) then (st, [], Finished)
          else case beRereadErr env of
            Some e \<Rightarrow> (st, [], Failing e)
          | None \<Rightarrow>
              (case bsJob st of
                 None \<Rightarrow> (st, [], Finished)
               | Some j \<Rightarrow>
                   if terminal (bjPhase j) then (st, [], Finished)
                   else reconcileBackup lib cfg drivers ns env st j))"

subsection \<open>The driver of the Job strategy\<close>

definition jobNameForBackupJob :: "BackupJob \<Rightarrow> string" where
  "jobNameForBackupJob j = bjName j @ ''-backup''"

datatype create_backup = BackupCreated | BackupExists "Backup fetched" | BackupCreateError string

record jobBackupEnv =
  jbFresh :: "BackupJob fetched" \<comment> \<open>the cached copy read before \<open>StartedAt\<close> is written\<close>
  jbPatchErr :: "string option"
  jbCreate :: create_backup

definition ensureJobStrategyJob ::
    "jobEnv \<Rightarrow> string \<Rightarrow> string \<Rightarrow> string \<Rightarrow> backup_effect list \<times> (string + jobCondition list)" where
  "ensureJobStrategyJob je name mode pod =
     (case jeJob je name of
        Found conds \<Rightarrow> ([], Inr conds)
      | FetchError e \<Rightarrow> ([], Inl e)
      | Missing \<Rightarrow>
          (case jeCreate je of
             JobCreated \<Rightarrow> ([CreateBackupPod name mode pod], Inr [])
           | JobExists (Found conds) \<Rightarrow> ([], Inr conds)
           | JobExists Missing \<Rightarrow> ([], Inl ''not found'')
           | JobExists (FetchError e) \<Rightarrow> ([], Inl e)
           | JobCreateError e \<Rightarrow> ([], Inl e)))"

definition jobBackupArtifact :: "BackupJob \<Rightarrow> ResolvedBackupConfig \<Rightarrow> Backup" where
  "jobBackupArtifact j resolved =
     \<lparr>bkName = bjName j, bkApplicationRef = bjApplicationRef j, bkStrategyRef = rcStrategyRef resolved,
      bkDriverMetadata = map (\<lambda>(k, v). (jobStrategyParamPrefix @ k, v)) (rcParameters resolved)\<rparr>"

definition createJobBackupArtifact ::
    "create_backup \<Rightarrow> BackupJob \<Rightarrow> ResolvedBackupConfig \<Rightarrow> backup_effect list \<times> (string + Backup)" where
  "createJobBackupArtifact reply j resolved =
     (case reply of
        BackupCreated \<Rightarrow> ([CreateBackup (jobBackupArtifact j resolved)], Inr (jobBackupArtifact j resolved))
      | BackupExists (Found existing) \<Rightarrow> ([], Inr existing)
      | BackupExists Missing \<Rightarrow> ([], Inl ''not found'')
      | BackupExists (FetchError e) \<Rightarrow> ([], Inl e)
      | BackupCreateError e \<Rightarrow> ([], Inl e))"

definition completeBackup :: "backupEnv \<Rightarrow> BackupJob \<Rightarrow> BackupJob \<Rightarrow> Backup \<Rightarrow> BackupJob \<times> job_outcome" where
  "completeBackup env live j artifact =
     (if beStatusErr env then (live, Failing ''update status'')
      else (j\<lparr>bjBackupRef := Some (bkName artifact), bjCompletedAt := Some (beNow env),
              bjPhase := PhaseSucceeded, bjReady := Some (True, ''BackupCompleted'')\<rparr>, Finished))"

text \<open>The second half, for a started job; \<open>live\<close> is the stored job and \<open>j\<close> the copy in memory.\<close>

definition runJobBackup ::
    "jobEnv \<Rightarrow> jobBackupEnv \<Rightarrow> backupEnv \<Rightarrow> BackupJob \<Rightarrow> BackupJob \<Rightarrow> ResolvedBackupConfig \<Rightarrow>
     BackupJob \<times> backup_effect list \<times> job_outcome" where
  "runJobBackup je be env live j resolved =
     (let ref = bjApplicationRef j;
          failed = (\<lambda>effs. if beStatusErr env then (live, effs, Failing ''update status'')
            else (fst (markBackupJobFailed env j), effs, Finished))
      in case jeStrategy je (arName (rcStrategyRef resolved)) of
        Missing \<Rightarrow> failed []
      | FetchError e \<Rightarrow> (live, [], Failing e)
      | Found tmpl \<Rightarrow>
     (case jeApp je ref of
        Missing \<Rightarrow> failed []
      | FetchError e \<Rightarrow> (live, [], Failing e)
      | Found app \<Rightarrow>
     (case jeRender je tmpl app (arName ref) ''backup'' (rcParameters resolved) None of
        None \<Rightarrow> failed []
      | Some pod \<Rightarrow>
          (let (effs, r) = ensureJobStrategyJob je (jobNameForBackupJob j) ''backup'' pod in
           case r of
             Inl e \<Rightarrow> failed effs
           | Inr conds \<Rightarrow>
               if jobConditionState conds = ''Complete'' then
                 (if bjBackupRef j \<noteq> None then (live, effs, Finished)
                  else case createJobBackupArtifact (jbCreate be) j resolved of
                    (effs', Inl e) \<Rightarrow> failed (effs @ effs')
                  | (effs', Inr artifact) \<Rightarrow>
                      (let (j', out) = completeBackup env live j artifact in (j', effs @ effs', out)))
               else if jobConditionState conds = ''Failed'' then failed effs
               else (live, effs, RequeueAfter jobStrategyPollInterval)))))"

definition reconcileJob :: "jobEnv \<Rightarrow> jobBackupEnv \<Rightarrow> backupEnv \<Rightarrow> backupDriver" where
  "reconcileJob je be env j resolved =
     (if terminal (bjPhase j) then (j, [], Finished)
      else if bjStartedAt j \<noteq> None then runJobBackup je be env j j resolved
      else case jbFresh be of
        Missing \<Rightarrow> (j, [], Failing ''not found'')
      | FetchError e \<Rightarrow> (j, [], Failing e)
      | Found fresh \<Rightarrow>
          if bjStartedAt fresh \<noteq> None
          then runJobBackup je be env j (j\<lparr>bjStartedAt := bjStartedAt fresh, bjPhase := bjPhase fresh\<rparr>) resolved
          else case jbPatchErr be of
                 Some e \<Rightarrow> (j, [], Failing e)
               | None \<Rightarrow>
                   (j\<lparr>bjStartedAt := Some (beNow env),
                      bjPhase := (if bjPhase fresh = PhaseRunning then bjPhase j else PhaseRunning)\<rparr>,
                    [], RequeueAfter jobStrategyPollInterval))"

definition backupDrivers ::
    "(string \<Rightarrow> backupDriver) \<Rightarrow> jobEnv \<Rightarrow> jobBackupEnv \<Rightarrow> backupEnv \<Rightarrow> string \<Rightarrow> backupDriver" where
  "backupDrivers others je be env kind =
     (if kind = JobStrategyKind then reconcileJob je be env else others kind)"

subsection \<open>The contract of a driver\<close>

text \<open>What the controller relies on, and what every driver gives for one job: it keeps the request,
  never takes a start back, and ends a pass without another wake-up only for a job that is over. A
  job refers to a Backup only once it is over.\<close>

definition sameBackupRequest :: "BackupJob \<Rightarrow> BackupJob \<Rightarrow> bool" where
  "sameBackupRequest a b \<longleftrightarrow> bjName a = bjName b \<and> bjApplicationRef a = bjApplicationRef b \<and>
     bjBackupClassName a = bjBackupClassName b \<and> bjPlanRef a = bjPlanRef b"

definition wfBackupJob :: "BackupJob \<Rightarrow> bool" where
  "wfBackupJob j \<longleftrightarrow> (bjBackupRef j \<noteq> None \<longrightarrow> terminal (bjPhase j)) \<and> (terminal (bjPhase j) \<longrightarrow> bjCompletedAt j \<noteq> None)"

definition advances :: "BackupJob \<Rightarrow> BackupJob \<Rightarrow> job_outcome \<Rightarrow> bool" where
  "advances j j' out \<longleftrightarrow> sameBackupRequest j' j \<and> (bjStartedAt j \<noteq> None \<longrightarrow> bjStartedAt j' \<noteq> None) \<and>
     wfBackupJob j' \<and> (out = Finished \<longrightarrow> terminal (bjPhase j'))"

locale backup_driver =
  fixes driver :: backupDriver
  assumes driver_advances:
    "wfBackupJob j \<Longrightarrow> \<not> terminal (bjPhase j) \<Longrightarrow> driver j resolved = (j', effs, out) \<Longrightarrow> advances j j' out"
begin

lemma runBackup_advances:
  assumes "wfBackupJob j" "\<not> terminal (bjPhase j)" "drivers (arKind (rcStrategyRef resolved)) = driver"
    and "runBackup lib cfg drivers env st j resolved = (st', effs, out)"
  shows "\<exists>j'. bsJob st' = Some j' \<and> advances j j' out"
proof -
  obtain secret err where p: "ProjectBackupCredentials lib cfg
      \<lparr>ceSource = beSource env, ceTarget = bsSecret st, ceWriteErr = beSecretErr env\<rparr> = (secret, err)"
    by (cases "ProjectBackupCredentials lib cfg
      \<lparr>ceSource = beSource env, ceTarget = bsSecret st, ceWriteErr = beSecretErr env\<rparr>")
  show ?thesis
  proof (cases err)
    case None
    obtain j' e o' where d: "driver j resolved = (j', e, o')" by (cases "driver j resolved")
    then show ?thesis using assms p None driver_advances [OF assms(1,2) d] by (auto simp: runBackup_def Let_def)
  next
    case (Some e)
    then show ?thesis using assms(1,2,4) p
      by (auto simp: runBackup_def storeBackupJob_def handleProjectionError_def markBackupJobFailed_def waitNotReady_def
          advances_def sameBackupRequest_def wfBackupJob_def terminal_def split: if_splits)
  qed
qed

end

lemma runJobBackup_advances:
  assumes "wfBackupJob live" "\<not> terminal (bjPhase live)" "sameBackupRequest j live" "bjStartedAt j \<noteq> None"
    "bjBackupRef j = bjBackupRef live" "runJobBackup je be env live j resolved = (j', effs, out)"
  shows "advances live j' out"
  using assms
  by (auto simp: runJobBackup_def Let_def advances_def sameBackupRequest_def wfBackupJob_def terminal_def
      markBackupJobFailed_def completeBackup_def split: fetched.splits option.splits sum.splits prod.splits if_splits)

interpretation job_backup: backup_driver "reconcileJob je be env" for je be env
proof
  fix j resolved j' effs out
  assume wf: "wfBackupJob j" "\<not> terminal (bjPhase j)" and run: "reconcileJob je be env j resolved = (j', effs, out)"
  show "advances j j' out"
  proof (cases "bjStartedAt j = None \<and> (\<forall>fresh. jbFresh be = Found fresh \<longrightarrow> bjStartedAt fresh = None)")
    case True
    then show ?thesis using wf run
      by (auto simp: reconcileJob_def advances_def sameBackupRequest_def wfBackupJob_def terminal_def
          split: fetched.splits option.splits if_splits)
  next
    case False
    then obtain copy where "runJobBackup je be env j copy resolved = (j', effs, out)" "sameBackupRequest copy j"
      "bjStartedAt copy \<noteq> None" "bjBackupRef copy = bjBackupRef j"
      using wf(2) run by (auto simp: reconcileJob_def sameBackupRequest_def split: fetched.splits if_splits)
    with wf show ?thesis using runJobBackup_advances by blast
  qed
qed

lemma backupDrivers_driver:
  "(\<And>k. backup_driver (others k)) \<Longrightarrow> backup_driver (backupDrivers others je be env k)"
  by (simp add: backupDrivers_def job_backup.backup_driver_axioms)

subsection \<open>Facts\<close>

lemma matchStrategy_Some:
  "matchStrategy g k ss = Some r \<Longrightarrow>
   \<exists>s \<in> set ss. r = \<lparr>rcStrategyRef = bsStrategyRef s, rcParameters = bsParameters s\<rparr> \<and> bsKind s = k"
  by (induction ss) (auto simp: Let_def split: if_splits)

text \<open>Whether the class of a job names a strategy of the platform that the controller supports.\<close>

definition platformStrategy :: "backupEnv \<Rightarrow> BackupJob \<Rightarrow> bool" where
  "platformStrategy env j =
     (case ResolveBackupClass (beClass env) (bjBackupClassName j) (NormalizeApplicationRef (bjApplicationRef j)) of
        Inr r \<Rightarrow> arGroup (rcStrategyRef r) = Some strategyGroup \<and>
          arKind (rcStrategyRef r) \<in> set supportedBackupStrategyKinds
      | Inl _ \<Rightarrow> False)"

definition foreignStrategy :: "backupEnv \<Rightarrow> BackupJob \<Rightarrow> bool" where
  "foreignStrategy env j =
     (case ResolveBackupClass (beClass env) (bjBackupClassName j) (NormalizeApplicationRef (bjApplicationRef j)) of
        Inr r \<Rightarrow> arGroup (rcStrategyRef r) \<noteq> Some strategyGroup
      | Inl _ \<Rightarrow> False)"

lemma holdingLoop_holds:
  "rj \<in> set rjs \<Longrightarrow> holds getBackup ns app rj \<Longrightarrow> holdingLoop getBackup ns app rjs h = Inr out \<Longrightarrow> rjName rj \<in> set out"
  using holdingLoop_Inr by fastforce

lemma activeRestoreTargeting_holds:
  assumes "rj \<in> set rjs" "holds getBackup ns (NormalizeApplicationRef app) rj" "\<forall>r \<in> set rjs. rjName r \<noteq> []"
  shows "activeRestoreTargeting getBackup ns (Inr rjs) app \<noteq> Inr []"
  using activeRestoreTargeting_Inr(1) [of getBackup ns rjs app "[]"] assms by blast

lemma restoreGate_holds:
  assumes "bjStartedAt j = None" "beRestores env = Inr rjs" "rj \<in> set rjs" "\<forall>r \<in> set rjs. rjName r \<noteq> []"
    "holds (beBackup env) ns (NormalizeApplicationRef (bjApplicationRef j)) rj"
  obtains j' out where "restoreGate ns env j = Inl (j', out)" "bjStartedAt j' = None" "terminal (bjPhase j') \<longrightarrow> terminal (bjPhase j)"
proof (cases "activeRestoreTargeting (beBackup env) ns (Inr rjs) (NormalizeApplicationRef (bjApplicationRef j))")
  case (Inl e)
  with assms that show ?thesis by (simp add: restoreGate_def)
next
  case (Inr n)
  then have "n \<noteq> []"
    using activeRestoreTargeting_holds [OF assms(3), of "beBackup env" ns "NormalizeApplicationRef (bjApplicationRef j)"]
      assms(4,5) by auto
  then have "restoreGate ns env j = Inl (holdForRestore env j)" using Inr assms(1,2) by (simp add: restoreGate_def)
  then show ?thesis using that assms(1) by (auto simp: holdForRestore_def terminal_def split: if_splits)
qed

lemma restoreGate_Inr:
  assumes "restoreGate ns env j = Inr j'"
  shows "sameBackupRequest j' j" "bjStartedAt j' = bjStartedAt j" "bjPhase j' = bjPhase j" "bjBackupRef j' = bjBackupRef j"
    "bjCompletedAt j' = bjCompletedAt j"
  using assms by (auto simp: restoreGate_def releaseRestoreHold_def sameBackupRequest_def
      split: if_splits sum.splits option.splits)

lemma restoreGate_Inl_advances:
  assumes "restoreGate ns env j = Inl (j', out)" "wfBackupJob j" "\<not> terminal (bjPhase j)"
  shows "advances j j' out"
  using assms by (auto simp: restoreGate_def holdForRestore_def advances_def sameBackupRequest_def wfBackupJob_def
      terminal_def split: if_splits sum.splits)

lemma markBackupJobFailed_advances:
  "wfBackupJob j \<Longrightarrow> advances j (fst (markBackupJobFailed env j)) (snd (markBackupJobFailed env j))"
  by (auto simp: markBackupJobFailed_def advances_def sameBackupRequest_def wfBackupJob_def terminal_def)

lemma waitNotReady_advances:
  "wfBackupJob j \<Longrightarrow> advances j (fst (waitNotReady env r j)) (snd (waitNotReady env r j))"
  by (auto simp: waitNotReady_def advances_def sameBackupRequest_def wfBackupJob_def)

text \<open>The branches of a pass over a stored job that is not over.\<close>

lemma reconcileBackup_cases:
  assumes "reconcileBackup lib cfg drivers ns env st j = (st', effs, out)"
  obtains (early) j' where "st' = st\<lparr>bsJob := Some j'\<rparr>" "effs = []" "bjStartedAt j' = bjStartedAt j"
      "wfBackupJob j \<Longrightarrow> advances j j' out" "\<not> platformStrategy env j"
    | (read) e where "st' = st" "effs = []" "out = Failing e"
    | (foreign) "st' = st" "effs = []" "out = Finished" "foreignStrategy env j"
    | (held) j' where "st' = st\<lparr>bsJob := Some j'\<rparr>" "effs = []" "restoreGate ns env j = Inl (j', out)"
    | (run) j' resolved where "restoreGate ns env j = Inr j'" "platformStrategy env j"
      "ResolveBackupClass (beClass env) (bjBackupClassName j) (NormalizeApplicationRef (bjApplicationRef j)) = Inr resolved"
      "runBackup lib cfg drivers env st j' resolved = (st', effs, out)"
proof -
  note adv = markBackupJobFailed_advances [of j env] waitNotReady_advances [of j env]
  have keep: "bjStartedAt (fst (markBackupJobFailed env j)) = bjStartedAt j"
    "bjStartedAt (fst (waitNotReady env r j)) = bjStartedAt j" for r
    by (simp_all add: markBackupJobFailed_def waitNotReady_def)
  show thesis
  proof (cases "ResolveBackupClass (beClass env) (bjBackupClassName j) (NormalizeApplicationRef (bjApplicationRef j))")
    case (Inl e)
    then have np: "\<not> platformStrategy env j" by (simp add: platformStrategy_def)
    show thesis
      using assms Inl np adv keep early read
      by (cases e) (auto simp: reconcileBackup_def storeBackupJob_def)
  next
    case (Inr resolved)
    show thesis
    proof (cases "platformStrategy env j")
      case True
      then have "reconcileBackup lib cfg drivers ns env st j = (case restoreGate ns env j of
          Inl r \<Rightarrow> storeBackupJob st r | Inr j' \<Rightarrow> runBackup lib cfg drivers env st j' resolved)"
        using Inr by (simp add: reconcileBackup_def platformStrategy_def)
      then show thesis using assms held run [OF _ True Inr]
        by (cases "restoreGate ns env j") (auto simp: storeBackupJob_def)
    next
      case False
      then show thesis using assms Inr adv keep early foreign
        by (auto simp: reconcileBackup_def platformStrategy_def foreignStrategy_def storeBackupJob_def
            split: option.splits if_splits)
    qed
  qed
qed

lemma BackupReconcile_run:
  assumes "BackupReconcile lib cfg drivers ns env st = (st', effs, out)" "bsJob st = Some j"
  obtains (idle) "st' = st" "effs = []"
      "out = Finished \<longrightarrow> terminal (bjPhase j) \<or> (\<forall>c. beCached env = Found c \<longrightarrow> terminal (bjPhase c))"
    | (pass) "\<not> terminal (bjPhase j)" "reconcileBackup lib cfg drivers ns env st j = (st', effs, out)"
  using assms by (auto simp: BackupReconcile_def split: fetched.splits option.splits if_splits)

text \<open>The parameters of a run come back from its Backup, but for a parameter with an empty name.\<close>

lemma jobStrategyParameters_artifact:
  "jobStrategyParameters (jobBackupArtifact j resolved) = filter (\<lambda>(k, v). k \<noteq> []) (rcParameters resolved)"
proof -
  have "map (\<lambda>(k, v). (trimPrefix k p, v)) (filter (\<lambda>(k, v). prefix p k \<and> trimPrefix k p \<noteq> []) (map (\<lambda>(k, v). (p @ k, v)) ps))
      = filter (\<lambda>(k, v). k \<noteq> []) ps" for p and ps :: "(string \<times> string) list"
    using trimPrefix_append [of p "[]"] by (induction ps) auto
  then show ?thesis by (simp add: jobStrategyParameters_def jobBackupArtifact_def)
qed

lemma runJobBackup_artifact:
  "runJobBackup je be env live j resolved = (j', effs, out) \<Longrightarrow> CreateBackup b \<in> set effs \<Longrightarrow> b = jobBackupArtifact j resolved"
  by (auto simp: runJobBackup_def Let_def ensureJobStrategyJob_def createJobBackupArtifact_def completeBackup_def
      split: fetched.splits option.splits sum.splits prod.splits if_splits create_job.splits create_backup.splits)

lemma reconcileJob_artifact:
  "reconcileJob je be env j resolved = (j', effs, out) \<Longrightarrow> CreateBackup b \<in> set effs \<Longrightarrow> b = jobBackupArtifact j resolved"
  by (auto simp: reconcileJob_def jobBackupArtifact_def dest!: runJobBackup_artifact split: fetched.splits option.splits if_splits)

subsection \<open>Properties\<close>

text \<open>C20: A pass over a BackupJob that is over writes nothing. While a RestoreJob that is not over
  writes into the application of a BackupJob that has not started, a pass does not start it: no
  object is created, no credentials are projected and the stored job stays not started. And objects
  are created and credentials projected only for a job whose class names a strategy of the platform
  that the controller supports.\<close>

theorem BackupReconcile_gate:
  assumes "BackupReconcile lib cfg drivers ns env st = (st', effs, out)" "bsJob st = Some j"
  shows "(terminal (bjPhase j) \<longrightarrow> st' = st \<and> effs = []) \<and>
    (\<forall>rjs. bjStartedAt j = None \<and> beRestores env = Inr rjs \<and> (\<forall>r \<in> set rjs. rjName r \<noteq> []) \<and>
      (\<exists>rj \<in> set rjs. holds (beBackup env) ns (NormalizeApplicationRef (bjApplicationRef j)) rj) \<longrightarrow>
      effs = [] \<and> bsSecret st' = bsSecret st \<and> (\<exists>j'. bsJob st' = Some j' \<and> bjStartedAt j' = None)) \<and>
    (effs \<noteq> [] \<or> bsSecret st' \<noteq> bsSecret st \<longrightarrow> platformStrategy env j)"
  using assms
proof (cases rule: BackupReconcile_run)
  case pass
  from pass(2) show ?thesis
  proof (cases rule: reconcileBackup_cases)
    case (held j')
    have "bjStartedAt j' = None" if "bjStartedAt j = None" using held(3) that
      by (auto simp: restoreGate_def holdForRestore_def split: sum.splits if_splits)
    then show ?thesis using held pass(1) by auto
  next
    case (run j' resolved)
    then show ?thesis using pass(1) restoreGate_holds [of j env _ _ ns] by (metis Inl_Inr_False)
  qed (use pass assms(2) in auto)
qed (use assms(2) in auto)

definition demoBackupJob :: BackupJob where
  "demoBackupJob = \<lparr>bjName = ''j1'', bjApplicationRef = \<lparr>arGroup = None, arKind = ''Postgres'', arName = ''db''\<rparr>,
     bjBackupClassName = ''daily'', bjPlanRef = None, bjPhase = PhaseEmpty, bjBackupRef = None, bjStartedAt = None,
     bjCompletedAt = None, bjReady = None\<rparr>"

definition demoResolved :: ResolvedBackupConfig where
  "demoResolved = \<lparr>rcStrategyRef = \<lparr>arGroup = Some strategyGroup, arKind = JobStrategyKind, arName = ''s''\<rparr>,
     rcParameters = [(''bucket'', ''b'')]\<rparr>"

definition demoBackupEnv :: "RestoreJob list \<Rightarrow> backupEnv" where
  "demoBackupEnv rjs = \<lparr>beCached = Found demoBackupJob, beRereadErr = None,
     beClass = (\<lambda>n. Found [\<lparr>bsStrategyRef = rcStrategyRef demoResolved, bsGroup = None, bsKind = ''Postgres'',
       bsParameters = rcParameters demoResolved\<rparr>]),
     beRestores = Inr rjs, beBackup = (\<lambda>n. Found demoBackup), beReleaseErr = False, beStatusErr = False,
     beSource = Missing, beSecretErr = False, beNow = 100\<rparr>"

definition demoBackupState :: backupState where
  "demoBackupState = \<lparr>bsJob = Some demoBackupJob, bsSecret = Missing\<rparr>"

definition demoOtherBackups :: "string \<Rightarrow> backupDriver" where
  "demoOtherBackups kind j resolved = (j, [], Finished)"

definition demoBackupDrivers :: "backupEnv \<Rightarrow> string \<Rightarrow> backupDriver" where
  "demoBackupDrivers env = backupDrivers demoOtherBackups (demoJobEnv (demoRestoreJob ''r1'' 5))
     \<lparr>jbFresh = Found demoBackupJob, jbPatchErr = None, jbCreate = BackupCreated\<rparr> env"

lemmas demo_backup_evals = demoBackupJob_def demoResolved_def demoBackupEnv_def demoBackupState_def demoBackupDrivers_def
  BackupReconcile_def reconcileBackup_def ResolveBackupClass_def restoreGate_def activeRestoreTargeting_def
  holdForRestore_def releaseRestoreHold_def storeBackupJob_def runBackup_def backupDrivers_def reconcileJob_def
  holds_def platformStrategy_def

text \<open>A waiting restore of the application holds the job; without one it starts.\<close>

theorem BackupReconcile_gate_witness:
  "bsJob (fst (BackupReconcile demoCodec demoNoCredentials (demoBackupDrivers (demoBackupEnv [demoRestoreJob ''r1'' 5])) ''ns''
       (demoBackupEnv [demoRestoreJob ''r1'' 5]) demoBackupState))
     = Some (demoBackupJob\<lparr>bjPhase := PhasePending, bjReady := Some (False, ''RestoreInProgress'')\<rparr>) \<and>
   fst (snd (BackupReconcile demoCodec demoNoCredentials (demoBackupDrivers (demoBackupEnv [demoRestoreJob ''r1'' 5])) ''ns''
       (demoBackupEnv [demoRestoreJob ''r1'' 5]) demoBackupState)) = []"
proof -
  let ?env = "demoBackupEnv [demoRestoreJob ''r1'' 5]"
  let ?run = "BackupReconcile demoCodec demoNoCredentials (demoBackupDrivers ?env) ''ns'' ?env demoBackupState"
  have run: "?run = (fst ?run, fst (snd ?run), snd (snd ?run))" by simp
  have "holds (beBackup ?env) ''ns'' (NormalizeApplicationRef (bjApplicationRef demoBackupJob)) (demoRestoreJob ''r1'' 5)"
    by (simp add: demo_backup_evals demo_evals)
  then have "fst (snd ?run) = []"
    using BackupReconcile_gate [OF run, of demoBackupJob] by (simp add: demoBackupState_def demoBackupEnv_def demoBackupJob_def demoRestoreJob_def)
  moreover have "bsJob (fst ?run)
      = Some (demoBackupJob\<lparr>bjPhase := PhasePending, bjReady := Some (False, ''RestoreInProgress'')\<rparr>)"
    by (simp add: demo_backup_evals demo_evals Let_def ConditionReasonRestoreInProgress_def)
  ultimately show ?thesis by simp
qed

text \<open>C22: A pass over a BackupJob keeps what the job asks for, never takes a start back, and keeps that
  a job that is over has a completion time and only such a job refers to a Backup. It ends without another
  wake-up or an error only when the job is over, with one exception: a job whose class names a
  strategy of a foreign API group is left to another controller, unfinished and untouched. This covers
  every outcome of resolving the class, unknown and misbound classes and unsupported kinds included,
  and of the platform's strategies the Job strategy; the drivers of the other kinds are parameters
  here and nothing is claimed for them.\<close>

theorem BackupReconcile_advances:
  assumes "BackupReconcile lib cfg (backupDrivers others je be env) ns env st = (st', effs, out)" "bsJob st = Some j"
    and "beCached env = Found cached" "\<not> terminal (bjPhase cached)" "wfBackupJob j"
    and "\<And>r. ResolveBackupClass (beClass env) (bjBackupClassName j) (NormalizeApplicationRef (bjApplicationRef j)) = Inr r \<Longrightarrow>
      platformStrategy env j \<Longrightarrow> arKind (rcStrategyRef r) = JobStrategyKind"
  shows "\<exists>j'. bsJob st' = Some j' \<and> sameBackupRequest j' j \<and> wfBackupJob j' \<and>
    (bjStartedAt j \<noteq> None \<longrightarrow> bjStartedAt j' \<noteq> None) \<and>
    (out = Finished \<longrightarrow> terminal (bjPhase j') \<or> foreignStrategy env j \<and> st' = st \<and> effs = [])"
proof (cases "terminal (bjPhase j)")
  case True
  then show ?thesis using assms(1-5) by (auto simp: BackupReconcile_def sameBackupRequest_def split: option.splits)
next
  case False
  from assms(1,2) show ?thesis
  proof (cases rule: BackupReconcile_run)
    case idle
    then show ?thesis using False assms(2-5) by (auto simp: sameBackupRequest_def)
  next
    case pass
    from pass(2) show ?thesis
    proof (cases rule: reconcileBackup_cases)
      case (early j')
      then show ?thesis using assms(5) by (auto simp: advances_def)
    next
      case (held j')
      then show ?thesis using restoreGate_Inl_advances [OF held(3) assms(5) False] by (auto simp: advances_def)
    next
      case (run j' r)
      note k = restoreGate_Inr [OF run(1)]
      have "wfBackupJob j'" "\<not> terminal (bjPhase j')" using assms(5) False k by (simp_all add: wfBackupJob_def)
      then have "\<exists>j''. bsJob st' = Some j'' \<and> advances j' j'' out"
        using run(4) assms(6) [OF run(3,2)]
        by (intro job_backup.runBackup_advances [of _ "backupDrivers others je be env" r je be env])
          (auto simp: backupDrivers_def)
      then show ?thesis using k by (auto simp: advances_def sameBackupRequest_def)
    qed (use assms(2,5) in \<open>auto simp: sameBackupRequest_def\<close>)
  qed
qed

theorem BackupReconcile_advances_witness:
  "\<exists>j'. bsJob (fst (BackupReconcile demoCodec demoNoCredentials (demoBackupDrivers (demoBackupEnv [])) ''ns''
       (demoBackupEnv []) demoBackupState)) = Some j' \<and> bjStartedAt j' = Some 100 \<and> wfBackupJob j'"
proof -
  let ?run = "BackupReconcile demoCodec demoNoCredentials (demoBackupDrivers (demoBackupEnv [])) ''ns'' (demoBackupEnv []) demoBackupState"
  have run: "BackupReconcile demoCodec demoNoCredentials (backupDrivers demoOtherBackups (demoJobEnv (demoRestoreJob ''r1'' 5))
      \<lparr>jbFresh = Found demoBackupJob, jbPatchErr = None, jbCreate = BackupCreated\<rparr> (demoBackupEnv [])) ''ns'' (demoBackupEnv [])
      demoBackupState = (fst ?run, fst (snd ?run), snd (snd ?run))"
    by (simp add: demoBackupDrivers_def)
  have r: "ResolveBackupClass (beClass (demoBackupEnv [])) (bjBackupClassName demoBackupJob)
      (NormalizeApplicationRef (bjApplicationRef demoBackupJob)) = Inr demoResolved"
    by (simp add: demo_backup_evals NormalizeApplicationRef_def)
  have "\<exists>j'. bsJob (fst ?run) = Some j' \<and> wfBackupJob j'"
    using BackupReconcile_advances [OF run, of demoBackupJob demoBackupJob] r
    by (auto simp: demoBackupState_def demoBackupEnv_def demoBackupJob_def demoResolved_def wfBackupJob_def terminal_def)
  moreover have "map_option bjStartedAt (bsJob (fst ?run)) = Some (Some 100)"
    by (simp add: demo_backup_evals demo_evals Let_def)
  ultimately show ?thesis by auto
qed

text \<open>C21: The Backup that a run of the Job strategy leaves refers to the strategy of the run and gives
  its parameters back. A RestoreJob of it without a target restores into the application the run
  backed up, the lock guards that application, and the first pass of its driver runs the pod that the
  strategy renders for a restore with the parameters of the run.\<close>

theorem job_backup_restore_roundtrip:
  assumes "reconcileJob je be env j resolved = (j', effs, out)" "CreateBackup b \<in> set effs"
    and "arKind (rcStrategyRef resolved) = JobStrategyKind" "\<forall>(k, v) \<in> set (rcParameters resolved). k \<noteq> []"
    and "getBackup (rjBackupRef rj) = Found b" "rjTargetRef rj = None"
  shows "bkName b = bjName j \<and> bkStrategyRef b = rcStrategyRef resolved \<and>
    jobStrategyParameters b = rcParameters resolved \<and>
    NormalizeApplicationRef (jobRestoreTarget rj b) = NormalizeApplicationRef (bjApplicationRef j) \<and>
    restoreJobTarget getBackup ns rj = Inr (Some (NormalizeApplicationRef (bjApplicationRef j))) \<and>
    (\<forall>je' renv tmpl app pod. jeStrategy je' (arName (rcStrategyRef resolved)) = Found tmpl \<and>
       jeApp je' (jobRestoreTarget rj b) = Found app \<and>
       jeRender je' tmpl app (arName (bjApplicationRef j)) ''restore'' (rcParameters resolved) (Some b) = Some pod \<and>
       jeJob je' (jobNameForRestoreJob rj) = Missing \<and> jeCreate je' = JobCreated \<longrightarrow>
       runJobRestore je' renv rj rj b =
         (rj, [CreateBatchJob (jobNameForRestoreJob rj) ''restore'' pod], RequeueAfter jobStrategyPollInterval))"
proof -
  have b: "b = jobBackupArtifact j resolved" using reconcileJob_artifact assms(1,2) by blast
  then have f: "bkName b = bjName j" "bkStrategyRef b = rcStrategyRef resolved" "bkApplicationRef b = bjApplicationRef j"
    by (simp_all add: jobBackupArtifact_def)
  have p: "jobStrategyParameters b = rcParameters resolved"
    using assms(4) by (simp add: b jobStrategyParameters_artifact filter_id_conv)
  have t: "jobRestoreTarget rj b = (bjApplicationRef j)\<lparr>arGroup := Some (ptrString (arGroup (bjApplicationRef j)))\<rparr>"
    using assms(6) f by (simp add: jobRestoreTarget_def Let_def)
  then have n: "NormalizeApplicationRef (jobRestoreTarget rj b) = NormalizeApplicationRef (bjApplicationRef j)"
    by (simp add: NormalizeApplicationRef_def ptrString_def split: option.splits)
  have "restoreJobTarget getBackup ns rj = Inr (Some (NormalizeApplicationRef (jobRestoreTarget rj b)))"
    using assms(3,5,6) f(2) by (intro restoreJobTarget_driver) auto
  then show ?thesis using f p n
    by (auto simp: runJobRestore_def t ensureJobStrategyRestoreJob_def)
qed

theorem job_backup_restore_roundtrip_witness:
  "jobStrategyParameters (jobBackupArtifact (demoBackupJob\<lparr>bjStartedAt := Some 1, bjPhase := PhaseRunning\<rparr>) demoResolved)
     = [(''bucket'', ''b'')] \<and>
   restoreJobTarget (\<lambda>n. Found (jobBackupArtifact (demoBackupJob\<lparr>bjStartedAt := Some 1, bjPhase := PhaseRunning\<rparr>) demoResolved))
     ''ns'' (demoRestoreJob ''r1'' 5)
     = Inr (Some \<lparr>arGroup = Some ''apps.cozystack.io'', arKind = ''Postgres'', arName = ''db''\<rparr>)"
proof -
  let ?j = "demoBackupJob\<lparr>bjStartedAt := Some 1, bjPhase := PhaseRunning\<rparr>"
  let ?je = "demoJobEnv (demoRestoreJob ''r1'' 5)\<lparr>jeStrategy := \<lambda>n. Found ''t'', jeApp := \<lambda>r. Found ''a'',
    jeRender := \<lambda>a b c d e f. Some ''pod'', jeJob := \<lambda>n. Found [\<lparr>jcType = ''Complete'', jcTrue = True, jcMessage = []\<rparr>]\<rparr>"
  let ?be = "\<lparr>jbFresh = Found demoBackupJob, jbPatchErr = None, jbCreate = BackupCreated\<rparr>"
  let ?run = "reconcileJob ?je ?be (demoBackupEnv []) ?j demoResolved"
  have run: "?run = (fst ?run, fst (snd ?run), snd (snd ?run))" by simp
  have b: "CreateBackup (jobBackupArtifact ?j demoResolved) \<in> set (fst (snd ?run))"
    by (simp add: demoBackupEnv_def reconcileJob_def runJobBackup_def ensureJobStrategyJob_def createJobBackupArtifact_def
        completeBackup_def demoBackupJob_def terminal_def)
  show ?thesis
    using job_backup_restore_roundtrip [OF run b, where rj = "demoRestoreJob ''r1'' 5" and ns = "''ns''"
        and getBackup = "\<lambda>n. Found (jobBackupArtifact ?j demoResolved)"]
    by (simp add: demoResolved_def demoRestoreJob_def demoBackupJob_def NormalizeApplicationRef_def DefaultApplicationAPIGroup_def)
qed

end
