(* ===== verification/Backup_Plan.thy ===== *)
theory Backup_Plan
  imports Backup_Job
begin

text \<open>
  The Plan controller (internal/backupcontroller/plan\_controller.go) and the BackupJobs it makes
  (internal/backupcontroller/factory/backupjob.go). Times are nanoseconds since the epoch. The cron
  library is the argument \<open>parse\<close>: it rejects a specification or gives its \<open>Next\<close>. A pass reads the
  clock three times; the record \<open>planEnv\<close> holds the readings and what the API answers.
\<close>

subsection \<open>The pass\<close>

definition startingDeadline :: int where "startingDeadline = 300 * second"

record Plan =
  plName :: string
  plApplicationRef :: AppRef
  plBackupClassName :: string
  plCron :: string
  plError :: "bool option" \<comment> \<open>status of the condition \<open>Error\<close>\<close>

datatype create_reply = Created | AlreadyExists | CreateError string

record planEnv =
  peParse :: "string \<Rightarrow> (int \<Rightarrow> int) option"
  peNow :: int \<comment> \<open>the clock when the pass starts\<close>
  peNowDue :: int \<comment> \<open>when it asks whether the run is due\<close>
  peNowWait :: int \<comment> \<open>when it computes the wait\<close>
  peStatusErr :: bool
  peOwnerErr :: bool
  peCreate :: create_reply

definition BackupJobFor :: "Plan \<Rightarrow> int \<Rightarrow> BackupJob" where
  "BackupJobFor p scheduledFor =
     \<lparr>bjName = plName p @ ''-'' @ itoa (scheduledFor div second div 60),
      bjApplicationRef = NormalizeApplicationRef (plApplicationRef p), bjBackupClassName = plBackupClassName p,
      bjPlanRef = Some (plName p), bjPhase = PhaseEmpty, bjBackupRef = None, bjStartedAt = None,
      bjCompletedAt = None, bjReady = None\<rparr>"

text \<open>The pass gives the stored plan, the BackupJob it asks the API to create and the outcome.\<close>

definition schedulePlan :: "planEnv \<Rightarrow> (int \<Rightarrow> int) \<Rightarrow> Plan \<Rightarrow> Plan \<times> BackupJob option \<times> job_outcome" where
  "schedulePlan env sched p =
     (let tNext = sched (peNow env - startingDeadline) in
      if peNowDue env < tNext then (p, None, RequeueAfter (tNext - peNowWait env))
      else if peOwnerErr env then (p, None, Failing ''owner reference'')
      else (p, Some (BackupJobFor p tNext),
            (case peCreate env of
               CreateError e \<Rightarrow> Failing e
             | _ \<Rightarrow> RequeueAfter startingDeadline)))"

definition PlanReconcile :: "planEnv \<Rightarrow> Plan fetched \<Rightarrow> Plan option \<times> BackupJob option \<times> job_outcome" where
  "PlanReconcile env stored =
     (case stored of
        Missing \<Rightarrow> (None, None, Finished)
      | FetchError e \<Rightarrow> (None, None, Failing e)
      | Found p \<Rightarrow>
          (case peParse env (plCron p) of
             None \<Rightarrow>
               if peStatusErr env then (Some p, None, Failing ''update status'')
               else (Some (p\<lparr>plError := Some True\<rparr>), None, Finished)
           | Some sched \<Rightarrow>
               if plError p = Some True then
                 (if peStatusErr env then (Some p, None, Failing ''update status'')
                  else apfst Some (schedulePlan env sched (p\<lparr>plError := Some False\<rparr>)))
               else apfst Some (schedulePlan env sched p)))"

subsection \<open>The schedule\<close>

text \<open>What the library documents of a five-field specification: \<open>Next\<close> gives the first activation
  after a time. The activations are at least \<open>gap\<close> apart.\<close>

definition activations :: "(int \<Rightarrow> int) \<Rightarrow> int set \<Rightarrow> int \<Rightarrow> bool" where
  "activations sched ticks gap \<longleftrightarrow>
     (\<forall>t. sched t \<in> ticks \<and> t < sched t \<and> (\<forall>x \<in> ticks. t < x \<longrightarrow> sched t \<le> x)) \<and>
     (\<forall>x \<in> ticks. \<forall>y \<in> ticks. x < y \<longrightarrow> x + gap \<le> y)"

text \<open>Passes over a plan: the clock does not go back during a pass, no call fails, and a pass starts
  after the wait the previous one asked for, at most \<open>late\<close> later. A wait that is not positive is not
  a wake-up, so the clock must not pass the activation between the last two readings.\<close>

definition planPass :: "planEnv \<Rightarrow> Plan \<Rightarrow> (int \<Rightarrow> int) \<Rightarrow> bool" where
  "planPass env p sched \<longleftrightarrow> peParse env (plCron p) = Some sched \<and> \<not> peStatusErr env \<and> \<not> peOwnerErr env \<and>
     peCreate env \<in> {Created, AlreadyExists} \<and> peNow env \<le> peNowDue env \<and> peNowDue env \<le> peNowWait env \<and>
     (peNowDue env < sched (peNow env - startingDeadline) \<longrightarrow> peNowWait env < sched (peNow env - startingDeadline))"

definition plan_run :: "(nat \<Rightarrow> planEnv) \<Rightarrow> (nat \<Rightarrow> Plan) \<Rightarrow> (int \<Rightarrow> int) \<Rightarrow> int \<Rightarrow> bool" where
  "plan_run env p sched late \<longleftrightarrow> (\<forall>i. planPass (env i) (p i) sched \<and>
     Some (p (Suc i)) = fst (PlanReconcile (env i) (Found (p i))) \<and>
     (\<forall>w. snd (snd (PlanReconcile (env i) (Found (p i)))) = RequeueAfter w \<longrightarrow>
        peNowWait (env i) + w \<le> peNow (env (Suc i)) \<and> peNow (env (Suc i)) \<le> peNow (env i) + w + late))"

definition requests :: "planEnv \<Rightarrow> Plan \<Rightarrow> BackupJob option" where
  "requests env p = fst (snd (PlanReconcile env (Found p)))"

lemma PlanReconcile_pass:
  assumes "planPass env p sched" "tNext = sched (peNow env - startingDeadline)"
  shows "requests env p = (if peNowDue env < tNext then None else Some (BackupJobFor p tNext))"
    and "snd (snd (PlanReconcile env (Found p))) =
      RequeueAfter (if peNowDue env < tNext then tNext - peNowWait env else startingDeadline)"
    and "\<exists>q. fst (PlanReconcile env (Found p)) = Some q \<and> BackupJobFor q = BackupJobFor p"
  using assms by (auto simp: requests_def PlanReconcile_def planPass_def schedulePlan_def BackupJobFor_def Let_def fun_eq_iff
      split: option.splits if_splits create_reply.splits)

lemma plan_run_job: "plan_run env p sched late \<Longrightarrow> BackupJobFor (p i) = BackupJobFor (p 0)"
proof (induction i)
  case (Suc i)
  then have "planPass (env i) (p i) sched" "Some (p (Suc i)) = fst (PlanReconcile (env i) (Found (p i)))"
    by (auto simp: plan_run_def)
  with PlanReconcile_pass(3) have "BackupJobFor (p (Suc i)) = BackupJobFor (p i)" by (metis option.inject)
  with Suc show ?case by simp
qed simp

text \<open>One pass: the activation is requested, or it is still ahead of the next pass, which is later.\<close>

lemma plan_run_step:
  assumes run: "plan_run env p sched late" and act: "activations sched ticks (startingDeadline + late)"
    and late: "0 \<le> late" "late < startingDeadline" and T: "T \<in> ticks" "peNow (env i) - startingDeadline < T"
  shows "requests (env i) (p i) = Some (BackupJobFor (p i) T) \<or>
    (peNow (env (Suc i)) - startingDeadline < T \<and> peNow (env i) < peNow (env (Suc i)))"
proof -
  define t where "t = sched (peNow (env i) - startingDeadline)"
  have pass: "planPass (env i) (p i) sched" using run by (simp add: plan_run_def)
  then have now: "peNow (env i) \<le> peNowDue (env i)" "peNowDue (env i) \<le> peNowWait (env i)" by (simp_all add: planPass_def)
  note next_start = run [unfolded plan_run_def, rule_format, of i, THEN conjunct2, THEN conjunct2, rule_format,
      OF PlanReconcile_pass(2) [OF pass t_def]]
  have t: "t \<in> ticks" "peNow (env i) - startingDeadline < t" "t \<le> T"
    and gap: "t < T \<Longrightarrow> t + (startingDeadline + late) \<le> T"
    using act T by (auto simp: activations_def t_def)
  have pos: "0 < startingDeadline" by (simp add: startingDeadline_def second_def)
  show ?thesis
  proof (cases "peNowDue (env i) < t")
    case True
    then show ?thesis using next_start now t late by auto
  next
    case False
    then show ?thesis using next_start now t gap late pos PlanReconcile_pass(1) [OF pass t_def] by (cases "t = T") auto
  qed
qed

lemma plan_run_requests:
  assumes run: "plan_run env p sched late" and act: "activations sched ticks (startingDeadline + late)"
    and late: "0 \<le> late" "late < startingDeadline" and T: "T \<in> ticks"
  shows "peNow (env i) - startingDeadline < T \<Longrightarrow> \<exists>k \<ge> i. requests (env k) (p k) = Some (BackupJobFor (p k) T)"
proof (induction "nat (T - (peNow (env i) - startingDeadline))" arbitrary: i rule: less_induct)
  case less
  from plan_run_step [OF run act late T less.prems] show ?case
  proof
    assume "peNow (env (Suc i)) - startingDeadline < T \<and> peNow (env i) < peNow (env (Suc i))"
    then have "\<exists>k \<ge> Suc i. requests (env k) (p k) = Some (BackupJobFor (p k) T)"
      by (intro less.hyps) auto
    then show ?thesis using Suc_leD by blast
  qed blast
qed

lemma BackupJobFor_inj:
  assumes "0 \<le> x" "0 \<le> y" "x + 60 * second \<le> y"
  shows "bjName (BackupJobFor p x) \<noteq> bjName (BackupJobFor p y)"
proof -
  have "x div second + 60 \<le> y div second"
    using zdiv_mono1 [OF assms(3), of second] by (simp add: second_def)
  then have "x div second div 60 < y div second div 60" by linarith
  moreover have "0 \<le> x div second div 60" using assms(1) by (simp add: second_def pos_imp_zdiv_nonneg_iff)
  ultimately have "itoa (x div second div 60) \<noteq> itoa (y div second div 60)"
    using itoa_inj_nonneg [of "x div second div 60" "y div second div 60"] by linarith
  then show ?thesis by (simp add: BackupJobFor_def)
qed

text \<open>A specification without fixed activations, such as a constant delay after the time given to
  \<open>Next\<close>, is never due when the delay is longer than the deadline. And when activations are closer
  than the deadline, those up to a pass that requests one of them are not requested by the next pass.\<close>

lemma constant_delay_never_due:
  "planPass env p (\<lambda>t. t + d) \<Longrightarrow> peNowDue env < peNow env - startingDeadline + d \<Longrightarrow> requests env p = None"
  using PlanReconcile_pass(1) [of env p "\<lambda>t. t + d"] by simp

lemma close_activations_skipped:
  assumes "plan_run env p sched late" "activations sched ticks gap" "requests (env i) (p i) = Some j"
    and "requests (env (Suc i)) (p (Suc i)) = Some j'"
  shows "\<exists>x \<in> ticks. j' = BackupJobFor (p (Suc i)) x \<and> peNow (env i) < x"
proof -
  have pass: "planPass (env k) (p k) sched" for k using assms(1) by (simp add: plan_run_def)
  have due: "\<not> peNowDue (env i) < sched (peNow (env i) - startingDeadline)"
    using PlanReconcile_pass(1) [OF pass refl, of i] assms(3) by (auto split: if_splits)
  then have "snd (snd (PlanReconcile (env i) (Found (p i)))) = RequeueAfter startingDeadline"
    using PlanReconcile_pass(2) [OF pass refl, of i] by simp
  then have "peNowWait (env i) + startingDeadline \<le> peNow (env (Suc i))" using assms(1) by (simp add: plan_run_def)
  moreover have "peNow (env i) \<le> peNowWait (env i)" using pass [of i] by (simp add: planPass_def)
  moreover have "j' = BackupJobFor (p (Suc i)) (sched (peNow (env (Suc i)) - startingDeadline))"
    using PlanReconcile_pass(1) [OF pass refl, of "Suc i"] assms(4) by (auto split: if_splits)
  moreover have "peNow (env (Suc i)) - startingDeadline < sched (peNow (env (Suc i)) - startingDeadline)"
    "sched (peNow (env (Suc i)) - startingDeadline) \<in> ticks"
    using assms(2) by (simp_all add: activations_def)
  ultimately show ?thesis by force
qed

subsection \<open>Properties\<close>

text \<open>C24: The schedules a Plan can keep. Suppose the activations are at least five minutes and the
  lateness of a pass apart, every pass starts after the wait the one before asked for and less than
  five minutes late, no call of a pass fails, and the clock does not reach the activation between the
  last two readings of a pass. Then every activation from five minutes before the first pass on is
  requested as a BackupJob by some pass, always under the same name, and the jobs of different
  activations have different names; every request is for an activation that is due and at most five
  minutes past when the pass starts. Without these conditions activations are lost: closer ones
  (\<open>close_activations_skipped\<close>), constant delays over five minutes (\<open>constant_delay_never_due\<close>), and
  a wait that is not positive, after which no pass comes.\<close>

theorem plan_covers_schedule:
  assumes "plan_run env p sched late" "activations sched ticks (startingDeadline + late)"
    and "0 \<le> late" "late < startingDeadline" "T \<in> ticks" "peNow (env 0) - startingDeadline < T"
  shows "(\<exists>k. requests (env k) (p k) = Some (BackupJobFor (p 0) T)) \<and>
    (\<forall>k j. requests (env k) (p k) = Some j \<longrightarrow>
      (\<exists>x \<in> ticks. j = BackupJobFor (p 0) x \<and> x \<le> peNowDue (env k) \<and> peNow (env k) - startingDeadline < x)) \<and>
    (\<forall>x \<in> ticks. 0 \<le> x \<and> 0 \<le> T \<and> x \<noteq> T \<longrightarrow> bjName (BackupJobFor (p 0) x) \<noteq> bjName (BackupJobFor (p 0) T))"
proof (intro conjI allI ballI impI)
  show "\<exists>k. requests (env k) (p k) = Some (BackupJobFor (p 0) T)"
    using plan_run_requests [OF assms] plan_run_job [OF assms(1)] by metis
next
  fix k j assume r: "requests (env k) (p k) = Some j"
  have pass: "planPass (env k) (p k) sched" using assms(1) by (simp add: plan_run_def)
  let ?t = "sched (peNow (env k) - startingDeadline)"
  have "\<not> peNowDue (env k) < ?t" "j = BackupJobFor (p 0) ?t"
    using PlanReconcile_pass(1) [OF pass refl] r plan_run_job [OF assms(1), of k] by (auto split: if_splits)
  moreover have "?t \<in> ticks" "peNow (env k) - startingDeadline < ?t" using assms(2) by (simp_all add: activations_def)
  ultimately show "\<exists>x \<in> ticks. j = BackupJobFor (p 0) x \<and> x \<le> peNowDue (env k) \<and> peNow (env k) - startingDeadline < x"
    by force
next
  fix x assume x: "x \<in> ticks" "0 \<le> x \<and> 0 \<le> T \<and> x \<noteq> T"
  have gap: "60 * second \<le> startingDeadline + late" using assms(3) by (simp add: startingDeadline_def second_def)
  have "x + 60 * second \<le> T \<or> T + 60 * second \<le> x"
  proof (cases "x < T")
    case True
    then have "x + (startingDeadline + late) \<le> T" using assms(2,5) x(1) by (simp add: activations_def)
    then show ?thesis using gap by linarith
  next
    case False
    then have "T + (startingDeadline + late) \<le> x" using assms(2,5) x by (simp add: activations_def)
    then show ?thesis using gap by linarith
  qed
  then show "bjName (BackupJobFor (p 0) x) \<noteq> bjName (BackupJobFor (p 0) T)"
    using BackupJobFor_inj [of x T "p 0"] BackupJobFor_inj [of T x "p 0"] x(2) by argo
qed

definition demoSchedule :: "int \<Rightarrow> int" where
  "demoSchedule t = (t div startingDeadline + 1) * startingDeadline"

definition demoPlan :: Plan where
  "demoPlan = \<lparr>plName = ''p'', plApplicationRef = \<lparr>arGroup = None, arKind = ''Postgres'', arName = ''db''\<rparr>,
     plBackupClassName = ''daily'', plCron = ''*/5 * * * *'', plError = None\<rparr>"

definition demoPlanEnv :: "nat \<Rightarrow> planEnv" where
  "demoPlanEnv i = \<lparr>peParse = (\<lambda>c. Some demoSchedule), peNow = int i * startingDeadline, peNowDue = int i * startingDeadline,
     peNowWait = int i * startingDeadline, peStatusErr = False, peOwnerErr = False, peCreate = Created\<rparr>"

lemma demoSchedule_activations: "activations demoSchedule (range (\<lambda>k. k * startingDeadline)) (startingDeadline + 0)"
proof -
  have pos: "0 < startingDeadline" by (simp add: startingDeadline_def second_def)
  have "t < demoSchedule t" for t
  proof -
    have "t = t div startingDeadline * startingDeadline + t mod startingDeadline" by simp
    moreover have "t mod startingDeadline < startingDeadline" using pos by (rule pos_mod_bound)
    ultimately show ?thesis unfolding demoSchedule_def distrib_right by linarith
  qed
  moreover have "demoSchedule t \<le> k * startingDeadline" if "t < k * startingDeadline" for t k
  proof -
    have "t = t div startingDeadline * startingDeadline + t mod startingDeadline" by simp
    moreover have "0 \<le> t mod startingDeadline" using pos by (rule pos_mod_sign)
    ultimately have "t div startingDeadline * startingDeadline < k * startingDeadline" using that by linarith
    then have "t div startingDeadline + 1 \<le> k" using pos by simp
    then show ?thesis using pos by (simp add: demoSchedule_def)
  qed
  moreover have "x * startingDeadline + startingDeadline \<le> y * startingDeadline" if "x * startingDeadline < y * startingDeadline" for x y
  proof -
    have "x + 1 \<le> y" using that pos by (simp add: mult_less_cancel_right)
    from mult_right_mono [OF this, of startingDeadline] pos show ?thesis by (simp add: algebra_simps)
  qed
  ultimately show ?thesis by (auto simp: activations_def demoSchedule_def)
qed

lemma demoPlan_run: "plan_run demoPlanEnv (\<lambda>i. demoPlan) demoSchedule 0"
proof -
  have pos: "0 < startingDeadline" by (simp add: startingDeadline_def second_def)
  have "(int i * startingDeadline - startingDeadline) div startingDeadline = int i - 1" for i
    using pos nonzero_mult_div_cancel_right [of startingDeadline "int i - 1"] by (simp add: algebra_simps)
  then have "demoSchedule (int i * startingDeadline - startingDeadline) = int i * startingDeadline" for i
    by (simp add: demoSchedule_def)
  then show ?thesis
    by (simp add: plan_run_def planPass_def demoPlanEnv_def PlanReconcile_def schedulePlan_def demoPlan_def algebra_simps)
qed

theorem plan_covers_schedule_witness:
  "\<exists>k. requests (demoPlanEnv k) demoPlan = Some (BackupJobFor demoPlan (7 * startingDeadline))"
  using plan_covers_schedule [OF demoPlan_run demoSchedule_activations, of "7 * startingDeadline"]
  by (simp add: demoPlanEnv_def startingDeadline_def second_def)

end
