(* ===== verification/Memory_Defaults.thy ===== *)
theory Memory_Defaults
  imports Go_Prelude
begin

text \<open>
  The default memory limit of system namespaces (internal/operator/package\_reconciler.go and
  package\_reconciler\_memory.go): a LimitRange per namespace that the operator writes, withdraws and
  writes again, and an annotation of the Namespace that remembers the largest default used and a
  hold that only an administrator releases. The cluster is a record of the Namespaces' annotations
  and of the LimitRanges of the reserved name. Quantities are numbers of bytes; their text form and
  the JSON of the annotation are arguments. What a pass reads besides, and which of its calls fail,
  is a record \<open>memEnv\<close>.
\<close>

subsection \<open>Data\<close>

definition SystemDefaultsLimitRangeName :: string where "SystemDefaultsLimitRangeName = ''cozystack-system-defaults''"
definition packageControllerFieldOwner :: string where "packageControllerFieldOwner = ''cozystack-package-controller''"
definition managedByLabelKey :: string where "managedByLabelKey = ''app.kubernetes.io/managed-by''"
definition MemoryStateAnnotation :: string where "MemoryStateAnnotation = ''operator.cozystack.io/system-memory-state''"
definition MemoryAcknowledgementAnnotation :: string where
  "MemoryAcknowledgementAnnotation = ''operator.cozystack.io/system-memory-ack''"

record memState =
  msVersion :: int
  msLastLimit :: string
  msHold :: string
  msTarget :: string
  msReason :: string

record memLib =
  mlString :: "int \<Rightarrow> string" \<comment> \<open>\<open>Quantity.String\<close>\<close>
  mlParse :: "string \<Rightarrow> int option" \<comment> \<open>\<open>ParseQuantity\<close>\<close>
  mlMarshal :: "memState \<Rightarrow> string"
  mlUnmarshal :: "string \<Rightarrow> memState option"

record LimitRangeItem =
  liType :: string
  liDefault :: "string \<rightharpoonup> int"
  liDefaultRequest :: "string \<rightharpoonup> int"
  liMax :: "string \<rightharpoonup> int"
  liMin :: "string \<rightharpoonup> int"
  liRatio :: "string \<rightharpoonup> int"

record LimitRange =
  lrName :: string
  lrLabels :: "string \<rightharpoonup> string"
  lrLimits :: "LimitRangeItem list"

record memConfig =
  mcLimit :: int
  mcRequest :: int

record memCluster =
  mcNs :: "string \<rightharpoonup> (string \<rightharpoonup> string)" \<comment> \<open>the annotations of each Namespace\<close>
  mcRange :: "string \<rightharpoonup> LimitRange" \<comment> \<open>the LimitRange of the reserved name in each namespace\<close>

record podContainer =
  ctName :: string
  ctHasLimit :: bool \<comment> \<open>declares a memory limit\<close>
  ctRequest :: "int option" \<comment> \<open>memory request\<close>

record podSpec =
  poInit :: "podContainer list"
  poContainers :: "podContainer list"

datatype podPhase = PodSucceeded | PodFailed | PodOther

record memPod =
  mpName :: string
  mpPhase :: podPhase
  mpJob :: string \<comment> \<open>UID of the controlling batch Job, if any\<close>
  mpSpec :: podSpec

record memJob =
  mjName :: string
  mjUID :: string
  mjConditions :: "(string \<times> bool) list"
  mjSpec :: podSpec

record memEnv =
  meDeployments :: "string + (string \<times> podSpec) list"
  meStatefulSets :: "string + (string \<times> podSpec) list"
  meDaemonSets :: "string + (string \<times> podSpec) list"
  meCronJobs :: "string + (string \<times> podSpec) list"
  meJobs :: "string + memJob list"
  mePods :: "string + memPod list"
  meRanges :: "string + LimitRange list" \<comment> \<open>the LimitRanges of the namespace in the cache\<close>
  meUUID :: string
  meReadErr :: bool \<comment> \<open>reading the LimitRange fails\<close>
  meNsErr :: bool \<comment> \<open>reading the Namespace fails\<close>
  mePatchErr :: bool \<comment> \<open>writing the state fails\<close>
  meWriteErr :: bool \<comment> \<open>creating or applying the LimitRange fails\<close>
  meDelReadErr :: bool \<comment> \<open>the same for the calls of a deletion\<close>
  meDelNsErr :: bool
  meDelPatchErr :: bool
  meDeleteErr :: bool

subsection \<open>Requests above the default\<close>

record memoryRequestBlocker =
  mbWorkload :: string
  mbContainer :: string
  mbRequest :: int

definition considerContainer ::
    "int \<Rightarrow> string \<Rightarrow> podContainer \<Rightarrow> memoryRequestBlocker option \<Rightarrow> memoryRequestBlocker option" where
  "considerContainer limit workload c worst =
     (if ctHasLimit c then worst
      else case ctRequest c of
        None \<Rightarrow> worst
      | Some request \<Rightarrow>
          if request \<le> limit then worst
          else if (case worst of None \<Rightarrow> True | Some w \<Rightarrow> mbRequest w < request)
            then Some \<lparr>mbWorkload = workload, mbContainer = ctName c, mbRequest = request\<rparr>
          else worst)"

definition considerSpec ::
    "int \<Rightarrow> podSpec \<Rightarrow> string \<Rightarrow> memoryRequestBlocker option \<Rightarrow> memoryRequestBlocker option" where
  "considerSpec limit spec workload worst =
     fold (considerContainer limit workload) (poInit spec @ poContainers spec) worst"

definition jobFinished :: "memJob \<Rightarrow> bool" where
  "jobFinished job = list_ex (\<lambda>(t, true). true \<and> (t = ''Complete'' \<or> t = ''Failed'')) (mjConditions job)"

definition finishedJobUIDs :: "memJob list \<Rightarrow> string set" where
  "finishedJobUIDs jobs = set (filter (\<lambda>u. u \<noteq> []) (map mjUID (filter jobFinished jobs)))"

definition podCounts :: "memJob list \<Rightarrow> memPod \<Rightarrow> bool" where
  "podCounts jobs pod \<longleftrightarrow> mpPhase pod \<noteq> PodSucceeded \<and> \<not> (mpPhase pod = PodFailed \<and> mpJob pod \<in> finishedJobUIDs jobs)"

text \<open>The specifications the scan looks at, in its order, each with the name of its workload.\<close>

definition scannedSpecs :: "memEnv \<Rightarrow> string + (podSpec \<times> string) list" where
  "scannedSpecs env =
     try_bind (meDeployments env) (\<lambda>ds.
     try_bind (meStatefulSets env) (\<lambda>ss.
     try_bind (meDaemonSets env) (\<lambda>dms.
     try_bind (meCronJobs env) (\<lambda>cjs.
     try_bind (meJobs env) (\<lambda>js.
     try_bind (mePods env) (\<lambda>pods.
       Inr (map (\<lambda>(n, s). (s, ''Deployment/'' @ n)) ds @ map (\<lambda>(n, s). (s, ''StatefulSet/'' @ n)) ss @
            map (\<lambda>(n, s). (s, ''DaemonSet/'' @ n)) dms @ map (\<lambda>(n, s). (s, ''CronJob/'' @ n)) cjs @
            map (\<lambda>j. (mjSpec j, ''Job/'' @ mjName j)) (filter (\<lambda>j. \<not> jobFinished j) js) @
            map (\<lambda>p. (mpSpec p, ''Pod/'' @ mpName p)) (filter (podCounts js) pods))))))))"

definition findRequestAboveDefaultLimit :: "int \<Rightarrow> memEnv \<Rightarrow> string + memoryRequestBlocker option" where
  "findRequestAboveDefaultLimit limit env =
     try_bind (scannedSpecs env) (\<lambda>specs. Inr (fold (\<lambda>(s, w). considerSpec limit s w) specs None))"

subsection \<open>Policies of others\<close>

definition constrainsMemory :: "LimitRangeItem \<Rightarrow> bool" where
  "constrainsMemory item \<longleftrightarrow>
     (liType item = ''Container'' \<or> liType item = ''Pod'') \<and>
     (liDefault item ''memory'' \<noteq> None \<or> liDefaultRequest item ''memory'' \<noteq> None \<or> liMax item ''memory'' \<noteq> None \<or>
      liMin item ''memory'' \<noteq> None \<or> liRatio item ''memory'' \<noteq> None)"

definition rangeOwned :: "LimitRange \<Rightarrow> bool" where
  "rangeOwned lr \<longleftrightarrow> strOf (lrLabels lr) managedByLabelKey = packageControllerFieldOwner"

fun foreignPolicyIn :: "LimitRange list \<Rightarrow> string" where
  "foreignPolicyIn [] = []"
| "foreignPolicyIn (lr # lrs) =
     (if lrName lr = SystemDefaultsLimitRangeName \<and> rangeOwned lr then foreignPolicyIn lrs
      else if list_ex constrainsMemory (lrLimits lr) then lrName lr
      else foreignPolicyIn lrs)"

definition foreignContainerMemoryPolicy :: "memEnv \<Rightarrow> string + string" where
  "foreignContainerMemoryPolicy env = try_bind (meRanges env) (\<lambda>lrs. Inr (foreignPolicyIn lrs))"

subsection \<open>The remembered state\<close>

definition acknowledgement :: "memState \<Rightarrow> string" where
  "acknowledgement s = msHold s @ '':'' @ msTarget s"

definition badQuantity :: "memLib \<Rightarrow> string \<Rightarrow> bool" where
  "badQuantity lib v \<longleftrightarrow> v \<noteq> [] \<and> (case mlParse lib v of None \<Rightarrow> True | Some q \<Rightarrow> q \<le> 0)"

definition mustParse :: "memLib \<Rightarrow> string \<Rightarrow> int" where
  "mustParse lib v = (case mlParse lib v of None \<Rightarrow> 0 | Some q \<Rightarrow> q)"

text \<open>The state in the annotations of a Namespace; \<open>None\<close> for one that cannot be read.\<close>

definition readMemoryDefaultState :: "memLib \<Rightarrow> (string \<rightharpoonup> string) \<Rightarrow> memState option" where
  "readMemoryDefaultState lib ann =
     (case ann MemoryStateAnnotation of
        None \<Rightarrow> Some \<lparr>msVersion = 1, msLastLimit = [], msHold = [], msTarget = [], msReason = []\<rparr>
      | Some raw \<Rightarrow>
          (case mlUnmarshal lib raw of
             None \<Rightarrow> None
           | Some s \<Rightarrow>
               if msVersion s \<noteq> 1 \<or> (msHold s = []) \<noteq> (msTarget s = []) then None
               else if badQuantity lib (msLastLimit s) \<or> badQuantity lib (msTarget s) then None
               else Some s))"

definition writeMemoryDefaultState ::
    "memLib \<Rightarrow> bool \<Rightarrow> (string \<rightharpoonup> string) \<Rightarrow> memState \<Rightarrow> bool \<Rightarrow> string + (string \<rightharpoonup> string)" where
  "writeMemoryDefaultState lib patchErr ann state consumeAck =
     (let raw = mlMarshal lib state in
      if strOf ann MemoryStateAnnotation = raw \<and> (\<not> consumeAck \<or> strOf ann MemoryAcknowledgementAnnotation = [])
        then Inr ann
      else if patchErr then Inl ''patch namespace''
      else
        let ann' = ann(MemoryStateAnnotation \<mapsto> raw) in
        Inr (if consumeAck then ann'(MemoryAcknowledgementAnnotation := None) else ann'))"

fun memoryDefaultLimit :: "LimitRangeItem list \<Rightarrow> int" where
  "memoryDefaultLimit [] = 0"
| "memoryDefaultLimit (i # is) =
     (if liType i = ''Container'' then (case liDefault i ''memory'' of None \<Rightarrow> 0 | Some q \<Rightarrow> q) else memoryDefaultLimit is)"

definition putState :: "string \<Rightarrow> (string \<rightharpoonup> string) \<Rightarrow> memCluster \<Rightarrow> memCluster" where
  "putState ns ann st = st\<lparr>mcNs := (mcNs st)(ns \<mapsto> ann)\<rparr>"

definition rememberMemoryDefault ::
    "memLib \<Rightarrow> memEnv \<Rightarrow> string \<Rightarrow> LimitRange \<Rightarrow> memCluster \<Rightarrow> memCluster \<times> string option" where
  "rememberMemoryDefault lib env ns lr st =
     (case (if meDelNsErr env then None else mcNs st ns) of
        None \<Rightarrow> (st, Some ''read namespace'')
      | Some ann \<Rightarrow>
          (case readMemoryDefaultState lib ann of
             None \<Rightarrow> (st, None)
           | Some s \<Rightarrow>
               let limit = memoryDefaultLimit (lrLimits lr) in
               if limit = 0 \<or> (msLastLimit s \<noteq> [] \<and> limit \<le> mustParse lib (msLastLimit s)) then (st, None)
               else case writeMemoryDefaultState lib (meDelPatchErr env) ann (s\<lparr>msLastLimit := mlString lib limit\<rparr>) False of
                      Inl e \<Rightarrow> (st, Some e)
                    | Inr ann' \<Rightarrow> (putState ns ann' st, None)))"

definition deleteSystemDefaultsLimitRange ::
    "memLib \<Rightarrow> memEnv \<Rightarrow> string \<Rightarrow> memCluster \<Rightarrow> memCluster \<times> string option" where
  "deleteSystemDefaultsLimitRange lib env ns st =
     (if meDelReadErr env then (st, Some ''read LimitRange'')
      else case mcRange st ns of
        None \<Rightarrow> (st, None)
      | Some stale \<Rightarrow>
          if \<not> rangeOwned stale then (st, None)
          else case rememberMemoryDefault lib env ns stale st of
                 (st1, Some e) \<Rightarrow> (st1, Some e)
               | (st1, None) \<Rightarrow>
                   if meDeleteErr env then (st1, Some ''delete LimitRange'')
                   else (st1\<lparr>mcRange := (mcRange st1)(ns := None)\<rparr>, None))"

subsection \<open>The authorization\<close>

text \<open>The state after the observations of a pass: the largest default, and the hold.\<close>

definition observeDefault :: "memLib \<Rightarrow> LimitRangeItem list \<Rightarrow> memState \<Rightarrow> memState" where
  "observeDefault lib existing s =
     (let old = memoryDefaultLimit existing in
      if 0 < old \<and> (msLastLimit s = [] \<or> mustParse lib (msLastLimit s) < old)
      then s\<lparr>msLastLimit := mlString lib old\<rparr> else s)"

definition holdReason :: "memLib \<Rightarrow> int \<Rightarrow> memoryRequestBlocker option \<Rightarrow> memState \<Rightarrow> string" where
  "holdReason lib limit blocker s =
     (case blocker of
        Some b \<Rightarrow> mbWorkload b @ '' container '' @ mbContainer b @ '' requests '' @ mlString lib (mbRequest b) @
          '' without a memory limit''
      | None \<Rightarrow>
          if msLastLimit s \<noteq> [] \<and> limit < mustParse lib (msLastLimit s)
          then ''lowering a previously applied default requires checking future pod specifications'' else [])"

definition raiseHold :: "memLib \<Rightarrow> int \<Rightarrow> string \<Rightarrow> string \<Rightarrow> memState \<Rightarrow> memState" where
  "raiseHold lib limit uuid reason s =
     (let sameTarget = msTarget s \<noteq> [] \<and> mustParse lib (msTarget s) = limit in
      if (msHold s \<noteq> [] \<and> \<not> sameTarget) \<or> (msHold s = [] \<and> reason \<noteq> [])
      then s\<lparr>msHold := uuid, msTarget := mlString lib limit,
             msReason := (if reason = [] then ''a previous hold remains unresolved'' else reason)\<rparr>
      else s)"

definition authorizeMemoryDefault ::
    "memLib \<Rightarrow> int \<Rightarrow> memEnv \<Rightarrow> string \<Rightarrow> LimitRangeItem list \<Rightarrow> memoryRequestBlocker option \<Rightarrow> memCluster \<Rightarrow>
     memCluster \<times> (string + bool)" where
  "authorizeMemoryDefault lib limit env ns existing blocker st =
     (case (if meNsErr env then None else mcNs st ns) of
        None \<Rightarrow> (st, Inl ''read namespace'')
      | Some ann \<Rightarrow>
          (case readMemoryDefaultState lib ann of
             None \<Rightarrow> (st, Inl ''invalid system memory state'')
           | Some s0 \<Rightarrow>
               let s1 = observeDefault lib existing s0;
                   s = raiseHold lib limit (meUUID env) (holdReason lib limit blocker s1) s1;
                   released = blocker = None \<and> strOf ann MemoryAcknowledgementAnnotation = acknowledgement s
               in if msHold s \<noteq> [] \<and> \<not> released then
                    (case writeMemoryDefaultState lib (mePatchErr env) ann s (blocker \<noteq> None) of
                       Inl e \<Rightarrow> (st, Inl e)
                     | Inr ann' \<Rightarrow> (putState ns ann' st, Inr False))
                  else
                    let s' = (if msHold s \<noteq> [] then s\<lparr>msHold := [], msTarget := [], msReason := []\<rparr> else s) in
                    (case writeMemoryDefaultState lib (mePatchErr env) ann (s'\<lparr>msLastLimit := mlString lib limit\<rparr>) True of
                       Inl e \<Rightarrow> (st, Inl e)
                     | Inr ann' \<Rightarrow> (putState ns ann' st, Inr True))))"

subsection \<open>A pass over a namespace\<close>

definition systemDefaultsLimitRange :: "memConfig \<Rightarrow> LimitRange" where
  "systemDefaultsLimitRange cfg =
     \<lparr>lrName = SystemDefaultsLimitRangeName, lrLabels = [managedByLabelKey \<mapsto> packageControllerFieldOwner],
      lrLimits = [\<lparr>liType = ''Container'', liDefault = [''memory'' \<mapsto> mcLimit cfg],
        liDefaultRequest = [''memory'' \<mapsto> mcRequest cfg], liMax = Map.empty, liMin = Map.empty, liRatio = Map.empty\<rparr>]\<rparr>"

definition applyRange :: "memConfig \<Rightarrow> LimitRange option \<Rightarrow> LimitRange" where
  "applyRange cfg existing =
     (case existing of
        None \<Rightarrow> systemDefaultsLimitRange cfg
      | Some lr \<Rightarrow> lr\<lparr>lrLimits := lrLimits (systemDefaultsLimitRange cfg),
          lrLabels := (lrLabels lr)(managedByLabelKey \<mapsto> packageControllerFieldOwner)\<rparr>)"

definition reconcileSystemDefaultsLimitRange ::
    "memLib \<Rightarrow> memConfig \<Rightarrow> memEnv \<Rightarrow> string \<Rightarrow> memCluster \<Rightarrow> memCluster \<times> string option" where
  "reconcileSystemDefaultsLimitRange lib cfg env ns st =
     (if mcLimit cfg = 0 then deleteSystemDefaultsLimitRange lib env ns st
      else if meReadErr env then (st, Some ''read LimitRange'')
      else
        let existing = mcRange st ns;
            existingLimits = (case existing of None \<Rightarrow> [] | Some lr \<Rightarrow> lrLimits lr) in
        if (case existing of None \<Rightarrow> False | Some lr \<Rightarrow> \<not> rangeOwned lr) then (st, None)
        else case foreignContainerMemoryPolicy env of
          Inl e \<Rightarrow> (st, Some e)
        | Inr governing \<Rightarrow>
            if governing \<noteq> [] then deleteSystemDefaultsLimitRange lib env ns st
            else case findRequestAboveDefaultLimit (mcLimit cfg) env of
              Inl e \<Rightarrow> (st, None)
            | Inr blocker \<Rightarrow>
                (case authorizeMemoryDefault lib (mcLimit cfg) env ns existingLimits blocker st of
                   (st1, Inl e) \<Rightarrow> (st1, Some e)
                 | (st1, Inr False) \<Rightarrow> deleteSystemDefaultsLimitRange lib env ns st1
                 | (st1, Inr True) \<Rightarrow>
                     if existing \<noteq> None \<and> existingLimits = lrLimits (systemDefaultsLimitRange cfg) then (st1, None)
                     else if meWriteErr env then (st1, Some ''write LimitRange'')
                     else (st1\<lparr>mcRange := (mcRange st1)(ns \<mapsto> applyRange cfg existing)\<rparr>, None)))"

text \<open>The sweeps over the LimitRanges that carry the label, as listed with their namespaces.\<close>

fun deleteManagedLoop ::
    "memLib \<Rightarrow> (string \<Rightarrow> memEnv) \<Rightarrow> (string \<Rightarrow> bool) \<Rightarrow> (string \<times> LimitRange) list \<Rightarrow> memCluster \<Rightarrow> bool \<Rightarrow>
     memCluster \<times> bool" where
  "deleteManagedLoop lib env keep [] st failed = (st, failed)"
| "deleteManagedLoop lib env keep ((ns, lr) # lrs) st failed =
     (if \<not> rangeOwned lr \<or> keep ns then deleteManagedLoop lib env keep lrs st failed
      else case deleteSystemDefaultsLimitRange lib (env ns) ns st of
             (st1, err) \<Rightarrow> deleteManagedLoop lib env keep lrs st1 (failed \<or> err \<noteq> None))"

definition deleteManagedSystemDefaultsLimitRanges ::
    "memLib \<Rightarrow> (string \<Rightarrow> memEnv) \<Rightarrow> string + (string \<times> LimitRange) list \<Rightarrow> memCluster \<Rightarrow> memCluster \<times> bool" where
  "deleteManagedSystemDefaultsLimitRanges lib env listed st =
     (case listed of
        Inl e \<Rightarrow> (st, True)
      | Inr lrs \<Rightarrow> deleteManagedLoop lib env (\<lambda>ns. False) lrs st False)"

definition retireUnusedDefaults ::
    "memLib \<Rightarrow> memConfig \<Rightarrow> (string \<Rightarrow> memEnv) \<Rightarrow> string + (string \<times> LimitRange) list \<Rightarrow> string + (string \<Rightarrow> bool) \<Rightarrow>
     memCluster \<Rightarrow> memCluster \<times> bool" where
  "retireUnusedDefaults lib cfg env listed active st =
     (if mcLimit cfg = 0 then deleteManagedSystemDefaultsLimitRanges lib env listed st
      else case listed of
        Inl e \<Rightarrow> (st, True)
      | Inr lrs \<Rightarrow>
          if lrs = [] then (st, False)
          else case active of
            Inl e \<Rightarrow> (st, True)
          | Inr act \<Rightarrow>
              deleteManagedLoop lib env act (filter (\<lambda>(ns, lr). lrName lr = SystemDefaultsLimitRangeName) lrs) st False)"

subsection \<open>Facts\<close>

text \<open>What the code relies on of the Kubernetes quantities and of the JSON of the state.\<close>

definition mem_lib :: "memLib \<Rightarrow> bool" where
  "mem_lib lib \<longleftrightarrow> (\<forall>q > 0. mlParse lib (mlString lib q) = Some q \<and> mlString lib q \<noteq> []) \<and>
     (\<forall>s. mlUnmarshal lib (mlMarshal lib s) = Some s \<and> mlMarshal lib s \<noteq> [])"

definition validState :: "memLib \<Rightarrow> memState \<Rightarrow> bool" where
  "validState lib s \<longleftrightarrow> msVersion s = 1 \<and> (msHold s = []) = (msTarget s = []) \<and>
     \<not> badQuantity lib (msLastLimit s) \<and> \<not> badQuantity lib (msTarget s)"

definition lastLimit :: "memLib \<Rightarrow> memState \<Rightarrow> int" where
  "lastLimit lib s = (if msLastLimit s = [] then 0 else mustParse lib (msLastLimit s))"

text \<open>The largest default of a namespace that is remembered or in force.\<close>

definition remembered :: "memLib \<Rightarrow> memCluster \<Rightarrow> string \<Rightarrow> int" where
  "remembered lib st ns =
     (case mcNs st ns of None \<Rightarrow> 0
      | Some ann \<Rightarrow> (case readMemoryDefaultState lib ann of None \<Rightarrow> 0 | Some s \<Rightarrow> lastLimit lib s))"

definition inForce :: "memCluster \<Rightarrow> string \<Rightarrow> int" where
  "inForce st ns =
     (case mcRange st ns of None \<Rightarrow> 0 | Some lr \<Rightarrow> if rangeOwned lr then memoryDefaultLimit (lrLimits lr) else 0)"

definition ceilingOf :: "memLib \<Rightarrow> memCluster \<Rightarrow> string \<Rightarrow> int" where
  "ceilingOf lib st ns = max (remembered lib st ns) (inForce st ns)"

definition readableState :: "memLib \<Rightarrow> memCluster \<Rightarrow> string \<Rightarrow> bool" where
  "readableState lib st ns \<longleftrightarrow> (\<exists>ann s. mcNs st ns = Some ann \<and> readMemoryDefaultState lib ann = Some s)"

lemma readMemoryDefaultState_valid: "readMemoryDefaultState lib ann = Some s \<Longrightarrow> validState lib s"
  by (auto simp: readMemoryDefaultState_def validState_def badQuantity_def split: option.splits if_splits)

lemma lastLimit_nonneg: "validState lib s \<Longrightarrow> 0 \<le> lastLimit lib s"
  by (auto simp: lastLimit_def validState_def badQuantity_def mustParse_def split: option.splits)

lemma mustParse_string: "mem_lib lib \<Longrightarrow> 0 < q \<Longrightarrow> mustParse lib (mlString lib q) = q"
  by (simp add: mem_lib_def mustParse_def)

lemma lastLimit_string: "mem_lib lib \<Longrightarrow> 0 < q \<Longrightarrow> lastLimit lib (s\<lparr>msLastLimit := mlString lib q\<rparr>) = q"
  by (simp add: lastLimit_def mustParse_string) (simp add: mem_lib_def)

lemma validState_upd:
  assumes "mem_lib lib" "validState lib s" "0 < q"
  shows "validState lib (s\<lparr>msLastLimit := mlString lib q\<rparr>)"
    and "h \<noteq> [] \<Longrightarrow> validState lib (s\<lparr>msHold := h, msTarget := mlString lib q, msReason := r\<rparr>)"
    and "validState lib (s\<lparr>msHold := [], msTarget := [], msReason := r\<rparr>)"
  using assms by (auto simp: validState_def badQuantity_def mem_lib_def)

lemma write_read:
  assumes "mem_lib lib" "validState lib s" "writeMemoryDefaultState lib e ann s c = Inr ann'"
  shows "readMemoryDefaultState lib ann' = Some s"
proof -
  have "mlMarshal lib s \<noteq> []" using assms(1) by (simp add: mem_lib_def)
  then have "ann' MemoryStateAnnotation = Some (mlMarshal lib s)"
    using assms(3) by (auto simp: writeMemoryDefaultState_def Let_def strOf_def MemoryStateAnnotation_def
        MemoryAcknowledgementAnnotation_def split: if_splits option.splits)
  then show ?thesis using assms(1,2) by (simp add: readMemoryDefaultState_def mem_lib_def validState_def)
qed

lemma remembered_put:
  "readMemoryDefaultState lib ann = Some s \<Longrightarrow> remembered lib (putState ns ann st) ns = lastLimit lib s"
  "readMemoryDefaultState lib ann = Some s \<Longrightarrow> readableState lib (putState ns ann st) ns"
  by (simp_all add: remembered_def putState_def readableState_def)

text \<open>A pass changes one namespace only.\<close>

definition sameElsewhere :: "string \<Rightarrow> memCluster \<Rightarrow> memCluster \<Rightarrow> bool" where
  "sameElsewhere ns st st' \<longleftrightarrow> (\<forall>n. n \<noteq> ns \<longrightarrow> mcNs st' n = mcNs st n \<and> mcRange st' n = mcRange st n)"

lemma sameElsewhere_simps [simp]:
  "sameElsewhere ns st st" "sameElsewhere ns st (putState ns ann st') = sameElsewhere ns st st'"
  "sameElsewhere ns st (st'\<lparr>mcRange := (mcRange st')(ns := x)\<rparr>) = sameElsewhere ns st st'"
  by (auto simp: sameElsewhere_def putState_def)

lemma sameElsewhere_trans: "sameElsewhere ns a b \<Longrightarrow> sameElsewhere ns b c \<Longrightarrow> sameElsewhere ns a c"
  by (simp add: sameElsewhere_def)

lemma rememberMemoryDefault_facts:
  assumes "mem_lib lib" "readableState lib st ns" "0 \<le> memoryDefaultLimit (lrLimits lr)"
    and "rememberMemoryDefault lib env ns lr st = (st', err)"
  shows "mcRange st' = mcRange st" "readableState lib st' ns" "sameElsewhere ns st st'"
    "remembered lib st ns \<le> remembered lib st' ns"
    "err = None \<Longrightarrow> remembered lib st' ns = max (remembered lib st ns) (memoryDefaultLimit (lrLimits lr))"
proof -
  obtain ann s where a: "mcNs st ns = Some ann" "readMemoryDefaultState lib ann = Some s"
    using assms(2) by (auto simp: readableState_def)
  note v = readMemoryDefaultState_valid [OF a(2)]
  have r: "remembered lib st ns = lastLimit lib s" using a by (simp add: remembered_def)
  let ?l = "memoryDefaultLimit (lrLimits lr)"
  consider (none) "st' = st" "err \<noteq> None" | (kept) "st' = st" "err = None" "?l \<le> lastLimit lib s"
    | (raised) ann' where "st' = putState ns ann' st" "err = None" "0 < ?l" "lastLimit lib s < ?l"
      "writeMemoryDefaultState lib (meDelPatchErr env) ann (s\<lparr>msLastLimit := mlString lib ?l\<rparr>) False = Inr ann'"
    using assms(3,4) a lastLimit_nonneg [OF v]
    by (auto simp: rememberMemoryDefault_def lastLimit_def Let_def split: if_splits sum.splits)
  then have "mcRange st' = mcRange st \<and> readableState lib st' ns \<and> sameElsewhere ns st st' \<and>
      remembered lib st ns \<le> remembered lib st' ns \<and> (err = None \<longrightarrow> remembered lib st' ns = max (remembered lib st ns) ?l)"
  proof cases
    case raised
    have rd: "readMemoryDefaultState lib ann' = Some (s\<lparr>msLastLimit := mlString lib ?l\<rparr>)"
      using raised by (intro write_read [OF assms(1) validState_upd(1) [OF assms(1) v]]) auto
    then have "remembered lib st' ns = ?l"
      using remembered_put(1) [OF rd] raised(1,3) lastLimit_string [OF assms(1)] by simp
    then show ?thesis using raised r remembered_put(2) [OF rd] by (simp add: putState_def sameElsewhere_def)
  qed (use assms(2) r in auto)
  then show "mcRange st' = mcRange st" "readableState lib st' ns" "sameElsewhere ns st st'"
    "remembered lib st ns \<le> remembered lib st' ns"
    "err = None \<Longrightarrow> remembered lib st' ns = max (remembered lib st ns) ?l" by blast+
qed

lemma deleteSystemDefaultsLimitRange_facts:
  assumes "mem_lib lib" "readableState lib st ns" "0 \<le> inForce st ns"
    and "deleteSystemDefaultsLimitRange lib env ns st = (st', err)"
  shows "readableState lib st' ns \<and> sameElsewhere ns st st' \<and> ceilingOf lib st ns \<le> ceilingOf lib st' ns \<and>
    (mcRange st' ns = mcRange st ns \<or> mcRange st' ns = None)"
proof (cases "meDelReadErr env \<or> (\<forall>lr. mcRange st ns = Some lr \<longrightarrow> \<not> rangeOwned lr)")
  case True
  then have "st' = st" using assms(4) by (auto simp: deleteSystemDefaultsLimitRange_def split: option.splits if_splits)
  then show ?thesis using assms(2) by simp
next
  case False
  then obtain lr where lr: "mcRange st ns = Some lr" "rangeOwned lr" by blast
  obtain st1 e where m: "rememberMemoryDefault lib env ns lr st = (st1, e)" by (cases "rememberMemoryDefault lib env ns lr st")
  have l: "inForce st ns = memoryDefaultLimit (lrLimits lr)" using lr by (simp add: inForce_def)
  note f = rememberMemoryDefault_facts [OF assms(1,2) _ m]
  have nn: "0 \<le> memoryDefaultLimit (lrLimits lr)" using assms(3) l by simp
  have st': "st' = st1 \<or> e = None \<and> st' = st1\<lparr>mcRange := (mcRange st1)(ns := None)\<rparr>"
    using assms(4) False lr m by (auto simp: deleteSystemDefaultsLimitRange_def split: option.splits if_splits)
  then show ?thesis
  proof
    assume "st' = st1"
    then show ?thesis using f [OF nn] by (auto simp: ceilingOf_def inForce_def)
  next
    assume d: "e = None \<and> st' = st1\<lparr>mcRange := (mcRange st1)(ns := None)\<rparr>"
    then have "remembered lib st' ns = remembered lib st1 ns" "inForce st' ns = 0"
      by (simp_all add: remembered_def inForce_def)
    moreover have "sameElsewhere ns st st'" "readableState lib st' ns" "mcRange st' ns = None"
      using d f(2,3) [OF nn] by (auto simp: sameElsewhere_def readableState_def)
    ultimately show ?thesis using d f(5) [OF nn] l by (simp add: ceilingOf_def)
  qed
qed

text \<open>The administrator has acknowledged the recorded hold, for this default.\<close>

definition acknowledged :: "memLib \<Rightarrow> int \<Rightarrow> (string \<rightharpoonup> string) \<Rightarrow> memState \<Rightarrow> bool" where
  "acknowledged lib limit ann s \<longleftrightarrow> msHold s \<noteq> [] \<and> mustParse lib (msTarget s) = limit \<and>
     strOf ann MemoryAcknowledgementAnnotation = acknowledgement s"

lemma observeDefault_facts:
  assumes "mem_lib lib" "validState lib s"
  shows "validState lib (observeDefault lib items s)"
    "lastLimit lib (observeDefault lib items s) = max (lastLimit lib s) (memoryDefaultLimit items)"
    "msHold (observeDefault lib items s) = msHold s" "msTarget (observeDefault lib items s) = msTarget s"
proof -
  have nn: "0 \<le> lastLimit lib s" by (rule lastLimit_nonneg [OF assms(2)])
  let ?o = "memoryDefaultLimit items"
  have "observeDefault lib items s = (if 0 < ?o \<and> lastLimit lib s < ?o then s\<lparr>msLastLimit := mlString lib ?o\<rparr> else s)"
    by (auto simp: observeDefault_def Let_def lastLimit_def)
  then show "validState lib (observeDefault lib items s)"
    "lastLimit lib (observeDefault lib items s) = max (lastLimit lib s) ?o"
    using nn assms(2) validState_upd(1) [OF assms, of ?o] lastLimit_string [OF assms(1), of ?o s] by (auto split: if_splits)
qed (simp_all add: observeDefault_def Let_def)

lemma holdReason_empty:
  "holdReason lib limit blocker s = [] \<Longrightarrow> 0 < limit \<Longrightarrow> blocker = None \<and> lastLimit lib s \<le> limit"
  by (auto simp: holdReason_def lastLimit_def split: option.splits if_splits)

lemma raiseHold_facts:
  assumes "mem_lib lib" "validState lib s" "0 < limit" "uuid \<noteq> []"
  shows "validState lib (raiseHold lib limit uuid reason s)" "msLastLimit (raiseHold lib limit uuid reason s) = msLastLimit s"
    "msHold (raiseHold lib limit uuid reason s) = [] \<Longrightarrow> msHold s = [] \<and> reason = []"
    "acknowledgement (raiseHold lib limit uuid reason s) \<noteq> uuid @ '':'' @ mlString lib limit \<Longrightarrow>
      msHold (raiseHold lib limit uuid reason s) \<noteq> [] \<Longrightarrow>
      raiseHold lib limit uuid reason s = s \<and> mustParse lib (msTarget s) = limit"
  using assms validState_upd(2) [OF assms(1-4)] by (auto simp: raiseHold_def Let_def acknowledgement_def split: if_splits)

lemma authorizeMemoryDefault_facts:
  assumes lib: "mem_lib lib" and L: "0 < limit" and "meUUID env \<noteq> []"
    and ns: "mcNs st ns = Some ann" "readMemoryDefaultState lib ann = Some s"
    and ack: "strOf ann MemoryAcknowledgementAnnotation \<noteq> meUUID env @ '':'' @ mlString lib limit"
    and run: "authorizeMemoryDefault lib limit env ns items blocker st = (st', res)"
  shows "mcRange st' = mcRange st \<and> readableState lib st' ns \<and> sameElsewhere ns st st' \<and>
    (res \<noteq> Inr True \<longrightarrow> remembered lib st ns \<le> remembered lib st' ns) \<and>
    (res = Inr True \<longrightarrow> remembered lib st' ns = limit \<and> blocker = None \<and>
      (msHold s = [] \<and> remembered lib st ns \<le> limit \<and> memoryDefaultLimit items \<le> limit \<or> acknowledged lib limit ann s))"
proof -
  define s1 where "s1 = observeDefault lib items s"
  define h where "h = raiseHold lib limit (meUUID env) (holdReason lib limit blocker s1) s1"
  define s' where "s' = (if msHold h \<noteq> [] then h\<lparr>msHold := [], msTarget := [], msReason := []\<rparr> else h)\<lparr>msLastLimit := mlString lib limit\<rparr>"
  have run': "(st', res) = (if meNsErr env then (st, Inl ''read namespace'')
    else if msHold h \<noteq> [] \<and> \<not> (blocker = None \<and> strOf ann MemoryAcknowledgementAnnotation = acknowledgement h)
    then (case writeMemoryDefaultState lib (mePatchErr env) ann h (blocker \<noteq> None) of
        Inl e \<Rightarrow> (st, Inl e) | Inr ann' \<Rightarrow> (putState ns ann' st, Inr False))
    else (case writeMemoryDefaultState lib (mePatchErr env) ann s' True of
        Inl e \<Rightarrow> (st, Inl e) | Inr ann' \<Rightarrow> (putState ns ann' st, Inr True)))"
    unfolding run [symmetric] s'_def h_def s1_def using ns by (simp add: authorizeMemoryDefault_def Let_def)
  note v = readMemoryDefaultState_valid [OF ns(2)]
  note o = observeDefault_facts [OF lib v, of items, folded s1_def]
  note k = raiseHold_facts [OF lib o(1) L assms(3), of "holdReason lib limit blocker s1", folded h_def]
  have r: "remembered lib st ns = lastLimit lib s" using ns by (simp add: remembered_def)
  have "lastLimit lib h = lastLimit lib s1" using k(2) by (simp add: lastLimit_def)
  then have le: "lastLimit lib s \<le> lastLimit lib h" using o(2) by simp
  show ?thesis
  proof (cases "msHold h \<noteq> [] \<and> \<not> (blocker = None \<and> strOf ann MemoryAcknowledgementAnnotation = acknowledgement h)")
    case True
    then have st': "res \<noteq> Inr True \<and> (st' = st \<or> (\<exists>ann'. st' = putState ns ann' st \<and>
        writeMemoryDefaultState lib (mePatchErr env) ann h (blocker \<noteq> None) = Inr ann'))"
      using run' by (auto split: if_splits sum.splits)
    have "remembered lib st ns \<le> remembered lib (putState ns ann' st) ns \<and> readableState lib (putState ns ann' st) ns"
      if "writeMemoryDefaultState lib (mePatchErr env) ann h (blocker \<noteq> None) = Inr ann'" for ann'
      using remembered_put [OF write_read [OF lib k(1) that]] le r by simp
    then show ?thesis using st' ns by (auto simp: readableState_def putState_def sameElsewhere_def)
  next
    case False
    have v': "validState lib s'"
      using validState_upd [OF lib k(1) L] validState_upd(1) [OF lib _ L] unfolding s'_def by (auto split: if_splits)
    have st': "(res \<noteq> Inr True \<and> st' = st) \<or> (res = Inr True \<and> (\<exists>ann'. st' = putState ns ann' st \<and>
        writeMemoryDefaultState lib (mePatchErr env) ann s' True = Inr ann'))"
      using False run' by (auto split: if_splits sum.splits)
    have "msHold s = [] \<and> remembered lib st ns \<le> limit \<and> memoryDefaultLimit items \<le> limit \<and> blocker = None \<or>
        acknowledged lib limit ann s \<and> blocker = None"
    proof (cases "msHold h = []")
      case True
      then have "blocker = None" "lastLimit lib s1 \<le> limit" "msHold s1 = []" using k(3) holdReason_empty [OF _ L] by blast+
      then show ?thesis using o r by simp
    next
      case held: False
      then have "h = s1" "mustParse lib (msTarget s1) = limit" using k(4) ack False by auto
      then show ?thesis using held False o by (auto simp: acknowledged_def acknowledgement_def)
    qed
    moreover have "remembered lib (putState ns ann' st) ns = limit \<and> readableState lib (putState ns ann' st) ns"
      if "writeMemoryDefaultState lib (mePatchErr env) ann s' True = Inr ann'" for ann'
      using remembered_put [OF write_read [OF lib v' that]] lastLimit_string [OF lib L] by (simp add: s'_def)
    ultimately show ?thesis using st' ns by (auto simp: readableState_def putState_def sameElsewhere_def)
  qed
qed

text \<open>The scan reports no blocker exactly when no container it looks at asks for more memory than the
  default without a limit of its own.\<close>

definition exceeds :: "int \<Rightarrow> podContainer \<Rightarrow> bool" where
  "exceeds limit c \<longleftrightarrow> \<not> ctHasLimit c \<and> (\<exists>r. ctRequest c = Some r \<and> limit < r)"

lemma considerContainer_None:
  "considerContainer limit w c worst = None \<longleftrightarrow> worst = None \<and> \<not> exceeds limit c"
  by (auto simp: considerContainer_def exceeds_def split: option.splits)

lemma considerSpec_None:
  "considerSpec limit spec w worst = None \<longleftrightarrow>
   worst = None \<and> (\<forall>c \<in> set (poInit spec @ poContainers spec). \<not> exceeds limit c)"
proof -
  have "fold (considerContainer limit w) cs worst = None \<longleftrightarrow> worst = None \<and> (\<forall>c \<in> set cs. \<not> exceeds limit c)" for cs
    by (induction cs arbitrary: worst) (auto simp: considerContainer_None)
  then show ?thesis unfolding considerSpec_def .
qed

lemma findRequestAboveDefaultLimit_None:
  "findRequestAboveDefaultLimit limit env = Inr None \<longleftrightarrow>
   (\<exists>specs. scannedSpecs env = Inr specs \<and>
     (\<forall>(s, w) \<in> set specs. \<forall>c \<in> set (poInit s @ poContainers s). \<not> exceeds limit c))"
proof -
  have "fold (\<lambda>(s, w). considerSpec limit s w) specs worst = None \<longleftrightarrow>
      worst = None \<and> (\<forall>(s, w) \<in> set specs. \<forall>c \<in> set (poInit s @ poContainers s). \<not> exceeds limit c)" for specs worst
    by (induction specs arbitrary: worst) (auto simp: considerSpec_None)
  then show ?thesis by (cases "scannedSpecs env") (auto simp: findRequestAboveDefaultLimit_def)
qed

lemma foreignPolicyIn_empty:
  assumes "\<forall>lr \<in> set lrs. lrName lr \<noteq> []"
  shows "foreignPolicyIn lrs = [] \<longleftrightarrow> (\<forall>lr \<in> set lrs.
    (lrName lr = SystemDefaultsLimitRangeName \<and> rangeOwned lr) \<or> (\<forall>item \<in> set (lrLimits lr). \<not> constrainsMemory item))"
  using assms by (induction lrs) (auto simp: list_ex_iff)

text \<open>The branches of a pass over a namespace with a readable state.\<close>

lemma reconcile_cases:
  assumes "reconcileSystemDefaultsLimitRange lib cfg env ns st = (st', err)"
  obtains (same) "st' = st"
    | (withdrawn) "deleteSystemDefaultsLimitRange lib env ns st = (st', err)" "\<forall>lr. mcRange st ns = Some lr \<longrightarrow> mcLimit cfg = 0 \<or> rangeOwned lr"
    | (asked) st1 res blocker where "mcLimit cfg \<noteq> 0" "\<forall>lr. mcRange st ns = Some lr \<longrightarrow> rangeOwned lr"
      "foreignContainerMemoryPolicy env = Inr []" "findRequestAboveDefaultLimit (mcLimit cfg) env = Inr blocker"
      "authorizeMemoryDefault lib (mcLimit cfg) env ns (case mcRange st ns of None \<Rightarrow> [] | Some lr \<Rightarrow> lrLimits lr) blocker st = (st1, res)"
      "(res \<noteq> Inr True \<and> st' = st1) \<or> (res \<noteq> Inr True \<and> deleteSystemDefaultsLimitRange lib env ns st1 = (st', err)) \<or>
       (res = Inr True \<and> (st' = st1 \<or> st' = st1\<lparr>mcRange := (mcRange st1)(ns \<mapsto> applyRange cfg (mcRange st ns))\<rparr>))"
proof (cases "mcLimit cfg = 0 \<or> meReadErr env \<or> (\<exists>lr. mcRange st ns = Some lr \<and> \<not> rangeOwned lr)")
  case True
  then show thesis using assms same withdrawn
    by (auto simp: reconcileSystemDefaultsLimitRange_def Let_def split: option.splits if_splits)
next
  case no: False
  let ?run = "authorizeMemoryDefault lib (mcLimit cfg) env ns (case mcRange st ns of None \<Rightarrow> [] | Some lr \<Rightarrow> lrLimits lr)"
  have owned: "\<forall>lr. mcRange st ns = Some lr \<longrightarrow> rangeOwned lr" using no by blast
  then have own: "\<not> (case mcRange st ns of None \<Rightarrow> False | Some lr \<Rightarrow> \<not> rangeOwned lr)" by (simp split: option.split)
  show thesis
  proof (cases "\<exists>blocker. foreignContainerMemoryPolicy env = Inr [] \<and> findRequestAboveDefaultLimit (mcLimit cfg) env = Inr blocker")
    case False
    then show thesis using assms no own owned same withdrawn
      by (auto simp: reconcileSystemDefaultsLimitRange_def Let_def split: sum.splits if_splits)
  next
    case True
    then obtain blocker where b: "foreignContainerMemoryPolicy env = Inr []"
      "findRequestAboveDefaultLimit (mcLimit cfg) env = Inr blocker" by blast
    obtain st1 res where a: "?run blocker st = (st1, res)" by (cases "?run blocker st")
    have "(res \<noteq> Inr True \<and> st' = st1) \<or> (res \<noteq> Inr True \<and> deleteSystemDefaultsLimitRange lib env ns st1 = (st', err)) \<or>
       (res = Inr True \<and> (st' = st1 \<or> st' = st1\<lparr>mcRange := (mcRange st1)(ns \<mapsto> applyRange cfg (mcRange st ns))\<rparr>))"
      using assms no own b a
      by (cases res) (auto simp: reconcileSystemDefaultsLimitRange_def Let_def split: if_splits bool.splits)
    then show thesis using asked no owned b a by blast
  qed
qed

lemma inForce_applied:
  "0 < mcLimit cfg \<Longrightarrow> inForce (st\<lparr>mcRange := (mcRange st)(ns \<mapsto> applyRange cfg existing)\<rparr>) ns = mcLimit cfg"
  by (cases existing) (simp_all add: inForce_def applyRange_def rangeOwned_def systemDefaultsLimitRange_def)

lemma inForce_items:
  "\<forall>lr. mcRange st ns = Some lr \<longrightarrow> rangeOwned lr \<Longrightarrow>
   memoryDefaultLimit (case mcRange st ns of None \<Rightarrow> [] | Some lr \<Rightarrow> lrLimits lr) = inForce st ns"
  by (simp add: inForce_def split: option.splits)

text \<open>What a pass that changed the cluster may have done.\<close>

definition ratchet_step :: "memLib \<Rightarrow> memConfig \<Rightarrow> memEnv \<Rightarrow> string \<Rightarrow> (string \<rightharpoonup> string) \<Rightarrow> memState \<Rightarrow> memCluster \<Rightarrow> memCluster \<Rightarrow> bool" where
  "ratchet_step lib cfg env ns ann s st st' \<longleftrightarrow>
     readableState lib st' ns \<and> sameElsewhere ns st st' \<and>
     (ceilingOf lib st' ns < ceilingOf lib st ns \<longrightarrow>
        acknowledged lib (mcLimit cfg) ann s \<and> mcLimit cfg \<le> ceilingOf lib st' ns) \<and>
     (mcRange st' ns \<noteq> mcRange st ns \<and> mcRange st' ns \<noteq> None \<longrightarrow>
        inForce st' ns = mcLimit cfg \<and> foreignContainerMemoryPolicy env = Inr [] \<and>
        findRequestAboveDefaultLimit (mcLimit cfg) env = Inr None \<and>
        (msHold s = [] \<and> ceilingOf lib st ns \<le> mcLimit cfg \<or> acknowledged lib (mcLimit cfg) ann s))"

lemma reconcile_ratchet:
  assumes lib: "mem_lib lib" and nn: "0 \<le> mcLimit cfg" "0 \<le> inForce st ns" and uuid: "meUUID env \<noteq> []"
    and ns: "mcNs st ns = Some ann" "readMemoryDefaultState lib ann = Some s"
    and ack: "strOf ann MemoryAcknowledgementAnnotation \<noteq> meUUID env @ '':'' @ mlString lib (mcLimit cfg)"
    and run: "reconcileSystemDefaultsLimitRange lib cfg env ns st = (st', err)"
  shows "ratchet_step lib cfg env ns ann s st st'"
proof -
  have rd: "readableState lib st ns" using ns by (auto simp: readableState_def)
  from run show ?thesis
  proof (cases rule: reconcile_cases)
    case withdrawn
    note d = deleteSystemDefaultsLimitRange_facts [OF lib rd nn(2) withdrawn(1)]
    then show ?thesis unfolding ratchet_step_def by linarith
  next
    case (asked st1 res blocker)
    have L: "0 < mcLimit cfg" using asked(1) nn(1) by simp
    note a = authorizeMemoryDefault_facts [OF lib L uuid ns ack asked(5), unfolded inForce_items [OF asked(2)]]
    then have i: "inForce st1 ns = inForce st ns" by (simp add: inForce_def)
    then have c: "res \<noteq> Inr True \<Longrightarrow> ceilingOf lib st ns \<le> ceilingOf lib st1 ns" using a by (auto simp: ceilingOf_def max_def)
    from asked(6) show ?thesis
    proof (elim disjE conjE)
      assume "res \<noteq> Inr True" "deleteSystemDefaultsLimitRange lib env ns st1 = (st', err)"
      then have "readableState lib st' ns \<and> sameElsewhere ns st1 st' \<and> ceilingOf lib st1 ns \<le> ceilingOf lib st' ns \<and>
          (mcRange st' ns = mcRange st1 ns \<or> mcRange st' ns = None)"
        using a i nn(2) by (intro deleteSystemDefaultsLimitRange_facts [OF lib]) auto
      then show ?thesis using a c \<open>res \<noteq> Inr True\<close> sameElsewhere_trans unfolding ratchet_step_def by (metis not_le order_trans)
    next
      assume "res = Inr True" "st' = st1\<lparr>mcRange := (mcRange st1)(ns \<mapsto> applyRange cfg (mcRange st ns))\<rparr>"
      moreover have "remembered lib st' ns = remembered lib st1 ns" "inForce st' ns = mcLimit cfg"
        "readableState lib st' ns = readableState lib st1 ns" "sameElsewhere ns st st' = sameElsewhere ns st st1"
        using calculation(2) inForce_applied [OF L] by (simp_all add: remembered_def readableState_def sameElsewhere_def)
      ultimately show ?thesis using a asked(3,4) by (auto simp: ratchet_step_def ceilingOf_def)
    next
      assume "res = Inr True" "st' = st1"
      then show ?thesis using a i by (auto simp: ratchet_step_def ceilingOf_def)
    qed (use a c in \<open>auto simp: ratchet_step_def\<close>)
  qed (use rd in \<open>simp add: ratchet_step_def\<close>)
qed

lemma authorizeMemoryDefault_grants:
  assumes lib: "mem_lib lib" and L: "0 < limit" and ok: "\<not> meNsErr env" "\<not> mePatchErr env"
    and ns: "mcNs st ns = Some ann" "readMemoryDefaultState lib ann = Some s"
    and may: "(msHold s = [] \<and> max (lastLimit lib s) (memoryDefaultLimit items) \<le> limit) \<or> acknowledged lib limit ann s"
  shows "\<exists>st'. authorizeMemoryDefault lib limit env ns items None st = (st', Inr True) \<and> mcRange st' = mcRange st"
proof -
  define s1 where "s1 = observeDefault lib items s"
  define h where "h = raiseHold lib limit (meUUID env) (holdReason lib limit None s1) s1"
  note o = observeDefault_facts [OF lib readMemoryDefaultState_valid [OF ns(2)], of items, folded s1_def]
  have v: "validState lib s" by (rule readMemoryDefaultState_valid [OF ns(2)])
  from may have "h = s1 \<and> (msHold h = [] \<or> strOf ann MemoryAcknowledgementAnnotation = acknowledgement h)"
  proof
    assume a: "msHold s = [] \<and> max (lastLimit lib s) (memoryDefaultLimit items) \<le> limit"
    then have "holdReason lib limit None s1 = []" using o(2) by (auto simp: holdReason_def lastLimit_def split: if_splits)
    then show ?thesis using a o by (simp add: h_def raiseHold_def)
  next
    assume a: "acknowledged lib limit ann s"
    then have "msTarget s \<noteq> []" using v by (auto simp: acknowledged_def validState_def)
    then show ?thesis using a o by (auto simp: h_def raiseHold_def acknowledged_def acknowledgement_def)
  qed
  then show ?thesis using ns ok
    by (auto simp: authorizeMemoryDefault_def Let_def s1_def [symmetric] h_def [symmetric] writeMemoryDefaultState_def putState_def)
qed

lemma reconcile_grants:
  assumes "mem_lib lib" "0 < mcLimit cfg"
    and "mcNs st ns = Some ann" "readMemoryDefaultState lib ann = Some s"
    and run: "reconcileSystemDefaultsLimitRange lib cfg env ns st = (st', err)"
    and ok: "\<not> meReadErr env" "\<not> meNsErr env" "\<not> mePatchErr env" "\<not> meWriteErr env"
      "foreignContainerMemoryPolicy env = Inr []" "findRequestAboveDefaultLimit (mcLimit cfg) env = Inr None"
    and own: "\<forall>lr. mcRange st ns = Some lr \<longrightarrow> rangeOwned lr"
    and may: "msHold s = [] \<and> ceilingOf lib st ns \<le> mcLimit cfg \<or> acknowledged lib (mcLimit cfg) ann s"
  shows "err = None \<and> inForce st' ns = mcLimit cfg"
proof -
  let ?items = "case mcRange st ns of None \<Rightarrow> [] | Some lr \<Rightarrow> lrLimits lr"
  have ceil: "ceilingOf lib st ns = max (lastLimit lib s) (inForce st ns)"
    using assms(3,4) by (simp add: ceilingOf_def remembered_def)
  obtain st1 where a: "authorizeMemoryDefault lib (mcLimit cfg) env ns ?items None st = (st1, Inr True)" "mcRange st1 = mcRange st"
    using authorizeMemoryDefault_grants [OF assms(1,2) ok(2,3) assms(3,4), of ?items] may ceil inForce_items [OF own] by auto
  have "err = None" "st' = (if mcRange st ns \<noteq> None \<and> ?items = lrLimits (systemDefaultsLimitRange cfg) then st1
      else st1\<lparr>mcRange := (mcRange st1)(ns \<mapsto> applyRange cfg (mcRange st ns))\<rparr>)"
    using run ok own a(1) assms(2) by (auto simp: reconcileSystemDefaultsLimitRange_def Let_def split: option.splits if_splits)
  moreover have "inForce st1 ns = mcLimit cfg" if "mcRange st ns \<noteq> None" "?items = lrLimits (systemDefaultsLimitRange cfg)"
    using that own a(2) by (auto simp: inForce_def systemDefaultsLimitRange_def)
  ultimately show "err = None \<and> inForce st' ns = mcLimit cfg" using inForce_applied [OF assms(2)] by simp
qed

subsection \<open>Properties\<close>

text \<open>C25: A pass over a namespace changes nothing in other namespaces and nothing at all where the
  reserved name belongs to someone else. It writes a default only when no other LimitRange governs
  memory, no container it can see asks for more without a limit, and the default is no lower than
  any default used before, unless the administrator has acknowledged the recorded hold for exactly
  this default. The largest default used is never forgotten otherwise. And when all this holds and
  no call fails, the default is in force after the pass.\<close>

theorem memory_default_ratchet:
  assumes "mem_lib lib" "0 < mcLimit cfg" "0 \<le> inForce st ns" "meUUID env \<noteq> []"
    and "mcNs st ns = Some ann" "readMemoryDefaultState lib ann = Some s"
    and "strOf ann MemoryAcknowledgementAnnotation \<noteq> meUUID env @ '':'' @ mlString lib (mcLimit cfg)"
    and run: "reconcileSystemDefaultsLimitRange lib cfg env ns st = (st', err)"
  shows "(\<forall>n. n \<noteq> ns \<longrightarrow> mcNs st' n = mcNs st n \<and> mcRange st' n = mcRange st n) \<and>
    (\<forall>lr. mcRange st ns = Some lr \<and> \<not> rangeOwned lr \<longrightarrow> st' = st) \<and>
    (mcRange st' ns \<noteq> mcRange st ns \<and> mcRange st' ns \<noteq> None \<longrightarrow>
      inForce st' ns = mcLimit cfg \<and> foreignContainerMemoryPolicy env = Inr [] \<and>
      (\<exists>specs. scannedSpecs env = Inr specs \<and>
        (\<forall>(sp, w) \<in> set specs. \<forall>c \<in> set (poInit sp @ poContainers sp). \<not> exceeds (mcLimit cfg) c)) \<and>
      (msHold s = [] \<and> ceilingOf lib st ns \<le> mcLimit cfg \<or> acknowledged lib (mcLimit cfg) ann s)) \<and>
    (ceilingOf lib st' ns < ceilingOf lib st ns \<longrightarrow>
      acknowledged lib (mcLimit cfg) ann s \<and> mcLimit cfg \<le> ceilingOf lib st' ns) \<and>
    (\<not> meReadErr env \<and> \<not> meNsErr env \<and> \<not> mePatchErr env \<and> \<not> meWriteErr env \<and>
      (\<forall>lr. mcRange st ns = Some lr \<longrightarrow> rangeOwned lr) \<and>
      foreignContainerMemoryPolicy env = Inr [] \<and> findRequestAboveDefaultLimit (mcLimit cfg) env = Inr None \<and>
      (msHold s = [] \<and> ceilingOf lib st ns \<le> mcLimit cfg \<or> acknowledged lib (mcLimit cfg) ann s) \<longrightarrow>
      err = None \<and> inForce st' ns = mcLimit cfg)"
proof (intro conjI)
  have r: "ratchet_step lib cfg env ns ann s st st'" using reconcile_ratchet [OF assms(1) _ assms(3-8)] assms(2) by simp
  then show "\<forall>n. n \<noteq> ns \<longrightarrow> mcNs st' n = mcNs st n \<and> mcRange st' n = mcRange st n"
    by (simp add: ratchet_step_def sameElsewhere_def)
  show "\<forall>lr. mcRange st ns = Some lr \<and> \<not> rangeOwned lr \<longrightarrow> st' = st"
    using run assms(2) by (auto simp: reconcileSystemDefaultsLimitRange_def Let_def split: if_splits)
  show "mcRange st' ns \<noteq> mcRange st ns \<and> mcRange st' ns \<noteq> None \<longrightarrow>
      inForce st' ns = mcLimit cfg \<and> foreignContainerMemoryPolicy env = Inr [] \<and>
      (\<exists>specs. scannedSpecs env = Inr specs \<and>
        (\<forall>(sp, w) \<in> set specs. \<forall>c \<in> set (poInit sp @ poContainers sp). \<not> exceeds (mcLimit cfg) c)) \<and>
      (msHold s = [] \<and> ceilingOf lib st ns \<le> mcLimit cfg \<or> acknowledged lib (mcLimit cfg) ann s)"
    using r unfolding ratchet_step_def findRequestAboveDefaultLimit_None by blast
  show "ceilingOf lib st' ns < ceilingOf lib st ns \<longrightarrow>
      acknowledged lib (mcLimit cfg) ann s \<and> mcLimit cfg \<le> ceilingOf lib st' ns"
    using r unfolding ratchet_step_def by blast
qed (use reconcile_grants [OF assms(1,2,5,6) run] in blast)

text \<open>Quantities in decimal bytes and a concrete text form of the state.\<close>

fun encText :: "string \<Rightarrow> string" where
  "encText [] = ''.''"
| "encText (c # cs) = CHR '','' # c # encText cs"

fun decText :: "string \<Rightarrow> (string \<times> string) option" where
  "decText (x # xs) =
     (if x = CHR ''.'' then Some ([], xs)
      else case xs of [] \<Rightarrow> None
        | c # r \<Rightarrow> (case decText r of None \<Rightarrow> None | Some (s, rest) \<Rightarrow> Some (c # s, rest)))"
| "decText [] = None"

lemma decText_encText [simp]: "decText (encText s @ r) = Some (s, r)"
  by (induction s) auto

definition encState :: "memState \<Rightarrow> string" where
  "encState s = encText (if msVersion s < 0 then ''-'' else ''+'') @ encText (natDigits (nat \<bar>msVersion s\<bar>)) @
     encText (msLastLimit s) @ encText (msHold s) @ encText (msTarget s) @ encText (msReason s)"

definition decState :: "string \<Rightarrow> memState option" where
  "decState raw =
     Option.bind (decText raw) (\<lambda>(sg, r0). Option.bind (decText r0) (\<lambda>(v, r1). Option.bind (decText r1) (\<lambda>(l, r2).
     Option.bind (decText r2) (\<lambda>(h, r3). Option.bind (decText r3) (\<lambda>(t, r4). Option.bind (decText r4) (\<lambda>(r, _).
     Option.bind (parseDigits 0 v) (\<lambda>n.
       Some \<lparr>msVersion = (if sg = ''-'' then - int n else int n), msLastLimit = l, msHold = h, msTarget = t, msReason = r\<rparr>)))))))"

lemma decState_encState: "decState (encState s) = Some s"
proof -
  have "decText (encText x) = Some (x, [])" for x using decText_encText [of x "[]"] by simp
  then show ?thesis by (simp add: decState_def encState_def parseDigits_natDigits)
qed

definition demoMemLib :: memLib where
  "demoMemLib = \<lparr>mlString = itoa, mlParse = (\<lambda>v. map_option int (parseDigits 0 v)), mlMarshal = encState, mlUnmarshal = decState\<rparr>"

lemma demoMemLib_ok: "mem_lib demoMemLib"
proof -
  have "encState s \<noteq> []" for s by (simp add: encState_def)
  then show ?thesis by (simp add: mem_lib_def demoMemLib_def itoa_def parseDigits_natDigits decState_encState)
qed

definition demoHeld :: memState where
  "demoHeld = \<lparr>msVersion = 1, msLastLimit = itoa 64, msHold = ''h'', msTarget = itoa 32, msReason = ''lowering''\<rparr>"

definition demoMemCluster :: memCluster where
  "demoMemCluster = \<lparr>mcNs = [''cozy-system'' \<mapsto> [MemoryStateAnnotation \<mapsto> encState demoHeld,
     MemoryAcknowledgementAnnotation \<mapsto> acknowledgement demoHeld]], mcRange = Map.empty\<rparr>"

definition demoMemEnv :: memEnv where
  "demoMemEnv = \<lparr>meDeployments = Inr [(''d'', \<lparr>poInit = [], poContainers = [\<lparr>ctName = ''c'', ctHasLimit = False, ctRequest = Some 16\<rparr>]\<rparr>)],
     meStatefulSets = Inr [], meDaemonSets = Inr [], meCronJobs = Inr [], meJobs = Inr [], mePods = Inr [], meRanges = Inr [],
     meUUID = ''u'', meReadErr = False, meNsErr = False, mePatchErr = False, meWriteErr = False, meDelReadErr = False,
     meDelNsErr = False, meDelPatchErr = False, meDeleteErr = False\<rparr>"

theorem memory_default_ratchet_witness:
  "snd (reconcileSystemDefaultsLimitRange demoMemLib \<lparr>mcLimit = 32, mcRequest = 1\<rparr> demoMemEnv ''cozy-system'' demoMemCluster) = None \<and>
   inForce (fst (reconcileSystemDefaultsLimitRange demoMemLib \<lparr>mcLimit = 32, mcRequest = 1\<rparr> demoMemEnv ''cozy-system'' demoMemCluster))
     ''cozy-system'' = 32"
proof -
  let ?cfg = "\<lparr>mcLimit = 32, mcRequest = 1\<rparr>"
  let ?run = "reconcileSystemDefaultsLimitRange demoMemLib ?cfg demoMemEnv ''cozy-system'' demoMemCluster"
  let ?ann = "[MemoryStateAnnotation \<mapsto> encState demoHeld, MemoryAcknowledgementAnnotation \<mapsto> acknowledgement demoHeld]"
  have q: "parseDigits 0 (itoa 64) = Some 64" "parseDigits 0 (itoa 32) = Some 32" "itoa 32 \<noteq> []" "itoa 32 = ''32''" by code_simp+
  have run: "?run = (fst ?run, snd ?run)" by simp
  have rd: "readMemoryDefaultState demoMemLib ?ann = Some demoHeld"
    using q(1-3) by (simp add: readMemoryDefaultState_def demoMemLib_def decState_encState demoHeld_def badQuantity_def
        MemoryStateAnnotation_def MemoryAcknowledgementAnnotation_def)
  have "findRequestAboveDefaultLimit 32 demoMemEnv = Inr None" "foreignContainerMemoryPolicy demoMemEnv = Inr []"
    by (simp_all add: findRequestAboveDefaultLimit_def scannedSpecs_def demoMemEnv_def considerSpec_def considerContainer_def
        foreignContainerMemoryPolicy_def)
  moreover have "acknowledged demoMemLib 32 ?ann demoHeld"
    using q(2) by (simp add: acknowledged_def demoHeld_def mustParse_def demoMemLib_def)
  moreover have "strOf ?ann MemoryAcknowledgementAnnotation \<noteq> meUUID demoMemEnv @ '':'' @ mlString demoMemLib 32"
    by (simp add: demoMemEnv_def demoMemLib_def acknowledgement_def demoHeld_def)
  ultimately show ?thesis
    using memory_default_ratchet [OF demoMemLib_ok, of ?cfg demoMemCluster "''cozy-system''" demoMemEnv ?ann demoHeld, OF _ _ _ _ rd _ run]
    by (simp add: demoMemCluster_def inForce_def demoMemEnv_def)
qed

end
