(* ===== verification/Release_Config.thy ===== *)
theory Release_Config
  imports Go_Prelude
begin

text \<open>
  The settings of generated HelmReleases (pkg/config/config.go): the per-kind configuration and the
  parsers of the annotations and flags it comes from. \<open>time.ParseDuration\<close> is an argument; durations
  are nanoseconds.
\<close>

record ReleaseConfig =
  rcPrefix :: string
  rcLabels :: "string \<rightharpoonup> string"
  rcChartRef :: "string \<times> string \<times> string" \<comment> \<open>kind, name and namespace\<close>
  rcHelmInstallTimeout :: int
  rcHelmUpgradeTimeout :: int
  rcInterval :: int
  rcRetryInterval :: int
  rcInstallTimeout :: int
  rcUpgradeTimeout :: int
  rcMaxHistory :: int
  rcDisableWait :: bool
  rcServerSideApply :: "bool option"
  rcWaitStrategy :: string
  rcHealthCheckExprs :: "string list"

definition ResolveWaitStrategy :: "string \<Rightarrow> bool \<Rightarrow> string option" where
  "ResolveWaitStrategy waitStrategy hasExprs =
     (if waitStrategy = [] then (if \<not> hasExprs then None else Some ''poller'') else Some waitStrategy)"

definition skipDigits :: "string \<Rightarrow> string option" where
  "skipDigits s = (if takeWhile (\<lambda>c. digitVal c \<noteq> None) s = [] then None else Some (dropWhile (\<lambda>c. digitVal c \<noteq> None) s))"

definition skipUnit :: "string \<Rightarrow> string option" where
  "skipUnit s =
     (case cutPrefix s ''ms'' of
        Some r \<Rightarrow> Some r
      | None \<Rightarrow> (case s of c # r \<Rightarrow> if c = CHR ''s'' \<or> c = CHR ''m'' \<or> c = CHR ''h'' then Some r else None | [] \<Rightarrow> None))"

definition skipFraction :: "string \<Rightarrow> string option" where
  "skipFraction s = (case s of c # r \<Rightarrow> if c = CHR ''.'' then skipDigits r else Some s | [] \<Rightarrow> Some s)"

text \<open>One repetition of the pattern \<open>[0-9]+(\.[0-9]+)?(ms|s|m|h)\<close>.\<close>

definition skipQuantity :: "string \<Rightarrow> string option" where
  "skipQuantity s = Option.bind (skipDigits s) (\<lambda>r. Option.bind (skipFraction r) skipUnit)"

lemma skipQuantity_length: "skipQuantity s = Some r \<Longrightarrow> length r < length s"
proof -
  have d: "skipDigits t = Some u \<Longrightarrow> length u < length t" for t u
  proof -
    assume "skipDigits t = Some u"
    then have "takeWhile (\<lambda>c. digitVal c \<noteq> None) t \<noteq> []" "u = dropWhile (\<lambda>c. digitVal c \<noteq> None) t"
      by (auto simp: skipDigits_def split: if_splits)
    then show ?thesis by (cases t) (auto simp: le_imp_less_Suc length_dropWhile_le split: if_splits)
  qed
  have "skipFraction t = Some u \<Longrightarrow> length u \<le> length t" for t u
    using d by (force simp: skipFraction_def split: list.splits if_splits)
  moreover have "skipUnit t = Some u \<Longrightarrow> length u < length t" for t u
    by (auto simp: skipUnit_def split: option.splits list.splits if_splits)
  moreover assume "skipQuantity s = Some r"
  ultimately show ?thesis using d by (fastforce simp: skipQuantity_def bind_eq_Some_conv)
qed

function helmTimeoutPattern :: "string \<Rightarrow> bool" where
  "helmTimeoutPattern s = (case skipQuantity s of None \<Rightarrow> False | Some r \<Rightarrow> r = [] \<or> helmTimeoutPattern r)"
  by pat_completeness auto
termination by (relation "measure length") (auto dest: skipQuantity_length)

declare helmTimeoutPattern.simps [simp del]

definition ParseHelmTimeoutAnnotation :: "(string \<Rightarrow> string + int) \<Rightarrow> string \<Rightarrow> string + int" where
  "ParseHelmTimeoutAnnotation parseDuration raw =
     (if raw = [] then Inr 0
      else if \<not> helmTimeoutPattern raw then Inl ''Flux accepts ms/s/m/h units only''
      else parseDuration raw)"

definition ParsePositiveDuration :: "(string \<Rightarrow> string + int) \<Rightarrow> string \<Rightarrow> string + int" where
  "ParsePositiveDuration parseDuration raw =
     try_bind (parseDuration raw) (\<lambda>d. if d \<le> 0 then Inl ''must be > 0'' else Inr d)"

definition ParseHelmInstallDisableWaitAnnotation :: "string \<Rightarrow> string + bool" where
  "ParseHelmInstallDisableWaitAnnotation raw =
     (let t = trimSpace raw in
      if t = [] then Inr False
      else if equalFold t ''true'' then Inr True
      else if equalFold t ''false'' then Inr False
      else Inl ''must be true or false'')"

definition ParseHelmServerSideApplyAnnotation :: "string \<Rightarrow> string + bool option" where
  "ParseHelmServerSideApplyAnnotation raw =
     (let t = trimSpace raw in
      if t = [] then Inr None
      else if equalFold t ''true'' \<or> equalFold t ''enabled'' then Inr (Some True)
      else if equalFold t ''false'' \<or> equalFold t ''disabled'' then Inr (Some False)
      else Inl ''must be true/enabled or false/disabled'')"

end
