(* ===== verification/Package_Operator.thy ===== *)
theory Package_Operator
  imports Package_Install Memory_Defaults Release_Config
begin

text \<open>
  The Package controller of the operator (internal/operator/package\_reconciler.go): a pass reads a
  Package and the PackageSource of the same name, prepares the namespaces of the chosen variant,
  waits for the packages it depends on, and keeps one HelmRelease for every component that is to be
  installed. The cluster is a record \<open>opState\<close> of what the pass writes; what it reads besides, and
  which of its calls fail, is a record \<open>opEnv\<close>. A Go map is traversed in the order \<open>oeOrder\<close>. The
  messages of conditions are left out.
\<close>

subsection \<open>Data\<close>

record ComponentInstall =
  ciReleaseName :: string
  ciNamespace :: string
  ciPrivileged :: bool
  ciDependsOn :: "string list"
  ciUpgradeCRDs :: string
  ciWaitStrategy :: string
  ciHealthCheckExprs :: "string list"

record opComponent =
  ocName :: string
  ocPath :: string
  ocInstall :: "ComponentInstall option"
  ocLibraries :: "string list"
  ocValuesFiles :: "string list"

record Library =
  liName :: string
  liPath :: string

record opVariant =
  ovName :: string
  ovDependsOn :: "string list"
  ovLibraries :: "Library list"
  ovComponents :: "opComponent list"

record PackageSourceRef =
  srKind :: string
  srName :: string
  srNamespace :: string
  srPath :: string

record opSource =
  osName :: string
  osUID :: string
  osLabels :: "string \<rightharpoonup> string"
  osAnnotations :: "string \<rightharpoonup> string"
  osSourceRef :: "PackageSourceRef option"
  osVariants :: "opVariant list"

text \<open>A component of a Package may be enabled or disabled, and may carry values.\<close>

record opPackage = Package +
  opUID :: string
  opDeleting :: bool
  opIgnore :: "string list"
  opComponents :: "string \<rightharpoonup> (bool option \<times> string option)"
  opDependencies :: "string \<rightharpoonup> bool"
  opReady :: "(bool \<times> string) option" \<comment> \<open>status and reason of the condition \<open>Ready\<close>\<close>

type_synonym releaseKey = "string \<times> string" \<comment> \<open>namespace and name\<close>

record HelmReleaseSpec =
  hsInterval :: int
  hsMaxHistory :: int
  hsChart :: "string \<times> string \<times> string" \<comment> \<open>kind, name and namespace of the source\<close>
  hsInstallTimeout :: int
  hsUpgradeTimeout :: int
  hsRetryInterval :: int
  hsCRDs :: string
  hsHealthCheckExprs :: "string list"
  hsWaitStrategy :: "string option"
  hsValuesFrom :: "(string \<times> string) list"
  hsValues :: "string option"
  hsDependsOn :: "releaseKey list"
  hsSuspend :: bool

record HelmRelease =
  hrLabels :: "string \<rightharpoonup> string"
  hrAnnotations :: "string \<rightharpoonup> string"
  hrOwners :: "(string \<times> string) list" \<comment> \<open>name and UID of the owning Packages\<close>
  hrSpec :: HelmReleaseSpec

record opConfig =
  cfInterval :: int
  cfRetryInterval :: int
  cfInstallTimeout :: int
  cfUpgradeTimeout :: int
  cfMaxHistory :: int
  cfMemory :: memConfig

record opState =
  stPackage :: "opPackage option" \<comment> \<open>the stored Package\<close>
  stReleases :: "releaseKey \<rightharpoonup> HelmRelease"
  stNamespaces :: "string \<rightharpoonup> (string \<rightharpoonup> string)" \<comment> \<open>the labels this controller owns\<close>
  stMemory :: memCluster

record opEnv =
  oePackage :: "string \<Rightarrow> opPackage fetched"
  oeReread :: "string \<Rightarrow> opPackage fetched" \<comment> \<open>after the status is written; the cache may lag\<close>
  oeSource :: "string \<Rightarrow> opSource fetched"
  oeSources :: "string + opSource list"
  oePackages :: "string + opPackage list"
  oeOrder :: "string list \<Rightarrow> string list"
  oeNamespaceErr :: "string \<Rightarrow> bool"
  oeReleaseErr :: "releaseKey \<Rightarrow> string option" \<comment> \<open>reading or writing this HelmRelease fails\<close>
  oeReleases :: "string + releaseKey list" \<comment> \<open>the HelmReleases that carry the label of the Package\<close>
  oeDeleteErr :: "releaseKey \<Rightarrow> bool"
  oeStatusErr :: bool
  oeDependentErr :: "string \<Rightarrow> bool"
  oeMemLib :: memLib
  oeMemEnv :: "string \<Rightarrow> memEnv"
  oeManaged :: "string + (string \<times> LimitRange) list"

definition packageLabel :: string where "packageLabel = ''cozystack.io/package''"
definition privilegedLabel :: string where "privilegedLabel = ''cozystack.io/privileged''"
definition systemLabel :: string where "systemLabel = ''cozystack.io/system''"
definition enforceLabel :: string where "enforceLabel = ''pod-security.kubernetes.io/enforce''"
definition AnnotationSkipCozystackValues :: string where
  "AnnotationSkipCozystackValues = ''operator.cozystack.io/skip-cozystack-values''"
definition SecretCozystackValues :: string where "SecretCozystackValues = ''cozystack-values''"
definition valuesFilesAnnotation :: string where "valuesFilesAnnotation = ''cozyhr.cozystack.io/values-files''"

subsection \<open>Components\<close>

definition variantNameOf :: "opPackage \<Rightarrow> string" where
  "variantNameOf pkg = (if pkVariant pkg = [] then ''default'' else pkVariant pkg)"

definition findVariant :: "opVariant list \<Rightarrow> string \<Rightarrow> opVariant option" where
  "findVariant vs n = find (\<lambda>v. ovName v = n) vs"

definition componentDisabled :: "opPackage \<Rightarrow> opComponent \<Rightarrow> bool" where
  "componentDisabled pkg c =
     (case opComponents pkg (ocName c) of Some (Some enabled, _) \<Rightarrow> \<not> enabled | _ \<Rightarrow> False)"

definition privilegedConfirmed :: "opPackage \<Rightarrow> bool" where
  "privilegedConfirmed pkg = PrivilegedConfirmed (Package.truncate pkg)"

definition componentInstallable :: "opPackage \<Rightarrow> opComponent \<Rightarrow> bool" where
  "componentInstallable pkg c =
     (case ocInstall c of
        None \<Rightarrow> False
      | Some i \<Rightarrow>
          if componentDisabled pkg c then False
          else if ciPrivileged i \<and> \<not> privilegedConfirmed pkg then False
          else True)"

definition releaseNameOf :: "opComponent \<Rightarrow> ComponentInstall \<Rightarrow> string" where
  "releaseNameOf c i = (if ciReleaseName i = [] then ocName c else ciReleaseName i)"

definition releaseKeyOf :: "opComponent \<Rightarrow> ComponentInstall \<Rightarrow> releaseKey" where
  "releaseKeyOf c i = (ciNamespace i, releaseNameOf c i)"

definition dashed :: "string \<Rightarrow> string" where
  "dashed s = map (\<lambda>c. if c = CHR ''.'' then CHR ''-'' else c) s"

definition artifactName :: "opSource \<Rightarrow> string \<Rightarrow> opComponent \<Rightarrow> string" where
  "artifactName ps variantName c = dashed (osName ps) @ ''-'' @ dashed variantName @ ''-'' @ dashed (ocName c)"

definition buildHelmReleaseSpec :: "opConfig \<Rightarrow> ComponentInstall \<Rightarrow> string \<Rightarrow> HelmReleaseSpec" where
  "buildHelmReleaseSpec cfg i artifact =
     \<lparr>hsInterval = cfInterval cfg, hsMaxHistory = cfMaxHistory cfg, hsChart = (''ExternalArtifact'', artifact, ''cozy-system''),
      hsInstallTimeout = cfInstallTimeout cfg, hsUpgradeTimeout = cfUpgradeTimeout cfg, hsRetryInterval = cfRetryInterval cfg,
      hsCRDs = ciUpgradeCRDs i, hsHealthCheckExprs = ciHealthCheckExprs i,
      hsWaitStrategy = ResolveWaitStrategy (ciWaitStrategy i) (ciHealthCheckExprs i \<noteq> []),
      hsValuesFrom = [], hsValues = None, hsDependsOn = [], hsSuspend = False\<rparr>"

subsection \<open>Dependencies\<close>

definition getVariantForPackage :: "opEnv \<Rightarrow> opPackage \<Rightarrow> string + opVariant" where
  "getVariantForPackage env pkg =
     (case oeSource env (pkName pkg) of
        Missing \<Rightarrow> Inl ''PackageSource not found''
      | FetchError e \<Rightarrow> Inl e
      | Found ps \<Rightarrow>
          (case findVariant (osVariants ps) (variantNameOf pkg) of
             None \<Rightarrow> Inl ''variant not found''
           | Some v \<Rightarrow> Inr v))"

fun componentMapOf :: "opComponent list \<Rightarrow> (string \<rightharpoonup> releaseKey) \<Rightarrow> string + (string \<rightharpoonup> releaseKey)" where
  "componentMapOf [] m = Inr m"
| "componentMapOf (c # cs) m =
     (case ocInstall c of
        None \<Rightarrow> componentMapOf cs m
      | Some i \<Rightarrow>
          if ciNamespace i = [] then Inl ''empty namespace''
          else componentMapOf cs (m(ocName c \<mapsto> releaseKeyOf c i)))"

fun componentDeps :: "(string \<rightharpoonup> releaseKey) \<Rightarrow> string list \<Rightarrow> string + releaseKey list" where
  "componentDeps m [] = Inr []"
| "componentDeps m (d # ds) =
     (case m d of
        None \<Rightarrow> Inl ''component not found''
      | Some k \<Rightarrow> try_bind (componentDeps m ds) (\<lambda>ks. Inr (k # ks)))"

fun packageReleases :: "opPackage \<Rightarrow> opComponent list \<Rightarrow> string + releaseKey list" where
  "packageReleases pkg [] = Inr []"
| "packageReleases pkg (c # cs) =
     (case ocInstall c of
        None \<Rightarrow> packageReleases pkg cs
      | Some i \<Rightarrow>
          if componentDisabled pkg c then packageReleases pkg cs
          else if ciNamespace i = [] then Inl ''empty namespace''
          else try_bind (packageReleases pkg cs) (\<lambda>ks. Inr (releaseKeyOf c i # ks)))"

fun variantDeps :: "opEnv \<Rightarrow> opPackage \<Rightarrow> string list \<Rightarrow> string + releaseKey list" where
  "variantDeps env pkg [] = Inr []"
| "variantDeps env pkg (d # ds) =
     (if d \<in> set (opIgnore pkg) then variantDeps env pkg ds
      else case oePackage env d of
        Missing \<Rightarrow> Inl ''dependent Package not found''
      | FetchError e \<Rightarrow> Inl e
      | Found dep \<Rightarrow>
          try_bind (getVariantForPackage env dep) (\<lambda>v.
          try_bind (packageReleases dep (ovComponents v)) (\<lambda>ks.
          try_bind (variantDeps env pkg ds) (\<lambda>ks'. Inr (ks @ ks')))))"

definition buildDependsOn :: "opEnv \<Rightarrow> opPackage \<Rightarrow> opVariant \<Rightarrow> ComponentInstall \<Rightarrow> string + releaseKey list" where
  "buildDependsOn env pkg v i =
     try_bind (componentMapOf (ovComponents v) Map.empty) (\<lambda>m.
     try_bind (componentDeps m (ciDependsOn i)) (\<lambda>own.
     try_bind (variantDeps env pkg (ovDependsOn v)) (\<lambda>others. Inr (own @ others))))"

definition readyOf :: "opPackage \<Rightarrow> bool" where
  "readyOf pkg = (case opReady pkg of None \<Rightarrow> False | Some (status, _) \<Rightarrow> status)"

definition currentDeps :: "opPackage \<Rightarrow> opVariant \<Rightarrow> string list" where
  "currentDeps pkg v = filter (\<lambda>d. d \<notin> set (opIgnore pkg)) (ovDependsOn v)"

definition updateDependenciesStatus :: "opEnv \<Rightarrow> opVariant \<Rightarrow> opPackage \<Rightarrow> opPackage" where
  "updateDependenciesStatus env v pkg =
     pkg\<lparr>opDependencies := (\<lambda>d.
       if d \<notin> set (currentDeps pkg v) then None
       else case oePackage env d of
         Missing \<Rightarrow> Some False
       | FetchError e \<Rightarrow> (case opDependencies pkg d of None \<Rightarrow> Some False | Some b \<Rightarrow> Some b)
       | Found dep \<Rightarrow> Some (readyOf dep))\<rparr>"

definition areDependenciesReady :: "opPackage \<Rightarrow> opVariant \<Rightarrow> bool" where
  "areDependenciesReady pkg v \<longleftrightarrow>
     list_all (\<lambda>d. d \<in> set (opIgnore pkg) \<or> opDependencies pkg d = Some True) (ovDependsOn v)"

definition dependsOnPackage :: "opPackage \<Rightarrow> opVariant \<Rightarrow> string \<Rightarrow> bool" where
  "dependsOnPackage pkg v n \<longleftrightarrow> n \<in> set (currentDeps pkg v)"

text \<open>The status updates of the packages that depend on the one just reconciled.\<close>

definition updateDependentPackagesDependencies :: "opEnv \<Rightarrow> string \<Rightarrow> opPackage list" where
  "updateDependentPackagesDependencies env n =
     (case oePackages env of
        Inl e \<Rightarrow> []
      | Inr pkgs \<Rightarrow>
          (case oeReread env n of
             Found updated \<Rightarrow>
               concat (map (\<lambda>pkg.
                 if pkName pkg = n then []
                 else case getVariantForPackage env pkg of
                   Inl e \<Rightarrow> []
                 | Inr v \<Rightarrow>
                     if dependsOnPackage pkg v n \<and> \<not> oeDependentErr env (pkName pkg)
                     then [pkg\<lparr>opDependencies := (opDependencies pkg)(n \<mapsto> readyOf updated)\<rparr>] else []) pkgs)
           | _ \<Rightarrow> []))"

text \<open>The packages to reconcile again when a package or a source changes.\<close>

definition enqueueDependents :: "opEnv \<Rightarrow> string \<Rightarrow> string list" where
  "enqueueDependents env n =
     (case oePackages env of
        Inl e \<Rightarrow> []
      | Inr pkgs \<Rightarrow>
          concat (map (\<lambda>pkg.
            if pkName pkg = n then []
            else case getVariantForPackage env pkg of
              Inl e \<Rightarrow> []
            | Inr v \<Rightarrow> if dependsOnPackage pkg v n then [pkName pkg] else []) pkgs))"

definition enqueueForSource :: "opEnv \<Rightarrow> string \<Rightarrow> string list" where
  "enqueueForSource env n = (case oePackage env n of Found pkg \<Rightarrow> [pkName pkg] | _ \<Rightarrow> [])"

subsection \<open>Namespaces\<close>

fun targetNamespaces :: "opPackage \<Rightarrow> opComponent list \<Rightarrow> string + string list" where
  "targetNamespaces pkg [] = Inr []"
| "targetNamespaces pkg (c # cs) =
     (case ocInstall c of
        None \<Rightarrow> targetNamespaces pkg cs
      | Some i \<Rightarrow>
          if componentDisabled pkg c then targetNamespaces pkg cs
          else if ciNamespace i = [] then Inl ''empty namespace''
          else try_bind (targetNamespaces pkg cs) (\<lambda>nss. Inr (List.insert (ciNamespace i) nss)))"

definition privilegedComponents :: "opPackage \<Rightarrow> string list \<Rightarrow> opVariant \<Rightarrow> string list" where
  "privilegedComponents pkg namespaces v =
     concat (map (\<lambda>c. case ocInstall c of
         None \<Rightarrow> []
       | Some i \<Rightarrow>
           if componentDisabled pkg c \<or> ciNamespace i \<notin> set namespaces then []
           else if ciPrivileged i \<and> privilegedConfirmed pkg then [ciNamespace i] else []) (ovComponents v))"

fun privilegedIn :: "opEnv \<Rightarrow> string list \<Rightarrow> opSource list \<Rightarrow> string + string list" where
  "privilegedIn env namespaces [] = Inr []"
| "privilegedIn env namespaces (ps # rest) =
     (case oePackage env (osName ps) of
        Missing \<Rightarrow> privilegedIn env namespaces rest
      | FetchError e \<Rightarrow> Inl e
      | Found pkg \<Rightarrow>
          (case findVariant (osVariants ps) (variantNameOf pkg) of
             None \<Rightarrow> privilegedIn env namespaces rest
           | Some v \<Rightarrow> try_bind (privilegedIn env namespaces rest)
               (\<lambda>r. Inr (privilegedComponents pkg namespaces v @ r))))"

definition resolvePrivilegedNamespaces :: "opEnv \<Rightarrow> string list \<Rightarrow> string + string list" where
  "resolvePrivilegedNamespaces env namespaces = try_bind (oeSources env) (privilegedIn env namespaces)"

definition isSystemNamespace :: "string \<Rightarrow> bool" where
  "isSystemNamespace ns \<longleftrightarrow> \<not> prefix ''tenant-'' ns"

definition namespaceLabels :: "string \<Rightarrow> bool \<Rightarrow> (string \<rightharpoonup> string)" where
  "namespaceLabels ns privileged =
     (let labels = (if isSystemNamespace ns then [systemLabel \<mapsto> ''true''] else Map.empty) in
      if privileged then labels(enforceLabel \<mapsto> ''privileged'') else labels)"

text \<open>A server-side apply replaces what this controller owns of a Namespace.\<close>

definition createOrUpdateNamespace :: "string \<Rightarrow> bool \<Rightarrow> opState \<Rightarrow> opState" where
  "createOrUpdateNamespace ns privileged st =
     (let mem = stMemory st;
          ann = (case mcNs mem ns of None \<Rightarrow> Map.empty | Some a \<Rightarrow> a) in
      st\<lparr>stNamespaces := (stNamespaces st)(ns \<mapsto> namespaceLabels ns privileged),
         stMemory := mem\<lparr>mcNs := (mcNs mem)(ns \<mapsto> ann(''helm.sh/resource-policy'' \<mapsto> ''keep''))\<rparr>\<rparr>)"

definition defaultMemory :: "opConfig \<Rightarrow> opEnv \<Rightarrow> opPackage \<Rightarrow> string \<Rightarrow> opState \<Rightarrow> opState" where
  "defaultMemory cfg env pkg ns st =
     (if isSystemNamespace ns \<and> mcLimit (cfMemory cfg) \<noteq> 0 \<and> \<not> opDeleting pkg
      then st\<lparr>stMemory := fst (reconcileSystemDefaultsLimitRange (oeMemLib env) (cfMemory cfg) (oeMemEnv env ns) ns (stMemory st))\<rparr>
      else st)"

fun namespaceLoop ::
    "opConfig \<Rightarrow> opEnv \<Rightarrow> opPackage \<Rightarrow> string list \<Rightarrow> string list \<Rightarrow> opState \<Rightarrow> opState \<times> string option" where
  "namespaceLoop cfg env pkg privileged [] st = (st, None)"
| "namespaceLoop cfg env pkg privileged (ns # nss) st =
     (if oeNamespaceErr env ns then (st, Some ''apply namespace'')
      else namespaceLoop cfg env pkg privileged nss
             (defaultMemory cfg env pkg ns (createOrUpdateNamespace ns (ns \<in> set privileged) st)))"

definition reconcileNamespaces :: "opConfig \<Rightarrow> opEnv \<Rightarrow> opPackage \<Rightarrow> opVariant \<Rightarrow> opState \<Rightarrow> opState \<times> string option" where
  "reconcileNamespaces cfg env pkg v st0 =
     (let st = (if mcLimit (cfMemory cfg) = 0
            then st0\<lparr>stMemory := fst (deleteManagedSystemDefaultsLimitRanges (oeMemLib env) (oeMemEnv env) (oeManaged env) (stMemory st0))\<rparr>
            else st0) in
      case targetNamespaces pkg (ovComponents v) of
        Inl e \<Rightarrow> (st, Some e)
      | Inr nss \<Rightarrow>
          (case resolvePrivilegedNamespaces env nss of
             Inl e \<Rightarrow> (st, Some e)
           | Inr privileged \<Rightarrow> namespaceLoop cfg env pkg privileged (oeOrder env nss) st))"

definition activeNamespaces :: "opPackage list \<Rightarrow> opSource list \<Rightarrow> string list" where
  "activeNamespaces pkgs sources =
     concat (map (\<lambda>pkg.
       if opDeleting pkg then []
       else case find (\<lambda>ps. osName ps = pkName pkg) sources of
         None \<Rightarrow> []
       | Some ps \<Rightarrow>
           concat (map (\<lambda>c. case ocInstall c of
               None \<Rightarrow> []
             | Some i \<Rightarrow> if prefix ''tenant-'' (ciNamespace i) \<or> componentDisabled pkg c then [] else [ciNamespace i])
             (concat (map ovComponents (filter (\<lambda>v. ovName v = variantNameOf pkg) (osVariants ps)))))) pkgs)"

definition cleanupUnusedMemoryDefaults :: "opConfig \<Rightarrow> opEnv \<Rightarrow> opState \<Rightarrow> opState \<times> bool" where
  "cleanupUnusedMemoryDefaults cfg env st =
     (let (mem, failed) = retireUnusedDefaults (oeMemLib env) (cfMemory cfg) (oeMemEnv env) (oeManaged env)
        (try_bind (oePackages env) (\<lambda>pkgs. try_bind (oeSources env) (\<lambda>sources.
           Inr (\<lambda>ns. ns \<in> set (activeNamespaces pkgs sources))))) (stMemory st)
      in (st\<lparr>stMemory := mem\<rparr>, failed))"

subsection \<open>HelmReleases\<close>

definition buildRelease ::
    "opConfig \<Rightarrow> opSource \<Rightarrow> opPackage \<Rightarrow> opComponent \<Rightarrow> ComponentInstall \<Rightarrow> releaseKey list \<Rightarrow> HelmRelease" where
  "buildRelease cfg ps pkg c i dependsOn =
     \<lparr>hrLabels = (if ciPrivileged i then [packageLabel \<mapsto> pkName pkg, privilegedLabel \<mapsto> ''true'']
                  else [packageLabel \<mapsto> pkName pkg]),
      hrAnnotations = (if ocValuesFiles c \<noteq> [] then [valuesFilesAnnotation \<mapsto> joinWith CHR '','' (ocValuesFiles c)]
                       else Map.empty),
      hrOwners = [(pkName pkg, opUID pkg)],
      hrSpec = (buildHelmReleaseSpec cfg i (artifactName ps (variantNameOf pkg) c))
        \<lparr>hsValuesFrom := (if strOf (osAnnotations ps) AnnotationSkipCozystackValues \<noteq> ''true''
                          then [(''Secret'', SecretCozystackValues)] else []),
         hsValues := (case opComponents pkg (ocName c) of Some (_, vals) \<Rightarrow> vals | None \<Rightarrow> None),
         hsDependsOn := dependsOn\<rparr>\<rparr>"

definition mergeKeeping :: "(string \<rightharpoonup> string) \<Rightarrow> (string \<rightharpoonup> string) \<Rightarrow> (string \<rightharpoonup> string)" where
  "mergeKeeping desired existing = existing ++ desired"

definition updatedRelease :: "HelmRelease \<Rightarrow> HelmRelease \<Rightarrow> HelmRelease" where
  "updatedRelease existing hr =
     \<lparr>hrLabels = mergeKeeping (hrLabels hr) (hrLabels existing),
      hrAnnotations = mergeKeeping (hrAnnotations hr) (hrAnnotations existing),
      hrOwners = hrOwners hr,
      hrSpec = (hrSpec hr)\<lparr>hsSuspend := hsSuspend (hrSpec existing)\<rparr>\<rparr>"

definition createOrUpdateHelmRelease :: "opEnv \<Rightarrow> releaseKey \<Rightarrow> HelmRelease \<Rightarrow> opState \<Rightarrow> opState \<times> string option" where
  "createOrUpdateHelmRelease env key hr st =
     (case oeReleaseErr env key of
        Some e \<Rightarrow> (st, Some e)
      | None \<Rightarrow>
          (case stReleases st key of
             None \<Rightarrow> (st\<lparr>stReleases := (stReleases st)(key \<mapsto> hr)\<rparr>, None)
           | Some existing \<Rightarrow> (st\<lparr>stReleases := (stReleases st)(key \<mapsto> updatedRelease existing hr)\<rparr>, None)))"

text \<open>The loop over the components ends early with a reason and possibly an error, or gives the
  components it skipped as not confirmed.\<close>

fun installLoop ::
    "opConfig \<Rightarrow> opEnv \<Rightarrow> opSource \<Rightarrow> opVariant \<Rightarrow> opPackage \<Rightarrow> opComponent list \<Rightarrow> opState \<Rightarrow> string list \<Rightarrow>
     opState \<times> (string \<times> string option + string list)" where
  "installLoop cfg env ps v pkg [] st skipped = (st, Inr skipped)"
| "installLoop cfg env ps v pkg (c # cs) st skipped =
     (case ocInstall c of
        None \<Rightarrow> installLoop cfg env ps v pkg cs st skipped
      | Some i \<Rightarrow>
          if componentDisabled pkg c then installLoop cfg env ps v pkg cs st skipped
          else if ciPrivileged i \<and> \<not> privilegedConfirmed pkg
            then installLoop cfg env ps v pkg cs st (skipped @ [ocName c])
          else if ciNamespace i = [] then (st, Inl (''InvalidConfiguration'', Some ''empty namespace''))
          else case buildDependsOn env pkg v i of
            Inl e \<Rightarrow> (st, Inl (''DependsOnFailed'', None))
          | Inr dependsOn \<Rightarrow>
              (case createOrUpdateHelmRelease env (releaseKeyOf c i) (buildRelease cfg ps pkg c i dependsOn) st of
                 (st1, Some e) \<Rightarrow> (st1, Inl (''HelmReleaseFailed'', Some e))
               | (st1, None) \<Rightarrow> installLoop cfg env ps v pkg cs st1 skipped))"

definition desiredReleases :: "opPackage \<Rightarrow> opVariant \<Rightarrow> releaseKey list" where
  "desiredReleases pkg v =
     concat (map (\<lambda>c. case ocInstall c of
         None \<Rightarrow> []
       | Some i \<Rightarrow> if \<not> componentInstallable pkg c \<or> ciNamespace i = [] then [] else [releaseKeyOf c i]) (ovComponents v))"

definition cleanupOrphanedHelmReleases :: "opEnv \<Rightarrow> opPackage \<Rightarrow> opVariant \<Rightarrow> opState \<Rightarrow> opState" where
  "cleanupOrphanedHelmReleases env pkg v st =
     (case oeReleases env of
        Inl e \<Rightarrow> st
      | Inr keys \<Rightarrow>
          st\<lparr>stReleases := fold (\<lambda>key m. if key \<in> set (desiredReleases pkg v) \<or> oeDeleteErr env key then m else m(key := None))
               keys (stReleases st)\<rparr>)"

subsection \<open>The pass\<close>

datatype pkg_outcome = PkgFinished | PkgRequeue int | PkgError string

definition setReady :: "opEnv \<Rightarrow> bool \<Rightarrow> string \<Rightarrow> opPackage \<Rightarrow> pkg_outcome \<Rightarrow> opState \<Rightarrow> opState \<times> pkg_outcome" where
  "setReady env status reason pkg out st =
     (if oeStatusErr env then (st, PkgError ''update status'')
      else (st\<lparr>stPackage := Some (pkg\<lparr>opReady := Some (status, reason)\<rparr>)\<rparr>, out))"

definition installVariant ::
    "opConfig \<Rightarrow> opEnv \<Rightarrow> opSource \<Rightarrow> opVariant \<Rightarrow> opPackage \<Rightarrow> opState \<Rightarrow> opState \<times> opPackage list \<times> pkg_outcome" where
  "installVariant cfg env ps v pkg0 st0 =
     (case reconcileNamespaces cfg env pkg0 v st0 of
        (st, Some e) \<Rightarrow> (st, [], PkgError e)
      | (st, None) \<Rightarrow>
          let pkg = updateDependenciesStatus env v pkg0 in
          if \<not> areDependenciesReady pkg v
          then (let (st', out) = setReady env False ''DependenciesNotReady'' pkg PkgFinished st in (st', [], out))
          else case installLoop cfg env ps v pkg (ovComponents v) st [] of
            (st1, Inl (reason, err)) \<Rightarrow>
              (let (st', out) = setReady env False reason pkg
                     (case err of None \<Rightarrow> PkgFinished | Some e \<Rightarrow> PkgError e) st1 in (st', [], out))
          | (st1, Inr skipped) \<Rightarrow>
              let st2 = cleanupOrphanedHelmReleases env pkg v st1 in
              if skipped \<noteq> []
              then (let (st', out) = setReady env False ''PrivilegedNotConfirmed'' pkg PkgFinished st2 in (st', [], out))
              else (let (st', out) = setReady env True ''ReconciliationSucceeded'' pkg PkgFinished st2 in
                    (st', if out = PkgFinished then updateDependentPackagesDependencies env (pkName pkg) else [], out)))"

definition reconcilePackage :: "opConfig \<Rightarrow> opEnv \<Rightarrow> opPackage \<Rightarrow> opState \<Rightarrow> opState \<times> opPackage list \<times> pkg_outcome" where
  "reconcilePackage cfg env pkg st =
     (case oeSource env (pkName pkg) of
        FetchError e \<Rightarrow> (st, [], PkgError e)
      | Missing \<Rightarrow> (let (st', out) = setReady env False ''PackageSourceNotFound'' pkg PkgFinished st in (st', [], out))
      | Found ps \<Rightarrow>
          (case findVariant (osVariants ps) (variantNameOf pkg) of
             None \<Rightarrow> (let (st', out) = setReady env False ''VariantNotFound'' pkg PkgFinished st in (st', [], out))
           | Some v \<Rightarrow> installVariant cfg env ps v pkg st))"

text \<open>The pass over the package \<open>n\<close>. A pass over a package without an error is repeated after at
  most five minutes.\<close>

definition PackageReconcile :: "opConfig \<Rightarrow> opEnv \<Rightarrow> string \<Rightarrow> opState \<Rightarrow> opState \<times> opPackage list \<times> pkg_outcome" where
  "PackageReconcile cfg env n st =
     (case oePackage env n of
        FetchError e \<Rightarrow> (st, [], PkgError e)
      | Missing \<Rightarrow>
          (let (st', failed) = cleanupUnusedMemoryDefaults cfg env st
           in (st', [], if failed then PkgError ''clean up memory defaults'' else PkgFinished))
      | Found pkg \<Rightarrow>
          (let (st', deps, out) = reconcilePackage cfg env pkg (fst (cleanupUnusedMemoryDefaults cfg env st))
           in (st', deps, case out of PkgFinished \<Rightarrow> PkgRequeue 300 | _ \<Rightarrow> out)))"

subsection \<open>The releases a package asks for\<close>

text \<open>The abstract view of the installation: the list of releases of the installable components, and
  the releases of the cluster after they are written and the others of the package are deleted.\<close>

definition wantedOf :: "opConfig \<Rightarrow> opEnv \<Rightarrow> opSource \<Rightarrow> opVariant \<Rightarrow> opPackage \<Rightarrow> opComponent \<Rightarrow> (releaseKey \<times> HelmRelease) list" where
  "wantedOf cfg env ps v pkg c =
     (case ocInstall c of
        None \<Rightarrow> []
      | Some i \<Rightarrow>
          if componentInstallable pkg c \<and> ciNamespace i \<noteq> [] then
            (case buildDependsOn env pkg v i of
               Inl e \<Rightarrow> []
             | Inr ds \<Rightarrow> [(releaseKeyOf c i, buildRelease cfg ps pkg c i ds)])
          else [])"

definition wanted :: "opConfig \<Rightarrow> opEnv \<Rightarrow> opSource \<Rightarrow> opVariant \<Rightarrow> opPackage \<Rightarrow> (releaseKey \<times> HelmRelease) list" where
  "wanted cfg env ps v pkg = concat (map (wantedOf cfg env ps v pkg) (ovComponents v))"

definition writtenOver :: "HelmRelease option \<Rightarrow> HelmRelease \<Rightarrow> HelmRelease" where
  "writtenOver old hr = (case old of None \<Rightarrow> hr | Some existing \<Rightarrow> updatedRelease existing hr)"

definition convergedReleases ::
    "(releaseKey \<times> HelmRelease) list \<Rightarrow> (releaseKey \<Rightarrow> bool) \<Rightarrow> (releaseKey \<rightharpoonup> HelmRelease) \<Rightarrow> (releaseKey \<rightharpoonup> HelmRelease)" where
  "convergedReleases ws deleted old key =
     (case map_of ws key of
        Some hr \<Rightarrow> Some (writtenOver (old key) hr)
      | None \<Rightarrow> if deleted key then None else old key)"

definition unconfirmed :: "opPackage \<Rightarrow> opComponent list \<Rightarrow> string list" where
  "unconfirmed pkg cs = map ocName (filter (\<lambda>c. \<exists>i. ocInstall c = Some i \<and> \<not> componentDisabled pkg c \<and> ciPrivileged i \<and>
     \<not> privilegedConfirmed pkg) cs)"

lemma createOrUpdateHelmRelease_written:
  "createOrUpdateHelmRelease env key hr st = (st1, None) \<Longrightarrow>
   st1 = st\<lparr>stReleases := (stReleases st)(key \<mapsto> writtenOver (stReleases st key) hr)\<rparr>"
  by (auto simp: createOrUpdateHelmRelease_def writtenOver_def split: option.splits)

lemma createOrUpdateHelmRelease_failed:
  "createOrUpdateHelmRelease env key hr st = (st1, Some e) \<Longrightarrow> st1 = st"
  by (auto simp: createOrUpdateHelmRelease_def split: option.splits)

text \<open>One turn of the loop: it stops without a write, or goes on after the write of what is wanted.\<close>

lemma installLoop_turn:
  assumes "installLoop cfg env ps v pkg (c # cs) st skipped = (st', r)"
  obtains (stop) reason where "st' = st" "r = Inl reason"
    | (skip) "wantedOf cfg env ps v pkg c = []" "unconfirmed pkg [c] = []"
      "installLoop cfg env ps v pkg cs st skipped = (st', r)"
    | (unasked) "wantedOf cfg env ps v pkg c = []" "unconfirmed pkg [c] = [ocName c]"
      "installLoop cfg env ps v pkg cs st (skipped @ [ocName c]) = (st', r)"
    | (written) key hr where "wantedOf cfg env ps v pkg c = [(key, hr)]" "unconfirmed pkg [c] = []"
      "installLoop cfg env ps v pkg cs (st\<lparr>stReleases := (stReleases st)(key \<mapsto> writtenOver (stReleases st key) hr)\<rparr>) skipped = (st', r)"
proof (cases "ocInstall c")
  case None
  then show thesis using assms skip by (simp add: wantedOf_def unconfirmed_def)
next
  case (Some i)
  show thesis
  proof (cases "componentInstallable pkg c")
    case False
    then show thesis using assms Some skip unasked
      by (auto simp: componentInstallable_def wantedOf_def unconfirmed_def split: if_splits)
  next
    case True
    then have g: "\<not> componentDisabled pkg c" "\<not> (ciPrivileged i \<and> \<not> privilegedConfirmed pkg)"
      using Some by (auto simp: componentInstallable_def split: if_splits)
    show thesis
    proof (cases "ciNamespace i = [] \<or> (\<exists>e. buildDependsOn env pkg v i = Inl e)")
      case True
      then show thesis using assms Some g stop by (auto split: if_splits)
    next
      case False
      then obtain ds where ds: "ciNamespace i \<noteq> []" "buildDependsOn env pkg v i = Inr ds"
        by (cases "buildDependsOn env pkg v i") auto
      let ?k = "releaseKeyOf c i" and ?h = "buildRelease cfg ps pkg c i ds"
      have w: "wantedOf cfg env ps v pkg c = [(?k, ?h)]" "unconfirmed pkg [c] = []"
        using Some True ds g by (auto simp: wantedOf_def unconfirmed_def)
      obtain st1 err where cu: "createOrUpdateHelmRelease env ?k ?h st = (st1, err)"
        by (cases "createOrUpdateHelmRelease env ?k ?h st")
      show thesis
      proof (cases err)
        case None
        with cu show thesis using assms Some g ds w written createOrUpdateHelmRelease_written by auto
      next
        case (Some e)
        with cu show thesis using assms \<open>ocInstall c = Some i\<close> g ds stop createOrUpdateHelmRelease_failed by auto
      qed
    qed
  qed
qed

lemma unconfirmed_Cons: "unconfirmed pkg (c # cs) = unconfirmed pkg [c] @ unconfirmed pkg cs"
  by (simp add: unconfirmed_def)

text \<open>The whole loop: only releases are written, only those wanted, and when it ends all of them.\<close>

lemma installLoop_frame:
  "installLoop cfg env ps v pkg cs st skipped = (st', r) \<Longrightarrow>
   st' = st\<lparr>stReleases := stReleases st'\<rparr> \<and>
   (\<forall>k. stReleases st' k \<noteq> stReleases st k \<longrightarrow> k \<in> fst ` set (concat (map (wantedOf cfg env ps v pkg) cs)) \<and> stReleases st' k \<noteq> None)"
proof (induction cs arbitrary: st skipped)
  case (Cons c cs)
  from Cons.prems show ?case
  proof (cases rule: installLoop_turn)
    case (written key hr)
    from Cons.IH [OF written(3)] written(1) show ?thesis by (auto split: if_splits) (metis fun_upd_apply option.distinct(1))+
  qed (use Cons.IH in auto)
qed simp

lemma installLoop_all:
  "installLoop cfg env ps v pkg cs st skipped = (st', Inr sk) \<Longrightarrow>
   distinct (map fst (concat (map (wantedOf cfg env ps v pkg) cs))) \<Longrightarrow>
   sk = skipped @ unconfirmed pkg cs \<and>
   stReleases st' = convergedReleases (concat (map (wantedOf cfg env ps v pkg) cs)) (\<lambda>k. False) (stReleases st)"
proof (induction cs arbitrary: st skipped)
  case Nil
  then show ?case by (simp add: unconfirmed_def convergedReleases_def fun_eq_iff)
next
  case (Cons c cs)
  from Cons.prems(1) show ?case
  proof (cases rule: installLoop_turn)
    case (written key hr)
    let ?st = "st\<lparr>stReleases := (stReleases st)(key \<mapsto> writtenOver (stReleases st key) hr)\<rparr>"
    have d: "key \<notin> fst ` set (concat (map (wantedOf cfg env ps v pkg) cs))" "distinct (map fst (concat (map (wantedOf cfg env ps v pkg) cs)))"
      using Cons.prems(2) written(1) by auto
    then have "map_of (concat (map (wantedOf cfg env ps v pkg) cs)) key = None" by (simp add: map_of_eq_None_iff)
    then have "convergedReleases (concat (map (wantedOf cfg env ps v pkg) cs)) (\<lambda>k. False) (stReleases ?st) =
        convergedReleases ((key, hr) # concat (map (wantedOf cfg env ps v pkg) cs)) (\<lambda>k. False) (stReleases st)"
      by (auto simp: convergedReleases_def fun_eq_iff split: option.splits)
    then show ?thesis using Cons.IH [OF written(3) d(2)] written(1,2) unconfirmed_Cons [of pkg c cs] by (simp add: fun_upd_def)
  next
    case unasked
    then have "distinct (map fst (concat (map (wantedOf cfg env ps v pkg) cs)))" using Cons.prems(2) by simp
    from Cons.IH [OF unasked(3) this] show ?thesis using unasked(1,2) unconfirmed_Cons [of pkg c cs] by simp
  qed (use Cons.IH Cons.prems(2) unconfirmed_Cons [of pkg c cs] in auto)
qed

lemma installLoop_installable:
  "installLoop cfg env ps v pkg cs st skipped = (st', Inr sk) \<Longrightarrow> c \<in> set cs \<Longrightarrow> componentInstallable pkg c \<Longrightarrow>
   \<exists>i ds. ocInstall c = Some i \<and> ciNamespace i \<noteq> [] \<and> buildDependsOn env pkg v i = Inr ds"
proof (induction cs arbitrary: st skipped)
  case (Cons d cs)
  show ?case
  proof (cases "c = d")
    case True
    then show ?thesis using Cons.prems
      by (auto simp: componentInstallable_def split: option.splits if_splits sum.splits prod.splits)
  next
    case False
    from Cons.prems(1) show ?thesis
      by (cases rule: installLoop_turn) (use Cons.IH Cons.prems(2,3) False in auto)
  qed
qed simp

lemma desiredReleases_wanted:
  assumes "installLoop cfg env ps v pkg (ovComponents v) st skipped = (st', Inr sk)"
  shows "set (desiredReleases pkg v) = fst ` set (wanted cfg env ps v pkg)"
proof -
  have "(case ocInstall c of None \<Rightarrow> [] | Some i \<Rightarrow> if \<not> componentInstallable pkg c \<or> ciNamespace i = [] then [] else [releaseKeyOf c i])
      = map fst (wantedOf cfg env ps v pkg c)" if "c \<in> set (ovComponents v)" for c
  proof (cases "componentInstallable pkg c")
    case True
    from installLoop_installable [OF assms that True] show ?thesis using True by (auto simp: wantedOf_def)
  next
    case False
    then show ?thesis by (simp add: wantedOf_def split: option.split)
  qed
  then show ?thesis by (force simp: desiredReleases_def wanted_def)
qed

lemma cleanupOrphaned_releases:
  "stReleases (cleanupOrphanedHelmReleases env pkg v st) k =
     (if (\<exists>keys. oeReleases env = Inr keys \<and> k \<in> set keys) \<and> k \<notin> set (desiredReleases pkg v) \<and> \<not> oeDeleteErr env k then None
      else stReleases st k)"
proof (cases "oeReleases env")
  case (Inr keys)
  have "fold (\<lambda>key m. if key \<in> D \<or> oeDeleteErr env key then m else m(key := None)) ks m k =
      (if k \<in> set ks \<and> k \<notin> D \<and> \<not> oeDeleteErr env k then None else m k)" for ks and D and m :: "releaseKey \<rightharpoonup> HelmRelease"
    by (induction ks arbitrary: m) auto
  then show ?thesis using Inr by (simp add: cleanupOrphanedHelmReleases_def)
qed (simp add: cleanupOrphanedHelmReleases_def)

text \<open>Namespaces and memory defaults leave the releases and the stored package alone.\<close>

lemma namespaceLoop_frame:
  "namespaceLoop cfg env pkg priv nss st = (st', err) \<Longrightarrow> stReleases st' = stReleases st \<and> stPackage st' = stPackage st"
  by (induction nss arbitrary: st)
    (auto simp: defaultMemory_def createOrUpdateNamespace_def Let_def split: if_splits)

lemma reconcileNamespaces_frame:
  "reconcileNamespaces cfg env pkg v st = (st', err) \<Longrightarrow> stReleases st' = stReleases st \<and> stPackage st' = stPackage st"
  by (auto simp: reconcileNamespaces_def Let_def dest!: namespaceLoop_frame split: sum.splits if_splits)

lemma cleanupUnused_frame:
  "stReleases (fst (cleanupUnusedMemoryDefaults cfg env st)) = stReleases st \<and>
   stPackage (fst (cleanupUnusedMemoryDefaults cfg env st)) = stPackage st \<and>
   stNamespaces (fst (cleanupUnusedMemoryDefaults cfg env st)) = stNamespaces st"
  by (simp add: cleanupUnusedMemoryDefaults_def Let_def split: prod.splits)

lemma setReady_frame:
  "setReady env b r pkg o' st = (st', out) \<Longrightarrow> stReleases st' = stReleases st \<and> stNamespaces st' = stNamespaces st \<and>
   (out = PkgError ''update status'' \<and> st' = st \<or> out = o' \<and> stPackage st' = Some (pkg\<lparr>opReady := Some (b, r)\<rparr>))"
  by (auto simp: setReady_def split: if_splits)

text \<open>The ways a pass over a variant ends.\<close>

lemma installVariant_cases:
  assumes "installVariant cfg env ps v pkg0 st0 = (st', deps, out)"
  defines "pkg \<equiv> updateDependenciesStatus env v pkg0"
  obtains (failed) e where "reconcileNamespaces cfg env pkg0 v st0 = (st', Some e)" "out = PkgError e" "deps = []"
    | (waiting) st where "reconcileNamespaces cfg env pkg0 v st0 = (st, None)"
      "setReady env False ''DependenciesNotReady'' pkg PkgFinished st = (st', out)" "deps = []"
    | (stopped) st st1 reason o' where "reconcileNamespaces cfg env pkg0 v st0 = (st, None)" "areDependenciesReady pkg v"
      "installLoop cfg env ps v pkg (ovComponents v) st [] = (st1, Inl reason)"
      "setReady env False (fst reason) pkg o' st1 = (st', out)" "deps = []"
    | (ended) st st1 skipped where "reconcileNamespaces cfg env pkg0 v st0 = (st, None)" "areDependenciesReady pkg v"
      "installLoop cfg env ps v pkg (ovComponents v) st [] = (st1, Inr skipped)"
      "setReady env (skipped = []) (if skipped = [] then ''ReconciliationSucceeded'' else ''PrivilegedNotConfirmed'') pkg PkgFinished
        (cleanupOrphanedHelmReleases env pkg v st1) = (st', out)"
proof -
  obtain st err where ns: "reconcileNamespaces cfg env pkg0 v st0 = (st, err)" by (cases "reconcileNamespaces cfg env pkg0 v st0")
  show thesis
  proof (cases err)
    case (Some e)
    then show thesis using assms(1) ns failed by (simp add: installVariant_def)
  next
    case None
    then have ns: "reconcileNamespaces cfg env pkg0 v st0 = (st, None)" using ns by simp
    obtain st1 r where loop: "installLoop cfg env ps v pkg (ovComponents v) st [] = (st1, r)"
      by (cases "installLoop cfg env ps v pkg (ovComponents v) st []")
    show thesis
    proof (cases "areDependenciesReady pkg v")
      case False
      then show thesis using assms(1) ns waiting [OF ns]
        by (auto simp: installVariant_def Let_def pkg_def [symmetric] split: prod.splits)
    next
      case True
      show thesis
      proof (cases r)
        case (Inl reason)
        then show thesis using assms(1) ns loop True stopped [OF ns True]
          by (cases reason) (auto simp: installVariant_def Let_def pkg_def [symmetric] split: prod.splits)
      next
        case (Inr skipped)
        then show thesis using assms(1) ns loop True ended [OF ns True]
          by (auto simp: installVariant_def Let_def pkg_def [symmetric] split: prod.splits if_splits)
      qed
    qed
  qed
qed

lemma areDependenciesReady_read:
  assumes "areDependenciesReady (updateDependenciesStatus env v pkg) v" "d \<in> set (currentDeps pkg v)"
  shows "(\<exists>dep. oePackage env d = Found dep \<and> readyOf dep) \<or> (\<exists>e. oePackage env d = FetchError e \<and> opDependencies pkg d = Some True)"
proof -
  let ?p = "updateDependenciesStatus env v pkg"
  have "opIgnore ?p = opIgnore pkg" by (simp add: updateDependenciesStatus_def)
  then have "opDependencies ?p d = Some True"
    using assms by (auto simp: areDependenciesReady_def currentDeps_def list_all_iff)
  then show ?thesis using assms(2) by (auto simp: updateDependenciesStatus_def split: fetched.splits option.splits)
qed

lemma componentInstallable_status [simp]:
  "componentInstallable (updateDependenciesStatus env v pkg) c = componentInstallable pkg c"
  by (simp add: componentInstallable_def componentDisabled_def privilegedConfirmed_def PrivilegedConfirmed_def
      updateDependenciesStatus_def Package.truncate_def split: option.split)

lemma desiredReleases_status [simp]:
  "desiredReleases (updateDependenciesStatus env v pkg) v = desiredReleases pkg v"
  by (simp add: desiredReleases_def cong: option.case_cong)

lemma wantedOf_cases:
  "wantedOf cfg env ps v pkg c = [] \<or>
   (\<exists>i ds. ocInstall c = Some i \<and> componentInstallable pkg c \<and> ciNamespace i \<noteq> [] \<and> buildDependsOn env pkg v i = Inr ds \<and>
      wantedOf cfg env ps v pkg c = [(releaseKeyOf c i, buildRelease cfg ps pkg c i ds)])"
proof (cases "ocInstall c")
  case (Some i)
  then show ?thesis by (cases "buildDependsOn env pkg v i") (simp_all add: wantedOf_def)
qed (simp add: wantedOf_def)

lemma wanted_component:
  assumes "k \<in> fst ` set (concat (map (wantedOf cfg env ps v pkg) cs))"
  shows "\<exists>c \<in> set cs. \<exists>i. ocInstall c = Some i \<and> componentInstallable pkg c \<and> k = releaseKeyOf c i"
proof -
  obtain c where c: "c \<in> set cs" "k \<in> fst ` set (wantedOf cfg env ps v pkg c)" using assms by auto
  from c(2) obtain i where "ocInstall c = Some i" "componentInstallable pkg c" "k = releaseKeyOf c i"
    using wantedOf_cases [of cfg env ps v pkg c] by auto
  with c(1) show ?thesis by blast
qed

lemma PackageReconcile_cases:
  assumes "PackageReconcile cfg env n st = (st', deps, out)"
  obtains (idle) "stReleases st' = stReleases st" "stNamespaces st' = stNamespaces st"
      "out = PkgRequeue 300 \<Longrightarrow> stPackage st' = stPackage st \<or> (\<exists>p r. stPackage st' = Some p \<and> opReady p = Some (False, r))"
    | (variant) pkg ps v st0 o' where "oePackage env n = Found pkg" "oeSource env (pkName pkg) = Found ps"
      "findVariant (osVariants ps) (variantNameOf pkg) = Some v" "installVariant cfg env ps v pkg st0 = (st', deps, o')"
      "stReleases st0 = stReleases st" "stPackage st0 = stPackage st" "stNamespaces st0 = stNamespaces st"
      "out = PkgRequeue 300 \<Longrightarrow> o' = PkgFinished \<or> o' = PkgRequeue 300"
proof (cases "oePackage env n")
  case (Found pkg)
  let ?st = "fst (cleanupUnusedMemoryDefaults cfg env st)"
  note fr = cleanupUnused_frame [of cfg env st]
  obtain o' where rec: "reconcilePackage cfg env pkg ?st = (st', deps, o')"
    and out: "out = (case o' of PkgFinished \<Rightarrow> PkgRequeue 300 | _ \<Rightarrow> o')"
    using assms Found by (auto simp: PackageReconcile_def split: prod.splits)
  show thesis
  proof (cases "\<exists>ps v. oeSource env (pkName pkg) = Found ps \<and> findVariant (osVariants ps) (variantNameOf pkg) = Some v")
    case True
    then obtain ps v where v: "oeSource env (pkName pkg) = Found ps" "findVariant (osVariants ps) (variantNameOf pkg) = Some v" by blast
    then have "installVariant cfg env ps v pkg ?st = (st', deps, o')" using rec by (simp add: reconcilePackage_def)
    then show thesis using variant [OF Found v] fr out by (auto split: pkg_outcome.splits)
  next
    case False
    then have "st' = ?st \<or> (\<exists>r. setReady env False r pkg PkgFinished ?st = (st', o'))"
      using rec by (auto simp: reconcilePackage_def split: fetched.splits option.splits prod.splits)
    then show thesis using idle fr setReady_frame by (metis opPackage.select_convs(6) opPackage.surjective opPackage.update_convs(6))
  qed
next
  case Missing
  then show thesis using assms idle cleanupUnused_frame [of cfg env st] by (auto simp: PackageReconcile_def split: prod.splits)
next
  case (FetchError e)
  then show thesis using assms idle by (simp add: PackageReconcile_def)
qed

lemma PackageReconcile_variant:
  assumes "PackageReconcile cfg env n st = (st', deps, out)" "oePackage env n = Found pkg" "oeSource env (pkName pkg) = Found ps"
    and "findVariant (osVariants ps) (variantNameOf pkg) = Some v"
  obtains st0 o' where "installVariant cfg env ps v pkg st0 = (st', deps, o')" "stReleases st0 = stReleases st"
      "stNamespaces st0 = stNamespaces st" "out = (case o' of PkgFinished \<Rightarrow> PkgRequeue 300 | _ \<Rightarrow> o')"
proof -
  let ?st = "fst (cleanupUnusedMemoryDefaults cfg env st)"
  obtain o' where "installVariant cfg env ps v pkg ?st = (st', deps, o')" "out = (case o' of PkgFinished \<Rightarrow> PkgRequeue 300 | _ \<Rightarrow> o')"
    using assms by (auto simp: PackageReconcile_def reconcilePackage_def split: prod.splits)
  then show thesis using that cleanupUnused_frame [of cfg env st] by blast
qed

text \<open>A pass that leaves the package Ready has gone through every component.\<close>

lemma installVariant_ready:
  assumes "installVariant cfg env ps v pkg0 st0 = (st', deps, o')" "\<not> (\<exists>e. o' = PkgError e)"
    and "stPackage st' = Some p" "opReady p = Some (True, r)"
  defines "pkg \<equiv> updateDependenciesStatus env v pkg0"
  obtains st st1 where "areDependenciesReady pkg v" "stReleases st = stReleases st0"
      "installLoop cfg env ps v pkg (ovComponents v) st [] = (st1, Inr [])"
      "stReleases st' = stReleases (cleanupOrphanedHelmReleases env pkg v st1)"
  using assms(1)
proof (cases rule: installVariant_cases)
  case (waiting st)
  then show thesis using setReady_frame [OF waiting(2)] assms(2-4) by auto
next
  case (stopped st st1 reason o2)
  then show thesis using setReady_frame [OF stopped(4)] assms(2-4) by auto
next
  case (ended st st1 skipped)
  note fr = setReady_frame [OF ended(4)]
  then have "skipped = []" using assms(2-4) by auto
  then show thesis using that [of st st1] ended(2,3) reconcileNamespaces_frame [OF ended(1)] fr by (simp add: pkg_def)
qed (use assms(2) in blast)

lemma writtenOver_again: "writtenOver (Some (writtenOver old hr)) hr = writtenOver old hr"
proof -
  have m: "m ++ m = m" "l ++ m ++ m = l ++ m" for l m :: "string \<rightharpoonup> string"
    by (simp_all add: map_add_def fun_eq_iff split: option.split)
  show ?thesis by (cases hr; cases old) (simp_all add: writtenOver_def updatedRelease_def mergeKeeping_def m)
qed

lemma convergedReleases_again: "convergedReleases ws d (convergedReleases ws d old) = convergedReleases ws d old"
  by (auto simp: convergedReleases_def fun_eq_iff writtenOver_again split: option.split)

lemma installLoop_converged:
  assumes "installLoop cfg env ps v pkg (ovComponents v) st [] = (st1, Inr sk)" "oeReleases env = Inr keys"
    and "distinct (map fst (wanted cfg env ps v pkg))"
  shows "sk = unconfirmed pkg (ovComponents v)"
    and "stReleases (cleanupOrphanedHelmReleases env pkg v st1) =
      convergedReleases (wanted cfg env ps v pkg) (\<lambda>k. k \<in> set keys \<and> \<not> oeDeleteErr env k) (stReleases st)"
proof -
  note all = installLoop_all [OF assms(1)] and d = desiredReleases_wanted [OF assms(1)]
  show "sk = unconfirmed pkg (ovComponents v)" using all assms(3) by (simp add: wanted_def)
  have r: "stReleases st1 = convergedReleases (wanted cfg env ps v pkg) (\<lambda>k. False) (stReleases st)"
    using all assms(3) by (simp add: wanted_def)
  show "stReleases (cleanupOrphanedHelmReleases env pkg v st1) =
      convergedReleases (wanted cfg env ps v pkg) (\<lambda>k. k \<in> set keys \<and> \<not> oeDeleteErr env k) (stReleases st)"
  proof
    fix k
    show "stReleases (cleanupOrphanedHelmReleases env pkg v st1) k =
        convergedReleases (wanted cfg env ps v pkg) (\<lambda>k. k \<in> set keys \<and> \<not> oeDeleteErr env k) (stReleases st) k"
    proof (cases "map_of (wanted cfg env ps v pkg) k")
      case None
      then have "k \<notin> set (desiredReleases pkg v)" using d by (simp add: map_of_eq_None_iff)
      then show ?thesis using None r assms(2) by (simp add: cleanupOrphaned_releases convergedReleases_def)
    next
      case (Some hr)
      then have "k \<in> set (desiredReleases pkg v)" using d by (metis fst_conv image_eqI map_of_SomeD)
      then show ?thesis using Some r by (simp add: cleanupOrphaned_releases convergedReleases_def)
    qed
  qed
qed

lemma installable_wanted:
  assumes "installLoop cfg env ps v pkg (ovComponents v) st [] = (st1, Inr sk)" "c \<in> set (ovComponents v)" "componentInstallable pkg c"
  shows "\<exists>i hr. ocInstall c = Some i \<and> (releaseKeyOf c i, hr) \<in> set (wanted cfg env ps v pkg)"
proof -
  obtain i ds where i: "ocInstall c = Some i" "ciNamespace i \<noteq> []" "buildDependsOn env pkg v i = Inr ds"
    using installLoop_installable [OF assms] by blast
  then have "wantedOf cfg env ps v pkg c = [(releaseKeyOf c i, buildRelease cfg ps pkg c i ds)]" using assms(3) by (simp add: wantedOf_def)
  then have "(releaseKeyOf c i, buildRelease cfg ps pkg c i ds) \<in> set (wanted cfg env ps v pkg)"
    using assms(2) by (auto simp: wanted_def intro!: bexI [of _ c])
  with i(1) show ?thesis by blast
qed

lemma namespaceLoop_labels:
  "namespaceLoop cfg env pkg priv nss st = (st', None) \<Longrightarrow>
   stNamespaces st' ns = (if ns \<in> set nss then Some (namespaceLabels ns (ns \<in> set priv)) else stNamespaces st ns)"
  by (induction nss arbitrary: st)
    (auto simp: defaultMemory_def createOrUpdateNamespace_def Let_def split: if_splits)

lemma privilegedComponents_iff:
  "ns \<in> set (privilegedComponents pkg nss v) \<longleftrightarrow> ns \<in> set nss \<and> privilegedConfirmed pkg \<and>
     (\<exists>c \<in> set (ovComponents v). \<exists>i. ocInstall c = Some i \<and> \<not> componentDisabled pkg c \<and> ciPrivileged i \<and> ciNamespace i = ns)"
proof -
  have "ns \<in> set (case ocInstall c of None \<Rightarrow> [] | Some i \<Rightarrow>
        if componentDisabled pkg c \<or> ciNamespace i \<notin> set nss then []
        else if ciPrivileged i \<and> privilegedConfirmed pkg then [ciNamespace i] else []) \<longleftrightarrow>
      ns \<in> set nss \<and> privilegedConfirmed pkg \<and> (\<exists>i. ocInstall c = Some i \<and> \<not> componentDisabled pkg c \<and> ciPrivileged i \<and> ciNamespace i = ns)" for c
    by (cases "ocInstall c") auto
  then show ?thesis unfolding privilegedComponents_def set_concat set_map image_image by blast
qed

lemma privilegedIn_iff:
  "privilegedIn env nss sources = Inr r \<Longrightarrow>
   ns \<in> set r \<longleftrightarrow> (\<exists>ps \<in> set sources. \<exists>pkg v. oePackage env (osName ps) = Found pkg \<and>
     findVariant (osVariants ps) (variantNameOf pkg) = Some v \<and> ns \<in> set (privilegedComponents pkg nss v))"
proof (induction sources arbitrary: r)
  case (Cons ps sources)
  show ?case
  proof (cases "oePackage env (osName ps)")
    case (Found pkg)
    then show ?thesis using Cons
      by (cases "findVariant (osVariants ps) (variantNameOf pkg)"; cases "privilegedIn env nss sources") auto
  qed (use Cons in auto)
qed simp


text \<open>C27: Whatever the outcome of a pass, a HelmRelease changes only when every dependency that is
  not ignored was read as ready (or could not be read and was ready before). A release that is
  written belongs to an enabled component of the chosen variant, a privileged one only after the
  package is confirmed; a release that is deleted carries the label of the package and is none of
  those the package asks for.\<close>

theorem PackageReconcile_guarded:
  assumes run: "PackageReconcile cfg env n st = (st', deps, out)" and change: "stReleases st' k \<noteq> stReleases st k"
  shows "\<exists>pkg ps v. oePackage env n = Found pkg \<and> oeSource env (pkName pkg) = Found ps \<and>
    findVariant (osVariants ps) (variantNameOf pkg) = Some v \<and>
    (\<forall>d \<in> set (currentDeps pkg v). (\<exists>dep. oePackage env d = Found dep \<and> readyOf dep) \<or>
       (\<exists>e. oePackage env d = FetchError e \<and> opDependencies pkg d = Some True)) \<and>
    (if stReleases st' k = None
     then (\<exists>keys. oeReleases env = Inr keys \<and> k \<in> set keys) \<and> k \<notin> set (desiredReleases pkg v)
     else \<exists>c \<in> set (ovComponents v). \<exists>i. ocInstall c = Some i \<and> k = releaseKeyOf c i \<and> \<not> componentDisabled pkg c \<and>
       (ciPrivileged i \<longrightarrow> privilegedConfirmed pkg))"
  using run
proof (cases rule: PackageReconcile_cases)
  case (variant pkg0 ps v st0 o')
  let ?pkg = "updateDependenciesStatus env v pkg0"
  let ?W = "fst ` set (concat (map (wantedOf cfg env ps v ?pkg) (ovComponents v)))"
  let ?goal = "areDependenciesReady ?pkg v \<and> (if stReleases st' k = None
     then (\<exists>keys. oeReleases env = Inr keys \<and> k \<in> set keys) \<and> k \<notin> set (desiredReleases ?pkg v)
     else k \<in> ?W)"
  from variant(4) have g: ?goal
  proof (cases rule: installVariant_cases)
    case (stopped st2 st1 reason o2)
    have "stReleases st' k = stReleases st1 k" "stReleases st2 k = stReleases st k"
      using setReady_frame [OF stopped(4)] reconcileNamespaces_frame [OF stopped(1)] variant(5) by simp_all
    moreover from this have "k \<in> ?W \<and> stReleases st1 k \<noteq> None" using change installLoop_frame [OF stopped(3)] by metis
    ultimately show ?thesis using stopped(2) by auto
  next
    case (ended st2 st1 skipped)
    have r: "stReleases st' k = stReleases (cleanupOrphanedHelmReleases env ?pkg v st1) k" "stReleases st2 k = stReleases st k"
      using setReady_frame [OF ended(4)] reconcileNamespaces_frame [OF ended(1)] variant(5) by simp_all
    have "stReleases st1 k \<noteq> stReleases st2 k \<Longrightarrow> k \<in> ?W \<and> stReleases st1 k \<noteq> None"
      using installLoop_frame [OF ended(3)] by metis
    then show ?thesis using r ended(2) change cleanupOrphaned_releases [of env ?pkg v st1 k] by (auto split: if_splits)
  qed (use change variant(5) reconcileNamespaces_frame setReady_frame in \<open>metis+\<close>)
  have w: "\<exists>c \<in> set (ovComponents v). \<exists>i. ocInstall c = Some i \<and> k = releaseKeyOf c i \<and> \<not> componentDisabled pkg0 c \<and>
       (ciPrivileged i \<longrightarrow> privilegedConfirmed pkg0)" if "stReleases st' k \<noteq> None"
  proof -
    from g that have "k \<in> ?W" by simp
    from wanted_component [OF this] obtain c i where "c \<in> set (ovComponents v)" "ocInstall c = Some i" "k = releaseKeyOf c i"
      "componentInstallable pkg0 c" by auto
    then show ?thesis by (intro bexI [of _ c] exI [of _ i]) (auto simp: componentInstallable_def split: if_splits)
  qed
  show ?thesis using variant(1-3) g w areDependenciesReady_read [of env v pkg0] by auto
qed (use change in simp)

text \<open>After the namespaces of a package are prepared without an error, each namespace of an
  enabled component carries the label that lifts pod security exactly when some package of the
  cluster that is confirmed has an enabled privileged component there in its variant, and the system
  label exactly when it is not a namespace of a tenant. Other namespaces keep their labels.\<close>

theorem reconcileNamespaces_labels:
  assumes run: "reconcileNamespaces cfg env pkg v st = (st', None)"
    and nss: "targetNamespaces pkg (ovComponents v) = Inr nss" and src: "oeSources env = Inr sources"
    and ord: "set (oeOrder env nss) = set nss"
  shows "(\<forall>ns. ns \<notin> set nss \<longrightarrow> stNamespaces st' ns = stNamespaces st ns) \<and>
    (\<forall>ns \<in> set nss. \<exists>labels. stNamespaces st' ns = Some labels \<and>
      (labels systemLabel = Some ''true'' \<longleftrightarrow> \<not> prefix ''tenant-'' ns) \<and>
      (labels enforceLabel = Some ''privileged'' \<longleftrightarrow>
        (\<exists>ps \<in> set sources. \<exists>other w c i. oePackage env (osName ps) = Found other \<and>
          findVariant (osVariants ps) (variantNameOf other) = Some w \<and> privilegedConfirmed other \<and>
          c \<in> set (ovComponents w) \<and> ocInstall c = Some i \<and> \<not> componentDisabled other c \<and> ciPrivileged i \<and> ciNamespace i = ns)))"
proof -
  obtain st0 priv where priv: "privilegedIn env nss sources = Inr priv" "stNamespaces st0 = stNamespaces st"
      "namespaceLoop cfg env pkg priv (oeOrder env nss) st0 = (st', None)"
  proof (cases "privilegedIn env nss sources")
    case (Inl e)
    then show thesis using run nss src by (simp add: reconcileNamespaces_def resolvePrivilegedNamespaces_def)
  next
    case (Inr priv)
    let ?st = "if mcLimit (cfMemory cfg) = 0
        then st\<lparr>stMemory := fst (deleteManagedSystemDefaultsLimitRanges (oeMemLib env) (oeMemEnv env) (oeManaged env) (stMemory st))\<rparr>
        else st"
    have "namespaceLoop cfg env pkg priv (oeOrder env nss) ?st = (st', None)"
      using run nss src Inr by (simp add: reconcileNamespaces_def resolvePrivilegedNamespaces_def Let_def split: if_splits)
    moreover have "stNamespaces ?st = stNamespaces st" by simp
    ultimately show thesis using that [OF Inr] by blast
  qed
  note lab = namespaceLoop_labels [OF priv(3)]
  have new: "stNamespaces st' ns = Some (namespaceLabels ns (ns \<in> set priv))" if "ns \<in> set nss" for ns
    using lab [of ns] ord that by simp
  have l: "(namespaceLabels ns b systemLabel = Some ''true'' \<longleftrightarrow> \<not> prefix ''tenant-'' ns) \<and>
      (namespaceLabels ns b enforceLabel = Some ''privileged'' \<longleftrightarrow> b)" for ns b
    by (simp add: namespaceLabels_def isSystemNamespace_def systemLabel_def enforceLabel_def Let_def)
  have p: "ns \<in> set priv \<longleftrightarrow> (\<exists>ps \<in> set sources. \<exists>other w c i. oePackage env (osName ps) = Found other \<and>
          findVariant (osVariants ps) (variantNameOf other) = Some w \<and> privilegedConfirmed other \<and>
          c \<in> set (ovComponents w) \<and> ocInstall c = Some i \<and> \<not> componentDisabled other c \<and> ciPrivileged i \<and> ciNamespace i = ns)"
    if "ns \<in> set nss" for ns
    unfolding privilegedIn_iff [OF priv(1), of ns] privilegedComponents_iff using that by blast
  show ?thesis using lab ord priv(2) new l p by simp
qed

subsection \<open>An example\<close>

text \<open>The package \<open>db\<close> waits for the package \<open>base\<close>, which is ready. Its component \<open>agent\<close> is privileged
  and disabled, and its component \<open>server\<close> depends on it.\<close>

definition demoInstall :: "bool \<Rightarrow> string list \<Rightarrow> ComponentInstall" where
  "demoInstall privileged deps =
     \<lparr>ciReleaseName = [], ciNamespace = ''cozy-db'', ciPrivileged = privileged, ciDependsOn = deps, ciUpgradeCRDs = [],
      ciWaitStrategy = [], ciHealthCheckExprs = []\<rparr>"

definition demoAgent :: opComponent where
  "demoAgent = \<lparr>ocName = ''agent'', ocPath = ''db/agent'', ocInstall = Some (demoInstall True []), ocLibraries = [], ocValuesFiles = []\<rparr>"

definition demoServer :: opComponent where
  "demoServer = \<lparr>ocName = ''server'', ocPath = ''db/server'', ocInstall = Some (demoInstall False [''agent'']), ocLibraries = [], ocValuesFiles = []\<rparr>"

definition demoOpVariant :: opVariant where
  "demoOpVariant = \<lparr>ovName = ''default'', ovDependsOn = [''base''], ovLibraries = [], ovComponents = [demoAgent, demoServer]\<rparr>"

definition demoOpSource :: opSource where
  "demoOpSource = \<lparr>osName = ''db'', osUID = ''3'', osLabels = Map.empty, osAnnotations = Map.empty,
     osSourceRef = Some \<lparr>srKind = ''OCIRepository'', srName = ''platform'', srNamespace = ''cozy-system'', srPath = []\<rparr>,
     osVariants = [demoOpVariant]\<rparr>"

definition demoBaseSource :: opSource where
  "demoBaseSource = \<lparr>osName = ''base'', osUID = ''4'', osLabels = Map.empty, osAnnotations = Map.empty, osSourceRef = None,
     osVariants = [\<lparr>ovName = ''default'', ovDependsOn = [], ovLibraries = [], ovComponents = []\<rparr>]\<rparr>"

definition demoOpPackage :: opPackage where
  "demoOpPackage = \<lparr>pkName = ''db'', pkLabels = Map.empty, pkAnnotations = Map.empty, pkOwners = [], pkVariant = [], opUID = ''1'',
     opDeleting = False, opIgnore = [], opComponents = [''agent'' \<mapsto> (Some False, None)], opDependencies = Map.empty, opReady = None\<rparr>"

definition demoBase :: opPackage where
  "demoBase = \<lparr>pkName = ''base'', pkLabels = Map.empty, pkAnnotations = Map.empty, pkOwners = [], pkVariant = [], opUID = ''2'',
     opDeleting = False, opIgnore = [], opComponents = Map.empty, opDependencies = Map.empty, opReady = Some (True, ''ReconciliationSucceeded'')\<rparr>"

definition demoOpConfig :: opConfig where
  "demoOpConfig = \<lparr>cfInterval = 300, cfRetryInterval = 30, cfInstallTimeout = 600, cfUpgradeTimeout = 600, cfMaxHistory = 10,
     cfMemory = \<lparr>mcLimit = 0, mcRequest = 0\<rparr>\<rparr>"

definition demoStale :: releaseKey where "demoStale = (''cozy-db'', ''stale'')"

definition demoOpEnv :: opEnv where
  "demoOpEnv = \<lparr>oePackage = (\<lambda>n. if n = ''db'' then Found demoOpPackage else if n = ''base'' then Found demoBase else Missing),
     oeReread = (\<lambda>n. Missing), oeSource = (\<lambda>n. if n = ''db'' then Found demoOpSource else if n = ''base'' then Found demoBaseSource else Missing),
     oeSources = Inr [demoOpSource, demoBaseSource], oePackages = Inr [demoOpPackage, demoBase], oeOrder = rev,
     oeNamespaceErr = (\<lambda>n. False), oeReleaseErr = (\<lambda>k. None), oeReleases = Inr [demoStale], oeDeleteErr = (\<lambda>k. False),
     oeStatusErr = False, oeDependentErr = (\<lambda>n. False), oeMemLib = demoMemLib, oeMemEnv = (\<lambda>n. demoMemEnv), oeManaged = Inr []\<rparr>"

definition demoRelease :: "releaseKey list \<Rightarrow> HelmRelease" where
  "demoRelease deps = buildRelease demoOpConfig demoOpSource demoOpPackage demoServer (demoInstall False [''agent'']) deps"

definition demoOpState :: opState where
  "demoOpState = \<lparr>stPackage = Some demoOpPackage, stReleases = [demoStale \<mapsto> demoRelease []], stNamespaces = Map.empty,
     stMemory = \<lparr>mcNs = Map.empty, mcRange = Map.empty\<rparr>\<rparr>"

lemmas demoOp_defs = demoInstall_def demoAgent_def demoServer_def demoOpVariant_def demoOpSource_def demoBaseSource_def demoOpPackage_def
  demoBase_def demoOpConfig_def demoOpEnv_def demoOpState_def demoStale_def demoRelease_def

lemmas demoOp_loop = PackageReconcile_def reconcilePackage_def installVariant_def reconcileNamespaces_def cleanupUnusedMemoryDefaults_def
  retireUnusedDefaults_def deleteManagedSystemDefaultsLimitRanges_def resolvePrivilegedNamespaces_def findVariant_def variantNameOf_def
  componentDisabled_def privilegedConfirmed_def PrivilegedConfirmed_def privilegedComponents_def updateDependenciesStatus_def currentDeps_def
  areDependenciesReady_def readyOf_def buildDependsOn_def getVariantForPackage_def createOrUpdateHelmRelease_def setReady_def
  cleanupOrphanedHelmReleases_def desiredReleases_def componentInstallable_def releaseKeyOf_def releaseNameOf_def
  createOrUpdateNamespace_def defaultMemory_def namespaceLabels_def isSystemNamespace_def Package.truncate_def Let_def

abbreviation demoRun :: "opState \<times> opPackage list \<times> pkg_outcome" where
  "demoRun \<equiv> PackageReconcile demoOpConfig demoOpEnv ''db'' demoOpState"

lemma demoRun_ready:
  "snd (snd demoRun) = PkgRequeue 300"
  "\<exists>p. stPackage (fst demoRun) = Some p \<and> opReady p = Some (True, ''ReconciliationSucceeded'')"
  "stReleases (fst demoRun) demoStale = None"
  "map_option (hsDependsOn \<circ> hrSpec) (stReleases (fst demoRun) (''cozy-db'', ''server'')) = Some [(''cozy-db'', ''agent'')]"
  "stReleases (fst demoRun) (''cozy-db'', ''agent'') = None"
  by (simp_all add: demoOp_loop demoOp_defs buildRelease_def strOf_def)

lemma demoRun_read:
  "oePackage demoOpEnv ''db'' = Found demoOpPackage" "oeSource demoOpEnv (pkName demoOpPackage) = Found demoOpSource"
  "findVariant (osVariants demoOpSource) (variantNameOf demoOpPackage) = Some demoOpVariant" "oeReleases demoOpEnv = Inr [demoStale]"
  by (simp_all add: demoOp_defs findVariant_def variantNameOf_def)

lemma demoRun_pair: "demoRun = (fst demoRun, fst (snd demoRun), PkgRequeue 300)"
  using demoRun_ready(1) by (simp add: prod_eq_iff)


theorem PackageReconcile_guarded_witness:
  "\<exists>d. d \<in> set (currentDeps demoOpPackage demoOpVariant) \<and> oePackage demoOpEnv d = Found demoBase \<and> readyOf demoBase \<and>
     demoStale \<notin> set (desiredReleases demoOpPackage demoOpVariant)"
proof -
  have "stReleases (fst demoRun) demoStale \<noteq> stReleases demoOpState demoStale"
    using demoRun_ready(3) by (simp add: demoOpState_def)
  from PackageReconcile_guarded [OF demoRun_pair this]
  have g: "\<forall>d \<in> set (currentDeps demoOpPackage demoOpVariant). (\<exists>dep. oePackage demoOpEnv d = Found dep \<and> readyOf dep) \<or>
       (\<exists>e. oePackage demoOpEnv d = FetchError e \<and> opDependencies demoOpPackage d = Some True)"
    "demoStale \<notin> set (desiredReleases demoOpPackage demoOpVariant)"
    using demoRun_read demoRun_ready(3) by auto
  moreover have "''base'' \<in> set (currentDeps demoOpPackage demoOpVariant)" "oePackage demoOpEnv ''base'' = Found demoBase"
    by (simp_all add: currentDeps_def demoOp_defs)
  ultimately show ?thesis by (auto intro!: exI [of _ "''base''"])
qed

theorem reconcileNamespaces_labels_witness:
  "\<exists>labels. stNamespaces (fst (reconcileNamespaces demoOpConfig demoOpEnv demoOpPackage demoOpVariant demoOpState)) ''cozy-db'' = Some labels \<and>
     labels systemLabel = Some ''true''"
proof -
  let ?r = "reconcileNamespaces demoOpConfig demoOpEnv demoOpPackage demoOpVariant demoOpState"
  have "snd ?r = None" by (simp add: demoOp_loop demoOp_defs)
  then have r: "?r = (fst ?r, None)" by (simp add: prod_eq_iff)
  have t: "targetNamespaces demoOpPackage (ovComponents demoOpVariant) = Inr [''cozy-db'']" "oeSources demoOpEnv = Inr [demoOpSource, demoBaseSource]"
    by (simp_all add: demoOp_loop demoOp_defs)
  have "set (oeOrder demoOpEnv [''cozy-db'']) = set [''cozy-db'']" by (simp add: demoOpEnv_def)
  from reconcileNamespaces_labels [OF r t this, THEN conjunct2, THEN bspec, OF list.set_intros(1)]
  obtain labels where l: "stNamespaces (fst ?r) ''cozy-db'' = Some labels"
    "labels systemLabel = Some ''true'' \<longleftrightarrow> \<not> prefix ''tenant-'' ''cozy-db''"
    by (elim exE conjE)
  from l(2) have "labels systemLabel = Some ''true''" by simp
  with l(1) show ?thesis by blast
qed

text \<open>A release may depend on one that is never installed: \<open>buildDependsOn\<close> resolves the components a
  component depends on among all components of the variant, the disabled ones included, and the
  package is reported Ready.\<close>

theorem disabled_dependency_ready:
  "\<exists>st' deps p hr. PackageReconcile demoOpConfig demoOpEnv ''db'' demoOpState = (st', deps, PkgRequeue 300) \<and>
     stPackage st' = Some p \<and> readyOf p \<and> stReleases st' (''cozy-db'', ''server'') = Some hr \<and>
     (''cozy-db'', ''agent'') \<in> set (hsDependsOn (hrSpec hr)) \<and> stReleases st' (''cozy-db'', ''agent'') = None"
proof -
  obtain p where "stPackage (fst demoRun) = Some p" "readyOf p" using demoRun_ready(2) by (auto simp: readyOf_def)
  moreover obtain hr where "stReleases (fst demoRun) (''cozy-db'', ''server'') = Some hr" "hsDependsOn (hrSpec hr) = [(''cozy-db'', ''agent'')]"
    using demoRun_ready(4) by auto
  ultimately show ?thesis using demoRun_pair demoRun_ready(5)
    by (intro exI [of _ "fst demoRun"] exI [of _ "fst (snd demoRun)"] exI [of _ p] exI [of _ hr]) simp
qed

end
