(* ===== verification/Package_Source.thy ===== *)
theory Package_Source
  imports Package_Operator
begin

text \<open>
  The PackageSource controller of the operator (internal/operator/packagesource\_reconciler.go): it
  renders one ArtifactGenerator with an output per component of the source, and reports the state of
  the generator as its own. When the generator is stuck it forces a rebuild, a bounded number of
  times with growing pauses, before it reports a stall. Instants and durations are numbers of
  nanoseconds; \<open>time.Time.Sub\<close> saturates at 64 bits, and the text form of instants is an argument.
  The messages of conditions are left out.
\<close>

subsection \<open>Data\<close>

definition stuckGracePeriod :: int where "stuckGracePeriod = 30 * second"
definition initialBackoff :: int where "initialBackoff = 30 * second"
definition maxBackoff :: int where "maxBackoff = 4 * 60 * second"
definition maxRecoveryAttempts :: int where "maxRecoveryAttempts = 5"

definition annotationFluxRequestedAt :: string where "annotationFluxRequestedAt = ''reconcile.fluxcd.io/requestedAt''"
definition annotationRecoveryAttempts :: string where
  "annotationRecoveryAttempts = ''cozystack.io/source-watcher-recovery-attempts''"
definition annotationLastRecoveryAt :: string where "annotationLastRecoveryAt = ''cozystack.io/source-watcher-last-recovery-at''"
definition annotationVerifiedGeneration :: string where
  "annotationVerifiedGeneration = ''cozystack.io/source-watcher-verified-generation''"
definition reasonAwaitingRecovery :: string where "reasonAwaitingRecovery = ''AwaitingSourceWatcherRecovery''"
definition reasonSourceWatcherBad :: string where "reasonSourceWatcherBad = ''SourceWatcherStalled''"
definition reasonRecoveryForced :: string where "reasonRecoveryForced = ''SourceWatcherRecoveryForced''"

datatype cond_status = CondTrue | CondFalse | CondUnknown

record condition =
  coStatus :: cond_status
  coReason :: string
  coGeneration :: int \<comment> \<open>\<open>ObservedGeneration\<close>\<close>
  coTransition :: int \<comment> \<open>\<open>LastTransitionTime\<close>\<close>

record CopyOperation =
  cpFrom :: string
  cpTo :: string
  cpStrategy :: string

record OutputArtifact =
  oaName :: string
  oaCopy :: "CopyOperation list"

record ArtifactGeneratorSpec =
  agsSource :: "string \<times> string \<times> string \<times> string" \<comment> \<open>alias, kind, name and namespace of the only source\<close>
  agsOutputs :: "OutputArtifact list"

record ArtifactGenerator =
  agGeneration :: int
  agCreation :: int
  agLabels :: "string \<rightharpoonup> string"
  agAnnotations :: "string \<rightharpoonup> string"
  agOwner :: "string \<times> string"
  agSpec :: ArtifactGeneratorSpec
  agInventory :: nat \<comment> \<open>the number of its entries\<close>
  agDigest :: string
  agReady :: "condition option"

record psStatus =
  psStVariants :: string
  psStReady :: "condition option"

record psState =
  psStatus :: psStatus \<comment> \<open>of the stored PackageSource\<close>
  psAG :: "ArtifactGenerator option" \<comment> \<open>the stored generator of the same name\<close>

record psEnv =
  peNowAt :: int
  peStamp :: int \<comment> \<open>the clock of the condition helper\<close>
  peFormat :: "int \<Rightarrow> string" \<comment> \<open>\<open>Format(time.RFC3339Nano)\<close>\<close>
  peParse :: "string \<Rightarrow> int option"
  pePackage :: "opPackage fetched"
  peApplyErr :: bool
  peGetErr :: bool
  peForceErr :: bool \<comment> \<open>patching the status of the generator fails\<close>
  peTrackErr :: bool \<comment> \<open>patching its annotations fails\<close>
  peClearErr :: bool
  peVerifyErr :: bool
  peUpdateErr :: bool \<comment> \<open>updating the status of the PackageSource fails\<close>

text \<open>\<open>meta.SetStatusCondition\<close> for the condition Ready: the transition time moves only with the status.\<close>

definition setCondition :: "int \<Rightarrow> condition option \<Rightarrow> cond_status \<Rightarrow> string \<Rightarrow> int \<Rightarrow> int option \<Rightarrow> condition" where
  "setCondition stamp old status reason gen transition =
     \<lparr>coStatus = status, coReason = reason, coGeneration = gen,
      coTransition = (case old of
          Some c \<Rightarrow> if coStatus c = status then coTransition c else (case transition of Some t \<Rightarrow> t | None \<Rightarrow> stamp)
        | None \<Rightarrow> (case transition of Some t \<Rightarrow> t | None \<Rightarrow> stamp))\<rparr>"

definition timeSub :: "int \<Rightarrow> int \<Rightarrow> int" where
  "timeSub a b = max minInt (min maxInt (a - b))"

definition zeroTime :: int where "zeroTime = - 62135596800 * second"

subsection \<open>The generator\<close>

definition getPackageNameFromPath :: "string \<Rightarrow> string" where
  "getPackageNameFromPath path = last (splitOn (CHR ''/'') path)"

definition trimSlashes :: "string \<Rightarrow> string" where
  "trimSlashes s = rev (dropWhile (\<lambda>c. c = CHR ''/'') (rev (dropWhile (\<lambda>c. c = CHR ''/'') s)))"

definition getBasePath :: "PackageSourceRef \<Rightarrow> string" where
  "getBasePath ref =
     (if srPath ref \<noteq> [] then trimSlashes (srPath ref)
      else if srKind ref = ''OCIRepository'' then [] else ''packages'')"

definition joinPath :: "string \<Rightarrow> string \<Rightarrow> string" where
  "joinPath basePath path = joinWith (CHR ''/'') (filter (\<lambda>p. p \<noteq> []) [trimSlashes basePath, trimSlashes path])"

definition buildSourcePath :: "string \<Rightarrow> string \<Rightarrow> string \<Rightarrow> string" where
  "buildSourcePath sourceName basePath path =
     (let fullPath = joinPath basePath path in
      if fullPath = [] then ''@'' @ sourceName @ ''/**'' else ''@'' @ sourceName @ ''/'' @ fullPath @ ''/**'')"

definition buildSourceFilePath :: "string \<Rightarrow> string \<Rightarrow> string \<Rightarrow> string" where
  "buildSourceFilePath sourceName basePath path =
     (let fullPath = joinPath basePath path in
      if fullPath = [] then ''@'' @ sourceName else ''@'' @ sourceName @ ''/'' @ fullPath)"

definition ArtifactPrefix :: "string \<Rightarrow> string \<Rightarrow> string" where
  "ArtifactPrefix source variant = dashed source @ ''-'' @ dashed variant"

definition ArtifactName :: "string \<Rightarrow> string \<Rightarrow> string \<Rightarrow> string" where
  "ArtifactName source variant component = ArtifactPrefix source variant @ ''-'' @ dashed component"

definition libraryMap :: "opVariant \<Rightarrow> string \<rightharpoonup> Library" where
  "libraryMap v = fold (\<lambda>lib m.
     let n = (if liName lib = [] then getPackageNameFromPath (liPath lib) else liName lib) in
     if n \<noteq> [] then m(n \<mapsto> lib) else m) (ovLibraries v) Map.empty"

fun valuesCopies :: "PackageSourceRef \<Rightarrow> string \<Rightarrow> string \<Rightarrow> bool \<Rightarrow> string list \<Rightarrow> CopyOperation list" where
  "valuesCopies ref path target first [] = []"
| "valuesCopies ref path target first (f # fs) =
     \<lparr>cpFrom = buildSourceFilePath (srName ref) (getBasePath ref) (path @ ''/'' @ f), cpTo = ''@artifact/'' @ target @ ''/values.yaml'',
      cpStrategy = (if first then ''Overwrite'' else ''Merge'')\<rparr> # valuesCopies ref path target False fs"

definition copyOps :: "PackageSourceRef \<Rightarrow> opVariant \<Rightarrow> opComponent \<Rightarrow> CopyOperation list" where
  "copyOps ref v c =
     (let target = getPackageNameFromPath (ocPath c) in
      \<lparr>cpFrom = buildSourcePath (srName ref) (getBasePath ref) (ocPath c), cpTo = ''@artifact/'' @ target @ ''/'', cpStrategy = []\<rparr> #
      concat (map (\<lambda>n. case libraryMap v n of
          None \<Rightarrow> []
        | Some lib \<Rightarrow> [\<lparr>cpFrom = buildSourcePath (srName ref) (getBasePath ref) (liPath lib),
                        cpTo = ''@artifact/'' @ target @ ''/charts/'' @ n @ ''/'', cpStrategy = []\<rparr>]) (ocLibraries c)) @
      valuesCopies ref (ocPath c) target True (ocValuesFiles c))"

definition componentArtifact :: "opSource \<Rightarrow> PackageSourceRef \<Rightarrow> bool \<Rightarrow> opVariant \<Rightarrow> opComponent \<Rightarrow> OutputArtifact list" where
  "componentArtifact ps ref confirmed v c =
     (if ocPath c = [] then []
      else if (case ocInstall c of None \<Rightarrow> False | Some i \<Rightarrow> ciPrivileged i) \<and> \<not> confirmed then []
      else if getPackageNameFromPath (ocPath c) = [] then []
      else [\<lparr>oaName = ArtifactName (osName ps) (ovName v) (ocName c), oaCopy = copyOps ref v c\<rparr>])"

definition outputArtifacts :: "opSource \<Rightarrow> PackageSourceRef \<Rightarrow> bool \<Rightarrow> OutputArtifact list" where
  "outputArtifacts ps ref confirmed =
     concat (map (\<lambda>v. concat (map (componentArtifact ps ref confirmed v) (ovComponents v))) (osVariants ps))"

text \<open>Whether the privileged components of the source may be rendered.\<close>

definition sourceConfirmed :: "psEnv \<Rightarrow> opSource \<Rightarrow> string + bool" where
  "sourceConfirmed env ps =
     (if strOf (osLabels ps) tapLabel = ''true'' then
        (case pePackage env of
           Found pkg \<Rightarrow> Inr (privilegedConfirmed pkg)
         | Missing \<Rightarrow> Inr False
         | FetchError e \<Rightarrow> Inl e)
      else Inr True)"

text \<open>The server-side apply of the generator: the spec is owned by this controller, a change of it
  raises the generation, and labels of others stay.\<close>

definition applyGenerator :: "psEnv \<Rightarrow> opSource \<Rightarrow> ArtifactGeneratorSpec \<Rightarrow> ArtifactGenerator option \<Rightarrow> ArtifactGenerator" where
  "applyGenerator env ps spec old =
     (case old of
        None \<Rightarrow> \<lparr>agGeneration = 1, agCreation = peStamp env, agLabels = [''cozystack.io/packagesource'' \<mapsto> osName ps],
           agAnnotations = Map.empty, agOwner = (osName ps, osUID ps), agSpec = spec, agInventory = 0, agDigest = [], agReady = None\<rparr>
      | Some ag \<Rightarrow> ag\<lparr>agGeneration := (if agSpec ag = spec then agGeneration ag else agGeneration ag + 1),
           agLabels := (agLabels ag)(''cozystack.io/packagesource'' \<mapsto> osName ps), agOwner := (osName ps, osUID ps), agSpec := spec\<rparr>)"

definition reconcileArtifactGenerators :: "psEnv \<Rightarrow> opSource \<Rightarrow> psState \<Rightarrow> psState \<times> string option" where
  "reconcileArtifactGenerators env ps st =
     (case osSourceRef ps of
        None \<Rightarrow> (st, None)
      | Some ref \<Rightarrow>
          (case sourceConfirmed env ps of
             Inl e \<Rightarrow> (st, Some e)
           | Inr confirmed \<Rightarrow>
               let outputs = outputArtifacts ps ref confirmed in
               if outputs = [] then (st, None)
               else if peApplyErr env then (st, Some ''apply ArtifactGenerator'')
               else (st\<lparr>psAG := Some (applyGenerator env ps
                       \<lparr>agsSource = (srName ref, srKind ref, srName ref, srNamespace ref), agsOutputs = outputs\<rparr> (psAG st))\<rparr>, None)))"

subsection \<open>The recovery\<close>

datatype recoveryDecision = RecoveryForce | RecoveryWait int | RecoveryGiveUp

fun backoffLoop :: "nat \<Rightarrow> int \<Rightarrow> int" where
  "backoffLoop 0 d = d"
| "backoffLoop (Suc n) d = (let d' = d * 2 in if maxBackoff \<le> d' then maxBackoff else backoffLoop n d')"

definition backoffFor :: "int \<Rightarrow> int" where
  "backoffFor attempt = (let a = (if attempt < 1 then 1 else attempt) in backoffLoop (nat (a - 1)) initialBackoff)"

definition decideRecovery :: "int \<Rightarrow> int \<Rightarrow> int \<Rightarrow> recoveryDecision" where
  "decideRecovery attempts lastRecoveryAt now =
     (if maxRecoveryAttempts \<le> attempts then
        (let elapsed = timeSub now lastRecoveryAt; needed = backoffFor maxRecoveryAttempts in
         if elapsed < needed then RecoveryWait (needed - elapsed) else RecoveryGiveUp)
      else if attempts = 0 then RecoveryForce
      else
        (let elapsed = timeSub now lastRecoveryAt; needed = backoffFor attempts in
         if needed \<le> elapsed then RecoveryForce else RecoveryWait (needed - elapsed)))"

definition readRecoveryTracking :: "psEnv \<Rightarrow> ArtifactGenerator \<Rightarrow> int \<times> int" where
  "readRecoveryTracking env ag =
     ((case agAnnotations ag annotationRecoveryAttempts of
         None \<Rightarrow> 0
       | Some raw \<Rightarrow> (case atoi raw of None \<Rightarrow> 0 | Some n \<Rightarrow> if 0 \<le> n then n else 0)),
      (case agAnnotations ag annotationLastRecoveryAt of
         None \<Rightarrow> zeroTime
       | Some raw \<Rightarrow> (case peParse env raw of None \<Rightarrow> zeroTime | Some t \<Rightarrow> t)))"

definition artifactGeneratorStuck :: "ArtifactGenerator \<Rightarrow> int \<Rightarrow> bool" where
  "artifactGeneratorStuck ag now =
     (if agInventory ag = 0 then False
      else if agDigest ag = [] then False
      else case agReady ag of
        None \<Rightarrow> agCreation ag + stuckGracePeriod < now
      | Some c \<Rightarrow>
          if coStatus c \<noteq> CondUnknown then False
          else if coGeneration c \<noteq> agGeneration ag then False
          else coTransition c + stuckGracePeriod < now)"

text \<open>Forcing a rebuild writes the status of the generator and then its annotations.\<close>

definition forceArtifactGeneratorDrift :: "psEnv \<Rightarrow> int \<Rightarrow> ArtifactGenerator \<Rightarrow> ArtifactGenerator \<times> bool" where
  "forceArtifactGeneratorDrift env nextAttempt ag =
     (if peForceErr env then (ag, False)
      else
        let ag1 = ag\<lparr>agReady := Some (setCondition (peStamp env) (agReady ag) CondFalse reasonRecoveryForced (agGeneration ag) None)\<rparr> in
        if peTrackErr env then (ag1, False)
        else (ag1\<lparr>agAnnotations := (agAnnotations ag1)(annotationFluxRequestedAt \<mapsto> peFormat env (peNowAt env),
                annotationRecoveryAttempts \<mapsto> itoa nextAttempt, annotationLastRecoveryAt \<mapsto> peFormat env (peNowAt env))\<rparr>, True))"

definition clearRecoveryTracking :: "psEnv \<Rightarrow> ArtifactGenerator \<Rightarrow> ArtifactGenerator" where
  "clearRecoveryTracking env ag =
     (if agAnnotations ag annotationRecoveryAttempts = None \<and> agAnnotations ag annotationLastRecoveryAt = None then ag
      else if peClearErr env then ag
      else ag\<lparr>agAnnotations := (agAnnotations ag)(annotationRecoveryAttempts := None, annotationLastRecoveryAt := None)\<rparr>)"

subsection \<open>The status\<close>

datatype ps_outcome = PsFinished | PsRequeue int | PsError string

text \<open>Writing the status of the PackageSource with a new condition Ready.\<close>

definition updateReady :: "psEnv \<Rightarrow> psStatus \<Rightarrow> cond_status \<Rightarrow> string \<Rightarrow> int \<Rightarrow> int option \<Rightarrow> ps_outcome \<Rightarrow> psState \<Rightarrow> psState \<times> ps_outcome" where
  "updateReady env s status reason gen transition out st =
     (if peUpdateErr env then (st, PsError ''update status'')
      else (st\<lparr>psStatus := s\<lparr>psStReady := Some (setCondition (peStamp env) (psStReady s) status reason gen transition)\<rparr>\<rparr>, out))"

definition maybeRecoverArtifactGenerator ::
    "psEnv \<Rightarrow> psStatus \<Rightarrow> int \<Rightarrow> ArtifactGenerator \<Rightarrow> psState \<Rightarrow> psState \<times> ps_outcome" where
  "maybeRecoverArtifactGenerator env s gen ag st =
     (let (attempts, lastRecoveryAt) = readRecoveryTracking env ag in
      case decideRecovery attempts lastRecoveryAt (peNowAt env) of
        RecoveryGiveUp \<Rightarrow> updateReady env s CondFalse reasonSourceWatcherBad gen None PsFinished st
      | RecoveryWait wait \<Rightarrow> updateReady env s CondUnknown reasonAwaitingRecovery gen None (PsRequeue wait) st
      | RecoveryForce \<Rightarrow>
          (let (ag', ok) = forceArtifactGeneratorDrift env (attempts + 1) ag; st' = st\<lparr>psAG := Some ag'\<rparr> in
           if \<not> ok then (st', PsError ''force drift'')
           else updateReady env s CondUnknown reasonAwaitingRecovery gen None (PsRequeue (backoffFor (attempts + 1))) st'))"

definition needsGenerationVerification :: "ArtifactGenerator \<Rightarrow> condition \<Rightarrow> bool" where
  "needsGenerationVerification ag ready =
     (if agGeneration ag \<le> 1 \<or> coStatus ready \<noteq> CondTrue \<or> coGeneration ready \<noteq> agGeneration ag then False
      else strOf (agAnnotations ag) annotationVerifiedGeneration \<noteq> itoa (agGeneration ag))"

definition verifyArtifactGeneratorGeneration ::
    "psEnv \<Rightarrow> psStatus \<Rightarrow> int \<Rightarrow> ArtifactGenerator \<Rightarrow> psState \<Rightarrow> psState \<times> ps_outcome" where
  "verifyArtifactGeneratorGeneration env s gen ag st =
     (let (ag1, ok) = forceArtifactGeneratorDrift env 1 ag; st1 = st\<lparr>psAG := Some ag1\<rparr> in
      if \<not> ok then (st1, PsError ''force rebuild'')
      else if peVerifyErr env then (st1, PsError ''record verified generation'')
      else
        let ag2 = ag1\<lparr>agAnnotations := (agAnnotations ag1)(annotationVerifiedGeneration \<mapsto> itoa (agGeneration ag1))\<rparr> in
        updateReady env s CondUnknown reasonAwaitingRecovery gen None (PsRequeue (backoffFor 1)) (st1\<lparr>psAG := Some ag2\<rparr>))"

definition agFollowUpDelay :: "int \<Rightarrow> int \<Rightarrow> int" where
  "agFollowUpDelay anchor now =
     (let remaining = timeSub (anchor + stuckGracePeriod) now in if remaining < second then second else remaining)"

definition routedToRecovery :: "psEnv \<Rightarrow> ArtifactGenerator \<Rightarrow> bool" where
  "routedToRecovery env ag =
     ((case agReady ag of
         None \<Rightarrow> False
       | Some c \<Rightarrow> coReason c = reasonRecoveryForced \<or>
           0 < fst (readRecoveryTracking env ag) \<and> coStatus c = CondUnknown \<and> coGeneration c = agGeneration ag) \<or>
      artifactGeneratorStuck ag (peNowAt env))"

definition psUpdateStatus :: "psEnv \<Rightarrow> opSource \<Rightarrow> int \<Rightarrow> psState \<Rightarrow> psState \<times> ps_outcome" where
  "psUpdateStatus env ps gen st =
     (let s = (psStatus st)\<lparr>psStVariants := joinWith (CHR '','') (map ovName (osVariants ps))\<rparr> in
      if osSourceRef ps = None then updateReady env s CondUnknown ''SourceRefNotSet'' gen None PsFinished st
      else if peGetErr env then (st, PsError ''get ArtifactGenerator'')
      else case psAG st of
        None \<Rightarrow> updateReady env s CondUnknown ''ArtifactGeneratorNotFound'' gen None PsFinished st
      | Some ag \<Rightarrow>
          if routedToRecovery env ag then maybeRecoverArtifactGenerator env s gen ag st
          else
            let ag1 = clearRecoveryTracking env ag; st1 = st\<lparr>psAG := Some ag1\<rparr> in
            case agReady ag1 of
              None \<Rightarrow> updateReady env s CondUnknown ''ArtifactGeneratorNotReady'' gen None
                  (PsRequeue (agFollowUpDelay (agCreation ag1) (peNowAt env))) st1
            | Some c \<Rightarrow>
                if needsGenerationVerification ag1 c then verifyArtifactGeneratorGeneration env s gen ag1 st1
                else updateReady env s (coStatus c) (coReason c) gen (Some (coTransition c))
                  (if coStatus c = CondUnknown then PsRequeue (agFollowUpDelay (coTransition c) (peNowAt env)) else PsFinished) st1)"

text \<open>The pass over a PackageSource, with its generation and whether it is being deleted.\<close>

definition PackageSourceReconcile :: "psEnv \<Rightarrow> (opSource \<times> int \<times> bool) fetched \<Rightarrow> psState \<Rightarrow> psState \<times> ps_outcome" where
  "PackageSourceReconcile env source st =
     (case source of
        Missing \<Rightarrow> (st, PsFinished)
      | FetchError e \<Rightarrow> (st, PsError e)
      | Found (ps, gen, deleting) \<Rightarrow>
          if deleting then (st, PsFinished)
          else case reconcileArtifactGenerators env ps st of
            (st1, Some e) \<Rightarrow> (st1, PsError e)
          | (st1, None) \<Rightarrow> psUpdateStatus env ps gen st1)"

definition mapPackageToSource :: "string \<Rightarrow> string list" where
  "mapPackageToSource n = [n]"

subsection \<open>The schedule of the recovery\<close>

lemma backoffFor_values:
  "backoffFor 1 = 30 * second" "backoffFor 2 = 60 * second" "backoffFor 3 = 120 * second" "backoffFor 4 = 240 * second"
  "backoffFor 5 = 240 * second"
  by (simp_all add: backoffFor_def backoffLoop.simps numeral_eq_Suc initialBackoff_def maxBackoff_def second_def Let_def)

lemma attempt_cases:
  assumes "1 \<le> a" "a \<le> (5::int)"
  obtains "a = 1" | "a = 2" | "a = 3" | "a = 4" | "a = 5"
  using assms by linarith

text \<open>What is spent on pauses before the attempt \<open>a\<close>, and the last instant of the schedule.\<close>

definition spentBefore :: "int \<Rightarrow> int" where
  "spentBefore a = sum_list (map backoffFor [1..a - 1])"

lemma spentBefore_values:
  "spentBefore 1 = 0" "spentBefore 2 = 30 * second" "spentBefore 3 = 90 * second" "spentBefore 4 = 210 * second"
  "spentBefore 5 = 450 * second"
  by (simp_all add: spentBefore_def upto_rec1 backoffFor_values)

lemma backoff_bounds:
  assumes "1 \<le> a" "a \<le> 5"
  shows "30 * second \<le> backoffFor a" "backoffFor a \<le> 240 * second"
  using assms by (cases rule: attempt_cases; simp add: backoffFor_values second_def)+

lemma spentBefore_next: "1 \<le> a \<Longrightarrow> a < 5 \<Longrightarrow> spentBefore (a + 1) = spentBefore a + backoffFor a"
  by (cases a rule: attempt_cases) (simp_all add: spentBefore_values backoffFor_values)

lemma spentBefore_le: "1 \<le> a \<Longrightarrow> a \<le> 5 \<Longrightarrow> spentBefore a + backoffFor a \<le> 690 * second"
  by (cases a rule: attempt_cases) (simp_all add: spentBefore_values backoffFor_values second_def)

lemma timeSub_less: "n \<le> 240 * second \<Longrightarrow> 0 < n \<Longrightarrow> timeSub a b < n \<longleftrightarrow> a - b < n"
  by (auto simp: timeSub_def second_def maxInt_def minInt_def)

lemma timeSub_exact: "b \<le> a \<Longrightarrow> a - b < 240 * second \<Longrightarrow> timeSub a b = a - b"
  by (auto simp: timeSub_def second_def maxInt_def minInt_def)

text \<open>The decision after \<open>a\<close> attempts, the last of them at \<open>l\<close>.\<close>

lemma decideRecovery_started:
  assumes "1 \<le> a" "a \<le> 5" "l \<le> now"
  shows "decideRecovery a l now =
    (if now < l + backoffFor a then RecoveryWait (l + backoffFor a - now) else if a = 5 then RecoveryGiveUp else RecoveryForce)"
proof -
  note b = backoff_bounds [OF assms(1,2)]
  have less: "timeSub now l < backoffFor a \<longleftrightarrow> now - l < backoffFor a" using b by (intro timeSub_less) (simp_all add: second_def)
  show ?thesis
  proof (cases "now < l + backoffFor a")
    case True
    then have "timeSub now l = now - l" using assms(3) b by (intro timeSub_exact) simp_all
    then show ?thesis using True assms less by (auto simp: decideRecovery_def maxRecoveryAttempts_def Let_def)
  next
    case False
    then show ?thesis using assms less by (auto simp: decideRecovery_def maxRecoveryAttempts_def Let_def)
  qed
qed

subsection \<open>Passes without an answer\<close>

text \<open>A pass whose calls succeed, with a text form of instants that can be read back.\<close>

definition quietPass :: "(int \<Rightarrow> string) \<Rightarrow> (string \<Rightarrow> int option) \<Rightarrow> psEnv \<Rightarrow> bool" where
  "quietPass fmt prs env \<longleftrightarrow> peFormat env = fmt \<and> peParse env = prs \<and> (\<forall>t. prs (fmt t) = Some t) \<and>
     \<not> peGetErr env \<and> \<not> peForceErr env \<and> \<not> peTrackErr env \<and> \<not> peUpdateErr env"

definition trackingOf :: "(string \<Rightarrow> int option) \<Rightarrow> ArtifactGenerator \<Rightarrow> int \<times> int" where
  "trackingOf prs ag =
     ((case agAnnotations ag annotationRecoveryAttempts of
         None \<Rightarrow> 0
       | Some raw \<Rightarrow> (case atoi raw of None \<Rightarrow> 0 | Some n \<Rightarrow> if 0 \<le> n then n else 0)),
      (case agAnnotations ag annotationLastRecoveryAt of
         None \<Rightarrow> zeroTime
       | Some raw \<Rightarrow> (case prs raw of None \<Rightarrow> zeroTime | Some t \<Rightarrow> t)))"

lemma readRecoveryTracking_eq: "quietPass fmt prs env \<Longrightarrow> readRecoveryTracking env ag = trackingOf prs ag"
  by (auto simp: readRecoveryTracking_def trackingOf_def quietPass_def)

text \<open>The generator while nothing answers: the annotations stay, and the condition is the one this
  controller wrote or one of a rebuild that is still going on.\<close>

definition unanswered :: "ArtifactGenerator \<Rightarrow> ArtifactGenerator \<Rightarrow> bool" where
  "unanswered ag ag' \<longleftrightarrow> agAnnotations ag' = agAnnotations ag \<and>
     (\<exists>c. agReady ag' = Some c \<and> (coReason c = reasonRecoveryForced \<or> coStatus c = CondUnknown \<and> coGeneration c = agGeneration ag'))"

lemma forced_tracking:
  assumes "quietPass fmt prs env" "0 \<le> n" "n \<le> 5"
  shows "trackingOf prs (fst (forceArtifactGeneratorDrift env n ag)) = (n, peNowAt env)" "snd (forceArtifactGeneratorDrift env n ag)"
proof -
  have "atoi (itoa n) = Some n" using assms(2,3) by (intro atoi_itoa_nonneg) (simp_all add: maxInt_def)
  then show "trackingOf prs (fst (forceArtifactGeneratorDrift env n ag)) = (n, peNowAt env)" "snd (forceArtifactGeneratorDrift env n ag)"
    using assms by (auto simp: forceArtifactGeneratorDrift_def trackingOf_def quietPass_def Let_def annotationFluxRequestedAt_def
        annotationRecoveryAttempts_def annotationLastRecoveryAt_def)
qed

text \<open>A pass in the recovery, in terms of the attempts so far and the instant of the last one.\<close>

lemma recovery_pass:
  assumes q: "quietPass fmt prs env" and ag: "psAG st = Some ag" "routedToRecovery env ag" "osSourceRef ps \<noteq> None"
    and run: "psUpdateStatus env ps gen st = (st', out)"
  shows "case decideRecovery (fst (trackingOf prs ag)) (snd (trackingOf prs ag)) (peNowAt env) of
      RecoveryGiveUp \<Rightarrow> out = PsFinished \<and> psAG st' = Some ag \<and>
        (\<exists>c. psStReady (psStatus st') = Some c \<and> coStatus c = CondFalse \<and> coReason c = reasonSourceWatcherBad)
    | RecoveryWait w \<Rightarrow> out = PsRequeue w \<and> psAG st' = Some ag
    | RecoveryForce \<Rightarrow> out = PsRequeue (backoffFor (fst (trackingOf prs ag) + 1)) \<and>
        psAG st' = Some (fst (forceArtifactGeneratorDrift env (fst (trackingOf prs ag) + 1) ag))"
proof -
  obtain s where "psUpdateStatus env ps gen st = maybeRecoverArtifactGenerator env s gen ag st"
    using ag q by (auto simp: psUpdateStatus_def Let_def quietPass_def)
  moreover obtain a l where tr: "trackingOf prs ag = (a, l)" by (cases "trackingOf prs ag")
  ultimately have rec: "maybeRecoverArtifactGenerator env s gen ag st = (st', out)" "readRecoveryTracking env ag = (a, l)"
    using run readRecoveryTracking_eq [OF q] by auto
  obtain ag' ok where f: "forceArtifactGeneratorDrift env (a + 1) ag = (ag', ok)" by (cases "forceArtifactGeneratorDrift env (a + 1) ag")
  then have ok using q by (auto simp: forceArtifactGeneratorDrift_def quietPass_def Let_def)
  moreover have "\<not> peUpdateErr env" using q by (simp add: quietPass_def)
  ultimately show ?thesis using rec ag(1) tr f
    by (cases "decideRecovery a l (peNowAt env)")
      (auto simp: maybeRecoverArtifactGenerator_def updateReady_def setCondition_def Let_def)
qed

text \<open>The states a recovery goes through that starts at \<open>t1\<close> and gets no answer, with the instant of the
  last pass and the instant by which the next one comes: a requeue is honoured at most \<open>late\<close> after
  the requested delay, and other events may cause passes before that.\<close>

inductive unansweredRun :: "(int \<Rightarrow> string) \<Rightarrow> (string \<Rightarrow> int option) \<Rightarrow> int \<Rightarrow> int \<Rightarrow> psState \<Rightarrow> int \<Rightarrow> int \<Rightarrow> bool"
  for fmt prs late t1 where
  first: "unansweredRun fmt prs late t1 st' t1 (t1 + w + late)"
    if "quietPass fmt prs env" "peNowAt env = t1" "psAG st = Some ag" "fst (trackingOf prs ag) = 0" "routedToRecovery env ag"
      "osSourceRef ps \<noteq> None" "psUpdateStatus env ps gen st = (st', PsRequeue w)"
| again: "unansweredRun fmt prs late t1 st' (peNowAt env) (peNowAt env + w + late)"
    if "unansweredRun fmt prs late t1 st c d" "quietPass fmt prs env" "c \<le> peNowAt env" "peNowAt env \<le> d" "psAG st = Some ag"
      "unanswered ag ag2" "osSourceRef ps \<noteq> None" "psUpdateStatus env ps gen (st\<lparr>psAG := Some ag2\<rparr>) = (st', PsRequeue w)"

lemma unanswered_routed:
  assumes "quietPass fmt prs env" "unanswered ag ag2" "0 < fst (trackingOf prs ag)"
  shows "routedToRecovery env ag2" "trackingOf prs ag2 = trackingOf prs ag"
proof -
  show tr: "trackingOf prs ag2 = trackingOf prs ag" using assms(2) by (simp add: unanswered_def trackingOf_def)
  show "routedToRecovery env ag2"
    using assms(2,3) tr readRecoveryTracking_eq [OF assms(1), of ag2] by (auto simp: routedToRecovery_def unanswered_def)
qed

text \<open>The invariant: between one and five attempts were made, the last one in the window that the pauses
  before it leave, and the next pass comes when its pause ends.\<close>

definition onSchedule :: "(string \<Rightarrow> int option) \<Rightarrow> int \<Rightarrow> int \<Rightarrow> psState \<Rightarrow> int \<Rightarrow> int \<Rightarrow> bool" where
  "onSchedule prs late t1 st c d \<longleftrightarrow> (\<exists>ag a l. psAG st = Some ag \<and> trackingOf prs ag = (a, l) \<and> 1 \<le> a \<and> a \<le> 5 \<and>
     t1 + spentBefore a \<le> l \<and> l \<le> t1 + spentBefore a + (a - 1) * late \<and> l \<le> c \<and> d = l + backoffFor a + late)"

lemma onSchedule_pass:
  assumes sched: "onSchedule prs late t1 st c d" and q: "quietPass fmt prs env" and now: "c \<le> peNowAt env" "peNowAt env \<le> d"
    and ag: "psAG st = Some ag" "unanswered ag ag2" "osSourceRef ps \<noteq> None"
    and run: "psUpdateStatus env ps gen (st\<lparr>psAG := Some ag2\<rparr>) = (st', out)"
  obtains (running) w where "out = PsRequeue w" "0 < w" "onSchedule prs late t1 st' (peNowAt env) (peNowAt env + w + late)"
      "peNowAt env < t1 + 690 * second + 5 * late \<or> late < 0"
    | (stalled) cond where "out = PsFinished" "psStReady (psStatus st') = Some cond" "coStatus cond = CondFalse"
      "coReason cond = reasonSourceWatcherBad" "t1 + 690 * second \<le> peNowAt env" "peNowAt env \<le> t1 + 690 * second + 5 * late"
      "\<exists>ag'. psAG st' = Some ag' \<and> fst (trackingOf prs ag') = 5"
proof -
  let ?now = "peNowAt env"
  obtain a l where t: "trackingOf prs ag = (a, l)" "1 \<le> a" "a \<le> 5" "t1 + spentBefore a \<le> l" "l \<le> t1 + spentBefore a + (a - 1) * late"
      "l \<le> c" "d = l + backoffFor a + late"
    using sched ag(1) by (auto simp: onSchedule_def)
  have r: "routedToRecovery env ag2" "trackingOf prs ag2 = (a, l)" using unanswered_routed [OF q ag(2)] t(1,2) by auto
  note p = recovery_pass [OF q _ r(1) ag(3) run, unfolded r(2) fst_conv snd_conv]
    and dec = decideRecovery_started [OF t(2,3), of l ?now] and b = backoff_bounds [OF t(2,3)]
  have late: "(a - 1) * late + late = a * late" by (simp add: algebra_simps)
  show thesis
  proof (cases "?now < l + backoffFor a")
    case True
    then have "out = PsRequeue (l + backoffFor a - ?now)" "psAG st' = Some ag2" using p dec t(6) now(1) by auto
    moreover from this have "onSchedule prs late t1 st' ?now (?now + (l + backoffFor a - ?now) + late)"
      using t r(2) now(1) by (auto simp: onSchedule_def)
    moreover have "?now < t1 + 690 * second + 5 * late \<or> late < 0"
      using True t(3,5) spentBefore_le [OF t(2,3)] mult_right_mono [of "a - 1" 5 late] by linarith
    ultimately show thesis using running True by simp
  next
    case False
    show thesis
    proof (cases "a = 5")
      case True
      then have "out = PsFinished" "psAG st' = Some ag2"
        "\<exists>c. psStReady (psStatus st') = Some c \<and> coStatus c = CondFalse \<and> coReason c = reasonSourceWatcherBad"
        using p dec False t(6) now(1) by auto
      moreover have "t1 + 690 * second \<le> ?now" "?now \<le> t1 + 690 * second + 5 * late"
        using True False t(4,5,7) now(2) by (auto simp: spentBefore_values backoffFor_values)
      ultimately show thesis using stalled r(2) True by auto
    next
      case 5: False
      let ?ag = "fst (forceArtifactGeneratorDrift env (a + 1) ag2)"
      have o: "out = PsRequeue (backoffFor (a + 1))" "psAG st' = Some ?ag" using p dec False 5 t(6) now(1) by auto
      have tr: "trackingOf prs ?ag = (a + 1, ?now)" using forced_tracking(1) [OF q, of "a + 1"] t(2,3) 5 by simp
      have n: "spentBefore (a + 1) = spentBefore a + backoffFor a" using spentBefore_next t(2,3) 5 by simp
      have "onSchedule prs late t1 st' ?now (?now + backoffFor (a + 1) + late)"
        using o(2) tr t 5 False now(2) n late by (auto simp: onSchedule_def)
      moreover have "?now < t1 + 690 * second + 5 * late \<or> late < 0"
      proof -
        have "spentBefore (a + 1) + backoffFor (a + 1) \<le> 690 * second" "30 * second \<le> backoffFor (a + 1)"
          using spentBefore_le [of "a + 1"] backoff_bounds(1) [of "a + 1"] t(2,3) 5 by auto
        moreover have "a * late \<le> 5 * late \<or> late < 0" using t(3) mult_right_mono [of a 5 late] by linarith
        ultimately show ?thesis using t(5,7) now(2) n late by (auto simp: second_def)
      qed
      moreover have "0 < backoffFor (a + 1)" using backoff_bounds(1) [of "a + 1"] t(2,3) 5 by (simp add: second_def)
      ultimately show thesis using running o(1) by blast
    qed
  qed
qed

lemma unansweredRun_onSchedule: "unansweredRun fmt prs late t1 st c d \<Longrightarrow> onSchedule prs late t1 st c d"
proof (induction rule: unansweredRun.induct)
  case (first env st ag ps gen st' w)
  have dec: "decideRecovery (fst (trackingOf prs ag)) (snd (trackingOf prs ag)) (peNowAt env) = RecoveryForce"
    using first.hyps(4) by (simp add: decideRecovery_def maxRecoveryAttempts_def)
  have "w = backoffFor 1" "psAG st' = Some (fst (forceArtifactGeneratorDrift env 1 ag))"
    using recovery_pass [OF first.hyps(1,3,5-7)] first.hyps(4) unfolding dec by simp_all
  then show ?case using forced_tracking(1) [OF first.hyps(1), of 1 ag] first.hyps(2) by (auto simp: onSchedule_def spentBefore_values)
next
  case (again st c d env ag ag2 ps gen st' w)
  from again.IH again.hyps(2-8) show ?case by (cases rule: onSchedule_pass) auto
qed

subsection \<open>Properties\<close>

text \<open>C30: A recovery that gets no answer ends on schedule. Every pass of it comes no later than 690 seconds
  and five times the lateness of requeues after the first attempt. A pass either asks to be repeated
  after a positive delay, or reports the stall, and the stall is reported no earlier than 690 seconds
  after the first attempt, when the fifth attempt has had its full pause. No more than five attempts
  are made.\<close>

theorem recovery_bounded:
  assumes "unansweredRun fmt prs late t1 st c d" "0 \<le> late" "quietPass fmt prs env" "c \<le> peNowAt env" "peNowAt env \<le> d"
    and "psAG st = Some ag" "unanswered ag ag2" "osSourceRef ps \<noteq> None"
    and run: "psUpdateStatus env ps gen (st\<lparr>psAG := Some ag2\<rparr>) = (st', out)"
  shows "d \<le> t1 + 690 * second + 5 * late \<and>
    ((\<exists>w. out = PsRequeue w \<and> 0 < w) \<or>
     out = PsFinished \<and> t1 + 690 * second \<le> peNowAt env \<and>
       (\<exists>cond. psStReady (psStatus st') = Some cond \<and> coStatus cond = CondFalse \<and> coReason cond = reasonSourceWatcherBad)) \<and>
    (\<exists>ag'. psAG st' = Some ag' \<and> fst (trackingOf prs ag') \<le> 5)"
proof -
  have sched: "onSchedule prs late t1 st c d" using unansweredRun_onSchedule [OF assms(1)] .
  then obtain a l where t: "1 \<le> a" "a \<le> 5" "l \<le> t1 + spentBefore a + (a - 1) * late" "d = l + backoffFor a + late"
    by (auto simp: onSchedule_def)
  have "(a - 1) * late + late = a * late" by (simp add: algebra_simps)
  moreover have "a * late \<le> 5 * late" using t(2) assms(2) by (rule mult_right_mono)
  ultimately have "d \<le> t1 + 690 * second + 5 * late" using t spentBefore_le [OF t(1,2)] by linarith
  moreover from sched assms(3-8) run have "((\<exists>w. out = PsRequeue w \<and> 0 < w) \<or>
     out = PsFinished \<and> t1 + 690 * second \<le> peNowAt env \<and>
       (\<exists>cond. psStReady (psStatus st') = Some cond \<and> coStatus cond = CondFalse \<and> coReason cond = reasonSourceWatcherBad)) \<and>
    (\<exists>ag'. psAG st' = Some ag' \<and> fst (trackingOf prs ag') \<le> 5)"
    by (cases rule: onSchedule_pass) (auto simp: onSchedule_def)
  ultimately show ?thesis by blast
qed

lemma updateReady_cases:
  assumes "updateReady env s status reason gen transition out st = (st', out')"
  shows "psAG st' = psAG st \<and> (psStatus st' = psStatus st \<or>
    (\<exists>c. psStReady (psStatus st') = Some c \<and> coStatus c = status \<and> coReason c = reason))"
  using assms by (auto simp: updateReady_def setCondition_def split: if_splits)

text \<open>The condition a pass writes: never the marker of this controller, and Ready only with the generator.\<close>

definition honest :: "condition \<Rightarrow> ArtifactGenerator option \<Rightarrow> bool" where
  "honest c ag \<longleftrightarrow> coReason c \<noteq> reasonRecoveryForced \<and>
     (coStatus c = CondTrue \<longrightarrow> (\<exists>g r. ag = Some g \<and> agReady g = Some r \<and> coStatus r = CondTrue \<and> coReason r = coReason c \<and>
        (coGeneration r = agGeneration g \<and> 1 < agGeneration g \<longrightarrow>
           strOf (agAnnotations g) annotationVerifiedGeneration = itoa (agGeneration g))))"

lemmas reason_defs = reasonAwaitingRecovery_def reasonSourceWatcherBad_def reasonRecoveryForced_def

lemma updateReady_honest:
  assumes "updateReady env s status reason gen transition out st = (st', out')" "reason \<noteq> reasonRecoveryForced" "status \<noteq> CondTrue"
  shows "psStatus st' = psStatus st \<or> (\<exists>c. psStReady (psStatus st') = Some c \<and> honest c (psAG st'))"
  using updateReady_cases [OF assms(1)] assms(2,3) by (auto simp: honest_def)

lemma maybeRecover_honest:
  assumes "maybeRecoverArtifactGenerator env s gen ag st = (st', out)"
  shows "psStatus st' = psStatus st \<or> (\<exists>c. psStReady (psStatus st') = Some c \<and> honest c (psAG st'))"
proof -
  obtain a l where tr: "readRecoveryTracking env ag = (a, l)" by (cases "readRecoveryTracking env ag")
  obtain ag' ok where f: "forceArtifactGeneratorDrift env (a + 1) ag = (ag', ok)" by (cases "forceArtifactGeneratorDrift env (a + 1) ag")
  show ?thesis
  proof (cases "decideRecovery a l (peNowAt env)")
    case RecoveryForce
    then show ?thesis using assms tr f updateReady_honest [of env s CondUnknown reasonAwaitingRecovery gen None _ "st\<lparr>psAG := Some ag'\<rparr>" st' out]
      by (auto simp: maybeRecoverArtifactGenerator_def Let_def reason_defs split: if_splits)
  next
    case (RecoveryWait w)
    then show ?thesis using assms tr updateReady_honest [of env s CondUnknown reasonAwaitingRecovery gen None _ st st' out]
      by (auto simp: maybeRecoverArtifactGenerator_def reason_defs)
  next
    case RecoveryGiveUp
    then show ?thesis using assms tr updateReady_honest [of env s CondFalse reasonSourceWatcherBad gen None _ st st' out]
      by (auto simp: maybeRecoverArtifactGenerator_def reason_defs)
  qed
qed

lemma verify_honest:
  assumes "verifyArtifactGeneratorGeneration env s gen ag st = (st', out)"
  shows "psStatus st' = psStatus st \<or> (\<exists>c. psStReady (psStatus st') = Some c \<and> honest c (psAG st'))"
proof -
  obtain ag1 ok where f: "forceArtifactGeneratorDrift env 1 ag = (ag1, ok)" by (cases "forceArtifactGeneratorDrift env 1 ag")
  let ?st = "st\<lparr>psAG := Some (ag1\<lparr>agAnnotations := (agAnnotations ag1)(annotationVerifiedGeneration \<mapsto> itoa (agGeneration ag1))\<rparr>)\<rparr>"
  show ?thesis using assms f updateReady_honest [of env s CondUnknown reasonAwaitingRecovery gen None _ ?st st' out]
    by (auto simp: verifyArtifactGeneratorGeneration_def Let_def reason_defs split: if_splits)
qed

lemma copied_honest:
  assumes "coReason c \<noteq> reasonRecoveryForced" "agReady ag = Some c" "\<not> needsGenerationVerification ag c"
    and run: "updateReady env s (coStatus c) (coReason c) gen t out st = (st', out')" and ag: "psAG st = Some ag"
  shows "psStatus st' = psStatus st \<or> (\<exists>c. psStReady (psStatus st') = Some c \<and> honest c (psAG st'))"
  using updateReady_cases [OF run] assms(1-3) ag by (auto simp: honest_def needsGenerationVerification_def split: if_splits)

lemma psUpdateStatus_honest:
  assumes run: "psUpdateStatus env ps gen st = (st', out)"
  shows "psStatus st' = psStatus st \<or> (\<exists>c. psStReady (psStatus st') = Some c \<and> honest c (psAG st'))"
proof (cases "psAG st")
  case None
  then show ?thesis using run updateReady_honest by (auto simp: psUpdateStatus_def Let_def reason_defs split: if_splits)
next
  case (Some ag)
  let ?s = "(psStatus st)\<lparr>psStVariants := joinWith (CHR '','') (map ovName (osVariants ps))\<rparr>"
  let ?ag = "clearRecoveryTracking env ag" and ?st = "st\<lparr>psAG := Some (clearRecoveryTracking env ag)\<rparr>"
  have rd: "agReady ?ag = agReady ag" by (simp add: clearRecoveryTracking_def)
  consider (early) "osSourceRef ps = None \<or> peGetErr env" | (recover) "osSourceRef ps \<noteq> None" "\<not> peGetErr env" "routedToRecovery env ag"
    | (rest) "osSourceRef ps \<noteq> None" "\<not> peGetErr env" "\<not> routedToRecovery env ag" by blast
  then show ?thesis
  proof cases
    case early
    then show ?thesis using run updateReady_honest by (auto simp: psUpdateStatus_def Let_def reason_defs split: if_splits)
  next
    case recover
    then obtain ref where "osSourceRef ps = Some ref" by auto
    then have "maybeRecoverArtifactGenerator env ?s gen ag st = (st', out)" using run Some recover by (simp add: psUpdateStatus_def Let_def)
    then show ?thesis by (rule maybeRecover_honest)
  next
    case rest
    then obtain ref where ref: "osSourceRef ps = Some ref" by auto
    show ?thesis
    proof (cases "agReady ag")
      case None
      then have "updateReady env ?s CondUnknown ''ArtifactGeneratorNotReady'' gen None
          (PsRequeue (agFollowUpDelay (agCreation ?ag) (peNowAt env))) ?st = (st', out)"
        using run Some rest rd ref by (simp add: psUpdateStatus_def Let_def)
      from updateReady_honest [OF this] show ?thesis by (simp add: reason_defs)
    next
      case ready: (Some c)
      have m: "coReason c \<noteq> reasonRecoveryForced" using rest(3) ready by (auto simp: routedToRecovery_def)
      have eq: "(if needsGenerationVerification ?ag c then verifyArtifactGeneratorGeneration env ?s gen ?ag ?st
          else updateReady env ?s (coStatus c) (coReason c) gen (Some (coTransition c))
            (if coStatus c = CondUnknown then PsRequeue (agFollowUpDelay (coTransition c) (peNowAt env)) else PsFinished) ?st) = (st', out)"
        using run Some rest rd ready ref by (simp add: psUpdateStatus_def Let_def)
      show ?thesis
      proof (cases "needsGenerationVerification ?ag c")
        case True
        with eq have "verifyArtifactGeneratorGeneration env ?s gen ?ag ?st = (st', out)" by simp
        from verify_honest [OF this] show ?thesis by simp
      next
        case False
        from copied_honest [OF m _ False, of env ?s gen _ _ ?st st' out] eq False rd ready show ?thesis by auto
      qed
    qed
  qed
qed

text \<open>Whatever fails in a pass, the condition Ready it writes never carries the marker by which this
  controller forces a rebuild, and it is true only when the generator reports Ready with the same
  reason and, past its first generation, the reported generation has been rebuilt once on request.\<close>

theorem PackageSourceReconcile_honest:
  assumes run: "PackageSourceReconcile env source st = (st', out)" and "psStatus st' \<noteq> psStatus st"
  shows "\<exists>c. psStReady (psStatus st') = Some c \<and> coReason c \<noteq> reasonRecoveryForced \<and>
     (coStatus c = CondTrue \<longrightarrow> (\<exists>g r. psAG st' = Some g \<and> agReady g = Some r \<and> coStatus r = CondTrue \<and> coReason r = coReason c \<and>
        (coGeneration r = agGeneration g \<and> 1 < agGeneration g \<longrightarrow>
           strOf (agAnnotations g) annotationVerifiedGeneration = itoa (agGeneration g))))"
proof -
  obtain ps gen st1 err where src: "source = Found (ps, gen, False)" "reconcileArtifactGenerators env ps st = (st1, err)"
    using assms by (cases source) (auto simp: PackageSourceReconcile_def split: if_splits prod.splits)
  have st1: "psStatus st1 = psStatus st"
    using src(2) by (auto simp: reconcileArtifactGenerators_def Let_def split: option.splits sum.splits if_splits)
  then have "psUpdateStatus env ps gen st1 = (st', out)"
    using src assms by (auto simp: PackageSourceReconcile_def split: option.splits)
  from psUpdateStatus_honest [OF this] st1 assms(2) show ?thesis by (auto simp: honest_def)
qed

subsection \<open>Artifacts and releases\<close>

lemma componentArtifact_cases:
  "o' \<in> set (componentArtifact ps ref confirmed v c) \<longleftrightarrow>
    getPackageNameFromPath (ocPath c) \<noteq> [] \<and> (\<forall>i. ocInstall c = Some i \<and> ciPrivileged i \<longrightarrow> confirmed) \<and>
    o' = \<lparr>oaName = ArtifactName (osName ps) (ovName v) (ocName c), oaCopy = copyOps ref v c\<rparr>"
proof -
  have "ocPath c = [] \<Longrightarrow> getPackageNameFromPath (ocPath c) = []" by (simp add: getPackageNameFromPath_def)
  then show ?thesis by (cases "ocInstall c") (auto simp: componentArtifact_def)
qed

lemma outputArtifacts_iff:
  "o' \<in> set (outputArtifacts ps ref confirmed) \<longleftrightarrow>
    (\<exists>v \<in> set (osVariants ps). \<exists>c \<in> set (ovComponents v). o' \<in> set (componentArtifact ps ref confirmed v c))"
  by (auto simp: outputArtifacts_def)

lemma artifactName_shared: "artifactName ps variant c = ArtifactName (osName ps) variant (ocName c)"
  by (simp add: artifactName_def ArtifactName_def ArtifactPrefix_def)

lemma reconcileArtifactGenerators_applied:
  assumes "reconcileArtifactGenerators env ps st = (st', None)" "osSourceRef ps = Some ref" "sourceConfirmed env ps = Inr confirmed"
    and "outputArtifacts ps ref confirmed \<noteq> []"
  shows "\<exists>ag. psAG st' = Some ag \<and> agsOutputs (agSpec ag) = outputArtifacts ps ref confirmed"
  using assms by (auto simp: reconcileArtifactGenerators_def applyGenerator_def Let_def split: if_splits option.split)

lemma wanted_chart:
  assumes "(k, hr) \<in> set (wanted cfg env ps v pkg)"
  obtains c i where "c \<in> set (ovComponents v)" "ocInstall c = Some i" "componentInstallable pkg c"
    "hsChart (hrSpec hr) = (''ExternalArtifact'', artifactName ps (variantNameOf pkg) c, ''cozy-system'')"
proof -
  obtain c where c: "c \<in> set (ovComponents v)" "(k, hr) \<in> set (wantedOf cfg env ps v pkg c)" using assms by (auto simp: wanted_def)
  then obtain i ds where "ocInstall c = Some i" "componentInstallable pkg c" "hr = buildRelease cfg ps pkg c i ds"
    using wantedOf_cases [of cfg env ps v pkg c] by auto
  then show thesis using that c(1) by (simp add: buildRelease_def buildHelmReleaseSpec_def)
qed

text \<open>A component that needs no confirmation, and a tap whose package is not confirmed.\<close>

definition unprivileged :: "opComponent \<Rightarrow> bool" where
  "unprivileged c \<longleftrightarrow> (\<forall>i. ocInstall c = Some i \<longrightarrow> \<not> ciPrivileged i)"

definition unconfirmedTap :: "psEnv \<Rightarrow> opSource \<Rightarrow> bool" where
  "unconfirmedTap env ps \<longleftrightarrow> strOf (osLabels ps) tapLabel = ''true'' \<and>
     (\<forall>pkg. pePackage env = Found pkg \<longrightarrow> \<not> privilegedConfirmed pkg)"

lemma rendered_release:
  assumes run: "reconcileArtifactGenerators env ps st = (st', None)" and ref: "osSourceRef ps = Some ref"
    and pkg: "pePackage env = Found pkg"
    and var: "findVariant (osVariants ps) (variantNameOf pkg) = Some v"
    and paths: "\<forall>c \<in> set (ovComponents v). ocInstall c \<noteq> None \<longrightarrow> getPackageNameFromPath (ocPath c) \<noteq> []"
    and wants: "(k, hr) \<in> set (wanted cfg oenv ps v pkg)"
  shows "\<exists>ag. psAG st' = Some ag \<and>
    (\<exists>o' \<in> set (agsOutputs (agSpec ag)). hsChart (hrSpec hr) = (''ExternalArtifact'', oaName o', ''cozy-system''))"
proof -
  obtain confirmed where conf: "sourceConfirmed env ps = Inr confirmed"
      "confirmed \<longleftrightarrow> strOf (osLabels ps) tapLabel \<noteq> ''true'' \<or> privilegedConfirmed pkg"
    using pkg by (auto simp: sourceConfirmed_def)
  from wants obtain c i where c: "c \<in> set (ovComponents v)" "ocInstall c = Some i" "componentInstallable pkg c"
      "hsChart (hrSpec hr) = (''ExternalArtifact'', artifactName ps (variantNameOf pkg) c, ''cozy-system'')"
    by (rule wanted_chart)
  have v: "v \<in> set (osVariants ps)" "ovName v = variantNameOf pkg"
    using var by (auto simp: findVariant_def find_Some_iff)
  let ?o = "\<lparr>oaName = ArtifactName (osName ps) (ovName v) (ocName c), oaCopy = copyOps ref v c\<rparr>"
  have "ciPrivileged i \<Longrightarrow> privilegedConfirmed pkg" using c(2,3) by (auto simp: componentInstallable_def split: if_splits)
  then have "?o \<in> set (componentArtifact ps ref confirmed v c)" using c(1,2) paths conf(2) by (auto simp: componentArtifact_cases)
  then have o: "?o \<in> set (outputArtifacts ps ref confirmed)" using v(1) c(1) by (auto simp: outputArtifacts_iff)
  then obtain ag where ag: "psAG st' = Some ag" "agsOutputs (agSpec ag) = outputArtifacts ps ref confirmed"
    using reconcileArtifactGenerators_applied [OF run ref conf(1)] by (metis empty_iff list.set(1))
  moreover have "\<exists>o' \<in> set (agsOutputs (agSpec ag)). hsChart (hrSpec hr) = (''ExternalArtifact'', oaName o', ''cozy-system'')"
    using o c(4) ag(2) v(2) by (intro bexI [of _ ?o]) (simp_all add: artifactName_shared)
  ultimately show ?thesis by blast
qed

lemma rendered_unconfirmed:
  assumes run: "reconcileArtifactGenerators env ps st = (st', None)" and ref: "osSourceRef ps = Some ref"
    and tap: "unconfirmedTap env ps"
  shows "if \<exists>w \<in> set (osVariants ps). \<exists>c \<in> set (ovComponents w). unprivileged c \<and> getPackageNameFromPath (ocPath c) \<noteq> []
    then \<exists>ag. psAG st' = Some ag \<and> (\<forall>o' \<in> set (agsOutputs (agSpec ag)). \<exists>w \<in> set (osVariants ps). \<exists>c \<in> set (ovComponents w).
      unprivileged c \<and> o' = \<lparr>oaName = ArtifactName (osName ps) (ovName w) (ocName c), oaCopy = copyOps ref w c\<rparr>)
    else st' = st"
proof -
  have conf: "sourceConfirmed env ps = Inr False"
  proof (cases "pePackage env")
    case (FetchError e)
    then show ?thesis using run ref tap by (simp add: reconcileArtifactGenerators_def sourceConfirmed_def unconfirmedTap_def)
  qed (use tap in \<open>simp_all add: sourceConfirmed_def unconfirmedTap_def\<close>)
  have out: "o' \<in> set (outputArtifacts ps ref False) \<longleftrightarrow> (\<exists>w \<in> set (osVariants ps). \<exists>c \<in> set (ovComponents w).
      unprivileged c \<and> getPackageNameFromPath (ocPath c) \<noteq> [] \<and>
      o' = \<lparr>oaName = ArtifactName (osName ps) (ovName w) (ocName c), oaCopy = copyOps ref w c\<rparr>)" for o'
    by (auto simp: outputArtifacts_iff componentArtifact_cases unprivileged_def)
  show ?thesis
  proof (cases "outputArtifacts ps ref False = []")
    case True
    then have "st' = st" using run ref conf by (simp add: reconcileArtifactGenerators_def)
    moreover have "\<not> (\<exists>w \<in> set (osVariants ps). \<exists>c \<in> set (ovComponents w). unprivileged c \<and> getPackageNameFromPath (ocPath c) \<noteq> [])"
      using True out by (metis empty_iff list.set(1))
    ultimately show ?thesis by (simp only: if_False)
  next
    case False
    from reconcileArtifactGenerators_applied [OF run ref conf False] obtain ag where
      ag: "psAG st' = Some ag" "agsOutputs (agSpec ag) = outputArtifacts ps ref False" by blast
    obtain o' where "o' \<in> set (outputArtifacts ps ref False)" using False by (meson last_in_set)
    then have "\<exists>w \<in> set (osVariants ps). \<exists>c \<in> set (ovComponents w). unprivileged c \<and> getPackageNameFromPath (ocPath c) \<noteq> []"
      unfolding out by blast
    moreover have "\<forall>o' \<in> set (agsOutputs (agSpec ag)). \<exists>w \<in> set (osVariants ps). \<exists>c \<in> set (ovComponents w).
        unprivileged c \<and> o' = \<lparr>oaName = ArtifactName (osName ps) (ovName w) (ocName c), oaCopy = copyOps ref w c\<rparr>"
    proof
      fix o' assume "o' \<in> set (agsOutputs (agSpec ag))"
      from this [unfolded ag(2) out] show "\<exists>w \<in> set (osVariants ps). \<exists>c \<in> set (ovComponents w).
        unprivileged c \<and> o' = \<lparr>oaName = ArtifactName (osName ps) (ovName w) (ocName c), oaCopy = copyOps ref w c\<rparr>" by blast
    qed
    ultimately show ?thesis using ag(1) by (simp only: if_True) blast
  qed
qed

text \<open>C32: The two controllers agree on artifacts. When a pass over a source ends without an error, every
  HelmRelease that the Package controller asks for in the chosen variant refers to an artifact of
  the generator, provided the components to install have a path with a name. And as long as the
  package of a tap is missing or not confirmed, the generator that a pass renders has artifacts of
  components that are not privileged only. The exception is a source all of whose components are
  withheld: then nothing is rendered, and a generator of an earlier pass stays as it is, with the
  artifacts it has (\<open>withheld_generator_stays\<close>).\<close>

theorem releases_have_artifacts:
  assumes run: "reconcileArtifactGenerators env ps st = (st', None)" and ref: "osSourceRef ps = Some ref"
  shows "(\<forall>pkg v k hr. pePackage env = Found pkg \<and> findVariant (osVariants ps) (variantNameOf pkg) = Some v \<and>
      (\<forall>c \<in> set (ovComponents v). ocInstall c \<noteq> None \<longrightarrow> getPackageNameFromPath (ocPath c) \<noteq> []) \<and>
      (k, hr) \<in> set (wanted cfg oenv ps v pkg) \<longrightarrow>
      (\<exists>ag. psAG st' = Some ag \<and>
        (\<exists>o' \<in> set (agsOutputs (agSpec ag)). hsChart (hrSpec hr) = (''ExternalArtifact'', oaName o', ''cozy-system'')))) \<and>
    (unconfirmedTap env ps \<longrightarrow>
      (if \<exists>w \<in> set (osVariants ps). \<exists>c \<in> set (ovComponents w). unprivileged c \<and> getPackageNameFromPath (ocPath c) \<noteq> []
       then \<exists>ag. psAG st' = Some ag \<and> (\<forall>o' \<in> set (agsOutputs (agSpec ag)). \<exists>w \<in> set (osVariants ps). \<exists>c \<in> set (ovComponents w).
         unprivileged c \<and> o' = \<lparr>oaName = ArtifactName (osName ps) (ovName w) (ocName c), oaCopy = copyOps ref w c\<rparr>)
       else st' = st))"
  using rendered_release [OF run ref] rendered_unconfirmed [OF run ref] by blast

text \<open>When every component is withheld nothing is applied at all: a generator that was rendered before a
  component became privileged keeps its artifacts.\<close>

theorem withheld_generator_stays:
  assumes "osSourceRef ps = Some ref" "strOf (osLabels ps) tapLabel = ''true''" "pePackage env = Found pkg" "\<not> privilegedConfirmed pkg"
    and "\<forall>v \<in> set (osVariants ps). \<forall>c \<in> set (ovComponents v). \<exists>i. ocInstall c = Some i \<and> ciPrivileged i"
  shows "reconcileArtifactGenerators env ps st = (st, None)"
proof -
  have conf: "sourceConfirmed env ps = Inr False" using assms(2-4) by (simp add: sourceConfirmed_def)
  have "\<not> (\<exists>o'. o' \<in> set (outputArtifacts ps ref False))"
    using assms(5) by (auto simp: outputArtifacts_iff componentArtifact_cases)
  then have "outputArtifacts ps ref False = []" by (metis last_in_set)
  then show ?thesis using assms(1) conf by (simp add: reconcileArtifactGenerators_def)
qed

subsection \<open>An example\<close>

definition demoInstant :: "int \<Rightarrow> string" where
  "demoInstant t = (if 0 \<le> t then CHR ''+'' # natDigits (nat t) else CHR ''-'' # natDigits (nat (- t)))"

fun demoInstantParse :: "string \<Rightarrow> int option" where
  "demoInstantParse [] = None"
| "demoInstantParse (c # s) = map_option (\<lambda>n. if c = CHR ''-'' then - int n else int n) (parseDigits 0 s)"

lemma demoInstant_inverse: "demoInstantParse (demoInstant t) = Some t"
  by (simp add: demoInstant_def parseDigits_natDigits)

definition demoPsEnv :: "int \<Rightarrow> psEnv" where
  "demoPsEnv now = \<lparr>peNowAt = now, peStamp = now, peFormat = demoInstant, peParse = demoInstantParse,
     pePackage = Found demoOpPackage, peApplyErr = False, peGetErr = False, peForceErr = False, peTrackErr = False, peClearErr = False,
     peVerifyErr = False, peUpdateErr = False\<rparr>"

definition demoGenerator :: ArtifactGenerator where
  "demoGenerator = \<lparr>agGeneration = 2, agCreation = 0, agLabels = Map.empty, agAnnotations = Map.empty, agOwner = (''db'', ''3''),
     agSpec = \<lparr>agsSource = ([], [], [], []), agsOutputs = []\<rparr>, agInventory = 1, agDigest = ''sha256:0'',
     agReady = Some \<lparr>coStatus = CondTrue, coReason = ''Succeeded'', coGeneration = 2, coTransition = 5\<rparr>\<rparr>"

definition demoPsState :: psState where
  "demoPsState = \<lparr>psStatus = \<lparr>psStVariants = [], psStReady = None\<rparr>, psAG = Some demoGenerator\<rparr>"

lemmas demoPs_defs = demoPsEnv_def demoGenerator_def demoPsState_def

theorem releases_have_artifacts_witness:
  "\<exists>ag o'. psAG (fst (reconcileArtifactGenerators (demoPsEnv 9) demoOpSource demoPsState)) = Some ag \<and> o' \<in> set (agsOutputs (agSpec ag)) \<and>
     hsChart (hrSpec (demoRelease [(''cozy-db'', ''agent'')])) = (''ExternalArtifact'', oaName o', ''cozy-system'')"
proof -
  let ?r = "reconcileArtifactGenerators (demoPsEnv 9) demoOpSource demoPsState"
  have "snd ?r = None"
    by (simp add: reconcileArtifactGenerators_def sourceConfirmed_def demoOpSource_def demoPs_defs strOf_def Let_def)
  then have r: "?r = (fst ?r, None)" by (simp add: prod_eq_iff)
  have w: "((''cozy-db'', ''server''), demoRelease [(''cozy-db'', ''agent'')]) \<in> set (wanted demoOpConfig demoOpEnv demoOpSource demoOpVariant demoOpPackage)"
    by (simp add: wanted_def wantedOf_def demoOp_loop demoOp_defs buildRelease_def strOf_def)
  have "pePackage (demoPsEnv 9) = Found demoOpPackage" "\<exists>ref. osSourceRef demoOpSource = Some ref"
    "\<forall>c \<in> set (ovComponents demoOpVariant). ocInstall c \<noteq> None \<longrightarrow> getPackageNameFromPath (ocPath c) \<noteq> []"
    by (simp_all add: demoPsEnv_def demoOp_defs getPackageNameFromPath_def)
  then show ?thesis using releases_have_artifacts [OF r] demoRun_read(3) w by blast
qed

theorem PackageSourceReconcile_honest_witness:
  "\<exists>c. psStReady (psStatus (fst (PackageSourceReconcile (demoPsEnv 9) (Found (demoOpSource\<lparr>osSourceRef := None\<rparr>, 1, False)) demoPsState))) = Some c \<and>
     coReason c \<noteq> reasonRecoveryForced"
proof -
  let ?r = "PackageSourceReconcile (demoPsEnv 9) (Found (demoOpSource\<lparr>osSourceRef := None\<rparr>, 1, False)) demoPsState"
  have "psStatus (fst ?r) \<noteq> psStatus demoPsState"
    by (simp add: PackageSourceReconcile_def reconcileArtifactGenerators_def psUpdateStatus_def updateReady_def demoPs_defs Let_def)
  then show ?thesis
    using PackageSourceReconcile_honest [of "demoPsEnv 9" "Found (demoOpSource\<lparr>osSourceRef := None\<rparr>, 1, False)" demoPsState "fst ?r" "snd ?r"]
    by auto
qed

definition demoStuck :: psState where
  "demoStuck = \<lparr>psStatus = \<lparr>psStVariants = [], psStReady = None\<rparr>,
     psAG = Some (demoGenerator\<lparr>agReady := Some \<lparr>coStatus = CondUnknown, coReason = ''Progressing'', coGeneration = 2, coTransition = 0\<rparr>\<rparr>)\<rparr>"

abbreviation demoForced :: "psState \<times> ps_outcome" where
  "demoForced \<equiv> psUpdateStatus (demoPsEnv (100 * second)) demoOpSource 1 demoStuck"

lemma demoQuiet: "quietPass demoInstant demoInstantParse (demoPsEnv now)"
  by (simp add: quietPass_def demoPsEnv_def demoInstant_inverse)

theorem recovery_bounded_witness:
  "\<exists>w. snd (psUpdateStatus (demoPsEnv (130 * second)) demoOpSource 1 (fst demoForced)) = PsRequeue w \<and> 0 < w"
proof -
  let ?g = "demoGenerator\<lparr>agReady := Some \<lparr>coStatus = CondUnknown, coReason = ''Progressing'', coGeneration = 2, coTransition = 0\<rparr>\<rparr>"
  have g: "psAG demoStuck = Some ?g" "fst (trackingOf demoInstantParse ?g) = 0" by (simp_all add: demoStuck_def trackingOf_def demoGenerator_def)
  have routed: "routedToRecovery (demoPsEnv (100 * second)) ?g"
    by (simp add: routedToRecovery_def artifactGeneratorStuck_def demoPsEnv_def demoGenerator_def stuckGracePeriod_def second_def)
  have src: "osSourceRef demoOpSource \<noteq> None" by (simp add: demoOpSource_def)
  have pair: "psUpdateStatus (demoPsEnv (100 * second)) demoOpSource 1 demoStuck = (fst demoForced, snd demoForced)" by simp
  have "decideRecovery (fst (trackingOf demoInstantParse ?g)) (snd (trackingOf demoInstantParse ?g)) (peNowAt (demoPsEnv (100 * second))) = RecoveryForce"
    using g(2) by (simp add: decideRecovery_def maxRecoveryAttempts_def)
  from recovery_pass [OF demoQuiet g(1) routed src pair, unfolded this] g(2)
  have f: "snd demoForced = PsRequeue (30 * second)" "psAG (fst demoForced) = Some (fst (forceArtifactGeneratorDrift (demoPsEnv (100 * second)) 1 ?g))"
    by (simp_all add: backoffFor_values)
  let ?ag = "fst (forceArtifactGeneratorDrift (demoPsEnv (100 * second)) 1 ?g)"
  have now: "peNowAt (demoPsEnv t) = t" for t by (simp add: demoPsEnv_def)
  have "psUpdateStatus (demoPsEnv (100 * second)) demoOpSource 1 demoStuck = (fst demoForced, PsRequeue (30 * second))"
    using f(1) by (metis pair)
  from unansweredRun.first [OF demoQuiet now g routed src this, of 0]
  have run: "unansweredRun demoInstant demoInstantParse 0 (100 * second) (fst demoForced) (100 * second) (100 * second + 30 * second + 0)" .
  have un: "unanswered ?ag ?ag" by (simp add: unanswered_def forceArtifactGeneratorDrift_def demoPsEnv_def setCondition_def Let_def)
  have same: "(fst demoForced)\<lparr>psAG := Some ?ag\<rparr> = fst demoForced" using f(2) by simp
  let ?r = "psUpdateStatus (demoPsEnv (130 * second)) demoOpSource 1 (fst demoForced)"
  have r: "psUpdateStatus (demoPsEnv (130 * second)) demoOpSource 1 ((fst demoForced)\<lparr>psAG := Some ?ag\<rparr>) = (fst ?r, snd ?r)" using same by simp
  have times: "(0::int) \<le> 0" "100 * second \<le> peNowAt (demoPsEnv (130 * second))"
      "peNowAt (demoPsEnv (130 * second)) \<le> 100 * second + 30 * second + 0"
      "\<not> 100 * second + 690 * second \<le> peNowAt (demoPsEnv (130 * second))"
    by (simp_all only: now) (simp_all add: second_def)
  show ?thesis using recovery_bounded [OF run times(1) demoQuiet times(2,3) f(2) un src r] times(4) by blast
qed

end
