(* ===== verification/Api_Schema.thy ===== *)
theory Api_Schema
  imports Go_Prelude
begin

text \<open>
  The comparison of two OpenAPI schemas by the API compatibility gate (internal/apigate/schemadiff.go):
  a walk over both schemas in lockstep that reports every difference by which the new schema may
  reject what the old one accepted. A schema is a decoded JSON object; the order of its keys is
  immaterial and the code traverses them sorted. The verbs \<open>%q\<close>, \<open>%v\<close> and \<open>%g\<close> of \<open>fmt\<close> are
  arguments. Against the walk stands \<open>accepts\<close>, the documented meaning of the keywords, whose regular
  expressions, validation rules and remaining keywords are arguments too.
\<close>

subsection \<open>Schemas\<close>

datatype json = JNull | JBool bool | JNum rat | JStr string | JArr "json list" | JObj "(string \<times> json) list"

type_synonym Schema = "(string \<times> json) list"

record fmtLib =
  fmQuote :: "string \<Rightarrow> string" \<comment> \<open>\<open>%q\<close>\<close>
  fmValue :: "json \<Rightarrow> string" \<comment> \<open>\<open>%v\<close>\<close>
  fmFloat :: "rat \<Rightarrow> string" \<comment> \<open>\<open>%g\<close>\<close>

definition keysSorted :: "string list \<Rightarrow> string list" where
  "keysSorted ks = sort (remdups ks)"

definition setDiff :: "string list \<Rightarrow> string list \<Rightarrow> string list" where
  "setDiff a b = keysSorted (filter (\<lambda>k. k \<notin> set b) a)"

definition strOfJson :: "json \<Rightarrow> string list" where
  "strOfJson x = (case x of JStr t \<Rightarrow> [t] | _ \<Rightarrow> [])"

definition anyOfType :: "json \<Rightarrow> string list" where
  "anyOfType x = (case x of
     JObj sub \<Rightarrow> (case map_of sub ''type'' of Some (JStr t) \<Rightarrow> if t \<noteq> [] then [t] else [] | _ \<Rightarrow> [])
   | _ \<Rightarrow> [])"

definition schemaTypes :: "Schema \<Rightarrow> string list" where
  "schemaTypes s =
     (case map_of s ''type'' of
        Some (JStr t) \<Rightarrow> if t \<noteq> [] then [t] else []
      | Some (JArr ts) \<Rightarrow> concat (map strOfJson ts)
      | _ \<Rightarrow> []) @
     (case map_of s ''anyOf'' of Some (JArr xs) \<Rightarrow> concat (map anyOfType xs) | _ \<Rightarrow> [])"

definition schemaEnum :: "fmtLib \<Rightarrow> Schema \<Rightarrow> string list option" where
  "schemaEnum F s = (case map_of s ''enum'' of Some (JArr xs) \<Rightarrow> Some (map (fmValue F) xs) | _ \<Rightarrow> None)"

definition schemaRequired :: "Schema \<Rightarrow> string list" where
  "schemaRequired s = (case map_of s ''required'' of Some (JArr xs) \<Rightarrow> concat (map strOfJson xs) | _ \<Rightarrow> [])"

definition objOf :: "json option \<Rightarrow> Schema option" where
  "objOf x = (case x of Some (JObj t) \<Rightarrow> Some t | _ \<Rightarrow> None)"

definition propsOf :: "Schema \<Rightarrow> (string \<times> json) list" where
  "propsOf s = (case map_of s ''properties'' of Some (JObj ps) \<Rightarrow> ps | _ \<Rightarrow> [])"

definition schemaProp :: "Schema \<Rightarrow> string \<Rightarrow> Schema option" where
  "schemaProp s name = objOf (map_of (propsOf s) name)"

definition schemaPropNames :: "Schema \<Rightarrow> string list" where
  "schemaPropNames s = filter (\<lambda>name. schemaProp s name \<noteq> None) (map fst (propsOf s))"

definition childSchemas :: "Schema \<Rightarrow> Schema \<Rightarrow> string \<Rightarrow> (Schema \<times> Schema) option" where
  "childSchemas base head key =
     (case objOf (map_of head key) of
        None \<Rightarrow> None
      | Some h \<Rightarrow> Some (case objOf (map_of base key) of None \<Rightarrow> [] | Some b \<Rightarrow> b, h))"

definition ruleOf :: "json \<Rightarrow> string list" where
  "ruleOf x = (case x of
     JObj entry \<Rightarrow> (case map_of entry ''rule'' of Some (JStr r) \<Rightarrow> if r \<noteq> [] then [r] else [] | _ \<Rightarrow> [])
   | _ \<Rightarrow> [])"

definition schemaValidationRules :: "Schema \<Rightarrow> string list" where
  "schemaValidationRules s =
     (case map_of s ''x-kubernetes-validations'' of Some (JArr xs) \<Rightarrow> concat (map ruleOf xs) | _ \<Rightarrow> [])"

definition schemaString :: "Schema \<Rightarrow> string \<Rightarrow> string" where
  "schemaString s key = (case map_of s key of Some (JStr v) \<Rightarrow> v | _ \<Rightarrow> [])"

definition schemaBool :: "Schema \<Rightarrow> string \<Rightarrow> bool" where
  "schemaBool s key \<longleftrightarrow> map_of s key = Some (JBool True)"

definition schemaNumber :: "Schema \<Rightarrow> string \<Rightarrow> rat option" where
  "schemaNumber s key = (case map_of s key of Some (JNum n) \<Rightarrow> Some n | _ \<Rightarrow> None)"

definition formatNum :: "fmtLib \<Rightarrow> rat \<Rightarrow> string" where
  "formatNum F f = (if of_int \<lfloor>f\<rfloor> = f \<and> - (2 ^ 63) \<le> f \<and> f < 2 ^ 63 then itoa \<lfloor>f\<rfloor> else fmFloat F f)"

subsection \<open>The differences at one node\<close>

definition diffTypes :: "string \<Rightarrow> Schema \<Rightarrow> Schema \<Rightarrow> string list" where
  "diffTypes path base head =
     (let bt = schemaTypes base; ht = schemaTypes head in
      if bt = [] \<and> ht \<noteq> [] then [path @ '': type constraint added, now only accepts '' @ joinStr ''/'' (keysSorted ht)]
      else if bt \<noteq> [] \<and> ht \<noteq> [] then
        (let removed = setDiff bt ht in
         if removed \<noteq> [] then [path @ '': type narrowed, no longer accepts '' @ joinStr ''/'' removed] else [])
      else [])"

definition diffEnum :: "fmtLib \<Rightarrow> string \<Rightarrow> Schema \<Rightarrow> Schema \<Rightarrow> string list" where
  "diffEnum F path base head =
     (case (schemaEnum F base, schemaEnum F head) of
        (None, Some he) \<Rightarrow> [path @ '': enum constraint added (previously unrestricted)'']
      | (Some be, Some he) \<Rightarrow>
          (let removed = setDiff be he in
           if removed \<noteq> [] then [path @ '': enum value(s) removed: '' @ joinStr '', '' removed] else [])
      | _ \<Rightarrow> [])"

definition diffPattern :: "fmtLib \<Rightarrow> string \<Rightarrow> Schema \<Rightarrow> Schema \<Rightarrow> string list" where
  "diffPattern F path base head =
     (let bp = schemaString base ''pattern''; hp = schemaString head ''pattern'' in
      if hp \<noteq> [] \<and> hp \<noteq> bp then
        (if bp = [] then [path @ '': pattern constraint added ('' @ fmQuote F hp @ '')'']
         else [path @ '': pattern changed ('' @ fmQuote F bp @ '' -> '' @ fmQuote F hp @ '')''])
      else [])"

definition diffLowerBound :: "fmtLib \<Rightarrow> string \<Rightarrow> Schema \<Rightarrow> Schema \<Rightarrow> string \<Rightarrow> string list" where
  "diffLowerBound F path base head key =
     (case (schemaNumber base key, schemaNumber head key) of
        (_, None) \<Rightarrow> []
      | (None, Some hv) \<Rightarrow> [path @ '': '' @ key @ '' constraint added ('' @ formatNum F hv @ '')'']
      | (Some bv, Some hv) \<Rightarrow>
          if bv < hv then [path @ '': '' @ key @ '' raised ('' @ formatNum F bv @ '' -> '' @ formatNum F hv @ '')''] else [])"

definition diffUpperBound :: "fmtLib \<Rightarrow> string \<Rightarrow> Schema \<Rightarrow> Schema \<Rightarrow> string \<Rightarrow> string list" where
  "diffUpperBound F path base head key =
     (case (schemaNumber base key, schemaNumber head key) of
        (_, None) \<Rightarrow> []
      | (None, Some hv) \<Rightarrow> [path @ '': '' @ key @ '' constraint added ('' @ formatNum F hv @ '')'']
      | (Some bv, Some hv) \<Rightarrow>
          if hv < bv then [path @ '': '' @ key @ '' lowered ('' @ formatNum F bv @ '' -> '' @ formatNum F hv @ '')''] else [])"

definition diffBounds :: "fmtLib \<Rightarrow> string \<Rightarrow> Schema \<Rightarrow> Schema \<Rightarrow> string list" where
  "diffBounds F path base head =
     concat (map (diffLowerBound F path base head) [''minimum'', ''minLength'', ''minItems'']) @
     concat (map (diffUpperBound F path base head) [''maximum'', ''maxLength'', ''maxItems''])"

definition diffRequired :: "fmtLib \<Rightarrow> string \<Rightarrow> Schema \<Rightarrow> Schema \<Rightarrow> string list" where
  "diffRequired F path base head =
     map (\<lambda>name. path @ '': field '' @ fmQuote F name @ '' is now required'')
       (filter (\<lambda>name. name \<notin> set (schemaRequired base)) (keysSorted (schemaRequired head)))"

definition diffRules :: "fmtLib \<Rightarrow> string \<Rightarrow> Schema \<Rightarrow> Schema \<Rightarrow> string list" where
  "diffRules F path base head =
     map (\<lambda>rule. path @ '': validation rule added ('' @ fmQuote F rule @ '')'')
       (setDiff (schemaValidationRules head) (schemaValidationRules base))"

definition diffNullable :: "string \<Rightarrow> Schema \<Rightarrow> Schema \<Rightarrow> string list" where
  "diffNullable path base head =
     (if schemaBool base ''nullable'' \<and> \<not> schemaBool head ''nullable''
      then [path @ '': no longer nullable (null values rejected)''] else [])"

definition diffComposition :: "string \<Rightarrow> Schema \<Rightarrow> Schema \<Rightarrow> string list" where
  "diffComposition path base head =
     concat (map (\<lambda>kw. if map_of base kw = None \<and> map_of head kw \<noteq> None
                       then [path @ '': '' @ kw @ '' composition constraint added''] else [])
       [''oneOf'', ''allOf'', ''not''])"

definition diffConstraints :: "fmtLib \<Rightarrow> string \<Rightarrow> Schema \<Rightarrow> Schema \<Rightarrow> string list" where
  "diffConstraints F path base head =
     diffTypes path base head @ diffEnum F path base head @ diffPattern F path base head @ diffBounds F path base head @
     diffRequired F path base head @ diffRules F path base head @ diffNullable path base head @ diffComposition path base head"

subsection \<open>The walk\<close>

lemma member_size: "(k, v) \<in> set xs \<Longrightarrow> size v < size (JObj xs)"
proof -
  assume "(k, v) \<in> set xs"
  then have "size_prod (\<lambda>_. 0) size (k, v) \<le> size_list (size_prod (\<lambda>_. 0) size) xs"
    by (intro size_list_estimation' [of "(k, v)"]) auto
  then show ?thesis by simp
qed

lemma objOf_size: "objOf (map_of s k) = Some t \<Longrightarrow> size (JObj t) < size (JObj s)"
  using member_size by (fastforce simp: objOf_def dest: map_of_SomeD split: option.splits json.splits)

lemma schemaProp_size: "schemaProp s k = Some t \<Longrightarrow> size (JObj t) < size (JObj s)"
proof -
  assume a: "schemaProp s k = Some t"
  then obtain ps where ps: "map_of s ''properties'' = Some (JObj ps)"
    by (auto simp: schemaProp_def propsOf_def objOf_def split: option.splits json.splits)
  then have "size (JObj t) < size (JObj ps)" using a objOf_size [of ps k t] by (simp add: schemaProp_def propsOf_def)
  also have "\<dots> < size (JObj s)" using member_size [OF map_of_SomeD [OF ps]] .
  finally show ?thesis .
qed

lemma childSchemas_size: "childSchemas base head key = Some (b, h) \<Longrightarrow> size (JObj h) < size (JObj head)"
  using objOf_size by (fastforce simp: childSchemas_def split: option.splits)

lemmas schema_sizes = objOf_size schemaProp_size childSchemas_size

function diffNode :: "fmtLib \<Rightarrow> string \<Rightarrow> Schema \<Rightarrow> Schema \<Rightarrow> string list" where
  "diffNode F path base head =
     diffConstraints F path base head @
     concat (map (\<lambda>name.
         case schemaProp head name of
           None \<Rightarrow> [path @ '': field '' @ fmQuote F name @ '' was removed'']
         | Some hp \<Rightarrow> diffNode F (path @ ''.'' @ name) (case schemaProp base name of None \<Rightarrow> [] | Some bp \<Rightarrow> bp) hp)
       (keysSorted (schemaPropNames base))) @
     (if map_of base ''additionalProperties'' = Some (JBool False) then []
      else if map_of head ''additionalProperties'' = Some (JBool False)
        then [path @ '': additionalProperties restricted to false (undeclared fields no longer accepted)'']
      else case childSchemas base head ''additionalProperties'' of
             None \<Rightarrow> []
           | Some (b, h) \<Rightarrow> diffNode F (path @ ''{}'') b h) @
     (case childSchemas base head ''items'' of
        None \<Rightarrow> []
      | Some (b, h) \<Rightarrow> diffNode F (path @ ''[]'') b h)"
  by pat_completeness auto

termination by (relation "measure (\<lambda>(F, path, base, head). size (JObj head))") (auto dest: schema_sizes)

declare diffNode.simps [simp del]

text \<open>A schema that is absent in the old version constrains nothing; one that vanishes is no break.\<close>

definition schemaOr :: "Schema option \<Rightarrow> Schema" where
  "schemaOr s = (case s of None \<Rightarrow> [] | Some t \<Rightarrow> t)"

definition diffSchema :: "fmtLib \<Rightarrow> string \<Rightarrow> Schema option \<Rightarrow> Schema option \<Rightarrow> string list" where
  "diffSchema F path base head =
     (case head of None \<Rightarrow> [] | Some h \<Rightarrow> sort (diffNode F path (schemaOr base) h))"

subsection \<open>What a schema accepts\<close>

text \<open>The validator of the API server as far as the walk concerns it: regular expressions, CEL rules,
  and every other keyword with its value.\<close>

record validator =
  vaMatch :: "string \<Rightarrow> string \<Rightarrow> bool"
  vaRule :: "string \<Rightarrow> json \<Rightarrow> bool"
  vaOther :: "string \<Rightarrow> json \<Rightarrow> json \<Rightarrow> bool"

fun hasType :: "json \<Rightarrow> string \<Rightarrow> bool" where
  "hasType JNull t \<longleftrightarrow> t = ''null''"
| "hasType (JBool b) t \<longleftrightarrow> t = ''boolean''"
| "hasType (JNum n) t \<longleftrightarrow> t = ''number'' \<or> t = ''integer'' \<and> of_int \<lfloor>n\<rfloor> = n"
| "hasType (JStr s) t \<longleftrightarrow> t = ''string''"
| "hasType (JArr xs) t \<longleftrightarrow> t = ''array''"
| "hasType (JObj fs) t \<longleftrightarrow> t = ''object''"

text \<open>The types that the keyword \<open>type\<close> declares.\<close>

definition declaredTypes :: "Schema \<Rightarrow> string list" where
  "declaredTypes s =
     (case map_of s ''type'' of
        Some (JStr t) \<Rightarrow> if t \<noteq> [] then [t] else []
      | Some (JArr ts) \<Rightarrow> concat (map strOfJson ts)
      | _ \<Rightarrow> [])"

definition typeOk :: "validator \<Rightarrow> Schema \<Rightarrow> json \<Rightarrow> bool" where
  "typeOk V s v \<longleftrightarrow>
     v = JNull \<and> schemaBool s ''nullable'' \<or>
     (declaredTypes s = [] \<or> list_ex (hasType v) (declaredTypes s)) \<and>
     (case map_of s ''anyOf'' of Some (JArr xs) \<Rightarrow> vaOther V ''anyOf'' (JArr xs) v | _ \<Rightarrow> True)"

definition enumOk :: "Schema \<Rightarrow> json \<Rightarrow> bool" where
  "enumOk s v \<longleftrightarrow> (case map_of s ''enum'' of Some (JArr xs) \<Rightarrow> v \<in> set xs | _ \<Rightarrow> True)"

definition patternOk :: "validator \<Rightarrow> Schema \<Rightarrow> json \<Rightarrow> bool" where
  "patternOk V s v \<longleftrightarrow>
     (case v of JStr x \<Rightarrow> schemaString s ''pattern'' = [] \<or> vaMatch V (schemaString s ''pattern'') x | _ \<Rightarrow> True)"

definition inBounds :: "Schema \<Rightarrow> string \<Rightarrow> string \<Rightarrow> rat \<Rightarrow> bool" where
  "inBounds s lower upper n \<longleftrightarrow>
     (case schemaNumber s lower of None \<Rightarrow> True | Some l \<Rightarrow> l \<le> n) \<and>
     (case schemaNumber s upper of None \<Rightarrow> True | Some u \<Rightarrow> n \<le> u)"

definition boundsOk :: "Schema \<Rightarrow> json \<Rightarrow> bool" where
  "boundsOk s v \<longleftrightarrow>
     (case v of
        JNum n \<Rightarrow> inBounds s ''minimum'' ''maximum'' n
      | JStr x \<Rightarrow> inBounds s ''minLength'' ''maxLength'' (of_nat (length x))
      | JArr xs \<Rightarrow> inBounds s ''minItems'' ''maxItems'' (of_nat (length xs))
      | _ \<Rightarrow> True)"

definition requiredOk :: "Schema \<Rightarrow> json \<Rightarrow> bool" where
  "requiredOk s v \<longleftrightarrow> (case v of JObj fs \<Rightarrow> set (schemaRequired s) \<subseteq> fst ` set fs | _ \<Rightarrow> True)"

definition rulesOk :: "validator \<Rightarrow> Schema \<Rightarrow> json \<Rightarrow> bool" where
  "rulesOk V s v \<longleftrightarrow> list_all (\<lambda>r. vaRule V r v) (schemaValidationRules s)"

definition walkedKeywords :: "string list" where
  "walkedKeywords = [''type'', ''anyOf'', ''enum'', ''pattern'', ''minimum'', ''minLength'', ''minItems'', ''maximum'', ''maxLength'',
     ''maxItems'', ''required'', ''x-kubernetes-validations'', ''nullable'', ''properties'', ''additionalProperties'', ''items'']"

definition othersOk :: "validator \<Rightarrow> Schema \<Rightarrow> json \<Rightarrow> bool" where
  "othersOk V s v \<longleftrightarrow>
     list_all (\<lambda>k. k \<in> set walkedKeywords \<or> (case map_of s k of None \<Rightarrow> True | Some x \<Rightarrow> vaOther V k x v)) (map fst s)"

definition constraintsOk :: "validator \<Rightarrow> Schema \<Rightarrow> json \<Rightarrow> bool" where
  "constraintsOk V s v \<longleftrightarrow> typeOk V s v \<and> enumOk s v \<and> patternOk V s v \<and> boundsOk s v \<and> requiredOk s v \<and> rulesOk V s v \<and> othersOk V s v"

function accepts :: "validator \<Rightarrow> Schema \<Rightarrow> json \<Rightarrow> bool" where
  "accepts V s v \<longleftrightarrow> constraintsOk V s v \<and>
     (case v of
        JObj fs \<Rightarrow> list_all (\<lambda>(k, x).
          case schemaProp s k of
            Some t \<Rightarrow> accepts V t x
          | None \<Rightarrow> map_of s ''additionalProperties'' \<noteq> Some (JBool False) \<and>
              (case objOf (map_of s ''additionalProperties'') of None \<Rightarrow> True | Some t \<Rightarrow> accepts V t x)) fs
      | JArr xs \<Rightarrow> (case objOf (map_of s ''items'') of None \<Rightarrow> True | Some t \<Rightarrow> list_all (accepts V t) xs)
      | _ \<Rightarrow> True)"
  by pat_completeness auto

termination by (relation "measure (\<lambda>(V, s, v). size (JObj s))") (auto dest: schema_sizes)

declare accepts.simps [simp del]

subsection \<open>Where the walk is complete\<close>

text \<open>What the walk relies on at a node: alternatives declare nothing but types, and not beside a type
  of their own; values of the two enumerations that print alike are equal; the composition keywords
  and the keywords the walk does not know are unchanged or dropped, annotations apart.\<close>

definition annotationKeywords :: "string list" where
  "annotationKeywords = [''description'', ''title'', ''default'', ''example'', ''x-cozystack-name'']"

fun typesOnly :: "json \<Rightarrow> bool" where
  "typesOnly (JObj [(k, JStr t)]) \<longleftrightarrow> k = ''type'' \<and> t \<noteq> []"
| "typesOnly _ \<longleftrightarrow> False"

definition plainTypes :: "Schema \<Rightarrow> bool" where
  "plainTypes s \<longleftrightarrow>
     (case map_of s ''anyOf'' of
        None \<Rightarrow> True
      | Some (JArr xs) \<Rightarrow> declaredTypes s = [] \<and> xs \<noteq> [] \<and> list_all typesOnly xs
      | _ \<Rightarrow> False)"

definition printsApart :: "fmtLib \<Rightarrow> Schema \<Rightarrow> Schema \<Rightarrow> bool" where
  "printsApart F base head \<longleftrightarrow>
     (case (map_of base ''enum'', map_of head ''enum'') of
        (Some (JArr xs), Some (JArr ys)) \<Rightarrow> list_all (\<lambda>x. list_all (\<lambda>y. fmValue F x = fmValue F y \<longrightarrow> x = y) ys) xs
      | _ \<Rightarrow> True)"

definition sameOthers :: "Schema \<Rightarrow> Schema \<Rightarrow> bool" where
  "sameOthers base head \<longleftrightarrow>
     list_all (\<lambda>k. k \<in> set walkedKeywords \<or> k \<in> set annotationKeywords \<or> map_of base k = map_of head k \<or>
       map_of base k = None \<and> k \<in> {''oneOf'', ''allOf'', ''not''}) (map fst head)"

definition comparableNode :: "fmtLib \<Rightarrow> Schema \<Rightarrow> Schema \<Rightarrow> bool" where
  "comparableNode F base head \<longleftrightarrow> plainTypes base \<and> plainTypes head \<and> printsApart F base head \<and> sameOthers base head"

function comparable :: "fmtLib \<Rightarrow> Schema \<Rightarrow> Schema \<Rightarrow> bool" where
  "comparable F base head \<longleftrightarrow> comparableNode F base head \<and>
     list_all (\<lambda>name. case schemaProp head name of
         None \<Rightarrow> True
       | Some hp \<Rightarrow> comparable F (case schemaProp base name of None \<Rightarrow> [] | Some bp \<Rightarrow> bp) hp) (schemaPropNames base) \<and>
     (case childSchemas base head ''additionalProperties'' of None \<Rightarrow> True | Some (b, h) \<Rightarrow> comparable F b h) \<and>
     (case childSchemas base head ''items'' of None \<Rightarrow> True | Some (b, h) \<Rightarrow> comparable F b h)"
  by pat_completeness auto

termination by (relation "measure (\<lambda>(F, base, head). size (JObj head))") (auto dest: schema_sizes)

declare comparable.simps [simp del]

text \<open>A document that uses no field the new schema declares and the old one did not. The API server
  prunes such fields under the old schema; a new optional field counts as an addition.\<close>

function usesOld :: "Schema \<Rightarrow> Schema \<Rightarrow> json \<Rightarrow> bool" where
  "usesOld base head v \<longleftrightarrow>
     (case v of
        JObj fs \<Rightarrow> list_all (\<lambda>(k, x).
          case schemaProp base k of
            Some bp \<Rightarrow> (case schemaProp head k of None \<Rightarrow> True | Some hp \<Rightarrow> usesOld bp hp x)
          | None \<Rightarrow> schemaProp head k = None \<and>
              (case childSchemas base head ''additionalProperties'' of None \<Rightarrow> True | Some (b, h) \<Rightarrow> usesOld b h x)) fs
      | JArr xs \<Rightarrow> (case childSchemas base head ''items'' of None \<Rightarrow> True | Some (b, h) \<Rightarrow> list_all (usesOld b h) xs)
      | _ \<Rightarrow> True)"
  by pat_completeness auto

termination by (relation "measure (\<lambda>(base, head, v). size (JObj head))") (auto dest: schema_sizes)

declare usesOld.simps [simp del]

text \<open>The documented behaviour of the validator: alternatives that declare only types accept the values
  of one of them, and annotations accept everything.\<close>

definition validator_ok :: "validator \<Rightarrow> bool" where
  "validator_ok V \<longleftrightarrow>
     (\<forall>xs v. list_all typesOnly xs \<longrightarrow>
        vaOther V ''anyOf'' (JArr xs) v = list_ex (hasType v) (concat (map anyOfType xs))) \<and>
     (\<forall>k x v. k \<in> set annotationKeywords \<longrightarrow> vaOther V k x v)"

subsection \<open>Soundness at a node\<close>

lemma set_keysSorted [simp]: "set (keysSorted ks) = set ks"
  by (simp add: keysSorted_def)

lemma keysSorted_Nil [simp]: "keysSorted ks = [] \<longleftrightarrow> ks = []"
  using set_keysSorted [of ks] by (metis set_empty)

lemma setDiff_Nil [simp]: "setDiff a b = [] \<longleftrightarrow> set a \<subseteq> set b"
  by (auto simp: setDiff_def filter_empty_conv)

lemma schemaTypes_split:
  "schemaTypes s = declaredTypes s @ (case map_of s ''anyOf'' of Some (JArr xs) \<Rightarrow> concat (map anyOfType xs) | _ \<Rightarrow> [])"
  by (simp add: schemaTypes_def declaredTypes_def)

lemma typesOnly_type: "typesOnly x \<Longrightarrow> anyOfType x \<noteq> []"
  by (cases x rule: typesOnly.cases) (auto simp: anyOfType_def)

lemma typeOk_iff:
  assumes "validator_ok V" "plainTypes s"
  shows "typeOk V s v \<longleftrightarrow> v = JNull \<and> schemaBool s ''nullable'' \<or> schemaTypes s = [] \<or> list_ex (hasType v) (schemaTypes s)"
proof (cases "map_of s ''anyOf''")
  case None
  then show ?thesis by (simp add: typeOk_def schemaTypes_split)
next
  case (Some x)
  then obtain xs where xs: "x = JArr xs" "declaredTypes s = []" "xs \<noteq> []" "list_all typesOnly xs"
    using assms(2) by (auto simp: plainTypes_def split: json.splits)
  then have "concat (map anyOfType xs) \<noteq> []" using typesOnly_type by (cases xs) auto
  moreover have "vaOther V ''anyOf'' (JArr xs) v = list_ex (hasType v) (concat (map anyOfType xs))"
    using assms(1) xs(4) by (simp add: validator_ok_def)
  ultimately show ?thesis using Some xs by (auto simp: typeOk_def schemaTypes_split)
qed

lemma typeOk_sound:
  assumes "validator_ok V" "plainTypes base" "plainTypes head" "diffTypes path base head = []" "diffNullable path base head = []"
    and "typeOk V base v"
  shows "typeOk V head v"
proof -
  have n: "schemaBool base ''nullable'' \<Longrightarrow> schemaBool head ''nullable''" using assms(5) by (auto simp: diffNullable_def split: if_splits)
  have t: "schemaTypes head = [] \<or> schemaTypes base \<noteq> [] \<and> set (schemaTypes base) \<subseteq> set (schemaTypes head)"
    using assms(4) by (auto simp: diffTypes_def Let_def split: if_splits)
  show ?thesis using assms(6) n t unfolding typeOk_iff [OF assms(1,2)] typeOk_iff [OF assms(1,3)] by (auto simp: list_ex_iff)
qed

lemma enumOk_sound:
  assumes "printsApart F base head" "diffEnum F path base head = []" "enumOk base v"
  shows "enumOk head v"
proof (cases "\<exists>ys. map_of head ''enum'' = Some (JArr ys)")
  case True
  then obtain ys where ys: "map_of head ''enum'' = Some (JArr ys)" by blast
  then obtain xs where xs: "map_of base ''enum'' = Some (JArr xs)"
    using assms(2) by (auto simp: diffEnum_def schemaEnum_def split: option.splits json.splits)
  then have "v \<in> set xs" "fmValue F ` set xs \<subseteq> fmValue F ` set ys"
    using assms(2,3) ys by (auto simp: enumOk_def diffEnum_def schemaEnum_def Let_def split: if_splits)
  moreover from this obtain y where "y \<in> set ys" "fmValue F v = fmValue F y" by auto
  ultimately show ?thesis using assms(1) xs ys by (auto simp: printsApart_def list_all_iff enumOk_def)
next
  case False
  then show ?thesis by (auto simp: enumOk_def split: option.splits json.splits)
qed

lemma patternOk_sound: "diffPattern F path base head = [] \<Longrightarrow> patternOk V base v \<Longrightarrow> patternOk V head v"
  by (auto simp: diffPattern_def patternOk_def Let_def split: if_splits json.splits)

lemma lower_sound:
  "diffLowerBound F path base head k = [] \<Longrightarrow> (case schemaNumber base k of None \<Rightarrow> True | Some l \<Rightarrow> l \<le> n) \<Longrightarrow>
   (case schemaNumber head k of None \<Rightarrow> True | Some l \<Rightarrow> l \<le> n)"
  by (auto simp: diffLowerBound_def split: option.splits if_splits)

lemma upper_sound:
  "diffUpperBound F path base head k = [] \<Longrightarrow> (case schemaNumber base k of None \<Rightarrow> True | Some u \<Rightarrow> n \<le> u) \<Longrightarrow>
   (case schemaNumber head k of None \<Rightarrow> True | Some u \<Rightarrow> n \<le> u)"
  by (auto simp: diffUpperBound_def split: option.splits if_splits)

lemma boundsOk_sound: "diffBounds F path base head = [] \<Longrightarrow> boundsOk base v \<Longrightarrow> boundsOk head v"
  by (cases v) (auto simp: boundsOk_def inBounds_def diffBounds_def intro: lower_sound upper_sound)

lemma requiredOk_sound: "diffRequired F path base head = [] \<Longrightarrow> requiredOk base v \<Longrightarrow> requiredOk head v"
  by (cases v) (auto simp: requiredOk_def diffRequired_def filter_empty_conv)

lemma rulesOk_sound: "diffRules F path base head = [] \<Longrightarrow> rulesOk V base v \<Longrightarrow> rulesOk V head v"
  by (auto simp: rulesOk_def diffRules_def list_all_iff)

lemma othersOk_sound:
  assumes "validator_ok V" "sameOthers base head" "diffComposition path base head = []" "othersOk V base v"
  shows "othersOk V head v"
  unfolding othersOk_def list_all_iff
proof (intro ballI)
  fix k assume k: "k \<in> set (map fst head)"
  then obtain x where x: "map_of head k = Some x" by (metis dom_map_of_conv_image_fst domD list.set_map)
  show "k \<in> set walkedKeywords \<or> (case map_of head k of None \<Rightarrow> True | Some x \<Rightarrow> vaOther V k x v)"
  proof (cases "k \<in> set walkedKeywords \<or> k \<in> set annotationKeywords")
    case True
    then show ?thesis using assms(1) by (auto simp: validator_ok_def split: option.split)
  next
    case False
    have "map_of base k \<noteq> None \<or> k \<notin> {''oneOf'', ''allOf'', ''not''}"
      using assms(3) x by (auto simp: diffComposition_def split: if_splits)
    then have eq: "map_of base k = Some x" using assms(2) k x False by (auto simp: sameOthers_def list_all_iff)
    then have "k \<in> set (map fst base)" by (metis domI dom_map_of_conv_image_fst list.set_map)
    then have "vaOther V k x v" using assms(4) eq False by (auto simp: othersOk_def list_all_iff)
    then show ?thesis using x by simp
  qed
qed

lemma constraintsOk_sound:
  assumes "validator_ok V" "comparableNode F base head" "diffConstraints F path base head = []" "constraintsOk V base v"
  shows "constraintsOk V head v"
proof -
  have d: "diffTypes path base head = []" "diffEnum F path base head = []" "diffPattern F path base head = []"
    "diffBounds F path base head = []" "diffRequired F path base head = []" "diffRules F path base head = []"
    "diffNullable path base head = []" "diffComposition path base head = []"
    using assms(3) by (simp_all add: diffConstraints_def)
  have c: "plainTypes base" "plainTypes head" "printsApart F base head" "sameOthers base head"
    using assms(2) by (simp_all add: comparableNode_def)
  show ?thesis
    using assms(4) typeOk_sound [OF assms(1) c(1,2) d(1,7)] enumOk_sound [OF c(3) d(2)] patternOk_sound [OF d(3)]
      boundsOk_sound [OF d(4)] requiredOk_sound [OF d(5)] rulesOk_sound [OF d(6)] othersOk_sound [OF assms(1) c(4) d(8)]
    unfolding constraintsOk_def by blast
qed

subsection \<open>Soundness of the walk\<close>

lemma schemaPropNames_iff: "k \<in> set (schemaPropNames s) \<longleftrightarrow> schemaProp s k \<noteq> None"
proof -
  have "schemaProp s k \<noteq> None \<Longrightarrow> k \<in> fst ` set (propsOf s)"
    by (auto simp: schemaProp_def objOf_def dest: map_of_SomeD split: option.splits) (metis fst_conv image_eqI map_of_SomeD)
  then show ?thesis by (auto simp: schemaPropNames_def)
qed

lemma diffNode_Nil:
  assumes "diffNode F path base head = []"
  shows "diffConstraints F path base head = []"
    and "schemaProp base k = Some bp \<Longrightarrow> \<exists>hp. schemaProp head k = Some hp \<and> diffNode F (path @ ''.'' @ k) bp hp = []"
    and "map_of base ''additionalProperties'' \<noteq> Some (JBool False) \<Longrightarrow>
      map_of head ''additionalProperties'' \<noteq> Some (JBool False) \<and>
      (\<forall>b h. childSchemas base head ''additionalProperties'' = Some (b, h) \<longrightarrow> diffNode F (path @ ''{}'') b h = [])"
    and "childSchemas base head ''items'' = Some (b, h) \<Longrightarrow> diffNode F (path @ ''[]'') b h = []"
proof -
  note d = assms [unfolded diffNode.simps [of F path base head], unfolded append_is_Nil_conv concat_eq_Nil_conv]
  show "diffConstraints F path base head = []" using d by simp
  show "\<exists>hp. schemaProp head k = Some hp \<and> diffNode F (path @ ''.'' @ k) bp hp = []" if "schemaProp base k = Some bp"
  proof -
    have "k \<in> set (keysSorted (schemaPropNames base))" using that by (simp add: schemaPropNames_iff)
    then have "(case schemaProp head k of None \<Rightarrow> [path @ '': field '' @ fmQuote F k @ '' was removed'']
        | Some hp \<Rightarrow> diffNode F (path @ ''.'' @ k) (case schemaProp base k of None \<Rightarrow> [] | Some bp \<Rightarrow> bp) hp) = []"
      by (intro bspec [OF d [THEN conjunct2, THEN conjunct1, unfolded set_map]] image_eqI [OF refl])
    then show ?thesis using that by (cases "schemaProp head k") auto
  qed
  show "map_of head ''additionalProperties'' \<noteq> Some (JBool False) \<and>
      (\<forall>b h. childSchemas base head ''additionalProperties'' = Some (b, h) \<longrightarrow> diffNode F (path @ ''{}'') b h = [])"
    if "map_of base ''additionalProperties'' \<noteq> Some (JBool False)"
    using d that by (auto split: if_splits)
  show "diffNode F (path @ ''[]'') b h = []" if "childSchemas base head ''items'' = Some (b, h)" using d that by auto
qed

lemma accepts_Nil [simp]: "accepts V [] v"
proof -
  have "constraintsOk V [] v"
    by (simp add: constraintsOk_def typeOk_def declaredTypes_def enumOk_def patternOk_def schemaString_def boundsOk_def inBounds_def
        schemaNumber_def requiredOk_def schemaRequired_def rulesOk_def schemaValidationRules_def othersOk_def split: json.split)
  then show ?thesis by (simp add: accepts.simps [of V "[]" v] schemaProp_def propsOf_def objOf_def list_all_iff split: json.split)
qed

lemma childSchemas_cases:
  assumes "objOf (map_of head key) = Some h"
  obtains b where "childSchemas base head key = Some (b, h)" "objOf (map_of base key) = None \<and> b = [] \<or> objOf (map_of base key) = Some b"
  using assms by (cases "objOf (map_of base key)") (auto simp: childSchemas_def)

lemma diffNode_sound:
  assumes V: "validator_ok V"
  shows "diffNode F path base head = [] \<Longrightarrow> comparable F base head \<Longrightarrow> usesOld base head v \<Longrightarrow> accepts V base v \<Longrightarrow> accepts V head v"
proof (induction F path base head arbitrary: v rule: diffNode.induct)
  case (1 F path base head)
  note d = diffNode_Nil [OF "1.prems"(1)] and cmp = "1.prems"(2) [unfolded comparable.simps [of F base head]]
  have con: "constraintsOk V head v"
    using constraintsOk_sound [OF V _ d(1)] cmp "1.prems"(4) by (simp add: accepts.simps [of V base v])
  have field: "case schemaProp head k of
      Some t \<Rightarrow> accepts V t x
    | None \<Rightarrow> map_of head ''additionalProperties'' \<noteq> Some (JBool False) \<and>
        (case objOf (map_of head ''additionalProperties'') of None \<Rightarrow> True | Some t \<Rightarrow> accepts V t x)"
    if "v = JObj fs" "(k, x) \<in> set fs" for fs k x
  proof -
    have old: "case schemaProp base k of
        Some bp \<Rightarrow> (case schemaProp head k of None \<Rightarrow> True | Some hp \<Rightarrow> usesOld bp hp x)
      | None \<Rightarrow> schemaProp head k = None \<and>
          (case childSchemas base head ''additionalProperties'' of None \<Rightarrow> True | Some (b, h) \<Rightarrow> usesOld b h x)"
      using "1.prems"(3) that by (auto simp: usesOld.simps [of base head "JObj fs"] list_all_iff)
    have acc: "case schemaProp base k of Some t \<Rightarrow> accepts V t x
      | None \<Rightarrow> map_of base ''additionalProperties'' \<noteq> Some (JBool False) \<and>
          (case objOf (map_of base ''additionalProperties'') of None \<Rightarrow> True | Some t \<Rightarrow> accepts V t x)"
      using "1.prems"(4) that by (auto simp: accepts.simps [of V base "JObj fs"] list_all_iff)
    show ?thesis
    proof (cases "schemaProp base k")
      case (Some bp)
      then obtain hp where hp: "schemaProp head k = Some hp" "diffNode F (path @ ''.'' @ k) bp hp = []" using d(2) by blast
      have "k \<in> set (schemaPropNames base)" using Some by (simp add: schemaPropNames_iff)
      moreover from this have "comparable F bp hp" using cmp Some hp(1) by (auto simp: list_all_iff)
      ultimately show ?thesis using "1.IH"(1) [of k hp x] Some hp old acc by simp
    next
      case None
      then have o: "schemaProp head k = None" "map_of base ''additionalProperties'' \<noteq> Some (JBool False)" using old acc by auto
      note ap = d(3) [OF o(2)]
      have "accepts V t x" if t: "objOf (map_of head ''additionalProperties'') = Some t" for t
      proof -
        from t obtain b where b: "childSchemas base head ''additionalProperties'' = Some (b, t)" "accepts V b x"
          by (rule childSchemas_cases [where base = base]) (use None acc in auto)
        then show ?thesis using "1.IH"(2) [OF o(2) _ b(1) refl, of x] ap None old cmp by simp
      qed
      then show ?thesis using o ap by (auto split: option.split)
    qed
  qed
  have elem: "accepts V t x" if xs: "v = JArr xs" "x \<in> set xs" and t: "objOf (map_of head ''items'') = Some t" for xs x t
  proof -
    from t obtain b where b: "childSchemas base head ''items'' = Some (b, t)" "accepts V b x"
      by (rule childSchemas_cases [where base = base]) (use xs "1.prems"(4) in \<open>auto simp: accepts.simps [of V base "JArr xs"] list_all_iff\<close>)
    moreover have "usesOld b t x" using "1.prems"(3) xs b(1) by (simp add: usesOld.simps [of base head "JArr xs"] list_all_iff)
    ultimately show ?thesis using "1.IH"(3) [OF b(1) refl, of x] d(4) [OF b(1)] cmp by simp
  qed
  show ?case
  proof (cases v)
    case (JObj fs)
    then show ?thesis using con field [OF JObj] unfolding accepts.simps [of V head v] by (simp add: list_all_iff case_prod_beta)
  next
    case (JArr xs)
    then show ?thesis using con elem [OF JArr] unfolding accepts.simps [of V head v] by (simp add: list_all_iff split: option.split)
  qed (use con in \<open>simp_all add: accepts.simps [of V head]\<close>)
qed

text \<open>No difference is reported between a schema and itself.\<close>

lemma diffConstraints_refl: "diffConstraints F path s s = []"
proof -
  have "diffTypes path s s = []" "diffPattern F path s s = []" by (simp_all add: diffTypes_def diffPattern_def Let_def)
  moreover have "diffEnum F path s s = []" by (simp add: diffEnum_def Let_def split: option.split)
  moreover have "diffLowerBound F path s s k = []" "diffUpperBound F path s s k = []" for k
    by (simp_all add: diffLowerBound_def diffUpperBound_def split: option.split)
  moreover have "diffRequired F path s s = []" "diffRules F path s s = []" "diffNullable path s s = []"
    by (simp_all add: diffRequired_def filter_empty_conv diffRules_def diffNullable_def)
  moreover have "diffComposition path s s = []" by (auto simp: diffComposition_def)
  ultimately show ?thesis by (simp add: diffConstraints_def diffBounds_def)
qed

lemma childSchemas_same: "childSchemas s s key = Some (b, h) \<Longrightarrow> b = h"
  by (auto simp: childSchemas_def split: option.splits)

lemma diffNode_refl: "base = head \<Longrightarrow> diffNode F path base head = []"
proof (induction F path base head rule: diffNode.induct)
  case (1 F path base head)
  have "diffNode F (path @ ''.'' @ name) (case schemaProp base name of None \<Rightarrow> [] | Some bp \<Rightarrow> bp) hp = []"
    if "name \<in> set (keysSorted (schemaPropNames base))" "schemaProp head name = Some hp" for name hp
    using "1.IH"(1) [OF that] that "1.prems" by simp
  then have props: "(case schemaProp head name of None \<Rightarrow> [path @ '': field '' @ fmQuote F name @ '' was removed'']
      | Some hp \<Rightarrow> diffNode F (path @ ''.'' @ name) (case schemaProp base name of None \<Rightarrow> [] | Some bp \<Rightarrow> bp) hp) = []"
    if "name \<in> set (keysSorted (schemaPropNames base))" for name
    using that "1.prems" by (auto simp: schemaPropNames_iff split: option.split)
  have items: "(case childSchemas base head ''items'' of None \<Rightarrow> [] | Some (b, h) \<Rightarrow> diffNode F (path @ ''[]'') b h) = []"
  proof (cases "childSchemas base head ''items''")
    case (Some bh)
    then obtain h where h: "childSchemas base head ''items'' = Some (h, h)" using "1.prems" childSchemas_same by (cases bh) metis
    show ?thesis using "1.IH"(3) [OF h refl] by (simp add: h)
  qed simp
  have "(case childSchemas base head ''additionalProperties'' of None \<Rightarrow> [] | Some (b, h) \<Rightarrow> diffNode F (path @ ''{}'') b h) = []"
    if ap: "map_of head ''additionalProperties'' \<noteq> Some (JBool False)"
  proof (cases "childSchemas base head ''additionalProperties''")
    case (Some bh)
    then obtain h where h: "childSchemas base head ''additionalProperties'' = Some (h, h)"
      using "1.prems" childSchemas_same by (cases bh) metis
    have "map_of base ''additionalProperties'' \<noteq> Some (JBool False)" using ap "1.prems" by simp
    from "1.IH"(2) [OF this ap h refl refl] show ?thesis by (simp add: h)
  qed simp
  then show ?case using props items "1.prems" unfolding diffNode.simps [of F path base head] by (simp add: diffConstraints_refl)
qed

subsection \<open>Properties\<close>

text \<open>C28: When the comparison of two schemas reports nothing, every document that the old schema accepts
  is accepted by the new one, provided the document uses none of the newly declared fields and the
  schemas stay within what the walk compares: alternatives list types only, enumeration values that
  print alike are equal, and composition keywords and keywords unknown to the walk are unchanged or
  dropped.\<close>

theorem diffSchema_sound:
  assumes "validator_ok V" "diffSchema F path base (Some head) = []"
    and "comparable F (schemaOr base) head" "usesOld (schemaOr base) head v" "accepts V (schemaOr base) v"
  shows "accepts V head v"
proof -
  have "diffNode F path (schemaOr base) head = []"
    using assms(2) by (simp add: diffSchema_def) (metis length_0_conv length_sort)
  then show ?thesis using diffNode_sound [OF assms(1)] assms(3-5) by blast
qed

lemma diffSchema_refl: "diffSchema F path s s = []"
  by (simp add: diffSchema_def schemaOr_def diffNode_refl split: option.split)

text \<open>A validator without rules, and a rendering of values that prints strings as they are.\<close>

definition demoFmt :: fmtLib where
  "demoFmt = \<lparr>fmQuote = (\<lambda>s. s), fmValue = (\<lambda>v. case v of JStr s \<Rightarrow> s | JNum n \<Rightarrow> itoa \<lfloor>n\<rfloor> | _ \<Rightarrow> []), fmFloat = (\<lambda>n. [])\<rparr>"

fun denied :: "json \<Rightarrow> json list" where
  "denied (JObj [(k, JArr xs)]) = (if k = ''enum'' then xs else [])"
| "denied _ = []"

definition demoValidator :: validator where
  "demoValidator = \<lparr>vaMatch = (\<lambda>p x. prefix p x), vaRule = (\<lambda>r v. True),
     vaOther = (\<lambda>k x v.
       if k = ''anyOf'' then (case x of JArr xs \<Rightarrow> list_ex (hasType v) (concat (map anyOfType xs)) | _ \<Rightarrow> True)
       else if k = ''not'' then v \<notin> set (denied x)
       else if k = ''exclusiveMinimum'' then (case (x, v) of (JNum l, JNum n) \<Rightarrow> l < n | _ \<Rightarrow> True)
       else True)\<rparr>"

lemma demoValidator_ok: "validator_ok demoValidator"
  by (simp add: validator_ok_def demoValidator_def annotationKeywords_def)

definition demoBaseSchema :: Schema where
  "demoBaseSchema = [(''type'', JStr ''object''), (''required'', JArr [JStr ''replicas'']),
     (''properties'', JObj [(''replicas'', JObj [(''type'', JStr ''integer''), (''minimum'', JNum 1)]),
       (''size'', JObj [(''anyOf'', JArr [JObj [(''type'', JStr ''integer'')], JObj [(''type'', JStr ''string'')]])])])]"

definition demoHeadSchema :: Schema where
  "demoHeadSchema = [(''type'', JStr ''object''), (''description'', JStr ''new''),
     (''properties'', JObj [(''replicas'', JObj [(''type'', JStr ''integer''), (''minimum'', JNum 0)]),
       (''size'', JObj [(''anyOf'', JArr [JObj [(''type'', JStr ''string'')], JObj [(''type'', JStr ''integer'')]])]),
       (''pool'', JObj [(''type'', JStr ''string'')])])]"

definition demoDoc :: json where
  "demoDoc = JObj [(''replicas'', JNum 2), (''size'', JStr ''1Gi'')]"

theorem diffSchema_sound_witness: "accepts demoValidator demoHeadSchema demoDoc"
proof -
  have "diffSchema demoFmt ''spec'' (Some demoBaseSchema) (Some demoHeadSchema) = []" by code_simp
  moreover have "comparable demoFmt demoBaseSchema demoHeadSchema" by code_simp
  moreover have "usesOld demoBaseSchema demoHeadSchema demoDoc" "accepts demoValidator demoBaseSchema demoDoc" by code_simp+
  ultimately show ?thesis
    using diffSchema_sound [OF demoValidator_ok, of demoFmt "''spec''" "Some demoBaseSchema" demoHeadSchema demoDoc]
    by (simp add: schemaOr_def)
qed

text \<open>What the walk does not see: an enumeration value replaced by one of another type that prints alike,
  a map turned into an object with fields, a changed composition keyword, and a keyword it does not
  know. Each of these changes rejects a document that was accepted, and nothing is reported.\<close>

definition blindSpots :: "(Schema \<times> Schema \<times> json) list" where
  "blindSpots = [
     ([(''enum'', JArr [JStr ''1''])], [(''enum'', JArr [JNum 1])], JStr ''1''),
     ([(''additionalProperties'', JObj [(''type'', JStr ''string'')])],
      [(''properties'', JObj [(''a'', JObj [(''type'', JStr ''integer'')])])], JObj [(''a'', JStr ''x'')]),
     ([(''not'', JObj [(''enum'', JArr [JStr ''a''])])], [(''not'', JObj [(''enum'', JArr [JStr ''a'', JStr ''b''])])], JStr ''b''),
     ([(''type'', JStr ''integer'')], [(''type'', JStr ''integer''), (''exclusiveMinimum'', JNum 0)], JNum 0)]"

theorem diffSchema_blind:
  "list_all (\<lambda>(base, head, v). diffSchema demoFmt ''spec'' (Some base) (Some head) = [] \<and>
     accepts demoValidator base v \<and> \<not> accepts demoValidator head v) blindSpots"
  by code_simp

end
