(* ===== verification/App_Values.thy ===== *)
theory App_Values
  imports Api_Schema
begin

text \<open>
  The values of an application in the aggregated API server: reserved keys
  (pkg/registry/apps/application/rest.go), the removal of nulls on the way in (rest_nullstrip.go) and
  the defaults on the way out (rest_defaulting.go). A raw value is the JSON tree it spells, \<open>None\<close> for
  an absent or empty one. Decoding into Go maps puts the keys of an object in order, the last of
  equal keys winning, and turns numbers into what \<open>num\<close> makes of them: \<open>Some\<close> for a decoder that
  keeps them, rounding to a float64 otherwise, where a number out of range is an error. The
  structural schema comes from the Kubernetes library; a JSON null as default is no default.
\<close>

subsection \<open>Decoding\<close>

fun putKey :: "string \<Rightarrow> 'a \<Rightarrow> (string \<times> 'a) list \<Rightarrow> (string \<times> 'a) list" where
  "putKey k v [] = [(k, v)]"
| "putKey k v ((k', v') # m) =
     (if k < k' then (k, v) # (k', v') # m else if k = k' then (k, v) # m else (k', v') # putKey k v m)"

fun decodeAny :: "(rat \<Rightarrow> rat option) \<Rightarrow> json \<Rightarrow> json option" where
  "decodeAny num (JNum n) = map_option JNum (num n)"
| "decodeAny num (JArr xs) = map_option JArr (those (map (decodeAny num) xs))"
| "decodeAny num (JObj fs) =
     map_option (\<lambda>vs. JObj (fold (\<lambda>(k, v). putKey k v) (zip (map fst fs) vs) [])) (those (map (\<lambda>p. decodeAny num (snd p)) fs))"
| "decodeAny num v = Some v"

text \<open>Decoding into a \<open>map[string]any\<close>; a null leaves the map nil.\<close>

definition decodeMap :: "(rat \<Rightarrow> rat option) \<Rightarrow> json \<Rightarrow> string + (string \<times> json) list option" where
  "decodeMap num raw =
     (case raw of
        JNull \<Rightarrow> Inr None
      | JObj fs \<Rightarrow> (case decodeAny num raw of Some (JObj m) \<Rightarrow> Inr (Some m) | _ \<Rightarrow> Inl ''number out of range'')
      | _ \<Rightarrow> Inl ''cannot unmarshal into map'')"

definition encodeMap :: "(string \<times> json) list option \<Rightarrow> json" where
  "encodeMap m = (case m of None \<Rightarrow> JNull | Some fs \<Rightarrow> JObj fs)"

definition isInternal :: "string \<Rightarrow> bool" where
  "isInternal key = prefix ''_'' key"

definition filterInternalKeys :: "(rat \<Rightarrow> rat option) \<Rightarrow> json option \<Rightarrow> json option" where
  "filterInternalKeys num values =
     (case values of
        None \<Rightarrow> None
      | Some raw \<Rightarrow>
          (case decodeMap num raw of
             Inl e \<Rightarrow> Some raw
           | Inr data \<Rightarrow> Some (encodeMap (map_option (filter (\<lambda>(key, v). \<not> isInternal key)) data))))"

definition validateNoInternalKeys :: "(rat \<Rightarrow> rat option) \<Rightarrow> json option \<Rightarrow> string option" where
  "validateNoInternalKeys num values =
     (case values of
        None \<Rightarrow> None
      | Some raw \<Rightarrow>
          (case decodeMap num raw of
             Inl e \<Rightarrow> Some e
           | Inr None \<Rightarrow> None
           | Inr (Some data) \<Rightarrow>
               (case filter isInternal (map fst data) of [] \<Rightarrow> None | key # ks \<Rightarrow> Some (key @ '' is reserved''))))"

subsection \<open>Structural schemas\<close>

datatype Structural = Structural
  (stType: string)
  (stProperties: "(string \<times> Structural) list")
  (stAdditional: "Structural option")
  (stItems: "Structural option")
  (stDefault: json)
  (stNullable: bool)
  (stRequired: "string list")

lemma Structural_sizes:
  "(name, ps) \<in> set (stProperties s) \<Longrightarrow> size ps < size s"
  "stAdditional s = Some t \<Longrightarrow> size t < size s"
  "stItems s = Some t \<Longrightarrow> size t < size s"
proof -
  assume "(name, ps) \<in> set (stProperties s)"
  moreover have "(name, ps) \<in> set xs \<Longrightarrow> size ps < size_list (size_prod (\<lambda>_. 0) size) xs" for xs
    by (induction xs) auto
  ultimately show "size ps < size s" by (cases s) force
qed (cases s, force)+

fun clone :: "json \<Rightarrow> json" where
  "clone (JObj fs) = JObj (map (\<lambda>p. (fst p, clone (snd p))) fs)"
| "clone (JArr xs) = JArr (map clone xs)"
| "clone v = v"

definition effType :: "Structural \<Rightarrow> string" where
  "effType s =
     (if stType s \<noteq> [] then stType s
      else if stProperties s \<noteq> [] \<or> stAdditional s \<noteq> None then ''object''
      else if stItems s \<noteq> None then ''array''
      else [])"

text \<open>The members an object starts with, and the elements of an array.\<close>

definition objectOf :: "json \<Rightarrow> Structural \<Rightarrow> bool \<Rightarrow> (string \<times> json) list" where
  "objectOf v s atTop =
     (case v of
        JObj m \<Rightarrow> m
      | _ \<Rightarrow> (if stDefault s \<noteq> JNull \<and> \<not> atTop then (case clone (stDefault s) of JObj dm \<Rightarrow> dm | _ \<Rightarrow> []) else []))"

definition arrayOf :: "json \<Rightarrow> Structural \<Rightarrow> json list" where
  "arrayOf v s =
     (case v of
        JArr xs \<Rightarrow> xs
      | _ \<Rightarrow> (if stDefault s \<noteq> JNull then (case clone (stDefault s) of JArr ds \<Rightarrow> ds | _ \<Rightarrow> []) else []))"

definition presentOr :: "(string \<times> json) list \<Rightarrow> string \<Rightarrow> Structural \<Rightarrow> json option" where
  "presentOr mv name ps =
     (case map_of mv name of
        Some cur \<Rightarrow> Some cur
      | None \<Rightarrow> (if stDefault ps \<noteq> JNull then Some (clone (stDefault ps)) else None))"

function applyDefaults :: "json \<Rightarrow> Structural \<Rightarrow> bool \<Rightarrow> json" where
  "applyDefaults v s atTop =
     (if effType s = ''object'' then
        let mv = fold (\<lambda>(name, ps) mv.
              case presentOr mv name ps of
                None \<Rightarrow> mv
              | Some cur \<Rightarrow> putKey name (applyDefaults cur ps False) mv) (stProperties s) (objectOf v s atTop)
        in JObj (case stAdditional s of
             None \<Rightarrow> mv
           | Some ap \<Rightarrow> map (\<lambda>(k, cur). (k, if map_of (stProperties s) k \<noteq> None then cur else applyDefaults cur ap False)) mv)
      else if effType s = ''array'' then
        let sl = arrayOf v s in
        JArr (case stItems s of None \<Rightarrow> sl | Some it \<Rightarrow> map (\<lambda>x. applyDefaults x it False) sl)
      else if v = JNull \<and> stDefault s \<noteq> JNull then clone (stDefault s)
      else v)"
  by pat_completeness auto
termination by (relation "measure (\<lambda>(v, s, atTop). size s)") (auto dest: Structural_sizes)

declare applyDefaults.simps [simp del]

definition defaultLikeKubernetes :: "(string \<times> json) list \<Rightarrow> Structural \<Rightarrow> string + (string \<times> json) list" where
  "defaultLikeKubernetes m s =
     (case applyDefaults (JObj m) s True of
        JObj m' \<Rightarrow> Inr m'
      | JNull \<Rightarrow> Inr []
      | _ \<Rightarrow> Inl ''applyDefaults returned non-map'')"

definition applySpecDefaults :: "(rat \<Rightarrow> rat option) \<Rightarrow> Structural option \<Rightarrow> json option \<Rightarrow> string + json option" where
  "applySpecDefaults num specSchema spec =
     (case specSchema of
        None \<Rightarrow> Inr spec
      | Some s \<Rightarrow>
          try_bind (case spec of None \<Rightarrow> Inr None | Some raw \<Rightarrow> decodeMap num raw) (\<lambda>data.
          try_bind (defaultLikeKubernetes (case data of None \<Rightarrow> [] | Some m \<Rightarrow> m) s) (\<lambda>m.
          Inr (Some (JObj m)))))"

subsection \<open>Removing nulls\<close>

definition joinFieldPath :: "string \<Rightarrow> string \<Rightarrow> string" where
  "joinFieldPath path name = (if path = [] then name else path @ ''.'' @ name)"

definition repairable :: "Structural \<Rightarrow> string \<Rightarrow> Structural \<Rightarrow> bool" where
  "repairable s name prop \<longleftrightarrow> name \<in> set (stRequired s) \<and> stDefault prop \<noteq> JNull \<and> \<not> stNullable prop"

text \<open>The members of an object that stay and the paths that are reported, by sorted key.\<close>

function stripDeclaredNulls :: "json \<Rightarrow> Structural \<Rightarrow> string \<Rightarrow> json \<times> string list" where
  "stripDeclaredNulls v s path =
     (case v of
        JObj m \<Rightarrow>
          let rs = map (\<lambda>(name, child).
            case map_of (stProperties s) name of
              None \<Rightarrow> ([(name, child)], [])
            | Some prop \<Rightarrow>
                if child = JNull then
                  (if repairable s name prop then ([], [joinFieldPath path name]) else ([(name, child)], []))
                else
                  let r = stripDeclaredNulls child prop (joinFieldPath path name) in ([(name, fst r)], snd r)) m
          in (JObj (concat (map fst rs)), concat (map snd rs))
      | _ \<Rightarrow> (v, []))"
  by pat_completeness auto
termination by (relation "measure (\<lambda>(v, s, path). size s)") (auto dest: map_of_SomeD Structural_sizes)

declare stripDeclaredNulls.simps [simp del]

text \<open>The new values, if they change, and the removed paths.\<close>

definition normalizeSpecNulls :: "Structural option \<Rightarrow> json option \<Rightarrow> string + json option \<times> string list" where
  "normalizeSpecNulls specSchema spec =
     (case (specSchema, spec) of
        (Some s, Some raw) \<Rightarrow>
          (case decodeMap Some raw of
             Inl e \<Rightarrow> Inl e
           | Inr None \<Rightarrow> Inr (spec, [])
           | Inr (Some m) \<Rightarrow>
               (case stripDeclaredNulls (JObj m) s [] of
                  (m', stripped) \<Rightarrow> if stripped = [] then Inr (spec, []) else Inr (Some m', sort stripped)))
      | _ \<Rightarrow> Inr (spec, []))"

definition maxWarnedNullPaths :: nat where "maxWarnedNullPaths = 8"

definition emptyFieldsWarning :: "string list \<Rightarrow> string" where
  "emptyFieldsWarning paths =
     ''spec: '' @ joinStr '', '' (take maxWarnedNullPaths paths) @ '' left empty'' @
     (if maxWarnedNullPaths < length paths then '' (and '' @ itoa (int (length paths) - int maxWarnedNullPaths) @ '' more)'' else []) @
     ''; treated as unset, the chart default applies''"

subsection \<open>Canonical values\<close>

fun canon :: "(rat \<Rightarrow> rat option) \<Rightarrow> json \<Rightarrow> bool" where
  "canon num (JNum n) \<longleftrightarrow> num n = Some n"
| "canon num (JArr xs) \<longleftrightarrow> (\<forall>x \<in> set xs. canon num x)"
| "canon num (JObj fs) \<longleftrightarrow> sorted_wrt (<) (map fst fs) \<and> (\<forall>p \<in> set fs. canon num (snd p))"
| "canon num v \<longleftrightarrow> True"

definition idemNum :: "(rat \<Rightarrow> rat option) \<Rightarrow> bool" where
  "idemNum num \<longleftrightarrow> (\<forall>q r. num q = Some r \<longrightarrow> num r = Some r)"

lemma clone_id [simp]: "clone v = v"
proof (induction v)
  case (JObj fs)
  then show ?case by (auto intro!: map_idI)
qed (auto intro!: map_idI)

lemma map_of_putKey [simp]: "map_of (putKey k v m) = (map_of m)(k \<mapsto> v)"
  by (induction k v m rule: putKey.induct) (auto simp: fun_upd_twist)

lemma keys_putKey [simp]: "fst ` set (putKey k v m) = insert k (fst ` set m)"
  by (induction k v m rule: putKey.induct) auto

lemma set_putKey: "set (putKey k v m) \<subseteq> insert (k, v) (set m)"
  by (induction k v m rule: putKey.induct) auto

lemma sorted_putKey: "sorted_wrt (<) (map fst m) \<Longrightarrow> sorted_wrt (<) (map fst (putKey k v m))"
proof (induction k v m rule: putKey.induct)
  case (2 k v k' v' m)
  have *: "x \<in> set (map fst m) \<Longrightarrow> k' < x" for x using 2(2) by auto
  show ?case
  proof (cases "k < k'")
    case True
    then show ?thesis using 2(2) * by (auto intro: less_trans)
  next
    case False
    note ge = this
    show ?thesis
    proof (cases "k = k'")
      case True
      then show ?thesis using 2(2) by simp
    next
      case False
      then have "k' < k" "sorted_wrt (<) (map fst (putKey k v m))" using ge 2 by (auto simp: not_less le_less)
      moreover have "k' < x" if "x \<in> fst ` set (putKey k v m)" for x using that * \<open>k' < k\<close> by auto
      ultimately show ?thesis using ge False by auto
    qed
  qed
qed simp

lemma strict_sorted_imp: "sorted_wrt (<) ks \<Longrightarrow> sorted ks \<and> distinct ks" for ks :: "string list"
  by (simp add: strict_sorted_iff)

lemma sorted_assoc_eq:
  fixes xs ys :: "(string \<times> 'a) list"
  assumes "sorted_wrt (<) (map fst xs)" "sorted_wrt (<) (map fst ys)" "map_of xs = map_of ys"
  shows "xs = ys"
proof -
  have d: "distinct (map fst xs)" "distinct (map fst ys)" using assms(1,2) by (blast dest: strict_sorted_imp)+
  have "(k, v) \<in> set xs \<longleftrightarrow> (k, v) \<in> set ys" for k v
    using map_of_eq_Some_iff [OF d(1), of k v] map_of_eq_Some_iff [OF d(2), of k v] assms(3) by simp
  then have eq: "set xs = set ys" by auto
  then have "inj_on fst (set xs \<union> set ys)" using d(1) by (simp add: distinct_map)
  then show ?thesis
    using assms(1,2) d eq by (blast intro: map_sorted_distinct_set_unique dest: strict_sorted_imp)
qed

lemma map_of_fold_put: "map_of (fold (\<lambda>(k, v). putKey k v) ps m) = map_of m ++ map_of (rev ps)"
  by (induction ps arbitrary: m) (auto simp: map_add_def fun_eq_iff split: option.splits)

lemma distinct_map_of_rev: "distinct (map fst xs) \<Longrightarrow> map_of (rev xs) = map_of xs"
  by (induction xs) (force simp: map_add_def fun_eq_iff split: option.splits dest: map_of_SomeD)+

lemma those_Some: "those xs = Some ys \<longleftrightarrow> xs = map Some ys"
  by (induction xs arbitrary: ys) (auto split: option.splits simp: Cons_eq_map_conv)

lemma map_Some_mem: "map f xs = map Some ys \<Longrightarrow> y \<in> set ys \<Longrightarrow> \<exists>x \<in> set xs. f x = Some y"
proof -
  assume "map f xs = map Some ys" "y \<in> set ys"
  then have "Some y \<in> f ` set xs" by (metis image_eqI set_map)
  then show ?thesis by auto
qed

lemma fold_put_canon:
  assumes "\<forall>p \<in> set ps. canon num (snd p)"
  shows "canon num (JObj m) \<Longrightarrow> canon num (JObj (fold (\<lambda>(k, v). putKey k v) ps m))"
  using assms
proof (induction ps arbitrary: m)
  case (Cons p ps)
  have "canon num (JObj (putKey (fst p) (snd p) m))"
    using Cons.prems sorted_putKey [of m "fst p" "snd p"] set_putKey [of "fst p" "snd p" m] by fastforce
  then show ?case using Cons by (cases p) simp
qed simp

lemma decodeAny_canon:
  assumes "idemNum num"
  shows "decodeAny num v = Some w \<Longrightarrow> canon num w"
  using assms
proof (induction num v arbitrary: w rule: decodeAny.induct)
  case (1 num n)
  then show ?case by (auto simp: idemNum_def)
next
  case (2 num xs)
  then obtain ys where "w = JArr ys" "map (decodeAny num) xs = map Some ys" by (auto simp: those_Some)
  then show ?case using 2 by (auto dest: map_Some_mem)
next
  case (3 num fs)
  then obtain vs where vs: "map (\<lambda>p. decodeAny num (snd p)) fs = map Some vs"
      "w = JObj (fold (\<lambda>(k, v). putKey k v) (zip (map fst fs) vs) [])"
    by (auto simp: those_Some)
  have "canon num x" if "x \<in> set vs" for x
    using map_Some_mem [OF vs(1) that] 3 by auto
  then have "\<forall>p \<in> set (zip (map fst fs) vs). canon num (snd p)" by (auto dest: set_zip_rightD)
  then show ?case using vs(2) fold_put_canon [of _ num "[]"] by simp
qed auto

lemma fold_put_sorted:
  assumes "sorted_wrt (<) (map fst (ms @ ps))"
  shows "fold (\<lambda>(k, v). putKey k v) ps ms = ms @ ps"
proof -
  have "sorted_wrt (<) (map fst (fold (\<lambda>(k, v). putKey k v) ps m))" if "sorted_wrt (<) (map fst m)" for m
    using that by (induction ps arbitrary: m) (auto intro: sorted_putKey)
  moreover have d: "distinct (map fst (ms @ ps))" using assms by (blast dest: strict_sorted_imp)
  moreover have "map_of (rev ps) = map_of ps" using d by (simp add: distinct_map_of_rev)
  then have "map_of ms ++ map_of (rev ps) = map_of (ms @ ps)" using d map_add_comm [of "map_of ms" "map_of ps"] by (simp add: dom_map_of_conv_image_fst)
  ultimately show ?thesis using assms by (intro sorted_assoc_eq) (auto simp: map_of_fold_put sorted_wrt_append)
qed

lemma canon_decodeAny: "canon num v \<Longrightarrow> decodeAny num v = Some v"
proof (induction num v rule: canon.induct)
  case (2 num xs)
  then show ?case by (simp add: those_Some cong: map_cong)
next
  case (3 num fs)
  then have "map (\<lambda>p. decodeAny num (snd p)) fs = map Some (map snd fs)" by (simp cong: map_cong)
  then have "those (map (\<lambda>p. decodeAny num (snd p)) fs) = Some (map snd fs)" by (simp only: those_Some)
  then show ?case using fold_put_sorted [of "[]" fs] 3 by (simp add: zip_map_fst_snd)
qed auto

subsection \<open>Members of a defaulted object\<close>

text \<open>A schema as the library builds it: a map of properties, which only objects have, and defaults that
  decode to themselves.\<close>

function wfSchema :: "(rat \<Rightarrow> rat option) \<Rightarrow> Structural \<Rightarrow> bool" where
  "wfSchema num s \<longleftrightarrow> distinct (map fst (stProperties s)) \<and> canon num (stDefault s) \<and> (stProperties s \<noteq> [] \<longrightarrow> effType s = ''object'') \<and>
     (\<forall>p \<in> set (stProperties s). wfSchema num (snd p)) \<and>
     (case stAdditional s of None \<Rightarrow> True | Some t \<Rightarrow> wfSchema num t) \<and>
     (case stItems s of None \<Rightarrow> True | Some t \<Rightarrow> wfSchema num t)"
  by pat_completeness auto
termination by (relation "measure (\<lambda>(num, s). size s)") (auto dest: Structural_sizes)

declare wfSchema.simps [simp del]

lemma wfSchemaD:
  assumes "wfSchema num s"
  shows "distinct (map fst (stProperties s))" "canon num (stDefault s)"
    and "map_of (stProperties s) k = Some q \<Longrightarrow> wfSchema num q"
    and "stAdditional s = Some t \<Longrightarrow> wfSchema num t" "stItems s = Some t \<Longrightarrow> wfSchema num t"
    and "effType s \<noteq> ''object'' \<Longrightarrow> stProperties s = []"
  using assms by (auto simp: wfSchema.simps [of num s] dest: map_of_SomeD split: option.splits)

text \<open>What becomes of the member with key \<open>k\<close>, present or not.\<close>

definition defaultMember :: "Structural \<Rightarrow> string \<Rightarrow> json option \<Rightarrow> json option" where
  "defaultMember s k cur =
     (case map_of (stProperties s) k of
        Some q \<Rightarrow> map_option (\<lambda>x. applyDefaults x q False)
          (case cur of Some x \<Rightarrow> Some x | None \<Rightarrow> if stDefault q \<noteq> JNull then Some (stDefault q) else None)
      | None \<Rightarrow> (case stAdditional s of None \<Rightarrow> cur | Some ap \<Rightarrow> map_option (\<lambda>x. applyDefaults x ap False) cur))"

lemma fold_props:
  fixes D :: "json \<Rightarrow> Structural \<Rightarrow> json"
  assumes "distinct (map fst ps)"
  defines "step \<equiv> (\<lambda>(name, q) mv. case presentOr mv name q of None \<Rightarrow> mv | Some cur \<Rightarrow> putKey name (D cur q) mv)"
  shows "map_of (fold step ps mv) k = (case map_of ps k of
      None \<Rightarrow> map_of mv k
    | Some q \<Rightarrow> map_option (\<lambda>x. D x q) (presentOr mv k q))"
    and "sorted_wrt (<) (map fst mv) \<Longrightarrow> sorted_wrt (<) (map fst (fold step ps mv))"
proof -
  have other: "k \<noteq> fst p \<Longrightarrow> map_of (step p mv) k = map_of mv k" for p k mv
    by (cases p) (simp add: step_def split: option.splits)
  have own: "map_of (step (n, q) mv) n = map_option (\<lambda>x. D x q) (presentOr mv n q)" for n q mv
    by (auto simp: step_def presentOr_def split: option.splits)
  show "map_of (fold step ps mv) k = (case map_of ps k of
      None \<Rightarrow> map_of mv k | Some q \<Rightarrow> map_option (\<lambda>x. D x q) (presentOr mv k q))"
    using assms(1)
  proof (induction ps arbitrary: mv)
    case (Cons p ps)
    show ?case
    proof (cases "k = fst p")
      case True
      then have "map_of ps k = None" using Cons.prems by (simp add: map_of_eq_None_iff)
      then show ?thesis using Cons True own [of "fst p" "snd p" mv] by simp
    next
      case False
      then show ?thesis using Cons other [OF False] by (simp add: presentOr_def split: option.splits)
    qed
  qed simp
  show "sorted_wrt (<) (map fst mv) \<Longrightarrow> sorted_wrt (<) (map fst (fold step ps mv))"
  proof (induction ps arbitrary: mv)
    case (Cons p ps)
    have "sorted_wrt (<) (map fst (step p mv))"
      using Cons.prems by (cases p) (auto simp: step_def split: option.splits intro: sorted_putKey)
    then show ?case using Cons.IH by simp
  qed simp
qed

lemma applyDefaults_object:
  assumes "effType s = ''object''" "wfSchema num s" "sorted_wrt (<) (map fst (objectOf v s atTop))"
  obtains W where "applyDefaults v s atTop = JObj W" "sorted_wrt (<) (map fst W)"
    "\<And>k. map_of W k = defaultMember s k (map_of (objectOf v s atTop) k)"
proof -
  let ?D = "\<lambda>x q. applyDefaults x q False"
  let ?F = "fold (\<lambda>(name, ps) mv. case presentOr mv name ps of None \<Rightarrow> mv | Some cur \<Rightarrow> putKey name (?D cur ps) mv)
    (stProperties s) (objectOf v s atTop)"
  note d = wfSchemaD(1) [OF assms(2)]
  have F: "sorted_wrt (<) (map fst ?F)" "map_of ?F k = (case map_of (stProperties s) k of
      None \<Rightarrow> map_of (objectOf v s atTop) k | Some q \<Rightarrow> map_option (\<lambda>x. ?D x q) (presentOr (objectOf v s atTop) k q))" for k
    using fold_props [OF d, where D = ?D] assms(3) by simp_all
  let ?W = "case stAdditional s of None \<Rightarrow> ?F
    | Some ap \<Rightarrow> map (\<lambda>(k, cur). (k, if map_of (stProperties s) k \<noteq> None then cur else ?D cur ap)) ?F"
  have "sorted_wrt (<) (map fst ?W)" using F(1) by (simp only: map_fst_map_keyed split: option.split) simp
  moreover have "map_of ?W k = defaultMember s k (map_of (objectOf v s atTop) k)" for k
    using F(2) by (auto simp: defaultMember_def presentOr_def map_of_map_keyed split: option.splits)
  moreover have "applyDefaults v s atTop = JObj ?W" using assms(1) by (simp add: applyDefaults.simps [of v s] Let_def)
  ultimately show thesis using that by blast
qed

lemma objectOf_canon: "canon num v \<Longrightarrow> canon num (stDefault s) \<Longrightarrow> canon num (JObj (objectOf v s atTop))"
  unfolding objectOf_def by (cases v; cases "stDefault s"; cases atTop; simp)

lemma arrayOf_canon: "canon num v \<Longrightarrow> canon num (stDefault s) \<Longrightarrow> canon num (JArr (arrayOf v s))"
  unfolding arrayOf_def by (cases v; cases "stDefault s"; simp)

lemma arrays_defaults:
  "effType s = ''array'' \<Longrightarrow> applyDefaults v s atTop =
     JArr (case stItems s of None \<Rightarrow> arrayOf v s | Some it \<Rightarrow> map (\<lambda>x. applyDefaults x it False) (arrayOf v s))"
  by (simp add: applyDefaults.simps [of v s] Let_def)

lemma scalar_defaults:
  "effType s \<noteq> ''object'' \<Longrightarrow> effType s \<noteq> ''array'' \<Longrightarrow>
     applyDefaults v s atTop = (if v = JNull \<and> stDefault s \<noteq> JNull then stDefault s else v)"
  by (simp add: applyDefaults.simps [of v s])

lemma canon_members: "canon num (JObj m) \<Longrightarrow> map_of m k = Some x \<Longrightarrow> canon num x"
  by (force dest: map_of_SomeD)

lemma canon_objI:
  assumes "sorted_wrt (<) (map fst W)" "\<And>k x. map_of W k = Some x \<Longrightarrow> canon num x"
  shows "canon num (JObj W)"
proof -
  have "distinct (map fst W)" using assms(1) by (blast dest: strict_sorted_imp)
  then have "canon num (snd p)" if "p \<in> set W" for p using that assms(2) [of "fst p" "snd p"] by simp
  then show ?thesis using assms(1) by simp
qed

text \<open>The schemas a walk descends into.\<close>

definition subschema :: "Structural \<Rightarrow> Structural \<Rightarrow> bool" where
  "subschema s q \<longleftrightarrow> (\<exists>k. map_of (stProperties s) k = Some q) \<or> stAdditional s = Some q \<or> stItems s = Some q"

lemma subschema_size: "subschema s q \<Longrightarrow> size q < size s"
  by (auto simp: subschema_def dest: map_of_SomeD Structural_sizes)

lemma subschema_wf: "wfSchema num s \<Longrightarrow> subschema s q \<Longrightarrow> wfSchema num q"
  by (auto simp: subschema_def dest: wfSchemaD)

lemma subschemaI [intro]:
  "map_of (stProperties s) k = Some q \<Longrightarrow> subschema s q" "stAdditional s = Some q \<Longrightarrow> subschema s q" "stItems s = Some q \<Longrightarrow> subschema s q"
  by (auto simp: subschema_def)

lemma applyDefaults_canon: "canon num v \<Longrightarrow> wfSchema num s \<Longrightarrow> canon num (applyDefaults v s atTop)"
proof (induction s arbitrary: v atTop rule: measure_induct_rule [of size])
  case (less s)
  note wf = wfSchemaD [OF less.prems(2)]
  have D: "canon num (applyDefaults x q False)" if x: "canon num x" and q: "subschema s q" for x q
    using less.IH [OF subschema_size [OF q] x subschema_wf [OF less.prems(2) q]] .
  consider (obj) "effType s = ''object''" | (arr) "effType s = ''array''" | (other) "effType s \<noteq> ''object''" "effType s \<noteq> ''array''" by auto
  then show ?case
  proof cases
    case obj
    have m: "canon num (JObj (objectOf v s atTop))" using less.prems(1) wf(2) by (rule objectOf_canon)
    then obtain W where W: "applyDefaults v s atTop = JObj W" "sorted_wrt (<) (map fst W)"
        "\<And>k. map_of W k = defaultMember s k (map_of (objectOf v s atTop) k)"
      using applyDefaults_object [OF obj less.prems(2)] by (metis canon.simps(3))
    have "canon num x" if "map_of W k = Some x" for k x
      using that canon_members [OF m] wfSchemaD(2) [OF wf(3)]
      by (auto simp: W(3) defaultMember_def split: option.splits if_splits intro!: D)
    then have "canon num (JObj W)" by (rule canon_objI [OF W(2)])
    then show ?thesis by (simp only: W(1))
  next
    case arr
    then show ?thesis using arrayOf_canon [OF less.prems(1) wf(2)]
      by (auto simp: arrays_defaults split: option.split intro!: D)
  next
    case other
    then show ?thesis using less.prems(1) wf(2) by (simp add: scalar_defaults)
  qed
qed

lemma null_is_default:
  assumes "stDefault q \<noteq> JNull"
  shows "applyDefaults JNull q False = applyDefaults (stDefault q) q False"
proof -
  have "objectOf JNull q False = objectOf (stDefault q) q False" "arrayOf JNull q = arrayOf (stDefault q) q"
    using assms unfolding objectOf_def arrayOf_def by (cases "stDefault q"; simp)+
  then show ?thesis using assms by (simp add: applyDefaults.simps [of _ q])
qed

lemma applyDefaults_idem:
  "canon num v \<Longrightarrow> wfSchema num s \<Longrightarrow> applyDefaults (applyDefaults v s atTop) s atTop' = applyDefaults v s atTop"
proof (induction s arbitrary: v atTop atTop' rule: measure_induct_rule [of size])
  case (less s)
  note wf = wfSchemaD [OF less.prems(2)]
  have D: "applyDefaults (applyDefaults x q False) q False = applyDefaults x q False" if x: "canon num x" and q: "subschema s q" for x q
    using less.IH [OF subschema_size [OF q] x subschema_wf [OF less.prems(2) q]] .
  consider (obj) "effType s = ''object''" | (arr) "effType s = ''array''" | (other) "effType s \<noteq> ''object''" "effType s \<noteq> ''array''" by auto
  then show ?case
  proof cases
    case obj
    have m: "canon num (JObj (objectOf v s atTop))" using less.prems(1) wf(2) by (rule objectOf_canon)
    then obtain W where W: "applyDefaults v s atTop = JObj W" "sorted_wrt (<) (map fst W)"
        "\<And>k. map_of W k = defaultMember s k (map_of (objectOf v s atTop) k)"
      using applyDefaults_object [OF obj less.prems(2)] by (metis canon.simps(3))
    have W': "objectOf (JObj W) s atTop' = W" by (simp add: objectOf_def)
    obtain V where V: "applyDefaults (JObj W) s atTop' = JObj V" "sorted_wrt (<) (map fst V)"
        "\<And>k. map_of V k = defaultMember s k (map_of W k)"
      using applyDefaults_object [OF obj less.prems(2), of "JObj W" atTop'] W(2) W' by auto
    have "defaultMember s k (defaultMember s k cur) = defaultMember s k cur" if "cur = map_of (objectOf v s atTop) k" for k cur
      using that canon_members [OF m, of k] wfSchemaD(2) [OF wf(3), of k]
      by (auto simp: defaultMember_def D subschemaI split: option.split)
    then have "map_of V = map_of W" by (auto simp: V(3) W(3))
    then have "V = W" by (rule sorted_assoc_eq [OF V(2) W(2)])
    then show ?thesis using V(1) W(1) by simp
  next
    case arr
    have "canon num x" if "x \<in> set (arrayOf v s)" for x using arrayOf_canon [OF less.prems(1) wf(2)] that by simp
    then show ?thesis using arr by (auto simp: arrays_defaults D subschemaI arrayOf_def [of "JArr xs" s for xs] split: option.split)
  next
    case other
    then show ?thesis by (simp add: scalar_defaults)
  qed
qed

subsection \<open>What defaulting may change\<close>

text \<open>The value that a client is shown for the value it gave, stated member by member: a given member or
  element stays, a null counts as the default of its schema where there is one, a declared property
  with a default is added when it is missing, and nothing else is added, removed or replaced. A value
  that does not have the shape its schema asks for is left open.\<close>

definition memberSchema :: "Structural \<Rightarrow> string \<Rightarrow> Structural option" where
  "memberSchema s k = (case map_of (stProperties s) k of Some q \<Rightarrow> Some q | None \<Rightarrow> stAdditional s)"

definition orDefault :: "Structural \<Rightarrow> json \<Rightarrow> json" where
  "orDefault s v = (if v = JNull then stDefault s else v)"

lemma memberSchema_sub: "memberSchema s k = Some q \<Longrightarrow> subschema s q"
  by (auto simp: memberSchema_def split: option.splits)

function defaultedFrom :: "Structural \<Rightarrow> json \<Rightarrow> json \<Rightarrow> bool" where
  "defaultedFrom s given shown \<longleftrightarrow>
     (if effType s = ''object'' then
        (\<forall>m. given = JObj m \<longrightarrow> (\<exists>m'. shown = JObj m' \<and> (\<forall>k.
           case memberSchema s k of
             None \<Rightarrow> map_of m' k = map_of m k
           | Some q \<Rightarrow>
               (case map_of m k of
                  Some c \<Rightarrow> (\<exists>c'. map_of m' k = Some c' \<and> defaultedFrom q (orDefault q c) c')
                | None \<Rightarrow>
                    if map_of (stProperties s) k \<noteq> None \<and> stDefault q \<noteq> JNull
                    then (\<exists>c'. map_of m' k = Some c' \<and> defaultedFrom q (stDefault q) c')
                    else map_of m' k = None))))
      else if effType s = ''array'' then
        (\<forall>xs. given = JArr xs \<longrightarrow>
           (case stItems s of
              None \<Rightarrow> shown = given
            | Some it \<Rightarrow> (\<exists>ys. shown = JArr ys \<and> length ys = length xs \<and>
                (\<forall>i < length xs. defaultedFrom it (orDefault it (xs ! i)) (ys ! i)))))
      else shown = given)"
  by pat_completeness auto
termination by (relation "measure (\<lambda>(s, g, v). size s)") (auto dest: memberSchema_sub subschema_size Structural_sizes)

declare defaultedFrom.simps [simp del]

lemma applyDefaults_from:
  assumes "canon num v" "wfSchema num s" "v \<noteq> JNull \<or> stDefault s = JNull"
  shows "defaultedFrom s v (applyDefaults v s atTop)"
  using assms
proof (induction s arbitrary: v atTop rule: measure_induct_rule [of size])
  case (less s)
  note wf = wfSchemaD [OF less.prems(2)]
  have sub: "defaultedFrom q (orDefault q x) (applyDefaults x q False)" if q: "subschema s q" and x: "canon num x" for q x
  proof -
    note wq = subschema_wf [OF less.prems(2) q]
    note ih = less.IH [OF subschema_size [OF q] _ wq]
    show ?thesis
    proof (cases "x = JNull \<and> stDefault q \<noteq> JNull")
      case True
      then have "applyDefaults x q False = applyDefaults (stDefault q) q False" by (simp add: null_is_default)
      then show ?thesis using ih [of "stDefault q" False] wfSchemaD(2) [OF wq] True by (simp add: orDefault_def)
    next
      case False
      then have "orDefault q x = x" by (auto simp: orDefault_def)
      then show ?thesis using ih [OF x, of False] False by auto
    qed
  qed
  consider (obj) "effType s = ''object''" | (arr) "effType s = ''array''" | (other) "effType s \<noteq> ''object''" "effType s \<noteq> ''array''" by auto
  then show ?case
  proof cases
    case obj
    show ?thesis
    proof (cases "\<exists>m. v = JObj m")
      case True
      then obtain m where v: "v = JObj m" by blast
      have o: "objectOf v s atTop = m" by (simp add: v objectOf_def)
      obtain W where W: "applyDefaults v s atTop = JObj W" "\<And>k. map_of W k = defaultMember s k (map_of m k)"
        using applyDefaults_object [OF obj less.prems(2), of v atTop] o less.prems(1) v by (metis canon.simps(3))
      have c: "canon num x" if "map_of m k = Some x" for k x using canon_members that less.prems(1) v by blast
      have d: "defaultedFrom q (stDefault q) (applyDefaults (stDefault q) q False)" if q: "subschema s q" "stDefault q \<noteq> JNull" for q
        using sub [OF q(1), of "stDefault q"] q(2) wfSchemaD(2) [OF subschema_wf [OF less.prems(2) q(1)]] by (simp add: orDefault_def)
      have "case memberSchema s k of None \<Rightarrow> map_of W k = map_of m k
          | Some q \<Rightarrow> (case map_of m k of
              Some c \<Rightarrow> (\<exists>c'. map_of W k = Some c' \<and> defaultedFrom q (orDefault q c) c')
            | None \<Rightarrow> if map_of (stProperties s) k \<noteq> None \<and> stDefault q \<noteq> JNull
                then (\<exists>c'. map_of W k = Some c' \<and> defaultedFrom q (stDefault q) c') else map_of W k = None)" for k
        using sub d c [of k] by (auto simp: W(2) defaultMember_def memberSchema_def subschemaI split: option.split)
      note mem = this
      show ?thesis unfolding defaultedFrom.simps [of s v] W(1) if_P [OF obj]
      proof (intro allI impI exI [of _ W] conjI refl)
        fix ma k assume "v = JObj ma"
        then have "ma = m" using v by simp
        then show "case memberSchema s k of None \<Rightarrow> map_of W k = map_of ma k
          | Some q \<Rightarrow> (case map_of ma k of
              Some c \<Rightarrow> (\<exists>c'. map_of W k = Some c' \<and> defaultedFrom q (orDefault q c) c')
            | None \<Rightarrow> if map_of (stProperties s) k \<noteq> None \<and> stDefault q \<noteq> JNull
                then (\<exists>c'. map_of W k = Some c' \<and> defaultedFrom q (stDefault q) c') else map_of W k = None)"
          using mem [of k] by (simp only:)
      qed
    qed (use obj in \<open>simp add: defaultedFrom.simps [of s]\<close>)
  next
    case arr
    show ?thesis
    proof (cases "\<exists>xs. v = JArr xs")
      case True
      then obtain xs where v: "v = JArr xs" by blast
      have "canon num (xs ! i)" if "i < length xs" for i using less.prems(1) v that by simp
      then show ?thesis using arr sub
        by (auto simp: defaultedFrom.simps [of s] v arrays_defaults arrayOf_def subschemaI split: option.split)
    qed (use arr in \<open>simp add: defaultedFrom.simps [of s]\<close>)
  next
    case other
    then show ?thesis using less.prems(3) by (auto simp: defaultedFrom.simps [of s] scalar_defaults)
  qed
qed

text \<open>What removing the nulls leaves of a member.\<close>

definition keptMember :: "Structural \<Rightarrow> string \<Rightarrow> string \<Rightarrow> json \<Rightarrow> json option" where
  "keptMember s path k child =
     (case map_of (stProperties s) k of
        None \<Rightarrow> Some child
      | Some prop \<Rightarrow>
          if child = JNull then (if repairable s k prop then None else Some child)
          else Some (fst (stripDeclaredNulls child prop (joinFieldPath path k))))"

definition optList :: "string \<Rightarrow> json option \<Rightarrow> (string \<times> json) list" where
  "optList k x = (case x of None \<Rightarrow> [] | Some v \<Rightarrow> [(k, v)])"

lemma optList_concat:
  fixes g :: "string \<Rightarrow> json \<Rightarrow> json option"
  assumes "sorted_wrt (<) (map fst m)"
  defines "keep \<equiv> \<lambda>ms. concat (map (\<lambda>(k, c). optList k (g k c)) ms)"
  shows "sorted_wrt (<) (map fst (keep m))" "map_of (keep m) k = Option.bind (map_of m k) (g k)"
proof -
  have sub: "fst ` set (keep ms) \<subseteq> fst ` set ms" for ms by (force simp: keep_def optList_def split: option.splits)
  have "sorted_wrt (<) (map fst (keep m)) \<and> (\<forall>k. map_of (keep m) k = Option.bind (map_of m k) (g k))"
    using assms(1)
  proof (induction m)
    case (Cons p m)
    have gt: "fst p < k" if "k \<in> fst ` set (keep m)" for k 
    proof -
      have "k \<in> fst ` set m" using sub [of m] that by blast
      then show ?thesis using Cons.prems by auto
    qed
    then have no: "map_of (keep m) (fst p) = None" by (auto simp: map_of_eq_None_iff)
    have step: "keep (p # m) = optList (fst p) (g (fst p) (snd p)) @ keep m" by (simp add: keep_def case_prod_beta)
    have "sorted_wrt (<) (map fst (keep (p # m)))" using Cons gt unfolding step by (auto simp: optList_def split: option.split)
    moreover have "map_of (keep (p # m)) k = Option.bind (map_of (p # m) k) (g k)" for k
      unfolding step using Cons no by (cases p) (auto simp: optList_def map_add_def split: option.split)
    ultimately show ?case by blast
  qed (simp add: keep_def)
  then show "sorted_wrt (<) (map fst (keep m))" "map_of (keep m) k = Option.bind (map_of m k) (g k)" by blast+
qed

lemma strip_members:
  "fst (stripDeclaredNulls (JObj m) s path) = JObj (concat (map (\<lambda>(k, c). optList k (keptMember s path k c)) m))"
proof -
  let ?r = "\<lambda>(name, child). case map_of (stProperties s) name of
      None \<Rightarrow> ([(name, child)], [])
    | Some prop \<Rightarrow> if child = JNull then (if repairable s name prop then ([], [joinFieldPath path name]) else ([(name, child)], []))
        else let r = stripDeclaredNulls child prop (joinFieldPath path name) in ([(name, fst r)], snd r)"
  have "fst (?r p) = (\<lambda>(k, c). optList k (keptMember s path k c)) p" for p
    by (cases p) (simp add: optList_def keptMember_def Let_def split: option.split)
  then have "concat (map fst (map ?r m)) = concat (map (\<lambda>(k, c). optList k (keptMember s path k c)) m)" unfolding map_map comp_def by presburger
  then show ?thesis by (simp only: stripDeclaredNulls.simps [of "JObj m"] json.case Let_def fst_conv)
qed

lemma stripped_member:
  assumes "sorted_wrt (<) (map fst m)"
  obtains m' where "fst (stripDeclaredNulls (JObj m) s path) = JObj m'" "sorted_wrt (<) (map fst m')"
    "\<And>k. map_of m' k = Option.bind (map_of m k) (keptMember s path k)"
  using that strip_members [of m s path] optList_concat [OF assms] by blast

lemma strip_other: "(\<And>m. v \<noteq> JObj m) \<Longrightarrow> stripDeclaredNulls v s path = (v, [])"
  unfolding stripDeclaredNulls.simps [of v] by (auto split: json.split)

lemma strip_canon: "canon num v \<Longrightarrow> canon num (fst (stripDeclaredNulls v s path))"
proof (induction s arbitrary: v path rule: measure_induct_rule [of size])
  case (less s)
  show ?case
  proof (cases "\<exists>m. v = JObj m")
    case True
    then obtain m m' where m: "v = JObj m" "fst (stripDeclaredNulls (JObj m) s path) = JObj m'" "sorted_wrt (<) (map fst m')"
        "\<And>k. map_of m' k = Option.bind (map_of m k) (keptMember s path k)"
      using less.prems stripped_member [of _ s path] by (metis canon.simps(3))
    have "canon num x" if k: "map_of m' k = Some x" for k x
    proof -
      obtain c where "map_of m k = Some c" "keptMember s path k c = Some x" using k by (auto simp: m(4) bind_eq_Some_conv)
      then show ?thesis using canon_members [OF less.prems [unfolded m(1)]] less.IH [OF subschema_size [OF subschemaI(1)]]
        by (auto simp: keptMember_def split: option.splits if_splits)
    qed
    then have "canon num (JObj m')" by (rule canon_objI [OF m(3)])
    then show ?thesis by (simp only: m(1,2))
  next
    case False
    then show ?thesis using less.prems strip_other by simp
  qed
qed

lemma strip_view:
  "canon num v \<Longrightarrow> wfSchema num s \<Longrightarrow> applyDefaults (fst (stripDeclaredNulls v s path)) s atTop = applyDefaults v s atTop"
proof (induction s arbitrary: v path atTop rule: measure_induct_rule [of size])
  case (less s)
  note wf = wfSchemaD [OF less.prems(2)]
  have D: "applyDefaults (fst (stripDeclaredNulls x q p)) q False = applyDefaults x q False" if x: "canon num x" and q: "subschema s q" for x q p
    using less.IH [OF subschema_size [OF q] x subschema_wf [OF less.prems(2) q]] .
  show ?case
  proof (cases "\<exists>m. v = JObj m")
    case True
    then obtain m where v: "v = JObj m" "sorted_wrt (<) (map fst m)" using less.prems(1) by auto
    obtain m' where m: "fst (stripDeclaredNulls (JObj m) s path) = JObj m'" "sorted_wrt (<) (map fst m')"
        "\<And>k. map_of m' k = Option.bind (map_of m k) (keptMember s path k)"
      by (rule stripped_member [OF v(2), of s path]) blast
    consider (obj) "effType s = ''object''" | (none) "effType s \<noteq> ''object''" by auto
    then show ?thesis
    proof cases
      case obj
      have o: "objectOf (JObj x) s atTop = x" for x by (simp add: objectOf_def)
      obtain W where W: "applyDefaults (JObj m) s atTop = JObj W" "sorted_wrt (<) (map fst W)" "\<And>k. map_of W k = defaultMember s k (map_of m k)"
        using applyDefaults_object [OF obj less.prems(2), of "JObj m" atTop] v(2) o by auto
      obtain V where V: "applyDefaults (JObj m') s atTop = JObj V" "sorted_wrt (<) (map fst V)" "\<And>k. map_of V k = defaultMember s k (map_of m' k)"
        using applyDefaults_object [OF obj less.prems(2), of "JObj m'" atTop] m(2) o by auto
      have "defaultMember s k (Option.bind (map_of m k) (keptMember s path k)) = defaultMember s k (map_of m k)" for k
        using canon_members [OF less.prems(1) [unfolded v(1)], of k] null_is_default
        by (auto simp: defaultMember_def keptMember_def repairable_def D subschemaI split: option.split)
      then have "map_of V = map_of W" by (auto simp: V(3) W(3) m(3))
      then have "V = W" by (rule sorted_assoc_eq [OF V(2) W(2)])
      then show ?thesis using V(1) W(1) m(1) v(1) by simp
    next
      case none
      have "keptMember s path k = Some" for k by (rule ext) (simp add: keptMember_def wf(6) [OF none])
      then have "map_of m' = map_of m" by (intro ext) (simp add: m(3))
      then have "m' = m" by (rule sorted_assoc_eq [OF m(2) v(2)])
      then show ?thesis using m(1) v(1) by simp
    qed
  next
    case False
    then show ?thesis using strip_other by simp
  qed
qed

subsection \<open>Decoding in two steps\<close>

lemma decodeAny_object:
  assumes "decodeAny num (JObj fs) = Some w"
  obtains m where "w = JObj m" "sorted_wrt (<) (map fst m)" "\<And>k. map_of m k = Option.bind (map_of (rev fs) k) (decodeAny num)"
    "\<And>p. p \<in> set fs \<Longrightarrow> decodeAny num (snd p) \<noteq> None"
proof -
  obtain vs where vs: "map (\<lambda>p. decodeAny num (snd p)) fs = map Some vs"
      "w = JObj (fold (\<lambda>(k, v). putKey k v) (zip (map fst fs) vs) [])"
    using assms by (auto simp: those_Some)
  have some: "decodeAny num (snd p) \<noteq> None" if "p \<in> set fs" for p
  proof -
    have "decodeAny num (snd p) \<in> set (map Some vs)" using that vs(1) by (metis image_eqI list.set_map)
    then show ?thesis by auto
  qed
  have "vs = map (\<lambda>p. the (decodeAny num (snd p))) fs"
    using arg_cong [OF vs(1), of "map the"] by (simp add: comp_def)
  then have "zip (map fst fs) vs = map (\<lambda>(k, c). (k, the (decodeAny num c))) fs" by (simp add: zip_map_map zip_same_conv_map case_prod_beta)
  then have "map_of (fold (\<lambda>(k, v). putKey k v) (zip (map fst fs) vs) []) k = map_option (\<lambda>c. the (decodeAny num c)) (map_of (rev fs) k)" for k
    by (simp add: map_of_fold_put rev_map map_of_map_keyed)
  moreover have "map_option (\<lambda>c. the (decodeAny num c)) (map_of (rev fs) k) = Option.bind (map_of (rev fs) k) (decodeAny num)" for k
    using some by (cases "map_of (rev fs) k") (force dest: map_of_SomeD)+
  moreover have "sorted_wrt (<) (map fst (fold (\<lambda>(k, v). putKey k v) ps m))" if "sorted_wrt (<) (map fst m)" for ps :: "(string \<times> json) list" and m
    using that by (induction ps arbitrary: m) (auto intro: sorted_putKey)
  ultimately show thesis using that [OF vs(2)] some by simp
qed

lemma decodeAny_object_total:
  assumes "\<And>p. p \<in> set fs \<Longrightarrow> decodeAny num (snd p) \<noteq> None"
  shows "decodeAny num (JObj fs) \<noteq> None"
proof -
  have "map (\<lambda>p. decodeAny num (snd p)) fs = map Some (map (\<lambda>p. the (decodeAny num (snd p))) fs)" using assms by simp
  then have "those (map (\<lambda>p. decodeAny num (snd p)) fs) = Some (map (\<lambda>p. the (decodeAny num (snd p))) fs)" by (simp only: those_Some)
  then show ?thesis by simp
qed

text \<open>Decoding the members of a canonical object.\<close>

lemma decodeAny_members:
  assumes "sorted_wrt (<) (map fst m)" "sorted_wrt (<) (map fst m')"
    and "\<And>k. rel_option (\<lambda>c c'. decodeAny num c = Some c') (map_of m k) (map_of m' k)"
  shows "decodeAny num (JObj m) = Some (JObj m')"
proof -
  have d: "distinct (map fst m)" using assms(1) by (blast dest: strict_sorted_imp)
  have "decodeAny num (snd p) \<noteq> None" if "p \<in> set m" for p
    using assms(3) [of "fst p"] map_of_is_SomeI [OF d, of "fst p" "snd p"] that by (auto simp: option_rel_Some1)
  then have "decodeAny num (JObj m) \<noteq> None" by (rule decodeAny_object_total)
  then obtain w where w: "decodeAny num (JObj m) = Some w" by auto
  then obtain n where n: "w = JObj n" "sorted_wrt (<) (map fst n)" "\<And>k. map_of n k = Option.bind (map_of (rev m) k) (decodeAny num)"
    by (rule decodeAny_object) blast
  have "map_of n k = map_of m' k" for k
    using assms(3) [of k] by (auto simp: n(3) distinct_map_of_rev [OF d] elim!: option.rel_cases)
  then have "n = m'" by (intro sorted_assoc_eq [OF n(2) assms(2)] ext)
  then show ?thesis using w n(1) by simp
qed

lemma decodeAny_twice: "decodeAny Some raw = Some v \<Longrightarrow> decodeAny num raw = Some w \<Longrightarrow> decodeAny num v = Some w"
proof (induction raw arbitrary: v w)
  case (JArr xs)
  then obtain vs ws where a: "v = JArr vs" "map (decodeAny Some) xs = map Some vs" "w = JArr ws" "map (decodeAny num) xs = map Some ws"
    by (auto simp: those_Some)
  have len: "length vs = length xs" "length ws = length xs" using a(2,4) by (metis length_map)+
  have "decodeAny num (vs ! i) = Some (ws ! i)" if i: "i < length xs" for i
  proof -
    have "decodeAny Some (xs ! i) = Some (vs ! i)" "decodeAny num (xs ! i) = Some (ws ! i)"
      using a(2,4) i len by (metis length_map nth_map)+
    then show ?thesis using JArr.IH nth_mem [OF i] by blast
  qed
  then have "map (decodeAny num) vs = map Some ws" using len by (auto intro: nth_equalityI)
  then have "those (map (decodeAny num) vs) = Some ws" by (simp only: those_Some)
  then show ?case using a by simp
next
  case (JObj fs)
  obtain mv where mv: "v = JObj mv" "sorted_wrt (<) (map fst mv)" "\<And>k. map_of mv k = Option.bind (map_of (rev fs) k) (decodeAny Some)"
    using decodeAny_object [OF JObj.prems(1)] by blast
  obtain mw where mw: "w = JObj mw" "sorted_wrt (<) (map fst mw)" "\<And>k. map_of mw k = Option.bind (map_of (rev fs) k) (decodeAny num)"
    using decodeAny_object [OF JObj.prems(2)] by blast
  have "rel_option (\<lambda>c c'. decodeAny num c = Some c') (map_of mv k) (map_of mw k)" for k
  proof (cases "map_of (rev fs) k")
    case None
    then show ?thesis by (simp add: mv(3) mw(3))
  next
    case (Some c)
    then have c: "(k, c) \<in> set fs" by (auto dest: map_of_SomeD)
    obtain x y where xy: "decodeAny Some c = Some x" "decodeAny num c = Some y"
      using c decodeAny_object [OF JObj.prems(1)] decodeAny_object [OF JObj.prems(2)] by (metis option.exhaust snd_conv)
    then have "decodeAny num x = Some y" using JObj.IH [OF c, of c] by simp
    then show ?thesis using Some xy by (simp add: mv(3) mw(3))
  qed
  then show ?case using decodeAny_members [OF mv(2) mw(2)] mv(1) mw(1) by simp
qed auto

lemma decodeAny_null [simp]: "decodeAny num c = Some JNull \<longleftrightarrow> c = JNull"
  by (cases c) auto

lemma strip_decode:
  "canon Some v \<Longrightarrow> decodeAny num v = Some w \<Longrightarrow>
     decodeAny num (fst (stripDeclaredNulls v s path)) = Some (fst (stripDeclaredNulls w s path))"
proof (induction s arbitrary: v w path rule: measure_induct_rule [of size])
  case (less s)
  show ?case
  proof (cases v)
    case (JObj m)
    then have sm: "sorted_wrt (<) (map fst m)" using less.prems(1) by simp
    obtain n where n: "w = JObj n" "sorted_wrt (<) (map fst n)" "\<And>k. map_of n k = Option.bind (map_of (rev m) k) (decodeAny num)"
        and all: "\<And>p. p \<in> set m \<Longrightarrow> decodeAny num (snd p) \<noteq> None"
      using decodeAny_object [OF less.prems(2) [unfolded JObj]] by blast
    have dm: "distinct (map fst m)" using sm by (blast dest: strict_sorted_imp)
    obtain m' where m': "fst (stripDeclaredNulls (JObj m) s path) = JObj m'" "sorted_wrt (<) (map fst m')"
        "\<And>k. map_of m' k = Option.bind (map_of m k) (keptMember s path k)"
      by (rule stripped_member [OF sm, of s path]) blast
    obtain n' where n': "fst (stripDeclaredNulls (JObj n) s path) = JObj n'" "sorted_wrt (<) (map fst n')"
        "\<And>k. map_of n' k = Option.bind (map_of n k) (keptMember s path k)"
      by (rule stripped_member [OF n(2), of s path]) blast
    have "rel_option (\<lambda>c c'. decodeAny num c = Some c') (map_of m' k) (map_of n' k)" for k
    proof (cases "map_of m k")
      case None
      then show ?thesis by (simp add: m'(3) n'(3) n(3) distinct_map_of_rev [OF dm])
    next
      case (Some c)
      then obtain c' where c': "decodeAny num c = Some c'" "map_of n k = Some c'"
        using all [of "(k, c)"] by (auto simp: n(3) distinct_map_of_rev [OF dm] dest: map_of_SomeD)
      have "canon Some c" using canon_members [OF less.prems(1) [unfolded JObj] Some] .
      then show ?thesis using Some c' less.IH [OF subschema_size [OF subschemaI(1)]]
        by (auto simp: m'(3) n'(3) keptMember_def split: option.split)
    qed
    then show ?thesis using decodeAny_members [OF m'(2) n'(2)] m'(1) n'(1) n(1) JObj by simp
  qed (use less.prems in \<open>auto simp: strip_other\<close>)
qed

subsection \<open>Properties\<close>

text \<open>What a client reads of stored values.\<close>

definition readSpec :: "(rat \<Rightarrow> rat option) \<Rightarrow> Structural option \<Rightarrow> json option \<Rightarrow> string + json option" where
  "readSpec num specSchema values = applySpecDefaults num specSchema (filterInternalKeys num values)"

lemma decodeMap_object:
  assumes "decodeAny num (JObj fs) = Some w"
  shows "\<exists>m. w = JObj m \<and> decodeMap num (JObj fs) = Inr (Some m)"
proof -
  obtain m where "w = JObj m" using assms by (rule decodeAny_object) blast
  then show ?thesis using assms by (simp add: decodeMap_def del: decodeAny.simps)
qed

lemma canon_filter: "canon num (JObj m) \<Longrightarrow> canon num (JObj (filter P m))"
  by (auto simp: sorted_wrt_map intro: sorted_wrt_filter)

text \<open>Reading canonical values under a schema.\<close>

lemma readSpec_canonical:
  assumes "canon num (JObj m)"
  shows "readSpec num (Some s) (Some (JObj m)) =
    (case applyDefaults (JObj (filter (\<lambda>(k, v). \<not> isInternal k) m)) s True of
       JObj m' \<Rightarrow> Inr (Some (JObj m')) | JNull \<Rightarrow> Inr (Some (JObj [])) | _ \<Rightarrow> Inl ''applyDefaults returned non-map'')"
proof -
  have dec: "decodeMap num (JObj n) = Inr (Some n)" if "canon num (JObj n)" for n
    using decodeMap_object [OF canon_decodeAny [OF that]] by simp
  show ?thesis
    using dec [OF assms] dec [OF canon_filter [OF assms]]
    by (simp add: readSpec_def filterInternalKeys_def applySpecDefaults_def encodeMap_def defaultLikeKubernetes_def split: json.split)
qed

lemma decodeMap_Inr: "decodeMap num raw = Inr (Some m) \<longleftrightarrow> (\<exists>fs. raw = JObj fs \<and> decodeAny num raw = Some (JObj m))"
proof (cases raw)
  case (JObj fs)
  show ?thesis
  proof (cases "decodeAny num raw")
    case None
    then show ?thesis using JObj by (simp add: decodeMap_def del: decodeAny.simps)
  next
    case (Some w)
    then obtain n where "w = JObj n" "decodeMap num raw = Inr (Some n)" using JObj decodeMap_object by blast
    then show ?thesis using JObj Some by auto
  qed
qed (simp_all add: decodeMap_def)

lemma canonical_read:
  assumes "idemNum num" "decodeMap num raw = Inr (Some w)"
  shows "readSpec num (Some s) (Some raw) = readSpec num (Some s) (Some (JObj w))"
proof -
  have "canon num (JObj w)" using assms decodeMap_Inr decodeAny_canon by blast
  then have "decodeMap num (JObj w) = Inr (Some w)" using decodeMap_object canon_decodeAny by blast
  then show ?thesis using assms(2) by (simp add: readSpec_def filterInternalKeys_def)
qed

lemma map_of_filter_keys: "map_of (filter (\<lambda>(k, v). P k) m) k = (if P k then map_of m k else None)"
  by (induction m) auto

text \<open>Reading what was read changes nothing.\<close>

lemma defaults_fixed:
  assumes "canon num (JObj f)" "wfSchema num s" "\<forall>k \<in> fst ` set f. \<not> isInternal k" "applyDefaults (JObj f) s True = JObj m"
  shows "applyDefaults (JObj (filter (\<lambda>(k, v). \<not> isInternal k) m)) s True = JObj m"
proof (cases "effType s = ''object''")
  case True
  let ?g = "filter (\<lambda>(k, v). \<not> isInternal k) m"
  have o: "objectOf (JObj x) s True = x" for x by (simp add: objectOf_def)
  have m: "canon num (JObj m)" using applyDefaults_canon [OF assms(1,2), of True] assms(4) by simp
  then have g: "sorted_wrt (<) (map fst ?g)" using canon_filter [OF m] by simp
  have mk: "map_of m k = defaultMember s k (map_of f k)" for k
    using applyDefaults_object [OF True assms(2), of "JObj f" True] assms(1,4) o by (metis canon.simps(3) json.inject(5))
  obtain V where V: "applyDefaults (JObj ?g) s True = JObj V" "sorted_wrt (<) (map fst V)" "\<And>k. map_of V k = defaultMember s k (map_of ?g k)"
    using applyDefaults_object [OF True assms(2), of "JObj ?g" True] g o by auto
  have "defaultMember s k (map_of ?g k) = map_of m k" for k
  proof (cases "isInternal k")
    case True
    then have "map_of f k = None" using assms(3) by (auto simp: map_of_eq_None_iff)
    then show ?thesis using True by (simp add: map_of_filter_keys mk)
  next
    case False
    have "applyDefaults (JObj m) s True = JObj m" using applyDefaults_idem [OF assms(1,2), of True True] assms(4) by simp
    then have "defaultMember s k (map_of m k) = map_of m k"
      using applyDefaults_object [OF \<open>effType s = ''object''\<close> assms(2), of "JObj m" True] m o by (metis canon.simps(3) json.inject(5))
    then show ?thesis using False by (simp add: map_of_filter_keys)
  qed
  then have "map_of V = map_of m" by (auto simp: V(3))
  then have "V = m" using sorted_assoc_eq [OF V(2)] m by simp
  then show ?thesis using V(1) by simp
next
  case False
  then have "m = f" using assms(4) by (cases "effType s = ''array''") (auto simp: arrays_defaults scalar_defaults)
  moreover have "filter (\<lambda>(k, v). \<not> isInternal k) f = f" using assms(3) by (auto simp: filter_id_conv)
  ultimately show ?thesis using assms(4) by simp
qed

lemma applyDefaults_not_null: "applyDefaults (JObj f) s t \<noteq> JNull"
  by (simp add: applyDefaults.simps [of "JObj f"] Let_def)

text \<open>Every value read is some object without reserved keys, with its defaults.\<close>

lemma readSpec_object:
  assumes "idemNum num" "readSpec num (Some s) values = Inr x"
  obtains f m where "canon num (JObj f)" "\<forall>k \<in> fst ` set f. \<not> isInternal k" "applyDefaults (JObj f) s True = JObj m" "x = Some (JObj m)"
proof -
  note found = that
  have empty: thesis if d: "defaultLikeKubernetes [] s = Inr m" "x = Some (JObj m)" for m
    using d applyDefaults_not_null [of "[]" s True]
    by (intro found [of "[]" m]) (auto simp: defaultLikeKubernetes_def split: json.splits)
  show thesis
  proof (cases "values")
    case None
    then show thesis using assms(2) empty
      by (auto simp: readSpec_def filterInternalKeys_def applySpecDefaults_def try_bind_eq_Inr)
  next
    case (Some raw)
    show thesis
    proof (cases "decodeMap num raw")
      case (Inl e)
      then show thesis using assms(2) Some by (simp add: readSpec_def filterInternalKeys_def applySpecDefaults_def)
    next
      case (Inr data)
      show thesis
      proof (cases data)
        case None
        then show thesis using assms(2) Some Inr empty
          by (auto simp: readSpec_def filterInternalKeys_def applySpecDefaults_def encodeMap_def decodeMap_def try_bind_eq_Inr)
      next
        case (Some w)
        then have w: "canon num (JObj w)" using Inr assms(1) decodeMap_Inr decodeAny_canon by blast
        have "readSpec num (Some s) (Some (JObj w)) = Inr x" using canonical_read [OF assms(1)] Inr Some \<open>values = Some raw\<close> assms(2) by simp
        then obtain m where "applyDefaults (JObj (filter (\<lambda>(k, v). \<not> isInternal k) w)) s True = JObj m" "x = Some (JObj m)"
          using applyDefaults_not_null [of _ s True] by (auto simp: readSpec_canonical [OF w] split: json.splits)
        then show thesis using found [OF canon_filter [OF w, of "\<lambda>(k, v). \<not> isInternal k"]] by auto
      qed
    qed
  qed
qed

lemma readSpec_fixed:
  assumes "idemNum num" "wfSchema num s" "readSpec num (Some s) values = Inr x"
  shows "readSpec num (Some s) x = Inr x"
proof -
  obtain f m where f: "canon num (JObj f)" "\<forall>k \<in> fst ` set f. \<not> isInternal k" "applyDefaults (JObj f) s True = JObj m" "x = Some (JObj m)"
    by (rule readSpec_object [OF assms(1,3)])
  have "canon num (JObj m)" using applyDefaults_canon [OF f(1) assms(2), of True] f(3) by simp
  then show ?thesis using readSpec_canonical [of num m s] defaults_fixed [OF f(1) assms(2) f(2,3)] f(4) by simp
qed

lemma normalized_cases:
  assumes "normalizeSpecNulls (Some s) spec = Inr (stored, stripped)" "stored \<noteq> spec"
  obtains fs m where "spec = Some (JObj fs)" "decodeAny Some (JObj fs) = Some (JObj m)" "stored = Some (fst (stripDeclaredNulls (JObj m) s []))"
proof -
  obtain raw m where "spec = Some raw" "decodeMap Some raw = Inr (Some m)" "stored = Some (fst (stripDeclaredNulls (JObj m) s []))"
    using assms by (auto simp: normalizeSpecNulls_def split: option.splits sum.splits prod.splits if_splits)
  then show thesis using that decodeMap_Inr by metis
qed

lemma accepted_decode:
  assumes "validateNoInternalKeys num (Some (JObj fs)) = None"
  obtains w where "decodeMap num (JObj fs) = Inr (Some w)" "\<forall>k \<in> fst ` set w. \<not> isInternal k"
proof (cases "decodeMap num (JObj fs)")
  case (Inl e)
  then show thesis using assms by (simp add: validateNoInternalKeys_def)
next
  case (Inr data)
  moreover have "data \<noteq> None" using Inr by (auto simp: decodeMap_def split: option.splits json.splits)
  ultimately show thesis using assms that by (force simp: validateNoInternalKeys_def filter_empty_conv split: list.splits)
qed

text \<open>Removing nulls from an object without reserved keys does not show when it is read.\<close>

lemma strip_read:
  assumes "canon num (JObj w)" "wfSchema num s" "\<forall>k \<in> fst ` set w. \<not> isInternal k" "fst (stripDeclaredNulls (JObj w) s []) = JObj w'"
  shows "readSpec num (Some s) (Some (JObj w')) = readSpec num (Some s) (Some (JObj w))"
proof -
  obtain m where m: "fst (stripDeclaredNulls (JObj w) s []) = JObj m" "\<And>k. map_of m k = Option.bind (map_of w k) (keptMember s [] k)"
    using assms(1) by (auto intro: stripped_member [of w s "[]"])
  have "fst ` set w' \<subseteq> fst ` set w"
  proof
    fix k assume "k \<in> fst ` set w'"
    then have "map_of w' k \<noteq> None" by (simp add: map_of_eq_None_iff)
    then have "map_of w k \<noteq> None" using m assms(4) by (auto simp: bind_eq_Some_conv)
    then show "k \<in> fst ` set w" by (simp add: map_of_eq_None_iff)
  qed
  then have "filter (\<lambda>(k, v). \<not> isInternal k) w' = w'" "filter (\<lambda>(k, v). \<not> isInternal k) w = w"
    using assms(3) by (force simp: filter_id_conv)+
  moreover have "canon num (JObj w')" using strip_canon [OF assms(1), of s "[]"] assms(4) by simp
  moreover have "applyDefaults (JObj w') s True = applyDefaults (JObj w) s True" using strip_view [OF assms(1,2), of "[]" True] assms(4) by simp
  ultimately show ?thesis using assms(1) by (simp only: readSpec_canonical)
qed

text \<open>The members a client gave, with numbers as the server reads them.\<close>

definition givenMembers :: "(rat \<Rightarrow> rat option) \<Rightarrow> json option \<Rightarrow> (string \<times> json) list" where
  "givenMembers num spec =
     (case spec of
        None \<Rightarrow> []
      | Some raw \<Rightarrow> (case decodeMap num raw of Inr (Some w) \<Rightarrow> w | _ \<Rightarrow> []))"

text \<open>Numbers that the server can hold are read as they are.\<close>

lemma givenMembers_canon: "canon num (JObj w) \<Longrightarrow> givenMembers num (Some (JObj w)) = w"
  using decodeMap_object [OF canon_decodeAny] by (fastforce simp: givenMembers_def)

lemma readSpec_given:
  assumes "idemNum num" "wfSchema num s" "validateNoInternalKeys num spec = None" "readSpec num (Some s) spec = Inr x"
  shows "\<exists>m. x = Some (JObj m) \<and> defaultedFrom s (JObj (givenMembers num spec)) (JObj m)"
proof -
  let ?w = "givenMembers num spec"
  have w: "canon num (JObj ?w)" "\<forall>k \<in> fst ` set ?w. \<not> isInternal k" "readSpec num (Some s) spec = readSpec num (Some s) (Some (JObj ?w))"
  proof -
    have none: "readSpec num (Some s) (Some (JObj [])) = readSpec num (Some s) None" "readSpec num (Some s) (Some JNull) = readSpec num (Some s) None"
      by (simp_all add: readSpec_def filterInternalKeys_def applySpecDefaults_def decodeMap_def encodeMap_def try_bind_def)
    have "canon num (JObj ?w) \<and> (\<forall>k \<in> fst ` set ?w. \<not> isInternal k) \<and> readSpec num (Some s) spec = readSpec num (Some s) (Some (JObj ?w))"
    proof (cases spec)
      case (Some raw)
      show ?thesis
      proof (cases "\<exists>fs. raw = JObj fs")
        case True
        then obtain fs where raw: "raw = JObj fs" by blast
        from accepted_decode [of num fs] assms(3) Some raw obtain w where
          d: "decodeMap num raw = Inr (Some w)" "\<forall>k \<in> fst ` set w. \<not> isInternal k" by metis
        then have "canon num (JObj w)" using assms(1) decodeMap_Inr decodeAny_canon by blast
        then show ?thesis using d canonical_read [OF assms(1) d(1)] Some by (simp add: givenMembers_def)
      next
        case False
        then have "raw = JNull" using assms(3) Some
          by (cases raw) (simp_all add: validateNoInternalKeys_def decodeMap_def)
        then show ?thesis using none Some by (simp add: givenMembers_def decodeMap_def)
      qed
    qed (simp add: givenMembers_def none)
    then show "canon num (JObj ?w)" "\<forall>k \<in> fst ` set ?w. \<not> isInternal k"
      "readSpec num (Some s) spec = readSpec num (Some s) (Some (JObj ?w))" by blast+
  qed
  have "filter (\<lambda>(k, v). \<not> isInternal k) ?w = ?w" using w(2) by (auto simp: filter_id_conv)
  then obtain m where m: "applyDefaults (JObj ?w) s True = JObj m" "x = Some (JObj m)"
    using assms(4) applyDefaults_not_null [of ?w s True] unfolding w(3) readSpec_canonical [OF w(1)]
    by (auto split: json.splits)
  have "defaultedFrom s (JObj ?w) (applyDefaults (JObj ?w) s True)" by (rule applyDefaults_from [OF w(1) assms(2)]) simp
  then show ?thesis using m by simp
qed

text \<open>What a client stores is what it reads back. When a spec is accepted and its nulls are removed, the
  stored values are read exactly as the values the client sent would be: no key is lost and a removed
  null stands for the default it would have been given. And reading is stable: a client that writes
  back what it read, reads the same again.\<close>

lemma application_values_roundtrip:
  assumes "idemNum num" "wfSchema num s" "validateNoInternalKeys num spec = None"
    and "normalizeSpecNulls (Some s) spec = Inr (stored, stripped)"
  shows "readSpec num (Some s) stored = readSpec num (Some s) spec \<and>
    (\<forall>x. readSpec num (Some s) stored = Inr x \<longrightarrow> readSpec num (Some s) x = Inr x)"
proof -
  have "readSpec num (Some s) stored = readSpec num (Some s) spec"
  proof (cases "stored = spec")
    case False
    then obtain fs m where m: "spec = Some (JObj fs)" "decodeAny Some (JObj fs) = Some (JObj m)"
        "stored = Some (fst (stripDeclaredNulls (JObj m) s []))"
      using normalized_cases [OF assms(4)] by blast
    obtain w where w: "decodeMap num (JObj fs) = Inr (Some w)" "\<forall>k \<in> fst ` set w. \<not> isInternal k"
      using accepted_decode assms(3) m(1) by blast
    then have cw: "decodeAny num (JObj fs) = Some (JObj w)" "canon num (JObj w)"
      using assms(1) decodeAny_canon decodeMap_Inr by blast+
    have cm: "canon Some (JObj m)" using decodeAny_canon [OF _ m(2)] by (simp add: idemNum_def)
    obtain m' where m': "fst (stripDeclaredNulls (JObj m) s []) = JObj m'" using strip_members by blast
    obtain w' where w': "fst (stripDeclaredNulls (JObj w) s []) = JObj w'" using strip_members by blast
    have "decodeAny num (JObj m') = Some (JObj w')"
      using strip_decode [OF cm decodeAny_twice [OF m(2) cw(1)], of s "[]"] m' w' by simp
    then have "readSpec num (Some s) stored = readSpec num (Some s) (Some (JObj w'))"
      using canonical_read [OF assms(1)] decodeMap_Inr m(3) m' by metis
    also have "\<dots> = readSpec num (Some s) (Some (JObj w))" using strip_read [OF cw(2) assms(2) w(2) w'] .
    also have "\<dots> = readSpec num (Some s) spec" using canonical_read [OF assms(1) w(1)] m(1) by simp
    finally show ?thesis .
  qed simp
  then show ?thesis using readSpec_fixed [OF assms(1,2)] by blast
qed

text \<open>The value at a path of keys, and the paths at which a null is to be removed.\<close>

fun valueAt :: "json \<Rightarrow> string list \<Rightarrow> json option" where
  "valueAt v [] = Some v"
| "valueAt v (k # ks) = (case v of JObj m \<Rightarrow> Option.bind (map_of m k) (\<lambda>c. valueAt c ks) | _ \<Rightarrow> None)"

fun nullAt :: "Structural \<Rightarrow> string list \<Rightarrow> json \<Rightarrow> bool" where
  "nullAt s [] v \<longleftrightarrow> False"
| "nullAt s (k # ks) v \<longleftrightarrow> (case (v, map_of (stProperties s) k) of
     (JObj m, Some prop) \<Rightarrow> (case map_of m k of
         None \<Rightarrow> False
       | Some c \<Rightarrow> if ks = [] then c = JNull \<and> repairable s k prop else nullAt prop ks c)
   | _ \<Rightarrow> False)"

lemma nullAt_Cons:
  "nullAt s (k # ks) (JObj m) \<longleftrightarrow> (\<exists>prop c. map_of (stProperties s) k = Some prop \<and> map_of m k = Some c \<and>
     (if ks = [] then c = JNull \<and> repairable s k prop else nullAt prop ks c))"
  by (auto split: option.splits)

lemma nullAt_other: "(\<And>m. v \<noteq> JObj m) \<Longrightarrow> \<not> nullAt s ks v"
  by (cases ks) (auto split: json.splits)

declare nullAt.simps(2) [simp del]

lemma strip_null: "fst (stripDeclaredNulls c q p) = JNull \<longleftrightarrow> c = JNull"
  using strip_members [of _ q p] strip_other [of c q p] by (cases c) auto

lemma strip_values:
  "canon num v \<Longrightarrow> (\<And>m. x \<noteq> JObj m) \<Longrightarrow>
     valueAt (fst (stripDeclaredNulls v s path)) ks = Some x \<longleftrightarrow> valueAt v ks = Some x \<and> \<not> nullAt s ks v"
proof (induction ks arbitrary: v s path)
  case Nil
  show ?case
  proof (cases "\<exists>m. v = JObj m")
    case True
    then obtain m n where "v = JObj m" "fst (stripDeclaredNulls v s path) = JObj n" using strip_members by blast
    then show ?thesis using Nil.prems(2) by auto
  next
    case False
    then show ?thesis using strip_other by simp
  qed
next
  case (Cons k ks)
  show ?case
  proof (cases "\<exists>m. v = JObj m")
    case True
    then obtain m where v: "v = JObj m" "sorted_wrt (<) (map fst m)" using Cons.prems(1) by auto
    obtain n where n: "fst (stripDeclaredNulls (JObj m) s path) = JObj n" "\<And>k. map_of n k = Option.bind (map_of m k) (keptMember s path k)"
      by (rule stripped_member [OF v(2), of s path]) blast
    have "valueAt JNull ks = Some x \<longleftrightarrow> ks = [] \<and> x = JNull" by (cases ks) auto
    moreover have "\<not> nullAt q ks JNull" for q by (simp add: nullAt_other)
    moreover have "canon num c" if "map_of m k = Some c" for c using canon_members [OF Cons.prems(1) [unfolded v(1)] that] .
    ultimately show ?thesis using Cons.IH Cons.prems(2)
      by (cases "map_of m k"; cases "map_of (stProperties s) k"; cases "ks = []") (auto simp: v(1) n nullAt_Cons keptMember_def)
  next
    case False
    then show ?thesis using strip_other [of v] nullAt_other [of v] by simp
  qed
qed

lemma strip_complete: "canon num v \<Longrightarrow> \<not> nullAt s ks (fst (stripDeclaredNulls v s path))"
proof (induction ks arbitrary: v s path)
  case (Cons k ks)
  show ?case
  proof (cases "\<exists>m. v = JObj m")
    case True
    then obtain m where v: "v = JObj m" "sorted_wrt (<) (map fst m)" using Cons.prems(1) by auto
    obtain n where n: "fst (stripDeclaredNulls (JObj m) s path) = JObj n" "\<And>k. map_of n k = Option.bind (map_of m k) (keptMember s path k)"
      by (rule stripped_member [OF v(2), of s path]) blast
    have "canon num c" if "map_of m k = Some c" for c using canon_members [OF Cons.prems(1) [unfolded v(1)] that] .
    moreover have "\<not> nullAt q ks JNull" for q by (simp add: nullAt_other)
    ultimately show ?thesis using Cons.IH
      by (cases "map_of m k"; cases "map_of (stProperties s) k"; cases "ks = []") (auto simp: v(1) n nullAt_Cons keptMember_def strip_null)
  next
    case False
    then show ?thesis using strip_other [of v] nullAt_other [of v] by simp
  qed
qed simp

definition pathsOf :: "Structural \<Rightarrow> string \<Rightarrow> string \<Rightarrow> json \<Rightarrow> string list" where
  "pathsOf s path k c =
     (case map_of (stProperties s) k of
        None \<Rightarrow> []
      | Some prop \<Rightarrow> if c = JNull then (if repairable s k prop then [joinFieldPath path k] else [])
          else snd (stripDeclaredNulls c prop (joinFieldPath path k)))"

lemma strip_paths_members: "snd (stripDeclaredNulls (JObj m) s path) = concat (map (\<lambda>(k, c). pathsOf s path k c) m)"
proof -
  let ?r = "\<lambda>(name, child). case map_of (stProperties s) name of
      None \<Rightarrow> ([(name, child)], [])
    | Some prop \<Rightarrow> if child = JNull then (if repairable s name prop then ([], [joinFieldPath path name]) else ([(name, child)], []))
        else let r = stripDeclaredNulls child prop (joinFieldPath path name) in ([(name, fst r)], snd r)"
  have "snd (?r p) = (\<lambda>(k, c). pathsOf s path k c) p" for p
    by (cases p) (simp add: pathsOf_def Let_def split: option.split)
  then have "concat (map snd (map ?r m)) = concat (map (\<lambda>(k, c). pathsOf s path k c) m)" unfolding map_map comp_def by presburger
  then show ?thesis by (simp only: stripDeclaredNulls.simps [of "JObj m"] json.case Let_def snd_conv)
qed

lemma strip_paths:
  "canon num v \<Longrightarrow> set (snd (stripDeclaredNulls v s path)) = (foldl joinFieldPath path) ` {ks. nullAt s ks v}"
proof (induction s arbitrary: v path rule: measure_induct_rule [of size])
  case (less s)
  show ?case
  proof (cases "\<exists>m. v = JObj m")
    case True
    then obtain m where v: "v = JObj m" "sorted_wrt (<) (map fst m)" using less.prems by auto
    then have v: "v = JObj m" "distinct (map fst m)" by (blast dest: strict_sorted_imp)+
    have one: "set (pathsOf s path k c) = (\<lambda>ks. foldl joinFieldPath path (k # ks)) ` {ks. nullAt s (k # ks) v}" if c: "map_of m k = Some c" for k c
    proof (cases "map_of (stProperties s) k")
      case None
      then show ?thesis by (auto simp: pathsOf_def v(1) nullAt_Cons)
    next
      case (Some q)
      show ?thesis
      proof (cases "c = JNull")
        case True
        then have "nullAt s (k # ks) v \<longleftrightarrow> ks = [] \<and> repairable s k q" for ks
          using Some c nullAt_other [of JNull q ks] by (simp add: v(1) nullAt_Cons)
        then show ?thesis using True Some by (auto simp: pathsOf_def)
      next
        case False
        have "nullAt s (k # ks) v \<longleftrightarrow> nullAt q ks c" for ks using Some c False by (cases "ks = []") (simp_all add: v(1) nullAt_Cons)
        moreover have "canon num c" using canon_members [OF less.prems [unfolded v(1)] c] .
        ultimately show ?thesis
          using False Some less.IH [OF subschema_size [OF subschemaI(1) [OF Some]]] by (simp add: pathsOf_def)
      qed
    qed
    have reported: "p \<in> set (snd (stripDeclaredNulls v s path)) \<longleftrightarrow> (\<exists>k c. map_of m k = Some c \<and> p \<in> set (pathsOf s path k c))" for p
      by (auto simp: v(1) strip_paths_members map_of_eq_Some_iff [OF v(2)])
    have found: "(\<exists>k c. map_of m k = Some c \<and> p \<in> set (pathsOf s path k c)) \<longleftrightarrow> (\<exists>k ks. nullAt s (k # ks) v \<and> p = foldl joinFieldPath path (k # ks))" for p
    proof
      assume "\<exists>k c. map_of m k = Some c \<and> p \<in> set (pathsOf s path k c)"
      then show "\<exists>k ks. nullAt s (k # ks) v \<and> p = foldl joinFieldPath path (k # ks)" using one by blast
    next
      assume "\<exists>k ks. nullAt s (k # ks) v \<and> p = foldl joinFieldPath path (k # ks)"
      then obtain k ks where k: "nullAt s (k # ks) v" "p = foldl joinFieldPath path (k # ks)" by blast
      moreover obtain c where c: "map_of m k = Some c" using k(1) by (auto simp: v(1) nullAt_Cons)
      ultimately show "\<exists>k c. map_of m k = Some c \<and> p \<in> set (pathsOf s path k c)" using one [OF c] by blast
    qed
    have "nullAt s ks v \<Longrightarrow> \<exists>k ks'. ks = k # ks'" for ks by (cases ks) auto
    then have "p \<in> set (snd (stripDeclaredNulls v s path)) \<longleftrightarrow> p \<in> foldl joinFieldPath path ` {ks. nullAt s ks v}" for p
      unfolding reported found by blast
    then show ?thesis by blast
  next
    case False
    then show ?thesis using strip_other [of v] nullAt_other [of v] by simp
  qed
qed

text \<open>The normalisation removes exactly the nulls it reports. Afterwards no required property with a
  non-null default is null on a declared path; every scalar and every array elsewhere is as before;
  and the warning names the removed paths and no other, in order.\<close>

theorem normalizeSpecNulls_exact:
  assumes "decodeAny Some raw = Some (JObj m)" "normalizeSpecNulls (Some s) (Some raw) = Inr (Some stored, stripped)"
  shows "\<exists>m'. decodeAny Some stored = Some (JObj m') \<and> (\<forall>ks. \<not> nullAt s ks (JObj m')) \<and>
    (\<forall>ks x. (\<forall>n. x \<noteq> JObj n) \<longrightarrow> (valueAt (JObj m') ks = Some x \<longleftrightarrow> valueAt (JObj m) ks = Some x \<and> \<not> nullAt s ks (JObj m))) \<and>
    set stripped = foldl joinFieldPath [] ` {ks. nullAt s ks (JObj m)} \<and> sorted stripped"
proof -
  have m: "canon Some (JObj m)" using decodeAny_canon [OF _ assms(1)] by (simp add: idemNum_def)
  have raw: "decodeMap Some raw = Inr (Some m)" using assms(1) by (cases raw) (auto simp: decodeMap_Inr)
  let ?r = "stripDeclaredNulls (JObj m) s []"
  have set: "sorted stripped" "set stripped = foldl joinFieldPath [] ` {ks. nullAt s ks (JObj m)}"
    using assms(2) raw strip_paths [OF m, of s "[]"] by (auto simp: normalizeSpecNulls_def split: prod.splits if_splits)
  show ?thesis
  proof (cases "snd ?r = []")
    case True
    then have "stored = raw" using assms(2) raw by (auto simp: normalizeSpecNulls_def split: prod.splits)
    moreover have "\<not> nullAt s ks (JObj m)" for ks using strip_paths [OF m, of s "[]"] True by auto
    ultimately show ?thesis using assms(1) set by auto
  next
    case False
    then have "stored = fst ?r" using assms(2) raw by (auto simp: normalizeSpecNulls_def split: prod.splits)
    moreover obtain m' where m': "fst ?r = JObj m'" using strip_members by blast
    ultimately have "decodeAny Some stored = Some (JObj m')" using canon_decodeAny [OF strip_canon [OF m], of s "[]"] by metis
    then show ?thesis using strip_complete [OF m, of s _ "[]"] strip_values [OF m, of _ s "[]"] set m' by metis
  qed
qed

subsection \<open>Examples\<close>

definition plainSchema :: "json \<Rightarrow> Structural" where
  "plainSchema d = Structural ''integer'' [] None None d False []"

definition demoSchema :: Structural where
  "demoSchema = Structural ''object'' [(''replicas'', plainSchema (JNum 2)), (''size'', plainSchema JNull)] None None JNull False [''replicas'']"

definition demoSpec :: json where
  "demoSpec = JObj [(''size'', JNum 5), (''replicas'', JNull)]"

lemmas demoValues_defs = demoSchema_def plainSchema_def demoSpec_def

lemma demoSchema_wf: "wfSchema Some demoSchema"
proof -
  have "wfSchema Some (plainSchema (JNum n))" "wfSchema Some (plainSchema JNull)" for n
    unfolding wfSchema.simps [of _ "plainSchema d" for d] by (simp_all add: plainSchema_def)
  then show ?thesis unfolding wfSchema.simps [of _ demoSchema] by (simp add: demoSchema_def effType_def)
qed

lemma demoSpec_decoded: "decodeAny Some demoSpec = Some (JObj [(''replicas'', JNull), (''size'', JNum 5)])"
proof -
  have "\<not> ''replicas'' < ''replicas''" "''replicas'' < ''size''" by code_simp+
  then show ?thesis by (simp add: demoSpec_def)
qed

lemma demoSpec_normalized: "normalizeSpecNulls (Some demoSchema) (Some demoSpec) = Inr (Some (JObj [(''size'', JNum 5)]), [''replicas''])"
proof -
  have "decodeMap Some demoSpec = Inr (Some [(''replicas'', JNull), (''size'', JNum 5)])"
    using demoSpec_decoded by (simp only: decodeMap_Inr) (simp add: demoSpec_def)
  moreover have "stripDeclaredNulls (JObj [(''replicas'', JNull), (''size'', JNum 5)]) demoSchema [] = (JObj [(''size'', JNum 5)], [''replicas''])"
    by (simp add: stripDeclaredNulls.simps [of "JObj x" for x] strip_other demoValues_defs repairable_def joinFieldPath_def Let_def)
  ultimately show ?thesis by (simp add: normalizeSpecNulls_def)
qed

theorem normalizeSpecNulls_exact_witness: "sorted [''replicas''] \<and> nullAt demoSchema [''replicas''] (JObj [(''replicas'', JNull), (''size'', JNum 5)])"
proof -
  have "foldl joinFieldPath [] ` {ks. nullAt demoSchema ks (JObj [(''replicas'', JNull), (''size'', JNum 5)])} = {''replicas''}"
    using normalizeSpecNulls_exact [OF demoSpec_decoded demoSpec_normalized] by auto
  then show ?thesis by (simp add: nullAt_Cons demoValues_defs repairable_def)
qed

text \<open>Numbers are read through a float64 although the normalisation keeps them: an integer beyond 2^53 is
  stored as sent and read back rounded, so writing back what was read changes it.\<close>

theorem large_number_rounded:
  assumes "num (2 ^ 53 + 1) = Some (2 ^ 53)" "num (2 ^ 53) = Some (2 ^ 53)"
  shows "normalizeSpecNulls (Some demoSchema) (Some (JObj [(''size'', JNum (2 ^ 53 + 1))])) = Inr (Some (JObj [(''size'', JNum (2 ^ 53 + 1))]), []) \<and>
    readSpec num None (Some (JObj [(''size'', JNum (2 ^ 53 + 1))])) = Inr (Some (JObj [(''size'', JNum (2 ^ 53))]))"
  using assms by (simp add: normalizeSpecNulls_def readSpec_def filterInternalKeys_def applySpecDefaults_def decodeMap_def encodeMap_def isInternal_def
      stripDeclaredNulls.simps [of "JObj x" for x] strip_other demoValues_defs Let_def)

end
