(* ===== verification/Api_Gate.thy ===== *)
theory Api_Gate
  imports Api_Schema
begin

text \<open>
  The API compatibility gate (internal/apigate and cmd/api-gate): two checkouts are read into
  snapshots, which are maps of resources by group and plural, and the snapshots are compared. A
  snapshot is an association list with distinct keys, as are the versions of a resource. The
  decoding of YAML and JSON into the structs of the code is an argument, the splitting and scanning
  of the text by the regular expressions of the code is written out. Objects of decoded JSON list
  their keys in one fixed order, so that equality is \<open>reflect.DeepEqual\<close>.
\<close>

subsection \<open>Data\<close>

datatype Category = NewGroup | NewResource | Breaking | RemovedGroup | RemovedResource

datatype Source = SourceCRD | SourceCozyRD | SourceAPIServer | SourceAPIService

record Resource =
  reGroup :: string
  reKind :: string
  rePlural :: string
  reSource :: Source
  reOrigin :: string
  reVersions :: "(string \<times> Schema option) list"

type_synonym resourceKey = "string \<times> string"

type_synonym Snapshot = "(resourceKey \<times> Resource) list"

record Finding =
  fiCategory :: Category
  fiGroup :: string
  fiKind :: string
  fiPlural :: string
  fiSource :: Source
  fiOrigin :: string
  fiDetail :: string

definition keyOf :: "Resource \<Rightarrow> resourceKey" where
  "keyOf r = (reGroup r, rePlural r)"

definition groupsOf :: "Snapshot \<Rightarrow> string list" where
  "groupsOf s = map (fst \<circ> fst) s"

subsection \<open>Names of applications\<close>

definition NameSchemaExtension :: string where "NameSchemaExtension = ''x-cozystack-name''"

record NameSchema =
  nsType :: string
  nsDescription :: string
  nsMinLength :: "int option"
  nsMaxLength :: "int option"
  nsPattern :: string

definition nameSchemaKeywords :: "string list" where
  "nameSchemaKeywords = [''type'', ''description'', ''minLength'', ''maxLength'', ''pattern'']"

definition jsonSchemaAnnotations :: "string list" where
  "jsonSchemaAnnotations = [''title'', ''default'', ''examples'', ''deprecated'', ''readOnly'', ''writeOnly'', ''$comment'']"

fun checkKeywords :: "(string \<times> json) list \<Rightarrow> string option" where
  "checkKeywords [] = None"
| "checkKeywords ((k, v) # rest) =
     (if k \<in> set jsonSchemaAnnotations \<or> prefix ''x-'' k then checkKeywords rest
      else if k \<notin> set nameSchemaKeywords then Some (''unsupported keyword '' @ k)
      else if v = JNull then Some (k @ '' is null'')
      else checkKeywords rest)"

text \<open>The fields of the struct as \<open>encoding/json\<close> decodes them: absent is the zero value, a value of
  another type an error.\<close>

definition decodeString :: "(string \<times> json) list \<Rightarrow> string \<Rightarrow> string + string" where
  "decodeString d k = (case map_of d k of None \<Rightarrow> Inr [] | Some (JStr s) \<Rightarrow> Inr s | _ \<Rightarrow> Inl ''decode'')"

definition decodeInt :: "(string \<times> json) list \<Rightarrow> string \<Rightarrow> string + int option" where
  "decodeInt d k =
     (case map_of d k of
        None \<Rightarrow> Inr None
      | Some (JNum n) \<Rightarrow> if of_int \<lfloor>n\<rfloor> = n then (case inIntRange \<lfloor>n\<rfloor> of None \<Rightarrow> Inl ''decode'' | Some i \<Rightarrow> Inr (Some i)) else Inl ''decode''
      | _ \<Rightarrow> Inl ''decode'')"

definition decodeNameSchema :: "(string \<times> json) list \<Rightarrow> string + NameSchema" where
  "decodeNameSchema d =
     try_bind (decodeString d ''type'') (\<lambda>t.
     try_bind (decodeString d ''description'') (\<lambda>ds.
     try_bind (decodeInt d ''minLength'') (\<lambda>mn.
     try_bind (decodeInt d ''maxLength'') (\<lambda>mx.
     try_bind (decodeString d ''pattern'') (\<lambda>p.
       Inr \<lparr>nsType = t, nsDescription = ds, nsMinLength = mn, nsMaxLength = mx, nsPattern = p\<rparr>)))))"

definition ParseNameDeclaration :: "(string \<Rightarrow> bool) \<Rightarrow> json \<Rightarrow> string + NameSchema" where
  "ParseNameDeclaration compiles declared =
     (case declared of
        JNull \<Rightarrow> Inl ''declaration is null''
      | JObj keywords \<Rightarrow>
          (case checkKeywords keywords of
             Some e \<Rightarrow> Inl e
           | None \<Rightarrow> try_bind (decodeNameSchema keywords) (\<lambda>ns.
               if nsType ns \<noteq> [] \<and> nsType ns \<noteq> ''string'' then Inl ''a name is a string''
               else if (case nsMaxLength ns of None \<Rightarrow> False | Some mx \<Rightarrow> mx < 1) then Inl ''maxLength admits no name''
               else if (case nsMinLength ns of None \<Rightarrow> False | Some mn \<Rightarrow> mn < 0) then Inl ''minLength is negative''
               else if (case (nsMinLength ns, nsMaxLength ns) of (Some mn, Some mx) \<Rightarrow> mx < mn | _ \<Rightarrow> False)
                 then Inl ''minLength exceeds maxLength''
               else if nsPattern ns \<noteq> [] \<and> \<not> compiles (nsPattern ns) then Inl ''pattern does not compile as RE2''
               else Inr ns))
      | _ \<Rightarrow> Inl ''decode'')"

definition nameDeclaration :: "Schema option \<Rightarrow> Schema option" where
  "nameDeclaration s =
     (case map_of (schemaOr s) NameSchemaExtension of
        Some (JObj declared) \<Rightarrow> Some (filter (\<lambda>(k, v). k \<noteq> ''type'') declared)
      | _ \<Rightarrow> None)"

record gateLib =
  glFmt :: fmtLib
  glCompiles :: "string \<Rightarrow> bool" \<comment> \<open>\<open>regexp.Compile\<close>\<close>

definition diffNameSchema :: "gateLib \<Rightarrow> Schema option \<Rightarrow> Schema option \<Rightarrow> string list" where
  "diffNameSchema G base head =
     (case map_of (schemaOr head) NameSchemaExtension of
        None \<Rightarrow> []
      | Some headRaw \<Rightarrow>
          if (case map_of (schemaOr base) NameSchemaExtension of None \<Rightarrow> JNull | Some x \<Rightarrow> x) = headRaw then []
          else case ParseNameDeclaration (glCompiles G) headRaw of
            Inl e \<Rightarrow> [''metadata.name: '' @ NameSchemaExtension @ '' cannot be enforced, so every create of this kind is refused: '' @ e]
          | Inr _ \<Rightarrow> diffSchema (glFmt G) ''metadata.name'' (nameDeclaration base) (nameDeclaration head))"

subsection \<open>The comparison of snapshots\<close>

definition diffVersion :: "gateLib \<Rightarrow> Resource \<Rightarrow> Resource \<Rightarrow> string \<Rightarrow> string list" where
  "diffVersion G base head v =
     (case map_of (reVersions head) v of
        None \<Rightarrow> [''served version '' @ fmQuote (glFmt G) v @ '' was removed'']
      | Some headSchema \<Rightarrow>
          let baseSchema = (case map_of (reVersions base) v of None \<Rightarrow> None | Some s \<Rightarrow> s) in
          map (\<lambda>c. ''['' @ v @ ''] '' @ c) (diffSchema (glFmt G) ''spec'' baseSchema headSchema) @
          map (\<lambda>c. ''['' @ v @ ''] '' @ c) (diffNameSchema G baseSchema headSchema))"

definition diffResource :: "gateLib \<Rightarrow> Resource \<Rightarrow> Resource \<Rightarrow> string list" where
  "diffResource G base head = concat (map (diffVersion G base head) (keysSorted (map fst (reVersions base))))"

definition displayKind :: "Resource \<Rightarrow> string" where
  "displayKind r = (if reKind r \<noteq> [] then reKind r else rePlural r)"

definition sortedResources :: "Snapshot \<Rightarrow> Resource list" where
  "sortedResources s = sort_key keyOf (map snd s)"

definition findingFor :: "Category \<Rightarrow> string \<Rightarrow> Resource \<Rightarrow> Finding" where
  "findingFor cat detail r =
     \<lparr>fiCategory = cat, fiGroup = reGroup r, fiKind = reKind r, fiPlural = rePlural r, fiSource = reSource r,
      fiOrigin = reOrigin r, fiDetail = detail\<rparr>"

text \<open>One finding for each group that is not among the known ones, and the groups found.\<close>

fun groupFindings :: "(Resource \<Rightarrow> Finding) \<Rightarrow> string list \<Rightarrow> Resource list \<Rightarrow> string list \<Rightarrow> Finding list \<times> string list" where
  "groupFindings mk known [] found = ([], found)"
| "groupFindings mk known (r # rs) found =
     (if reGroup r \<in> set known \<or> reGroup r \<in> set found then groupFindings mk known rs found
      else (let (fs, found') = groupFindings mk known rs (found @ [reGroup r]) in (mk r # fs, found')))"

definition newResources :: "(Resource \<Rightarrow> Finding) \<Rightarrow> Snapshot \<Rightarrow> string list \<Rightarrow> Snapshot \<Rightarrow> Finding list" where
  "newResources mk other groups s =
     map mk (filter (\<lambda>r. map_of other (keyOf r) = None \<and> reGroup r \<notin> set groups) (sortedResources s))"

definition breakingFindings :: "gateLib \<Rightarrow> Snapshot \<Rightarrow> Snapshot \<Rightarrow> Finding list" where
  "breakingFindings G base head =
     concat (map (\<lambda>r. case map_of base (keyOf r) of
         None \<Rightarrow> []
       | Some prev \<Rightarrow> map (\<lambda>d. findingFor Breaking d r) (diffResource G prev r)) (sortedResources head))"

definition groupIntroduced :: "gateLib \<Rightarrow> Resource \<Rightarrow> Finding" where
  "groupIntroduced G r = findingFor NewGroup (''API group '' @ fmQuote (glFmt G) (reGroup r) @ '' is introduced by this change'') r"

definition resourceAdded :: "gateLib \<Rightarrow> Resource \<Rightarrow> Finding" where
  "resourceAdded G r =
     findingFor NewResource (''resource '' @ rePlural r @ '' ('' @ displayKind r @ '') is added to group '' @ fmQuote (glFmt G) (reGroup r)) r"

definition groupRemoved :: "gateLib \<Rightarrow> Resource \<Rightarrow> Finding" where
  "groupRemoved G r = findingFor RemovedGroup (''API group '' @ fmQuote (glFmt G) (reGroup r) @ '' is removed by this change'') r"

definition resourceRemoved :: "gateLib \<Rightarrow> Resource \<Rightarrow> Finding" where
  "resourceRemoved G r =
     findingFor RemovedResource (''resource '' @ rePlural r @ '' ('' @ displayKind r @ '') is removed from group '' @ fmQuote (glFmt G) (reGroup r)) r"

definition Classify :: "gateLib \<Rightarrow> Snapshot \<Rightarrow> Snapshot \<Rightarrow> Finding list" where
  "Classify G base head =
     (let (newF, newGroups) = groupFindings (groupIntroduced G) (groupsOf base) (sortedResources head) [];
          newR = newResources (resourceAdded G) base newGroups head;
          (goneF, removedGroups) = groupFindings (groupRemoved G) (groupsOf head) (sortedResources base) [];
          goneR = newResources (resourceRemoved G) head removedGroups base
      in newF @ newR @ goneF @ goneR @ breakingFindings G base head)"

subsection \<open>Reading a checkout\<close>

record cozyDoc =
  cdKind :: string
  cdAppKind :: string
  cdPlural :: string
  cdOpenAPISchema :: string

record crdDoc =
  crGroup :: string
  crKind :: string
  crPlural :: string
  crVersions :: "(string \<times> bool \<times> Schema option) list" \<comment> \<open>name, served, schema\<close>

record parseLib =
  plCozyRD :: "string \<Rightarrow> cozyDoc option" \<comment> \<open>\<open>yaml.Unmarshal\<close> into the structs of the code\<close>
  plKind :: "string \<Rightarrow> string option"
  plCRD :: "string \<Rightarrow> crdDoc option"
  plAPIService :: "string \<Rightarrow> (string \<times> string) option"
  plJson :: "string \<Rightarrow> Schema option option" \<comment> \<open>\<open>json.Unmarshal\<close> into a map, which \<open>null\<close> leaves nil\<close>

definition appsGroup :: string where "appsGroup = ''apps.cozystack.io''"
definition crdGroupBase :: string where "crdGroupBase = ''cozystack.io''"
definition apiServicePlural :: string where "apiServicePlural = ''$apiservice''"
definition unmappedStoragePrefix :: string where "unmappedStoragePrefix = ''unmapped-apiserver-storage:''"
definition apiserverGoFile :: string where "apiserverGoFile = ''pkg/apiserver/apiserver.go''"
definition maxYAMLFileSize :: nat where "maxYAMLFileSize = 8 * 2 ^ 20"

definition ParseCozyRD :: "parseLib \<Rightarrow> string \<Rightarrow> string \<Rightarrow> string + Resource option" where
  "ParseCozyRD P origin data =
     (case plCozyRD P data of
        None \<Rightarrow> Inl (origin @ '': not valid YAML'')
      | Some doc \<Rightarrow>
          if cdKind doc \<noteq> ''ApplicationDefinition'' then Inr None
          else if cdPlural doc = [] then Inl (origin @ '': ApplicationDefinition has empty spec.application.plural'')
          else
            let res = \<lparr>reGroup = appsGroup, reKind = cdAppKind doc, rePlural = cdPlural doc, reSource = SourceCozyRD,
                       reOrigin = origin, reVersions = []\<rparr> in
            if trimSpace (cdOpenAPISchema doc) \<noteq> [] then
              (case plJson P (cdOpenAPISchema doc) of
                 None \<Rightarrow> Inl (origin @ '': spec.application.openAPISchema is not valid JSON'')
               | Some sch \<Rightarrow> Inr (Some (res\<lparr>reVersions := [(''v1alpha1'', sch)]\<rparr>)))
            else Inr (Some res))"

text \<open>The regular expression \<open>helmDirectiveLine\<close>: from the start of a line, blanks and braces up to the
  last closing braces of the line, with the blanks and the line break behind them.\<close>

definition isBlank :: "char \<Rightarrow> bool" where
  "isBlank c \<longleftrightarrow> c = CHR '' '' \<or> c = CHR 0x09"

fun lastClosing :: "string \<Rightarrow> string option" where
  "lastClosing [] = None"
| "lastClosing (c # cs) =
     (case lastClosing cs of
        Some rest \<Rightarrow> Some rest
      | None \<Rightarrow> if prefix ''}}'' (c # cs) then Some (drop 2 (c # cs)) else None)"

text \<open>What is left of a line without its line break, and whether the line break goes as well.\<close>

definition stripDirective :: "string \<Rightarrow> string \<times> bool" where
  "stripDirective line =
     (case cutPrefix (dropWhile isBlank line) ''{{'' of
        None \<Rightarrow> (line, False)
      | Some inside \<Rightarrow>
          (case lastClosing inside of
             None \<Rightarrow> (line, False)
           | Some rest \<Rightarrow>
               let rest1 = dropWhile isBlank rest;
                   rest2 = (if prefix [CHR 0x0D] rest1 then tl rest1 else rest1) in (rest2, rest2 = [])))"

fun stripLines :: "string list \<Rightarrow> string" where
  "stripLines [] = []"
| "stripLines [l] = fst (stripDirective l)"
| "stripLines (l # ls) =
     (case stripDirective l of (rest, joined) \<Rightarrow> rest @ (if joined then [] else [CHR 0x0A]) @ stripLines ls)"

definition helmStripped :: "string \<Rightarrow> string" where
  "helmStripped doc = stripLines (splitOn (CHR 0x0A) doc)"

definition unmarshalYAMLDoc :: "(string \<Rightarrow> 'a option) \<Rightarrow> string \<Rightarrow> 'a option" where
  "unmarshalYAMLDoc unmarshal doc = (case unmarshal doc of Some x \<Rightarrow> Some x | None \<Rightarrow> unmarshal (helmStripped doc))"

definition mightBeAPIManifest :: "string \<Rightarrow> bool" where
  "mightBeAPIManifest data \<longleftrightarrow> sublist ''CustomResourceDefinition'' data \<or> sublist ''APIService'' data"

definition docKind :: "parseLib \<Rightarrow> string \<Rightarrow> string" where
  "docKind P doc =
     (if \<not> mightBeAPIManifest doc then []
      else case unmarshalYAMLDoc (plKind P) doc of None \<Rightarrow> [] | Some k \<Rightarrow> k)"

definition crdFromDoc :: "parseLib \<Rightarrow> string \<Rightarrow> string \<Rightarrow> string + Resource option" where
  "crdFromDoc P origin doc =
     (if docKind P doc \<noteq> ''CustomResourceDefinition'' then Inr None
      else case unmarshalYAMLDoc (plCRD P) doc of
        None \<Rightarrow> Inr None
      | Some d \<Rightarrow>
          if crGroup d = [] \<or> crPlural d = [] then Inl (origin @ '': CRD missing spec.group or spec.names.plural'')
          else Inr (Some \<lparr>reGroup = crGroup d, reKind = crKind d, rePlural = crPlural d, reSource = SourceCRD, reOrigin = origin,
                 reVersions = fold (\<lambda>(n, served, sch) vs. if n = [] \<or> \<not> served then vs else AList.update n sch vs) (crVersions d) []\<rparr>))"

definition apiServiceFromDoc :: "parseLib \<Rightarrow> string \<Rightarrow> string \<Rightarrow> Resource option" where
  "apiServiceFromDoc P origin doc =
     (if docKind P doc \<noteq> ''APIService'' then None
      else case unmarshalYAMLDoc (plAPIService P) doc of
        None \<Rightarrow> None
      | Some (grp, version) \<Rightarrow>
          if grp = [] \<or> version = [] then None
          else Some \<lparr>reGroup = grp, reKind = ''(aggregated apiserver)'', rePlural = apiServicePlural, reSource = SourceAPIService,
                 reOrigin = origin, reVersions = [(version, Some [])]\<rparr>)"

text \<open>The regular expression \<open>yamlDocSeparator\<close>: at the start of a line three dashes and the white space
  up to the end of a later line. The rest of the text after a match, if there is one.\<close>

definition isSpaceRE :: "char \<Rightarrow> bool" where
  "isSpaceRE c \<longleftrightarrow> c \<in> {CHR '' '', CHR 0x09, CHR 0x0A, CHR 0x0C, CHR 0x0D}"

definition separatorRest :: "string \<Rightarrow> string option" where
  "separatorRest text =
     (case cutPrefix text ''---'' of
        None \<Rightarrow> None
      | Some after \<Rightarrow>
          let spaces = takeWhile isSpaceRE after; rest = dropWhile isSpaceRE after in
          if rest = [] then Some []
          else if CHR 0x0A \<in> set spaces
            then Some (CHR 0x0A # rev (takeWhile (\<lambda>c. c \<noteq> CHR 0x0A) (rev spaces)) @ rest)
          else None)"

lemma separatorRest_length: "separatorRest text = Some rest \<Longrightarrow> length rest < length text"
proof -
  assume a: "separatorRest text = Some rest"
  then obtain after where after: "cutPrefix text ''---'' = Some after" by (auto simp: separatorRest_def split: option.splits)
  let ?s = "takeWhile isSpaceRE after" and ?r = "dropWhile isSpaceRE after"
  have "length ?s + length ?r = length after" by (metis length_append takeWhile_dropWhile_id)
  moreover have "length (takeWhile (\<lambda>c. c \<noteq> CHR 0x0A) (rev ?s)) \<le> length ?s" by (metis length_rev length_takeWhile_le)
  moreover have "length text = length after + 3" using after by simp
  ultimately show ?thesis using a unfolding separatorRest_def after by (auto simp: Let_def split: if_splits)
qed

function splitFrom :: "bool \<Rightarrow> string \<Rightarrow> string \<Rightarrow> string list" where
  "splitFrom atStart current text =
     (case (if atStart then separatorRest text else None) of
        Some rest \<Rightarrow> current # splitFrom False [] rest
      | None \<Rightarrow>
          (case text of
             [] \<Rightarrow> [current]
           | c # cs \<Rightarrow> splitFrom (c = CHR 0x0A) (current @ [c]) cs))"
  by pat_completeness auto

termination by (relation "measure (\<lambda>(s, c, t). length t)") (auto dest: separatorRest_length split: if_splits)

declare splitFrom.simps [simp del]

definition splitYAMLDocs :: "string \<Rightarrow> string list" where
  "splitYAMLDocs data = splitFrom True [] data"

text \<open>The registrations in the source of the API server, as the regular expression
  \<open>apiserverStorageRe\<close> finds them: a word that ends in \<open>Storage\<close>, indexed by a literal.\<close>

definition isWord :: "char \<Rightarrow> bool" where
  "isWord c \<longleftrightarrow> isUpperAscii c \<or> isLowerAscii c \<or> digitVal c \<noteq> None \<or> c = CHR ''_''"

definition isPluralChar :: "char \<Rightarrow> bool" where
  "isPluralChar c \<longleftrightarrow> isLowerAscii c \<or> digitVal c \<noteq> None \<or> c = CHR ''-''"

definition indexLiteral :: "string \<Rightarrow> (string \<times> string) option" where
  "indexLiteral text =
     (case cutPrefix text [CHR ''['', CHR 0x22] of
        None \<Rightarrow> None
      | Some after \<Rightarrow>
          let plural = takeWhile isPluralChar after in
          if plural = [] then None
          else (case cutPrefix (dropWhile isPluralChar after) [CHR 0x22, CHR '']''] of None \<Rightarrow> None | Some rest \<Rightarrow> Some (plural, rest)))"

lemma indexLiteral_length: "indexLiteral text = Some (p, rest) \<Longrightarrow> length rest < length text"
proof -
  assume "indexLiteral text = Some (p, rest)"
  then obtain after where "text = [CHR ''['', CHR 0x22] @ after" "dropWhile isPluralChar after = [CHR 0x22, CHR '']''] @ rest"
    by (auto simp: indexLiteral_def Let_def split: option.splits if_splits)
  moreover from this(2) have "length rest \<le> length after" by (metis length_dropWhile_le length_append le_add2 order_trans)
  ultimately show ?thesis by simp
qed

lemma indexLiteral_shrinks: "indexLiteral (dropWhile isWord t) = Some (p, r) \<Longrightarrow> length r < Suc (length t)"
  by (meson indexLiteral_length length_dropWhile_le less_SucI less_le_trans)

function storageMatches :: "string \<Rightarrow> (string \<times> string) list" where
  "storageMatches text =
     (case text of
        [] \<Rightarrow> []
      | c # cs \<Rightarrow>
          if \<not> isWord c then storageMatches cs
          else
            let w = takeWhile isWord text; after = dropWhile isWord text in
            if suffix ''Storage'' w \<and> 7 < length w
            then (case indexLiteral after of
                    Some (plural, rest) \<Rightarrow> (w, plural) # storageMatches rest
                  | None \<Rightarrow> storageMatches after)
            else storageMatches after)"
  by pat_completeness auto

termination
  by (relation "measure length") (auto dest: indexLiteral_shrinks simp: le_imp_less_Suc length_dropWhile_le)

declare storageMatches.simps [simp del]

definition storageVarGroups :: "(string \<times> string) list" where
  "storageVarGroups = [(''coreV1alpha1Storage'', ''core.cozystack.io''), (''sdnV1alpha1Storage'', ''sdn.cozystack.io'')]"

fun uniqueStorages :: "string \<Rightarrow> (string \<times> string) list \<Rightarrow> resourceKey list \<Rightarrow> Resource list" where
  "uniqueStorages origin [] seen = []"
| "uniqueStorages origin ((pre, plural) # ms) seen =
     (let grp = (case map_of storageVarGroups pre of Some g \<Rightarrow> g | None \<Rightarrow> unmappedStoragePrefix @ pre) in
      if (grp, plural) \<in> set seen then uniqueStorages origin ms seen
      else \<lparr>reGroup = grp, reKind = [], rePlural = plural, reSource = SourceAPIServer, reOrigin = origin, reVersions = []\<rparr>
             # uniqueStorages origin ms (seen @ [(grp, plural)]))"

definition ParseAPIServerStorages :: "string \<Rightarrow> string \<Rightarrow> Resource list" where
  "ParseAPIServerStorages origin data = uniqueStorages origin (storageMatches data) []"

definition isFirstPartyGroup :: "string \<Rightarrow> bool" where
  "isFirstPartyGroup grp \<longleftrightarrow> grp = crdGroupBase \<or> suffix (''.'' @ crdGroupBase) grp"

text \<open>A checkout: the files found by the pattern of application definitions, the entries below the
  walked directories with size and content, and the source of the API server. A file without a
  content cannot be read.\<close>

record checkout =
  coCozyRDs :: "(string \<times> string option) list"
  coEntries :: "string + (string \<times> nat \<times> string option) list"
  coAPIServer :: "string fetched"

definition yamlFile :: "string \<times> nat \<times> string option \<Rightarrow> bool" where
  "yamlFile e \<longleftrightarrow> (case e of (path, sz, content) \<Rightarrow> (suffix ''.yaml'' path \<or> suffix ''.yml'' path) \<and> sz \<le> maxYAMLFileSize)"

definition discoverYAMLFiles :: "checkout \<Rightarrow> string + (string \<times> nat \<times> string option) list" where
  "discoverYAMLFiles c = try_bind (coEntries c) (\<lambda>es. Inr (filter yamlFile es))"

definition addResource :: "Resource \<Rightarrow> Snapshot \<Rightarrow> Snapshot" where
  "addResource r snap = AList.update (keyOf r) r snap"

definition addMissing :: "Resource \<Rightarrow> Snapshot \<Rightarrow> Snapshot" where
  "addMissing r snap = (if map_of snap (keyOf r) = None then addResource r snap else snap)"

fun loadCozyRDs :: "parseLib \<Rightarrow> (string \<times> string option) list \<Rightarrow> Snapshot \<Rightarrow> string + Snapshot" where
  "loadCozyRDs P [] snap = Inr snap"
| "loadCozyRDs P ((path, content) # files) snap =
     (case content of
        None \<Rightarrow> Inl (''read '' @ path)
      | Some data \<Rightarrow> try_bind (ParseCozyRD P path data) (\<lambda>res.
          loadCozyRDs P files (case res of None \<Rightarrow> snap | Some r \<Rightarrow> addResource r snap)))"

definition mergeService :: "Resource \<Rightarrow> Snapshot \<Rightarrow> Snapshot" where
  "mergeService r svcs =
     (case map_of svcs (keyOf r) of
        None \<Rightarrow> AList.update (keyOf r) r svcs
      | Some e \<Rightarrow> AList.update (keyOf r)
          (e\<lparr>reVersions := fold (\<lambda>(v, s). AList.update v s) (reVersions r) (reVersions e),
             reOrigin := (if reOrigin e \<noteq> reOrigin r then reOrigin e @ '', '' @ reOrigin r else reOrigin e)\<rparr>) svcs)"

definition loadDoc :: "parseLib \<Rightarrow> string \<Rightarrow> string \<Rightarrow> Snapshot \<times> Snapshot \<Rightarrow> Snapshot \<times> Snapshot" where
  "loadDoc P origin doc st =
     (case st of (snap, svcs) \<Rightarrow>
        if trimSpace doc = [] then st
        else if docKind P doc = ''CustomResourceDefinition'' then
          (case crdFromDoc P origin doc of
             Inr (Some r) \<Rightarrow> if isFirstPartyGroup (reGroup r) then (addResource r snap, svcs) else st
           | _ \<Rightarrow> st)
        else if docKind P doc = ''APIService'' then
          (case apiServiceFromDoc P origin doc of
             Some r \<Rightarrow> if isFirstPartyGroup (reGroup r) then (snap, mergeService r svcs) else st
           | None \<Rightarrow> st)
        else st)"

fun loadYAMLFiles :: "parseLib \<Rightarrow> (string \<times> nat \<times> string option) list \<Rightarrow> Snapshot \<times> Snapshot \<Rightarrow> string + Snapshot \<times> Snapshot" where
  "loadYAMLFiles P [] st = Inr st"
| "loadYAMLFiles P ((path, sz, content) # files) st =
     (case content of
        None \<Rightarrow> Inl (''read '' @ path)
      | Some data \<Rightarrow>
          if \<not> mightBeAPIManifest data then loadYAMLFiles P files st
          else loadYAMLFiles P files (fold (loadDoc P path) (splitYAMLDocs data) st))"

definition LoadSnapshot :: "parseLib \<Rightarrow> checkout \<Rightarrow> string + Snapshot" where
  "LoadSnapshot P c =
     try_bind (loadCozyRDs P (coCozyRDs c) []) (\<lambda>snap0.
     try_bind (discoverYAMLFiles c) (\<lambda>files.
     try_bind (loadYAMLFiles P files (snap0, [])) (\<lambda>(snap1, svcs).
       let snap2 = fold (\<lambda>(k, r). addMissing r) svcs snap1 in
       try_bind (case coAPIServer c of
           Found data \<Rightarrow> Inr (fold addMissing (ParseAPIServerStorages apiserverGoFile data) snap2)
         | Missing \<Rightarrow> Inr snap2
         | FetchError e \<Rightarrow> Inl e) (\<lambda>snap.
       if snap = [] then Inl ''no API resources discovered'' else Inr snap))))"

subsection \<open>The command\<close>

definition categoryOrder :: "Category list" where
  "categoryOrder = [NewGroup, NewResource, RemovedGroup, RemovedResource, Breaking]"

fun categoryTitles :: "Category \<Rightarrow> string" where
  "categoryTitles NewGroup = ''New API group''"
| "categoryTitles NewResource = ''New resource''"
| "categoryTitles RemovedGroup = ''Removed API group''"
| "categoryTitles RemovedResource = ''Removed resource''"
| "categoryTitles Breaking = ''Breaking change to existing API''"

fun sourceText :: "Source \<Rightarrow> string" where
  "sourceText SourceCRD = ''crd''"
| "sourceText SourceCozyRD = ''cozyrd''"
| "sourceText SourceAPIServer = ''apiserver''"
| "sourceText SourceAPIService = ''apiservice''"

definition findingsOf :: "Finding list \<Rightarrow> Category \<Rightarrow> Finding list" where
  "findingsOf fs cat = filter (\<lambda>f. fiCategory f = cat) fs"

definition identityOf :: "Finding \<Rightarrow> bool \<Rightarrow> string" where
  "identityOf f markdown =
     (let k = (if fiKind f = [] then fiPlural f else fiKind f); i = fiGroup f @ ''/'' @ k in
      if markdown then ''**'' @ i @ ''**'' else i)"

definition lf :: string where "lf = [CHR 0x0A]"

definition reportCategory :: "Finding list \<Rightarrow> bool \<Rightarrow> Category \<Rightarrow> string" where
  "reportCategory fs md cat =
     (let mine = findingsOf fs cat in
      if mine = [] then []
      else (if md then ''#### '' @ categoryTitles cat @ lf @ lf else categoryTitles cat @ '':'' @ lf) @
        concat (map (\<lambda>f. (if md then ''- '' else ''  - '') @ identityOf f md @ '' '' @ [CHR 0xE2, CHR 0x80, CHR 0x94] @ '' '' @
          fiDetail f @ '' ('' @ fiOrigin f @ '') ('' @ sourceText (fiSource f) @ '')'' @ lf) mine) @ lf)"

definition Report :: "Finding list \<Rightarrow> string \<Rightarrow> string" where
  "Report fs format =
     (if fs = [] then ''No sizeable API changes detected.'' @ lf
      else
        let md = (format \<noteq> ''text'') in
        (if md then ''### Sizeable API change detected'' @ lf @ lf @
           ''This change touches the API surface in a way that requires review from a designated API owner.'' @ lf @ lf
         else ''Sizeable API change detected:'' @ lf @ lf) @
        concat (map (reportCategory fs md) categoryOrder))"

text \<open>The exit code and what is printed to the standard output.\<close>

definition apiGate :: "gateLib \<Rightarrow> parseLib \<Rightarrow> (string \<Rightarrow> checkout) \<Rightarrow> string \<Rightarrow> string \<Rightarrow> string \<Rightarrow> int \<times> string" where
  "apiGate G P disk baseDir headDir format =
     (if baseDir = [] \<or> headDir = [] then (1, [])
      else case LoadSnapshot P (disk baseDir) of
        Inl e \<Rightarrow> (1, [])
      | Inr base \<Rightarrow>
          (case LoadSnapshot P (disk headDir) of
             Inl e \<Rightarrow> (1, [])
           | Inr head \<Rightarrow>
               let findings = Classify G base head in
               if findings = [] then (0, ''No sizeable API changes detected.'' @ lf)
               else (2, Report findings format)))"

subsection \<open>Snapshots are maps\<close>

definition snapshot_ok :: "Snapshot \<Rightarrow> bool" where
  "snapshot_ok s \<longleftrightarrow> distinct (map fst s) \<and> (\<forall>(k, r) \<in> set s. keyOf r = k)"

lemma update_ok:
  assumes "snapshot_ok s" "keyOf r = k"
  shows "snapshot_ok (AList.update k r s)"
proof -
  have "keyOf r' = k'" if "(k', r') \<in> set (AList.update k r s)" for k' r'
  proof (cases "k' = k")
    case True
    have "map_of (AList.update k r s) k' = Some r'"
      using that assms(1) by (intro map_of_is_SomeI) (simp_all add: snapshot_ok_def distinct_update)
    then show ?thesis using True assms(2) by (simp add: update_conv')
  next
    case False
    have "map_of (AList.update k r s) k' = Some r'"
      using that assms(1) by (intro map_of_is_SomeI) (simp_all add: snapshot_ok_def distinct_update)
    then have "(k', r') \<in> set s" using False by (auto simp: update_conv' dest: map_of_SomeD)
    then show ?thesis using assms(1) by (auto simp: snapshot_ok_def)
  qed
  then show ?thesis using assms(1) by (auto simp: snapshot_ok_def distinct_update)
qed

lemma addResource_ok [inv_intros]: "snapshot_ok s \<Longrightarrow> snapshot_ok (addResource r s)"
  by (simp add: addResource_def update_ok)

lemma addMissing_ok [inv_intros]: "snapshot_ok s \<Longrightarrow> snapshot_ok (addMissing r s)"
  by (simp add: addMissing_def addResource_ok)

lemma mergeService_ok [inv_intros]:
  assumes "snapshot_ok s"
  shows "snapshot_ok (mergeService r s)"
proof (cases "map_of s (keyOf r)")
  case (Some e)
  then have "keyOf e = keyOf r" using assms map_of_SomeD [OF Some] by (auto simp: snapshot_ok_def)
  then show ?thesis using assms Some by (simp add: mergeService_def update_ok keyOf_def)
qed (simp add: mergeService_def update_ok assms)

lemma loadDoc_ok: "snapshot_ok (fst st) \<Longrightarrow> snapshot_ok (snd st) \<Longrightarrow> snapshot_ok (fst (loadDoc P o' d st)) \<and> snapshot_ok (snd (loadDoc P o' d st))"
  by (cases st) (auto simp: loadDoc_def intro: inv_intros split: sum.splits option.splits)

lemma fold_ok:
  assumes "\<And>x s. Q s \<Longrightarrow> Q (f x s)" "Q s"
  shows "Q (fold f xs s)"
  using assms(2) by (induction xs arbitrary: s) (simp_all add: assms(1))

lemma loadCozyRDs_ok: "loadCozyRDs P fs s = Inr s' \<Longrightarrow> snapshot_ok s \<Longrightarrow> snapshot_ok s'"
proof (induction fs arbitrary: s)
  case (Cons f fs)
  obtain path content where f: "f = (path, content)" by (cases f)
  then obtain data res where "content = Some data" "ParseCozyRD P path data = Inr res"
      "loadCozyRDs P fs (case res of None \<Rightarrow> s | Some r \<Rightarrow> addResource r s) = Inr s'"
    using Cons.prems(1) by (auto simp: try_bind_eq_Inr split: option.splits)
  moreover have "snapshot_ok (case res of None \<Rightarrow> s | Some r \<Rightarrow> addResource r s)"
    using Cons.prems(2) by (auto intro: inv_intros split: option.split)
  ultimately show ?case using Cons.IH by blast
qed simp

lemma loadYAMLFiles_ok:
  "loadYAMLFiles P fs st = Inr st' \<Longrightarrow> snapshot_ok (fst st) \<and> snapshot_ok (snd st) \<Longrightarrow> snapshot_ok (fst st') \<and> snapshot_ok (snd st')"
proof (induction P fs st rule: loadYAMLFiles.induct)
  case (2 P path sz content files st)
  have "snapshot_ok (fst (fold (loadDoc P path) ds st)) \<and> snapshot_ok (snd (fold (loadDoc P path) ds st))" for ds
    by (rule fold_ok [where Q = "\<lambda>st. snapshot_ok (fst st) \<and> snapshot_ok (snd st)"]) (use loadDoc_ok "2.prems"(2) in auto)
  then show ?case using 2 by (auto split: option.splits if_splits)
qed simp

lemma LoadSnapshot_ok:
  assumes "LoadSnapshot P c = Inr s"
  shows "snapshot_ok s \<and> s \<noteq> []"
proof -
  obtain snap0 files snap1 svcs where s: "loadCozyRDs P (coCozyRDs c) [] = Inr snap0"
      "loadYAMLFiles P files (snap0, []) = Inr (snap1, svcs)"
    and last: "s \<in> {fold (\<lambda>(k, r). addMissing r) svcs snap1} \<union>
      range (\<lambda>rs. fold addMissing rs (fold (\<lambda>(k, r). addMissing r) svcs snap1)) \<and> s \<noteq> []"
    using assms by (auto simp: LoadSnapshot_def try_bind_eq_Inr Let_def split: if_splits fetched.splits)
  have "snapshot_ok snap0" using loadCozyRDs_ok [OF s(1)] by (simp add: snapshot_ok_def)
  then have "snapshot_ok snap1" using loadYAMLFiles_ok [OF s(2)] by (simp add: snapshot_ok_def)
  then have a: "snapshot_ok (fold (\<lambda>(k, r). addMissing r) svcs snap1)"
    by (rule fold_ok [where Q = snapshot_ok, rotated]) (auto intro: inv_intros)
  moreover have "snapshot_ok (fold addMissing rs (fold (\<lambda>(k, r). addMissing r) svcs snap1))" for rs
    by (rule fold_ok [where Q = snapshot_ok]) (auto intro: inv_intros a)
  ultimately show ?thesis using last by auto
qed

subsection \<open>When nothing is reported\<close>

lemma set_sortedResources [simp]: "set (sortedResources s) = snd ` set s"
  by (simp add: sortedResources_def)

lemma groupFindings_Nil:
  "fst (groupFindings mk known rs found) = [] \<longleftrightarrow> (\<forall>r \<in> set rs. reGroup r \<in> set known \<union> set found)"
  by (induction mk known rs found rule: groupFindings.induct) (auto simp: Let_def split: prod.splits)

lemma groupFindings_none:
  "fst (groupFindings mk known rs found) = [] \<Longrightarrow> snd (groupFindings mk known rs found) = found"
  by (induction mk known rs found rule: groupFindings.induct) (auto simp: Let_def split: prod.splits if_splits)

text \<open>The groups and resources of one snapshot that the other lacks.\<close>

lemma extra_Nil:
  assumes "snapshot_ok s" "snapshot_ok other"
  shows "fst (groupFindings mk (groupsOf other) (sortedResources s) []) = [] \<and>
      newResources mk' other (snd (groupFindings mk (groupsOf other) (sortedResources s) [])) s = [] \<longleftrightarrow>
    dom (map_of s) \<subseteq> dom (map_of other)" (is "?l \<longleftrightarrow> ?r")
proof -
  have k: "dom (map_of s) = keyOf ` snd ` set s" using assms(1) by (force simp: dom_map_of_conv_image_fst snapshot_ok_def)
  show ?thesis
  proof
    assume l: ?l
    then have "snd (groupFindings mk (groupsOf other) (sortedResources s) []) = []" by (simp add: groupFindings_none)
    then show ?r using l unfolding k by (auto simp: newResources_def filter_empty_conv dom_def)
  next
    assume r: ?r
    have "reGroup r \<in> set (groupsOf other)" if "r \<in> set (sortedResources s)" for r
    proof -
      have "keyOf r \<in> dom (map_of other)" using r that unfolding k by auto
      then have "keyOf r \<in> fst ` set other" by (simp add: dom_map_of_conv_image_fst)
      then show ?thesis by (force simp: groupsOf_def keyOf_def)
    qed
    then have g: "fst (groupFindings mk (groupsOf other) (sortedResources s) []) = []" by (simp add: groupFindings_Nil)
    moreover have "map_of other (keyOf r) \<noteq> None" if "r \<in> snd ` set s" for r using r that unfolding k by blast
    ultimately show ?l by (auto simp: newResources_def filter_empty_conv)
  qed
qed

lemma breakingFindings_Nil:
  assumes "snapshot_ok head"
  shows "breakingFindings G base head = [] \<longleftrightarrow>
    (\<forall>k b h. map_of base k = Some b \<and> map_of head k = Some h \<longrightarrow> diffResource G b h = [])" (is "_ \<longleftrightarrow> ?r")
proof -
  have "breakingFindings G base head = [] \<longleftrightarrow> (\<forall>h \<in> snd ` set head. \<forall>b. map_of base (keyOf h) = Some b \<longrightarrow> diffResource G b h = [])"
    by (auto simp: breakingFindings_def split: option.splits)
  also have "\<dots> \<longleftrightarrow> ?r"
  proof -
    have "map_of head (keyOf h) = Some h" if "h \<in> snd ` set head" for h
      using that assms by (auto simp: snapshot_ok_def intro: map_of_is_SomeI)
    moreover have "h \<in> snd ` set head \<and> keyOf h = k" if "map_of head k = Some h" for h k
      using map_of_SomeD [OF that] assms by (force simp: snapshot_ok_def)
    ultimately show ?thesis by metis
  qed
  finally show ?thesis .
qed

lemma Classify_Nil:
  assumes "snapshot_ok base" "snapshot_ok head"
  shows "Classify G base head = [] \<longleftrightarrow> dom (map_of base) = dom (map_of head) \<and>
    (\<forall>k b h. map_of base k = Some b \<and> map_of head k = Some h \<longrightarrow> diffResource G b h = [])"
proof -
  have "Classify G base head = [] \<longleftrightarrow> dom (map_of head) \<subseteq> dom (map_of base) \<and> dom (map_of base) \<subseteq> dom (map_of head) \<and>
      breakingFindings G base head = []"
    using extra_Nil [OF assms(2,1), of "groupIntroduced G" "resourceAdded G"] extra_Nil [OF assms(1,2), of "groupRemoved G" "resourceRemoved G"]
    by (simp add: Classify_def Let_def split_beta) blast
  then show ?thesis unfolding breakingFindings_Nil [OF assms(2)] by blast
qed

lemma diffResource_Nil:
  "diffResource G b h = [] \<longleftrightarrow>
    (\<forall>v s. map_of (reVersions b) v = Some s \<longrightarrow> (\<exists>s'. map_of (reVersions h) v = Some s' \<and>
       diffSchema (glFmt G) ''spec'' s s' = [] \<and> diffNameSchema G s s' = []))"
proof -
  have "diffVersion G b h v = [] \<longleftrightarrow> (\<exists>s'. map_of (reVersions h) v = Some s' \<and>
       diffSchema (glFmt G) ''spec'' s s' = [] \<and> diffNameSchema G s s' = [])" if "map_of (reVersions b) v = Some s" for v s
    using that by (auto simp: diffVersion_def Let_def split: option.split)
  moreover have "v \<in> set (keysSorted (map fst (reVersions b))) \<longleftrightarrow> (\<exists>s. map_of (reVersions b) v = Some s)" for v
    by (simp, metis domD domI dom_map_of_conv_image_fst)
  ultimately show ?thesis unfolding diffResource_def concat_eq_Nil_conv set_map by blast
qed

subsection \<open>Properties\<close>

text \<open>The reference: an interface is kept when the same resources are served and each served version of a
  resource is still served with a schema and a declaration of names that break nothing.\<close>

definition interfaceKept :: "gateLib \<Rightarrow> Snapshot \<Rightarrow> Snapshot \<Rightarrow> bool" where
  "interfaceKept G base head \<longleftrightarrow> dom (map_of base) = dom (map_of head) \<and>
     (\<forall>k b h v s. map_of base k = Some b \<and> map_of head k = Some h \<and> map_of (reVersions b) v = Some s \<longrightarrow>
       (\<exists>s'. map_of (reVersions h) v = Some s' \<and> diffSchema (glFmt G) ''spec'' s s' = [] \<and> diffNameSchema G s s' = []))"

lemma Classify_iff: "snapshot_ok base \<Longrightarrow> snapshot_ok head \<Longrightarrow> Classify G base head = [] \<longleftrightarrow> interfaceKept G base head"
  unfolding Classify_Nil interfaceKept_def diffResource_Nil by blast

lemma interfaceKept_refl: "interfaceKept G s s"
proof -
  have "diffNameSchema G x x = []" for x by (simp add: diffNameSchema_def split: option.split)
  then show ?thesis by (auto simp: interfaceKept_def diffSchema_refl)
qed

text \<open>C29: The command exits with 0 exactly when both checkouts can be read and the interface of the base
  is kept, by the definition that does not mention how the code looks for changes; with 2 exactly when
  both can be read and it is not kept; and with 1 otherwise. The snapshots that are compared are
  maps with at least one resource, and the verdict on two equal checkouts is 0.\<close>

theorem apiGate_verdict:
  "(fst (apiGate G P disk b h fmt) = 0 \<longleftrightarrow> b \<noteq> [] \<and> h \<noteq> [] \<and>
      (\<exists>base head. LoadSnapshot P (disk b) = Inr base \<and> LoadSnapshot P (disk h) = Inr head \<and> interfaceKept G base head)) \<and>
   (fst (apiGate G P disk b h fmt) = 2 \<longleftrightarrow> b \<noteq> [] \<and> h \<noteq> [] \<and>
      (\<exists>base head. LoadSnapshot P (disk b) = Inr base \<and> LoadSnapshot P (disk h) = Inr head \<and> \<not> interfaceKept G base head)) \<and>
   fst (apiGate G P disk b h fmt) \<in> {0, 1, 2} \<and>
   (\<forall>base. LoadSnapshot P (disk b) = Inr base \<longrightarrow> snapshot_ok base \<and> base \<noteq> [] \<and>
      (b \<noteq> [] \<longrightarrow> fst (apiGate G P disk b b fmt) = 0))"
proof -
  have run: "fst (apiGate G P disk b h fmt) = (if interfaceKept G base head then 0 else 2)"
    if "b \<noteq> []" "h \<noteq> []" "LoadSnapshot P (disk b) = Inr base" "LoadSnapshot P (disk h) = Inr head" for b h base head
    using that LoadSnapshot_ok by (simp add: apiGate_def Let_def Classify_iff)
  have fail: "fst (apiGate G P disk b h fmt) = 1"
    if "b = [] \<or> h = [] \<or> (\<exists>e. LoadSnapshot P (disk b) = Inl e) \<or> (\<exists>e. LoadSnapshot P (disk h) = Inl e)"
    using that by (auto simp: apiGate_def split: sum.split)
  have self: "\<forall>base. LoadSnapshot P (disk b) = Inr base \<longrightarrow> snapshot_ok base \<and> base \<noteq> [] \<and>
      (b \<noteq> [] \<longrightarrow> fst (apiGate G P disk b b fmt) = 0)"
    using run interfaceKept_refl LoadSnapshot_ok by simp
  show ?thesis
  proof (cases "b = [] \<or> h = [] \<or> (\<exists>e. LoadSnapshot P (disk b) = Inl e) \<or> (\<exists>e. LoadSnapshot P (disk h) = Inl e)")
    case True
    then show ?thesis using fail self by auto
  next
    case False
    then obtain base head where "b \<noteq> []" "h \<noteq> []" "LoadSnapshot P (disk b) = Inr base" "LoadSnapshot P (disk h) = Inr head"
      by (metis old.sum.exhaust)
    then show ?thesis using run self by simp
  qed
qed

text \<open>Two checkouts with one application each; the second one has a shorter name budget.\<close>

definition demoParse :: parseLib where
  "demoParse = \<lparr>plCozyRD = (\<lambda>d. Some \<lparr>cdKind = ''ApplicationDefinition'', cdAppKind = ''Redis'', cdPlural = ''redises'', cdOpenAPISchema = d\<rparr>),
     plKind = (\<lambda>d. None), plCRD = (\<lambda>d. None), plAPIService = (\<lambda>d. None),
     plJson = (\<lambda>d. Some (Some [(NameSchemaExtension, JObj [(''maxLength'', JNum (if d = ''long'' then 30 else 20))])]))\<rparr>"

definition demoGate :: gateLib where
  "demoGate = \<lparr>glFmt = demoFmt, glCompiles = (\<lambda>p. True)\<rparr>"

definition demoDisk :: "string \<Rightarrow> checkout" where
  "demoDisk dir = \<lparr>coCozyRDs = [(''redis.yaml'', Some (if dir = ''base'' then ''long'' else ''short''))], coEntries = Inr [],
     coAPIServer = Missing\<rparr>"

theorem apiGate_verdict_witness:
  "fst (apiGate demoGate demoParse demoDisk ''base'' ''base'' ''text'') = 0 \<and>
   fst (apiGate demoGate demoParse demoDisk ''base'' ''head'' ''text'') = 2"
proof -
  have "\<exists>base. LoadSnapshot demoParse (demoDisk ''base'') = Inr base"
    by (simp add: LoadSnapshot_def demoDisk_def demoParse_def ParseCozyRD_def discoverYAMLFiles_def Let_def trimSpace_def isSpace_def
        addResource_def)
  then have "fst (apiGate demoGate demoParse demoDisk ''base'' ''base'' ''text'') = 0"
    using apiGate_verdict [of demoGate demoParse demoDisk "''base''" "''base''" "''text''"] by auto
  moreover have "fst (apiGate demoGate demoParse demoDisk ''base'' ''head'' ''text'') = 2" by code_simp
  ultimately show ?thesis ..
qed

text \<open>The expression for lines of markup is not anchored at the end of the line: markup at the start of a
  line is removed although text follows it.\<close>

lemma helm_prefix_stripped: "helmStripped ''{{ .Values.key }}: value'' = '': value''"
  by code_simp

end
