(* ===== verification/App_Convert.thy ===== *)
theory App_Convert
  imports App_Values Quota_Admission Api_Gate Shard_Config Release_Config
begin

text \<open>
  Applications of the aggregated API server and the HelmReleases that store them
  (pkg/registry/apps/application/rest.go): the conversions in both directions, the metadata of an
  update, the rules for names and the health of workloads. Nil and empty maps are not distinguished; a
  time is \<open>None\<close> when it is zero. What the conversion reads from the cluster, the matching of regular
  expressions and the clock are fields of \<open>restEnv\<close>.
\<close>

subsection \<open>Objects\<close>

record appCondition =
  cnType :: string
  cnStatus :: string
  cnReason :: string
  cnMessage :: string
  cnTransition :: "int option"

record Application =
  apName :: string
  apNamespace :: string
  apUID :: string
  apVersion :: string \<comment> \<open>\<open>resourceVersion\<close>, empty when unset\<close>
  apCreated :: "int option"
  apDeletion :: "int option"
  apFinalizers :: "string list"
  apLabels :: "string \<rightharpoonup> string"
  apAnnotations :: "string \<rightharpoonup> string"
  apSpec :: "json option"
  apStatusVersion :: string
  apConditions :: "appCondition list"
  apStatusNamespace :: string
  apExternalIPs :: int

record AppReleaseSpec =
  asChartRef :: "string \<times> string \<times> string"
  asInterval :: int
  asMaxHistory :: int
  asInstallTimeout :: int
  asUpgradeTimeout :: int
  asRetryInterval :: int \<comment> \<open>of both actions, with the strategy RetryOnFailure\<close>
  asDisableWait :: bool
  asServerSideApply :: "bool option"
  asHealthCheckExprs :: "string list"
  asWaitStrategy :: "string option"
  asValuesFrom :: "(string \<times> string) list"
  asValues :: "json option"
  asSuspend :: bool

record AppRelease =
  arName :: string
  arNamespace :: string
  arUID :: string
  arVersion :: string
  arCreated :: "int option"
  arDeletion :: "int option"
  arGrace :: "int option"
  arFinalizers :: "string list"
  arOwners :: "string list"
  arLabels :: "string \<rightharpoonup> string"
  arAnnotations :: "string \<rightharpoonup> string"
  arSpec :: AppReleaseSpec
  arRevision :: string \<comment> \<open>\<open>status.lastAttemptedRevision\<close>\<close>
  arConditions :: "appCondition list"

record AppMonitor =
  amUID :: string
  amName :: string
  amNamespace :: string
  amCreated :: "int option"
  amOperational :: "bool option"
  amMessage :: string
  amReason :: string

record REST =
  rsKind :: string
  rsGroup :: string
  rsConfig :: ReleaseConfig
  rsSpecSchema :: "Structural option"
  rsNameSchema :: "NameSchema option"
  rsNameSchemaErr :: "string option"

record restEnv =
  reNum :: "rat \<Rightarrow> rat option" \<comment> \<open>a number as a float64\<close>
  reRaw :: "json \<Rightarrow> string" \<comment> \<open>the text of a value\<close>
  reQuotas :: "string \<Rightarrow> string + quotas"
  reOrder :: "string list \<Rightarrow> string list"
  reAdmission :: admissionClient
  reIsDNS1035 :: "string \<Rightarrow> string list"
  reMatches :: "string \<Rightarrow> string \<Rightarrow> bool" \<comment> \<open>pattern and name\<close>
  reMonitors :: "string \<Rightarrow> string \<Rightarrow> string + AppMonitor list" \<comment> \<open>by namespace and application, of the kind\<close>
  reServices :: "string \<Rightarrow> string + string list list" \<comment> \<open>the addresses of each LoadBalancer of a namespace\<close>
  reNow :: int

definition LabelPrefix :: string where "LabelPrefix = ''apps.cozystack.io-''"
definition AnnotationPrefix :: string where "AnnotationPrefix = ''apps.cozystack.io-''"
definition ApplicationGroupLabel :: string where "ApplicationGroupLabel = ''apps.cozystack.io/application.group''"
definition ApplicationNameLabel :: string where "ApplicationNameLabel = ''apps.cozystack.io/application.name''"
definition FinalizerDeleteDependents :: string where "FinalizerDeleteDependents = ''foregroundDeletion''"
definition FinalizerOrphanDependents :: string where "FinalizerOrphanDependents = ''orphan''"

subsection \<open>Metadata\<close>

definition mergeMaps :: "(string \<rightharpoonup> string) \<Rightarrow> (string \<rightharpoonup> string) \<Rightarrow> (string \<rightharpoonup> string)" where
  "mergeMaps a b = a ++ b"

definition addPrefixedMap :: "(string \<rightharpoonup> string) \<Rightarrow> string \<Rightarrow> (string \<rightharpoonup> string)" where
  "addPrefixedMap m pfx = (\<lambda>k. case cutPrefix k pfx of None \<Rightarrow> None | Some key \<Rightarrow> m key)"

definition filterPrefixedMap :: "(string \<rightharpoonup> string) \<Rightarrow> string \<Rightarrow> (string \<rightharpoonup> string)" where
  "filterPrefixedMap m pfx = (\<lambda>k. m (pfx @ k))"

definition omitPrefixedMap :: "(string \<rightharpoonup> string) \<Rightarrow> string \<Rightarrow> (string \<rightharpoonup> string)" where
  "omitPrefixedMap m pfx = (\<lambda>k. if prefix pfx k then None else m k)"

definition garbageCollectionFinalizers :: "string list \<Rightarrow> string list" where
  "garbageCollectionFinalizers fs = filter (\<lambda>f. f = FinalizerDeleteDependents \<or> f = FinalizerOrphanDependents) fs"

definition mergeFinalizer :: "string list \<Rightarrow> string list \<Rightarrow> string \<Rightarrow> string list \<Rightarrow> string list" where
  "mergeFinalizer previous desired f result =
     (if f \<in> set previous \<longleftrightarrow> f \<in> set desired then result
      else if f \<notin> set desired then filter (\<lambda>x. x \<noteq> f) result
      else if f \<notin> set result then result @ [f] else result)"

definition mergeGarbageCollectionFinalizers :: "string list \<Rightarrow> string list \<Rightarrow> string list \<Rightarrow> string list" where
  "mergeGarbageCollectionFinalizers current previous desired =
     mergeFinalizer previous desired FinalizerOrphanDependents (mergeFinalizer previous desired FinalizerDeleteDependents current)"

definition applicationLabels :: "REST \<Rightarrow> Application \<Rightarrow> (string \<rightharpoonup> string) \<Rightarrow> (string \<rightharpoonup> string)" where
  "applicationLabels r app m =
     m(ApplicationKindLabel \<mapsto> rsKind r, ApplicationGroupLabel \<mapsto> rsGroup r, ApplicationNameLabel \<mapsto> apName app)"

definition applyLiveMetadata :: "REST \<Rightarrow> AppRelease \<Rightarrow> Application \<Rightarrow> string list \<Rightarrow> AppRelease \<Rightarrow> AppRelease" where
  "applyLiveMetadata r cur app previousFinalizers hr =
     (let labels = applicationLabels r app
        (mergeMaps (mergeMaps (rcLabels (rsConfig r)) (mergeMaps (omitPrefixedMap (arLabels cur) LabelPrefix) (arLabels hr)))
          (addPrefixedMap (apLabels app) LabelPrefix)) in
      hr\<lparr>arFinalizers := mergeGarbageCollectionFinalizers (arFinalizers cur) previousFinalizers (apFinalizers app),
         arDeletion := arDeletion cur, arGrace := arGrace cur, arOwners := arOwners cur,
         arLabels := (case arLabels cur ShardKeyLabel of None \<Rightarrow> labels | Some shard \<Rightarrow> labels(ShardKeyLabel \<mapsto> shard)),
         arAnnotations := mergeMaps (omitPrefixedMap (arAnnotations cur) AnnotationPrefix) (arAnnotations hr)\<rparr>)"

definition hasRequiredApplicationLabels :: "REST \<Rightarrow> AppRelease \<Rightarrow> bool" where
  "hasRequiredApplicationLabels r hr \<longleftrightarrow>
     strOf (arLabels hr) ApplicationKindLabel = rsKind r \<and> strOf (arLabels hr) ApplicationGroupLabel = rsGroup r"

definition hasRequiredApplicationLabelsWithName :: "REST \<Rightarrow> AppRelease \<Rightarrow> string \<Rightarrow> bool" where
  "hasRequiredApplicationLabelsWithName r hr appName \<longleftrightarrow>
     hasRequiredApplicationLabels r hr \<and> strOf (arLabels hr) ApplicationNameLabel = appName"

subsection \<open>Names\<close>

definition maxHelmReleaseName :: int where "maxHelmReleaseName = 53"
definition maxNamespaceName :: int where "maxNamespaceName = 63"

definition capOf :: "int \<Rightarrow> string \<Rightarrow> NameSchema" where
  "capOf n why = \<lparr>nsType = [], nsDescription = why, nsMinLength = None, nsMaxLength = Some n, nsPattern = []\<rparr>"

definition legacyNameCaps :: "(string \<times> NameSchema) list" where
  "legacyNameCaps = [(''Kubernetes'', capOf 32 ''worker pools are KubernetesNodes releases''),
     (''Kafka'', capOf 44 ''the KRaft controller pod hostname must fit'')]"

definition ParseNameSchema :: "(string \<Rightarrow> bool) \<Rightarrow> json option \<Rightarrow> string + NameSchema option" where
  "ParseNameSchema compiles raw =
     (case raw of
        Some (JObj doc) \<Rightarrow>
          (case map_of (rev doc) NameSchemaExtension of
             None \<Rightarrow> Inr None
           | Some declared \<Rightarrow> try_bind (ParseNameDeclaration compiles declared) (\<lambda>ns. Inr (Some ns)))
      | _ \<Rightarrow> Inr None)"

definition resolveNameSchema :: "(string \<Rightarrow> bool) \<Rightarrow> string \<Rightarrow> json option \<Rightarrow> string \<Rightarrow> string + NameSchema option" where
  "resolveNameSchema compiles kind openAPISchema pfx =
     try_bind (ParseNameSchema compiles openAPISchema) (\<lambda>declared.
       case declared of
         None \<Rightarrow> Inr (map_of legacyNameCaps kind)
       | Some ns \<Rightarrow>
           if (case nsMinLength ns of None \<Rightarrow> False | Some mn \<Rightarrow> maxHelmReleaseName - int (length pfx) < mn)
           then Inl ''minLength exceeds what the release prefix leaves'' else Inr (Some ns))"

definition validateNameAgainstSchema :: "restEnv \<Rightarrow> REST \<Rightarrow> string \<Rightarrow> string list" where
  "validateNameAgainstSchema env r name =
     (case rsNameSchema r of
        None \<Rightarrow> []
      | Some ns \<Rightarrow>
          (case nsMinLength ns of None \<Rightarrow> [] | Some mn \<Rightarrow> if int (length name) < mn then [''must be at least that long''] else []) @
          (if nsPattern ns = [] \<or> reMatches env (nsPattern ns) name then [] else [''must match the pattern'']))"

definition nameErrorText :: "name_error \<Rightarrow> string" where
  "nameErrorText e = (case e of NameRequired \<Rightarrow> ''name is required'' | TenantNameInvalid _ \<Rightarrow> ''tenant names are alphanumeric'' | DNSInvalid _ m \<Rightarrow> m)"

definition validateNameFormat :: "restEnv \<Rightarrow> REST \<Rightarrow> string \<Rightarrow> string list" where
  "validateNameFormat env r name =
     map nameErrorText (ValidateApplicationName (reIsDNS1035 env) name (rsKind r)) @ validateNameAgainstSchema env r name"

definition validateNameLength :: "REST \<Rightarrow> string \<Rightarrow> string list" where
  "validateNameLength r name =
     (let maxLen = maxHelmReleaseName - int (length (rcPrefix (rsConfig r))) in
      if maxLen \<le> 0 then [''no valid name length possible'']
      else case rsNameSchemaErr r of
        Some e \<Rightarrow> [''invalid name schema: '' @ e]
      | None \<Rightarrow>
          let cap = (case rsNameSchema r of
                Some ns \<Rightarrow> (case nsMaxLength ns of Some mx \<Rightarrow> if mx < maxLen then mx else maxLen | None \<Rightarrow> maxLen)
              | None \<Rightarrow> maxLen) in
          if cap < int (length name) then [''must be no more than '' @ itoa cap @ '' characters''] else [])"

definition validateTenantNamespaceLength :: "REST \<Rightarrow> string \<Rightarrow> string \<Rightarrow> string list" where
  "validateTenantNamespaceLength r currentNamespace name =
     (if maxNamespaceName < int (length (computeTenantNamespace (rcPrefix (rsConfig r)) currentNamespace name))
      then [''exceeds the Kubernetes namespace limit''] else [])"

subsection \<open>Workloads\<close>

definition timeAfter :: "int option \<Rightarrow> int option \<Rightarrow> bool" where
  "timeAfter a b = (case a of None \<Rightarrow> False | Some x \<Rightarrow> (case b of None \<Rightarrow> True | Some y \<Rightarrow> y < x))"

definition later :: "int option \<Rightarrow> int option \<Rightarrow> int option" where
  "later t acc = (if timeAfter t acc then t else acc)"

record workloadsStatus =
  wsOperational :: bool
  wsFound :: bool
  wsUnknown :: bool
  wsMessages :: "string list"
  wsReason :: string
  wsTransition :: "int option"

text \<open>The monitor delivered by a watch takes the place of the cached one, or joins the list.\<close>

fun overrideMonitor :: "AppMonitor \<Rightarrow> AppMonitor list \<Rightarrow> AppMonitor list" where
  "overrideMonitor f [] = [f]"
| "overrideMonitor f (m # ms) =
     (if amUID m = amUID f \<or> amName m = amName f \<and> amNamespace m = amNamespace f then f # ms else m # overrideMonitor f ms)"

definition notOperational :: "AppMonitor list \<Rightarrow> AppMonitor list" where
  "notOperational ms = filter (\<lambda>m. amOperational m = Some False) ms"

definition aggregateMonitors :: "AppMonitor list \<Rightarrow> workloadsStatus" where
  "aggregateMonitors ms =
     (if ms = [] then \<lparr>wsOperational = True, wsFound = False, wsUnknown = False, wsMessages = [], wsReason = [], wsTransition = None\<rparr>
      else
        let bad = notOperational ms; reasons = sort (filter (\<lambda>s. s \<noteq> []) (map amReason bad)) in
        \<lparr>wsOperational = (bad = []), wsFound = True, wsUnknown = (\<exists>m \<in> set ms. amOperational m = None),
         wsMessages = sort (filter (\<lambda>s. s \<noteq> []) (map amMessage bad)),
         wsReason = (case reasons of [] \<Rightarrow> [] | x # xs \<Rightarrow> x),
         wsTransition = fold (\<lambda>m acc. later (amCreated m) acc) ms None\<rparr>)"

definition getWorkloadsOperational :: "restEnv \<Rightarrow> string \<Rightarrow> string \<Rightarrow> AppMonitor option \<Rightarrow> string + workloadsStatus" where
  "getWorkloadsOperational env namespace appName fresh =
     (case reMonitors env namespace appName of
        Inl e \<Rightarrow> Inl e
      | Inr ms \<Rightarrow> Inr (aggregateMonitors (case fresh of None \<Rightarrow> ms | Some f \<Rightarrow> overrideMonitor f ms)))"

definition workloadsCondition :: "(string + workloadsStatus) \<Rightarrow> int option \<Rightarrow> appCondition list" where
  "workloadsCondition ws transition =
     (case ws of
        Inl e \<Rightarrow> [\<lparr>cnType = ''WorkloadsReady'', cnStatus = ''Unknown'', cnReason = ''Error'', cnMessage = ''Failed to check workload status: '' @ e,
                    cnTransition = transition\<rparr>]
      | Inr s \<Rightarrow>
          if \<not> wsFound s then []
          else if \<not> wsOperational s then
            [\<lparr>cnType = ''WorkloadsReady'', cnStatus = ''False'', cnReason = (if wsReason s \<noteq> [] then wsReason s else ''WorkloadMonitorCheck''),
              cnMessage = (if wsMessages s \<noteq> [] then joinStr ''; '' (wsMessages s) else ''One or more workloads are not operational''),
              cnTransition = transition\<rparr>]
          else if wsUnknown s then
            [\<lparr>cnType = ''WorkloadsReady'', cnStatus = ''Unknown'', cnReason = ''Pending'',
              cnMessage = ''One or more workloads have not been reconciled yet'', cnTransition = transition\<rparr>]
          else [\<lparr>cnType = ''WorkloadsReady'', cnStatus = ''True'', cnReason = ''WorkloadMonitorCheck'',
                 cnMessage = ''All workloads are operational'', cnTransition = transition\<rparr>])"

definition countTenantExternalIPs :: "restEnv \<Rightarrow> string \<Rightarrow> string + int" where
  "countTenantExternalIPs env namespace =
     (if namespace = [] then Inr 0
      else case reServices env namespace of
        Inl e \<Rightarrow> Inl e
      | Inr services \<Rightarrow> Inr (int (length (filter (\<lambda>ips. \<exists>ip \<in> set ips. ip \<noteq> []) services))))"

subsection \<open>Conversions\<close>

definition shownConditions :: "AppRelease \<Rightarrow> appCondition list" where
  "shownConditions hr = filter (\<lambda>c. cnType c = ''Ready'' \<or> cnType c = ''Released'') (arConditions hr)"

definition workloadsTransition :: "restEnv \<Rightarrow> AppRelease \<Rightarrow> (string + workloadsStatus) \<Rightarrow> int option" where
  "workloadsTransition env hr ws =
     (let own = fold (\<lambda>c acc. later (cnTransition c) acc) (arConditions hr) (arCreated hr);
          t = later (case ws of Inl e \<Rightarrow> None | Inr s \<Rightarrow> wsTransition s) own in
      case t of None \<Rightarrow> Some (reNow env) | Some x \<Rightarrow> Some x)"

definition convertHelmReleaseToApplication :: "restEnv \<Rightarrow> REST \<Rightarrow> AppRelease \<Rightarrow> AppMonitor option \<Rightarrow> Application" where
  "convertHelmReleaseToApplication env r hr fresh =
     (let name = trimPrefix (arName hr) (rcPrefix (rsConfig r));
          tenantNS = computeTenantNamespace (rcPrefix (rsConfig r)) (arNamespace hr) name;
          tenant = (rsKind r = TenantKindName);
          ws = getWorkloadsOperational env (if tenant then tenantNS else arNamespace hr) name fresh in
      \<lparr>apName = name, apNamespace = arNamespace hr, apUID = arUID hr, apVersion = arVersion hr, apCreated = arCreated hr,
       apDeletion = arDeletion hr, apFinalizers = garbageCollectionFinalizers (arFinalizers hr),
       apLabels = filterPrefixedMap (arLabels hr) LabelPrefix, apAnnotations = filterPrefixedMap (arAnnotations hr) AnnotationPrefix,
       apSpec = filterInternalKeys (reNum env) (asValues (arSpec hr)), apStatusVersion = arRevision hr,
       apConditions = shownConditions hr @ workloadsCondition ws (workloadsTransition env hr ws),
       apStatusNamespace = (if tenant then tenantNS else []),
       apExternalIPs = (if tenant then (case countTenantExternalIPs env tenantNS of Inl e \<Rightarrow> 0 | Inr n \<Rightarrow> n) else 0)\<rparr>)"

definition ConvertHelmReleaseToApplicationWithMonitor :: "restEnv \<Rightarrow> REST \<Rightarrow> AppRelease \<Rightarrow> AppMonitor option \<Rightarrow> string + Application" where
  "ConvertHelmReleaseToApplicationWithMonitor env r hr fresh =
     (let app = convertHelmReleaseToApplication env r hr fresh in
      try_bind (applySpecDefaults (reNum env) (rsSpecSchema r) (apSpec app)) (\<lambda>spec. Inr (app\<lparr>apSpec := spec\<rparr>)))"

definition ConvertHelmReleaseToApplication :: "restEnv \<Rightarrow> REST \<Rightarrow> AppRelease \<Rightarrow> string + Application" where
  "ConvertHelmReleaseToApplication env r hr = ConvertHelmReleaseToApplicationWithMonitor env r hr None"

definition convertApplicationToHelmRelease :: "REST \<Rightarrow> Application \<Rightarrow> AppRelease" where
  "convertApplicationToHelmRelease r app =
     (let cfg = rsConfig r;
          both = (0 < rcHelmInstallTimeout cfg);
          install = (if both then rcHelmInstallTimeout cfg else rcInstallTimeout cfg);
          upgrade = (if 0 < rcHelmUpgradeTimeout cfg then rcHelmUpgradeTimeout cfg
                     else if both then rcHelmInstallTimeout cfg else rcUpgradeTimeout cfg) in
      \<lparr>arName = rcPrefix cfg @ apName app, arNamespace = apNamespace app, arUID = apUID app, arVersion = apVersion app,
       arCreated = None, arDeletion = None, arGrace = None,
       arFinalizers = garbageCollectionFinalizers (apFinalizers app), arOwners = [],
       arLabels = addPrefixedMap (apLabels app) LabelPrefix, arAnnotations = addPrefixedMap (apAnnotations app) AnnotationPrefix,
       arSpec = \<lparr>asChartRef = rcChartRef cfg, asInterval = rcInterval cfg, asMaxHistory = rcMaxHistory cfg,
         asInstallTimeout = install, asUpgradeTimeout = upgrade, asRetryInterval = rcRetryInterval cfg,
         asDisableWait = rcDisableWait cfg, asServerSideApply = rcServerSideApply cfg, asHealthCheckExprs = rcHealthCheckExprs cfg,
         asWaitStrategy = ResolveWaitStrategy (rcWaitStrategy cfg) (rcHealthCheckExprs cfg \<noteq> []),
         asValuesFrom = [(''Secret'', ''cozystack-values'')], asValues = apSpec app, asSuspend = False\<rparr>,
       arRevision = [], arConditions = []\<rparr>)"

end
