(* ===== verification/App_Storage.thy ===== *)
theory App_Storage
  imports App_Convert Registry_Common
begin

text \<open>
  The requests of the aggregated API server for applications (pkg/registry/apps/application/rest.go:
  \<open>Create\<close>, \<open>Get\<close>, \<open>List\<close>, \<open>Update\<close>, \<open>Delete\<close>), with the field filter and the sorting of
  pkg/registry. A request returns its answer and the writes it made. Reads come from a cache and may
  be old; a write is checked by the Kubernetes API against the object stored at that moment. Admission
  is an argument. Warnings and log lines are left out.
\<close>

subsection \<open>Requests for one application\<close>

datatype rest_error = ENotFound string | EInvalid "string list" | EBadRequest string | EConflict | EOther string

datatype rest_write = WCreate AppRelease | WUpdate nat AppRelease | WDelete AppRelease

definition quotaErrorText :: "quota_error \<Rightarrow> string" where
  "quotaErrorText e = ''spec.resourceQuotas''"

definition validateNew :: "restEnv \<Rightarrow> REST \<Rightarrow> Application \<Rightarrow> rest_error option" where
  "validateNew env r app =
     (let fmt = validateNameFormat env r (apName app); len = validateNameLength r (apName app);
          ns = validateTenantNamespaceLength r (apNamespace app) (apName app) in
      if fmt \<noteq> [] then Some (EInvalid fmt)
      else if len \<noteq> [] then Some (EInvalid len)
      else if rsKind r = TenantKindName \<and> ns \<noteq> [] then Some (EInvalid ns)
      else None)"

definition tenantQuotaErrors :: "restEnv \<Rightarrow> REST \<Rightarrow> Application \<Rightarrow> rest_error option" where
  "tenantQuotaErrors env r app =
     (if rsKind r \<noteq> TenantKindName then None
      else case validateTenantResourceQuotas (reOrder env) (reAdmission env) (reQuotas env) (rcPrefix (rsConfig r)) (rsKind r)
             \<lparr>taName = apName app, taNamespace = apNamespace app, taSpec = map_option (reRaw env) (apSpec app)\<rparr> of
        [] \<Rightarrow> None
      | e # es \<Rightarrow> Some (EInvalid (map quotaErrorText (e # es))))"

text \<open>Reserved keys are refused and required nulls removed.\<close>

definition normalizeApp :: "restEnv \<Rightarrow> REST \<Rightarrow> Application \<Rightarrow> rest_error + Application" where
  "normalizeApp env r app =
     (case validateNoInternalKeys (reNum env) (apSpec app) of
        Some e \<Rightarrow> Inl (EBadRequest e)
      | None \<Rightarrow>
          (case normalizeSpecNulls (rsSpecSchema r) (apSpec app) of
             Inl e \<Rightarrow> Inl (EBadRequest e)
           | Inr (spec, emptied) \<Rightarrow> Inr (app\<lparr>apSpec := spec\<rparr>)))"

definition releaseFor :: "REST \<Rightarrow> Application \<Rightarrow> AppRelease" where
  "releaseFor r app =
     (let hr = convertApplicationToHelmRelease r app in
      hr\<lparr>arLabels := applicationLabels r app
           (mergeMaps (mergeMaps (rcLabels (rsConfig r)) (arLabels hr)) (addPrefixedMap (apLabels app) LabelPrefix))\<rparr>)"

definition converted :: "string + Application \<Rightarrow> rest_error + Application" where
  "converted x = (case x of Inl e \<Rightarrow> Inl (EOther e) | Inr app \<Rightarrow> Inr app)"

text \<open>\<open>admit\<close> is the admission chain and \<open>create\<close> the answer of the Kubernetes API.\<close>

definition restCreate :: "restEnv \<Rightarrow> REST \<Rightarrow> (Application \<Rightarrow> string option) \<Rightarrow> (AppRelease \<Rightarrow> rest_error + AppRelease) \<Rightarrow>
    Application \<Rightarrow> (rest_error + Application) \<times> rest_write list" where
  "restCreate env r admit create app0 =
     (case validateNew env r app0 of
        Some e \<Rightarrow> (Inl e, [])
      | None \<Rightarrow>
          (case tenantQuotaErrors env r app0 of
             Some e \<Rightarrow> (Inl e, [])
           | None \<Rightarrow>
               (case normalizeApp env r app0 of
                  Inl e \<Rightarrow> (Inl e, [])
                | Inr app \<Rightarrow>
                    (case admit app of
                       Some e \<Rightarrow> (Inl (EOther e), [])
                     | None \<Rightarrow>
                         let hr = releaseFor r app in
                         (case create hr of
                            Inl e \<Rightarrow> (Inl e, [])
                          | Inr stored \<Rightarrow> (converted (ConvertHelmReleaseToApplication env r stored), [WCreate hr]))))))"

definition restGet :: "restEnv \<Rightarrow> REST \<Rightarrow> (string \<Rightarrow> AppRelease fetched) \<Rightarrow> string \<Rightarrow> rest_error + Application" where
  "restGet env r get name =
     (case get (rcPrefix (rsConfig r) @ name) of
        Missing \<Rightarrow> Inl (ENotFound name)
      | FetchError e \<Rightarrow> Inl (EOther e)
      | Found hr \<Rightarrow>
          if \<not> hasRequiredApplicationLabels r hr then Inl (ENotFound name)
          else converted (ConvertHelmReleaseToApplication env r hr))"

definition restDelete :: "restEnv \<Rightarrow> REST \<Rightarrow> (string \<Rightarrow> AppRelease fetched) \<Rightarrow> (Application \<Rightarrow> string option) option \<Rightarrow>
    (AppRelease \<Rightarrow> rest_error option) \<Rightarrow> string \<Rightarrow> rest_error option \<times> rest_write list" where
  "restDelete env r get admit delete name =
     (case get (rcPrefix (rsConfig r) @ name) of
        Missing \<Rightarrow> (Some (ENotFound name), [])
      | FetchError e \<Rightarrow> (Some (EOther e), [])
      | Found hr \<Rightarrow>
          if \<not> hasRequiredApplicationLabelsWithName r hr name then (Some (ENotFound name), [])
          else
            let denied = (case admit of
                  None \<Rightarrow> None
                | Some f \<Rightarrow> (case ConvertHelmReleaseToApplication env r hr of
                    Inl e \<Rightarrow> Some (EOther e)
                  | Inr app \<Rightarrow> map_option EOther (f app))) in
            (case denied of
               Some e \<Rightarrow> (Some e, [])
             | None \<Rightarrow> (case delete hr of Some e \<Rightarrow> (Some e, []) | None \<Rightarrow> (None, [WDelete hr]))))"

subsection \<open>Updates\<close>

text \<open>The cluster during an update: what the reads return, the object that is stored when the \<open>n\<close>-th
  write arrives, whether that write fails otherwise, and what the server stores.\<close>

record apiWorld =
  awRead :: "nat \<Rightarrow> AppRelease fetched"
  awNow :: "nat \<Rightarrow> AppRelease option"
  awFail :: "nat \<Rightarrow> string option"
  awStored :: "nat \<Rightarrow> AppRelease \<Rightarrow> AppRelease"

datatype put_reply = PutOk AppRelease | PutConflict | PutError string

definition serverPut :: "apiWorld \<Rightarrow> nat \<Rightarrow> AppRelease \<Rightarrow> put_reply" where
  "serverPut w n hr =
     (case awFail w n of
        Some e \<Rightarrow> PutError e
      | None \<Rightarrow>
          (case awNow w n of
             None \<Rightarrow> PutError ''not found''
           | Some cur \<Rightarrow> if arVersion hr \<noteq> [] \<and> arVersion hr \<noteq> arVersion cur then PutConflict else PutOk (awStored w n hr)))"

text \<open>The release of an application over the object read last.\<close>

definition rebuilt :: "REST \<Rightarrow> Application \<Rightarrow> string list \<Rightarrow> AppRelease \<Rightarrow> AppRelease" where
  "rebuilt r app previousFinalizers cur =
     (let hr = applyLiveMetadata r cur app previousFinalizers (convertApplicationToHelmRelease r app) in
      hr\<lparr>arSpec := (arSpec hr)\<lparr>asSuspend := asSuspend (arSpec cur)\<rparr>\<rparr>)"

definition updateAttempts :: nat where "updateAttempts = 4"

fun retryUpdate :: "REST \<Rightarrow> apiWorld \<Rightarrow> Application \<Rightarrow> string list \<Rightarrow> nat \<Rightarrow> nat \<Rightarrow> AppRelease \<Rightarrow> rest_error + nat \<times> AppRelease \<times> AppRelease" where
  "retryUpdate r w app prev 0 n hr = Inl EConflict"
| "retryUpdate r w app prev (Suc left) n hr =
     (case serverPut w n hr of
        PutOk stored \<Rightarrow> Inr (n, hr, stored)
      | PutError e \<Rightarrow> Inl (EOther e)
      | PutConflict \<Rightarrow>
          (case awRead w (Suc n) of
             Missing \<Rightarrow> Inl (EOther ''not found'')
           | FetchError e \<Rightarrow> Inl (EOther e)
           | Found cur \<Rightarrow> retryUpdate r w app prev left (Suc n) ((rebuilt r app prev cur)\<lparr>arVersion := arVersion cur\<rparr>)))"

definition replaceRelease :: "restEnv \<Rightarrow> REST \<Rightarrow> apiWorld \<Rightarrow> string list \<Rightarrow> Application \<Rightarrow> (rest_error + Application \<times> bool) \<times> rest_write list" where
  "replaceRelease env r w previousFinalizers app =
     (case awRead w 0 of
        Missing \<Rightarrow> (Inl (EOther ''failed to fetch current HelmRelease''), [])
      | FetchError e \<Rightarrow> (Inl (EOther e), [])
      | Found cur \<Rightarrow>
          let hr = rebuilt r app previousFinalizers cur;
              hr0 = (if apVersion app = [] then hr\<lparr>arVersion := arVersion cur\<rparr> else hr) in
          (case retryUpdate r w app previousFinalizers updateAttempts 0 hr0 of
             Inl e \<Rightarrow> (Inl e, [])
           | Inr (n, written, stored) \<Rightarrow>
               ((case ConvertHelmReleaseToApplication env r stored of Inl e \<Rightarrow> Inl (EOther e) | Inr app' \<Rightarrow> Inr (app', False)),
                [WUpdate n written])))"

text \<open>\<open>updated\<close> computes the new object from the old one, which is missing when the request may create.\<close>

definition restUpdate :: "restEnv \<Rightarrow> REST \<Rightarrow> apiWorld \<Rightarrow> (string \<Rightarrow> AppRelease fetched) \<Rightarrow> (Application option \<Rightarrow> string + Application) \<Rightarrow>
    (Application \<Rightarrow> string option) \<Rightarrow> (Application \<Rightarrow> Application \<Rightarrow> string option) \<Rightarrow> bool \<Rightarrow> (AppRelease \<Rightarrow> rest_error + AppRelease) \<Rightarrow>
    string \<Rightarrow> (rest_error + Application \<times> bool) \<times> rest_write list" where
  "restUpdate env r w get updated admitNew admit forceAllowCreate create name =
     (case restGet env r get name of
        Inl (ENotFound n) \<Rightarrow>
          if \<not> forceAllowCreate then (Inl (ENotFound n), [])
          else (case updated None of
                  Inl e \<Rightarrow> (Inl (EOther e), [])
                | Inr app \<Rightarrow>
                    (case restCreate env r admitNew create app of
                       (Inl e, ws) \<Rightarrow> (Inl e, ws)
                     | (Inr created, ws) \<Rightarrow> (Inr (created, True), ws)))
      | Inl e \<Rightarrow> (Inl e, [])
      | Inr old \<Rightarrow>
          (case updated (Some old) of
             Inl e \<Rightarrow> (Inl (EOther e), [])
           | Inr app0 \<Rightarrow>
               (case normalizeApp env r app0 of
                  Inl e \<Rightarrow> (Inl e, [])
                | Inr app \<Rightarrow>
                    (case admit app old of
                       Some e \<Rightarrow> (Inl (EOther e), [])
                     | None \<Rightarrow>
                         (case tenantQuotaErrors env r app of
                            Some e \<Rightarrow> (Inl e, [])
                          | None \<Rightarrow> replaceRelease env r w (apFinalizers old) app)))))"

subsection \<open>Lists\<close>

record listOptions =
  loLabels :: "requirement list option"
  loFields :: "fieldTerms option"
  loName :: string \<comment> \<open>of the request, empty for a collection\<close>

definition prefixedRequirement :: "requirement \<Rightarrow> requirement" where
  "prefixedRequirement q = q\<lparr>rqKey := LabelPrefix @ rqKey q\<rparr>"

text \<open>The requirements on HelmReleases; \<open>validKey\<close> is the check of label keys by the library.\<close>

definition helmLabelSelector :: "(string \<Rightarrow> bool) \<Rightarrow> REST \<Rightarrow> requirement list option \<Rightarrow> string + requirement list" where
  "helmLabelSelector validKey r sel =
     (let own = [equalsRequirement ApplicationKindLabel (rsKind r), equalsRequirement ApplicationGroupLabel (rsGroup r)] in
      case sel of
        None \<Rightarrow> Inr own
      | Some reqs \<Rightarrow>
          if list_all (\<lambda>q. validKey (LabelPrefix @ rqKey q)) reqs then Inr (own @ map prefixedRequirement reqs)
          else Inl ''error prefixing label key'')"

definition byNamespacedName :: "Application list \<Rightarrow> Application list" where
  "byNamespacedName items = sort_key (\<lambda>a. [apNamespace a, apName a]) items"

text \<open>The filters of one listed release, up to the application it shows as.\<close>

definition listedApp :: "restEnv \<Rightarrow> REST \<Rightarrow> listOptions \<Rightarrow> AppRelease \<Rightarrow> Application list" where
  "listedApp env r opts hr =
     (let f = ParseFieldSelector (loFields opts) in
      if fiName f \<noteq> [] \<and> arName hr \<noteq> rcPrefix (rsConfig r) @ fiName f then []
      else if \<not> MatchesNamespace f (arNamespace hr) then []
      else case ConvertHelmReleaseToApplication env r hr of
        Inl e \<Rightarrow> []
      | Inr app \<Rightarrow>
          if loName opts \<noteq> [] \<and> apName app \<noteq> loName opts then []
          else if (case loLabels opts of None \<Rightarrow> False | Some reqs \<Rightarrow> \<not> labelsMatch reqs (apLabels app)) then []
          else if (case loFields opts of None \<Rightarrow> False | Some terms \<Rightarrow>
                 \<not> fieldsMatch terms [''metadata.name'' \<mapsto> apName app, ''metadata.namespace'' \<mapsto> apNamespace app]) then []
          else [app])"

text \<open>\<open>items\<close> are the cached HelmReleases of all namespaces and \<open>listVersion\<close> the version of the list.\<close>

definition restList :: "restEnv \<Rightarrow> REST \<Rightarrow> (string \<Rightarrow> bool) \<Rightarrow> string + AppRelease list \<Rightarrow> string \<Rightarrow> string \<Rightarrow> listOptions \<Rightarrow>
    rest_error + string \<times> Application list" where
  "restList env r validKey items listVersion namespace opts =
     (let f = ParseFieldSelector (loFields opts) in
      if fiNamespace f \<noteq> [] \<and> namespace \<noteq> [] \<and> namespace \<noteq> fiNamespace f then Inr ([], [])
      else case helmLabelSelector validKey r (loLabels opts) of
        Inl e \<Rightarrow> Inl (EOther e)
      | Inr sel \<Rightarrow>
          (case items of
             Inl e \<Rightarrow> Inl (EOther e)
           | Inr hrs \<Rightarrow>
               let found = filter (\<lambda>hr. (namespace = [] \<or> arNamespace hr = namespace) \<and> labelsMatch sel (arLabels hr)) hrs in
               Inr (if listVersion = [] then MaxResourceVersion (map arVersion found) else listVersion,
                    byNamespacedName (concat (map (listedApp env r opts) found)))))"

subsection \<open>Labels and finalizers\<close>

lemma addPrefixedMap_append [simp]: "addPrefixedMap m pfx (pfx @ k) = m k"
  by (simp add: addPrefixedMap_def)

lemma addPrefixedMap_none: "\<not> prefix pfx k \<Longrightarrow> addPrefixedMap m pfx k = None"
  by (auto simp: addPrefixedMap_def cutPrefix_def)

lemma filter_add_prefixed [simp]: "filterPrefixedMap (addPrefixedMap m pfx) pfx = m"
  by (simp add: filterPrefixedMap_def)

lemma own_labels_unprefixed:
  "\<not> prefix LabelPrefix ApplicationKindLabel" "\<not> prefix LabelPrefix ApplicationGroupLabel" "\<not> prefix LabelPrefix ApplicationNameLabel"
  "\<not> prefix LabelPrefix ShardKeyLabel"
  by (simp_all add: LabelPrefix_def ApplicationKindLabel_def ApplicationGroupLabel_def ApplicationNameLabel_def ShardKeyLabel_def)

lemma own_labels_distinct:
  "ApplicationKindLabel \<noteq> ApplicationGroupLabel" "ApplicationKindLabel \<noteq> ApplicationNameLabel" "ApplicationGroupLabel \<noteq> ApplicationNameLabel"
  "ShardKeyLabel \<noteq> ApplicationKindLabel" "ShardKeyLabel \<noteq> ApplicationGroupLabel" "ShardKeyLabel \<noteq> ApplicationNameLabel"
  by (simp_all add: ApplicationKindLabel_def ApplicationGroupLabel_def ApplicationNameLabel_def ShardKeyLabel_def)

definition ownLabels :: "string set" where
  "ownLabels = {ApplicationKindLabel, ApplicationGroupLabel, ApplicationNameLabel}"

lemma applicationLabels_other: "k \<notin> ownLabels \<Longrightarrow> applicationLabels r app m k = m k"
  by (simp add: applicationLabels_def ownLabels_def)

lemma prefixed_not_own: "LabelPrefix @ k \<notin> ownLabels" "LabelPrefix @ k \<noteq> ShardKeyLabel"
  using own_labels_unprefixed by (auto simp: ownLabels_def dest!: prefixI [OF sym])

lemma applicationLabels_required:
  "strOf (applicationLabels r app m) ApplicationKindLabel = rsKind r" "strOf (applicationLabels r app m) ApplicationGroupLabel = rsGroup r"
  "strOf (applicationLabels r app m) ApplicationNameLabel = apName app"
  using own_labels_distinct by (auto simp: applicationLabels_def)

definition controllerFinalizers :: "string list \<Rightarrow> string list" where
  "controllerFinalizers fs = filter (\<lambda>f. f \<noteq> FinalizerDeleteDependents \<and> f \<noteq> FinalizerOrphanDependents) fs"

lemma mergeFinalizer_others:
  "f = FinalizerDeleteDependents \<or> f = FinalizerOrphanDependents \<Longrightarrow>
     controllerFinalizers (mergeFinalizer previous desired f result) = controllerFinalizers result"
  by (auto simp: mergeFinalizer_def controllerFinalizers_def intro!: filter_cong)

lemma mergeFinalizer_mem:
  "x \<in> set (mergeFinalizer previous desired f result) \<longleftrightarrow>
     (if x = f \<and> (f \<in> set previous) \<noteq> (f \<in> set desired) then f \<in> set desired else x \<in> set result)"
  by (auto simp: mergeFinalizer_def)

text \<open>A three-way merge: what the client changed is taken from it, the rest from the live object.\<close>

lemma mergeGarbageCollectionFinalizers_merge:
  "controllerFinalizers (mergeGarbageCollectionFinalizers current previous desired) = controllerFinalizers current"
  "f = FinalizerDeleteDependents \<or> f = FinalizerOrphanDependents \<Longrightarrow>
     f \<in> set (mergeGarbageCollectionFinalizers current previous desired) \<longleftrightarrow>
       (if f \<in> set previous \<longleftrightarrow> f \<in> set desired then f \<in> set current else f \<in> set desired)"
  by (auto simp: mergeGarbageCollectionFinalizers_def mergeFinalizer_others mergeFinalizer_mem FinalizerDeleteDependents_def
      FinalizerOrphanDependents_def)

lemma rebuilt_labels:
  assumes "k \<notin> ownLabels"
  shows "arLabels (rebuilt r app prev cur) k =
    (if prefix LabelPrefix k then
       (case addPrefixedMap (apLabels app) LabelPrefix k of None \<Rightarrow> rcLabels (rsConfig r) k | Some v \<Rightarrow> Some v)
     else case arLabels cur k of None \<Rightarrow> rcLabels (rsConfig r) k | Some v \<Rightarrow> Some v)"
proof -
  have "arLabels (rebuilt r app prev cur) k = (case arLabels cur ShardKeyLabel of
        None \<Rightarrow> applicationLabels r app
          (mergeMaps (mergeMaps (rcLabels (rsConfig r)) (mergeMaps (omitPrefixedMap (arLabels cur) LabelPrefix) (addPrefixedMap (apLabels app) LabelPrefix)))
            (addPrefixedMap (apLabels app) LabelPrefix)) k
      | Some shard \<Rightarrow> if k = ShardKeyLabel then Some shard else applicationLabels r app
          (mergeMaps (mergeMaps (rcLabels (rsConfig r)) (mergeMaps (omitPrefixedMap (arLabels cur) LabelPrefix) (addPrefixedMap (apLabels app) LabelPrefix)))
            (addPrefixedMap (apLabels app) LabelPrefix)) k)"
    by (simp add: rebuilt_def applyLiveMetadata_def convertApplicationToHelmRelease_def Let_def split: option.split)
  then show ?thesis
    using assms own_labels_unprefixed(4)
    by (auto simp: applicationLabels_other mergeMaps_def map_add_def omitPrefixedMap_def addPrefixedMap_none split: option.split)
qed

lemma rebuilt_fields:
  "arOwners (rebuilt r app prev cur) = arOwners cur" "arDeletion (rebuilt r app prev cur) = arDeletion cur"
  "arFinalizers (rebuilt r app prev cur) = mergeGarbageCollectionFinalizers (arFinalizers cur) prev (apFinalizers app)"
  "asSuspend (arSpec (rebuilt r app prev cur)) = asSuspend (arSpec cur)" "asValues (arSpec (rebuilt r app prev cur)) = apSpec app"
  "arVersion (rebuilt r app prev cur) = apVersion app" "arName (rebuilt r app prev cur) = rcPrefix (rsConfig r) @ apName app"
  "arNamespace (rebuilt r app prev cur) = apNamespace app"
  "arSpec (rebuilt r app prev cur) = (arSpec (convertApplicationToHelmRelease r app))\<lparr>asSuspend := asSuspend (arSpec cur)\<rparr>"
  by (simp_all add: rebuilt_def applyLiveMetadata_def convertApplicationToHelmRelease_def Let_def)

lemma rebuilt_annotations:
  "arAnnotations (rebuilt r app prev cur) k =
     (if prefix AnnotationPrefix k then addPrefixedMap (apAnnotations app) AnnotationPrefix k else arAnnotations cur k)"
  by (auto simp: rebuilt_def applyLiveMetadata_def convertApplicationToHelmRelease_def Let_def mergeMaps_def map_add_def
      omitPrefixedMap_def addPrefixedMap_none split: option.split)

text \<open>A write that succeeds carries the metadata of an object with the version it names, except for a first
  attempt with the version of the client.\<close>

lemma retryUpdate_written:
  assumes "retryUpdate r w app prev left n hr = Inr (m, written, stored)"
  shows "\<exists>cur. awNow w m = Some cur \<and> n \<le> m \<and> stored = awStored w m written \<and>
    (m = n \<and> written = hr \<and> (arVersion hr = [] \<or> arVersion hr = arVersion cur) \<or>
     n < m \<and> (\<exists>c. awRead w m = Found c \<and> written = (rebuilt r app prev c)\<lparr>arVersion := arVersion c\<rparr> \<and>
       (arVersion c = [] \<or> arVersion c = arVersion cur)))"
  using assms
proof (induction left arbitrary: n hr)
  case (Suc left)
  show ?case
  proof (cases "serverPut w n hr")
    case (PutOk x)
    then have "m = n" "written = hr" "stored = x" using Suc.prems by auto
    then show ?thesis using PutOk by (auto simp: serverPut_def split: option.splits if_splits)
  next
    case PutConflict
    then obtain c where c: "awRead w (Suc n) = Found c"
        "retryUpdate r w app prev left (Suc n) ((rebuilt r app prev c)\<lparr>arVersion := arVersion c\<rparr>) = Inr (m, written, stored)"
      using Suc.prems by (auto split: fetched.splits)
    from Suc.IH [OF c(2)] c(1) show ?thesis by (elim exE conjE disjE) (auto intro!: exI)
  next
    case (PutError e)
    then show ?thesis using Suc.prems by simp
  qed
qed simp

subsection \<open>Properties\<close>

lemma restCreate_cases:
  assumes "restCreate env r admit create app0 = (out, ws)"
  obtains e where "ws = []" "out = Inl e"
  | app stored where "validateNew env r app0 = None" "normalizeApp env r app0 = Inr app" "ws = [WCreate (releaseFor r app)]"
      "create (releaseFor r app) = Inr stored" "out = converted (ConvertHelmReleaseToApplication env r stored)"
proof (cases "normalizeApp env r app0")
  case (Inl e)
  then have "\<exists>e. restCreate env r admit create app0 = (Inl e, [])" by (simp add: restCreate_def split: option.split)
  then show ?thesis using assms that(1) by auto
next
  case (Inr app)
  then show ?thesis using assms that by (auto simp: restCreate_def Let_def split: option.splits sum.splits)
qed

lemma restUpdate_replaced:
  assumes "restUpdate env r w get updated admitNew admit forceAllowCreate create name = (out, [WUpdate n hr])"
  obtains old app0 app where "restGet env r get name = Inr old" "updated (Some old) = Inr app0" "normalizeApp env r app0 = Inr app"
    "replaceRelease env r w (apFinalizers old) app = (out, [WUpdate n hr])"
proof (cases "restGet env r get name")
  case (Inl e)
  have "ws \<noteq> [WUpdate n hr]" if "restCreate env r admitNew create app = (o', ws)" for app o' ws
    using that by (cases rule: restCreate_cases) auto
  then show ?thesis using assms Inl by (auto simp: restUpdate_def split: rest_error.splits if_splits sum.splits prod.splits)
next
  case (Inr old)
  then show ?thesis using assms that by (auto simp: restUpdate_def split: sum.splits option.splits)
qed

lemma normalizeApp_fields:
  "normalizeApp env r app0 = Inr app \<Longrightarrow> \<exists>spec emptied. app = app0\<lparr>apSpec := spec\<rparr> \<and>
     validateNoInternalKeys (reNum env) (apSpec app0) = None \<and> normalizeSpecNulls (rsSpecSchema r) (apSpec app0) = Inr (spec, emptied)"
  by (auto simp: normalizeApp_def split: option.splits sum.splits prod.splits)

text \<open>C33: An update replaces the live object and nothing else. When it succeeds, the HelmRelease it wrote has
  the owners, the deletion mark, the finalizers of other controllers, the suspension, the shard and
  all other labels and annotations outside the prefix that the replaced object had, even when the
  write met conflicts; its values and the labels and annotations under the prefix are those of the
  application. This needs reads that are not older than the version the client sent, and system
  labels outside the prefix.\<close>

theorem update_keeps_live_metadata:
  assumes run: "restUpdate env r w get updated admitNew admit forceAllowCreate create name = (out, [WUpdate n hr])"
    and live: "awNow w n = Some cur" "arVersion cur \<noteq> []"
    and versions: "\<forall>i c. awRead w i = Found c \<longrightarrow> arVersion c \<noteq> [] \<and> (arVersion c = arVersion cur \<longrightarrow> c = cur)"
    and fresh: "n = 0 \<longrightarrow> awRead w 0 = Found cur \<or> (\<forall>old app0. updated (Some old) = Inr app0 \<longrightarrow> apVersion app0 = [])"
    and config: "\<forall>k. rcLabels (rsConfig r) (LabelPrefix @ k) = None"
  shows "\<exists>old app0 app. restGet env r get name = Inr old \<and> updated (Some old) = Inr app0 \<and> normalizeApp env r app0 = Inr app \<and>
    arOwners hr = arOwners cur \<and> arDeletion hr = arDeletion cur \<and>
    controllerFinalizers (arFinalizers hr) = controllerFinalizers (arFinalizers cur) \<and>
    asSuspend (arSpec hr) = asSuspend (arSpec cur) \<and>
    (\<forall>k \<in> dom (arLabels cur) - ownLabels. \<not> prefix LabelPrefix k \<longrightarrow> arLabels hr k = arLabels cur k) \<and>
    (\<forall>k. \<not> prefix AnnotationPrefix k \<longrightarrow> arAnnotations hr k = arAnnotations cur k) \<and>
    asValues (arSpec hr) = apSpec app \<and> filterPrefixedMap (arLabels hr) LabelPrefix = apLabels app \<and>
    filterPrefixedMap (arAnnotations hr) AnnotationPrefix = apAnnotations app"
proof -
  from run obtain old app0 app where u: "restGet env r get name = Inr old" "updated (Some old) = Inr app0" "normalizeApp env r app0 = Inr app"
      "replaceRelease env r w (apFinalizers old) app = (out, [WUpdate n hr])"
    by (rule restUpdate_replaced)
  have ver: "apVersion app = apVersion app0" using normalizeApp_fields [OF u(3)] by auto
  obtain c stored where c: "awRead w 0 = Found c"
      "retryUpdate r w app (apFinalizers old) updateAttempts 0
        (if apVersion app = [] then (rebuilt r app (apFinalizers old) c)\<lparr>arVersion := arVersion c\<rparr> else rebuilt r app (apFinalizers old) c) = Inr (n, hr, stored)"
    using u(4) by (auto simp: replaceRelease_def Let_def split: fetched.splits sum.splits prod.splits)
  have "\<exists>v. hr = (rebuilt r app (apFinalizers old) cur)\<lparr>arVersion := v\<rparr>"
    using retryUpdate_written [OF c(2)] live versions fresh c(1) u(2) ver
    by (auto simp: rebuilt_fields split: if_splits intro: exI [of _ "arVersion (rebuilt r app (apFinalizers old) cur)"])
  then obtain v where hr: "hr = (rebuilt r app (apFinalizers old) cur)\<lparr>arVersion := v\<rparr>" by blast
  have "filterPrefixedMap (arLabels hr) LabelPrefix = apLabels app"
    using config prefixed_not_own(1) by (auto simp: hr filterPrefixedMap_def rebuilt_labels split: option.split)
  moreover have "filterPrefixedMap (arAnnotations hr) AnnotationPrefix = apAnnotations app"
    by (auto simp: hr filterPrefixedMap_def rebuilt_annotations)
  moreover have "arLabels hr k = arLabels cur k" if "k \<in> dom (arLabels cur) - ownLabels" "\<not> prefix LabelPrefix k" for k
    using that by (auto simp: hr rebuilt_labels)
  ultimately show ?thesis using u(1-3) by (auto simp: hr rebuilt_fields(1-8) rebuilt_annotations mergeGarbageCollectionFinalizers_merge(1))
qed

lemma shown_fields:
  assumes "ConvertHelmReleaseToApplication env r hr = Inr app"
  shows "apName app = trimPrefix (arName hr) (rcPrefix (rsConfig r))" "apNamespace app = arNamespace hr"
    "apLabels app = filterPrefixedMap (arLabels hr) LabelPrefix" "apAnnotations app = filterPrefixedMap (arAnnotations hr) AnnotationPrefix"
    "apVersion app = arVersion hr" "readSpec (reNum env) (rsSpecSchema r) (asValues (arSpec hr)) = Inr (apSpec app)"
  using assms
  by (auto simp: ConvertHelmReleaseToApplication_def ConvertHelmReleaseToApplicationWithMonitor_def convertHelmReleaseToApplication_def
      readSpec_def Let_def try_bind_eq_Inr)

lemma releaseFor_fields:
  assumes "\<forall>k. rcLabels (rsConfig r) (LabelPrefix @ k) = None"
  shows "arName (releaseFor r app) = rcPrefix (rsConfig r) @ apName app" "arNamespace (releaseFor r app) = apNamespace app"
    "asValues (arSpec (releaseFor r app)) = apSpec app" "filterPrefixedMap (arLabels (releaseFor r app)) LabelPrefix = apLabels app"
    "filterPrefixedMap (arAnnotations (releaseFor r app)) AnnotationPrefix = apAnnotations app"
    "hasRequiredApplicationLabelsWithName r (releaseFor r app) (apName app)"
proof -
  show "filterPrefixedMap (arLabels (releaseFor r app)) LabelPrefix = apLabels app"
    using assms by (intro ext) (simp add: releaseFor_def filterPrefixedMap_def applicationLabels_other [OF prefixed_not_own(1)]
        convertApplicationToHelmRelease_def mergeMaps_def map_add_def Let_def split: option.split)
qed (simp_all add: releaseFor_def convertApplicationToHelmRelease_def hasRequiredApplicationLabelsWithName_def hasRequiredApplicationLabels_def
    applicationLabels_required Let_def)


text \<open>The applications a list request is about, stated on the applications alone.\<close>

definition asked :: "string \<Rightarrow> listOptions \<Rightarrow> Application \<Rightarrow> bool" where
  "asked namespace opts app \<longleftrightarrow> (namespace = [] \<or> apNamespace app = namespace) \<and> (loName opts = [] \<or> apName app = loName opts) \<and>
     (case loLabels opts of None \<Rightarrow> True | Some reqs \<Rightarrow> labelsMatch reqs (apLabels app)) \<and>
     (case loFields opts of None \<Rightarrow> True | Some terms \<Rightarrow>
        fieldsMatch terms [''metadata.name'' \<mapsto> apName app, ''metadata.namespace'' \<mapsto> apNamespace app])"

definition ofKind :: "REST \<Rightarrow> AppRelease \<Rightarrow> bool" where
  "ofKind r hr \<longleftrightarrow> arLabels hr ApplicationKindLabel = Some (rsKind r) \<and> arLabels hr ApplicationGroupLabel = Some (rsGroup r)"

definition shownApps :: "restEnv \<Rightarrow> REST \<Rightarrow> AppRelease list \<Rightarrow> Application list" where
  "shownApps env r hrs =
     concat (map (\<lambda>hr. case ConvertHelmReleaseToApplication env r hr of Inl e \<Rightarrow> [] | Inr app \<Rightarrow> [app]) (filter (ofKind r) hrs))"

lemma exactMatch_term: "exactMatch terms f = v \<Longrightarrow> v \<noteq> [] \<Longrightarrow> (f, True, v) \<in> set terms"
  by (auto simp: exactMatch_def find_Some_iff in_set_conv_nth split: option.splits)

lemma fieldsMatch_exact:
  assumes "fieldsMatch terms fs" "exactMatch terms f \<noteq> []"
  shows "strOf fs f = exactMatch terms f"
  using exactMatch_term [OF refl assms(2)] assms(1) by (auto simp: fieldsMatch_def list_all_iff)

lemma helmLabelSelector_match:
  assumes "helmLabelSelector validKey r sel = Inr reqs" "ConvertHelmReleaseToApplication env r hr = Inr app"
  shows "labelsMatch reqs (arLabels hr) \<longleftrightarrow> ofKind r hr \<and> (case sel of None \<Rightarrow> True | Some qs \<Rightarrow> labelsMatch qs (apLabels app))"
  using assms(1) shown_fields(3) [OF assms(2)]
  by (auto simp: helmLabelSelector_def labelsMatch_def equalsRequirement_def prefixedRequirement_def ofKind_def filterPrefixedMap_def
      list_all_iff Let_def split: option.splits if_splits)

lemma listedApp_asked:
  assumes "ConvertHelmReleaseToApplication env r hr = Inr app" "prefix (rcPrefix (rsConfig r)) (arName hr)" "namespace = [] \<or> arNamespace hr = namespace"
  shows "listedApp env r opts hr = (if asked namespace opts app then [app] else [])"
proof -
  obtain n where n: "arName hr = rcPrefix (rsConfig r) @ n" using assms(2) by (auto simp: prefix_def)
  note sh = shown_fields [OF assms(1)]
  have nm: "apName app = n" using sh(1) n by simp
  show ?thesis
  proof (cases "loFields opts")
    case None
    then show ?thesis using assms sh(2)
      by (auto simp: listedApp_def ParseFieldSelector_def MatchesNamespace_def asked_def Let_def split: option.split)
  next
    case (Some terms)
    let ?fs = "[''metadata.name'' \<mapsto> apName app, ''metadata.namespace'' \<mapsto> apNamespace app]"
    have "fieldsMatch terms ?fs \<Longrightarrow> (exactMatch terms ''metadata.name'' = [] \<or> exactMatch terms ''metadata.name'' = n) \<and>
        (exactMatch terms ''metadata.namespace'' = [] \<or> exactMatch terms ''metadata.namespace'' = arNamespace hr)"
      using fieldsMatch_exact [of terms ?fs "''metadata.name''"] fieldsMatch_exact [of terms ?fs "''metadata.namespace''"] nm sh(2)
      by (cases "exactMatch terms ''metadata.name''"; cases "exactMatch terms ''metadata.namespace''") (simp_all add: strOf_def)
    then show ?thesis using Some assms(1,3) sh(2) n
      by (auto simp: listedApp_def ParseFieldSelector_def MatchesNamespace_def asked_def Let_def split: option.split)
  qed
qed

text \<open>A list answers with exactly the applications the request is about: those of the kind, whose
  namespace, name, labels and fields the request asks for, sorted by namespace and name. Filtering
  HelmReleases by prefixed labels and names loses none and adds none, provided the release names of
  the kind carry its prefix.\<close>

theorem restList_exact:
  assumes "\<forall>hr \<in> set hrs. ofKind r hr \<longrightarrow> prefix (rcPrefix (rsConfig r)) (arName hr)"
    and "\<forall>reqs. loLabels opts = Some reqs \<longrightarrow> list_all (\<lambda>q. validKey (LabelPrefix @ rqKey q)) reqs"
  shows "\<exists>v. restList env r validKey (Inr hrs) listVersion namespace opts =
    Inr (v, byNamespacedName (filter (asked namespace opts) (shownApps env r hrs)))"
proof -
  let ?f = "ParseFieldSelector (loFields opts)"
  obtain sel where sel: "helmLabelSelector validKey r (loLabels opts) = Inr sel"
    using assms(2) by (cases "loLabels opts") (simp_all add: helmLabelSelector_def)
  let ?ok = "\<lambda>hr. (namespace = [] \<or> arNamespace hr = namespace) \<and> labelsMatch sel (arLabels hr)"
  have one: "(if ?ok hr then listedApp env r opts hr else []) =
      (if ofKind r hr then filter (asked namespace opts) (case ConvertHelmReleaseToApplication env r hr of Inl e \<Rightarrow> [] | Inr app \<Rightarrow> [app]) else [])"
    if hr: "hr \<in> set hrs" for hr
  proof (cases "ConvertHelmReleaseToApplication env r hr")
    case (Inl e)
    then show ?thesis by (simp add: listedApp_def Let_def)
  next
    case (Inr app)
    show ?thesis
    proof (cases "?ok hr")
      case True
      then have "ofKind r hr" using helmLabelSelector_match [OF sel Inr] by simp
      then show ?thesis using True Inr listedApp_asked [OF Inr, of namespace opts] assms(1) hr by simp
    next
      case False
      then have "ofKind r hr \<Longrightarrow> \<not> asked namespace opts app"
        using helmLabelSelector_match [OF sel Inr] shown_fields(2) [OF Inr] by (auto simp: asked_def split: option.splits)
      then show ?thesis using False Inr by auto
    qed
  qed
  have flat: "concat (map g (filter P xs)) = concat (map (\<lambda>x. if P x then g x else []) xs)" for g P and xs :: "AppRelease list"
    by (induction xs) auto
  let ?C = "\<lambda>hr. case ConvertHelmReleaseToApplication env r hr of Inl e \<Rightarrow> [] | Inr app \<Rightarrow> [app]"
  have "concat (map (listedApp env r opts) (filter ?ok hrs)) = concat (map (\<lambda>hr. if ?ok hr then listedApp env r opts hr else []) hrs)" by (rule flat)
  also have "\<dots> = concat (map (\<lambda>hr. if ofKind r hr then filter (asked namespace opts) (?C hr) else []) hrs)"
    by (intro arg_cong [of _ _ concat] map_cong refl one)
  also have "\<dots> = filter (asked namespace opts) (shownApps env r hrs)" unfolding shownApps_def by (induction hrs) simp_all
  finally have "concat (map (listedApp env r opts) (filter ?ok hrs)) = filter (asked namespace opts) (shownApps env r hrs)" .
  moreover have "filter (asked namespace opts) (shownApps env r hrs) = []"
    if ns: "fiNamespace ?f \<noteq> []" "namespace \<noteq> []" "namespace \<noteq> fiNamespace ?f"
  proof -
    obtain terms where t: "loFields opts = Some terms" using ns(1) by (cases "loFields opts") (auto simp: ParseFieldSelector_def)
    have "\<not> asked namespace opts app" for app
      using ns fieldsMatch_exact [of terms "[''metadata.name'' \<mapsto> apName app, ''metadata.namespace'' \<mapsto> apNamespace app]" "''metadata.namespace''"]
      by (auto simp: t ParseFieldSelector_def asked_def strOf_def)
    then show ?thesis by simp
  qed
  ultimately show ?thesis using sel by (auto simp: restList_def Let_def byNamespacedName_def)
qed

subsection \<open>What an update does not promise\<close>

text \<open>A system label that another value was given, or whose value in the ApplicationDefinition changed, stays
  as it is on the live object: an update never brings the configured value to an existing release.\<close>

theorem configured_label_stays:
  assumes "arLabels cur k = Some v" "k \<notin> ownLabels" "\<not> prefix LabelPrefix k" "rcLabels (rsConfig r) k = Some v'"
  shows "arLabels (rebuilt r app prev cur) k = Some v"
  using assms by (simp add: rebuilt_labels)

text \<open>The version a client sends is no precondition: when another write came in between, the update is
  repeated over the newer object and succeeds with the values of the client.\<close>

theorem stale_version_overwrites:
  assumes "awRead w 0 = Found c0" "apVersion app \<noteq> []" "awFail w 0 = None" "awFail w 1 = None"
    and "awNow w 0 = Some cur" "awNow w 1 = Some cur" "awRead w 1 = Found cur" "apVersion app \<noteq> arVersion cur"
  shows "\<exists>hr. snd (replaceRelease env r w prev app) = [WUpdate 1 hr] \<and> asValues (arSpec hr) = apSpec app"
proof -
  have first: "serverPut w 0 (rebuilt r app prev c) = PutConflict" for c
    using assms(2,3,5,8) by (simp add: serverPut_def rebuilt_fields(6))
  have second: "serverPut w 1 ((rebuilt r app prev cur)\<lparr>arVersion := arVersion cur\<rparr>) = PutOk (awStored w 1 ((rebuilt r app prev cur)\<lparr>arVersion := arVersion cur\<rparr>))"
    using assms(4,6) by (simp add: serverPut_def)
  have "retryUpdate r w app prev updateAttempts 0 (rebuilt r app prev c0) =
      Inr (1, (rebuilt r app prev cur)\<lparr>arVersion := arVersion cur\<rparr>, awStored w 1 ((rebuilt r app prev cur)\<lparr>arVersion := arVersion cur\<rparr>))"
    using first second assms(7) by (simp add: updateAttempts_def numeral_eq_Suc)
  then show ?thesis using assms(1,2) by (simp add: replaceRelease_def Let_def rebuilt_fields(5))
qed

text \<open>Reads come from a cache. With the current version in the request and an older object in the cache the
  first write succeeds, and the metadata of the older object replaces the live one.\<close>

theorem stale_cache_undoes_metadata:
  assumes "awRead w 0 = Found old" "apVersion app \<noteq> []" "awFail w 0 = None" "awNow w 0 = Some cur" "apVersion app = arVersion cur"
    and "arFinalizers old = []" "arFinalizers cur = [''finalizers.fluxcd.io'']" "apFinalizers app = []"
  shows "\<exists>hr. snd (replaceRelease env r w [] app) = [WUpdate 0 hr] \<and> arFinalizers hr = []"
proof -
  have "serverPut w 0 (rebuilt r app [] old) = PutOk (awStored w 0 (rebuilt r app [] old))"
    using assms(3-5) by (simp add: serverPut_def rebuilt_fields(6))
  then have "retryUpdate r w app [] updateAttempts 0 (rebuilt r app [] old) = Inr (0, rebuilt r app [] old, awStored w 0 (rebuilt r app [] old))"
    by (simp add: updateAttempts_def numeral_eq_Suc)
  moreover have "arFinalizers (rebuilt r app [] old) = []"
    using assms(6,8) by (simp add: rebuilt_fields(3) mergeGarbageCollectionFinalizers_def mergeFinalizer_def)
  ultimately show ?thesis using assms(1,2) by (simp add: replaceRelease_def Let_def)
qed

subsection \<open>Examples\<close>

definition demoREST :: REST where
  "demoREST = \<lparr>rsKind = ''Postgres'', rsGroup = ''apps.cozystack.io'',
     rsConfig = \<lparr>rcPrefix = ''postgres-'', rcLabels = Map.empty, rcChartRef = (''ExternalArtifact'', ''pg'', ''cozy-system''),
       rcHelmInstallTimeout = 0, rcHelmUpgradeTimeout = 0, rcInterval = 5, rcRetryInterval = 1, rcInstallTimeout = 10, rcUpgradeTimeout = 10,
       rcMaxHistory = 5, rcDisableWait = False, rcServerSideApply = None, rcWaitStrategy = [], rcHealthCheckExprs = []\<rparr>,
     rsSpecSchema = Some demoSchema, rsNameSchema = None, rsNameSchemaErr = None\<rparr>"

definition demoRestEnv :: restEnv where
  "demoRestEnv = \<lparr>reNum = Some, reRaw = (\<lambda>_. []), reQuotas = (\<lambda>_. Inr []), reOrder = id,
     reAdmission = \<lparr>acGet = (\<lambda>_ _. HRNotFound), acListIn = (\<lambda>_. Inr []), acListAll = Inr [], acQuotas = (\<lambda>_. Inr [])\<rparr>,
     reIsDNS1035 = (\<lambda>_. []), reMatches = (\<lambda>_ _. True), reMonitors = (\<lambda>_ _. Inr []), reServices = (\<lambda>_. Inr []), reNow = 9\<rparr>"

definition demoPostgres :: Application where
  "demoPostgres = \<lparr>apName = ''db'', apNamespace = ''tenant-a'', apUID = [], apVersion = [], apCreated = None, apDeletion = None, apFinalizers = [],
     apLabels = [''team'' \<mapsto> ''x''], apAnnotations = Map.empty, apSpec = Some demoSpec, apStatusVersion = [], apConditions = [],
     apStatusNamespace = [], apExternalIPs = 0\<rparr>"

definition demoStored :: "AppRelease \<Rightarrow> AppRelease" where
  "demoStored hr = hr\<lparr>arUID := ''u1'', arVersion := ''7'', arCreated := Some 3\<rparr>"

definition demoAccepted :: Application where
  "demoAccepted = demoPostgres\<lparr>apSpec := Some (JObj [(''size'', JNum 5)])\<rparr>"

definition demoAppRelease :: AppRelease where
  "demoAppRelease = demoStored (releaseFor demoREST demoAccepted)"

lemmas demoRest_defs = demoREST_def demoRestEnv_def demoPostgres_def demoStored_def demoAccepted_def

lemma demoNormalized: "normalizeApp demoRestEnv demoREST demoPostgres = Inr demoAccepted"
proof -
  have "decodeMap Some demoSpec = Inr (Some [(''replicas'', JNull), (''size'', JNum 5)])"
    using demoSpec_decoded by (simp only: decodeMap_Inr) (simp add: demoSpec_def)
  then have "validateNoInternalKeys Some (Some demoSpec) = None" by (simp add: validateNoInternalKeys_def isInternal_def)
  then show ?thesis using demoSpec_normalized by (simp add: normalizeApp_def demoRest_defs)
qed

lemma demoNew: "validateNew demoRestEnv demoREST demoPostgres = None" "tenantQuotaErrors demoRestEnv demoREST demoPostgres = None"
  by (simp_all add: validateNew_def tenantQuotaErrors_def validateNameFormat_def ValidateApplicationName_def
      validateNameAgainstSchema_def validateNameLength_def maxHelmReleaseName_def TenantKindName_def demoREST_def demoRestEnv_def demoPostgres_def Let_def)

lemma demoConfig: "\<forall>k. rcLabels (rsConfig demoREST) (LabelPrefix @ k) = None"
  by (simp add: demoREST_def)

lemma demoRead: "readSpec Some (Some demoSchema) (Some (JObj [(''size'', JNum 5)])) = Inr (Some (JObj [(''replicas'', JNum 2), (''size'', JNum 5)]))"
proof -
  have c: "canon Some (JObj [(''size'', JNum 5)])" by simp
  have lt: "''replicas'' < ''size''" "\<not> ''size'' < ''replicas''" "\<not> ''size'' < ''size''" by code_simp+
  have s: "applyDefaults (JNum n) (plainSchema d) False = JNum n" for n d by (simp add: scalar_defaults plainSchema_def effType_def)
  have "applyDefaults (JObj [(''size'', JNum 5)]) demoSchema True = JObj [(''replicas'', JNum 2), (''size'', JNum 5)]"
    unfolding applyDefaults.simps [of _ demoSchema]
    using s lt by (simp add: demoSchema_def plainSchema_def effType_def objectOf_def presentOr_def)
  then show ?thesis unfolding readSpec_canonical [OF c] by (simp add: isInternal_def)
qed

lemma demoShown: "ConvertHelmReleaseToApplication demoRestEnv demoREST demoAppRelease = Inr
    ((convertHelmReleaseToApplication demoRestEnv demoREST demoAppRelease None)\<lparr>apSpec := Some (JObj [(''replicas'', JNum 2), (''size'', JNum 5)])\<rparr>)"
  using demoRead by (simp add: ConvertHelmReleaseToApplication_def ConvertHelmReleaseToApplicationWithMonitor_def convertHelmReleaseToApplication_def
      readSpec_def Let_def demoRest_defs demoAppRelease_def releaseFor_def convertApplicationToHelmRelease_def)


definition demoNewer :: Application where
  "demoNewer = demoAccepted\<lparr>apLabels := [''team'' \<mapsto> ''y'']\<rparr>"

definition demoWorld :: apiWorld where
  "demoWorld = \<lparr>awRead = (\<lambda>_. Found demoAppRelease), awNow = (\<lambda>_. Some demoAppRelease), awFail = (\<lambda>_. None), awStored = (\<lambda>_ hr. hr)\<rparr>"

lemma demoAgain: "normalizeApp demoRestEnv demoREST demoNewer = Inr demoNewer"
proof -
  have c: "canon Some (JObj [(''size'', JNum 5)])" by simp
  have d: "decodeMap Some (JObj [(''size'', JNum 5)]) = Inr (Some [(''size'', JNum 5)])" using canon_decodeAny [OF c] by (simp only: decodeMap_Inr) simp
  have "stripDeclaredNulls (JObj [(''size'', JNum 5)]) demoSchema [] = (JObj [(''size'', JNum 5)], [])"
    by (simp add: stripDeclaredNulls.simps [of "JObj x" for x] strip_other demoSchema_def plainSchema_def Let_def)
  then show ?thesis using d by (simp add: normalizeApp_def normalizeSpecNulls_def validateNoInternalKeys_def isInternal_def demoNewer_def demoRest_defs)
qed

lemma demoReplaced:
  "\<exists>out. replaceRelease demoRestEnv demoREST demoWorld [] demoNewer =
     (out, [WUpdate 0 ((rebuilt demoREST demoNewer [] demoAppRelease)\<lparr>arVersion := ''7''\<rparr>)])"
proof -
  have v: "arVersion demoAppRelease = ''7''" by (simp add: demoAppRelease_def demoStored_def)
  have w: "awRead demoWorld = (\<lambda>_. Found demoAppRelease)" "apVersion demoNewer = []" by (simp_all add: demoWorld_def demoNewer_def demoRest_defs)
  have "serverPut demoWorld 0 (hr\<lparr>arVersion := ''7''\<rparr>) = PutOk (hr\<lparr>arVersion := ''7''\<rparr>)" for hr by (simp add: serverPut_def demoWorld_def v)
  then show ?thesis by (simp add: replaceRelease_def w v updateAttempts_def numeral_eq_Suc Let_def)
qed

theorem update_keeps_live_metadata_witness:
  "\<exists>hr. snd (restUpdate demoRestEnv demoREST demoWorld (\<lambda>n. Found demoAppRelease) (\<lambda>_. Inr demoNewer) (\<lambda>_. None) (\<lambda>_ _. None) False Inr ''db'') = [WUpdate 0 hr] \<and>
     arOwners hr = arOwners demoAppRelease"
proof -
  let ?u = "restUpdate demoRestEnv demoREST demoWorld (\<lambda>n. Found demoAppRelease) (\<lambda>_. Inr demoNewer) (\<lambda>_. None) (\<lambda>_ _. None) False Inr ''db''"
  have kind: "hasRequiredApplicationLabels demoREST demoAppRelease"
    using releaseFor_fields(6) [OF demoConfig, of demoAccepted] by (simp add: hasRequiredApplicationLabelsWithName_def hasRequiredApplicationLabels_def demoAppRelease_def demoStored_def)
  have gc: "apFinalizers (convertHelmReleaseToApplication demoRestEnv demoREST demoAppRelease None) = []"
    by (simp add: convertHelmReleaseToApplication_def garbageCollectionFinalizers_def demoAppRelease_def releaseFor_def convertApplicationToHelmRelease_def demoRest_defs Let_def)
  have quota: "tenantQuotaErrors demoRestEnv demoREST demoNewer = None" by (simp add: tenantQuotaErrors_def TenantKindName_def demoREST_def)
  obtain out hr where run: "?u = (out, [WUpdate 0 hr])"
    using demoReplaced demoShown kind gc quota by (auto simp: restUpdate_def restGet_def converted_def demoAgain)
  have "awNow demoWorld 0 = Some demoAppRelease" "arVersion demoAppRelease \<noteq> []"
    "\<forall>i c. awRead demoWorld i = Found c \<longrightarrow> arVersion c \<noteq> [] \<and> (arVersion c = arVersion demoAppRelease \<longrightarrow> c = demoAppRelease)"
    "(0::nat) = 0 \<longrightarrow> awRead demoWorld 0 = Found demoAppRelease \<or> (\<forall>old app0. Inr demoNewer = (Inr app0 :: string + Application) \<longrightarrow> apVersion app0 = [])"
    by (simp_all add: demoWorld_def demoAppRelease_def demoStored_def)
  from update_keeps_live_metadata [where updated = "\<lambda>_. Inr demoNewer", OF run this demoConfig] have "arOwners hr = arOwners demoAppRelease" by blast
  then show ?thesis using run by simp
qed

theorem restList_exact_witness:
  "\<exists>v. restList demoRestEnv demoREST (\<lambda>_. True) (Inr [demoAppRelease]) [] ''tenant-a'' \<lparr>loLabels = None, loFields = None, loName = []\<rparr> =
     Inr (v, byNamespacedName (filter (asked ''tenant-a'' \<lparr>loLabels = None, loFields = None, loName = []\<rparr>) (shownApps demoRestEnv demoREST [demoAppRelease])))"
proof -
  have "\<forall>hr \<in> set [demoAppRelease]. ofKind demoREST hr \<longrightarrow> prefix (rcPrefix (rsConfig demoREST)) (arName hr)"
    by (simp add: demoAppRelease_def demoStored_def releaseFor_def convertApplicationToHelmRelease_def demoREST_def Let_def)
  from restList_exact [OF this, of "\<lparr>loLabels = None, loFields = None, loName = []\<rparr>" "\<lambda>_. True"] show ?thesis by simp
qed

end
