(* ===== verification/App_Watch.thy ===== *)
theory App_Watch
  imports App_Storage
begin

text \<open>
  The watch of applications (\<open>pkg/registry/apps/application/rest.go\<close>, \<open>Watch\<close>): one loop over the events of
  HelmReleases and of WorkloadMonitors. What the monitors report before the initial events are complete
  is held back and sent after the marker. An input carries what the conversion reads from the cluster when
  it is handled; a watch of monitors that could not be set up, or that closed, delivers nothing.
\<close>

subsection \<open>The loop\<close>

record monitorEvent =
  meMonitor :: AppMonitor
  meLabels :: "string \<rightharpoonup> string"
  meVersion :: string

datatype appInput =
    HrObject restEnv eventType AppRelease
  | HrBookmark string
  | HrOther \<comment> \<open>a status, an error or an object of another type\<close>
  | WmObject restEnv "string \<Rightarrow> string \<Rightarrow> AppRelease fetched" monitorEvent
  | WmOther \<comment> \<open>bookmarks, errors, other objects and the closing of the watch\<close>

record watchParams =
  wpREST :: REST
  wpNamespace :: string
  wpOptions :: listOptions
  wpStarting :: nat

record appWatchState =
  awBookmarker :: InitialEventsBookmarker
  awPending :: "Application list"

definition filterByName :: "watchParams \<Rightarrow> string" where
  "filterByName p =
     (let f = ParseFieldSelector (loFields (wpOptions p)) in
      if fiName f \<noteq> [] then rcPrefix (rsConfig (wpREST p)) @ fiName f else [])"

definition labelSelected :: "watchParams \<Rightarrow> Application \<Rightarrow> bool" where
  "labelSelected p app \<longleftrightarrow> (case loLabels (wpOptions p) of None \<Rightarrow> True | Some reqs \<Rightarrow> labelsMatch reqs (apLabels app))"

text \<open>What a HelmRelease shows as, past all filters.\<close>

definition hrShown :: "watchParams \<Rightarrow> restEnv \<Rightarrow> AppRelease \<Rightarrow> Application option" where
  "hrShown p env hr =
     (if filterByName p \<noteq> [] \<and> arName hr \<noteq> filterByName p then None
      else if \<not> MatchesNamespace (ParseFieldSelector (loFields (wpOptions p))) (arNamespace hr) then None
      else case ConvertHelmReleaseToApplication env (wpREST p) hr of
        Inl e \<Rightarrow> None
      | Inr app \<Rightarrow>
          if loName (wpOptions p) \<noteq> [] \<and> apName app \<noteq> loName (wpOptions p) then None
          else if \<not> labelSelected p app then None
          else Some app)"

text \<open>What an event of a monitor shows as: its application, with the version of the monitor.\<close>

definition wmShown :: "watchParams \<Rightarrow> restEnv \<Rightarrow> (string \<Rightarrow> string \<Rightarrow> AppRelease fetched) \<Rightarrow> monitorEvent \<Rightarrow> Application option" where
  "wmShown p env get me =
     (case meLabels me ApplicationNameLabel of
        None \<Rightarrow> None
      | Some wmAppName \<Rightarrow>
          (let r = wpREST p; f = ParseFieldSelector (loFields (wpOptions p));
               hrName = rcPrefix (rsConfig r) @ wmAppName;
               tenant = (rsKind r = TenantKindName);
               hrNS = (if tenant then wpNamespace p else amNamespace (meMonitor me)) in
           if filterByName p \<noteq> [] \<and> hrName \<noteq> filterByName p then None
           else if loName (wpOptions p) \<noteq> [] \<and> wmAppName \<noteq> loName (wpOptions p) then None
           else if tenant \<and> computeTenantNamespace (rcPrefix (rsConfig r)) (wpNamespace p) wmAppName \<noteq> amNamespace (meMonitor me) then None
           else if \<not> MatchesNamespace f hrNS then None
           else case get hrNS hrName of
             Missing \<Rightarrow> None
           | FetchError e \<Rightarrow> None
           | Found hr \<Rightarrow>
               (case ConvertHelmReleaseToApplicationWithMonitor env r hr (Some (meMonitor me)) of
                  Inl e \<Rightarrow> None
                | Inr app \<Rightarrow> if \<not> labelSelected p app then None else Some (app\<lparr>apVersion := meVersion me\<rparr>))))"

definition drainPending :: "appWatchState \<Rightarrow> Application clientEvent list" where
  "drainPending s = map (ClientEvent Modified) (awPending s)"

definition appWatchStep :: "watchParams \<Rightarrow> appWatchState \<Rightarrow> appInput \<Rightarrow> Application clientEvent list \<times> appWatchState" where
  "appWatchStep p s i =
     (case i of
        HrBookmark rv \<Rightarrow>
          (case OnBackingBookmark (awBookmarker s) rv of (bookmark, initialEventsEnd, b) \<Rightarrow>
             if initialEventsEnd then (bookmark # drainPending s, \<lparr>awBookmarker = b, awPending = []\<rparr>)
             else ([bookmark], s\<lparr>awBookmarker := b\<rparr>))
      | HrOther \<Rightarrow> ([], s)
      | HrObject env t hr \<Rightarrow>
          (let b = Observe (awBookmarker s) (arVersion hr) in
           case hrShown p env hr of
             None \<Rightarrow> ([], s\<lparr>awBookmarker := b\<rparr>)
           | Some app \<Rightarrow>
               (case BeforeLiveEvent b t of (marker, b') \<Rightarrow>
                  let sent = (case marker of None \<Rightarrow> [] | Some ev \<Rightarrow> ev # drainPending s);
                      s' = \<lparr>awBookmarker = b', awPending = (if marker = None then awPending s else [])\<rparr> in
                  if alreadySeen (wpStarting p) t (apVersion app) then (sent, s')
                  else (sent @ [ClientEvent t app], s')))
      | WmOther \<Rightarrow> ([], s)
      | WmObject env get me \<Rightarrow>
          (case wmShown p env get me of
             None \<Rightarrow> ([], s)
           | Some app \<Rightarrow>
               if \<not> bmSent (awBookmarker s) then ([], s\<lparr>awPending := awPending s @ [app]\<rparr>)
               else ([ClientEvent Modified app], s\<lparr>awBookmarker := Observe (awBookmarker s) (meVersion me)\<rparr>)))"

definition appWatchClose :: "appWatchState \<Rightarrow> Application clientEvent list" where
  "appWatchClose s =
     (case fst (OnClose (awBookmarker s)) of None \<Rightarrow> [] | Some bookmark \<Rightarrow> bookmark # drainPending s)"

text \<open>\<open>backing\<close> gives the inputs of both watches in the order in which the loop takes them, for a selector of
  HelmReleases, or the error of the watch of HelmReleases.\<close>

definition appWatch :: "REST \<Rightarrow> (string \<Rightarrow> bool) \<Rightarrow> (requirement list \<Rightarrow> string + appInput option list) \<Rightarrow> string option \<Rightarrow>
    listOptions \<Rightarrow> watchOptions \<Rightarrow> rest_error + Application clientEvent list" where
  "appWatch r validKey backing ctxNS opts wopts =
     (case ctxNS of
        None \<Rightarrow> Inl (EOther ''namespace not found in context'')
      | Some ns \<Rightarrow>
          (case try_bind (helmLabelSelector validKey r (loLabels opts)) backing of
             Inl e \<Rightarrow> Inl (EOther e)
           | Inr ins \<Rightarrow>
               Inr (watchLoop
                 (appWatchStep \<lparr>wpREST = r, wpNamespace = ns, wpOptions = opts, wpStarting = startingVersion (woVersion wopts)\<rparr>)
                 appWatchClose
                 \<lparr>awBookmarker = NewInitialEventsBookmarker (InitialEventsEndBookmarkRequested wopts) (woVersion wopts),
                  awPending = []\<rparr> ins)))"

subsection \<open>What is sent for an input\<close>

definition hrSent :: "watchParams \<Rightarrow> appInput \<Rightarrow> Application clientEvent list" where
  "hrSent p i =
     (case i of
        HrObject env t hr \<Rightarrow>
          (case hrShown p env hr of
             None \<Rightarrow> []
           | Some app \<Rightarrow> if alreadySeen (wpStarting p) t (apVersion app) then [] else [ClientEvent t app])
      | _ \<Rightarrow> [])"

definition wmApps :: "watchParams \<Rightarrow> appInput \<Rightarrow> Application list" where
  "wmApps p i = (case i of WmObject env get me \<Rightarrow> (case wmShown p env get me of None \<Rightarrow> [] | Some app \<Rightarrow> [app]) | _ \<Rightarrow> [])"

definition wmSent :: "watchParams \<Rightarrow> appInput \<Rightarrow> Application clientEvent list" where
  "wmSent p i = map (ClientEvent Modified) (wmApps p i)"

text \<open>The inputs that complete the initial events.\<close>

definition completes :: "watchParams \<Rightarrow> appInput \<Rightarrow> bool" where
  "completes p i \<longleftrightarrow>
     (case i of HrBookmark rv \<Rightarrow> True | HrObject env t hr \<Rightarrow> t \<noteq> Added \<and> hrShown p env hr \<noteq> None | _ \<Rightarrow> False)"

lemma drainPending_events [simp]:
  "list_all unmarked (drainPending s)" "filter objectEvent (drainPending s) = drainPending s"
  by (auto simp: drainPending_def list_all_iff filter_map o_def)

lemma hrSent_cases: "hrSent p (HrObject env t hr) = [] \<or> (\<exists>app. hrSent p (HrObject env t hr) = [ClientEvent t app])"
  by (simp add: hrSent_def split: option.split)

lemma step_pending:
  assumes "\<not> bmSent (awBookmarker s)" "\<not> completes p i"
  shows "\<exists>s'. appWatchStep p s i = (hrSent p i, s') \<and> \<not> bmSent (awBookmarker s') \<and> awPending s' = awPending s @ wmApps p i \<and>
    list_all initialEvent (hrSent p i)"
proof (cases i)
  case (HrObject env t hr)
  then show ?thesis using assms
    by (cases "hrShown p env hr") (auto simp: appWatchStep_def hrSent_def wmApps_def completes_def bookmarking Let_def)
next
  case (WmObject env get me)
  then show ?thesis using assms by (cases "wmShown p env get me") (auto simp: appWatchStep_def hrSent_def wmApps_def)
qed (use assms in \<open>auto simp: appWatchStep_def hrSent_def wmApps_def completes_def\<close>)

lemma step_completes:
  assumes "\<not> bmSent (awBookmarker s)" "completes p i"
  shows "\<exists>v s'. appWatchStep p s i = (ClientBookmark v True # drainPending s @ hrSent p i, s') \<and> bmSent (awBookmarker s') \<and>
    awPending s' = []"
proof (cases i)
  case (HrObject env t hr)
  then show ?thesis using assms
    by (cases "hrShown p env hr") (auto simp: appWatchStep_def hrSent_def completes_def bookmarking Let_def)
next
  case (HrBookmark rv)
  then show ?thesis using assms by (auto simp: appWatchStep_def hrSent_def bookmarking)
qed (use assms in \<open>auto simp: completes_def\<close>)

lemma step_live:
  assumes "bmSent (awBookmarker s)" "appWatchStep p s i = (out, s')"
  shows "bmSent (awBookmarker s')" "list_all unmarked out" "filter objectEvent out = hrSent p i @ wmSent p i"
proof -
  have "bmSent (awBookmarker s') \<and> list_all unmarked out \<and> filter objectEvent out = hrSent p i @ wmSent p i"
  proof (cases i)
    case (HrObject env t hr)
    then show ?thesis using assms
      by (cases "hrShown p env hr") (auto simp: appWatchStep_def hrSent_def wmSent_def wmApps_def bookmarking Let_def split: if_splits)
  next
    case (WmObject env get me)
    then show ?thesis using assms
      by (cases "wmShown p env get me") (auto simp: appWatchStep_def hrSent_def wmSent_def wmApps_def)
  qed (use assms in \<open>auto simp: appWatchStep_def hrSent_def wmSent_def wmApps_def bookmarking\<close>)
  then show "bmSent (awBookmarker s')" "list_all unmarked out" "filter objectEvent out = hrSent p i @ wmSent p i" by auto
qed

subsection \<open>The stream\<close>

lemma hrSent_wmSent_unmarked [simp]: "list_all unmarked (hrSent p i)" "list_all unmarked (wmSent p i)"
  by (auto simp: hrSent_def wmSent_def list_all_iff split: appInput.split option.split)

lemma appWatchClose_cases:
  "appWatchClose s = (if bmSent (awBookmarker s) then [] else ClientBookmark (bmLastRV (awBookmarker s)) True # drainPending s)"
  by (simp add: appWatchClose_def OnClose_def bookmarkEvent_def)

interpretation app_watch: initial_events "appWatchStep p" appWatchClose "\<lambda>s. \<not> bmSent (awBookmarker s)" for p
proof
  fix s i out s'
  assume step: "appWatchStep p s i = (out, s')"
  show "list_all initialEvent out" if "\<not> bmSent (awBookmarker s)" "\<not> bmSent (awBookmarker s')"
    using step_pending [OF that(1), of p i] step_completes [OF that(1), of p i] that(2) step by (cases "completes p i") auto
  show "markedOnce out" if "\<not> bmSent (awBookmarker s)" "\<not> \<not> bmSent (awBookmarker s')"
    using step_pending [OF that(1), of p i] step_completes [OF that(1), of p i] that(2) step
    by (cases "completes p i") (auto intro!: markedOnce_now)
  show "\<not> \<not> bmSent (awBookmarker s') \<and> list_all unmarked out" if "\<not> \<not> bmSent (awBookmarker s)"
    using step_live [OF _ step] that by simp
qed (auto simp: appWatchClose_cases intro!: markedOnce_now)

lemma stream_before:
  assumes "list_all (\<lambda>i. \<not> completes p i) pre" "\<not> bmSent (awBookmarker s)"
  shows "\<exists>s'. watchLoop (appWatchStep p) appWatchClose s (map Some pre @ rest)
      = concat (map (hrSent p) pre) @ watchLoop (appWatchStep p) appWatchClose s' rest \<and>
    \<not> bmSent (awBookmarker s') \<and> awPending s' = awPending s @ concat (map (wmApps p) pre) \<and>
    list_all initialEvent (concat (map (hrSent p) pre))"
  using assms
proof (induction pre arbitrary: s)
  case (Cons i pre)
  obtain s1 where s1: "appWatchStep p s i = (hrSent p i, s1)" "\<not> bmSent (awBookmarker s1)"
      "awPending s1 = awPending s @ wmApps p i" "list_all initialEvent (hrSent p i)"
    using step_pending [OF Cons(3), of p i] Cons(2) by auto
  from Cons(1) [OF _ s1(2)] Cons(2) show ?case using s1 by auto
qed auto

lemma stream_live:
  assumes "bmSent (awBookmarker s)"
  shows "filter objectEvent (watchLoop (appWatchStep p) appWatchClose s ins)
    = concat (map (\<lambda>i. hrSent p i @ wmSent p i) (readInputs ins))"
  using assms
proof (induction ins arbitrary: s rule: readInputs.induct)
  case (3 i ins)
  obtain out s' where "appWatchStep p s i = (out, s')" by fastforce
  with step_live [OF 3(2) this] 3(1) show ?case by simp
qed (simp_all add: appWatchClose_cases)

lemma hrSent_objects [simp]: "filter objectEvent (hrSent p i) = hrSent p i" "completes p i \<Longrightarrow> wmSent p i = []"
  by (auto simp: hrSent_def wmSent_def wmApps_def completes_def split: appInput.splits option.split)

text \<open>C34: A watch of applications that asks for the initial events sends, in this order: an event for
  every HelmRelease that arrives before the initial events are complete, all of them additions; the
  marker, once; the changes that the monitors reported meanwhile, none of them lost and in their order;
  and from then on every change of a release or of a monitor in the order in which the loop takes them.
  The initial events are complete at the first bookmark, at the first change of a shown release that is no
  addition, or when the watch of HelmReleases closes.\<close>

theorem appWatch_exact:
  assumes "appWatch r validKey backing (Some ns) opts wopts = Inr out" "InitialEventsEndBookmarkRequested wopts"
    and "try_bind (helmLabelSelector validKey r (loLabels opts)) backing = Inr ins"
    and "p = \<lparr>wpREST = r, wpNamespace = ns, wpOptions = opts, wpStarting = startingVersion (woVersion wopts)\<rparr>"
    and "ins = map Some pre @ rest" "list_all (\<lambda>i. \<not> completes p i) pre"
    and "case rest of [] \<Rightarrow> False | None # ins' \<Rightarrow> True | Some i # ins' \<Rightarrow> completes p i"
  shows "\<exists>v live. out = concat (map (hrSent p) pre) @ ClientBookmark v True # concat (map (wmSent p) pre) @ live \<and>
    list_all initialEvent (concat (map (hrSent p) pre)) \<and> list_all unmarked (concat (map (wmSent p) pre) @ live) \<and>
    filter objectEvent live = concat (map (\<lambda>i. hrSent p i @ wmSent p i) (readInputs rest))"
proof -
  define s where "s = \<lparr>awBookmarker = NewInitialEventsBookmarker True (woVersion wopts), awPending = []\<rparr>"
  have out: "out = watchLoop (appWatchStep p) appWatchClose s (map Some pre @ rest)"
    using assms(1-5) by (simp add: appWatch_def s_def)
  have "\<not> bmSent (awBookmarker s)" "awPending s = []" by (simp_all add: s_def NewInitialEventsBookmarker_def)
  from stream_before [OF assms(6) this(1), of rest] this(2)
  obtain s' where s': "out = concat (map (hrSent p) pre) @ watchLoop (appWatchStep p) appWatchClose s' rest"
      "\<not> bmSent (awBookmarker s')" "awPending s' = concat (map (wmApps p) pre)"
      "list_all initialEvent (concat (map (hrSent p) pre))"
    by (auto simp: out)
  have drained: "drainPending s' = concat (map (wmSent p) pre)"
    by (simp add: drainPending_def s'(3) map_concat wmSent_def [abs_def] o_def)
  have "\<exists>v live. watchLoop (appWatchStep p) appWatchClose s' rest = ClientBookmark v True # drainPending s' @ live \<and>
      list_all unmarked live \<and> filter objectEvent live = concat (map (\<lambda>i. hrSent p i @ wmSent p i) (readInputs rest))"
    using assms(7)
  proof (cases rest rule: readInputs.cases)
    case (2 ins')
    then show ?thesis by (simp add: appWatchClose_cases s'(2))
  next
    case (3 i ins')
    then have i: "completes p i" using assms(7) by simp
    from step_completes [OF s'(2) i] obtain v s2 where s2: "appWatchStep p s' i = (ClientBookmark v True # drainPending s' @ hrSent p i, s2)"
      "bmSent (awBookmarker s2)" by blast
    show ?thesis using app_watch.stream_after [of s2 p ins'] s2 stream_live [OF s2(2), of p ins'] i by (simp add: 3)
  qed simp
  then show ?thesis using s'(1,4) drained drainPending_events(1) [of s'] by auto
qed

text \<open>The witness: an application is added, its monitor reports, and the initial events end.\<close>

definition watchREST :: REST where "watchREST = demoREST\<lparr>rsSpecSchema := None\<rparr>"

definition demoMonitorEvent :: monitorEvent where
  "demoMonitorEvent = \<lparr>meMonitor = \<lparr>amUID = ''m'', amName = ''db'', amNamespace = ''tenant-a'', amCreated = None,
       amOperational = Some False, amMessage = ''down'', amReason = []\<rparr>,
     meLabels = [ApplicationNameLabel \<mapsto> ''db''], meVersion = ''9''\<rparr>"

definition demoListOptions :: listOptions where
  "demoListOptions = \<lparr>loLabels = None, loFields = None, loName = []\<rparr>"

definition demoWatchParams :: watchParams where
  "demoWatchParams = \<lparr>wpREST = watchREST, wpNamespace = ''tenant-a'', wpOptions = demoListOptions, wpStarting = 0\<rparr>"

lemma watchREST_converts:
  "ConvertHelmReleaseToApplicationWithMonitor env watchREST hr fresh = Inr (convertHelmReleaseToApplication env watchREST hr fresh)"
  by (simp add: ConvertHelmReleaseToApplicationWithMonitor_def applySpecDefaults_def watchREST_def)

lemma demo_starting: "wpStarting demoWatchParams = 0" by (simp add: demoWatchParams_def)

lemma demo_hrShown: "hrShown demoWatchParams env hr = Some (convertHelmReleaseToApplication env watchREST hr None)"
  by (simp add: hrShown_def filterByName_def demoWatchParams_def demoListOptions_def ParseFieldSelector_def MatchesNamespace_def
      ConvertHelmReleaseToApplication_def watchREST_converts labelSelected_def)

lemma demo_wmShown:
  "wmShown demoWatchParams env (\<lambda>ns n. Found hr) demoMonitorEvent
   = Some ((convertHelmReleaseToApplication env watchREST hr (Some (meMonitor demoMonitorEvent)))\<lparr>apVersion := ''9''\<rparr>)"
proof -
  have "rsKind watchREST \<noteq> TenantKindName" by (simp add: watchREST_def demoREST_def TenantKindName_def)
  then show ?thesis
    by (simp add: wmShown_def filterByName_def demoWatchParams_def demoListOptions_def ParseFieldSelector_def MatchesNamespace_def
        watchREST_converts labelSelected_def demoMonitorEvent_def Let_def)
qed

lemma appWatch_exact_witness:
  "\<exists>added v changed live. appWatch watchREST (\<lambda>_. True)
      (\<lambda>sel. Inr (map Some [HrObject demoRestEnv Added demoAppRelease, WmObject demoRestEnv (\<lambda>ns n. Found demoAppRelease) demoMonitorEvent]
         @ [Some (HrBookmark ''8'')]))
      (Some ''tenant-a'') demoListOptions \<lparr>woVersion = [], woSendInitial = Some True, woAllowBookmarks = True\<rparr>
    = Inr ([ClientEvent Added added, ClientBookmark v True, ClientEvent Modified changed] @ live) \<and> apVersion changed = ''9''"
proof -
  let ?pre = "[HrObject demoRestEnv Added demoAppRelease, WmObject demoRestEnv (\<lambda>ns n. Found demoAppRelease) demoMonitorEvent]"
  let ?rest = "[Some (HrBookmark ''8'')] :: appInput option list"
  let ?backing = "\<lambda>sel :: requirement list. Inr (map Some ?pre @ ?rest) :: string + appInput option list"
  let ?wopts = "\<lparr>woVersion = [], woSendInitial = Some True, woAllowBookmarks = True\<rparr>"
  obtain out where out: "appWatch watchREST (\<lambda>_. True) ?backing (Some ''tenant-a'') demoListOptions ?wopts = Inr out"
    by (simp add: appWatch_def helmLabelSelector_def demoListOptions_def)
  have req: "InitialEventsEndBookmarkRequested ?wopts" by (simp add: InitialEventsEndBookmarkRequested_def)
  have ins: "try_bind (helmLabelSelector (\<lambda>_. True) watchREST (loLabels demoListOptions)) ?backing = Inr (map Some ?pre @ ?rest)"
    by (simp add: helmLabelSelector_def demoListOptions_def)
  have par: "demoWatchParams = \<lparr>wpREST = watchREST, wpNamespace = ''tenant-a'', wpOptions = demoListOptions,
      wpStarting = startingVersion (woVersion ?wopts)\<rparr>"
    by (simp add: demoWatchParams_def startingVersion_def)
  have pre: "list_all (\<lambda>i. \<not> completes demoWatchParams i) ?pre" by (simp add: completes_def)
  have rest: "case ?rest of [] \<Rightarrow> False | None # ins' \<Rightarrow> True | Some i # ins' \<Rightarrow> completes demoWatchParams i" by (simp add: completes_def)
  have sent: "concat (map (hrSent demoWatchParams) ?pre) = [ClientEvent Added (convertHelmReleaseToApplication demoRestEnv watchREST demoAppRelease None)]"
    by (simp add: hrSent_def demo_hrShown alreadySeen_def demo_starting)
  have changed: "concat (map (wmSent demoWatchParams) ?pre) = [ClientEvent Modified ((convertHelmReleaseToApplication demoRestEnv watchREST demoAppRelease
      (Some (meMonitor demoMonitorEvent)))\<lparr>apVersion := ''9''\<rparr>)]"
    by (simp add: wmSent_def wmApps_def demo_wmShown)
  from appWatch_exact [OF out req ins par refl pre rest] obtain v live where
    "out = concat (map (hrSent demoWatchParams) ?pre) @ ClientBookmark v True # concat (map (wmSent demoWatchParams) ?pre) @ live"
    by blast
  from this(1) [unfolded sent changed] show ?thesis using out by auto
qed

subsection \<open>Where the stream differs from a list\<close>

text \<open>An event of a monitor carries the version of the monitor, which the code does so that versions grow. The
  two watches are not ordered: a change of a release from before it may follow.\<close>

theorem versions_go_back:
  assumes "bmSent (awBookmarker s)" "arVersion hr = ''7''"
  shows "\<exists>changed app. watchLoop (appWatchStep demoWatchParams) appWatchClose s
      [Some (WmObject env (\<lambda>ns n. Found hr) demoMonitorEvent), Some (HrObject env Modified hr)]
    = [ClientEvent Modified changed, ClientEvent Modified app] \<and> apVersion changed = ''9'' \<and> apVersion app = ''7''"
proof -
  have "apVersion (convertHelmReleaseToApplication env watchREST hr None) = ''7''"
    by (simp add: convertHelmReleaseToApplication_def assms(2) Let_def)
  then show ?thesis using assms(1) by (simp add: appWatchStep_def demo_hrShown demo_wmShown bookmarking alreadySeen_def Let_def)
qed

text \<open>The backing watch starts without a version and replays what exists. Whatever it replays to a client
  that resumes from a version, the client is not told of an application deleted since.\<close>

theorem deletion_while_away_missed:
  assumes "\<forall>i \<in> set ins. \<exists>env hr. i = Some (HrObject env Added hr)"
    and "appWatch r validKey (\<lambda>sel. Inr ins) (Some ns) opts wopts = Inr out"
  shows "ClientEvent Deleted app \<notin> set out"
proof -
  have "ClientEvent Deleted app \<notin> set (watchLoop (appWatchStep p) appWatchClose s ins)" for p s
    using assms(1)
  proof (induction ins arbitrary: s)
    case (Cons i ins)
    then obtain env hr where i: "i = Some (HrObject env Added hr)" by auto
    have "ClientEvent Deleted app \<notin> set (fst (appWatchStep p s (HrObject env Added hr)))"
      by (cases "hrShown p env hr") (auto simp: appWatchStep_def bookmarking Let_def)
    moreover obtain sent s' where "appWatchStep p s (HrObject env Added hr) = (sent, s')" by fastforce
    ultimately show ?case using Cons by (simp add: i)
  qed simp
  then show ?thesis using assms(2) by (auto simp: appWatch_def try_bind_def split: sum.splits)
qed

text \<open>The last state of a deleted monitor counts as the freshest one: with no monitor left an application whose
  deleted monitor was not operational is sent as not ready, while a list shows no readiness at all.\<close>

theorem deleted_monitor_counts:
  assumes "reMonitors env ns name = Inr []" "amOperational m = Some False"
  shows "getWorkloadsOperational env ns name None = Inr (aggregateMonitors []) \<and> \<not> wsFound (aggregateMonitors []) \<and>
    (\<exists>ws. getWorkloadsOperational env ns name (Some m) = Inr ws \<and> wsFound ws \<and> \<not> wsOperational ws)"
  using assms by (simp add: getWorkloadsOperational_def aggregateMonitors_def notOperational_def Let_def)

end
