(* ===== verification/SG_Watch.thy ===== *)
theory SG_Watch
  imports Security_Group
begin

text \<open>
  The watch of SecurityGroups (\<open>pkg/registry/sdn/securitygroup/rest.go\<close>, \<open>Watch\<close>): the events of the
  marked CiliumNetworkPolicies, translated one by one, with the marker that ends the initial events.
\<close>

subsection \<open>The watch\<close>

record sgWatchParams =
  swLabels :: "requirement list"
  swFields :: Filter
  swSendInitial :: bool
  swStarting :: nat
  swDecode :: "string \<Rightarrow> ApplicationReference list option"

definition sgWanted :: "sgWatchParams \<Rightarrow> eventType \<Rightarrow> CiliumNetworkPolicy \<Rightarrow> bool" where
  "sgWanted p t np \<longleftrightarrow>
     (t \<noteq> Deleted \<longrightarrow> labelsMatch (swLabels p) (map_of (smLabels (npMeta np)))) \<and>
     MatchesName (swFields p) (smName (npMeta np)) \<and> MatchesNamespace (swFields p) (smNamespace (npMeta np))"

definition sgWatchSpec :: "sgWatchParams \<Rightarrow> (CiliumNetworkPolicy, SecurityGroup) watchSpec" where
  "sgWatchSpec p =
     \<lparr>wsOwn = (\<lambda>np. True), wsVersion = (\<lambda>np. smResourceVersion (npMeta np)),
      wsShow = (\<lambda>t np. let sg = policyToSecurityGroup (swDecode p) np in
        if \<not> sgWanted p t np then None
        else if \<not> swSendInitial p \<and> alreadySeen (swStarting p) t (smResourceVersion (sgMeta sg)) then None
        else Some sg),
      wsErrors = True\<rparr>"

text \<open>\<open>backing\<close> is the watch of the API server for a namespace and a label selector.\<close>

definition sgWatch :: "sgCodec \<Rightarrow> (string \<Rightarrow> requirement list \<Rightarrow> watchOptions \<Rightarrow> string + CiliumNetworkPolicy backingInput option list) \<Rightarrow>
    string \<Rightarrow> labelSelector option \<Rightarrow> fieldTerms option \<Rightarrow> watchOptions \<Rightarrow> string + SecurityGroup clientEvent list" where
  "sgWatch cd backing ns sel terms opts =
     (case buildSelector sel of
        None \<Rightarrow> Inr []
      | Some ls \<Rightarrow>
          (let f = ParseFieldSelector terms in
           if fiNamespace f \<noteq> [] \<and> ns \<noteq> [] \<and> ns \<noteq> fiNamespace f then Inr []
           else try_bind (backing ns ls opts) (\<lambda>ins. Inr (forwardWatch
             (sgWatchSpec \<lparr>swLabels = ls, swFields = f, swSendInitial = (woSendInitial opts = Some True),
                swStarting = startingVersion (woVersion opts), swDecode = cdDec cd\<rparr>) opts ins))))"

subsection \<open>The contract\<close>

lemma policyToSecurityGroup_meta:
  "smResourceVersion (sgMeta (policyToSecurityGroup dec np)) = smResourceVersion (npMeta np)"
  "smName (sgMeta (policyToSecurityGroup dec np)) = smName (npMeta np)"
  "smNamespace (sgMeta (policyToSecurityGroup dec np)) = smNamespace (npMeta np)"
  by (simp_all add: policyToSecurityGroup_def)

text \<open>The stored policies by name and namespace. An input is regular when the API server keeps its own
  contract: only objects that match the selector are added or modified, and no object is added that is as
  old as the version the watch starts from, unless the initial objects were asked for.\<close>

definition policyKey :: "CiliumNetworkPolicy \<Rightarrow> string \<times> string" where
  "policyKey np = (smName (npMeta np), smNamespace (npMeta np))"

definition groupKey :: "SecurityGroup \<Rightarrow> string \<times> string" where
  "groupKey sg = (smName (sgMeta sg), smNamespace (sgMeta sg))"

definition sgKeep :: "Filter \<Rightarrow> string \<times> string \<Rightarrow> bool" where
  "sgKeep f k \<longleftrightarrow> MatchesName f (fst k) \<and> MatchesNamespace f (snd k)"

definition sgChange :: "CiliumNetworkPolicy backingInput \<Rightarrow> ((string \<times> string) \<times> CiliumNetworkPolicy option) option" where
  "sgChange i = (case i of Backing t np \<Rightarrow> Some (policyKey np, if t = Deleted then None else Some np) | _ \<Rightarrow> None)"

definition sgRegular :: "sgWatchParams \<Rightarrow> CiliumNetworkPolicy backingInput \<Rightarrow> bool" where
  "sgRegular p i \<longleftrightarrow>
     (case i of
        Backing t np \<Rightarrow>
          (t = Deleted \<or> labelsMatch (swLabels p) (map_of (smLabels (npMeta np)))) \<and>
          (swSendInitial p \<or> \<not> alreadySeen (swStarting p) t (smResourceVersion (npMeta np)))
      | _ \<Rightarrow> True)"

lemma groupKey_policy [simp]: "groupKey (policyToSecurityGroup dec np) = policyKey np"
  by (simp add: groupKey_def policyKey_def policyToSecurityGroup_meta)

interpretation sg_tracking: tracking_watch "forwardStep (sgWatchSpec p)" closeWatch "\<lambda>b. \<not> bmSent b" "forwarded (sgWatchSpec p)"
  sgChange groupKey "sgKeep (swFields p)" "policyToSecurityGroup (swDecode p)" "sgRegular p" for p
proof
  fix i :: "CiliumNetworkPolicy backingInput" and store :: "(string \<times> string) \<rightharpoonup> CiliumNetworkPolicy"
  assume "sgRegular p i"
  then show "fold (applyClient groupKey) (forwarded (sgWatchSpec p) i) (viewOf (sgKeep (swFields p)) (policyToSecurityGroup (swDecode p)) store)
      = viewOf (sgKeep (swFields p)) (policyToSecurityGroup (swDecode p)) (applyChange (sgChange i) store)"
    by (cases i) (auto simp: sgRegular_def forwarded_def sgWatchSpec_def sgChange_def policyToSecurityGroup_meta applyChange_def viewOf_update sgWanted_def
        sgKeep_def policyKey_def)
qed

subsection \<open>The API server\<close>

text \<open>The policies of the cluster change one by one: a change sets the policy of a key or takes it away.\<close>

type_synonym policyStore = "(string \<times> string) \<rightharpoonup> CiliumNetworkPolicy"
type_synonym policyChange = "(string \<times> string) \<times> CiliumNetworkPolicy option"

definition wellKeyed :: "policyStore \<Rightarrow> bool" where
  "wellKeyed store \<longleftrightarrow> (\<forall>k np. store k = Some np \<longrightarrow> policyKey np = k)"

definition changed :: "policyChange list \<Rightarrow> policyStore \<Rightarrow> policyStore" where
  "changed hist store = fold (\<lambda>(k, new) st. st(k := new)) hist store"

definition inScope :: "string \<Rightarrow> CiliumNetworkPolicy \<Rightarrow> bool" where
  "inScope ns np \<longleftrightarrow> ns = [] \<or> smNamespace (npMeta np) = ns"

definition selectedPolicy :: "string \<Rightarrow> requirement list \<Rightarrow> CiliumNetworkPolicy \<Rightarrow> bool" where
  "selectedPolicy ns ls np \<longleftrightarrow> inScope ns np \<and> labelsMatch ls (map_of (smLabels (npMeta np)))"

text \<open>What a watch with the selection \<open>keep\<close> delivers for a change: the new policy, added or modified, when
  it is selected; a deletion, with the labels before or after the change, when it was selected and is no
  more; otherwise nothing.\<close>

definition deliveredFor ::
    "(CiliumNetworkPolicy \<Rightarrow> bool) \<Rightarrow> policyStore \<Rightarrow> policyChange \<Rightarrow> (eventType \<times> CiliumNetworkPolicy) list \<Rightarrow> bool" where
  "deliveredFor keep store ch evs \<longleftrightarrow>
     (let (k, new) = ch; was = (case store k of None \<Rightarrow> False | Some np \<Rightarrow> keep np) in
      case new of
        Some np \<Rightarrow> if keep np then evs = [(if was then Modified else Added, np)]
                   else if was then (\<exists>d. policyKey d = k \<and> evs = [(Deleted, d)]) else evs = []
      | None \<Rightarrow> if was then (\<exists>d. policyKey d = k \<and> evs = [(Deleted, d)]) else evs = [])"

fun delivered ::
    "(CiliumNetworkPolicy \<Rightarrow> bool) \<Rightarrow> policyStore \<Rightarrow> policyChange list \<Rightarrow> (eventType \<times> CiliumNetworkPolicy) list \<Rightarrow> bool" where
  "delivered keep store [] evs \<longleftrightarrow> evs = []"
| "delivered keep store (ch # hist) evs \<longleftrightarrow>
     (\<exists>e1 e2. evs = e1 @ e2 \<and> deliveredFor keep store ch e1 \<and> delivered keep (changed [ch] store) hist e2)"

definition backingEvents :: "CiliumNetworkPolicy backingInput list \<Rightarrow> (eventType \<times> CiliumNetworkPolicy) list" where
  "backingEvents ins = concat (map (\<lambda>i. case i of Backing t np \<Rightarrow> [(t, np)] | _ \<Rightarrow> []) ins)"

text \<open>The API server, for a watch request with \<open>opts\<close> while the policies change from \<open>before\<close> by \<open>hist\<close>: a
  watch delivers the selected changes, and, unless the initial objects were asked for, adds nothing
  that is as old as the version it starts from; a list afterwards returns the selected policies. A
  watch that replays the initial objects starts from no policy, and \<open>hist\<close> begins with their
  creation.\<close>

definition servesPolicies ::
    "(string \<Rightarrow> requirement list \<Rightarrow> watchOptions \<Rightarrow> string + CiliumNetworkPolicy backingInput option list) \<Rightarrow>
     backingClient \<Rightarrow> watchOptions \<Rightarrow> policyStore \<Rightarrow> policyChange list \<Rightarrow> bool" where
  "servesPolicies backing c opts before hist \<longleftrightarrow>
     wellKeyed before \<and> (\<forall>(k, new) \<in> set hist. \<forall>np. new = Some np \<longrightarrow> policyKey np = k) \<and>
     (\<forall>ns ls ins. backing ns ls opts = Inr ins \<longrightarrow>
        delivered (selectedPolicy ns ls) before hist (backingEvents (readInputs ins)) \<and>
        (woSendInitial opts = Some True \<or> (\<forall>(t, np) \<in> set (backingEvents (readInputs ins)).
           \<not> alreadySeen (startingVersion (woVersion opts)) t (smResourceVersion (npMeta np))))) \<and>
     (\<forall>ns ls. \<exists>items. bcList c ns ls = Inr items \<and>
        set items = {np \<in> ran (changed hist before). selectedPolicy ns ls np})"

subsection \<open>The selected part of a store\<close>

definition selectedStore :: "(CiliumNetworkPolicy \<Rightarrow> bool) \<Rightarrow> policyStore \<Rightarrow> policyStore" where
  "selectedStore keep store = (\<lambda>k. case store k of None \<Rightarrow> None | Some np \<Rightarrow> if keep np then Some np else None)"

lemma selectedStore_Some: "selectedStore keep store k = Some np \<longleftrightarrow> store k = Some np \<and> keep np"
  by (auto simp: selectedStore_def split: option.split)

lemma selectedStore_update:
  "selectedStore keep (store(k := new)) = (selectedStore keep store)(k := (case new of None \<Rightarrow> None |
     Some np \<Rightarrow> if keep np then Some np else None))"
  by (auto simp: selectedStore_def)

lemma ran_selectedStore: "ran (selectedStore keep store) = {np \<in> ran store. keep np}"
  by (auto simp: ran_def selectedStore_Some)

definition eventChange :: "eventType \<times> CiliumNetworkPolicy \<Rightarrow> policyStore \<Rightarrow> policyStore" where
  "eventChange e st = st(policyKey (snd e) := (if fst e = Deleted then None else Some (snd e)))"

lemma deliveredFor_tracks:
  assumes "deliveredFor keep store ch evs" "\<forall>np. snd ch = Some np \<longrightarrow> policyKey np = fst ch"
  shows "fold eventChange evs (selectedStore keep store) = selectedStore keep (changed [ch] store)"
proof -
  obtain k new where ch: "ch = (k, new)" by (cases ch)
  have none: "selectedStore keep store k = None" if "\<not> (case store k of None \<Rightarrow> False | Some np \<Rightarrow> keep np)"
    using that by (cases "store k") (auto simp: selectedStore_def)
  have upd: "(selectedStore keep store)(k := None) = selectedStore keep store"
    if "\<not> (case store k of None \<Rightarrow> False | Some np \<Rightarrow> keep np)" using none [OF that] by (simp add: fun_upd_idem)
  show ?thesis
  proof (cases new)
    case None
    then show ?thesis using assms upd
      by (auto simp: ch deliveredFor_def changed_def selectedStore_update eventChange_def Let_def split: if_splits)
  next
    case (Some np)
    then show ?thesis using assms upd
      by (auto simp: ch deliveredFor_def changed_def selectedStore_update eventChange_def Let_def split: if_splits)
  qed
qed

lemma delivered_tracks:
  assumes "delivered keep store hist evs" "\<forall>(k, new) \<in> set hist. \<forall>np. new = Some np \<longrightarrow> policyKey np = k"
  shows "fold eventChange evs (selectedStore keep store) = selectedStore keep (changed hist store)"
  using assms
proof (induction hist arbitrary: store evs)
  case (Cons ch hist)
  then obtain e1 e2 where e: "evs = e1 @ e2" "deliveredFor keep store ch e1" "delivered keep (changed [ch] store) hist e2" by auto
  have "\<forall>np. snd ch = Some np \<longrightarrow> policyKey np = fst ch" using Cons.prems(2) by (cases ch) auto
  from deliveredFor_tracks [OF e(2) this]
  have "fold eventChange evs (selectedStore keep store) = fold eventChange e2 (selectedStore keep (changed [ch] store))"
    by (simp add: e(1))
  also have "\<dots> = selectedStore keep (changed hist (changed [ch] store))"
    using Cons.prems(2) by (intro Cons.IH [OF e(3)]) auto
  finally show ?case by (simp add: changed_def)
qed (simp add: changed_def)

lemma deliveredFor_selected:
  assumes "deliveredFor keep store ch evs" "(t, np) \<in> set evs"
  shows "t = Deleted \<or> keep np"
proof -
  obtain k new where ch: "ch = (k, new)" by (cases ch)
  show ?thesis using assms
    by (cases new) (auto simp: deliveredFor_def ch Let_def split: if_splits)
qed

lemma delivered_selected:
  assumes "delivered keep store hist evs" "(t, np) \<in> set evs"
  shows "t = Deleted \<or> keep np"
  using assms
proof (induction hist arbitrary: store evs)
  case (Cons ch hist)
  then obtain e1 e2 where e: "evs = e1 @ e2" "deliveredFor keep store ch e1" "delivered keep (changed [ch] store) hist e2" by auto
  from Cons.prems(2) e(1) consider "(t, np) \<in> set e1" | "(t, np) \<in> set e2" by auto
  then show ?case using deliveredFor_selected [OF e(2)] Cons.IH [OF e(3)] by cases blast+
qed simp

lemma fold_changes: "fold (applyChange \<circ> sgChange) ins store = fold eventChange (backingEvents ins) store"
proof (induction ins arbitrary: store)
  case (Cons i ins)
  have "(applyChange \<circ> sgChange) i store = fold eventChange (backingEvents [i]) store"
    by (cases i) (simp_all add: backingEvents_def applyChange_def sgChange_def eventChange_def)
  moreover have "backingEvents (i # ins) = backingEvents [i] @ backingEvents ins" by (simp add: backingEvents_def)
  ultimately show ?case using Cons by simp
qed (simp add: backingEvents_def)

text \<open>What a client may see: the marked policies of the namespace that the user's label selector and
  field selector select, as SecurityGroups.\<close>

definition userSelects :: "labelSelector option \<Rightarrow> (string \<rightharpoonup> string) \<Rightarrow> bool" where
  "userSelects sel labels \<longleftrightarrow>
     (case sel of
        None \<Rightarrow> True
      | Some NothingSelector \<Rightarrow> False
      | Some (Requirements reqs) \<Rightarrow> (\<forall>q \<in> set reqs. rqHolds q (labels (rqKey q))))"

definition shownPolicy :: "string \<Rightarrow> labelSelector option \<Rightarrow> Filter \<Rightarrow> CiliumNetworkPolicy \<Rightarrow> bool" where
  "shownPolicy ns sel f np \<longleftrightarrow>
     isSecurityGroup np \<and> userSelects sel (map_of (smLabels (npMeta np))) \<and> inScope ns np \<and>
     MatchesName f (smName (npMeta np)) \<and> MatchesNamespace f (smNamespace (npMeta np))"

definition shownGroups ::
    "(string \<Rightarrow> ApplicationReference list option) \<Rightarrow> string \<Rightarrow> labelSelector option \<Rightarrow> Filter \<Rightarrow> policyStore \<Rightarrow>
     (string \<times> string) \<rightharpoonup> SecurityGroup" where
  "shownGroups dec ns sel f store =
     (\<lambda>k. map_option (policyToSecurityGroup dec) (selectedStore (shownPolicy ns sel f) store k))"

text \<open>A request is answered without the API server when nothing can match.\<close>

definition unmatchable :: "string \<Rightarrow> labelSelector option \<Rightarrow> Filter \<Rightarrow> bool" where
  "unmatchable ns sel f \<longleftrightarrow> sel = Some NothingSelector \<or> (fiNamespace f \<noteq> [] \<and> ns \<noteq> [] \<and> ns \<noteq> fiNamespace f)"

lemma buildSelector_Some: "sel \<noteq> Some NothingSelector \<Longrightarrow> \<exists>ls. buildSelector sel = Some ls"
  by (auto simp: buildSelector_def markedSelector_def split: option.split labelSelector.split)

lemma unmatchable_hidden: "unmatchable ns sel f \<Longrightarrow> \<not> shownPolicy ns sel f np"
  by (auto simp: unmatchable_def shownPolicy_def userSelects_def inScope_def MatchesNamespace_def)

lemma selectedPolicy_marked:
  assumes "buildSelector sel = Some ls"
  shows "selectedPolicy ns ls np \<longleftrightarrow>
    isSecurityGroup np \<and> userSelects sel (map_of (smLabels (npMeta np))) \<and> inScope ns np"
proof -
  have "sgLabelValue \<noteq> []" by (simp add: sgLabelValue_def)
  then have m: "map_of (smLabels (npMeta np)) sgLabelKey = Some sgLabelValue \<longleftrightarrow> isSecurityGroup np"
    by (auto simp: isSecurityGroup_def strAt_def strOf_def split: option.splits)
  show ?thesis
    using assms unfolding buildSelector_def markedSelector_def selectedPolicy_def userSelects_def
    by (auto simp: labelsMatch_def equalsRequirement_def list_all_iff m split: option.splits labelSelector.splits)
qed

lemma shownPolicy_iff:
  "buildSelector sel = Some ls \<Longrightarrow> shownPolicy ns sel f np \<longleftrightarrow> selectedPolicy ns ls np \<and> sgKeep f (policyKey np)"
  by (auto simp: selectedPolicy_marked shownPolicy_def sgKeep_def policyKey_def)

lemma shownGroups_view:
  assumes "buildSelector sel = Some ls" "wellKeyed store"
  shows "shownGroups dec ns sel f store = viewOf (sgKeep f) (policyToSecurityGroup dec) (selectedStore (selectedPolicy ns ls) store)"
proof
  fix k
  show "shownGroups dec ns sel f store k = viewOf (sgKeep f) (policyToSecurityGroup dec) (selectedStore (selectedPolicy ns ls) store) k"
  proof (cases "store k")
    case (Some np)
    then have "policyKey np = k" using assms(2) unfolding wellKeyed_def by blast
    with Some show ?thesis
      by (simp add: shownGroups_def viewOf_def selectedStore_def shownPolicy_iff [OF assms(1)])
  qed (simp add: shownGroups_def viewOf_def selectedStore_def)
qed

lemma wellKeyed_changed:
  "wellKeyed store \<Longrightarrow> \<forall>(k, new) \<in> set hist. \<forall>np. new = Some np \<longrightarrow> policyKey np = k \<Longrightarrow> wellKeyed (changed hist store)"
proof (induction hist arbitrary: store)
  case (Cons ch hist)
  have "wellKeyed (changed [ch] store)"
    using Cons.prems by (cases ch) (auto simp: wellKeyed_def changed_def)
  with Cons show ?case by (simp add: changed_def)
qed (simp add: changed_def)

lemma sgList_shown:
  assumes "servesPolicies backing c opts before hist"
  shows "\<exists>sgs. sgList cd c ns sel (Inr f) = Inr sgs \<and>
    set sgs = policyToSecurityGroup (cdDec cd) ` {np \<in> ran (changed hist before). shownPolicy ns sel f np}"
proof (cases "unmatchable ns sel f")
  case True
  then have "sgList cd c ns sel (Inr f) = Inr []"
    by (auto simp: sgList_def unmatchable_def buildSelector_def markedSelector_def split: option.splits)
  then show ?thesis using unmatchable_hidden [OF True] by simp
next
  case False
  then obtain ls where ls: "buildSelector sel = Some ls"
    using buildSelector_Some unfolding unmatchable_def by blast
  obtain items where items: "bcList c ns ls = Inr items"
    "set items = {np \<in> ran (changed hist before). selectedPolicy ns ls np}"
    using assms unfolding servesPolicies_def by blast
  have "MatchesName f (smName (npMeta np)) \<and> MatchesNamespace f (smNamespace (npMeta np)) \<longleftrightarrow> sgKeep f (policyKey np)" for np
    by (simp add: sgKeep_def policyKey_def)
  then show ?thesis using False items
    by (auto simp: sgList_def ls unmatchable_def ByNamespacedName_def shownPolicy_iff [OF ls])
qed

lemma ran_shownGroups: "ran (shownGroups dec ns sel f store) = policyToSecurityGroup dec ` {np \<in> ran store. shownPolicy ns sel f np}"
proof -
  have "ran (\<lambda>k. map_option g (m k)) = g ` ran m" for g :: "CiliumNetworkPolicy \<Rightarrow> SecurityGroup" and m :: policyStore
    by (auto simp: ran_def)
  then show ?thesis by (simp add: shownGroups_def ran_selectedStore)
qed

text \<open>A watch that reaches the API server keeps the cache.\<close>

lemma sgWatch_cache:
  assumes "servesPolicies backing c opts before hist" "buildSelector sel = Some ls"
    and "f = ParseFieldSelector terms" "\<not> unmatchable ns sel f" "sgWatch cd backing ns sel terms opts = Inr out"
  shows "\<exists>ins. backing ns ls opts = Inr ins \<and>
    fold (applyClient groupKey) out (shownGroups (cdDec cd) ns sel f before) = shownGroups (cdDec cd) ns sel f (changed hist before) \<and>
    (InitialEventsEndBookmarkRequested opts \<longrightarrow> markedOnce out \<or> None \<notin> set ins \<and> list_all initialEvent out)"
proof -
  define p where "p = \<lparr>swLabels = ls, swFields = f, swSendInitial = (woSendInitial opts = Some True),
    swStarting = startingVersion (woVersion opts), swDecode = cdDec cd\<rparr>"
  obtain ins where ins: "backing ns ls opts = Inr ins" "out = forwardWatch (sgWatchSpec p) opts ins"
    using assms(2-5) by (auto simp: sgWatch_def Let_def p_def try_bind_def unmatchable_def split: sum.splits if_splits)
  let ?evs = "backingEvents (readInputs ins)"
  have srv: "wellKeyed before" "\<forall>(k, new) \<in> set hist. \<forall>np. new = Some np \<longrightarrow> policyKey np = k"
    "delivered (selectedPolicy ns ls) before hist ?evs"
    "woSendInitial opts = Some True \<or> (\<forall>(t, np) \<in> set ?evs. \<not> alreadySeen (startingVersion (woVersion opts)) t (smResourceVersion (npMeta np)))"
    using assms(1) ins(1) unfolding servesPolicies_def by blast+
  have "sgRegular p i" if "i \<in> set (readInputs ins)" for i
  proof (cases i)
    case (Backing t np)
    then have "(t, np) \<in> set ?evs" using that by (force simp: backingEvents_def)
    with delivered_selected [OF srv(3) this] srv(4) Backing show ?thesis
      by (auto simp: sgRegular_def p_def selectedPolicy_def)
  qed (simp_all add: sgRegular_def)
  then have "list_all (sgRegular p) (readInputs ins)" by (simp add: list_all_iff)
  from sg_tracking.stream_tracks [OF this, where store = "selectedStore (selectedPolicy ns ls) before"]
  have "fold (applyClient groupKey) out (viewOf (sgKeep f) (policyToSecurityGroup (cdDec cd)) (selectedStore (selectedPolicy ns ls) before))
      = viewOf (sgKeep f) (policyToSecurityGroup (cdDec cd)) (fold eventChange ?evs (selectedStore (selectedPolicy ns ls) before))"
    by (simp add: ins(2) forwardWatch_def p_def fold_changes)
  then have "fold (applyClient groupKey) out (shownGroups (cdDec cd) ns sel f before) = shownGroups (cdDec cd) ns sel f (changed hist before)"
    unfolding delivered_tracks [OF srv(3,2)]
    by (simp add: shownGroups_view [OF assms(2)] srv(1) wellKeyed_changed [OF srv(1,2)])
  then show ?thesis using ins forwardWatch_marked [of opts "sgWatchSpec p" ins] by auto
qed

text \<open>C35: a list shows exactly the SecurityGroups whose policies are marked, lie in the requested namespace
  and match the label selector and the field selector; and a client that lists and then applies the
  events of a watch with the same selectors holds exactly what a list shows afterwards, whatever policies
  changed, gained or lost their labels in between. When it asked for the initial events, only added
  objects and errors come before the marker, and the marker comes once, or the backing watch is
  still open before its end. The exception is a request that nothing can match, by its label
  selector or by two different namespaces: it is answered by an empty list and by a watch that is closed
  at once, without the marker.\<close>

theorem sgWatch_tracks_list:
  assumes "servesPolicies backing c opts before hist"
    and "f = ParseFieldSelector terms" "sgWatch cd backing ns sel terms opts = Inr out"
    and "after = changed hist before"
  shows "(\<exists>sgs. sgList cd c ns sel (Inr f) = Inr sgs \<and>
            set sgs = policyToSecurityGroup (cdDec cd) ` {np \<in> ran after. shownPolicy ns sel f np} \<and>
            set sgs = ran (fold (applyClient groupKey) out (shownGroups (cdDec cd) ns sel f before))) \<and>
         (if unmatchable ns sel f then out = []
          else InitialEventsEndBookmarkRequested opts \<longrightarrow> markedOnce out \<or>
            (\<exists>ls ins. buildSelector sel = Some ls \<and> backing ns ls opts = Inr ins \<and> None \<notin> set ins) \<and> list_all initialEvent out)"
proof (cases "unmatchable ns sel f")
  case True
  then have "out = []"
    using assms(2,3) by (auto simp: sgWatch_def unmatchable_def buildSelector_def markedSelector_def Let_def split: option.splits)
  moreover have "ran (shownGroups (cdDec cd) ns sel f before) = {}"
    unfolding ran_shownGroups using unmatchable_hidden [OF True] by simp
  ultimately show ?thesis
    using sgList_shown [OF assms(1), of cd ns sel f] unmatchable_hidden [OF True] True by (simp add: assms(4))
next
  case False
  then obtain ls where ls: "buildSelector sel = Some ls"
    using buildSelector_Some unfolding unmatchable_def by blast
  from sgWatch_cache [OF assms(1) ls assms(2) False assms(3)] obtain ins where ins: "backing ns ls opts = Inr ins"
    "fold (applyClient groupKey) out (shownGroups (cdDec cd) ns sel f before) = shownGroups (cdDec cd) ns sel f after"
    "InitialEventsEndBookmarkRequested opts \<longrightarrow> markedOnce out \<or> None \<notin> set ins \<and> list_all initialEvent out"
    unfolding assms(4) by blast
  show ?thesis
    using sgList_shown [OF assms(1), of cd ns sel f] ins False ls unfolding ins(2) ran_shownGroups assms(4) by auto
qed

text \<open>The witness: a policy is added, the initial events end, and the policy is deleted.\<close>

definition demoPolicy :: CiliumNetworkPolicy where
  "demoPolicy = emptyPolicy\<lparr>npMeta := (npMeta emptyPolicy)\<lparr>smName := ''web'', smNamespace := ''tenant-a'',
     smResourceVersion := ''5'', smLabels := [(sgLabelKey, sgLabelValue)]\<rparr>\<rparr>"

definition demoWatchOptions :: watchOptions where
  "demoWatchOptions = \<lparr>woVersion = [], woSendInitial = Some True, woAllowBookmarks = True\<rparr>"

definition demoInputs :: "CiliumNetworkPolicy backingInput option list" where
  "demoInputs = [Some (Backing Added demoPolicy), Some (BackingBookmark ''6''), Some (Backing Deleted demoPolicy)]"

lemma demoPolicy_fields:
  "smName (npMeta demoPolicy) = ''web''" "smNamespace (npMeta demoPolicy) = ''tenant-a''"
  "smResourceVersion (npMeta demoPolicy) = ''5''" "smLabels (npMeta demoPolicy) = [(sgLabelKey, sgLabelValue)]"
  by (simp_all add: demoPolicy_def)

lemma demo_serves:
  "servesPolicies (\<lambda>ns ls opts. if selectedPolicy ns ls demoPolicy then Inr demoInputs else Inr [])
     (foreignClient\<lparr>bcList := \<lambda>ns ls. Inr []\<rparr>) demoWatchOptions Map.empty
     [((''web'', ''tenant-a''), Some demoPolicy), ((''web'', ''tenant-a''), None)]"
proof -
  have k: "policyKey demoPolicy = (''web'', ''tenant-a'')" by (simp add: policyKey_def demoPolicy_fields)
  have d: "delivered (selectedPolicy ns ls) Map.empty
      [((''web'', ''tenant-a''), Some demoPolicy), ((''web'', ''tenant-a''), None)]
      (if selectedPolicy ns ls demoPolicy then [(Added, demoPolicy), (Deleted, demoPolicy)] else [])" for ns ls
    using k by (auto simp: deliveredFor_def changed_def Let_def)
  have i: "backingEvents (readInputs demoInputs) = [(Added, demoPolicy), (Deleted, demoPolicy)]"
    by (simp add: demoInputs_def backingEvents_def)
  have "woSendInitial demoWatchOptions = Some True" by (simp add: demoWatchOptions_def)
  moreover have "delivered (selectedPolicy ns ls) Map.empty
      [((''web'', ''tenant-a''), Some demoPolicy), ((''web'', ''tenant-a''), None)] (backingEvents (readInputs ins))"
    if b: "(if selectedPolicy ns ls demoPolicy then Inr demoInputs else Inr []) = (Inr ins :: string + _)" for ns ls ins
  proof (cases "selectedPolicy ns ls demoPolicy")
    case True
    then show ?thesis using b d [of ns ls] i by (simp del: delivered.simps)
  next
    case False
    then show ?thesis using b d [of ns ls] by (simp add: backingEvents_def del: delivered.simps)
  qed
  ultimately show ?thesis unfolding servesPolicies_def using k
    by (auto simp: wellKeyed_def changed_def simp del: delivered.simps)
qed

lemma sgWatch_tracks_list_witness:
  "\<exists>out. sgWatch dotCodec (\<lambda>ns ls opts. if selectedPolicy ns ls demoPolicy then Inr demoInputs else Inr [])
       ''tenant-a'' None None demoWatchOptions = Inr out \<and> length out = 3 \<and> markedOnce out"
proof -
  let ?ls = "[equalsRequirement sgLabelKey sgLabelValue]" and ?f = "ParseFieldSelector None"
  let ?b = "\<lambda>ns ls opts. if selectedPolicy ns ls demoPolicy then Inr demoInputs else Inr []"
  have sel: "buildSelector None = Some ?ls" by (simp add: buildSelector_def markedSelector_def)
  have lab: "labelsMatch ?ls (map_of (smLabels (npMeta demoPolicy)))" "selectedPolicy ''tenant-a'' ?ls demoPolicy"
    by (simp_all add: labelsMatch_def equalsRequirement_def demoPolicy_fields selectedPolicy_def inScope_def)
  obtain out where out: "sgWatch dotCodec ?b ''tenant-a'' None None demoWatchOptions = Inr out"
    "length out = 3" "\<not> list_all initialEvent out"
    using lab by (simp add: sgWatch_def sel Let_def ParseFieldSelector_def demoInputs_def forwardWatch_def forwardStep_shape forwarded_def sgWatchSpec_def
        policyToSecurityGroup_meta sgWanted_def demoWatchOptions_def MatchesName_def MatchesNamespace_def NewInitialEventsBookmarker_def
        InitialEventsEndBookmarkRequested_def demoPolicy_fields startingVersion_def alreadySeen_def)
  have req: "InitialEventsEndBookmarkRequested demoWatchOptions" "\<not> unmatchable ''tenant-a'' None ?f"
    by (simp_all add: InitialEventsEndBookmarkRequested_def demoWatchOptions_def unmatchable_def ParseFieldSelector_def)
  from sgWatch_tracks_list [OF demo_serves refl out(1) refl] out req show ?thesis by auto
qed

end
