(* ===== verification/Tenant_Namespaces.thy ===== *)
theory Tenant_Namespaces
  imports Registry_Common
begin

text \<open>
  The TenantNamespace API: the tenant namespaces a user may see
  (\<open>pkg/registry/core/tenantnamespace/rest.go\<close>). A user is in the context of a request or not; the
  RoleBindings are read through the client, for a watch anew at every event.
\<close>

subsection \<open>Types\<close>

record Subject =
  sjKind :: string
  sjName :: string
  sjNamespace :: string

record RoleBinding =
  rbNamespace :: string
  rbSubjects :: "Subject list"

record UserInfo =
  usName :: string
  usGroups :: "string list"

text \<open>A Namespace; what only a read of a single one shows (managed fields, finalizers and the like) is one
  opaque part.\<close>

record Namespace =
  nsName :: string
  nsUID :: string
  nsVersion :: string
  nsCreated :: int
  nsLabels :: "string \<rightharpoonup> string"
  nsAnnotations :: "string \<rightharpoonup> string"
  nsSystem :: string

datatype tn_error = TnUnauthorized | TnForbidden | TnNotFound | TnInternal string | TnClient string

definition tenantPrefix :: string where "tenantPrefix = ''tenant-''"

subsection \<open>Access\<close>

definition matchesSubject :: "Subject \<Rightarrow> string \<Rightarrow> string \<Rightarrow> string list \<Rightarrow> bool" where
  "matchesSubject subj bindingNamespace username groups =
     (if sjKind subj = ''Group'' then sjName subj \<in> set groups
      else if sjKind subj = ''User'' then sjName subj = username
      else if sjKind subj = ''ServiceAccount'' then
        (let saNamespace = (if sjNamespace subj = [] then bindingNamespace else sjNamespace subj) in
         username = ''system:serviceaccount:'' @ saNamespace @ '':'' @ sjName subj)
      else False)"

definition privilegedGroups :: "string list \<Rightarrow> bool" where
  "privilegedGroups groups \<longleftrightarrow> ''system:masters'' \<in> set groups \<or> ''cozystack-cluster-admin'' \<in> set groups"

definition grants :: "UserInfo \<Rightarrow> RoleBinding \<Rightarrow> bool" where
  "grants u rb \<longleftrightarrow> list_ex (\<lambda>subj. matchesSubject subj (rbNamespace rb) (usName u) (usGroups u)) (rbSubjects rb)"

fun allowedLoop :: "UserInfo \<Rightarrow> string list \<Rightarrow> string list \<Rightarrow> RoleBinding list \<Rightarrow> string list" where
  "allowedLoop u names allowed [] = allowed"
| "allowedLoop u names allowed (rb # rbs) =
     (if rbNamespace rb \<in> set allowed then allowedLoop u names allowed rbs
      else if rbNamespace rb \<notin> set names then allowedLoop u names allowed rbs
      else if grants u rb then allowedLoop u names (allowed @ [rbNamespace rb]) rbs
      else allowedLoop u names allowed rbs)"

text \<open>\<open>bindings\<close> are the RoleBindings of all namespaces. The result is a set for its caller.\<close>

definition filterAccessible :: "UserInfo option \<Rightarrow> string + RoleBinding list \<Rightarrow> string list \<Rightarrow> tn_error + string list" where
  "filterAccessible user bindings names =
     (case user of
        None \<Rightarrow> Inl TnUnauthorized
      | Some u \<Rightarrow>
          if privilegedGroups (usGroups u) then Inr names
          else case bindings of
            Inl e \<Rightarrow> Inl (TnInternal e)
          | Inr rbs \<Rightarrow> Inr (allowedLoop u names [] rbs))"

text \<open>\<open>bindings\<close> are those of the namespace.\<close>

definition hasAccessToNamespaceForUser :: "string + RoleBinding list \<Rightarrow> UserInfo \<Rightarrow> tn_error + bool" where
  "hasAccessToNamespaceForUser bindings u =
     (if privilegedGroups (usGroups u) then Inr True
      else case bindings of
        Inl e \<Rightarrow> Inl (TnInternal e)
      | Inr rbs \<Rightarrow> Inr (list_ex (grants u) rbs))"

definition hasAccessToNamespace :: "(string \<Rightarrow> string + RoleBinding list) \<Rightarrow> UserInfo option \<Rightarrow> string \<Rightarrow> tn_error + bool" where
  "hasAccessToNamespace bindings user namespace =
     (case user of None \<Rightarrow> Inl TnUnauthorized | Some u \<Rightarrow> hasAccessToNamespaceForUser (bindings namespace) u)"

subsection \<open>Requests\<close>

text \<open>The client: the Namespaces with the version of the list, one Namespace, the RoleBindings of all
  namespaces and of one.\<close>

record namespaceClient =
  ncList :: "string + string \<times> Namespace list"
  ncGet :: "string \<Rightarrow> Namespace fetched"
  ncBindings :: "string + RoleBinding list"
  ncBindingsIn :: "string \<Rightarrow> string + RoleBinding list"

definition shownNamespace :: "Namespace \<Rightarrow> Namespace" where
  "shownNamespace ns = ns\<lparr>nsSystem := []\<rparr>"

definition makeList :: "string \<times> Namespace list \<Rightarrow> string list \<Rightarrow> string \<times> Namespace list" where
  "makeList src allowed =
     (case src of (listRV, items) \<Rightarrow>
        (if listRV = [] then MaxResourceVersion (map nsVersion items) else listRV,
         sort_key nsName (map shownNamespace (filter (\<lambda>ns. nsName ns \<in> set allowed) items))))"

definition tnList :: "namespaceClient \<Rightarrow> UserInfo option \<Rightarrow> tn_error + string \<times> Namespace list" where
  "tnList c user =
     (case ncList c of
        Inl e \<Rightarrow> Inl (TnClient e)
      | Inr src \<Rightarrow>
          try_bind (filterAccessible user (ncBindings c) (filter (prefix tenantPrefix) (map nsName (snd src))))
            (\<lambda>allowed. Inr (makeList src allowed)))"

definition tnGet :: "namespaceClient \<Rightarrow> UserInfo option \<Rightarrow> string \<Rightarrow> tn_error + Namespace" where
  "tnGet c user name =
     (if \<not> prefix tenantPrefix name then Inl TnNotFound
      else try_bind (hasAccessToNamespace (ncBindingsIn c) user name) (\<lambda>hasAccess.
        if \<not> hasAccess then Inl TnForbidden
        else case ncGet c name of
          Missing \<Rightarrow> Inl TnNotFound
        | FetchError e \<Rightarrow> Inl (TnClient e)
        | Found ns \<Rightarrow> Inr ns))"

subsection \<open>The watch\<close>

text \<open>An event carries a Namespace; with it are the RoleBindings of that namespace at the time it is handled.\<close>

definition selectorMatches :: "labelSelector option \<Rightarrow> (string \<rightharpoonup> string) \<Rightarrow> bool" where
  "selectorMatches sel labels =
     (case sel of None \<Rightarrow> True | Some NothingSelector \<Rightarrow> False | Some (Requirements reqs) \<Rightarrow> labelsMatch reqs labels)"

definition tnWatchSpec :: "UserInfo \<Rightarrow> fieldTerms option \<Rightarrow> labelSelector option \<Rightarrow> nat \<Rightarrow>
    (Namespace \<times> (string + RoleBinding list), Namespace) watchSpec" where
  "tnWatchSpec u terms sel startingRV =
     \<lparr>wsOwn = (\<lambda>(ns, rbs). prefix tenantPrefix (nsName ns)), wsVersion = (\<lambda>(ns, rbs). nsVersion ns),
      wsShow = (\<lambda>t (ns, rbs).
        if (case terms of None \<Rightarrow> False | Some ts \<Rightarrow> \<not> fieldsMatch ts [''metadata.name'' \<mapsto> nsName ns]) then None
        else if \<not> selectorMatches sel (nsLabels ns) then None
        else case hasAccessToNamespaceForUser rbs u of
          Inl e \<Rightarrow> None
        | Inr hasAccess \<Rightarrow>
            if \<not> hasAccess then None
            else if alreadySeen startingRV t (nsVersion (shownNamespace ns)) then None
            else Some (shownNamespace ns)),
      wsErrors = False\<rparr>"

definition tnWatch :: "(watchOptions \<Rightarrow> string + (Namespace \<times> (string + RoleBinding list)) backingInput option list) \<Rightarrow>
    UserInfo option \<Rightarrow> fieldTerms option \<Rightarrow> labelSelector option \<Rightarrow> watchOptions \<Rightarrow> tn_error + Namespace clientEvent list" where
  "tnWatch backing user terms sel opts =
     (case user of
        None \<Rightarrow> Inl TnUnauthorized
      | Some u \<Rightarrow>
          (case backing opts of
             Inl e \<Rightarrow> Inl (TnClient e)
           | Inr ins \<Rightarrow> Inr (forwardWatch (tnWatchSpec u terms sel (startingVersion (woVersion opts))) opts ins)))"

subsection \<open>Lists, reads and watches agree\<close>

lemma allowedLoop_set: "set (allowedLoop u names allowed rbs) = set allowed \<union> {rbNamespace rb | rb. rb \<in> set rbs \<and> rbNamespace rb \<in> set names \<and> grants u rb}"
  by (induction rbs arbitrary: allowed) auto

text \<open>Which RoleBinding opens its namespace to a user, stated on identities alone: one that names the user,
  one of the user's groups, or a service account, of the binding's namespace unless it says another one,
  whose user name the user has. Two groups open every namespace.\<close>

inductive boundTo :: "UserInfo \<Rightarrow> RoleBinding \<Rightarrow> bool" for u rb where
  userSubject: "\<lparr>sjKind = ''User'', sjName = usName u, sjNamespace = n\<rparr> \<in> set (rbSubjects rb) \<Longrightarrow> boundTo u rb"
| groupSubject: "\<lparr>sjKind = ''Group'', sjName = g, sjNamespace = n\<rparr> \<in> set (rbSubjects rb) \<Longrightarrow> g \<in> set (usGroups u) \<Longrightarrow> boundTo u rb"
| accountSubject: "\<lparr>sjKind = ''ServiceAccount'', sjName = a, sjNamespace = n\<rparr> \<in> set (rbSubjects rb) \<Longrightarrow>
    usName u = ''system:serviceaccount:'' @ (if n = [] then rbNamespace rb else n) @ '':'' @ a \<Longrightarrow> boundTo u rb"

definition administrator :: "UserInfo \<Rightarrow> bool" where
  "administrator u \<longleftrightarrow> {''system:masters'', ''cozystack-cluster-admin''} \<inter> set (usGroups u) \<noteq> {}"

text \<open>\<open>rbs\<close> are the RoleBindings of the namespace.\<close>

definition opensTo :: "UserInfo \<Rightarrow> RoleBinding list \<Rightarrow> bool" where
  "opensTo u rbs \<longleftrightarrow> administrator u \<or> (\<exists>rb \<in> set rbs. boundTo u rb)"

lemma matchesSubject_cases:
  "matchesSubject subj bns name groups \<longleftrightarrow>
     (sjKind subj = ''User'' \<and> sjName subj = name) \<or> (sjKind subj = ''Group'' \<and> sjName subj \<in> set groups) \<or>
     (sjKind subj = ''ServiceAccount'' \<and>
        name = ''system:serviceaccount:'' @ (if sjNamespace subj = [] then bns else sjNamespace subj) @ '':'' @ sjName subj)"
  by (simp add: matchesSubject_def Let_def)

lemma grants_iff: "grants u rb \<longleftrightarrow> boundTo u rb"
proof
  assume "grants u rb"
  then obtain subj where s: "subj \<in> set (rbSubjects rb)" "matchesSubject subj (rbNamespace rb) (usName u) (usGroups u)"
    by (auto simp: grants_def list_ex_iff)
  obtain kind n ns where subj: "subj = \<lparr>sjKind = kind, sjName = n, sjNamespace = ns\<rparr>" by (cases subj)
  from s(2) show "boundTo u rb" unfolding matchesSubject_cases
  proof (elim disjE conjE)
    assume "sjKind subj = ''User''" "sjName subj = usName u"
    then show ?thesis using s(1) subj by (auto intro: userSubject)
  next
    assume "sjKind subj = ''Group''" "sjName subj \<in> set (usGroups u)"
    then show ?thesis using s(1) subj by (auto intro: groupSubject)
  next
    assume "sjKind subj = ''ServiceAccount''" "usName u = ''system:serviceaccount:'' @
      (if sjNamespace subj = [] then rbNamespace rb else sjNamespace subj) @ '':'' @ sjName subj"
    then show ?thesis using s(1) subj by (intro accountSubject [of n ns]) simp_all
  qed
next
  have grantsI: "grants u rb" if "subj \<in> set (rbSubjects rb)" "matchesSubject subj (rbNamespace rb) (usName u) (usGroups u)" for subj
    using that by (auto simp: grants_def list_ex_iff)
  assume "boundTo u rb"
  then show "grants u rb"
    by cases (rule grantsI, assumption, simp add: matchesSubject_cases)+
qed

lemma privileged_administrator: "privilegedGroups (usGroups u) \<longleftrightarrow> administrator u"
  by (auto simp: privilegedGroups_def administrator_def)

lemma access_opens:
  "hasAccessToNamespaceForUser rbs u = Inr True \<longleftrightarrow> (case rbs of Inl e \<Rightarrow> administrator u | Inr bs \<Rightarrow> opensTo u bs)"
  by (auto simp: hasAccessToNamespaceForUser_def privileged_administrator opensTo_def list_ex_iff grants_iff split: sum.split)

text \<open>The RoleBindings of one namespace.\<close>

definition bindingsOf :: "RoleBinding list \<Rightarrow> string \<Rightarrow> RoleBinding list" where
  "bindingsOf rbs n = filter (\<lambda>rb. rbNamespace rb = n) rbs"

lemma filterAccessible_set:
  "\<exists>allowed. filterAccessible (Some u) (Inr rbs) names = Inr allowed \<and>
     set allowed = {n \<in> set names. opensTo u (bindingsOf rbs n)}"
  by (auto simp: filterAccessible_def privileged_administrator opensTo_def allowedLoop_set grants_iff bindingsOf_def)

text \<open>What a watch shows for an input: the object of an event for a tenant namespace that the field and the
  label selector match, that is open to the user by the bindings read for the event, and that the client
  does not have yet.\<close>

definition shownEvent ::
    "UserInfo \<Rightarrow> fieldTerms option \<Rightarrow> labelSelector option \<Rightarrow> watchOptions \<Rightarrow>
     (Namespace \<times> (string + RoleBinding list)) backingInput \<Rightarrow> Namespace clientEvent list" where
  "shownEvent u terms sel opts i =
     (case i of
        Backing t (ns, rbs) \<Rightarrow>
          if prefix tenantPrefix (nsName ns) \<and>
             (\<forall>ts. terms = Some ts \<longrightarrow> fieldsMatch ts [''metadata.name'' \<mapsto> nsName ns]) \<and>
             selectorMatches sel (nsLabels ns) \<and>
             (case rbs of Inl e \<Rightarrow> administrator u | Inr bs \<Rightarrow> opensTo u bs) \<and>
             \<not> alreadySeen (startingVersion (woVersion opts)) t (nsVersion ns)
          then [ClientEvent t (shownNamespace ns)] else []
      | _ \<Rightarrow> [])"

lemma forwarded_shown:
  "forwarded (tnWatchSpec u terms sel (startingVersion (woVersion opts))) i = shownEvent u terms sel opts i"
proof (cases i)
  case (Backing t x)
  obtain ns rbs where x: "x = (ns, rbs)" by (cases x)
  note acc = access_opens [of rbs u]
  have v: "nsVersion (shownNamespace ns) = nsVersion ns" by (simp add: shownNamespace_def)
  have deny: "hasAccessToNamespaceForUser rbs u \<noteq> Inr True \<Longrightarrow> (case hasAccessToNamespaceForUser rbs u of Inl e \<Rightarrow> None
      | Inr hasAccess \<Rightarrow> if \<not> hasAccess then None else f) = None" for f :: "Namespace option"
    by (cases "hasAccessToNamespaceForUser rbs u") auto
  show ?thesis
  proof (cases "hasAccessToNamespaceForUser rbs u = Inr True")
    case True
    then show ?thesis using acc
      by (auto simp: Backing x forwarded_def tnWatchSpec_def shownEvent_def v split: option.split)
  next
    case False
    then show ?thesis using acc deny by (auto simp: Backing x forwarded_def tnWatchSpec_def shownEvent_def split: option.split)
  qed
qed (simp_all add: forwarded_def shownEvent_def tnWatchSpec_def)

lemma tnWatch_events:
  "tnWatch backing (Some u) terms sel opts = Inr out \<Longrightarrow> backing opts = Inr ins \<Longrightarrow>
     filter objectEvent out = concat (map (shownEvent u terms sel opts) (readInputs ins))"
  using ext [of "forwarded (tnWatchSpec u terms sel (startingVersion (woVersion opts)))", OF forwarded_shown] by (auto simp: tnWatch_def forwardWatch_objects)

text \<open>C37: A list, a read and a watch show a user exactly the tenant namespaces that are open to it: those
  with a RoleBinding that names the user, one of its groups or the service account it is, and all of
  them for the two administrator groups. With agreeing reads of RoleBindings a list succeeds for a known user
  and shows exactly these, sorted by name; a read of such a namespace returns it, a read of any other
  stored tenant namespace is refused, and a read of anything else finds nothing. The events of a watch
  are, in order and without exception, those of the tenant namespaces that the selectors match, that
  the client has not seen and that are open to the user by the bindings read when the event is
  handled. This holds for deletions too, and is a limit of the watch: the bindings of a deleted namespace
  go first, so its deletion may reach nobody but the administrators, and a failed read of the
  bindings drops an event in the same way. Without a user all three are refused.\<close>

theorem tenantNamespace_access:
  assumes "ncBindings c = Inr rbs" "\<And>n. ncBindingsIn c n = Inr (bindingsOf rbs n)" "ncList c = Inr (version, items)"
    and "\<And>ns. ns \<in> set items \<Longrightarrow> ncGet c (nsName ns) = Found ns"
  shows "(\<exists>v shown. tnList c (Some u) = Inr (v, shown) \<and> sorted (map nsName shown) \<and>
           set shown = shownNamespace ` {m \<in> set items. prefix tenantPrefix (nsName m) \<and> opensTo u (bindingsOf rbs (nsName m))}) \<and>
         (\<forall>m \<in> set items. prefix tenantPrefix (nsName m) \<longrightarrow>
            tnGet c (Some u) (nsName m) = (if opensTo u (bindingsOf rbs (nsName m)) then Inr m else Inl TnForbidden)) \<and>
         (\<forall>n. \<not> prefix tenantPrefix n \<longrightarrow> tnGet c (Some u) n = Inl TnNotFound) \<and>
         (\<forall>backing terms sel opts out ins.
            tnWatch backing (Some u) terms sel opts = Inr out \<longrightarrow> backing opts = Inr ins \<longrightarrow>
            filter objectEvent out = concat (map (shownEvent u terms sel opts) (readInputs ins))) \<and>
         tnList c None = Inl TnUnauthorized \<and> (\<forall>n. prefix tenantPrefix n \<longrightarrow> tnGet c None n = Inl TnUnauthorized) \<and>
         (\<forall>backing terms sel opts. tnWatch backing None terms sel opts = Inl TnUnauthorized)"
proof (intro conjI allI impI ballI)
  let ?names = "filter (prefix tenantPrefix) (map nsName items)"
  obtain allowed where allowed: "filterAccessible (Some u) (Inr rbs) ?names = Inr allowed"
    "set allowed = {n \<in> set ?names. opensTo u (bindingsOf rbs n)}" using filterAccessible_set by blast
  have "tnList c (Some u) = Inr (makeList (version, items) allowed)"
    by (simp add: tnList_def assms(1,3) allowed(1))
  moreover have "set (snd (makeList (version, items) allowed)) =
      shownNamespace ` {m \<in> set items. prefix tenantPrefix (nsName m) \<and> opensTo u (bindingsOf rbs (nsName m))}"
    using allowed(2) by (auto simp: makeList_def)
  moreover have "sorted (map nsName (snd (makeList (version, items) allowed)))" by (simp add: makeList_def)
  ultimately show "\<exists>v shown. tnList c (Some u) = Inr (v, shown) \<and> sorted (map nsName shown) \<and>
      set shown = shownNamespace ` {m \<in> set items. prefix tenantPrefix (nsName m) \<and> opensTo u (bindingsOf rbs (nsName m))}"
    by (metis prod.collapse)
next
  fix m assume m: "m \<in> set items" "prefix tenantPrefix (nsName m)"
  have "hasAccessToNamespace (ncBindingsIn c) (Some u) (nsName m) = Inr (opensTo u (bindingsOf rbs (nsName m)))"
    by (auto simp: hasAccessToNamespace_def assms(2) hasAccessToNamespaceForUser_def privileged_administrator opensTo_def
        list_ex_iff grants_iff)
  then show "tnGet c (Some u) (nsName m) = (if opensTo u (bindingsOf rbs (nsName m)) then Inr m else Inl TnForbidden)"
    using m(2) assms(4) [OF m(1)] by (simp add: tnGet_def)
next
  fix backing terms sel opts out ins
  assume "tnWatch backing (Some u) terms sel opts = Inr out" "backing opts = Inr ins"
  then show "filter objectEvent out = concat (map (shownEvent u terms sel opts) (readInputs ins))" by (rule tnWatch_events)
qed (simp_all add: tnGet_def tnList_def filterAccessible_def hasAccessToNamespace_def tnWatch_def assms(3))

text \<open>The witness: two tenants, of which a group may see one.\<close>

definition demoNamespace :: "string \<Rightarrow> Namespace" where
  "demoNamespace n = \<lparr>nsName = n, nsUID = [], nsVersion = ''1'', nsCreated = 0, nsLabels = Map.empty,
     nsAnnotations = Map.empty, nsSystem = []\<rparr>"

definition demoBinding :: RoleBinding where
  "demoBinding = \<lparr>rbNamespace = ''tenant-a'', rbSubjects = [\<lparr>sjKind = ''Group'', sjName = ''a-view'', sjNamespace = []\<rparr>]\<rparr>"

definition demoUser :: UserInfo where "demoUser = \<lparr>usName = ''ann'', usGroups = [''a-view'']\<rparr>"

definition demoNamespaceClient :: namespaceClient where
  "demoNamespaceClient = \<lparr>ncList = Inr (''7'', [demoNamespace ''tenant-b'', demoNamespace ''tenant-a'']),
     ncGet = (\<lambda>n. Found (demoNamespace n)), ncBindings = Inr [demoBinding],
     ncBindingsIn = (\<lambda>n. Inr (bindingsOf [demoBinding] n))\<rparr>"

lemma tenantNamespace_access_witness:
  "tnGet demoNamespaceClient (Some demoUser) ''tenant-b'' = Inl TnForbidden \<and>
   (\<exists>v shown. tnList demoNamespaceClient (Some demoUser) = Inr (v, shown) \<and> demoNamespace ''tenant-a'' \<in> set shown)"
proof -
  let ?items = "[demoNamespace ''tenant-b'', demoNamespace ''tenant-a'']"
  have c: "ncBindings demoNamespaceClient = Inr [demoBinding]" "ncBindingsIn demoNamespaceClient n = Inr (bindingsOf [demoBinding] n)"
    "ncList demoNamespaceClient = Inr (''7'', ?items)" for n by (simp_all add: demoNamespaceClient_def)
  have reads: "ncGet demoNamespaceClient (nsName ns) = Found ns" if "ns \<in> set ?items" for ns
    using that by (auto simp: demoNamespaceClient_def demoNamespace_def)
  have bound: "boundTo demoUser demoBinding"
    by (rule groupSubject [of "''a-view''" "[]"]) (simp_all add: demoBinding_def demoUser_def)
  have opens: "opensTo demoUser (bindingsOf [demoBinding] ''tenant-a'')" "\<not> opensTo demoUser (bindingsOf [demoBinding] ''tenant-b'')"
    using bound by (simp_all add: opensTo_def bindingsOf_def administrator_def demoUser_def demoBinding_def)
  have nm: "shownNamespace (demoNamespace n) = demoNamespace n" "nsName (demoNamespace n) = n" for n
    by (simp_all add: shownNamespace_def demoNamespace_def)
  note all = tenantNamespace_access [of demoNamespaceClient "[demoBinding]" "''7''" ?items demoUser, OF c reads]
  have "tnGet demoNamespaceClient (Some demoUser) ''tenant-b'' = Inl TnForbidden"
    using all [THEN conjunct2, THEN conjunct1, rule_format, of "demoNamespace ''tenant-b''"] opens by (simp add: nm tenantPrefix_def)
  moreover obtain v shown where s: "tnList demoNamespaceClient (Some demoUser) = Inr (v, shown)"
    "set shown = shownNamespace ` {m \<in> set ?items. prefix tenantPrefix (nsName m) \<and> opensTo demoUser (bindingsOf [demoBinding] (nsName m))}"
    using all [THEN conjunct1] by blast
  have "demoNamespace ''tenant-a'' \<in> set shown"
    unfolding s(2) by (rule image_eqI [of _ _ "demoNamespace ''tenant-a''"]) (simp_all add: nm opens(1) tenantPrefix_def)
  then show ?thesis using s(1) calculation by blast
qed

text \<open>The RoleBindings of a namespace go before the namespace does. At the event of its deletion a user who
  could see it has no access any more, and the event is dropped: the cache of the client keeps it.\<close>

theorem deleted_namespace_stays:
  assumes "\<not> privilegedGroups (usGroups u)"
  shows "tnWatch (\<lambda>opts. Inr [Some (Backing Deleted (demoNamespace ''tenant-a'', Inr []))]) (Some u) None None
    \<lparr>woVersion = [], woSendInitial = None, woAllowBookmarks = False\<rparr> = Inr []"
  using assms by (simp add: tnWatch_def forwardWatch_def forwardStep_shape forwarded_def tnWatchSpec_def
      hasAccessToNamespaceForUser_def demoNamespace_def tenantPrefix_def NewInitialEventsBookmarker_def
      InitialEventsEndBookmarkRequested_def Let_def)

end
