(* ===== verification/Tenant_Modules.thy ===== *)
theory Tenant_Modules
  imports App_Storage
begin

text \<open>
  The TenantModule API: the marked HelmReleases of a tenant (\<open>pkg/registry/core/tenantmodule/rest.go\<close>).
\<close>

subsection \<open>Types and conversion\<close>

text \<open>A HelmRelease with the version of its chart, when it names a chart.\<close>

record ModuleRelease =
  mrRelease :: AppRelease
  mrChartVersion :: "string option"

record TenantModule =
  tmName :: string
  tmNamespace :: string
  tmUID :: string
  tmVersion :: string
  tmCreated :: "int option"
  tmDeletion :: "int option"
  tmLabels :: "string \<rightharpoonup> string"
  tmAnnotations :: "string \<rightharpoonup> string"
  tmAppVersion :: string
  tmStatusVersion :: string
  tmConditions :: "appCondition list"

definition TenantModuleLabelKey :: string where "TenantModuleLabelKey = ''internal.cozystack.io/tenantmodule''"
definition TenantModuleLabelValue :: string where "TenantModuleLabelValue = ''true''"

definition hasTenantModuleLabel :: "ModuleRelease \<Rightarrow> bool" where
  "hasTenantModuleLabel hr \<longleftrightarrow> arLabels (mrRelease hr) TenantModuleLabelKey = Some TenantModuleLabelValue"

definition filterInternalLabels :: "(string \<rightharpoonup> string) \<Rightarrow> (string \<rightharpoonup> string)" where
  "filterInternalLabels m = m(TenantModuleLabelKey := None)"

definition convertHelmReleaseToTenantModule :: "ModuleRelease \<Rightarrow> TenantModule" where
  "convertHelmReleaseToTenantModule hr =
     (let h = mrRelease hr in
      \<lparr>tmName = arName h, tmNamespace = arNamespace h, tmUID = arUID h, tmVersion = arVersion h,
       tmCreated = arCreated h, tmDeletion = arDeletion h, tmLabels = filterInternalLabels (arLabels h),
       tmAnnotations = arAnnotations h, tmAppVersion = (case mrChartVersion hr of None \<Rightarrow> [] | Some v \<Rightarrow> v),
       tmStatusVersion = arRevision h,
       tmConditions = shownConditions h\<rparr>)"

subsection \<open>Requests\<close>

datatype tm_error = TmNotFound | TmClient string | TmOther string

definition tmGet :: "(string \<Rightarrow> string \<Rightarrow> ModuleRelease fetched) \<Rightarrow> string option \<Rightarrow> string \<Rightarrow> tm_error + TenantModule" where
  "tmGet get ctxNS name =
     (case ctxNS of
        None \<Rightarrow> Inl (TmOther ''namespace not found in context'')
      | Some ns \<Rightarrow>
          (case get ns name of
             Missing \<Rightarrow> Inl TmNotFound
           | FetchError e \<Rightarrow> Inl (TmClient e)
           | Found hr \<Rightarrow>
               if \<not> hasTenantModuleLabel hr then Inl TmNotFound else Inr (convertHelmReleaseToTenantModule hr)))"

definition moduleSelector :: "requirement list option \<Rightarrow> requirement list" where
  "moduleSelector sel =
     equalsRequirement TenantModuleLabelKey TenantModuleLabelValue # (case sel of None \<Rightarrow> [] | Some reqs \<Rightarrow> reqs)"

definition listedModule :: "listOptions \<Rightarrow> ModuleRelease \<Rightarrow> TenantModule list" where
  "listedModule opts hr =
     (let f = ParseFieldSelector (loFields opts) in
      if \<not> MatchesName f (arName (mrRelease hr)) then []
      else if \<not> MatchesNamespace f (arNamespace (mrRelease hr)) then []
      else if \<not> hasTenantModuleLabel hr then []
      else let module = convertHelmReleaseToTenantModule hr in
        if loName opts \<noteq> [] \<and> tmName module \<noteq> loName opts then []
        else if (case loLabels opts of None \<Rightarrow> False | Some reqs \<Rightarrow> \<not> labelsMatch reqs (tmLabels module)) then []
        else if (case loFields opts of None \<Rightarrow> False | Some terms \<Rightarrow>
               \<not> fieldsMatch terms [''metadata.name'' \<mapsto> tmName module, ''metadata.namespace'' \<mapsto> tmNamespace module]) then []
        else [module])"

text \<open>\<open>items\<close> gives the HelmReleases of a namespace, or of all for the empty one, that match a selector.\<close>

definition tmList :: "(string \<Rightarrow> requirement list \<Rightarrow> string + string \<times> ModuleRelease list) \<Rightarrow> string option \<Rightarrow> listOptions \<Rightarrow>
    tm_error + string \<times> TenantModule list" where
  "tmList items ctxNS opts =
     (case ctxNS of
        None \<Rightarrow> Inl (TmOther ''namespace not found in context'')
      | Some ns \<Rightarrow>
          (let f = ParseFieldSelector (loFields opts) in
           if fiNamespace f \<noteq> [] \<and> ns \<noteq> [] \<and> ns \<noteq> fiNamespace f then Inr ([], [])
           else case items ns (moduleSelector (loLabels opts)) of
             Inl e \<Rightarrow> Inl (TmClient e)
           | Inr (listRV, hrs) \<Rightarrow>
               Inr (if listRV = [] then MaxResourceVersion (map (arVersion \<circ> mrRelease) hrs) else listRV,
                    sort_key (\<lambda>m. [tmNamespace m, tmName m]) (concat (map (listedModule opts) hrs)))))"

definition tmWatchSpec :: "listOptions \<Rightarrow> nat \<Rightarrow> (ModuleRelease, TenantModule) watchSpec" where
  "tmWatchSpec opts startingRV =
     \<lparr>wsOwn = (\<lambda>hr. True), wsVersion = (\<lambda>hr. arVersion (mrRelease hr)),
      wsShow = (\<lambda>t hr.
        let f = ParseFieldSelector (loFields opts) in
        if \<not> MatchesName f (arName (mrRelease hr)) then None
        else if \<not> MatchesNamespace f (arNamespace (mrRelease hr)) then None
        else if \<not> hasTenantModuleLabel hr then None
        else let module = convertHelmReleaseToTenantModule hr in
          if alreadySeen startingRV t (tmVersion module) then None
          else if loName opts \<noteq> [] \<and> tmName module \<noteq> loName opts then None
          else if (case loLabels opts of None \<Rightarrow> False | Some reqs \<Rightarrow> \<not> labelsMatch reqs (tmLabels module)) then None
          else Some module),
      wsErrors = False\<rparr>"

definition tmWatch :: "(string \<Rightarrow> requirement list \<Rightarrow> string + ModuleRelease backingInput option list) \<Rightarrow> string option \<Rightarrow>
    listOptions \<Rightarrow> watchOptions \<Rightarrow> tm_error + TenantModule clientEvent list" where
  "tmWatch backing ctxNS opts wopts =
     (case ctxNS of
        None \<Rightarrow> Inl (TmOther ''namespace not found in context'')
      | Some ns \<Rightarrow>
          (case backing ns (moduleSelector (loLabels opts)) of
             Inl e \<Rightarrow> Inl (TmClient e)
           | Inr ins \<Rightarrow> Inr (forwardWatch (tmWatchSpec opts (startingVersion (woVersion wopts))) wopts ins)))"

subsection \<open>Lists, reads and watches agree\<close>

definition moduleKey :: "TenantModule \<Rightarrow> string \<times> string" where "moduleKey m = (tmName m, tmNamespace m)"
definition moduleReleaseKey :: "ModuleRelease \<Rightarrow> string \<times> string" where
  "moduleReleaseKey hr = (arName (mrRelease hr), arNamespace (mrRelease hr))"

definition moduleKeep :: "listOptions \<Rightarrow> string \<times> string \<Rightarrow> bool" where
  "moduleKeep opts k \<longleftrightarrow>
     MatchesName (ParseFieldSelector (loFields opts)) (fst k) \<and> MatchesNamespace (ParseFieldSelector (loFields opts)) (snd k) \<and>
     (loName opts = [] \<or> loName opts = fst k)"

definition releaseChange :: "ModuleRelease backingInput \<Rightarrow> ((string \<times> string) \<times> ModuleRelease option) option" where
  "releaseChange i = (case i of Backing t hr \<Rightarrow> Some (moduleReleaseKey hr, if t = Deleted then None else Some hr) | _ \<Rightarrow> None)"

text \<open>The user's selector does not mention the marker, which a module does not show.\<close>

definition markerFree :: "listOptions \<Rightarrow> bool" where
  "markerFree opts \<longleftrightarrow> (case loLabels opts of None \<Rightarrow> True | Some reqs \<Rightarrow> list_all (\<lambda>q. rqKey q \<noteq> TenantModuleLabelKey) reqs)"

definition releaseRegular :: "listOptions \<Rightarrow> nat \<Rightarrow> ModuleRelease backingInput \<Rightarrow> bool" where
  "releaseRegular opts startingRV i \<longleftrightarrow>
     (case i of
        Backing t hr \<Rightarrow>
          markerFree opts \<and> labelsMatch (moduleSelector (loLabels opts)) (arLabels (mrRelease hr)) \<and>
          \<not> alreadySeen startingRV t (arVersion (mrRelease hr))
      | _ \<Rightarrow> True)"

lemma convertModule_meta [simp]:
  "moduleKey (convertHelmReleaseToTenantModule hr) = moduleReleaseKey hr"
  "tmVersion (convertHelmReleaseToTenantModule hr) = arVersion (mrRelease hr)"
  "tmName (convertHelmReleaseToTenantModule hr) = arName (mrRelease hr)"
  "tmNamespace (convertHelmReleaseToTenantModule hr) = arNamespace (mrRelease hr)"
  "tmLabels (convertHelmReleaseToTenantModule hr) = (arLabels (mrRelease hr))(TenantModuleLabelKey := None)"
  by (simp_all add: moduleKey_def moduleReleaseKey_def convertHelmReleaseToTenantModule_def filterInternalLabels_def Let_def)

lemma labelsMatch_other: "list_all (\<lambda>q. rqKey q \<noteq> k) reqs \<Longrightarrow> labelsMatch reqs (m(k := v)) = labelsMatch reqs m"
  by (auto simp: labelsMatch_def list_all_iff)

lemma labelsMatch_cons: "labelsMatch (equalsRequirement k v # reqs) m \<longleftrightarrow> m k = Some v \<and> labelsMatch reqs m"
  by (simp add: labelsMatch_def equalsRequirement_def)

lemma moduleSelector_marked:
  assumes "markerFree opts" "labelsMatch (moduleSelector (loLabels opts)) (arLabels (mrRelease hr))"
  shows "hasTenantModuleLabel hr"
    "(case loLabels opts of None \<Rightarrow> False | Some reqs \<Rightarrow> \<not> labelsMatch reqs (tmLabels (convertHelmReleaseToTenantModule hr))) = False"
  using assms labelsMatch_other [of TenantModuleLabelKey]
  by (auto simp: moduleSelector_def labelsMatch_cons hasTenantModuleLabel_def markerFree_def split: option.splits)

lemma tmWatchSpec_regular:
  assumes "releaseRegular opts n (Backing t hr)"
  shows "forwarded (tmWatchSpec opts n) (Backing t hr) =
    (if moduleKeep opts (moduleReleaseKey hr) then [ClientEvent t (convertHelmReleaseToTenantModule hr)] else [])"
  using moduleSelector_marked [of opts hr] assms
  by (auto simp: forwarded_def tmWatchSpec_def releaseRegular_def moduleKeep_def moduleReleaseKey_def Let_def)

interpretation tm_tracking: tracking_watch "forwardStep (tmWatchSpec opts n)" closeWatch "\<lambda>b. \<not> bmSent b"
  "forwarded (tmWatchSpec opts n)" releaseChange moduleKey "moduleKeep opts" convertHelmReleaseToTenantModule "releaseRegular opts n"
  for opts n
proof
  fix i :: "ModuleRelease backingInput" and store :: "(string \<times> string) \<rightharpoonup> ModuleRelease"
  assume regular: "releaseRegular opts n i"
  show "fold (applyClient moduleKey) (forwarded (tmWatchSpec opts n) i) (viewOf (moduleKeep opts) convertHelmReleaseToTenantModule store)
      = viewOf (moduleKeep opts) convertHelmReleaseToTenantModule (applyChange (releaseChange i) store)"
  proof (cases i)
    case (Backing t hr)
    then show ?thesis using tmWatchSpec_regular [of opts n t hr] regular
      by (auto simp: releaseChange_def applyChange_def viewOf_update)
  qed (simp_all add: forwarded_def releaseChange_def applyChange_def tmWatchSpec_def)
qed

text \<open>The cache of a client follows the marked HelmReleases.\<close>

theorem tmWatch_tracks:
  assumes "tmWatch backing (Some ns) opts wopts = Inr out" "backing ns (moduleSelector (loLabels opts)) = Inr ins"
    and "list_all (releaseRegular opts (startingVersion (woVersion wopts))) (readInputs ins)"
  shows "fold (applyClient moduleKey) out (viewOf (moduleKeep opts) convertHelmReleaseToTenantModule store)
    = viewOf (moduleKeep opts) convertHelmReleaseToTenantModule (fold (applyChange \<circ> releaseChange) (readInputs ins) store)"
  using tm_tracking.stream_tracks [OF assms(3)] assms(1,2) by (auto simp: tmWatch_def forwardWatch_def)

text \<open>A list shows the marked releases that the request asks for.\<close>

lemma listedModule_regular:
  assumes "markerFree opts" "labelsMatch (moduleSelector (loLabels opts)) (arLabels (mrRelease hr))"
  shows "listedModule opts hr =
    (if moduleKeep opts (moduleReleaseKey hr) \<and> (case loFields opts of None \<Rightarrow> True | Some terms \<Rightarrow>
          fieldsMatch terms [''metadata.name'' \<mapsto> fst (moduleReleaseKey hr), ''metadata.namespace'' \<mapsto> snd (moduleReleaseKey hr)])
     then [convertHelmReleaseToTenantModule hr] else [])"
  using moduleSelector_marked [OF assms]
  by (auto simp: listedModule_def moduleKeep_def moduleReleaseKey_def Let_def split: option.splits)

text \<open>A release that loses its marker leaves the selection of the backing watch, which reports it as deleted
  with its new labels. The check of the marker then drops the event.\<close>

theorem relabelled_module_stays:
  "\<not> hasTenantModuleLabel hr \<Longrightarrow> forwarded (tmWatchSpec opts n) (Backing Deleted hr) = []"
  by (simp add: forwarded_def tmWatchSpec_def Let_def)

end
