(* ===== verification/Tap_Artifact.thy ===== *)
theory Tap_Artifact
  imports Package_Operator "HOL-Library.Sublist"
begin

text \<open>
  The artifact of a tapped repository (internal/operator/tapmaterializer\_artifact.go): the check of its
  digest, the extraction of the tarball and the search for PackageSource manifests. SHA-256, the readers
  of gzip and tar and of YAML are arguments; \<open>filepath.Clean\<close>, \<open>Join\<close> and \<open>Rel\<close> are written out for
  the separator \<open>/\<close>. The file system is a map of the files written below the extraction directory; which
  of its calls fail is an argument.
\<close>

subsection \<open>Paths\<close>

definition sep :: char where "sep = CHR ''/''"

definition pathParts :: "string \<Rightarrow> string list" where
  "pathParts s = filter (\<lambda>c. c \<noteq> [] \<and> c \<noteq> ''.'') (splitOn sep s)"

fun cleanParts :: "bool \<Rightarrow> string list \<Rightarrow> string list \<Rightarrow> string list" where
  "cleanParts rooted acc [] = rev acc"
| "cleanParts rooted acc (c # cs) =
     (if c = ''..'' then
        (case acc of
           [] \<Rightarrow> cleanParts rooted (if rooted then [] else [''..'']) cs
         | a # as \<Rightarrow> if a = ''..'' then cleanParts rooted (''..'' # acc) cs else cleanParts rooted as cs)
      else cleanParts rooted (c # acc) cs)"

definition rootedPath :: "string \<Rightarrow> bool" where
  "rootedPath s \<longleftrightarrow> (case s of [] \<Rightarrow> False | c # cs \<Rightarrow> c = sep)"

definition showPath :: "bool \<Rightarrow> string list \<Rightarrow> string" where
  "showPath rooted parts =
     (if rooted then sep # joinWith sep parts else if parts = [] then ''.'' else joinWith sep parts)"

definition Clean :: "string \<Rightarrow> string" where
  "Clean s = showPath (rootedPath s) (cleanParts (rootedPath s) [] (pathParts s))"

definition Join :: "string \<Rightarrow> string \<Rightarrow> string" where
  "Join a b =
     (let parts = filter (\<lambda>x. x \<noteq> []) [a, b] in if parts = [] then [] else Clean (joinWith sep parts))"

fun dropCommon :: "string list \<Rightarrow> string list \<Rightarrow> string list \<times> string list" where
  "dropCommon (x # xs) (y # ys) = (if x = y then dropCommon xs ys else (x # xs, y # ys))"
| "dropCommon xs ys = (xs, ys)"

text \<open>The relative path, or \<open>None\<close> when there is none.\<close>

definition Rel :: "string \<Rightarrow> string \<Rightarrow> string option" where
  "Rel base target =
     (if rootedPath base \<noteq> rootedPath target then None
      else case dropCommon (cleanParts (rootedPath base) [] (pathParts base)) (cleanParts (rootedPath target) [] (pathParts target)) of
        (b, t) \<Rightarrow>
          if b \<noteq> [] \<and> hd b = ''..'' then None
          else Some (showPath False (map (\<lambda>_. ''..'') b @ t)))"

datatype extract_error =
    NoDigest | DigestMismatch string string | OpenGzip string | ReadTar string | PathTraversal string | Escapes string
  | TooLarge | FileError string

definition safeJoin :: "string \<Rightarrow> string \<Rightarrow> extract_error + string" where
  "safeJoin base name =
     (if name = ''..'' \<or> prefix ''../'' name \<or> sublist ''/../'' name \<or> suffix ''/..'' name then Inl (PathTraversal name)
      else let target = Join base name in
        (case Rel base target of
           None \<Rightarrow> Inl (Escapes name)
         | Some rel \<Rightarrow> if rel = ''..'' \<or> prefix ''../'' rel then Inl (Escapes name) else Inr target))"

subsection \<open>Extraction\<close>

datatype tarType = TypeDir | TypeReg | TypeOther

record tarEntry =
  teName :: string
  teType :: tarType
  teSize :: int
  teContent :: string

text \<open>A tarball is read entry by entry; \<open>Inl\<close> stands for an entry that cannot be read. The calls of the
  operating system that fail are known by their path.\<close>

record extractLib =
  elSha256 :: "string \<Rightarrow> string" \<comment> \<open>the hexadecimal digest\<close>
  elGzip :: "string \<Rightarrow> string + (string + tarEntry) list"
  elMkdir :: "string \<Rightarrow> string option"
  elWrite :: "string \<Rightarrow> string option"

definition maxArtifactBytes :: int where "maxArtifactBytes = 256 * 2 ^ 20"

definition parentPath :: "string \<Rightarrow> string" where
  "parentPath p = showPath (rootedPath p) (butlast (cleanParts (rootedPath p) [] (pathParts p)))"

type_synonym fileTree = "(string \<times> string) list"

fun extractLoop :: "extractLib \<Rightarrow> string \<Rightarrow> int \<Rightarrow> fileTree \<Rightarrow> (string + tarEntry) list \<Rightarrow> fileTree \<times> extract_error option" where
  "extractLoop L dest written files [] = (files, None)"
| "extractLoop L dest written files (Inl e # es) = (files, Some (ReadTar e))"
| "extractLoop L dest written files (Inr hdr # es) =
     (if sublist ''..'' (teName hdr) then (files, Some (PathTraversal (teName hdr)))
      else case safeJoin dest (teName hdr) of
        Inl e \<Rightarrow> (files, Some e)
      | Inr target \<Rightarrow>
          (case teType hdr of
             TypeDir \<Rightarrow> (case elMkdir L target of Some e \<Rightarrow> (files, Some (FileError e)) | None \<Rightarrow> extractLoop L dest written files es)
           | TypeReg \<Rightarrow>
               (case elMkdir L (parentPath target) of
                  Some e \<Rightarrow> (files, Some (FileError e))
                | None \<Rightarrow>
                    let written' = written + teSize hdr in
                    if maxArtifactBytes < written' then (files, Some TooLarge)
                    else case elWrite L target of
                      Some e \<Rightarrow> (files, Some (FileError e))
                    | None \<Rightarrow> extractLoop L dest written' (AList.update target (teContent hdr) files) es)
           | TypeOther \<Rightarrow> extractLoop L dest written files es))"

definition verifyAndExtract :: "extractLib \<Rightarrow> string \<Rightarrow> string \<Rightarrow> string \<Rightarrow> fileTree \<times> extract_error option" where
  "verifyAndExtract L data expectedDigest destDir =
     (if expectedDigest = [] then ([], Some NoDigest)
      else let got = ''sha256:'' @ elSha256 L data in
        if got \<noteq> expectedDigest then ([], Some (DigestMismatch got expectedDigest))
        else case elGzip L data of
          Inl e \<Rightarrow> ([], Some (OpenGzip e))
        | Inr entries \<Rightarrow> extractLoop L destDir 0 [] entries)"

subsection \<open>Manifests\<close>

text \<open>A YAML document is a PackageSource, one that cannot be decoded strictly, or something else.\<close>

datatype yamlDoc = SourceDoc opSource | BadSource string | OtherDoc

fun readDocs :: "(string + yamlDoc) list \<Rightarrow> string + opSource list" where
  "readDocs [] = Inr []"
| "readDocs (Inl e # ds) = Inl e"
| "readDocs (Inr OtherDoc # ds) = readDocs ds"
| "readDocs (Inr (BadSource e) # ds) = Inl e"
| "readDocs (Inr (SourceDoc ps) # ds) = (case readDocs ds of Inl e \<Rightarrow> Inl e | Inr out \<Rightarrow> Inr (ps # out))"

text \<open>\<open>walk\<close> puts the files in the order of the walk, \<open>yaml\<close> splits and decodes a file; a file that cannot be
  read counts as one without documents.\<close>

fun parsePackageSourcesFromTree :: "(string \<Rightarrow> (string + yamlDoc) list) \<Rightarrow> fileTree \<Rightarrow> string + opSource list" where
  "parsePackageSourcesFromTree yaml [] = Inr []"
| "parsePackageSourcesFromTree yaml ((path, content) # files) =
     (if \<not> suffix ''.yaml'' path \<and> \<not> suffix ''.yml'' path then parsePackageSourcesFromTree yaml files
      else case readDocs (yaml content) of
        Inl e \<Rightarrow> Inl e
      | Inr out \<Rightarrow> (case parsePackageSourcesFromTree yaml files of Inl e \<Rightarrow> Inl e | Inr rest \<Rightarrow> Inr (out @ rest)))"

definition rewriteForMaterialize :: "opSource \<Rightarrow> string \<Rightarrow> string \<Rightarrow> string \<Rightarrow> opSource" where
  "rewriteForMaterialize ps sourceName sourceNamespace sourcePath =
     ps\<lparr>osUID := [],
        osSourceRef := Some \<lparr>srKind = ''OCIRepository'', srName = sourceName, srNamespace = sourceNamespace,
          srPath = (if sourcePath = [] then ''/'' else sourcePath)\<rparr>\<rparr>"

subsection \<open>Nothing is written outside the directory\<close>

text \<open>A clean absolute directory by its components.\<close>

definition plainPart :: "string \<Rightarrow> bool" where
  "plainPart c \<longleftrightarrow> c \<noteq> [] \<and> c \<noteq> ''.'' \<and> c \<noteq> ''..'' \<and> sep \<notin> set c"

definition absoluteDir :: "string \<Rightarrow> string list \<Rightarrow> bool" where
  "absoluteDir dest ds \<longleftrightarrow> dest = sep # joinWith sep ds \<and> ds \<noteq> [] \<and> list_all plainPart ds"

lemma pathParts_append: "pathParts (a @ sep # b) = pathParts a @ pathParts b"
  by (simp add: pathParts_def splitOn_append)

lemma splitOn_parts: "c \<in> set (splitOn x s) \<Longrightarrow> sublist c s"
proof (induction s arbitrary: c)
  case (Cons y s)
  show ?case
  proof (cases "y = x")
    case True
    then show ?thesis using Cons by (auto simp: sublist_Cons_right)
  next
    case False
    obtain w ws where w: "splitOn x s = w # ws" using splitOn_not_Nil [of x s] by (cases "splitOn x s") auto
    have "prefix w s" if "splitOn x s = w # ws" for w ws s
      using that by (induction s arbitrary: w ws) (auto split: if_splits list.splits)
    from this [OF w] have "sublist (y # w) (y # s)" by (simp add: prefix_imp_sublist)
    then show ?thesis using Cons False w by (auto simp: sublist_Cons_right)
  qed
qed simp

lemma pathParts_plain:
  assumes "\<not> sublist ''..'' s"
  shows "list_all plainPart (pathParts s)"
proof -
  have "plainPart c" if "c \<in> set (splitOn sep s)" "c \<noteq> []" "c \<noteq> ''.''" for c
    using splitOn_parts [OF that(1)] splitOn_no_sep [OF that(1)] that(2,3) assms by (auto simp: plainPart_def)
  then show ?thesis by (auto simp: pathParts_def list_all_iff)
qed

lemma pathParts_join:
  assumes "list_all plainPart ds" "ds \<noteq> []"
  shows "pathParts (joinWith sep ds) = ds"
  using assms
proof (induction ds rule: induct_list012)
  case (2 x)
  then show ?case by (auto simp: pathParts_def plainPart_def splitOn_single)
next
  case (3 x y xs)
  then have "pathParts x = [x]" by (auto simp: pathParts_def plainPart_def splitOn_single)
  then show ?case using 3 by (simp add: pathParts_append)
qed simp

lemma cleanParts_plain: "list_all plainPart cs \<Longrightarrow> cleanParts rooted acc cs = rev acc @ cs"
  by (induction cs arbitrary: acc) (auto simp: plainPart_def)

lemma dropCommon_append: "dropCommon ds (ds @ xs) = ([], xs)"
  by (induction ds) auto

lemma showPath_inside: "list_all plainPart ps \<Longrightarrow> showPath False ps \<noteq> ''..'' \<and> \<not> prefix ''../'' (showPath False ps)"
proof (induction ps rule: induct_list012)
  case (3 x y xs)
  have x: "x \<noteq> ''..''" "sep \<notin> set x" using 3(3) by (auto simp: plainPart_def)
  have "x @ sep # r \<noteq> ''..'' @ sep # zs" for r zs
    using cutAt_append [of sep x r] cutAt_append [of sep "''..''" zs] x by (auto simp: sep_def)
  moreover have "x @ sep # r \<noteq> ''..''" for r using x(1) by (auto simp: append_eq_Cons_conv sep_def)
  ultimately show ?case by (auto simp: showPath_def prefix_def sep_def)
qed (auto simp: showPath_def plainPart_def prefix_def sep_def)

lemma safeJoin_inside:
  assumes "absoluteDir dest ds" "\<not> sublist ''..'' name"
  shows "safeJoin dest name = Inr (sep # joinWith sep (ds @ pathParts name))"
proof -
  have ds: "dest = sep # joinWith sep ds" "ds \<noteq> []" "list_all plainPart ds" using assms(1) by (auto simp: absoluteDir_def)
  have ps: "list_all plainPart (pathParts name)" by (rule pathParts_plain [OF assms(2)])
  have parts: "pathParts dest = ds"
    using pathParts_append [of "[]" "joinWith sep ds"] pathParts_join [OF ds(3,2)] by (simp add: ds(1) pathParts_def)
  have all: "pathParts (dest @ sep # name) = ds @ pathParts name" by (simp add: pathParts_append parts)
  have root: "rootedPath dest" "rootedPath (dest @ sep # name)" by (simp_all add: ds(1) rootedPath_def)
  have join: "Join dest name = sep # joinWith sep (ds @ pathParts name)"
    using ps ds parts all root
    by (auto simp: Join_def Clean_def showPath_def cleanParts_plain pathParts_def)
  have again: "pathParts (sep # joinWith sep (ds @ pathParts name)) = ds @ pathParts name"
    using pathParts_append [of "[]" "joinWith sep (ds @ pathParts name)"] pathParts_join [of "ds @ pathParts name"] ps ds
    by (simp add: pathParts_def)
  have rel: "Rel dest (Join dest name) = Some (showPath False (pathParts name))"
  proof -
    have "rootedPath (Join dest name)" "pathParts (Join dest name) = ds @ pathParts name"
      by (simp_all add: join rootedPath_def again)
    then show ?thesis using ps ds(3) root(1) by (simp add: Rel_def parts cleanParts_plain dropCommon_append)
  qed
  have "name \<noteq> ''..''" "\<not> prefix ''../'' name" "\<not> sublist ''/../'' name" "\<not> suffix ''/..'' name"
    using assms(2) by (auto simp: prefix_def suffix_def sublist_def) (metis append.assoc append_Cons append_Nil)+
  then show ?thesis using showPath_inside [OF ps] by (simp add: safeJoin_def rel [unfolded join] Let_def join)
qed

text \<open>A tarball is extracted only when the data have the expected digest; every file it leaves lies in the
  directory, at the place its entry names, and the files are not larger than the limit in total.\<close>

definition sizesRead :: "(string + tarEntry) list \<Rightarrow> bool" where
  "sizesRead es \<longleftrightarrow> list_all (\<lambda>e. case e of Inl msg \<Rightarrow> True | Inr hdr \<Rightarrow> teSize hdr = int (length (teContent hdr))) es"

definition treeSize :: "fileTree \<Rightarrow> int" where
  "treeSize files = (\<Sum>(p, c) \<leftarrow> files. int (length c))"

lemma treeSize_update: "treeSize (AList.update p c files) \<le> treeSize files + int (length c)"
  by (induction files) (auto simp: treeSize_def)

lemma extractLoop_inside:
  assumes "absoluteDir dest ds" "sizesRead es" "treeSize files \<le> written" "written \<le> maxArtifactBytes"
    and "\<forall>p \<in> fst ` set files. \<exists>ps. p = sep # joinWith sep (ds @ ps) \<and> list_all plainPart ps"
    and "extractLoop L dest written files es = (out, err)"
  shows "(\<forall>p \<in> fst ` set out. \<exists>ps. p = sep # joinWith sep (ds @ ps) \<and> list_all plainPart ps) \<and> treeSize out \<le> maxArtifactBytes"
  using assms(2-6)
proof (induction es arbitrary: files written)
  case (Cons e es)
  show ?case
  proof (cases e)
    case (Inr hdr)
    have rest: "sizesRead es" and size: "teSize hdr = int (length (teContent hdr))"
      using Cons(2) by (simp_all add: sizesRead_def Inr)
    show ?thesis
    proof (cases "sublist ''..'' (teName hdr)")
      case False
      let ?t = "sep # joinWith sep (ds @ pathParts (teName hdr))"
      have t: "safeJoin dest (teName hdr) = Inr ?t" "list_all plainPart (pathParts (teName hdr))"
        using safeJoin_inside [OF assms(1) False] pathParts_plain [OF False] by auto
      have new: "\<forall>p \<in> fst ` set (AList.update ?t c files). \<exists>ps. p = sep # joinWith sep (ds @ ps) \<and> list_all plainPart ps" for c
    proof
      fix p assume "p \<in> fst ` set (AList.update ?t c files)"
      then have "p = ?t \<or> p \<in> fst ` set files" using set_update_subset [of ?t c files] by auto
      then show "\<exists>ps. p = sep # joinWith sep (ds @ ps) \<and> list_all plainPart ps" using Cons(5) t(2) by blast
    qed
      have grown: "treeSize (AList.update ?t (teContent hdr) files) \<le> written + teSize hdr"
        using treeSize_update [of ?t "teContent hdr" files] Cons(3) size by simp
      note go = Cons(6) [unfolded Inr, simplified False t(1) extractLoop.simps if_False sum.case]
      have stop: ?thesis if "out = files" using that Cons(3,4,5) by simp
      show ?thesis
      proof (cases "teType hdr")
        case TypeDir
        then show ?thesis using go Cons(1) [OF rest Cons(3,4,5)] stop by (cases "elMkdir L ?t") auto
      next
        case TypeReg
        show ?thesis
        proof (cases "elMkdir L (parentPath ?t) = None \<and> written + teSize hdr \<le> maxArtifactBytes \<and> elWrite L ?t = None")
          case True
          then have "extractLoop L dest (written + teSize hdr) (AList.update ?t (teContent hdr) files) es = (out, err)"
            using go TypeReg by (simp add: Let_def)
          then show ?thesis using Cons(1) [OF rest grown _ new] True by blast
        next
          case stuck: False
          then have "out = files" using go TypeReg
            by (cases "elMkdir L (parentPath ?t)"; cases "elWrite L ?t"; simp add: Let_def split: if_splits)
          then show ?thesis by (rule stop)
        qed
      next
        case TypeOther
        then show ?thesis using go Cons(1) [OF rest Cons(3,4,5)] by simp
      qed
    qed (use Cons in \<open>simp add: Inr\<close>)
  qed (use Cons in simp)
qed simp

lemma verifyAndExtract_safe:
  assumes "absoluteDir dest ds" "\<And>es. elGzip L data = Inr es \<Longrightarrow> sizesRead es" "verifyAndExtract L data digest dest = (out, err)"
  shows "out = [] \<and> err \<noteq> None \<or>
    digest = ''sha256:'' @ elSha256 L data \<and> (\<forall>p \<in> fst ` set out. \<exists>ps. p = sep # joinWith sep (ds @ ps) \<and> list_all plainPart ps) \<and>
    treeSize out \<le> maxArtifactBytes"
proof (cases "elGzip L data")
  case (Inr es)
  then show ?thesis
    using assms(3) extractLoop_inside [OF assms(1) assms(2) [OF Inr], of "[]" 0 L out err]
    by (auto simp: verifyAndExtract_def Let_def treeSize_def maxArtifactBytes_def split: if_splits)
qed (use assms(3) in \<open>auto simp: verifyAndExtract_def Let_def split: if_splits\<close>)

end
