(* ===== verification/Tap_Materializer.thy ===== *)
theory Tap_Materializer
  imports Tap_Artifact
begin

text \<open>
  The controller that materializes tapped repositories (internal/operator/tapmaterializer\_reconciler.go): for
  every OCIRepository with the label of a tap it creates the PackageSources that its artifact declares and
  registers them with a Package, and removes them again with the repository. The names in use are guarded by
  internal/marketplace/collision. A pass reads through a cache; its writes are listed in order. What the reads
  and calls give is a record \<open>tapEnv\<close>; the rewriting of the artifact's address to a ClusterIP is a
  function of the Service that is found.
\<close>

subsection \<open>Data\<close>

record Artifact =
  afURL :: string
  afDigest :: string
  afRevision :: string

record OCIRepository =
  orName :: string
  orNamespace :: string
  orLabels :: "string \<rightharpoonup> string"
  orAnnotations :: "string \<rightharpoonup> string"
  orDeleting :: bool
  orFinalizers :: "string list"
  orArtifact :: "Artifact option"

record regPackage = Package +
  rgUID :: string
  rgVersion :: string

definition tapFinalizer :: string where "tapFinalizer = ''apps.cozystack.io/tap-materializer''"
definition MaterializedRevisionAnnotation :: string where
  "MaterializedRevisionAnnotation = ''apps.cozystack.io/materialized-revision''"
definition MaterializeErrorAnnotation :: string where "MaterializeErrorAnnotation = ''apps.cozystack.io/tap-error''"

datatype tap_write =
    PatchSource opSource
  | CreateRegistration Package
  | DeletePackage string "regPackage option" \<comment> \<open>the name, and what is stored there at that time\<close>
  | DeleteSource string
  | UpdateRepo OCIRepository
  | TapEvent string string

datatype del_reply = DelOk | DelNotFound | DelConflict | DelError string

text \<open>The reads and calls of a pass. A Package is read from the cache (\<open>teRead\<close>, by the attempt), while
  \<open>teLive\<close> is what is stored when the deletion arrives, and \<open>teDelErr\<close> an error of that call.\<close>

record tapEnv =
  teRepo :: "OCIRepository fetched"
  teService :: "string \<Rightarrow> string \<Rightarrow> string option" \<comment> \<open>the ClusterIP of a Service\<close>
  teURL :: "string \<Rightarrow> (string \<times> string \<times> (string \<Rightarrow> string)) option" \<comment> \<open>host name, port, and the URL with another host\<close>
  teFetch :: "string \<Rightarrow> string + string"
  teTempDir :: "string + string"
  teExtract :: extractLib
  teWalk :: "fileTree \<Rightarrow> fileTree" \<comment> \<open>the files in the order of the walk\<close>
  teYaml :: "string \<Rightarrow> (string + yamlDoc) list"
  teSource :: "string \<Rightarrow> opSource fetched"
  tePatchErr :: "string \<Rightarrow> string option"
  teCreate :: "string \<Rightarrow> create_outcome"
  teSources :: "string + opSource list" \<comment> \<open>the PackageSources with the label\<close>
  teDelSourceErr :: "string \<Rightarrow> string option" \<comment> \<open>other than not found\<close>
  teRead :: "string \<Rightarrow> nat \<Rightarrow> regPackage fetched"
  teLive :: "string \<Rightarrow> nat \<Rightarrow> regPackage option"
  teDelErr :: "string \<Rightarrow> nat \<Rightarrow> string option"
  teUpdateErr :: "string option"

datatype tap_outcome = TapDone | TapRequeue int | TapError string

subsection \<open>The address of an artifact\<close>

definition parseClusterServiceHost :: "string \<Rightarrow> (string \<times> string) option" where
  "parseClusterServiceHost host0 =
     (let host = (if suffix ''.'' host0 then butlast host0 else host0); labels = splitOn CHR ''.'' host in
      if length labels < 3 \<or> labels ! 2 \<noteq> ''svc'' then None
      else if 3 < length labels \<and> joinWith CHR ''.'' (drop 3 labels) \<noteq> ''cluster.local'' then None
      else if labels ! 0 = [] \<or> labels ! 1 = [] then None
      else Some (labels ! 0, labels ! 1))"

text \<open>\<open>net.JoinHostPort\<close> puts a host with a colon in brackets.\<close>

definition joinHostPort :: "string \<Rightarrow> string \<Rightarrow> string" where
  "joinHostPort host port = (if containsChar CHR '':'' host then ''['' @ host @ '']:'' @ port else host @ '':'' @ port)"

definition resolveArtifactURL :: "tapEnv \<Rightarrow> string \<Rightarrow> string" where
  "resolveArtifactURL env rawURL =
     (case teURL env rawURL of
        None \<Rightarrow> rawURL
      | Some (hostname, port, withHost) \<Rightarrow>
          (case parseClusterServiceHost hostname of
             None \<Rightarrow> rawURL
           | Some (svc, ns) \<Rightarrow>
               (case teService env ns svc of
                  None \<Rightarrow> rawURL
                | Some ip \<Rightarrow>
                    if ip = [] \<or> ip = ''None'' then rawURL
                    else withHost (if port \<noteq> [] then joinHostPort ip port else ip))))"

subsection \<open>Collisions\<close>

definition PackageSourceName :: "tapEnv \<Rightarrow> string \<Rightarrow> string \<Rightarrow> string option" where
  "PackageSourceName env name sourceName =
     (case teSource env name of
        Missing \<Rightarrow> None
      | FetchError e \<Rightarrow> Some (''failed to check for an existing PackageSource '' @ name @ '': '' @ e)
      | Found existing \<Rightarrow>
          if Owns (osLabels existing) (osAnnotations existing) sourceName then None
          else Some (''a PackageSource named '' @ name @ '' already exists and is not managed by this repository''))"

fun firstCollision :: "tapEnv \<Rightarrow> string \<Rightarrow> opSource list \<Rightarrow> string option" where
  "firstCollision env repo [] = None"
| "firstCollision env repo (ps # rest) =
     (case PackageSourceName env (osName ps) repo of Some e \<Rightarrow> Some e | None \<Rightarrow> firstCollision env repo rest)"

subsection \<open>Removal\<close>

definition livePackage :: "regPackage \<Rightarrow> regPackage option \<Rightarrow> bool" where
  "livePackage pkg live \<longleftrightarrow> (case live of None \<Rightarrow> False | Some l \<Rightarrow> rgUID l = rgUID pkg \<and> rgVersion l = rgVersion pkg)"

definition deleteReply :: "tapEnv \<Rightarrow> string \<Rightarrow> nat \<Rightarrow> regPackage \<Rightarrow> del_reply" where
  "deleteReply env name i pkg =
     (case teDelErr env name i of
        Some e \<Rightarrow> DelError e
      | None \<Rightarrow> (case teLive env name i of
                   None \<Rightarrow> DelNotFound
                 | Some l \<Rightarrow> if livePackage pkg (Some l) then DelOk else DelConflict))"

fun deleteRegistration :: "tapEnv \<Rightarrow> string \<Rightarrow> string \<Rightarrow> nat \<Rightarrow> nat \<Rightarrow> tap_write list \<times> string option" where
  "deleteRegistration env name sourceName i left =
     (case teRead env name i of
        Missing \<Rightarrow> ([], None)
      | FetchError e \<Rightarrow> ([], Some e)
      | Found pkg \<Rightarrow>
          if \<not> ManagedRegistration (Package.truncate pkg) sourceName (pkVariant pkg) then ([], None)
          else case deleteReply env name i pkg of
            DelOk \<Rightarrow> ([DeletePackage name (teLive env name i)], None)
          | DelNotFound \<Rightarrow> ([], None)
          | DelError e \<Rightarrow> ([], Some e)
          | DelConflict \<Rightarrow>
              (case left of 0 \<Rightarrow> ([], Some ''conflict'') | Suc l \<Rightarrow> deleteRegistration env name sourceName (Suc i) l))"

definition deleteRegistrationPackage :: "tapEnv \<Rightarrow> string \<Rightarrow> string \<Rightarrow> tap_write list \<times> string option" where
  "deleteRegistrationPackage env name sourceName = deleteRegistration env name sourceName 0 4"

fun pruneTapSources :: "tapEnv \<Rightarrow> string \<Rightarrow> string list \<Rightarrow> opSource list \<Rightarrow> tap_write list \<times> string option" where
  "pruneTapSources env sourceName keep [] = ([], None)"
| "pruneTapSources env sourceName keep (ps # rest) =
     (if strOf (osAnnotations ps) tapSourceAnnotation \<noteq> sourceName \<or> osName ps \<in> set keep
      then pruneTapSources env sourceName keep rest
      else case deleteRegistrationPackage env (osName ps) sourceName of
        (ws, Some e) \<Rightarrow> (ws, Some e)
      | (ws, None) \<Rightarrow>
          (case teDelSourceErr env (osName ps) of
             Some e \<Rightarrow> (ws, Some e)
           | None \<Rightarrow>
               (case pruneTapSources env sourceName keep rest of (ws', err) \<Rightarrow> (ws @ DeleteSource (osName ps) # ws', err))))"

definition pruneMaterialized :: "tapEnv \<Rightarrow> string \<Rightarrow> string list \<Rightarrow> tap_write list \<times> string option" where
  "pruneMaterialized env sourceName keep =
     (case teSources env of Inl e \<Rightarrow> ([], Some e) | Inr items \<Rightarrow> pruneTapSources env sourceName keep items)"

subsection \<open>Materialization\<close>

definition hasDefaultVariant :: "opSource \<Rightarrow> bool" where
  "hasDefaultVariant ps \<longleftrightarrow> list_ex (\<lambda>v. ovName v = ''default'') (osVariants ps)"

text \<open>The PackageSource that is applied. The apply answers with the stored object, which has the identifier.\<close>

definition materialized :: "OCIRepository \<Rightarrow> opSource \<Rightarrow> opSource" where
  "materialized repo ps =
     (let origPath = (case osSourceRef ps of Some ref \<Rightarrow> if srPath ref \<noteq> [] then srPath ref else ''/'' | None \<Rightarrow> ''/'');
          ps' = rewriteForMaterialize ps (orName repo) (orNamespace repo) origPath in
      ps'\<lparr>osLabels := (osLabels ps')(tapLabel \<mapsto> ''true''),
          osAnnotations := (osAnnotations ps')(tapSourceAnnotation \<mapsto> orName repo)\<rparr>)"

definition registrationOf :: "OCIRepository \<Rightarrow> opSource \<Rightarrow> Package" where
  "registrationOf repo ps =
     \<lparr>pkName = osName ps, pkLabels = [tapLabel \<mapsto> ''true''], pkAnnotations = [tapSourceAnnotation \<mapsto> orName repo],
      pkOwners = [''PackageSource''], pkVariant = []\<rparr>"

definition ensureRegistration :: "tapEnv \<Rightarrow> OCIRepository \<Rightarrow> opSource \<Rightarrow> tap_write list \<times> string option" where
  "ensureRegistration env repo ps =
     (if \<not> hasDefaultVariant ps then ([TapEvent ''AppsNotAutoRegistered'' (osName ps)], None)
      else case teCreate env (osName ps) of
        Created \<Rightarrow> ([CreateRegistration (registrationOf repo ps)], None)
      | AlreadyExists \<Rightarrow> ([], None)
      | CreateError e \<Rightarrow> ([], Some e))"

fun applySources :: "tapEnv \<Rightarrow> OCIRepository \<Rightarrow> opSource list \<Rightarrow> tap_write list \<times> string option" where
  "applySources env repo [] = ([], None)"
| "applySources env repo (ps # rest) =
     (let ps' = materialized repo ps in
      case tePatchErr env (osName ps) of
        Some e \<Rightarrow> ([], Some e)
      | None \<Rightarrow>
          (case ensureRegistration env repo ps' of
             (ws, Some e) \<Rightarrow> (PatchSource ps' # ws, Some e)
           | (ws, None) \<Rightarrow> (case applySources env repo rest of (ws', err) \<Rightarrow> (PatchSource ps' # ws @ ws', err))))"

definition updateRepo :: "tapEnv \<Rightarrow> tap_write list \<Rightarrow> OCIRepository \<Rightarrow> tap_outcome \<Rightarrow> tap_write list \<times> tap_outcome" where
  "updateRepo env ws repo next =
     (case teUpdateErr env of Some e \<Rightarrow> (ws, TapError e) | None \<Rightarrow> (ws @ [UpdateRepo repo], next))"

definition failMaterialize :: "tapEnv \<Rightarrow> OCIRepository \<Rightarrow> string \<Rightarrow> tap_write list \<times> tap_outcome" where
  "failMaterialize env repo cause =
     updateRepo env [TapEvent ''MaterializeFailed'' cause]
       (repo\<lparr>orAnnotations := (orAnnotations repo)(MaterializeErrorAnnotation \<mapsto> cause)\<rparr>) TapDone"

definition materializeSources :: "tapEnv \<Rightarrow> OCIRepository \<Rightarrow> string \<Rightarrow> opSource list \<Rightarrow> tap_write list \<times> tap_outcome" where
  "materializeSources env repo revision found =
     (case firstCollision env (orName repo) found of
        Some e \<Rightarrow> failMaterialize env repo e
      | None \<Rightarrow>
          (case applySources env repo found of
             (ws, Some e) \<Rightarrow> (ws, TapError e)
           | (ws, None) \<Rightarrow>
               (case pruneMaterialized env (orName repo) (map osName found) of
                  (ws', Some e) \<Rightarrow> (ws @ ws', TapError e)
                | (ws', None) \<Rightarrow>
                    updateRepo env (ws @ ws') (repo\<lparr>orAnnotations := (orAnnotations repo)
                      (MaterializeErrorAnnotation := None, MaterializedRevisionAnnotation \<mapsto> revision)\<rparr>) TapDone)))"

definition readSources :: "tapEnv \<Rightarrow> Artifact \<Rightarrow> string + opSource list" where
  "readSources env art =
     try_bind (teFetch env (resolveArtifactURL env (afURL art))) (\<lambda>data.
     try_bind (teTempDir env) (\<lambda>tmp.
     (case verifyAndExtract (teExtract env) data (afDigest art) tmp of
        (files, Some e) \<Rightarrow> Inl ''extract artifact''
      | (files, None) \<Rightarrow> parsePackageSourcesFromTree (teYaml env) (teWalk env files))))"

definition tapWaitRequeue :: int where "tapWaitRequeue = 20 * second"

definition TapReconcile :: "tapEnv \<Rightarrow> tap_write list \<times> tap_outcome" where
  "TapReconcile env =
     (case teRepo env of
        Missing \<Rightarrow> ([], TapDone)
      | FetchError e \<Rightarrow> ([], TapError e)
      | Found repo \<Rightarrow>
          if strOf (orLabels repo) tapLabel \<noteq> ''true'' then ([], TapDone)
          else if orDeleting repo then
            (if tapFinalizer \<in> set (orFinalizers repo) then
               (case pruneMaterialized env (orName repo) [] of
                  (ws, Some e) \<Rightarrow> (ws, TapError e)
                | (ws, None) \<Rightarrow>
                    updateRepo env ws (repo\<lparr>orFinalizers := filter (\<lambda>f. f \<noteq> tapFinalizer) (orFinalizers repo)\<rparr>) TapDone)
             else ([], TapDone))
          else if tapFinalizer \<notin> set (orFinalizers repo) then
            updateRepo env [] (repo\<lparr>orFinalizers := orFinalizers repo @ [tapFinalizer]\<rparr>) (TapRequeue second)
          else (case orArtifact repo of
            None \<Rightarrow> ([], TapRequeue tapWaitRequeue)
          | Some art \<Rightarrow>
              if afURL art = [] \<or> afDigest art = [] then ([], TapRequeue tapWaitRequeue)
              else if strOf (orAnnotations repo) MaterializedRevisionAnnotation = afRevision art then ([], TapDone)
              else case readSources env art of
                Inl e \<Rightarrow> ([], TapError e)
              | Inr found \<Rightarrow> materializeSources env repo (afRevision art) found))"

subsection \<open>What a pass writes\<close>

text \<open>The identifier and the version of a Package determine it.\<close>

definition versionsIdentify :: "tapEnv \<Rightarrow> bool" where
  "versionsIdentify env \<longleftrightarrow>
     (\<forall>name i pkg l. teRead env name i = Found pkg \<and> teLive env name i = Some l \<and> livePackage pkg (Some l) \<longrightarrow> l = pkg)"

definition managedBy :: "string \<Rightarrow> regPackage \<Rightarrow> bool" where
  "managedBy sourceName pkg \<longleftrightarrow> ManagedRegistration (Package.truncate pkg) sourceName (pkVariant pkg)"

text \<open>No registration of the source is left under a name: none was found, or the one that was is gone.\<close>

definition registrationGone :: "tapEnv \<Rightarrow> string \<Rightarrow> string \<Rightarrow> bool" where
  "registrationGone env sourceName name \<longleftrightarrow>
     (\<exists>i. case teRead env name i of
            Missing \<Rightarrow> True
          | FetchError e \<Rightarrow> False
          | Found pkg \<Rightarrow> \<not> managedBy sourceName pkg \<or> deleteReply env name i pkg = DelOk \<or> deleteReply env name i pkg = DelNotFound)"

definition guardedWrite :: "tapEnv \<Rightarrow> OCIRepository \<Rightarrow> opSource list \<Rightarrow> tap_write list \<Rightarrow> tap_write \<Rightarrow> bool" where
  "guardedWrite env repo declared ws w \<longleftrightarrow>
     (case w of
        PatchSource ps \<Rightarrow>
          (\<exists>s \<in> set declared. ps = materialized repo s) \<and>
          (case teSource env (osName ps) of
             Missing \<Rightarrow> True | FetchError e \<Rightarrow> False | Found old \<Rightarrow> Owns (osLabels old) (osAnnotations old) (orName repo))
      | CreateRegistration pkg \<Rightarrow>
          \<not> PrivilegedConfirmed pkg \<and> (\<exists>ps. PatchSource ps \<in> set ws \<and> hasDefaultVariant ps \<and> pkg = registrationOf repo ps)
      | DeletePackage name live \<Rightarrow> (\<exists>pkg. live = Some pkg \<and> managedBy (orName repo) pkg)
      | DeleteSource name \<Rightarrow>
          (\<exists>items ps. teSources env = Inr items \<and> ps \<in> set items \<and> osName ps = name \<and>
             strOf (osAnnotations ps) tapSourceAnnotation = orName repo) \<and>
          name \<notin> osName ` set declared \<and> registrationGone env (orName repo) name
      | UpdateRepo r \<Rightarrow> orName r = orName repo \<and> (orDeleting repo \<or> tapFinalizer \<in> set (orFinalizers r))
      | TapEvent reason text \<Rightarrow> True)"

lemma guardedWrite_mono: "set ws \<subseteq> set ws' \<Longrightarrow> guardedWrite env repo declared ws w \<Longrightarrow> guardedWrite env repo declared ws' w"
  by (cases w) (auto simp: guardedWrite_def)

lemma materialized_fields:
  "osName (materialized repo s) = osName s" "osLabels (materialized repo s) tapLabel = Some ''true''"
  "osAnnotations (materialized repo s) tapSourceAnnotation = Some (orName repo)" "osVariants (materialized repo s) = osVariants s"
  "\<exists>ref. osSourceRef (materialized repo s) = Some ref \<and> srKind ref = ''OCIRepository'' \<and> srName ref = orName repo \<and>
     srNamespace ref = orNamespace repo"
  by (simp_all add: materialized_def rewriteForMaterialize_def Let_def)

lemma registration_unconfirmed: "\<not> PrivilegedConfirmed (registrationOf repo ps)"
  by (simp add: PrivilegedConfirmed_def registrationOf_def strOf_def)

lemma firstCollision_None:
  "firstCollision env repo found = None \<Longrightarrow> s \<in> set found \<Longrightarrow> PackageSourceName env (osName s) repo = None"
  by (induction found) (auto split: option.splits)

lemma PackageSourceName_None:
  "PackageSourceName env name repo = None \<longleftrightarrow>
     (case teSource env name of Missing \<Rightarrow> True | FetchError e \<Rightarrow> False | Found old \<Rightarrow> Owns (osLabels old) (osAnnotations old) repo)"
  by (simp add: PackageSourceName_def split: fetched.split)

lemma ensureRegistration_writes:
  assumes "ensureRegistration env repo ps = (ws, err)" "PatchSource ps \<in> set all" "w \<in> set ws"
  shows "guardedWrite env repo declared all w"
  using assms registration_unconfirmed
  by (auto simp: ensureRegistration_def guardedWrite_def split: if_splits create_outcome.splits)

lemma applySources_writes:
  assumes "\<forall>s \<in> set found. PackageSourceName env (osName s) (orName repo) = None" "set found \<subseteq> set declared"
    and "applySources env repo found = (ws, err)"
  shows "list_all (guardedWrite env repo declared ws) ws"
  using assms
proof (induction found arbitrary: ws err)
  case (Cons s rest)
  let ?p = "materialized repo s"
  show ?case
  proof (cases "tePatchErr env (osName s)")
    case None
    obtain ws1 e1 where one: "ensureRegistration env repo ?p = (ws1, e1)" by fastforce
    have patch: "guardedWrite env repo declared all (PatchSource ?p)" for all
      using Cons(2,3) by (auto simp: guardedWrite_def materialized_fields PackageSourceName_None)
    have first: "\<forall>w \<in> set ws1. guardedWrite env repo declared ws w" if "PatchSource ?p \<in> set ws"
      using ensureRegistration_writes [OF one that] by blast
    show ?thesis
    proof (cases e1)
      case (Some e)
      then have "ws = PatchSource ?p # ws1" using Cons(4) None one by (auto simp: Let_def)
      then show ?thesis using Cons(4) None one Some patch first by (auto simp: Let_def list_all_iff)
    next
      case none: None
      obtain ws2 e2 where two: "applySources env repo rest = (ws2, e2)" by fastforce
      have ws: "ws = PatchSource ?p # ws1 @ ws2" using Cons(4) None one none two by (simp add: Let_def)
      have "list_all (guardedWrite env repo declared ws2) ws2" using Cons(1) [OF _ _ two] Cons(2,3) by simp
      moreover have "set ws2 \<subseteq> set ws" by (auto simp: ws)
      ultimately have "\<forall>w \<in> set ws2. guardedWrite env repo declared ws w"
        using guardedWrite_mono [of ws2 ws env repo declared] by (simp add: list_all_iff)
      then show ?thesis using first patch by (auto simp: ws list_all_iff)
    qed
  qed (use Cons(4) in \<open>simp add: Let_def\<close>)
qed simp

lemma deleteReply_ok:
  assumes "versionsIdentify env" "teRead env name i = Found pkg" "deleteReply env name i pkg = DelOk"
  shows "teLive env name i = Some pkg"
  using assms by (auto simp: versionsIdentify_def deleteReply_def split: option.splits if_splits)

lemma registrationGone_found:
  assumes "teRead env name i = Found pkg"
    and "\<not> managedBy sourceName pkg \<or> deleteReply env name i pkg = DelOk \<or> deleteReply env name i pkg = DelNotFound"
  shows "registrationGone env sourceName name"
  using assms unfolding registrationGone_def by (intro exI [of _ i]) simp

lemma deleteRegistration_writes:
  assumes "versionsIdentify env" "deleteRegistration env name sourceName i left = (ws, err)"
  shows "(\<forall>w \<in> set ws. \<exists>pkg. w = DeletePackage name (Some pkg) \<and> managedBy sourceName pkg) \<and>
    (err = None \<longrightarrow> registrationGone env sourceName name)"
  using assms(2)
proof (induction left arbitrary: i ws err)
  case 0
  show ?case
  proof (cases "teRead env name i")
    case (Found pkg)
    show ?thesis
    proof (cases "managedBy sourceName pkg")
      case True
      then show ?thesis using 0 Found deleteReply_ok [OF assms(1) Found] registrationGone_found [OF Found]
        by (cases "deleteReply env name i pkg") (auto simp: managedBy_def deleteRegistration.simps [of env name sourceName i 0])
    qed (use 0 Found registrationGone_found [OF Found] in \<open>simp add: managedBy_def\<close>)
  qed (use 0 in \<open>auto simp: registrationGone_def intro!: exI [of _ i]\<close>)
next
  case (Suc left)
  show ?case
  proof (cases "teRead env name i")
    case (Found pkg)
    show ?thesis
    proof (cases "managedBy sourceName pkg")
      case True
      then show ?thesis using Suc(1) [of "Suc i" ws err] Suc(2) Found deleteReply_ok [OF assms(1) Found] registrationGone_found [OF Found]
        by (cases "deleteReply env name i pkg") (auto simp: managedBy_def deleteRegistration.simps [of env name sourceName i "Suc left"])
    qed (use Suc(2) Found registrationGone_found [OF Found] in \<open>simp add: managedBy_def\<close>)
  qed (use Suc(2) in \<open>auto simp: registrationGone_def intro!: exI [of _ i]\<close>)
qed

definition prunedWrite :: "tapEnv \<Rightarrow> string \<Rightarrow> string list \<Rightarrow> opSource list \<Rightarrow> tap_write \<Rightarrow> bool" where
  "prunedWrite env sourceName keep items w \<longleftrightarrow>
     (\<exists>name pkg. w = DeletePackage name (Some pkg) \<and> managedBy sourceName pkg) \<or>
     (\<exists>ps \<in> set items. w = DeleteSource (osName ps) \<and> strOf (osAnnotations ps) tapSourceAnnotation = sourceName \<and>
        osName ps \<notin> set keep \<and> registrationGone env sourceName (osName ps))"

lemma prunedWrite_mono: "prunedWrite env n keep items w \<Longrightarrow> prunedWrite env n keep (ps # items) w"
  by (auto simp: prunedWrite_def)

lemma pruneTapSources_writes:
  assumes "versionsIdentify env" "pruneTapSources env sourceName keep items = (ws, err)"
  shows "(\<forall>w \<in> set ws. prunedWrite env sourceName keep items w) \<and>
    (err = None \<longrightarrow> (\<forall>ps \<in> set items. strOf (osAnnotations ps) tapSourceAnnotation = sourceName \<and> osName ps \<notin> set keep \<longrightarrow>
       DeleteSource (osName ps) \<in> set ws))"
  using assms(2)
proof (induction items arbitrary: ws err)
  case (Cons ps rest)
  let ?skip = "strOf (osAnnotations ps) tapSourceAnnotation \<noteq> sourceName \<or> osName ps \<in> set keep"
  obtain ws1 e1 where one: "deleteRegistrationPackage env (osName ps) sourceName = (ws1, e1)" by fastforce
  obtain ws2 e2 where two: "pruneTapSources env sourceName keep rest = (ws2, e2)" by fastforce
  have reg: "\<forall>w \<in> set ws1. \<exists>pkg. w = DeletePackage (osName ps) (Some pkg) \<and> managedBy sourceName pkg"
    "e1 = None \<Longrightarrow> registrationGone env sourceName (osName ps)"
    using deleteRegistration_writes [OF assms(1) one [unfolded deleteRegistrationPackage_def]] by blast+
  have first: "\<forall>w \<in> set ws1. prunedWrite env sourceName keep (ps # rest) w" using reg(1) by (auto simp: prunedWrite_def)
  have later: "\<forall>w \<in> set ws2. prunedWrite env sourceName keep (ps # rest) w" using Cons(1) [OF two] prunedWrite_mono by blast
  show ?case
  proof (cases ?skip)
    case True
    then have "ws2 = ws" "e2 = err" using Cons(2) two by auto
    then show ?thesis using True later Cons(1) [OF two] by auto
  next
    case False
    have step: "pruneTapSources env sourceName keep (ps # rest) = (case e1 of Some e \<Rightarrow> (ws1, Some e) | None \<Rightarrow>
       (case teDelSourceErr env (osName ps) of Some e \<Rightarrow> (ws1, Some e) | None \<Rightarrow> (ws1 @ DeleteSource (osName ps) # ws2, e2)))"
      using False by (simp add: one two split: option.split)
    note go = Cons(2) [unfolded step]
    show ?thesis
    proof (cases e1)
      case none: None
      show ?thesis
      proof (cases "teDelSourceErr env (osName ps)")
        case None
        have "prunedWrite env sourceName keep (ps # rest) (DeleteSource (osName ps))"
          using False reg(2) [OF none] by (auto simp: prunedWrite_def)
        then show ?thesis using go none None first later Cons(1) [OF two] by auto
      qed (use go none first in auto)
    qed (use go first in auto)
  qed
qed simp

definition releasesRepo :: "tap_write \<Rightarrow> bool" where
  "releasesRepo w \<longleftrightarrow> (case w of UpdateRepo r \<Rightarrow> tapFinalizer \<notin> set (orFinalizers r) | _ \<Rightarrow> False)"

lemma pruneMaterialized_writes:
  assumes "versionsIdentify env" "pruneMaterialized env (orName repo) (map osName declared) = (ws, err)"
  shows "list_all (guardedWrite env repo declared all) ws \<and> \<not> list_ex releasesRepo ws \<and>
    (err = None \<longrightarrow> (\<exists>items. teSources env = Inr items \<and> (\<forall>ps \<in> set items.
       strOf (osAnnotations ps) tapSourceAnnotation = orName repo \<and> osName ps \<notin> set (map osName declared) \<longrightarrow>
       DeleteSource (osName ps) \<in> set ws)))"
proof (cases "teSources env")
  case (Inr items)
  have "guardedWrite env repo declared all w" if "prunedWrite env (orName repo) (map osName declared) items w" for w
    using that by (auto simp: prunedWrite_def guardedWrite_def Inr)
  moreover have "\<not> releasesRepo w" if "prunedWrite env (orName repo) (map osName declared) items w" for w
    using that by (auto simp: prunedWrite_def releasesRepo_def)
  ultimately show ?thesis
    using pruneTapSources_writes [OF assms(1), of "orName repo" "map osName declared" items ws err] assms(2)
    by (auto simp: pruneMaterialized_def Inr list_all_iff list_ex_iff)
qed (use assms(2) in \<open>auto simp: pruneMaterialized_def\<close>)

text \<open>The sources that an artifact declares, read only from data with the digest of the artifact.\<close>

definition declaredBy :: "tapEnv \<Rightarrow> OCIRepository \<Rightarrow> opSource list \<Rightarrow> bool" where
  "declaredBy env repo declared \<longleftrightarrow>
     (\<exists>art data tmp files. orArtifact repo = Some art \<and> teFetch env (resolveArtifactURL env (afURL art)) = Inr data \<and>
        afDigest art = ''sha256:'' @ elSha256 (teExtract env) data \<and>
        verifyAndExtract (teExtract env) data (afDigest art) tmp = (files, None) \<and>
        parsePackageSourcesFromTree (teYaml env) (teWalk env files) = Inr declared)"

lemma readSources_declared:
  assumes "readSources env art = Inr found" "orArtifact repo = Some art"
  shows "declaredBy env repo found"
proof -
  obtain data tmp where d: "teFetch env (resolveArtifactURL env (afURL art)) = Inr data" "teTempDir env = Inr tmp"
    using assms(1) by (auto simp: readSources_def try_bind_def split: sum.splits)
  obtain files e where f: "verifyAndExtract (teExtract env) data (afDigest art) tmp = (files, e)" by fastforce
  have "e = None" "parsePackageSourcesFromTree (teYaml env) (teWalk env files) = Inr found"
    using assms(1) by (auto simp: readSources_def try_bind_def d f split: option.splits)
  then show ?thesis using d(1) f assms(2)
    by (auto simp: declaredBy_def verifyAndExtract_def Let_def split: if_splits)
qed

definition bookkeeping :: "tap_write \<Rightarrow> bool" where
  "bookkeeping w \<longleftrightarrow> (case w of UpdateRepo r \<Rightarrow> True | TapEvent reason msg \<Rightarrow> True | _ \<Rightarrow> False)"

definition collides :: "tapEnv \<Rightarrow> OCIRepository \<Rightarrow> opSource list \<Rightarrow> bool" where
  "collides env repo declared \<longleftrightarrow> list_ex (\<lambda>s. PackageSourceName env (osName s) (orName repo) \<noteq> None) declared"

lemma firstCollision_collides: "firstCollision env (orName repo) found = None \<longleftrightarrow> \<not> collides env repo found"
  by (induction found) (auto simp: collides_def split: option.splits)

lemma updateRepo_guarded:
  assumes "updateRepo env ws r out = (ws', out')" "list_all (guardedWrite env repo declared ws) ws" "orName r = orName repo"
    and "orDeleting repo \<or> tapFinalizer \<in> set (orFinalizers r)"
  shows "list_all (guardedWrite env repo declared ws') ws'"
proof -
  have sub: "set ws \<subseteq> set ws'" "set ws' \<subseteq> insert (UpdateRepo r) (set ws)"
    using assms(1) by (auto simp: updateRepo_def split: option.splits)
  have "guardedWrite env repo declared ws' (UpdateRepo r)" using assms(3,4) by (simp add: guardedWrite_def)
  then show ?thesis using assms(2) sub guardedWrite_mono [OF sub(1)] by (auto simp: list_all_iff)
qed

lemma materializeSources_writes:
  assumes "versionsIdentify env" "materializeSources env repo revision found = (ws, out)" "tapFinalizer \<in> set (orFinalizers repo)"
  shows "list_all (guardedWrite env repo found ws) ws \<and> (collides env repo found \<longrightarrow> list_all bookkeeping ws)"
proof (cases "firstCollision env (orName repo) found")
  case (Some e)
  have fail: "failMaterialize env repo e = (ws, out)" using assms(2) Some by (simp add: materializeSources_def)
  then have "list_all bookkeeping ws"
    by (auto simp: failMaterialize_def updateRepo_def bookkeeping_def split: option.splits)
  moreover have "list_all (guardedWrite env repo found ws) ws"
    by (rule updateRepo_guarded [OF fail [unfolded failMaterialize_def]]) (simp_all add: guardedWrite_def assms(3))
  ultimately show ?thesis by simp
next
  case None
  then have free: "\<not> collides env repo found" by (simp add: firstCollision_collides)
  obtain ws1 e1 where one: "applySources env repo found = (ws1, e1)" by fastforce
  obtain ws2 e2 where two: "pruneMaterialized env (orName repo) (map osName found) = (ws2, e2)" by fastforce
  have "\<forall>s \<in> set found. PackageSourceName env (osName s) (orName repo) = None" using firstCollision_None [OF None] by blast
  from applySources_writes [OF this subset_refl one] have a: "list_all (guardedWrite env repo found ws1) ws1" .
  have b: "list_all (guardedWrite env repo found (ws1 @ ws2)) ws2" using pruneMaterialized_writes [OF assms(1) two] by blast
  have "list_all (guardedWrite env repo found (ws1 @ ws2)) ws1"
    using a guardedWrite_mono [of ws1 "ws1 @ ws2" env repo found] by (simp add: list_all_iff)
  with b have ab: "list_all (guardedWrite env repo found (ws1 @ ws2)) (ws1 @ ws2)" by simp
  have "list_all (guardedWrite env repo found ws) ws"
  proof (cases "e1 = None \<and> e2 = None")
    case True
    show ?thesis
      using assms(2) None one two True
      by (simp add: materializeSources_def) (erule updateRepo_guarded [OF _ ab], simp_all add: assms(3))
  next
    case False
    then have "ws = ws1 \<or> ws = ws1 @ ws2" using assms(2) None one two
      by (cases e1; cases e2) (simp_all add: materializeSources_def)
    then show ?thesis using a ab by auto
  qed
  then show ?thesis using free by simp
qed

lemma applySources_done:
  "applySources env repo found = (ws, None) \<Longrightarrow> s \<in> set found \<Longrightarrow> PatchSource (materialized repo s) \<in> set ws \<and>
     (hasDefaultVariant s \<longrightarrow> CreateRegistration (registrationOf repo s) \<in> set ws \<or> teCreate env (osName s) = AlreadyExists)"
proof (induction found arbitrary: ws)
  case (Cons f rest)
  have none: "tePatchErr env (osName f) = None" using Cons(2) by (auto simp: Let_def split: option.splits)
  obtain ws1 e1 where one: "ensureRegistration env repo (materialized repo f) = (ws1, e1)" by fastforce
  obtain ws2 e2 where two: "applySources env repo rest = (ws2, e2)" by fastforce
  have e: "e1 = None" "e2 = None" "ws = PatchSource (materialized repo f) # ws1 @ ws2"
    using Cons(2) none one two by (auto simp: Let_def split: option.splits)
  have reg: "registrationOf repo (materialized repo f) = registrationOf repo f" "hasDefaultVariant (materialized repo f) = hasDefaultVariant f"
    by (simp_all add: registrationOf_def materialized_fields hasDefaultVariant_def)
  have "hasDefaultVariant f \<longrightarrow> CreateRegistration (registrationOf repo f) \<in> set ws1 \<or> teCreate env (osName f) = AlreadyExists"
    using one e(1) by (auto simp: ensureRegistration_def reg materialized_fields split: create_outcome.splits)
  then show ?case using Cons(1) [OF two [unfolded e(2)]] Cons(3) e(3) by auto
qed simp

text \<open>What a pass that is not to be repeated has done with the declared sources.\<close>

definition materializedAll :: "tapEnv \<Rightarrow> OCIRepository \<Rightarrow> string \<Rightarrow> opSource list \<Rightarrow> tap_write list \<Rightarrow> bool" where
  "materializedAll env repo revision declared ws \<longleftrightarrow>
     (\<forall>s \<in> set declared. PatchSource (materialized repo s) \<in> set ws \<and>
        (hasDefaultVariant s \<longrightarrow> CreateRegistration (registrationOf repo s) \<in> set ws \<or> teCreate env (osName s) = AlreadyExists)) \<and>
     (\<exists>items. teSources env = Inr items \<and> (\<forall>ps \<in> set items.
        strOf (osAnnotations ps) tapSourceAnnotation = orName repo \<and> osName ps \<notin> osName ` set declared \<longrightarrow>
        DeleteSource (osName ps) \<in> set ws)) \<and>
     (\<exists>r. UpdateRepo r \<in> set ws \<and> orAnnotations r MaterializedRevisionAnnotation = Some revision \<and>
        orAnnotations r MaterializeErrorAnnotation = None)"

definition refusedAll :: "OCIRepository \<Rightarrow> tap_write list \<Rightarrow> bool" where
  "refusedAll repo ws \<longleftrightarrow> (\<exists>cause. ws = [TapEvent ''MaterializeFailed'' cause,
     UpdateRepo (repo\<lparr>orAnnotations := (orAnnotations repo)(MaterializeErrorAnnotation \<mapsto> cause)\<rparr>)])"

lemma materializeSources_done:
  assumes "versionsIdentify env" "materializeSources env repo revision found = (ws, TapDone)"
  shows "if collides env repo found then refusedAll repo ws else materializedAll env repo revision found ws"
proof (cases "firstCollision env (orName repo) found")
  case (Some e)
  then have "collides env repo found" using firstCollision_collides [of env repo found] by simp
  then show ?thesis using assms(2) Some
    by (auto simp: materializeSources_def failMaterialize_def updateRepo_def refusedAll_def split: option.splits)
next
  case None
  then have free: "\<not> collides env repo found" by (simp add: firstCollision_collides)
  obtain ws1 e1 where one: "applySources env repo found = (ws1, e1)" by fastforce
  obtain ws2 e2 where two: "pruneMaterialized env (orName repo) (map osName found) = (ws2, e2)" by fastforce
  have e: "e1 = None" "e2 = None" "ws = (ws1 @ ws2) @ [UpdateRepo (repo\<lparr>orAnnotations := (orAnnotations repo)
      (MaterializeErrorAnnotation := None, MaterializedRevisionAnnotation \<mapsto> revision)\<rparr>)]"
    using assms(2) None one two by (auto simp: materializeSources_def updateRepo_def split: option.splits)
  have ne: "MaterializeErrorAnnotation \<noteq> MaterializedRevisionAnnotation"
    by (simp add: MaterializeErrorAnnotation_def MaterializedRevisionAnnotation_def)
  have "\<exists>items. teSources env = Inr items \<and> (\<forall>ps \<in> set items.
      strOf (osAnnotations ps) tapSourceAnnotation = orName repo \<and> osName ps \<notin> osName ` set found \<longrightarrow> DeleteSource (osName ps) \<in> set ws2)"
    using pruneMaterialized_writes [OF assms(1) two, of "[]"] e(2) by auto
  then have "materializedAll env repo revision found ws"
    using applySources_done [OF one [unfolded e(1)]] ne unfolding materializedAll_def e(3) by auto
  then show ?thesis using free by simp
qed

text \<open>The sources a repository declares: those of its artifact, if it has one that can be read. They depend
  on what is read only, not on what the pass does. A repository is ready when there is a new artifact
  to materialize.\<close>

definition declaredOf :: "tapEnv \<Rightarrow> OCIRepository \<Rightarrow> opSource list option" where
  "declaredOf env repo =
     (case orArtifact repo of
        None \<Rightarrow> None
      | Some art \<Rightarrow> (case readSources env art of Inl e \<Rightarrow> None | Inr found \<Rightarrow> Some found))"

definition readyArtifact :: "OCIRepository \<Rightarrow> Artifact \<Rightarrow> bool" where
  "readyArtifact repo art \<longleftrightarrow> strOf (orLabels repo) tapLabel = ''true'' \<and> \<not> orDeleting repo \<and> tapFinalizer \<in> set (orFinalizers repo) \<and>
     orArtifact repo = Some art \<and> afURL art \<noteq> [] \<and> afDigest art \<noteq> [] \<and>
     strOf (orAnnotations repo) MaterializedRevisionAnnotation \<noteq> afRevision art"

lemma declaredOf_declaredBy: "declaredOf env repo = Some d \<Longrightarrow> declaredBy env repo d"
  using readSources_declared by (auto simp: declaredOf_def split: option.splits sum.splits)

lemma TapReconcile_ready:
  assumes "teRepo env = Found repo" "readyArtifact repo art"
  shows "TapReconcile env = (case readSources env art of Inl e \<Rightarrow> ([], TapError e)
    | Inr found \<Rightarrow> materializeSources env repo (afRevision art) found)"
  using assms by (simp add: TapReconcile_def readyArtifact_def)

lemma TapReconcile_waiting:
  assumes "teRepo env = Found repo" "\<not> orDeleting repo" "\<And>art. \<not> readyArtifact repo art" "TapReconcile env = (ws, outcome)"
  shows "ws = [] \<or> ws = [UpdateRepo (repo\<lparr>orFinalizers := orFinalizers repo @ [tapFinalizer]\<rparr>)]"
  using assms
  by (cases "orArtifact repo") (auto simp: TapReconcile_def readyArtifact_def updateRepo_def split: if_splits option.splits)

text \<open>A pass over a repository that is being deleted.\<close>

lemma TapReconcile_deleting:
  assumes "teRepo env = Found repo" "versionsIdentify env" "TapReconcile env = (ws, outcome)" "orDeleting repo"
  shows "list_all (guardedWrite env repo [] ws) ws \<and>
    (list_ex releasesRepo ws \<longrightarrow> (\<exists>items. teSources env = Inr items \<and>
       (\<forall>ps \<in> set items. strOf (osAnnotations ps) tapSourceAnnotation = orName repo \<longrightarrow> DeleteSource (osName ps) \<in> set ws)))"
proof (cases "ws = []")
  case False
  note go = assms(3) [unfolded TapReconcile_def assms(1) fetched.case]
  have label: "strOf (orLabels repo) tapLabel = ''true''" using go False by (auto split: if_splits)
  obtain ws1 e1 where prune: "pruneMaterialized env (orName repo) (map osName ([] :: opSource list)) = (ws1, e1)" by fastforce
  note pruned = pruneMaterialized_writes [OF assms(2) prune]
  have fin: "tapFinalizer \<in> set (orFinalizers repo)" using go label assms(4) False by (auto split: if_splits)
  have "list_all (guardedWrite env repo [] ws) ws \<and> (list_ex releasesRepo ws \<longrightarrow> e1 = None \<and> set ws1 \<subseteq> set ws)"
  proof (cases e1)
    case None
    have "updateRepo env ws1 (repo\<lparr>orFinalizers := filter (\<lambda>f. f \<noteq> tapFinalizer) (orFinalizers repo)\<rparr>) TapDone = (ws, outcome)"
      using go label assms(4) fin prune None by simp
    from updateRepo_guarded [OF this] this show ?thesis using pruned assms(4) None
      by (auto simp: updateRepo_def split: option.splits)
  next
    case (Some e)
    then have "ws = ws1" using go label assms(4) fin prune by simp
    moreover have "\<not> list_ex releasesRepo ws1" using pruned by blast
    ultimately show ?thesis using pruned by simp
  qed
  moreover have "\<exists>items. teSources env = Inr items \<and>
      (\<forall>ps \<in> set items. strOf (osAnnotations ps) tapSourceAnnotation = orName repo \<longrightarrow> DeleteSource (osName ps) \<in> set ws)"
    if "e1 = None" "set ws1 \<subseteq> set ws" using pruned that by (simp add: subset_iff) blast
  ultimately show ?thesis by blast
qed simp

lemma guarded_live_keeps:
  "list_all (guardedWrite env repo declared ws) ws \<Longrightarrow> \<not> orDeleting repo \<Longrightarrow> \<not> list_ex releasesRepo ws"
  by (auto simp: list_ex_iff list_all_iff releasesRepo_def guardedWrite_def split: tap_write.splits)

lemma guarded_finalizer:
  "list_all (guardedWrite env repo d [UpdateRepo (repo\<lparr>orFinalizers := orFinalizers repo @ [tapFinalizer]\<rparr>)])
     [UpdateRepo (repo\<lparr>orFinalizers := orFinalizers repo @ [tapFinalizer]\<rparr>)]"
  by (simp add: guardedWrite_def)

text \<open>A pass over a live repository.\<close>

lemma TapReconcile_live:
  assumes "teRepo env = Found repo" "versionsIdentify env" "TapReconcile env = (ws, outcome)" "\<not> orDeleting repo"
  shows "\<not> list_ex releasesRepo ws \<and>
    (\<forall>declared. declaredOf env repo = Some declared \<longrightarrow> list_all (guardedWrite env repo declared ws) ws) \<and>
    (declaredOf env repo = None \<or> (\<forall>art. \<not> readyArtifact repo art) \<or> collides env repo (the (declaredOf env repo)) \<longrightarrow>
       list_all bookkeeping ws) \<and>
    (\<forall>art. readyArtifact repo art \<and> outcome = TapDone \<longrightarrow> (\<exists>declared. declaredOf env repo = Some declared \<and>
       (if collides env repo declared then refusedAll repo ws else materializedAll env repo (afRevision art) declared ws)))"
proof (cases "\<exists>art. readyArtifact repo art")
  case True
  then obtain art where art: "readyArtifact repo art" by blast
  have a: "orArtifact repo = Some art" "tapFinalizer \<in> set (orFinalizers repo)" using art by (simp_all add: readyArtifact_def)
  then have same: "readyArtifact repo art' \<Longrightarrow> art' = art" for art' by (simp add: readyArtifact_def)
  note run = assms(3) [unfolded TapReconcile_ready [OF assms(1) art]]
  show ?thesis
  proof (cases "readSources env art")
    case (Inl e)
    then show ?thesis using run a by (auto simp: declaredOf_def)
  next
    case (Inr found)
    then have d: "declaredOf env repo = Some found" "materializeSources env repo (afRevision art) found = (ws, outcome)"
      using run a by (simp_all add: declaredOf_def)
    note w = materializeSources_writes [OF assms(2) d(2) a(2)]
    have "\<forall>art'. readyArtifact repo art' \<and> outcome = TapDone \<longrightarrow>
        (if collides env repo found then refusedAll repo ws else materializedAll env repo (afRevision art') found ws)"
      using materializeSources_done [OF assms(2)] d(2) same by blast
    then show ?thesis using w guarded_live_keeps [OF conjunct1 [OF w] assms(4)] d(1) True by auto
  qed
next
  case False
  then have "ws = [] \<or> ws = [UpdateRepo (repo\<lparr>orFinalizers := orFinalizers repo @ [tapFinalizer]\<rparr>)]"
    using TapReconcile_waiting [OF assms(1,4) _ assms(3)] by blast
  then show ?thesis using False guarded_finalizer [of env repo] by (auto simp: bookkeeping_def releasesRepo_def)
qed


subsection \<open>An example\<close>

text \<open>A tap whose new artifact declares the source db and no longer the source old that it made before.\<close>

definition demoTapSource :: opSource where
  "demoTapSource = demoBaseSource\<lparr>osName := ''db'', osUID := []\<rparr>"

definition demoOldSource :: opSource where
  "demoOldSource = demoBaseSource\<lparr>osName := ''old'', osLabels := [tapLabel \<mapsto> ''true''], osAnnotations := [tapSourceAnnotation \<mapsto> ''shop'']\<rparr>"

definition demoRegistration :: regPackage where
  "demoRegistration = \<lparr>pkName = ''old'', pkLabels = [tapLabel \<mapsto> ''true''], pkAnnotations = [tapSourceAnnotation \<mapsto> ''shop''],
     pkOwners = [''PackageSource''], pkVariant = [], rgUID = ''7'', rgVersion = ''1''\<rparr>"

definition demoRepo :: OCIRepository where
  "demoRepo = \<lparr>orName = ''shop'', orNamespace = ''cozy-public'', orLabels = [tapLabel \<mapsto> ''true''], orAnnotations = Map.empty,
     orDeleting = False, orFinalizers = [tapFinalizer],
     orArtifact = Some \<lparr>afURL = ''http://flux.cozy-fluxcd.svc/a'', afDigest = ''sha256:d'', afRevision = ''2''\<rparr>\<rparr>"

definition demoTapEnv :: tapEnv where
  "demoTapEnv = \<lparr>teRepo = Found demoRepo,
     teService = (\<lambda>ns svc. if ns = ''cozy-fluxcd'' \<and> svc = ''flux'' then Some ''10.0.0.1'' else None),
     teURL = (\<lambda>u. Some (''flux.cozy-fluxcd.svc'', [], \<lambda>h. ''http://'' @ h @ ''/a'')),
     teFetch = (\<lambda>u. if u = ''http://10.0.0.1/a'' then Inr ''bytes'' else Inl ''no such host''), teTempDir = Inr ''/tmp/t'',
     teExtract = \<lparr>elSha256 = (\<lambda>d. ''d''),
       elGzip = (\<lambda>d. Inr [Inr \<lparr>teName = ''db.yaml'', teType = TypeReg, teSize = 1, teContent = ''x''\<rparr>]),
       elMkdir = (\<lambda>p. None), elWrite = (\<lambda>p. None)\<rparr>,
     teWalk = (\<lambda>fs. fs), teYaml = (\<lambda>c. [Inr (SourceDoc demoTapSource)]), teSource = (\<lambda>n. Missing), tePatchErr = (\<lambda>n. None),
     teCreate = (\<lambda>n. Created), teSources = Inr [demoOldSource], teDelSourceErr = (\<lambda>n. None),
     teRead = (\<lambda>n i. Found demoRegistration), teLive = (\<lambda>n i. Some demoRegistration), teDelErr = (\<lambda>n i. None), teUpdateErr = None\<rparr>"

lemmas demoTap_defs = demoTapSource_def demoOldSource_def demoRegistration_def demoRepo_def demoTapEnv_def demoBaseSource_def

lemma demoTap_url: "resolveArtifactURL demoTapEnv u = ''http://10.0.0.1/a''"
  by (simp add: resolveArtifactURL_def demoTapEnv_def parseClusterServiceHost_def suffix_def joinHostPort_def)

lemma demoTap_read: "readSources demoTapEnv \<lparr>afURL = u, afDigest = ''sha256:d'', afRevision = r\<rparr> = Inr [demoTapSource]"
proof -
  have "verifyAndExtract (teExtract demoTapEnv) d ''sha256:d'' ''/tmp/t'' = ([(''/tmp/t/db.yaml'', ''x'')], None)" for d
    by (simp add: demoTapEnv_def verifyAndExtract_def Let_def extractLoop.simps) code_simp
  then show ?thesis
    by (simp add: readSources_def demoTap_url try_bind_def) (simp add: demoTapEnv_def suffix_def)
qed

lemma demoTap_run:
  "TapReconcile demoTapEnv =
     ([PatchSource (materialized demoRepo demoTapSource), CreateRegistration (registrationOf demoRepo demoTapSource),
       DeletePackage ''old'' (Some demoRegistration), DeleteSource ''old'',
       UpdateRepo (demoRepo\<lparr>orAnnotations := [MaterializedRevisionAnnotation \<mapsto> ''2'']\<rparr>)], TapDone)"
proof -
  have parts: "teRepo demoTapEnv = Found demoRepo" "teSource demoTapEnv n = Missing" "tePatchErr demoTapEnv n = None"
    "teCreate demoTapEnv n = Created" "teSources demoTapEnv = Inr [demoOldSource]" "teDelSourceErr demoTapEnv n = None"
    "teRead demoTapEnv n i = Found demoRegistration" "teUpdateErr demoTapEnv = None" for n i
    by (simp_all add: demoTapEnv_def)
  have managed: "ManagedRegistration (Package.truncate demoRegistration) ''shop'' (pkVariant demoRegistration)"
    by (simp add: demoRegistration_def ManagedRegistration_def Owns_def strOf_def Package.truncate_def)
  have reply: "deleteReply demoTapEnv ''old'' i demoRegistration = DelOk" "teLive demoTapEnv n i = Some demoRegistration" for n i
    by (simp_all add: demoTapEnv_def deleteReply_def livePackage_def)
  have old: "deleteRegistrationPackage demoTapEnv ''old'' ''shop'' = ([DeletePackage ''old'' (Some demoRegistration)], None)"
    unfolding deleteRegistrationPackage_def deleteRegistration.simps [of demoTapEnv "''old''" "''shop''" 0 4] by (simp add: parts managed reply)
  have names: "osName demoTapSource = ''db''" "osName demoOldSource = ''old''" "strOf (osAnnotations demoOldSource) tapSourceAnnotation = ''shop''"
    "hasDefaultVariant (materialized repo demoTapSource)" for repo
    by (simp_all add: demoTap_defs strOf_def hasDefaultVariant_def materialized_fields)
  have repo: "orName demoRepo = ''shop''" "strOf (orLabels demoRepo) tapLabel = ''true''" "\<not> orDeleting demoRepo"
    "tapFinalizer \<in> set (orFinalizers demoRepo)" "orAnnotations demoRepo = Map.empty"
    "orArtifact demoRepo = Some \<lparr>afURL = ''http://flux.cozy-fluxcd.svc/a'', afDigest = ''sha256:d'', afRevision = ''2''\<rparr>"
    by (simp_all add: demoRepo_def strOf_def)
  have reg: "registrationOf demoRepo (materialized demoRepo demoTapSource) = registrationOf demoRepo demoTapSource"
    by (simp add: registrationOf_def materialized_fields)
  have "materializeSources demoTapEnv demoRepo ''2'' [demoTapSource] =
     ([PatchSource (materialized demoRepo demoTapSource), CreateRegistration (registrationOf demoRepo demoTapSource),
       DeletePackage ''old'' (Some demoRegistration), DeleteSource ''old'',
       UpdateRepo (demoRepo\<lparr>orAnnotations := [MaterializedRevisionAnnotation \<mapsto> ''2'']\<rparr>)], TapDone)"
    by (simp add: materializeSources_def PackageSourceName_def parts Let_def ensureRegistration_def names materialized_fields reg
        pruneMaterialized_def repo old updateRepo_def)
  moreover have "strOf Map.empty k = []" for k by (simp add: strOf_def)
  ultimately show ?thesis by (simp add: TapReconcile_def parts repo demoTap_read)
qed


text \<open>Once the revision of the artifact is the one that was stamped, a pass does nothing: the error of a later
  revision that was refused in between stays on the repository when the artifact goes back.\<close>

lemma stamped_revision_keeps_error:
  assumes "teRepo env = Found repo" "orArtifact repo = Some art" "\<not> orDeleting repo" "tapFinalizer \<in> set (orFinalizers repo)"
    and "orAnnotations repo MaterializedRevisionAnnotation = Some (afRevision art)"
    and "orAnnotations repo MaterializeErrorAnnotation = Some cause"
  shows "fst (TapReconcile env) = []"
  using assms by (simp add: TapReconcile_def strOf_def)

end
