(* ===== verification/Lineage.thy ===== *)
theory Lineage
  imports Registry_Common
begin

text \<open>
  The ownership walk (pkg/lineage): from an object over its owner references, or over the HelmRelease that its
  label names, to the applications that stand behind it. The walk keeps the identifiers it has visited and
  reads through a cache of objects with a time to live. What the API server answers, the mapping of kinds
  to scopes, the clock and the order of Go's map iteration are arguments; the walk recurses with fuel, and
  is compared with a plain depth-first search without a cache.
\<close>

subsection \<open>Objects\<close>

record ObjectID =
  oiVersion :: string
  oiKind :: string
  oiNamespace :: string
  oiName :: string

record ownerRef =
  owVersion :: string
  owKind :: string
  owName :: string

text \<open>An object as far as the walk and the webhook read it; \<open>uoRelease\<close> tells whether it converts to a
  HelmRelease.\<close>

record uobj =
  uoID :: ObjectID
  uoOwners :: "ownerRef list"
  uoLabels :: "string \<rightharpoonup> string"
  uoAnnotations :: "string \<rightharpoonup> string"
  uoScheduler :: string
  uoRelease :: bool

definition HRAPIVersion :: string where "HRAPIVersion = ''helm.toolkit.fluxcd.io/v2''"
definition HRKind :: string where "HRKind = ''HelmRelease''"
definition HRLabel :: string where "HRLabel = ''helm.toolkit.fluxcd.io/name''"

definition objectID :: "string \<Rightarrow> string \<Rightarrow> string \<Rightarrow> string \<Rightarrow> ObjectID" where
  "objectID v k ns name = \<lparr>oiVersion = v, oiKind = k, oiNamespace = ns, oiName = name\<rparr>"

subsection \<open>The cache\<close>

record cacheEntry =
  ceObject :: uobj
  ceExpires :: int

record ObjectCache =
  ocTTL :: int
  ocItems :: "(ObjectID \<times> cacheEntry) list"

definition evictionThreshold :: nat where "evictionThreshold = 4096"
definition evictionSampleSize :: nat where "evictionSampleSize = 64"

definition NewObjectCache :: "int \<Rightarrow> ObjectCache option" where
  "NewObjectCache ttl = (if ttl \<le> 0 then None else Some \<lparr>ocTTL = ttl, ocItems = []\<rparr>)"

text \<open>The clock gives the instant of its n-th reading.\<close>

definition cacheGet :: "(nat \<Rightarrow> int) \<Rightarrow> ObjectCache option \<Rightarrow> ObjectID \<Rightarrow> nat \<Rightarrow> uobj option \<times> nat" where
  "cacheGet clock cache k t =
     (case cache of
        None \<Rightarrow> (None, t)
      | Some c \<Rightarrow> (case map_of (ocItems c) k of
                     None \<Rightarrow> (None, t)
                   | Some e \<Rightarrow> (if ceExpires e < clock t then None else Some (ceObject e), Suc t)))"

fun evictExpired :: "int \<Rightarrow> (ObjectID \<times> cacheEntry) list \<Rightarrow> (ObjectID \<times> cacheEntry) list \<Rightarrow> (ObjectID \<times> cacheEntry) list" where
  "evictExpired now [] items = items"
| "evictExpired now ((k, e) # sample) items =
     evictExpired now sample (if ceExpires e < now then AList.delete k items else items)"

definition evictExpiredSample ::
  "((ObjectID \<times> cacheEntry) list \<Rightarrow> (ObjectID \<times> cacheEntry) list) \<Rightarrow> int \<Rightarrow> nat \<Rightarrow> (ObjectID \<times> cacheEntry) list \<Rightarrow>
   (ObjectID \<times> cacheEntry) list" where
  "evictExpiredSample order now n items = (if n = 0 then items else evictExpired now (take n (order items)) items)"

definition cacheSet ::
  "(nat \<Rightarrow> int) \<Rightarrow> ((ObjectID \<times> cacheEntry) list \<Rightarrow> (ObjectID \<times> cacheEntry) list) \<Rightarrow> ObjectCache option \<Rightarrow> ObjectID \<Rightarrow> uobj \<Rightarrow>
   nat \<Rightarrow> ObjectCache option \<times> nat" where
  "cacheSet clock order cache k obj t =
     (case cache of
        None \<Rightarrow> (None, t)
      | Some c \<Rightarrow>
          let items = AList.update k \<lparr>ceObject = obj, ceExpires = clock t + ocTTL c\<rparr> (ocItems c) in
          if evictionThreshold < length items
          then (Some (c\<lparr>ocItems := evictExpiredSample order (clock (Suc t)) evictionSampleSize items\<rparr>), Suc (Suc t))
          else (Some (c\<lparr>ocItems := items\<rparr>), Suc t))"

subsection \<open>Fetching\<close>

record lineageEnv =
  leScope :: "string \<Rightarrow> string \<Rightarrow> bool option" \<comment> \<open>whether a kind is namespaced, if its version parses and it can be mapped\<close>
  leGet :: "string \<Rightarrow> string \<Rightarrow> string \<Rightarrow> string \<Rightarrow> uobj option" \<comment> \<open>version, kind, namespace, name\<close>
  leClock :: "nat \<Rightarrow> int"
  leRange :: "(ObjectID \<times> cacheEntry) list \<Rightarrow> (ObjectID \<times> cacheEntry) list"

record walkState =
  wsVisited :: "ObjectID set"
  wsCache :: "ObjectCache option"
  wsClock :: nat

definition fetch :: "lineageEnv \<Rightarrow> string \<Rightarrow> string \<Rightarrow> string \<Rightarrow> string \<Rightarrow> uobj option" where
  "fetch env v k ns name =
     (case leScope env v k of None \<Rightarrow> None | Some namespaced \<Rightarrow> leGet env v k (if namespaced then ns else []) name)"

definition getUnstructuredObject :: "lineageEnv \<Rightarrow> walkState \<Rightarrow> string \<Rightarrow> string \<Rightarrow> string \<Rightarrow> string \<Rightarrow> uobj option \<times> walkState" where
  "getUnstructuredObject env st v k ns name =
     (case cacheGet (leClock env) (wsCache st) (objectID v k ns name) (wsClock st) of
        (Some obj, t) \<Rightarrow> (Some obj, st\<lparr>wsClock := t\<rparr>)
      | (None, t) \<Rightarrow>
          (case fetch env v k ns name of
             None \<Rightarrow> (None, st\<lparr>wsClock := t\<rparr>)
           | Some obj \<Rightarrow>
               (case cacheSet (leClock env) (leRange env) (wsCache st) (objectID v k ns name) obj t of
                  (cache, t') \<Rightarrow> (Some obj, st\<lparr>wsCache := cache, wsClock := t'\<rparr>))))"

subsection \<open>The application of a HelmRelease\<close>

definition appKindKey :: string where "appKindKey = ''apps.cozystack.io/application.kind''"
definition appGroupKey :: string where "appGroupKey = ''apps.cozystack.io/application.group''"
definition appNameKey :: string where "appNameKey = ''apps.cozystack.io/application.name''"

definition trimSuffix :: "string \<Rightarrow> string \<Rightarrow> string" where
  "trimSuffix s suf = (if suffix suf s then take (length s - length suf) s else s)"

text \<open>The version, the kind and the prefix of the name.\<close>

definition mapRelease :: "(string \<rightharpoonup> string) \<Rightarrow> string \<Rightarrow> (string \<times> string \<times> string) option" where
  "mapRelease labels name =
     (case labels appKindKey of None \<Rightarrow> None | Some kind \<Rightarrow>
      (case labels appGroupKey of None \<Rightarrow> None | Some grp \<Rightarrow>
       (case labels appNameKey of None \<Rightarrow> None | Some app \<Rightarrow>
         let pre = trimSuffix name app in
         if pre @ app \<noteq> name then None else Some (grp @ ''/v1alpha1'', kind, pre))))"

definition helmRelease :: "uobj \<Rightarrow> bool" where
  "helmRelease obj \<longleftrightarrow> oiVersion (uoID obj) = HRAPIVersion \<and> oiKind (uoID obj) = HRKind \<and> uoRelease obj"

definition appOfRelease :: "lineageEnv \<Rightarrow> walkState \<Rightarrow> uobj \<Rightarrow> ObjectID option \<times> walkState" where
  "appOfRelease env st obj =
     (if \<not> helmRelease obj then (None, st)
      else case mapRelease (uoLabels obj) (oiName (uoID obj)) of
        None \<Rightarrow> (None, st)
      | Some (v, k, pre) \<Rightarrow>
          (case getUnstructuredObject env st v k (oiNamespace (uoID obj)) (trimPrefix (oiName (uoID obj)) pre) of
             (None, st') \<Rightarrow> (None, st')
           | (Some owner, st') \<Rightarrow> (Some (uoID owner), st')))"

subsection \<open>The walk\<close>

fun WalkOwnershipGraph :: "lineageEnv \<Rightarrow> nat \<Rightarrow> uobj \<Rightarrow> walkState \<Rightarrow> (ObjectID list \<times> walkState) option"
  and walkOwners :: "lineageEnv \<Rightarrow> nat \<Rightarrow> string \<Rightarrow> ownerRef list \<Rightarrow> walkState \<Rightarrow> (ObjectID list \<times> walkState) option" where
  "WalkOwnershipGraph env 0 obj st = None"
| "WalkOwnershipGraph env (Suc n) obj st =
     (if uoID obj \<in> wsVisited st then Some ([], st)
      else case walkOwners env n (oiNamespace (uoID obj)) (uoOwners obj) (st\<lparr>wsVisited := insert (uoID obj) (wsVisited st)\<rparr>) of
        None \<Rightarrow> None
      | Some (out, st1) \<Rightarrow>
          if uoOwners obj \<noteq> [] then Some (out, st1)
          else (case appOfRelease env st1 obj of
            (Some app, st2) \<Rightarrow> Some (out @ [app], st2)
          | (None, st2) \<Rightarrow>
              (case uoLabels obj HRLabel of
                 None \<Rightarrow> Some (out, st2)
               | Some name \<Rightarrow>
                   (case getUnstructuredObject env st2 HRAPIVersion HRKind (oiNamespace (uoID obj)) name of
                      (None, st3) \<Rightarrow> Some (out, st3)
                    | (Some owner, st3) \<Rightarrow>
                        (case WalkOwnershipGraph env n owner st3 of
                           None \<Rightarrow> None
                         | Some (out', st4) \<Rightarrow> Some (out @ out', st4))))))"
| "walkOwners env n ns [] st = Some ([], st)"
| "walkOwners env n ns (w # ws) st =
     (case getUnstructuredObject env st (owVersion w) (owKind w) ns (owName w) of
        (None, st1) \<Rightarrow> walkOwners env n ns ws st1
      | (Some owner, st1) \<Rightarrow>
          (case WalkOwnershipGraph env n owner st1 of
             None \<Rightarrow> None
           | Some (out, st2) \<Rightarrow>
               (case walkOwners env n ns ws st2 of None \<Rightarrow> None | Some (out', st3) \<Rightarrow> Some (out @ out', st3))))"

definition WalkOwnershipGraphWithCache :: "lineageEnv \<Rightarrow> nat \<Rightarrow> ObjectCache option \<Rightarrow> nat \<Rightarrow> uobj \<Rightarrow> (ObjectID list \<times> walkState) option" where
  "WalkOwnershipGraphWithCache env n cache t obj =
     WalkOwnershipGraph env n obj \<lparr>wsVisited = {}, wsCache = cache, wsClock = t\<rparr>"

subsection \<open>What the walk looks for\<close>

text \<open>What a reader of objects is shown for each identifier: without a cache, what the API server has.\<close>

type_synonym lineageView = "ObjectID \<Rightarrow> uobj option"

definition liveView :: "lineageEnv \<Rightarrow> lineageView" where
  "liveView env k = fetch env (oiVersion k) (oiKind k) (oiNamespace k) (oiName k)"

lemma liveView_fetch [simp]: "liveView env (objectID v k ns name) = fetch env v k ns name"
  by (simp add: liveView_def objectID_def)

text \<open>The application of an object and the objects above it, in a view.\<close>

definition appOf :: "lineageView \<Rightarrow> uobj \<Rightarrow> ObjectID option" where
  "appOf F obj =
     (if uoOwners obj \<noteq> [] \<or> \<not> helmRelease obj then None
      else case mapRelease (uoLabels obj) (oiName (uoID obj)) of
        None \<Rightarrow> None
      | Some (v, k, pre) \<Rightarrow> map_option uoID (F (objectID v k (oiNamespace (uoID obj)) (trimPrefix (oiName (uoID obj)) pre))))"

definition aboveOf :: "lineageView \<Rightarrow> uobj \<Rightarrow> uobj list" where
  "aboveOf F obj =
     (if uoOwners obj \<noteq> []
      then List.map_filter (\<lambda>w. F (objectID (owVersion w) (owKind w) (oiNamespace (uoID obj)) (owName w))) (uoOwners obj)
      else if appOf F obj \<noteq> None then []
      else case uoLabels obj HRLabel of
        None \<Rightarrow> []
      | Some name \<Rightarrow> (case F (objectID HRAPIVersion HRKind (oiNamespace (uoID obj)) name) of None \<Rightarrow> [] | Some owner \<Rightarrow> [owner]))"

inductive lineageAncestor :: "lineageView \<Rightarrow> uobj \<Rightarrow> uobj \<Rightarrow> bool" for F obj where
  lineageAncestor_self: "lineageAncestor F obj obj"
| lineageAncestor_step: "lineageAncestor F obj o1 \<Longrightarrow> o2 \<in> set (aboveOf F o1) \<Longrightarrow> lineageAncestor F obj o2"

text \<open>A depth-first search of a view, without a cache.\<close>

fun search :: "lineageView \<Rightarrow> nat \<Rightarrow> uobj \<Rightarrow> ObjectID set \<Rightarrow> (ObjectID list \<times> ObjectID set) option"
  and searchAll :: "lineageView \<Rightarrow> nat \<Rightarrow> uobj list \<Rightarrow> ObjectID set \<Rightarrow> (ObjectID list \<times> ObjectID set) option" where
  "search F 0 obj V = None"
| "search F (Suc n) obj V =
     (if uoID obj \<in> V then Some ([], V)
      else case searchAll F n (aboveOf F obj) (insert (uoID obj) V) of
        None \<Rightarrow> None
      | Some (out, V') \<Rightarrow> Some ((case appOf F obj of None \<Rightarrow> out | Some app \<Rightarrow> app # out), V'))"
| "searchAll F n [] V = Some ([], V)"
| "searchAll F n (o1 # os) V =
     (case search F n o1 V of
        None \<Rightarrow> None
      | Some (out, V1) \<Rightarrow> (case searchAll F n os V1 of None \<Rightarrow> None | Some (out', V2) \<Rightarrow> Some (out @ out', V2)))"

subsection \<open>What the cache shows\<close>

text \<open>The view through a cache at an instant: what \<open>Get\<close> answers, and the API server where it misses. An entry
  may be outdated; what is demanded is that no such entry expires between the two readings of the clock, for then the
  walk may see two different objects under one identifier.\<close>

definition cacheView :: "lineageEnv \<Rightarrow> nat \<Rightarrow> ObjectCache option \<Rightarrow> lineageView" where
  "cacheView env t cache k = (case fst (cacheGet (leClock env) cache k t) of None \<Rightarrow> liveView env k | Some obj \<Rightarrow> Some obj)"

definition steadyEntry :: "lineageEnv \<Rightarrow> nat \<Rightarrow> ObjectID \<Rightarrow> cacheEntry \<Rightarrow> bool" where
  "steadyEntry env t k e \<longleftrightarrow>
     liveView env k = Some (ceObject e) \<or> (\<forall>i \<ge> t. ceExpires e < leClock env i \<longleftrightarrow> ceExpires e < leClock env t)"

definition steadyCache :: "lineageEnv \<Rightarrow> nat \<Rightarrow> ObjectCache option \<Rightarrow> bool" where
  "steadyCache env t cache \<longleftrightarrow>
     (case cache of
        None \<Rightarrow> True
      | Some c \<Rightarrow> distinct (map fst (ocItems c)) \<and> list_all (\<lambda>(k, e). steadyEntry env t k e) (ocItems c))"

text \<open>The invariant of the walk: from a reading of the clock on, the cache shows one view.\<close>

definition cacheShows :: "lineageEnv \<Rightarrow> lineageView \<Rightarrow> nat \<Rightarrow> ObjectCache option \<Rightarrow> bool" where
  "cacheShows env F t cache \<longleftrightarrow>
     range_order (leRange env) \<and>
     (case cache of None \<Rightarrow> F = liveView env | Some c \<Rightarrow> distinct (map fst (ocItems c))) \<and>
     (\<forall>i \<ge> t. cacheView env i cache = F)"

lemma cacheView_simps:
  "cacheView env t None = liveView env"
  "cacheView env t (Some c) k =
     (case map_of (ocItems c) k of
        None \<Rightarrow> liveView env k | Some e \<Rightarrow> if ceExpires e < leClock env t then liveView env k else Some (ceObject e))"
  by (auto simp: cacheView_def cacheGet_def split: option.splits)

lemma cacheShows_later: "cacheShows env F t cache \<Longrightarrow> t \<le> t' \<Longrightarrow> cacheShows env F t' cache"
  unfolding cacheShows_def by auto

lemma steadyCache_shows:
  assumes "steadyCache env t cache" "range_order (leRange env)"
  shows "cacheShows env (cacheView env t cache) t cache"
proof (cases cache)
  case (Some c)
  have "cacheView env i cache k = cacheView env t cache k" if "i \<ge> t" for i k
  proof (cases "map_of (ocItems c) k")
    case (Some e)
    then have "steadyEntry env t k e"
      using assms(1) map_of_SomeD [OF Some] by (auto simp: steadyCache_def \<open>cache = Some c\<close> list_all_iff)
    then show ?thesis using that Some by (auto simp: steadyEntry_def cacheView_simps \<open>cache = Some c\<close>)
  qed (simp add: cacheView_simps Some)
  then have "\<forall>i \<ge> t. cacheView env i cache = cacheView env t cache" by (intro allI impI ext)
  moreover have "distinct (map fst (ocItems c))" using assms(1) by (simp add: steadyCache_def Some)
  ultimately show ?thesis using assms(2) unfolding cacheShows_def Some option.case by (intro conjI) assumption+
next
  case None
  then show ?thesis unfolding cacheShows_def None using assms(2) cacheView_simps(1) by auto
qed

lemma map_of_delete: "map_of (AList.delete k xs) = (map_of xs)(k := None)"
  by (rule ext) (simp add: delete_conv')

text \<open>An eviction takes expired entries only.\<close>

lemma evictExpired_shows:
  assumes "\<And>k e. (k, e) \<in> set sample \<Longrightarrow> map_of items k = Some e \<or> map_of items k = None" "distinct (map fst items)"
  shows "distinct (map fst (evictExpired now sample items)) \<and>
    (map_of (evictExpired now sample items) k = map_of items k \<or>
     map_of (evictExpired now sample items) k = None \<and> (\<exists>e. map_of items k = Some e \<and> ceExpires e < now))"
  using assms
proof (induction sample arbitrary: items)
  case (Cons ke sample)
  obtain k1 e1 where ke: "ke = (k1, e1)" by fastforce
  let ?items = "if ceExpires e1 < now then AList.delete k1 items else items"
  have "map_of ?items k' = Some e' \<or> map_of ?items k' = None" if "(k', e') \<in> set sample" for k' e'
    using Cons(2) [of k' e'] that by (auto simp: map_of_delete)
  moreover have "distinct (map fst ?items)" using Cons(3) by (simp add: distinct_delete)
  ultimately have ih: "distinct (map fst (evictExpired now sample ?items)) \<and>
    (map_of (evictExpired now sample ?items) k = map_of ?items k \<or>
     map_of (evictExpired now sample ?items) k = None \<and> (\<exists>e. map_of ?items k = Some e \<and> ceExpires e < now))"
    by (rule Cons(1))
  have first: "map_of items k1 = Some e1 \<or> map_of items k1 = None" using Cons(2) [of k1 e1] by (simp add: ke)
  have step: "evictExpired now (ke # sample) items = evictExpired now sample ?items" by (simp add: ke)
  show ?case unfolding step using ih first by (auto simp: map_of_delete split: if_splits)
qed simp

lemma cacheSet_shows:
  assumes "cacheShows env F t cache" "fetch env v k ns name = Some obj" "F (objectID v k ns name) = Some obj"
    and "cacheSet (leClock env) (leRange env) cache (objectID v k ns name) obj t = (cache', t')"
  shows "t \<le> t' \<and> cacheShows env F t' cache'"
proof (cases cache)
  case (Some c)
  let ?i = "objectID v k ns name" and ?e = "\<lparr>ceObject = obj, ceExpires = leClock env t + ocTTL c\<rparr>"
  let ?items = "AList.update ?i ?e (ocItems c)" and ?now = "leClock env (Suc t)"
  have ord: "range_order (leRange env)" and dist: "distinct (map fst (ocItems c))"
    and view: "\<And>i k. i \<ge> t \<Longrightarrow> cacheView env i (Some c) k = F k"
    using assms(1) by (auto simp: cacheShows_def Some)
  have dist': "distinct (map fst ?items)" using dist by (simp add: distinct_update)
  have shown: "cacheView env i (Some (c\<lparr>ocItems := ?items\<rparr>)) k = F k" if "i \<ge> t" for i k
    using view [OF that, of k] assms(2,3) by (cases "k = ?i") (simp_all add: cacheView_simps update_conv')
  have upd: "cacheShows env F t (Some (c\<lparr>ocItems := ?items\<rparr>))"
    using ord dist' shown by (simp add: cacheShows_def fun_eq_iff)
  show ?thesis
  proof (cases "evictionThreshold < length ?items")
    case True
    let ?sample = "take evictionSampleSize (leRange env ?items)"
    let ?items' = "evictExpired ?now ?sample ?items"
    have "map_of ?items k' = Some e' \<or> map_of ?items k' = None" if "(k', e') \<in> set ?sample" for k' e'
      using map_of_is_SomeI [OF dist', of k' e'] in_set_takeD [OF that] range_order_set [OF ord] by simp
    then have ev: "distinct (map fst ?items') \<and> (map_of ?items' k = map_of ?items k \<or>
        map_of ?items' k = None \<and> (\<exists>e. map_of ?items k = Some e \<and> ceExpires e < ?now))" for k
      using evictExpired_shows [OF _ dist'] by blast
    have res: "cache' = Some (c\<lparr>ocItems := ?items'\<rparr>)" "t' = Suc (Suc t)"
      using assms(4) True by (simp_all add: cacheSet_def Some Let_def evictExpiredSample_def evictionSampleSize_def)
    have "cacheView env i cache' k' = F k'" if "i \<ge> t'" for i k'
      using ev [of k'] shown [of i k'] shown [of "Suc t" k'] that unfolding res by (auto simp: cacheView_simps)
    then show ?thesis using ev ord by (simp add: cacheShows_def fun_eq_iff res)
  next
    case False
    then have "cache' = Some (c\<lparr>ocItems := ?items\<rparr>)" "t' = Suc t" using assms(4) by (simp_all add: cacheSet_def Some Let_def)
    then show ?thesis using cacheShows_later [OF upd, of "Suc t"] by simp
  qed
qed (use assms in \<open>auto simp: cacheSet_def\<close>)

lemma getUnstructuredObject_shows:
  assumes "cacheShows env F (wsClock st) (wsCache st)" "getUnstructuredObject env st v k ns name = (r, st')"
  shows "F (objectID v k ns name) = r \<and> wsVisited st' = wsVisited st \<and> wsClock st \<le> wsClock st' \<and> cacheShows env F (wsClock st') (wsCache st')"
proof -
  obtain c t where got: "cacheGet (leClock env) (wsCache st) (objectID v k ns name) (wsClock st) = (c, t)" by fastforce
  have t: "wsClock st \<le> t" using got by (auto simp: cacheGet_def split: option.splits if_splits)
  note later = cacheShows_later [OF assms(1) t]
  have F: "F (objectID v k ns name) = (case c of None \<Rightarrow> fetch env v k ns name | Some obj \<Rightarrow> Some obj)"
    using assms(1) got unfolding cacheShows_def by (metis cacheView_def fst_conv liveView_fetch order_refl)
  show ?thesis
  proof (cases c)
    case None
    show ?thesis
    proof (cases "fetch env v k ns name")
      case (Some obj)
      obtain cache' t' where set: "cacheSet (leClock env) (leRange env) (wsCache st) (objectID v k ns name) obj t = (cache', t')" by fastforce
      have st': "r = Some obj" "st' = st\<lparr>wsCache := cache', wsClock := t'\<rparr>"
        using assms(2) got None Some set by (simp_all add: getUnstructuredObject_def)
      have "F (objectID v k ns name) = Some obj" using F None Some by simp
      from cacheSet_shows [OF later Some this set] this show ?thesis using st' t by simp
    next
      case none: None
      then have "r = None" "st' = st\<lparr>wsClock := t\<rparr>" using assms(2) got None by (simp_all add: getUnstructuredObject_def)
      then show ?thesis using F None none t later by simp
    qed
  next
    case (Some obj)
    then have "r = Some obj" "st' = st\<lparr>wsClock := t\<rparr>" using assms(2) got by (simp_all add: getUnstructuredObject_def)
    then show ?thesis using F Some t later by simp
  qed
qed

lemma appOfRelease_shows:
  assumes "cacheShows env F (wsClock st) (wsCache st)" "appOfRelease env st obj = (r, st')" "uoOwners obj = []"
  shows "appOf F obj = r \<and> wsVisited st' = wsVisited st \<and> wsClock st \<le> wsClock st' \<and> cacheShows env F (wsClock st') (wsCache st')"
proof (cases "helmRelease obj")
  case True
  show ?thesis
  proof (cases "mapRelease (uoLabels obj) (oiName (uoID obj))")
    case (Some m)
    obtain v k pre where m: "m = (v, k, pre)" using prod_cases3 by blast
    obtain r1 st1 where got: "getUnstructuredObject env st v k (oiNamespace (uoID obj)) (trimPrefix (oiName (uoID obj)) pre) = (r1, st1)"
      by fastforce
    note f = getUnstructuredObject_shows [OF assms(1) got]
    have "appOf F obj = map_option uoID r1" using f True Some m assms(3) by (simp add: appOf_def)
    moreover have "r = map_option uoID r1 \<and> st' = st1" using assms(2) True Some m got
      by (cases r1) (simp_all add: appOfRelease_def)
    ultimately show ?thesis using f by simp
  qed (use assms True in \<open>auto simp: appOfRelease_def appOf_def\<close>)
qed (use assms in \<open>auto simp: appOfRelease_def appOf_def\<close>)

definition stateShows :: "lineageEnv \<Rightarrow> lineageView \<Rightarrow> nat \<Rightarrow> walkState \<Rightarrow> bool" where
  "stateShows env F t0 st \<longleftrightarrow> t0 \<le> wsClock st \<and> cacheShows env F (wsClock st) (wsCache st)"

lemma getUnstructuredObject_state:
  assumes "stateShows env F t0 st" "getUnstructuredObject env st v k ns name = (r, st')"
  shows "F (objectID v k ns name) = r \<and> wsVisited st' = wsVisited st \<and> stateShows env F t0 st'"
  using getUnstructuredObject_shows [OF _ assms(2), of F] assms(1) by (simp add: stateShows_def)

lemma appOfRelease_state:
  assumes "stateShows env F t0 st" "appOfRelease env st obj = (r, st')" "uoOwners obj = []"
  shows "appOf F obj = r \<and> wsVisited st' = wsVisited st \<and> stateShows env F t0 st'"
  using appOfRelease_shows [OF _ assms(2,3), of F] assms(1) by (simp add: stateShows_def)

text \<open>With such a cache the walk is the search of the view.\<close>

definition walked :: "lineageEnv \<Rightarrow> lineageView \<Rightarrow> nat \<Rightarrow> (ObjectID list \<times> walkState) option \<Rightarrow> (ObjectID list \<times> ObjectID set) option \<Rightarrow> bool" where
  "walked env F t0 r s \<longleftrightarrow>
     (case r of None \<Rightarrow> s = None | Some (out, st) \<Rightarrow> s = Some (out, wsVisited st) \<and> stateShows env F t0 st)"

lemma walkedE:
  assumes "walked env F t0 r s"
  obtains "r = None" "s = None" | out st where "r = Some (out, st)" "s = Some (out, wsVisited st)" "stateShows env F t0 st"
  using assms by (cases r) (auto simp: walked_def)

lemma walkOwners_searchAll:
  assumes "\<And>obj st. stateShows env F t0 st \<Longrightarrow> walked env F t0 (WalkOwnershipGraph env n obj st) (search F n obj (wsVisited st))"
    and "stateShows env F t0 st"
  shows "walked env F t0 (walkOwners env n ns ws st)
    (searchAll F n (List.map_filter (\<lambda>w. F (objectID (owVersion w) (owKind w) ns (owName w))) ws) (wsVisited st))"
  using assms(2)
proof (induction ws arbitrary: st)
  case Nil
  then show ?case by (simp add: walked_def map_filter_simps)
next
  case (Cons w ws)
  obtain r st1 where got: "getUnstructuredObject env st (owVersion w) (owKind w) ns (owName w) = (r, st1)" by fastforce
  have f: "F (objectID (owVersion w) (owKind w) ns (owName w)) = r" "wsVisited st1 = wsVisited st" "stateShows env F t0 st1"
    using getUnstructuredObject_state [OF Cons(2) got] by simp_all
  show ?case
  proof (cases r)
    case None
    then show ?thesis using Cons(1) [of st1] f got by (simp add: map_filter_simps)
  next
    case (Some owner)
    have "walked env F t0 (WalkOwnershipGraph env n owner st1) (search F n owner (wsVisited st1))" using assms(1) f by blast
    then show ?thesis
    proof (cases rule: walkedE)
      case 1
      then show ?thesis using f got Some by (simp add: map_filter_simps walked_def)
    next
      case (2 out st2)
      from Cons(1) [OF 2(3)] show ?thesis
        by (cases rule: walkedE) (use f got Some 2 in \<open>simp_all add: map_filter_simps walked_def\<close>)
    qed
  qed
qed

lemma walk_search:
  assumes "stateShows env F t0 st"
  shows "walked env F t0 (WalkOwnershipGraph env n obj st) (search F n obj (wsVisited st))"
  using assms
proof (induction n arbitrary: obj st)
  case (Suc n)
  let ?st = "st\<lparr>wsVisited := insert (uoID obj) (wsVisited st)\<rparr>" and ?ns = "oiNamespace (uoID obj)"
  show ?case
  proof (cases "uoID obj \<in> wsVisited st")
    case new: False
    have agrees: "stateShows env F t0 ?st" using Suc(2) by (simp add: stateShows_def)
    have all: "walked env F t0 (walkOwners env n ?ns (uoOwners obj) ?st)
      (searchAll F n (List.map_filter (\<lambda>w. F (objectID (owVersion w) (owKind w) ?ns (owName w))) (uoOwners obj)) (wsVisited ?st))"
      by (rule walkOwners_searchAll [OF Suc(1) agrees])
    show ?thesis
    proof (cases "uoOwners obj = []")
      case False
      then have "aboveOf F obj = List.map_filter (\<lambda>w. F (objectID (owVersion w) (owKind w) ?ns (owName w))) (uoOwners obj)"
        "appOf F obj = None" by (simp_all add: aboveOf_def appOf_def)
      with all show ?thesis
        by (elim walkedE) (use new False in \<open>simp_all add: walked_def\<close>)
    next
      case own: True
      obtain app st2 where app: "appOfRelease env ?st obj = (app, st2)" by fastforce
      have a: "appOf F obj = app" "wsVisited st2 = wsVisited ?st" "stateShows env F t0 st2"
        using appOfRelease_state [OF agrees app own] by simp_all
      have vis: "wsVisited st2 = insert (uoID obj) (wsVisited st)" using a by simp
      show ?thesis
      proof (cases "app = None \<and> uoLabels obj HRLabel \<noteq> None")
        case True
        then obtain name where name: "uoLabels obj HRLabel = Some name" by blast
        obtain r st3 where got: "getUnstructuredObject env st2 HRAPIVersion HRKind ?ns name = (r, st3)" by fastforce
        have f: "F (objectID HRAPIVersion HRKind ?ns name) = r" "wsVisited st3 = wsVisited st2" "stateShows env F t0 st3"
          using getUnstructuredObject_state [OF _ got] a by simp_all
        show ?thesis
        proof (cases r)
          case None
          then show ?thesis using new own app True name got a f by (simp add: walked_def aboveOf_def)
        next
          case (Some owner)
          from Suc(1) [OF f(3), of owner] show ?thesis
            by (cases rule: walkedE) (use new own app True name got a f Some in \<open>simp_all add: walked_def aboveOf_def\<close>)
        qed
      next
        case False
        show ?thesis
        proof (cases app)
          case None
          then have "uoLabels obj HRLabel = None" using False by simp
          then show ?thesis using new own app a None by (simp add: walked_def aboveOf_def)
        next
          case (Some i)
          then show ?thesis using new own app a by (simp add: walked_def aboveOf_def)
        qed
      qed
    qed
  qed (use Suc(2) in \<open>simp add: walked_def\<close>)
qed (simp add: walked_def)

subsection \<open>The walk is exact\<close>

lemma lineageAncestor_above: "o1 \<in> set (aboveOf F obj) \<Longrightarrow> lineageAncestor F o1 o2 \<Longrightarrow> lineageAncestor F obj o2"
  by (rotate_tac 1, induction rule: lineageAncestor.induct) (auto intro: lineageAncestor.intros)

text \<open>What a search adds to the visited identifiers: objects above the starting ones, whose own parents are
  visited in the end, and whose applications are the result.\<close>

definition explored :: "lineageView \<Rightarrow> uobj set \<Rightarrow> ObjectID set \<Rightarrow> ObjectID list \<Rightarrow> ObjectID set \<Rightarrow> uobj set \<Rightarrow> bool" where
  "explored F start V out V' E \<longleftrightarrow>
     V' = V \<union> uoID ` E \<and> uoID ` start \<subseteq> V' \<and> finite E \<and> V \<inter> uoID ` E = {} \<and>
     (\<forall>o1 \<in> E. (\<exists>o0 \<in> start. lineageAncestor F o0 o1) \<and> uoID ` set (aboveOf F o1) \<subseteq> V') \<and>
     set out = {app. \<exists>o1 \<in> E. appOf F o1 = Some app} \<and> length out = card {o1 \<in> E. appOf F o1 \<noteq> None}"

lemma exploredI:
  assumes "V' = V \<union> uoID ` E" "uoID ` start \<subseteq> V'" "finite E" "V \<inter> uoID ` E = {}"
    and "\<And>o1. o1 \<in> E \<Longrightarrow> (\<exists>o0 \<in> start. lineageAncestor F o0 o1) \<and> uoID ` set (aboveOf F o1) \<subseteq> V'"
    and "set out = {app. \<exists>o1 \<in> E. appOf F o1 = Some app}" "length out = card {o1 \<in> E. appOf F o1 \<noteq> None}"
  shows "explored F start V out V' E"
  using assms unfolding explored_def by blast

lemma exploredD:
  assumes "explored F start V out V' E"
  shows "V' = V \<union> uoID ` E" "uoID ` start \<subseteq> V'" "o1 \<in> E \<Longrightarrow> \<exists>o0 \<in> start. lineageAncestor F o0 o1"
    "o1 \<in> E \<Longrightarrow> uoID ` set (aboveOf F o1) \<subseteq> V'" "set out = {app. \<exists>o1 \<in> E. appOf F o1 = Some app}"
    "finite E" "V \<inter> uoID ` E = {}" "length out = card {o1 \<in> E. appOf F o1 \<noteq> None}"
  using assms unfolding explored_def by blast+

lemma searchAll_explored:
  assumes "\<And>o1 V out V'. search F n o1 V = Some (out, V') \<Longrightarrow> \<exists>E. explored F {o1} V out V' E"
    and "searchAll F n os V = Some (out, V')"
  shows "\<exists>E. explored F (set os) V out V' E"
  using assms(2)
proof (induction os arbitrary: V out)
  case (Cons o1 os)
  obtain out1 V1 out2 where s: "search F n o1 V = Some (out1, V1)" "searchAll F n os V1 = Some (out2, V')" "out = out1 @ out2"
    using Cons(2) by (auto split: option.splits)
  obtain E1 where e1: "explored F {o1} V out1 V1 E1" using assms(1) [OF s(1)] by blast
  obtain E2 where e2: "explored F (set os) V1 out2 V' E2" using Cons(1) [OF s(2)] by blast
  note d1 = exploredD [OF e1] and d2 = exploredD [OF e2]
  have new: "V' = V \<union> uoID ` (E1 \<union> E2)" "uoID ` set (o1 # os) \<subseteq> V'" "finite (E1 \<union> E2)" "V \<inter> uoID ` (E1 \<union> E2) = {}"
    using d1(1,2,6,7) d2(1,2,6,7) by auto
  have up: "(\<exists>o0 \<in> set (o1 # os). lineageAncestor F o0 e) \<and> uoID ` set (aboveOf F e) \<subseteq> V'" if "e \<in> E1 \<union> E2" for e
  proof (cases "e \<in> E1")
    case True
    then show ?thesis using d1(3,4) [OF True] d2(1) by auto
  next
    case False
    then have e: "e \<in> E2" using that by simp
    show ?thesis using d2(3,4) [OF e] by auto
  qed
  have apps: "set out = {app. \<exists>e \<in> E1 \<union> E2. appOf F e = Some app}" using d1(5) d2(5) s(3) by auto
  have "{e \<in> E1 \<union> E2. appOf F e \<noteq> None} = {e \<in> E1. appOf F e \<noteq> None} \<union> {e \<in> E2. appOf F e \<noteq> None}" by blast
  moreover have "E1 \<inter> E2 = {}" using d1(1) d2(7) by blast
  ultimately have "card {e \<in> E1 \<union> E2. appOf F e \<noteq> None} = card {e \<in> E1. appOf F e \<noteq> None} + card {e \<in> E2. appOf F e \<noteq> None}"
    using d1(6) d2(6) by (subst card_Un_disjoint [symmetric]) auto
  then have "length out = card {e \<in> E1 \<union> E2. appOf F e \<noteq> None}" using d1(8) d2(8) s(3) by simp
  then show ?case using exploredI [OF new up apps] by blast
next
  case Nil
  then have "explored F (set []) V out V' {}" by (simp add: explored_def)
  then show ?case by blast
qed

lemma search_explored: "search F n obj V = Some (out, V') \<Longrightarrow> \<exists>E. explored F {obj} V out V' E"
proof (induction n arbitrary: obj V out V')
  case (Suc n)
  show ?case
  proof (cases "uoID obj \<in> V")
    case True
    then have "explored F {obj} V out V' {}" using Suc(2) by (simp add: explored_def)
    then show ?thesis by blast
  next
    case False
    obtain out1 where s: "searchAll F n (aboveOf F obj) (insert (uoID obj) V) = Some (out1, V')"
      "out = (case appOf F obj of None \<Rightarrow> out1 | Some app \<Rightarrow> app # out1)"
      using Suc(2) False by (auto split: option.splits)
    obtain E where e: "explored F (set (aboveOf F obj)) (insert (uoID obj) V) out1 V' E"
      using searchAll_explored [OF Suc(1) s(1)] by blast
    note d = exploredD [OF e]
    have apps: "set out = {app. \<exists>o1 \<in> insert obj E. appOf F o1 = Some app}" using d(5) s(2) by (cases "appOf F obj") auto
    have up: "(\<exists>o0 \<in> {obj}. lineageAncestor F o0 o1) \<and> uoID ` set (aboveOf F o1) \<subseteq> V'" if "o1 \<in> insert obj E" for o1
    proof (cases "o1 = obj")
      case False
      then have "o1 \<in> E" using that by simp
      then show ?thesis using d(3,4) [of o1] lineageAncestor_above by blast
    qed (use d(2) lineageAncestor_self in simp)
    have new: "V' = V \<union> uoID ` insert obj E" "uoID ` {obj} \<subseteq> V'" "finite (insert obj E)" "V \<inter> uoID ` insert obj E = {}"
      using d(1,6,7) False by auto
    have "obj \<notin> E" using d(7) by blast
    moreover have "{o1 \<in> insert obj E. appOf F o1 \<noteq> None} =
        (if appOf F obj = None then {o1 \<in> E. appOf F o1 \<noteq> None} else insert obj {o1 \<in> E. appOf F o1 \<noteq> None})" by auto
    ultimately have "length out = card {o1 \<in> insert obj E. appOf F o1 \<noteq> None}"
      using d(6,8) s(2) by (cases "appOf F obj") simp_all
    then show ?thesis using exploredI [OF new up apps] by blast
  qed
qed simp

text \<open>The search finds the applications above the object, once for each object that stands for one.\<close>

definition releasesAbove :: "lineageView \<Rightarrow> uobj \<Rightarrow> uobj set" where
  "releasesAbove F obj = {o1. lineageAncestor F obj o1 \<and> appOf F o1 \<noteq> None}"

lemma search_exact:
  assumes "search F n obj {} = Some (out, V')" "inj_on uoID {o1. lineageAncestor F obj o1}"
  shows "set out = {app. \<exists>o1. lineageAncestor F obj o1 \<and> appOf F o1 = Some app} \<and> length out = card (releasesAbove F obj)"
proof -
  obtain E where e: "explored F {obj} {} out V' E" using search_explored [OF assms(1)] by blast
  note d = exploredD [OF e]
  have up: "lineageAncestor F obj o1" if "o1 \<in> E" for o1 using d(3) [OF that] by blast
  have same: "o1 \<in> E" if mem: "uoID o1 \<in> uoID ` E" "lineageAncestor F obj o1" for o1
  proof -
    obtain o2 where o2: "o2 \<in> E" "uoID o1 = uoID o2" using mem(1) by blast
    then have "o1 = o2" using inj_onD [OF assms(2) o2(2)] mem(2) up by blast
    then show ?thesis using o2(1) by simp
  qed
  have all: "o1 \<in> E" if "lineageAncestor F obj o1" for o1
    using that
  proof induction
    case lineageAncestor_self
    show ?case using same [OF _ lineageAncestor.lineageAncestor_self] d(1,2) by simp
  next
    case (lineageAncestor_step o1 o2)
    have "uoID o2 \<in> V'" using d(4) [OF lineageAncestor_step(3)] lineageAncestor_step(2) by blast
    then show ?case using same [OF _ lineageAncestor.lineageAncestor_step [OF lineageAncestor_step(1,2)]] d(1) by simp
  qed
  then have "{o1 \<in> E. appOf F o1 \<noteq> None} = releasesAbove F obj" using up by (auto simp: releasesAbove_def)
  moreover have "set out = {app. \<exists>o1. lineageAncestor F obj o1 \<and> appOf F o1 = Some app}" unfolding d(5) using up all by blast
  ultimately show ?thesis using d(8) by simp
qed

text \<open>Fuel above the number of objects that can be reached is enough.\<close>

lemma searchAll_returns:
  assumes "\<And>o1 V. o1 \<in> S \<Longrightarrow> card (U - V) < n \<Longrightarrow> \<exists>out V'. search F n o1 V = Some (out, V') \<and> V \<subseteq> V'"
    and "finite U" "set os \<subseteq> S" "card (U - V) < n"
  shows "\<exists>out V'. searchAll F n os V = Some (out, V') \<and> V \<subseteq> V'"
  using assms(3,4)
proof (induction os arbitrary: V)
  case (Cons o1 os)
  obtain out1 V1 where s: "search F n o1 V = Some (out1, V1)" "V \<subseteq> V1" using assms(1) [of o1 V] Cons(2,3) by auto
  have "card (U - V1) \<le> card (U - V)" by (rule card_mono) (use assms(2) s(2) in auto)
  then obtain out2 V2 where "searchAll F n os V1 = Some (out2, V2)" "V1 \<subseteq> V2" using Cons(1) [of V1] Cons(2,3) by auto
  then show ?case using s by auto
qed simp

lemma search_returns:
  assumes "finite U" "\<And>o1 o2. o1 \<in> S \<Longrightarrow> o2 \<in> set (aboveOf F o1) \<Longrightarrow> o2 \<in> S" "uoID ` S \<subseteq> U"
    and "obj \<in> S" "card (U - V) < n"
  shows "\<exists>out V'. search F n obj V = Some (out, V') \<and> V \<subseteq> V'"
  using assms(4,5)
proof (induction n arbitrary: obj V)
  case (Suc n)
  show ?case
  proof (cases "uoID obj \<in> V")
    case False
    have "U - insert (uoID obj) V \<subset> U - V" using assms(3) Suc(2) False by auto
    then have fuel: "card (U - insert (uoID obj) V) < n" using psubset_card_mono [of "U - V"] assms(1) Suc(3) by fastforce
    have up: "set (aboveOf F obj) \<subseteq> S" using assms(2) [OF Suc(2)] by blast
    obtain out V' where "searchAll F n (aboveOf F obj) (insert (uoID obj) V) = Some (out, V')" "insert (uoID obj) V \<subseteq> V'"
      using searchAll_returns [OF Suc(1) assms(1) up fuel] by blast
    then show ?thesis using False by auto
  qed simp
qed simp

text \<open>
  The ownership walk returns and answers with exactly the applications above an object: those that the
  HelmReleases among its ancestors stand for, where an object without owner references has the HelmRelease
  of its label above it. Above is meant in the view that the cache shows when the walk begins: an entry that has not
  expired stands for its object, however old it is, and everything else is read from the API server. The walk leaves
  the cache with the same view; cycles of owner references do no harm. The objects above are told apart by their identifiers
  and there are finitely many; the fuel exceeds their number.
\<close>

lemma walk_exact:
  assumes "cacheShows env F t cache" "finite {o1. lineageAncestor F obj o1}" "inj_on uoID {o1. lineageAncestor F obj o1}"
    and "card {o1. lineageAncestor F obj o1} < n"
  shows "\<exists>out st. WalkOwnershipGraphWithCache env n cache t obj = Some (out, st) \<and> search F n obj {} = Some (out, wsVisited st) \<and>
    stateShows env F t st"
proof -
  let ?S = "{o1. lineageAncestor F obj o1}" and ?st = "\<lparr>wsVisited = {}, wsCache = cache, wsClock = t\<rparr>"
  have "card (uoID ` ?S - {}) < n" using card_image_le [OF assms(2), of uoID] assms(4) by simp
  with search_returns [of "uoID ` ?S" ?S F obj "{}" n] assms(2) obtain out V' where s: "search F n obj {} = Some (out, V')"
    by (auto intro: lineageAncestor.intros)
  have "walked env F t (WalkOwnershipGraph env n obj ?st) (search F n obj (wsVisited ?st))"
    by (rule walk_search) (simp add: assms(1) stateShows_def)
  then show ?thesis using s by (elim walkedE) (auto simp: WalkOwnershipGraphWithCache_def)
qed

subsection \<open>An example\<close>

text \<open>A Secret that belongs to a Deployment of a release, which stands for the application db.\<close>

definition demoObject :: "ObjectID \<Rightarrow> ownerRef list \<Rightarrow> (string \<rightharpoonup> string) \<Rightarrow> uobj" where
  "demoObject i owners labels =
     \<lparr>uoID = i, uoOwners = owners, uoLabels = labels, uoAnnotations = Map.empty, uoScheduler = [], uoRelease = True\<rparr>"

definition demoChild :: uobj where
  "demoChild = demoObject (objectID ''v1'' ''Secret'' ''tenant-a'' ''db-tls'') [\<lparr>owVersion = ''apps/v1'', owKind = ''Deployment'', owName = ''db''\<rparr>]
     Map.empty"

definition demoDeployment :: uobj where
  "demoDeployment = demoObject (objectID ''apps/v1'' ''Deployment'' ''tenant-a'' ''db'') [] [HRLabel \<mapsto> ''postgres-db'']"

definition demoOwnerRelease :: uobj where
  "demoOwnerRelease = demoObject (objectID HRAPIVersion HRKind ''tenant-a'' ''postgres-db'') []
     [appKindKey \<mapsto> ''Postgres'', appGroupKey \<mapsto> ''apps.cozystack.io'', appNameKey \<mapsto> ''db'']"

definition demoOwnerApp :: uobj where
  "demoOwnerApp = demoObject (objectID ''apps.cozystack.io/v1alpha1'' ''Postgres'' ''tenant-a'' ''db'') [] Map.empty"

definition demoLineage :: lineageEnv where
  "demoLineage =
     \<lparr>leScope = (\<lambda>v k. Some True),
      leGet = (\<lambda>v k ns name.
        if k = ''Deployment'' then Some demoDeployment
        else if k = HRKind then Some demoOwnerRelease
        else if k = ''Postgres'' then Some demoOwnerApp else None),
      leClock = int, leRange = (\<lambda>xs. xs)\<rparr>"

lemmas demoLineage_defs = demoLineage_def demoObject_def demoChild_def demoDeployment_def demoOwnerRelease_def demoOwnerApp_def objectID_def
  HRKind_def HRAPIVersion_def HRLabel_def appKindKey_def appGroupKey_def appNameKey_def

abbreviation demoView :: lineageView where "demoView \<equiv> liveView demoLineage"

lemma demoLineage_steps:
  "aboveOf demoView demoChild = [demoDeployment]" "aboveOf demoView demoDeployment = [demoOwnerRelease]" "aboveOf demoView demoOwnerRelease = []"
  "appOf demoView demoOwnerRelease = Some (uoID demoOwnerApp)" "appOf demoView demoChild = None" "appOf demoView demoDeployment = None"
  by (simp_all add: demoLineage_defs liveView_def aboveOf_def appOf_def fetch_def helmRelease_def mapRelease_def trimSuffix_def suffix_def
      trimPrefix_def cutPrefix_def map_filter_simps Let_def)

lemma demoLineage_ancestors: "{o1. lineageAncestor demoView demoChild o1} = {demoChild, demoDeployment, demoOwnerRelease}"
proof -
  have "o1 \<in> {demoChild, demoDeployment, demoOwnerRelease}" if "lineageAncestor demoView demoChild o1" for o1
    using that by induction (auto simp: demoLineage_steps)
  moreover have a: "lineageAncestor demoView demoChild demoDeployment" by (rule lineageAncestor_step [OF lineageAncestor_self]) (simp add: demoLineage_steps)
  moreover have "lineageAncestor demoView demoChild demoOwnerRelease" by (rule lineageAncestor_step [OF a]) (simp add: demoLineage_steps)
  ultimately show ?thesis using lineageAncestor_self [of demoView demoChild] by (intro equalityI subsetI) (simp, blast)
qed

text \<open>A cache with the release, and with a Deployment that is outdated and has expired.\<close>

definition demoCache :: "ObjectCache option" where
  "demoCache = Some \<lparr>ocTTL = 60, ocItems =
     [(uoID demoOwnerRelease, \<lparr>ceObject = demoOwnerRelease, ceExpires = 1\<rparr>),
      (uoID demoDeployment, \<lparr>ceObject = demoDeployment\<lparr>uoLabels := Map.empty\<rparr>, ceExpires = -1\<rparr>)]\<rparr>"

lemma demoCache_steady: "steadyCache demoLineage 0 demoCache" "range_order (leRange demoLineage)" "cacheView demoLineage 0 demoCache = demoView"
proof -
  have ids: "uoID demoOwnerRelease \<noteq> uoID demoDeployment" by (simp add: demoLineage_defs)
  have live: "demoView (uoID demoOwnerRelease) = Some demoOwnerRelease" by (simp add: demoLineage_defs liveView_def fetch_def)
  have clock: "leClock demoLineage = int" by (simp add: demoLineage_def)
  show "steadyCache demoLineage 0 demoCache" using ids live by (simp add: demoCache_def steadyCache_def steadyEntry_def clock)
  show "range_order (leRange demoLineage)" by (simp add: demoLineage_def range_order_def)
  show "cacheView demoLineage 0 demoCache = demoView"
    using ids live by (simp add: demoCache_def cacheView_simps fun_eq_iff clock)
qed

text \<open>The prefix of a release and the name of its application make up the name of the release.\<close>

lemma mapRelease_name:
  assumes "mapRelease labels name = Some (v, k, pre)"
  shows "labels appKindKey = Some k \<and> (\<exists>app. labels appNameKey = Some app \<and> name = pre @ app \<and> trimPrefix name pre = app)"
  using assms by (auto simp: mapRelease_def Let_def trimPrefix_append split: option.splits if_splits)

end
