(* ===== verification/Tenant_Secrets.thy ===== *)
theory Tenant_Secrets
  imports Registry_Common
begin

text \<open>
  The TenantSecret API: the Secrets of a tenant that the platform marked for it
  (\<open>pkg/registry/core/tenantsecret/rest.go\<close>). Labels and annotations are maps, where nil and empty are not
  distinguished; data are lists of keys and bytes with distinct keys. What a Secret carries besides (its
  owners, finalizers and the like) is one opaque part. The client of the backing API is an argument.
\<close>

subsection \<open>Base64\<close>

definition base64Digit :: "nat \<Rightarrow> char" where
  "base64Digit n = ''ABCDEFGHIJKLMNOPQRSTUVWXYZabcdefghijklmnopqrstuvwxyz0123456789+/'' ! n"

fun EncodeToString :: "string \<Rightarrow> string" where
  "EncodeToString [] = []"
| "EncodeToString [a] =
     (let n = of_char a * 16 in [base64Digit (n div 64), base64Digit (n mod 64), CHR ''='', CHR ''=''])"
| "EncodeToString [a, b] =
     (let n = (of_char a * 256 + of_char b) * 4 in
      [base64Digit (n div 4096), base64Digit (n div 64 mod 64), base64Digit (n mod 64), CHR ''=''])"
| "EncodeToString (a # b # c # rest) =
     (let n = (of_char a * 256 + of_char b) * 256 + of_char c in
      [base64Digit (n div 262144), base64Digit (n div 4096 mod 64), base64Digit (n div 64 mod 64), base64Digit (n mod 64)]
        @ EncodeToString rest)"

subsection \<open>Types and conversions\<close>

type_synonym bytesMap = "(string \<times> string) list"

record StoredSecret =
  seName :: string
  seNamespace :: string
  seUID :: string
  seVersion :: string
  seCreated :: int
  seLabels :: "string \<rightharpoonup> string"
  seAnnotations :: "string \<rightharpoonup> string"
  seType :: string
  seData :: bytesMap
  seSystem :: string

record TenantSecret =
  tsName :: string
  tsNamespace :: string
  tsUID :: string
  tsVersion :: string
  tsCreated :: int
  tsLabels :: "string \<rightharpoonup> string"
  tsAnnotations :: "string \<rightharpoonup> string"
  tsType :: string
  tsData :: bytesMap
  tsStringData :: bytesMap

definition tsLabelKey :: string where "tsLabelKey = ''internal.cozystack.io/tenantresource''"
definition tsLabelValue :: string where "tsLabelValue = ''true''"
definition internalPrefix :: string where "internalPrefix = ''internal.cozystack.io/''"

definition isInternalKey :: "string \<Rightarrow> bool" where "isInternalKey k \<longleftrightarrow> prefix internalPrefix k"

definition stripTenantMarker :: "(string \<rightharpoonup> string) \<Rightarrow> (string \<rightharpoonup> string)" where
  "stripTenantMarker m = m(tsLabelKey := None)"

definition encodeStringData :: "bytesMap \<Rightarrow> bytesMap" where "encodeStringData sd = sd"

definition decodeStringData :: "bytesMap \<Rightarrow> bytesMap" where
  "decodeStringData d = map (\<lambda>(k, v). (k, EncodeToString v)) d"

definition secretToTenant :: "StoredSecret \<Rightarrow> TenantSecret" where
  "secretToTenant sec =
     \<lparr>tsName = seName sec, tsNamespace = seNamespace sec, tsUID = seUID sec, tsVersion = seVersion sec,
      tsCreated = seCreated sec, tsLabels = stripTenantMarker (seLabels sec), tsAnnotations = seAnnotations sec,
      tsType = seType sec, tsData = seData sec, tsStringData = decodeStringData (seData sec)\<rparr>"

definition zeroSecret :: StoredSecret where
  "zeroSecret = \<lparr>seName = [], seNamespace = [], seUID = [], seVersion = [], seCreated = 0, seLabels = Map.empty,
     seAnnotations = Map.empty, seType = [], seData = [], seSystem = []\<rparr>"

text \<open>The keys of a caller that are not the platform's, over the keys that are there.\<close>

definition callerKeys :: "(string \<rightharpoonup> string) \<Rightarrow> (string \<rightharpoonup> string) \<Rightarrow> (string \<rightharpoonup> string)" where
  "callerKeys asked m = (\<lambda>k. if isInternalKey k then m k else case asked k of None \<Rightarrow> m k | Some v \<Rightarrow> Some v)"

definition tenantToSecret :: "TenantSecret \<Rightarrow> StoredSecret option \<Rightarrow> StoredSecret" where
  "tenantToSecret ts cur =
     (let out = (case cur of None \<Rightarrow> zeroSecret | Some sec \<Rightarrow> sec) in
      out\<lparr>seName := tsName ts, seNamespace := tsNamespace ts,
          seLabels := callerKeys (tsLabels ts) ((seLabels out)(tsLabelKey \<mapsto> tsLabelValue)),
          seAnnotations := callerKeys (tsAnnotations ts) (seAnnotations out),
          seData := (if tsData ts \<noteq> [] then tsData ts
                     else if tsStringData ts \<noteq> [] then encodeStringData (tsStringData ts)
                     else seData out),
          seType := tsType ts\<rparr>)"

definition isTenantSecret :: "StoredSecret \<Rightarrow> bool" where
  "isTenantSecret sec \<longleftrightarrow> strOf (seLabels sec) tsLabelKey = tsLabelValue"

subsection \<open>Requests\<close>

datatype ts_error = TsNotFound | TsBadRequest string | TsClient string | TsAdmission string

datatype ts_write = TsCreate StoredSecret | TsUpdate StoredSecret | TsDelete string string

text \<open>The client: a read, the answer to a write, and the Secrets a list gives with the version of the list.\<close>

record secretClient =
  scGet :: "string \<Rightarrow> string \<Rightarrow> StoredSecret fetched"
  scWrite :: "ts_write \<Rightarrow> string + StoredSecret"
  scList :: "string \<Rightarrow> requirement list \<Rightarrow> string + string \<times> StoredSecret list"

type_synonym ts_admission = "(TenantSecret \<Rightarrow> string option) option"

definition admitted :: "ts_admission \<Rightarrow> TenantSecret \<Rightarrow> string option" where
  "admitted f ts = (case f of None \<Rightarrow> None | Some g \<Rightarrow> g ts)"

definition tsCreate :: "secretClient \<Rightarrow> ts_admission \<Rightarrow> TenantSecret \<Rightarrow> ts_write list \<times> (ts_error + TenantSecret)" where
  "tsCreate c createValidation input =
     (case admitted createValidation input of
        Some e \<Rightarrow> ([], Inl (TsAdmission e))
      | None \<Rightarrow>
          (let w = TsCreate (tenantToSecret input None) in
           ([w], case scWrite c w of Inl e \<Rightarrow> Inl (TsClient e) | Inr sec \<Rightarrow> Inr (secretToTenant sec))))"

definition tsGet :: "secretClient \<Rightarrow> string option \<Rightarrow> string \<Rightarrow> ts_error + TenantSecret" where
  "tsGet c ctxNS name =
     (case ctxNS of
        None \<Rightarrow> Inl (TsBadRequest ''namespace required'')
      | Some ns \<Rightarrow>
          (case scGet c ns name of
             Missing \<Rightarrow> Inl (TsClient ''not found'')
           | FetchError e \<Rightarrow> Inl (TsClient e)
           | Found sec \<Rightarrow> if \<not> isTenantSecret sec then Inl TsNotFound else Inr (secretToTenant sec)))"

definition buildTenantSelector :: "labelSelector option \<Rightarrow> requirement list option" where
  "buildTenantSelector sel = markedSelector tsLabelKey tsLabelValue sel"

definition tsSorted :: "TenantSecret list \<Rightarrow> TenantSecret list" where
  "tsSorted items = sort_key (\<lambda>ts. [tsNamespace ts, tsName ts]) items"

definition tsList :: "secretClient \<Rightarrow> string option \<Rightarrow> labelSelector option \<Rightarrow> fieldTerms option \<Rightarrow>
    ts_error + string \<times> TenantSecret list" where
  "tsList c ctxNS sel terms =
     (case ctxNS of
        None \<Rightarrow> Inl (TsBadRequest ''namespace required'')
      | Some ns \<Rightarrow>
          (case buildTenantSelector sel of
             None \<Rightarrow> Inr ([], [])
           | Some ls \<Rightarrow>
               (let f = ParseFieldSelector terms in
                if fiNamespace f \<noteq> [] \<and> ns \<noteq> [] \<and> ns \<noteq> fiNamespace f then Inr ([], [])
                else case scList c ns ls of
                  Inl e \<Rightarrow> Inl (TsClient e)
                | Inr (listRV, items) \<Rightarrow>
                    Inr (if listRV = [] then MaxResourceVersion (map seVersion items) else listRV,
                      tsSorted (map secretToTenant
                        (filter (\<lambda>sec. MatchesName f (seName sec) \<and> MatchesNamespace f (seNamespace sec)) items))))))"

definition tsUpdate :: "secretClient \<Rightarrow> string option \<Rightarrow> string \<Rightarrow> (TenantSecret option \<Rightarrow> string + TenantSecret) \<Rightarrow>
    ts_admission \<Rightarrow> (TenantSecret \<Rightarrow> TenantSecret \<Rightarrow> string option) option \<Rightarrow> bool \<Rightarrow>
    ts_write list \<times> (ts_error + TenantSecret \<times> bool)" where
  "tsUpdate c ctxNS name updated createValidation updateValidation forceCreate =
     (case ctxNS of
        None \<Rightarrow> ([], Inl (TsBadRequest ''namespace required''))
      | Some ns \<Rightarrow>
          (case scGet c ns name of
             FetchError e \<Rightarrow> ([], Inl (TsClient e))
           | got \<Rightarrow>
               (let cur = (case got of Found sec \<Rightarrow> Some sec | _ \<Rightarrow> None) in
                if (case cur of Some sec \<Rightarrow> \<not> isTenantSecret sec | None \<Rightarrow> False) then ([], Inl TsNotFound)
                else case updated (map_option secretToTenant cur) of
                  Inl e \<Rightarrow> ([], Inl (TsClient e))
                | Inr input \<Rightarrow>
                    (let newSec = (tenantToSecret input cur)\<lparr>seNamespace := ns\<rparr> in
                     case cur of
                       None \<Rightarrow>
                         (if \<not> forceCreate then ([], Inl TsNotFound)
                          else case admitted createValidation input of
                            Some e \<Rightarrow> ([], Inl (TsAdmission e))
                          | None \<Rightarrow>
                              ([TsCreate newSec], case scWrite c (TsCreate newSec) of
                                 Inl e \<Rightarrow> Inl (TsClient e) | Inr sec \<Rightarrow> Inr (secretToTenant sec, True)))
                     | Some old \<Rightarrow>
                         (case (case updateValidation of None \<Rightarrow> None | Some g \<Rightarrow> g input (secretToTenant old)) of
                            Some e \<Rightarrow> ([], Inl (TsAdmission e))
                          | None \<Rightarrow>
                              (let w = TsUpdate (newSec\<lparr>seVersion := seVersion old\<rparr>) in
                               ([w], case scWrite c w of
                                  Inl e \<Rightarrow> Inl (TsClient e) | Inr sec \<Rightarrow> Inr (secretToTenant sec, False))))))))"

definition tsDelete :: "secretClient \<Rightarrow> string option \<Rightarrow> string \<Rightarrow> ts_admission \<Rightarrow> ts_write list \<times> ts_error option" where
  "tsDelete c ctxNS name deleteValidation =
     (case ctxNS of
        None \<Rightarrow> ([], Some (TsBadRequest ''namespace required''))
      | Some ns \<Rightarrow>
          (case scGet c ns name of
             Missing \<Rightarrow> ([], Some (TsClient ''not found''))
           | FetchError e \<Rightarrow> ([], Some (TsClient e))
           | Found sec \<Rightarrow>
               if \<not> isTenantSecret sec then ([], Some TsNotFound)
               else case admitted deleteValidation (secretToTenant sec) of
                 Some e \<Rightarrow> ([], Some (TsAdmission e))
               | None \<Rightarrow>
                   ([TsDelete ns name], case scWrite c (TsDelete ns name) of Inl e \<Rightarrow> Some (TsClient e) | Inr sec' \<Rightarrow> None)))"

subsection \<open>The watch\<close>

definition tsWatchSpec :: "requirement list \<Rightarrow> nat \<Rightarrow> (StoredSecret, TenantSecret) watchSpec" where
  "tsWatchSpec ls startingRV =
     \<lparr>wsOwn = (\<lambda>sec. True), wsVersion = seVersion,
      wsShow = (\<lambda>t sec.
        if t \<noteq> Deleted \<and> \<not> labelsMatch ls (seLabels sec) then None
        else let tenant = secretToTenant sec in
          if alreadySeen startingRV t (tsVersion tenant) then None else Some tenant),
      wsErrors = False\<rparr>"

definition tsWatch :: "(string \<Rightarrow> requirement list \<Rightarrow> watchOptions \<Rightarrow> string + StoredSecret backingInput option list) \<Rightarrow>
    string option \<Rightarrow> labelSelector option \<Rightarrow> fieldTerms option \<Rightarrow> watchOptions \<Rightarrow> ts_error + TenantSecret clientEvent list" where
  "tsWatch backing ctxNS sel terms opts =
     (case ctxNS of
        None \<Rightarrow> Inl (TsBadRequest ''namespace required'')
      | Some ns \<Rightarrow>
          (case buildTenantSelector sel of
             None \<Rightarrow> Inr []
           | Some ls \<Rightarrow>
               (case backing ns ls opts of
                  Inl e \<Rightarrow> Inl (TsClient e)
                | Inr ins \<Rightarrow> Inr (forwardWatch (tsWatchSpec ls (startingVersion (woVersion opts))) opts ins))))"

subsection \<open>Metadata\<close>

lemma marker_is_internal: "isInternalKey tsLabelKey"
  by (simp add: isInternalKey_def internalPrefix_def tsLabelKey_def)

lemma callerKeys_internal: "isInternalKey k \<Longrightarrow> callerKeys asked m k = m k"
  by (simp add: callerKeys_def)

lemma callerKeys_same: "(\<And>k. \<not> isInternalKey k \<Longrightarrow> asked k = m k \<or> asked k = None) \<Longrightarrow> callerKeys asked m = m"
  by (rule ext) (force simp: callerKeys_def split: option.split)

lemma tenantToSecret_marked: "isTenantSecret (tenantToSecret ts cur)"
  by (simp add: isTenantSecret_def tenantToSecret_def Let_def strOf_def callerKeys_internal marker_is_internal)

lemma isTenantSecret_label: "isTenantSecret sec \<Longrightarrow> seLabels sec tsLabelKey = Some tsLabelValue"
  by (auto simp: isTenantSecret_def strOf_def tsLabelValue_def split: option.splits)

lemma tenantToSecret_internal:
  "isInternalKey k \<Longrightarrow> seLabels (tenantToSecret ts None) k = (if k = tsLabelKey then Some tsLabelValue else None)"
  "isInternalKey k \<Longrightarrow> seAnnotations (tenantToSecret ts None) k = None"
  "isInternalKey k \<Longrightarrow> isTenantSecret sec \<Longrightarrow> seLabels (tenantToSecret ts (Some sec)) k = seLabels sec k"
  "isInternalKey k \<Longrightarrow> seAnnotations (tenantToSecret ts (Some sec)) k = seAnnotations sec k"
  by (simp_all add: tenantToSecret_def Let_def callerKeys_internal zeroSecret_def isTenantSecret_label)

text \<open>Writing back what was read changes nothing, and what was written is read.\<close>

lemma tenant_writeback:
  assumes "isTenantSecret sec"
  shows "tenantToSecret (secretToTenant sec) (Some sec) = sec"
proof -
  have "(seLabels sec)(tsLabelKey \<mapsto> tsLabelValue) = seLabels sec"
    using isTenantSecret_label [OF assms] by (simp add: map_upd_triv)
  moreover have "callerKeys (stripTenantMarker (seLabels sec)) (seLabels sec) = seLabels sec"
    by (rule callerKeys_same) (simp add: stripTenantMarker_def)
  moreover have "callerKeys (seAnnotations sec) (seAnnotations sec) = seAnnotations sec"
    by (rule callerKeys_same) simp
  ultimately show ?thesis by (simp add: tenantToSecret_def secretToTenant_def Let_def encodeStringData_def decodeStringData_def)
qed

lemma tenant_readback:
  assumes "\<And>k. isInternalKey k \<Longrightarrow> tsLabels ts k = None" "\<And>k. isInternalKey k \<Longrightarrow> tsAnnotations ts k = None"
  shows "tsLabels (secretToTenant (tenantToSecret ts None)) = tsLabels ts"
    "tsAnnotations (secretToTenant (tenantToSecret ts None)) = tsAnnotations ts"
    "tsType (secretToTenant (tenantToSecret ts None)) = tsType ts"
    "tsData ts \<noteq> [] \<Longrightarrow> tsData (secretToTenant (tenantToSecret ts None)) = tsData ts"
    "tsData ts = [] \<Longrightarrow> tsData (secretToTenant (tenantToSecret ts None)) = tsStringData ts"
  using assms marker_is_internal
  by (auto simp: fun_eq_iff secretToTenant_def tenantToSecret_def Let_def stripTenantMarker_def callerKeys_def
      zeroSecret_def encodeStringData_def split: option.split)

subsection \<open>Requests touch only marked Secrets\<close>

fun writtenSecret :: "ts_write \<Rightarrow> StoredSecret option" where
  "writtenSecret (TsCreate sec) = Some sec"
| "writtenSecret (TsUpdate sec) = Some sec"
| "writtenSecret (TsDelete ns name) = None"

text \<open>C36: No request of a tenant plants, strips or changes a key of the platform. A created Secret carries
  the marker and no other platform key; an updated one keeps every platform label and annotation of the
  stored one, whose version it names; only Secrets with the marker are updated or deleted; and writing
  back what a read showed writes the stored Secret unchanged.\<close>

theorem tenantSecret_platform_keys:
  "(\<forall>createValidation input w. w \<in> set (fst (tsCreate c createValidation input)) \<longrightarrow>
      (\<exists>sec. w = TsCreate sec \<and> isTenantSecret sec \<and> (\<forall>k. isInternalKey k \<longrightarrow>
         seLabels sec k = (if k = tsLabelKey then Some tsLabelValue else None) \<and> seAnnotations sec k = None))) \<and>
   (\<forall>ns name updated cv uv force w. w \<in> set (fst (tsUpdate c (Some ns) name updated cv uv force)) \<longrightarrow>
      (case scGet c ns name of
         FetchError e \<Rightarrow> False
       | Missing \<Rightarrow> force \<and> (\<exists>sec. w = TsCreate sec \<and> (\<forall>k. isInternalKey k \<longrightarrow>
           seLabels sec k = (if k = tsLabelKey then Some tsLabelValue else None) \<and> seAnnotations sec k = None))
       | Found old \<Rightarrow> isTenantSecret old \<and> (\<exists>sec. w = TsUpdate sec \<and> seVersion sec = seVersion old \<and>
           (\<forall>k. isInternalKey k \<longrightarrow> seLabels sec k = seLabels old k \<and> seAnnotations sec k = seAnnotations old k) \<and>
           (updated (Some (secretToTenant old)) = Inr (secretToTenant old) \<and> seNamespace old = ns \<longrightarrow> sec = old)))) \<and>
   (\<forall>ns name dv. fst (tsDelete c (Some ns) name dv) \<noteq> [] \<longrightarrow>
      (\<exists>old. scGet c ns name = Found old \<and> isTenantSecret old) \<and> fst (tsDelete c (Some ns) name dv) = [TsDelete ns name])"
proof (intro conjI allI impI)
  fix cv input w assume "w \<in> set (fst (tsCreate c cv input))"
  then show "\<exists>sec. w = TsCreate sec \<and> isTenantSecret sec \<and> (\<forall>k. isInternalKey k \<longrightarrow>
         seLabels sec k = (if k = tsLabelKey then Some tsLabelValue else None) \<and> seAnnotations sec k = None)"
    using tenantToSecret_internal tenantToSecret_marked by (auto simp: tsCreate_def Let_def split: option.splits)
next
  fix ns name updated cv uv force w assume w: "w \<in> set (fst (tsUpdate c (Some ns) name updated cv uv force))"
  show "case scGet c ns name of
         FetchError e \<Rightarrow> False
       | Missing \<Rightarrow> force \<and> (\<exists>sec. w = TsCreate sec \<and> (\<forall>k. isInternalKey k \<longrightarrow>
           seLabels sec k = (if k = tsLabelKey then Some tsLabelValue else None) \<and> seAnnotations sec k = None))
       | Found old \<Rightarrow> isTenantSecret old \<and> (\<exists>sec. w = TsUpdate sec \<and> seVersion sec = seVersion old \<and>
           (\<forall>k. isInternalKey k \<longrightarrow> seLabels sec k = seLabels old k \<and> seAnnotations sec k = seAnnotations old k) \<and>
           (updated (Some (secretToTenant old)) = Inr (secretToTenant old) \<and> seNamespace old = ns \<longrightarrow> sec = old))"
  proof (cases "scGet c ns name")
    case (Found old)
    then obtain input where old: "isTenantSecret old" "updated (Some (secretToTenant old)) = Inr input"
        "w = TsUpdate ((tenantToSecret input (Some old))\<lparr>seNamespace := ns, seVersion := seVersion old\<rparr>)"
      using w by (auto simp: tsUpdate_def Let_def split: if_splits sum.splits option.splits)
    show ?thesis using old tenantToSecret_internal(3,4) tenant_writeback [OF old(1)] by (auto simp: Found)
  next
    case Missing
    then show ?thesis using w tenantToSecret_internal(1,2)
      by (auto simp: tsUpdate_def Let_def split: if_splits sum.splits option.splits)
  qed (use w in \<open>simp add: tsUpdate_def\<close>)
qed (auto simp: tsDelete_def split: fetched.splits if_splits option.splits)

lemma tenantSecret_platform_keys_witness:
  "\<exists>sec. fst (tsUpdate \<lparr>scGet = \<lambda>ns name. Found (zeroSecret\<lparr>seNamespace := ''tenant-a'', seLabels := [tsLabelKey \<mapsto> tsLabelValue]\<rparr>),
       scWrite = \<lambda>w. Inl ''down'', scList = \<lambda>ns ls. Inl ''down''\<rparr> (Some ''tenant-a'') ''s''
       (\<lambda>old. Inr (the old)) None None False) = [TsUpdate sec] \<and> seLabels sec tsLabelKey = Some tsLabelValue"
proof -
  let ?sec = "zeroSecret\<lparr>seNamespace := ''tenant-a'', seLabels := [tsLabelKey \<mapsto> tsLabelValue]\<rparr>"
  let ?c = "\<lparr>scGet = \<lambda>ns name. Found ?sec, scWrite = \<lambda>w. Inl ''down'', scList = \<lambda>ns ls. Inl ''down''\<rparr>"
  let ?ws = "fst (tsUpdate ?c (Some ''tenant-a'') ''s'' (\<lambda>old. Inr (the old)) None None False)"
  obtain w where w: "?ws = [w]" by (simp add: tsUpdate_def Let_def isTenantSecret_def)
  have mem: "w \<in> set ?ws" by (simp add: w)
  from tenantSecret_platform_keys [of ?c, THEN conjunct2, THEN conjunct1, rule_format, OF mem]
  obtain sec where "w = TsUpdate sec" "\<forall>k. isInternalKey k \<longrightarrow> seLabels sec k = seLabels ?sec k" by auto
  then show ?thesis using marker_is_internal by (auto simp: w)
qed

subsection \<open>Lists and watches\<close>

definition secretKey :: "StoredSecret \<Rightarrow> string \<times> string" where "secretKey sec = (seName sec, seNamespace sec)"
definition tenantKey :: "TenantSecret \<Rightarrow> string \<times> string" where "tenantKey ts = (tsName ts, tsNamespace ts)"

definition secretChange :: "StoredSecret backingInput \<Rightarrow> ((string \<times> string) \<times> StoredSecret option) option" where
  "secretChange i = (case i of Backing t sec \<Rightarrow> Some (secretKey sec, if t = Deleted then None else Some sec) | _ \<Rightarrow> None)"

definition secretRegular :: "requirement list \<Rightarrow> nat \<Rightarrow> StoredSecret backingInput \<Rightarrow> bool" where
  "secretRegular ls startingRV i \<longleftrightarrow>
     (case i of
        Backing t sec \<Rightarrow> (t = Deleted \<or> labelsMatch ls (seLabels sec)) \<and> \<not> alreadySeen startingRV t (seVersion sec)
      | _ \<Rightarrow> True)"

lemma tenantKey_secret [simp]: "tenantKey (secretToTenant sec) = secretKey sec"
  by (simp add: tenantKey_def secretKey_def secretToTenant_def)

lemma secretToTenant_version [simp]: "tsVersion (secretToTenant sec) = seVersion sec"
  by (simp add: secretToTenant_def)

interpretation ts_tracking: tracking_watch "forwardStep (tsWatchSpec ls n)" closeWatch "\<lambda>b. \<not> bmSent b" "forwarded (tsWatchSpec ls n)"
  secretChange tenantKey "\<lambda>k. True" secretToTenant "secretRegular ls n" for ls n
proof
  fix i :: "StoredSecret backingInput" and store :: "(string \<times> string) \<rightharpoonup> StoredSecret"
  assume "secretRegular ls n i"
  then show "fold (applyClient tenantKey) (forwarded (tsWatchSpec ls n) i) (viewOf (\<lambda>k. True) secretToTenant store)
      = viewOf (\<lambda>k. True) secretToTenant (applyChange (secretChange i) store)"
    by (cases i) (auto simp: secretRegular_def forwarded_def tsWatchSpec_def secretChange_def applyChange_def viewOf_update)
qed

lemma tsWatch_tracks:
  assumes "buildTenantSelector sel = Some ls" "backing ns ls opts = Inr ins"
    and "tsWatch backing (Some ns) sel terms opts = Inr out"
    and "list_all (secretRegular ls (startingVersion (woVersion opts))) (readInputs ins)"
  shows "fold (applyClient tenantKey) out (map_option secretToTenant \<circ> store)
    = map_option secretToTenant \<circ> fold (applyChange \<circ> secretChange) (readInputs ins) store"
proof -
  have "out = forwardWatch (tsWatchSpec ls (startingVersion (woVersion opts))) opts ins"
    using assms(1-3) by (simp add: tsWatch_def)
  moreover have "viewOf (\<lambda>k. True) secretToTenant m = map_option secretToTenant \<circ> m" for m :: "(string \<times> string) \<rightharpoonup> StoredSecret"
    by (auto simp: viewOf_def)
  ultimately show ?thesis using ts_tracking.stream_tracks [OF assms(4)] by (simp add: forwardWatch_def)
qed

subsection \<open>Where reads and writes differ from a Secret\<close>

text \<open>A list obeys a field selector, a watch does not look at it: with \<open>metadata.name=a\<close> the object \<open>b\<close> is
  not listed and its events are delivered.\<close>

definition demoTenantSecret :: StoredSecret where
  "demoTenantSecret = zeroSecret\<lparr>seName := ''b'', seNamespace := ''tenant-a'', seVersion := ''5'',
     seLabels := [tsLabelKey \<mapsto> tsLabelValue], seData := [(''password'', ''pw'')]\<rparr>"

lemma demo_selected: "labelsMatch [equalsRequirement tsLabelKey tsLabelValue] (seLabels demoTenantSecret)"
  by (simp add: labelsMatch_def equalsRequirement_def demoTenantSecret_def)

theorem watch_ignores_field_selector:
  "\<exists>terms. terms = Some [(''metadata.name'', True, ''a'')] \<and>
     (\<forall>c. scList c ''tenant-a'' [equalsRequirement tsLabelKey tsLabelValue] = Inr (''7'', [demoTenantSecret]) \<longrightarrow>
        tsList c (Some ''tenant-a'') None terms = Inr (''7'', [])) \<and>
     tsWatch (\<lambda>ns ls opts. Inr [Some (Backing Added demoTenantSecret)]) (Some ''tenant-a'') None terms
       \<lparr>woVersion = [], woSendInitial = None, woAllowBookmarks = False\<rparr>
     = Inr [ClientEvent Added (secretToTenant demoTenantSecret)]"
  using demo_selected
  by (simp add: tsList_def tsWatch_def buildTenantSelector_def markedSelector_def ParseFieldSelector_def exactMatch_def
      MatchesName_def demoTenantSecret_def zeroSecret_def tsSorted_def forwardWatch_def forwardStep_shape forwarded_def
      tsWatchSpec_def NewInitialEventsBookmarker_def InitialEventsEndBookmarkRequested_def alreadySeen_def startingVersion_def Let_def)

text \<open>A client that asks for the initial events at version 10 is not sent an object last changed at version
  5, although the backing watch delivers it, and is told that the initial events are complete.\<close>

theorem initial_objects_dropped:
  "tsWatch (\<lambda>ns ls opts. Inr [Some (Backing Added demoTenantSecret), Some (BackingBookmark ''10'')]) (Some ''tenant-a'') None None
     \<lparr>woVersion = ''10'', woSendInitial = Some True, woAllowBookmarks = True\<rparr> = Inr [ClientBookmark ''10'' True]"
  using demo_selected
  by (simp add: tsWatch_def buildTenantSelector_def markedSelector_def forwardWatch_def forwardStep_shape forwarded_def
      tsWatchSpec_def NewInitialEventsBookmarker_def InitialEventsEndBookmarkRequested_def alreadySeen_def Let_def
      startingVersion_def parseUint_def digitVal_def demoTenantSecret_def zeroSecret_def Observe_def)

text \<open>A read gives the data in base64 as string data. Written as string data this text becomes the data, and
  an edit of the string data of a Secret with data is dropped without an error.\<close>

theorem string_data_reencoded:
  "tsStringData (secretToTenant demoTenantSecret) = [(''password'', ''cHc='')] \<and>
   seData (tenantToSecret ((secretToTenant demoTenantSecret)\<lparr>tsData := []\<rparr>) None) = [(''password'', ''cHc='')]"
  by (simp add: secretToTenant_def demoTenantSecret_def zeroSecret_def decodeStringData_def tenantToSecret_def
      encodeStringData_def Let_def base64Digit_def)

theorem string_data_edit_dropped:
  "isTenantSecret sec \<Longrightarrow> seData sec \<noteq> [] \<Longrightarrow> tenantToSecret ((secretToTenant sec)\<lparr>tsStringData := edited\<rparr>) (Some sec) = sec"
  using tenant_writeback [of sec] by (simp add: tenantToSecret_def secretToTenant_def)

text \<open>A label or an annotation that a caller removes stays.\<close>

theorem removed_label_stays:
  "\<not> isInternalKey k \<Longrightarrow> seLabels (tenantToSecret ((secretToTenant sec)\<lparr>tsLabels := (tsLabels (secretToTenant sec))(k := None)\<rparr>) (Some sec)) k
     = seLabels sec k"
  using marker_is_internal by (auto simp: tenantToSecret_def callerKeys_def Let_def)

end
