(* ===== verification/Lineage_Webhook.thy ===== *)
theory Lineage_Webhook
  imports Lineage Tenant_Secrets
begin

text \<open>
  The lineage webhook (internal/lineagecontrollerwebhook): it labels a Secret, a Service, an Ingress, a Pod or a claim
  with the application above it and marks it for the tenant when the ApplicationDefinition of the
  application selects it. The definitions in charge of a kind come from internal/shared/appdefowner, and a second webhook
  refuses a definition whose kind is taken. Decoding, Go templates and label selectors are arguments; a nil
  dereference and an index out of range are the value \<open>None\<close> of an option or the response \<open>Panics\<close>.
\<close>

subsection \<open>Definitions of applications\<close>

text \<open>\<open>rsSelector\<close> is the label selector as requirements, if it is valid.\<close>

record resourceSelector =
  rsSelector :: "requirement list option"
  rsNames :: "string list option"

record appResources =
  apExclude :: "resourceSelector list"
  apInclude :: "resourceSelector list"

record appDef =
  adName :: string
  adKind :: string
  adCreated :: int
  adAnnotations :: "string \<rightharpoonup> string"
  adSecrets :: appResources
  adServices :: appResources
  adIngresses :: appResources

definition before :: "appDef \<Rightarrow> appDef \<Rightarrow> bool" where
  "before a b \<longleftrightarrow> (if adCreated a \<noteq> adCreated b then adCreated a < adCreated b else adName a < adName b)"

fun ownersLoop :: "(string \<rightharpoonup> appDef) \<Rightarrow> appDef list \<Rightarrow> (string \<rightharpoonup> appDef)" where
  "ownersLoop owner [] = owner"
| "ownersLoop owner (d # ds) =
     (if adKind d = [] then ownersLoop owner ds
      else case owner (adKind d) of
        None \<Rightarrow> ownersLoop (owner(adKind d \<mapsto> d)) ds
      | Some cur \<Rightarrow> ownersLoop (if before d cur then owner(adKind d \<mapsto> d) else owner) ds)"

definition Owners :: "appDef list \<Rightarrow> (string \<rightharpoonup> string)" where
  "Owners defs = (\<lambda>k. map_option adName (ownersLoop Map.empty defs k))"

type_synonym runtimeConfig = "(string \<times> string) \<rightharpoonup> appDef"

definition definitionGroup :: string where "definitionGroup = ''apps.cozystack.io''"

fun configLoop :: "(string \<rightharpoonup> string) \<Rightarrow> appDef list \<Rightarrow> runtimeConfig \<Rightarrow> runtimeConfig" where
  "configLoop owners [] cfg = cfg"
| "configLoop owners (d # ds) cfg =
     configLoop owners ds
       (if adKind d = [] \<or> strOf owners (adKind d) \<noteq> adName d then cfg else cfg((definitionGroup, adKind d) \<mapsto> d))"

text \<open>The controller replaces the configuration when the definitions can be listed.\<close>

definition ReconcileConfig :: "string + appDef list \<Rightarrow> runtimeConfig \<Rightarrow> runtimeConfig" where
  "ReconcileConfig listed cfg =
     (case listed of Inl e \<Rightarrow> cfg | Inr defs \<Rightarrow> configLoop (Owners defs) defs Map.empty)"

subsection \<open>The check of the kind\<close>

definition releaseNameKey :: string where "releaseNameKey = ''meta.helm.sh/release-name''"
definition releaseNamespaceKey :: string where "releaseNamespaceKey = ''meta.helm.sh/release-namespace''"

definition sameHelmRelease :: "appDef \<Rightarrow> appDef \<Rightarrow> bool" where
  "sameHelmRelease a b \<longleftrightarrow>
     strOf (adAnnotations a) releaseNameKey \<noteq> [] \<and>
     strOf (adAnnotations a) releaseNameKey = strOf (adAnnotations b) releaseNameKey \<and>
     strOf (adAnnotations a) releaseNamespaceKey = strOf (adAnnotations b) releaseNamespaceKey"

fun claimedByOther :: "appDef list \<Rightarrow> appDef \<Rightarrow> bool" where
  "claimedByOther [] d = False"
| "claimedByOther (other # os) d =
     (if adName other = adName d \<or> adKind other \<noteq> adKind d then claimedByOther os d
      else if sameHelmRelease other d then claimedByOther os d
      else True)"

datatype kindVerdict = KindAllowed | KindUnchecked string | KindDenied "string option" | KindBadRequest string

text \<open>The request has the new definition and, for an update, the old one.\<close>

definition KindValidatorHandle :: "string + appDef \<Rightarrow> (string + appDef) option \<Rightarrow> string + appDef list \<Rightarrow> kindVerdict" where
  "KindValidatorHandle newObj oldObj listed =
     (case newObj of
        Inl e \<Rightarrow> KindBadRequest e
      | Inr d \<Rightarrow>
          let check = (case listed of
                Inl e \<Rightarrow> KindUnchecked e
              | Inr defs \<Rightarrow>
                  if adKind d = [] \<or> \<not> claimedByOther defs d then KindAllowed else KindDenied (Owners defs (adKind d))) in
          (case oldObj of
             None \<Rightarrow> check
           | Some (Inl e) \<Rightarrow> KindBadRequest e
           | Some (Inr old) \<Rightarrow> if adKind old = adKind d then KindAllowed else check))"

subsection \<open>Selection\<close>

definition matchName :: "(string \<Rightarrow> (string \<rightharpoonup> string) \<Rightarrow> string option) \<Rightarrow> string \<Rightarrow> (string \<rightharpoonup> string) \<Rightarrow> string list option \<Rightarrow> bool" where
  "matchName render name ctx names =
     (case names of None \<Rightarrow> True | Some ts \<Rightarrow> list_ex (\<lambda>t. render t ctx = Some name) ts)"

definition matchResourceToSelector ::
  "(string \<Rightarrow> (string \<rightharpoonup> string) \<Rightarrow> string option) \<Rightarrow> string \<Rightarrow> (string \<rightharpoonup> string) \<Rightarrow> (string \<rightharpoonup> string) \<Rightarrow> resourceSelector \<Rightarrow> bool" where
  "matchResourceToSelector render name ctx labels s =
     (case rsSelector s of None \<Rightarrow> False | Some reqs \<Rightarrow> labelsMatch reqs labels \<and> matchName render name ctx (rsNames s))"

definition matchResourceToSelectorArray ::
  "(string \<Rightarrow> (string \<rightharpoonup> string) \<Rightarrow> string option) \<Rightarrow> string \<Rightarrow> (string \<rightharpoonup> string) \<Rightarrow> (string \<rightharpoonup> string) \<Rightarrow> resourceSelector list \<Rightarrow> bool" where
  "matchResourceToSelectorArray render name ctx labels ss = list_ex (matchResourceToSelector render name ctx labels) ss"

definition matchResourceToExcludeInclude ::
  "(string \<Rightarrow> (string \<rightharpoonup> string) \<Rightarrow> string option) \<Rightarrow> string \<Rightarrow> (string \<rightharpoonup> string) \<Rightarrow> (string \<rightharpoonup> string) \<Rightarrow> appResources option \<Rightarrow> bool" where
  "matchResourceToExcludeInclude render name ctx labels resources =
     (case resources of
        None \<Rightarrow> False
      | Some res \<Rightarrow>
          if matchResourceToSelectorArray render name ctx labels (apExclude res) then False
          else matchResourceToSelectorArray render name ctx labels (apInclude res))"

text \<open>The selectors for a kind of object; \<open>None\<close> is the panic of a nil definition.\<close>

definition getResourceSelectors :: "string \<times> string \<Rightarrow> appDef option \<Rightarrow> appResources option option" where
  "getResourceSelectors gk crd =
     (if gk = ([], ''Secret'') then map_option (\<lambda>d. Some (adSecrets d)) crd
      else if gk = ([], ''Service'') then map_option (\<lambda>d. Some (adServices d)) crd
      else if gk = (''networking.k8s.io'', ''Ingress'') then map_option (\<lambda>d. Some (adIngresses d)) crd
      else Some None)"

subsection \<open>Labels\<close>

definition ManagedObjectKey :: string where "ManagedObjectKey = ''internal.cozystack.io/managed-by-cozystack''"

definition ParseGroupVersion :: "string \<Rightarrow> (string \<times> string) option" where
  "ParseGroupVersion gv =
     (if gv = [] \<or> gv = ''/'' then Some ([], [])
      else case splitOn CHR ''/'' gv of
        [v] \<Rightarrow> Some ([], v)
      | [g, v] \<Rightarrow> Some (g, v)
      | _ \<Rightarrow> None)"

definition groupKind :: "uobj \<Rightarrow> string \<times> string" where
  "groupKind obj = (case ParseGroupVersion (oiVersion (uoID obj)) of
     None \<Rightarrow> ([], oiKind (uoID obj)) | Some (g, v) \<Rightarrow> (g, oiKind (uoID obj)))"

definition alphanumeric :: "char \<Rightarrow> bool" where
  "alphanumeric c \<longleftrightarrow> (CHR ''a'' \<le> c \<and> c \<le> CHR ''z'') \<or> (CHR ''A'' \<le> c \<and> c \<le> CHR ''Z'') \<or> (CHR ''0'' \<le> c \<and> c \<le> CHR ''9'')"

text \<open>The loop that shortens a group, over the reversed string: while the byte b is not alphanumeric, the last
  byte becomes b and is dropped. It panics on the empty string.\<close>

fun shortenLoop :: "char \<Rightarrow> string \<Rightarrow> string option" where
  "shortenLoop b [] = (if alphanumeric b then Some [] else None)"
| "shortenLoop b (c # cs) = (if alphanumeric b then Some (rev (c # cs)) else shortenLoop c cs)"

definition managerGroup :: "string \<Rightarrow> string option" where
  "managerGroup s = (if length s < 63 then Some s else let s' = take 63 s in shortenLoop (s' ! 62) (rev s'))"

definition templateLabels :: "uobj \<Rightarrow> uobj \<Rightarrow> (string \<rightharpoonup> string)" where
  "templateLabels obj owner =
     [''kind'' \<mapsto> toLower (oiKind (uoID owner)), ''name'' \<mapsto> oiName (uoID owner), ''namespace'' \<mapsto> oiNamespace (uoID obj)]"

record webhookEnv =
  whLineage :: lineageEnv
  whRender :: "string \<Rightarrow> (string \<rightharpoonup> string) \<Rightarrow> string option"
  whNamespace :: "string \<Rightarrow> (string \<rightharpoonup> string) option" \<comment> \<open>the labels of a namespace\<close>
  whClass :: "string \<Rightarrow> bool" \<comment> \<open>whether a SchedulingClass can be read\<close>
  whScheduler :: string
  whClassLabel :: string
  whClassAnnotation :: string

datatype label_result = LabelPanic | LabelError | Labels "string \<rightharpoonup> string"

definition computeLabels :: "webhookEnv \<Rightarrow> runtimeConfig \<Rightarrow> uobj \<Rightarrow> uobj option \<Rightarrow> label_result" where
  "computeLabels env cfg obj owner =
     (case owner of
        None \<Rightarrow> Labels Map.empty
      | Some o1 \<Rightarrow>
          (case ParseGroupVersion (oiVersion (uoID o1)) of
             None \<Rightarrow> LabelError
           | Some (g, v) \<Rightarrow>
               (case managerGroup g of
                  None \<Rightarrow> LabelPanic
                | Some g' \<Rightarrow>
                    (case getResourceSelectors (groupKind obj) (cfg (g, oiKind (uoID o1))) of
                       None \<Rightarrow> LabelPanic
                     | Some selectors \<Rightarrow>
                         Labels [ManagedObjectKey \<mapsto> ''true'', appGroupKey \<mapsto> g', appKindKey \<mapsto> oiKind (uoID o1),
                           appNameKey \<mapsto> oiName (uoID o1),
                           tsLabelKey \<mapsto> (if matchResourceToExcludeInclude (whRender env) (oiName (uoID obj)) (templateLabels obj o1)
                             (uoLabels obj) selectors then tsLabelValue else ''false'')]))))"

definition applyLabels :: "uobj \<Rightarrow> (string \<rightharpoonup> string) \<Rightarrow> uobj" where
  "applyLabels obj labels = obj\<lparr>uoLabels := uoLabels obj ++ labels\<rparr>"

definition hasAllLineageLabels :: "uobj \<Rightarrow> bool" where
  "hasAllLineageLabels obj \<longleftrightarrow>
     strOf (uoLabels obj) ManagedObjectKey = ''true'' \<and>
     list_all (\<lambda>k. uoLabels obj k \<noteq> None) [appGroupKey, appKindKey, appNameKey, tsLabelKey]"

subsection \<open>The scheduling class\<close>

text \<open>The names of the scheduler, its label and its annotation belong to another repository.\<close>

definition SchedulingClass :: "uobj \<Rightarrow> string" where "SchedulingClass app = []"

definition applySchedulingClass :: "webhookEnv \<Rightarrow> uobj \<Rightarrow> uobj option \<Rightarrow> string \<Rightarrow> string + uobj" where
  "applySchedulingClass env obj owner ns =
     (if oiKind (uoID obj) \<noteq> ''Pod'' then Inr obj
      else let fromOwner = (case owner of None \<Rightarrow> [] | Some o1 \<Rightarrow> SchedulingClass o1) in
        try_bind
          (if fromOwner \<noteq> [] then Inr fromOwner
           else case whNamespace env ns of None \<Rightarrow> Inl ''getting namespace'' | Some labels \<Rightarrow> Inr (strOf labels (whClassLabel env)))
          (\<lambda>cls.
             if cls = [] \<or> \<not> whClass env cls then Inr obj
             else Inr (obj\<lparr>uoScheduler := whScheduler env, uoAnnotations := (uoAnnotations obj)(whClassAnnotation env \<mapsto> cls),
               uoLabels := (uoLabels obj)(whClassLabel env \<mapsto> cls)\<rparr>)))"

subsection \<open>Admission\<close>

datatype owner_result = NoAncestors | OwnerError | OwnerFound uobj bool \<comment> \<open>whether it is ambiguous\<close>

definition getOwner :: "webhookEnv \<Rightarrow> nat \<Rightarrow> ObjectCache option \<Rightarrow> nat \<Rightarrow> uobj \<Rightarrow> (owner_result \<times> ObjectCache option) option" where
  "getOwner env n cache t obj =
     (case WalkOwnershipGraphWithCache (whLineage env) n cache t obj of
        None \<Rightarrow> None
      | Some ([], st) \<Rightarrow> Some (NoAncestors, wsCache st)
      | Some (i # is, st) \<Rightarrow>
          (case getUnstructuredObject (whLineage env) st (oiVersion i) (oiKind i) (oiNamespace i) (oiName i) of
             (None, st') \<Rightarrow> Some (OwnerError, wsCache st')
           | (Some o1, st') \<Rightarrow> Some (OwnerFound o1 (is \<noteq> []), wsCache st')))"

datatype webhook_response = Refused nat string | Unchanged | Mutated uobj "string list" | Panics

definition admitWith :: "webhookEnv \<Rightarrow> runtimeConfig \<Rightarrow> uobj \<Rightarrow> string \<Rightarrow> uobj option \<Rightarrow> string list \<Rightarrow> webhook_response" where
  "admitWith env cfg obj ns owner warn =
     (case computeLabels env cfg obj owner of
        LabelPanic \<Rightarrow> Panics
      | LabelError \<Rightarrow> Refused 500 ''error computing lineage labels''
      | Labels labels \<Rightarrow>
          (case applySchedulingClass env (applyLabels obj labels) owner ns of
             Inl e \<Rightarrow> Refused 500 ''error applying scheduling class''
           | Inr obj' \<Rightarrow> Mutated obj' warn))"

definition LineageHandle ::
  "webhookEnv \<Rightarrow> runtimeConfig \<Rightarrow> nat \<Rightarrow> ObjectCache option \<Rightarrow> nat \<Rightarrow> string + uobj \<Rightarrow> string \<Rightarrow> (webhook_response \<times> ObjectCache option) option" where
  "LineageHandle env cfg n cache t decoded ns =
     (case decoded of
        Inl e \<Rightarrow> Some (Refused 400 ''decode object'', cache)
      | Inr obj \<Rightarrow>
          if oiKind (uoID obj) \<noteq> ''Pod'' \<and> hasAllLineageLabels obj then Some (Unchanged, cache)
          else case getOwner env n cache t obj of
            None \<Rightarrow> None
          | Some (NoAncestors, cache') \<Rightarrow> Some (admitWith env cfg obj ns None [], cache')
          | Some (OwnerError, cache') \<Rightarrow> Some (Refused 500 ''error computing lineage labels'', cache')
          | Some (OwnerFound o1 ambiguous, cache') \<Rightarrow>
              Some (admitWith env cfg obj ns (Some o1) (if ambiguous then [''object ancestry ambiguous, using first ancestor found''] else []), cache'))"

subsection \<open>Who owns a kind\<close>

text \<open>The definition in charge of a kind was created first, and has the least name among those of its instant.\<close>

definition owns :: "appDef list \<Rightarrow> appDef \<Rightarrow> bool" where
  "owns defs d \<longleftrightarrow> d \<in> set defs \<and> adKind d \<noteq> [] \<and> (\<forall>d' \<in> set defs. adKind d' = adKind d \<longrightarrow> d' = d \<or> before d d')"

lemma not_before_trans: "\<not> before b a \<Longrightarrow> \<not> before c b \<Longrightarrow> \<not> before c a"
  by (auto simp: before_def split: if_splits)

lemma before_linear: "adName a \<noteq> adName b \<Longrightarrow> before a b \<longleftrightarrow> \<not> before b a"
  by (auto simp: before_def)

lemma ownersLoop_least:
  assumes "ownersLoop owner ds k = Some d" "\<And>k' c. owner k' = Some c \<Longrightarrow> adKind c = k' \<and> k' \<noteq> []"
  shows "adKind d = k \<and> k \<noteq> [] \<and> (d \<in> set ds \<or> owner k = Some d) \<and>
    (\<forall>d' \<in> set ds. adKind d' = k \<longrightarrow> \<not> before d' d) \<and> (\<forall>c. owner k = Some c \<longrightarrow> \<not> before c d)"
  using assms
proof (induction ds arbitrary: owner)
  case Nil
  then show ?case by (auto simp: before_def)
next
  case (Cons x ds)
  let ?o = "if adKind x = [] then owner else case owner (adKind x) of None \<Rightarrow> owner(adKind x \<mapsto> x)
    | Some cur \<Rightarrow> if before x cur then owner(adKind x \<mapsto> x) else owner"
  have loop: "ownersLoop ?o ds k = Some d" using Cons(2) by (cases "owner (adKind x)") (auto split: if_splits)
  have kinds: "adKind c = k' \<and> k' \<noteq> []" if "?o k' = Some c" for k' c
    using that Cons(3) by (cases "owner (adKind x)") (auto split: if_splits)
  note ih = Cons(1) [OF loop kinds]
  have least: "\<not> before x c \<and> (\<forall>c'. owner k = Some c' \<longrightarrow> \<not> before c' c)" if "?o k = Some c" "adKind x = k" "k \<noteq> []" for c
    using that by (cases "owner (adKind x)") (auto simp: before_def split: if_splits)
  have keep: "?o k = owner k" if "adKind x \<noteq> k \<or> k = []" using that by (cases "owner (adKind x)") (auto split: if_splits)
  have some: "?o k \<noteq> None" if "adKind x = k" "k \<noteq> []" using that by (cases "owner (adKind x)") auto
  have from_o: "?o k = owner k \<or> ?o k = Some x" by (cases "owner (adKind x)") auto
  show ?case
  proof (cases "adKind x = k")
    case True
    obtain c where c: "?o k = Some c" using some True ih by blast
    have k: "k \<noteq> []" and cd: "\<not> before c d" using ih c by blast+
    note l = least [OF c True k]
    have "\<not> before x d" using not_before_trans [OF cd] l by blast
    moreover have "\<not> before c' d" if "owner k = Some c'" for c' using not_before_trans [OF cd] l that by blast
    moreover have "d \<in> set (x # ds) \<or> owner k = Some d" using ih from_o by auto
    ultimately show ?thesis using ih by simp
  next
    case False
    then show ?thesis using ih keep by auto
  qed
qed

lemma ownersLoop_found: "(\<exists>d \<in> set ds. adKind d = k) \<or> owner k \<noteq> None \<Longrightarrow> k \<noteq> [] \<Longrightarrow> ownersLoop owner ds k \<noteq> None"
proof (induction ds arbitrary: owner)
  case (Cons x ds)
  then show ?case by (cases "owner (adKind x)") auto
qed simp

lemma ownersLoop_owns:
  assumes "distinct (map adName defs)"
  shows "ownersLoop Map.empty defs k = Some d \<longleftrightarrow> owns defs d \<and> adKind d = k"
proof -
  have names: "adName a \<noteq> adName b" if "a \<in> set defs" "b \<in> set defs" "a \<noteq> b" for a b
    using assms that by (auto simp: distinct_map inj_on_def)
  have right: "owns defs d" "adKind d = k" if "ownersLoop Map.empty defs k = Some d" for d
    using ownersLoop_least [OF that] before_linear [OF names] by (auto simp: owns_def)
  moreover have "ownersLoop Map.empty defs k = Some d" if own: "owns defs d" "adKind d = k"
  proof -
    obtain d' where d': "ownersLoop Map.empty defs k = Some d'"
      using ownersLoop_found [of defs k Map.empty] own by (auto simp: owns_def)
    have "d' = d"
    proof (rule ccontr)
      assume "d' \<noteq> d"
      then have "before d d'" "before d' d" using own right [OF d'] by (auto simp: owns_def)
      then show False by (auto simp: before_def split: if_splits)
    qed
    then show ?thesis using d' by simp
  qed
  ultimately show ?thesis by blast
qed

text \<open>The owner does not depend on the order in which the definitions are listed.\<close>

lemma Owners_order:
  assumes "distinct (map adName defs)" "distinct (map adName defs')" "set defs = set defs'"
  shows "Owners defs = Owners defs'"
proof -
  have "ownersLoop Map.empty defs k = ownersLoop Map.empty defs' k" for k
  proof (rule option.expand)
    have "owns defs = owns defs'" using assms(3) by (auto simp: owns_def fun_eq_iff)
    then have "ownersLoop Map.empty defs k = Some d \<longleftrightarrow> ownersLoop Map.empty defs' k = Some d" for d
      using ownersLoop_owns [OF assms(1)] ownersLoop_owns [OF assms(2)] by simp
    then show "(ownersLoop Map.empty defs k = None) = (ownersLoop Map.empty defs' k = None)"
      "ownersLoop Map.empty defs k \<noteq> None \<Longrightarrow> ownersLoop Map.empty defs' k \<noteq> None \<Longrightarrow>
       the (ownersLoop Map.empty defs k) = the (ownersLoop Map.empty defs' k)"
      by (metis not_None_eq, metis option.sel option.exhaust)
  qed
  then show ?thesis by (simp add: Owners_def)
qed

text \<open>The configuration has exactly the owners.\<close>

lemma configLoop_only:
  "configLoop owners ds cfg (g, k) = Some d \<Longrightarrow>
   cfg (g, k) = Some d \<or> d \<in> set ds \<and> g = definitionGroup \<and> adKind d = k \<and> k \<noteq> [] \<and> strOf owners k = adName d"
proof (induction ds arbitrary: cfg)
  case (Cons x ds)
  then show ?case by (fastforce split: if_splits)
qed simp

lemma configLoop_all:
  assumes "\<And>d'. d' \<in> set ds \<Longrightarrow> adKind d' = adKind d \<Longrightarrow> strOf owners (adKind d) = adName d' \<Longrightarrow> d' = d"
    and "d \<in> set ds \<or> cfg (definitionGroup, adKind d) = Some d" "adKind d \<noteq> []" "strOf owners (adKind d) = adName d"
  shows "configLoop owners ds cfg (definitionGroup, adKind d) = Some d"
  using assms(1,2)
proof (induction ds arbitrary: cfg)
  case (Cons x ds)
  show ?case
  proof (cases "x = d")
    case True
    have "configLoop owners ds (cfg((definitionGroup, adKind d) \<mapsto> d)) (definitionGroup, adKind d) = Some d"
      by (rule Cons(1)) (auto intro: Cons(2))
    then show ?thesis using True assms(3,4) by (simp only: configLoop.simps) simp
  next
    case False
    have "adKind x \<noteq> adKind d \<or> strOf owners (adKind x) \<noteq> adName x" using Cons(2) [of x] False by auto
    then have "d \<in> set ds \<or>
        (if adKind x = [] \<or> strOf owners (adKind x) \<noteq> adName x then cfg else cfg((definitionGroup, adKind x) \<mapsto> x)) (definitionGroup, adKind d) = Some d"
      using Cons(3) False by auto
    then have "configLoop owners ds (if adKind x = [] \<or> strOf owners (adKind x) \<noteq> adName x then cfg else cfg((definitionGroup, adKind x) \<mapsto> x))
        (definitionGroup, adKind d) = Some d"
      by (intro Cons(1) Cons(2)) simp_all
    then show ?thesis by simp
  qed
qed simp

lemma ReconcileConfig_owns:
  assumes "distinct (map adName defs)"
  shows "ReconcileConfig (Inr defs) cfg0 (g, k) = Some d \<longleftrightarrow> g = definitionGroup \<and> owns defs d \<and> adKind d = k"
proof -
  have named: "d1 = d2" if "d1 \<in> set defs" "d2 \<in> set defs" "adName d1 = adName d2" for d1 d2
    using assms that by (auto simp: distinct_map inj_on_def)
  have owner: "owns defs d1 \<longleftrightarrow> strOf (Owners defs) (adKind d1) = adName d1" if "d1 \<in> set defs" "adKind d1 \<noteq> []" for d1
  proof (cases "ownersLoop Map.empty defs (adKind d1)")
    case None
    then show ?thesis using ownersLoop_found [of defs "adKind d1" Map.empty] that by auto
  next
    case (Some d2)
    then have "owns defs d2" "adKind d2 = adKind d1" using ownersLoop_owns [OF assms] by blast+
    moreover have "owns defs d1 \<longleftrightarrow> d1 = d2" using ownersLoop_owns [OF assms, of "adKind d1" d1] Some \<open>owns defs d2\<close> by auto
    ultimately show ?thesis using Some named [of d1 d2] that by (auto simp: Owners_def strOf_def owns_def)
  qed
  show ?thesis
  proof
    assume "ReconcileConfig (Inr defs) cfg0 (g, k) = Some d"
    then show "g = definitionGroup \<and> owns defs d \<and> adKind d = k"
      using configLoop_only [of "Owners defs" defs Map.empty g k d] owner [of d] unfolding ReconcileConfig_def by simp
  next
    assume r: "g = definitionGroup \<and> owns defs d \<and> adKind d = k"
    then have d: "d \<in> set defs" "adKind d \<noteq> []" by (auto simp: owns_def)
    have name: "strOf (Owners defs) (adKind d) = adName d" using owner [OF d] r by blast
    have "d' = d" if "d' \<in> set defs" "strOf (Owners defs) (adKind d) = adName d'" for d'
      using named [OF that(1) d(1)] that(2) name by simp
    then have "configLoop (Owners defs) defs Map.empty (definitionGroup, adKind d) = Some d"
      using configLoop_all [OF _ _ d(2) name] d(1) by blast
    then show "ReconcileConfig (Inr defs) cfg0 (g, k) = Some d" using r by (simp add: ReconcileConfig_def)
  qed
qed

subsection \<open>What an admission does to a Secret\<close>

definition lineageKeys :: "string list" where
  "lineageKeys = [ManagedObjectKey, appGroupKey, appKindKey, appNameKey, tsLabelKey]"

lemma lineageKeys_distinct:
  "ManagedObjectKey \<noteq> appGroupKey" "ManagedObjectKey \<noteq> appKindKey" "ManagedObjectKey \<noteq> appNameKey" "ManagedObjectKey \<noteq> tsLabelKey"
  "appGroupKey \<noteq> appKindKey" "appGroupKey \<noteq> appNameKey" "appGroupKey \<noteq> tsLabelKey"
  "appKindKey \<noteq> appNameKey" "appKindKey \<noteq> tsLabelKey" "appNameKey \<noteq> tsLabelKey" "tsLabelValue \<noteq> ''false''"
  by (simp_all add: ManagedObjectKey_def appGroupKey_def appKindKey_def appNameKey_def tsLabelKey_def tsLabelValue_def)

text \<open>The labels of a Secret that belongs to an application: it is the tenant's exactly when the definition in
  charge of the application's kind includes it and does not exclude it.\<close>

definition labelledFor :: "webhookEnv \<Rightarrow> appDef list \<Rightarrow> uobj \<Rightarrow> uobj \<Rightarrow> (string \<rightharpoonup> string) \<Rightarrow> bool" where
  "labelledFor env defs obj o1 labels \<longleftrightarrow>
     (\<exists>d v. ParseGroupVersion (oiVersion (uoID o1)) = Some (definitionGroup, v) \<and> owns defs d \<and> adKind d = oiKind (uoID o1) \<and>
        labels appKindKey = Some (oiKind (uoID o1)) \<and> labels appNameKey = Some (oiName (uoID o1)) \<and> labels appGroupKey = Some definitionGroup \<and>
        (labels tsLabelKey = Some tsLabelValue \<longleftrightarrow>
           matchResourceToSelectorArray (whRender env) (oiName (uoID obj)) (templateLabels obj o1) (uoLabels obj) (apInclude (adSecrets d)) \<and>
           \<not> matchResourceToSelectorArray (whRender env) (oiName (uoID obj)) (templateLabels obj o1) (uoLabels obj) (apExclude (adSecrets d))))"

lemma managerGroup_apps: "managerGroup definitionGroup = Some definitionGroup"
  by (simp add: managerGroup_def definitionGroup_def)

lemma secret_not_pod: "groupKind obj = ([], ''Secret'') \<Longrightarrow> oiKind (uoID obj) \<noteq> ''Pod''"
  by (auto simp: groupKind_def split: option.splits prod.splits)

lemma computeLabels_secret:
  assumes "computeLabels env (ReconcileConfig (Inr defs) cfg0) obj (Some o1) = Labels labels"
    and "groupKind obj = ([], ''Secret'')" "distinct (map adName defs)"
  shows "labelledFor env defs obj o1 (uoLabels obj ++ labels) \<and> dom labels = set lineageKeys \<and> labels ManagedObjectKey = Some ''true''"
proof -
  obtain g v where gv: "ParseGroupVersion (oiVersion (uoID o1)) = Some (g, v)"
    using assms(1) by (auto simp: computeLabels_def split: option.splits)
  obtain g' where g': "managerGroup g = Some g'" using assms(1) gv by (auto simp: computeLabels_def split: option.splits)
  obtain d where d: "ReconcileConfig (Inr defs) cfg0 (g, oiKind (uoID o1)) = Some d"
    using assms(1,2) gv g' by (cases "ReconcileConfig (Inr defs) cfg0 (g, oiKind (uoID o1))") (auto simp: computeLabels_def getResourceSelectors_def)
  then have own: "g = definitionGroup" "owns defs d" "adKind d = oiKind (uoID o1)" using ReconcileConfig_owns [OF assms(3)] by blast+
  have g'': "g' = definitionGroup" using g' own(1) managerGroup_apps by simp
  let ?sel = "matchResourceToExcludeInclude (whRender env) (oiName (uoID obj)) (templateLabels obj o1) (uoLabels obj) (Some (adSecrets d))"
  have labels: "labels = [ManagedObjectKey \<mapsto> ''true'', appGroupKey \<mapsto> definitionGroup, appKindKey \<mapsto> oiKind (uoID o1),
      appNameKey \<mapsto> oiName (uoID o1), tsLabelKey \<mapsto> (if ?sel then tsLabelValue else ''false'')]"
    using assms(1,2) gv g' d g'' by (simp add: computeLabels_def getResourceSelectors_def)
  have "labelledFor env defs obj o1 (uoLabels obj ++ labels)"
    unfolding labelledFor_def
    using gv own by (intro exI [of _ d] exI [of _ v]) (simp add: labels lineageKeys_distinct lineageKeys_distinct(11) [symmetric] matchResourceToExcludeInclude_def)
  moreover have "dom labels = set lineageKeys" by (auto simp: labels lineageKeys_def split: if_splits)
  ultimately show ?thesis by (simp add: labels lineageKeys_distinct)
qed

lemma labelled_complete:
  assumes "dom labels = set lineageKeys" "labels ManagedObjectKey = Some ''true''"
  shows "hasAllLineageLabels (obj\<lparr>uoLabels := m ++ labels\<rparr>)"
proof -
  have "(m ++ labels) k \<noteq> None" if "k \<in> set lineageKeys" for k using that unfolding assms(1) [symmetric] by (auto simp: map_add_def split: option.splits)
  then show ?thesis using assms(2) by (auto simp: hasAllLineageLabels_def lineageKeys_def strOf_def)
qed

text \<open>The application that a depth-first search of the view finds first is one above the object; the owner is
  what the view shows for it.\<close>

definition firstApplication :: "lineageView \<Rightarrow> uobj \<Rightarrow> ObjectID \<Rightarrow> bool" where
  "firstApplication F obj app \<longleftrightarrow>
     (\<exists>o1 \<in> releasesAbove F obj. appOf F o1 = Some app) \<and> (\<exists>n apps V. search F n obj {} = Some (app # apps, V))"

definition ownerFor :: "lineageView \<Rightarrow> uobj \<Rightarrow> uobj \<Rightarrow> bool" where
  "ownerFor F obj o1 \<longleftrightarrow> (\<exists>app. firstApplication F obj app \<and> F app = Some o1)"

text \<open>Whether more than one object above stands for an application.\<close>

definition ambiguousFor :: "lineageView \<Rightarrow> uobj \<Rightarrow> bool" where
  "ambiguousFor F obj \<longleftrightarrow> card (releasesAbove F obj) > 1"

definition lineageReady :: "lineageView \<Rightarrow> nat \<Rightarrow> uobj \<Rightarrow> bool" where
  "lineageReady F n obj \<longleftrightarrow>
     finite {o1. lineageAncestor F obj o1} \<and> inj_on uoID {o1. lineageAncestor F obj o1} \<and> card {o1. lineageAncestor F obj o1} < n"

lemma getOwner_result:
  assumes "cacheShows (whLineage env) F t cache" "lineageReady F n obj"
  obtains t' cache' where "t \<le> t'" "cacheShows (whLineage env) F t' cache'" "getOwner env n cache t obj = Some (NoAncestors, cache')" "releasesAbove F obj = {}"
  | t' cache' app where "t \<le> t'" "cacheShows (whLineage env) F t' cache'" "getOwner env n cache t obj = Some (OwnerError, cache')"
      "firstApplication F obj app" "F app = None"
  | t' cache' o1 where "t \<le> t'" "cacheShows (whLineage env) F t' cache'"
      "getOwner env n cache t obj = Some (OwnerFound o1 (ambiguousFor F obj), cache')" "ownerFor F obj o1"
proof -
  let ?L = "whLineage env"
  have fin: "finite (releasesAbove F obj)"
    using assms(2) finite_subset [of "releasesAbove F obj" "{o1. lineageAncestor F obj o1}"] by (auto simp: lineageReady_def releasesAbove_def)
  obtain out st where w: "WalkOwnershipGraphWithCache ?L n cache t obj = Some (out, st)" "search F n obj {} = Some (out, wsVisited st)"
    "stateShows ?L F t st"
    using walk_exact [OF assms(1), of obj n] assms(2) unfolding lineageReady_def by blast
  have apps: "set out = {app. \<exists>o1. lineageAncestor F obj o1 \<and> appOf F o1 = Some app}" "length out = card (releasesAbove F obj)"
    using search_exact [OF w(2)] assms(2) by (simp_all add: lineageReady_def)
  show ?thesis
  proof (cases out)
    case Nil
    then have "releasesAbove F obj = {}" using apps(2) fin by simp
    then show ?thesis using that(1) [of "wsClock st" "wsCache st"] w Nil by (simp add: getOwner_def stateShows_def)
  next
    case (Cons i js)
    obtain r st' where got: "getUnstructuredObject ?L st (oiVersion i) (oiKind i) (oiNamespace i) (oiName i) = (r, st')" by fastforce
    have f: "F i = r" "stateShows ?L F t st'"
      using getUnstructuredObject_state [OF w(3) got] by (cases i; simp add: objectID_def)+
    have "i \<in> set out" by (simp add: Cons)
    then have first: "firstApplication F obj i" using w(2) Cons unfolding apps(1) firstApplication_def releasesAbove_def by blast
    show ?thesis
    proof (cases r)
      case None
      then show ?thesis using that(2) [of "wsClock st'" "wsCache st'" i] w Cons got f first by (simp add: getOwner_def stateShows_def)
    next
      case (Some o1)
      have "js \<noteq> [] \<longleftrightarrow> ambiguousFor F obj" using apps(2) Cons by (cases js) (simp_all add: ambiguousFor_def)
      moreover have "ownerFor F obj o1" using first f(1) Some unfolding ownerFor_def by metis
      ultimately show ?thesis using that(3) [of "wsClock st'" "wsCache st'" o1] w Cons got Some f by (simp add: getOwner_def stateShows_def)
    qed
  qed
qed

lemma applySchedulingClass_secret:
  "groupKind obj = ([], ''Secret'') \<Longrightarrow> applySchedulingClass env (applyLabels obj labels) owner ns = Inr (applyLabels obj labels)"
  using secret_not_pod by (simp add: applySchedulingClass_def applyLabels_def)

text \<open>Without a definition in charge of the owner's kind the handler dereferences nil.\<close>

lemma computeLabels_panics:
  assumes "computeLabels env (ReconcileConfig (Inr defs) cfg0) obj (Some o1) = LabelPanic" "distinct (map adName defs)"
  shows "\<not> (\<exists>d v. ParseGroupVersion (oiVersion (uoID o1)) = Some (definitionGroup, v) \<and> owns defs d \<and> adKind d = oiKind (uoID o1))"
proof
  assume "\<exists>d v. ParseGroupVersion (oiVersion (uoID o1)) = Some (definitionGroup, v) \<and> owns defs d \<and> adKind d = oiKind (uoID o1)"
  then obtain d v where d: "ParseGroupVersion (oiVersion (uoID o1)) = Some (definitionGroup, v)"
    "ReconcileConfig (Inr defs) cfg0 (definitionGroup, oiKind (uoID o1)) = Some d"
    using ReconcileConfig_owns [OF assms(2)] by blast
  then show False using assms(1) managerGroup_apps
    by (auto simp: computeLabels_def getResourceSelectors_def split: if_splits)
qed

definition inCharge :: "appDef list \<Rightarrow> uobj \<Rightarrow> bool" where
  "inCharge defs o1 \<longleftrightarrow>
     (\<exists>d v. ParseGroupVersion (oiVersion (uoID o1)) = Some (definitionGroup, v) \<and> owns defs d \<and> adKind d = oiKind (uoID o1))"

definition ambiguityWarning :: "lineageView \<Rightarrow> uobj \<Rightarrow> string list" where
  "ambiguityWarning F obj = (if ambiguousFor F obj then [''object ancestry ambiguous, using first ancestor found''] else [])"

definition secretAdmitted :: "webhookEnv \<Rightarrow> lineageView \<Rightarrow> appDef list \<Rightarrow> uobj \<Rightarrow> webhook_response \<Rightarrow> bool" where
  "secretAdmitted env F defs obj r \<longleftrightarrow>
     (if hasAllLineageLabels obj then r = Unchanged
      else case r of
        Unchanged \<Rightarrow> False
      | Mutated obj' warn \<Rightarrow>
          releasesAbove F obj = {} \<and> obj' = obj \<and> warn = [] \<or>
          (\<exists>o1. ownerFor F obj o1 \<and> labelledFor env defs obj o1 (uoLabels obj') \<and> hasAllLineageLabels obj' \<and>
             obj' = obj\<lparr>uoLabels := uoLabels obj'\<rparr> \<and> (\<forall>k. k \<notin> set lineageKeys \<longrightarrow> uoLabels obj' k = uoLabels obj k)) \<and>
          warn = ambiguityWarning F obj
      | Refused code msg \<Rightarrow>
          code = 500 \<and>
          (\<exists>app. firstApplication F obj app \<and>
             (case F app of None \<Rightarrow> True | Some o1 \<Rightarrow> ParseGroupVersion (oiVersion (uoID o1)) = None))
      | Panics \<Rightarrow> (\<exists>o1. ownerFor F obj o1 \<and> \<not> inCharge defs o1))"

lemma computeLabels_error:
  "computeLabels env cfg obj (Some o1) = LabelError \<Longrightarrow> ParseGroupVersion (oiVersion (uoID o1)) = None"
  by (auto simp: computeLabels_def split: option.splits)

lemma admitWith_owner:
  assumes "groupKind obj = ([], ''Secret'')" "distinct (map adName defs)" "ownerFor F obj o1" "\<not> hasAllLineageLabels obj"
  shows "secretAdmitted env F defs obj (admitWith env (ReconcileConfig (Inr defs) cfg0) obj ns (Some o1) (ambiguityWarning F obj))"
proof (cases "computeLabels env (ReconcileConfig (Inr defs) cfg0) obj (Some o1)")
  case LabelPanic
  then show ?thesis using computeLabels_panics [OF LabelPanic assms(2)] assms(3,4)
    by (auto simp: admitWith_def secretAdmitted_def inCharge_def)
next
  case LabelError
  obtain app where "firstApplication F obj app" "F app = Some o1" using assms(3) by (auto simp: ownerFor_def)
  then show ?thesis using computeLabels_error [OF LabelError] LabelError assms(4) unfolding admitWith_def secretAdmitted_def by auto
next
  case (Labels labels)
  note l = computeLabels_secret [OF Labels assms(1,2)]
  have "uoLabels obj k = (uoLabels obj ++ labels) k" if "k \<notin> set lineageKeys" for k
    using that l by (auto simp: map_add_def dom_def split: option.splits)
  moreover have "hasAllLineageLabels (applyLabels obj labels)" using l labelled_complete by (simp add: applyLabels_def)
  ultimately have "secretAdmitted env F defs obj (Mutated (applyLabels obj labels) (ambiguityWarning F obj))"
    using l assms(3,4) unfolding secretAdmitted_def by (auto simp: applyLabels_def)
  then show ?thesis using Labels applySchedulingClass_secret [OF assms(1)] by (simp add: admitWith_def)
qed


subsection \<open>An example\<close>

text \<open>The Secret of the example of the walk, where two definitions declare the kind; the one in charge shows every Secret
  that is not named like the application with the suffix key.\<close>

definition demoDef :: "string \<Rightarrow> int \<Rightarrow> appResources \<Rightarrow> appDef" where
  "demoDef name created secrets =
     \<lparr>adName = name, adKind = ''Postgres'', adCreated = created, adAnnotations = Map.empty, adSecrets = secrets,
      adServices = \<lparr>apExclude = [], apInclude = []\<rparr>, adIngresses = \<lparr>apExclude = [], apInclude = []\<rparr>\<rparr>"

definition demoDefs :: "appDef list" where
  "demoDefs = [demoDef ''impostor'' 9 \<lparr>apExclude = [], apInclude = []\<rparr>,
     demoDef ''postgres'' 4 \<lparr>apExclude = [\<lparr>rsSelector = Some [], rsNames = Some [''db-key'']\<rparr>],
       apInclude = [\<lparr>rsSelector = Some [], rsNames = None\<rparr>]\<rparr>]"

definition demoWebhook :: webhookEnv where
  "demoWebhook = \<lparr>whLineage = demoLineage, whRender = (\<lambda>t ctx. Some t), whNamespace = (\<lambda>n. Some Map.empty), whClass = (\<lambda>c. False),
     whScheduler = ''s'', whClassLabel = ''l'', whClassAnnotation = ''a''\<rparr>"


text \<open>On the example the Secret db-tls becomes the tenant's.\<close>

lemma demoWebhook_marks:
  "\<exists>labels. computeLabels demoWebhook (ReconcileConfig (Inr demoDefs) Map.empty) demoChild (Some demoOwnerApp) = Labels labels \<and>
     labels tsLabelKey = Some tsLabelValue"
proof -
  have app: "ParseGroupVersion (oiVersion (uoID demoOwnerApp)) = Some (definitionGroup, ''v1alpha1'')" "oiKind (uoID demoOwnerApp) = ''Postgres''"
    by (simp_all add: demoLineage_defs ParseGroupVersion_def definitionGroup_def)
  have secret: "groupKind demoChild = ([], ''Secret'')" "oiName (uoID demoChild) = ''db-tls''"
    by (simp_all add: groupKind_def ParseGroupVersion_def demoLineage_defs)
  let ?d = "demoDefs ! 1"
  have "distinct (map adName demoDefs)" "owns demoDefs ?d" "adKind ?d = ''Postgres''"
    by (simp_all add: demoDefs_def demoDef_def owns_def before_def)
  then have cfg: "ReconcileConfig (Inr demoDefs) Map.empty (definitionGroup, ''Postgres'') = Some ?d" using ReconcileConfig_owns by blast
  have "matchResourceToExcludeInclude (whRender demoWebhook) ''db-tls'' ctx labels (Some (adSecrets ?d))" for ctx labels
    by (simp add: matchResourceToExcludeInclude_def matchResourceToSelectorArray_def matchResourceToSelector_def matchName_def labelsMatch_def
        demoWebhook_def demoDefs_def demoDef_def)
  then show ?thesis using cfg app secret managerGroup_apps by (simp add: computeLabels_def getResourceSelectors_def)
qed

subsection \<open>What the handler does not do\<close>

text \<open>A Secret whose application is of a kind without a definition, or one admitted before the first listing, makes
  the handler dereference nil.\<close>

lemma secret_without_definition_panics:
  "admitWith demoWebhook Map.empty demoChild ''tenant-a'' (Some demoOwnerApp) [] = Panics"
proof -
  have app: "ParseGroupVersion (oiVersion (uoID demoOwnerApp)) = Some (definitionGroup, ''v1alpha1'')"
    by (simp add: demoLineage_defs ParseGroupVersion_def definitionGroup_def)
  have secret: "groupKind demoChild = ([], ''Secret'')" by (simp add: groupKind_def ParseGroupVersion_def demoLineage_defs)
  show ?thesis using app secret managerGroup_apps by (simp add: admitWith_def computeLabels_def getResourceSelectors_def)
qed

text \<open>The loop that shortens a long group drops one byte more than it has looked at: the label can still end in a dot.\<close>

lemma managerGroup_ends_in_dot:
  "managerGroup (replicate 60 CHR ''a'' @ ''.b.com'') = Some (replicate 60 CHR ''a'' @ ''.'')"
  by code_simp

text \<open>The class that an application asks for is never read: a Pod gets the class of its namespace.\<close>

lemma owner_class_ignored: "applySchedulingClass env obj (Some o1) ns = applySchedulingClass env obj None ns"
  by (simp add: applySchedulingClass_def SchedulingClass_def)

text \<open>A Secret that the webhook marks is what the TenantSecret API shows.\<close>

lemma marked_is_tenant_secret:
  "seLabels sec = labels \<Longrightarrow> isTenantSecret sec \<longleftrightarrow> labels tsLabelKey = Some tsLabelValue"
  by (auto simp: isTenantSecret_def strOf_def tsLabelValue_def split: option.splits)

text \<open>An admitted definition does not take a kind from its owner, unless it replaces one of its own release.\<close>

lemma admitted_kind_free:
  assumes "KindValidatorHandle (Inr d) None (Inr defs) = KindAllowed" "adKind d \<noteq> []" "other \<in> set defs" "adKind other = adKind d"
  shows "adName other = adName d \<or> sameHelmRelease other d"
proof -
  have "\<not> claimedByOther defs d" using assms(1,2) by (auto simp: KindValidatorHandle_def Let_def split: if_splits)
  then show ?thesis using assms(3,4) by (induction defs) (auto split: if_splits)
qed

end
