(* ===== verification/Workload_Monitor.thy ===== *)
theory Workload_Monitor
  imports Go_Prelude
begin

text \<open>
  The monitor of workloads (internal/controller/workloadmonitor\_controller.go): for every Pod, PersistentVolumeClaim,
  load balancer Service and BucketClaim that a WorkloadMonitor selects it keeps a Workload with the resources to
  account for, and it keeps the status of the monitor. The Workloads of the namespace are a map by name. What a
  pass reads, which of its writes fail, JSON, quantities and the answer of Prometheus are a record \<open>wmEnv\<close>.
  Quantities are rational numbers, counts of Pods integers. Then the controller that deletes Workloads without a
  monitor (internal/controller/workload\_controller.go).
\<close>

subsection \<open>Strings\<close>

definition trimRight :: "char \<Rightarrow> string \<Rightarrow> string" where
  "trimRight c s = rev (dropWhile (\<lambda>x. x = c) (rev s))"

text \<open>\<open>strings.Split\<close> for a separator that is not empty, over the reversed part that has been read.\<close>

function splitStr :: "string \<Rightarrow> string \<Rightarrow> string \<Rightarrow> string list" where
  "splitStr sep cur [] = [rev cur]"
| "splitStr sep cur (c # cs) =
     (if sep \<noteq> [] \<and> take (length sep) (c # cs) = sep then rev cur # splitStr sep [] (drop (length sep) (c # cs))
      else splitStr sep (c # cur) cs)"
  by pat_completeness auto
termination
  by (relation "measure (\<lambda>(sep, cur, s). length s)") (auto simp: less_Suc_eq_le Suc_diff_le le_diff_conv neq_Nil_conv)

subsection \<open>Objects\<close>

record wlOwner =
  woVersion :: string
  woKind :: string
  woName :: string
  woUID :: string

record Workload =
  wlLabels :: "string \<rightharpoonup> string"
  wlOwners :: "wlOwner list"
  wlKind :: string
  wlType :: string
  wlResources :: "string \<rightharpoonup> rat"
  wlOperational :: bool

text \<open>A source object; \<open>moAnnotations\<close> may be nil.\<close>

record monitored =
  moRef :: wlOwner
  moLabels :: "string \<rightharpoonup> string"
  moAnnotations :: "(string \<rightharpoonup> string) option"

record Pod = monitored +
  pdConditions :: "(string \<times> string) list"
  pdRequests :: "(string \<times> rat) list list" \<comment> \<open>of each container\<close>

record Claim = monitored +
  clPhase :: string
  clCapacity :: "(string \<times> rat) list"
  clClass :: "string option"
  clController :: "wlOwner option"

record Service = monitored +
  svType :: string
  svIngress :: "string list" \<comment> \<open>the addresses of the load balancer, empty for a host name\<close>

record BucketClaim = monitored +
  bcClass :: string
  bcReady :: bool
  bcBucket :: string

record WorkloadMonitorStatus =
  msOperational :: "bool option"
  msAvailable :: int
  msObserved :: int
  msMessage :: string
  msReason :: string

record WorkloadMonitor =
  wmName :: string
  wmNamespace :: string
  wmLabels :: "string \<rightharpoonup> string"
  wmSelector :: "(string \<times> string) list"
  wmKind :: string
  wmType :: string
  wmMinReplicas :: "int option"
  wmStatus :: WorkloadMonitorStatus

record DataVolume =
  dvName :: string
  dvPhase :: string
  dvConditions :: "(string \<times> string \<times> string) list" \<comment> \<open>type, status, message\<close>

text \<open>The reader of DataVolumes: none is installed, its watch has not synced, the kind is unknown, or a list.\<close>

datatype dvReader = NoReader | WatchSyncing | NoMatch | ReadError string | ReadList "DataVolume list"

record promSample =
  psBucket :: string
  psName :: string
  psValue :: "string option" \<comment> \<open>the value, if it is a string\<close>

datatype status_reply = StatusOk | StatusConflict | StatusError string

record wmEnv =
  weMonitor :: "WorkloadMonitor fetched"
  wePods :: "string + Pod list"
  weReader :: dvReader
  weClaims :: "string + Claim list"
  weServices :: "string + Service list"
  weBuckets :: "string + BucketClaim list"
  weWriteErr :: "string \<Rightarrow> string option" \<comment> \<open>of the Workload with this name\<close>
  weEndpoint :: string
  weNamespace :: "string \<Rightarrow> (string \<rightharpoonup> string) fetched"
  weQuery :: "string \<Rightarrow> string \<Rightarrow> string + string \<times> promSample list" \<comment> \<open>status and samples for an address and a query\<close>
  weBytes :: "string \<Rightarrow> int option" \<comment> \<open>\<open>strconv.ParseFloat\<close> and the conversion to \<open>int64\<close>\<close>
  weJson :: "string \<Rightarrow> (string \<times> string) list option"
  weQuantity :: "string \<Rightarrow> rat option"
  weValidLabel :: "string \<Rightarrow> bool"
  weFresh :: "nat \<Rightarrow> WorkloadMonitor fetched"
  weStatus :: "nat \<Rightarrow> status_reply"

subsection \<open>Labels and owners\<close>

definition workloadLabelPrefix :: string where "workloadLabelPrefix = ''workloads.cozystack.io/''"
definition workloadMonitorLabel :: string where "workloadMonitorLabel = workloadLabelPrefix @ ''monitor''"
definition bucketClassLabel :: string where "bucketClassLabel = workloadLabelPrefix @ ''bucket-class''"
definition instanceTypeLabel :: string where "instanceTypeLabel = workloadLabelPrefix @ ''kubevirt-vmi-instance-type''"
definition instanceProfileLabel :: string where "instanceProfileLabel = workloadLabelPrefix @ ''kubevirt-vmi-instance-profile''"

definition updateOwnerReferences :: "wlOwner list \<Rightarrow> wlOwner \<Rightarrow> wlOwner list" where
  "updateOwnerReferences owners src =
     sort_key woUID (if list_ex (\<lambda>w. woUID w = woUID src) owners then owners else owners @ [src])"

definition getMonitorLabels :: "WorkloadMonitor \<Rightarrow> (string \<rightharpoonup> string)" where
  "getMonitorLabels mon =
     (\<lambda>k. if cutPrefix k workloadLabelPrefix = None then None else if k = workloadMonitorLabel then None else wmLabels mon k)"

definition annotationOf :: "(string \<rightharpoonup> string) option \<Rightarrow> string \<Rightarrow> string option" where
  "annotationOf as k = (case as of None \<Rightarrow> None | Some m \<Rightarrow> m k)"

definition getWorkloadMetadata :: "(string \<rightharpoonup> string) option \<Rightarrow> (string \<rightharpoonup> string)" where
  "getWorkloadMetadata as =
     (\<lambda>k. if k = instanceTypeLabel then annotationOf as ''kubevirt.io/cluster-instancetype-name''
          else if k = instanceProfileLabel then annotationOf as ''kubevirt.io/cluster-preference-name'' else None)"

definition workloadLabels :: "WorkloadMonitor \<Rightarrow> (string \<rightharpoonup> string) \<Rightarrow> (string \<rightharpoonup> string) \<Rightarrow> (string \<rightharpoonup> string)" where
  "workloadLabels mon stored source = ((stored ++ getMonitorLabels mon) ++ source)(workloadMonitorLabel \<mapsto> wmName mon)"

definition blankWorkload :: Workload where
  "blankWorkload = \<lparr>wlLabels = Map.empty, wlOwners = [], wlKind = [], wlType = [], wlResources = Map.empty, wlOperational = False\<rparr>"

type_synonym workloads = "string \<rightharpoonup> Workload"

text \<open>\<open>CreateOrUpdate\<close>: the function sees the stored Workload, if there is one.\<close>

definition createOrUpdate :: "wmEnv \<Rightarrow> string \<Rightarrow> (Workload option \<Rightarrow> Workload) \<Rightarrow> workloads \<Rightarrow> workloads \<times> string option" where
  "createOrUpdate env name f ws =
     (case weWriteErr env name of Some e \<Rightarrow> (ws, Some e) | None \<Rightarrow> (ws(name \<mapsto> f (ws name)), None))"

definition orBlank :: "Workload option \<Rightarrow> Workload" where
  "orBlank w = (case w of None \<Rightarrow> blankWorkload | Some x \<Rightarrow> x)"

subsection \<open>Pods\<close>

definition isPodReady :: "Pod \<Rightarrow> bool" where
  "isPodReady pod \<longleftrightarrow> list_ex (\<lambda>(t, s). t = ''Ready'' \<and> s = ''True'') (pdConditions pod)"

definition addRequests :: "(string \<times> rat) list \<Rightarrow> (string \<rightharpoonup> rat) \<Rightarrow> (string \<rightharpoonup> rat)" where
  "addRequests reqs m = fold (\<lambda>(n, q) m. m(n \<mapsto> (case m n of None \<Rightarrow> q | Some e \<Rightarrow> e + q))) reqs m"

definition annotatedResources :: "wmEnv \<Rightarrow> Pod \<Rightarrow> (string \<times> string) list" where
  "annotatedResources env pod =
     (case annotationOf (moAnnotations pod) ''workload.cozystack.io/resources'' of
        None \<Rightarrow> []
      | Some s \<Rightarrow> (case weJson env s of None \<Rightarrow> [] | Some kvs \<Rightarrow> kvs))"

definition podResources :: "wmEnv \<Rightarrow> Pod \<Rightarrow> (string \<rightharpoonup> rat)" where
  "podResources env pod =
     fold (\<lambda>(k, v) m. case weQuantity env v of None \<Rightarrow> m | Some q \<Rightarrow> m(k \<mapsto> q)) (annotatedResources env pod)
       (fold addRequests (pdRequests pod) Map.empty)"

definition podWorkload :: "wmEnv \<Rightarrow> WorkloadMonitor \<Rightarrow> Pod \<Rightarrow> Workload option \<Rightarrow> Workload" where
  "podWorkload env mon pod stored =
     (let w = orBlank stored in
      \<lparr>wlLabels = workloadLabels mon (wlLabels w) (moLabels pod) ++ getWorkloadMetadata (moAnnotations pod),
       wlOwners = updateOwnerReferences (wlOwners w) (moRef pod), wlKind = wmKind mon, wlType = wmType mon,
       wlResources = podResources env pod, wlOperational = isPodReady pod\<rparr>)"

definition reconcilePodForMonitor :: "wmEnv \<Rightarrow> WorkloadMonitor \<Rightarrow> Pod \<Rightarrow> workloads \<Rightarrow> workloads \<times> string option" where
  "reconcilePodForMonitor env mon pod ws = createOrUpdate env (''pod-'' @ woName (moRef pod)) (podWorkload env mon pod) ws"

fun podLoop :: "wmEnv \<Rightarrow> WorkloadMonitor \<Rightarrow> Pod list \<Rightarrow> workloads \<Rightarrow> workloads \<times> int \<times> int" where
  "podLoop env mon [] ws = (ws, 0, 0)"
| "podLoop env mon (pod # pods) ws =
     (case reconcilePodForMonitor env mon pod ws of
        (ws1, err) \<Rightarrow>
          (case podLoop env mon pods ws1 of
             (ws2, observed, available) \<Rightarrow> (ws2, observed + 1, (if err = None \<and> isPodReady pod then available + 1 else available))))"

subsection \<open>DataVolumes\<close>

definition dataVolumeInFlightPhases :: "string list" where
  "dataVolumeInFlightPhases =
     [''Pending'', ''PVCBound'', ''ImportScheduled'', ''ImportInProgress'', ''CloneScheduled'', ''CloneInProgress'',
      ''SnapshotForSmartCloneInProgress'', ''CloneFromSnapshotSourceInProgress'', ''SmartClonePVCInProgress'', ''CSICloneInProgress'',
      ''PrepClaimInProgress'', ''RebindInProgress'', ''ExpansionInProgress'', ''NamespaceTransferInProgress'', ''UploadScheduled'',
      ''UploadReady'']"

definition isDataVolumeReady :: "DataVolume \<Rightarrow> bool" where
  "isDataVolumeReady dv \<longleftrightarrow>
     dvPhase dv \<notin> {[], ''Failed'', ''Unknown''} \<and> dvPhase dv \<notin> set dataVolumeInFlightPhases"

definition dataVolumeFailureMessage :: "DataVolume \<Rightarrow> string" where
  "dataVolumeFailureMessage dv =
     (case find (\<lambda>(t, s, m). t = ''Running'' \<and> s = ''False'') (dvConditions dv) of
        None \<Rightarrow> []
      | Some (t, s, m) \<Rightarrow> joinStr '' and '' (filter (\<lambda>p. p \<noteq> []) (splitStr '' and '' [] m)))"

definition dataVolumeEntry :: "DataVolume \<Rightarrow> string" where
  "dataVolumeEntry dv =
     (''DataVolume '' @ dvName dv @ (if dvPhase dv = [] then '' has no phase'' else '' is '' @ dvPhase dv)) @
     (if dataVolumeFailureMessage dv \<noteq> [] then '': '' @ dataVolumeFailureMessage dv else [])"

text \<open>The message, the DataVolumes that are not ready, whether they were read, and an error.\<close>

datatype dv_error = DvSyncing | DvRead string

definition dataVolumesMessage :: "dvReader \<Rightarrow> string \<times> string list \<times> bool \<times> dv_error option" where
  "dataVolumesMessage reader =
     (case reader of
        NoReader \<Rightarrow> ([], [], False, None)
      | WatchSyncing \<Rightarrow> ([], [], False, Some DvSyncing)
      | NoMatch \<Rightarrow> ([], [], True, None)
      | ReadError e \<Rightarrow> ([], [], False, Some (DvRead e))
      | ReadList dvs \<Rightarrow>
          let stuck = filter (\<lambda>dv. \<not> isDataVolumeReady dv) dvs in
          (joinStr ''; '' (sort (map dataVolumeEntry stuck)), map dvName stuck, True, None))"

subsection \<open>Claims\<close>

definition isPVCReady :: "Claim \<Rightarrow> bool" where "isPVCReady pvc \<longleftrightarrow> clPhase pvc = ''Bound''"

definition claimResources :: "Claim \<Rightarrow> (string \<rightharpoonup> rat)" where
  "claimResources pvc =
     fold (\<lambda>(n, q) m. m((case clClass pvc of Some c \<Rightarrow> if c \<noteq> [] then c else ''default'' | None \<Rightarrow> ''default'') @
         ''.storageclass.storage.k8s.io/requests.'' @ n \<mapsto> q)) (clCapacity pvc) Map.empty"

definition claimOperational :: "Claim \<Rightarrow> string list \<Rightarrow> bool \<Rightarrow> Workload option \<Rightarrow> bool" where
  "claimOperational pvc notReady dvRead stored =
     (case clController pvc of
        None \<Rightarrow> isPVCReady pvc
      | Some owner \<Rightarrow>
          if woKind owner = ''DataVolume'' \<and> woVersion owner = ''cdi.kubevirt.io/v1beta1'' then
            (if \<not> dvRead then (case stored of None \<Rightarrow> isPVCReady pvc | Some w \<Rightarrow> wlOperational w)
             else if woName owner \<in> set notReady then False else isPVCReady pvc)
          else isPVCReady pvc)"

definition claimWorkload :: "WorkloadMonitor \<Rightarrow> Claim \<Rightarrow> string list \<Rightarrow> bool \<Rightarrow> Workload option \<Rightarrow> Workload" where
  "claimWorkload mon pvc notReady dvRead stored =
     (let w = orBlank stored in
      \<lparr>wlLabels = workloadLabels mon (wlLabels w) (moLabels pvc), wlOwners = updateOwnerReferences (wlOwners w) (moRef pvc),
       wlKind = wmKind mon, wlType = wmType mon, wlResources = claimResources pvc,
       wlOperational = claimOperational pvc notReady dvRead stored\<rparr>)"

definition reconcilePVCForMonitor ::
  "wmEnv \<Rightarrow> WorkloadMonitor \<Rightarrow> string list \<Rightarrow> bool \<Rightarrow> Claim \<Rightarrow> workloads \<Rightarrow> workloads \<times> string option" where
  "reconcilePVCForMonitor env mon notReady dvRead pvc ws =
     createOrUpdate env (''pvc-'' @ woName (moRef pvc)) (claimWorkload mon pvc notReady dvRead) ws"

subsection \<open>Services\<close>

definition isServiceReady :: "Service \<Rightarrow> bool" where "isServiceReady svc \<longleftrightarrow> svIngress svc \<noteq> []"

definition serviceResources :: "Service \<Rightarrow> (string \<rightharpoonup> rat)" where
  "serviceResources svc =
     (let pool = (case moAnnotations svc of
            None \<Rightarrow> []
          | Some m \<Rightarrow> (case m ''metallb.universe.tf/ip-allocated-from-pool'' of None \<Rightarrow> ''default'' | Some p \<Rightarrow> p)) in
      [pool @ ''.ipaddresspool.metallb.io/requests.ipaddresses'' \<mapsto> of_nat (length (filter (\<lambda>ip. ip \<noteq> []) (svIngress svc)))])"

definition serviceWorkload :: "WorkloadMonitor \<Rightarrow> Service \<Rightarrow> Workload option \<Rightarrow> Workload" where
  "serviceWorkload mon svc stored =
     (let w = orBlank stored in
      \<lparr>wlLabels = workloadLabels mon (wlLabels w) (moLabels svc), wlOwners = updateOwnerReferences (wlOwners w) (moRef svc),
       wlKind = wmKind mon, wlType = wmType mon, wlResources = serviceResources svc, wlOperational = isServiceReady svc\<rparr>)"

definition reconcileServiceForMonitor :: "wmEnv \<Rightarrow> WorkloadMonitor \<Rightarrow> Service \<Rightarrow> workloads \<Rightarrow> workloads \<times> string option" where
  "reconcileServiceForMonitor env mon svc ws = createOrUpdate env (''svc-'' @ woName (moRef svc)) (serviceWorkload mon svc) ws"

subsection \<open>Sizes of buckets\<close>

record bucketMetrics =
  LogicalSize :: int
  PhysicalSize :: int
  HasLogical :: bool
  HasPhysical :: bool

definition noMetrics :: bucketMetrics where
  "noMetrics = \<lparr>LogicalSize = 0, PhysicalSize = 0, HasLogical = False, HasPhysical = False\<rparr>"

text \<open>The scheme, host, query and fragment of a URL with its text come from the parser.\<close>

definition ParseMetricsEndpointURL :: "(string \<Rightarrow> string + string \<times> string \<times> string \<times> string \<times> string) \<Rightarrow> string \<Rightarrow> string + string" where
  "ParseMetricsEndpointURL parse raw =
     try_bind (parse raw) (\<lambda>(scheme, host, query, fragment, txt).
       if scheme \<noteq> ''http'' \<and> scheme \<noteq> ''https'' then Inl ''scheme must be http or https''
       else if host = [] then Inl ''URL must be absolute with a host''
       else if query \<noteq> [] \<or> fragment \<noteq> [] then Inl ''URL must not carry a query string or fragment''
       else Inr (trimRight CHR ''/'' txt))"

definition resolvePrometheusURL :: "wmEnv \<Rightarrow> string \<Rightarrow> string + string" where
  "resolvePrometheusURL env ns =
     (if weEndpoint env \<noteq> [] then Inr (weEndpoint env)
      else case weNamespace env ns of
        Missing \<Rightarrow> Inr []
      | FetchError e \<Rightarrow> Inl (''reading namespace '' @ ns @ '': '' @ e)
      | Found labels \<Rightarrow>
          let monitoring = strOf labels ''namespace.cozystack.io/monitoring'' in
          if monitoring = [] then Inr []
          else Inr (''http://vmselect-shortterm.'' @ monitoring @ ''.svc:8481/select/0/prometheus''))"

definition bucketQuery :: "string list \<Rightarrow> string" where
  "bucketQuery names =
     ''{__name__=~'' @ [CHR 0x22] @ ''SeaweedFS_s3_bucket_(size|physical_size)_bytes'' @ [CHR 0x22] @ '',bucket=~'' @ [CHR 0x22] @
     joinStr ''|'' names @ [CHR 0x22] @ ''}''"

fun samplesLoop :: "wmEnv \<Rightarrow> promSample list \<Rightarrow> (string \<rightharpoonup> bucketMetrics) \<Rightarrow> (string \<rightharpoonup> bucketMetrics)" where
  "samplesLoop env [] result = result"
| "samplesLoop env (s # ss) result =
     (if psBucket s = [] \<or> psName s = [] then samplesLoop env ss result
      else case psValue s of
        None \<Rightarrow> samplesLoop env ss result
      | Some txt \<Rightarrow>
          (case weBytes env txt of
             None \<Rightarrow> samplesLoop env ss result
           | Some val \<Rightarrow>
               let bm = (case result (psBucket s) of None \<Rightarrow> noMetrics | Some b \<Rightarrow> b);
                   bm' = (if psName s = ''SeaweedFS_s3_bucket_size_bytes'' then bm\<lparr>LogicalSize := val, HasLogical := True\<rparr>
                          else if psName s = ''SeaweedFS_s3_bucket_physical_size_bytes'' then bm\<lparr>PhysicalSize := val, HasPhysical := True\<rparr>
                          else bm) in
               samplesLoop env ss (result(psBucket s \<mapsto> bm'))))"

definition queryAllBucketMetrics :: "wmEnv \<Rightarrow> string \<Rightarrow> string list \<Rightarrow> string + (string \<rightharpoonup> bucketMetrics)" where
  "queryAllBucketMetrics env base names =
     (if base = [] \<or> names = [] then Inr Map.empty
      else try_bind (weQuery env (trimRight CHR ''/'' base @ ''/api/v1/query'') (bucketQuery names)) (\<lambda>(status, samples).
        if status \<noteq> ''success'' then Inl (''Prometheus query finished with status '' @ status)
        else Inr (samplesLoop env samples Map.empty)))"

definition resourceS3StorageBytes :: string where "resourceS3StorageBytes = ''s3-storage-bytes''"
definition resourceS3PhysicalStorageBytes :: string where "resourceS3PhysicalStorageBytes = ''s3-physical-storage-bytes''"

definition bucketResources :: "(string \<rightharpoonup> bucketMetrics) \<Rightarrow> BucketClaim \<Rightarrow> (string \<rightharpoonup> rat) \<Rightarrow> (string \<rightharpoonup> rat)" where
  "bucketResources metrics bc stored =
     (let kept = (\<lambda>k. if k \<in> {resourceS3StorageBytes, resourceS3PhysicalStorageBytes} then stored k else None) in
      case metrics (bcBucket bc) of
        None \<Rightarrow> kept
      | Some bm \<Rightarrow>
          let m1 = (if HasLogical bm then kept(resourceS3StorageBytes \<mapsto> of_int (LogicalSize bm)) else kept) in
          if HasPhysical bm then m1(resourceS3PhysicalStorageBytes \<mapsto> of_int (PhysicalSize bm)) else m1)"

definition bucketWorkload :: "wmEnv \<Rightarrow> WorkloadMonitor \<Rightarrow> (string \<rightharpoonup> bucketMetrics) \<Rightarrow> BucketClaim \<Rightarrow> Workload option \<Rightarrow> Workload" where
  "bucketWorkload env mon metrics bc stored =
     (let w = orBlank stored; labels = (workloadLabels mon (wlLabels w) (moLabels bc))(bucketClassLabel := None) in
      \<lparr>wlLabels = (if bcClass bc \<noteq> [] \<and> weValidLabel env (bcClass bc) then labels(bucketClassLabel \<mapsto> bcClass bc) else labels),
       wlOwners = updateOwnerReferences (wlOwners w) (moRef bc), wlKind = wmKind mon, wlType = wmType mon,
       wlResources = bucketResources metrics bc (wlResources w), wlOperational = bcReady bc\<rparr>)"

definition reconcileBucketClaimForMonitor ::
  "wmEnv \<Rightarrow> WorkloadMonitor \<Rightarrow> (string \<rightharpoonup> bucketMetrics) \<Rightarrow> BucketClaim \<Rightarrow> workloads \<Rightarrow> workloads \<times> string option" where
  "reconcileBucketClaimForMonitor env mon metrics bc ws =
     createOrUpdate env (''bucket-'' @ woName (moRef bc)) (bucketWorkload env mon metrics bc) ws"

text \<open>A loop over objects only logs an error.\<close>

fun workloadLoop :: "('a \<Rightarrow> workloads \<Rightarrow> workloads \<times> string option) \<Rightarrow> 'a list \<Rightarrow> workloads \<Rightarrow> workloads" where
  "workloadLoop f [] ws = ws"
| "workloadLoop f (x # xs) ws = workloadLoop f xs (fst (f x ws))"

subsection \<open>The status\<close>

text \<open>The status of the monitor as it is read again; the last result is the status written.\<close>

definition freshStatus :: "WorkloadMonitor \<Rightarrow> int \<Rightarrow> int \<Rightarrow> bool \<Rightarrow> string \<Rightarrow> WorkloadMonitorStatus" where
  "freshStatus fresh observed available dvRead message =
     (let s = wmStatus fresh;
          enough = (case wmMinReplicas fresh of None \<Rightarrow> True | Some m \<Rightarrow> \<not> available < m);
          msg = (if dvRead then message else msMessage s);
          reason = (if dvRead then (if message \<noteq> [] then ''DataVolumeNotReady'' else []) else msReason s) in
      \<lparr>msOperational = Some (if msg \<noteq> [] then False else enough), msAvailable = available, msObserved = observed,
       msMessage = msg, msReason = reason\<rparr>)"

fun updateStatus :: "wmEnv \<Rightarrow> int \<Rightarrow> int \<Rightarrow> bool \<Rightarrow> string \<Rightarrow> nat \<Rightarrow> nat \<Rightarrow> WorkloadMonitorStatus option \<times> string option" where
  "updateStatus env observed available dvRead message i 0 = (None, Some ''conflict'')"
| "updateStatus env observed available dvRead message i (Suc left) =
     (case weFresh env i of
        Missing \<Rightarrow> (None, Some ''not found'')
      | FetchError e \<Rightarrow> (None, Some e)
      | Found fresh \<Rightarrow>
          let s = freshStatus fresh observed available dvRead message in
          if wmStatus fresh = s then (Some s, None)
          else case weStatus env i of
            StatusOk \<Rightarrow> (Some s, None)
          | StatusError e \<Rightarrow> (None, Some e)
          | StatusConflict \<Rightarrow> updateStatus env observed available dvRead message (Suc i) left)"

definition statusAttempts :: nat where "statusAttempts = 4"

subsection \<open>A pass\<close>

datatype wm_outcome = WmDone | WmRequeue int | WmError "string list"

definition fetchBucketMetrics :: "wmEnv \<Rightarrow> WorkloadMonitor \<Rightarrow> BucketClaim list \<Rightarrow> string + (string \<rightharpoonup> bucketMetrics)" where
  "fetchBucketMetrics env mon bcs =
     try_bind (resolvePrometheusURL env (wmNamespace mon)) (\<lambda>url.
       queryAllBucketMetrics env url (filter (\<lambda>b. b \<noteq> []) (map bcBucket bcs)))"

definition bucketPass :: "wmEnv \<Rightarrow> WorkloadMonitor \<Rightarrow> BucketClaim list \<Rightarrow> workloads \<Rightarrow> workloads \<times> string option" where
  "bucketPass env mon bcs ws =
     (if bcs = [] then (ws, None)
      else case fetchBucketMetrics env mon bcs of
        Inl e \<Rightarrow> (workloadLoop (reconcileBucketClaimForMonitor env mon Map.empty) bcs ws, Some (''fetching bucket size metrics: '' @ e))
      | Inr metrics \<Rightarrow> (workloadLoop (reconcileBucketClaimForMonitor env mon metrics) bcs ws, None))"

definition statusPass ::
  "wmEnv \<Rightarrow> int \<Rightarrow> int \<Rightarrow> bool \<Rightarrow> string \<Rightarrow> dv_error option \<Rightarrow> string option \<Rightarrow> bool \<Rightarrow> WorkloadMonitorStatus option \<times> wm_outcome" where
  "statusPass env observed available dvRead message dvErr metricsErr buckets =
     (case updateStatus env observed available dvRead message 0 statusAttempts of
        (s, Some e) \<Rightarrow> (s, WmError [e])
      | (s, None) \<Rightarrow>
          (case (metricsErr, dvErr) of
             (Some e, Some (DvRead d)) \<Rightarrow> (s, WmError [e, d])
           | (Some e, _) \<Rightarrow> (s, WmError [e])
           | (None, Some (DvRead d)) \<Rightarrow> (s, WmError [d])
           | (None, Some DvSyncing) \<Rightarrow> (s, WmRequeue (5 * second))
           | (None, None) \<Rightarrow> (s, if buckets then WmRequeue (60 * second) else WmDone)))"

definition WorkloadMonitorReconcile :: "wmEnv \<Rightarrow> workloads \<Rightarrow> workloads \<times> WorkloadMonitorStatus option \<times> wm_outcome" where
  "WorkloadMonitorReconcile env ws =
     (case weMonitor env of
        Missing \<Rightarrow> (ws, None, WmDone)
      | FetchError e \<Rightarrow> (ws, None, WmError [e])
      | Found mon \<Rightarrow>
     (case wePods env of Inl e \<Rightarrow> (ws, None, WmError [e]) | Inr pods \<Rightarrow>
     (case podLoop env mon pods ws of (ws1, observed, available) \<Rightarrow>
     (case dataVolumesMessage (weReader env) of (message, notReady, dvRead, dvErr) \<Rightarrow>
     (case weClaims env of Inl e \<Rightarrow> (ws1, None, WmError [e]) | Inr pvcs \<Rightarrow>
     (let ws2 = workloadLoop (reconcilePVCForMonitor env mon notReady dvRead) pvcs ws1 in
      case weServices env of Inl e \<Rightarrow> (ws2, None, WmError [e]) | Inr svcs \<Rightarrow>
     (let ws3 = workloadLoop (reconcileServiceForMonitor env mon) (filter (\<lambda>s. svType s = ''LoadBalancer'') svcs) ws2 in
      case weBuckets env of Inl e \<Rightarrow> (ws3, None, WmError [e]) | Inr bcs \<Rightarrow>
     (case bucketPass env mon bcs ws3 of (ws4, metricsErr) \<Rightarrow>
        (ws4, statusPass env observed available dvRead message dvErr metricsErr (bcs \<noteq> []))))))))))"

subsection \<open>Events and deletions\<close>

text \<open>The monitors that an object is mapped to.\<close>

definition mapObjectToMonitor :: "string + WorkloadMonitor list \<Rightarrow> (string \<rightharpoonup> string) \<Rightarrow> (string \<times> string) list" where
  "mapObjectToMonitor monitors labels =
     (case monitors of
        Inl e \<Rightarrow> []
      | Inr ms \<Rightarrow> map (\<lambda>m. (wmNamespace m, wmName m)) (filter (\<lambda>m. list_all (\<lambda>(k, v). labels k = Some v) (wmSelector m)) ms))"

datatype wl_outcome = WlKept | WlDelete | WlError string

text \<open>The controller of Workloads: \<open>deleteErr\<close> is an error other than not found.\<close>

definition WorkloadReconcile :: "Workload fetched \<Rightarrow> (string \<Rightarrow> WorkloadMonitor fetched) \<Rightarrow> string option \<Rightarrow> wl_outcome" where
  "WorkloadReconcile got getMonitor deleteErr =
     (let del = (case deleteErr of Some e \<Rightarrow> WlError e | None \<Rightarrow> WlDelete) in
      case got of
        Missing \<Rightarrow> WlKept
      | FetchError e \<Rightarrow> WlError e
      | Found w \<Rightarrow>
          (case wlLabels w ''workloads.cozystack.io/monitor'' of
             None \<Rightarrow> del
           | Some name \<Rightarrow>
               (case getMonitor name of Missing \<Rightarrow> del | FetchError e \<Rightarrow> WlError e | Found m \<Rightarrow> WlKept)))"

definition enqueueMonitorsWithDataVolumeVerdict :: "string + WorkloadMonitor list \<Rightarrow> string + (string \<times> string) list" where
  "enqueueMonitorsWithDataVolumeVerdict monitors =
     try_bind monitors (\<lambda>ms. Inr (map (\<lambda>m. (wmNamespace m, wmName m)) (filter (\<lambda>m. msMessage (wmStatus m) \<noteq> []) ms)))"

subsection \<open>What a pass writes\<close>

text \<open>The Workloads of the four kinds of objects have different names.\<close>

definition workloadNames :: "string \<Rightarrow> 'a monitored_scheme list \<Rightarrow> string set" where
  "workloadNames pre xs = (\<lambda>x. pre @ woName (moRef x)) ` set xs"

lemma workloadNames_disjoint:
  "workloadNames ''pod-'' xs \<inter> workloadNames ''pvc-'' ys = {}" "workloadNames ''pod-'' xs \<inter> workloadNames ''svc-'' ys = {}"
  "workloadNames ''pod-'' xs \<inter> workloadNames ''bucket-'' ys = {}" "workloadNames ''pvc-'' xs \<inter> workloadNames ''svc-'' ys = {}"
  "workloadNames ''pvc-'' xs \<inter> workloadNames ''bucket-'' ys = {}" "workloadNames ''svc-'' xs \<inter> workloadNames ''bucket-'' ys = {}"
  by (auto simp: workloadNames_def)

text \<open>The Workload under a name after it was written with a function of the stored one.\<close>

definition written :: "wmEnv \<Rightarrow> string \<Rightarrow> (Workload option \<Rightarrow> Workload) \<Rightarrow> workloads \<Rightarrow> Workload option" where
  "written env name f ws = (if weWriteErr env name = None then Some (f (ws name)) else ws name)"

definition writesOnly :: "wmEnv \<Rightarrow> ('a \<Rightarrow> workloads \<Rightarrow> workloads \<times> string option) \<Rightarrow> ('a \<Rightarrow> string) \<Rightarrow> ('a \<Rightarrow> Workload option \<Rightarrow> Workload) \<Rightarrow> bool" where
  "writesOnly env f name g \<longleftrightarrow> (\<forall>x ws. f x ws = createOrUpdate env (name x) (g x) ws)"

lemma createOrUpdate_get: "fst (createOrUpdate env n g ws) k = (if k = n then written env n g ws else ws k)"
  by (simp add: createOrUpdate_def written_def split: option.split)

lemma workloadLoop_other:
  assumes "writesOnly env f name g" "k \<notin> name ` set xs"
  shows "workloadLoop f xs ws k = ws k"
  using assms(2)
proof (induction xs arbitrary: ws)
  case (Cons x xs)
  then show ?case using assms(1) by (simp add: writesOnly_def createOrUpdate_get)
qed simp

lemma workloadLoop_written:
  assumes "writesOnly env f name g" "distinct (map name xs)" "x \<in> set xs"
  shows "workloadLoop f xs ws (name x) = written env (name x) (g x) ws"
  using assms(2,3)
proof (induction xs arbitrary: ws)
  case (Cons y xs)
  have step: "fst (f y ws) k = (if k = name y then written env (name y) (g y) ws else ws k)" for k
    using assms(1) by (simp add: writesOnly_def createOrUpdate_get)
  show ?case
  proof (cases "x = y")
    case True
    then have "name x \<notin> name ` set xs" using Cons(2) by auto
    then show ?thesis using workloadLoop_other [OF assms(1)] step True by simp
  next
    case False
    then have x: "x \<in> set xs" using Cons(3) by simp
    then have "name x \<in> name ` set xs" by (rule imageI)
    then have n: "name x \<noteq> name y" using Cons(2) by auto
    have "distinct (map name xs)" using Cons(2) by simp
    from Cons(1) [OF this x, of "fst (f y ws)"]
    have "workloadLoop f (y # xs) ws (name x) = written env (name x) (g x) (fst (f y ws))" by simp
    moreover have "fst (f y ws) (name x) = ws (name x)" using n step by simp
    ultimately show ?thesis by (simp add: written_def)
  qed
qed simp

lemma podLoop_result:
  "podLoop env mon pods ws =
     (workloadLoop (reconcilePodForMonitor env mon) pods ws, int (length pods),
      int (length (filter (\<lambda>p. weWriteErr env (''pod-'' @ woName (moRef p)) = None \<and> isPodReady p) pods)))"
proof (induction pods arbitrary: ws)
  case (Cons p pods)
  obtain ws1 e where one: "reconcilePodForMonitor env mon p ws = (ws1, e)" by fastforce
  have "e = None \<longleftrightarrow> weWriteErr env (''pod-'' @ woName (moRef p)) = None"
    using one by (auto simp: reconcilePodForMonitor_def createOrUpdate_def split: option.splits)
  then show ?case using one Cons [of ws1] by simp
qed simp

text \<open>The last known sizes survive: a size is the one that the endpoint reports for the bucket, or else the stored one.\<close>

definition sizeKeys :: "string set" where "sizeKeys = {resourceS3StorageBytes, resourceS3PhysicalStorageBytes}"

definition reportedSize :: "(string \<rightharpoonup> bucketMetrics) \<Rightarrow> string \<Rightarrow> string \<Rightarrow> rat option" where
  "reportedSize metrics bucket key =
     (case metrics bucket of
        None \<Rightarrow> None
      | Some bm \<Rightarrow>
          if key = resourceS3StorageBytes \<and> HasLogical bm then Some (of_int (LogicalSize bm))
          else if key = resourceS3PhysicalStorageBytes \<and> HasPhysical bm then Some (of_int (PhysicalSize bm)) else None)"

definition sizeOf :: "workloads \<Rightarrow> string \<Rightarrow> string \<Rightarrow> rat option" where
  "sizeOf ws name key = (case ws name of None \<Rightarrow> None | Some w \<Rightarrow> wlResources w key)"

lemma bucketResources_size:
  assumes "key \<in> sizeKeys"
  shows "bucketResources metrics bc stored key =
    (case reportedSize metrics (bcBucket bc) key of Some v \<Rightarrow> Some v | None \<Rightarrow> stored key)"
proof -
  have keys: "resourceS3StorageBytes \<noteq> resourceS3PhysicalStorageBytes"
    by (simp add: resourceS3StorageBytes_def resourceS3PhysicalStorageBytes_def)
  show ?thesis using assms keys
    by (cases "metrics (bcBucket bc)") (auto simp: bucketResources_def reportedSize_def sizeKeys_def Let_def)
qed

lemma written_bucket_size:
  assumes "key \<in> sizeKeys"
  shows "(case written env n (bucketWorkload env mon metrics bc) ws of None \<Rightarrow> None | Some w \<Rightarrow> wlResources w key) =
    (case reportedSize metrics (bcBucket bc) key of
       None \<Rightarrow> sizeOf ws n key
     | Some v \<Rightarrow> if weWriteErr env n = None then Some v else sizeOf ws n key)"
  using bucketResources_size [OF assms]
  by (auto simp: written_def bucketWorkload_def sizeOf_def Let_def orBlank_def blankWorkload_def split: option.splits)

lemma names_writesOnly:
  "writesOnly env (reconcilePodForMonitor env mon) (\<lambda>x. ''pod-'' @ woName (moRef x)) (podWorkload env mon)"
  "writesOnly env (reconcilePVCForMonitor env mon notReady dvRead) (\<lambda>x. ''pvc-'' @ woName (moRef x))
     (\<lambda>x. claimWorkload mon x notReady dvRead)"
  "writesOnly env (reconcileServiceForMonitor env mon) (\<lambda>x. ''svc-'' @ woName (moRef x)) (serviceWorkload mon)"
  "writesOnly env (reconcileBucketClaimForMonitor env mon metrics) (\<lambda>x. ''bucket-'' @ woName (moRef x)) (bucketWorkload env mon metrics)"
  by (simp_all add: writesOnly_def reconcilePodForMonitor_def reconcilePVCForMonitor_def reconcileServiceForMonitor_def
      reconcileBucketClaimForMonitor_def)

text \<open>What a pass over these objects leaves under a name.\<close>

definition passWrites :: "wmEnv \<Rightarrow> WorkloadMonitor \<Rightarrow> Pod list \<Rightarrow> Claim list \<Rightarrow> Service list \<Rightarrow> BucketClaim list \<Rightarrow> workloads \<Rightarrow> workloads \<Rightarrow> bool" where
  "passWrites env mon pods pvcs svcs bcs ws ws' \<longleftrightarrow>
     (case dataVolumesMessage (weReader env) of (message, notReady, dvRead, dvErr) \<Rightarrow>
        (\<forall>x \<in> set pods. ws' (''pod-'' @ woName (moRef x)) = written env (''pod-'' @ woName (moRef x)) (podWorkload env mon x) ws) \<and>
        (\<forall>x \<in> set pvcs. ws' (''pvc-'' @ woName (moRef x)) = written env (''pvc-'' @ woName (moRef x)) (claimWorkload mon x notReady dvRead) ws) \<and>
        (\<forall>x \<in> set svcs. ws' (''svc-'' @ woName (moRef x)) = written env (''svc-'' @ woName (moRef x)) (serviceWorkload mon x) ws)) \<and>
     (\<forall>name. name \<notin> workloadNames ''pod-'' pods \<union> workloadNames ''pvc-'' pvcs \<union> workloadNames ''svc-'' svcs \<union> workloadNames ''bucket-'' bcs \<longrightarrow>
        ws' name = ws name)"

text \<open>The sizes of the buckets after a pass: as reported, or as before when the endpoint says nothing about one or
  fails.\<close>

definition sizesKept :: "wmEnv \<Rightarrow> WorkloadMonitor \<Rightarrow> BucketClaim list \<Rightarrow> workloads \<Rightarrow> workloads \<Rightarrow> bool" where
  "sizesKept env mon bcs ws ws' \<longleftrightarrow>
     (\<forall>bc \<in> set bcs. \<forall>key \<in> sizeKeys.
        let name = ''bucket-'' @ woName (moRef bc) in
        sizeOf ws' name key =
          (case fetchBucketMetrics env mon bcs of
             Inl e \<Rightarrow> sizeOf ws name key
           | Inr metrics \<Rightarrow>
               (case reportedSize metrics (bcBucket bc) key of
                  None \<Rightarrow> sizeOf ws name key
                | Some v \<Rightarrow> if weWriteErr env name = None then Some v else sizeOf ws name key)))"

text \<open>The verdict on the monitor, as it was read when its status was written: all Pods seen are counted, those that
  are ready and accounted for are available, and it is operational when enough are and no DataVolume is known to
  hold it back.\<close>

definition verdict :: "wmEnv \<Rightarrow> Pod list \<Rightarrow> WorkloadMonitorStatus \<Rightarrow> bool" where
  "verdict env pods s \<longleftrightarrow>
     msObserved s = int (length pods) \<and>
     msAvailable s = int (length (filter (\<lambda>p. weWriteErr env (''pod-'' @ woName (moRef p)) = None \<and> isPodReady p) pods)) \<and>
     (\<exists>i fresh. weFresh env i = Found fresh \<and>
        (msOperational s = Some True \<longleftrightarrow> msMessage s = [] \<and> (\<forall>m. wmMinReplicas fresh = Some m \<longrightarrow> m \<le> msAvailable s)) \<and>
        (case dataVolumesMessage (weReader env) of (message, notReady, dvRead, dvErr) \<Rightarrow>
           msMessage s = (if dvRead then message else msMessage (wmStatus fresh))))"

lemma updateStatus_fresh:
  assumes "updateStatus env observed available dvRead message i left = (Some s, err)"
  shows "\<exists>i fresh. weFresh env i = Found fresh \<and> s = freshStatus fresh observed available dvRead message"
  using assms
proof (induction left arbitrary: i)
  case (Suc left)
  show ?case
  proof (cases "weFresh env i")
    case (Found fresh)
    show ?thesis
    proof (cases "wmStatus fresh = freshStatus fresh observed available dvRead message \<or> weStatus env i = StatusOk")
      case True
      then have "s = freshStatus fresh observed available dvRead message"
        using Suc(2) Found by (cases "weStatus env i") (auto simp: Let_def split: if_splits)
      then show ?thesis using Found by blast
    next
      case False
      then have "updateStatus env observed available dvRead message (Suc i) left = (Some s, err)"
        using Suc(2) Found by (cases "weStatus env i") (auto simp: Let_def split: if_splits)
      then show ?thesis by (rule Suc(1))
    qed
  qed (use Suc(2) in simp_all)
qed simp

lemma statusPass_status:
  assumes "statusPass env observed available dvRead message dvErr metricsErr buckets = (Some s, out)"
  shows "\<exists>i fresh. weFresh env i = Found fresh \<and> s = freshStatus fresh observed available dvRead message"
proof -
  obtain s1 e1 where u: "updateStatus env observed available dvRead message 0 statusAttempts = (s1, e1)" by fastforce
  have "s1 = Some s" using assms u by (auto simp: statusPass_def split: option.splits dv_error.splits)
  then show ?thesis using updateStatus_fresh u by blast
qed

lemma statusPass_metrics_error: "\<exists>es. snd (statusPass env observed available dvRead message dvErr (Some e) buckets) = WmError es"
  by (auto simp: statusPass_def split: prod.splits option.splits dv_error.splits)

definition distinctObjects :: "'a monitored_scheme list \<Rightarrow> bool" where
  "distinctObjects xs \<longleftrightarrow> distinct (map (\<lambda>x. woName (moRef x)) xs)"

lemma distinctObjects_names: "distinctObjects xs \<Longrightarrow> distinct (map (\<lambda>x. pre @ woName (moRef x)) xs)"
  unfolding distinctObjects_def by (induction xs) auto

lemma distinctObjects_filter: "distinctObjects xs \<Longrightarrow> distinctObjects (filter P xs)"
  unfolding distinctObjects_def by (rule distinct_map_filter)

lemma workloadNames_far:
  assumes "take 3 pre \<noteq> take 3 pre'" "3 \<le> length pre" "3 \<le> length pre'"
  shows "pre @ r \<notin> workloadNames pre' xs"
proof
  assume "pre @ r \<in> workloadNames pre' xs"
  then obtain n where "pre @ r = pre' @ n" by (auto simp: workloadNames_def)
  then have "take 3 (pre @ r) = take 3 (pre' @ n)" by simp
  then show False using assms by simp
qed

lemma written_same: "a n = b n \<Longrightarrow> written env n g a = written env n g b"
  by (simp add: written_def)

lemma four_loops:
  fixes pods :: "Pod list" and pvcs :: "Claim list" and svcs :: "Service list" and bcs :: "BucketClaim list"
  assumes "distinctObjects pods" "distinctObjects pvcs" "distinctObjects svcs" "distinctObjects bcs"
    and "ws4 = workloadLoop (reconcileBucketClaimForMonitor env mon metrics) bcs (workloadLoop (reconcileServiceForMonitor env mon) svcs
      (workloadLoop (reconcilePVCForMonitor env mon notReady dvRead) pvcs (workloadLoop (reconcilePodForMonitor env mon) pods ws)))"
  shows "x \<in> set pods \<Longrightarrow> ws4 (''pod-'' @ woName (moRef x)) = written env (''pod-'' @ woName (moRef x)) (podWorkload env mon x) ws"
    and "y \<in> set pvcs \<Longrightarrow> ws4 (''pvc-'' @ woName (moRef y)) =
      written env (''pvc-'' @ woName (moRef y)) (claimWorkload mon y notReady dvRead) ws"
    and "z \<in> set svcs \<Longrightarrow> ws4 (''svc-'' @ woName (moRef z)) = written env (''svc-'' @ woName (moRef z)) (serviceWorkload mon z) ws"
    and "b \<in> set bcs \<Longrightarrow> ws4 (''bucket-'' @ woName (moRef b)) =
      written env (''bucket-'' @ woName (moRef b)) (bucketWorkload env mon metrics b) ws"
    and "name \<notin> workloadNames ''pod-'' pods \<union> workloadNames ''pvc-'' pvcs \<union> workloadNames ''svc-'' svcs \<union> workloadNames ''bucket-'' bcs \<Longrightarrow>
      ws4 name = ws name"
proof -
  let ?p = "workloadLoop (reconcilePodForMonitor env mon) pods ws"
  let ?c = "workloadLoop (reconcilePVCForMonitor env mon notReady dvRead) pvcs ?p"
  let ?s = "workloadLoop (reconcileServiceForMonitor env mon) svcs ?c"
  have other1: "?p n = ws n" if "n \<notin> workloadNames ''pod-'' pods" for n
    using that unfolding workloadNames_def by (rule workloadLoop_other [OF names_writesOnly(1)])
  have other2: "?c n = ?p n" if "n \<notin> workloadNames ''pvc-'' pvcs" for n
    using that unfolding workloadNames_def by (rule workloadLoop_other [OF names_writesOnly(2)])
  have other3: "?s n = ?c n" if "n \<notin> workloadNames ''svc-'' svcs" for n
    using that unfolding workloadNames_def by (rule workloadLoop_other [OF names_writesOnly(3)])
  have other4: "ws4 n = ?s n" if "n \<notin> workloadNames ''bucket-'' bcs" for n
    using that unfolding workloadNames_def assms(5) by (rule workloadLoop_other [OF names_writesOnly(4)])
  note other = other1 other2 other3 other4
  show "name \<notin> workloadNames ''pod-'' pods \<union> workloadNames ''pvc-'' pvcs \<union> workloadNames ''svc-'' svcs \<union> workloadNames ''bucket-'' bcs \<Longrightarrow>
      ws4 name = ws name" by (simp add: other)
  show "ws4 (''pod-'' @ woName (moRef x)) = written env (''pod-'' @ woName (moRef x)) (podWorkload env mon x) ws" if "x \<in> set pods"
  proof -
    let ?n = "''pod-'' @ woName (moRef x)"
    have "ws4 ?n = ?s ?n" by (rule other4, rule workloadNames_far) simp_all
    also have "\<dots> = ?c ?n" by (rule other3, rule workloadNames_far) simp_all
    also have "\<dots> = ?p ?n" by (rule other2, rule workloadNames_far) simp_all
    also have "\<dots> = written env ?n (podWorkload env mon x) ws"
      by (rule workloadLoop_written [OF names_writesOnly(1) distinctObjects_names [OF assms(1)] that])
    finally show ?thesis .
  qed
  show "ws4 (''pvc-'' @ woName (moRef y)) = written env (''pvc-'' @ woName (moRef y)) (claimWorkload mon y notReady dvRead) ws"
    if "y \<in> set pvcs"
  proof -
    let ?n = "''pvc-'' @ woName (moRef y)"
    have "ws4 ?n = ?s ?n" by (rule other4, rule workloadNames_far) simp_all
    also have "\<dots> = ?c ?n" by (rule other3, rule workloadNames_far) simp_all
    also have "\<dots> = written env ?n (claimWorkload mon y notReady dvRead) ?p"
      by (rule workloadLoop_written [OF names_writesOnly(2) distinctObjects_names [OF assms(2)] that])
    also have "\<dots> = written env ?n (claimWorkload mon y notReady dvRead) ws"
      by (rule written_same, rule other1, rule workloadNames_far) simp_all
    finally show ?thesis .
  qed
  show "ws4 (''svc-'' @ woName (moRef z)) = written env (''svc-'' @ woName (moRef z)) (serviceWorkload mon z) ws" if "z \<in> set svcs"
  proof -
    let ?n = "''svc-'' @ woName (moRef z)"
    have before: "?c ?n = ws ?n" by (rule trans [OF other2 other1]; rule workloadNames_far) simp_all
    have "ws4 ?n = ?s ?n" by (rule other4, rule workloadNames_far) simp_all
    also have "\<dots> = written env ?n (serviceWorkload mon z) ?c"
      by (rule workloadLoop_written [OF names_writesOnly(3) distinctObjects_names [OF assms(3)] that])
    also have "\<dots> = written env ?n (serviceWorkload mon z) ws" by (rule written_same, rule before)
    finally show ?thesis .
  qed
  show "ws4 (''bucket-'' @ woName (moRef b)) = written env (''bucket-'' @ woName (moRef b)) (bucketWorkload env mon metrics b) ws"
    if "b \<in> set bcs"
  proof -
    let ?n = "''bucket-'' @ woName (moRef b)"
    have before: "?s ?n = ws ?n" by (rule trans [OF other3 trans [OF other2 other1]]; rule workloadNames_far) simp_all
    have "ws4 ?n = written env ?n (bucketWorkload env mon metrics b) ?s"
      unfolding assms(5) by (rule workloadLoop_written [OF names_writesOnly(4) distinctObjects_names [OF assms(4)] that])
    also have "\<dots> = written env ?n (bucketWorkload env mon metrics b) ws" by (rule written_same, rule before)
    finally show ?thesis .
  qed
qed


subsection \<open>An example\<close>

text \<open>A monitor with a ready Pod and a bucket of a known size, whose endpoint does not answer.\<close>

definition demoMonitor :: WorkloadMonitor where
  "demoMonitor = \<lparr>wmName = ''db'', wmNamespace = ''tenant-a'', wmLabels = Map.empty, wmSelector = [(''app'', ''db'')], wmKind = ''postgres'',
     wmType = ''postgres'', wmMinReplicas = Some 1,
     wmStatus = \<lparr>msOperational = None, msAvailable = 0, msObserved = 0, msMessage = [], msReason = []\<rparr>\<rparr>"

definition demoOwnerRef :: "string \<Rightarrow> wlOwner" where
  "demoOwnerRef n = \<lparr>woVersion = ''v1'', woKind = ''Pod'', woName = n, woUID = n\<rparr>"

definition demoPod :: Pod where
  "demoPod = \<lparr>moRef = demoOwnerRef ''db-0'', moLabels = [''app'' \<mapsto> ''db''], moAnnotations = None, pdConditions = [(''Ready'', ''True'')],
     pdRequests = [[(''cpu'', 1)], [(''cpu'', 2)]]\<rparr>"

definition demoBucket :: BucketClaim where
  "demoBucket = \<lparr>moRef = demoOwnerRef ''data'', moLabels = [''app'' \<mapsto> ''db''], moAnnotations = None, bcClass = [], bcReady = True,
     bcBucket = ''bucket-1''\<rparr>"

definition demoMonitorEnv :: wmEnv where
  "demoMonitorEnv = \<lparr>weMonitor = Found demoMonitor, wePods = Inr [demoPod], weReader = NoReader, weClaims = Inr [], weServices = Inr [],
     weBuckets = Inr [demoBucket], weWriteErr = (\<lambda>n. None), weEndpoint = ''http://m'', weNamespace = (\<lambda>n. Missing),
     weQuery = (\<lambda>u q. Inl ''connection refused''), weBytes = (\<lambda>s. None), weJson = (\<lambda>s. None), weQuantity = (\<lambda>s. None),
     weValidLabel = (\<lambda>s. True), weFresh = (\<lambda>i. Found demoMonitor), weStatus = (\<lambda>i. StatusOk)\<rparr>"

definition demoWorkloads :: workloads where
  "demoWorkloads = [''bucket-data'' \<mapsto> blankWorkload\<lparr>wlResources := [resourceS3StorageBytes \<mapsto> 10]\<rparr>]"

lemmas demoMonitor_defs = demoMonitor_def demoOwnerRef_def demoPod_def demoBucket_def demoMonitorEnv_def demoWorkloads_def


subsection \<open>Workloads and their monitors\<close>

lemma workloadMonitorLabel_other:
  "workloadMonitorLabel \<noteq> instanceTypeLabel" "workloadMonitorLabel \<noteq> instanceProfileLabel" "workloadMonitorLabel \<noteq> bucketClassLabel"
  by (simp_all add: workloadMonitorLabel_def instanceTypeLabel_def instanceProfileLabel_def bucketClassLabel_def)

text \<open>A Workload names the monitor it was written for, so the controller of Workloads keeps it as long as that exists.\<close>

lemma written_names_monitor:
  "wlLabels (podWorkload env mon pod w) workloadMonitorLabel = Some (wmName mon)"
  "wlLabels (claimWorkload mon pvc notReady dvRead w) workloadMonitorLabel = Some (wmName mon)"
  "wlLabels (serviceWorkload mon svc w) workloadMonitorLabel = Some (wmName mon)"
  "wlLabels (bucketWorkload env mon metrics bc w) workloadMonitorLabel = Some (wmName mon)"
  by (simp_all add: podWorkload_def claimWorkload_def serviceWorkload_def bucketWorkload_def workloadLabels_def Let_def map_add_def
      getWorkloadMetadata_def workloadMonitorLabel_other)

lemma monitored_workload_kept:
  assumes "wlLabels w workloadMonitorLabel = Some (wmName mon)" "getMonitor (wmName mon) = Found mon"
  shows "WorkloadReconcile (Found w) getMonitor e = WlKept"
  using assms by (simp add: WorkloadReconcile_def workloadMonitorLabel_def workloadLabelPrefix_def)

lemma orphan_workload_deleted:
  assumes "wlLabels w workloadMonitorLabel = Some n" "getMonitor n = Missing"
  shows "WorkloadReconcile (Found w) getMonitor None = WlDelete"
  using assms by (simp add: WorkloadReconcile_def workloadMonitorLabel_def workloadLabelPrefix_def)

subsection \<open>What the pass does not do\<close>

text \<open>A load balancer without annotations is counted under an empty pool instead of the default one.\<close>

lemma service_without_annotations:
  assumes "moAnnotations svc = None"
  shows "dom (serviceResources svc) = {''.ipaddresspool.metallb.io/requests.ipaddresses''}"
  using assms by (simp add: serviceResources_def)

text \<open>A label that the source object loses stays on its Workload.\<close>

lemma lost_label_stays:
  assumes "moLabels pod k = None" "moAnnotations pod = None" "cutPrefix k workloadLabelPrefix = None" "wlLabels w k = Some v" "k \<noteq> workloadMonitorLabel"
  shows "wlLabels (podWorkload env mon pod (Some w)) k = Some v"
proof -
  have "getMonitorLabels mon k = None" using assms(3) by (simp add: getMonitorLabels_def)
  moreover have "getWorkloadMetadata None k = None" by (simp add: getWorkloadMetadata_def annotationOf_def)
  ultimately show ?thesis using assms by (simp add: podWorkload_def orBlank_def workloadLabels_def Let_def map_add_def)
qed

text \<open>The owners of a Workload are the source objects, never the monitor.\<close>

lemma owners_are_sources: "set (updateOwnerReferences owners src) \<subseteq> insert src (set owners)"
  by (auto simp: updateOwnerReferences_def)

text \<open>Writes of Workloads that fail do not make a pass fail.\<close>

lemma failed_writes_forgotten:
  assumes "weMonitor env = Found mon" "wePods env = Inr pods" "weClaims env = Inr pvcs" "weServices env = Inr svcs" "weBuckets env = Inr []"
    and "weReader env = NoReader" "weFresh env 0 = Found fresh" "weStatus env 0 = StatusOk"
  shows "snd (snd (WorkloadMonitorReconcile env ws)) = WmDone"
  using assms by (simp add: WorkloadMonitorReconcile_def podLoop_result dataVolumesMessage_def bucketPass_def statusPass_def statusAttempts_def
      numeral_eq_Suc Let_def)

end
