(* ===== verification/Spec2Isabelle.thy ===== *)
theory Spec2Isabelle
  imports Shard_Provisioner Quota_Admission SG_Membership Package_Delete Backup_Plan Package_Source App_Watch SG_Watch Tenant_Namespaces Tenant_Modules Tap_Materializer Lineage_Webhook Workload_Monitor
begin

text \<open>
  A verification development for Cozystack, a platform on Kubernetes: its controllers, its aggregated
  API server and its command line tools, all written in Go. The theories translate the Go code that
  decides something; this file collects them.

  \<^bold>\<open>The program.\<close> Tenants form a tree and own one namespace each. The aggregated API server shows
  applications (and SecurityGroups) that are stored as Flux HelmReleases (and CiliumNetworkPolicies);
  its admission rules look at names, values and the quota a tenant may still give away. The flux shard
  operator spreads the HelmReleases of tenants over several helm-controllers. The quota controller
  turns declared tenant quotas into ResourceQuotas. The package operator installs the platform itself:
  it renders PackageSources into artifacts and Packages into HelmReleases and sets default memory
  limits of system namespaces; \<open>cozypkg\<close> writes and deletes Packages. Backup jobs, backup plans and
  restores run against applications and must not overlap. A tap connects a repository of packages: its artifact
  is checked, extracted and turned into PackageSources. An admission webhook labels the objects of a
  tenant with the application they belong to and decides which Secrets the tenant sees. A command compares two checkouts and reports
  breaking changes of the API.

  \<^bold>\<open>Theories and the code they model.\<close>
  \<^item> \<open>Go_Prelude\<close>: strings, digits, maps, sorting and saturating arithmetic of Go and of its standard
    library, with the lemmas and \<open>named_theorems\<close> the other theories use.
  \<^item> \<open>Shard_Config\<close>, \<open>Shard_Placement\<close>, \<open>Shard_Controller\<close>, \<open>Shard_Provisioner\<close>:
    \<open>internal/fluxshardoperator\<close>. \<open>ComputePlacement\<close> is a function of tenants, shards and the stored
    assignment; \<open>PlacementReconcile\<close> and \<open>ShardSetReconcile\<close> are passes over the HelmReleases and
    Deployments, which they return updated; \<open>webhook\<close> is the mutating admission handler. The number
    of shards of both sides is compared in \<open>placement_within_provisioned\<close>.
  \<^item> \<open>Tenant_Tree\<close>, \<open>Tenant_Pools\<close>: the namespace encoding of the tenant tree, which the code has three
    times, the quota pools and the sweep of the quota controller (\<open>internal/controller/tenantquota\<close>).
  \<^item> \<open>Quota_Admission\<close>: the quota gate and the name rules of the API server
    (\<open>pkg/registry/apps/application/quota.go\<close>, \<open>validation\<close>).
  \<^item> \<open>Registry_Common\<close>: field selectors, resource versions and the end-of-initial-events marker that the
    storages of the API server share (\<open>pkg/registry\<close>), and the loop of their watches.
  \<^item> \<open>Security_Group\<close>, \<open>SG_Membership\<close>: the SecurityGroup storage and its validator
    (\<open>pkg/registry/sdn/securitygroup\<close>) and the controller that labels the member pods
    (\<open>internal/securitygroupcontroller\<close>), over an explicit store of pods.
  \<^item> \<open>Release_Config\<close>, \<open>App_Values\<close>, \<open>App_Convert\<close>, \<open>App_Storage\<close>: the application storage
    (\<open>pkg/registry/apps/application\<close>, \<open>pkg/config\<close>): values as JSON trees, both conversions, and the
    requests Create, Get, List, Update with its conflict retries, and Delete.
  \<^item> \<open>App_Watch\<close>, \<open>SG_Watch\<close>: the watches of both storages as loops over the events of the backing watches;
    \<open>App_Watch\<close> has two of them and holds changes of monitors back until the initial events are over.
  \<^item> \<open>Tenant_Secrets\<close>, \<open>Tenant_Namespaces\<close>, \<open>Tenant_Modules\<close>: the read and write views of
    \<open>pkg/registry/core\<close> with their watches.
  \<^item> \<open>Lineage\<close>, \<open>Lineage_Webhook\<close>: the ownership walk with its cache (\<open>pkg/lineage\<close>), the webhook that labels
    objects (\<open>internal/lineagecontrollerwebhook\<close>) and the rule which definition owns a kind
    (\<open>internal/shared/appdefowner\<close>). What the webhook marks is what \<open>Tenant_Secrets\<close> shows.
  \<^item> \<open>Package_Order\<close>, \<open>Package_Install\<close>, \<open>Package_Delete\<close>: \<open>cozypkg add\<close> and \<open>cozypkg del\<close>
    (\<open>cmd/cozypkg/cmd\<close>); the topological sort is the loop of Kahn's algorithm on explicit in-degrees.
  \<^item> \<open>Package_Operator\<close>, \<open>Package_Source\<close>, \<open>Memory_Defaults\<close>: the two controllers of
    \<open>internal/operator\<close> and the default memory limits.
  \<^item> \<open>Tap_Artifact\<close>, \<open>Tap_Materializer\<close>: the third controller of \<open>internal/operator\<close>: the check and the extraction
    of an artifact, on paths as lists of components, and the pass that applies, registers and removes
    the sources of a tap. A pass is modelled by the list of its writes.
  \<^item> \<open>Backup_Target\<close>, \<open>Restore_Job\<close>, \<open>Backup_Credentials\<close>, \<open>Backup_Job\<close>, \<open>Backup_Plan\<close>:
    \<open>internal/backupcontroller\<close>: the lock between backups and restores, both job controllers with the
    driver of the Job strategy, the projection of credentials and the schedule.
  \<^item> \<open>Api_Schema\<close>, \<open>Api_Gate\<close>: \<open>internal/apigate\<close> and \<open>cmd/api-gate\<close>.

  \<^bold>\<open>How the models are built.\<close> A struct is a \<open>record\<close>, a tagged choice a \<open>datatype\<close>, an error the left
  side of a sum. A reconcile pass is a function from the state of the cluster it may write and a
  record of what it reads (with the answers of calls that may fail) to the new state and the outcome;
  it has a branch for every early return. An \<open>int64\<close> that may overflow is a number reduced modulo
  \<open>2 ^ 64\<close>, or a saturating one where Go saturates. Where several processes act on the same
  objects, the passes are the steps of an \<open>inductive\<close> relation, with stale reads and failing writes
  among them, and the properties hold in every reachable state (\<open>Restore_Job\<close>, \<open>Memory_Defaults\<close>,
  \<open>Package_Source\<close>). What the code takes from a library without owning it (JSON and YAML codecs, cron
  and address parsers, regular expressions, Kubernetes validation, the text of times and quantities)
  is an argument; what a property needs of it is a hypothesis, and the witness of the property
  instantiates it.

  \<^bold>\<open>Interfaces.\<close> A contract that several operations share is a \<open>locale\<close>, interpreted on each of
  them in their own theory: \<open>index_codec\<close> (names of shards and of their Deployments),
  \<open>extremum_scan\<close> (least and most loaded shard), \<open>tenant_tree\<close> (the parent and pool functions of the API
  server and of the quota controller), \<open>peer_codec\<close> (both kinds of peers of a SecurityGroup rule),
  \<open>initial_events\<close>, \<open>translating_watch\<close> and \<open>tracking_watch\<close> (what the watches promise a client),
  \<open>kahn_graph\<close> (dependencies for the installation, dependents for the deletion), and
  \<open>restore_drivers\<close> and \<open>backup_driver\<close> (what the job controllers ask of a strategy).

  \<^bold>\<open>What the lemmas show.\<close> For each component: the effect of the operations on every branch; the
  invariants their steps keep; agreement with a specification that does not mention the algorithm
  (balance and totality of placements, conservation in pools, the order of installations, the
  applications a list shows, the objects above an object, the verdict of the API gate, the refinement of an abstract installation
  by a pass of the Package controller); round trips of the conversions; exclusion between backups and
  restores; and bounds (five moves per sync, five recovery attempts, retries of an update).

  \<^bold>\<open>Bounds and fuel.\<close> Recursion is structural or has a \<open>termination\<close> proof: the walk up the tenant
  tree lowers the depth of the namespace, the topological sort lowers the number of pending in-degrees, the
  comparison of schemas and the walks over values descend into the schema, the scanners of the API gate
  shorten the text. \<open>updateAttempts\<close> is 4, the steps of \<open>retry.DefaultBackoff\<close>: the fourth conflict is the answer.
  The five attempts of a recovery are a constant of \<open>packagesource_reconciler.go\<close>, those of the deletion of a registration
  one of \<open>tapmaterializer_reconciler.go\<close>, and the rounds of a rebalancing have the bound of the code.
  The ownership walk runs on fuel: an object is visited once, so fuel above the number of
  objects that can be reached is enough (\<open>search_returns\<close>, \<open>walk_exact\<close>), and running out of it is the value \<open>None\<close>.

  \<^bold>\<open>What modelling showed.\<close> The manifest lists behaviours where code and comment disagree or where the
  code does not do what it means to; each has a theorem, for example the wrap-around of a scaled
  quota, the rounding of large numbers in values, or an update that overwrites a newer one.

  \<^bold>\<open>Not modelled, and why.\<close> Generated code (deep copies, OpenAPI definitions, clients) and type
  declarations that no modelled operation reads; flag parsing, manager wiring, watches set up with a
  manager, metrics and event text; printing and tables; commands that only transfer files or call
  other programs; the backup drivers of database operators, of which each is a protocol with a
  third-party operator (they are an argument of the job controllers); the views of taps and options and the tables of the API server; the
  monitor of workloads; the tenant gateway, replication of
  certificates and Secrets, log routing and VM migration, which are separate controllers without an
  effect on the modelled ones.
\<close>

end
